(* ===== verification/Prelude.thy ===== *)
theory Prelude
  imports Complex_Main
    "HOL-Library.AList"
    "HOL-Library.Sublist"
    "HOL-Library.Char_ord"
    "HOL-Library.List_Lexorder"
    "HOL-Library.Product_Lexorder"
begin

text \<open>
  Shared ground of the development: the Python values the components pass around and the
  generic facts about them.

  \<^item> Time stamps and durations are \<open>time\<close>, exact rationals.  Every finite Python
    \<open>float\<close> is one; rounding of \<open>+\<close> and \<open>-\<close> is not modelled.  A float that a caller may
    hand in unchecked is a \<open>pyfloat\<close>, which also has the two infinities and \<open>nan\<close>.
  \<^item> A Python \<open>str\<close> is a \<open>string\<close>; a character is a code point below 256, and the string
    methods (\<open>strip\<close>, \<open>split\<close>, \<open>join\<close>, \<open>startswith\<close>, \<open>replace\<close>, \<open>isprintable\<close>) are
    written out for that range.
  \<^item> A Python \<open>dict\<close> is an association list in insertion order: \<open>d[k] = v\<close> is
    \<open>AList.update\<close> (in place for a key that is there, at the end otherwise),
    \<open>del d[k]\<close> and \<open>d.pop(k, None)\<close> are \<open>AList.delete\<close>, \<open>d.get(k)\<close> is \<open>map_of\<close>.
    \<open>dict_ok\<close> says that no key occurs twice.
\<close>

section \<open>Collections of rules\<close>

named_theorems pystr_simps \<open>evaluation and characterisation of the Python string methods\<close>
named_theorems frame_simps \<open>fields that an operation leaves alone\<close>
named_theorems keeps_intro \<open>operations that keep a component's invariant\<close>

section \<open>Numbers\<close>

type_synonym time = rat

datatype pyfloat = Finite time | PosInf | NegInf | NaN

section \<open>Strings\<close>

abbreviation code_of :: "char \<Rightarrow> nat" where
  "code_of c \<equiv> of_char c"

definition py_isspace :: "char \<Rightarrow> bool" where
  "py_isspace c \<longleftrightarrow>
     (9 \<le> code_of c \<and> code_of c \<le> 13) \<or> (28 \<le> code_of c \<and> code_of c \<le> 32)
     \<or> code_of c = 133 \<or> code_of c = 160"

definition py_char_printable :: "char \<Rightarrow> bool" where
  "py_char_printable c \<longleftrightarrow>
     (32 \<le> code_of c \<and> code_of c < 127) \<or> (160 < code_of c \<and> code_of c \<noteq> 173)"

definition py_isprintable :: "string \<Rightarrow> bool" where
  "py_isprintable s \<longleftrightarrow> list_all py_char_printable s"

definition py_strip :: "string \<Rightarrow> string" where
  "py_strip s = rev (dropWhile py_isspace (rev (dropWhile py_isspace s)))"

fun py_split :: "char \<Rightarrow> string \<Rightarrow> string list" where
  "py_split sep [] = [[]]"
| "py_split sep (c # cs) =
     (if c = sep then [] # py_split sep cs
      else (case py_split sep cs of [] \<Rightarrow> [[c]] | w # ws \<Rightarrow> (c # w) # ws))"

fun py_join :: "char \<Rightarrow> string list \<Rightarrow> string" where
  "py_join sep [] = []"
| "py_join sep [w] = w"
| "py_join sep (w # ws) = w @ sep # py_join sep ws"

definition py_startswith :: "string \<Rightarrow> string \<Rightarrow> bool" where
  "py_startswith s p \<longleftrightarrow> prefix p s"

definition py_contains :: "string \<Rightarrow> string \<Rightarrow> bool" where
  "py_contains s sub \<longleftrightarrow> (\<exists>n \<in> set [0..<Suc (length s)]. prefix sub (drop n s))"

definition py_replace_char :: "char \<Rightarrow> char \<Rightarrow> string \<Rightarrow> string" where
  "py_replace_char a b s = map (\<lambda>c. if c = a then b else c) s"

definition quoted :: "string \<Rightarrow> string" where
  "quoted s = CHR 0x27 # s @ [CHR 0x27]"

fun show_nat_aux :: "nat \<Rightarrow> string" where
  "show_nat_aux n =
     (if n < 10 then [char_of (48 + n)] else show_nat_aux (n div 10) @ [char_of (48 + n mod 10)])"

declare show_nat_aux.simps [simp del]

definition show_int :: "int \<Rightarrow> string" where
  "show_int i = (if i < 0 then CHR ''-'' # show_nat_aux (nat (- i)) else show_nat_aux (nat i))"

lemma py_split_nonempty [simp]: "py_split sep s \<noteq> []"
  by (induction s) (auto split: list.splits)

lemma py_split_no_sep: "w \<in> set (py_split sep s) \<Longrightarrow> sep \<notin> set w"
proof (induction s arbitrary: w)
  case (Cons c cs)
  obtain v vs where split: "py_split sep cs = v # vs"
    using py_split_nonempty neq_Nil_conv by metis
  with Cons show ?case by (fastforce split: if_splits)
qed simp

lemma py_join_split: "py_join sep (py_split sep s) = s"
proof (induction s)
  case (Cons c cs)
  obtain v vs where split: "py_split sep cs = v # vs"
    using py_split_nonempty neq_Nil_conv by metis
  with Cons.IH show ?case by (cases vs) auto
qed simp

lemma py_split_word: "sep \<notin> set w \<Longrightarrow> py_split sep w = [w]"
  by (induction w) auto

lemma py_split_append:
  "sep \<notin> set w \<Longrightarrow> py_split sep (w @ sep # s) = w # py_split sep s"
  by (induction w) auto

lemma py_split_join:
  assumes "ws \<noteq> []" and "\<forall>w \<in> set ws. sep \<notin> set w"
  shows "py_split sep (py_join sep ws) = ws"
  using assms
proof (induction sep ws rule: py_join.induct)
  case (3 sep w v vs)
  then show ?case by (simp add: py_split_append)
qed (auto simp: py_split_word)

lemma py_join_eq_Nil: "py_join sep ws = [] \<longleftrightarrow> ws = [] \<or> ws = [[]]"
  by (induction sep ws rule: py_join.induct) auto

lemma dropWhile_rev_set: "set (dropWhile P (rev xs)) \<subseteq> set xs"
  using set_dropWhileD by fastforce

lemma set_py_strip: "set (py_strip s) \<subseteq> set s"
  unfolding py_strip_def by (auto dest!: set_dropWhileD)

lemma py_strip_id: "s \<noteq> [] \<Longrightarrow> \<not> py_isspace (hd s) \<Longrightarrow> \<not> py_isspace (last s) \<Longrightarrow> py_strip s = s"
proof -
  assume ne: "s \<noteq> []" and hd: "\<not> py_isspace (hd s)" and last: "\<not> py_isspace (last s)"
  have "dropWhile py_isspace s = s" using ne hd by (cases s) auto
  moreover have "dropWhile py_isspace (rev s) = rev s"
    using ne last by (cases s rule: rev_cases) auto
  ultimately show ?thesis by (simp add: py_strip_def)
qed

lemma py_strip_hd: "py_strip s \<noteq> [] \<Longrightarrow> \<not> py_isspace (hd (py_strip s))"
proof -
  assume ne: "py_strip s \<noteq> []"
  define t where "t = dropWhile py_isspace s"
  define u where "u = dropWhile py_isspace (rev t)"
  have strip: "py_strip s = rev u" by (simp add: py_strip_def t_def u_def)
  with ne have "u \<noteq> []" by simp
  have suf: "suffix u (rev t)" unfolding u_def by (rule suffix_dropWhile)
  then have "prefix (rev u) t" by (simp add: suffix_to_prefix)
  with \<open>u \<noteq> []\<close> have "t \<noteq> []" and "hd (rev u) = hd t"
    by (auto simp: prefix_def hd_append)
  moreover from \<open>t \<noteq> []\<close> have "\<not> py_isspace (hd t)"
    unfolding t_def by (rule hd_dropWhile)
  ultimately show ?thesis using strip by simp
qed

lemma py_strip_last: "py_strip s \<noteq> [] \<Longrightarrow> \<not> py_isspace (last (py_strip s))"
proof -
  assume "py_strip s \<noteq> []"
  then have "dropWhile py_isspace (rev (dropWhile py_isspace s)) \<noteq> []" by (simp add: py_strip_def)
  then show ?thesis unfolding py_strip_def by (simp only: last_rev hd_dropWhile not_False_eq_True)
qed

lemma py_strip_idem [simp]: "py_strip (py_strip s) = py_strip s"
proof (cases "py_strip s = []")
  case True
  then show ?thesis by (simp only: True) (simp add: py_strip_def)
next
  case False
  then show ?thesis by (rule py_strip_id) (use False in \<open>simp_all add: py_strip_hd py_strip_last\<close>)
qed

lemma py_contains_iff: "py_contains s sub \<longleftrightarrow> sublist sub s"
proof
  assume "py_contains s sub"
  then obtain n where "prefix sub (drop n s)" by (auto simp: py_contains_def)
  then obtain t where "s = take n s @ sub @ t" by (metis append_take_drop_id prefix_def)
  then show "sublist sub s" by (metis sublist_def)
next
  assume "sublist sub s"
  then obtain p t where s: "s = p @ sub @ t" by (auto simp: sublist_def)
  then have "prefix sub (drop (length p) s)" by simp
  moreover have "length p \<in> set [0..<Suc (length s)]" using s by simp
  ultimately show "py_contains s sub" unfolding py_contains_def by blast
qed

section \<open>Dictionaries\<close>

type_synonym ('k, 'v) pydict = "('k \<times> 'v) list"

abbreviation dget :: "('k, 'v) pydict \<Rightarrow> 'k \<Rightarrow> 'v option" where
  "dget d k \<equiv> map_of d k"

abbreviation dset :: "'k \<Rightarrow> 'v \<Rightarrow> ('k, 'v) pydict \<Rightarrow> ('k, 'v) pydict" where
  "dset k v d \<equiv> AList.update k v d"

abbreviation ddel :: "'k \<Rightarrow> ('k, 'v) pydict \<Rightarrow> ('k, 'v) pydict" where
  "ddel k d \<equiv> AList.delete k d"

definition dict_ok :: "('k, 'v) pydict \<Rightarrow> bool" where
  "dict_ok d \<longleftrightarrow> distinct (map fst d)"

lemma dict_ok_empty [simp]: "dict_ok []"
  by (simp add: dict_ok_def)

lemma dict_ok_dset [simp, intro]: "dict_ok d \<Longrightarrow> dict_ok (dset k v d)"
  by (simp add: dict_ok_def distinct_update)

lemma dict_ok_ddel [simp, intro]: "dict_ok d \<Longrightarrow> dict_ok (ddel k d)"
  by (simp add: dict_ok_def distinct_delete)

lemma dict_ok_filter [simp, intro]: "dict_ok d \<Longrightarrow> dict_ok (filter P d)"
  by (simp add: dict_ok_def distinct_map_filter)

lemma dget_dset [simp]: "dget (dset k v d) k' = (if k' = k then Some v else dget d k')"
  by (simp add: update_conv')

lemma dget_ddel [simp]: "dget (ddel k d) k' = (if k' = k then None else dget d k')"
  by (simp add: delete_conv')

lemma dict_mem_iff: "dict_ok d \<Longrightarrow> (k, v) \<in> set d \<longleftrightarrow> dget d k = Some v"
  unfolding dict_ok_def by (metis map_of_SomeD map_of_is_SomeI)

lemma dget_filter:
  "dict_ok d \<Longrightarrow>
   dget (filter P d) k = (case dget d k of None \<Rightarrow> None | Some v \<Rightarrow> if P (k, v) then Some v else None)"
proof (induction d)
  case (Cons kv d)
  obtain k' v' where kv: "kv = (k', v')" by fastforce
  with Cons.prems have "dict_ok d" and "dget d k' = None"
    by (auto simp: dict_ok_def map_of_eq_None_iff)
  with Cons.IH kv show ?case by (auto split: option.splits)
qed simp

lemma dict_values_iff: "dict_ok d \<Longrightarrow> v \<in> set (map snd d) \<longleftrightarrow> (\<exists>k. dget d k = Some v)"
  by (force simp: dict_mem_iff [symmetric] image_iff)

lemma length_dset:
  "length (dset k v d) = (if dget d k = None then Suc (length d) else length d)"
  by (induction d) auto

lemma ddel_absent: "dget d k = None \<Longrightarrow> ddel k d = d"
  by (rule delete_id) (simp add: map_of_eq_None_iff)

text \<open>How many entries of a dictionary satisfy a predicate on the value.\<close>

definition count_values :: "('v \<Rightarrow> bool) \<Rightarrow> ('k, 'v) pydict \<Rightarrow> nat" where
  "count_values P d = length (filter P (map snd d))"

lemma count_values_dset:
  assumes "dict_ok d"
  shows "count_values P (dset k v d) =
    (case dget d k of
       None \<Rightarrow> count_values P d + (if P v then 1 else 0)
     | Some old \<Rightarrow> count_values P d - (if P old then 1 else 0) + (if P v then 1 else 0))"
  using assms
proof (induction d)
  case (Cons kv d)
  obtain k' v' where kv: "kv = (k', v')" by fastforce
  with Cons.prems have ok: "dict_ok d" by (simp add: dict_ok_def)
  have pos: "P old \<Longrightarrow> dget d k = Some old \<Longrightarrow> 0 < count_values P d" for old
    unfolding count_values_def
    by (metis (mono_tags, lifting) dict_values_iff filter_empty_conv length_greater_0_conv ok)
  from Cons.IH [OF ok] kv pos show ?case
    by (auto simp: count_values_def split: option.splits)
qed (simp add: count_values_def)

lemma count_values_ddel_le: "count_values P (ddel k d) \<le> count_values P d"
  unfolding count_values_def by (induction d) (auto simp: AList.delete_eq)

lemma count_values_filter_le: "count_values P (filter Q d) \<le> count_values P d"
  unfolding count_values_def by (induction d) auto

end
