(* ===== verification/Graph_Walk.thy ===== *)
theory Graph_Walk
  imports Prelude
begin

text \<open>
  The explicit-stack walk that \<open>core/deadlock.py\<close> and \<open>core/ledger.py\<close> both run to refuse a
  cycle, and the contract they share.  The walk is total and decides reachability; the locale
  \<open>cycle_guard\<close> says what a registry of edges promises (its guard decides reachability, and
  admitting a link adds no edge but that link) and derives once that admitted links keep the
  graph acyclic.
\<close>

section \<open>The walk\<close>

definition succs :: "('a, 'a list) pydict \<Rightarrow> 'a \<Rightarrow> 'a list" where
  "succs g n = (case dget g n of None \<Rightarrow> [] | Some ns \<Rightarrow> ns)"

text \<open>The head of the list is the top of the Python stack, so \<open>stack.extend(ns)\<close> is \<open>rev ns @ stack\<close>.\<close>

function dfs_reaches :: "('a, 'a list) pydict \<Rightarrow> 'a \<Rightarrow> 'a list \<Rightarrow> 'a list \<Rightarrow> bool" where
  "dfs_reaches g target [] seen = False"
| "dfs_reaches g target (node # stack) seen =
     (if node = target then True
      else if node \<in> set seen then dfs_reaches g target stack seen
      else dfs_reaches g target (rev (succs g node) @ stack) (node # seen))"
  by pat_completeness auto

text \<open>A key of the graph is expanded once; any other node only shortens the stack.\<close>

termination
proof (relation "measures [\<lambda>(g, target, stack, seen). card (fst ` set g - set seen),
                           \<lambda>(g, target, stack, seen). length stack]", goal_cases)
  case (3 g target node stack seen)
  show ?case
  proof (cases "node \<in> fst ` set g")
    case True
    with 3 have "fst ` set g - set (node # seen) \<subset> fst ` set g - set seen" by auto
    then have "card (fst ` set g - set (node # seen)) < card (fst ` set g - set seen)"
      by (intro psubset_card_mono) auto
    then show ?thesis by simp
  next
    case False
    then have "succs g node = []" by (simp add: succs_def map_of_eq_None_iff [THEN iffD2])
    moreover have "fst ` set g - set (node # seen) = fst ` set g - set seen" using False by auto
    ultimately show ?thesis by simp
  qed
qed auto

definition graph_edges :: "('a, 'a list) pydict \<Rightarrow> ('a \<times> 'a) set" where
  "graph_edges g = {(a, b). b \<in> set (succs g a)}"

lemma graph_edges_iff: "(a, b) \<in> graph_edges g \<longleftrightarrow> b \<in> set (succs g a)"
  by (simp add: graph_edges_def)

text \<open>A path that starts in a set \<open>S\<close> and ends outside it leaves \<open>S\<close> through its frontier \<open>T\<close>.\<close>

lemma path_leaves_closed_set:
  assumes "(x, t) \<in> E\<^sup>*" and "x \<in> S" and "t \<notin> S" and "\<And>a b. a \<in> S \<Longrightarrow> (a, b) \<in> E \<Longrightarrow> b \<in> S \<union> T"
  shows "\<exists>y \<in> T. (y, t) \<in> E\<^sup>*"
  using assms(1,2)
proof (induction rule: converse_rtrancl_induct)
  case base
  with assms(3) show ?case by simp
next
  case (step a b)
  then show ?case using assms(4) by blast
qed

definition dfs_inv :: "('a, 'a list) pydict \<Rightarrow> 'a \<Rightarrow> 'a list \<Rightarrow> 'a list \<Rightarrow> bool" where
  "dfs_inv g target stack seen \<longleftrightarrow>
     target \<notin> set seen \<and> (\<forall>n \<in> set seen. set (succs g n) \<subseteq> set seen \<union> set stack)"

lemma dfs_reaches_inv:
  "dfs_inv g target stack seen \<Longrightarrow>
   dfs_reaches g target stack seen \<longleftrightarrow> (\<exists>s \<in> set stack. (s, target) \<in> (graph_edges g)\<^sup>*)"
proof (induction g target stack seen rule: dfs_reaches.induct)
  case (2 g target node stack seen)
  consider "node = target" | "node \<noteq> target" "node \<in> set seen" | "node \<noteq> target" "node \<notin> set seen"
    by blast
  then show ?case
  proof cases
    case 1
    then show ?thesis by auto
  next
    case 2
    have inv: "dfs_inv g target stack seen"
      using "2.prems" 2 by (auto simp: dfs_inv_def)
    have "\<exists>s \<in> set stack. (s, target) \<in> (graph_edges g)\<^sup>*" if "(node, target) \<in> (graph_edges g)\<^sup>*"
      using path_leaves_closed_set [OF that 2(2), of "set stack"] inv
      by (auto simp: dfs_inv_def graph_edges_iff)
    then show ?thesis using 2 "2.IH"(1) inv by auto
  next
    case 3
    have inv: "dfs_inv g target (rev (succs g node) @ stack) (node # seen)"
      using "2.prems" 3 by (auto simp: dfs_inv_def)
    have "(node, target) \<in> (graph_edges g)\<^sup>* \<longleftrightarrow>
        (\<exists>s \<in> set (succs g node). (s, target) \<in> (graph_edges g)\<^sup>*)"
      using 3(1) by (meson converse_rtranclE converse_rtrancl_into_rtrancl graph_edges_iff)
    then show ?thesis using 3 "2.IH"(2) inv by auto
  qed
qed simp

lemma dfs_reaches_iff:
  "dfs_reaches g target stack [] \<longleftrightarrow> (\<exists>s \<in> set stack. (s, target) \<in> (graph_edges g)\<^sup>*)"
  by (rule dfs_reaches_inv) (simp add: dfs_inv_def)

section \<open>The contract of a registry that refuses cycles\<close>

lemma acyclic_add_star:
  assumes "acyclic E" and "\<And>d. d \<in> D \<Longrightarrow> (d, n) \<notin> E\<^sup>*"
  shows "acyclic (E \<union> {n} \<times> D)"
proof (rule acyclicI, rule allI, rule notI)
  fix x assume cyc: "(x, x) \<in> (E \<union> {n} \<times> D)\<^sup>+"
  have split: "(a, b) \<in> E\<^sup>+ \<or> (a, n) \<in> E\<^sup>* \<and> (\<exists>d \<in> D. (d, b) \<in> E\<^sup>*)"
    if "(a, b) \<in> (E \<union> {n} \<times> D)\<^sup>+" for a b
    using that
  proof (induction rule: trancl_induct)
    case (base b)
    then show ?case by auto
  next
    case (step b c)
    then show ?case
      using assms(2) by (auto intro: trancl_into_trancl rtrancl_into_rtrancl trancl_into_rtrancl)
  qed
  from split [OF cyc] show False
    using assms by (meson acyclic_def rtrancl_trans)
qed

locale cycle_guard =
  fixes edges :: "'s \<Rightarrow> ('a \<times> 'a) set"
    and targets :: "'s \<Rightarrow> 'l \<Rightarrow> 'a set"
    and refuses :: "'s \<Rightarrow> 'a \<Rightarrow> 'l \<Rightarrow> bool"
    and link :: "'s \<Rightarrow> 'a \<Rightarrow> 'l \<Rightarrow> 's"
  assumes refuses_iff: "refuses s n l \<longleftrightarrow> (\<exists>d \<in> targets s l. (d, n) \<in> (edges s)\<^sup>*)"
    and link_edges: "\<not> refuses s n l \<Longrightarrow> edges (link s n l) \<subseteq> edges s \<union> {n} \<times> targets s l"
begin

lemma link_acyclic:
  assumes "acyclic (edges s)" and "\<not> refuses s n l"
  shows "acyclic (edges (link s n l))"
proof -
  have "acyclic (edges s \<union> {n} \<times> targets s l)"
    using assms by (intro acyclic_add_star) (auto simp: refuses_iff)
  then show ?thesis using acyclic_subset link_edges assms(2) by blast
qed

lemma refused_would_close:
  assumes "refuses s n l"
  shows "\<not> acyclic (edges s \<union> {n} \<times> targets s l)"
proof -
  from assms obtain d where d: "d \<in> targets s l" "(d, n) \<in> (edges s)\<^sup>*" by (auto simp: refuses_iff)
  then have "(d, n) \<in> (edges s \<union> {n} \<times> targets s l)\<^sup>*"
    by (meson Un_upper1 in_mono rtrancl_mono)
  moreover have "(n, d) \<in> edges s \<union> {n} \<times> targets s l" using d by simp
  ultimately have "(n, n) \<in> (edges s \<union> {n} \<times> targets s l)\<^sup>+" by (rule rtrancl_into_trancl2 [rotated])
  then show ?thesis by (auto simp: acyclic_def)
qed

end

end
