(* ===== verification/Scoping.thy ===== *)
theory Scoping
  imports Prelude
begin

text \<open>
  File-scope overlap of work claims, from \<open>core/scoping.py\<close>.  The operations work on strings
  as the code does; the specification works on lists of path segments, where a declared path
  owns the subtree below it.  \<open>paths_overlap\<close> and \<open>scopes_conflict\<close> are shown to decide exactly
  whether two such subtrees share a file.
\<close>

section \<open>The operations\<close>

definition DEFAULT_WORKTREE :: string where "DEFAULT_WORKTREE = []"
definition MAX_DECLARED_PATHS :: int where "MAX_DECLARED_PATHS = 512"
definition MAX_PATH_LENGTH :: nat where "MAX_PATH_LENGTH = 4096"

text \<open>The loop over the segments: \<open>None\<close> is its early return at a \<open>..\<close> segment.\<close>

fun norm_segments :: "string list \<Rightarrow> string list \<Rightarrow> string list option" where
  "norm_segments [] segments = Some segments"
| "norm_segments (segment # rest) segments =
     (if segment = [] \<or> segment = ''.'' then norm_segments rest segments
      else if segment = ''..'' then None
      else norm_segments rest (segments @ [segment]))"

definition normalize_path :: "string \<Rightarrow> string" where
  "normalize_path path =
     (let normalised = py_replace_char (CHR 0x5C) (CHR ''/'') (py_strip path)
      in if py_startswith normalised ''/'' then []
         else (case norm_segments (py_split (CHR ''/'') normalised) [] of
                 None \<Rightarrow> []
               | Some segments \<Rightarrow> py_join (CHR ''/'') segments))"

definition paths_overlap :: "string \<Rightarrow> string \<Rightarrow> bool" where
  "paths_overlap a b =
     (let na = normalize_path a; nb = normalize_path b
      in if na = nb then True
         else if na = [] \<or> nb = [] then True
         else py_startswith nb (na @ ''/'') \<or> py_startswith na (nb @ ''/''))"

definition scopes_conflict :: "string \<Rightarrow> string list \<Rightarrow> string \<Rightarrow> string list \<Rightarrow> bool" where
  "scopes_conflict worktree_a paths_a worktree_b paths_b =
     (if worktree_a \<noteq> worktree_b then False
      else if paths_a = [] \<or> paths_b = [] then True
      else (\<exists>a \<in> set paths_a. \<exists>b \<in> set paths_b. paths_overlap a b))"

fun normalize_paths_loop :: "int \<Rightarrow> string list \<Rightarrow> string list \<Rightarrow> string list" where
  "normalize_paths_loop cap [] out = out"
| "normalize_paths_loop cap (raw # rest) out =
     (if length raw > MAX_PATH_LENGTH then [[]]
      else if \<not> py_isprintable raw then [[]]
      else
        (let norm = normalize_path raw
         in if norm = [] then [[]]
            else if norm \<notin> set out then
              (if int (length (out @ [norm])) > cap then [[]]
               else normalize_paths_loop cap rest (out @ [norm]))
            else normalize_paths_loop cap rest out))"

definition normalize_paths :: "string list \<Rightarrow> int option \<Rightarrow> string list" where
  "normalize_paths paths max_declared_paths =
     (let cap = (case max_declared_paths of None \<Rightarrow> MAX_DECLARED_PATHS | Some m \<Rightarrow> max 1 m)
      in normalize_paths_loop cap paths [])"

section \<open>Segments: what a declared path names\<close>

definition path_segments :: "string \<Rightarrow> string list" where
  "path_segments p = (if normalize_path p = [] then [] else py_split (CHR ''/'') (normalize_path p))"

definition segment_ok :: "string \<Rightarrow> bool" where
  "segment_ok s \<longleftrightarrow> s \<noteq> [] \<and> s \<noteq> ''.'' \<and> s \<noteq> ''..'' \<and> CHR ''/'' \<notin> set s \<and> CHR 0x5C \<notin> set s"

lemma norm_segments_Some:
  "norm_segments segs acc = Some out \<longleftrightarrow>
     ''..'' \<notin> set segs \<and> out = acc @ filter (\<lambda>s. s \<noteq> [] \<and> s \<noteq> ''.'') segs"
  by (induction segs acc rule: norm_segments.induct) auto

lemma py_replace_no_old: "a \<noteq> b \<Longrightarrow> a \<notin> set (py_replace_char a b s)"
  by (auto simp: py_replace_char_def)

lemma py_split_char_subset: "w \<in> set (py_split sep s) \<Longrightarrow> set w \<subseteq> set s"
proof (induction s arbitrary: w)
  case (Cons c cs)
  obtain v vs where "py_split sep cs = v # vs"
    using py_split_nonempty neq_Nil_conv by metis
  with Cons show ?case by (fastforce split: if_splits)
qed simp

lemma normalize_path_segments:
  "\<exists>segs. normalize_path p = py_join (CHR ''/'') segs \<and> list_all segment_ok segs"
proof -
  define n where "n = py_replace_char (CHR 0x5C) (CHR ''/'') (py_strip p)"
  have no_bs: "CHR 0x5C \<notin> set n" unfolding n_def by (rule py_replace_no_old) simp
  show ?thesis
  proof (cases "py_startswith n ''/'' \<or> norm_segments (py_split (CHR ''/'') n) [] = None")
    case True
    then have "normalize_path p = py_join (CHR ''/'') []"
      by (auto simp: normalize_path_def n_def [symmetric] Let_def)
    then show ?thesis by (intro exI [of _ "[]"]) simp
  next
    case False
    then obtain segs where segs: "norm_segments (py_split (CHR ''/'') n) [] = Some segs" by auto
    with False have "normalize_path p = py_join (CHR ''/'') segs"
      by (simp add: normalize_path_def n_def [symmetric] Let_def)
    moreover have "list_all segment_ok segs"
      using segs no_bs
      by (auto simp: norm_segments_Some list_all_iff segment_ok_def
          dest: py_split_no_sep py_split_char_subset)
    ultimately show ?thesis by blast
  qed
qed

lemma py_join_segments_Nil: "list_all segment_ok segs \<Longrightarrow> py_join (CHR ''/'') segs = [] \<longleftrightarrow> segs = []"
  by (auto simp: py_join_eq_Nil segment_ok_def)

lemma split_join_segments:
  "list_all segment_ok segs \<Longrightarrow> segs \<noteq> [] \<Longrightarrow> py_split (CHR ''/'') (py_join (CHR ''/'') segs) = segs"
  by (rule py_split_join) (auto simp: list_all_iff segment_ok_def)

lemma path_segments_ok: "list_all segment_ok (path_segments p)"
  and path_segments_join: "normalize_path p = py_join (CHR ''/'') (path_segments p)"
proof -
  obtain segs where "normalize_path p = py_join (CHR ''/'') segs" "list_all segment_ok segs"
    using normalize_path_segments by blast
  then have "path_segments p = segs"
    by (auto simp: path_segments_def py_join_segments_Nil split_join_segments)
  with \<open>list_all segment_ok segs\<close> \<open>normalize_path p = py_join (CHR ''/'') segs\<close>
  show "list_all segment_ok (path_segments p)"
    and "normalize_path p = py_join (CHR ''/'') (path_segments p)" by simp_all
qed

lemma path_segments_eq_Nil: "path_segments p = [] \<longleftrightarrow> normalize_path p = []"
  using path_segments_join py_join_segments_Nil [OF path_segments_ok] by simp

lemma normalize_path_eq_iff: "normalize_path a = normalize_path b \<longleftrightarrow> path_segments a = path_segments b"
  by (metis path_segments_def path_segments_join)

lemma py_join_append:
  "ws \<noteq> [] \<Longrightarrow> vs \<noteq> [] \<Longrightarrow> py_join sep (ws @ vs) = py_join sep ws @ sep # py_join sep vs"
proof (induction sep ws rule: py_join.induct)
  case (2 sep w)
  then show ?case by (cases vs) auto
qed auto

lemma py_split_join_append:
  "ws \<noteq> [] \<Longrightarrow> \<forall>w \<in> set ws. sep \<notin> set w \<Longrightarrow>
   py_split sep (py_join sep ws @ sep # t) = ws @ py_split sep t"
  by (induction sep ws rule: py_join.induct) (auto simp: py_split_append)

lemma startswith_join_iff:
  assumes "list_all segment_ok ws" "list_all segment_ok vs" "ws \<noteq> []" "vs \<noteq> []"
  shows "py_startswith (py_join (CHR ''/'') vs) (py_join (CHR ''/'') ws @ ''/'') \<longleftrightarrow> strict_prefix ws vs"
proof
  assume "py_startswith (py_join (CHR ''/'') vs) (py_join (CHR ''/'') ws @ ''/'')"
  then obtain t where "py_join (CHR ''/'') vs = py_join (CHR ''/'') ws @ CHR ''/'' # t"
    by (auto simp: py_startswith_def prefix_def)
  then have "py_split (CHR ''/'') (py_join (CHR ''/'') vs)
      = py_split (CHR ''/'') (py_join (CHR ''/'') ws @ CHR ''/'' # t)" by simp
  moreover have "\<forall>w \<in> set ws. CHR ''/'' \<notin> set w"
    using assms(1) by (auto simp: list_all_iff segment_ok_def)
  ultimately have "vs = ws @ py_split (CHR ''/'') t"
    using assms by (simp add: py_split_join_append split_join_segments)
  then show "strict_prefix ws vs" by (simp add: strict_prefix_def)
next
  assume "strict_prefix ws vs"
  then obtain us where "vs = ws @ us" "us \<noteq> []" by (auto simp: strict_prefix_def prefix_def)
  then show "py_startswith (py_join (CHR ''/'') vs) (py_join (CHR ''/'') ws @ ''/'')"
    using assms(3) by (simp add: py_join_append py_startswith_def)
qed

section \<open>Overlap decides whether two subtrees share a file\<close>

text \<open>A file is a list of segments; a declared path owns every file at or below it.\<close>

definition covers :: "string \<Rightarrow> string list \<Rightarrow> bool" where
  "covers p file \<longleftrightarrow> prefix (path_segments p) file"

definition scope_files :: "string list \<Rightarrow> string list set" where
  "scope_files paths = (if paths = [] then UNIV else {file. \<exists>p \<in> set paths. covers p file})"

lemma paths_overlap_segments:
  "paths_overlap a b \<longleftrightarrow>
     prefix (path_segments a) (path_segments b) \<or> prefix (path_segments b) (path_segments a)"
proof (cases "path_segments a = [] \<or> path_segments b = []")
  case True
  then show ?thesis by (auto simp: paths_overlap_def path_segments_def)
next
  case False
  then show ?thesis
    by (auto simp: paths_overlap_def Let_def normalize_path_eq_iff path_segments_eq_Nil [symmetric]
        startswith_join_iff [OF path_segments_ok path_segments_ok, folded path_segments_join]
        strict_prefix_def)
qed

lemma paths_overlap_sym: "paths_overlap a b = paths_overlap b a"
  by (auto simp: paths_overlap_segments)

lemma paths_overlap_refl [simp]: "paths_overlap a a"
  by (simp add: paths_overlap_segments)

lemma paths_overlap_covers: "paths_overlap a b \<longleftrightarrow> (\<exists>file. covers a file \<and> covers b file)"
  unfolding paths_overlap_segments covers_def
  by (meson prefix_order.refl prefix_order.trans prefix_same_cases)

lemma scopes_conflict_files:
  "scopes_conflict wa pa wb pb \<longleftrightarrow> wa = wb \<and> scope_files pa \<inter> scope_files pb \<noteq> {}"
proof -
  have "covers p (path_segments p)" for p by (simp add: covers_def)
  then have ne: "scope_files ps \<noteq> {}" for ps
    by (cases ps) (auto simp: scope_files_def)
  show ?thesis
    using ne [of pa] ne [of pb]
    by (cases "pa = [] \<or> pb = []")
      (auto simp: scopes_conflict_def scope_files_def paths_overlap_covers)
qed

lemma scopes_conflict_sym: "scopes_conflict wa pa wb pb = scopes_conflict wb pb wa pa"
  by (auto simp: scopes_conflict_files)

section \<open>Normalising a declared path twice\<close>

text \<open>
  \<open>normalize_path\<close> strips white space once, before the segments are known, and the overlap
  tests normalise the stored (already normalised) paths again.  The second pass changes
  nothing exactly when the first result has no white space at its edges; the code relies on
  this wherever it compares stored paths.
\<close>

definition edge_clean :: "string \<Rightarrow> bool" where
  "edge_clean p \<longleftrightarrow>
     (normalize_path p = [] \<or>
      \<not> py_isspace (hd (normalize_path p)) \<and> \<not> py_isspace (last (normalize_path p)))"

lemma py_replace_absent: "a \<notin> set s \<Longrightarrow> py_replace_char a b s = s"
  by (auto simp: py_replace_char_def intro: map_idI)

lemma set_py_join: "set (py_join sep ws) \<subseteq> insert sep (\<Union>w \<in> set ws. set w)"
  by (induction sep ws rule: py_join.induct) auto

lemma normalize_path_no_backslash: "CHR 0x5C \<notin> set (normalize_path p)"
proof -
  have "CHR 0x5C \<notin> (\<Union>w \<in> set (path_segments p). set w)"
    using path_segments_ok [of p] by (auto simp: list_all_iff segment_ok_def)
  then show ?thesis
    unfolding path_segments_join [of p] using set_py_join by fastforce
qed

lemma normalize_path_no_lead: "\<not> py_startswith (normalize_path p) ''/''"
proof (cases "path_segments p")
  case Nil
  then show ?thesis by (simp add: path_segments_eq_Nil py_startswith_def)
next
  case (Cons w ws)
  then have "segment_ok w" using path_segments_ok [of p] by simp
  moreover have "normalize_path p = py_join (CHR ''/'') (w # ws)"
    using path_segments_join [of p] Cons by simp
  ultimately show ?thesis
    by (cases w; cases ws) (auto simp: py_startswith_def segment_ok_def)
qed

lemma normalize_path_twice: "edge_clean p \<Longrightarrow> normalize_path (normalize_path p) = normalize_path p"
proof (cases "normalize_path p = []")
  case True
  then show ?thesis by (simp add: normalize_path_def py_strip_def py_replace_char_def py_startswith_def)
next
  case False
  assume clean: "edge_clean p"
  let ?n = "normalize_path p" and ?segs = "path_segments p"
  have segs: "list_all segment_ok ?segs" "?segs \<noteq> []" "py_split (CHR ''/'') ?n = ?segs"
    using False by (simp_all add: path_segments_ok path_segments_eq_Nil)
      (simp add: path_segments_def)
  have "py_strip ?n = ?n" using clean False by (auto simp: edge_clean_def intro: py_strip_id)
  then have pre: "py_replace_char (CHR 0x5C) (CHR ''/'') (py_strip ?n) = ?n"
    by (simp add: py_replace_absent normalize_path_no_backslash)
  have "filter (\<lambda>s. s \<noteq> [] \<and> s \<noteq> ''.'') ?segs = ?segs" "''..'' \<notin> set ?segs"
    using segs(1) by (auto simp: list_all_iff segment_ok_def intro: filter_True)
  then have "norm_segments ?segs [] = Some ?segs" by (simp add: norm_segments_Some)
  then show ?thesis
    by (subst normalize_path_def)
      (simp add: pre segs(3) normalize_path_no_lead Let_def path_segments_join [symmetric])
qed

lemma path_segments_twice: "edge_clean p \<Longrightarrow> path_segments (normalize_path p) = path_segments p"
  by (simp add: path_segments_def normalize_path_twice)

section \<open>Normalising a set of declared paths\<close>

lemma normalize_paths_loop_shape:
  "normalize_paths_loop cap rest out = [[]] \<or>
   (set (normalize_paths_loop cap rest out) = set out \<union> normalize_path ` set rest
    \<and> [] \<notin> normalize_path ` set rest
    \<and> (distinct out \<longrightarrow> distinct (normalize_paths_loop cap rest out))
    \<and> (int (length out) \<le> cap \<longrightarrow> int (length (normalize_paths_loop cap rest out)) \<le> cap))"
proof (induction cap rest out rule: normalize_paths_loop.induct)
  case (2 cap raw rest out)
  show ?case
  proof (cases "length raw > MAX_PATH_LENGTH \<or> \<not> py_isprintable raw \<or> normalize_path raw = []")
    case False
    then show ?thesis using 2 by (cases "normalize_path raw \<in> set out") (auto simp: Let_def insert_absorb)
  qed (auto simp: Let_def)
qed simp

lemma covers_root: "covers [] file"
  by (simp add: covers_def path_segments_def normalize_path_def py_strip_def py_replace_char_def
      py_startswith_def)

lemma scope_files_root: "scope_files [[]] = UNIV"
  by (simp add: scope_files_def covers_root)

lemma normalize_paths_shape:
  "normalize_paths paths m = [[]] \<or>
   (set (normalize_paths paths m) = normalize_path ` set paths
    \<and> distinct (normalize_paths paths m)
    \<and> int (length (normalize_paths paths m)) \<le> (case m of None \<Rightarrow> MAX_DECLARED_PATHS | Some k \<Rightarrow> max 1 k))"
  using normalize_paths_loop_shape
    [of "case m of None \<Rightarrow> MAX_DECLARED_PATHS | Some k \<Rightarrow> max 1 k" paths "[]"]
  by (auto simp: normalize_paths_def Let_def MAX_DECLARED_PATHS_def split: option.splits)

lemma scope_files_normalize_paths:
  assumes "\<forall>p \<in> set paths. edge_clean p"
  shows "normalize_paths paths m = [[]] \<or> scope_files (normalize_paths paths m) = scope_files paths"
proof (cases "normalize_paths paths m = [[]]")
  case False
  then have set: "set (normalize_paths paths m) = normalize_path ` set paths"
    using normalize_paths_shape by blast
  then have "normalize_paths paths m = [] \<longleftrightarrow> paths = []"
    by (metis image_is_empty set_empty)
  moreover have "covers (normalize_path p) q = covers p q" if "p \<in> set paths" for p q
    using that assms by (simp add: covers_def path_segments_twice)
  ultimately have "scope_files (normalize_paths paths m) = scope_files paths"
    using set by (auto simp: scope_files_def)
  then show ?thesis ..
qed simp

section \<open>Properties\<close>

text \<open>
  \<open>paths_overlap\<close> is exact: two declared paths overlap if and only if some file lies at or
  below both of them.
\<close>

theorem paths_overlap_exact: "paths_overlap a b \<longleftrightarrow> (\<exists>file. covers a file \<and> covers b file)"
  by (rule paths_overlap_covers)

text \<open>
  Normalising the declared paths of a claim never loses a file and keeps the list within
  its bound, when no declared path has white space at the edge of its normal form.
\<close>

theorem normalize_paths_conservative:
  assumes "list_all edge_clean paths"
  shows "scope_files paths \<subseteq> scope_files (normalize_paths paths m)
    \<and> int (length (normalize_paths paths m)) \<le> (case m of None \<Rightarrow> MAX_DECLARED_PATHS | Some k \<Rightarrow> max 1 k)"
proof
  show "scope_files paths \<subseteq> scope_files (normalize_paths paths m)"
    using scope_files_normalize_paths [of paths m] assms by (auto simp: scope_files_root list_all_iff)
  show "int (length (normalize_paths paths m)) \<le> (case m of None \<Rightarrow> MAX_DECLARED_PATHS | Some k \<Rightarrow> max 1 k)"
    using normalize_paths_shape [of paths m] by (auto simp: MAX_DECLARED_PATHS_def split: option.splits)
qed

theorem normalize_paths_conservative_witness:
  "normalize_paths [''src//core/'', ''./docs''] None = [''src/core'', ''docs'']
   \<and> scope_files [''src//core/'', ''./docs''] \<subseteq> scope_files [''src/core'', ''docs'']"
proof -
  have norm: "normalize_paths [''src//core/'', ''./docs''] None = [''src/core'', ''docs'']" by code_simp
  have "list_all edge_clean [''src//core/'', ''./docs'']" by code_simp
  from normalize_paths_conservative [OF this, of None] norm show ?thesis by simp
qed

text \<open>
  Without that condition a conflict is lost: the directory \<open>"b "\<close> declared as \<open>"b /."\<close>
  conflicts with \<open>"b /c"\<close> below it, and after both have gone through \<open>normalize_paths\<close>, as
  \<open>claim\<close> stores them, it does not.
\<close>

theorem edge_space_loses_conflict:
  "scopes_conflict [] [''b /.''] [] [''b /c'']
   \<and> \<not> scopes_conflict [] (normalize_paths [''b /.''] None) [] (normalize_paths [''b /c''] None)"
  by code_simp

end
