(* ===== verification/Json.thy ===== *)
theory Json
  imports Prelude
begin

text \<open>
  The JSON values that arrive on the wire and are replayed from the journal, as
  \<open>json.loads\<close> decodes them, and the parts of Python's dynamic typing that the
  deserialisers use on them: \<open>data.get\<close>, truth value, \<open>str\<close>.
\<close>

datatype json =
    JNull
  | JBool bool
  | JInt int
  | JFloat pyfloat
  | JString string
  | JList "json list"
  | JObject "(string \<times> json) list"

type_synonym json_object = "(string, json) pydict"

definition get_or :: "json_object \<Rightarrow> string \<Rightarrow> json \<Rightarrow> json" where
  "get_or data key dflt = (case dget data key of None \<Rightarrow> dflt | Some v \<Rightarrow> v)"

definition get_field :: "json_object \<Rightarrow> string \<Rightarrow> json" where
  "get_field data key = get_or data key JNull"

end
