(* ===== verification/Path_Identity.thy ===== *)
theory Path_Identity
  imports Scoping Json
begin

text \<open>
  Canonical claim-path identities, from \<open>core/path_identity.py\<close>: the comparison forms of paths
  and worktree labels, the validated identity records with their wire form, and the conflict
  test over displayed scopes plus identities that the state registry uses.

  NFC normalisation is the identity on code points below 256; \<open>casefold\<close> is written out for
  them (U+00B5, whose folded form lies above 255, is left alone).
\<close>

section \<open>Comparison forms\<close>

definition PATH_IDENTITY_VERSION :: int where "PATH_IDENTITY_VERSION = 1"
definition MAX_OBJECT_ID_LENGTH :: nat where "MAX_OBJECT_ID_LENGTH = 160"
definition semantic_scope_marker :: string where
  "semantic_scope_marker = ''/.synapse-symbol/''"

definition nfc :: "string \<Rightarrow> string" where
  "nfc s = s"

definition casefold_char :: "char \<Rightarrow> string" where
  "casefold_char c =
     (let n = code_of c
      in if (65 \<le> n \<and> n \<le> 90) \<or> (192 \<le> n \<and> n \<le> 222 \<and> n \<noteq> 215) then [char_of (n + 32)]
         else if n = 223 then ''ss''
         else [c])"

definition casefold :: "string \<Rightarrow> string" where
  "casefold s = concat (map casefold_char s)"

definition comparison_path :: "string \<Rightarrow> bool \<Rightarrow> string" where
  "comparison_path path case_sensitive =
     (let v = nfc (normalize_path path) in if case_sensitive then v else casefold v)"

definition ascii_letter :: "char \<Rightarrow> bool" where
  "ascii_letter c \<longleftrightarrow> (65 \<le> code_of c \<and> code_of c \<le> 90) \<or> (97 \<le> code_of c \<and> code_of c \<le> 122)"

definition ascii_digit :: "char \<Rightarrow> bool" where
  "ascii_digit c \<longleftrightarrow> 48 \<le> code_of c \<and> code_of c \<le> 57"

text \<open>The two patterns \<open>^[A-Za-z]:[\\/]\<close> and \<open>[A-Za-z]:/\<close> (the latter as a full match).\<close>

fun drive_prefix :: "string \<Rightarrow> bool" where
  "drive_prefix (a # b # c # _) =
     (ascii_letter a \<and> b = CHR '':'' \<and> (c = CHR 0x5C \<or> c = CHR ''/''))"
| "drive_prefix _ = False"

fun drive_root :: "string \<Rightarrow> bool" where
  "drive_root [a, b, c] = (ascii_letter a \<and> b = CHR '':'' \<and> c = CHR ''/'')"
| "drive_root _ = False"

definition comparison_worktree :: "string \<Rightarrow> bool \<Rightarrow> string" where
  "comparison_worktree path case_sensitive =
     (let v = nfc path;
          v' = (if drive_prefix v \<or> py_startswith v [CHR 0x5C, CHR 0x5C]
                then py_replace_char (CHR 0x5C) (CHR ''/'') v else v)
      in if case_sensitive then v' else casefold v')"

section \<open>Validated identities\<close>

type_synonym identity_error = string

definition identity_string :: "json \<Rightarrow> string \<Rightarrow> bool \<Rightarrow> identity_error + string" where
  "identity_string v field allow_empty =
     (case v of
        JString s \<Rightarrow>
          (if (s = [] \<and> \<not> allow_empty) \<or> length s > MAX_PATH_LENGTH \<or> \<not> py_isprintable s
           then Inl (''claim path identity '' @ field @ '' is invalid'')
           else Inr s)
      | _ \<Rightarrow> Inl (''claim path identity '' @ field @ '' must be a string''))"

definition object_id_char :: "char \<Rightarrow> bool" where
  "object_id_char c \<longleftrightarrow> ascii_letter c \<or> ascii_digit c \<or> c \<in> set ''_.:-''"

definition object_identity :: "json \<Rightarrow> string \<Rightarrow> identity_error + string" where
  "object_identity v field =
     (case identity_string v field True of
        Inl e \<Rightarrow> Inl e
      | Inr s \<Rightarrow>
          (if s \<noteq> [] \<and> (length s > MAX_OBJECT_ID_LENGTH \<or> \<not> list_all object_id_char s)
           then Inl (''claim path identity '' @ field @ '' is invalid'')
           else Inr s))"

record canonical_path_identity =
  git_path :: string
  filesystem_path :: string
  object_id :: string
  object_scope :: string

definition canonical_as_dict :: "canonical_path_identity \<Rightarrow> json_object" where
  "canonical_as_dict i =
     [(''git_path'', JString (git_path i)),
      (''filesystem_path'', JString (filesystem_path i)),
      (''object_id'', JString (object_id i)),
      (''object_scope'', JString (object_scope i))]"

definition canonical_from_dict :: "json_object \<Rightarrow> identity_error + canonical_path_identity" where
  "canonical_from_dict data =
     (case identity_string (get_field data ''git_path'') ''git_path'' False of
        Inl e \<Rightarrow> Inl e
      | Inr gp \<Rightarrow>
     (case identity_string (get_field data ''filesystem_path'') ''filesystem_path'' True of
        Inl e \<Rightarrow> Inl e
      | Inr fp \<Rightarrow>
     (if normalize_path gp \<noteq> gp \<or> normalize_path fp \<noteq> fp
      then Inl ''claim path identity paths must be canonical and relative''
      else
     (case identity_string (get_or data ''object_scope'' (JString [])) ''object_scope'' True of
        Inl e \<Rightarrow> Inl e
      | Inr sc \<Rightarrow>
     (if normalize_path sc \<noteq> sc
      then Inl ''claim path identity object_scope must be canonical''
      else
     (case object_identity (get_or data ''object_id'' (JString [])) ''object_id'' of
        Inl e \<Rightarrow> Inl e
      | Inr oid \<Rightarrow>
          Inr \<lparr>git_path = gp, filesystem_path = fp, object_id = oid, object_scope = sc\<rparr>))))))"

record claim_scope_identity =
  worktree_path :: string
  case_sensitive :: bool
  identity_paths :: "canonical_path_identity list"
  worktree_object_id :: string
  filesystem_namespace :: string
  version_number :: int

definition scope_identity_as_dict :: "claim_scope_identity \<Rightarrow> json_object" where
  "scope_identity_as_dict i =
     [(''version'', JInt (version_number i)),
      (''worktree_path'', JString (worktree_path i)),
      (''worktree_object_id'', JString (worktree_object_id i)),
      (''filesystem_namespace'', JString (filesystem_namespace i)),
      (''case_sensitive'', JBool (case_sensitive i)),
      (''paths'', JList (map (\<lambda>p. JObject (canonical_as_dict p)) (identity_paths i)))]"

text \<open>\<open>str.rpartition\<close>: the last occurrence of the separator, or \<open>None\<close>.\<close>

fun rpartition_from :: "nat \<Rightarrow> string \<Rightarrow> string \<Rightarrow> (string \<times> string) option" where
  "rpartition_from n s sep =
     (if py_startswith (drop n s) sep then Some (take n s, drop (n + length sep) s)
      else (case n of 0 \<Rightarrow> None | Suc m \<Rightarrow> rpartition_from m s sep))"

declare rpartition_from.simps [simp del]

definition py_rpartition :: "string \<Rightarrow> string \<Rightarrow> (string \<times> string) option" where
  "py_rpartition s sep = rpartition_from (length s) s sep"

fun canonical_from_list :: "json list \<Rightarrow> identity_error + canonical_path_identity list" where
  "canonical_from_list [] = Inr []"
| "canonical_from_list (JObject d # rest) =
     (case canonical_from_dict d of
        Inl e \<Rightarrow> Inl e
      | Inr p \<Rightarrow> (case canonical_from_list rest of Inl e \<Rightarrow> Inl e | Inr ps \<Rightarrow> Inr (p # ps)))"
| "canonical_from_list (_ # rest) = Inl ''claim path identity paths must be a list of mappings''"

definition is_json_object :: "json \<Rightarrow> bool" where
  "is_json_object v = (case v of JObject _ \<Rightarrow> True | _ \<Rightarrow> False)"

fun check_object_scopes :: "bool \<Rightarrow> canonical_path_identity list \<Rightarrow> identity_error option" where
  "check_object_scopes sensitive [] = None"
| "check_object_scopes sensitive (p # rest) =
     (if object_scope p = [] then check_object_scopes sensitive rest
      else (case py_rpartition (git_path p) semantic_scope_marker of
              None \<Rightarrow> Some ''claim path identity object_scope requires a semantic git_path''
            | Some (source, encoded) \<Rightarrow>
                (if encoded = []
                 then Some ''claim path identity object_scope requires a semantic git_path''
                 else if comparison_path (object_scope p) sensitive \<noteq> encoded
                 then Some ''claim path identity object_scope does not match git_path''
                 else check_object_scopes sensitive rest)))"

definition scope_identity_from_dict :: "json_object \<Rightarrow> identity_error + claim_scope_identity" where
  "scope_identity_from_dict data =
     (if get_field data ''version'' \<noteq> JInt PATH_IDENTITY_VERSION
      then Inl ''unsupported claim path identity version''
      else
     (case get_field data ''case_sensitive'' of
        JBool sensitive \<Rightarrow>
     (case identity_string (get_field data ''worktree_path'') ''worktree_path'' False of
        Inl e \<Rightarrow> Inl e
      | Inr wt \<Rightarrow>
     (if last wt = CHR ''/'' \<and> wt \<noteq> ''/'' \<and> \<not> drive_root wt
      then Inl ''claim path identity worktree_path is not canonical''
      else if comparison_worktree wt sensitive \<noteq> wt
      then Inl ''claim path identity worktree_path is not canonical''
      else
     (case get_field data ''paths'' of
        JList raw \<Rightarrow>
     (if \<not> list_all is_json_object raw
      then Inl ''claim path identity paths must be a list of mappings''
      else
     (case canonical_from_list raw of
        Inl e \<Rightarrow> Inl e
      | Inr ps \<Rightarrow>
     (case check_object_scopes sensitive ps of
        Some e \<Rightarrow> Inl e
      | None \<Rightarrow>
     (case object_identity (get_or data ''worktree_object_id'' (JString [])) ''worktree_object_id'' of
        Inl e \<Rightarrow> Inl e
      | Inr wid \<Rightarrow>
     (case object_identity (get_or data ''filesystem_namespace'' (JString [])) ''filesystem_namespace'' of
        Inl e \<Rightarrow> Inl e
      | Inr ns \<Rightarrow>
          Inr \<lparr>worktree_path = wt, case_sensitive = sensitive, identity_paths = ps,
               worktree_object_id = wid, filesystem_namespace = ns,
               version_number = PATH_IDENTITY_VERSION\<rparr>)))))
      | _ \<Rightarrow> Inl ''claim path identity paths must be a list of mappings'')))
      | _ \<Rightarrow> Inl ''claim path identity case_sensitive must be a boolean''))"

definition parse_optional_claim_scope_identity ::
  "json_object \<Rightarrow> identity_error + claim_scope_identity option" where
  "parse_optional_claim_scope_identity data =
     (case dget data ''path_identity'' of
        None \<Rightarrow> Inr None
      | Some (JObject d) \<Rightarrow> map_sum id Some (scope_identity_from_dict d)
      | Some _ \<Rightarrow> Inl ''claim path identity must be a mapping'')"

definition validates_display_paths :: "claim_scope_identity \<Rightarrow> string list \<Rightarrow> bool" where
  "validates_display_paths i paths =
     (if length paths \<noteq> length (identity_paths i) then False
      else list_all (\<lambda>(path, row). comparison_path path (case_sensitive i) = git_path row)
             (zip paths (identity_paths i)))"

definition validates_display_scope :: "claim_scope_identity \<Rightarrow> string \<Rightarrow> string list \<Rightarrow> bool" where
  "validates_display_scope i wt paths \<longleftrightarrow>
     comparison_worktree wt (case_sensitive i) = worktree_path i \<and> validates_display_paths i paths"

section \<open>Conflict of displayed scopes with identities\<close>

definition object_key_base :: "string \<Rightarrow> string" where
  "object_key_base v = py_join (CHR '':'') (take 2 (py_split (CHR '':'') v))"

definition same_worktree_key :: "string \<Rightarrow> string \<Rightarrow> bool" where
  "same_worktree_key left right =
     (if count_list left (CHR '':'') \<ge> 2 \<and> count_list right (CHR '':'') \<ge> 2 then left = right
      else object_key_base left = object_key_base right)"

definition claim_worktrees_match ::
  "string \<Rightarrow> claim_scope_identity option \<Rightarrow> string \<Rightarrow> claim_scope_identity option \<Rightarrow> bool" where
  "claim_worktrees_match display_a identity_a display_b identity_b =
     (case (identity_a, identity_b) of
        (None, None) \<Rightarrow> display_a = display_b
      | (Some a, Some b) \<Rightarrow>
          (let sensitive = case_sensitive a \<and> case_sensitive b
           in if comparison_worktree (worktree_path a) sensitive
                 \<noteq> comparison_worktree (worktree_path b) sensitive then False
              else if filesystem_namespace a \<noteq> [] \<and> filesystem_namespace b \<noteq> []
                      \<and> filesystem_namespace a \<noteq> filesystem_namespace b then False
              else if worktree_object_id a \<noteq> [] \<and> worktree_object_id b \<noteq> []
              then same_worktree_key (worktree_object_id a) (worktree_object_id b)
              else True)
      | (Some known, None) \<Rightarrow>
          comparison_worktree display_b (case_sensitive known) = worktree_path known
      | (None, Some known) \<Rightarrow>
          comparison_worktree display_a (case_sensitive known) = worktree_path known)"

definition claim_object_ids_comparable ::
  "claim_scope_identity option \<Rightarrow> claim_scope_identity option \<Rightarrow> bool" where
  "claim_object_ids_comparable identity_a identity_b =
     (case (identity_a, identity_b) of
        (Some a, Some b) \<Rightarrow>
          filesystem_namespace a \<noteq> [] \<and> filesystem_namespace a = filesystem_namespace b
          \<and> worktree_object_id a \<noteq> [] \<and> worktree_object_id b \<noteq> []
          \<and> same_worktree_key (worktree_object_id a) (worktree_object_id b)
      | _ \<Rightarrow> False)"

definition canonical_pair_overlaps ::
  "canonical_path_identity \<Rightarrow> canonical_path_identity \<Rightarrow> bool \<Rightarrow> bool" where
  "canonical_pair_overlaps a b object_identity_safe =
     (if object_identity_safe \<and> object_id a \<noteq> [] \<and> object_id a = object_id b
      then paths_overlap (object_scope a) (object_scope b)
      else paths_overlap (git_path a) (git_path b)
           \<or> paths_overlap (filesystem_path a) (filesystem_path b))"

definition under_case_policy ::
  "canonical_path_identity \<Rightarrow> bool \<Rightarrow> canonical_path_identity" where
  "under_case_policy i sensitive =
     \<lparr>git_path = comparison_path (git_path i) sensitive,
      filesystem_path = comparison_path (filesystem_path i) sensitive,
      object_id = object_id i,
      object_scope = comparison_path (object_scope i) sensitive\<rparr>"

definition legacy_identity :: "string \<Rightarrow> bool \<Rightarrow> canonical_path_identity" where
  "legacy_identity path sensitive =
     (let canonical = comparison_path path sensitive
      in \<lparr>git_path = canonical, filesystem_path = canonical, object_id = [], object_scope = []\<rparr>)"

text \<open>The closing scan of \<open>claim_scopes_conflict\<close>: both row lists under the shared case policy.\<close>

definition rows_overlap ::
  "canonical_path_identity list \<Rightarrow> canonical_path_identity list \<Rightarrow> bool \<Rightarrow> bool \<Rightarrow> bool" where
  "rows_overlap left right sensitive object_identity_safe \<longleftrightarrow>
     (\<exists>a \<in> set (map (\<lambda>i. under_case_policy i sensitive) left).
      \<exists>b \<in> set (map (\<lambda>i. under_case_policy i sensitive) right).
        canonical_pair_overlaps a b object_identity_safe)"

definition claim_scopes_conflict ::
  "string \<Rightarrow> string list \<Rightarrow> claim_scope_identity option
   \<Rightarrow> string \<Rightarrow> string list \<Rightarrow> claim_scope_identity option \<Rightarrow> bool" where
  "claim_scopes_conflict worktree_a paths_a identity_a worktree_b paths_b identity_b =
     (if \<not> claim_worktrees_match worktree_a identity_a worktree_b identity_b
         \<and> \<not> claim_object_ids_comparable identity_a identity_b then False
      else if paths_a = [] \<or> paths_b = [] then True
      else
        (let safe = claim_object_ids_comparable identity_a identity_b
         in case (identity_a, identity_b) of
              (None, None) \<Rightarrow> (\<exists>a \<in> set paths_a. \<exists>b \<in> set paths_b. paths_overlap a b)
            | (None, Some ib) \<Rightarrow>
                rows_overlap (map (\<lambda>p. legacy_identity p (case_sensitive ib)) paths_a)
                  (identity_paths ib) (case_sensitive ib) safe
            | (Some ia, None) \<Rightarrow>
                rows_overlap (identity_paths ia)
                  (map (\<lambda>p. legacy_identity p (case_sensitive ia)) paths_b) (case_sensitive ia) safe
            | (Some ia, Some ib) \<Rightarrow>
                rows_overlap (identity_paths ia) (identity_paths ib)
                  (case_sensitive ia \<and> case_sensitive ib) safe))"

definition path_covers :: "string \<Rightarrow> string \<Rightarrow> bool" where
  "path_covers scope target \<longleftrightarrow> scope = [] \<or> scope = target \<or> py_startswith target (scope @ ''/'')"

definition claim_scope_covers_path ::
  "string \<Rightarrow> canonical_path_identity option \<Rightarrow> string \<Rightarrow> canonical_path_identity option
   \<Rightarrow> bool option \<Rightarrow> bool \<Rightarrow> bool \<Rightarrow> bool" where
  "claim_scope_covers_path claim_path claim_identity target_path target_identity sensitive_opt
     object_identity_safe filesystem_identity_safe =
     (if claim_identity = None \<and> target_identity = None then
        (let claimed = normalize_path claim_path; target = normalize_path target_path
         in claimed = [] \<or> claimed = target \<or> py_startswith target (claimed @ ''/''))
      else
        (let sensitive = (case sensitive_opt of None \<Rightarrow> True | Some c \<Rightarrow> c);
             left = under_case_policy
               (case claim_identity of Some i \<Rightarrow> i | None \<Rightarrow> legacy_identity claim_path sensitive) sensitive;
             right = under_case_policy
               (case target_identity of Some i \<Rightarrow> i | None \<Rightarrow> legacy_identity target_path sensitive) sensitive
         in if object_identity_safe \<and> object_id left \<noteq> [] \<and> object_id left = object_id right
            then path_covers (object_scope left) (object_scope right)
            else path_covers (git_path left) (git_path right)
                 \<or> (filesystem_identity_safe
                    \<and> path_covers (filesystem_path left) (filesystem_path right))))"

section \<open>The conflict relation\<close>

lemma same_worktree_key_sym: "same_worktree_key a b = same_worktree_key b a"
  by (auto simp: same_worktree_key_def)

lemma same_worktree_key_refl [simp]: "same_worktree_key a a"
  by (simp add: same_worktree_key_def)

lemma claim_worktrees_match_sym: "claim_worktrees_match wa ia wb ib = claim_worktrees_match wb ib wa ia"
proof (cases ia; cases ib)
  fix a b assume "ia = Some a" "ib = Some b"
  then show ?thesis
    using same_worktree_key_sym [of "worktree_object_id a" "worktree_object_id b"]
    by (simp add: claim_worktrees_match_def Let_def conj_commute [of "case_sensitive a"])
qed (simp_all add: claim_worktrees_match_def eq_commute [of wa])

lemma claim_object_ids_comparable_sym:
  "claim_object_ids_comparable ia ib = claim_object_ids_comparable ib ia"
  using same_worktree_key_sym
  by (cases ia; cases ib) (auto simp: claim_object_ids_comparable_def)

lemma canonical_pair_overlaps_sym: "canonical_pair_overlaps a b safe = canonical_pair_overlaps b a safe"
  using paths_overlap_sym by (auto simp: canonical_pair_overlaps_def)

lemma rows_overlap_sym: "rows_overlap left right c safe = rows_overlap right left c safe"
  unfolding rows_overlap_def using canonical_pair_overlaps_sym by blast

lemma claim_scopes_conflict_sym:
  "claim_scopes_conflict wa pa ia wb pb ib = claim_scopes_conflict wb pb ib wa pa ia"
proof -
  have plain: "(\<exists>a \<in> set pa. \<exists>b \<in> set pb. paths_overlap a b) \<longleftrightarrow>
      (\<exists>b \<in> set pb. \<exists>a \<in> set pa. paths_overlap b a)"
    using paths_overlap_sym by blast
  show ?thesis
    unfolding claim_scopes_conflict_def claim_worktrees_match_sym [of wa]
      claim_object_ids_comparable_sym [of ia] plain
    by (cases ia; cases ib) (simp_all add: Let_def rows_overlap_sym conj_commute disj_commute)
qed

lemma claim_scopes_conflict_plain:
  "claim_scopes_conflict wa pa None wb pb None = scopes_conflict wa pa wb pb"
  by (simp add: claim_scopes_conflict_def scopes_conflict_def claim_worktrees_match_def
      claim_object_ids_comparable_def)

lemma claim_worktrees_match_refl: "claim_worktrees_match w i w i"
  by (cases i) (simp_all add: claim_worktrees_match_def)

lemma claim_scopes_conflict_refl:
  assumes "\<And>i. ident = Some i \<Longrightarrow> validates_display_paths i paths"
  shows "claim_scopes_conflict wt paths ident wt paths ident"
proof (cases "paths = []")
  case True
  then show ?thesis by (simp add: claim_scopes_conflict_def claim_worktrees_match_refl)
next
  case False
  then obtain p ps where paths: "paths = p # ps" by (cases paths) auto
  show ?thesis
  proof (cases ident)
    case None
    then show ?thesis
      using paths by (auto simp: claim_scopes_conflict_plain scopes_conflict_def)
  next
    case (Some i)
    with assms paths obtain q qs where "identity_paths i = q # qs"
      by (cases "identity_paths i") (auto simp: validates_display_paths_def)
    then show ?thesis
      using paths Some
      by (auto simp: claim_scopes_conflict_def claim_worktrees_match_refl Let_def
          rows_overlap_def canonical_pair_overlaps_def)
  qed
qed

section \<open>The wire form of an identity\<close>

lemma identity_string_again:
  "identity_string v field b = Inr s \<Longrightarrow> identity_string (JString s) field b = Inr s"
  by (auto simp: identity_string_def split: json.splits if_splits)

lemma object_identity_again: "object_identity v field = Inr s \<Longrightarrow> object_identity (JString s) field = Inr s"
  by (auto simp: object_identity_def dest: identity_string_again split: sum.splits if_splits)

lemma canonical_round_trip:
  assumes "canonical_from_dict d = Inr p"
  shows "canonical_from_dict (canonical_as_dict p) = Inr p"
proof -
  from assms have
    "identity_string (JString (git_path p)) ''git_path'' False = Inr (git_path p)"
    "identity_string (JString (filesystem_path p)) ''filesystem_path'' True = Inr (filesystem_path p)"
    "normalize_path (git_path p) = git_path p"
    "normalize_path (filesystem_path p) = filesystem_path p"
    "identity_string (JString (object_scope p)) ''object_scope'' True = Inr (object_scope p)"
    "normalize_path (object_scope p) = object_scope p"
    "object_identity (JString (object_id p)) ''object_id'' = Inr (object_id p)"
    by (auto simp: canonical_from_dict_def dest: identity_string_again object_identity_again
        split: sum.splits if_splits)
  then show ?thesis
    by (simp add: canonical_from_dict_def canonical_as_dict_def get_field_def get_or_def)
qed

lemma canonical_list_round_trip:
  "canonical_from_list js = Inr ps \<Longrightarrow>
   canonical_from_list (map (\<lambda>p. JObject (canonical_as_dict p)) ps) = Inr ps"
  by (induction js arbitrary: ps rule: canonical_from_list.induct)
    (auto simp: canonical_round_trip split: sum.splits)

lemma scope_identity_fields:
  assumes "scope_identity_from_dict d = Inr i"
  shows "version_number i = PATH_IDENTITY_VERSION"
    "identity_string (JString (worktree_path i)) ''worktree_path'' False = Inr (worktree_path i)"
    "\<not> (last (worktree_path i) = CHR ''/'' \<and> worktree_path i \<noteq> ''/'' \<and> \<not> drive_root (worktree_path i))"
    "comparison_worktree (worktree_path i) (case_sensitive i) = worktree_path i"
    "\<exists>js. canonical_from_list js = Inr (identity_paths i)"
    "check_object_scopes (case_sensitive i) (identity_paths i) = None"
    "object_identity (JString (worktree_object_id i)) ''worktree_object_id'' = Inr (worktree_object_id i)"
    "object_identity (JString (filesystem_namespace i)) ''filesystem_namespace'' = Inr (filesystem_namespace i)"
  using assms
  by (auto simp: scope_identity_from_dict_def dest: identity_string_again object_identity_again
      split: json.splits sum.splits if_splits option.splits)

lemma scope_identity_round_trip:
  assumes "scope_identity_from_dict d = Inr i"
  shows "scope_identity_from_dict (scope_identity_as_dict i) = Inr i"
proof -
  note fields = scope_identity_fields [OF assms]
  obtain js where js: "canonical_from_list js = Inr (identity_paths i)" using fields(5) by blast
  have objs: "list_all is_json_object (map (\<lambda>p. JObject (canonical_as_dict p)) (identity_paths i))"
    by (simp add: list_all_iff is_json_object_def)
  from fields(1-4,6-8) canonical_list_round_trip [OF js] objs show ?thesis
    unfolding scope_identity_from_dict_def scope_identity_as_dict_def
    by (simp add: get_field_def get_or_def del: list.pred_map)
qed

end
