(* ===== verification/Lifecycle.thy ===== *)
theory Lifecycle
  imports Prelude
begin

text \<open>
  The typed status lifecycle of a claimed task, from \<open>core/lifecycle.py\<close>: the five statuses,
  the transition table and the decision \<open>can_transition\<close> that the state registry consults.
  The lemmas show what the table makes of a sequence of accepted updates: a terminal status
  is final, no status is ever re-entered as \<open>claimed\<close>, and a task always can be finished.
\<close>

section \<open>The statuses and the table\<close>

definition CLAIMED :: string where "CLAIMED = ''claimed''"
definition WORKING :: string where "WORKING = ''working''"
definition INPUT_REQUIRED :: string where "INPUT_REQUIRED = ''input_required''"
definition DONE :: string where "DONE = ''done''"
definition FAILED :: string where "FAILED = ''failed''"

lemmas status_defs = CLAIMED_def WORKING_def INPUT_REQUIRED_def DONE_def FAILED_def

definition all_statuses :: "string list" where
  "all_statuses = [CLAIMED, WORKING, INPUT_REQUIRED, DONE, FAILED]"

definition terminal_statuses :: "string list" where
  "terminal_statuses = [DONE, FAILED]"

definition transitions :: "(string, string list) pydict" where
  "transitions =
     [(CLAIMED, [WORKING, DONE, FAILED]),
      (WORKING, [INPUT_REQUIRED, DONE, FAILED]),
      (INPUT_REQUIRED, [WORKING, DONE, FAILED]),
      (DONE, []),
      (FAILED, [])]"

definition is_known :: "string \<Rightarrow> bool" where
  "is_known status \<longleftrightarrow> status \<in> set all_statuses"

definition is_terminal :: "string \<Rightarrow> bool" where
  "is_terminal status \<longleftrightarrow> status \<in> set terminal_statuses"

definition can_transition :: "string \<Rightarrow> string \<Rightarrow> bool" where
  "can_transition current target =
     (if target \<notin> set all_statuses then False
      else if current = target then True
      else target \<in> set (case dget transitions current of None \<Rightarrow> [] | Some ts \<Rightarrow> ts))"

lemmas lifecycle_defs =
  status_defs all_statuses_def terminal_statuses_def transitions_def
  is_known_def is_terminal_def can_transition_def

section \<open>The lifecycle as a step relation\<close>

text \<open>A step is one accepted status update, as \<open>SynapseState.update_task\<close> applies it.\<close>

inductive status_step :: "string \<Rightarrow> string \<Rightarrow> bool" where
  accepted: "can_transition current target \<Longrightarrow> status_step current target"

inductive_cases status_stepE: "status_step current target"

inductive_simps status_step_iff: "status_step current target"

lemma terminal_absorbing: "is_terminal current \<Longrightarrow> can_transition current target \<Longrightarrow> target = current"
  by (auto simp: lifecycle_defs split: if_splits)

lemma never_back_to_claimed: "can_transition current CLAIMED \<Longrightarrow> current = CLAIMED"
  by (auto simp: lifecycle_defs split: if_splits)

lemma can_transition_known: "can_transition current target \<Longrightarrow> is_known target"
  by (simp add: can_transition_def is_known_def split: if_splits)

lemma can_transition_finish:
  "is_known current \<Longrightarrow> \<not> is_terminal current \<Longrightarrow> can_transition current DONE \<and> can_transition current FAILED"
  by (auto simp: lifecycle_defs)

lemma status_steps_known: "status_step\<^sup>*\<^sup>* current target \<Longrightarrow> is_known current \<Longrightarrow> is_known target"
  by (induction rule: rtranclp_induct) (auto elim: status_stepE dest: can_transition_known)

lemma status_steps_terminal:
  "status_step\<^sup>*\<^sup>* current target \<Longrightarrow> is_terminal current \<Longrightarrow> target = current"
  by (induction rule: rtranclp_induct) (auto elim: status_stepE dest: terminal_absorbing)

end
