(* ===== verification/State_Models.thy ===== *)
theory State_Models
  imports Path_Identity Lifecycle
begin

text \<open>
  The records of the coordination state: \<open>GitContext\<close>, \<open>TaskClaim\<close> and \<open>ResourceOffer\<close> from
  \<open>core/state_models.py\<close> and the custody witness \<open>ProtectedClaimCustody\<close> from
  \<open>core/protected_write_custody.py\<close>, with their serialised forms.
\<close>

section \<open>GitContext\<close>

definition auto_release_modes :: "string list" where
  "auto_release_modes = [''manual'', ''commit'', ''merge'']"

record git_context =
  branch :: string
  git_base :: string
  auto_release_on :: string

definition git_as_dict :: "git_context \<Rightarrow> json_object" where
  "git_as_dict g =
     [(''branch'', JString (branch g)),
      (''base'', JString (git_base g)),
      (''auto_release_on'', JString (auto_release_on g))]"

text \<open>
  \<open>from_dict\<close> over a mapping whose three fields are strings or absent, the shape every writer
  of the repository produces (\<open>str\<close> of such a field is the string itself).
\<close>

definition str_field :: "json_object \<Rightarrow> string \<Rightarrow> string \<Rightarrow> string" where
  "str_field data key dflt = (case dget data key of Some (JString s) \<Rightarrow> s | _ \<Rightarrow> dflt)"

definition git_from_dict :: "json_object \<Rightarrow> git_context" where
  "git_from_dict data =
     (let mode = str_field data ''auto_release_on'' ''merge'';
          mode' = (if mode \<notin> set auto_release_modes then ''manual'' else mode);
          b = str_field data ''base'' []
      in \<lparr>branch = str_field data ''branch'' [],
          git_base = (if b = [] then ''main'' else b),
          auto_release_on = mode'\<rparr>)"

definition git_ok :: "git_context \<Rightarrow> bool" where
  "git_ok g \<longleftrightarrow> git_base g \<noteq> [] \<and> auto_release_on g \<in> set auto_release_modes"

lemma git_from_dict_ok: "git_ok (git_from_dict d)"
  by (auto simp: git_ok_def git_from_dict_def Let_def auto_release_modes_def)

lemma git_round_trip: "git_ok g \<Longrightarrow> git_from_dict (git_as_dict g) = g"
  by (auto simp: git_ok_def git_from_dict_def git_as_dict_def str_field_def Let_def)

section \<open>TaskClaim\<close>

record task_claim =
  task_id :: string
  owner :: string
  claim_note :: string
  claimed_at :: time
  lease_expires_at :: time
  quota_principal :: string
  status :: string
  data_ref :: string
  worktree :: string
  paths :: "string list"
  path_identity :: "claim_scope_identity option"
  epoch :: int
  version :: int
  checkpoint :: string
  git :: "git_context option"
  ownership_epoch :: int

text \<open>The dataclass constructor, with \<open>__post_init__\<close>.\<close>

definition post_init :: "task_claim \<Rightarrow> task_claim" where
  "post_init c = (if ownership_epoch c = 0 then c\<lparr>ownership_epoch := epoch c\<rparr> else c)"

definition or_int :: "int \<Rightarrow> int \<Rightarrow> int" where
  "or_int a b = (if a = 0 then b else a)"

definition continuation_epoch ::
  "task_claim \<Rightarrow> string \<Rightarrow> string \<Rightarrow> string list \<Rightarrow> claim_scope_identity option \<Rightarrow> int" where
  "continuation_epoch c owner' worktree' paths' path_identity' =
     (if (owner c, worktree c, paths c, path_identity c) \<noteq> (owner', worktree', paths', path_identity')
      then 0 else or_int (ownership_epoch c) (epoch c))"

definition claim_as_dict :: "task_claim \<Rightarrow> json_object" where
  "claim_as_dict c =
     [(''task_id'', JString (task_id c)),
      (''owner'', JString (owner c)),
      (''note'', JString (claim_note c)),
      (''claimed_at'', JFloat (Finite (claimed_at c))),
      (''lease_expires_at'', JFloat (Finite (lease_expires_at c))),
      (''status'', JString (status c)),
      (''data_ref'', JString (data_ref c)),
      (''worktree'', JString (worktree c)),
      (''paths'', JList (map JString (paths c))),
      (''epoch'', JInt (epoch c)),
      (''ownership_epoch'', JInt (or_int (ownership_epoch c) (epoch c))),
      (''version'', JInt (version c)),
      (''checkpoint'', JString (checkpoint c)),
      (''git'', (case git c of None \<Rightarrow> JNull | Some g \<Rightarrow> JObject (git_as_dict g)))]
     @ (case path_identity c of
          None \<Rightarrow> []
        | Some i \<Rightarrow> [(''path_identity'', JObject (scope_identity_as_dict i))])"

definition as_persisted_dict :: "task_claim \<Rightarrow> json_object" where
  "as_persisted_dict c =
     claim_as_dict c
     @ (if quota_principal c = [] then [] else [(''quota_principal'', JString (quota_principal c))])"

section \<open>ResourceOffer\<close>

record resource_offer =
  offer_agent :: string
  offer_kind :: string
  offer_name :: string
  offer_capacity :: int
  offer_meta :: json_object
  offered_at :: time

section \<open>ProtectedClaimCustody\<close>

record claim_custody =
  custody_task_id :: string
  custody_owner :: string
  custody_epoch :: int
  custody_version :: int
  custody_lease_expires_at :: time
  custody_worktree :: string
  custody_paths :: "string list"
  custody_path_identity :: "claim_scope_identity option"

definition custody_capture :: "task_claim \<Rightarrow> claim_custody" where
  "custody_capture c =
     \<lparr>custody_task_id = task_id c, custody_owner = owner c, custody_epoch = epoch c,
      custody_version = version c, custody_lease_expires_at = lease_expires_at c,
      custody_worktree = worktree c, custody_paths = paths c,
      custody_path_identity = path_identity c\<rparr>"

definition custody_conflicts ::
  "claim_custody \<Rightarrow> string \<Rightarrow> string \<Rightarrow> string list \<Rightarrow> claim_scope_identity option \<Rightarrow> bool" where
  "custody_conflicts w task wt ps ident \<longleftrightarrow>
     custody_task_id w = task
     \<or> claim_scopes_conflict wt ps ident
         (custody_worktree w) (custody_paths w) (custody_path_identity w)"

lemma post_init_fields [simp]:
  "task_id (post_init c) = task_id c" "owner (post_init c) = owner c"
  "lease_expires_at (post_init c) = lease_expires_at c" "claimed_at (post_init c) = claimed_at c"
  "quota_principal (post_init c) = quota_principal c" "status (post_init c) = status c"
  "worktree (post_init c) = worktree c" "paths (post_init c) = paths c"
  "path_identity (post_init c) = path_identity c" "epoch (post_init c) = epoch c"
  "version (post_init c) = version c" "checkpoint (post_init c) = checkpoint c"
  "git (post_init c) = git c" "claim_note (post_init c) = claim_note c" "data_ref (post_init c) = data_ref c"
  "ownership_epoch (post_init c) = or_int (ownership_epoch c) (epoch c)"
  by (simp_all add: post_init_def or_int_def)

end
