(* ===== verification/Lease_Index.thy ===== *)
theory Lease_Index
  imports State_Models "HOL-Library.Multiset"
begin

text \<open>
  The lease-expiry index of \<open>core/state_leases.py\<close>.  Python's \<open>heapq\<close> is used through its
  contract only: entries are tuples \<open>(expiry, task, epoch)\<close>, \<open>heap[0]\<close> and \<open>heappop\<close> are the
  least one in tuple order.  The heap is the sorted list of its entries, so \<open>heappush\<close> is
  \<open>insort\<close>, \<open>heapify\<close> is \<open>sort\<close>, and \<open>heappop\<close> takes the head.  Entries are never deleted on
  renewal or release; the lemmas say which entries a sweep returns and how far the index may
  outgrow the live claims.
\<close>

type_synonym lease_entry = "time \<times> string \<times> int"
type_synonym claim_dict = "(string, task_claim) pydict"

definition LEASE_HEAP_COMPACT_FLOOR :: nat where "LEASE_HEAP_COMPACT_FLOOR = 16"

definition heappush :: "lease_entry \<Rightarrow> lease_entry list \<Rightarrow> lease_entry list" where
  "heappush e h = insort e h"

definition heapify :: "lease_entry list \<Rightarrow> lease_entry list" where
  "heapify h = sort h"

definition index_rebuild :: "claim_dict \<Rightarrow> lease_entry list" where
  "index_rebuild cs = heapify (map (\<lambda>(task, c). (lease_expires_at c, task, epoch c)) cs)"

definition index_track :: "task_claim \<Rightarrow> claim_dict \<Rightarrow> lease_entry list \<Rightarrow> lease_entry list" where
  "index_track c cs entries =
     (let entries' = heappush (lease_expires_at c, task_id c, epoch c) entries
      in if length entries' > 2 * length cs + LEASE_HEAP_COMPACT_FLOOR
         then index_rebuild cs else entries')"

text \<open>The generator \<open>pop_due\<close> run to its end: what it yields, and the heap it leaves.\<close>

fun pop_due :: "time \<Rightarrow> lease_entry list \<Rightarrow> (string \<times> int) list \<times> lease_entry list" where
  "pop_due now [] = ([], [])"
| "pop_due now ((expires_at, task, ep) # h) =
     (if expires_at \<le> now
      then (let (due, rest) = pop_due now h in ((task, ep) # due, rest))
      else ([], (expires_at, task, ep) # h))"

section \<open>What a sweep yields\<close>

lemma sorted_entries_fst: "sorted ((x, y) # h) \<Longrightarrow> e \<in> set h \<Longrightarrow> x \<le> fst e"
  by (cases e) (auto simp: less_eq_prod_def)

lemma pop_due_set:
  "sorted h \<Longrightarrow>
   set (fst (pop_due now h)) = {(task, ep). \<exists>x. (x, task, ep) \<in> set h \<and> x \<le> now}
   \<and> snd (pop_due now h) = filter (\<lambda>e. \<not> fst e \<le> now) h"
proof (induction now h rule: pop_due.induct)
  case (2 now x task ep h)
  show ?case
  proof (cases "x \<le> now")
    case True
    then show ?thesis using 2 by (auto simp: split_beta Let_def)
  next
    case False
    have late: "\<not> fst e \<le> now" if "e \<in> set h" for e
      using sorted_entries_fst [OF "2.prems" that] False by simp
    have "filter (\<lambda>e. \<not> fst e \<le> now) h = h"
      using late by (intro filter_True) blast
    then show ?thesis using False late by fastforce
  qed
qed simp

lemma pop_due_rest_sorted: "sorted h \<Longrightarrow> sorted (snd (pop_due now h))"
  using pop_due_set [of h now] sorted_filter [of id] by (simp add: sorted_map_same)

lemma index_rebuild_sorted [simp]: "sorted (index_rebuild cs)"
  by (simp add: index_rebuild_def heapify_def)

lemma index_rebuild_set:
  "set (index_rebuild cs) = (\<lambda>(task, c). (lease_expires_at c, task, epoch c)) ` set cs"
  by (simp add: index_rebuild_def heapify_def)

lemma index_track_sorted: "sorted entries \<Longrightarrow> sorted (index_track c cs entries)"
  by (simp add: index_track_def heappush_def Let_def sorted_insort)

lemma index_track_set:
  "set (index_track c cs entries) = set (index_rebuild cs)
   \<or> set (index_track c cs entries) = insert (lease_expires_at c, task_id c, epoch c) (set entries)"
  by (simp add: index_track_def heappush_def Let_def set_insort_key)

lemma index_track_bound: "length (index_track c cs entries) \<le> 2 * length cs + LEASE_HEAP_COMPACT_FLOOR"
  by (auto simp: index_track_def Let_def index_rebuild_def heapify_def)

section \<open>The contract of an expiry index\<close>

text \<open>
  What the registry needs of its index: \<open>sweep\<close> yields exactly the entries that are due and
  keeps the others, \<open>track\<close> and \<open>rebuild\<close> leave every live lease indexed.  \<open>indexed\<close> says
  that each live lease has an entry with its current expiry and epoch; superseded entries may
  be there too.
\<close>

definition indexed :: "lease_entry set \<Rightarrow> claim_dict \<Rightarrow> bool" where
  "indexed E cs \<longleftrightarrow> (\<forall>k c. dget cs k = Some c \<longrightarrow> (lease_expires_at c, k, epoch c) \<in> E)"

locale expiry_index =
  fixes index_ok :: "'h \<Rightarrow> bool"
    and entries :: "'h \<Rightarrow> lease_entry set"
    and rebuild :: "claim_dict \<Rightarrow> 'h"
    and track :: "task_claim \<Rightarrow> claim_dict \<Rightarrow> 'h \<Rightarrow> 'h"
    and sweep :: "time \<Rightarrow> 'h \<Rightarrow> (string \<times> int) list \<times> 'h"
  assumes rebuild_ok: "index_ok (rebuild cs)"
    and rebuild_entries: "entries (rebuild cs) = (\<lambda>(k, c). (lease_expires_at c, k, epoch c)) ` set cs"
    and track_ok: "index_ok h \<Longrightarrow> index_ok (track c cs h)"
    and track_entries: "entries (track c cs h) = entries (rebuild cs)
          \<or> entries (track c cs h) = insert (lease_expires_at c, task_id c, epoch c) (entries h)"
    and sweep_due: "index_ok h \<Longrightarrow>
          set (fst (sweep now h)) = {(k, ep). \<exists>x. (x, k, ep) \<in> entries h \<and> x \<le> now}"
    and sweep_rest_ok: "index_ok h \<Longrightarrow> index_ok (snd (sweep now h))"
    and sweep_rest: "index_ok h \<Longrightarrow> entries (snd (sweep now h)) = {e \<in> entries h. \<not> fst e \<le> now}"
begin

lemma rebuild_indexed: "dict_ok cs \<Longrightarrow> indexed (entries (rebuild cs)) cs"
  by (auto simp: indexed_def rebuild_entries dict_mem_iff [symmetric] image_iff intro: bexI [rotated])

lemma track_indexed:
  assumes "dict_ok cs" and "indexed (entries h) cs"
  shows "indexed (entries (track c (dset (task_id c) c cs) h)) (dset (task_id c) c cs)"
proof -
  have "indexed (insert (lease_expires_at c, task_id c, epoch c) (entries h)) (dset (task_id c) c cs)"
    using assms(2) by (auto simp: indexed_def)
  then show ?thesis
    using track_entries [of c "dset (task_id c) c cs" h] rebuild_indexed [of "dset (task_id c) c cs"] assms(1)
    by auto
qed

lemma indexed_shrink:
  "indexed E cs \<Longrightarrow> (\<And>k c. dget cs' k = Some c \<Longrightarrow> dget cs k = Some c) \<Longrightarrow> indexed E cs'"
  unfolding indexed_def by blast

lemma sweep_finds_due:
  "index_ok h \<Longrightarrow> indexed (entries h) cs \<Longrightarrow> dget cs k = Some c \<Longrightarrow> lease_expires_at c \<le> now \<Longrightarrow>
   (k, epoch c) \<in> set (fst (sweep now h))"
  by (auto simp: sweep_due indexed_def)

lemma sweep_rest_indexed:
  assumes "index_ok h" and "indexed (entries h) cs"
    and "\<And>k c. dget cs' k = Some c \<Longrightarrow> dget cs k = Some c \<and> \<not> lease_expires_at c \<le> now"
  shows "indexed (entries (snd (sweep now h))) cs'"
  using assms by (fastforce simp: indexed_def sweep_rest)

end

interpretation lease_heap: expiry_index sorted set index_rebuild index_track pop_due
proof (unfold_locales, goal_cases)
  case (4 c cs h)
  then show ?case using index_track_set .
next
  case (5 h now)
  then show ?case using pop_due_set by blast
next
  case (7 h now)
  then show ?case using pop_due_set [of h now] by auto
qed (auto simp: index_rebuild_set index_track_sorted pop_due_rest_sorted)

end
