(* ===== verification/Numeric_Coercion.thy ===== *)
theory Numeric_Coercion
  imports Json
begin

text \<open>
  Safe coercion of untrusted numeric fields, from \<open>core/numeric_coercion.py\<close>, over decoded JSON
  values.  \<open>py_int\<close> and \<open>py_float\<close> are Python's \<open>int()\<close> and \<open>float()\<close>; \<open>None\<close> stands for
  the \<open>TypeError\<close>, \<open>ValueError\<close> or \<open>OverflowError\<close> they raise.
\<close>

section \<open>Python's conversions\<close>

definition digit_value :: "char \<Rightarrow> int option" where
  "digit_value c =
     (if 48 \<le> code_of c \<and> code_of c \<le> 57 then Some (int (code_of c) - 48) else None)"

text \<open>A run of digits with single underscores between them; the flag says a digit came last.\<close>

fun read_digits :: "bool \<Rightarrow> int \<Rightarrow> string \<Rightarrow> (int \<times> string) option" where
  "read_digits after acc [] = (if after then Some (acc, []) else None)"
| "read_digits after acc (c # cs) =
     (case digit_value c of
        Some d \<Rightarrow> read_digits True (10 * acc + d) cs
      | None \<Rightarrow>
          (if c = CHR ''_'' \<and> after then read_digits False acc cs
           else if after then Some (acc, c # cs) else None))"

definition read_sign :: "string \<Rightarrow> int \<times> string" where
  "read_sign s =
     (case s of
        c # cs \<Rightarrow> (if c = CHR ''-'' then (- 1, cs) else if c = CHR ''+'' then (1, cs) else (1, s))
      | [] \<Rightarrow> (1, s))"

definition int_max_str_digits :: nat where "int_max_str_digits = 4300"

definition py_int_of_string :: "string \<Rightarrow> int option" where
  "py_int_of_string s =
     (let (sign, body) = read_sign (py_strip s)
      in if length (filter (\<lambda>c. digit_value c \<noteq> None) body) > int_max_str_digits then None
         else (case read_digits False 0 body of
                 Some (n, []) \<Rightarrow> Some (sign * n)
               | _ \<Rightarrow> None))"

text \<open>The least magnitude that rounds to infinity: \<open>2 ^ 1024 - 2 ^ 970\<close>.\<close>

definition float_overflow :: rat where "float_overflow = 2 ^ 1024 - 2 ^ 970"

definition to_double :: "rat \<Rightarrow> pyfloat" where
  "to_double q =
     (if q \<ge> float_overflow then PosInf else if q \<le> - float_overflow then NegInf else Finite q)"

definition ascii_lower :: "string \<Rightarrow> string" where
  "ascii_lower s = map (\<lambda>c. if 65 \<le> code_of c \<and> code_of c \<le> 90 then char_of (code_of c + 32) else c) s"

definition count_digits :: "string \<Rightarrow> nat" where
  "count_digits s = length (filter (\<lambda>c. digit_value c \<noteq> None) s)"

text \<open>\<open>float(str)\<close>: an optional fraction and an optional exponent after (or around) the digits.\<close>

definition read_exponent :: "string \<Rightarrow> int option" where
  "read_exponent s =
     (case s of
        [] \<Rightarrow> Some 0
      | c # cs \<Rightarrow>
          (if c = CHR ''e'' \<or> c = CHR ''E''
           then (let (sign, body) = read_sign cs
                 in case read_digits False 0 body of Some (n, []) \<Rightarrow> Some (sign * n) | _ \<Rightarrow> None)
           else None))"

definition scale10 :: "rat \<Rightarrow> int \<Rightarrow> rat" where
  "scale10 q k = (if 0 \<le> k then q * 10 ^ nat k else q / 10 ^ nat (- k))"

definition read_fraction :: "string \<Rightarrow> (int \<times> nat \<times> string) option" where
  "read_fraction s =
     (case read_digits False 0 s of
        Some (n, rest) \<Rightarrow> Some (n, count_digits (take (length s - length rest) s), rest)
      | None \<Rightarrow> (case s of
                   [] \<Rightarrow> Some (0, 0, s)
                 | c # cs \<Rightarrow> (if c = CHR ''e'' \<or> c = CHR ''E'' then Some (0, 0, s) else None)))"

definition read_decimal :: "string \<Rightarrow> rat option" where
  "read_decimal s =
     (case (case s of c # cs \<Rightarrow> (if c = CHR ''.'' then None else read_digits False 0 s) | [] \<Rightarrow> None) of
        Some (n, rest) \<Rightarrow>
          (case rest of
             c # cs \<Rightarrow>
               (if c = CHR ''.''
                then (case read_fraction cs of
                        Some (f, k, rest') \<Rightarrow>
                          (case read_exponent rest' of
                             Some e \<Rightarrow> Some (scale10 (of_int n + of_int f / 10 ^ k) e)
                           | None \<Rightarrow> None)
                      | None \<Rightarrow> None)
                else map_option (scale10 (of_int n)) (read_exponent rest))
           | [] \<Rightarrow> Some (of_int n))
      | None \<Rightarrow>
          (case s of
             c # cs \<Rightarrow>
               (if c = CHR ''.''
                then (case read_digits False 0 cs of
                        Some (f, rest) \<Rightarrow>
                          map_option
                            (scale10 (of_int f / 10 ^ count_digits (take (length cs - length rest) cs)))
                            (read_exponent rest)
                      | None \<Rightarrow> None)
                else None)
           | [] \<Rightarrow> None))"

definition py_float_of_string :: "string \<Rightarrow> pyfloat option" where
  "py_float_of_string s =
     (let (sign, body) = read_sign (py_strip s); word = ascii_lower body
      in if word = ''inf'' \<or> word = ''infinity'' then Some (if sign = 1 then PosInf else NegInf)
         else if word = ''nan'' then Some NaN
         else map_option (\<lambda>q. to_double (of_int sign * q)) (read_decimal body))"

definition py_trunc :: "rat \<Rightarrow> int" where
  "py_trunc q = (if 0 \<le> q then \<lfloor>q\<rfloor> else \<lceil>q\<rceil>)"

fun py_int :: "json \<Rightarrow> int option" where
  "py_int (JBool b) = Some (if b then 1 else 0)"
| "py_int (JInt i) = Some i"
| "py_int (JFloat (Finite q)) = Some (py_trunc q)"
| "py_int (JString s) = py_int_of_string s"
| "py_int _ = None"

fun py_float :: "json \<Rightarrow> pyfloat option" where
  "py_float (JBool b) = Some (Finite (if b then 1 else 0))"
| "py_float (JInt i) = (if \<bar>of_int i\<bar> \<ge> float_overflow then None else Some (Finite (of_int i)))"
| "py_float (JFloat f) = Some f"
| "py_float (JString s) = py_float_of_string s"
| "py_float _ = None"

section \<open>The tolerant and the strict helpers\<close>

definition is_json_bool :: "json \<Rightarrow> bool" where
  "is_json_bool v = (case v of JBool _ \<Rightarrow> True | _ \<Rightarrow> False)"

definition safe_int :: "json \<Rightarrow> int option \<Rightarrow> int option \<Rightarrow> int option \<Rightarrow> bool \<Rightarrow> int option" where
  "safe_int v dflt min_value max_value allow_bool =
     (if \<not> allow_bool \<and> is_json_bool v then dflt
      else (case py_int v of
              None \<Rightarrow> dflt
            | Some result \<Rightarrow>
                (let result' = (case min_value of
                       Some lo \<Rightarrow> if result < lo then lo else result | None \<Rightarrow> result)
                 in Some (case max_value of
                       Some hi \<Rightarrow> if result' > hi then hi else result' | None \<Rightarrow> result'))))"

definition is_finite :: "pyfloat \<Rightarrow> bool" where
  "is_finite f = (case f of Finite _ \<Rightarrow> True | _ \<Rightarrow> False)"

definition safe_float :: "json \<Rightarrow> pyfloat option \<Rightarrow> bool \<Rightarrow> bool \<Rightarrow> pyfloat option" where
  "safe_float v dflt finite_only allow_bool =
     (if \<not> allow_bool \<and> is_json_bool v then dflt
      else (case py_float v of
              None \<Rightarrow> dflt
            | Some result \<Rightarrow> if finite_only \<and> \<not> is_finite result then dflt else Some result))"

definition optional_int_field :: "json_object \<Rightarrow> string \<Rightarrow> int option" where
  "optional_int_field data key =
     (let v = get_field data key
      in case v of
           JInt _ \<Rightarrow> safe_int v None None None False
         | JFloat _ \<Rightarrow> safe_int v None None None False
         | _ \<Rightarrow> None)"

lemma safe_int_bounds:
  assumes "safe_int v (Some d) (Some lo) (Some hi) b = Some i" and "lo \<le> hi" and "lo \<le> d" and "d \<le> hi"
  shows "lo \<le> i \<and> i \<le> hi"
  using assms by (auto simp: safe_int_def Let_def split: option.splits if_splits)

lemma safe_int_min: "safe_int v (Some d) (Some lo) None b = Some i \<Longrightarrow> lo \<le> d \<Longrightarrow> lo \<le> i"
  by (auto simp: safe_int_def Let_def split: option.splits if_splits)

lemma safe_int_total: "\<exists>i. safe_int v (Some d) lo hi b = Some i"
  by (simp add: safe_int_def Let_def split: option.splits)

lemma safe_float_finite:
  "safe_float v (Some (Finite d)) True b = Some f \<Longrightarrow> \<exists>q. f = Finite q"
  by (auto simp: safe_float_def is_finite_def split: option.splits if_splits pyfloat.splits)

lemma safe_float_total: "\<exists>f. safe_float v (Some (Finite d)) True b = Some f"
  by (simp add: safe_float_def split: option.splits)

end
