(* ===== verification/Synapse_State.thy ===== *)
theory Synapse_State
  imports Lease_Index Numeric_Coercion
begin

text \<open>
  The hub's registry of presence, claims and resource offers, from \<open>core/state.py\<close> with the
  scans of \<open>core/state_scopes.py\<close> and the offers of \<open>core/state_resources.py\<close>.  The record holds
  the fields of \<open>SynapseState\<close> that these operations read or write; each method is a function
  from the state (and the resolved time stamp \<open>ts\<close>, which the code takes from \<open>now\<close> or the
  system clock) to the new state and its reply, refusals included.
\<close>

section \<open>Replies\<close>

text \<open>Each refusal and each success message of the registry, and its exact text.\<close>

datatype state_msg =
    TaskIdRequired
  | PathIdentityMismatch string
  | CustodyConflict string
  | AlreadyClaimed string string
  | ScopeConflict string string string
  | QuotaExhausted string int
  | Claimed string string
  | RenewalLost string
  | CustodyOutstanding string
  | RenewalPathsDiffer
  | Renewed string string
  | TaskNotFound string
  | OwnedBy string string string
  | EpochStale string int
  | VersionConflict string int
  | IllegalTransition string string string
  | Updated string string
  | CheckpointSaved string string
  | NotClaimed string
  | IsOwnedBy string string string
  | Released string string
  | OperatorReleased string string string
  | HandoffTargetRequired
  | AlreadyOwned string string
  | HoldsMaximum string int
  | Handed string string string

fun render_msg :: "state_msg \<Rightarrow> string" where
  "render_msg TaskIdRequired = ''Task ID is required.''"
| "render_msg (PathIdentityMismatch t) =
     ''Task '' @ quoted t @ '' path identity does not match its declared scope.''"
| "render_msg (CustodyConflict t) = ''Task '' @ quoted t @ '' conflicts with outstanding protected custody.''"
| "render_msg (AlreadyClaimed t ow) = ''Task '' @ quoted t @ '' is already claimed by '' @ ow @ ''.''"
| "render_msg (ScopeConflict t t' ow) =
     ''Task '' @ quoted t @ '' file scope conflicts with '' @ quoted t' @ '' held by '' @ ow @ ''.''"
| "render_msg (QuotaExhausted ag n) =
     ''Agent '' @ ag @ '' principal claim quota holds the maximum '' @ show_int n @ '' claims.''"
| "render_msg (Claimed t ag) = ''Task '' @ quoted t @ '' claimed by '' @ ag @ ''.''"
| "render_msg (RenewalLost t) = ''Task '' @ quoted t @ '' renewal lost its original ownership.''"
| "render_msg (CustodyOutstanding t) = ''Task '' @ quoted t @ '' has outstanding protected custody.''"
| "render_msg RenewalPathsDiffer = ''Renewal must repeat the original paths for ACL checks.''"
| "render_msg (Renewed t ag) = ''Task '' @ quoted t @ '' renewed by '' @ ag @ ''.''"
| "render_msg (TaskNotFound t) = ''Task '' @ quoted t @ '' not found.''"
| "render_msg (OwnedBy t ow ag) = ''Task '' @ quoted t @ '' owned by '' @ ow @ '', not '' @ ag @ ''.''"
| "render_msg (EpochStale t e) = ''Task '' @ quoted t @ '' epoch is stale (current '' @ show_int e @ '').''"
| "render_msg (VersionConflict t v) = ''Task '' @ quoted t @ '' version conflict (current '' @ show_int v @ '').''"
| "render_msg (IllegalTransition t a b) = ''Task '' @ quoted t @ '' cannot transition '' @ a @ '' -> '' @ b @ ''.''"
| "render_msg (Updated t ag) = ''Task '' @ quoted t @ '' updated by '' @ ag @ ''.''"
| "render_msg (CheckpointSaved t ag) = ''Checkpoint saved for '' @ quoted t @ '' by '' @ ag @ ''.''"
| "render_msg (NotClaimed t) = ''Task '' @ quoted t @ '' is not currently claimed.''"
| "render_msg (IsOwnedBy t ow ag) = ''Task '' @ quoted t @ '' is owned by '' @ ow @ '', not '' @ ag @ ''.''"
| "render_msg (Released t ag) = ''Task '' @ quoted t @ '' released by '' @ ag @ ''.''"
| "render_msg (OperatorReleased t by ow) =
     ''Task '' @ quoted t @ '' released by operator '' @ by @ '' (was held by '' @ ow @ '').''"
| "render_msg HandoffTargetRequired = ''Handoff target is required.''"
| "render_msg (AlreadyOwned t ag) = ''Task '' @ quoted t @ '' is already owned by '' @ ag @ ''.''"
| "render_msg (HoldsMaximum ag n) = ''Agent '' @ ag @ '' holds the maximum '' @ show_int n @ '' claims.''"
| "render_msg (Handed t ag to) = ''Task '' @ quoted t @ '' handed from '' @ ag @ '' to '' @ to @ ''.''"

text \<open>\<open>Inl\<close> is \<open>(False, reason)\<close>, \<open>Inr\<close> is \<open>(True, message)\<close>.\<close>

type_synonym reply = "state_msg + state_msg"

section \<open>The state\<close>

definition MINIMUM_TTL_SECONDS :: time where "MINIMUM_TTL_SECONDS = 30"
definition MAXIMUM_TTL_SECONDS :: time where "MAXIMUM_TTL_SECONDS = 2592000"
definition MAX_CLAIMS_PER_AGENT :: int where "MAX_CLAIMS_PER_AGENT = 128"
definition MAX_OFFERS_PER_AGENT :: int where "MAX_OFFERS_PER_AGENT = 64"
definition DEFAULT_RESOURCE_TTL_SECONDS :: time where "DEFAULT_RESOURCE_TTL_SECONDS = 300"

record synapse_state =
  default_ttl_seconds :: time
  max_claims_per_agent :: int
  max_offers_per_agent :: int
  max_paths_per_claim :: int
  last_seen :: "(string, time) pydict"
  claims :: claim_dict
  protected_claim_custody :: "(string, claim_custody list) pydict"
  resources :: "(string, resource_offer) pydict"
  expired_checkpoints :: "(string, string) pydict"
  epoch_seq :: int
  lease_index :: "lease_entry list"

definition clamp_ttl :: "time \<Rightarrow> time" where
  "clamp_ttl seconds = min (max seconds MINIMUM_TTL_SECONDS) MAXIMUM_TTL_SECONDS"

definition the_time :: "pyfloat option \<Rightarrow> time \<Rightarrow> time" where
  "the_time f dflt = (case f of Some (Finite q) \<Rightarrow> q | _ \<Rightarrow> dflt)"

definition int_or :: "int option \<Rightarrow> int \<Rightarrow> int" where
  "int_or v dflt = (case v of Some i \<Rightarrow> i | None \<Rightarrow> dflt)"

text \<open>\<open>__init__\<close>; the offer registry's own \<open>safe_int\<close> of a bounded value changes nothing.\<close>

definition init_state :: "json \<Rightarrow> json \<Rightarrow> json \<Rightarrow> json \<Rightarrow> synapse_state" where
  "init_state ttl max_claims max_offers max_paths =
     \<lparr>default_ttl_seconds =
        clamp_ttl (the_time (safe_float ttl (Some (Finite 3600)) True True) 3600),
      max_claims_per_agent =
        int_or (safe_int max_claims (Some MAX_CLAIMS_PER_AGENT) (Some 1) None True) MAX_CLAIMS_PER_AGENT,
      max_offers_per_agent =
        int_or (safe_int max_offers (Some MAX_OFFERS_PER_AGENT) (Some 1) None True) MAX_OFFERS_PER_AGENT,
      max_paths_per_claim =
        int_or (safe_int max_paths (Some MAX_DECLARED_PATHS) (Some 1) None True) MAX_DECLARED_PATHS,
      last_seen = [], claims = [], protected_claim_custody = [], resources = [],
      expired_checkpoints = [], epoch_seq = 0, lease_index = heapify []\<rparr>"

section \<open>Presence and expiry\<close>

text \<open>\<open>_expire_claims\<close>: the loop over the due entries of the index.\<close>

fun expire_due ::
  "time \<Rightarrow> (string \<times> int) list \<Rightarrow> claim_dict \<Rightarrow> (string, string) pydict
   \<Rightarrow> claim_dict \<times> (string, string) pydict" where
  "expire_due now [] cs cps = (cs, cps)"
| "expire_due now ((task, ep) # due) cs cps =
     (case dget cs task of
        None \<Rightarrow> expire_due now due cs cps
      | Some c \<Rightarrow>
          (if epoch c \<noteq> ep \<or> lease_expires_at c > now then expire_due now due cs cps
           else expire_due now due (ddel task cs)
                  (if checkpoint c \<noteq> [] then dset task (checkpoint c) cps else cps)))"

definition expire_claims :: "time \<Rightarrow> synapse_state \<Rightarrow> synapse_state" where
  "expire_claims now s =
     (let (due, rest) = pop_due now (lease_index s);
          (cs, cps) = expire_due now due (claims s) (expired_checkpoints s)
      in s\<lparr>claims := cs, expired_checkpoints := cps, lease_index := rest\<rparr>)"

definition expire_offers ::
  "time \<Rightarrow> time \<Rightarrow> (string, resource_offer) pydict \<Rightarrow> (string, resource_offer) pydict" where
  "expire_offers now ttl offers = filter (\<lambda>(key, offer). \<not> now - offered_at offer > ttl) offers"

definition expire_resources :: "time \<Rightarrow> synapse_state \<Rightarrow> synapse_state" where
  "expire_resources now s =
     s\<lparr>resources := expire_offers now DEFAULT_RESOURCE_TTL_SECONDS (resources s)\<rparr>"

definition heartbeat :: "string \<Rightarrow> time \<Rightarrow> synapse_state \<Rightarrow> synapse_state" where
  "heartbeat agent ts s =
     expire_resources ts (expire_claims ts (s\<lparr>last_seen := dset agent ts (last_seen s)\<rparr>))"

definition reindex_leases :: "synapse_state \<Rightarrow> synapse_state" where
  "reindex_leases s = s\<lparr>lease_index := index_rebuild (claims s)\<rparr>"

text \<open>\<open>self.claims[task] = claim\<close> followed by \<open>_track_lease(claim)\<close>.\<close>

definition store_claim :: "task_claim \<Rightarrow> synapse_state \<Rightarrow> synapse_state" where
  "store_claim c s =
     (let cs = dset (task_id c) c (claims s)
      in s\<lparr>claims := cs, lease_index := index_track c cs (lease_index s)\<rparr>)"

section \<open>Scans\<close>

fun find_scope_conflict ::
  "claim_dict \<Rightarrow> string \<Rightarrow> string \<Rightarrow> string \<Rightarrow> string list \<Rightarrow> claim_scope_identity option
   \<Rightarrow> (string \<times> string) option" where
  "find_scope_conflict [] task agent wt ps ident = None"
| "find_scope_conflict ((other_id, other) # rest) task agent wt ps ident =
     (if other_id = task \<or> owner other = agent then find_scope_conflict rest task agent wt ps ident
      else if claim_scopes_conflict wt ps ident (worktree other) (paths other) (path_identity other)
      then Some (other_id, owner other)
      else find_scope_conflict rest task agent wt ps ident)"

definition protected_task_held :: "string \<Rightarrow> synapse_state \<Rightarrow> bool" where
  "protected_task_held task s \<longleftrightarrow>
     (\<exists>ws \<in> set (map snd (protected_claim_custody s)). \<exists>w \<in> set ws. custody_task_id w = task)"

definition protected_scope_held ::
  "string \<Rightarrow> string \<Rightarrow> string list \<Rightarrow> claim_scope_identity option \<Rightarrow> synapse_state \<Rightarrow> bool" where
  "protected_scope_held task wt ps ident s \<longleftrightarrow>
     (\<exists>ws \<in> set (map snd (protected_claim_custody s)). \<exists>w \<in> set ws. custody_conflicts w task wt ps ident)"

definition quota_bucket :: "task_claim \<Rightarrow> string" where
  "quota_bucket c = (if quota_principal c = [] then owner c else quota_principal c)"

definition claims_owned_by :: "string \<Rightarrow> synapse_state \<Rightarrow> int" where
  "claims_owned_by prin s = int (count_values (\<lambda>c. quota_bucket c = prin) (claims s))"

definition claim_quota_available ::
  "string \<Rightarrow> string \<Rightarrow> task_claim option \<Rightarrow> synapse_state \<Rightarrow> bool" where
  "claim_quota_available agent prin existing s =
     (case existing of
        Some c \<Rightarrow>
          (if owner c = agent \<and> quota_bucket c = prin then True
           else claims_owned_by prin s < max_claims_per_agent s)
      | None \<Rightarrow> claims_owned_by prin s < max_claims_per_agent s)"

section \<open>Claiming\<close>

record claim_request =
  req_note :: string
  req_ttl :: "pyfloat option"
  req_principal :: "string option"
  req_worktree :: string
  req_paths :: "string list"
  req_identity :: "claim_scope_identity option"
  req_git :: "git_context option"
  req_require_unclaimed :: bool

definition claim_principal :: "string \<Rightarrow> string option \<Rightarrow> string" where
  "claim_principal agent quota =
     (let p = py_strip (case quota of Some q \<Rightarrow> (if q = [] then agent else q) | None \<Rightarrow> agent)
      in if p = [] then agent else p)"

definition claim_ttl :: "pyfloat option \<Rightarrow> synapse_state \<Rightarrow> time" where
  "claim_ttl ttl_seconds s =
     (case ttl_seconds of
        None \<Rightarrow> default_ttl_seconds s
      | Some f \<Rightarrow>
          clamp_ttl (the_time (safe_float (JFloat f) (Some (Finite (default_ttl_seconds s))) True False)
            (default_ttl_seconds s)))"

text \<open>\<open>_claim_checkpoint\<close>: the checkpoint to carry over and the retained checkpoints left.\<close>

definition claim_checkpoint ::
  "string \<Rightarrow> string \<Rightarrow> task_claim option \<Rightarrow> (string, string) pydict
   \<Rightarrow> string \<times> (string, string) pydict" where
  "claim_checkpoint agent task existing cps =
     (case existing of
        Some c \<Rightarrow>
          (if owner c = agent then (checkpoint c, cps)
           else ((case dget cps task of Some cp \<Rightarrow> cp | None \<Rightarrow> []), ddel task cps))
      | None \<Rightarrow> ((case dget cps task of Some cp \<Rightarrow> cp | None \<Rightarrow> []), ddel task cps))"

definition grant_claim ::
  "string \<Rightarrow> string \<Rightarrow> claim_request \<Rightarrow> string \<Rightarrow> time \<Rightarrow> string list \<Rightarrow> task_claim option
   \<Rightarrow> time \<Rightarrow> synapse_state \<Rightarrow> synapse_state" where
  "grant_claim agent task rq prin ttl norm_paths existing ts s =
     (let ep = epoch_seq s + 1;
          (cp, cps) = claim_checkpoint agent task existing (expired_checkpoints s);
          c = post_init
            \<lparr>task_id = task, owner = agent, claim_note = py_strip (req_note rq), claimed_at = ts,
             lease_expires_at = ts + ttl, quota_principal = prin, status = CLAIMED,
             data_ref = [], worktree = req_worktree rq, paths = norm_paths,
             path_identity = req_identity rq, epoch = ep, version = 0, checkpoint = cp,
             git = req_git rq,
             ownership_epoch =
               (case existing of
                  Some old \<Rightarrow> continuation_epoch old agent (req_worktree rq) norm_paths (req_identity rq)
                | None \<Rightarrow> 0)\<rparr>
      in store_claim c (s\<lparr>epoch_seq := ep, expired_checkpoints := cps\<rparr>))"

definition claim :: "string \<Rightarrow> string \<Rightarrow> claim_request \<Rightarrow> time \<Rightarrow> synapse_state \<Rightarrow> synapse_state \<times> reply" where
  "claim agent task_id' rq ts s0 =
     (let task = py_strip task_id'
      in if task = [] then (s0, Inl TaskIdRequired)
         else
           (let prin = claim_principal agent (req_principal rq);
                ttl = claim_ttl (req_ttl rq) s0;
                norm_paths = normalize_paths (req_paths rq) (Some (max_paths_per_claim s0))
            in if (case req_identity rq of
                     Some i \<Rightarrow> \<not> validates_display_scope i (req_worktree rq) norm_paths
                   | None \<Rightarrow> False)
               then (s0, Inl (PathIdentityMismatch task))
               else
                 (let s = heartbeat agent ts s0;
                      existing = dget (claims s) task
                  in if protected_scope_held task (req_worktree rq) norm_paths (req_identity rq) s
                     then (s, Inl (CustodyConflict task))
                     else if (case existing of
                                Some c \<Rightarrow> (req_require_unclaimed rq \<or> owner c \<noteq> agent) \<and> lease_expires_at c > ts
                              | None \<Rightarrow> False)
                     then (s, Inl (AlreadyClaimed task (owner (the existing))))
                     else
                       (case find_scope_conflict (claims s) task agent (req_worktree rq) norm_paths (req_identity rq) of
                          Some (other_id, other_owner) \<Rightarrow> (s, Inl (ScopeConflict task other_id other_owner))
                        | None \<Rightarrow>
                            (if \<not> claim_quota_available agent prin existing s
                             then (s, Inl (QuotaExhausted agent (max_claims_per_agent s)))
                             else (grant_claim agent task rq prin ttl norm_paths existing ts s,
                                   Inr (Claimed task agent)))))))"

definition renew_claim ::
  "string \<Rightarrow> string \<Rightarrow> int \<Rightarrow> string list \<Rightarrow> time \<Rightarrow> synapse_state \<Rightarrow> synapse_state \<times> reply" where
  "renew_claim agent task_id' ep ps ts s0 =
     (let task = py_strip task_id'; s = heartbeat agent ts s0
      in case dget (claims s) task of
           None \<Rightarrow> (s, Inl (RenewalLost task))
         | Some c \<Rightarrow>
             (if owner c \<noteq> agent \<or> ep \<notin> {epoch c, ownership_epoch c}
              then (s, Inl (RenewalLost task))
              else if protected_task_held task s then (s, Inl (CustodyOutstanding task))
              else if paths c \<noteq> ps then (s, Inl RenewalPathsDiffer)
              else
                (let duration = lease_expires_at c - claimed_at c;
                     renewed = post_init (c\<lparr>claimed_at := ts, lease_expires_at := ts + duration\<rparr>)
                 in (store_claim renewed s, Inr (Renewed task agent)))))"

section \<open>Working on a claim\<close>

text \<open>
  \<open>claim.version += 1\<close> and the assignments before it mutate the claim object in place, so the
  dictionary entry is replaced under its key; the lease index is not touched.
\<close>

definition updated_claim ::
  "string option \<Rightarrow> string option \<Rightarrow> string option \<Rightarrow> task_claim \<Rightarrow> task_claim" where
  "updated_claim status' note' data_ref' c =
     (let c1 = (case status' of Some st \<Rightarrow> if st \<noteq> [] then c\<lparr>status := st\<rparr> else c | None \<Rightarrow> c);
          c2 = (case note' of Some n \<Rightarrow> c1\<lparr>claim_note := py_strip n\<rparr> | None \<Rightarrow> c1);
          c3 = (case data_ref' of Some d \<Rightarrow> c2\<lparr>data_ref := py_strip d\<rparr> | None \<Rightarrow> c2)
      in c3\<lparr>version := version c3 + 1\<rparr>)"

definition update_task ::
  "string \<Rightarrow> string \<Rightarrow> string option \<Rightarrow> string option \<Rightarrow> string option \<Rightarrow> int option
   \<Rightarrow> int option \<Rightarrow> time \<Rightarrow> synapse_state \<Rightarrow> synapse_state \<times> reply" where
  "update_task agent task status' note' data_ref' ep expected_version ts s0 =
     (let s = heartbeat agent ts s0
      in if protected_task_held task s then (s, Inl (CustodyOutstanding task))
         else case dget (claims s) task of
           None \<Rightarrow> (s, Inl (TaskNotFound task))
         | Some c \<Rightarrow>
             (if owner c \<noteq> agent then (s, Inl (OwnedBy task (owner c) agent))
              else if ep \<noteq> None \<and> ep \<noteq> Some (epoch c) then (s, Inl (EpochStale task (epoch c)))
              else if expected_version \<noteq> None \<and> expected_version \<noteq> Some (version c)
              then (s, Inl (VersionConflict task (version c)))
              else if (case status' of Some st \<Rightarrow> st \<noteq> [] \<and> \<not> can_transition (status c) st | None \<Rightarrow> False)
              then (s, Inl (IllegalTransition task (status c) (the status')))
              else
                (s\<lparr>claims := dset task (updated_claim status' note' data_ref' c) (claims s)\<rparr>, Inr (Updated task agent))))"

definition save_checkpoint ::
  "string \<Rightarrow> string \<Rightarrow> string \<Rightarrow> int option \<Rightarrow> time \<Rightarrow> synapse_state \<Rightarrow> synapse_state \<times> reply" where
  "save_checkpoint agent task_id' cp ep ts s0 =
     (let task = py_strip task_id'; s = heartbeat agent ts s0
      in if protected_task_held task s then (s, Inl (CustodyOutstanding task))
         else case dget (claims s) task of
           None \<Rightarrow> (s, Inl (TaskNotFound task))
         | Some c \<Rightarrow>
             (if owner c \<noteq> agent then (s, Inl (OwnedBy task (owner c) agent))
              else if ep \<noteq> None \<and> ep \<noteq> Some (epoch c) then (s, Inl (EpochStale task (epoch c)))
              else (s\<lparr>claims := dset task (c\<lparr>checkpoint := cp, version := version c + 1\<rparr>) (claims s)\<rparr>,
                    Inr (CheckpointSaved task agent))))"

section \<open>Giving a claim up or away\<close>

definition drop_claim :: "string \<Rightarrow> synapse_state \<Rightarrow> synapse_state" where
  "drop_claim task s =
     s\<lparr>claims := ddel task (claims s), expired_checkpoints := ddel task (expired_checkpoints s)\<rparr>"

definition release ::
  "string \<Rightarrow> string \<Rightarrow> int option \<Rightarrow> time \<Rightarrow> synapse_state \<Rightarrow> synapse_state \<times> reply" where
  "release agent task_id' ep ts s0 =
     (let task = py_strip task_id'
      in if task = [] then (s0, Inl TaskIdRequired)
         else
           (let s = heartbeat agent ts s0
            in case dget (claims s) task of
                 None \<Rightarrow> (s, Inl (NotClaimed task))
               | Some c \<Rightarrow>
                   (if protected_task_held task s then (s, Inl (CustodyOutstanding task))
                    else if owner c \<noteq> agent then (s, Inl (IsOwnedBy task (owner c) agent))
                    else if ep \<noteq> None \<and> ep \<noteq> Some (epoch c) then (s, Inl (EpochStale task (epoch c)))
                    else (drop_claim task s, Inr (Released task agent)))))"

definition force_release :: "string \<Rightarrow> string \<Rightarrow> synapse_state \<Rightarrow> synapse_state \<times> reply" where
  "force_release task_id' by s =
     (let task = py_strip task_id'
      in if task = [] then (s, Inl TaskIdRequired)
         else case dget (claims s) task of
           None \<Rightarrow> (s, Inl (NotClaimed task))
         | Some c \<Rightarrow>
             (if protected_task_held task s then (s, Inl (CustodyOutstanding task))
              else (drop_claim task s, Inr (OperatorReleased task by (owner c)))))"

definition moved_claim ::
  "string \<Rightarrow> string option \<Rightarrow> time \<Rightarrow> time \<Rightarrow> int \<Rightarrow> task_claim \<Rightarrow> task_claim" where
  "moved_claim target note' ts ttl ep c =
     post_init
       \<lparr>task_id = task_id c, owner = target,
        claim_note = (case note' of Some n \<Rightarrow> py_strip n | None \<Rightarrow> claim_note c),
        claimed_at = ts, lease_expires_at = ts + ttl, quota_principal = quota_bucket c,
        status = status c, data_ref = data_ref c, worktree = worktree c, paths = paths c,
        path_identity = path_identity c, epoch = ep, version = 0, checkpoint = checkpoint c,
        git = git c, ownership_epoch = 0\<rparr>"

definition handoff ::
  "string \<Rightarrow> string \<Rightarrow> string \<Rightarrow> string option \<Rightarrow> int option \<Rightarrow> time \<Rightarrow> synapse_state
   \<Rightarrow> synapse_state \<times> reply" where
  "handoff agent task_id' to_agent note' ep ts s0 =
     (let task = py_strip task_id'; target = py_strip to_agent
      in if task = [] then (s0, Inl TaskIdRequired)
         else if target = [] then (s0, Inl HandoffTargetRequired)
         else
           (let s = heartbeat agent ts s0
            in case dget (claims s) task of
                 None \<Rightarrow> (s, Inl (NotClaimed task))
               | Some c \<Rightarrow>
                   (if protected_task_held task s then (s, Inl (CustodyOutstanding task))
                    else if owner c \<noteq> agent then (s, Inl (IsOwnedBy task (owner c) agent))
                    else if target = agent then (s, Inl (AlreadyOwned task agent))
                    else if ep \<noteq> None \<and> ep \<noteq> Some (epoch c) then (s, Inl (EpochStale task (epoch c)))
                    else if protected_scope_held task (worktree c) (paths c) (path_identity c) s
                    then (s, Inl (CustodyConflict task))
                    else if claims_owned_by target s \<ge> max_claims_per_agent s
                    then (s, Inl (HoldsMaximum target (max_claims_per_agent s)))
                    else
                      (case find_scope_conflict (claims s) task target (worktree c) (paths c) (path_identity c) of
                         Some (other_id, other_owner) \<Rightarrow> (s, Inl (ScopeConflict task other_id other_owner))
                       | None \<Rightarrow>
                           (let e = epoch_seq s + 1;
                                moved = moved_claim target note' ts (default_ttl_seconds s) e (c\<lparr>task_id := task\<rparr>);
                                s' = store_claim moved (s\<lparr>epoch_seq := e\<rparr>)
                            in (s'\<lparr>last_seen := dset target ts (last_seen s')\<rparr>, Inr (Handed task agent target)))))))"

section \<open>Resource offers and the snapshot\<close>

definition offer_key :: "string \<Rightarrow> string \<Rightarrow> string \<Rightarrow> string" where
  "offer_key agent kind name = agent @ '':'' @ kind @ '':'' @ name"

definition offers_by :: "string \<Rightarrow> (string, resource_offer) pydict \<Rightarrow> int" where
  "offers_by agent offers = int (count_values (\<lambda>r. offer_agent r = agent) offers)"

definition registry_offer ::
  "int \<Rightarrow> string \<Rightarrow> string \<Rightarrow> string \<Rightarrow> json \<Rightarrow> json_object option \<Rightarrow> time
   \<Rightarrow> (string, resource_offer) pydict \<Rightarrow> (string, resource_offer) pydict \<times> string option" where
  "registry_offer max_offers agent kind name capacity meta now offers =
     (let key = offer_key agent kind name
      in if dget offers key = None \<and> offers_by agent offers \<ge> max_offers then (offers, None)
         else (dset key
                 \<lparr>offer_agent = agent, offer_kind = kind, offer_name = name,
                  offer_capacity = int_or (safe_int capacity (Some 1) (Some 1) None True) 1,
                  offer_meta = (case meta of Some m \<Rightarrow> m | None \<Rightarrow> []), offered_at = now\<rparr> offers,
               Some key))"

definition offer_resource ::
  "string \<Rightarrow> string \<Rightarrow> string \<Rightarrow> json \<Rightarrow> json_object option \<Rightarrow> time \<Rightarrow> synapse_state
   \<Rightarrow> synapse_state \<times> string option" where
  "offer_resource agent kind name capacity meta ts s0 =
     (let s = heartbeat agent ts s0;
          (offers, key) = registry_offer (max_offers_per_agent s) agent kind name capacity meta ts (resources s)
      in (s\<lparr>resources := offers\<rparr>, key))"

text \<open>\<open>query\<close> sorts by \<open>(agent, kind, name)\<close>; the rows are the offers without their time stamp.\<close>

definition query_resources :: "string option \<Rightarrow> synapse_state \<Rightarrow> resource_offer list" where
  "query_resources kind s =
     sort_key (\<lambda>r. (offer_agent r, offer_kind r, offer_name r))
       (filter (\<lambda>r. kind = None \<or> kind = Some (offer_kind r)) (map snd (resources s)))"

record state_snapshot =
  active_claims :: "json_object list"
  agents :: "(string \<times> time) list"
  snapshot_resources :: "resource_offer list"
  generated_at :: time

definition snapshot :: "time \<Rightarrow> synapse_state \<Rightarrow> synapse_state \<times> state_snapshot" where
  "snapshot ts s0 =
     (let s = expire_resources ts (expire_claims ts s0)
      in (s, \<lparr>active_claims = map claim_as_dict (sort_key task_id (map snd (claims s))),
              agents = sort_key fst (last_seen s),
              snapshot_resources = query_resources None s,
              generated_at = ts\<rparr>))"

text \<open>\<open>publish_from\<close>: \<open>None\<close> is the \<open>ValueError\<close> on a differing configuration.\<close>

definition publish_from :: "synapse_state \<Rightarrow> synapse_state \<Rightarrow> synapse_state option" where
  "publish_from live candidate =
     (if default_ttl_seconds candidate \<noteq> default_ttl_seconds live
         \<or> max_claims_per_agent candidate \<noteq> max_claims_per_agent live
         \<or> max_offers_per_agent candidate \<noteq> max_offers_per_agent live
         \<or> max_paths_per_claim candidate \<noteq> max_paths_per_claim live
      then None
      else Some (live\<lparr>last_seen := last_seen candidate, claims := claims candidate,
                      protected_claim_custody := protected_claim_custody candidate,
                      resources := resources candidate,
                      expired_checkpoints := expired_checkpoints candidate,
                      epoch_seq := epoch_seq candidate,
                      lease_index := lease_index candidate\<rparr>))"

end
