(* ===== verification/State_Invariants.thy ===== *)
theory State_Invariants
  imports Synapse_State
begin

text \<open>
  What every operation of the registry keeps: well-formedness of the claim table and its lease
  index, expiry as the removal of exactly the lapsed leases, and the frame of each step.
\<close>

section \<open>Expiry removes exactly the lapsed leases\<close>

definition is_due :: "time \<Rightarrow> (string \<times> int) list \<Rightarrow> string \<times> task_claim \<Rightarrow> bool" where
  "is_due now due = (\<lambda>(k, c). (k, epoch c) \<in> set due \<and> lease_expires_at c \<le> now)"

lemma expire_due_claims:
  "dict_ok cs \<Longrightarrow> fst (expire_due now due cs cps) = filter (\<lambda>kc. \<not> is_due now due kc) cs"
proof (induction now due cs cps rule: expire_due.induct)
  case (2 now task ep due cs cps)
  have same: "filter (\<lambda>kc. \<not> is_due now ((task, ep) # due) kc) cs = filter (\<lambda>kc. \<not> is_due now due kc) cs"
    if "\<And>c. dget cs task = Some c \<Longrightarrow> epoch c \<noteq> ep \<or> lease_expires_at c > now"
    using that dict_mem_iff [OF "2.prems"]
    by (intro filter_cong) (auto simp: is_due_def)
  show ?case
  proof (cases "dget cs task")
    case None
    then show ?thesis using 2 same by simp
  next
    case (Some c)
    show ?thesis
    proof (cases "epoch c \<noteq> ep \<or> lease_expires_at c > now")
      case True
      then show ?thesis using 2 Some same by simp
    next
      case False
      have "filter (\<lambda>kc. \<not> is_due now ((task, ep) # due) kc) cs
          = filter (\<lambda>kc. \<not> is_due now due kc) (ddel task cs)"
        unfolding AList.delete_eq filter_filter
        using False Some dict_mem_iff [OF "2.prems"]
        by (intro filter_cong) (auto simp: is_due_def)
      then show ?thesis using 2 Some False by simp
    qed
  qed
qed (simp add: is_due_def)

lemma expire_due_checkpoints:
  "dict_ok cs \<Longrightarrow>
   dget (snd (expire_due now due cs cps)) k =
     (case dget cs k of
        Some c \<Rightarrow> if is_due now due (k, c) \<and> checkpoint c \<noteq> [] then Some (checkpoint c) else dget cps k
      | None \<Rightarrow> dget cps k)"
proof (induction now due cs cps rule: expire_due.induct)
  case (2 now task ep due cs cps)
  show ?case
  proof (cases "dget cs task")
    case None
    then show ?thesis using 2 by (auto simp: is_due_def split: option.splits)
  next
    case (Some c)
    then show ?thesis using 2 by (auto simp: is_due_def not_less split: option.splits if_splits)
  qed
qed (auto simp: is_due_def split: option.splits)

lemma dict_ok_expire_due: "dict_ok cps \<Longrightarrow> dict_ok (snd (expire_due now due cs cps))"
  by (induction now due cs cps rule: expire_due.induct) (auto split: option.splits)

section \<open>Well-formed states\<close>

definition claim_ok :: "synapse_state \<Rightarrow> string \<Rightarrow> task_claim \<Rightarrow> bool" where
  "claim_ok s k c \<longleftrightarrow>
     task_id c = k \<and> 0 < epoch c \<and> epoch c \<le> epoch_seq s
     \<and> 0 < ownership_epoch c \<and> ownership_epoch c \<le> epoch c"

definition wf_state :: "synapse_state \<Rightarrow> bool" where
  "wf_state s \<longleftrightarrow>
     dict_ok (claims s) \<and> dict_ok (expired_checkpoints s) \<and> 0 \<le> epoch_seq s
     \<and> sorted (lease_index s) \<and> indexed (set (lease_index s)) (claims s)
     \<and> (\<forall>k c. dget (claims s) k = Some c \<longrightarrow> claim_ok s k c)
     \<and> (\<forall>k. dget (claims s) k \<noteq> None \<longrightarrow> dget (expired_checkpoints s) k = None)"

lemma wf_stateD:
  assumes "wf_state s"
  shows "dict_ok (claims s)" "dict_ok (expired_checkpoints s)" "0 \<le> epoch_seq s"
    "sorted (lease_index s)" "indexed (set (lease_index s)) (claims s)"
    "dget (claims s) k = Some c \<Longrightarrow> claim_ok s k c"
    "dget (claims s) k = Some c \<Longrightarrow> dget (expired_checkpoints s) k = None"
  using assms by (auto simp: wf_state_def)

lemma wf_init: "wf_state (init_state a b c d)"
  by (simp add: wf_state_def init_state_def heapify_def indexed_def)

context expiry_index
begin

text \<open>The refinement: the swept claims are the live ones, whatever else the index holds.\<close>

lemma expire_due_live:
  assumes "dict_ok cs" and "index_ok h" and "indexed (entries h) cs"
  shows "fst (expire_due now (fst (sweep now h)) cs cps) = filter (\<lambda>(k, c). \<not> lease_expires_at c \<le> now) cs"
proof -
  have "is_due now (fst (sweep now h)) (k, c) \<longleftrightarrow> lease_expires_at c \<le> now" if "(k, c) \<in> set cs" for k c
    using that assms sweep_finds_due dict_mem_iff [OF assms(1)] by (auto simp: is_due_def)
  then show ?thesis
    unfolding expire_due_claims [OF assms(1)] by (intro filter_cong) auto
qed

end

definition live_claims :: "time \<Rightarrow> claim_dict \<Rightarrow> claim_dict" where
  "live_claims now cs = filter (\<lambda>(k, c). \<not> lease_expires_at c \<le> now) cs"

lemma dget_live_claims:
  "dict_ok cs \<Longrightarrow> dget (live_claims now cs) k =
     (case dget cs k of None \<Rightarrow> None | Some c \<Rightarrow> if lease_expires_at c \<le> now then None else Some c)"
  unfolding live_claims_def by (subst dget_filter) (auto split: option.splits)

lemma expire_claims_live:
  assumes "wf_state s"
  shows "claims (expire_claims now s) = live_claims now (claims s)"
proof -
  have "claims (expire_claims now s)
      = fst (expire_due now (fst (pop_due now (lease_index s))) (claims s) (expired_checkpoints s))"
    by (simp add: expire_claims_def split_beta)
  also have "\<dots> = live_claims now (claims s)"
    unfolding live_claims_def using assms by (intro lease_heap.expire_due_live) (auto dest: wf_stateD)
  finally show ?thesis .
qed

lemma expire_claims_checkpoints:
  assumes "wf_state s"
  shows "dget (expired_checkpoints (expire_claims now s)) k =
    (case dget (claims s) k of
       Some c \<Rightarrow> if lease_expires_at c \<le> now \<and> checkpoint c \<noteq> [] then Some (checkpoint c) else None
     | None \<Rightarrow> dget (expired_checkpoints s) k)"
proof -
  let ?due = "fst (pop_due now (lease_index s))"
  have "dget (expired_checkpoints (expire_claims now s)) k
      = dget (snd (expire_due now ?due (claims s) (expired_checkpoints s))) k"
    by (simp add: expire_claims_def split_beta)
  moreover have "is_due now ?due (k, c) \<longleftrightarrow> lease_expires_at c \<le> now" if "dget (claims s) k = Some c" for c
    using lease_heap.sweep_finds_due [OF wf_stateD(4) [OF assms] wf_stateD(5) [OF assms] that]
    by (auto simp: is_due_def)
  ultimately show ?thesis
    using wf_stateD [OF assms] by (simp add: expire_due_checkpoints split: option.splits)
qed

lemma expire_claims_frame [frame_simps]:
  "epoch_seq (expire_claims now s) = epoch_seq s"
  "default_ttl_seconds (expire_claims now s) = default_ttl_seconds s"
  "max_claims_per_agent (expire_claims now s) = max_claims_per_agent s"
  "max_offers_per_agent (expire_claims now s) = max_offers_per_agent s"
  "max_paths_per_claim (expire_claims now s) = max_paths_per_claim s"
  "protected_claim_custody (expire_claims now s) = protected_claim_custody s"
  "last_seen (expire_claims now s) = last_seen s"
  "resources (expire_claims now s) = resources s"
  by (simp_all add: expire_claims_def split_beta)

lemma wf_expire_claims [keeps_intro]:
  assumes "wf_state s"
  shows "wf_state (expire_claims now s)"
proof -
  let ?s' = "expire_claims now s"
  note wf = wf_stateD [OF assms]
  have cs: "claims ?s' = live_claims now (claims s)" by (rule expire_claims_live [OF assms])
  have live: "dget (claims ?s') k = Some c \<Longrightarrow> dget (claims s) k = Some c \<and> \<not> lease_expires_at c \<le> now" for k c
    using wf(1) by (auto simp: cs dget_live_claims split: option.splits if_splits)
  have index: "lease_index ?s' = snd (pop_due now (lease_index s))"
    by (simp add: expire_claims_def split_beta)
  have "dict_ok (expired_checkpoints ?s')"
    using wf(2) by (simp add: expire_claims_def split_beta dict_ok_expire_due)
  moreover have "dict_ok (claims ?s')" using wf(1) by (simp add: cs live_claims_def)
  moreover have "indexed (set (lease_index ?s')) (claims ?s')"
    unfolding index by (rule lease_heap.sweep_rest_indexed [OF wf(4,5) live])
  moreover have "sorted (lease_index ?s')"
    unfolding index by (rule lease_heap.sweep_rest_ok [OF wf(4)])
  moreover have "dget (claims ?s') k = Some c \<Longrightarrow> claim_ok ?s' k c" for k c
    using live wf(6) by (fastforce simp: claim_ok_def frame_simps)
  moreover have "dget (claims ?s') k \<noteq> None \<Longrightarrow> dget (expired_checkpoints ?s') k = None" for k
    using live by (fastforce simp: expire_claims_checkpoints [OF assms])
  ultimately show ?thesis using wf(3) by (auto simp: wf_state_def frame_simps)
qed

section \<open>The heartbeat and the store of a claim\<close>

lemma expire_resources_frame [frame_simps]:
  "epoch_seq (expire_resources now s) = epoch_seq s"
  "default_ttl_seconds (expire_resources now s) = default_ttl_seconds s"
  "max_claims_per_agent (expire_resources now s) = max_claims_per_agent s"
  "max_offers_per_agent (expire_resources now s) = max_offers_per_agent s"
  "max_paths_per_claim (expire_resources now s) = max_paths_per_claim s"
  "protected_claim_custody (expire_resources now s) = protected_claim_custody s"
  "last_seen (expire_resources now s) = last_seen s"
  "claims (expire_resources now s) = claims s"
  "expired_checkpoints (expire_resources now s) = expired_checkpoints s"
  "lease_index (expire_resources now s) = lease_index s"
  by (simp_all add: expire_resources_def)

text \<open>\<open>wf_state\<close> reads four fields only.\<close>

lemma wf_state_cong:
  "claims s' = claims s \<Longrightarrow> expired_checkpoints s' = expired_checkpoints s \<Longrightarrow> epoch_seq s' = epoch_seq s \<Longrightarrow>
   lease_index s' = lease_index s \<Longrightarrow> wf_state s' = wf_state s"
  by (simp add: wf_state_def claim_ok_def)

lemma heartbeat_frame [frame_simps]:
  "epoch_seq (heartbeat agent ts s) = epoch_seq s"
  "default_ttl_seconds (heartbeat agent ts s) = default_ttl_seconds s"
  "max_claims_per_agent (heartbeat agent ts s) = max_claims_per_agent s"
  "max_offers_per_agent (heartbeat agent ts s) = max_offers_per_agent s"
  "max_paths_per_claim (heartbeat agent ts s) = max_paths_per_claim s"
  "protected_claim_custody (heartbeat agent ts s) = protected_claim_custody s"
  "last_seen (heartbeat agent ts s) = dset agent ts (last_seen s)"
  by (simp_all add: heartbeat_def frame_simps)

lemma wf_seen: "wf_state (s\<lparr>last_seen := d\<rparr>) = wf_state s"
  by (rule wf_state_cong) simp_all

lemma wf_heartbeat [keeps_intro]: "wf_state s \<Longrightarrow> wf_state (heartbeat agent ts s)"
proof -
  assume "wf_state s"
  then have "wf_state (expire_claims ts (s\<lparr>last_seen := dset agent ts (last_seen s)\<rparr>))"
    by (simp add: wf_expire_claims wf_seen)
  then show ?thesis
    unfolding heartbeat_def by (subst wf_state_cong) (simp_all add: frame_simps)
qed

lemma claims_heartbeat: "wf_state s \<Longrightarrow> claims (heartbeat agent ts s) = live_claims ts (claims s)"
  by (simp add: heartbeat_def frame_simps expire_claims_live wf_seen)

lemma dget_claims_heartbeat:
  assumes "wf_state s" and "dget (claims (heartbeat agent ts s)) k = Some c"
  shows "dget (claims s) k = Some c" and "lease_expires_at c > ts"
  using assms wf_stateD(1) [OF assms(1)]
  by (auto simp: claims_heartbeat dget_live_claims not_le split: option.splits if_splits)

lemma checkpoints_heartbeat:
  "wf_state s \<Longrightarrow> dget (expired_checkpoints (heartbeat agent ts s)) k =
    (case dget (claims s) k of
       Some c \<Rightarrow> if lease_expires_at c \<le> ts \<and> checkpoint c \<noteq> [] then Some (checkpoint c) else None
     | None \<Rightarrow> dget (expired_checkpoints s) k)"
  by (simp add: heartbeat_def frame_simps expire_claims_checkpoints wf_seen split: option.split)

lemma store_claim_simps [simp]:
  "claims (store_claim c s) = dset (task_id c) c (claims s)"
  "lease_index (store_claim c s) = index_track c (dset (task_id c) c (claims s)) (lease_index s)"
  "epoch_seq (store_claim c s) = epoch_seq s"
  "expired_checkpoints (store_claim c s) = expired_checkpoints s"
  "default_ttl_seconds (store_claim c s) = default_ttl_seconds s"
  "max_claims_per_agent (store_claim c s) = max_claims_per_agent s"
  "max_offers_per_agent (store_claim c s) = max_offers_per_agent s"
  "max_paths_per_claim (store_claim c s) = max_paths_per_claim s"
  "protected_claim_custody (store_claim c s) = protected_claim_custody s"
  "last_seen (store_claim c s) = last_seen s"
  "resources (store_claim c s) = resources s"
  by (simp_all add: store_claim_def Let_def)

text \<open>
  Storing a claim under a new or kept epoch: the claim is numbered within the sequence, and no
  retained checkpoint of its task is left behind.
\<close>

lemma wf_store_claim [keeps_intro]:
  assumes wf: "wf_state s" and ok: "claim_ok s (task_id c) c"
    and cps: "dget (expired_checkpoints s) (task_id c) = None"
  shows "wf_state (store_claim c s)"
proof -
  have "indexed (set (lease_index (store_claim c s))) (claims (store_claim c s))"
    using lease_heap.track_indexed [OF wf_stateD(1,5) [OF wf], of c] by simp
  moreover have "sorted (lease_index (store_claim c s))"
    using wf_stateD(4) [OF wf] by (simp add: index_track_sorted)
  ultimately show ?thesis
    using wf_stateD [OF wf] ok cps by (auto simp: wf_state_def claim_ok_def)
qed

text \<open>Raising the sequence and forgetting retained checkpoints keep a state well-formed.\<close>

lemma wf_bump [keeps_intro]:
  assumes "wf_state s" and "epoch_seq s \<le> e" and "dict_ok cps"
    and "\<And>k. dget (expired_checkpoints s) k = None \<Longrightarrow> dget cps k = None"
  shows "wf_state (s\<lparr>epoch_seq := e, expired_checkpoints := cps\<rparr>)"
proof -
  have "dget (claims s) k = Some c \<Longrightarrow> claim_ok (s\<lparr>epoch_seq := e, expired_checkpoints := cps\<rparr>) k c" for k c
    using wf_stateD(6) [OF assms(1)] assms(2) by (fastforce simp: claim_ok_def)
  then show ?thesis using assms by (auto simp: wf_state_def)
qed

text \<open>Mutating a live claim's working fields in place: lease and epochs are untouched.\<close>

lemma wf_touch_claim [keeps_intro]:
  assumes "wf_state s" and "dget (claims s) k = Some c"
    and "lease_expires_at c' = lease_expires_at c" "epoch c' = epoch c"
    and "task_id c' = task_id c" "ownership_epoch c' = ownership_epoch c"
  shows "wf_state (s\<lparr>claims := dset k c' (claims s)\<rparr>)"
proof -
  have "claim_ok s k c" by (rule wf_stateD(6) [OF assms(1,2)])
  then have "claim_ok (s\<lparr>claims := dset k c' (claims s)\<rparr>) k c'"
    using assms(3-6) by (simp add: claim_ok_def)
  moreover have "claim_ok (s\<lparr>claims := dset k c' (claims s)\<rparr>) k'' c'' = claim_ok s k'' c''" for k'' c''
    by (simp add: claim_ok_def)
  ultimately show ?thesis
    using assms wf_stateD(5) [OF assms(1)]
    by (auto simp: wf_state_def indexed_def dest: spec [of _ k])
qed

lemma wf_drop_claim [keeps_intro]:
  assumes "wf_state s"
  shows "wf_state (drop_claim task s)"
proof -
  have "indexed (set (lease_index s)) (ddel task (claims s))"
    by (rule lease_heap.indexed_shrink [OF wf_stateD(5) [OF assms]]) (simp split: if_splits)
  moreover have "claim_ok (drop_claim task s) k c = claim_ok s k c" for k c
    by (simp add: claim_ok_def drop_claim_def)
  ultimately show ?thesis
    using assms by (auto simp: wf_state_def drop_claim_def)
qed

section \<open>Every operation keeps a state well-formed\<close>

lemma claim_checkpoint_drops:
  "dget cps k = None \<Longrightarrow> dget (snd (claim_checkpoint agent task existing cps)) k = None"
  by (auto simp: claim_checkpoint_def split: option.splits if_splits)

lemma dict_ok_claim_checkpoint: "dict_ok cps \<Longrightarrow> dict_ok (snd (claim_checkpoint agent task existing cps))"
  by (auto simp: claim_checkpoint_def split: option.splits)

lemma claim_checkpoint_own:
  "(\<And>c. existing = Some c \<Longrightarrow> dget cps task = None) \<Longrightarrow>
   dget (snd (claim_checkpoint agent task existing cps)) task = None"
  by (auto simp: claim_checkpoint_def split: option.splits)

lemma continuation_epoch_bound:
  "0 < epoch c \<Longrightarrow> 0 < ownership_epoch c \<Longrightarrow> ownership_epoch c \<le> epoch c \<Longrightarrow>
   0 \<le> continuation_epoch c ow wt ps ident \<and> continuation_epoch c ow wt ps ident \<le> epoch c"
  by (auto simp: continuation_epoch_def or_int_def)

lemma wf_grant_claim [keeps_intro]:
  assumes wf: "wf_state s"
  shows "wf_state (grant_claim agent task rq prin ttl ps (dget (claims s) task) ts s)"
proof -
  let ?old = "dget (claims s) task"
  let ?cps = "snd (claim_checkpoint agent task ?old (expired_checkpoints s))"
  let ?s = "s\<lparr>epoch_seq := epoch_seq s + 1, expired_checkpoints := ?cps\<rparr>"
  let ?anchor = "case ?old of Some old \<Rightarrow> continuation_epoch old agent (req_worktree rq) ps (req_identity rq)
      | None \<Rightarrow> 0"
  have s: "wf_state ?s"
    using wf wf_stateD(2) [OF wf]
    by (intro wf_bump) (auto simp: dict_ok_claim_checkpoint claim_checkpoint_drops)
  have cps: "dget ?cps task = None"
    by (rule claim_checkpoint_own) (simp add: wf_stateD(7) [OF wf])
  have anchor: "0 \<le> ?anchor \<and> ?anchor \<le> epoch_seq s"
  proof (cases ?old)
    case (Some old)
    then have "claim_ok s task old" by (rule wf_stateD(6) [OF wf])
    then have "0 \<le> continuation_epoch old ow wt ps' ident \<and> continuation_epoch old ow wt ps' ident \<le> epoch_seq s"
      for ow wt ps' ident
      using continuation_epoch_bound [of old ow wt ps' ident] by (auto simp: claim_ok_def)
    then show ?thesis by (simp add: Some)
  qed (simp add: wf_stateD(3) [OF wf])
  show ?thesis
    unfolding grant_claim_def Let_def split_beta
    by (rule wf_store_claim [OF s])
      (use cps anchor wf_stateD(3) [OF wf] in \<open>simp_all add: claim_ok_def or_int_def\<close>)
qed

text \<open>
  The outcomes of an operation: refused before or after the sweep, or granted with every guard
  passed.  The case rules serve every invariant below.
\<close>

lemma claim_cases:
  obtains (invalid) m where "claim agent task' rq ts s = (s, Inl m)"
  | (refused) m where "claim agent task' rq ts s = (heartbeat agent ts s, Inl m)"
  | (granted) h task ps prin where
      "h = heartbeat agent ts s" "task = py_strip task'" "task \<noteq> []"
      "ps = normalize_paths (req_paths rq) (Some (max_paths_per_claim s))"
      "prin = claim_principal agent (req_principal rq)"
      "claim agent task' rq ts s =
         (grant_claim agent task rq prin (claim_ttl (req_ttl rq) s) ps (dget (claims h) task) ts h,
          Inr (Claimed task agent))"
      "\<not> protected_scope_held task (req_worktree rq) ps (req_identity rq) h"
      "find_scope_conflict (claims h) task agent (req_worktree rq) ps (req_identity rq) = None"
      "claim_quota_available agent prin (dget (claims h) task) h"
      "\<And>c. dget (claims h) task = Some c \<Longrightarrow>
         lease_expires_at c \<le> ts \<or> owner c = agent \<and> \<not> req_require_unclaimed rq"
      "\<And>i. req_identity rq = Some i \<Longrightarrow> validates_display_scope i (req_worktree rq) ps"
proof -
  let ?task = "py_strip task'" and ?h = "heartbeat agent ts s"
  let ?ps = "normalize_paths (req_paths rq) (Some (max_paths_per_claim s))"
  let ?invalid = "?task = [] \<or> (case req_identity rq of None \<Rightarrow> False
      | Some i \<Rightarrow> \<not> validates_display_scope i (req_worktree rq) ?ps)"
  let ?taken = "case dget (claims ?h) ?task of None \<Rightarrow> False
      | Some c \<Rightarrow> (req_require_unclaimed rq \<or> owner c \<noteq> agent) \<and> lease_expires_at c > ts"
  let ?conflict = "find_scope_conflict (claims ?h) ?task agent (req_worktree rq) ?ps (req_identity rq)"
  let ?prin = "claim_principal agent (req_principal rq)"
  let ?held = "protected_scope_held ?task (req_worktree rq) ?ps (req_identity rq) ?h"
  let ?quota = "claim_quota_available agent ?prin (dget (claims ?h) ?task) ?h"
  have invalid: "\<exists>m. claim agent task' rq ts s = (s, Inl m)" if "?invalid"
    using that by (auto simp: claim_def Let_def)
  have refused: "\<exists>m. claim agent task' rq ts s = (?h, Inl m)"
    if "\<not> ?invalid" and "?held \<or> ?taken \<or> ?conflict \<noteq> None \<or> \<not> ?quota"
    using that by (auto simp: claim_def Let_def split: option.split)
  have granted: "claim agent task' rq ts s =
      (grant_claim agent ?task rq ?prin (claim_ttl (req_ttl rq) s) ?ps (dget (claims ?h) ?task) ts ?h,
       Inr (Claimed ?task agent))"
    if "\<not> ?invalid" "\<not> ?held" "\<not> ?taken" "?conflict = None" "?quota"
    using that by (simp add: claim_def Let_def)
  show thesis
  proof (cases "?invalid \<or> ?held \<or> ?taken \<or> ?conflict \<noteq> None \<or> \<not> ?quota")
    case True
    then show ?thesis using invalid refused that(1,2) by blast
  next
    case False
    then have "?conflict = None" by blast
    with False show ?thesis
      by (intro that(3) [OF refl refl _ refl refl granted]) (auto split: option.splits)
  qed
qed

lemma handoff_cases:
  obtains (invalid) m where "handoff agent task' to n ep ts s = (s, Inl m)"
  | (refused) m where "handoff agent task' to n ep ts s = (heartbeat agent ts s, Inl m)"
  | (granted) h task target c moved where
      "h = heartbeat agent ts s" "task = py_strip task'" "task \<noteq> []" "target = py_strip to" "target \<noteq> []"
      "dget (claims h) task = Some c" "\<not> protected_task_held task h" "owner c = agent" "target \<noteq> agent"
      "ep = None \<or> ep = Some (epoch c)"
      "\<not> protected_scope_held task (worktree c) (paths c) (path_identity c) h"
      "claims_owned_by target h < max_claims_per_agent h"
      "find_scope_conflict (claims h) task target (worktree c) (paths c) (path_identity c) = None"
      "moved = moved_claim target n ts (default_ttl_seconds h) (epoch_seq h + 1) (c\<lparr>task_id := task\<rparr>)"
      "handoff agent task' to n ep ts s =
         (store_claim moved (h\<lparr>epoch_seq := epoch_seq h + 1\<rparr>)\<lparr>last_seen := dset target ts (last_seen h)\<rparr>,
          Inr (Handed task agent target))"
proof -
  let ?task = "py_strip task'" and ?target = "py_strip to" and ?h = "heartbeat agent ts s"
  let ?ok = "\<lambda>c. \<not> protected_task_held ?task ?h \<and> owner c = agent \<and> ?target \<noteq> agent
      \<and> (ep = None \<or> ep = Some (epoch c))
      \<and> \<not> protected_scope_held ?task (worktree c) (paths c) (path_identity c) ?h
      \<and> claims_owned_by ?target ?h < max_claims_per_agent ?h
      \<and> find_scope_conflict (claims ?h) ?task ?target (worktree c) (paths c) (path_identity c) = None"
  have invalid: "\<exists>m. handoff agent task' to n ep ts s = (s, Inl m)" if "?task = [] \<or> ?target = []"
    using that by (auto simp: handoff_def Let_def)
  have lost: "\<exists>m. handoff agent task' to n ep ts s = (?h, Inl m)"
    if "?task \<noteq> []" "?target \<noteq> []" "dget (claims ?h) ?task = None"
    using that by (simp add: handoff_def Let_def)
  have refused: "\<exists>m. handoff agent task' to n ep ts s = (?h, Inl m)"
    if "?task \<noteq> []" "?target \<noteq> []" "dget (claims ?h) ?task = Some c" "\<not> ?ok c" for c
    using that by (auto simp: handoff_def Let_def split: option.split)
  have granted: "handoff agent task' to n ep ts s =
      (store_claim (moved_claim ?target n ts (default_ttl_seconds ?h) (epoch_seq ?h + 1) (c\<lparr>task_id := ?task\<rparr>))
         (?h\<lparr>epoch_seq := epoch_seq ?h + 1\<rparr>)\<lparr>last_seen := dset ?target ts (last_seen ?h)\<rparr>,
       Inr (Handed ?task agent ?target))"
    if "?task \<noteq> []" "?target \<noteq> []" "dget (claims ?h) ?task = Some c" "?ok c" for c
    using that by (auto simp: handoff_def Let_def)
  show thesis
  proof (cases "dget (claims ?h) ?task")
    case None
    then show ?thesis using invalid lost that(1,2) by blast
  next
    case (Some c)
    show ?thesis
    proof (cases "?task \<noteq> [] \<and> ?target \<noteq> [] \<and> ?ok c")
      case True
      then show ?thesis using granted Some by (intro that(3) [OF refl refl _ refl _ Some]) auto
    next
      case False
      then show ?thesis using invalid refused [OF _ _ Some] that(1,2) by blast
    qed
  qed
qed

lemma renew_claim_cases:
  obtains (refused) m where "renew_claim agent task' ep ps ts s = (heartbeat agent ts s, Inl m)"
  | (granted) h task c where
      "h = heartbeat agent ts s" "task = py_strip task'"
      "dget (claims h) task = Some c" "owner c = agent" "ep = epoch c \<or> ep = ownership_epoch c"
      "\<not> protected_task_held task h" "paths c = ps"
      "renew_claim agent task' ep ps ts s =
         (store_claim (post_init (c\<lparr>claimed_at := ts, lease_expires_at := ts + (lease_expires_at c - claimed_at c)\<rparr>)) h,
          Inr (Renewed task agent))"
proof -
  let ?h = "heartbeat agent ts s" and ?k = "py_strip task'"
  have "(\<exists>m. renew_claim agent task' ep ps ts s = (?h, Inl m)) \<or>
    (\<exists>c. dget (claims ?h) ?k = Some c \<and> owner c = agent \<and> (ep = epoch c \<or> ep = ownership_epoch c)
       \<and> \<not> protected_task_held ?k ?h \<and> paths c = ps \<and> renew_claim agent task' ep ps ts s =
         (store_claim (post_init (c\<lparr>claimed_at := ts, lease_expires_at := ts + (lease_expires_at c - claimed_at c)\<rparr>)) ?h,
          Inr (Renewed ?k agent)))"
    by (auto simp: renew_claim_def Let_def split: option.split)
  then show thesis using that by blast
qed

lemma updated_claim_fields [simp]:
  "version (updated_claim st n d c) = version c + 1" "epoch (updated_claim st n d c) = epoch c"
  "ownership_epoch (updated_claim st n d c) = ownership_epoch c" "task_id (updated_claim st n d c) = task_id c"
  "owner (updated_claim st n d c) = owner c" "quota_principal (updated_claim st n d c) = quota_principal c"
  "lease_expires_at (updated_claim st n d c) = lease_expires_at c"
  "claimed_at (updated_claim st n d c) = claimed_at c" "worktree (updated_claim st n d c) = worktree c"
  "paths (updated_claim st n d c) = paths c" "path_identity (updated_claim st n d c) = path_identity c"
  "checkpoint (updated_claim st n d c) = checkpoint c" "git (updated_claim st n d c) = git c"
  "status (updated_claim st n d c) = (case st of None \<Rightarrow> status c | Some x \<Rightarrow> if x = [] then status c else x)"
  by (simp_all add: updated_claim_def Let_def split: option.split)

lemma update_task_cases:
  obtains (refused) m where "update_task agent task st n d ep v ts s = (heartbeat agent ts s, Inl m)"
  | (granted) h c where
      "h = heartbeat agent ts s" "dget (claims h) task = Some c" "owner c = agent"
      "\<not> protected_task_held task h"
      "ep = None \<or> ep = Some (epoch c)" "v = None \<or> v = Some (version c)"
      "\<And>x. st = Some x \<Longrightarrow> x = [] \<or> can_transition (status c) x"
      "update_task agent task st n d ep v ts s =
         (h\<lparr>claims := dset task (updated_claim st n d c) (claims h)\<rparr>, Inr (Updated task agent))"
proof -
  let ?h = "heartbeat agent ts s"
  have "(\<exists>m. update_task agent task st n d ep v ts s = (?h, Inl m)) \<or>
    (\<exists>c. dget (claims ?h) task = Some c \<and> owner c = agent \<and> \<not> protected_task_held task ?h
       \<and> (ep = None \<or> ep = Some (epoch c)) \<and> (v = None \<or> v = Some (version c))
       \<and> (\<forall>x. st = Some x \<longrightarrow> x = [] \<or> can_transition (status c) x)
       \<and> update_task agent task st n d ep v ts s =
           (?h\<lparr>claims := dset task (updated_claim st n d c) (claims ?h)\<rparr>, Inr (Updated task agent)))"
    by (auto simp: update_task_def Let_def split: option.split)
  then show thesis using that by blast
qed

lemma save_checkpoint_cases:
  obtains (refused) m where "save_checkpoint agent task' cp ep ts s = (heartbeat agent ts s, Inl m)"
  | (granted) h task c where
      "h = heartbeat agent ts s" "task = py_strip task'" "dget (claims h) task = Some c" "owner c = agent"
      "\<not> protected_task_held task h" "ep = None \<or> ep = Some (epoch c)"
      "save_checkpoint agent task' cp ep ts s =
         (h\<lparr>claims := dset task (c\<lparr>checkpoint := cp, version := version c + 1\<rparr>) (claims h)\<rparr>,
          Inr (CheckpointSaved task agent))"
proof -
  let ?h = "heartbeat agent ts s" and ?k = "py_strip task'"
  have "(\<exists>m. save_checkpoint agent task' cp ep ts s = (?h, Inl m)) \<or>
    (\<exists>c. dget (claims ?h) ?k = Some c \<and> owner c = agent \<and> \<not> protected_task_held ?k ?h
       \<and> (ep = None \<or> ep = Some (epoch c)) \<and> save_checkpoint agent task' cp ep ts s =
         (?h\<lparr>claims := dset ?k (c\<lparr>checkpoint := cp, version := version c + 1\<rparr>) (claims ?h)\<rparr>,
          Inr (CheckpointSaved ?k agent)))"
    by (auto simp: save_checkpoint_def Let_def split: option.split)
  then show thesis using that by blast
qed

lemma release_cases:
  obtains (invalid) m where "release agent task' ep ts s = (s, Inl m)"
  | (refused) m where "release agent task' ep ts s = (heartbeat agent ts s, Inl m)"
  | (granted) h task c where
      "h = heartbeat agent ts s" "task = py_strip task'" "dget (claims h) task = Some c" "owner c = agent"
      "\<not> protected_task_held task h" "ep = None \<or> ep = Some (epoch c)"
      "release agent task' ep ts s = (drop_claim task h, Inr (Released task agent))"
proof -
  let ?h = "heartbeat agent ts s" and ?k = "py_strip task'"
  have "(\<exists>m. release agent task' ep ts s = (s, Inl m)) \<or> (\<exists>m. release agent task' ep ts s = (?h, Inl m)) \<or>
    (\<exists>c. dget (claims ?h) ?k = Some c \<and> owner c = agent \<and> \<not> protected_task_held ?k ?h
       \<and> (ep = None \<or> ep = Some (epoch c)) \<and> release agent task' ep ts s = (drop_claim ?k ?h, Inr (Released ?k agent)))"
    by (auto simp: release_def Let_def split: option.split)
  then show thesis using that by blast
qed

lemma force_release_cases:
  obtains (refused) m where "force_release task' by' s = (s, Inl m)"
  | (granted) task c where
      "task = py_strip task'" "dget (claims s) task = Some c" "\<not> protected_task_held task s"
      "force_release task' by' s = (drop_claim task s, Inr (OperatorReleased task by' (owner c)))"
proof -
  let ?k = "py_strip task'"
  have "(\<exists>m. force_release task' by' s = (s, Inl m)) \<or>
    (\<exists>c. dget (claims s) ?k = Some c \<and> \<not> protected_task_held ?k s
       \<and> force_release task' by' s = (drop_claim ?k s, Inr (OperatorReleased ?k by' (owner c))))"
    by (auto simp: force_release_def Let_def split: option.split)
  then show thesis using that by blast
qed

lemma wf_claim [keeps_intro]: "wf_state s \<Longrightarrow> wf_state (fst (claim agent task rq ts s))"
  by (cases rule: claim_cases [of agent task rq ts s]) (auto simp: wf_grant_claim wf_heartbeat)

lemma wf_renew_claim [keeps_intro]:
  assumes wf: "wf_state s"
  shows "wf_state (fst (renew_claim agent task ep ps ts s))"
proof (cases rule: renew_claim_cases [of agent task ep ps ts s])
  case refused
  then show ?thesis by (simp add: wf wf_heartbeat)
next
  case (granted h k c)
  have h: "wf_state h" unfolding granted(1) by (rule wf_heartbeat [OF wf])
  show ?thesis
    using wf_stateD(6,7) [OF h granted(3)] granted(8)
    by (auto simp: claim_ok_def or_int_def intro!: wf_store_claim [OF h])
qed

lemma wf_update_task [keeps_intro]:
  assumes wf: "wf_state s"
  shows "wf_state (fst (update_task agent task st n d ep v ts s))"
proof (cases rule: update_task_cases [of agent task st n d ep v ts s])
  case refused
  then show ?thesis by (simp add: wf wf_heartbeat)
next
  case (granted h c)
  have "wf_state h" unfolding granted(1) by (rule wf_heartbeat [OF wf])
  from wf_touch_claim [OF this granted(2)] granted(8) show ?thesis by simp
qed

lemma wf_save_checkpoint [keeps_intro]:
  assumes wf: "wf_state s"
  shows "wf_state (fst (save_checkpoint agent task cp ep ts s))"
proof (cases rule: save_checkpoint_cases [of agent task cp ep ts s])
  case refused
  then show ?thesis by (simp add: wf wf_heartbeat)
next
  case (granted h k c)
  have "wf_state h" unfolding granted(1) by (rule wf_heartbeat [OF wf])
  from wf_touch_claim [OF this granted(3)] granted(7) show ?thesis by simp
qed

lemma wf_release [keeps_intro]: "wf_state s \<Longrightarrow> wf_state (fst (release agent task ep ts s))"
  by (cases rule: release_cases [of agent task ep ts s]) (auto simp: wf_drop_claim wf_heartbeat)

lemma wf_force_release [keeps_intro]: "wf_state s \<Longrightarrow> wf_state (fst (force_release task by' s))"
  by (cases rule: force_release_cases [of task by' s]) (auto simp: wf_drop_claim)

lemma moved_claim_simps [simp]:
  "task_id (moved_claim target n ts ttl e c) = task_id c" "owner (moved_claim target n ts ttl e c) = target"
  "epoch (moved_claim target n ts ttl e c) = e" "ownership_epoch (moved_claim target n ts ttl e c) = e"
  "worktree (moved_claim target n ts ttl e c) = worktree c" "paths (moved_claim target n ts ttl e c) = paths c"
  "path_identity (moved_claim target n ts ttl e c) = path_identity c"
  "checkpoint (moved_claim target n ts ttl e c) = checkpoint c"
  "status (moved_claim target n ts ttl e c) = status c" "data_ref (moved_claim target n ts ttl e c) = data_ref c"
  "version (moved_claim target n ts ttl e c) = 0" "git (moved_claim target n ts ttl e c) = git c"
  "claimed_at (moved_claim target n ts ttl e c) = ts"
  "lease_expires_at (moved_claim target n ts ttl e c) = ts + ttl"
  "quota_principal (moved_claim target n ts ttl e c) = quota_bucket c"
  by (simp_all add: moved_claim_def or_int_def)

lemma wf_handoff [keeps_intro]:
  assumes wf: "wf_state s"
  shows "wf_state (fst (handoff agent task' to n ep ts s))"
proof (cases rule: handoff_cases [of agent task' to n ep ts s])
  case (granted h task target c moved)
  have h: "wf_state h" unfolding granted(1) by (rule wf_heartbeat [OF wf])
  have "wf_state (h\<lparr>epoch_seq := epoch_seq h + 1\<rparr>)"
    using wf_bump [OF h, of "epoch_seq h + 1" "expired_checkpoints h"] wf_stateD(2) [OF h] by simp
  then have "wf_state (store_claim moved (h\<lparr>epoch_seq := epoch_seq h + 1\<rparr>))"
    using wf_stateD(3,7) [OF h] granted(6) by (intro wf_store_claim) (simp_all add: granted(14) claim_ok_def)
  then show ?thesis using granted by (simp add: wf_seen)
qed (simp_all add: wf wf_heartbeat)

lemma wf_offer_resource [keeps_intro]:
  "wf_state s \<Longrightarrow> wf_state (fst (offer_resource agent kind name cap meta ts s))"
  by (subst wf_state_cong [of _ "heartbeat agent ts s"])
    (simp_all add: offer_resource_def Let_def split_beta wf_heartbeat)

lemma wf_snapshot [keeps_intro]: "wf_state s \<Longrightarrow> wf_state (fst (snapshot ts s))"
  by (subst wf_state_cong [of _ "expire_claims ts s"])
    (simp_all add: snapshot_def Let_def frame_simps wf_expire_claims)

end
