(* ===== verification/Registry_Spec.thy ===== *)
theory Registry_Spec
  imports State_Invariants
begin

text \<open>
  What the claim registry promises, as an abstract machine over the claim table and the epoch
  sequence: claims are dropped, touched in place by their owner, or stored fresh under the next
  epoch when no other owner's claim conflicts and the payer's quota has room.  The invariants
  are proved once on this machine; \<open>State_Safety\<close> shows that every operation refines it.
\<close>

section \<open>Exclusion for any symmetric conflict between two claims\<close>

locale conflict_relation =
  fixes party :: "'c \<Rightarrow> 'o" and conflict :: "'c \<Rightarrow> 'c \<Rightarrow> bool"
  assumes conflict_sym: "conflict a b = conflict b a"
begin

definition exclusive :: "('k, 'c) pydict \<Rightarrow> bool" where
  "exclusive d \<longleftrightarrow>
     (\<forall>k k' c c'. dget d k = Some c \<longrightarrow> dget d k' = Some c' \<longrightarrow> party c \<noteq> party c' \<longrightarrow> \<not> conflict c c')"

lemma exclusiveD:
  "exclusive d \<Longrightarrow> dget d k = Some c \<Longrightarrow> dget d k' = Some c' \<Longrightarrow> party c \<noteq> party c' \<Longrightarrow> \<not> conflict c c'"
  by (auto simp: exclusive_def)

lemma exclusive_empty: "exclusive []"
  by (simp add: exclusive_def)

lemma exclusive_shrink:
  "exclusive d \<Longrightarrow> (\<And>k c. dget d' k = Some c \<Longrightarrow> dget d k = Some c) \<Longrightarrow> exclusive d'"
  unfolding exclusive_def by blast

lemma exclusive_store:
  assumes "exclusive d"
    and "\<And>k' c'. dget d k' = Some c' \<Longrightarrow> k' \<noteq> k \<Longrightarrow> party c' \<noteq> party c \<Longrightarrow> \<not> conflict c c'"
  shows "exclusive (dset k c d)"
  unfolding exclusive_def dget_dset
proof (intro allI impI)
  fix k1 k2 a b
  assume a: "(if k1 = k then Some c else dget d k1) = Some a"
    and b: "(if k2 = k then Some c else dget d k2) = Some b" and ne: "party a \<noteq> party b"
  consider "k1 = k" "k2 = k" | "k1 = k" "k2 \<noteq> k" | "k1 \<noteq> k" "k2 = k" | "k1 \<noteq> k" "k2 \<noteq> k" by blast
  then show "\<not> conflict a b"
  proof cases
    case 1
    then show ?thesis using a b ne by simp
  next
    case 2
    then show ?thesis using a b ne assms(2) [of k2 b] by simp
  next
    case 3
    then show ?thesis using a b ne assms(2) [of k1 a] conflict_sym [of a b] by simp
  next
    case 4
    then show ?thesis using a b ne exclusiveD [OF assms(1), of k1 a k2 b] by simp
  qed
qed

lemma exclusive_touch:
  assumes "exclusive d" and "dget d k = Some c" and "party c' = party c"
    and "\<And>x. conflict c' x = conflict c x"
  shows "exclusive (dset k c' d)"
proof (rule exclusive_store [OF assms(1)])
  fix k'' x
  assume "dget d k'' = Some x" and "party x \<noteq> party c'"
  then show "\<not> conflict c' x"
    using exclusiveD [OF assms(1,2), of k'' x] assms(3,4) by metis
qed

end

definition claims_conflict :: "task_claim \<Rightarrow> task_claim \<Rightarrow> bool" where
  "claims_conflict a b =
     claim_scopes_conflict (worktree a) (paths a) (path_identity a) (worktree b) (paths b) (path_identity b)"

interpretation scope_lock: conflict_relation owner claims_conflict
  by unfold_locales (simp add: claims_conflict_def claim_scopes_conflict_sym)

lemma find_scope_conflict_None:
  assumes "dict_ok cs"
  shows "find_scope_conflict cs task agent wt ps ident = None \<longleftrightarrow>
    (\<forall>k c. dget cs k = Some c \<longrightarrow> k \<noteq> task \<longrightarrow> owner c \<noteq> agent \<longrightarrow>
       \<not> claim_scopes_conflict wt ps ident (worktree c) (paths c) (path_identity c))"
proof -
  have "find_scope_conflict cs task agent wt ps ident = None \<longleftrightarrow>
    (\<forall>(k, c) \<in> set cs. k \<noteq> task \<longrightarrow> owner c \<noteq> agent \<longrightarrow>
       \<not> claim_scopes_conflict wt ps ident (worktree c) (paths c) (path_identity c))" for cs
    by (induction cs task agent wt ps ident rule: find_scope_conflict.induct) auto
  then show ?thesis using dict_mem_iff [OF assms] by fastforce
qed

section \<open>The abstract machine\<close>

record registry =
  held :: claim_dict
  seq :: int

definition holdings :: "string \<Rightarrow> claim_dict \<Rightarrow> int" where
  "holdings prin cs = int (count_values (\<lambda>c. quota_bucket c = prin) cs)"

text \<open>What the owner of a claim may change while it keeps its epoch.\<close>

definition touches :: "task_claim \<Rightarrow> task_claim \<Rightarrow> bool" where
  "touches c c' \<longleftrightarrow>
     task_id c' = task_id c \<and> owner c' = owner c \<and> epoch c' = epoch c
     \<and> ownership_epoch c' = ownership_epoch c \<and> quota_principal c' = quota_principal c
     \<and> worktree c' = worktree c \<and> paths c' = paths c \<and> path_identity c' = path_identity c
     \<and> git c' = git c \<and> version c \<le> version c' \<and> (status c' = status c \<or> status_step (status c) (status c'))"

definition admissible :: "int \<Rightarrow> string \<Rightarrow> task_claim \<Rightarrow> registry \<Rightarrow> bool" where
  "admissible cap k c r \<longleftrightarrow>
     epoch c = seq r + 1 \<and> is_known (status c)
     \<and> (\<forall>k' c'. dget (held r) k' = Some c' \<longrightarrow> k' \<noteq> k \<longrightarrow> owner c' \<noteq> owner c \<longrightarrow> \<not> claims_conflict c c')
     \<and> (holdings (quota_bucket c) (held r) < cap
        \<or> (\<exists>old. dget (held r) k = Some old \<and> quota_bucket old = quota_bucket c))"

inductive registry_step :: "int \<Rightarrow> registry \<Rightarrow> registry \<Rightarrow> bool" for cap where
  drop: "registry_step cap r (r\<lparr>held := filter P (held r)\<rparr>)"
| touch: "dget (held r) k = Some c \<Longrightarrow> touches c c' \<Longrightarrow> registry_step cap r (r\<lparr>held := dset k c' (held r)\<rparr>)"
| fresh: "admissible cap k c r \<Longrightarrow> registry_step cap r \<lparr>held = dset k c (held r), seq = seq r + 1\<rparr>"

inductive_cases registry_stepE: "registry_step cap r r'"

section \<open>Its invariant\<close>

definition registry_ok :: "int \<Rightarrow> registry \<Rightarrow> bool" where
  "registry_ok cap r \<longleftrightarrow>
     dict_ok (held r) \<and> scope_lock.exclusive (held r)
     \<and> (\<forall>prin. holdings prin (held r) \<le> cap)
     \<and> (\<forall>k c. dget (held r) k = Some c \<longrightarrow> epoch c \<le> seq r \<and> is_known (status c))
     \<and> (\<forall>k k' c c'. dget (held r) k = Some c \<longrightarrow> dget (held r) k' = Some c' \<longrightarrow> epoch c = epoch c' \<longrightarrow> k = k')"

lemma registry_okD:
  assumes "registry_ok cap r"
  shows "dict_ok (held r)" "scope_lock.exclusive (held r)" "holdings prin (held r) \<le> cap"
    "dget (held r) k = Some c \<Longrightarrow> epoch c \<le> seq r"
    "dget (held r) k = Some c \<Longrightarrow> is_known (status c)"
    "dget (held r) k = Some c \<Longrightarrow> dget (held r) k' = Some c' \<Longrightarrow> epoch c = epoch c' \<Longrightarrow> k = k'"
  using assms by (auto simp: registry_ok_def)

lemma registry_ok_empty: "0 \<le> cap \<Longrightarrow> registry_ok cap \<lparr>held = [], seq = 0\<rparr>"
  by (simp add: registry_ok_def scope_lock.exclusive_empty holdings_def count_values_def)

lemma holdings_dset:
  "dict_ok cs \<Longrightarrow> holdings prin (dset k c cs) =
     holdings prin cs - (case dget cs k of Some old \<Rightarrow> if quota_bucket old = prin then 1 else 0 | None \<Rightarrow> 0)
     + (if quota_bucket c = prin then 1 else 0)"
proof -
  assume ok: "dict_ok cs"
  have "0 < count_values (\<lambda>c. quota_bucket c = prin) cs"
    if "dget cs k = Some old" "quota_bucket old = prin" for old
    using that dict_values_iff [OF ok, of old] by (auto simp: count_values_def filter_empty_conv)
  then show ?thesis
    using count_values_dset [OF ok, of "\<lambda>c. quota_bucket c = prin" k c]
    by (auto simp: holdings_def split: option.splits)
qed

lemma touches_bucket: "touches c c' \<Longrightarrow> quota_bucket c' = quota_bucket c"
  by (simp add: touches_def quota_bucket_def)

lemma touches_known: "touches c c' \<Longrightarrow> is_known (status c) \<Longrightarrow> is_known (status c')"
  by (auto simp: touches_def elim: status_stepE dest: can_transition_known)

lemma registry_ok_drop:
  assumes "registry_ok cap r"
  shows "registry_ok cap (r\<lparr>held := filter P (held r)\<rparr>)"
proof -
  note ok = registry_okD [OF assms]
  have sub: "dget (filter P (held r)) k = Some c \<Longrightarrow> dget (held r) k = Some c" for k c
    by (simp add: dget_filter [OF ok(1)] split: option.splits if_splits)
  have "holdings prin (filter P (held r)) \<le> cap" for prin
    using ok(3) [of prin] count_values_filter_le [of "\<lambda>c. quota_bucket c = prin" P "held r"]
    by (simp add: holdings_def)
  moreover have "scope_lock.exclusive (filter P (held r))"
    by (rule scope_lock.exclusive_shrink [OF ok(2) sub])
  moreover have "epoch c \<le> seq r \<and> is_known (status c)" if "dget (filter P (held r)) k = Some c" for k c
    using ok(4,5) [OF sub [OF that]] by simp
  moreover have "k = k'"
    if "dget (filter P (held r)) k = Some c" "dget (filter P (held r)) k' = Some c'" "epoch c = epoch c'" for k k' c c'
    by (rule ok(6) [OF sub [OF that(1)] sub [OF that(2)] that(3)])
  ultimately show ?thesis using ok(1) by (auto simp: registry_ok_def)
qed

lemma registry_ok_touch:
  assumes "registry_ok cap r" and at: "dget (held r) k = Some c" and t: "touches c c'"
  shows "registry_ok cap (r\<lparr>held := dset k c' (held r)\<rparr>)"
proof -
  note ok = registry_okD [OF assms(1)]
  have "claims_conflict c' x = claims_conflict c x" for x
    using t by (simp add: claims_conflict_def touches_def)
  then have "scope_lock.exclusive (dset k c' (held r))"
    using t by (intro scope_lock.exclusive_touch [OF ok(2) at]) (auto simp: touches_def)
  moreover have "holdings prin (dset k c' (held r)) \<le> cap" for prin
    using ok(3) [of prin] at touches_bucket [OF t] by (simp add: holdings_dset [OF ok(1)])
  moreover have "epoch c' = epoch c" using t by (simp add: touches_def)
  ultimately show ?thesis
    using ok at touches_known [OF t ok(5) [OF at]] by (auto simp: registry_ok_def)
qed

lemma registry_ok_fresh:
  assumes "registry_ok cap r" and new: "admissible cap k c r"
  shows "registry_ok cap \<lparr>held = dset k c (held r), seq = seq r + 1\<rparr>"
proof -
  note ok = registry_okD [OF assms(1)]
  have "scope_lock.exclusive (dset k c (held r))"
    using new by (intro scope_lock.exclusive_store [OF ok(2)]) (auto simp: admissible_def)
  moreover have "holdings prin (dset k c (held r)) \<le> cap" for prin
    using ok(3) [of prin] new by (auto simp: holdings_dset [OF ok(1)] admissible_def split: option.splits)
  moreover have "epoch c = seq r + 1" "is_known (status c)" using new by (simp_all add: admissible_def)
  moreover have "dget (held r) k' = Some c' \<Longrightarrow> epoch c' < seq r + 1" for k' c'
    using ok(4) by fastforce
  ultimately show ?thesis using ok(1,5,6) by (fastforce simp: registry_ok_def)
qed

lemma registry_ok_step: "registry_step cap r r' \<Longrightarrow> registry_ok cap r \<Longrightarrow> registry_ok cap r'"
  by (auto elim!: registry_stepE simp: registry_ok_drop registry_ok_touch registry_ok_fresh)

lemma registry_ok_steps: "(registry_step cap)\<^sup>*\<^sup>* r r' \<Longrightarrow> registry_ok cap r \<Longrightarrow> registry_ok cap r'"
  by (induction rule: rtranclp_induct) (auto dest: registry_ok_step)

section \<open>Where a claim comes from\<close>

text \<open>
  A claim found after any number of steps was already there under the same task and epoch, with
  the same owner and scope, or its epoch is newer than everything numbered before.
\<close>

definition continues :: "task_claim \<Rightarrow> task_claim \<Rightarrow> bool" where
  "continues c c' \<longleftrightarrow>
     task_id c' = task_id c \<and> owner c' = owner c \<and> epoch c' = epoch c
     \<and> ownership_epoch c' = ownership_epoch c \<and> quota_principal c' = quota_principal c
     \<and> worktree c' = worktree c \<and> paths c' = paths c \<and> path_identity c' = path_identity c
     \<and> git c' = git c \<and> version c \<le> version c' \<and> status_step\<^sup>*\<^sup>* (status c) (status c')"

lemma continues_refl: "continues c c"
  by (simp add: continues_def)

lemma continues_touch: "continues c c' \<Longrightarrow> touches c' c'' \<Longrightarrow> continues c c''"
  by (auto simp: continues_def touches_def intro: rtranclp.rtrancl_into_rtrancl)

lemma registry_step_seq: "registry_step cap r r' \<Longrightarrow> seq r \<le> seq r'"
  by (auto elim: registry_stepE)

lemma registry_step_origin:
  assumes "registry_step cap r r'" and "registry_ok cap r" and "dget (held r') k = Some c'"
  shows "seq r < epoch c' \<or> (\<exists>c. dget (held r) k = Some c \<and> (c' = c \<or> touches c c'))"
  using assms(1)
proof cases
  case (drop P)
  then show ?thesis
    using assms(3) registry_okD(1) [OF assms(2)] by (auto simp: dget_filter split: option.splits if_splits)
next
  case (touch k0 c0 c0')
  then show ?thesis using assms(3) by (auto split: if_splits)
next
  case (fresh k0 c0)
  then show ?thesis using assms(3) by (auto simp: admissible_def split: if_splits)
qed

lemma registry_steps_origin:
  assumes "(registry_step cap)\<^sup>*\<^sup>* r r'" and "registry_ok cap r" and "dget (held r') k = Some c'"
  shows "seq r < epoch c' \<or> (\<exists>c. dget (held r) k = Some c \<and> continues c c')"
  using assms
proof (induction arbitrary: c' rule: rtranclp_induct)
  case base
  then show ?case using continues_refl by blast
next
  case (step r1 r2)
  have "registry_ok cap r1" by (rule registry_ok_steps [OF step.hyps(1) step.prems(1)])
  from registry_step_origin [OF step.hyps(2) this step.prems(2)] show ?case
  proof
    assume "seq r1 < epoch c'"
    moreover have "seq r \<le> seq r1"
      using step.hyps(1) by (induction rule: rtranclp_induct) (auto dest: registry_step_seq)
    ultimately show ?thesis by simp
  next
    assume "\<exists>c. dget (held r1) k = Some c \<and> (c' = c \<or> touches c c')"
    then obtain c where c: "dget (held r1) k = Some c" "c' = c \<or> touches c c'" by blast
    from step.IH [OF step.prems(1) c(1)] show ?thesis
      using c(2) continues_touch by (auto simp: touches_def)
  qed
qed

end
