(* ===== verification/State_Safety.thy ===== *)
theory State_Safety
  imports Registry_Spec
begin

text \<open>
  The registry of \<open>core/state.py\<close> refines the abstract machine of \<open>Registry_Spec\<close>: every call
  of a public operation, whatever its arguments and time stamp, is a sequence of abstract steps.
  The safety properties of every reachable state follow.
\<close>

section \<open>Calls and reachable states\<close>

text \<open>
  One call of a state-changing method.  \<open>CustodySet\<close> stands for the protected-write operations,
  which reserve and return custody of scopes in \<open>protected_claim_custody\<close> (any value).
\<close>

datatype state_op =
    Heartbeat string time
  | Claim string string claim_request time
  | Renew string string int "string list" time
  | Update string string "string option" "string option" "string option" "int option" "int option" time
  | Save string string string "int option" time
  | Release string string "int option" time
  | ForceRelease string string
  | Handoff string string string "string option" "int option" time
  | Offer string string string json "json_object option" time
  | Snapshot time
  | CustodySet "(string, claim_custody list) pydict"

fun run_op :: "state_op \<Rightarrow> synapse_state \<Rightarrow> synapse_state" where
  "run_op (Heartbeat agent ts) s = heartbeat agent ts s"
| "run_op (Claim agent task rq ts) s = fst (claim agent task rq ts s)"
| "run_op (Renew agent task ep ps ts) s = fst (renew_claim agent task ep ps ts s)"
| "run_op (Update agent task st n d ep v ts) s = fst (update_task agent task st n d ep v ts s)"
| "run_op (Save agent task cp ep ts) s = fst (save_checkpoint agent task cp ep ts s)"
| "run_op (Release agent task ep ts) s = fst (release agent task ep ts s)"
| "run_op (ForceRelease task by') s = fst (force_release task by' s)"
| "run_op (Handoff agent task to n ep ts) s = fst (handoff agent task to n ep ts s)"
| "run_op (Offer agent kind name cap meta ts) s = fst (offer_resource agent kind name cap meta ts s)"
| "run_op (Snapshot ts) s = fst (snapshot ts s)"
| "run_op (CustodySet custody) s = s\<lparr>protected_claim_custody := custody\<rparr>"

inductive state_steps :: "synapse_state \<Rightarrow> synapse_state \<Rightarrow> bool" where
  none: "state_steps s s"
| call: "state_steps s s' \<Longrightarrow> state_steps s (run_op op s')"

inductive reachable :: "synapse_state \<Rightarrow> bool" where
  start: "reachable (init_state ttl max_claims max_offers max_paths)"
| call: "reachable s \<Longrightarrow> reachable (run_op op s)"

lemma reachable_run: "reachable s \<Longrightarrow> reachable (fold run_op ops s)"
  by (induction ops arbitrary: s) (auto intro: reachable.call)

lemma state_steps_run: "state_steps s (fold run_op ops s')" if "state_steps s s'"
  using that by (induction ops arbitrary: s') (auto intro: state_steps.call)

lemma wf_custody: "wf_state (s\<lparr>protected_claim_custody := w\<rparr>) = wf_state s"
  by (rule wf_state_cong) simp_all

lemma wf_run_op [keeps_intro]: "wf_state s \<Longrightarrow> wf_state (run_op op s)"
  by (cases op)
    (simp_all add: wf_heartbeat wf_claim wf_renew_claim wf_update_task wf_save_checkpoint wf_release
      wf_force_release wf_handoff wf_offer_resource wf_snapshot wf_custody)

lemma wf_reachable: "reachable s \<Longrightarrow> wf_state s"
  by (induction rule: reachable.induct) (auto intro: wf_init wf_run_op)

lemma wf_steps: "state_steps s s' \<Longrightarrow> wf_state s \<Longrightarrow> wf_state s'"
  by (induction rule: state_steps.induct) (auto intro: wf_run_op)

section \<open>The refinement\<close>

definition abs_registry :: "synapse_state \<Rightarrow> registry" where
  "abs_registry s = \<lparr>held = claims s, seq = epoch_seq s\<rparr>"

abbreviation abs_steps :: "synapse_state \<Rightarrow> synapse_state \<Rightarrow> bool" where
  "abs_steps s s' \<equiv> (registry_step (max_claims_per_agent s))\<^sup>*\<^sup>* (abs_registry s) (abs_registry s')"

lemma abs_registry_same:
  "claims s' = claims s \<Longrightarrow> epoch_seq s' = epoch_seq s \<Longrightarrow> abs_registry s' = abs_registry s"
  by (simp add: abs_registry_def)

lemma abs_drop:
  "claims s' = filter P (claims s) \<Longrightarrow> epoch_seq s' = epoch_seq s \<Longrightarrow>
   registry_step cap (abs_registry s) (abs_registry s')"
  using registry_step.drop [of cap "abs_registry s" P] by (simp add: abs_registry_def)

lemma abs_touch:
  "dget (claims s) k = Some c \<Longrightarrow> touches c c' \<Longrightarrow> claims s' = dset k c' (claims s) \<Longrightarrow>
   epoch_seq s' = epoch_seq s \<Longrightarrow> registry_step cap (abs_registry s) (abs_registry s')"
  using registry_step.touch [of "abs_registry s" k c c' cap] by (simp add: abs_registry_def)

lemma abs_fresh:
  "admissible cap k c (abs_registry s) \<Longrightarrow> claims s' = dset k c (claims s) \<Longrightarrow>
   epoch_seq s' = epoch_seq s + 1 \<Longrightarrow> registry_step cap (abs_registry s) (abs_registry s')"
  using registry_step.fresh [of cap k c "abs_registry s"] by (simp add: abs_registry_def)

lemma heartbeat_refines: "wf_state s \<Longrightarrow> registry_step cap (abs_registry s) (abs_registry (heartbeat agent ts s))"
  by (rule abs_drop [where P = "\<lambda>(k, c). \<not> lease_expires_at c \<le> ts"])
    (simp_all add: claims_heartbeat live_claims_def frame_simps)

lemma heartbeat_then:
  assumes "wf_state s" and "registry_step cap (abs_registry (heartbeat agent ts s)) r"
  shows "(registry_step cap)\<^sup>*\<^sup>* (abs_registry s) r"
  using heartbeat_refines [OF assms(1)] assms(2) by (meson converse_rtranclp_into_rtranclp r_into_rtranclp)

lemma heartbeat_only:
  "wf_state s \<Longrightarrow> (registry_step cap)\<^sup>*\<^sup>* (abs_registry s) (abs_registry (heartbeat agent ts s))"
  by (intro r_into_rtranclp heartbeat_refines)

text \<open>The claim that \<open>grant_claim\<close> stores.\<close>

definition granted_claim ::
  "string \<Rightarrow> string \<Rightarrow> claim_request \<Rightarrow> string \<Rightarrow> time \<Rightarrow> string list \<Rightarrow> time \<Rightarrow> synapse_state \<Rightarrow> task_claim" where
  "granted_claim agent task rq prin ttl ps ts s =
     the (dget (claims (grant_claim agent task rq prin ttl ps (dget (claims s) task) ts s)) task)"

lemma grant_claim_stores:
  "claims (grant_claim agent task rq prin ttl ps (dget (claims s) task) ts s)
     = dset task (granted_claim agent task rq prin ttl ps ts s) (claims s)"
  "epoch_seq (grant_claim agent task rq prin ttl ps (dget (claims s) task) ts s) = epoch_seq s + 1"
  "max_claims_per_agent (grant_claim agent task rq prin ttl ps (dget (claims s) task) ts s) = max_claims_per_agent s"
  by (simp_all add: granted_claim_def grant_claim_def Let_def split_beta)

lemma granted_claim_fields:
  fixes agent task rq prin ttl ps ts s
  defines "c \<equiv> granted_claim agent task rq prin ttl ps ts s"
  shows "task_id c = task" "owner c = agent" "epoch c = epoch_seq s + 1" "status c = CLAIMED"
    "worktree c = req_worktree rq" "paths c = ps" "path_identity c = req_identity rq"
    "quota_principal c = prin" "version c = 0" "claimed_at c = ts" "lease_expires_at c = ts + ttl"
    "checkpoint c = fst (claim_checkpoint agent task (dget (claims s) task) (expired_checkpoints s))"
  unfolding c_def by (simp_all add: granted_claim_def grant_claim_def Let_def split_beta)

lemma claims_owned_by_holdings: "claims_owned_by prin s = holdings prin (claims s)"
  by (simp add: claims_owned_by_def holdings_def)

lemma claim_principal_bucket: "(if claim_principal agent q = [] then agent else claim_principal agent q) = claim_principal agent q"
  by (simp add: claim_principal_def Let_def)

lemma claim_refines:
  assumes wf: "wf_state s"
  shows "abs_steps s (fst (claim agent task' rq ts s))"
proof (cases rule: claim_cases [of agent task' rq ts s])
  case (granted h task ps prin)
  have h: "wf_state h" unfolding granted(1) by (rule wf_heartbeat [OF wf])
  let ?c = "granted_claim agent task rq prin (claim_ttl (req_ttl rq) s) ps ts h"
  have prin: "quota_bucket ?c = prin"
    using claim_principal_bucket [of agent "req_principal rq"]
    by (simp add: quota_bucket_def granted_claim_fields granted(5) split: if_splits)
  have cap: "max_claims_per_agent h = max_claims_per_agent s" by (simp add: granted(1) frame_simps)
  have "admissible (max_claims_per_agent s) task ?c (abs_registry h)"
    using granted(8,9) find_scope_conflict_None [OF wf_stateD(1) [OF h], of task agent]
    by (auto simp: admissible_def abs_registry_def granted_claim_fields prin claims_conflict_def cap
        claim_quota_available_def claims_owned_by_holdings lifecycle_defs split: option.splits if_splits)
  then have "registry_step (max_claims_per_agent s) (abs_registry h) (abs_registry (fst (claim agent task' rq ts s)))"
    by (rule abs_fresh) (simp_all add: granted(6) grant_claim_stores)
  then show ?thesis unfolding granted(1) by (rule heartbeat_then [OF wf])
qed (simp_all add: heartbeat_only [OF wf])

lemma renew_claim_refines:
  assumes wf: "wf_state s"
  shows "abs_steps s (fst (renew_claim agent task' ep ps ts s))"
proof (cases rule: renew_claim_cases [of agent task' ep ps ts s])
  case (granted h task c)
  have "claim_ok h task c" unfolding granted(1)
    by (rule wf_stateD(6) [OF wf_heartbeat [OF wf]]) (use granted in simp)
  then have "registry_step (max_claims_per_agent s) (abs_registry h)
      (abs_registry (fst (renew_claim agent task' ep ps ts s)))"
    by (intro abs_touch [OF granted(3)]) (auto simp: touches_def granted(8) claim_ok_def or_int_def)
  then show ?thesis unfolding granted(1) by (rule heartbeat_then [OF wf])
qed (simp_all add: heartbeat_only [OF wf])

lemma updated_claim_touches:
  "(\<And>x. st = Some x \<Longrightarrow> x = [] \<or> can_transition (status c) x) \<Longrightarrow> touches c (updated_claim st n d c)"
  by (auto simp: touches_def status_step_iff split: option.split)

lemma update_task_refines:
  assumes wf: "wf_state s"
  shows "abs_steps s (fst (update_task agent task st n d ep v ts s))"
proof (cases rule: update_task_cases [of agent task st n d ep v ts s])
  case (granted h c)
  have "registry_step (max_claims_per_agent s) (abs_registry h)
      (abs_registry (fst (update_task agent task st n d ep v ts s)))"
    by (rule abs_touch [OF granted(2) updated_claim_touches [OF granted(7)]]) (simp_all add: granted(8))
  then show ?thesis unfolding granted(1) by (rule heartbeat_then [OF wf])
qed (simp_all add: heartbeat_only [OF wf])

lemma save_checkpoint_refines:
  assumes wf: "wf_state s"
  shows "abs_steps s (fst (save_checkpoint agent task' cp ep ts s))"
proof (cases rule: save_checkpoint_cases [of agent task' cp ep ts s])
  case (granted h task c)
  have "registry_step (max_claims_per_agent s) (abs_registry h)
      (abs_registry (fst (save_checkpoint agent task' cp ep ts s)))"
    by (rule abs_touch [OF granted(3)]) (simp_all add: granted(7) touches_def)
  then show ?thesis unfolding granted(1) by (rule heartbeat_then [OF wf])
qed (simp_all add: heartbeat_only [OF wf])

lemma drop_claim_refines: "registry_step cap (abs_registry s) (abs_registry (drop_claim task s))"
  by (rule abs_drop [where P = "\<lambda>(k, c). task \<noteq> k"]) (simp_all add: drop_claim_def AList.delete_eq case_prod_unfold)

lemma release_refines:
  assumes wf: "wf_state s"
  shows "abs_steps s (fst (release agent task' ep ts s))"
proof (cases rule: release_cases [of agent task' ep ts s])
  case (granted h task c)
  have "registry_step (max_claims_per_agent s) (abs_registry h) (abs_registry (fst (release agent task' ep ts s)))"
    by (simp add: granted(7) drop_claim_refines)
  then show ?thesis unfolding granted(1) by (rule heartbeat_then [OF wf])
qed (simp_all add: heartbeat_only [OF wf])

lemma force_release_refines: "abs_steps s (fst (force_release task' by' s))"
  by (cases rule: force_release_cases [of task' by' s]) (auto simp: drop_claim_refines r_into_rtranclp)

lemma handoff_refines:
  assumes wf: "wf_state s" and known: "\<And>k c. dget (claims s) k = Some c \<Longrightarrow> is_known (status c)"
  shows "abs_steps s (fst (handoff agent task' to n ep ts s))"
proof (cases rule: handoff_cases [of agent task' to n ep ts s])
  case (granted h task target c moved)
  have h: "wf_state h" unfolding granted(1) by (rule wf_heartbeat [OF wf])
  have cap: "max_claims_per_agent h = max_claims_per_agent s" by (simp add: granted(1) frame_simps)
  have bucket: "quota_bucket moved = quota_bucket c \<or> quota_bucket moved = target"
    by (auto simp: quota_bucket_def granted(14))
  have "is_known (status c)"
    using known granted(6) unfolding granted(1) by (metis dget_claims_heartbeat(1) [OF wf])
  then have "admissible (max_claims_per_agent s) task moved (abs_registry h)"
    using granted(6,8,12,13) bucket find_scope_conflict_None [OF wf_stateD(1) [OF h], of task target]
    by (auto simp: admissible_def abs_registry_def granted(14) claims_conflict_def cap claims_owned_by_holdings)
  then have "registry_step (max_claims_per_agent s) (abs_registry h)
      (abs_registry (fst (handoff agent task' to n ep ts s)))"
    by (rule abs_fresh) (simp_all add: granted(15) granted(14))
  then show ?thesis unfolding granted(1) by (rule heartbeat_then [OF wf])
qed (simp_all add: heartbeat_only [OF wf])

lemma snapshot_refines: "wf_state s \<Longrightarrow> registry_step cap (abs_registry s) (abs_registry (fst (snapshot ts s)))"
  by (rule abs_drop [where P = "\<lambda>(k, c). \<not> lease_expires_at c \<le> ts"])
    (simp_all add: snapshot_def Let_def frame_simps expire_claims_live live_claims_def)

lemma offer_resource_refines:
  assumes "wf_state s"
  shows "abs_steps s (fst (offer_resource agent kind name cap meta ts s))"
proof -
  have "abs_registry (fst (offer_resource agent kind name cap meta ts s)) = abs_registry (heartbeat agent ts s)"
    by (rule abs_registry_same) (simp_all add: offer_resource_def Let_def split_beta)
  then show ?thesis by (simp add: heartbeat_only [OF assms])
qed

lemma run_op_refines:
  assumes "wf_state s" and "\<And>k c. dget (claims s) k = Some c \<Longrightarrow> is_known (status c)"
  shows "abs_steps s (run_op op s)"
proof (cases op)
  case (CustodySet custody)
  then show ?thesis by (simp add: abs_registry_same [of "s\<lparr>protected_claim_custody := custody\<rparr>"])
qed (simp_all add: assms heartbeat_only claim_refines renew_claim_refines update_task_refines
    save_checkpoint_refines release_refines force_release_refines handoff_refines
    offer_resource_refines snapshot_refines r_into_rtranclp)

section \<open>Every reachable state\<close>

lemma grant_claim_frame [frame_simps]:
  "max_claims_per_agent (grant_claim agent task rq prin ttl ps existing ts s) = max_claims_per_agent s"
  by (simp add: grant_claim_def Let_def split_beta)

lemma max_claims_run_op [frame_simps]: "max_claims_per_agent (run_op op s) = max_claims_per_agent s"
proof (cases op)
  case (Claim agent task rq ts)
  then show ?thesis by (cases rule: claim_cases [of agent task rq ts s]) (simp_all add: frame_simps)
next
  case (Renew agent task ep ps ts)
  then show ?thesis by (cases rule: renew_claim_cases [of agent task ep ps ts s]) (simp_all add: frame_simps)
next
  case (Update agent task st n d ep v ts)
  then show ?thesis by (cases rule: update_task_cases [of agent task st n d ep v ts s]) (simp_all add: frame_simps)
next
  case (Save agent task cp ep ts)
  then show ?thesis by (cases rule: save_checkpoint_cases [of agent task cp ep ts s]) (simp_all add: frame_simps)
next
  case (Release agent task ep ts)
  then show ?thesis
    by (cases rule: release_cases [of agent task ep ts s]) (simp_all add: frame_simps drop_claim_def)
next
  case (ForceRelease task by')
  then show ?thesis by (cases rule: force_release_cases [of task by' s]) (simp_all add: drop_claim_def)
next
  case (Handoff agent task to n ep ts)
  then show ?thesis by (cases rule: handoff_cases [of agent task to n ep ts s]) (simp_all add: frame_simps)
next
  case (Offer agent kind name cap meta ts)
  then show ?thesis by (simp add: offer_resource_def Let_def split_beta frame_simps)
qed (simp_all add: frame_simps snapshot_def Let_def)

lemma max_claims_steps: "state_steps s s' \<Longrightarrow> max_claims_per_agent s' = max_claims_per_agent s"
  by (induction rule: state_steps.induct) (simp_all add: frame_simps)

definition registry_inv :: "synapse_state \<Rightarrow> bool" where
  "registry_inv s \<longleftrightarrow> wf_state s \<and> registry_ok (max_claims_per_agent s) (abs_registry s)"

lemma registry_inv_refines: "registry_inv s \<Longrightarrow> abs_steps s (run_op op s)"
  by (rule run_op_refines)
    (auto simp: registry_inv_def abs_registry_def dest: registry_okD(5))

lemma registry_inv_run_op: "registry_inv s \<Longrightarrow> registry_inv (run_op op s)"
  using registry_ok_steps [OF registry_inv_refines] by (simp add: registry_inv_def wf_run_op frame_simps)

lemma max_claims_init: "1 \<le> max_claims_per_agent (init_state a b c d)"
  using safe_int_min [of b MAX_CLAIMS_PER_AGENT 1 True]
  by (auto simp: init_state_def int_or_def MAX_CLAIMS_PER_AGENT_def split: option.split)

lemma registry_inv_reachable: "reachable s \<Longrightarrow> registry_inv s"
proof (induction rule: reachable.induct)
  case (start a b c d)
  have "abs_registry (init_state a b c d) = \<lparr>held = [], seq = 0\<rparr>"
    by (simp add: abs_registry_def init_state_def)
  then show ?case using max_claims_init [of a b c d] registry_ok_empty wf_init by (simp add: registry_inv_def)
qed (rule registry_inv_run_op)

lemma state_steps_refine:
  "state_steps s s' \<Longrightarrow> registry_inv s \<Longrightarrow> registry_inv s' \<and> abs_steps s s'"
proof (induction rule: state_steps.induct)
  case (call s s' op)
  then have "registry_inv s'" and steps: "abs_steps s s'" by simp_all
  then have "abs_steps s' (run_op op s')" by (simp add: registry_inv_refines)
  with steps max_claims_steps [OF call.hyps] have "abs_steps s (run_op op s')"
    by (metis (no_types, lifting) rtranclp_trans)
  with \<open>registry_inv s'\<close> show ?case by (simp add: registry_inv_run_op)
qed simp

lemma claim_origin:
  assumes "registry_inv s" and "state_steps s s'" and "dget (claims s') k = Some c'"
  shows "epoch_seq s < epoch c' \<or> (\<exists>c. dget (claims s) k = Some c \<and> continues c c')"
  using registry_steps_origin [of "max_claims_per_agent s" "abs_registry s" "abs_registry s'" k c']
    state_steps_refine [OF assms(2,1)] assms(1,3)
  by (simp add: registry_inv_def abs_registry_def)

lemma same_epoch_continues:
  assumes "registry_inv s" and "state_steps s s'"
    and "dget (claims s) k = Some c" and "dget (claims s') k' = Some c'" and "epoch c' = epoch c"
  shows "k' = k \<and> continues c c'"
proof -
  have le: "epoch c \<le> epoch_seq s"
    using registry_okD(4) [of "max_claims_per_agent s" "abs_registry s" k c] assms(1,3)
    by (simp add: registry_inv_def abs_registry_def)
  from claim_origin [OF assms(1,2,4)] le assms(5) obtain c0 where
    c0: "dget (claims s) k' = Some c0" "continues c0 c'" by auto
  then have "epoch c0 = epoch c" using assms(5) by (simp add: continues_def)
  then have "k' = k"
    using registry_okD(6) [of "max_claims_per_agent s" "abs_registry s" k' c0 k c] assms(1,3) c0(1)
    by (simp add: registry_inv_def abs_registry_def)
  then show ?thesis using c0 assms(3) by simp
qed

end
