(* ===== verification/State_Properties.thy ===== *)
theory State_Properties
  imports State_Safety
begin

text \<open>
  The properties of the claim registry, stated over the operations of \<open>Synapse_State\<close>, and a
  small concrete run on which they are exercised.
\<close>

section \<open>A concrete run\<close>

definition plain_request :: "string list \<Rightarrow> claim_request" where
  "plain_request ps =
     \<lparr>req_note = [], req_ttl = None, req_principal = None, req_worktree = [], req_paths = ps,
      req_identity = None, req_git = None, req_require_unclaimed = False\<rparr>"

definition small_hub :: "int \<Rightarrow> synapse_state" where
  "small_hub cap = init_state (JFloat (Finite 60)) (JInt cap) (JInt 4) (JInt 8)"

text \<open>Two agents claim disjoint scopes at time 0; the first records a checkpoint.\<close>

definition demo_ops :: "state_op list" where
  "demo_ops =
     [Claim ''a'' ''T'' (plain_request [''src'']) 0, Claim ''b'' ''U'' (plain_request [''docs'']) 0,
      Save ''a'' ''T'' ''half'' None 1]"

definition demo :: synapse_state where
  "demo = fold run_op demo_ops (small_hub 2)"

lemma reachable_demo: "reachable demo"
  unfolding demo_def small_hub_def by (intro reachable_run reachable.start)

definition claim_T :: task_claim where
  "claim_T = \<lparr>task_id = ''T'', owner = ''a'', claim_note = [], claimed_at = 0, lease_expires_at = 60,
     quota_principal = ''a'', status = ''claimed'', data_ref = [], worktree = [], paths = [''src''],
     path_identity = None, epoch = 1, version = 1, checkpoint = ''half'', git = None, ownership_epoch = 1\<rparr>"

definition claim_U :: task_claim where
  "claim_U = \<lparr>task_id = ''U'', owner = ''b'', claim_note = [], claimed_at = 0, lease_expires_at = 60,
     quota_principal = ''b'', status = ''claimed'', data_ref = [], worktree = [], paths = [''docs''],
     path_identity = None, epoch = 2, version = 0, checkpoint = [], git = None, ownership_epoch = 2\<rparr>"

lemma demo_claims: "claims demo = [(''T'', claim_T), (''U'', claim_U)]"
  by code_simp

lemma demo_fields: "epoch_seq demo = 2" "max_claims_per_agent demo = 2" "protected_claim_custody demo = []"
  "max_paths_per_claim demo = 8"
  by code_simp+

lemma demo_T: "dget (claims demo) ''T'' = Some claim_T" and demo_U: "dget (claims demo) ''U'' = Some claim_U"
  by (simp_all add: demo_claims)

section \<open>Mutual exclusion\<close>

lemma registry_ok_reachable: "reachable s \<Longrightarrow> registry_ok (max_claims_per_agent s) (abs_registry s)"
  using registry_inv_reachable by (simp add: registry_inv_def)

lemma reachable_exclusive: "reachable s \<Longrightarrow> scope_lock.exclusive (claims s)"
  using registry_okD(2) [OF registry_ok_reachable] by (simp add: abs_registry_def)

text \<open>
  C1: In every state the registry can reach, whatever calls were made in whatever order and at
  whatever time stamps, two claims held by different owners never conflict under the scope rule
  of the code (same worktree and overlapping paths, with canonical path identities compared
  where the claims carry them).
\<close>

theorem reachable_scopes_disjoint:
  assumes "reachable s" and "dget (claims s) k = Some c" and "dget (claims s) k' = Some c'"
    and "owner c \<noteq> owner c'"
  shows "\<not> claims_conflict c c'"
  by (rule scope_lock.exclusiveD [OF reachable_exclusive [OF assms(1)] assms(2-4)])

theorem reachable_scopes_disjoint_witness: "\<not> claims_conflict claim_T claim_U"
  by (rule reachable_scopes_disjoint [OF reachable_demo demo_T demo_U]) (simp add: claim_T_def claim_U_def)

text \<open>
  The same, in terms of files: when two different owners hold claims in one worktree and
  neither claim carries a path identity, no file lies below both claims' declared paths.  An
  empty path list counts as the whole worktree.
\<close>

theorem reachable_files_disjoint:
  assumes "reachable s" and "dget (claims s) k = Some c" and "dget (claims s) k' = Some c'"
    and "owner c \<noteq> owner c'" and "worktree c = worktree c'"
    and "path_identity c = None" and "path_identity c' = None"
  shows "scope_files (paths c) \<inter> scope_files (paths c') = {}"
  using scope_lock.exclusiveD [OF reachable_exclusive [OF assms(1)] assms(2-4)] assms(5-7)
  by (simp add: claims_conflict_def claim_scopes_conflict_plain scopes_conflict_files)

theorem reachable_files_disjoint_witness: "scope_files [''src''] \<inter> scope_files [''docs''] = {}"
  using reachable_files_disjoint [OF reachable_demo demo_T demo_U] by (simp add: claim_T_def claim_U_def)

section \<open>The sweep\<close>

text \<open>
  C40: Expiry through the lease heap is exact: in every reachable state, sweeping the due heap
  entries removes precisely the claims whose lease has run out, keeping the order of the others,
  although the heap holds stale entries of released and renewed leases; and a removed claim's
  checkpoint, if it has one, is retained for the next claimant.
\<close>

theorem expiry_exact:
  assumes "reachable s"
  shows "claims (expire_claims now s) = filter (\<lambda>(k, c). now < lease_expires_at c) (claims s)
    \<and> dget (expired_checkpoints (expire_claims now s)) k =
        (case dget (claims s) k of
           Some c \<Rightarrow> if lease_expires_at c \<le> now \<and> checkpoint c \<noteq> [] then Some (checkpoint c) else None
         | None \<Rightarrow> dget (expired_checkpoints s) k)"
  using wf_reachable [OF assms]
  by (simp add: expire_claims_live live_claims_def not_le expire_claims_checkpoints)

theorem expiry_exact_witness:
  "claims (expire_claims 60 demo) = [] \<and> dget (expired_checkpoints (expire_claims 60 demo)) ''T'' = Some ''half''"
  using expiry_exact [OF reachable_demo, of 60 "''T''"] by (simp add: demo_claims claim_T_def claim_U_def)

text \<open>
  The lease heap stays within a constant factor of the claim table: right after any claim,
  renewal or handoff stores its claim, it has at most twice as many entries as there are live
  claims, plus the compaction floor of 16.
\<close>

theorem lease_heap_bounded:
  "length (lease_index (store_claim c s)) \<le> 2 * length (claims (store_claim c s)) + LEASE_HEAP_COMPACT_FLOOR"
  by (simp add: index_track_bound)

section \<open>When a claim is granted\<close>

text \<open>The decision as a user would state it, over the claims that are live at the call.\<close>

definition may_claim :: "string \<Rightarrow> string \<Rightarrow> claim_request \<Rightarrow> time \<Rightarrow> synapse_state \<Rightarrow> bool" where
  "may_claim agent task rq ts s \<longleftrightarrow>
     (let live = live_claims ts (claims s);
          ps = normalize_paths (req_paths rq) (Some (max_paths_per_claim s));
          prin = claim_principal agent (req_principal rq)
      in task \<noteq> []
         \<and> (\<forall>i. req_identity rq = Some i \<longrightarrow> validates_display_scope i (req_worktree rq) ps)
         \<and> \<not> protected_scope_held task (req_worktree rq) ps (req_identity rq) s
         \<and> (\<forall>c. dget live task = Some c \<longrightarrow> owner c = agent \<and> \<not> req_require_unclaimed rq)
         \<and> (\<forall>k c. dget live k = Some c \<longrightarrow> k \<noteq> task \<longrightarrow> owner c \<noteq> agent \<longrightarrow>
              \<not> claim_scopes_conflict (req_worktree rq) ps (req_identity rq) (worktree c) (paths c) (path_identity c))
         \<and> ((\<exists>c. dget live task = Some c \<and> owner c = agent \<and> quota_bucket c = prin)
            \<or> holdings prin live < max_claims_per_agent s))"

lemma protected_scope_held_heartbeat [frame_simps]:
  "protected_scope_held t w p i (heartbeat agent ts s) = protected_scope_held t w p i s"
  by (simp add: protected_scope_held_def frame_simps)

lemma claim_granted_may:
  assumes "wf_state s" and "snd (claim agent task' rq ts s) = Inr m"
  shows "may_claim agent (py_strip task') rq ts s"
proof (cases rule: claim_cases [of agent task' rq ts s])
  case (granted h task ps prin)
  have live: "claims h = live_claims ts (claims s)" unfolding granted(1) by (rule claims_heartbeat [OF assms(1)])
  have h: "dict_ok (claims h)" unfolding granted(1) by (rule wf_stateD(1) [OF wf_heartbeat [OF assms(1)]])
  have "owner c = agent \<and> \<not> req_require_unclaimed rq" if "dget (claims h) task = Some c" for c
    using granted(10) [OF that] that unfolding granted(1) by (auto dest: dget_claims_heartbeat(2) [OF assms(1)])
  moreover have "(\<exists>c. dget (claims h) task = Some c \<and> owner c = agent \<and> quota_bucket c = prin)
      \<or> holdings prin (claims h) < max_claims_per_agent s"
    using granted(9) by (auto simp: claim_quota_available_def claims_owned_by_holdings granted(1) frame_simps
        split: option.splits if_splits)
  moreover have "\<not> protected_scope_held task (req_worktree rq) ps (req_identity rq) s"
    using granted(7) by (simp add: granted(1) frame_simps)
  ultimately show ?thesis
    using granted(3,8,11) find_scope_conflict_None [OF h]
    unfolding may_claim_def Let_def live [symmetric] granted(2,4,5) [symmetric] by blast
qed (use assms(2) in simp_all)

lemma may_claim_granted:
  assumes "wf_state s" and may: "may_claim agent (py_strip task') rq ts s"
  shows "snd (claim agent task' rq ts s) = Inr (Claimed (py_strip task') agent)"
proof -
  let ?h = "heartbeat agent ts s" and ?task = "py_strip task'"
  let ?ps = "normalize_paths (req_paths rq) (Some (max_paths_per_claim s))"
  have h: "dict_ok (claims ?h)" by (rule wf_stateD(1) [OF wf_heartbeat [OF assms(1)]])
  note may = may [unfolded may_claim_def Let_def claims_heartbeat [OF assms(1), of agent, symmetric]]
  have "find_scope_conflict (claims ?h) ?task agent (req_worktree rq) ?ps (req_identity rq) = None"
    using may by (subst find_scope_conflict_None [OF h]) blast
  moreover have "claim_quota_available agent (claim_principal agent (req_principal rq)) (dget (claims ?h) ?task) ?h"
    using may by (auto simp: claim_quota_available_def claims_owned_by_holdings frame_simps split: option.splits)
  ultimately show ?thesis
    using may by (auto simp: claim_def Let_def frame_simps split: option.splits)
qed

text \<open>
  \<open>claim\<close> grants exactly the requests that may be granted, judged on the claims live at the
  call: the task id is not blank, a path identity fits the declared scope, no protected custody
  conflicts, nobody else holds the task, no other owner's live claim conflicts, and the paying
  principal has room (or pays for this task already).  In particular the call never refuses
  because of a lapsed lease, and never grants over a live one.
\<close>

theorem claim_granted_iff:
  assumes "reachable s"
  shows "(\<exists>m. snd (claim agent task rq ts s) = Inr m) \<longleftrightarrow> may_claim agent (py_strip task) rq ts s"
  using claim_granted_may [OF wf_reachable [OF assms]] may_claim_granted [OF wf_reachable [OF assms]] by blast

theorem claim_granted_iff_witness:
  "may_claim ''b'' ''T'' (plain_request [''src'']) 60 demo \<and> \<not> may_claim ''b'' ''T'' (plain_request [''src'']) 59 demo"
proof -
  have "snd (claim ''b'' ''T'' (plain_request [''src'']) 60 demo) = Inr (Claimed ''T'' ''b'')"
    and "snd (claim ''b'' ''T'' (plain_request [''src'']) 59 demo) = Inl (AlreadyClaimed ''T'' ''a'')"
    by code_simp+
  moreover have "py_strip ''T'' = ''T''" by code_simp
  ultimately show ?thesis
    using claim_granted_iff [OF reachable_demo, of "''b''" "''T''" "plain_request [''src'']" 60]
      claim_granted_iff [OF reachable_demo, of "''b''" "''T''" "plain_request [''src'']" 59]
    by simp
qed

text \<open>
  A granted claim carries the checkpoint its predecessor left: when the previous owner's
  lease has run out, the new owner's claim holds the previous checkpoint, a fresh epoch, version
  0 and the initial status, and the retained copy is used up.
\<close>

theorem claim_inherits_checkpoint:
  assumes "reachable s" and "dget (claims s) (py_strip task) = Some c" and "lease_expires_at c \<le> ts"
    and "snd (claim agent task rq ts s) = Inr m"
  shows "\<exists>c'. dget (claims (fst (claim agent task rq ts s))) (py_strip task) = Some c'
    \<and> owner c' = agent \<and> checkpoint c' = checkpoint c \<and> epoch c' = epoch_seq s + 1
    \<and> version c' = 0 \<and> status c' = CLAIMED
    \<and> dget (expired_checkpoints (fst (claim agent task rq ts s))) (py_strip task) = None"
proof (cases rule: claim_cases [of agent task rq ts s])
  case (granted h t ps prin)
  have wf: "wf_state s" by (rule wf_reachable [OF assms(1)])
  have none: "dget (claims h) t = None"
    using assms(2,3) wf_stateD(1) [OF wf] by (simp add: granted(1,2) claims_heartbeat [OF wf] dget_live_claims)
  have cp: "dget (expired_checkpoints h) t = (if checkpoint c = [] then None else Some (checkpoint c))"
    using assms(2,3) by (simp add: granted(1,2) checkpoints_heartbeat [OF wf])
  let ?c = "granted_claim agent t rq prin (claim_ttl (req_ttl rq) s) ps ts h"
  have "checkpoint ?c = checkpoint c" by (simp add: granted_claim_fields none claim_checkpoint_def cp)
  moreover have "dget (expired_checkpoints (fst (claim agent task rq ts s))) t = None"
    by (simp add: granted(6) grant_claim_def Let_def split_beta none claim_checkpoint_def)
  moreover have "dget (claims (fst (claim agent task rq ts s))) t = Some ?c"
    by (simp add: granted(6) grant_claim_stores)
  ultimately show ?thesis
    by (simp add: granted_claim_fields granted(2) [symmetric]) (simp add: granted(1) frame_simps)
qed (use assms(4) in simp_all)

theorem claim_inherits_checkpoint_witness:
  "\<exists>c'. dget (claims (fst (claim ''b'' ''T'' (plain_request [''src'']) 60 demo))) ''T'' = Some c'
     \<and> owner c' = ''b'' \<and> checkpoint c' = ''half''"
proof -
  have "snd (claim ''b'' ''T'' (plain_request [''src'']) 60 demo) = Inr (Claimed ''T'' ''b'')" by code_simp
  moreover have "py_strip ''T'' = ''T''" by code_simp
  ultimately show ?thesis
    using claim_inherits_checkpoint [OF reachable_demo, of "''T''" claim_T 60 "''b''" "plain_request [''src'']"]
      demo_T by (auto simp: claim_T_def)
qed

section \<open>Quota\<close>

text \<open>
  The quota holds in every reachable state: no paying principal (the recorded quota principal
  of a claim, or its owner where none is recorded) has more live claims charged to it than the
  configured maximum, across claims, renewals, handoffs and expiry.
\<close>

theorem quota_respected:
  assumes "reachable s"
  shows "claims_owned_by prin s \<le> max_claims_per_agent s"
  using registry_okD(3) [OF registry_ok_reachable [OF assms], of prin]
  by (simp add: claims_owned_by_holdings abs_registry_def)

theorem quota_respected_witness: "claims_owned_by ''a'' demo \<le> 2"
  using quota_respected [OF reachable_demo, of "''a''"] by (simp add: demo_fields)

text \<open>
  The quota counts what a principal is charged for, not what an agent owns: a handoff keeps
  charging the sender, so with a maximum of one claim per agent an agent can come to own two.
  The comment at the handoff guard promises that the recipient does not grow past the maximum.
\<close>

theorem handoff_exceeds_owner_maximum:
  "let s = fold run_op
       [Claim ''a'' ''T'' (plain_request [''src'']) 0, Claim ''b'' ''U'' (plain_request [''docs'']) 0,
        Handoff ''a'' ''T'' ''c'' None None 1, Handoff ''b'' ''U'' ''c'' None None 1] (small_hub 1)
   in max_claims_per_agent s = 1 \<and> map (\<lambda>(k, c). (k, owner c)) (claims s) = [(''T'', ''c''), (''U'', ''c'')]"
  by code_simp

section \<open>Fencing by epoch\<close>

text \<open>
  C39: An epoch names one uninterrupted ownership.  If a claim found now and a claim found after
  any further calls have the same epoch, they are for the same task, the same owner and the
  same scope, and the version has not gone back: an epoch is never given out twice, not after
  release, expiry, handoff or re-claim.
\<close>

theorem epoch_identifies_ownership:
  assumes "reachable s" and "state_steps s s'"
    and "dget (claims s) k = Some c" and "dget (claims s') k' = Some c'" and "epoch c' = epoch c"
  shows "k' = k \<and> owner c' = owner c \<and> worktree c' = worktree c \<and> paths c' = paths c
    \<and> path_identity c' = path_identity c \<and> version c \<le> version c'"
  using same_epoch_continues [OF registry_inv_reachable [OF assms(1)] assms(2-5)] by (simp add: continues_def)

theorem epoch_identifies_ownership_witness:
  "let s' = run_op (Release ''a'' ''T'' None 2) (run_op (Claim ''b'' ''V'' (plain_request [''lib'']) 2) demo)
   in \<exists>c'. dget (claims s') ''V'' = Some c' \<and> epoch c' \<noteq> epoch claim_T"
proof -
  let ?s' = "run_op (Release ''a'' ''T'' None 2) (run_op (Claim ''b'' ''V'' (plain_request [''lib'']) 2) demo)"
  have "state_steps demo ?s'" by (intro state_steps.intros)
  moreover have "dget (claims ?s') ''V'' \<noteq> None" by code_simp
  ultimately show ?thesis
    using epoch_identifies_ownership [OF reachable_demo _ demo_T, of ?s' "''V''"] by (auto simp: Let_def)
qed

definition refused :: "synapse_state \<times> reply \<Rightarrow> bool" where
  "refused r \<longleftrightarrow> (case snd r of Inl _ \<Rightarrow> True | Inr _ \<Rightarrow> False)"

lemma refused_simps [simp]: "refused (s, Inl m)" "\<not> refused (s, Inr m)"
  by (simp_all add: refused_def)

lemma dget_heartbeat_claim:
  "wf_state s \<Longrightarrow> dget (claims (heartbeat agent ts s)) k = Some c \<Longrightarrow> dget (claims s) k = Some c"
  by (rule dget_claims_heartbeat(1))

text \<open>
  A stale holder is fenced off.  Whoever presents the epoch of a claim seen earlier, after
  that claim has ended (released, expired, handed off or re-claimed, so that no live claim of the
  task has that epoch), is refused by update, checkpoint, release and handoff, whatever else has
  happened since.
\<close>

theorem stale_epoch_refused:
  assumes "reachable s" and "state_steps s s'"
    and "dget (claims s) (py_strip task) = Some c"
    and "\<nexists>c'. dget (claims s') (py_strip task) = Some c' \<and> epoch c' = epoch c"
  shows "refused (update_task agent (py_strip task) st n d (Some (epoch c)) v ts s')
    \<and> refused (save_checkpoint agent task cp (Some (epoch c)) ts s')
    \<and> refused (release agent task (Some (epoch c)) ts s')
    \<and> refused (handoff agent task to n (Some (epoch c)) ts s')"
proof -
  have wf: "wf_state s'" by (rule wf_steps [OF assms(2) wf_reachable [OF assms(1)]])
  note live = dget_heartbeat_claim [OF wf, of agent ts]
  have "refused (update_task agent (py_strip task) st n d (Some (epoch c)) v ts s')"
    by (cases rule: update_task_cases [of agent "py_strip task" st n d "Some (epoch c)" v ts s'])
      (use assms(4) live in auto)
  moreover have "refused (save_checkpoint agent task cp (Some (epoch c)) ts s')"
    by (cases rule: save_checkpoint_cases [of agent task cp "Some (epoch c)" ts s']) (use assms(4) live in auto)
  moreover have "refused (release agent task (Some (epoch c)) ts s')"
    by (cases rule: release_cases [of agent task "Some (epoch c)" ts s']) (use assms(4) live in auto)
  moreover have "refused (handoff agent task to n (Some (epoch c)) ts s')"
    by (cases rule: handoff_cases [of agent task to n "Some (epoch c)" ts s']) (use assms(4) live in auto)
  ultimately show ?thesis by blast
qed

theorem stale_epoch_refused_witness:
  "refused (release ''a'' ''T'' (Some 1) 3 (run_op (Handoff ''a'' ''T'' ''c'' None None 2) demo))"
proof -
  let ?s' = "run_op (Handoff ''a'' ''T'' ''c'' None None 2) demo"
  have T: "py_strip ''T'' = ''T''" by code_simp
  have "map_option epoch (dget (claims ?s') ''T'') = Some 3" by code_simp
  then have "\<nexists>c'. dget (claims ?s') (py_strip ''T'') = Some c' \<and> epoch c' = epoch claim_T"
    unfolding T by (auto simp: claim_T_def)
  moreover have "state_steps demo ?s'" by (intro state_steps.intros)
  moreover have "dget (claims demo) (py_strip ''T'') = Some claim_T" unfolding T by (rule demo_T)
  ultimately show ?thesis
    using stale_epoch_refused [OF reachable_demo, of ?s' "''T''" claim_T "''a''"] by (simp add: claim_T_def)
qed

section \<open>The task lifecycle\<close>

text \<open>
  Status moves only along the lifecycle table.  Every claim of a reachable state has one of
  the five statuses; a status seen later under the same epoch is reached by legal transitions
  from the one seen now; and a terminal status stays what it is until the ownership ends.
\<close>

theorem status_follows_lifecycle:
  assumes "reachable s" and "state_steps s s'"
    and "dget (claims s) k = Some c" and "dget (claims s') k = Some c'" and "epoch c' = epoch c"
  shows "is_known (status c) \<and> status_step\<^sup>*\<^sup>* (status c) (status c')
    \<and> (is_terminal (status c) \<longrightarrow> status c' = status c)"
proof -
  have "is_known (status c)"
    using registry_okD(5) [OF registry_ok_reachable [OF assms(1)]] assms(3) by (simp add: abs_registry_def)
  moreover have "status_step\<^sup>*\<^sup>* (status c) (status c')"
    using same_epoch_continues [OF registry_inv_reachable [OF assms(1)] assms(2-5)] by (simp add: continues_def)
  ultimately show ?thesis using status_steps_terminal by blast
qed

theorem status_follows_lifecycle_witness:
  "let s' = run_op (Update ''a'' ''T'' (Some ''working'') None None None None 2) demo
   in \<exists>c'. dget (claims s') ''T'' = Some c' \<and> status c' = ''working'' \<and> status_step\<^sup>*\<^sup>* (status claim_T) (status c')"
proof -
  let ?s' = "run_op (Update ''a'' ''T'' (Some ''working'') None None None None 2) demo"
  have "state_steps demo ?s'" by (intro state_steps.intros)
  moreover have "map_option (\<lambda>c. (status c, epoch c)) (dget (claims ?s') ''T'') = Some (''working'', 1)"
    by code_simp
  ultimately show ?thesis
    using status_follows_lifecycle [OF reachable_demo _ demo_T, of ?s'] by (auto simp: Let_def claim_T_def)
qed

section \<open>Handoff\<close>

text \<open>
  A handoff moves a live claim in one step: afterwards the recipient owns the task with a
  fresh epoch, a new ownership, version 0 and a full default lease; scope, status, artefact
  reference, checkpoint and git context are unchanged, the charge stays with the principal that
  paid, and no other live claim is touched.
\<close>

theorem handoff_moves_claim:
  assumes "reachable s" and "snd (handoff agent task' to n ep ts s) = Inr m"
  shows "\<exists>c c'. dget (live_claims ts (claims s)) (py_strip task') = Some c \<and> owner c = agent
    \<and> dget (claims (fst (handoff agent task' to n ep ts s))) (py_strip task') = Some c'
    \<and> owner c' = py_strip to \<and> epoch c' = epoch_seq s + 1 \<and> ownership_epoch c' = epoch c' \<and> version c' = 0
    \<and> lease_expires_at c' = ts + default_ttl_seconds s
    \<and> (worktree c', paths c', path_identity c') = (worktree c, paths c, path_identity c)
    \<and> (status c', data_ref c', checkpoint c', git c') = (status c, data_ref c, checkpoint c, git c)
    \<and> quota_principal c' = quota_bucket c
    \<and> (\<forall>k. k = py_strip task' \<or>
         dget (claims (fst (handoff agent task' to n ep ts s))) k = dget (live_claims ts (claims s)) k)"
proof (cases rule: handoff_cases [of agent task' to n ep ts s])
  case (granted h task target c moved)
  have "claims h = live_claims ts (claims s)"
    unfolding granted(1) by (rule claims_heartbeat [OF wf_reachable [OF assms(1)]])
  moreover have "epoch_seq h = epoch_seq s" "default_ttl_seconds h = default_ttl_seconds s"
    by (simp_all add: granted(1) frame_simps)
  ultimately show ?thesis
    using granted(6,8) unfolding granted(2,4) [symmetric] granted(15)
    by - (rule exI [of _ c], rule exI [of _ moved], simp add: granted(14) quota_bucket_def)
qed (use assms(2) in simp_all)

theorem handoff_moves_claim_witness:
  "\<exists>c'. dget (claims (fst (handoff ''a'' ''T'' ''c'' None (Some 1) 2 demo))) ''T'' = Some c'
     \<and> owner c' = ''c'' \<and> checkpoint c' = ''half'' \<and> quota_principal c' = ''a''"
proof -
  have T: "py_strip ''T'' = ''T''" "py_strip ''c'' = ''c''" by code_simp+
  have "snd (handoff ''a'' ''T'' ''c'' None (Some 1) 2 demo) = Inr (Handed ''T'' ''a'' ''c'')" by code_simp
  from handoff_moves_claim [OF reachable_demo this] show ?thesis
    unfolding T by (auto simp: demo_claims live_claims_def claim_T_def quota_bucket_def)
qed

section \<open>The refinement\<close>

text \<open>
  C37: Every call of every operation, with any arguments, is a sequence of steps of the abstract
  registry machine of \<open>Registry_Spec\<close> (drop claims, touch one in place, store a fresh one that is
  admissible), whose invariant is exclusion, quota and unique epochs.
\<close>

theorem calls_refine_registry:
  assumes "reachable s"
  shows "(registry_step (max_claims_per_agent s))\<^sup>*\<^sup>* (abs_registry s) (abs_registry (run_op op s))"
  by (rule registry_inv_refines [OF registry_inv_reachable [OF assms]])

theorem calls_refine_registry_witness:
  "(registry_step 2)\<^sup>*\<^sup>* (abs_registry demo) (abs_registry (run_op (ForceRelease ''T'' ''root'') demo))"
  using calls_refine_registry [OF reachable_demo, of "ForceRelease ''T'' ''root''"] by (simp add: demo_fields)

end
