(* ===== verification/Deadlock.thy ===== *)
theory Deadlock
  imports Graph_Walk State_Properties
begin

text \<open>
  The wait-for graph of \<open>core/deadlock.py\<close> and the wait verb of \<open>core/handlers/leasing.py\<close>
  (\<open>handle_wait_request\<close>, \<open>_clear_satisfied_wait\<close>) with the hub's \<open>_drop_waits\<close>.  A wait is an
  edge from an agent to a task; the agent graph is resolved through the current claims each
  time.  A Python \<open>set\<close> of task ids is a list; no result depends on its order.
\<close>

section \<open>The graph\<close>

type_synonym wait_graph = "(string, string list) pydict"

definition live_owners :: "claim_dict \<Rightarrow> string list \<Rightarrow> string list" where
  "live_owners cs tasks =
     filter (\<lambda>ow. ow \<noteq> []) (List.map_filter (\<lambda>t. map_option owner (dget cs t)) tasks)"

definition resolve_wait_edges :: "wait_graph \<Rightarrow> claim_dict \<Rightarrow> (string, string list) pydict" where
  "resolve_wait_edges waits cs =
     filter (\<lambda>(waiter, owners). owners \<noteq> []) (map (\<lambda>(waiter, tasks). (waiter, live_owners cs tasks)) waits)"

definition prune_waits :: "wait_graph \<Rightarrow> claim_dict \<Rightarrow> wait_graph" where
  "prune_waits waits cs =
     filter (\<lambda>(waiter, live). live \<noteq> [])
       (map (\<lambda>(waiter, tasks). (waiter, filter (\<lambda>t. dget cs t \<noteq> None) tasks)) waits)"

definition would_create_cycle :: "wait_graph \<Rightarrow> claim_dict \<Rightarrow> string \<Rightarrow> string \<Rightarrow> bool" where
  "would_create_cycle waits cs waiter holder =
     (if waiter = holder then True
      else dfs_reaches (resolve_wait_edges waits cs) waiter [holder] [])"

section \<open>The verb\<close>

datatype wait_reply =
    NothingToWaitFor string
  | YouAlreadyHold string
  | WouldDeadlock string string
  | WaitGranted string string

text \<open>\<open>hub.waits.setdefault(sender, set()).add(task_id)\<close>\<close>

definition add_wait :: "wait_graph \<Rightarrow> string \<Rightarrow> string \<Rightarrow> wait_graph" where
  "add_wait waits sender task =
     (let old = (case dget waits sender of Some ts \<Rightarrow> ts | None \<Rightarrow> [])
      in dset sender (if task \<in> set old then old else old @ [task]) waits)"

text \<open>
  \<open>raw\<close> is \<open>str(data.get("task_id") or data.get("payload") or "")\<close>.  The claims are read as
  they are: the verb does not sweep lapsed leases.
\<close>

definition handle_wait_request ::
  "wait_graph \<Rightarrow> claim_dict \<Rightarrow> string \<Rightarrow> string \<Rightarrow> wait_graph \<times> wait_reply" where
  "handle_wait_request waits cs sender raw =
     (let task = py_strip raw
      in case dget cs task of
           None \<Rightarrow> (waits, NothingToWaitFor task)
         | Some c \<Rightarrow>
             (if owner c = sender then (waits, YouAlreadyHold task)
              else if would_create_cycle waits cs sender (owner c) then (waits, WouldDeadlock task (owner c))
              else (add_wait waits sender task, WaitGranted task (owner c))))"

definition clear_satisfied_wait :: "wait_graph \<Rightarrow> string \<Rightarrow> string \<Rightarrow> wait_graph" where
  "clear_satisfied_wait waits claimant task =
     (case dget waits claimant of
        None \<Rightarrow> waits
      | Some waited \<Rightarrow>
          (let rest = removeAll task waited
           in if rest = [] then ddel claimant waits else dset claimant rest waits))"

definition drop_waits :: "wait_graph \<Rightarrow> string \<Rightarrow> wait_graph" where
  "drop_waits waits agent = ddel agent waits"

section \<open>What the graph means\<close>

definition waiting_for :: "wait_graph \<Rightarrow> string \<Rightarrow> string set" where
  "waiting_for waits a = (case dget waits a of Some ts \<Rightarrow> set ts | None \<Rightarrow> {})"

definition wait_edges :: "wait_graph \<Rightarrow> claim_dict \<Rightarrow> (string \<times> string) set" where
  "wait_edges waits cs =
     {(a, owner c) | a c. \<exists>t \<in> waiting_for waits a. dget cs t = Some c \<and> owner c \<noteq> []}"

lemma wait_edges_iff:
  "(a, b) \<in> wait_edges waits cs \<longleftrightarrow>
     (\<exists>t \<in> waiting_for waits a. \<exists>c. dget cs t = Some c \<and> owner c = b \<and> b \<noteq> [])"
  by (auto simp: wait_edges_def)

lemma set_live_owners: "set (live_owners cs ts) = {ow. ow \<noteq> [] \<and> (\<exists>t \<in> set ts. \<exists>c. dget cs t = Some c \<and> owner c = ow)}"
  by (auto simp: live_owners_def List.map_filter_def image_iff) blast+

lemma dget_map_snd: "dget (map (\<lambda>(k, v). (k, f v)) d) k = map_option f (dget d k)"
  by (induction d) auto

lemma dict_ok_map_snd: "dict_ok d \<Longrightarrow> dict_ok (map (\<lambda>(k, v). (k, f v)) d)"
  by (simp add: dict_ok_def comp_def case_prod_unfold)

lemma set_succs_resolved:
  assumes "dict_ok waits"
  shows "set (succs (resolve_wait_edges waits cs) a) =
    {ow. ow \<noteq> [] \<and> (\<exists>t \<in> waiting_for waits a. \<exists>c. dget cs t = Some c \<and> owner c = ow)}"
proof (cases "dget waits a")
  case None
  then show ?thesis
    by (simp add: succs_def resolve_wait_edges_def dget_filter [OF dict_ok_map_snd [OF assms]] dget_map_snd
        waiting_for_def)
next
  case (Some ts)
  then have "set (succs (resolve_wait_edges waits cs) a) = set (live_owners cs ts)"
    by (simp add: succs_def resolve_wait_edges_def dget_filter [OF dict_ok_map_snd [OF assms]] dget_map_snd)
  with Some show ?thesis by (simp add: set_live_owners waiting_for_def)
qed

lemma resolved_edges:
  assumes "dict_ok waits"
  shows "graph_edges (resolve_wait_edges waits cs) = wait_edges waits cs"
proof -
  have "(a, b) \<in> graph_edges (resolve_wait_edges waits cs) \<longleftrightarrow> (a, b) \<in> wait_edges waits cs" for a b
    by (auto simp: graph_edges_iff set_succs_resolved [OF assms] wait_edges_iff)
  then show ?thesis by auto
qed

lemma would_create_cycle_reaches:
  assumes "dict_ok waits"
  shows "would_create_cycle waits cs waiter holder \<longleftrightarrow> (holder, waiter) \<in> (wait_edges waits cs)\<^sup>*"
  by (simp add: would_create_cycle_def dfs_reaches_iff resolved_edges [OF assms])

lemma dict_ok_add_wait [simp]: "dict_ok waits \<Longrightarrow> dict_ok (add_wait waits a t)"
  by (simp add: add_wait_def Let_def)

lemma waiting_for_add: "waiting_for (add_wait waits a t) b = waiting_for waits b \<union> (if b = a then {t} else {})"
  by (auto simp: waiting_for_def add_wait_def Let_def split: option.splits)

section \<open>The guard as an instance of the cycle contract\<close>

text \<open>A wait state is a graph with distinct waiters over given claims; a link is a task.\<close>

definition guard_edges :: "wait_graph \<times> claim_dict \<Rightarrow> (string \<times> string) set" where
  "guard_edges = (\<lambda>(waits, cs). if dict_ok waits then wait_edges waits cs else {})"

definition guard_targets :: "wait_graph \<times> claim_dict \<Rightarrow> string \<Rightarrow> string set" where
  "guard_targets = (\<lambda>(waits, cs) t. if dict_ok waits then owner ` Option.set_option (dget cs t) else {})"

definition guard_refuses :: "wait_graph \<times> claim_dict \<Rightarrow> string \<Rightarrow> string \<Rightarrow> bool" where
  "guard_refuses = (\<lambda>(waits, cs) a t. dict_ok waits \<and>
     (case dget cs t of None \<Rightarrow> False | Some c \<Rightarrow> would_create_cycle waits cs a (owner c)))"

definition guard_link :: "wait_graph \<times> claim_dict \<Rightarrow> string \<Rightarrow> string \<Rightarrow> wait_graph \<times> claim_dict" where
  "guard_link = (\<lambda>(waits, cs) a t. (add_wait waits a t, cs))"

lemma dict_ok_dset_iff: "dict_ok (dset k v d) = dict_ok d"
  by (induction d) (auto simp: dict_ok_def dom_update image_iff)

interpretation wait_guard: cycle_guard guard_edges guard_targets guard_refuses guard_link
proof
  fix s :: "wait_graph \<times> claim_dict" and n l
  obtain waits cs where s: "s = (waits, cs)" by fastforce
  show "guard_refuses s n l = (\<exists>d \<in> guard_targets s l. (d, n) \<in> (guard_edges s)\<^sup>*)"
    by (auto simp: s guard_refuses_def guard_targets_def guard_edges_def would_create_cycle_reaches
        split: option.splits)
  have "wait_edges (add_wait waits n l) cs \<subseteq> wait_edges waits cs \<union> {n} \<times> owner ` Option.set_option (dget cs l)"
    unfolding wait_edges_def waiting_for_add by auto
  moreover have "dict_ok (add_wait waits n l) = dict_ok waits"
    by (simp add: add_wait_def Let_def dict_ok_dset_iff)
  ultimately show "guard_edges (guard_link s n l) \<subseteq> guard_edges s \<union> {n} \<times> guard_targets s l"
    by (simp add: s guard_edges_def guard_link_def guard_targets_def)
qed

lemma wait_request_acyclic:
  assumes "dict_ok waits" and "acyclic (wait_edges waits cs)"
  shows "acyclic (wait_edges (fst (handle_wait_request waits cs sender raw)) cs)"
proof -
  let ?task = "py_strip raw"
  have "acyclic (wait_edges (add_wait waits sender ?task) cs)"
    if "dget cs ?task = Some c" "\<not> would_create_cycle waits cs sender (owner c)" for c
    using wait_guard.link_acyclic [of "(waits, cs)" sender ?task] that assms
    by (simp add: guard_edges_def guard_refuses_def guard_link_def)
  then show ?thesis
    using assms(2) by (simp add: handle_wait_request_def Let_def split: option.split)
qed

text \<open>Everything else that touches the graph only takes edges away.\<close>

lemma waiting_for_clear:
  "waiting_for (clear_satisfied_wait waits a t) b = (if b = a then waiting_for waits b - {t} else waiting_for waits b)"
  by (auto simp: waiting_for_def clear_satisfied_wait_def Let_def filter_empty_conv removeAll_filter_not_eq
      split: option.splits if_splits)

lemma waiting_for_prune:
  assumes "dict_ok waits"
  shows "waiting_for (prune_waits waits cs) a = {t \<in> waiting_for waits a. dget cs t \<noteq> None}"
  unfolding waiting_for_def prune_waits_def
  by (auto simp: dget_filter [OF dict_ok_map_snd [OF assms]] dget_map_snd filter_empty_conv split: option.splits)

lemma prune_keeps_edges: "dict_ok waits \<Longrightarrow> wait_edges (prune_waits waits cs) cs = wait_edges waits cs"
  by (auto simp: wait_edges_iff waiting_for_prune) blast+

lemma shrinking_waits_acyclic:
  assumes "acyclic (wait_edges waits cs)" and "\<And>a. waiting_for waits' a \<subseteq> waiting_for waits a"
  shows "acyclic (wait_edges waits' cs)"
  by (rule acyclic_subset [OF assms(1)]) (use assms(2) in \<open>auto simp: wait_edges_iff, blast\<close>)

lemma released_claims_acyclic:
  assumes "acyclic (wait_edges waits cs)" and "\<And>k c. dget cs' k = Some c \<Longrightarrow> dget cs k = Some c"
  shows "acyclic (wait_edges waits cs')"
  by (rule acyclic_subset [OF assms(1)]) (use assms(2) in \<open>fastforce simp: wait_edges_iff\<close>)

section \<open>Properties\<close>

text \<open>
  \<open>would_create_cycle\<close> always returns, and answers exactly whether the holder already waits,
  directly or through others, for the waiter over the claims as they are now (a self-wait
  included).
\<close>

theorem would_create_cycle_exact:
  assumes "dict_ok waits"
  shows "would_create_cycle waits cs waiter holder \<longleftrightarrow> (holder, waiter) \<in> (wait_edges waits cs)\<^sup>*"
  by (rule would_create_cycle_reaches [OF assms])

theorem would_create_cycle_exact_witness:
  "(''b'', ''a'') \<in> (wait_edges [(''b'', [''T''])] [(''T'', claim_T)])\<^sup>*"
proof -
  have "would_create_cycle [(''b'', [''T''])] [(''T'', claim_T)] ''a'' ''b''" by code_simp
  then show ?thesis
    using would_create_cycle_exact [of "[(''b'', [''T''])]" "[(''T'', claim_T)]" "''a''" "''b''"]
    by (simp add: dict_ok_def)
qed

text \<open>
  C25: A granted wait never closes a cycle: if no agents wait for each other in a circle before a
  wait request, none do after it, whatever the request; and a request is refused as a deadlock
  only if granting it would close one.
\<close>

theorem wait_request_no_deadlock:
  assumes "dict_ok waits" and "acyclic (wait_edges waits cs)"
  shows "acyclic (wait_edges (fst (handle_wait_request waits cs sender raw)) cs)
    \<and> (\<forall>t h. snd (handle_wait_request waits cs sender raw) = WouldDeadlock t h \<longrightarrow>
         \<not> acyclic (wait_edges waits cs \<union> {(sender, h)}))"
proof (intro conjI allI impI)
  show "acyclic (wait_edges (fst (handle_wait_request waits cs sender raw)) cs)"
    by (rule wait_request_acyclic [OF assms])
next
  fix t h
  assume "snd (handle_wait_request waits cs sender raw) = WouldDeadlock t h"
  then obtain c where c: "dget cs t = Some c" "owner c = h" "would_create_cycle waits cs sender h"
    by (auto simp: handle_wait_request_def Let_def split: option.splits if_splits)
  then show "\<not> acyclic (wait_edges waits cs \<union> {(sender, h)})"
    using wait_guard.refused_would_close [of "(waits, cs)" sender t] assms(1)
    by (simp add: guard_refuses_def guard_edges_def guard_targets_def)
qed

theorem wait_request_no_deadlock_witness:
  "acyclic (wait_edges (fst (handle_wait_request [] [(''T'', claim_T)] ''b'' ''T'')) [(''T'', claim_T)])"
proof -
  have "acyclic (wait_edges [] [(''T'', claim_T)])"
    by (simp add: wait_edges_def waiting_for_def acyclic_def)
  then show ?thesis using wait_request_no_deadlock [of "[]" "[(''T'', claim_T)]" "''b''" "''T''"] by simp
qed

text \<open>
  The guard looks at wait requests only.  A handoff can turn waits that were granted into a
  circle: \<open>a\<close> waits for a task of \<open>b\<close>, \<open>b\<close> waits for a task of \<open>c\<close>, and when \<open>c\<close> hands that
  task to \<open>a\<close>, \<open>a\<close> and \<open>b\<close> wait for each other and no verb has refused anything.
\<close>

theorem handoff_can_close_wait_cycle:
  "let s = fold run_op [Claim ''b'' ''T'' (plain_request [''src'']) 0,
                        Claim ''c'' ''U'' (plain_request [''docs'']) 0] (small_hub 4);
       (w1, r1) = handle_wait_request [] (claims s) ''a'' ''T'';
       (w2, r2) = handle_wait_request w1 (claims s) ''b'' ''U'';
       (s', r3) = handoff ''c'' ''U'' ''a'' None None 1 s
   in r1 = WaitGranted ''T'' ''b'' \<and> r2 = WaitGranted ''U'' ''c'' \<and> r3 = Inr (Handed ''U'' ''c'' ''a'')
      \<and> {(''a'', ''b''), (''b'', ''a'')} \<subseteq> wait_edges w2 (claims s')"
proof -
  let ?s = "fold run_op [Claim ''b'' ''T'' (plain_request [''src'']) 0,
      Claim ''c'' ''U'' (plain_request [''docs'']) 0] (small_hub 4)"
  let ?w1 = "fst (handle_wait_request [] (claims ?s) ''a'' ''T'')"
  let ?w2 = "fst (handle_wait_request ?w1 (claims ?s) ''b'' ''U'')"
  let ?s' = "fst (handoff ''c'' ''U'' ''a'' None None 1 ?s)"
  have replies: "snd (handle_wait_request [] (claims ?s) ''a'' ''T'') = WaitGranted ''T'' ''b''"
    "snd (handle_wait_request ?w1 (claims ?s) ''b'' ''U'') = WaitGranted ''U'' ''c''"
    "snd (handoff ''c'' ''U'' ''a'' None None 1 ?s) = Inr (Handed ''U'' ''c'' ''a'')"
    by code_simp+
  have w2: "?w2 = [(''a'', [''T'']), (''b'', [''U''])]" by code_simp
  have "map_option owner (dget (claims ?s') ''T'') = Some ''b''"
    "map_option owner (dget (claims ?s') ''U'') = Some ''a''" by code_simp+
  then have "{(''a'', ''b''), (''b'', ''a'')} \<subseteq> wait_edges ?w2 (claims ?s')"
    unfolding w2 by (auto simp: wait_edges_iff waiting_for_def)
  with replies show ?thesis by (simp only: Let_def split_beta fst_conv snd_conv simp_thms)
qed

end
