(* ===== verification/Ledger.thy ===== *)
theory Ledger
  imports Graph_Walk Json
begin

text \<open>
  The shared plan of \<open>core/ledger.py\<close>: the task ledger with its dependency graph and versions,
  and the bounded progress stream.  A method of \<open>Blackboard\<close> is a function from the board (and
  the resolved time stamp) to the new board and its reply.
\<close>

section \<open>Data\<close>

definition LEDGER_TASK_STATUSES :: "string list" where
  "LEDGER_TASK_STATUSES = [''open'', ''in_progress'', ''blocked'', ''done'', ''cancelled'']"

definition TERMINAL_LEDGER_STATUSES :: "string list" where
  "TERMINAL_LEDGER_STATUSES = [''done'', ''cancelled'']"

definition PROGRESS_KINDS :: "string list" where
  "PROGRESS_KINDS =
     [''note'', ''blocked'', ''assessment'', ''usage'', ''approval'', ''evidence'', ''verdict'', ''correction'']"

record ledger_task =
  lt_task_id :: string
  lt_title :: string
  lt_created_at :: time
  lt_updated_at :: time
  lt_description :: string
  lt_depends_on :: "string list"
  lt_status :: string
  lt_suggested_owner :: string
  lt_project :: string
  lt_version :: int
  lt_created_by :: string

definition ledger_task_as_dict :: "ledger_task \<Rightarrow> json_object" where
  "ledger_task_as_dict t =
     [(''task_id'', JString (lt_task_id t)), (''title'', JString (lt_title t)),
      (''description'', JString (lt_description t)),
      (''depends_on'', JList (map JString (lt_depends_on t))),
      (''status'', JString (lt_status t)), (''suggested_owner'', JString (lt_suggested_owner t)),
      (''project'', JString (lt_project t)), (''version'', JInt (lt_version t)),
      (''created_by'', JString (lt_created_by t)),
      (''created_at'', JFloat (Finite (lt_created_at t))),
      (''updated_at'', JFloat (Finite (lt_updated_at t)))]"

record progress_note =
  pn_task_id :: string
  pn_author :: string
  pn_kind :: string
  pn_text :: string
  pn_posted_at :: time

definition progress_note_as_dict :: "progress_note \<Rightarrow> json_object" where
  "progress_note_as_dict n =
     [(''task_id'', JString (pn_task_id n)), (''author'', JString (pn_author n)),
      (''kind'', JString (pn_kind n)), (''text'', JString (pn_text n)),
      (''posted_at'', JFloat (Finite (pn_posted_at n)))]"

record blackboard =
  board_tasks :: "(string, ledger_task) pydict"
  progress :: "progress_note list"
  max_progress :: int
  max_progress_per_author :: int
  max_progress_per_task :: int

definition init_board :: "int \<Rightarrow> int \<Rightarrow> int \<Rightarrow> blackboard" where
  "init_board a b c =
     \<lparr>board_tasks = [], progress = [], max_progress = max a 1, max_progress_per_author = max b 1,
      max_progress_per_task = max c 1\<rparr>"

datatype ledger_msg =
    LedgerTaskIdRequired
  | TitleRequired
  | DependencyCycle string
  | LedgerVersionConflict string int int
  | ProjectConflict string string string
  | Declared string string
  | Redeclared string string
  | NotOnBoard string
  | UnknownStatus string
  | PlanUpdated string

section \<open>Declaring and updating tasks\<close>

definition clean_depends_on :: "string \<Rightarrow> string list \<Rightarrow> string list" where
  "clean_depends_on task_id depends_on =
     foldl (\<lambda>seen raw.
         let dep = py_strip raw
         in if dep \<noteq> [] \<and> dep \<noteq> task_id \<and> dep \<notin> set seen then seen @ [dep] else seen)
       [] depends_on"

definition dependency_graph :: "(string, ledger_task) pydict \<Rightarrow> (string, string list) pydict" where
  "dependency_graph ts = map (\<lambda>(k, t). (k, lt_depends_on t)) ts"

text \<open>\<open>stack = list(depends_on)\<close>: the last dependency is on top.\<close>

definition would_cycle :: "string \<Rightarrow> string list \<Rightarrow> blackboard \<Rightarrow> bool" where
  "would_cycle task_id depends_on b =
     dfs_reaches (dependency_graph (board_tasks b)) task_id (rev depends_on) []"

record task_post =
  post_task_id :: string
  post_title :: string
  post_author :: string
  post_description :: string
  post_depends_on :: "string list"
  post_suggested_owner :: string
  post_project :: string
  post_expected_version :: "int option"

text \<open>The task that a declaration creates, or makes of the declared one.\<close>

definition posted_task ::
  "task_post \<Rightarrow> string \<Rightarrow> string \<Rightarrow> string list \<Rightarrow> string \<Rightarrow> time \<Rightarrow> ledger_task option \<Rightarrow> ledger_task" where
  "posted_task p tid name deps scope ts existing =
     (case existing of
        None \<Rightarrow>
          \<lparr>lt_task_id = tid, lt_title = name, lt_created_at = ts, lt_updated_at = ts,
           lt_description = py_strip (post_description p), lt_depends_on = deps, lt_status = ''open'',
           lt_suggested_owner = py_strip (post_suggested_owner p), lt_project = scope, lt_version = 1,
           lt_created_by = post_author p\<rparr>
      | Some t \<Rightarrow>
          t\<lparr>lt_title := name, lt_description := py_strip (post_description p), lt_depends_on := deps,
            lt_suggested_owner := py_strip (post_suggested_owner p),
            lt_project := (if scope \<noteq> [] then scope else lt_project t),
            lt_version := lt_version t + 1, lt_updated_at := ts\<rparr>)"

definition post_task :: "task_post \<Rightarrow> time \<Rightarrow> blackboard \<Rightarrow> blackboard \<times> (ledger_msg + ledger_msg)" where
  "post_task p ts b =
     (let tid = py_strip (post_task_id p); name = py_strip (post_title p)
      in if tid = [] then (b, Inl LedgerTaskIdRequired)
         else if name = [] then (b, Inl TitleRequired)
         else
           (let deps = clean_depends_on tid (post_depends_on p)
            in if would_cycle tid deps b then (b, Inl (DependencyCycle tid))
               else
                 (let scope = py_strip (post_project p);
                      existing = dget (board_tasks b) tid;
                      current = (case existing of Some t \<Rightarrow> lt_version t | None \<Rightarrow> 0)
                  in if post_expected_version p \<noteq> None \<and> post_expected_version p \<noteq> Some current
                     then (b, Inl (LedgerVersionConflict tid (the (post_expected_version p)) current))
                     else
                       (case existing of
                          None \<Rightarrow>
                            (b\<lparr>board_tasks := dset tid (posted_task p tid name deps scope ts None) (board_tasks b)\<rparr>,
                             Inr (Declared tid (post_author p)))
                        | Some t \<Rightarrow>
                            (if scope \<noteq> [] \<and> lt_project t \<noteq> [] \<and> scope \<noteq> lt_project t
                             then (b, Inl (ProjectConflict tid (lt_project t) scope))
                             else
                               (b\<lparr>board_tasks := dset tid (posted_task p tid name deps scope ts (Some t)) (board_tasks b)\<rparr>,
                                Inr (Redeclared tid (post_author p))))))))"

definition updated_plan_task ::
  "string option \<Rightarrow> string option \<Rightarrow> string option \<Rightarrow> time \<Rightarrow> ledger_task \<Rightarrow> ledger_task" where
  "updated_plan_task status suggested_owner project ts t =
     (let t1 = (case status of Some s \<Rightarrow> t\<lparr>lt_status := s\<rparr> | None \<Rightarrow> t);
          t2 = (case suggested_owner of Some ow \<Rightarrow> t1\<lparr>lt_suggested_owner := py_strip ow\<rparr> | None \<Rightarrow> t1);
          t3 = (case project of Some p \<Rightarrow> t2\<lparr>lt_project := py_strip p\<rparr> | None \<Rightarrow> t2)
      in t3\<lparr>lt_version := lt_version t3 + 1, lt_updated_at := ts\<rparr>)"

definition update_ledger_task ::
  "string \<Rightarrow> string option \<Rightarrow> string option \<Rightarrow> string option \<Rightarrow> int option \<Rightarrow> time \<Rightarrow> blackboard
   \<Rightarrow> blackboard \<times> (ledger_msg + ledger_msg)" where
  "update_ledger_task task_id status suggested_owner project expected_version ts b =
     (let tid = py_strip task_id
      in case dget (board_tasks b) tid of
           None \<Rightarrow> (b, Inl (NotOnBoard tid))
         | Some t \<Rightarrow>
             (if status \<noteq> None \<and> the status \<notin> set LEDGER_TASK_STATUSES
              then (b, Inl (UnknownStatus (the status)))
              else if expected_version \<noteq> None \<and> expected_version \<noteq> Some (lt_version t)
              then (b, Inl (LedgerVersionConflict tid (the expected_version) (lt_version t)))
              else
                (b\<lparr>board_tasks := dset tid (updated_plan_task status suggested_owner project ts t) (board_tasks b)\<rparr>,
                 Inr (PlanUpdated tid))))"

section \<open>The progress stream\<close>

text \<open>\<open>_drop_oldest_matching\<close> over the list of notes.\<close>

definition drop_oldest_matching :: "('n \<Rightarrow> bool) \<Rightarrow> int \<Rightarrow> 'n list \<Rightarrow> 'n list" where
  "drop_oldest_matching P max_count notes =
     (let matching_indexes = map fst (filter (\<lambda>(i, n). P n) (enumerate 0 notes));
          excess = int (length matching_indexes) - max_count
      in if excess \<le> 0 then notes
         else (let drop_indexes = take (nat excess) matching_indexes
               in map snd (filter (\<lambda>(i, n). i \<notin> set drop_indexes) (enumerate 0 notes))))"

definition append_note :: "progress_note \<Rightarrow> blackboard \<Rightarrow> blackboard" where
  "append_note n b =
     (let p1 = drop_oldest_matching (\<lambda>_. True) (max_progress b) (progress b @ [n]);
          p2 = drop_oldest_matching (\<lambda>m. pn_author m = pn_author n) (max_progress_per_author b) p1;
          p3 = drop_oldest_matching (\<lambda>m. pn_task_id m = pn_task_id n) (max_progress_per_task b) p2
      in b\<lparr>progress := p3\<rparr>)"

definition restore_progress :: "progress_note \<Rightarrow> blackboard \<Rightarrow> blackboard" where
  "restore_progress n b = append_note n b"

text \<open>\<open>post_progress\<close> returns the note, or \<open>None\<close> on an unknown kind.\<close>

definition post_progress ::
  "string \<Rightarrow> string \<Rightarrow> string \<Rightarrow> string \<Rightarrow> time \<Rightarrow> blackboard \<Rightarrow> blackboard \<times> progress_note option" where
  "post_progress task_id author txt kind ts b =
     (if kind \<notin> set PROGRESS_KINDS then (b, None)
      else (let n = \<lparr>pn_task_id = py_strip task_id, pn_author = author, pn_kind = kind,
                     pn_text = txt, pn_posted_at = ts\<rparr>
            in (append_note n b, Some n)))"

definition plain_note :: "string \<Rightarrow> string \<Rightarrow> string \<Rightarrow> time \<Rightarrow> blackboard \<Rightarrow> blackboard \<times> progress_note" where
  "plain_note task_id author txt ts b =
     (let n = \<lparr>pn_task_id = py_strip task_id, pn_author = author, pn_kind = ''note'',
               pn_text = txt, pn_posted_at = ts\<rparr>
      in (append_note n b, n))"

section \<open>Readiness and the snapshot\<close>

definition is_terminal_task :: "ledger_task \<Rightarrow> bool" where
  "is_terminal_task t \<longleftrightarrow> lt_status t \<in> set TERMINAL_LEDGER_STATUSES"

definition blocking_dependencies :: "string \<Rightarrow> blackboard \<Rightarrow> string list" where
  "blocking_dependencies task_id b =
     (case dget (board_tasks b) (py_strip task_id) of
        None \<Rightarrow> []
      | Some t \<Rightarrow>
          filter (\<lambda>dep. case dget (board_tasks b) dep of
                     None \<Rightarrow> True | Some other \<Rightarrow> \<not> is_terminal_task other) (lt_depends_on t))"

definition ready_tasks :: "blackboard \<Rightarrow> ledger_task list" where
  "ready_tasks b =
     sort_key lt_task_id
       (filter (\<lambda>t. lt_status t = ''open'' \<and> blocking_dependencies (lt_task_id t) b = [])
         (map snd (board_tasks b)))"

record board_snapshot =
  snap_tasks :: "json_object list"
  snap_ready :: "string list"
  snap_progress :: "json_object list"
  snap_total :: "(nat \<times> bool \<times> int) option"

text \<open>\<open>sorted(..., key=updated_at, reverse=True)\<close> is stable: equal keys keep their order.\<close>

definition newest_first :: "ledger_task list \<Rightarrow> ledger_task list" where
  "newest_first ts = sort_key (\<lambda>t. - lt_updated_at t) ts"

definition capped_tasks :: "int \<Rightarrow> ledger_task list \<Rightarrow> ledger_task list" where
  "capped_tasks cap ordered =
     (let live = filter (\<lambda>t. \<not> is_terminal_task t) ordered; terminal = filter is_terminal_task ordered
      in sort_key lt_task_id
           (if int (length live) \<ge> cap then take (nat cap) (newest_first live)
            else live @ take (nat (cap - int (length live))) (newest_first terminal)))"

definition board_snapshot :: "int option \<Rightarrow> blackboard \<Rightarrow> board_snapshot" where
  "board_snapshot task_cap b =
     (let ordered = sort_key lt_task_id (map snd (board_tasks b));
          ready = map lt_task_id (ready_tasks b);
          notes = map progress_note_as_dict (progress b)
      in case task_cap of
           None \<Rightarrow>
             \<lparr>snap_tasks = map ledger_task_as_dict ordered, snap_ready = ready, snap_progress = notes,
              snap_total = None\<rparr>
         | Some c \<Rightarrow>
             (let cap = max 1 c; kept = capped_tasks cap ordered
              in \<lparr>snap_tasks = map ledger_task_as_dict kept, snap_ready = ready, snap_progress = notes,
                  snap_total = Some (length ordered, length kept < length ordered, cap)\<rparr>))"

end
