(* ===== verification/Ledger_Properties.thy ===== *)
theory Ledger_Properties
  imports Ledger
begin

text \<open>
  What the plan keeps: tasks under their own ids, versions that only rise, dependencies without
  cycles (an instance of \<open>cycle_guard\<close>), a progress stream within its three bounds; and what
  follows for readiness.
\<close>

section \<open>The dependency graph\<close>

definition depends :: "blackboard \<Rightarrow> (string \<times> string) set" where
  "depends b = {(a, d). \<exists>t. dget (board_tasks b) a = Some t \<and> d \<in> set (lt_depends_on t)}"

lemma dependency_graph_edges: "graph_edges (dependency_graph (board_tasks b)) = depends b"
proof -
  have "dget (dependency_graph ts) k = map_option lt_depends_on (dget ts k)" for ts k
    unfolding dependency_graph_def by (induction ts) auto
  then have "(a, d) \<in> graph_edges (dependency_graph (board_tasks b)) \<longleftrightarrow> (a, d) \<in> depends b" for a d
    by (cases "dget (board_tasks b) a") (simp_all add: graph_edges_iff succs_def depends_def)
  then show ?thesis by auto
qed

lemma would_cycle_iff: "would_cycle tid deps b \<longleftrightarrow> (\<exists>d \<in> set deps. (d, tid) \<in> (depends b)\<^sup>*)"
  by (simp add: would_cycle_def dfs_reaches_iff dependency_graph_edges)

text \<open>Setting the dependencies of one task, as a re-declaration does.\<close>

definition declare_dependencies :: "blackboard \<Rightarrow> string \<Rightarrow> string list \<times> ledger_task \<Rightarrow> blackboard" where
  "declare_dependencies b tid = (\<lambda>(deps, t). b\<lparr>board_tasks := dset tid (t\<lparr>lt_depends_on := deps\<rparr>) (board_tasks b)\<rparr>)"

interpretation plan_guard: cycle_guard depends "\<lambda>b l. set (fst l)" "\<lambda>b tid l. would_cycle tid (fst l) b"
  declare_dependencies
proof
  show "would_cycle n (fst l) s = (\<exists>d \<in> set (fst l). (d, n) \<in> (depends s)\<^sup>*)" for s n and l :: "string list \<times> ledger_task"
    by (rule would_cycle_iff)
  show "depends (declare_dependencies s n l) \<subseteq> depends s \<union> {n} \<times> set (fst l)" for s n l
    by (auto simp: depends_def declare_dependencies_def split_beta split: if_splits)
qed

section \<open>Cleaning a dependency list\<close>

lemma clean_loop:
  fixes tid :: string
  defines "f \<equiv> \<lambda>seen raw. let dep = py_strip raw
         in if dep \<noteq> [] \<and> dep \<noteq> tid \<and> dep \<notin> set seen then seen @ [dep] else seen"
  shows "set (foldl f seen raws) = set seen \<union> (py_strip ` set raws - {[], tid})
    \<and> (distinct seen \<longrightarrow> distinct (foldl f seen raws))"
  by (induction raws arbitrary: seen) (auto simp: f_def Let_def)

lemma set_clean_depends_on: "set (clean_depends_on tid raws) = py_strip ` set raws - {[], tid}"
  and distinct_clean_depends_on: "distinct (clean_depends_on tid raws)"
  using clean_loop [of tid "[]" raws] by (simp_all add: clean_depends_on_def)

section \<open>The progress stream\<close>

text \<open>A recursive reading of \<open>drop_oldest_matching\<close>: drop the first \<open>k\<close> notes that match.\<close>

fun drop_first :: "nat \<Rightarrow> ('n \<Rightarrow> bool) \<Rightarrow> 'n list \<Rightarrow> 'n list" where
  "drop_first 0 P xs = xs"
| "drop_first (Suc k) P [] = []"
| "drop_first (Suc k) P (x # xs) = (if P x then drop_first k P xs else x # drop_first (Suc k) P xs)"

lemma drop_first_Nil [simp]: "drop_first k P [] = []"
  by (cases k) simp_all

lemma fst_enumerate_ge: "i \<in> set (map fst (filter Q (enumerate n xs))) \<Longrightarrow> n \<le> i"
  by (auto simp: in_set_enumerate_eq)

lemma keep_all: "\<forall>i \<in> set js. i < n \<Longrightarrow> map snd (filter (\<lambda>(i, x). i \<notin> set js) (enumerate n xs)) = xs"
  by (subst filter_True) (auto simp: in_set_enumerate_eq)

lemma keep_cong:
  "(\<And>i. n \<le> i \<Longrightarrow> i \<in> set js \<longleftrightarrow> i \<in> set ks) \<Longrightarrow>
   filter (\<lambda>(i, x). i \<notin> set js) (enumerate n xs) = filter (\<lambda>(i, x). i \<notin> set ks) (enumerate n xs)"
  by (rule filter_cong) (auto simp: in_set_enumerate_eq)

lemma drop_indexes_drop_first:
  "map snd (filter (\<lambda>(i, x). i \<notin> set (take k (map fst (filter (\<lambda>(i, x). P x) (enumerate n xs))))) (enumerate n xs))
   = drop_first k P xs"
proof (induction xs arbitrary: k n)
  case (Cons x xs)
  let ?js = "map fst (filter (\<lambda>(i, x). P x) (enumerate (Suc n) xs))"
  have later: "n \<notin> set (take j ?js)" for j
    using fst_enumerate_ge [of n "\<lambda>(i, x). P x" "Suc n" xs] by (meson Suc_n_not_le_n in_set_takeD)
  show ?case
  proof (cases k)
    case 0
    then show ?thesis using keep_all [of "[]" n "x # xs"] by simp
  next
    case (Suc j)
    show ?thesis
    proof (cases "P x")
      case True
      have "filter (\<lambda>(i, x). i \<notin> set (n # take j ?js)) (enumerate (Suc n) xs)
          = filter (\<lambda>(i, x). i \<notin> set (take j ?js)) (enumerate (Suc n) xs)"
        by (rule keep_cong) auto
      with True Suc Cons.IH [of j "Suc n"] show ?thesis by simp
    next
      case False
      with Suc Cons.IH [of k "Suc n"] later [of k] show ?thesis by simp
    qed
  qed
qed simp

lemma length_matching_indexes: "length (map fst (filter (\<lambda>(i, x). P x) (enumerate n xs))) = length (filter P xs)"
  by (induction xs arbitrary: n) auto

lemma drop_oldest_matching_first:
  "drop_oldest_matching P m xs = drop_first (nat (int (length (filter P xs)) - m)) P xs"
  using drop_indexes_drop_first [of _ P 0 xs]
  by (simp add: drop_oldest_matching_def Let_def length_matching_indexes [simplified])

lemma filter_drop_first_same: "filter P (drop_first k P xs) = drop k (filter P xs)"
  by (induction k P xs rule: drop_first.induct) auto

lemma length_filter_drop_first: "length (filter Q (drop_first k P xs)) \<le> length (filter Q xs)"
  by (induction k P xs rule: drop_first.induct) auto

lemma subseq_drop_first: "subseq (drop_first k P xs) xs"
  by (induction k P xs rule: drop_first.induct) auto

lemma drop_first_snoc:
  "k \<le> length (filter P xs) \<Longrightarrow> drop_first k P (xs @ [x]) = drop_first k P xs @ [x]"
  by (induction k P xs rule: drop_first.induct) auto

lemma drop_oldest_bound: "1 \<le> m \<Longrightarrow> int (length (filter P (drop_oldest_matching P m xs))) \<le> max m 1"
  by (simp add: drop_oldest_matching_first filter_drop_first_same)

lemma drop_oldest_count: "length (filter Q (drop_oldest_matching P m xs)) \<le> length (filter Q xs)"
  by (simp add: drop_oldest_matching_first length_filter_drop_first)

lemma drop_oldest_subseq: "subseq (drop_oldest_matching P m xs) xs"
  by (simp add: drop_oldest_matching_first subseq_drop_first)

lemma drop_oldest_snoc:
  assumes "1 \<le> m"
  shows "\<exists>ys. drop_oldest_matching P m (xs @ [x]) = ys @ [x]"
proof -
  have "nat (int (length (filter P (xs @ [x]))) - m) \<le> length (filter P xs)"
    using assms by auto
  from drop_first_snoc [OF this] show ?thesis by (auto simp: drop_oldest_matching_first)
qed

section \<open>Well-formed boards\<close>

definition notes_of :: "('v \<Rightarrow> string) \<Rightarrow> string \<Rightarrow> 'v list \<Rightarrow> int" where
  "notes_of f v ns = int (length (filter (\<lambda>n. f n = v) ns))"

definition progress_ok :: "blackboard \<Rightarrow> bool" where
  "progress_ok b \<longleftrightarrow>
     1 \<le> max_progress b \<and> 1 \<le> max_progress_per_author b \<and> 1 \<le> max_progress_per_task b
     \<and> int (length (progress b)) \<le> max_progress b
     \<and> (\<forall>a. notes_of pn_author a (progress b) \<le> max_progress_per_author b)
     \<and> (\<forall>t. notes_of pn_task_id t (progress b) \<le> max_progress_per_task b)"

definition task_ok :: "string \<Rightarrow> ledger_task \<Rightarrow> bool" where
  "task_ok k t \<longleftrightarrow>
     lt_task_id t = k \<and> py_strip k = k \<and> k \<noteq> [] \<and> lt_status t \<in> set LEDGER_TASK_STATUSES \<and> 1 \<le> lt_version t
     \<and> distinct (lt_depends_on t) \<and> k \<notin> set (lt_depends_on t)"

definition board_ok :: "blackboard \<Rightarrow> bool" where
  "board_ok b \<longleftrightarrow>
     dict_ok (board_tasks b) \<and> (\<forall>k t. dget (board_tasks b) k = Some t \<longrightarrow> task_ok k t)
     \<and> acyclic (depends b) \<and> progress_ok b"

lemma board_okD:
  assumes "board_ok b"
  shows "dict_ok (board_tasks b)" "dget (board_tasks b) k = Some t \<Longrightarrow> task_ok k t" "acyclic (depends b)"
    "progress_ok b"
  using assms by (auto simp: board_ok_def)

lemma board_ok_init: "board_ok (init_board a b c)"
  by (simp add: board_ok_def init_board_def depends_def acyclic_def progress_ok_def notes_of_def le_max_iff_disj)

lemma progress_ok_append:
  assumes "progress_ok b"
  shows "progress_ok (append_note n b)"
proof -
  let ?m = "max_progress b" and ?a = "max_progress_per_author b" and ?t = "max_progress_per_task b"
  let ?p1 = "drop_oldest_matching (\<lambda>_. True) ?m (progress b @ [n])"
  let ?p2 = "drop_oldest_matching (\<lambda>m. pn_author m = pn_author n) ?a ?p1"
  let ?p3 = "drop_oldest_matching (\<lambda>m. pn_task_id m = pn_task_id n) ?t ?p2"
  have b: "1 \<le> ?m" "1 \<le> ?a" "1 \<le> ?t" and old: "notes_of pn_author x (progress b) \<le> ?a" "notes_of pn_task_id x (progress b) \<le> ?t" for x
    using assms by (auto simp: progress_ok_def)
  note count = drop_oldest_count [THEN of_nat_mono [where 'a = int]]
  have "int (length ?p3) \<le> ?m"
    using drop_oldest_bound [OF b(1), of "\<lambda>_. True" "progress b @ [n]"] b(1)
      count [of "\<lambda>_. True" "\<lambda>m. pn_author m = pn_author n" ?a ?p1]
      count [of "\<lambda>_. True" "\<lambda>m. pn_task_id m = pn_task_id n" ?t ?p2] by simp
  moreover have "notes_of pn_author x ?p3 \<le> ?a" for x
  proof (cases "x = pn_author n")
    case True
    then show ?thesis
      using drop_oldest_bound [OF b(2), of "\<lambda>m. pn_author m = pn_author n" ?p1] b(2)
        count [of "\<lambda>m. pn_author m = x" "\<lambda>m. pn_task_id m = pn_task_id n" ?t ?p2]
      by (simp add: notes_of_def)
  next
    case False
    then show ?thesis
      using old(1) [of x] count [of "\<lambda>m. pn_author m = x" "\<lambda>_. True" ?m "progress b @ [n]"]
        count [of "\<lambda>m. pn_author m = x" "\<lambda>m. pn_author m = pn_author n" ?a ?p1]
        count [of "\<lambda>m. pn_author m = x" "\<lambda>m. pn_task_id m = pn_task_id n" ?t ?p2]
      by (simp add: notes_of_def)
  qed
  moreover have "notes_of pn_task_id x ?p3 \<le> ?t" for x
  proof (cases "x = pn_task_id n")
    case True
    then show ?thesis
      using drop_oldest_bound [OF b(3), of "\<lambda>m. pn_task_id m = pn_task_id n" ?p2] b(3) by (simp add: notes_of_def)
  next
    case False
    then show ?thesis
      using old(2) [of x] count [of "\<lambda>m. pn_task_id m = x" "\<lambda>_. True" ?m "progress b @ [n]"]
        count [of "\<lambda>m. pn_task_id m = x" "\<lambda>m. pn_author m = pn_author n" ?a ?p1]
        count [of "\<lambda>m. pn_task_id m = x" "\<lambda>m. pn_task_id m = pn_task_id n" ?t ?p2]
      by (simp add: notes_of_def)
  qed
  ultimately show ?thesis using b by (simp add: progress_ok_def append_note_def Let_def)
qed

lemma append_note_keeps_newest: "progress_ok b \<Longrightarrow> \<exists>ys. progress (append_note n b) = ys @ [n] \<and> subseq ys (progress b)"
proof -
  assume "progress_ok b"
  then have m: "1 \<le> max_progress b" "1 \<le> max_progress_per_author b" "1 \<le> max_progress_per_task b"
    by (auto simp: progress_ok_def)
  obtain y1 where 1: "drop_oldest_matching (\<lambda>_. True) (max_progress b) (progress b @ [n]) = y1 @ [n]"
    using drop_oldest_snoc [OF m(1), of "\<lambda>_. True" "progress b" n] by blast
  obtain y2 where 2: "drop_oldest_matching (\<lambda>m. pn_author m = pn_author n) (max_progress_per_author b) (y1 @ [n]) = y2 @ [n]"
    using drop_oldest_snoc [OF m(2), of "\<lambda>m. pn_author m = pn_author n" y1 n] by blast
  obtain y3 where 3: "drop_oldest_matching (\<lambda>m. pn_task_id m = pn_task_id n) (max_progress_per_task b) (y2 @ [n]) = y3 @ [n]"
    using drop_oldest_snoc [OF m(3), of "\<lambda>m. pn_task_id m = pn_task_id n" y2 n] by blast
  have "subseq (y3 @ [n]) (y2 @ [n])" "subseq (y2 @ [n]) (y1 @ [n])" "subseq (y1 @ [n]) (progress b @ [n])"
    using drop_oldest_subseq 1 2 3 by metis+
  then have "subseq (y3 @ [n]) (progress b @ [n])" by (meson subseq_order.trans)
  then have "subseq y3 (progress b)" by simp
  then show ?thesis by (simp add: append_note_def 1 2 3)
qed

section \<open>The operations keep a board well-formed\<close>

lemma append_note_fields [simp]:
  "board_tasks (append_note n b) = board_tasks b" "depends (append_note n b) = depends b"
  by (simp_all add: append_note_def Let_def depends_def)

lemma board_ok_append [keeps_intro]: "board_ok b \<Longrightarrow> board_ok (append_note n b)"
  by (simp add: board_ok_def progress_ok_append)

lemma board_ok_store:
  assumes "board_ok b" and t: "task_ok k t" and "acyclic (depends (b\<lparr>board_tasks := dset k t (board_tasks b)\<rparr>))"
  shows "board_ok (b\<lparr>board_tasks := dset k t (board_tasks b)\<rparr>)"
proof -
  have "progress_ok (b\<lparr>board_tasks := dset k t (board_tasks b)\<rparr>) = progress_ok b" by (simp add: progress_ok_def)
  then show ?thesis using assms by (auto simp: board_ok_def)
qed

lemma store_same_dependencies:
  "dget (board_tasks b) k = Some old \<Longrightarrow> lt_depends_on t = lt_depends_on old \<Longrightarrow>
   depends (b\<lparr>board_tasks := dset k t (board_tasks b)\<rparr>) = depends b"
  by (fastforce simp: depends_def split: if_splits)

lemma store_declared:
  "depends (b\<lparr>board_tasks := dset k t (board_tasks b)\<rparr>) = depends (declare_dependencies b k (lt_depends_on t, t))"
  by (simp add: declare_dependencies_def)

lemma posted_task_fields [simp]:
  "lt_depends_on (posted_task p tid name deps scope ts old) = deps"
  "lt_task_id (posted_task p tid name deps scope ts old) = (case old of Some t \<Rightarrow> lt_task_id t | None \<Rightarrow> tid)"
  "lt_status (posted_task p tid name deps scope ts old) = (case old of Some t \<Rightarrow> lt_status t | None \<Rightarrow> ''open'')"
  "lt_version (posted_task p tid name deps scope ts old) = (case old of Some t \<Rightarrow> lt_version t | None \<Rightarrow> 0) + 1"
  by (simp_all add: posted_task_def split: option.split)

definition board_version :: "string \<Rightarrow> blackboard \<Rightarrow> int" where
  "board_version tid b = (case dget (board_tasks b) tid of Some t \<Rightarrow> lt_version t | None \<Rightarrow> 0)"

lemma post_task_cases:
  obtains (refused) m where "post_task p ts b = (b, Inl m)"
  | (stored) tid name deps scope m where
      "tid = py_strip (post_task_id p)" "tid \<noteq> []" "deps = clean_depends_on tid (post_depends_on p)"
      "\<not> would_cycle tid deps b"
      "post_expected_version p = None \<or> post_expected_version p = Some (board_version tid b)"
      "post_task p ts b =
         (b\<lparr>board_tasks := dset tid (posted_task p tid name deps scope ts (dget (board_tasks b) tid)) (board_tasks b)\<rparr>, Inr m)"
proof -
  let ?tid = "py_strip (post_task_id p)" and ?name = "py_strip (post_title p)" and ?scope = "py_strip (post_project p)"
  let ?deps = "clean_depends_on ?tid (post_depends_on p)"
  have "(\<exists>m. post_task p ts b = (b, Inl m)) \<or>
    (?tid \<noteq> [] \<and> \<not> would_cycle ?tid ?deps b
     \<and> (post_expected_version p = None \<or> post_expected_version p = Some (board_version ?tid b))
     \<and> (\<exists>m. post_task p ts b =
         (b\<lparr>board_tasks := dset ?tid (posted_task p ?tid ?name ?deps ?scope ts (dget (board_tasks b) ?tid)) (board_tasks b)\<rparr>, Inr m)))"
    by (cases "dget (board_tasks b) ?tid") (auto simp: post_task_def board_version_def Let_def)
  then show thesis using that by blast
qed

lemma board_ok_post_task [keeps_intro]:
  assumes ok: "board_ok b"
  shows "board_ok (fst (post_task p ts b))"
proof (cases rule: post_task_cases [of p ts b])
  case refused
  then show ?thesis using ok by simp
next
  case (stored tid name deps scope m)
  let ?t = "posted_task p tid name deps scope ts (dget (board_tasks b) tid)"
  have old: "dget (board_tasks b) tid = Some x \<Longrightarrow> task_ok tid x" for x
    by (rule board_okD(2) [OF ok])
  have "acyclic (depends (declare_dependencies b tid (deps, ?t)))"
    by (rule plan_guard.link_acyclic [OF board_okD(3) [OF ok]]) (use stored(4) in simp)
  then have "acyclic (depends (b\<lparr>board_tasks := dset tid ?t (board_tasks b)\<rparr>))"
    using store_declared [where b = b and k = tid and t = ?t] by simp
  moreover have "task_ok tid ?t"
    using old stored(1-3)
    by (auto simp: task_ok_def set_clean_depends_on distinct_clean_depends_on LEDGER_TASK_STATUSES_def
        split: option.splits)
  ultimately show ?thesis using board_ok_store [OF ok] stored(6) by simp
qed

lemma updated_plan_task_fields [simp]:
  "lt_depends_on (updated_plan_task st ow pr ts t) = lt_depends_on t"
  "lt_task_id (updated_plan_task st ow pr ts t) = lt_task_id t"
  "lt_status (updated_plan_task st ow pr ts t) = (case st of Some s \<Rightarrow> s | None \<Rightarrow> lt_status t)"
  "lt_version (updated_plan_task st ow pr ts t) = lt_version t + 1"
  by (simp_all add: updated_plan_task_def Let_def split: option.split)

lemma update_ledger_task_cases:
  obtains (refused) m where "update_ledger_task task_id st ow pr v ts b = (b, Inl m)"
  | (stored) tid old where
      "tid = py_strip task_id" "dget (board_tasks b) tid = Some old" "v = None \<or> v = Some (lt_version old)"
      "st = None \<or> the st \<in> set LEDGER_TASK_STATUSES"
      "update_ledger_task task_id st ow pr v ts b =
         (b\<lparr>board_tasks := dset tid (updated_plan_task st ow pr ts old) (board_tasks b)\<rparr>, Inr (PlanUpdated tid))"
proof -
  let ?tid = "py_strip task_id"
  have "(\<exists>m. update_ledger_task task_id st ow pr v ts b = (b, Inl m)) \<or>
    (\<exists>old. dget (board_tasks b) ?tid = Some old \<and> (v = None \<or> v = Some (lt_version old))
     \<and> (st = None \<or> the st \<in> set LEDGER_TASK_STATUSES)
     \<and> update_ledger_task task_id st ow pr v ts b =
         (b\<lparr>board_tasks := dset ?tid (updated_plan_task st ow pr ts old) (board_tasks b)\<rparr>, Inr (PlanUpdated ?tid)))"
    by (cases "dget (board_tasks b) ?tid") (auto simp: update_ledger_task_def Let_def)
  then show thesis using that by blast
qed

lemma board_ok_update_task [keeps_intro]:
  assumes ok: "board_ok b"
  shows "board_ok (fst (update_ledger_task task_id st ow pr v ts b))"
proof (cases rule: update_ledger_task_cases [of task_id st ow pr v ts b])
  case refused
  then show ?thesis using ok by simp
next
  case (stored tid old)
  let ?t = "updated_plan_task st ow pr ts old"
  have "task_ok tid old" by (rule board_okD(2) [OF ok stored(2)])
  then have "task_ok tid ?t" using stored(4) by (auto simp: task_ok_def split: option.splits)
  moreover have "acyclic (depends (b\<lparr>board_tasks := dset tid ?t (board_tasks b)\<rparr>))"
    using store_same_dependencies [OF stored(2), of ?t] board_okD(3) [OF ok] by simp
  ultimately show ?thesis using board_ok_store [OF ok] stored(5) by simp
qed

section \<open>Reachable boards\<close>

datatype board_op =
    PostTask task_post time
  | UpdatePlan string "string option" "string option" "string option" "int option" time
  | PostProgress string string string string time
  | PlainNote string string string time
  | RestoreProgress progress_note

fun run_board_op :: "board_op \<Rightarrow> blackboard \<Rightarrow> blackboard" where
  "run_board_op (PostTask p ts) b = fst (post_task p ts b)"
| "run_board_op (UpdatePlan tid st ow pr v ts) b = fst (update_ledger_task tid st ow pr v ts b)"
| "run_board_op (PostProgress tid author txt kind ts) b = fst (post_progress tid author txt kind ts b)"
| "run_board_op (PlainNote tid author txt ts) b = fst (plain_note tid author txt ts b)"
| "run_board_op (RestoreProgress n) b = restore_progress n b"

inductive board_reachable :: "blackboard \<Rightarrow> bool" where
  start: "board_reachable (init_board a b c)"
| call: "board_reachable b \<Longrightarrow> board_reachable (run_board_op op b)"

lemma board_reachable_run: "board_reachable b \<Longrightarrow> board_reachable (fold run_board_op ops b)"
  by (induction ops arbitrary: b) (auto intro: board_reachable.call)

lemma board_ok_reachable: "board_reachable b \<Longrightarrow> board_ok b"
proof (induction rule: board_reachable.induct)
  case (call b op)
  then show ?case
    by (cases op)
      (simp_all add: board_ok_post_task board_ok_update_task board_ok_append post_progress_def plain_note_def
        restore_progress_def Let_def)
qed (rule board_ok_init)

section \<open>A concrete board\<close>

definition simple_post :: "string \<Rightarrow> string list \<Rightarrow> task_post" where
  "simple_post tid deps =
     \<lparr>post_task_id = tid, post_title = tid, post_author = ''a'', post_description = [], post_depends_on = deps,
      post_suggested_owner = [], post_project = [], post_expected_version = None\<rparr>"

definition demo_board :: blackboard where
  "demo_board = fold run_board_op
     [PostTask (simple_post ''x'' []) 1, PostTask (simple_post ''y'' [''x'']) 2] (init_board 10 10 10)"

lemma reachable_demo_board: "board_reachable demo_board"
  unfolding demo_board_def by (intro board_reachable_run board_reachable.start)

section \<open>Properties\<close>

text \<open>
  C26: In every board that declarations, updates and notes can lead to, the declared dependencies
  form no cycle, no task depends on itself, every task sits under its own id with a
  known status, and versions are positive.
\<close>

theorem plan_is_acyclic:
  assumes "board_reachable b"
  shows "acyclic (depends b)
    \<and> (\<forall>k t. dget (board_tasks b) k = Some t \<longrightarrow>
         lt_task_id t = k \<and> lt_status t \<in> set LEDGER_TASK_STATUSES \<and> 1 \<le> lt_version t \<and> k \<notin> set (lt_depends_on t))"
  using board_okD [OF board_ok_reachable [OF assms]] by (auto simp: task_ok_def)

theorem plan_is_acyclic_witness: "acyclic (depends demo_board)"
  using plan_is_acyclic [OF reachable_demo_board] by simp

text \<open>
  A declaration is refused for a cycle exactly when one of its cleaned dependencies already
  leads, directly or through other declared tasks, back to the task; the walk always returns.
\<close>

theorem dependency_cycle_refused_iff:
  assumes "py_strip (post_task_id p) \<noteq> []" and "py_strip (post_title p) \<noteq> []"
  shows "snd (post_task p ts b) = Inl (DependencyCycle (py_strip (post_task_id p))) \<longleftrightarrow>
    (\<exists>d \<in> py_strip ` set (post_depends_on p) - {[], py_strip (post_task_id p)}.
       (d, py_strip (post_task_id p)) \<in> (depends b)\<^sup>*)"
proof -
  have "snd (post_task p ts b) = Inl (DependencyCycle (py_strip (post_task_id p))) \<longleftrightarrow>
      would_cycle (py_strip (post_task_id p)) (clean_depends_on (py_strip (post_task_id p)) (post_depends_on p)) b"
    using assms by (auto simp: post_task_def Let_def split: option.splits)
  then show ?thesis by (simp add: would_cycle_iff set_clean_depends_on)
qed

theorem dependency_cycle_refused_iff_witness: "(''y'', ''x'') \<in> (depends demo_board)\<^sup>*"
proof -
  have refused: "snd (post_task (simple_post ''x'' [''y'']) 3 demo_board) = Inl (DependencyCycle ''x'')"
    and strip: "py_strip ''x'' = ''x''" "py_strip ''y'' = ''y''"
    by code_simp+
  then show ?thesis
    using dependency_cycle_refused_iff [of "simple_post ''x'' [''y'']" 3 demo_board]
    by (simp add: simple_post_def)
qed

text \<open>
  Versions make writes atomic: once a declaration or update that expected some version of a
  task has been accepted, every later declaration or update of that task on the new board that
  expects the same version is refused, so of two writers with the same snapshot one loses.
\<close>

theorem ledger_compare_and_swap:
  assumes "board_reachable b" and "post_expected_version p = Some v" and "snd (post_task p ts b) = Inr m"
  shows "(\<forall>q. py_strip (post_task_id q) = py_strip (post_task_id p) \<and> post_expected_version q = Some v
           \<longrightarrow> (\<exists>e. snd (post_task q ts' (fst (post_task p ts b))) = Inl e))
    \<and> (\<exists>e. snd (update_ledger_task (post_task_id p) st ow pr (Some v) ts' (fst (post_task p ts b))) = Inl e)"
proof (cases rule: post_task_cases [of p ts b])
  case (stored tid name deps scope m')
  let ?b = "fst (post_task p ts b)"
  have "board_version tid ?b = board_version tid b + 1" by (simp add: stored(6) board_version_def split: option.split)
  then have new: "board_version tid ?b \<noteq> v" using stored(5) assms(2) by simp
  have "\<exists>e. snd (post_task q ts' ?b) = Inl e"
    if "py_strip (post_task_id q) = tid" "post_expected_version q = Some v" for q
    by (cases rule: post_task_cases [of q ts' ?b]) (use that new in auto)
  moreover have "\<exists>e. snd (update_ledger_task (post_task_id p) st ow pr (Some v) ts' ?b) = Inl e"
    by (cases rule: update_ledger_task_cases [of "post_task_id p" st ow pr "Some v" ts' ?b])
      (use new stored(1) in \<open>auto simp: board_version_def\<close>)
  ultimately show ?thesis using stored(1) by simp
qed (use assms(3) in simp)

theorem ledger_compare_and_swap_witness:
  "let p = (simple_post ''x'' [])\<lparr>post_expected_version := Some 1\<rparr>
   in \<exists>e. snd (post_task p 4 (fst (post_task p 3 demo_board))) = Inl e"
proof -
  let ?p = "(simple_post ''x'' [])\<lparr>post_expected_version := Some 1\<rparr>"
  have "snd (post_task ?p 3 demo_board) = Inr (Redeclared ''x'' ''a'')" by code_simp
  then show ?thesis
    using ledger_compare_and_swap [OF reachable_demo_board, of ?p 1 3] by (auto simp: simple_post_def)
qed

text \<open>
  The progress stream is bounded three ways in every reachable board (in total, per author
  and per task), and appending a note always keeps that note as the newest entry and never
  reorders the older ones.
\<close>

theorem progress_stream_bounded:
  assumes "board_reachable b"
  shows "int (length (progress b)) \<le> max_progress b
    \<and> int (length (filter (\<lambda>n. pn_author n = a) (progress b))) \<le> max_progress_per_author b
    \<and> int (length (filter (\<lambda>n. pn_task_id n = t) (progress b))) \<le> max_progress_per_task b
    \<and> (\<exists>ys. progress (append_note n b) = ys @ [n] \<and> subseq ys (progress b))"
  using board_okD(4) [OF board_ok_reachable [OF assms]] append_note_keeps_newest
  by (auto simp: progress_ok_def notes_of_def)

theorem progress_stream_bounded_witness: "int (length (progress demo_board)) \<le> 10"
proof -
  have "max_progress demo_board = 10" by code_simp
  then show ?thesis using progress_stream_bounded [OF reachable_demo_board] by simp
qed

lemma ready_tasks_iff:
  assumes "board_reachable b"
  shows "t \<in> set (ready_tasks b) \<longleftrightarrow>
    dget (board_tasks b) (lt_task_id t) = Some t \<and> lt_status t = ''open''
    \<and> (\<forall>d \<in> set (lt_depends_on t). \<exists>u. dget (board_tasks b) d = Some u \<and> is_terminal_task u)"
proof -
  note ok = board_okD [OF board_ok_reachable [OF assms]]
  have mem: "t \<in> set (map snd (board_tasks b)) \<longleftrightarrow> dget (board_tasks b) (lt_task_id t) = Some t"
    using dict_values_iff [OF ok(1)] ok(2) by (auto simp: task_ok_def)
  have "blocking_dependencies (lt_task_id t) b = [] \<longleftrightarrow>
      (\<forall>d \<in> set (lt_depends_on t). \<exists>u. dget (board_tasks b) d = Some u \<and> is_terminal_task u)"
    if "dget (board_tasks b) (lt_task_id t) = Some t"
  proof -
    have "py_strip (lt_task_id t) = lt_task_id t" using ok(2) [OF that] by (simp add: task_ok_def)
    with that show ?thesis
      by (auto simp: blocking_dependencies_def filter_empty_conv split: option.splits)
  qed
  with mem show ?thesis by (auto simp: ready_tasks_def)
qed

text \<open>
  C27: The plan never gets stuck on itself: if every dependency is declared and every task is open
  or finished, then as long as an open task is left, some task is ready, and every ready task is
  open with all its dependencies finished.
\<close>

theorem plan_makes_progress:
  assumes "board_reachable b"
    and "\<And>a d. (a, d) \<in> depends b \<Longrightarrow> dget (board_tasks b) d \<noteq> None"
    and "\<And>k t. dget (board_tasks b) k = Some t \<Longrightarrow> lt_status t = ''open'' \<or> is_terminal_task t"
    and "dget (board_tasks b) k = Some t" and "lt_status t = ''open''"
  shows "ready_tasks b \<noteq> []
    \<and> list_all (\<lambda>u. lt_status u = ''open''
         \<and> list_all (\<lambda>d. \<exists>w. dget (board_tasks b) d = Some w \<and> is_terminal_task w) (lt_depends_on u)) (ready_tasks b)"
proof
  have opened: "\<not> is_terminal_task u" if "lt_status u = ''open''" for u
    using that by (simp add: is_terminal_task_def TERMINAL_LEDGER_STATUSES_def)
  have id: "lt_task_id u = j" if "dget (board_tasks b) j = Some u" for j u
    using board_okD(2) [OF board_ok_reachable [OF assms(1)] that] by (simp add: task_ok_def)
  have "depends b \<subseteq> fst ` set (board_tasks b) \<times> fst ` set (board_tasks b)"
  proof (rule subrelI)
    fix a d assume e: "(a, d) \<in> depends b"
    then have "dget (board_tasks b) a \<noteq> None" by (auto simp: depends_def)
    with assms(2) [OF e] show "(a, d) \<in> fst ` set (board_tasks b) \<times> fst ` set (board_tasks b)"
      by (simp add: map_of_eq_None_iff)
  qed
  then have "finite (depends b)" by (rule finite_subset) simp
  moreover have "acyclic (depends b)" by (rule board_okD(3) [OF board_ok_reachable [OF assms(1)]])
  ultimately have wf: "wf ((depends b)\<inverse>)" by (simp add: finite_acyclic_wf_converse)
  obtain j u where j: "dget (board_tasks b) j = Some u" "lt_status u = ''open''"
    and min: "\<And>d w. (j, d) \<in> depends b \<Longrightarrow> dget (board_tasks b) d = Some w \<Longrightarrow> lt_status w \<noteq> ''open''"
    using wfE_min [OF wf, of k "{k. \<exists>t. dget (board_tasks b) k = Some t \<and> lt_status t = ''open''}"] assms(4,5)
    by (smt (verit) converse_iff mem_Collect_eq)
  have "\<exists>w. dget (board_tasks b) d = Some w \<and> is_terminal_task w" if "d \<in> set (lt_depends_on u)" for d
  proof -
    have e: "(j, d) \<in> depends b" using that j(1) by (auto simp: depends_def)
    then obtain w where "dget (board_tasks b) d = Some w" using assms(2) by fastforce
    then show ?thesis using min [OF e] assms(3) by blast
  qed
  then have "u \<in> set (ready_tasks b)"
    using j id [OF j(1)] by (simp add: ready_tasks_iff [OF assms(1)])
  then show "ready_tasks b \<noteq> []" by auto
  show "list_all (\<lambda>u. lt_status u = ''open''
      \<and> list_all (\<lambda>d. \<exists>w. dget (board_tasks b) d = Some w \<and> is_terminal_task w) (lt_depends_on u)) (ready_tasks b)"
    by (simp add: list_all_iff ready_tasks_iff [OF assms(1)])
qed

theorem plan_makes_progress_witness: "ready_tasks demo_board \<noteq> []"
proof -
  have tasks: "map (\<lambda>(k, t). (k, lt_status t, lt_depends_on t)) (board_tasks demo_board)
      = [(''x'', ''open'', []), (''y'', ''open'', [''x''])]" by code_simp
  then obtain x y where b: "board_tasks demo_board = [(''x'', x), (''y'', y)]"
    and xy: "lt_status x = ''open''" "lt_status y = ''open''" "lt_depends_on x = []" "lt_depends_on y = [''x'']"
    by (auto simp: map_eq_Cons_conv)
  show ?thesis
    by (rule plan_makes_progress [OF reachable_demo_board, of "''x''" x, THEN conjunct1])
      (use xy in \<open>auto simp: b depends_def split: if_splits\<close>)
qed

text \<open>
  A capped snapshot shows at most the cap, only tasks of the board, and never drops a live
  task in favour of a finished one: whenever a live task is left out, no finished task is shown.
\<close>

theorem snapshot_cap_keeps_live:
  assumes "1 \<le> cap"
  shows "int (length (capped_tasks cap ordered)) \<le> cap
    \<and> set (capped_tasks cap ordered) \<subseteq> set ordered
    \<and> ((\<exists>t \<in> set ordered. \<not> is_terminal_task t \<and> t \<notin> set (capped_tasks cap ordered))
        \<longrightarrow> list_all (\<lambda>t. \<not> is_terminal_task t) (capped_tasks cap ordered))"
  using assms
  by (auto simp: capped_tasks_def Let_def newest_first_def list_all_iff dest!: in_set_takeD)

theorem snapshot_cap_keeps_live_witness:
  "int (length (capped_tasks 1 (map snd (board_tasks demo_board)))) \<le> 1"
  using snapshot_cap_keeps_live [of 1 "map snd (board_tasks demo_board)"] by simp

end
