(* ===== verification/Journal.thy ===== *)
theory Journal
  imports Synapse_State Ledger
begin

text \<open>
  The durable event log and its replay, from \<open>core/journal.py\<close> and \<open>core/journal_appliers.py\<close>:
  what the hub records, how a persisted payload is decoded, and how \<open>replay\<close> folds the events
  into a fresh state.  The event store itself is the list of its rows; replay is modelled with
  no protected-write policies, the default, so protected history is refused.
\<close>

section \<open>Dynamic values\<close>

text \<open>
  \<open>MalformedPayload\<close> is the \<open>KeyError\<close>, \<open>TypeError\<close>, \<open>ValueError\<close> or \<open>PathIdentityError\<close> that
  a decoder raises; \<open>UnsupportedHistory\<close> is the refusal of protected custody.  \<open>OutsideModel\<close>
  marks payloads no writer of the repository produces: \<open>str\<close> of a float or of a container in a
  text field, and time stamps that are not finite.
\<close>

datatype journal_error = MalformedPayload | UnsupportedHistory int | OutsideModel

definition sum_bind :: "'e + 'a \<Rightarrow> ('a \<Rightarrow> 'e + 'b) \<Rightarrow> 'e + 'b" where
  "sum_bind m f = (case m of Inl e \<Rightarrow> Inl e | Inr v \<Rightarrow> f v)"

lemma sum_bind_simps [simp]: "sum_bind (Inr v) f = f v" "sum_bind (Inl e) f = Inl e"
  by (simp_all add: sum_bind_def)

fun py_str :: "json \<Rightarrow> journal_error + string" where
  "py_str (JString s) = Inr s"
| "py_str (JInt i) = Inr (show_int i)"
| "py_str (JBool b) = Inr (if b then ''True'' else ''False'')"
| "py_str JNull = Inr ''None''"
| "py_str _ = Inl OutsideModel"

fun json_truthy :: "json \<Rightarrow> bool" where
  "json_truthy JNull = False"
| "json_truthy (JBool b) = b"
| "json_truthy (JInt i) = (i \<noteq> 0)"
| "json_truthy (JFloat f) = (f \<noteq> Finite 0)"
| "json_truthy (JString s) = (s \<noteq> [])"
| "json_truthy (JList xs) = (xs \<noteq> [])"
| "json_truthy (JObject d) = (d \<noteq> [])"

fun py_str_all :: "json list \<Rightarrow> journal_error + string list" where
  "py_str_all [] = Inr []"
| "py_str_all (v # vs) = sum_bind (py_str v) (\<lambda>s. sum_bind (py_str_all vs) (\<lambda>ss. Inr (s # ss)))"

lemma py_str_all_strings [simp]: "py_str_all (map JString ss) = Inr ss"
  by (induction ss) auto

text \<open>\<open>tuple(str(x) for x in v)\<close>: a string iterates over its characters, a mapping over its keys.\<close>

fun py_str_tuple :: "json \<Rightarrow> journal_error + string list" where
  "py_str_tuple (JList vs) = py_str_all vs"
| "py_str_tuple (JString s) = Inr (map (\<lambda>c. [c]) s)"
| "py_str_tuple (JObject d) = Inr (map fst d)"
| "py_str_tuple _ = Inl MalformedPayload"

definition req_field :: "json_object \<Rightarrow> string \<Rightarrow> journal_error + json" where
  "req_field d key = (case dget d key of None \<Rightarrow> Inl MalformedPayload | Some v \<Rightarrow> Inr v)"

definition req_text :: "json_object \<Rightarrow> string \<Rightarrow> journal_error + string" where
  "req_text d key = sum_bind (req_field d key) py_str"

definition text_or :: "json_object \<Rightarrow> string \<Rightarrow> string \<Rightarrow> journal_error + string" where
  "text_or d key dflt = py_str (get_or d key (JString dflt))"

definition finite_time :: "json \<Rightarrow> journal_error + time" where
  "finite_time v =
     (case py_float v of
        None \<Rightarrow> Inl MalformedPayload
      | Some (Finite q) \<Rightarrow> Inr q
      | Some _ \<Rightarrow> Inl OutsideModel)"

definition req_time :: "json_object \<Rightarrow> string \<Rightarrow> journal_error + time" where
  "req_time d key = sum_bind (req_field d key) finite_time"

definition int_or_fail :: "json \<Rightarrow> journal_error + int" where
  "int_or_fail v = (case py_int v of None \<Rightarrow> Inl MalformedPayload | Some i \<Rightarrow> Inr i)"

section \<open>Decoders\<close>

text \<open>\<open>type(ownership_epoch) is not int or not 0 <= ownership_epoch <= int(epoch)\<close>\<close>

definition ownership_epoch_field :: "json_object \<Rightarrow> journal_error + int" where
  "ownership_epoch_field p =
     (case get_or p ''ownership_epoch'' (get_or p ''epoch'' (JInt 0)) of
        JInt oe \<Rightarrow>
          sum_bind (int_or_fail (get_or p ''epoch'' (JInt 0)))
            (\<lambda>ep. if 0 \<le> oe \<and> oe \<le> ep then Inr oe else Inl MalformedPayload)
      | _ \<Rightarrow> Inl MalformedPayload)"

definition claim_from_payload :: "json_object \<Rightarrow> journal_error + task_claim" where
  "claim_from_payload p =
     (let g = (case get_field p ''git'' of JObject d \<Rightarrow> Some (git_from_dict d) | _ \<Rightarrow> None)
      in case parse_optional_claim_scope_identity p of
           Inl _ \<Rightarrow> Inl MalformedPayload
         | Inr ident \<Rightarrow>
      sum_bind (py_str_tuple (get_or p ''paths'' (JList []))) (\<lambda>ps.
      sum_bind (text_or p ''worktree'' []) (\<lambda>wt.
      if (case ident of Some i \<Rightarrow> \<not> validates_display_scope i wt ps | None \<Rightarrow> False)
      then Inl MalformedPayload
      else
      sum_bind (ownership_epoch_field p) (\<lambda>oe.
      sum_bind (req_text p ''task_id'') (\<lambda>tid.
      sum_bind (req_text p ''owner'') (\<lambda>ow.
      sum_bind (text_or p ''note'' []) (\<lambda>nt.
      sum_bind (req_time p ''claimed_at'') (\<lambda>ca.
      sum_bind (req_time p ''lease_expires_at'') (\<lambda>le.
      sum_bind (if json_truthy (get_field p ''quota_principal'') then py_str (get_field p ''quota_principal'')
                else req_text p ''owner'') (\<lambda>qp.
      sum_bind (text_or p ''status'' ''claimed'') (\<lambda>st.
      sum_bind (text_or p ''data_ref'' []) (\<lambda>dr.
      sum_bind (int_or_fail (get_or p ''epoch'' (JInt 0))) (\<lambda>ep.
      sum_bind (int_or_fail (get_or p ''version'' (JInt 0))) (\<lambda>ver.
      sum_bind (text_or p ''checkpoint'' []) (\<lambda>cp.
      Inr (post_init
        \<lparr>task_id = tid, owner = ow, claim_note = nt, claimed_at = ca, lease_expires_at = le,
         quota_principal = qp, status = st, data_ref = dr, worktree = wt, paths = ps,
         path_identity = ident, epoch = ep, version = ver, checkpoint = cp, git = g,
         ownership_epoch = oe\<rparr>))))))))))))))))"

definition ledger_task_from_payload :: "json_object \<Rightarrow> journal_error + ledger_task" where
  "ledger_task_from_payload p =
     sum_bind (req_text p ''task_id'') (\<lambda>tid.
     sum_bind (req_text p ''title'') (\<lambda>title.
     sum_bind (req_time p ''created_at'') (\<lambda>ca.
     sum_bind (req_time p ''updated_at'') (\<lambda>ua.
     sum_bind (text_or p ''description'' []) (\<lambda>descr.
     sum_bind (py_str_tuple (get_or p ''depends_on'' (JList []))) (\<lambda>deps.
     sum_bind (text_or p ''status'' ''open'') (\<lambda>st.
     sum_bind (text_or p ''suggested_owner'' []) (\<lambda>ow.
     sum_bind (text_or p ''project'' []) (\<lambda>pr.
     sum_bind (int_or_fail (get_or p ''version'' (JInt 1))) (\<lambda>ver.
     sum_bind (text_or p ''created_by'' []) (\<lambda>cb.
     Inr \<lparr>lt_task_id = tid, lt_title = title, lt_created_at = ca, lt_updated_at = ua, lt_description = descr,
          lt_depends_on = deps, lt_status = st, lt_suggested_owner = ow, lt_project = pr, lt_version = ver,
          lt_created_by = cb\<rparr>)))))))))))"

definition progress_from_payload :: "json_object \<Rightarrow> journal_error + progress_note" where
  "progress_from_payload p =
     sum_bind (text_or p ''task_id'' []) (\<lambda>tid.
     sum_bind (text_or p ''author'' []) (\<lambda>author.
     sum_bind (text_or p ''kind'' ''note'') (\<lambda>kind.
     sum_bind (text_or p ''text'' []) (\<lambda>txt.
     sum_bind (req_time p ''posted_at'') (\<lambda>ts.
     Inr \<lparr>pn_task_id = tid, pn_author = author, pn_kind = kind, pn_text = txt, pn_posted_at = ts\<rparr>)))))"

definition resource_from_payload :: "json_object \<Rightarrow> journal_error + resource_offer" where
  "resource_from_payload p =
     sum_bind (req_text p ''agent'') (\<lambda>agent.
     sum_bind (req_text p ''kind'') (\<lambda>kind.
     sum_bind (req_text p ''name'') (\<lambda>name.
     sum_bind (int_or_fail (get_or p ''capacity'' (JInt 1))) (\<lambda>cap.
     sum_bind (case get_or p ''meta'' (JObject []) of JObject d \<Rightarrow> Inr d | _ \<Rightarrow> Inl OutsideModel) (\<lambda>meta.
     sum_bind (req_time p ''offered_at'') (\<lambda>ts.
     Inr \<lparr>offer_agent = agent, offer_kind = kind, offer_name = name, offer_capacity = cap,
          offer_meta = meta, offered_at = ts\<rparr>))))))"

section \<open>Events and their appliers\<close>

record journal_event =
  ev_seq :: int
  ev_kind :: string
  ev_payload :: json_object

record replay_context =
  rc_state :: synapse_state
  rc_board :: blackboard
  rc_chat :: "json_object list"
  rc_idempotency :: "(string, json_object) pydict"
  rc_findings :: "(string, int) pydict"
  rc_relay :: "json_object list"
  rc_corrupt :: "(int \<times> json_object) list"
  rc_message_seq :: int
  rc_epoch_seq :: int

type_synonym applier = "replay_context \<Rightarrow> journal_event \<Rightarrow> journal_error + replay_context"

definition scope_checked_kinds :: "string list" where
  "scope_checked_kinds = [''claim'', ''handoff'']"

definition apply_claim_event :: applier where
  "apply_claim_event ctx ev =
     sum_bind (claim_from_payload (ev_payload ev)) (\<lambda>c.
       let s = rc_state ctx
       in if protected_task_held (task_id c) s
             \<or> (ev_kind ev \<in> set scope_checked_kinds
                \<and> protected_scope_held (task_id c) (worktree c) (paths c) (path_identity c) s)
          then Inl (UnsupportedHistory (ev_seq ev))
          else Inr (ctx\<lparr>rc_state := s\<lparr>claims := dset (task_id c) c (claims s),
                                      last_seen := dset (owner c) (claimed_at c) (last_seen s)\<rparr>,
                        rc_epoch_seq := max (rc_epoch_seq ctx) (epoch c)\<rparr>))"

definition apply_release_event :: applier where
  "apply_release_event ctx ev =
     sum_bind (req_text (ev_payload ev) ''task_id'') (\<lambda>task.
       let s = rc_state ctx
       in if protected_task_held task s then Inl (UnsupportedHistory (ev_seq ev))
          else Inr (ctx\<lparr>rc_state := s\<lparr>claims := ddel task (claims s)\<rparr>\<rparr>))"

definition apply_resource_event :: applier where
  "apply_resource_event ctx ev =
     sum_bind (resource_from_payload (ev_payload ev)) (\<lambda>r.
       let s = rc_state ctx
       in Inr (ctx\<lparr>rc_state := s\<lparr>resources :=
            dset (offer_key (offer_agent r) (offer_kind r) (offer_name r)) r (resources s)\<rparr>\<rparr>))"

definition apply_ledger_task_event :: applier where
  "apply_ledger_task_event ctx ev =
     sum_bind (ledger_task_from_payload (ev_payload ev)) (\<lambda>t.
       let b = rc_board ctx in Inr (ctx\<lparr>rc_board := b\<lparr>board_tasks := dset (lt_task_id t) t (board_tasks b)\<rparr>\<rparr>))"

definition apply_progress_event :: applier where
  "apply_progress_event ctx ev =
     sum_bind (progress_from_payload (ev_payload ev)) (\<lambda>n.
       Inr (ctx\<lparr>rc_board := restore_progress n (rc_board ctx)\<rparr>))"

definition apply_chat_event :: applier where
  "apply_chat_event ctx ev =
     sum_bind (int_or_fail (get_or (ev_payload ev) ''msg_id'' (JInt 0))) (\<lambda>i.
       Inr (ctx\<lparr>rc_chat := rc_chat ctx @ [ev_payload ev], rc_message_seq := max (rc_message_seq ctx) i\<rparr>))"

text \<open>\<open>move_to_end\<close> makes the key the newest.\<close>

definition apply_idempotency_event :: applier where
  "apply_idempotency_event ctx ev =
     sum_bind (text_or (ev_payload ev) ''key'' []) (\<lambda>key.
       if key = [] then Inr ctx
       else (case get_or (ev_payload ev) ''response'' (JObject []) of
               JObject d \<Rightarrow> Inr (ctx\<lparr>rc_idempotency := ddel key (rc_idempotency ctx) @ [(key, d)]\<rparr>)
             | _ \<Rightarrow> Inl OutsideModel))"

definition apply_finding_event :: applier where
  "apply_finding_event ctx ev =
     (case get_field (ev_payload ev) ''provenance'' of
        JObject pv \<Rightarrow>
          sum_bind (if json_truthy (get_field pv ''actor'') then py_str (get_field pv ''actor'') else Inr []) (\<lambda>raw.
            let actor = py_strip raw; counts = rc_findings ctx
            in Inr (if actor = [] then ctx
                    else ctx\<lparr>rc_findings :=
                      dset actor ((case dget counts actor of Some n \<Rightarrow> n | None \<Rightarrow> 0) + 1) counts\<rparr>))
      | _ \<Rightarrow> Inr ctx)"

definition apply_relay_event :: applier where
  "apply_relay_event ctx ev = Inr (ctx\<lparr>rc_relay := rc_relay ctx @ [ev_payload ev]\<rparr>)"

definition apply_corrupt_event :: applier where
  "apply_corrupt_event ctx ev = Inr (ctx\<lparr>rc_corrupt := rc_corrupt ctx @ [(ev_seq ev, ev_payload ev)]\<rparr>)"

definition event_appliers :: "(string, applier) pydict" where
  "event_appliers =
     [(''claim'', apply_claim_event), (''task_update'', apply_claim_event),
      (''checkpoint'', apply_claim_event), (''handoff'', apply_claim_event),
      (''release'', apply_release_event), (''resource'', apply_resource_event),
      (''ledger_task'', apply_ledger_task_event), (''ledger_progress'', apply_progress_event),
      (''chat'', apply_chat_event), (''idempotency'', apply_idempotency_event),
      (''finding'', apply_finding_event), (''operator_relay'', apply_relay_event),
      (''corrupt'', apply_corrupt_event)]"

definition apply_event :: applier where
  "apply_event ctx ev =
     (if ev_kind ev = ''protected_write'' \<or> py_startswith (ev_kind ev) ''protected_write_''
      then Inl (UnsupportedHistory (ev_seq ev))
      else (case dget event_appliers (ev_kind ev) of None \<Rightarrow> Inr ctx | Some f \<Rightarrow> f ctx ev))"

fun apply_events :: "journal_event list \<Rightarrow> replay_context \<Rightarrow> journal_error + replay_context" where
  "apply_events [] ctx = Inr ctx"
| "apply_events (ev # evs) ctx = sum_bind (apply_event ctx ev) (apply_events evs)"

definition initial_context :: "synapse_state \<Rightarrow> blackboard \<Rightarrow> replay_context" where
  "initial_context s b =
     \<lparr>rc_state = s, rc_board = b, rc_chat = [], rc_idempotency = [], rc_findings = [], rc_relay = [],
      rc_corrupt = [], rc_message_seq = 0, rc_epoch_seq = 0\<rparr>"

text \<open>\<open>iter_events(through_seq=..., kinds=...)\<close> over the rows in sequence order.\<close>

definition iter_events :: "journal_event list \<Rightarrow> int option \<Rightarrow> string list option \<Rightarrow> journal_event list" where
  "iter_events rows through kinds =
     filter (\<lambda>ev. (case through of None \<Rightarrow> True | Some n \<Rightarrow> ev_seq ev \<le> n)
       \<and> (case kinds of None \<Rightarrow> True | Some ks \<Rightarrow> ev_kind ev \<in> set ks)) rows"

text \<open>
  \<open>replay\<close> with the fresh \<open>state\<close> and \<open>board\<close> of the given limits; the result keeps the context,
  whose state has its epoch sequence, its lease index and its expiry settled.
\<close>

definition replay ::
  "synapse_state \<Rightarrow> blackboard \<Rightarrow> time \<Rightarrow> int option \<Rightarrow> string list option \<Rightarrow> journal_event list
   \<Rightarrow> journal_error + replay_context" where
  "replay s b now up_to_seq kinds rows =
     sum_bind (apply_events (iter_events rows up_to_seq kinds) (initial_context s b)) (\<lambda>ctx.
       let s1 = reindex_leases ((rc_state ctx)\<lparr>epoch_seq := rc_epoch_seq ctx\<rparr>)
       in Inr (ctx\<lparr>rc_state := expire_resources now (expire_claims now s1)\<rparr>))"

section \<open>What the hub records\<close>

definition record_claim_snapshot :: "string \<Rightarrow> task_claim \<Rightarrow> string \<times> json_object" where
  "record_claim_snapshot kind c = (kind, as_persisted_dict c)"

definition record_release :: "string \<Rightarrow> string \<times> json_object" where
  "record_release task = (''release'', [(''task_id'', JString task)])"

definition record_resource :: "resource_offer \<Rightarrow> string \<times> json_object" where
  "record_resource r =
     (''resource'',
      [(''agent'', JString (offer_agent r)), (''kind'', JString (offer_kind r)), (''name'', JString (offer_name r)),
       (''capacity'', JInt (offer_capacity r)), (''meta'', JObject (offer_meta r)),
       (''offered_at'', JFloat (Finite (offered_at r)))])"

definition record_ledger_task :: "ledger_task \<Rightarrow> string \<times> json_object" where
  "record_ledger_task t = (''ledger_task'', ledger_task_as_dict t)"

definition record_ledger_progress :: "progress_note \<Rightarrow> string \<times> json_object" where
  "record_ledger_progress n = (''ledger_progress'', progress_note_as_dict n)"

section \<open>Compaction\<close>

text \<open>
  From \<open>core/compaction.py\<close>: the checkpoints at or below the floor beyond the newest \<open>keep\<close> of
  their task, and the deletion of the doomed rows.
\<close>

definition checkpoint_task :: "journal_event \<Rightarrow> journal_error + string" where
  "checkpoint_task ev = text_or (ev_payload ev) ''task_id'' []"

definition superseded_checkpoints :: "journal_event list \<Rightarrow> int \<Rightarrow> nat \<Rightarrow> int list" where
  "superseded_checkpoints rows floor_seq keep =
     (let cps = filter (\<lambda>ev. ev_kind ev = ''checkpoint'' \<and> ev_seq ev \<le> floor_seq) rows;
          tasks = remdups (map checkpoint_task cps);
          seqs = (\<lambda>t. sort (map ev_seq (filter (\<lambda>ev. checkpoint_task ev = t) cps)))
      in concat (map (\<lambda>t. if length (seqs t) > keep then take (length (seqs t) - keep) (seqs t) else []) tasks))"

definition delete_events :: "int list \<Rightarrow> journal_event list \<Rightarrow> journal_event list" where
  "delete_events seqs rows = filter (\<lambda>ev. ev_seq ev \<notin> set seqs) rows"

end
