(* ===== verification/Journal_Codec.thy ===== *)
theory Journal_Codec
  imports Journal
begin

text \<open>
  Round trips of the journal's payloads: every record the hub appends is decoded by replay to the
  value it was made from, for the values the registry and the plan can hold.
\<close>

section \<open>Claims\<close>

definition identity_parsed :: "claim_scope_identity \<Rightarrow> bool" where
  "identity_parsed i \<longleftrightarrow> (\<exists>d. scope_identity_from_dict d = Inr i)"

text \<open>What a claim must satisfy to survive the journal; the registry keeps it (below).\<close>

definition persistable :: "task_claim \<Rightarrow> bool" where
  "persistable c \<longleftrightarrow>
     (\<forall>g. git c = Some g \<longrightarrow> git_ok g)
     \<and> (\<forall>i. path_identity c = Some i \<longrightarrow> identity_parsed i \<and> validates_display_scope i (worktree c) (paths c))
     \<and> quota_principal c \<noteq> [] \<and> 0 < ownership_epoch c \<and> ownership_epoch c \<le> epoch c"

lemma claim_as_dict_get:
  "dget (as_persisted_dict c) ''task_id'' = Some (JString (task_id c))"
  "dget (as_persisted_dict c) ''owner'' = Some (JString (owner c))"
  "dget (as_persisted_dict c) ''note'' = Some (JString (claim_note c))"
  "dget (as_persisted_dict c) ''claimed_at'' = Some (JFloat (Finite (claimed_at c)))"
  "dget (as_persisted_dict c) ''lease_expires_at'' = Some (JFloat (Finite (lease_expires_at c)))"
  "dget (as_persisted_dict c) ''status'' = Some (JString (status c))"
  "dget (as_persisted_dict c) ''data_ref'' = Some (JString (data_ref c))"
  "dget (as_persisted_dict c) ''worktree'' = Some (JString (worktree c))"
  "dget (as_persisted_dict c) ''paths'' = Some (JList (map JString (paths c)))"
  "dget (as_persisted_dict c) ''epoch'' = Some (JInt (epoch c))"
  "dget (as_persisted_dict c) ''ownership_epoch'' = Some (JInt (or_int (ownership_epoch c) (epoch c)))"
  "dget (as_persisted_dict c) ''version'' = Some (JInt (version c))"
  "dget (as_persisted_dict c) ''checkpoint'' = Some (JString (checkpoint c))"
  "dget (as_persisted_dict c) ''git'' = Some (case git c of None \<Rightarrow> JNull | Some g \<Rightarrow> JObject (git_as_dict g))"
  "dget (as_persisted_dict c) ''path_identity'' = map_option (\<lambda>i. JObject (scope_identity_as_dict i)) (path_identity c)"
  "dget (as_persisted_dict c) ''quota_principal'' =
     (if quota_principal c = [] then None else Some (JString (quota_principal c)))"
  by (auto simp: as_persisted_dict_def claim_as_dict_def split: option.split)

lemma claim_codec:
  assumes "persistable c"
  shows "claim_from_payload (as_persisted_dict c) = Inr c"
proof -
  have ident: "parse_optional_claim_scope_identity (as_persisted_dict c) = Inr (path_identity c)"
    using assms scope_identity_round_trip
    by (cases "path_identity c")
      (auto simp: parse_optional_claim_scope_identity_def claim_as_dict_get persistable_def identity_parsed_def)
  have git: "(case git c of None \<Rightarrow> None | Some g \<Rightarrow> Some (git_from_dict (git_as_dict g))) = git c"
    using assms git_round_trip by (auto simp: persistable_def split: option.splits)
  have scope: "\<not> (case path_identity c of Some i \<Rightarrow> \<not> validates_display_scope i (worktree c) (paths c) | None \<Rightarrow> False)"
    using assms by (auto simp: persistable_def split: option.splits)
  have oe: "or_int (ownership_epoch c) (epoch c) = ownership_epoch c" "0 \<le> ownership_epoch c" "ownership_epoch c \<le> epoch c"
    and qp: "quota_principal c \<noteq> []"
    using assms by (auto simp: persistable_def or_int_def)
  have "(case get_field (as_persisted_dict c) ''git'' of JObject d \<Rightarrow> Some (git_from_dict d) | _ \<Rightarrow> None) = git c"
    using git by (simp add: get_field_def get_or_def claim_as_dict_get split: option.splits)
  moreover have "post_init c = c" using assms by (simp add: post_init_def persistable_def)
  ultimately show ?thesis
    unfolding claim_from_payload_def Let_def ident
    using scope oe qp
    by (simp add: claim_as_dict_get get_or_def get_field_def text_or_def req_text_def req_field_def req_time_def
        finite_time_def int_or_fail_def ownership_epoch_field_def)
qed

section \<open>The plan and the offers\<close>

lemma ledger_task_codec: "ledger_task_from_payload (ledger_task_as_dict t) = Inr t"
  by (simp add: ledger_task_from_payload_def ledger_task_as_dict_def get_or_def text_or_def req_text_def
      req_field_def req_time_def finite_time_def int_or_fail_def)

lemma progress_codec: "progress_from_payload (progress_note_as_dict n) = Inr n"
  by (simp add: progress_from_payload_def progress_note_as_dict_def get_or_def text_or_def
      req_field_def req_time_def finite_time_def)

lemma resource_codec: "resource_from_payload (snd (record_resource r)) = Inr r"
  by (simp add: resource_from_payload_def record_resource_def get_or_def req_text_def req_field_def
      req_time_def finite_time_def int_or_fail_def)

end
