(* ===== verification/Journal_Replay.thy ===== *)
theory Journal_Replay
  imports Journal_Codec State_Properties
begin

text \<open>
  Restart correctness: a hub that journals each accepted mutation, as the leasing handlers do,
  and later replays the journal has the registry it would have had without the restart.
\<close>

section \<open>What a run writes\<close>

text \<open>
  The rows the handlers append for one call: the snapshot of the claim after an accepted claim,
  renewal, update, checkpoint or handoff, the task of an accepted release, the accepted offer.
  A refused call and a pure presence call append nothing to these projections.
\<close>

definition snapshot_row :: "string \<Rightarrow> string \<Rightarrow> synapse_state \<times> reply \<Rightarrow> (string \<times> json_object) list" where
  "snapshot_row kind task r =
     (case r of
        (s', Inr m) \<Rightarrow> (case dget (claims s') task of Some c \<Rightarrow> [record_claim_snapshot kind c] | None \<Rightarrow> [])
      | (s', Inl m) \<Rightarrow> [])"

fun rows_of :: "state_op \<Rightarrow> synapse_state \<Rightarrow> (string \<times> json_object) list" where
  "rows_of (Claim agent task rq ts) s = snapshot_row ''claim'' (py_strip task) (claim agent task rq ts s)"
| "rows_of (Renew agent task ep ps ts) s = snapshot_row ''claim'' (py_strip task) (renew_claim agent task ep ps ts s)"
| "rows_of (Update agent task st n d ep v ts) s =
     snapshot_row ''task_update'' task (update_task agent task st n d ep v ts s)"
| "rows_of (Save agent task cp ep ts) s = snapshot_row ''checkpoint'' (py_strip task) (save_checkpoint agent task cp ep ts s)"
| "rows_of (Handoff agent task to n ep ts) s = snapshot_row ''handoff'' (py_strip task) (handoff agent task to n ep ts s)"
| "rows_of (Release agent task ep ts) s =
     (case release agent task ep ts s of (_, Inr m) \<Rightarrow> [record_release (py_strip task)] | _ \<Rightarrow> [])"
| "rows_of (ForceRelease task by') s =
     (case force_release task by' s of (_, Inr m) \<Rightarrow> [record_release (py_strip task)] | _ \<Rightarrow> [])"
| "rows_of (Offer agent kind name cap meta ts) s =
     (case offer_resource agent kind name cap meta ts s of
        (s', Some key) \<Rightarrow> (case dget (resources s') key of Some r \<Rightarrow> [record_resource r] | None \<Rightarrow> [])
      | (s', None) \<Rightarrow> [])"
| "rows_of (Heartbeat agent ts) s = []"
| "rows_of (Snapshot ts) s = []"
| "rows_of (CustodySet w) s = []"

fun run_journaled :: "state_op list \<Rightarrow> synapse_state \<Rightarrow> synapse_state \<times> (string \<times> json_object) list" where
  "run_journaled [] s = (s, [])"
| "run_journaled (op # ops) s =
     (let (s', rows) = run_journaled ops (run_op op s) in (s', rows_of op s @ rows))"

text \<open>The store numbers the rows from 1.\<close>

definition as_events :: "(string \<times> json_object) list \<Rightarrow> journal_event list" where
  "as_events rows = map (\<lambda>(i, kind, p). \<lparr>ev_seq = int i, ev_kind = kind, ev_payload = p\<rparr>) (enumerate 1 rows)"

section \<open>Admissible calls\<close>

text \<open>
  The calls a hub makes: no call is later than the restart, a claim's git context and path
  identity come from their decoders, the caller has a name, and no protected custody is involved.
\<close>

fun call_ok :: "time \<Rightarrow> state_op \<Rightarrow> bool" where
  "call_ok now (Claim agent task rq ts) \<longleftrightarrow>
     ts \<le> now \<and> agent \<noteq> [] \<and> (\<forall>g. req_git rq = Some g \<longrightarrow> git_ok g)
     \<and> (\<forall>i. req_identity rq = Some i \<longrightarrow> identity_parsed i)"
| "call_ok now (CustodySet w) \<longleftrightarrow> False"
| "call_ok now (Heartbeat agent ts) \<longleftrightarrow> ts \<le> now"
| "call_ok now (Renew agent task ep ps ts) \<longleftrightarrow> ts \<le> now"
| "call_ok now (Update agent task st n d ep v ts) \<longleftrightarrow> ts \<le> now"
| "call_ok now (Save agent task cp ep ts) \<longleftrightarrow> ts \<le> now"
| "call_ok now (Release agent task ep ts) \<longleftrightarrow> ts \<le> now"
| "call_ok now (Handoff agent task to n ep ts) \<longleftrightarrow> ts \<le> now"
| "call_ok now (Offer agent kind name cap meta ts) \<longleftrightarrow> ts \<le> now"
| "call_ok now (Snapshot ts) \<longleftrightarrow> ts \<le> now"
| "call_ok now (ForceRelease task by') \<longleftrightarrow> True"

section \<open>The simulation\<close>

text \<open>
  The context replayed so far agrees with the live registry except for leases that the live
  registry has already swept; those have run out by the time of the restart, and their
  checkpoints are what the live registry retains.  The tasks of \<open>L\<close> may be absent from the context
  though the registry has them: their release reached the log and was not published.
\<close>

definition replays :: "string set \<Rightarrow> time \<Rightarrow> synapse_state \<Rightarrow> replay_context \<Rightarrow> bool" where
  "replays L now s ctx \<longleftrightarrow>
     dict_ok (claims (rc_state ctx)) \<and> expired_checkpoints (rc_state ctx) = []
     \<and> protected_claim_custody (rc_state ctx) = [] \<and> rc_epoch_seq ctx = epoch_seq s
     \<and> (\<forall>k c. dget (claims s) k = Some c \<longrightarrow> persistable c
          \<and> (dget (claims (rc_state ctx)) k = Some c \<or> (k \<in> L \<and> dget (claims (rc_state ctx)) k = None)))
     \<and> (\<forall>k c. dget (claims (rc_state ctx)) k = Some c \<longrightarrow> dget (claims s) k = None \<longrightarrow>
          lease_expires_at c \<le> now
          \<and> dget (expired_checkpoints s) k = (if checkpoint c = [] then None else Some (checkpoint c)))
     \<and> (\<forall>k. k \<notin> L \<longrightarrow> dget (claims (rc_state ctx)) k = None \<longrightarrow>
          dget (claims s) k = None \<and> dget (expired_checkpoints s) k = None)"

lemma replaysD:
  assumes "replays L now s ctx"
  shows "dict_ok (claims (rc_state ctx))" "expired_checkpoints (rc_state ctx) = []"
    "protected_claim_custody (rc_state ctx) = []" "rc_epoch_seq ctx = epoch_seq s"
    "dget (claims s) k = Some c \<Longrightarrow> persistable c"
    "dget (claims s) k = Some c \<Longrightarrow> dget (claims (rc_state ctx)) k = Some c \<or> (k \<in> L \<and> dget (claims (rc_state ctx)) k = None)"
    "dget (claims (rc_state ctx)) k = Some c \<Longrightarrow> dget (claims s) k = None \<Longrightarrow> lease_expires_at c \<le> now"
    "dget (claims (rc_state ctx)) k = Some c \<Longrightarrow> dget (claims s) k = None \<Longrightarrow>
       dget (expired_checkpoints s) k = (if checkpoint c = [] then None else Some (checkpoint c))"
    "k \<notin> L \<Longrightarrow> dget (claims (rc_state ctx)) k = None \<Longrightarrow> dget (expired_checkpoints s) k = None"
    "k \<notin> L \<Longrightarrow> dget (claims (rc_state ctx)) k = None \<Longrightarrow> dget (claims s) k = None"
  using assms unfolding replays_def by blast+

lemma replays_mono: "replays L now s ctx \<Longrightarrow> L \<subseteq> L' \<Longrightarrow> replays L' now s ctx"
  unfolding replays_def by blast

lemma replays_start: "replays L now (init_state a b c d) (initial_context (init_state a b c d) bd)"
  by (simp add: replays_def initial_context_def init_state_def)

text \<open>A sweep that is not later than the restart keeps the simulation.\<close>

lemma replays_sweep:
  assumes r: "replays L now s ctx" and wf: "wf_state s" and "ts \<le> now"
    and cs: "claims s' = live_claims ts (claims s)" and ep: "epoch_seq s' = epoch_seq s"
    and cps: "\<And>k. dget (expired_checkpoints s') k =
      (case dget (claims s) k of
         Some c \<Rightarrow> if lease_expires_at c \<le> ts \<and> checkpoint c \<noteq> [] then Some (checkpoint c) else None
       | None \<Rightarrow> dget (expired_checkpoints s) k)"
  shows "replays L now s' ctx"
proof -
  note R = replaysD [OF r]
  have live: "dget (claims s') k = (case dget (claims s) k of None \<Rightarrow> None
      | Some c \<Rightarrow> if lease_expires_at c \<le> ts then None else Some c)" for k
    unfolding cs by (rule dget_live_claims [OF wf_stateD(1) [OF wf]])
  have kept: "persistable c \<and> (dget (claims (rc_state ctx)) k = Some c \<or> (k \<in> L \<and> dget (claims (rc_state ctx)) k = None))"
    if "dget (claims s') k = Some c" for k c
    using that R(5,6) by (auto simp: live split: option.splits if_splits)
  have swept: "lease_expires_at c \<le> now
      \<and> dget (expired_checkpoints s') k = (if checkpoint c = [] then None else Some (checkpoint c))"
    if c: "dget (claims (rc_state ctx)) k = Some c" and none: "dget (claims s') k = None" for k c
  proof (cases "dget (claims s) k")
    case None
    then show ?thesis using R(7,8) [OF c] by (simp add: cps)
  next
    case (Some x)
    then have "x = c" using R(6) [OF Some] c by simp
    then show ?thesis using Some none \<open>ts \<le> now\<close> by (auto simp: live cps split: if_splits)
  qed
  have absent: "dget (claims s') k = None \<and> dget (expired_checkpoints s') k = None"
    if "k \<notin> L" "dget (claims (rc_state ctx)) k = None" for k
    using R(9,10) [OF that] by (simp add: live cps)
  show ?thesis unfolding replays_def using R(1-4) ep kept swept absent by auto
qed

lemma replays_heartbeat:
  assumes "replays L now s ctx" and "wf_state s" and "ts \<le> now"
  shows "replays L now (heartbeat agent ts s) ctx"
  by (rule replays_sweep [OF assms])
    (simp_all add: claims_heartbeat [OF assms(2)] checkpoints_heartbeat [OF assms(2)] frame_simps)

lemma no_custody_held:
  "protected_claim_custody s = [] \<Longrightarrow> \<not> protected_task_held t s \<and> \<not> protected_scope_held t w p i s"
  by (simp add: protected_task_held_def protected_scope_held_def)

text \<open>Applying the row of a claim snapshot, and of a release.\<close>

lemma apply_snapshot:
  assumes "persistable c" and "protected_claim_custody (rc_state ctx) = []"
    and "ev_kind ev \<in> {''claim'', ''task_update'', ''checkpoint'', ''handoff''}" and "ev_payload ev = as_persisted_dict c"
  shows "apply_event ctx ev = Inr (ctx\<lparr>rc_state := (rc_state ctx)\<lparr>claims := dset (task_id c) c (claims (rc_state ctx)),
      last_seen := dset (owner c) (claimed_at c) (last_seen (rc_state ctx))\<rparr>,
      rc_epoch_seq := max (rc_epoch_seq ctx) (epoch c)\<rparr>)"
proof -
  have "dget event_appliers (ev_kind ev) = Some apply_claim_event"
    and "\<not> (ev_kind ev = ''protected_write'' \<or> py_startswith (ev_kind ev) ''protected_write_'')"
    using assms(3) by (auto simp: event_appliers_def py_startswith_def)
  then show ?thesis
    using no_custody_held [OF assms(2)]
    by (simp add: apply_event_def apply_claim_event_def assms(4) claim_codec [OF assms(1)] Let_def)
qed

lemma apply_release_row:
  assumes "protected_claim_custody (rc_state ctx) = []" and "ev_kind ev = ''release''"
    and "ev_payload ev = [(''task_id'', JString task)]"
  shows "apply_event ctx ev = Inr (ctx\<lparr>rc_state := (rc_state ctx)\<lparr>claims := ddel task (claims (rc_state ctx))\<rparr>\<rparr>)"
  using no_custody_held [OF assms(1)]
  by (simp add: apply_event_def event_appliers_def py_startswith_def apply_release_event_def assms(2,3)
      req_text_def req_field_def Let_def)

lemma apply_resource_row:
  assumes "ev_kind ev = ''resource''" and "ev_payload ev = snd (record_resource r)"
  shows "apply_event ctx ev = Inr (ctx\<lparr>rc_state := (rc_state ctx)\<lparr>resources :=
    dset (offer_key (offer_agent r) (offer_kind r) (offer_name r)) r (resources (rc_state ctx))\<rparr>\<rparr>)"
  by (simp add: apply_event_def event_appliers_def py_startswith_def apply_resource_event_def assms
      resource_codec Let_def)

text \<open>The three ways a call changes the registry, after its sweep.\<close>

lemma replays_store:
  assumes r: "replays L now s ctx" and c: "persistable c" "task_id c = k"
    and cs: "claims s' = dset k c (claims s)" and ep: "epoch_seq s' = max (epoch_seq s) (epoch c)"
    and cps: "\<And>j. j \<noteq> k \<Longrightarrow> dget (expired_checkpoints s') j = dget (expired_checkpoints s) j"
    and ev: "ev_kind ev \<in> {''claim'', ''task_update'', ''checkpoint'', ''handoff''}"
      "ev_payload ev = as_persisted_dict c"
  shows "\<exists>ctx'. apply_event ctx ev = Inr ctx' \<and> replays L now s' ctx'"
proof -
  note R = replaysD [OF r]
  let ?ctx = "ctx\<lparr>rc_state := (rc_state ctx)\<lparr>claims := dset (task_id c) c (claims (rc_state ctx)),
      last_seen := dset (owner c) (claimed_at c) (last_seen (rc_state ctx))\<rparr>,
      rc_epoch_seq := max (rc_epoch_seq ctx) (epoch c)\<rparr>"
  have "replays L now s' ?ctx"
    unfolding replays_def using R(1-5,7-10) R(6) c
    by (auto simp: cs ep cps split: if_splits)
  then show ?thesis using apply_snapshot [OF c(1) R(3) ev] by blast
qed

lemma replays_drop:
  assumes r: "replays L now s ctx" and ev: "ev_kind ev = ''release''" "ev_payload ev = [(''task_id'', JString k)]"
  shows "\<exists>ctx'. apply_event ctx ev = Inr ctx' \<and> replays L now (drop_claim k s) ctx'"
proof -
  note R = replaysD [OF r]
  let ?ctx = "ctx\<lparr>rc_state := (rc_state ctx)\<lparr>claims := ddel k (claims (rc_state ctx))\<rparr>\<rparr>"
  have "replays L now (drop_claim k s) ?ctx"
    unfolding replays_def using R(1-5,7-10) R(6)
    by (auto simp: drop_claim_def split: if_splits)
  then show ?thesis using apply_release_row [OF R(3) ev] by blast
qed

text \<open>A release that reached the log but not the registry.\<close>

lemma replays_lose:
  assumes r: "replays L now s ctx" and ev: "ev_kind ev = ''release''" "ev_payload ev = [(''task_id'', JString k)]"
  shows "\<exists>ctx'. apply_event ctx ev = Inr ctx' \<and> replays (insert k L) now s ctx'"
proof -
  note R = replaysD [OF r]
  let ?ctx = "ctx\<lparr>rc_state := (rc_state ctx)\<lparr>claims := ddel k (claims (rc_state ctx))\<rparr>\<rparr>"
  have "replays (insert k L) now s ?ctx"
    unfolding replays_def using R(1-5,7-10) R(6) by (auto split: if_splits)
  then show ?thesis using apply_release_row [OF R(3) ev] by blast
qed

lemma replays_same:
  assumes "replays L now s ctx" and "claims s' = claims s" and "epoch_seq s' = epoch_seq s"
    and "expired_checkpoints s' = expired_checkpoints s"
  shows "replays L now s' ctx"
  using assms by (simp add: replays_def)

section \<open>One call, one row at most\<close>

definition replayed_by :: "string set \<Rightarrow> time \<Rightarrow> synapse_state \<Rightarrow> (string \<times> json_object) list \<Rightarrow> replay_context \<Rightarrow> bool" where
  "replayed_by L now s' rows ctx \<longleftrightarrow>
     (\<forall>evs. map (\<lambda>ev. (ev_kind ev, ev_payload ev)) evs = rows \<longrightarrow>
        (\<exists>ctx'. apply_events evs ctx = Inr ctx' \<and> replays L now s' ctx'))"

lemma replayed_by_none: "replays L now s' ctx \<Longrightarrow> replayed_by L now s' [] ctx"
  by (simp add: replayed_by_def)

lemma replayed_by_one:
  assumes "\<And>ev. ev_kind ev = k \<Longrightarrow> ev_payload ev = p \<Longrightarrow> \<exists>ctx'. apply_event ctx ev = Inr ctx' \<and> replays L now s' ctx'"
  shows "replayed_by L now s' [(k, p)] ctx"
  unfolding replayed_by_def using assms by (fastforce simp: map_eq_Cons_conv)

lemma snapshot_row_refused [simp]: "snapshot_row kind task (s', Inl m) = []"
  by (simp add: snapshot_row_def)

lemma snapshot_row_granted:
  "dget (claims s') task = Some c \<Longrightarrow> snapshot_row kind task (s', Inr m) = [(kind, as_persisted_dict c)]"
  by (simp add: snapshot_row_def record_claim_snapshot_def)

lemma replayed_by_store:
  assumes "replays L now s ctx" and "persistable c" and "task_id c = k"
    and "claims s' = dset k c (claims s)" and "epoch_seq s' = max (epoch_seq s) (epoch c)"
    and "\<And>j. j \<noteq> k \<Longrightarrow> dget (expired_checkpoints s') j = dget (expired_checkpoints s) j"
    and "kind \<in> {''claim'', ''task_update'', ''checkpoint'', ''handoff''}"
  shows "replayed_by L now s' (snapshot_row kind k (s', Inr m)) ctx"
proof -
  have "snapshot_row kind k (s', Inr m) = [(kind, as_persisted_dict c)]"
    by (rule snapshot_row_granted) (simp add: assms(4))
  then show ?thesis
    using replays_store [OF assms(1-6)] assms(7) by (auto intro!: replayed_by_one)
qed

lemma persistable_touch: "touches c c' \<Longrightarrow> persistable c \<Longrightarrow> persistable c'"
  by (simp add: touches_def persistable_def)

lemma replayed_by_touch:
  assumes r: "replays L now s ctx" and wf: "wf_state s" and c: "dget (claims s) k = Some c" and t: "touches c c'"
    and cs: "claims s' = dset k c' (claims s)" and "epoch_seq s' = epoch_seq s"
    and "expired_checkpoints s' = expired_checkpoints s"
    and "kind \<in> {''claim'', ''task_update'', ''checkpoint'', ''handoff''}"
  shows "replayed_by L now s' (snapshot_row kind k (s', Inr m)) ctx"
proof -
  have "claim_ok s k c" by (rule wf_stateD(6) [OF wf c])
  then have "task_id c' = k" "epoch c' \<le> epoch_seq s" using t by (auto simp: claim_ok_def touches_def)
  then show ?thesis
    using assms(6-8) persistable_touch [OF t replaysD(5) [OF r c]] cs
    by (intro replayed_by_store [OF r]) auto
qed

lemma claim_principal_nonempty: "agent \<noteq> [] \<Longrightarrow> claim_principal agent q \<noteq> []"
  by (simp add: claim_principal_def Let_def)

lemma granted_claim_git: "git (granted_claim agent task rq prin ttl ps ts s) = req_git rq"
  by (simp add: granted_claim_def grant_claim_def Let_def split_beta)

lemma grant_claim_checkpoints:
  "j \<noteq> task \<Longrightarrow> dget (expired_checkpoints (grant_claim agent task rq prin ttl ps existing ts s)) j
     = dget (expired_checkpoints s) j"
  by (simp add: grant_claim_def Let_def split_beta claim_checkpoint_def split: option.split)

lemma replayed_claim:
  assumes r: "replays L now s ctx" and wf: "wf_state s" and ok: "call_ok now (Claim agent task' rq ts)"
  shows "replayed_by L now (run_op (Claim agent task' rq ts) s) (rows_of (Claim agent task' rq ts) s) ctx"
proof -
  have h: "replays L now (heartbeat agent ts s) ctx" using replays_heartbeat [OF r wf] ok by simp
  show ?thesis
  proof (cases rule: claim_cases [of agent task' rq ts s])
    case (granted h' task ps prin)
    let ?c = "granted_claim agent task rq prin (claim_ttl (req_ttl rq) s) ps ts h'"
    let ?s' = "grant_claim agent task rq prin (claim_ttl (req_ttl rq) s) ps (dget (claims h') task) ts h'"
    have "wf_state ?s'" unfolding granted(1) by (intro wf_grant_claim wf_heartbeat wf)
    then have "claim_ok ?s' task ?c" by (rule wf_stateD(6)) (simp add: grant_claim_stores)
    then have pers: "persistable ?c"
      using ok granted(11) claim_principal_nonempty
      by (auto simp: persistable_def granted_claim_fields granted_claim_git claim_ok_def granted(5))
    have ep: "epoch_seq ?s' = max (epoch_seq h') (epoch ?c)"
      by (simp add: grant_claim_stores(2)) (simp add: granted_claim_fields(3))
    show ?thesis
      unfolding run_op.simps rows_of.simps granted(6) fst_conv granted(2) [symmetric]
      by (rule replayed_by_store [OF h [folded granted(1)] pers granted_claim_fields(1) grant_claim_stores(1) ep
            grant_claim_checkpoints]) simp_all
  qed (simp_all add: replayed_by_none r h)
qed

lemma replayed_renew:
  assumes r: "replays L now s ctx" and wf: "wf_state s" and ok: "call_ok now (Renew agent task' ep ps ts)"
  shows "replayed_by L now (run_op (Renew agent task' ep ps ts) s) (rows_of (Renew agent task' ep ps ts) s) ctx"
proof -
  have h: "replays L now (heartbeat agent ts s) ctx" using replays_heartbeat [OF r wf] ok by simp
  show ?thesis
  proof (cases rule: renew_claim_cases [of agent task' ep ps ts s])
    case (granted h' task c)
    have wf': "wf_state h'" unfolding granted(1) by (rule wf_heartbeat [OF wf])
    then have "claim_ok h' task c" by (rule wf_stateD(6)) (rule granted(3))
    then show ?thesis
      unfolding run_op.simps rows_of.simps granted(8) fst_conv granted(2) [symmetric]
      by (intro replayed_by_touch [OF h [folded granted(1)] wf' granted(3)])
        (auto simp: touches_def claim_ok_def or_int_def)
  qed (simp_all add: replayed_by_none r h)
qed

lemma replayed_update:
  assumes r: "replays L now s ctx" and wf: "wf_state s" and ok: "call_ok now (Update agent task st n d ep v ts)"
  shows "replayed_by L now (run_op (Update agent task st n d ep v ts) s) (rows_of (Update agent task st n d ep v ts) s) ctx"
proof -
  have h: "replays L now (heartbeat agent ts s) ctx" using replays_heartbeat [OF r wf] ok by simp
  show ?thesis
  proof (cases rule: update_task_cases [of agent task st n d ep v ts s])
    case (granted h' c)
    have wf': "wf_state h'" unfolding granted(1) by (rule wf_heartbeat [OF wf])
    show ?thesis
      unfolding run_op.simps rows_of.simps granted(8) fst_conv
      by (rule replayed_by_touch [OF h [folded granted(1)] wf' granted(2) updated_claim_touches [OF granted(7)]])
        simp_all
  qed (simp_all add: replayed_by_none r h)
qed

lemma replayed_save:
  assumes r: "replays L now s ctx" and wf: "wf_state s" and ok: "call_ok now (Save agent task' cp ep ts)"
  shows "replayed_by L now (run_op (Save agent task' cp ep ts) s) (rows_of (Save agent task' cp ep ts) s) ctx"
proof -
  have h: "replays L now (heartbeat agent ts s) ctx" using replays_heartbeat [OF r wf] ok by simp
  show ?thesis
  proof (cases rule: save_checkpoint_cases [of agent task' cp ep ts s])
    case (granted h' task c)
    have wf': "wf_state h'" unfolding granted(1) by (rule wf_heartbeat [OF wf])
    show ?thesis
      unfolding run_op.simps rows_of.simps granted(7) fst_conv granted(2) [symmetric]
      by (rule replayed_by_touch [OF h [folded granted(1)] wf' granted(3)]) (simp_all add: touches_def)
  qed (simp_all add: replayed_by_none r h)
qed

lemma replayed_handoff:
  assumes r: "replays L now s ctx" and wf: "wf_state s" and ok: "call_ok now (Handoff agent task' to n ep ts)"
  shows "replayed_by L now (run_op (Handoff agent task' to n ep ts) s) (rows_of (Handoff agent task' to n ep ts) s) ctx"
proof -
  have h: "replays L now (heartbeat agent ts s) ctx" using replays_heartbeat [OF r wf] ok by simp
  show ?thesis
  proof (cases rule: handoff_cases [of agent task' to n ep ts s])
    case (granted h' task target c moved)
    have wf': "wf_state h'" unfolding granted(1) by (rule wf_heartbeat [OF wf])
    have "persistable c" by (rule replaysD(5) [OF h [folded granted(1)] granted(6)])
    then have "persistable moved"
      using wf_stateD(3) [OF wf'] by (auto simp: persistable_def granted(14) quota_bucket_def)
    moreover have "max (epoch_seq h') (epoch moved) = epoch_seq h' + 1" by (simp add: granted(14))
    ultimately show ?thesis
      unfolding run_op.simps rows_of.simps granted(15) fst_conv granted(2) [symmetric]
      by (intro replayed_by_store [OF h [folded granted(1)], where c = moved]) (simp_all, simp_all add: granted(14))
  qed (simp_all add: replayed_by_none r h)
qed

lemma replayed_release:
  assumes r: "replays L now s ctx" and wf: "wf_state s" and ok: "call_ok now (Release agent task' ep ts)"
  shows "replayed_by L now (run_op (Release agent task' ep ts) s) (rows_of (Release agent task' ep ts) s) ctx"
proof -
  have h: "replays L now (heartbeat agent ts s) ctx" using replays_heartbeat [OF r wf] ok by simp
  show ?thesis
  proof (cases rule: release_cases [of agent task' ep ts s])
    case (granted h' task c)
    show ?thesis
      unfolding run_op.simps rows_of.simps granted(7) granted(2) [symmetric]
      using replays_drop [OF h [folded granted(1)]]
      by (auto simp: record_release_def intro!: replayed_by_one)
  qed (simp_all add: replayed_by_none r h)
qed

lemma replayed_force_release:
  assumes r: "replays L now s ctx"
  shows "replayed_by L now (run_op (ForceRelease task' by') s) (rows_of (ForceRelease task' by') s) ctx"
proof (cases rule: force_release_cases [of task' by' s])
  case (granted task c)
  show ?thesis
    unfolding run_op.simps rows_of.simps granted(4) granted(1) [symmetric]
    using replays_drop [OF r] by (auto simp: record_release_def intro!: replayed_by_one)
qed (simp add: replayed_by_none r)

lemma replayed_offer:
  assumes r: "replays L now s ctx" and wf: "wf_state s" and ok: "call_ok now (Offer agent kind name cap meta ts)"
  shows "replayed_by L now (run_op (Offer agent kind name cap meta ts) s) (rows_of (Offer agent kind name cap meta ts) s) ctx"
proof -
  let ?s' = "run_op (Offer agent kind name cap meta ts) s"
  have "replays L now (heartbeat agent ts s) ctx" using replays_heartbeat [OF r wf] ok by simp
  then have s': "replays L now ?s' ctx"
    by (rule replays_same) (simp_all add: offer_resource_def Let_def split_beta)
  have "replays L now ?s' (ctx\<lparr>rc_state := (rc_state ctx)\<lparr>resources := rs\<rparr>\<rparr>)" for rs
    using s' by (simp add: replays_def)
  then show ?thesis
    using replayed_by_none [OF s'] apply_resource_row
    by (fastforce simp: record_resource_def intro!: replayed_by_one split: prod.split option.split)
qed

lemma replayed_op:
  assumes r: "replays L now s ctx" and wf: "wf_state s" and ok: "call_ok now op"
  shows "replayed_by L now (run_op op s) (rows_of op s) ctx"
proof (cases op)
  case (Heartbeat agent ts)
  then show ?thesis using replays_heartbeat [OF r wf] ok by (simp add: replayed_by_none)
next
  case (Snapshot ts)
  have "replays L now (fst (snapshot ts s)) ctx"
    by (rule replays_sweep [OF r wf])
      (use ok Snapshot in \<open>simp_all add: snapshot_def Let_def frame_simps expire_claims_live [OF wf]
        expire_claims_checkpoints [OF wf]\<close>)
  then show ?thesis using Snapshot by (simp add: replayed_by_none)
qed (use assms replayed_claim replayed_renew replayed_update replayed_save replayed_release
    replayed_force_release replayed_handoff replayed_offer in \<open>simp_all del: run_op.simps rows_of.simps call_ok.simps,
    simp_all\<close>)

section \<open>A whole run\<close>

lemma apply_events_append:
  "apply_events (xs @ ys) ctx = sum_bind (apply_events xs ctx) (apply_events ys)"
  by (induction xs arbitrary: ctx) (simp_all add: sum_bind_def split: sum.split)

lemma replays_run:
  assumes "replays L now s ctx" and "wf_state s" and "list_all (call_ok now) ops"
    and "map (\<lambda>ev. (ev_kind ev, ev_payload ev)) evs = snd (run_journaled ops s)"
  shows "\<exists>ctx'. apply_events evs ctx = Inr ctx' \<and> replays L now (fst (run_journaled ops s)) ctx'
    \<and> wf_state (fst (run_journaled ops s))"
  using assms
proof (induction ops arbitrary: s ctx evs)
  case (Cons op ops)
  have "map (\<lambda>ev. (ev_kind ev, ev_payload ev)) evs = rows_of op s @ snd (run_journaled ops (run_op op s))"
    using Cons.prems(4) by (simp add: split_beta)
  then obtain xs ys where evs: "evs = xs @ ys"
    and xs: "map (\<lambda>ev. (ev_kind ev, ev_payload ev)) xs = rows_of op s"
    and ys: "map (\<lambda>ev. (ev_kind ev, ev_payload ev)) ys = snd (run_journaled ops (run_op op s))"
    by (auto simp: map_eq_append_conv)
  obtain ctx1 where ctx1: "apply_events xs ctx = Inr ctx1" "replays L now (run_op op s) ctx1"
    using replayed_op [OF Cons.prems(1,2), of op] Cons.prems(3) xs by (auto simp: replayed_by_def)
  have "wf_state (run_op op s)" by (rule wf_run_op [OF Cons.prems(2)])
  from Cons.IH [OF ctx1(2) this _ ys] Cons.prems(3) ctx1(1) show ?case
    by (auto simp: evs apply_events_append split_beta)
qed simp

lemma run_journaled_fold: "fst (run_journaled ops s) = fold run_op ops s"
  by (induction ops arbitrary: s) (simp_all add: split_beta)

lemma as_events_rows: "map (\<lambda>ev. (ev_kind ev, ev_payload ev)) (as_events rows) = rows"
proof -
  have "map (\<lambda>ev. (ev_kind ev, ev_payload ev)) (as_events rows) = map snd (enumerate 1 rows)"
    by (simp add: as_events_def comp_def split_beta)
  then show ?thesis by simp
qed

lemma iter_all [simp]: "iter_events rows None None = rows"
  by (simp add: iter_events_def)

text \<open>Expiry right after the lease index has been rebuilt.\<close>

lemma rebuilt_expiry:
  assumes ok: "dict_ok (claims s)" and index: "lease_index s = index_rebuild (claims s)" and "expired_checkpoints s = []"
  shows "claims (expire_claims now s) = live_claims now (claims s)"
    and "dget (expired_checkpoints (expire_claims now s)) k = (case dget (claims s) k of
      Some c \<Rightarrow> if lease_expires_at c \<le> now \<and> checkpoint c \<noteq> [] then Some (checkpoint c) else None | None \<Rightarrow> None)"
proof -
  let ?due = "fst (pop_due now (index_rebuild (claims s)))"
  have indexed: "indexed (set (index_rebuild (claims s))) (claims s)" by (rule lease_heap.rebuild_indexed [OF ok])
  show "claims (expire_claims now s) = live_claims now (claims s)"
    using lease_heap.expire_due_live [OF ok index_rebuild_sorted indexed]
    by (simp add: expire_claims_def split_beta index live_claims_def)
  have "is_due now ?due (k, c) \<longleftrightarrow> lease_expires_at c \<le> now" if "dget (claims s) k = Some c" for c
    using lease_heap.sweep_finds_due [OF index_rebuild_sorted indexed that] by (auto simp: is_due_def)
  then show "dget (expired_checkpoints (expire_claims now s)) k = (case dget (claims s) k of
      Some c \<Rightarrow> if lease_expires_at c \<le> now \<and> checkpoint c \<noteq> [] then Some (checkpoint c) else None | None \<Rightarrow> None)"
    using expire_due_checkpoints [OF ok, of now ?due "[]" k] assms(3)
    by (simp add: expire_claims_def split_beta index split: option.splits)
qed

section \<open>Properties\<close>

text \<open>A log that replays a state rebuilds it, swept at the time of the restart.\<close>

lemma replay_of_replays_but:
  assumes ctx: "apply_events rows (initial_context s0 bd) = Inr ctx" and R: "replays L now s ctx" and wf: "wf_state s"
  shows "\<exists>ctx'. replay s0 bd now None None rows = Inr ctx'
    \<and> epoch_seq (rc_state ctx') = epoch_seq s
    \<and> (\<forall>k. dget (claims (rc_state ctx')) k = dget (claims (expire_claims now s)) k
             \<and> dget (expired_checkpoints (rc_state ctx')) k = dget (expired_checkpoints (expire_claims now s)) k
           \<or> k \<in> L \<and> dget (claims (rc_state ctx')) k = None \<and> dget (expired_checkpoints (rc_state ctx')) k = None)"
proof -
  let ?s1 = "reindex_leases ((rc_state ctx)\<lparr>epoch_seq := rc_epoch_seq ctx\<rparr>)"
  let ?ctx = "ctx\<lparr>rc_state := expire_resources now (expire_claims now ?s1)\<rparr>"
  have replay: "replay s0 bd now None None rows = Inr ?ctx" by (simp add: replay_def ctx Let_def)
  note R = replaysD [OF R]
  note E = rebuilt_expiry [of ?s1 now, simplified reindex_leases_def, simplified, OF R(1,2)]
  have cs: "dget (claims (rc_state ?ctx)) k = (case dget (claims (rc_state ctx)) k of None \<Rightarrow> None
      | Some c \<Rightarrow> if lease_expires_at c \<le> now then None else Some c)" for k
    by (simp add: frame_simps reindex_leases_def E(1) dget_live_claims [OF R(1)])
  have cps: "dget (expired_checkpoints (rc_state ?ctx)) k = (case dget (claims (rc_state ctx)) k of
      Some c \<Rightarrow> if lease_expires_at c \<le> now \<and> checkpoint c \<noteq> [] then Some (checkpoint c) else None | None \<Rightarrow> None)" for k
    by (simp add: frame_simps reindex_leases_def E(2))
  have live: "dget (claims (expire_claims now s)) k = (case dget (claims s) k of None \<Rightarrow> None
      | Some c \<Rightarrow> if lease_expires_at c \<le> now then None else Some c)" for k
    by (simp add: expire_claims_live [OF wf] dget_live_claims [OF wf_stateD(1) [OF wf]])
  have "dget (claims (rc_state ?ctx)) k = dget (claims (expire_claims now s)) k
      \<and> dget (expired_checkpoints (rc_state ?ctx)) k = dget (expired_checkpoints (expire_claims now s)) k"
    if "k \<notin> L \<or> dget (claims (rc_state ctx)) k \<noteq> None" for k
    using R(6-10) [of k] that unfolding cs cps live
    by (cases "dget (claims (rc_state ctx)) k"; cases "dget (claims s) k")
      (auto simp: expire_claims_checkpoints [OF wf])
  moreover have "dget (claims (rc_state ?ctx)) k = None \<and> dget (expired_checkpoints (rc_state ?ctx)) k = None"
    if "dget (claims (rc_state ctx)) k = None" for k
    using that unfolding cs cps by simp
  moreover have "epoch_seq (rc_state ?ctx) = epoch_seq s"
    by (simp add: frame_simps reindex_leases_def R(4))
  ultimately show ?thesis using replay by blast
qed

lemma replay_of_replays:
  assumes "apply_events rows (initial_context s0 bd) = Inr ctx" and "replays {} now s ctx" and "wf_state s"
  shows "\<exists>ctx'. replay s0 bd now None None rows = Inr ctx'
    \<and> (\<forall>k. dget (claims (rc_state ctx')) k = dget (claims (expire_claims now s)) k)
    \<and> (\<forall>k. dget (expired_checkpoints (rc_state ctx')) k = dget (expired_checkpoints (expire_claims now s)) k)
    \<and> epoch_seq (rc_state ctx') = epoch_seq s"
  using replay_of_replays_but [OF assms] by auto

text \<open>
  C2: Restart loses nothing.  Take any sequence of calls from a fresh hub (claims, renewals,
  updates, checkpoints, handoffs, releases, operator releases, offers, sweeps), made no later
  than the restart, and replay the rows the handlers journaled for the accepted ones: replay
  succeeds, and its claims, its retained checkpoints and its epoch sequence are those of the
  running hub after a sweep at the time of the restart.
\<close>

theorem replay_reconstructs_registry:
  assumes "list_all (call_ok now) ops" and "s = fold run_op ops (init_state a b c d)"
  shows "\<exists>ctx. replay (init_state a b c d) bd now None None
        (as_events (snd (run_journaled ops (init_state a b c d)))) = Inr ctx
    \<and> (\<forall>k. dget (claims (rc_state ctx)) k = dget (claims (expire_claims now s)) k)
    \<and> (\<forall>k. dget (expired_checkpoints (rc_state ctx)) k = dget (expired_checkpoints (expire_claims now s)) k)
    \<and> epoch_seq (rc_state ctx) = epoch_seq s"
proof -
  let ?s0 = "init_state a b c d"
  have s: "fst (run_journaled ops ?s0) = s" by (simp add: run_journaled_fold assms(2))
  obtain ctx where "apply_events (as_events (snd (run_journaled ops ?s0))) (initial_context ?s0 bd) = Inr ctx"
    and "replays {} now s ctx" and "wf_state s"
    using replays_run [OF replays_start [of "{}" now a b c d bd] wf_init assms(1) as_events_rows] unfolding s by blast
  then show ?thesis by (rule replay_of_replays)
qed

theorem replay_reconstructs_registry_witness:
  "\<exists>ctx. replay (small_hub 2) (init_board 9 9 9) 2 None None
       (as_events (snd (run_journaled demo_ops (small_hub 2)))) = Inr ctx
     \<and> dget (claims (rc_state ctx)) ''T'' = Some claim_T \<and> epoch_seq (rc_state ctx) = 2"
proof -
  have "list_all (call_ok 2) demo_ops"
    by (simp add: demo_ops_def plain_request_def)
  moreover have "dget (claims (expire_claims 2 demo)) ''T'' = Some claim_T"
    using expire_claims_live [OF wf_reachable [OF reachable_demo], of 2]
    by (simp add: demo_claims live_claims_def claim_T_def claim_U_def)
  ultimately show ?thesis
    using replay_reconstructs_registry [of 2 demo_ops demo, folded small_hub_def, OF _ demo_def [unfolded small_hub_def]]
    by (simp add: small_hub_def demo_fields) metis
qed

text \<open>
  What is journaled comes back as it was: for every claim a registry can hold, the claim
  decoded from its persisted form is the claim itself, git context, path identity, epochs and
  quota principal included.
\<close>

theorem claim_journal_round_trip:
  assumes "persistable c"
  shows "claim_from_payload (as_persisted_dict c) = Inr c"
  by (rule claim_codec [OF assms])

theorem claim_journal_round_trip_witness: "claim_from_payload (as_persisted_dict claim_T) = Inr claim_T"
  by (rule claim_journal_round_trip) (simp add: persistable_def claim_T_def)

text \<open>
  The same for the plan: a task and a progress note decode from their journaled form to
  themselves, whatever their fields are.
\<close>

theorem plan_journal_round_trip:
  "ledger_task_from_payload (ledger_task_as_dict t) = Inr t \<and> progress_from_payload (progress_note_as_dict n) = Inr n"
  by (simp add: ledger_task_codec progress_codec)

end
