(* ===== verification/Compaction.thy ===== *)
theory Compaction
  imports Journal_Replay
begin

text \<open>
  Retention below the compaction floor (\<open>core/compaction.py\<close>): deleting the superseded
  checkpoint rows does not change the claims that replay reconstructs.
\<close>

section \<open>The last word on a task\<close>

text \<open>What an event says about the claims: the task it decides, and the claim it leaves there.\<close>

type_synonym claim_fact = "string \<times> task_claim option"

fun final_claim :: "claim_fact option list \<Rightarrow> string \<Rightarrow> task_claim option \<Rightarrow> task_claim option" where
  "final_claim [] k d = d"
| "final_claim (None # fs) k d = final_claim fs k d"
| "final_claim (Some (t, v) # fs) k d = final_claim fs k (if t = k then v else d)"

lemma final_claim_decided: "\<exists>v. Some (k, v) \<in> set fs \<Longrightarrow> final_claim fs k d = final_claim fs k d'"
proof (induction fs arbitrary: d d')
  case (Cons f fs)
  show ?case
  proof (cases f)
    case None
    then show ?thesis using Cons by auto
  next
    case (Some tv)
    obtain t v where tv: "tv = (t, v)" by fastforce
    show ?thesis
    proof (cases "t = k")
      case True
      then show ?thesis using Some tv by simp
    next
      case False
      then show ?thesis using Some tv Cons by simp
    qed
  qed
qed simp

text \<open>Dropping facts that are overruled by a kept later fact changes no last word.\<close>

lemma final_claim_filter:
  assumes "\<And>xs x ys. es = xs @ x # ys \<Longrightarrow> \<not> keep x \<Longrightarrow>
      f x = None \<or> (\<exists>t v w y. f x = Some (t, v) \<and> y \<in> set ys \<and> keep y \<and> f y = Some (t, w))"
  shows "final_claim (map f (filter keep es)) k d = final_claim (map f es) k d"
  using assms
proof (induction es arbitrary: d)
  case (Cons e es)
  have tail: "f x = None \<or> (\<exists>t v w y. f x = Some (t, v) \<and> y \<in> set ys \<and> keep y \<and> f y = Some (t, w))"
    if "es = xs @ x # ys" "\<not> keep x" for xs x ys
    using Cons.prems [of "e # xs" x ys] that by simp
  note IH = Cons.IH [OF tail]
  show ?case
  proof (cases "keep e")
    case True
    then show ?thesis using IH by (cases "f e") auto
  next
    case False
    show ?thesis
    proof (cases "f e")
      case None
      then show ?thesis using False IH by simp
    next
      case (Some tv)
      then obtain t v w y where fe: "f e = Some (t, v)" and y: "y \<in> set es" "f y = Some (t, w)"
        using Cons.prems [of "[]" e es] False by auto
      have "final_claim (map f es) k d = final_claim (map f es) k (if t = k then v else d)"
        using final_claim_decided [of k "map f es"] y by (cases "t = k") force+
      then show ?thesis using False IH [where d = d] fe by simp
    qed
  qed
qed simp

section \<open>Events and their facts\<close>

definition snapshot_kinds :: "string list" where
  "snapshot_kinds = [''claim'', ''task_update'', ''checkpoint'', ''handoff'']"

definition claim_fact :: "journal_event \<Rightarrow> claim_fact option" where
  "claim_fact ev =
     (if ev_kind ev \<in> set snapshot_kinds
      then (case claim_from_payload (ev_payload ev) of Inr c \<Rightarrow> Some (task_id c, Some c) | Inl _ \<Rightarrow> None)
      else if ev_kind ev = ''release''
      then (case req_text (ev_payload ev) ''task_id'' of Inr t \<Rightarrow> Some (t, None) | Inl _ \<Rightarrow> None)
      else None)"

definition replay_clean :: "replay_context \<Rightarrow> bool" where
  "replay_clean ctx \<longleftrightarrow> protected_claim_custody (rc_state ctx) = []
     \<and> dict_ok (claims (rc_state ctx)) \<and> expired_checkpoints (rc_state ctx) = []"

definition follows :: "journal_event \<Rightarrow> replay_context \<Rightarrow> replay_context \<Rightarrow> bool" where
  "follows ev ctx ctx' \<longleftrightarrow> replay_clean ctx'
     \<and> (\<forall>k. dget (claims (rc_state ctx')) k = final_claim [claim_fact ev] k (dget (claims (rc_state ctx)) k))"

text \<open>Whether an event applies does not depend on the context, as long as no custody is held.\<close>

lemma sum_bind_Inr: "sum_bind m f = Inr r \<longleftrightarrow> (\<exists>v. m = Inr v \<and> f v = Inr r)"
  by (cases m) auto

lemma apply_claim_event_follows:
  assumes "replay_clean ctx" and "apply_claim_event ctx ev = Inr ctx'" and "ev_kind ev \<in> set snapshot_kinds"
  shows "follows ev ctx ctx' \<and> (\<forall>ctx2. replay_clean ctx2 \<longrightarrow> (\<exists>ctx2'. apply_claim_event ctx2 ev = Inr ctx2'))"
proof -
  have none: "\<not> protected_task_held t (rc_state c2) \<and> \<not> protected_scope_held t w p i (rc_state c2)"
    if "replay_clean c2" for c2 t w p i
    using that no_custody_held by (simp add: replay_clean_def)
  obtain c where c: "claim_from_payload (ev_payload ev) = Inr c"
    using assms(2) by (auto simp: apply_claim_event_def sum_bind_Inr)
  show ?thesis
    using assms none by (auto simp: apply_claim_event_def c Let_def follows_def replay_clean_def claim_fact_def)
qed

lemma apply_release_event_follows:
  assumes "replay_clean ctx" and "apply_release_event ctx ev = Inr ctx'" and "ev_kind ev = ''release''"
  shows "follows ev ctx ctx' \<and> (\<forall>ctx2. replay_clean ctx2 \<longrightarrow> (\<exists>ctx2'. apply_release_event ctx2 ev = Inr ctx2'))"
proof -
  obtain t where t: "req_text (ev_payload ev) ''task_id'' = Inr t"
    using assms(2) by (auto simp: apply_release_event_def sum_bind_Inr)
  have "\<not> protected_task_held t (rc_state c2)" if "replay_clean c2" for c2
    using that no_custody_held by (simp add: replay_clean_def)
  then show ?thesis
    using assms by (auto simp: apply_release_event_def t Let_def follows_def replay_clean_def claim_fact_def
        snapshot_kinds_def)
qed

text \<open>The remaining appliers leave the claims, the custody and the retained checkpoints alone.\<close>

definition bystander :: "applier \<Rightarrow> bool" where
  "bystander f \<longleftrightarrow> (\<forall>ctx ev ctx'. f ctx ev = Inr ctx' \<longrightarrow>
     claims (rc_state ctx') = claims (rc_state ctx)
     \<and> protected_claim_custody (rc_state ctx') = protected_claim_custody (rc_state ctx)
     \<and> expired_checkpoints (rc_state ctx') = expired_checkpoints (rc_state ctx)
     \<and> (\<forall>ctx2. \<exists>ctx2'. f ctx2 ev = Inr ctx2'))"

lemma bystanderI:
  assumes "\<And>ctx ev ctx'. f ctx ev = Inr ctx' \<Longrightarrow> claims (rc_state ctx') = claims (rc_state ctx)
     \<and> protected_claim_custody (rc_state ctx') = protected_claim_custody (rc_state ctx)
     \<and> expired_checkpoints (rc_state ctx') = expired_checkpoints (rc_state ctx)"
    and "\<And>ctx ctx2 ev ctx'. f ctx ev = Inr ctx' \<Longrightarrow> \<exists>ctx2'. f ctx2 ev = Inr ctx2'"
  shows "bystander f"
  using assms unfolding bystander_def by blast

lemma bystander_resource: "bystander apply_resource_event"
  by (rule bystanderI) (auto simp: apply_resource_event_def Let_def sum_bind_Inr)

lemma bystander_ledger_task: "bystander apply_ledger_task_event"
  by (rule bystanderI) (auto simp: apply_ledger_task_event_def Let_def sum_bind_Inr)

lemma bystander_progress: "bystander apply_progress_event"
  by (rule bystanderI) (auto simp: apply_progress_event_def sum_bind_Inr)

lemma bystander_chat: "bystander apply_chat_event"
  by (rule bystanderI) (auto simp: apply_chat_event_def sum_bind_Inr)

lemma bystander_idempotency: "bystander apply_idempotency_event"
  by (rule bystanderI) (auto simp: apply_idempotency_event_def sum_bind_Inr split: if_splits json.splits)

lemma bystander_finding: "bystander apply_finding_event"
  by (rule bystanderI) (auto simp: apply_finding_event_def Let_def sum_bind_Inr split: json.splits if_splits)

lemma bystander_relay: "bystander apply_relay_event" and bystander_corrupt: "bystander apply_corrupt_event"
  by (rule bystanderI; auto simp: apply_relay_event_def apply_corrupt_event_def)+

lemmas bystanders =
  bystander_resource bystander_ledger_task bystander_progress bystander_chat bystander_idempotency
  bystander_finding bystander_relay bystander_corrupt

lemma apply_event_follows:
  assumes "replay_clean ctx" and "apply_event ctx ev = Inr ctx'"
  shows "follows ev ctx ctx' \<and> (\<forall>ctx2. replay_clean ctx2 \<longrightarrow> (\<exists>ctx2'. apply_event ctx2 ev = Inr ctx2'))"
proof -
  have np: "\<not> (ev_kind ev = ''protected_write'' \<or> py_startswith (ev_kind ev) ''protected_write_'')"
    using assms(2) by (auto simp: apply_event_def)
  have ev: "apply_event c2 ev = (case dget event_appliers (ev_kind ev) of None \<Rightarrow> Inr c2 | Some f \<Rightarrow> f c2 ev)" for c2
    using np by (simp add: apply_event_def)
  consider "ev_kind ev \<in> set snapshot_kinds" | "ev_kind ev = ''release''"
    | "ev_kind ev \<notin> set snapshot_kinds" "ev_kind ev \<noteq> ''release''" by blast
  then show ?thesis
  proof cases
    case 1
    then have "dget event_appliers (ev_kind ev) = Some apply_claim_event"
      by (auto simp: snapshot_kinds_def event_appliers_def)
    then show ?thesis using apply_claim_event_follows [OF assms(1) _ 1] assms(2) by (simp add: ev)
  next
    case 2
    then have "dget event_appliers (ev_kind ev) = Some apply_release_event" by (simp add: event_appliers_def)
    then show ?thesis using apply_release_event_follows [OF assms(1) _ 2] assms(2) by (simp add: ev)
  next
    case 3
    then have fact: "claim_fact ev = None" by (simp add: claim_fact_def)
    show ?thesis
    proof (cases "dget event_appliers (ev_kind ev)")
      case None
      then show ?thesis using assms fact by (simp add: ev follows_def)
    next
      case (Some f)
      with 3 have "bystander f"
        by (auto simp: event_appliers_def snapshot_kinds_def bystanders split: if_splits)
      then show ?thesis using assms fact Some unfolding bystander_def
        by (simp add: ev follows_def replay_clean_def)
    qed
  qed
qed

lemma apply_events_final:
  assumes "replay_clean ctx" and "apply_events evs ctx = Inr ctx'"
  shows "dget (claims (rc_state ctx')) k = final_claim (map claim_fact evs) k (dget (claims (rc_state ctx)) k)"
  using assms
proof (induction evs arbitrary: ctx)
  case (Cons ev evs)
  then obtain c1 where c1: "apply_event ctx ev = Inr c1" "apply_events evs c1 = Inr ctx'"
    by (auto simp: sum_bind_Inr)
  from apply_event_follows [OF Cons.prems(1) c1(1)] have f: "follows ev ctx c1" by blast
  then have "dget (claims (rc_state ctx')) k = final_claim (map claim_fact evs) k (dget (claims (rc_state c1)) k)"
    using Cons.IH [OF _ c1(2)] by (simp add: follows_def)
  also have "dget (claims (rc_state c1)) k = final_claim [claim_fact ev] k (dget (claims (rc_state ctx)) k)"
    using f by (simp add: follows_def)
  finally show ?case by (cases "claim_fact ev") auto
qed simp

lemma apply_events_filter:
  assumes "replay_clean ctx" and "apply_events evs ctx = Inr ctx'" and "replay_clean ctx2"
  shows "\<exists>ctx2'. apply_events (filter keep evs) ctx2 = Inr ctx2'"
  using assms
proof (induction evs arbitrary: ctx ctx2)
  case (Cons ev evs)
  then obtain c1 where c1: "apply_event ctx ev = Inr c1" "apply_events evs c1 = Inr ctx'"
    by (auto simp: sum_bind_Inr)
  note step = apply_event_follows [OF Cons.prems(1) c1(1)]
  have free1: "replay_clean c1" using step by (simp add: follows_def)
  obtain c2 where c2: "apply_event ctx2 ev = Inr c2" using step Cons.prems(3) by blast
  have free2: "replay_clean c2"
    using apply_event_follows [OF Cons.prems(3) c2] by (simp add: follows_def)
  show ?case
    using Cons.IH [OF free1 c1(2) free2] Cons.IH [OF free1 c1(2) Cons.prems(3)] c2 by simp
qed simp

lemma apply_events_clean:
  assumes "replay_clean ctx" and "apply_events evs ctx = Inr ctx'"
  shows "replay_clean ctx'"
  using assms
proof (induction evs arbitrary: ctx)
  case (Cons ev evs)
  then obtain c1 where c1: "apply_event ctx ev = Inr c1" "apply_events evs c1 = Inr ctx'"
    by (auto simp: sum_bind_Inr)
  from apply_event_follows [OF Cons.prems(1) c1(1)] have "replay_clean c1" by (simp add: follows_def)
  then show ?case by (rule Cons.IH [OF _ c1(2)])
qed simp

lemma apply_events_each:
  assumes "replay_clean ctx" and "apply_events evs ctx = Inr ctx'" and "ev \<in> set evs"
  shows "\<exists>c1 c2. replay_clean c1 \<and> apply_event c1 ev = Inr c2"
  using assms
proof (induction evs arbitrary: ctx)
  case (Cons e evs)
  then obtain c1 where c1: "apply_event ctx e = Inr c1" "apply_events evs c1 = Inr ctx'"
    by (auto simp: sum_bind_Inr)
  from apply_event_follows [OF Cons.prems(1) c1(1)] have "replay_clean c1" by (simp add: follows_def)
  then show ?case using Cons.IH [OF _ c1(2)] Cons.prems(1,3) c1(1) by auto
qed simp

section \<open>The superseded checkpoints\<close>

lemma claim_payload_task: "claim_from_payload p = Inr c \<Longrightarrow> text_or p ''task_id'' [] = Inr (task_id c)"
proof -
  assume "claim_from_payload p = Inr c"
  then have "req_text p ''task_id'' = Inr (task_id c)"
    by (auto simp: claim_from_payload_def Let_def sum_bind_Inr split: sum.splits if_splits)
  then show ?thesis
    by (auto simp: req_text_def req_field_def text_or_def get_or_def split: option.splits)
qed

lemma checkpoint_fact:
  assumes "replay_clean ctx" and "apply_events rows ctx = Inr ctx'" and "ev \<in> set rows" and "ev_kind ev = ''checkpoint''"
  shows "\<exists>c. claim_fact ev = Some (task_id c, Some c) \<and> checkpoint_task ev = Inr (task_id c)"
proof -
  obtain c1 c2 where "apply_event c1 ev = Inr c2" using apply_events_each [OF assms(1-3)] by blast
  then have "apply_claim_event c1 ev = Inr c2"
    using assms(4) by (simp add: apply_event_def event_appliers_def py_startswith_def)
  then obtain c where "claim_from_payload (ev_payload ev) = Inr c" by (auto simp: apply_claim_event_def sum_bind_Inr)
  then show ?thesis
    using assms(4) claim_payload_task by (auto simp: claim_fact_def snapshot_kinds_def checkpoint_task_def)
qed

lemma last_not_in_take:
  assumes "distinct xs" and "1 \<le> keep" and "keep < length xs"
  shows "last xs \<notin> set (take (length xs - keep) xs)"
proof
  let ?n = "length xs - keep"
  assume "last xs \<in> set (take ?n xs)"
  moreover have "drop ?n xs \<noteq> []" "last (drop ?n xs) = last xs" using assms(2,3) by (auto simp: last_drop)
  then have "last xs \<in> set (drop ?n xs)" by (metis last_in_set)
  ultimately show False using assms(1) by (metis append_take_drop_id disjoint_iff distinct_append)
qed

text \<open>A doomed row has a newer row of the same task that is kept.\<close>

lemma superseded_has_successor:
  assumes sorted: "sorted_wrt (<) (map ev_seq rows)" and "1 \<le> keep" and x: "x \<in> set rows"
    and doomed: "ev_seq x \<in> set (superseded_checkpoints rows floor_seq keep)"
  shows "ev_kind x = ''checkpoint'' \<and> (\<exists>y \<in> set rows. ev_kind y = ''checkpoint'' \<and> checkpoint_task y = checkpoint_task x
    \<and> ev_seq x < ev_seq y \<and> ev_seq y \<notin> set (superseded_checkpoints rows floor_seq keep))"
proof -
  define cps where "cps = filter (\<lambda>ev. ev_kind ev = ''checkpoint'' \<and> ev_seq ev \<le> floor_seq) rows"
  define seqs where "seqs t = sort (map ev_seq (filter (\<lambda>ev. checkpoint_task ev = t) cps))" for t
  have distinct: "distinct (map ev_seq rows)" using sorted by (simp add: strict_sorted_iff)
  then have inj: "inj_on ev_seq (set rows)" by (simp add: distinct_map)
  have dom: "q \<in> set (superseded_checkpoints rows floor_seq keep) \<longleftrightarrow>
      (\<exists>t \<in> checkpoint_task ` set cps. keep < length (seqs t) \<and> q \<in> set (take (length (seqs t) - keep) (seqs t)))" for q
  proof -
    have "superseded_checkpoints rows floor_seq keep = concat (map (\<lambda>t. if length (seqs t) > keep
        then take (length (seqs t) - keep) (seqs t) else []) (remdups (map checkpoint_task cps)))"
      by (simp only: superseded_checkpoints_def Let_def cps_def seqs_def)
    then show ?thesis by (simp only: set_concat set_map set_remdups) (auto split: if_splits)
  qed
  have sub: "set cps \<subseteq> set rows" by (auto simp: cps_def)
  have set_seqs: "set (seqs t) = ev_seq ` {ev \<in> set cps. checkpoint_task ev = t}" for t by (auto simp: seqs_def)
  have seqs: "sorted (seqs t) \<and> distinct (seqs t)" for t
    using distinct by (auto simp: seqs_def cps_def distinct_map intro: inj_on_subset)
  have owner: "checkpoint_task e = t \<and> e \<in> set cps" if "e \<in> set rows" "ev_seq e \<in> set (seqs t)" for e t
    using that inj sub unfolding set_seqs by (auto dest!: inj_onD)
  obtain t where len: "keep < length (seqs t)" and xin: "ev_seq x \<in> set (take (length (seqs t) - keep) (seqs t))"
    using doomed dom by blast
  have xt: "checkpoint_task x = t" "x \<in> set cps" using owner [OF x] in_set_takeD [OF xin] by blast+
  have ne: "seqs t \<noteq> []" using len by auto
  then obtain y where y: "y \<in> set cps" "checkpoint_task y = t" "ev_seq y = last (seqs t)"
    using last_in_set [OF ne] unfolding set_seqs by auto
  have notin: "last (seqs t) \<notin> set (take (length (seqs t) - keep) (seqs t))"
    by (rule last_not_in_take) (use seqs assms(2) len in auto)
  have "ev_seq x \<le> last (seqs t)"
    using seqs [of t] in_set_takeD [OF xin] ne by (metis append_butlast_last_id set_append sorted_append UnE empty_iff
        list.set(1) list.set(2) order_refl insert_iff)
  then have less: "ev_seq x < ev_seq y" using notin xin y(3) by (metis order_le_neq_trans)
  have kept: "ev_seq y \<notin> set (superseded_checkpoints rows floor_seq keep)"
  proof
    assume "ev_seq y \<in> set (superseded_checkpoints rows floor_seq keep)"
    then obtain t' where t': "ev_seq y \<in> set (take (length (seqs t') - keep) (seqs t'))" using dom by blast
    then have "t' = t" using owner [of y t'] y sub in_set_takeD [OF t'] by blast
    then show False using t' notin y(3) by simp
  qed
  show ?thesis using xt y sub less kept by (auto simp: cps_def)
qed

lemma later_in_suffix:
  assumes "sorted_wrt (<) (map ev_seq (xs @ x # ys))" and "y \<in> set (xs @ x # ys)" and "ev_seq x < ev_seq y"
  shows "y \<in> set ys"
  using assms by (auto simp: sorted_wrt_append)

text \<open>
  C24: Compaction keeps what replay reconstructs: deleting the superseded checkpoint rows at or
  below any floor, keeping at least one per task, never makes replay fail and never changes the
  claims or the retained checkpoints it rebuilds.
\<close>

theorem compaction_preserves_replay:
  assumes "sorted_wrt (<) (map ev_seq rows)" and "1 \<le> keep"
    and "replay (init_state a b c d) bd now None None rows = Inr ctx"
  shows "\<exists>ctx'. replay (init_state a b c d) bd now None None
        (delete_events (superseded_checkpoints rows floor_seq keep) rows) = Inr ctx'
    \<and> (\<forall>k. dget (claims (rc_state ctx')) k = dget (claims (rc_state ctx)) k
           \<and> dget (expired_checkpoints (rc_state ctx')) k = dget (expired_checkpoints (rc_state ctx)) k)"
proof -
  let ?c0 = "initial_context (init_state a b c d) bd" and ?doomed = "superseded_checkpoints rows floor_seq keep"
  have clean: "replay_clean ?c0" by (simp add: replay_clean_def initial_context_def init_state_def)
  obtain c1 where c1: "apply_events rows ?c0 = Inr c1"
    and ctx: "ctx = c1\<lparr>rc_state := expire_resources now (expire_claims now (reindex_leases ((rc_state c1)\<lparr>epoch_seq := rc_epoch_seq c1\<rparr>)))\<rparr>"
    using assms(3) by (auto simp: replay_def sum_bind_Inr Let_def)
  have del: "delete_events ?doomed rows = filter (\<lambda>ev. ev_seq ev \<notin> set ?doomed) rows" by (simp add: delete_events_def)
  obtain c2 where c2: "apply_events (delete_events ?doomed rows) ?c0 = Inr c2"
    using apply_events_filter [OF clean c1 clean] unfolding del by blast
  have "final_claim (map claim_fact (delete_events ?doomed rows)) k v = final_claim (map claim_fact rows) k v" for k v
    unfolding del
  proof (rule final_claim_filter)
    fix xs x ys assume split: "rows = xs @ x # ys" and "\<not> ev_seq x \<notin> set ?doomed"
    then obtain y where x: "ev_kind x = ''checkpoint''" and y: "y \<in> set rows" "ev_kind y = ''checkpoint''"
      "checkpoint_task y = checkpoint_task x" "ev_seq x < ev_seq y" "ev_seq y \<notin> set ?doomed"
      using superseded_has_successor [OF assms(1,2), of x floor_seq] by auto
    have "y \<in> set ys" using later_in_suffix [of xs x ys y] assms(1) y(1,4) split by simp
    obtain cy where cy: "claim_fact y = Some (task_id cy, Some cy)" "checkpoint_task y = Inr (task_id cy)"
      using checkpoint_fact [OF clean c1 y(1,2)] by blast
    have "x \<in> set rows" using split by simp
    then obtain cx where cx: "claim_fact x = Some (task_id cx, Some cx)" "checkpoint_task x = Inr (task_id cx)"
      using checkpoint_fact [OF clean c1 _ x] by blast
    have "claim_fact x = Some (task_id cy, Some cx)" using cx cy(2) y(3) by simp
    then show "claim_fact x = None \<or>
        (\<exists>t v w y. claim_fact x = Some (t, v) \<and> y \<in> set ys \<and> ev_seq y \<notin> set ?doomed \<and> claim_fact y = Some (t, w))"
      using \<open>y \<in> set ys\<close> y(5) cy(1) by blast
  qed
  then have same: "dget (claims (rc_state c2)) k = dget (claims (rc_state c1)) k" for k
    by (simp add: apply_events_final [OF clean c1] apply_events_final [OF clean c2])
  note clean1 = apply_events_clean [OF clean c1, unfolded replay_clean_def]
  note clean2 = apply_events_clean [OF clean c2, unfolded replay_clean_def]
  let ?r = "\<lambda>c. reindex_leases ((rc_state c)\<lparr>epoch_seq := rc_epoch_seq c\<rparr>)"
  note E1 = rebuilt_expiry [of "?r c1" now, simplified reindex_leases_def, simplified]
  note E2 = rebuilt_expiry [of "?r c2" now, simplified reindex_leases_def, simplified]
  have "dget (claims (expire_claims now (?r c2))) k = dget (claims (expire_claims now (?r c1))) k
      \<and> dget (expired_checkpoints (expire_claims now (?r c2))) k = dget (expired_checkpoints (expire_claims now (?r c1))) k" for k
    using clean1 clean2 same by (simp add: reindex_leases_def E1 E2 dget_live_claims)
  then show ?thesis
    using c2 by (simp add: replay_def ctx Let_def frame_simps)
qed

theorem compaction_preserves_replay_witness:
  "\<exists>ctx. replay (small_hub 2) (init_board 9 9 9) 2 None None
     (delete_events (superseded_checkpoints
        (as_events (snd (run_journaled demo_ops (small_hub 2)))) 3 1)
        (as_events (snd (run_journaled demo_ops (small_hub 2))))) = Inr ctx"
proof -
  let ?rows = "as_events (snd (run_journaled demo_ops (small_hub 2)))"
  have "list_all (call_ok 2) demo_ops" by (simp add: demo_ops_def plain_request_def)
  then obtain c1 where "apply_events ?rows (initial_context (small_hub 2) (init_board 9 9 9)) = Inr c1"
    using replays_run [OF replays_start wf_init _ as_events_rows, of 2 demo_ops] unfolding small_hub_def by metis
  then obtain ctx where "replay (small_hub 2) (init_board 9 9 9) 2 None None ?rows = Inr ctx"
    by (simp add: replay_def Let_def)
  moreover have "sorted_wrt (<) (map ev_seq ?rows)"
    by (simp add: as_events_def comp_def case_prod_unfold sorted_wrt_map sorted_wrt_iff_nth_less nth_enumerate_eq)
  ultimately show ?thesis
    using compaction_preserves_replay [of ?rows 1] unfolding small_hub_def by fastforce
qed

end
