(* ===== verification/Sha256.thy ===== *)
theory Sha256
  imports Prelude "HOL-Library.Word"
begin

text \<open>
  The standard-library primitives the log commitments rest on: \<open>bytes\<close>, \<open>bytes.hex\<close>,
  \<open>bytes.fromhex\<close> and \<open>hashlib.sha256\<close> (FIPS 180-4), on words of their own width.
  \<open>Sha256_Vector\<close> checks the digest function against an example of the standard; the rest of
  the development uses only that a digest has 32 bytes.
\<close>

unbundle bit_operations_syntax

type_synonym byte = "8 word"
type_synonym bytes = "byte list"

section \<open>Hexadecimal text\<close>

definition hex_digit :: "nat \<Rightarrow> char" where
  "hex_digit n = char_of (if n < 10 then 48 + n else 87 + n)"

definition hex_of :: "bytes \<Rightarrow> string" where
  "hex_of bs = concat (map (\<lambda>b. [hex_digit (unat b div 16), hex_digit (unat b mod 16)]) bs)"

definition hex_value :: "char \<Rightarrow> nat option" where
  "hex_value c =
     (let n = code_of c in
      if 48 \<le> n \<and> n \<le> 57 then Some (n - 48)
      else if 97 \<le> n \<and> n \<le> 102 then Some (n - 87)
      else if 65 \<le> n \<and> n \<le> 70 then Some (n - 55)
      else None)"

text \<open>ASCII white space may stand between two bytes, never inside one.\<close>

definition ascii_space :: "char \<Rightarrow> bool" where
  "ascii_space c \<longleftrightarrow> code_of c = 32 \<or> (9 \<le> code_of c \<and> code_of c \<le> 13)"

fun from_hex :: "string \<Rightarrow> bytes option" where
  "from_hex [] = Some []"
| "from_hex (c # cs) =
     (if ascii_space c then from_hex cs
      else (case cs of
              [] \<Rightarrow> None
            | d # ds \<Rightarrow>
                (case (hex_value c, hex_value d) of
                   (Some h, Some l) \<Rightarrow> map_option ((#) (word_of_nat (16 * h + l))) (from_hex ds)
                 | _ \<Rightarrow> None)))"

lemma hex_digit_value [simp]: "n < 16 \<Longrightarrow> hex_value (hex_digit n) = Some n"
proof -
  assume n: "n < 16"
  have "of_char (char_of (if n < 10 then 48 + n else 87 + n) :: char) = (if n < 10 then 48 + n else 87 + n :: nat)"
    using n by simp
  then show ?thesis using n by (auto simp: hex_digit_def hex_value_def Let_def)
qed

lemma hex_digit_no_space [simp]: "n < 16 \<Longrightarrow> \<not> ascii_space (hex_digit n)"
proof -
  assume n: "n < 16"
  have "of_char (char_of (if n < 10 then 48 + n else 87 + n) :: char) = (if n < 10 then 48 + n else 87 + n :: nat)"
    using n by simp
  then show ?thesis using n by (auto simp: hex_digit_def ascii_space_def)
qed

lemma from_hex_of [simp]: "from_hex (hex_of bs) = Some bs"
proof (induction bs)
  case (Cons b bs)
  have b: "unat b < 256" using unsigned_less [of b, where ?'a = nat] by simp
  then have "unat b div 16 < 16" "unat b mod 16 < 16" by (auto simp: div_less_iff_less_mult)
  moreover have "word_of_nat (16 * (unat b div 16) + unat b mod 16) = b" by simp
  ultimately show ?case using Cons by (simp add: hex_of_def)
qed (simp add: hex_of_def)

lemma hex_of_inj: "hex_of a = hex_of b \<longleftrightarrow> a = b"
  by (metis from_hex_of option.inject)

section \<open>SHA-256\<close>

type_synonym word32 = "32 word"

text \<open>The constants of FIPS 180-4, in decimal.\<close>

definition sha_init :: "word32 list" where
  "sha_init =
    [1779033703, 3144134277, 1013904242, 2773480762, 1359893119, 2600822924, 528734635,
     1541459225]"

definition sha_round :: "word32 list" where
  "sha_round =
    [1116352408, 1899447441, 3049323471, 3921009573, 961987163, 1508970993, 2453635748,
     2870763221, 3624381080, 310598401, 607225278, 1426881987, 1925078388, 2162078206,
     2614888103, 3248222580, 3835390401, 4022224774, 264347078, 604807628, 770255983,
     1249150122, 1555081692, 1996064986, 2554220882, 2821834349, 2952996808, 3210313671,
     3336571891, 3584528711, 113926993, 338241895, 666307205, 773529912, 1294757372,
     1396182291, 1695183700, 1986661051, 2177026350, 2456956037, 2730485921, 2820302411,
     3259730800, 3345764771, 3516065817, 3600352804, 4094571909, 275423344, 430227734,
     506948616, 659060556, 883997877, 958139571, 1322822218, 1537002063, 1747873779,
     1955562222, 2024104815, 2227730452, 2361852424, 2428436474, 2756734187, 3204031479,
     3329325298]"

definition rotr :: "nat \<Rightarrow> word32 \<Rightarrow> word32" where
  "rotr n w = drop_bit n w OR push_bit (32 - n) w"

definition be_bytes :: "word32 \<Rightarrow> bytes" where
  "be_bytes w = [ucast (drop_bit 24 w), ucast (drop_bit 16 w), ucast (drop_bit 8 w), ucast w]"

definition be_word :: "byte \<Rightarrow> byte \<Rightarrow> byte \<Rightarrow> byte \<Rightarrow> word32" where
  "be_word a b c d = push_bit 24 (ucast a) OR push_bit 16 (ucast b) OR push_bit 8 (ucast c) OR ucast d"

fun be_words :: "bytes \<Rightarrow> word32 list" where
  "be_words (a # b # c # d # bs) = be_word a b c d # be_words bs"
| "be_words _ = []"

definition sha_pad :: "bytes \<Rightarrow> bytes" where
  "sha_pad m =
     (let bits = 8 * int (length m) in
      m @ [0x80] @ replicate ((119 - length m mod 64) mod 64) 0
        @ be_bytes (word_of_int (bits div 4294967296)) @ be_bytes (word_of_int bits))"

text \<open>The message schedule, newest word first.\<close>

fun sha_extend :: "nat \<Rightarrow> word32 list \<Rightarrow> word32 list" where
  "sha_extend 0 ws = ws"
| "sha_extend (Suc n) ws =
     (let a = ws ! 1; b = ws ! 14;
          s1 = rotr 17 a XOR rotr 19 a XOR drop_bit 10 a;
          s0 = rotr 7 b XOR rotr 18 b XOR drop_bit 3 b
      in sha_extend n ((s1 + ws ! 6 + s0 + ws ! 15) # ws))"

fun sha_step :: "word32 list \<Rightarrow> word32 \<times> word32 \<Rightarrow> word32 list" where
  "sha_step [a, b, c, d, e, f, g, h] (k, w) =
     (let t1 = h + (rotr 6 e XOR rotr 11 e XOR rotr 25 e) + ((e AND f) XOR (NOT e AND g)) + k + w;
          t2 = (rotr 2 a XOR rotr 13 a XOR rotr 22 a) + ((a AND b) XOR (a AND c) XOR (b AND c))
      in [t1 + t2, a, b, c, d + t1, e, f, g])"
| "sha_step s _ = s"

definition sha_block :: "word32 list \<Rightarrow> bytes \<Rightarrow> word32 list" where
  "sha_block s block =
     map2 (+) s (foldl sha_step s (zip sha_round (rev (sha_extend 48 (rev (be_words block))))))"

fun sha_blocks :: "nat \<Rightarrow> word32 list \<Rightarrow> bytes \<Rightarrow> word32 list" where
  "sha_blocks 0 s m = s"
| "sha_blocks (Suc n) s m = sha_blocks n (sha_block s (take 64 m)) (drop 64 m)"

definition sha256 :: "bytes \<Rightarrow> bytes" where
  "sha256 m = (let p = sha_pad m in concat (map be_bytes (sha_blocks (length p div 64) sha_init p)))"

lemma sha_step_length [simp]: "length (sha_step s kw) = length s"
  by (induction s kw rule: sha_step.induct) (auto simp: Let_def)

lemma sha_steps_length [simp]: "length (foldl sha_step s kws) = length s"
  by (induction kws arbitrary: s) auto

lemma sha_blocks_length [simp]: "length (sha_blocks n s m) = length s"
  by (induction n arbitrary: s m) (auto simp: sha_block_def)

lemma sha256_length [simp]: "length (sha256 m) = 32"
proof -
  have "length (concat (map be_bytes ws)) = 4 * length ws" for ws
    by (induction ws) (auto simp: be_bytes_def)
  then show ?thesis by (simp add: sha256_def Let_def sha_init_def)
qed

end
