(* ===== verification/Merkle.thy ===== *)
theory Merkle
  imports Sha256 Journal
begin

text \<open>
  The Merkle commitment over the event log (\<open>core/merkle.py\<close>): the recursive tree hash of RFC
  6962, the audit path and its verification, and the streaming root that keeps only the peaks
  of the perfect subtrees.  \<open>json.dumps\<close> is written out for the canonical form the leaves use;
  the one parameter is \<open>fl\<close>, the text that \<open>float.__repr__\<close> gives a finite float.
\<close>

unbundle bit_operations_syntax

section \<open>The canonical bytes of an event\<close>

record stored_event = journal_event +
  ev_ts :: pyfloat

text \<open>\<open>json.dumps\<close> with \<open>ensure_ascii\<close>, \<open>sort_keys\<close> and the separators comma and colon.\<close>

definition json_escape :: "char \<Rightarrow> string" where
  "json_escape c =
     (let n = code_of c; esc = CHR 0x5C in
      if n = 34 \<or> n = 92 then [esc, c]
      else if n = 10 then [esc, CHR ''n'']
      else if n = 13 then [esc, CHR ''r'']
      else if n = 9 then [esc, CHR ''t'']
      else if n = 12 then [esc, CHR ''f'']
      else if n = 8 then [esc, CHR ''b'']
      else if n < 32 \<or> 126 < n then esc # ''u00'' @ [hex_digit (n div 16), hex_digit (n mod 16)]
      else [c])"

definition json_string :: "string \<Rightarrow> string" where
  "json_string s = CHR 0x22 # concat (map json_escape s) @ [CHR 0x22]"

fun json_float :: "(time \<Rightarrow> string) \<Rightarrow> pyfloat \<Rightarrow> string" where
  "json_float fl (Finite x) = fl x"
| "json_float fl PosInf = ''Infinity''"
| "json_float fl NegInf = ''-Infinity''"
| "json_float fl NaN = ''NaN''"

text \<open>A dictionary is written in the order of its keys.\<close>

fun json_dumps :: "(time \<Rightarrow> string) \<Rightarrow> json \<Rightarrow> string" where
  "json_dumps fl JNull = ''null''"
| "json_dumps fl (JBool b) = (if b then ''true'' else ''false'')"
| "json_dumps fl (JInt i) = show_int i"
| "json_dumps fl (JFloat f) = json_float fl f"
| "json_dumps fl (JString s) = json_string s"
| "json_dumps fl (JList js) = CHR 0x5B # py_join CHR 0x2C (map (json_dumps fl) js) @ [CHR 0x5D]"
| "json_dumps fl (JObject kvs) =
     CHR 0x7B # py_join CHR 0x2C
       (map snd (sort_key fst (map (\<lambda>(k, v). (k, json_string k @ CHR 0x3A # json_dumps fl v)) kvs)))
       @ [CHR 0x7D]"

text \<open>Every character the dump contains is ASCII, so its UTF-8 encoding is one byte each.\<close>

definition canonical_event_bytes :: "(time \<Rightarrow> string) \<Rightarrow> stored_event \<Rightarrow> bytes" where
  "canonical_event_bytes fl ev =
     map (\<lambda>c. word_of_nat (code_of c))
       (json_dumps fl (JObject
         [(''seq'', JInt (ev_seq ev)), (''ts'', JFloat (ev_ts ev)), (''kind'', JString (ev_kind ev)),
          (''payload'', JObject (ev_payload ev))]))"

section \<open>The tree hash\<close>

definition LEAF_PREFIX :: bytes where "LEAF_PREFIX = [0]"
definition NODE_PREFIX :: bytes where "NODE_PREFIX = [1]"

definition leaf_hash :: "(time \<Rightarrow> string) \<Rightarrow> stored_event \<Rightarrow> bytes" where
  "leaf_hash fl ev = sha256 (LEAF_PREFIX @ canonical_event_bytes fl ev)"

definition node_hash :: "bytes \<Rightarrow> bytes \<Rightarrow> bytes" where
  "node_hash l r = sha256 (NODE_PREFIX @ l @ r)"

fun bit_length :: "nat \<Rightarrow> nat" where
  "bit_length n = (if n = 0 then 0 else Suc (bit_length (n div 2)))"

declare bit_length.simps [simp del]

definition largest_power_of_two_below :: "nat \<Rightarrow> nat" where
  "largest_power_of_two_below n = push_bit (bit_length (n - 1) - 1) 1"

lemma bit_length_bounds: "0 < n \<Longrightarrow> 2 ^ (bit_length n - 1) \<le> n \<and> n < 2 ^ bit_length n \<and> 0 < bit_length n"
proof (induction n rule: bit_length.induct)
  case (1 n)
  show ?case
  proof (cases "n div 2 = 0")
    case True
    then have "n = 1" using 1 by presburger
    then show ?thesis by (simp add: bit_length.simps)
  next
    case False
    with 1 have IH: "2 ^ (bit_length (n div 2) - 1) \<le> n div 2" "n div 2 < 2 ^ bit_length (n div 2)"
      "0 < bit_length (n div 2)" by auto
    have step: "bit_length n = Suc (bit_length (n div 2))" using 1(2) by (subst bit_length.simps) simp
    obtain k where k: "bit_length (n div 2) = Suc k" using IH(3) by (cases "bit_length (n div 2)") auto
    have "n = 2 * (n div 2) + n mod 2" "n mod 2 < 2" by simp_all
    then have "2 * 2 ^ k \<le> n" "n < 2 * (2 * 2 ^ k)" using IH(1,2) unfolding k diff_Suc_1 power_Suc by linarith+
    then show ?thesis by (simp add: step k)
  qed
qed

lemma split_power: "2 \<le> n \<Longrightarrow> \<exists>k. largest_power_of_two_below n = 2 ^ k \<and> 2 ^ k < n \<and> n \<le> 2 * 2 ^ k"
proof -
  assume "2 \<le> n"
  then have "0 < n - 1" by simp
  from bit_length_bounds [OF this] obtain k where
    "bit_length (n - 1) = Suc k" "2 ^ k \<le> n - 1" "n - 1 < 2 * 2 ^ k"
    by (cases "bit_length (n - 1)") auto
  then show ?thesis using \<open>2 \<le> n\<close> by (auto simp: largest_power_of_two_below_def push_bit_eq_mult)
qed

lemma split_bounds: "2 \<le> n \<Longrightarrow> 0 < largest_power_of_two_below n \<and> largest_power_of_two_below n < n"
  using split_power [of n] by auto

lemma split_lt: "n \<noteq> 0 \<Longrightarrow> n \<noteq> Suc 0 \<Longrightarrow> largest_power_of_two_below n < n"
  and split_gt: "n \<noteq> 0 \<Longrightarrow> n \<noteq> Suc 0 \<Longrightarrow> 0 < largest_power_of_two_below n"
  and split_lt': "Suc 0 < n \<Longrightarrow> largest_power_of_two_below n < n"
  and split_gt': "Suc 0 < n \<Longrightarrow> 0 < largest_power_of_two_below n"
  and split_rest: "Suc 0 < n \<Longrightarrow> n - largest_power_of_two_below n < n"
  using split_bounds [of n] by simp_all

lemma split_unique: "2 ^ k < n \<Longrightarrow> n \<le> 2 * 2 ^ k \<Longrightarrow> largest_power_of_two_below n = 2 ^ k"
proof -
  assume lo: "2 ^ k < n" and hi: "n \<le> 2 * 2 ^ k"
  then have "2 \<le> n" using one_le_power [of "2::nat" k] by linarith
  then obtain j where j: "largest_power_of_two_below n = 2 ^ j" "2 ^ j < n" "n \<le> 2 * 2 ^ j"
    using split_power by blast
  have "(2::nat) ^ k < 2 ^ Suc j" "(2::nat) ^ j < 2 ^ Suc k" using lo hi j by auto
  then have "k < Suc j" "j < Suc k" by - (rule power_less_imp_less_exp [of "2::nat"], simp, assumption)+
  then show ?thesis using j by (simp add: less_Suc_eq_le)
qed

function merkle_tree_hash :: "bytes list \<Rightarrow> bytes" where
  "merkle_tree_hash leaves =
     (let n = length leaves; split = largest_power_of_two_below n in
      if n = 0 then sha256 []
      else if n = 1 then hd leaves
      else node_hash (merkle_tree_hash (take split leaves)) (merkle_tree_hash (drop split leaves)))"
  by auto
termination
  by (relation "measure length") (auto simp: split_lt split_gt)

declare merkle_tree_hash.simps [simp del]

function audit_path :: "nat \<Rightarrow> bytes list \<Rightarrow> bytes list" where
  "audit_path index leaves =
     (let n = length leaves; split = largest_power_of_two_below n in
      if n \<le> 1 then []
      else if index < split
      then audit_path index (take split leaves) @ [merkle_tree_hash (drop split leaves)]
      else audit_path (index - split) (drop split leaves) @ [merkle_tree_hash (take split leaves)])"
  by auto
termination
  by (relation "measure (\<lambda>(i, ls). length ls)") (auto simp: not_le min_less_iff_disj split_lt' split_rest)

function audit_path_length :: "nat \<Rightarrow> nat \<Rightarrow> nat" where
  "audit_path_length index n =
     (let split = largest_power_of_two_below n in
      if n \<le> 1 then 0
      else if index < split then audit_path_length index split + 1
      else audit_path_length (index - split) (n - split) + 1)"
  by auto
termination
  by (relation "measure snd") (auto simp: not_le split_lt split_gt)

text \<open>
  The reconstruction takes siblings off the end of the path.  \<open>verify_inclusion\<close> calls it only
  with a path of the length \<open>audit_path_length\<close> asks for, so \<open>path[-1]\<close> is always there.
\<close>

function root_from_path :: "nat \<Rightarrow> nat \<Rightarrow> bytes \<Rightarrow> bytes list \<Rightarrow> bytes" where
  "root_from_path index n leaf path =
     (let split = largest_power_of_two_below n in
      if n \<le> 1 then leaf
      else if index < split
      then node_hash (root_from_path index split leaf (butlast path)) (last path)
      else node_hash (last path) (root_from_path (index - split) (n - split) leaf (butlast path)))"
  by auto
termination
  by (relation "measure (\<lambda>(i, n, l, p). n)") (auto simp: not_le split_lt split_gt)

declare audit_path.simps [simp del] audit_path_length.simps [simp del] root_from_path.simps [simp del]

section \<open>The streaming root\<close>

datatype merkle_error = OutOfOrder int int | NonAsciiDigest | MalformedProof

text \<open>The peaks, newest first: the end of the Python list is the head of this one.\<close>

record running_root =
  rr_peaks :: "(nat \<times> bytes) list"
  rr_size :: nat
  rr_first_seq :: int
  rr_last_seq :: int

definition init_root :: running_root where
  "init_root = \<lparr>rr_peaks = [], rr_size = 0, rr_first_seq = 0, rr_last_seq = 0\<rparr>"

fun merge_peaks :: "(nat \<times> bytes) list \<Rightarrow> (nat \<times> bytes) list" where
  "merge_peaks ((n, right) # (m, left) # ps) =
     (if n = m then merge_peaks ((n * 2, node_hash left right) # ps) else (n, right) # (m, left) # ps)"
| "merge_peaks ps = ps"

definition add_event :: "(time \<Rightarrow> string) \<Rightarrow> stored_event \<Rightarrow> running_root \<Rightarrow> merkle_error + running_root" where
  "add_event fl ev rr =
     (if rr_size rr \<noteq> 0 \<and> ev_seq ev \<le> rr_last_seq rr
      then Inl (OutOfOrder (ev_seq ev) (rr_last_seq rr))
      else Inr \<lparr>rr_peaks = merge_peaks ((1, leaf_hash fl ev) # rr_peaks rr),
                rr_size = rr_size rr + 1,
                rr_first_seq = (if rr_size rr = 0 then ev_seq ev else rr_first_seq rr),
                rr_last_seq = ev_seq ev\<rparr>)"

definition fold_peaks :: "(nat \<times> bytes) list \<Rightarrow> bytes" where
  "fold_peaks peaks =
     (case peaks of
        [] \<Rightarrow> sha256 []
      | (n, acc) # ps \<Rightarrow> foldl (\<lambda>acc (n, peak). node_hash peak acc) acc ps)"

definition root_hex :: "running_root \<Rightarrow> string" where
  "root_hex rr = hex_of (fold_peaks (rr_peaks rr))"

record merkle_root =
  mr_root :: string
  mr_tree_size :: nat
  mr_first_seq :: int
  mr_last_seq :: int
  mr_through_seq :: int

definition commit :: "int option \<Rightarrow> running_root \<Rightarrow> merkle_root" where
  "commit through_seq rr =
     \<lparr>mr_root = root_hex rr, mr_tree_size = rr_size rr, mr_first_seq = rr_first_seq rr,
      mr_last_seq = rr_last_seq rr,
      mr_through_seq = (case through_seq of None \<Rightarrow> 0 | Some q \<Rightarrow> q)\<rparr>"

fun add_events :: "(time \<Rightarrow> string) \<Rightarrow> stored_event list \<Rightarrow> running_root \<Rightarrow> merkle_error + running_root" where
  "add_events fl [] rr = Inr rr"
| "add_events fl (ev # evs) rr = sum_bind (add_event fl ev rr) (add_events fl evs)"

definition selected_events :: "stored_event list \<Rightarrow> int option \<Rightarrow> stored_event list" where
  "selected_events events through_seq =
     (let ordered = sort_key ev_seq events in
      case through_seq of None \<Rightarrow> ordered | Some q \<Rightarrow> filter (\<lambda>ev. ev_seq ev \<le> q) ordered)"

definition build_root ::
  "(time \<Rightarrow> string) \<Rightarrow> stored_event list \<Rightarrow> int option \<Rightarrow> merkle_error + merkle_root" where
  "build_root fl events through_seq =
     sum_bind (add_events fl (selected_events events through_seq) init_root)
       (\<lambda>rr. Inr (commit through_seq rr))"

section \<open>Inclusion proofs\<close>

record inclusion_proof =
  ip_seq :: int
  ip_index :: int
  ip_tree_size :: int
  ip_leaf :: string
  ip_path :: "string list"
  ip_root :: string

fun index_where :: "('a \<Rightarrow> bool) \<Rightarrow> 'a list \<Rightarrow> nat option" where
  "index_where P [] = None"
| "index_where P (x # xs) = (if P x then Some 0 else map_option Suc (index_where P xs))"

definition build_proof ::
  "(time \<Rightarrow> string) \<Rightarrow> stored_event list \<Rightarrow> int \<Rightarrow> int option \<Rightarrow> inclusion_proof option" where
  "build_proof fl events seq through_seq =
     (let selected = selected_events events through_seq in
      case index_where (\<lambda>ev. ev_seq ev = seq) selected of
        None \<Rightarrow> None
      | Some index \<Rightarrow>
          (let leaves = map (leaf_hash fl) selected in
           Some \<lparr>ip_seq = seq, ip_index = int index, ip_tree_size = int (length leaves),
                 ip_leaf = hex_of (leaves ! index), ip_path = map hex_of (audit_path index leaves),
                 ip_root = hex_of (merkle_tree_hash leaves)\<rparr>))"

text \<open>\<open>hmac.compare_digest\<close> on two \<open>str\<close>: a \<open>TypeError\<close> unless both are ASCII.\<close>

definition compare_digest :: "string \<Rightarrow> string \<Rightarrow> merkle_error + bool" where
  "compare_digest a b =
     (if list_all (\<lambda>c. code_of c < 128) (a @ b) then Inr (a = b) else Inl NonAsciiDigest)"

fun from_hexes :: "string list \<Rightarrow> bytes list option" where
  "from_hexes [] = Some []"
| "from_hexes (s # ss) =
     (case from_hex s of None \<Rightarrow> None | Some b \<Rightarrow> map_option ((#) b) (from_hexes ss))"

definition verify_inclusion :: "inclusion_proof \<Rightarrow> merkle_error + bool" where
  "verify_inclusion p =
     (if ip_index p < 0 \<or> ip_tree_size p \<le> ip_index p then Inr False
      else if length (ip_path p) \<noteq> audit_path_length (nat (ip_index p)) (nat (ip_tree_size p)) then Inr False
      else (case (from_hex (ip_leaf p), from_hexes (ip_path p)) of
              (Some leaf, Some path) \<Rightarrow>
                compare_digest
                  (hex_of (root_from_path (nat (ip_index p)) (nat (ip_tree_size p)) leaf path))
                  (ip_root p)
            | _ \<Rightarrow> Inr False))"

text \<open>
  \<open>str.lower\<close> is the ASCII one: it keeps every other character below 256 outside ASCII, where
  the comparison raises either way.
\<close>

definition verify_root :: "string \<Rightarrow> string \<Rightarrow> merkle_error + bool" where
  "verify_root found expected =
     compare_digest (ascii_lower (py_strip found)) (ascii_lower (py_strip expected))"

section \<open>JSON forms\<close>

definition root_to_json :: "merkle_root \<Rightarrow> json_object" where
  "root_to_json r =
     [(''root'', JString (mr_root r)), (''tree_size'', JInt (int (mr_tree_size r))),
      (''first_seq'', JInt (mr_first_seq r)), (''last_seq'', JInt (mr_last_seq r)),
      (''through_seq'', JInt (mr_through_seq r))]"

definition proof_to_json :: "inclusion_proof \<Rightarrow> json_object" where
  "proof_to_json p =
     [(''seq'', JInt (ip_seq p)), (''index'', JInt (ip_index p)), (''tree_size'', JInt (ip_tree_size p)),
      (''leaf'', JString (ip_leaf p)), (''path'', JList (map JString (ip_path p))),
      (''root'', JString (ip_root p))]"

text \<open>\<open>isinstance(v, int)\<close> holds of the two booleans, which then count as 0 and 1.\<close>

fun int_instance :: "json \<Rightarrow> int option" where
  "int_instance (JInt i) = Some i"
| "int_instance (JBool b) = Some (if b then 1 else 0)"
| "int_instance _ = None"

definition proof_from_json :: "json_object \<Rightarrow> journal_error + inclusion_proof" where
  "proof_from_json data =
     sum_bind (req_field data ''path'') (\<lambda>raw_path.
       case raw_path of
         JList nodes \<Rightarrow>
           sum_bind (req_field data ''seq'') (\<lambda>seq.
           sum_bind (req_field data ''index'') (\<lambda>index.
           sum_bind (req_field data ''tree_size'') (\<lambda>tree_size.
             case (int_instance seq, int_instance index, int_instance tree_size) of
               (Some q, Some i, Some n) \<Rightarrow>
                 sum_bind (req_text data ''leaf'') (\<lambda>leaf.
                 sum_bind (py_str_all nodes) (\<lambda>path.
                 sum_bind (req_text data ''root'') (\<lambda>rt.
                   Inr \<lparr>ip_seq = q, ip_index = i, ip_tree_size = n, ip_leaf = leaf, ip_path = path, ip_root = rt\<rparr>)))
             | _ \<Rightarrow> Inl MalformedPayload)))
       | _ \<Rightarrow> Inl MalformedPayload)"

lemma proof_json_round_trip: "proof_from_json (proof_to_json p) = Inr p"
  by (simp add: proof_from_json_def proof_to_json_def req_field_def req_text_def)

end
