(* ===== verification/Merkle_Properties.thy ===== *)
theory Merkle_Properties
  imports Merkle
begin

text \<open>
  The log commitment is what it says: the streaming root equals the recursive tree hash, every
  built proof verifies, and a verified proof of a leaf digest against a committed root and size
  shows the event in the log or hands over two inputs on which SHA-256 collides.
\<close>

section \<open>Tree hash and audit paths\<close>

lemma mth_single: "length ls = 1 \<Longrightarrow> merkle_tree_hash ls = hd ls"
  by (subst merkle_tree_hash.simps) simp

lemma mth_node: "2 \<le> length ls \<Longrightarrow> merkle_tree_hash ls =
    node_hash (merkle_tree_hash (take (largest_power_of_two_below (length ls)) ls))
      (merkle_tree_hash (drop (largest_power_of_two_below (length ls)) ls))"
  by (subst merkle_tree_hash.simps) (auto simp: Let_def)

lemma mth_append:
  assumes "length xs = 2 ^ k" and "ys \<noteq> []" and "length ys \<le> 2 ^ k"
  shows "merkle_tree_hash (xs @ ys) = node_hash (merkle_tree_hash xs) (merkle_tree_hash ys)"
proof -
  have "largest_power_of_two_below (length (xs @ ys)) = 2 ^ k"
    by (rule split_unique) (use assms in auto)
  moreover have "2 \<le> length (xs @ ys)"
    using assms one_le_power [of "2::nat" k] by (cases ys) (auto simp del: one_le_power)
  ultimately show ?thesis using assms(1) by (simp add: mth_node)
qed

lemma mth_length: "\<forall>l \<in> set ls. length l = 32 \<Longrightarrow> length (merkle_tree_hash ls) = 32"
  by (subst merkle_tree_hash.simps) (auto simp: Let_def node_hash_def)

lemma audit_path_fits: "length (audit_path i ls) = audit_path_length i (length ls)"
proof (induction i ls rule: audit_path.induct)
  case (1 i ls)
  show ?case
  proof (cases "length ls \<le> 1")
    case True
    then show ?thesis by (simp add: audit_path.simps [of i ls] audit_path_length.simps [of i])
  next
    case False
    then have "largest_power_of_two_below (length ls) < length ls" by (simp add: split_lt')
    then show ?thesis using False 1
      by (simp add: audit_path.simps [of i ls] audit_path_length.simps [of i "length ls"] Let_def min_def)
  qed
qed

lemma root_from_audit_path:
  "i < length ls \<Longrightarrow> root_from_path i (length ls) (ls ! i) (audit_path i ls) = merkle_tree_hash ls"
proof (induction i ls rule: audit_path.induct)
  case (1 i ls)
  show ?case
  proof (cases "length ls \<le> 1")
    case True
    then have "length ls = 1" using 1(3) by linarith
    then show ?thesis using 1(3) by (simp add: root_from_path.simps [of 0] mth_single hd_conv_nth flip: length_greater_0_conv)
  next
    case False
    then have "largest_power_of_two_below (length ls) < length ls" by (simp add: split_lt')
    then show ?thesis using False 1
      by (simp add: audit_path.simps [of i ls] root_from_path.simps [of i "length ls"] mth_node Let_def min_def)
  qed
qed

lemma bit_length_le: "n < 2 ^ k \<longleftrightarrow> bit_length n \<le> k"
proof (cases "n = 0")
  case False
  then have b: "2 ^ (bit_length n - 1) \<le> n" "n < 2 ^ bit_length n" "0 < bit_length n"
    using bit_length_bounds by blast+
  show ?thesis
  proof
    assume "n < 2 ^ k"
    then have "(2::nat) ^ (bit_length n - 1) < 2 ^ k" using b(1) by linarith
    then have "bit_length n - 1 < k" by (rule power_less_imp_less_exp [rotated]) simp
    then show "bit_length n \<le> k" by linarith
  next
    assume "bit_length n \<le> k"
    then have "(2::nat) ^ bit_length n \<le> 2 ^ k" by simp
    then show "n < 2 ^ k" using b(2) by linarith
  qed
qed (simp add: bit_length.simps)

lemma audit_path_short: "i < n \<Longrightarrow> audit_path_length i n \<le> bit_length (n - 1)"
proof (induction i n rule: audit_path_length.induct)
  case (1 i n)
  show ?case
  proof (cases "n \<le> 1")
    case True
    then show ?thesis by (simp add: audit_path_length.simps [of i n])
  next
    case False
    then obtain k where k: "largest_power_of_two_below n = 2 ^ k" "2 ^ k < n" "n \<le> 2 * 2 ^ k"
      using split_power [of n] by auto
    have "\<not> n - 1 < 2 ^ k" using k by linarith
    then have deep: "k < bit_length (n - 1)" unfolding bit_length_le by simp
    have left: "bit_length (2 ^ k - 1) \<le> k" unfolding bit_length_le [symmetric] by simp
    have right: "bit_length (n - 2 ^ k - 1) \<le> k" unfolding bit_length_le [symmetric] using k by auto
    show ?thesis using False 1 k deep left right
      by (cases "i < 2 ^ k") (fastforce simp: audit_path_length.simps [of i n] Let_def)+
  qed
qed

section \<open>The streaming root\<close>

text \<open>Each peak is the hash of the perfect subtree it stands for, oldest leaves last in the list.\<close>

fun peaks_cover :: "(nat \<times> bytes) list \<Rightarrow> bytes list \<Rightarrow> bool" where
  "peaks_cover [] ls \<longleftrightarrow> ls = []"
| "peaks_cover ((n, h) # ps) ls \<longleftrightarrow>
     (\<exists>k xs ys. n = 2 ^ k \<and> ls = xs @ ys \<and> length ys = n \<and> h = merkle_tree_hash ys \<and> peaks_cover ps xs)"

lemma peak_power: "peaks_cover ps xs \<Longrightarrow> q \<in> set ps \<Longrightarrow> \<exists>k. fst q = 2 ^ k"
  by (induction ps xs rule: peaks_cover.induct) auto

lemma peak_positive: "peaks_cover ps xs \<Longrightarrow> q \<in> set ps \<Longrightarrow> Suc 0 \<le> fst q"
  using peak_power [of ps xs q] by auto

lemma peak_gap: "peaks_cover ps xs \<Longrightarrow> q \<in> set ps \<Longrightarrow> 2 ^ k < fst q \<Longrightarrow> 2 * 2 ^ k \<le> fst q"
proof -
  assume "peaks_cover ps xs" "q \<in> set ps" "2 ^ k < fst q"
  then obtain j where j: "fst q = 2 ^ j" "(2::nat) ^ k < 2 ^ j" using peak_power by metis
  then have "k < j" by (auto dest: power_less_imp_less_exp [rotated])
  then have "(2::nat) ^ Suc k \<le> 2 ^ j" by (intro power_increasing) auto
  then show ?thesis using j by simp
qed

lemma fold_peaks_cover:
  assumes "peaks_cover ps xs" and "sorted_wrt (<) (map fst ps)" and "tail \<noteq> []"
    and "\<forall>(n, p) \<in> set ps. length tail \<le> n"
  shows "foldl (\<lambda>acc (n, peak). node_hash peak acc) (merkle_tree_hash tail) ps = merkle_tree_hash (xs @ tail)"
  using assms
proof (induction ps arbitrary: xs tail)
  case (Cons p ps)
  obtain n h where p: "p = (n, h)" by fastforce
  from Cons.prems(1) obtain k ys zs where
    c: "n = 2 ^ k" "xs = ys @ zs" "length zs = n" "h = merkle_tree_hash zs" "peaks_cover ps ys"
    by (auto simp: p)
  have join: "node_hash h (merkle_tree_hash tail) = merkle_tree_hash (zs @ tail)"
    using mth_append [of zs k tail] c Cons.prems p by auto
  have "length (zs @ tail) \<le> m" if "(m, q) \<in> set ps" for m q
  proof -
    have "2 ^ k < m" using Cons.prems(2) that c(1) by (auto simp: p)
    then have "2 * 2 ^ k \<le> m" using peak_gap [OF c(5) that] by simp
    moreover have "length tail \<le> n" using Cons.prems(4) by (simp add: p)
    ultimately show ?thesis using c(1,3) by simp
  qed
  then show ?case
    using Cons.IH [OF c(5), of "zs @ tail"] Cons.prems by (auto simp: p join c(2))
qed simp

lemma fold_peaks_exact:
  assumes "peaks_cover ps ls" and "sorted_wrt (<) (map fst ps)"
  shows "fold_peaks ps = merkle_tree_hash ls"
proof (cases ps)
  case Nil
  then show ?thesis using assms by (simp add: fold_peaks_def merkle_tree_hash.simps)
next
  case (Cons p qs)
  obtain n h where p: "p = (n, h)" by fastforce
  from assms(1) obtain k xs ys where
    c: "n = 2 ^ k" "ls = xs @ ys" "length ys = n" "h = merkle_tree_hash ys" "peaks_cover qs xs"
    by (auto simp: Cons p)
  have "ys \<noteq> []" using c(1,3) by auto
  moreover have "\<forall>(m, q) \<in> set qs. length ys \<le> m" using assms(2) c(3) by (auto simp: Cons p)
  ultimately show ?thesis
    using fold_peaks_cover [OF c(5), of ys] assms(2) c by (simp add: fold_peaks_def Cons p)
qed

lemma merge_peaks_cover:
  assumes "peaks_cover ps ls" and "sorted_wrt (<) (map fst (tl ps))"
    and "\<forall>q \<in> set (tl ps). fst (hd ps) \<le> fst q"
  shows "peaks_cover (merge_peaks ps) ls \<and> sorted_wrt (<) (map fst (merge_peaks ps))"
  using assms
proof (induction ps rule: merge_peaks.induct)
  case (1 n r m l ps)
  from "1.prems"(1) obtain k j xs ys zs where
    c: "n = 2 ^ k" "m = 2 ^ j" "ls = xs @ ys @ zs" "length zs = n" "length ys = m"
      "r = merkle_tree_hash zs" "l = merkle_tree_hash ys" "peaks_cover ps xs"
    by auto
  show ?case
  proof (cases "n = m")
    case True
    have "zs \<noteq> []" using c(1,4) by auto
    then have "node_hash l r = merkle_tree_hash (ys @ zs)"
      using mth_append [of ys k zs] True c by simp
    then have cover: "peaks_cover ((n * 2, node_hash l r) # ps) ls"
      unfolding peaks_cover.simps
      by (intro exI [of _ "Suc k"] exI [of _ xs] exI [of _ "ys @ zs"]) (use c True in auto)
    have grow: "n * 2 \<le> fst q" if "q \<in> set ps" for q
      using peak_gap [OF c(8) that, of k] "1.prems"(2) True that c(1) by auto
    show ?thesis using "1.IH" [OF True cover] "1.prems" grow True by simp
  next
    case False
    then show ?thesis using "1.prems" by (auto simp: less_le)
  qed
qed auto

definition running_inv :: "(time \<Rightarrow> string) \<Rightarrow> stored_event list \<Rightarrow> running_root \<Rightarrow> bool" where
  "running_inv fl evs rr \<longleftrightarrow>
     peaks_cover (rr_peaks rr) (map (leaf_hash fl) evs) \<and> sorted_wrt (<) (map fst (rr_peaks rr))
     \<and> rr_size rr = length evs
     \<and> rr_first_seq rr = (if evs = [] then 0 else ev_seq (hd evs))
     \<and> rr_last_seq rr = (if evs = [] then 0 else ev_seq (last evs))"

lemma running_init: "running_inv fl [] init_root"
  by (simp add: running_inv_def init_root_def)

lemma running_add:
  assumes "running_inv fl evs rr"
  shows "(case add_event fl ev rr of
      Inl _ \<Rightarrow> evs \<noteq> [] \<and> ev_seq ev \<le> ev_seq (last evs)
    | Inr rr' \<Rightarrow> (evs = [] \<or> ev_seq (last evs) < ev_seq ev) \<and> running_inv fl (evs @ [ev]) rr')"
proof -
  let ?ps = "(1, leaf_hash fl ev) # rr_peaks rr" and ?ls = "map (leaf_hash fl) evs"
  have I: "peaks_cover (rr_peaks rr) ?ls" "sorted_wrt (<) (map fst (rr_peaks rr))"
    using assms by (simp_all add: running_inv_def)
  have "peaks_cover ?ps (?ls @ [leaf_hash fl ev])"
    unfolding peaks_cover.simps
    by (intro exI [of _ 0] exI [of _ ?ls] exI [of _ "[leaf_hash fl ev]"]) (use I in \<open>simp add: mth_single\<close>)
  then have "peaks_cover (merge_peaks ?ps) (?ls @ [leaf_hash fl ev])
      \<and> sorted_wrt (<) (map fst (merge_peaks ?ps))"
    by (intro merge_peaks_cover) (use I peak_positive [OF I(1)] in auto)
  then show ?thesis using assms by (auto simp: add_event_def running_inv_def)
qed

lemma running_adds:
  assumes "running_inv fl evs rr" and "sorted_wrt (<) (map ev_seq evs)"
  shows "(case add_events fl later rr of
      Inl _ \<Rightarrow> \<not> sorted_wrt (<) (map ev_seq (evs @ later))
    | Inr rr' \<Rightarrow> sorted_wrt (<) (map ev_seq (evs @ later)) \<and> running_inv fl (evs @ later) rr')"
  using assms
proof (induction later arbitrary: evs rr)
  case (Cons ev later)
  note step = running_add [OF Cons.prems(1), of ev]
  show ?case
  proof (cases "add_event fl ev rr")
    case (Inl e)
    then have "evs \<noteq> []" "\<not> ev_seq (last evs) < ev_seq ev" using step by auto
    then have "\<not> sorted_wrt (<) (map ev_seq (evs @ ev # later))"
      using last_in_set by (fastforce simp: sorted_wrt_append)
    then show ?thesis using Inl by simp
  next
    case (Inr rr')
    then have gap: "evs = [] \<or> ev_seq (last evs) < ev_seq ev" and inv: "running_inv fl (evs @ [ev]) rr'"
      using step by auto
    have "ev_seq x < ev_seq ev" if "x \<in> set evs" for x
    proof -
      have "evs \<noteq> []" using that by auto
      then obtain us l where us: "evs = us @ [l]" by (metis rev_exhaust)
      have "ev_seq x \<le> ev_seq l" using Cons.prems(2) that unfolding us by (auto simp: sorted_wrt_append)
      then show ?thesis using gap us by simp
    qed
    then have "sorted_wrt (<) (map ev_seq (evs @ [ev]))"
      using Cons.prems(2) by (simp add: sorted_wrt_append)
    from Cons.IH [OF inv this] Inr show ?thesis by (auto split: sum.splits)
  qed
qed simp

lemma sorted_selected: "sorted_wrt (\<le>) (map ev_seq (selected_events events through_seq))"
  by (cases through_seq) (auto simp: selected_events_def Let_def sorted_filter)

lemma strict_iff_distinct: "sorted_wrt (\<le>) xs \<Longrightarrow> sorted_wrt (<) xs \<longleftrightarrow> distinct xs" for xs :: "int list"
  by (simp add: strict_sorted_iff)

lemma build_root_cases:
  "case build_root fl events through_seq of
     Inl _ \<Rightarrow> \<not> distinct (map ev_seq (selected_events events through_seq))
   | Inr r \<Rightarrow> distinct (map ev_seq (selected_events events through_seq))
       \<and> mr_root r = hex_of (merkle_tree_hash (map (leaf_hash fl) (selected_events events through_seq)))
       \<and> mr_tree_size r = length (selected_events events through_seq)
       \<and> mr_first_seq r = (if selected_events events through_seq = [] then 0 else ev_seq (hd (selected_events events through_seq)))
       \<and> mr_last_seq r = (if selected_events events through_seq = [] then 0 else ev_seq (last (selected_events events through_seq)))"
proof -
  let ?sel = "selected_events events through_seq"
  note adds = running_adds [OF running_init, where fl = fl and later = ?sel, simplified]
  have sorted: "sorted_wrt (<) (map ev_seq ?sel) \<longleftrightarrow> distinct (map ev_seq ?sel)"
    by (rule strict_iff_distinct [OF sorted_selected])
  show ?thesis
  proof (cases "add_events fl ?sel init_root")
    case (Inl e)
    then show ?thesis using adds sorted by (simp add: build_root_def)
  next
    case (Inr rr)
    then have ok: "distinct (map ev_seq ?sel)" and inv: "running_inv fl ?sel rr" using adds sorted by simp_all
    have "fold_peaks (rr_peaks rr) = merkle_tree_hash (map (leaf_hash fl) ?sel)"
      using fold_peaks_exact inv by (simp add: running_inv_def)
    then show ?thesis using Inr ok inv
      by (simp add: build_root_def commit_def root_hex_def running_inv_def)
  qed
qed

lemma build_root_Inr: "build_root fl events through_seq = Inr r \<Longrightarrow>
    mr_root r = hex_of (merkle_tree_hash (map (leaf_hash fl) (selected_events events through_seq)))
    \<and> mr_tree_size r = length (selected_events events through_seq)"
  using build_root_cases [where fl = fl and events = events and through_seq = through_seq] by simp

text \<open>Strictly growing powers of two: the peaks are as few as the bits of the size.\<close>

lemma peaks_count: "peaks_cover ps ls \<Longrightarrow> sorted_wrt (<) (map fst ps) \<Longrightarrow> ps \<noteq> [] \<Longrightarrow>
    2 ^ (length ps - 1) * fst (hd ps) \<le> length ls"
proof (induction ps ls rule: peaks_cover.induct)
  case (2 n h ps ls)
  then obtain k xs ys where
    c: "n = 2 ^ k" "ls = xs @ ys" "length ys = n" "peaks_cover ps xs" by auto
  show ?case
  proof (cases ps)
    case Nil
    then show ?thesis using c by simp
  next
    case (Cons q qs)
    have "2 ^ k < fst q" using "2.prems"(2) c(1) by (simp add: Cons)
    then have "2 * n \<le> fst q" using peak_gap [OF c(4), of q k] c(1) by (simp add: Cons)
    then have "2 ^ length qs * (2 * n) \<le> 2 ^ length qs * fst q" by (rule mult_le_mono2)
    also have "2 ^ length qs * fst q \<le> length xs"
      using "2.IH" c "2.prems"(2) by (simp add: Cons)
    also have "length xs \<le> length ls" using c(2) by simp
    finally have "2 ^ length qs * (2 * n) \<le> length ls" .
    then show ?thesis by (simp add: Cons mult.commute mult.left_commute)
  qed
qed simp

section \<open>Proofs\<close>

lemma index_where_Some: "index_where P xs = Some i \<Longrightarrow> i < length xs \<and> P (xs ! i)"
  by (induction xs arbitrary: i) (auto split: if_splits)

lemma index_where_None: "index_where P xs = None \<longleftrightarrow> (\<forall>x \<in> set xs. \<not> P x)"
  by (induction xs) auto

lemma from_hexes_of [simp]: "from_hexes (map hex_of bs) = Some bs"
  by (induction bs) auto

lemma hex_of_ascii: "list_all (\<lambda>c. code_of c < (128::nat)) (hex_of bs)"
proof (induction bs)
  case (Cons b bs)
  have "code_of (hex_digit n) < (128::nat)" if "n < 16" for n
    using that by (auto simp: hex_digit_def)
  moreover have "unat b < 256" using unsigned_less [of b, where ?'a = nat] by simp
  then have "unat b div 16 < 16" "unat b mod 16 < 16" by (auto simp: div_less_iff_less_mult)
  ultimately show ?case using Cons by (simp add: hex_of_def)
qed (simp add: hex_of_def)

lemma compare_digest_hex: "compare_digest (hex_of a) (hex_of b) = Inr (a = b)"
  using hex_of_ascii [of a] hex_of_ascii [of b] by (simp add: compare_digest_def hex_of_inj)

lemma build_proof_cases:
  assumes "build_proof fl events seq through_seq = Some p"
  shows "let sel = selected_events events through_seq in
    \<exists>i < length sel. ev_seq (sel ! i) = seq \<and>
      p = \<lparr>ip_seq = seq, ip_index = int i, ip_tree_size = int (length sel),
           ip_leaf = hex_of (leaf_hash fl (sel ! i)),
           ip_path = map hex_of (audit_path i (map (leaf_hash fl) sel)),
           ip_root = hex_of (merkle_tree_hash (map (leaf_hash fl) sel))\<rparr>"
  using assms index_where_Some by (fastforce simp: build_proof_def Let_def split: option.splits)

lemma built_proof_verifies: "build_proof fl events seq through_seq = Some p \<Longrightarrow> verify_inclusion p = Inr True"
proof -
  let ?sel = "selected_events events through_seq" and ?ls = "map (leaf_hash fl) (selected_events events through_seq)"
  assume "build_proof fl events seq through_seq = Some p"
  then obtain i where i: "i < length ?sel"
    and p: "p = \<lparr>ip_seq = seq, ip_index = int i, ip_tree_size = int (length ?sel),
           ip_leaf = hex_of (leaf_hash fl (?sel ! i)), ip_path = map hex_of (audit_path i ?ls),
           ip_root = hex_of (merkle_tree_hash ?ls)\<rparr>"
    using build_proof_cases [of fl events seq through_seq p] by (auto simp: Let_def)
  show ?thesis
    using root_from_audit_path [of i ?ls] i
    by (simp add: p verify_inclusion_def audit_path_fits compare_digest_hex)
qed

section \<open>Collisions\<close>

text \<open>
  The inputs the tree hash and the reconstruction hand to SHA-256.  Soundness cannot say that no
  two of them collide; it says that the only way to be fooled is such a pair, and names the
  lists it comes from.
\<close>

function tree_inputs :: "bytes list \<Rightarrow> bytes list" where
  "tree_inputs ls =
     (let n = length ls; split = largest_power_of_two_below n in
      if n \<le> 1 then []
      else (NODE_PREFIX @ merkle_tree_hash (take split ls) @ merkle_tree_hash (drop split ls))
             # tree_inputs (take split ls) @ tree_inputs (drop split ls))"
  by auto
termination
  by (relation "measure length") (auto simp: not_le min_less_iff_disj split_lt' split_rest)

function path_inputs :: "nat \<Rightarrow> nat \<Rightarrow> bytes \<Rightarrow> bytes list \<Rightarrow> bytes list" where
  "path_inputs index n leaf path =
     (let split = largest_power_of_two_below n in
      if n \<le> 1 then []
      else if index < split
      then (NODE_PREFIX @ root_from_path index split leaf (butlast path) @ last path)
             # path_inputs index split leaf (butlast path)
      else (NODE_PREFIX @ last path @ root_from_path (index - split) (n - split) leaf (butlast path))
             # path_inputs (index - split) (n - split) leaf (butlast path))"
  by auto
termination
  by (relation "measure (\<lambda>(i, n, l, p). n)") (auto simp: not_le split_lt' split_rest)

declare tree_inputs.simps [simp del] path_inputs.simps [simp del]

definition collision :: "bytes list \<Rightarrow> bytes list \<Rightarrow> bool" where
  "collision xs ys \<longleftrightarrow> (\<exists>x \<in> set xs. \<exists>y \<in> set ys. x \<noteq> y \<and> sha256 x = sha256 y)"

lemma collision_mono: "collision xs ys \<Longrightarrow> set xs \<subseteq> set xs' \<Longrightarrow> set ys \<subseteq> set ys' \<Longrightarrow> collision xs' ys'"
  by (auto simp: collision_def)

lemma root_from_path_length: "length leaf = 32 \<Longrightarrow> length (root_from_path i n leaf path) = 32"
  by (subst root_from_path.simps) (simp add: Let_def node_hash_def)

lemma path_binds_leaf:
  assumes "root_from_path i n leaf path = merkle_tree_hash ls" and "n = length ls" and "i < n"
    and "length leaf = 32" and "\<forall>l \<in> set ls. length l = 32"
  shows "leaf = ls ! i \<or> collision (path_inputs i n leaf path) (tree_inputs ls)"
  using assms
proof (induction i n leaf path arbitrary: ls rule: root_from_path.induct)
  case (1 i n leaf path)
  let ?k = "largest_power_of_two_below n"
  show ?case
  proof (cases "n \<le> 1")
    case True
    then have "length ls = 1" "i = 0" "n = 1" using "1.prems" by auto
    then show ?thesis using "1.prems"(1)
      by (cases ls) (simp_all add: root_from_path.simps [of 0] mth_single)
  next
    case False
    then have k: "?k < n" "2 \<le> length ls" "0 < ?k" using "1.prems"(2) by (auto simp: split_lt' split_gt')
    have sub: "set (take ?k ls) \<subseteq> set ls" "set (drop ?k ls) \<subseteq> set ls"
      by (auto dest: in_set_takeD in_set_dropD)
    let ?l = "merkle_tree_hash (take ?k ls)" and ?r = "merkle_tree_hash (drop ?k ls)"
    have len: "length ?l = 32" "length ?r = 32" using sub "1.prems"(5) by (auto intro!: mth_length)
    have root: "merkle_tree_hash ls = sha256 (NODE_PREFIX @ ?l @ ?r)"
      using mth_node [OF k(2)] "1.prems"(2) by (simp add: node_hash_def)
    have inputs: "tree_inputs ls = (NODE_PREFIX @ ?l @ ?r) # tree_inputs (take ?k ls) @ tree_inputs (drop ?k ls)"
      using False "1.prems"(2) by (simp add: tree_inputs.simps [of ls] Let_def)
    show ?thesis
    proof (cases "i < ?k")
      case True
      let ?x = "root_from_path i ?k leaf (butlast path)"
      have eq: "sha256 (NODE_PREFIX @ ?x @ last path) = sha256 (NODE_PREFIX @ ?l @ ?r)"
        using "1.prems"(1) True False root by (simp add: root_from_path.simps [of i n] node_hash_def Let_def)
      have pin: "path_inputs i n leaf path = (NODE_PREFIX @ ?x @ last path) # path_inputs i ?k leaf (butlast path)"
        using True False by (simp add: path_inputs.simps [of i n] Let_def)
      show ?thesis
      proof (cases "?x @ last path = ?l @ ?r")
        case same: True
        then have "?x = ?l" using root_from_path_length [OF "1.prems"(4)] len by simp
        then have "leaf = take ?k ls ! i \<or> collision (path_inputs i ?k leaf (butlast path)) (tree_inputs (take ?k ls))"
          using "1.IH"(1) [OF refl False True, of "take ?k ls"] k sub "1.prems"(2,4,5) True by auto
        then show ?thesis using True by (auto simp: pin inputs collision_def)
      next
        case differ: False
        then show ?thesis using eq by (auto simp: collision_def pin inputs)
      qed
    next
      case ge: False
      let ?x = "root_from_path (i - ?k) (n - ?k) leaf (butlast path)"
      have eq: "sha256 (NODE_PREFIX @ last path @ ?x) = sha256 (NODE_PREFIX @ ?l @ ?r)"
        using "1.prems"(1) ge False root by (simp add: root_from_path.simps [of i n] node_hash_def Let_def)
      have pin: "path_inputs i n leaf path =
          (NODE_PREFIX @ last path @ ?x) # path_inputs (i - ?k) (n - ?k) leaf (butlast path)"
        using ge False by (simp add: path_inputs.simps [of i n] Let_def)
      show ?thesis
      proof (cases "last path @ ?x = ?l @ ?r")
        case same: True
        have below: "i - ?k < n - ?k" using ge "1.prems"(3) by linarith
        have all32: "\<forall>l \<in> set (drop ?k ls). length l = 32" using sub "1.prems"(5) by blast
        from same have "?x = ?r" using root_from_path_length [OF "1.prems"(4)] len
          by (metis append_eq_append_conv)
        then have "leaf = drop ?k ls ! (i - ?k)
            \<or> collision (path_inputs (i - ?k) (n - ?k) leaf (butlast path)) (tree_inputs (drop ?k ls))"
          using "1.IH"(2) [OF refl False ge _ _ below "1.prems"(4) all32] "1.prems"(2) by simp
        moreover have "drop ?k ls ! (i - ?k) = ls ! i" using ge "1.prems"(2,3) by simp
        ultimately show ?thesis by (auto simp: pin inputs collision_def)
      next
        case differ: False
        then show ?thesis using eq by (auto simp: collision_def pin inputs)
      qed
    qed
  qed
qed

section \<open>Properties\<close>

text \<open>
  The streaming root is the RFC 6962 root.  For every rows and cut, \<open>build_root\<close> (the fold of
  the peaks over the ascending stream) succeeds exactly when no sequence number occurs twice,
  and then its root is the recursive Merkle Tree Hash over the leaf hashes of the selected
  events, with their number and their first and last sequence number.
\<close>

theorem streaming_root_exact:
  "case build_root fl events through_seq of
     Inl _ \<Rightarrow> \<not> distinct (map ev_seq (selected_events events through_seq))
   | Inr r \<Rightarrow> distinct (map ev_seq (selected_events events through_seq))
       \<and> mr_root r = hex_of (merkle_tree_hash (map (leaf_hash fl) (selected_events events through_seq)))
       \<and> mr_tree_size r = length (selected_events events through_seq)
       \<and> mr_first_seq r = (if selected_events events through_seq = [] then 0 else ev_seq (hd (selected_events events through_seq)))
       \<and> mr_last_seq r = (if selected_events events through_seq = [] then 0 else ev_seq (last (selected_events events through_seq)))"
  by (rule build_root_cases)

text \<open>
  Committing is bounded in memory: after any number of events have been folded in, the
  running root holds at most as many peaks as the number of events has binary digits.
\<close>

theorem running_root_bounded:
  assumes "add_events fl events init_root = Inr rr"
  shows "length (rr_peaks rr) \<le> bit_length (length events)"
proof (cases "rr_peaks rr = []")
  case False
  have inv: "running_inv fl events rr"
    using running_adds [OF running_init, where fl = fl and later = events] assms by simp
  then have c: "peaks_cover (rr_peaks rr) (map (leaf_hash fl) events)" "sorted_wrt (<) (map fst (rr_peaks rr))"
    by (simp_all add: running_inv_def)
  from peaks_count [OF c False] have big: "2 ^ (length (rr_peaks rr) - 1) * fst (hd (rr_peaks rr)) \<le> length events"
    by simp
  have "1 \<le> fst (hd (rr_peaks rr))" using peak_positive [OF c(1) hd_in_set [OF False]] by simp
  then have "2 ^ (length (rr_peaks rr) - 1) * 1 \<le> 2 ^ (length (rr_peaks rr) - 1) * fst (hd (rr_peaks rr))"
    by (rule mult_le_mono2)
  from le_trans [OF this big] have "\<not> length events < 2 ^ (length (rr_peaks rr) - 1)" by simp
  then show ?thesis unfolding bit_length_le by simp
qed simp

definition demo_event :: "int \<Rightarrow> string \<Rightarrow> stored_event" where
  "demo_event q k = \<lparr>ev_seq = q, ev_kind = k, ev_payload = [(''task_id'', JString ''T'')], ev_ts = Finite 1\<rparr>"

definition demo_log :: "stored_event list" where
  "demo_log = [demo_event 1 ''claim'', demo_event 2 ''release'', demo_event 3 ''claim'', demo_event 5 ''handoff'']"

theorem running_root_bounded_witness:
  "\<exists>rr. add_events (\<lambda>_. ''1.0'') demo_log init_root = Inr rr \<and> length (rr_peaks rr) \<le> bit_length (length demo_log)"
proof -
  obtain rr where "add_events (\<lambda>_. ''1.0'') demo_log init_root = Inr rr"
    by (simp add: demo_log_def demo_event_def add_event_def init_root_def)
  then show ?thesis using running_root_bounded by blast
qed

text \<open>
  C30: Proofs are complete and short.  \<open>build_proof\<close> gives a proof exactly for the sequence numbers
  of the selected events; the proof verifies, is against the committed root and size, carries
  the leaf of an event with that sequence number, and its path is no longer than the binary
  length of the tree size.
\<close>

theorem inclusion_complete:
  "case build_proof fl events seq through_seq of
     None \<Rightarrow> seq \<notin> set (map ev_seq (selected_events events through_seq))
   | Some p \<Rightarrow> verify_inclusion p = Inr True
       \<and> (\<exists>ev \<in> set (selected_events events through_seq). ev_seq ev = seq \<and> ip_leaf p = hex_of (leaf_hash fl ev))
       \<and> length (ip_path p) \<le> bit_length (nat (ip_tree_size p) - 1)
       \<and> (case build_root fl events through_seq of
            Inl _ \<Rightarrow> True
          | Inr r \<Rightarrow> ip_root p = mr_root r \<and> ip_tree_size p = int (mr_tree_size r))"
proof (cases "build_proof fl events seq through_seq")
  case None
  then show ?thesis by (auto simp: build_proof_def Let_def index_where_None split: option.splits)
next
  case (Some p)
  let ?sel = "selected_events events through_seq"
  from build_proof_cases [OF Some] obtain i where i: "i < length ?sel" "ev_seq (?sel ! i) = seq"
    and p: "p = \<lparr>ip_seq = seq, ip_index = int i, ip_tree_size = int (length ?sel),
           ip_leaf = hex_of (leaf_hash fl (?sel ! i)), ip_path = map hex_of (audit_path i (map (leaf_hash fl) ?sel)),
           ip_root = hex_of (merkle_tree_hash (map (leaf_hash fl) ?sel))\<rparr>"
    by (auto simp: Let_def)
  have "?sel ! i \<in> set ?sel" using i(1) by simp
  then have "\<exists>ev \<in> set ?sel. ev_seq ev = seq \<and> ip_leaf p = hex_of (leaf_hash fl ev)"
    using i(2) by (auto simp: p)
  moreover have "length (ip_path p) \<le> bit_length (nat (ip_tree_size p) - 1)"
    using audit_path_short [OF i(1)] by (simp add: p audit_path_fits)
  moreover have "case build_root fl events through_seq of Inl _ \<Rightarrow> True
      | Inr r \<Rightarrow> ip_root p = mr_root r \<and> ip_tree_size p = int (mr_tree_size r)"
    using build_root_Inr [of fl events through_seq] by (auto simp: p split: sum.split)
  ultimately show ?thesis using Some built_proof_verifies [OF Some] by simp
qed

lemma verified_root:
  assumes "verify_inclusion p = Inr True" and "from_hex (ip_leaf p) = Some leaf"
  shows "\<exists>path. from_hexes (ip_path p) = Some path \<and> 0 \<le> ip_index p \<and> ip_index p < ip_tree_size p
    \<and> ip_root p = hex_of (root_from_path (nat (ip_index p)) (nat (ip_tree_size p)) leaf path)"
  using assms by (auto simp: verify_inclusion_def compare_digest_def split: if_splits option.splits)

text \<open>
  C29: Proofs are sound.  When a proof that carries the leaf hash of an event verifies against the
  root and size of a committed log, then the event has the same canonical bytes as the log's
  event at the proven index, or the hashes computed along the way contain two different
  inputs with the same SHA-256 digest.
\<close>

theorem inclusion_sound:
  assumes "verify_inclusion p = Inr True" and "ip_leaf p = hex_of (leaf_hash fl ev)"
    and "build_root fl events through_seq = Inr r"
    and "ip_root p = mr_root r" and "ip_tree_size p = int (mr_tree_size r)"
    and "from_hexes (ip_path p) = Some path"
  shows "let sel = selected_events events through_seq; i = nat (ip_index p) in
    i < length sel \<and>
    (canonical_event_bytes fl ev = canonical_event_bytes fl (sel ! i)
     \<or> collision [LEAF_PREFIX @ canonical_event_bytes fl ev]
          (map (\<lambda>e. LEAF_PREFIX @ canonical_event_bytes fl e) sel)
     \<or> collision (path_inputs i (length sel) (leaf_hash fl ev) path) (tree_inputs (map (leaf_hash fl) sel)))"
proof -
  define sel where "sel = selected_events events through_seq"
  define i where "i = nat (ip_index p)"
  note r = build_root_Inr [OF assms(3), folded sel_def]
  have leaf: "from_hex (ip_leaf p) = Some (leaf_hash fl ev)" by (simp add: assms(2))
  from verified_root [OF assms(1) leaf] have i: "i < length sel"
    and "ip_root p = hex_of (root_from_path i (length sel) (leaf_hash fl ev) path)"
    using assms(5,6) r by (auto simp: i_def)
  then have "root_from_path i (length sel) (leaf_hash fl ev) path = merkle_tree_hash (map (leaf_hash fl) sel)"
    using assms(4) r by (simp add: hex_of_inj)
  from path_binds_leaf [OF this] i
  have "leaf_hash fl ev = leaf_hash fl (sel ! i)
      \<or> collision (path_inputs i (length sel) (leaf_hash fl ev) path) (tree_inputs (map (leaf_hash fl) sel))"
    by (auto simp: leaf_hash_def)
  moreover have "canonical_event_bytes fl ev = canonical_event_bytes fl (sel ! i)
      \<or> collision [LEAF_PREFIX @ canonical_event_bytes fl ev]
          (map (\<lambda>e. LEAF_PREFIX @ canonical_event_bytes fl e) sel)"
    if "leaf_hash fl ev = leaf_hash fl (sel ! i)"
    using that i by (fastforce simp: collision_def leaf_hash_def)
  ultimately show ?thesis using i by (auto simp: Let_def sel_def i_def)
qed

text \<open>The prover's own proof of the second event of a log, checked against the committed root.\<close>

theorem inclusion_sound_witness:
  "\<exists>p path. let fl = (\<lambda>_. ''1.0''); ev = demo_event 2 ''release''; sel = selected_events demo_log None; i = nat (ip_index p) in
    build_proof fl demo_log 2 None = Some p \<and> i < length sel \<and>
    (canonical_event_bytes fl ev = canonical_event_bytes fl (sel ! i)
     \<or> collision [LEAF_PREFIX @ canonical_event_bytes fl ev]
          (map (\<lambda>e. LEAF_PREFIX @ canonical_event_bytes fl e) sel)
     \<or> collision (path_inputs i (length sel) (leaf_hash fl ev) path) (tree_inputs (map (leaf_hash fl) sel)))"
proof -
  let ?fl = "\<lambda>_ :: time. ''1.0''" and ?ev = "demo_event 2 ''release''"
  have sel: "selected_events demo_log None = demo_log"
    by (simp add: selected_events_def demo_log_def demo_event_def)
  have idx: "index_where (\<lambda>ev. ev_seq ev = 2) demo_log = Some 1" and at: "demo_log ! 1 = ?ev"
    by (simp_all add: demo_log_def demo_event_def)
  have "1 < length demo_log" by (simp add: demo_log_def)
  then obtain p where p: "build_proof ?fl demo_log 2 None = Some p" "ip_leaf p = hex_of (leaf_hash ?fl ?ev)"
      "ip_path p = map hex_of (audit_path 1 (map (leaf_hash ?fl) demo_log))"
    using at by (simp add: build_proof_def sel idx Let_def)
  obtain r where r: "build_root ?fl demo_log None = Inr r"
    using build_root_cases [where fl = ?fl and events = demo_log and through_seq = None]
    by (cases "build_root ?fl demo_log None") (simp_all add: sel, simp add: demo_log_def demo_event_def)
  have "ip_root p = mr_root r" "ip_tree_size p = int (mr_tree_size r)"
    using build_root_Inr [OF r] build_proof_cases [OF p(1)] by (auto simp: Let_def)
  then show ?thesis
    using inclusion_sound [OF built_proof_verifies [OF p(1)] p(2) r] p(1,3) unfolding Let_def by fastforce
qed

lemma tree_hash_binds:
  assumes "merkle_tree_hash xs = merkle_tree_hash ys" and "length xs = length ys"
    and "\<forall>x \<in> set xs. length x = 32" and "\<forall>y \<in> set ys. length y = 32"
  shows "xs = ys \<or> collision (tree_inputs xs) (tree_inputs ys)"
  using assms
proof (induction xs arbitrary: ys rule: merkle_tree_hash.induct)
  case (1 xs)
  let ?k = "largest_power_of_two_below (length xs)"
  consider "length xs = 0" | "length xs = 1" | "2 \<le> length xs" by linarith
  then show ?case
  proof cases
    case 1
    then show ?thesis using "1.prems"(2) by simp
  next
    case 2
    then show ?thesis using "1.prems"(1,2) by (cases xs; cases ys) (simp_all add: mth_single)
  next
    case 3
    let ?xl = "take ?k xs" and ?xr = "drop ?k xs" and ?yl = "take ?k ys" and ?yr = "drop ?k ys"
    have k: "?k < length xs" using 3 by (simp add: split_lt')
    have sub: "set ?xl \<subseteq> set xs" "set ?xr \<subseteq> set xs" "set ?yl \<subseteq> set ys" "set ?yr \<subseteq> set ys"
      by (auto dest: in_set_takeD in_set_dropD)
    let ?ix = "NODE_PREFIX @ merkle_tree_hash ?xl @ merkle_tree_hash ?xr"
    let ?iy = "NODE_PREFIX @ merkle_tree_hash ?yl @ merkle_tree_hash ?yr"
    have inputs: "tree_inputs xs = ?ix # tree_inputs ?xl @ tree_inputs ?xr"
        "tree_inputs ys = ?iy # tree_inputs ?yl @ tree_inputs ?yr"
      using 3 "1.prems"(2) by (simp_all add: tree_inputs.simps [of xs] tree_inputs.simps [of ys] Let_def)
    have eq: "sha256 ?ix = sha256 ?iy"
      using "1.prems"(1,2) 3 mth_node [of xs] mth_node [of ys] by (simp add: node_hash_def)
    show ?thesis
    proof (cases "?ix = ?iy")
      case True
      have "length (merkle_tree_hash ?xl) = length (merkle_tree_hash ?yl)"
        using sub "1.prems"(3,4) by (subst (1 2) mth_length) auto
      then have halves: "merkle_tree_hash ?xl = merkle_tree_hash ?yl" "merkle_tree_hash ?xr = merkle_tree_hash ?yr"
        using True by simp_all
      have n: "length xs \<noteq> 0" "length xs \<noteq> 1" using 3 by linarith+
      have "?xl = ?yl \<or> collision (tree_inputs ?xl) (tree_inputs ?yl)"
        by (rule "1.IH"(1) [OF refl refl n halves(1)]) (use sub "1.prems"(2-4) in auto)
      moreover have "?xr = ?yr \<or> collision (tree_inputs ?xr) (tree_inputs ?yr)"
        by (rule "1.IH"(2) [OF refl refl n halves(2)]) (use sub "1.prems"(2-4) in auto)
      moreover have "xs = ys" if "?xl = ?yl" "?xr = ?yr" using that by (metis append_take_drop_id)
      ultimately show ?thesis by (auto simp: inputs collision_def)
    next
      case False
      then show ?thesis using eq by (auto simp: collision_def inputs)
    qed
  qed
qed

text \<open>
  The root binds the log.  Two logs that commit to the same root and size have the same
  sequence of canonical event bytes, or the hashes of the two commitments contain two different
  inputs with the same SHA-256 digest: a mismatch of logs shows as a mismatch of roots.
\<close>

theorem root_binds_log:
  assumes "build_root fl events through_seq = Inr r" and "build_root fl events' through_seq' = Inr r'"
    and "mr_root r = mr_root r'" and "mr_tree_size r = mr_tree_size r'"
  shows "let rows = map (\<lambda>e. LEAF_PREFIX @ canonical_event_bytes fl e) (selected_events events through_seq);
             rows' = map (\<lambda>e. LEAF_PREFIX @ canonical_event_bytes fl e) (selected_events events' through_seq')
         in rows = rows' \<or> collision rows rows' \<or> collision (tree_inputs (map sha256 rows)) (tree_inputs (map sha256 rows'))"
proof -
  define rows where "rows = map (\<lambda>e. LEAF_PREFIX @ canonical_event_bytes fl e) (selected_events events through_seq)"
  define rows' where "rows' = map (\<lambda>e. LEAF_PREFIX @ canonical_event_bytes fl e) (selected_events events' through_seq')"
  have leaves: "map (leaf_hash fl) (selected_events events through_seq) = map sha256 rows"
      "map (leaf_hash fl) (selected_events events' through_seq') = map sha256 rows'"
    by (simp_all add: rows_def rows'_def leaf_hash_def)
  have len: "length rows = length rows'"
    using build_root_Inr [OF assms(1)] build_root_Inr [OF assms(2)] assms(4) by (simp add: rows_def rows'_def)
  have "merkle_tree_hash (map sha256 rows) = merkle_tree_hash (map sha256 rows')"
    using build_root_Inr [OF assms(1)] build_root_Inr [OF assms(2)] assms(3) by (simp add: leaves hex_of_inj)
  then have "map sha256 rows = map sha256 rows' \<or> collision (tree_inputs (map sha256 rows)) (tree_inputs (map sha256 rows'))"
    by (rule tree_hash_binds) (use len in auto)
  moreover have "rows = rows' \<or> collision rows rows'" if "map sha256 rows = map sha256 rows'"
  proof (cases "\<exists>i < length rows. rows ! i \<noteq> rows' ! i")
    case True
    then obtain i where i: "i < length rows" "rows ! i \<noteq> rows' ! i" by blast
    moreover have "sha256 (rows ! i) = sha256 (rows' ! i)" using that i(1) len by (metis nth_map)
    ultimately have "collision rows rows'" unfolding collision_def using len by (metis nth_mem)
    then show ?thesis ..
  next
    case False
    then show ?thesis using len by (auto intro: nth_equalityI)
  qed
  ultimately show ?thesis by (auto simp: Let_def rows_def rows'_def)
qed

text \<open>The same log read in another row order.\<close>

theorem root_binds_log_witness:
  "\<exists>r r'. build_root (\<lambda>_. ''1.0'') demo_log None = Inr r \<and> build_root (\<lambda>_. ''1.0'') (rev demo_log) None = Inr r' \<and>
     (let rows = map (\<lambda>e. LEAF_PREFIX @ canonical_event_bytes (\<lambda>_. ''1.0'') e) (selected_events demo_log None);
          rows' = map (\<lambda>e. LEAF_PREFIX @ canonical_event_bytes (\<lambda>_. ''1.0'') e) (selected_events (rev demo_log) None)
      in rows = rows' \<or> collision rows rows' \<or> collision (tree_inputs (map sha256 rows)) (tree_inputs (map sha256 rows')))"
proof -
  let ?fl = "\<lambda>_ :: time. ''1.0''"
  have sel: "selected_events demo_log None = demo_log" "selected_events (rev demo_log) None = demo_log"
    by (simp_all add: selected_events_def demo_log_def demo_event_def)
  have "distinct (map ev_seq demo_log)" by (simp add: demo_log_def demo_event_def)
  then obtain r r' where r: "build_root ?fl demo_log None = Inr r" "build_root ?fl (rev demo_log) None = Inr r'"
    using build_root_cases [where fl = ?fl and events = demo_log and through_seq = None]
      build_root_cases [where fl = ?fl and events = "rev demo_log" and through_seq = None]
    by (cases "build_root ?fl demo_log None"; cases "build_root ?fl (rev demo_log) None") (simp_all add: sel)
  have "mr_root r = mr_root r'" "mr_tree_size r = mr_tree_size r'"
    using build_root_Inr [OF r(1)] build_root_Inr [OF r(2)] by (simp_all add: sel)
  from root_binds_log [OF r this] r show ?thesis by blast
qed

section \<open>What a verified proof does not show\<close>

definition interior_proof :: "(time \<Rightarrow> string) \<Rightarrow> stored_event list \<Rightarrow> inclusion_proof" where
  "interior_proof fl evs =
     (let split = largest_power_of_two_below (length evs); leaves = map (leaf_hash fl) evs in
      \<lparr>ip_seq = 1, ip_index = 0, ip_tree_size = 2,
       ip_leaf = hex_of (merkle_tree_hash (take split leaves)),
       ip_path = [hex_of (merkle_tree_hash (drop split leaves))],
       ip_root = hex_of (merkle_tree_hash leaves)\<rparr>)"

text \<open>
  \<open>verify_inclusion\<close> trusts the tree size the proof states and takes the leaf as a digest, so
  the leaf prefix does not protect it: for every committed log of at least two events the
  digest of the interior node over the first subtree verifies as the leaf of a tree of size
  two against the committed root.  A caller has to compare the tree size with the committed one
  and recompute the leaf, as the evidence verifier does.
\<close>

theorem interior_node_verifies:
  assumes "build_root fl events through_seq = Inr r" and "2 \<le> mr_tree_size r"
  shows "let p = interior_proof fl (selected_events events through_seq) in
    verify_inclusion p = Inr True \<and> verify_root (ip_root p) (mr_root r) = Inr True"
proof -
  let ?sel = "selected_events events through_seq"
  note r = build_root_Inr [OF assms(1)]
  have two: "largest_power_of_two_below 2 = 1" using split_unique [of 0 2] by simp
  have "root_from_path 0 2 x [y] = node_hash x y" for x y
    by (simp add: root_from_path.simps [of 0] two Let_def)
  moreover have "audit_path_length 0 2 = 1"
    by (simp add: audit_path_length.simps [of 0] two Let_def)
  ultimately have "verify_inclusion (interior_proof fl ?sel) = Inr True"
    using assms(2) r mth_node [of "map (leaf_hash fl) ?sel"]
    by (simp add: verify_inclusion_def interior_proof_def Let_def compare_digest_hex)
  moreover have "list_all (\<lambda>c. code_of c < (128::nat)) (ascii_lower (py_strip (hex_of bs)))" for bs
  proof -
    have "list_all (\<lambda>c. code_of c < (128::nat)) (py_strip (hex_of bs))"
      using hex_of_ascii [of bs] set_py_strip [of "hex_of bs"] by (auto simp: list_all_iff)
    then show ?thesis by (auto simp: ascii_lower_def list_all_iff)
  qed
  then have "verify_root (ip_root (interior_proof fl ?sel)) (mr_root r) = Inr True"
    using r by (simp add: verify_root_def interior_proof_def Let_def compare_digest_def list_all_append)
  ultimately show ?thesis by (simp add: Let_def)
qed

theorem interior_node_verifies_witness:
  "\<exists>r. build_root (\<lambda>_. ''1.0'') demo_log None = Inr r \<and>
    (let p = interior_proof (\<lambda>_. ''1.0'') (selected_events demo_log None) in
      verify_inclusion p = Inr True \<and> verify_root (ip_root p) (mr_root r) = Inr True)"
proof -
  let ?fl = "\<lambda>_ :: time. ''1.0''"
  have sel: "selected_events demo_log None = demo_log"
    by (simp add: selected_events_def demo_log_def demo_event_def)
  obtain r where r: "build_root ?fl demo_log None = Inr r"
    using build_root_cases [where fl = ?fl and events = demo_log and through_seq = None]
    by (cases "build_root ?fl demo_log None") (simp_all add: sel, simp add: demo_log_def demo_event_def)
  have "2 \<le> mr_tree_size r" using build_root_Inr [OF r] by (simp add: sel) (simp add: demo_log_def)
  from interior_node_verifies [OF r this] r show ?thesis by blast
qed

text \<open>A root with a character outside ASCII makes the verification raise instead of answering.\<close>

lemma verify_raises_outside_ascii:
  "verify_inclusion \<lparr>ip_seq = 1, ip_index = 0, ip_tree_size = 1, ip_leaf = [], ip_path = [], ip_root = [CHR 0xE9]\<rparr>
    = Inl NonAsciiDigest"
  by (simp add: verify_inclusion_def audit_path_length.simps [of 0] compare_digest_def)

end
