(* ===== verification/Sha256_Vector.thy ===== *)
theory Sha256_Vector
  imports Sha256
begin

text \<open>
  A known answer for the digest function of \<open>Sha256\<close>: the first example of FIPS 180-4,
  evaluated in the kernel.  Nothing depends on it; it checks the transcription of the standard.
\<close>

unbundle bit_operations_syntax

definition abc_schedule :: "word32 list" where
  "abc_schedule =
    [0x61626380, 0x00000000, 0x00000000, 0x00000000, 0x00000000, 0x00000000, 0x00000000, 0x00000000, 0x00000000,
     0x00000000, 0x00000000, 0x00000000, 0x00000000, 0x00000000, 0x00000000, 0x00000018, 0x61626380, 0x000f0000,
     0x7da86405, 0x600003c6, 0x3e9d7b78, 0x0183fc00, 0x12dcbfdb, 0xe2e2c38e, 0xc8215c1a, 0xb73679a2, 0xe5bc3909,
     0x32663c5b, 0x9d209d67, 0xec8726cb, 0x702138a4, 0xd3b7973b, 0x93f5997f, 0x3b68ba73, 0xaff4ffc1, 0xf10a5c62,
     0x0a8b3996, 0x72af830a, 0x9409e33e, 0x24641522, 0x9f47bf94, 0xf0a64f5a, 0x3e246a79, 0x27333ba3, 0x0c4763f2,
     0x840abf27, 0x7a290d5d, 0x065c43da, 0xfb3e89cb, 0xcc7617db, 0xb9e66c34, 0xa9993667, 0x84badedd, 0xc21462bc,
     0x1487472c, 0xb20f7a99, 0xef57b9cd, 0xebe6b238, 0x9fe3095e, 0x78bc8d4b, 0xa43fcf15, 0x668b2ff8, 0xeeaba2cc,
     0x12b1edeb]"

lemma abc_schedule_ok: "rev (sha_extend 48 (rev (be_words (sha_pad [0x61, 0x62, 0x63])))) = abc_schedule"
  by code_simp

lemma abc_rounds_1:
  "foldl sha_step
    [0x6a09e667, 0xbb67ae85, 0x3c6ef372, 0xa54ff53a, 0x510e527f, 0x9b05688c, 0x1f83d9ab, 0x5be0cd19] (take 16 (drop 0 (zip sha_round abc_schedule))) =
    [0xb0fa238e, 0xc0645fde, 0xd932eb16, 0x87912990, 0x07590dcd, 0x0b92f20c, 0x745a48de, 0x1e578218]"
  by code_simp

lemma abc_rounds_2:
  "foldl sha_step
    [0xb0fa238e, 0xc0645fde, 0xd932eb16, 0x87912990, 0x07590dcd, 0x0b92f20c, 0x745a48de, 0x1e578218] (take 16 (drop 16 (zip sha_round abc_schedule))) =
    [0x73b33bf5, 0xea992a22, 0xa0060b30, 0x363482c9, 0xba591112, 0x0109ab3a, 0xade79437, 0x6112a3b7]"
  by code_simp

lemma abc_rounds_3:
  "foldl sha_step
    [0x73b33bf5, 0xea992a22, 0xa0060b30, 0x363482c9, 0xba591112, 0x0109ab3a, 0xade79437, 0x6112a3b7] (take 16 (drop 32 (zip sha_round abc_schedule))) =
    [0x4172328d, 0xa14c14b0, 0x72ab4b91, 0x26628815, 0xfecf0bc6, 0xd57b94a9, 0xb7755da1, 0xa80f11f0]"
  by code_simp

lemma abc_rounds_4:
  "foldl sha_step
    [0x4172328d, 0xa14c14b0, 0x72ab4b91, 0x26628815, 0xfecf0bc6, 0xd57b94a9, 0xb7755da1, 0xa80f11f0] (take 16 (drop 48 (zip sha_round abc_schedule))) =
    [0x506e3058, 0xd39a2165, 0x04d24d6c, 0xb85e2ce9, 0x5ef50f24, 0xfb121210, 0x948d25b6, 0x961f4894]"
  by code_simp

lemma four_quarters: "length xs = 64 \<Longrightarrow>
    foldl f s xs = foldl f (foldl f (foldl f (foldl f s (take 16 (drop 0 xs))) (take 16 (drop 16 xs)))
      (take 16 (drop 32 xs))) (take 16 (drop 48 xs))"
proof -
  assume "length xs = 64"
  then have "take 16 (drop 48 xs) = drop 48 xs" by simp
  moreover have "take 16 (drop n xs) @ drop (n + 16) xs = drop n xs" for n
    using append_take_drop_id [of 16 "drop n xs"] by (simp add: add.commute)
  from this [of 0] this [of 16] this [of 32]
  have "take 16 (drop 0 xs) @ take 16 (drop 16 xs) @ take 16 (drop 32 xs) @ drop 48 xs = xs"
    by simp
  ultimately have "xs = take 16 (drop 0 xs) @ take 16 (drop 16 xs) @ take 16 (drop 32 xs) @ take 16 (drop 48 xs)"
    by (simp only:)
  then have "foldl f s xs = foldl f s (take 16 (drop 0 xs) @ take 16 (drop 16 xs) @ take 16 (drop 32 xs) @ take 16 (drop 48 xs))"
    by (rule arg_cong [of _ _ "foldl f s"])
  then show ?thesis by (simp only: foldl_append)
qed

lemma sha256_abc:
  "sha256 [0x61, 0x62, 0x63] =
    [0xba, 0x78, 0x16, 0xbf, 0x8f, 0x01, 0xcf, 0xea, 0x41, 0x41, 0x40, 0xde, 0x5d, 0xae, 0x22, 0x23,
     0xb0, 0x03, 0x61, 0xa3, 0x96, 0x17, 0x7a, 0x9c, 0xb4, 0x10, 0xff, 0x61, 0xf2, 0x00, 0x15, 0xad]"
proof -
  let ?m = "[0x61, 0x62, 0x63] :: bytes"
  have pad: "length (sha_pad ?m) = 64" by (simp add: sha_pad_def be_bytes_def)
  have "length (zip sha_round abc_schedule) = 64" by (simp add: sha_round_def abc_schedule_def)
  note rounds = four_quarters [OF this, of sha_step sha_init]
  have "foldl sha_step sha_init (zip sha_round abc_schedule) =
    [0x506e3058, 0xd39a2165, 0x04d24d6c, 0xb85e2ce9, 0x5ef50f24, 0xfb121210, 0x948d25b6, 0x961f4894]"
    unfolding rounds unfolding sha_init_def abc_rounds_1 abc_rounds_2 abc_rounds_3 abc_rounds_4 by (rule refl)
  then have "sha_block sha_init (sha_pad ?m) = [0xba7816bf, 0x8f01cfea, 0x414140de, 0x5dae2223, 0xb00361a3, 0x96177a9c, 0xb410ff61, 0xf20015ad]"
    unfolding sha_block_def abc_schedule_ok by (simp add: sha_init_def)
  then have "sha256 ?m = concat (map be_bytes [0xba7816bf, 0x8f01cfea, 0x414140de, 0x5dae2223, 0xb00361a3, 0x96177a9c, 0xb410ff61, 0xf20015ad])"
    using pad by (simp add: sha256_def Let_def)
  then show ?thesis by (simp only:) (simp add: be_bytes_def)
qed

end
