(* ===== verification/Fingerprint.thy ===== *)
theory Fingerprint
  imports Sha256 Compaction
begin

text \<open>
  The content fingerprint of a federated event (\<open>core/multihub_equivocation.py\<close>): a tagged,
  length-prefixed encoding of the whole event under SHA-256.  The parameter \<open>pk\<close> stands for
  \<open>struct.pack('>d', x)\<close>; the code relies on it giving every double its own eight bytes.
  The encoding is shown to be unambiguous: it determines the value up to the order of keys.
\<close>

section \<open>Events and failures\<close>

record hub_event =
  he_hub :: string
  he_seq :: int
  he_ts :: pyfloat
  he_kind :: string
  he_payload :: json_object

record quarantine =
  q_peer :: string
  q_seq :: int
  q_accepted :: string
  q_conflicting :: string
  q_detected_at :: time
  q_observer :: string

text \<open>
  \<open>InvalidEvent\<close> is the \<open>ValueError\<close> of the fingerprint, \<open>FrameOverflow\<close> the \<open>OverflowError\<close> of a
  length that needs more than eight bytes.
\<close>

datatype integrity_error =
    InvalidEvent
  | FrameOverflow
  | PeerMismatch
  | Equivocation string int string string
  | SequenceViolation string int int int
  | PeerQuarantined quarantine
  | NotQuarantined string
  | RecoveryField string

section \<open>Encoding\<close>

definition utf8_char :: "char \<Rightarrow> bytes" where
  "utf8_char c =
     (let n = code_of c in
      if n < 128 then [word_of_nat n] else [word_of_nat (192 + n div 64), word_of_nat (128 + n mod 64)])"

definition utf8 :: "string \<Rightarrow> bytes" where
  "utf8 s = concat (map utf8_char s)"

text \<open>\<open>n.to_bytes(k, 'big')\<close> for a number that fits.\<close>

fun to_be :: "nat \<Rightarrow> nat \<Rightarrow> bytes" where
  "to_be 0 n = []"
| "to_be (Suc k) n = to_be k (n div 256) @ [word_of_nat n]"

definition frame :: "byte \<Rightarrow> bytes \<Rightarrow> integrity_error + bytes" where
  "frame tag payload =
     (if int (length payload) < 18446744073709551616 then Inr (tag # to_be 8 (length payload) @ payload) else Inl FrameOverflow)"

fun sum_all :: "('e + 'a) list \<Rightarrow> 'e + 'a list" where
  "sum_all [] = Inr []"
| "sum_all (m # ms) = sum_bind m (\<lambda>x. sum_bind (sum_all ms) (\<lambda>xs. Inr (x # xs)))"

abbreviation tag_of :: "char \<Rightarrow> byte" where
  "tag_of c \<equiv> word_of_nat (code_of c)"

fun encode_value :: "(time \<Rightarrow> bytes) \<Rightarrow> json \<Rightarrow> integrity_error + bytes" where
  "encode_value pk JNull = Inr [tag_of CHR ''n'']"
| "encode_value pk (JBool b) = Inr [tag_of CHR ''b'', tag_of (if b then CHR ''1'' else CHR ''0'')]"
| "encode_value pk (JInt i) =
     (if count_digits (show_int i) > int_max_str_digits then Inl InvalidEvent
      else frame (tag_of CHR ''i'') (utf8 (show_int i)))"
| "encode_value pk (JFloat f) =
     (case f of Finite x \<Rightarrow> frame (tag_of CHR ''f'') (pk x) | _ \<Rightarrow> Inl InvalidEvent)"
| "encode_value pk (JString s) = frame (tag_of CHR ''s'') (utf8 s)"
| "encode_value pk (JList vs) =
     sum_bind (sum_all (map (\<lambda>v. sum_bind (encode_value pk v) (frame (tag_of CHR ''v''))) vs)) (\<lambda>parts.
       frame (tag_of CHR ''l'') (concat parts))"
| "encode_value pk (JObject kvs) =
     sum_bind
       (sum_all (map snd (sort_key fst
         (map (\<lambda>(k, v). (utf8 k,
             sum_bind (frame (tag_of CHR ''k'') (utf8 k)) (\<lambda>kf.
             sum_bind (encode_value pk v) (\<lambda>e.
             sum_bind (frame (tag_of CHR ''v'') e) (\<lambda>vf. Inr (kf @ vf)))))) kvs)))) (\<lambda>parts.
       frame (tag_of CHR ''o'') (concat parts))"

definition FINGERPRINT_DOMAIN :: bytes where
  "FINGERPRINT_DOMAIN = utf8 ''synapse-channel:multihub-event-fingerprint:v1'' @ [0]"

text \<open>The bytes the digest is taken of.\<close>

definition fingerprint_input :: "(time \<Rightarrow> bytes) \<Rightarrow> hub_event \<Rightarrow> integrity_error + bytes" where
  "fingerprint_input pk ev =
     (if he_hub ev = [] \<or> he_seq ev < 1 then Inl InvalidEvent
      else (case he_ts ev of
              Finite t \<Rightarrow>
                (if he_kind ev = [] \<or> count_digits (show_int (he_seq ev)) > int_max_str_digits
                 then Inl InvalidEvent
                 else
                   sum_bind (frame (tag_of CHR ''h'') (utf8 (he_hub ev))) (\<lambda>h.
                   sum_bind (frame (tag_of CHR ''q'') (utf8 (show_int (he_seq ev)))) (\<lambda>q.
                   sum_bind (frame (tag_of CHR ''t'') (pk t)) (\<lambda>ts.
                   sum_bind (frame (tag_of CHR ''k'') (utf8 (he_kind ev))) (\<lambda>k.
                   sum_bind (encode_value pk (JObject (he_payload ev))) (\<lambda>body.
                   sum_bind (frame (tag_of CHR ''p'') body) (\<lambda>p.
                     Inr (FINGERPRINT_DOMAIN @ h @ q @ ts @ k @ p))))))))
            | _ \<Rightarrow> Inl InvalidEvent))"

definition event_fingerprint :: "(time \<Rightarrow> bytes) \<Rightarrow> hub_event \<Rightarrow> integrity_error + string" where
  "event_fingerprint pk ev = sum_bind (fingerprint_input pk ev) (\<lambda>bytes. Inr (hex_of (sha256 bytes)))"

text \<open>A lowercase SHA-256 hexadecimal digest.\<close>

definition valid_fingerprint :: "json \<Rightarrow> bool" where
  "valid_fingerprint v =
     (case v of
        JString s \<Rightarrow> length s = 64 \<and> list_all (\<lambda>c. c \<in> set ''0123456789abcdef'') s
      | _ \<Rightarrow> False)"

section \<open>The encoding is unambiguous\<close>

fun from_be :: "bytes \<Rightarrow> nat" where
  "from_be [] = 0"
| "from_be (b # bs) = unat b * 256 ^ length bs + from_be bs"

lemma from_be_append: "from_be (xs @ [b]) = from_be xs * 256 + unat b"
  by (induction xs) (auto simp: algebra_simps)

lemma length_to_be [simp]: "length (to_be k n) = k"
  by (induction k arbitrary: n) auto

lemma from_to_be: "n < 256 ^ k \<Longrightarrow> from_be (to_be k n) = n"
proof (induction k arbitrary: n)
  case (Suc k)
  have "n div 256 < 256 ^ k" using Suc.prems by (simp add: less_mult_imp_div_less mult.commute)
  moreover have "unat (word_of_nat n :: byte) = n mod 256" by (simp add: unat_of_nat)
  ultimately show ?case using Suc.IH by (simp add: from_be_append)
qed simp

lemma frame_inj:
  assumes "frame t a = Inr x" and "frame t' b = Inr y" and "x @ u = y @ w"
  shows "t = t' \<and> a = b \<and> u = w"
proof -
  have x: "x = t # to_be 8 (length a) @ a" "length a < 256 ^ 8"
    and y: "y = t' # to_be 8 (length b) @ b" "length b < 256 ^ 8"
    using assms(1,2) by (auto simp: frame_def split: if_splits)
  have t: "t = t'" and "to_be 8 (length a) @ a @ u = to_be 8 (length b) @ b @ w"
    using assms(3) unfolding x y by simp_all
  then have "to_be 8 (length a) = to_be 8 (length b)" and rest: "a @ u = b @ w" by simp_all
  then have "length a = length b" using from_to_be x(2) y(2) by metis
  then show ?thesis using rest t by simp
qed

lemma frame_cong: "frame t a = Inr x \<Longrightarrow> frame t' b = Inr x \<Longrightarrow> t = t' \<and> a = b"
  using frame_inj [of t a x t' b x "[]" "[]"] by simp

lemma utf8_char_inj:
  assumes "utf8_char c @ u = utf8_char d @ w"
  shows "c = d \<and> u = w"
proof -
  have byte: "(word_of_nat m :: byte) = word_of_nat n \<longleftrightarrow> m = n" if "m < 256" "n < 256" for m n :: nat
    using that by (simp add: word_of_nat_eq_iff take_bit_eq_mod)
  define m n :: nat where "m = code_of c" and "n = code_of d"
  have bound: "m < 256" "n < 256" by (simp_all add: m_def n_def)
  have split: "m = n" if "m div 64 = n div 64" "m mod 64 = n mod 64"
    using that by (metis div_mult_mod_eq)
  have "m = n \<and> u = w"
    using assms bound split
    by (auto simp: utf8_char_def Let_def byte simp flip: m_def n_def simp del: of_nat_add split: if_splits)
  then show ?thesis by (simp add: m_def n_def)
qed

lemma utf8_inj: "utf8 s = utf8 t \<longleftrightarrow> s = t"
proof
  show "utf8 s = utf8 t \<Longrightarrow> s = t"
  proof (induction s arbitrary: t)
    case Nil
    then show ?case by (cases t) (auto simp: utf8_def utf8_char_def Let_def split: if_splits)
  next
    case (Cons c s)
    then obtain d t' where t: "t = d # t'"
      by (cases t) (auto simp: utf8_def utf8_char_def Let_def split: if_splits)
    then show ?case using Cons utf8_char_inj [of c _ d] by (auto simp: utf8_def)
  qed
qed simp

lemma sum_all_Inr: "sum_all ms = Inr xs \<longleftrightarrow> ms = map Inr xs"
  by (induction ms arbitrary: xs) (auto simp: sum_bind_Inr map_eq_Cons_conv)

lemma sort_key_map: "sort_key f (map g xs) = map g (sort_key (f \<circ> g) xs)"
proof (induction xs)
  case (Cons x xs)
  have "insort_key f (g x) (map g ys) = map g (insort_key (f \<circ> g) x ys)" for ys
    by (induction ys) auto
  then show ?case using Cons by (simp add: comp_def)
qed simp

text \<open>Two values are the same content when they differ only in the order of keys.\<close>

fun canon :: "json \<Rightarrow> json" where
  "canon (JList vs) = JList (map canon vs)"
| "canon (JObject kvs) = JObject (sort_key (utf8 \<circ> fst) (map (\<lambda>(k, v). (k, canon v)) kvs))"
| "canon v = v"

fun floats_of :: "json \<Rightarrow> time set" where
  "floats_of (JFloat (Finite x)) = {x}"
| "floats_of (JList vs) = (\<Union>v \<in> set vs. floats_of v)"
| "floats_of (JObject kvs) = (\<Union>(k, v) \<in> set kvs. floats_of v)"
| "floats_of v = {}"

text \<open>The eight bytes of a double are its own, for the doubles in \<open>F\<close>.\<close>

definition packs :: "(time \<Rightarrow> bytes) \<Rightarrow> time set \<Rightarrow> bool" where
  "packs pk F \<longleftrightarrow> (\<forall>x \<in> F. length (pk x) = 8) \<and> inj_on pk F"

text \<open>Concatenated frames split in one way.\<close>

lemma concat_parts_inj:
  assumes "\<And>x u y w. x \<in> set xs \<Longrightarrow> y \<in> set ys \<Longrightarrow> f x @ u = g y @ w \<Longrightarrow> R x y \<and> u = w"
    and "\<And>x. x \<in> set xs \<Longrightarrow> f x \<noteq> []" and "\<And>y. y \<in> set ys \<Longrightarrow> g y \<noteq> []"
    and "concat (map f xs) = concat (map g ys)"
  shows "list_all2 R xs ys"
  using assms
proof (induction xs arbitrary: ys)
  case Nil
  then show ?case by (cases ys) auto
next
  case (Cons x xs)
  then have "f x \<noteq> []" by simp
  with Cons.prems(4) obtain y ys' where ys: "ys = y # ys'" by (cases ys) auto
  with Cons.prems(4) have "f x @ concat (map f xs) = g y @ concat (map g ys')" by simp
  with Cons.prems(1) [of x y] have "R x y" and rest: "concat (map f xs) = concat (map g ys')" by (simp_all add: ys)
  moreover have "list_all2 R xs ys'"
  proof (rule Cons.IH)
    show "R a b \<and> u = w" if "a \<in> set xs" "b \<in> set ys'" "f a @ u = g b @ w" for a b u w
      using Cons.prems(1) [of a b] that by (simp add: ys)
    show "f a \<noteq> []" if "a \<in> set xs" for a using Cons.prems(2) that by simp
    show "g b \<noteq> []" if "b \<in> set ys'" for b using Cons.prems(3) that by (simp add: ys)
  qed (rule rest)
  ultimately show ?case by (simp add: ys)
qed

lemma frame_nonempty: "frame t a = Inr x \<Longrightarrow> x \<noteq> []"
  by (auto simp: frame_def split: if_splits)

lemma show_nat_step: "show_nat_aux n =
    (if n < 10 then [char_of (48 + n)] else show_nat_aux (n div 10) @ [char_of (48 + n mod 10)])"
  by (rule show_nat_aux.simps)

fun read_nat :: "nat \<Rightarrow> string \<Rightarrow> nat" where
  "read_nat acc [] = acc"
| "read_nat acc (c # cs) = read_nat (10 * acc + (code_of c - 48)) cs"

lemma read_nat_append: "read_nat acc (xs @ [c]) = 10 * read_nat acc xs + (code_of c - 48)"
  by (induction acc xs rule: read_nat.induct) auto

lemma read_show_nat: "read_nat 0 (show_nat_aux n) = n"
proof (induction n rule: show_nat_aux.induct)
  case (1 n)
  have code: "of_char (char_of (48 + m) :: char) = 48 + m" if "m < 10" for m :: nat
    using that by simp
  show ?case
  proof (cases "n < 10")
    case True
    then show ?thesis using code [of n] by (subst show_nat_step) simp
  next
    case False
    then show ?thesis using 1 code [of "n mod 10"] by (subst show_nat_step) (simp add: read_nat_append)
  qed
qed

lemma show_nat_inj: "show_nat_aux m = show_nat_aux n \<longleftrightarrow> m = n"
  by (metis read_show_nat)

lemma show_nat_digits: "c \<in> set (show_nat_aux n) \<Longrightarrow> 48 \<le> code_of c \<and> code_of c < (58::nat)"
proof (induction n rule: show_nat_aux.induct)
  case (1 n)
  have code: "of_char (char_of (48 + m) :: char) = 48 + m" if "m < 10" for m :: nat
    using that by simp
  show ?case
  proof (cases "n < 10")
    case True
    then show ?thesis using 1(2) code [of n] by (subst (asm) show_nat_step) simp
  next
    case False
    then show ?thesis using 1 code [of "n mod 10"] by (subst (asm) (2) show_nat_step) auto
  qed
qed

lemma show_int_inj: "show_int i = show_int j \<longleftrightarrow> i = j"
proof
  assume eq: "show_int i = show_int j"
  have minus: "CHR ''-'' \<notin> set (show_nat_aux n)" for n using show_nat_digits [of "CHR ''-''" n] by auto
  show "i = j"
    using eq minus by (auto simp: show_int_def show_nat_inj split: if_splits) (metis list.set_intros(1))+
qed simp

lemma frame_length: "frame t a = Inr x \<Longrightarrow> length x = 9 + length a"
  by (auto simp: frame_def split: if_splits)

lemma frame_not_short: "frame t a = Inr x \<Longrightarrow> x \<noteq> [] \<and> x \<noteq> [b] \<and> x \<noteq> [b, c]"
  using frame_length [of t a x] by auto

text \<open>The first byte tells the type.\<close>

definition value_tag :: "json \<Rightarrow> byte" where
  "value_tag v =
     (case v of
        JNull \<Rightarrow> tag_of CHR ''n'' | JBool b \<Rightarrow> tag_of CHR ''b'' | JInt i \<Rightarrow> tag_of CHR ''i''
      | JFloat f \<Rightarrow> tag_of CHR ''f'' | JString s \<Rightarrow> tag_of CHR ''s'' | JList vs \<Rightarrow> tag_of CHR ''l''
      | JObject kvs \<Rightarrow> tag_of CHR ''o'')"

lemma frame_hd: "frame t a = Inr x \<Longrightarrow> hd x = t"
  by (auto simp: frame_def split: if_splits)

lemma encode_value_hd: "encode_value pk v = Inr a \<Longrightarrow> hd a = value_tag v"
  by (cases v) (auto simp: value_tag_def sum_bind_Inr frame_hd split: if_splits pyfloat.splits)

lemma value_tag_cases:
  "value_tag v = value_tag w \<Longrightarrow>
     (case v of
        JNull \<Rightarrow> w = JNull | JBool b \<Rightarrow> (\<exists>c. w = JBool c) | JInt i \<Rightarrow> (\<exists>j. w = JInt j)
      | JFloat f \<Rightarrow> (\<exists>g. w = JFloat g) | JString s \<Rightarrow> (\<exists>t. w = JString t) | JList vs \<Rightarrow> (\<exists>ws. w = JList ws)
      | JObject kvs \<Rightarrow> (\<exists>lws. w = JObject lws))"
  by (cases v; cases w) (simp_all add: value_tag_def)

definition item_bytes :: "(time \<Rightarrow> bytes) \<Rightarrow> json \<Rightarrow> bytes" where
  "item_bytes pk v = projr (sum_bind (encode_value pk v) (frame (tag_of CHR ''v'')))"

definition key_bytes :: "string \<Rightarrow> bytes" where
  "key_bytes k = projr (frame (tag_of CHR ''k'') (utf8 k))"

lemma map_Inr_projr: "map m xs = map Inr ys \<Longrightarrow> ys = map (projr \<circ> m) xs \<and> (\<forall>x \<in> set xs. m x = Inr (projr (m x)))"
proof -
  assume eq: "map m xs = map Inr ys"
  then have "map projr (map m xs) = map projr (map Inr ys)" by simp
  moreover have "\<exists>y. m x = Inr y" if "x \<in> set xs" for x
  proof -
    have "m x \<in> set (map m xs)" using that by simp
    then show ?thesis unfolding eq by auto
  qed
  then have "m x = Inr (projr (m x))" if "x \<in> set xs" for x using that by fastforce
  ultimately show ?thesis by (simp add: comp_def)
qed

lemma encode_list:
  assumes "encode_value pk (JList vs) = Inr a"
  shows "frame (tag_of CHR ''l'') (concat (map (item_bytes pk) vs)) = Inr a
    \<and> (\<forall>v \<in> set vs. \<exists>x. encode_value pk v = Inr x \<and> frame (tag_of CHR ''v'') x = Inr (item_bytes pk v))"
proof -
  let ?m = "\<lambda>v. sum_bind (encode_value pk v) (frame (tag_of CHR ''v''))"
  from assms obtain es where es: "map ?m vs = map Inr es" "frame (tag_of CHR ''l'') (concat es) = Inr a"
    by (auto simp: sum_bind_Inr sum_all_Inr)
  from map_Inr_projr [OF es(1)] have parts: "es = map (item_bytes pk) vs"
      "\<And>v. v \<in> set vs \<Longrightarrow> ?m v = Inr (item_bytes pk v)"
    by (auto simp: item_bytes_def comp_def)
  then show ?thesis using es(2) by (auto simp: sum_bind_Inr dest!: parts(2))
qed

lemma encode_object:
  assumes "encode_value pk (JObject kvs) = Inr a"
  shows "frame (tag_of CHR ''o'')
      (concat (map (\<lambda>(k, v). key_bytes k @ item_bytes pk v) (sort_key (utf8 \<circ> fst) kvs))) = Inr a
    \<and> (\<forall>(k, v) \<in> set kvs. frame (tag_of CHR ''k'') (utf8 k) = Inr (key_bytes k)
        \<and> (\<exists>x. encode_value pk v = Inr x \<and> frame (tag_of CHR ''v'') x = Inr (item_bytes pk v)))"
proof -
  define m where "m = (\<lambda>(k, v). sum_bind (frame (tag_of CHR ''k'') (utf8 k)) (\<lambda>kf.
      sum_bind (encode_value pk v) (\<lambda>e. sum_bind (frame (tag_of CHR ''v'') e) (\<lambda>vf. Inr (kf @ vf)))))"
  let ?s = "sort_key (utf8 \<circ> fst) kvs"
  have "map snd (sort_key fst (map (\<lambda>(k, v). (utf8 k, m (k, v))) kvs)) = map m ?s"
    by (simp add: sort_key_map comp_def case_prod_unfold)
  with assms obtain es where es: "map m ?s = map Inr es" "frame (tag_of CHR ''o'') (concat es) = Inr a"
    by (auto simp: sum_bind_Inr sum_all_Inr case_prod_unfold m_def)
  have each: "frame (tag_of CHR ''k'') (utf8 k) = Inr (key_bytes k)
      \<and> (\<exists>x. encode_value pk v = Inr x \<and> frame (tag_of CHR ''v'') x = Inr (item_bytes pk v))
      \<and> m (k, v) = Inr (key_bytes k @ item_bytes pk v)" if "(k, v) \<in> set kvs" for k v
  proof -
    have "m (k, v) = Inr (projr (m (k, v)))" using map_Inr_projr [OF es(1)] that by simp
    then show ?thesis by (auto simp: sum_bind_Inr key_bytes_def item_bytes_def m_def)
  qed
  have "es = map (\<lambda>(k, v). key_bytes k @ item_bytes pk v) ?s"
    using conjunct1 [OF map_Inr_projr [OF es(1)]] each by (auto simp: comp_def)
  then show ?thesis using es(2) each by auto
qed

lemma encode_value_inj:
  assumes "encode_value pk v = Inr a" and "encode_value pk w = Inr a"
    and "packs pk F" and "floats_of v \<subseteq> F" and "floats_of w \<subseteq> F"
  shows "canon v = canon w"
  using assms
proof (induction v arbitrary: w a rule: canon.induct [case_names list_value object_value null bool_value int_value float_value string_value])
  case (list_value vs)
  have "value_tag (JList vs) = value_tag w" using encode_value_hd "list_value.prems"(1,2) by metis
  from value_tag_cases [OF this] obtain ws where w: "w = JList ws" by auto
  note V = encode_list [OF "list_value.prems"(1)] and W = encode_list [OF "list_value.prems"(2) [unfolded w]]
  have eq: "concat (map (item_bytes pk) vs) = concat (map (item_bytes pk) ws)"
    using V W frame_cong by blast
  have "list_all2 (\<lambda>v w. canon v = canon w) vs ws"
  proof (rule concat_parts_inj [OF _ _ _ eq])
    fix x y u t
    assume x: "x \<in> set vs" and y: "y \<in> set ws" and e: "item_bytes pk x @ u = item_bytes pk y @ t"
    obtain p q where pq: "encode_value pk x = Inr p" "frame (tag_of CHR ''v'') p = Inr (item_bytes pk x)"
        "encode_value pk y = Inr q" "frame (tag_of CHR ''v'') q = Inr (item_bytes pk y)"
      using V W x y by blast
    have "p = q \<and> u = t" using frame_inj [OF pq(2,4) e] by simp
    moreover have "floats_of x \<subseteq> F" "floats_of y \<subseteq> F" using "list_value.prems"(4,5) x y by (auto simp: w)
    ultimately show "canon x = canon y \<and> u = t" using "list_value.IH" [OF x pq(1) _ "list_value.prems"(3)] pq(3) by simp
  qed (use V W frame_nonempty in blast)+
  then show ?case by (simp add: w list_all2_conv_all_nth list_eq_iff_nth_eq)
next
  case (object_value kvs)
  have "value_tag (JObject kvs) = value_tag w" using encode_value_hd "object_value.prems"(1,2) by metis
  from value_tag_cases [OF this] obtain lws where w: "w = JObject lws" by auto
  note V = encode_object [OF "object_value.prems"(1)] and W = encode_object [OF "object_value.prems"(2) [unfolded w]]
  let ?g = "\<lambda>(k, v). key_bytes k @ item_bytes pk v"
  let ?vs = "sort_key (utf8 \<circ> fst) kvs" and ?ws = "sort_key (utf8 \<circ> fst) lws"
  have eq: "concat (map ?g ?vs) = concat (map ?g ?ws)" using V W frame_cong by blast
  have "list_all2 (\<lambda>(k, v) (l, w). (k, canon v) = (l, canon w)) ?vs ?ws"
  proof (rule concat_parts_inj [OF _ _ _ eq])
    fix kx ly u t
    assume x: "kx \<in> set ?vs" and y: "ly \<in> set ?ws" and e: "?g kx @ u = ?g ly @ t"
    obtain k x l y where kl: "kx = (k, x)" "ly = (l, y)" by fastforce
    have mem: "(k, x) \<in> set kvs" "(l, y) \<in> set lws" using x y by (simp_all add: kl)
    have K: "frame (tag_of CHR ''k'') (utf8 k) = Inr (key_bytes k)" "frame (tag_of CHR ''k'') (utf8 l) = Inr (key_bytes l)"
      using V W mem by auto
    obtain p q where pq: "encode_value pk x = Inr p" "frame (tag_of CHR ''v'') p = Inr (item_bytes pk x)"
        "encode_value pk y = Inr q" "frame (tag_of CHR ''v'') q = Inr (item_bytes pk y)"
      using V W mem by blast
    from e have "key_bytes k @ (item_bytes pk x @ u) = key_bytes l @ (item_bytes pk y @ t)" by (simp add: kl)
    from frame_inj [OF K this] have kl': "k = l" and e': "item_bytes pk x @ u = item_bytes pk y @ t"
      by (simp_all add: utf8_inj)
    have "p = q \<and> u = t" using frame_inj [OF pq(2,4) e'] by simp
    moreover have "floats_of x \<subseteq> F" "floats_of y \<subseteq> F" using "object_value.prems"(4,5) mem by (auto simp: w)
    ultimately have "canon x = canon y" "u = t" using "object_value.IH" [OF mem(1) refl pq(1) _ "object_value.prems"(3)] pq(3) by simp_all
    then show "(case kx of (k, v) \<Rightarrow> \<lambda>(l, w). (k, canon v) = (l, canon w)) ly \<and> u = t" by (simp add: kl kl')
  qed (use V W frame_nonempty in fastforce)+
  then have "map (\<lambda>(k, v). (k, canon v)) ?vs = map (\<lambda>(k, v). (k, canon v)) ?ws"
    by (auto simp: list_all2_conv_all_nth list_eq_iff_nth_eq case_prod_unfold)
  then show ?case by (simp add: w sort_key_map comp_def case_prod_unfold)
next
  case null
  have "value_tag JNull = value_tag w" using encode_value_hd null.prems(1,2) by metis
  from value_tag_cases [OF this] show ?case by simp
next
  case (bool_value b)
  have "value_tag (JBool b) = value_tag w" using encode_value_hd bool_value.prems(1,2) by metis
  from value_tag_cases [OF this] obtain c where "w = JBool c" by auto
  then show ?case using bool_value.prems by (auto split: if_splits)
next
  case (int_value i)
  have "value_tag (JInt i) = value_tag w" using encode_value_hd int_value.prems(1,2) by metis
  from value_tag_cases [OF this] obtain j where "w = JInt j" by auto
  then show ?case using int_value.prems by (auto simp: utf8_inj show_int_inj dest: frame_cong split: if_splits)
next
  case (float_value f)
  have "value_tag (JFloat f) = value_tag w" using encode_value_hd float_value.prems(1,2) by metis
  from value_tag_cases [OF this] obtain g where w: "w = JFloat g" by auto
  then obtain x y where "f = Finite x" "g = Finite y" "pk x = pk y"
    using float_value.prems(1,2) by (auto dest: frame_cong split: pyfloat.splits)
  then show ?case using float_value.prems(3-5) by (auto simp: w packs_def inj_on_def)
next
  case (string_value s)
  have "value_tag (JString s) = value_tag w" using encode_value_hd string_value.prems(1,2) by metis
  from value_tag_cases [OF this] obtain t where "w = JString t" by auto
  then show ?case using string_value.prems by (auto simp: utf8_inj dest: frame_cong)
qed

text \<open>The only errors of a fingerprint are its own two.\<close>

lemma sum_bind_Inl: "sum_bind m f = Inl e \<longleftrightarrow> m = Inl e \<or> (\<exists>v. m = Inr v \<and> f v = Inl e)"
  by (cases m) auto

lemma sum_all_Inl: "sum_all ms = Inl e \<Longrightarrow> Inl e \<in> set ms"
  by (induction ms) (auto simp: sum_bind_Inl)

lemma frame_error: "frame t a = Inl e \<Longrightarrow> e = FrameOverflow"
  by (auto simp: frame_def split: if_splits)

lemma encode_error: "encode_value pk v = Inl e \<Longrightarrow> e = InvalidEvent \<or> e = FrameOverflow"
proof (induction pk v rule: encode_value.induct)
  case (6 pk vs)
  let ?g = "\<lambda>v. sum_bind (encode_value pk v) (frame (tag_of CHR ''v''))"
  from 6(2) consider "sum_all (map ?g vs) = Inl e" | parts where "frame (tag_of CHR ''l'') (concat parts) = Inl e"
    by (auto simp: sum_bind_Inl)
  then show ?case
  proof cases
    case 1
    from sum_all_Inl [OF 1] have "Inl e \<in> ?g ` set vs" by simp
    then obtain v where v: "v \<in> set vs" "Inl e = ?g v" by blast
    from v(2) [symmetric] show ?thesis using 6(1) [OF v(1)] by (auto simp: sum_bind_Inl dest: frame_error)
  qed (auto dest: frame_error)
next
  case (7 pk kvs)
  let ?g = "\<lambda>(k, v). (utf8 k, sum_bind (frame (tag_of CHR ''k'') (utf8 k)) (\<lambda>kf.
      sum_bind (encode_value pk v) (\<lambda>x. sum_bind (frame (tag_of CHR ''v'') x) (\<lambda>vf. Inr (kf @ vf)))))"
  from 7(2) consider "sum_all (map snd (sort_key fst (map ?g kvs))) = Inl e"
    | parts where "frame (tag_of CHR ''o'') (concat parts) = Inl e"
    by (auto simp: sum_bind_Inl)
  then show ?case
  proof cases
    case 1
    from sum_all_Inl [OF 1] have "Inl e \<in> snd ` ?g ` set kvs" by simp
    then obtain z where z: "z \<in> set kvs" "Inl e = snd (?g z)" unfolding image_iff by blast
    obtain k v where kv: "z = (k, v)" by (cases z)
    note v = z [unfolded kv]
    from v(2) [symmetric] show ?thesis using 7(1) [OF v(1) refl] by (auto simp: sum_bind_Inl dest: frame_error)
  qed (auto dest: frame_error)
qed (auto dest: frame_error split: if_splits pyfloat.splits)

lemma fingerprint_error: "event_fingerprint pk e = Inl x \<Longrightarrow> x = InvalidEvent \<or> x = FrameOverflow"
  by (auto simp: event_fingerprint_def fingerprint_input_def sum_bind_Inl simp del: encode_value.simps
      dest!: encode_error frame_error split: if_splits pyfloat.splits)

section \<open>What a fingerprint binds\<close>

lemma fingerprint_input_inj:
  assumes "fingerprint_input pk e = Inr x" and "fingerprint_input pk e' = Inr x"
    and "packs pk F" and "floats_of (JObject (he_payload e)) \<subseteq> F" and "floats_of (JObject (he_payload e')) \<subseteq> F"
    and "\<And>t. he_ts e = Finite t \<Longrightarrow> t \<in> F" and "\<And>t. he_ts e' = Finite t \<Longrightarrow> t \<in> F"
  shows "he_hub e = he_hub e' \<and> he_seq e = he_seq e' \<and> he_ts e = he_ts e' \<and> he_kind e = he_kind e'
    \<and> canon (JObject (he_payload e)) = canon (JObject (he_payload e'))"
proof -
  from assms(1) obtain t h q ts k body p where E: "he_ts e = Finite t"
      "frame (tag_of CHR ''h'') (utf8 (he_hub e)) = Inr h" "frame (tag_of CHR ''q'') (utf8 (show_int (he_seq e))) = Inr q"
      "frame (tag_of CHR ''t'') (pk t) = Inr ts" "frame (tag_of CHR ''k'') (utf8 (he_kind e)) = Inr k"
      "encode_value pk (JObject (he_payload e)) = Inr body" "frame (tag_of CHR ''p'') body = Inr p"
      "x = FINGERPRINT_DOMAIN @ h @ q @ ts @ k @ p"
    unfolding fingerprint_input_def sum_bind_Inr by (auto split: if_splits pyfloat.splits simp del: encode_value.simps simp: sum_bind_Inr)
  from assms(2) obtain t' h' q' ts' k' body' p' where E': "he_ts e' = Finite t'"
      "frame (tag_of CHR ''h'') (utf8 (he_hub e')) = Inr h'" "frame (tag_of CHR ''q'') (utf8 (show_int (he_seq e'))) = Inr q'"
      "frame (tag_of CHR ''t'') (pk t') = Inr ts'" "frame (tag_of CHR ''k'') (utf8 (he_kind e')) = Inr k'"
      "encode_value pk (JObject (he_payload e')) = Inr body'" "frame (tag_of CHR ''p'') body' = Inr p'"
      "x = FINGERPRINT_DOMAIN @ h' @ q' @ ts' @ k' @ p'"
    unfolding fingerprint_input_def sum_bind_Inr by (auto split: if_splits pyfloat.splits simp del: encode_value.simps simp: sum_bind_Inr)
  have "h @ (q @ ts @ k @ p) = h' @ (q' @ ts' @ k' @ p')" using E(8) E'(8) by simp
  note s1 = frame_inj [OF E(2) E'(2) this]
  then have "q @ (ts @ k @ p) = q' @ (ts' @ k' @ p')" by simp
  note s2 = frame_inj [OF E(3) E'(3) this]
  then have "ts @ (k @ p) = ts' @ (k' @ p')" by simp
  note s3 = frame_inj [OF E(4) E'(4) this]
  then have "k @ p = k' @ p'" by simp
  note s4 = frame_inj [OF E(5) E'(5) this]
  then have "p @ [] = p' @ []" by simp
  note s5 = frame_inj [OF E(7) E'(7) this]
  have "t = t'" using s3 assms(3,6,7) E(1) E'(1) by (auto simp: packs_def inj_on_def)
  moreover have "canon (JObject (he_payload e)) = canon (JObject (he_payload e'))"
    by (rule encode_value_inj [OF E(6) _ assms(3-5)]) (use E'(6) s5 in simp)
  ultimately show ?thesis using s1 s2 s4 E(1) E'(1) by (simp add: utf8_inj show_int_inj del: canon.simps)
qed

text \<open>The inputs of two fingerprints collide.\<close>

definition fingerprint_collision :: "(time \<Rightarrow> bytes) \<Rightarrow> hub_event \<Rightarrow> hub_event \<Rightarrow> bool" where
  "fingerprint_collision pk e e' \<longleftrightarrow>
     (case (fingerprint_input pk e, fingerprint_input pk e') of
        (Inr x, Inr y) \<Rightarrow> x \<noteq> y \<and> sha256 x = sha256 y
      | _ \<Rightarrow> False)"

definition event_floats :: "hub_event \<Rightarrow> time set" where
  "event_floats e = floats_of (JObject (he_payload e)) \<union> (case he_ts e of Finite t \<Rightarrow> {t} | _ \<Rightarrow> {})"

lemma same_fingerprint:
  assumes "event_fingerprint pk e = Inr d" and "event_fingerprint pk e' = Inr d"
    and "packs pk F" and "event_floats e \<subseteq> F" and "event_floats e' \<subseteq> F"
  shows "fingerprint_collision pk e e' \<or> (he_hub e = he_hub e' \<and> he_seq e = he_seq e' \<and> he_ts e = he_ts e'
    \<and> he_kind e = he_kind e' \<and> canon (JObject (he_payload e)) = canon (JObject (he_payload e')))"
proof -
  obtain x y where x: "fingerprint_input pk e = Inr x" and y: "fingerprint_input pk e' = Inr y"
    and sha: "sha256 x = sha256 y"
    using assms(1,2) by (auto simp: event_fingerprint_def sum_bind_Inr hex_of_inj)
  show ?thesis
  proof (cases "x = y")
    case True
    have "floats_of (JObject (he_payload e)) \<subseteq> F" "floats_of (JObject (he_payload e')) \<subseteq> F"
      using assms(4,5) unfolding event_floats_def by blast+
    moreover have "t \<in> F" if "he_ts e = Finite t" for t using that assms(4) by (simp add: event_floats_def)
    moreover have "t \<in> F" if "he_ts e' = Finite t" for t using that assms(5) by (simp add: event_floats_def)
    ultimately show ?thesis using fingerprint_input_inj [OF x y [folded True] assms(3)] by blast
  next
    case False
    then show ?thesis using x y sha by (simp add: fingerprint_collision_def)
  qed
qed

text \<open>
  A fingerprint binds the whole event.  Two events with the same fingerprint agree in hub,
  sequence, time stamp and kind, and in their payload up to the order of keys, or the bytes
  under the two digests are a SHA-256 collision.  The hypothesis on \<open>pk\<close> is that the doubles in
  the two events have eight bytes each, different for different doubles.
\<close>

theorem fingerprint_binds_content:
  assumes "event_fingerprint pk e = Inr d" and "event_fingerprint pk e' = Inr d"
    and "packs pk (event_floats e \<union> event_floats e')"
  shows "fingerprint_collision pk e e' \<or> (he_hub e = he_hub e' \<and> he_seq e = he_seq e' \<and> he_ts e = he_ts e'
    \<and> he_kind e = he_kind e' \<and> canon (JObject (he_payload e)) = canon (JObject (he_payload e')))"
  by (rule same_fingerprint [OF assms]) auto

text \<open>Two payloads that differ in the order of their keys.\<close>

definition sample_event :: "json_object \<Rightarrow> hub_event" where
  "sample_event payload = \<lparr>he_hub = ''hub-a'', he_seq = 1, he_ts = Finite 1, he_kind = ''claim'', he_payload = payload\<rparr>"

theorem fingerprint_binds_content_witness:
  "let pk = (\<lambda>_ :: time. [0, 0, 0, 0, 0, 0, 0, 1]);
       e = sample_event [(''a'', JInt 1), (''b'', JNull)]; e' = sample_event [(''b'', JNull), (''a'', JInt 1)] in
   fingerprint_collision pk e e' \<or> (he_hub e = he_hub e' \<and> he_seq e = he_seq e' \<and> he_ts e = he_ts e'
    \<and> he_kind e = he_kind e' \<and> canon (JObject (he_payload e)) = canon (JObject (he_payload e')))"
proof -
  let ?pk = "\<lambda>_ :: time. [0, 0, 0, 0, 0, 0, 0, 1] :: bytes"
  let ?e = "sample_event [(''a'', JInt 1), (''b'', JNull)]" and ?e' = "sample_event [(''b'', JNull), (''a'', JInt 1)]"
  have "case event_fingerprint ?pk ?e of Inr _ \<Rightarrow> True | Inl _ \<Rightarrow> False"
  proof -
    have "case fingerprint_input ?pk ?e of Inr _ \<Rightarrow> True | Inl _ \<Rightarrow> False" by code_simp
    then show ?thesis by (simp add: event_fingerprint_def split: sum.splits)
  qed
  moreover have "event_fingerprint ?pk ?e = event_fingerprint ?pk ?e'"
  proof -
    have "fingerprint_input ?pk ?e = fingerprint_input ?pk ?e'" by code_simp
    then show ?thesis by (simp add: event_fingerprint_def)
  qed
  ultimately obtain d where d: "event_fingerprint ?pk ?e = Inr d" "event_fingerprint ?pk ?e' = Inr d"
    by (cases "event_fingerprint ?pk ?e'") simp_all
  have "packs ?pk (event_floats ?e \<union> event_floats ?e')"
    by (simp add: packs_def event_floats_def sample_event_def)
  from fingerprint_binds_content [OF d this] show ?thesis by (simp only: Let_def)
qed

end
