(* ===== verification/Multihub_Merge.thy ===== *)
theory Multihub_Merge
  imports Fingerprint Merkle
begin

text \<open>
  The content-bound union of event logs (\<open>core/multihub_merge.py\<close> and the batch validation of
  \<open>core/multihub_equivocation.py\<close>): events are tagged with their hub, an identity binds one
  content, and the union is replayed in one total order.
\<close>

section \<open>Identity and order\<close>

type_synonym event_identity = "string \<times> int"

definition identity :: "hub_event \<Rightarrow> event_identity" where
  "identity ev = (he_hub ev, he_seq ev)"

text \<open>Only events with a finite time stamp have a fingerprint, and only those are sorted.\<close>

definition time_of :: "pyfloat \<Rightarrow> time" where
  "time_of f = (case f of Finite t \<Rightarrow> t | _ \<Rightarrow> 0)"

definition order_key :: "hub_event \<Rightarrow> time \<times> string \<times> int" where
  "order_key ev = (time_of (he_ts ev), he_hub ev, he_seq ev)"

definition from_stored :: "string \<Rightarrow> stored_event \<Rightarrow> hub_event" where
  "from_stored hub ev =
     \<lparr>he_hub = hub, he_seq = ev_seq ev, he_ts = ev_ts ev, he_kind = ev_kind ev, he_payload = ev_payload ev\<rparr>"

definition tag_events :: "string \<Rightarrow> stored_event list \<Rightarrow> hub_event list" where
  "tag_events hub evs = map (from_stored hub) evs"

section \<open>The union\<close>

type_synonym bound_events = "(event_identity, hub_event) pydict"

definition remember_content_bound_event ::
  "(time \<Rightarrow> bytes) \<Rightarrow> bound_events \<Rightarrow> hub_event \<Rightarrow> integrity_error + bound_events" where
  "remember_content_bound_event pk events ev =
     (case dget events (identity ev) of
        None \<Rightarrow> sum_bind (event_fingerprint pk ev) (\<lambda>_. Inr (dset (identity ev) ev events))
      | Some existing \<Rightarrow>
          sum_bind (event_fingerprint pk existing) (\<lambda>accepted.
          sum_bind (event_fingerprint pk ev) (\<lambda>conflicting.
            if accepted \<noteq> conflicting
            then Inl (Equivocation (he_hub ev) (he_seq ev) accepted conflicting)
            else Inr events)))"

fun remember_all ::
  "(time \<Rightarrow> bytes) \<Rightarrow> hub_event list \<Rightarrow> bound_events \<Rightarrow> integrity_error + bound_events" where
  "remember_all pk [] seen = Inr seen"
| "remember_all pk (ev # evs) seen = sum_bind (remember_content_bound_event pk seen ev) (remember_all pk evs)"

definition merge_event_logs ::
  "(time \<Rightarrow> bytes) \<Rightarrow> hub_event list list \<Rightarrow> integrity_error + hub_event list" where
  "merge_event_logs pk logs =
     sum_bind (remember_all pk (concat logs) []) (\<lambda>seen. Inr (sort_key order_key (map snd seen)))"

text \<open>The greatest sequence per hub.\<close>

definition raise_cursor :: "hub_event \<Rightarrow> (string, int) pydict \<Rightarrow> (string, int) pydict" where
  "raise_cursor ev cursors =
     (if (case dget cursors (he_hub ev) of None \<Rightarrow> -1 | Some q \<Rightarrow> q) < he_seq ev
      then dset (he_hub ev) (he_seq ev) cursors else cursors)"

definition hub_cursors :: "hub_event list \<Rightarrow> (string, int) pydict" where
  "hub_cursors evs = fold raise_cursor evs []"

text \<open>One peer batch, exclusive and contiguous past the cursor; re-sent events have to match.\<close>

fun validate_content_bound_batch ::
  "(time \<Rightarrow> bytes) \<Rightarrow> string \<Rightarrow> int \<Rightarrow> int \<Rightarrow> hub_event list \<Rightarrow> bound_events \<Rightarrow> integrity_error + bound_events" where
  "validate_content_bound_batch pk peer after expected [] candidate = Inr candidate"
| "validate_content_bound_batch pk peer after expected (ev # evs) candidate =
     (if he_hub ev \<noteq> peer then Inl PeerMismatch
      else if he_seq ev < expected
      then (if dget candidate (identity ev) = None
            then Inl (SequenceViolation peer after (he_seq ev) expected)
            else sum_bind (remember_content_bound_event pk candidate ev)
                   (validate_content_bound_batch pk peer after expected evs))
      else if expected < he_seq ev then Inl (SequenceViolation peer after (he_seq ev) expected)
      else sum_bind (remember_content_bound_event pk candidate ev)
             (validate_content_bound_batch pk peer after (expected + 1) evs))"

section \<open>What the union keeps\<close>

definition fingerprinted :: "(time \<Rightarrow> bytes) \<Rightarrow> hub_event \<Rightarrow> bool" where
  "fingerprinted pk e \<longleftrightarrow> (\<exists>d. event_fingerprint pk e = Inr d)"

definition consistent :: "(time \<Rightarrow> bytes) \<Rightarrow> hub_event set \<Rightarrow> bool" where
  "consistent pk E \<longleftrightarrow> (\<forall>e \<in> E. fingerprinted pk e)
     \<and> (\<forall>e \<in> E. \<forall>e' \<in> E. identity e = identity e' \<longrightarrow> event_fingerprint pk e = event_fingerprint pk e')"

definition values_of :: "bound_events \<Rightarrow> hub_event set" where
  "values_of seen = set (map snd seen)"

definition content_bound :: "(time \<Rightarrow> bytes) \<Rightarrow> bound_events \<Rightarrow> bool" where
  "content_bound pk seen \<longleftrightarrow> dict_ok seen
     \<and> (\<forall>k e. dget seen k = Some e \<longrightarrow> k = identity e \<and> fingerprinted pk e)"

lemma content_bound_empty [simp]: "content_bound pk []"
  by (simp add: content_bound_def)

lemma content_bound_get: "content_bound pk seen \<Longrightarrow> dget seen k = Some e \<Longrightarrow> k = identity e \<and> fingerprinted pk e"
  unfolding content_bound_def by blast

lemma content_bound_value: "content_bound pk seen \<Longrightarrow> e \<in> values_of seen \<longleftrightarrow> dget seen (identity e) = Some e"
  unfolding content_bound_def values_of_def by (metis dict_values_iff)

lemma content_bound_consistent: "content_bound pk seen \<Longrightarrow> consistent pk (values_of seen)"
  using content_bound_value content_bound_get unfolding consistent_def by (metis option.inject)

lemma values_of_dset: "dict_ok seen \<Longrightarrow> dget seen k = None \<Longrightarrow> values_of (dset k e seen) = insert e (values_of seen)"
proof (induction seen)
  case (Cons kv seen)
  then show ?case by (cases kv) (auto simp: values_of_def dict_ok_def split: if_splits)
qed (simp add: values_of_def)

text \<open>Remembering one event keeps what is there, adds at most the event, and covers its identity.\<close>

definition extends_by :: "hub_event \<Rightarrow> bound_events \<Rightarrow> bound_events \<Rightarrow> bool" where
  "extends_by ev seen seen' \<longleftrightarrow> values_of seen \<subseteq> values_of seen' \<and> values_of seen' \<subseteq> insert ev (values_of seen)
     \<and> (\<exists>e \<in> values_of seen'. identity e = identity ev)"

lemma remember_step:
  assumes "content_bound pk seen"
  shows "case remember_content_bound_event pk seen ev of
      Inl _ \<Rightarrow> \<not> consistent pk (insert ev (values_of seen))
    | Inr seen' \<Rightarrow> consistent pk (insert ev (values_of seen)) \<and> content_bound pk seen'
        \<and> extends_by ev seen seen'
        \<and> seen' = (if dget seen (identity ev) = None then dset (identity ev) ev seen else seen)"
proof (cases "dget seen (identity ev)")
  case None
  have ok: "dict_ok seen" using assms by (simp add: content_bound_def)
  from None have new: "identity e \<noteq> identity ev" if "e \<in> values_of seen" for e
    using content_bound_value [OF assms, of e] that by auto
  show ?thesis
  proof (cases "event_fingerprint pk ev")
    case (Inl x)
    then have "\<not> consistent pk (insert ev (values_of seen))" by (simp add: consistent_def fingerprinted_def)
    then show ?thesis using None Inl by (simp add: remember_content_bound_event_def)
  next
    case (Inr d)
    then have fp: "fingerprinted pk ev" by (simp add: fingerprinted_def)
    have "content_bound pk (dset (identity ev) ev seen)"
      using assms fp by (simp add: content_bound_def)
    moreover have "consistent pk (insert ev (values_of seen))"
      using content_bound_consistent [OF assms] new fp unfolding consistent_def by (metis insert_iff)
    moreover have "extends_by ev seen (dset (identity ev) ev seen)"
      by (auto simp: extends_by_def values_of_dset [OF ok None])
    ultimately show ?thesis using None Inr by (simp add: remember_content_bound_event_def)
  qed
next
  case (Some old)
  note old = content_bound_get [OF assms Some]
  then have mem: "old \<in> values_of seen" using content_bound_value [OF assms] Some by simp
  obtain d where d: "event_fingerprint pk old = Inr d" using old by (auto simp: fingerprinted_def)
  show ?thesis
  proof (cases "event_fingerprint pk ev = Inr d")
    case True
    have "consistent pk (insert ev (values_of seen))"
      using content_bound_consistent [OF assms] mem old d True
      unfolding consistent_def fingerprinted_def by (metis insert_iff)
    moreover have "extends_by ev seen seen" using mem old by (auto simp: extends_by_def)
    ultimately show ?thesis using Some d True assms by (simp add: remember_content_bound_event_def)
  next
    case False
    then have "\<not> consistent pk (insert ev (values_of seen))"
      using mem old d unfolding consistent_def by (metis insert_iff)
    then show ?thesis using Some d False
      by (cases "event_fingerprint pk ev") (auto simp: remember_content_bound_event_def)
  qed
qed

lemma consistentD: "consistent pk E \<Longrightarrow> e \<in> E \<Longrightarrow> e' \<in> E \<Longrightarrow> identity e = identity e' \<Longrightarrow>
    event_fingerprint pk e = event_fingerprint pk e'"
  unfolding consistent_def by blast

lemma consistent_fingerprint: "consistent pk E \<Longrightarrow> e \<in> E \<Longrightarrow> \<exists>d. event_fingerprint pk e = Inr d"
  unfolding consistent_def fingerprinted_def by blast

lemma consistent_mono: "consistent pk E \<Longrightarrow> E' \<subseteq> E \<Longrightarrow> consistent pk E'"
  unfolding consistent_def by blast

lemma remember_all_spec:
  assumes "content_bound pk seen"
  shows "case remember_all pk evs seen of
      Inl _ \<Rightarrow> \<not> consistent pk (set evs \<union> values_of seen)
    | Inr seen' \<Rightarrow> consistent pk (set evs \<union> values_of seen) \<and> content_bound pk seen'
        \<and> values_of seen \<subseteq> values_of seen' \<and> values_of seen' \<subseteq> set evs \<union> values_of seen
        \<and> identity ` values_of seen' = identity ` (set evs \<union> values_of seen)"
  using assms
proof (induction evs arbitrary: seen)
  case Nil
  then show ?case by (simp add: content_bound_consistent)
next
  case (Cons ev evs)
  note step = remember_step [OF Cons.prems, of ev]
  show ?case
  proof (cases "remember_content_bound_event pk seen ev")
    case (Inl x)
    then have "\<not> consistent pk (insert ev (values_of seen))" using step by simp
    then show ?thesis using Inl consistent_mono [of pk "set (ev # evs) \<union> values_of seen"] by auto
  next
    case (Inr seen1)
    from step [unfolded Inr sum.case(2)]
    have c: "consistent pk (insert ev (values_of seen))" and b: "content_bound pk seen1"
      and ext: "extends_by ev seen seen1"
      by blast+
    note same = ext [unfolded extends_by_def, THEN conjunct1] ext [unfolded extends_by_def, THEN conjunct2, THEN conjunct1]
      ext [unfolded extends_by_def, THEN conjunct2, THEN conjunct2]
    note IH = Cons.IH [OF b]
    have cons: "consistent pk (set evs \<union> values_of seen1) \<longleftrightarrow> consistent pk (set (ev # evs) \<union> values_of seen)"
    proof
      assume a: "consistent pk (set evs \<union> values_of seen1)"
      obtain e where e: "e \<in> values_of seen1" "identity e = identity ev" using same(3) by blast
      then have fe: "event_fingerprint pk ev = event_fingerprint pk e"
        using c same(2) unfolding consistent_def by (metis insert_iff subsetD)
      show "consistent pk (set (ev # evs) \<union> values_of seen)"
        unfolding consistent_def
      proof (intro conjI ballI impI)
        fix x assume "x \<in> set (ev # evs) \<union> values_of seen"
        then show "fingerprinted pk x" using a c same unfolding consistent_def by auto
      next
        fix x y assume xy: "x \<in> set (ev # evs) \<union> values_of seen" "y \<in> set (ev # evs) \<union> values_of seen"
          "identity x = identity y"
        have rep: "\<exists>z \<in> set evs \<union> values_of seen1. identity z = identity x \<and> event_fingerprint pk z = event_fingerprint pk x"
          if "x \<in> set (ev # evs) \<union> values_of seen" for x
          using that e fe same(1) by (cases "x = ev") auto
        obtain z z' where "z \<in> set evs \<union> values_of seen1" "z' \<in> set evs \<union> values_of seen1"
          "identity z = identity z'" "event_fingerprint pk z = event_fingerprint pk x"
          "event_fingerprint pk z' = event_fingerprint pk y"
          using rep [OF xy(1)] rep [OF xy(2)] xy(3) by metis
        then show "event_fingerprint pk x = event_fingerprint pk y" using a unfolding consistent_def by metis
      qed
    next
      assume "consistent pk (set (ev # evs) \<union> values_of seen)"
      then show "consistent pk (set evs \<union> values_of seen1)"
        by (rule consistent_mono) (use same(2) in auto)
    qed
    have "identity ev \<in> identity ` values_of seen1" using same(3) by (metis imageI)
    then have ids: "identity ` (set evs \<union> values_of seen1) = identity ` (set (ev # evs) \<union> values_of seen)"
      using same(1,2) by (simp add: image_Un) blast
    show ?thesis
      using IH Inr cons ids same(1,2) by (auto split: sum.splits)
  qed
qed

section \<open>The merged log\<close>

lemma strictly_keyed_unique:
  fixes us vs :: "('k :: linorder \<times> 'v) list"
  assumes "sorted_wrt (\<lambda>p q. fst p < fst q) us" and "sorted_wrt (\<lambda>p q. fst p < fst q) vs" and "set us = set vs"
  shows "us = vs"
  using assms
proof (induction us arbitrary: vs)
  case (Cons u us)
  then obtain v vs' where vs: "vs = v # vs'" by (cases vs) auto
  have "u \<in> set (v # vs')" "v \<in> set (u # us)" using Cons.prems(3) vs by auto
  then have "u = v" using Cons.prems(1,2) vs by (auto dest: less_asym)
  moreover have "u \<notin> set us" "v \<notin> set vs'" using Cons.prems(1,2) vs by auto
  ultimately have "set us = set vs'" using Cons.prems(3) vs by auto
  then show ?case using Cons.IH [of vs'] Cons.prems(1,2) vs \<open>u = v\<close> by simp
qed simp

lemma sorted_wrt_strict:
  "sorted_wrt (\<lambda>a b. f a \<le> f b) xs \<Longrightarrow> distinct (map g xs) \<Longrightarrow>
   (\<And>a b. g a \<noteq> g b \<Longrightarrow> f a \<noteq> f b) \<Longrightarrow> sorted_wrt (\<lambda>a b. f a < f b) xs"
  for f :: "'a \<Rightarrow> 'k :: linorder"
  by (induction xs) (auto simp: order_less_le image_iff)

lemma dict_keys_identity: "content_bound pk seen \<Longrightarrow> map fst seen = map identity (map snd seen)"
proof -
  assume cb: "content_bound pk seen"
  have "k = identity e" if "(k, e) \<in> set seen" for k e
    using cb that content_bound_get [OF cb, of k e] dict_mem_iff [of seen k e] by (simp add: content_bound_def)
  then show ?thesis by (auto simp: case_prod_unfold)
qed

text \<open>What a successful merge returns, and when it succeeds.\<close>

lemma merge_spec:
  "case merge_event_logs pk logs of
     Inl _ \<Rightarrow> \<not> consistent pk (set (concat logs))
   | Inr m \<Rightarrow> consistent pk (set (concat logs)) \<and> set m \<subseteq> set (concat logs)
       \<and> identity ` set m = identity ` set (concat logs) \<and> distinct (map identity m)
       \<and> sorted_wrt (\<lambda>a b. order_key a < order_key b) m"
proof (cases "remember_all pk (concat logs) []")
  case (Inl x)
  then show ?thesis
    using remember_all_spec [OF content_bound_empty, of pk "concat logs"]
    by (simp add: merge_event_logs_def values_of_def)
next
  case (Inr seen)
  have spec: "consistent pk (set (concat logs))" "content_bound pk seen"
      "values_of seen \<subseteq> set (concat logs)" "identity ` values_of seen = identity ` set (concat logs)"
    using remember_all_spec [OF content_bound_empty, of pk "concat logs"] Inr
    by (simp_all add: values_of_def)
  let ?m = "sort_key order_key (map snd seen)"
  have "distinct (map identity (map snd seen))"
    using spec(2) dict_keys_identity [OF spec(2)] by (simp add: content_bound_def dict_ok_def)
  then have dist: "distinct (map identity ?m)"
    by (simp only: distinct_map [of identity] distinct_sort set_sort)
  have "sorted_wrt (\<lambda>a b. order_key a \<le> order_key b) ?m"
    using sorted_sort_key [of order_key "map snd seen"] by (simp add: sorted_wrt_map)
  then have "sorted_wrt (\<lambda>a b. order_key a < order_key b) ?m"
    by (rule sorted_wrt_strict [OF _ dist]) (auto simp: order_key_def identity_def)
  then show ?thesis
    using spec dist Inr by (simp add: merge_event_logs_def values_of_def)
qed

text \<open>What two peers see of an event: its place in the order and its content.\<close>

definition observation :: "(time \<Rightarrow> bytes) \<Rightarrow> hub_event \<Rightarrow> (time \<times> string \<times> int) \<times> (integrity_error + string)" where
  "observation pk e = (order_key e, event_fingerprint pk e)"

text \<open>
  The union does not depend on the order of arrival.  Whether a merge succeeds depends only
  on the set of events (it raises exactly when an event has no fingerprint or an identity binds
  two contents), and two peers that merge the same events, in any order, split into any logs
  and with any duplicates, obtain the same sequence of identities, order keys and
  fingerprints, strictly ascending in the total order, or two of the events are a SHA-256
  collision.
\<close>

theorem merge_order_independent:
  assumes "set (concat logs) = set (concat logs')"
    and "packs pk (\<Union>e \<in> set (concat logs). event_floats e)"
  shows "case (merge_event_logs pk logs, merge_event_logs pk logs') of
      (Inr m, Inr m') \<Rightarrow> consistent pk (set (concat logs))
        \<and> sorted_wrt (\<lambda>a b. order_key a < order_key b) m \<and> identity ` set m = identity ` set (concat logs)
        \<and> (map (observation pk) m = map (observation pk) m'
           \<or> (\<exists>e \<in> set (concat logs). \<exists>e' \<in> set (concat logs). fingerprint_collision pk e e'))
    | (Inl _, Inl _) \<Rightarrow> \<not> consistent pk (set (concat logs))
    | _ \<Rightarrow> False"
proof (cases "merge_event_logs pk logs"; cases "merge_event_logs pk logs'")
  fix m m' assume m: "merge_event_logs pk logs = Inr m" and m': "merge_event_logs pk logs' = Inr m'"
  let ?E = "set (concat logs)"
  note S = merge_spec [of pk logs, unfolded m sum.case(2)] and S' = merge_spec [of pk logs', unfolded m' sum.case(2), folded assms(1)]
  have cons: "consistent pk ?E" using S by blast
  have partner: "\<exists>e' \<in> set m'. observation pk e' = observation pk e"
    if e: "e \<in> set m" and nc: "\<not> (\<exists>e \<in> ?E. \<exists>e' \<in> ?E. fingerprint_collision pk e e')" for e
  proof -
    have "e \<in> ?E" using S e by blast
    then obtain e' where e': "e' \<in> set m'" "identity e' = identity e" using S' by (metis imageE imageI)
    then have "e' \<in> ?E" using S' by blast
    obtain d where d: "event_fingerprint pk e = Inr d" using consistent_fingerprint [OF cons \<open>e \<in> ?E\<close>] by blast
    have d': "event_fingerprint pk e' = Inr d" using consistentD [OF cons \<open>e' \<in> ?E\<close> \<open>e \<in> ?E\<close> e'(2)] d by simp
    have "event_floats e \<subseteq> (\<Union>e \<in> ?E. event_floats e)" "event_floats e' \<subseteq> (\<Union>e \<in> ?E. event_floats e)"
      using \<open>e \<in> ?E\<close> \<open>e' \<in> ?E\<close> by blast+
    from same_fingerprint [OF d d' assms(2) this] nc \<open>e \<in> ?E\<close> \<open>e' \<in> ?E\<close>
    have "he_ts e = he_ts e'" by blast
    then have "order_key e' = order_key e" using e'(2) by (simp add: order_key_def identity_def)
    then show ?thesis using e'(1) d d' by (auto simp: observation_def)
  qed
  have same: "map (observation pk) m = map (observation pk) m'"
    if nc: "\<not> (\<exists>e \<in> ?E. \<exists>e' \<in> ?E. fingerprint_collision pk e e')"
  proof (rule strictly_keyed_unique)
    show "sorted_wrt (\<lambda>p q. fst p < fst q) (map (observation pk) m)"
      "sorted_wrt (\<lambda>p q. fst p < fst q) (map (observation pk) m')"
      using S S' by (simp_all add: sorted_wrt_map observation_def)
    have "\<exists>e \<in> set m. observation pk e = observation pk e'" if e': "e' \<in> set m'" for e'
    proof -
      obtain e where e: "e \<in> set m" "identity e = identity e'" using S S' e' by (metis imageE imageI)
      obtain e'' where e'': "e'' \<in> set m'" "observation pk e'' = observation pk e" using partner [OF e(1) nc] by blast
      then have "identity e'' = identity e'" using e(2) by (simp add: observation_def order_key_def identity_def)
      then have "e'' = e'" using S' e' e''(1) by (metis distinct_map inj_on_def)
      then show ?thesis using e(1) e''(2) by metis
    qed
    then show "set (map (observation pk) m) = set (map (observation pk) m')"
      using partner [OF _ nc] by (auto simp: image_iff) metis+
  qed
  have "sorted_wrt (\<lambda>a b. order_key a < order_key b) m" "identity ` set m = identity ` ?E" using S by blast+
  then show "case (merge_event_logs pk logs, merge_event_logs pk logs') of
      (Inr m, Inr m') \<Rightarrow> consistent pk ?E
        \<and> sorted_wrt (\<lambda>a b. order_key a < order_key b) m \<and> identity ` set m = identity ` ?E
        \<and> (map (observation pk) m = map (observation pk) m'
           \<or> (\<exists>e \<in> ?E. \<exists>e' \<in> ?E. fingerprint_collision pk e e'))
    | (Inl _, Inl _) \<Rightarrow> \<not> consistent pk ?E
    | _ \<Rightarrow> False"
    using cons same unfolding m m' prod.case sum.case by blast
next
  fix x y assume "merge_event_logs pk logs = Inl x" "merge_event_logs pk logs' = Inl y"
  then show ?thesis using merge_spec [of pk logs] by simp
next
  fix x m assume "merge_event_logs pk logs = Inl x" "merge_event_logs pk logs' = Inr m"
  then show ?thesis using merge_spec [of pk logs] merge_spec [of pk logs'] assms(1) by simp
next
  fix x m assume "merge_event_logs pk logs' = Inl x" "merge_event_logs pk logs = Inr m"
  then show ?thesis using merge_spec [of pk logs] merge_spec [of pk logs'] assms(1) by simp
qed

text \<open>Two orders of arrival with a repeated event.\<close>

theorem merge_order_independent_witness:
  "let pk = (\<lambda>_ :: time. [0, 0, 0, 0, 0, 0, 0, 1]); e = sample_event []; e' = (sample_event [])\<lparr>he_seq := 2\<rparr> in
   case (merge_event_logs pk [[e, e']], merge_event_logs pk [[e'], [e, e']]) of
      (Inr m, Inr m') \<Rightarrow> consistent pk (set (concat [[e, e']]))
        \<and> sorted_wrt (\<lambda>a b. order_key a < order_key b) m \<and> identity ` set m = identity ` set (concat [[e, e']])
        \<and> (map (observation pk) m = map (observation pk) m'
           \<or> (\<exists>x \<in> set (concat [[e, e']]). \<exists>y \<in> set (concat [[e, e']]). fingerprint_collision pk x y))
    | (Inl _, Inl _) \<Rightarrow> \<not> consistent pk (set (concat [[e, e']]))
    | _ \<Rightarrow> False"
  unfolding Let_def
  by (rule merge_order_independent) (auto simp: packs_def event_floats_def sample_event_def)

end
