(* ===== verification/Kahn.thy ===== *)
theory Kahn
  imports Graph_Walk
begin

text \<open>
  The linear cycle test of the multi-hub fold (\<open>_parent_graph_has_cycle\<close> in
  \<open>core/multihub_fold.py\<close>): nodes without references are consumed until none is left.  It is
  total and answers exactly whether the graph between the known nodes has a cycle.
\<close>

section \<open>The algorithm\<close>

type_synonym 'a parents = "('a, 'a list) pydict"

text \<open>References to unknown nodes are skipped.\<close>

definition children_of :: "'a parents \<Rightarrow> 'a parents" where
  "children_of parents = map (\<lambda>(c, ps). (c, filter (\<lambda>p. p \<in> fst ` set parents) ps)) parents"

definition inbound_of :: "'a parents \<Rightarrow> ('a, int) pydict" where
  "inbound_of parents =
     map (\<lambda>(p, _). (p, int (length (filter (\<lambda>(c, ps). p \<in> set ps) (children_of parents))))) parents"

text \<open>One reference less for each parent of the consumed node; a parent without any is ready.\<close>

fun drop_references :: "'a list \<Rightarrow> ('a, int) pydict \<Rightarrow> 'a list \<Rightarrow> ('a, int) pydict \<times> 'a list" where
  "drop_references [] inbound ready = (inbound, ready)"
| "drop_references (p # ps) inbound ready =
     (let n = (case dget inbound p of None \<Rightarrow> 0 | Some n \<Rightarrow> n) - 1
      in drop_references ps (dset p n inbound) (if n = 0 then p # ready else ready))"

text \<open>The open references and the ready nodes together bound the number of rounds.\<close>

definition open_work :: "('a, int) pydict \<Rightarrow> nat" where
  "open_work inbound = sum_list (map (\<lambda>(_, n). nat n) inbound)"

lemma open_work_dset_le:
  "dget inbound p = Some n \<Longrightarrow> open_work (dset p (n - 1) inbound) + (if n = 1 then 1 else 0) \<le> open_work inbound"
  by (induction inbound) (auto simp: open_work_def split: if_splits)

lemma open_work_absent: "dget inbound p = None \<Longrightarrow> open_work (dset p (- 1) inbound) = open_work inbound"
  by (induction inbound) (auto simp: open_work_def split: if_splits)

lemma drop_references_work:
  "drop_references ps inbound ready = (inbound', ready') \<Longrightarrow>
   open_work inbound' + length ready' \<le> open_work inbound + length ready"
proof (induction ps arbitrary: inbound ready)
  case (Cons p ps)
  show ?case
  proof (cases "dget inbound p")
    case None
    then show ?thesis using Cons.IH [of "dset p (- 1) inbound" ready] Cons.prems open_work_absent [OF None]
      by (simp add: Let_def)
  next
    case (Some n)
    show ?thesis
      using Cons.IH [of "dset p (n - 1) inbound" "if n = 1 then p # ready else ready"] Cons.prems
        open_work_dset_le [OF Some] Some
      by (auto simp: Let_def split: if_splits)
  qed
qed simp

function consume :: "'a parents \<Rightarrow> ('a, int) pydict \<Rightarrow> 'a list \<Rightarrow> nat \<Rightarrow> nat" where
  "consume children inbound [] consumed = consumed"
| "consume children inbound (node # ready) consumed =
     (let (inbound', ready') = drop_references (succs children node) inbound ready
      in consume children inbound' ready' (consumed + 1))"
  by pat_completeness auto
termination
proof (relation "measure (\<lambda>(children, inbound, ready, consumed). open_work inbound + length ready)", goal_cases)
  case (2 children inbound node ready consumed x inbound' ready')
  then show ?case using drop_references_work [of "succs children node" inbound ready inbound' ready'] by simp
qed simp

definition parent_graph_has_cycle :: "'a parents \<Rightarrow> bool" where
  "parent_graph_has_cycle parents =
     (let inbound = inbound_of parents;
          ready = rev (map fst (filter (\<lambda>(_, n). n = 0) inbound))
      in consume (children_of parents) inbound ready 0 \<noteq> length inbound)"

section \<open>It decides cycles\<close>

text \<open>The references between known nodes.\<close>

definition parent_edges :: "'a parents \<Rightarrow> ('a \<times> 'a) set" where
  "parent_edges parents = {(c, p). c \<in> fst ` set parents \<and> p \<in> set (succs parents c) \<and> p \<in> fst ` set parents}"

text \<open>The invariant: \<open>C\<close> is what has been consumed.\<close>

definition kahn_inv :: "('a \<times> 'a) set \<Rightarrow> 'a set \<Rightarrow> 'a set \<Rightarrow> ('a, int) pydict \<Rightarrow> 'a list \<Rightarrow> bool" where
  "kahn_inv E V C inbound ready \<longleftrightarrow>
     C \<subseteq> V \<and> distinct ready \<and> set ready = {v \<in> V - C. dget inbound v = Some 0}
     \<and> (\<forall>v \<in> V. dget inbound v = Some (int (card {c \<in> V - C. (c, v) \<in> E})))
     \<and> (\<forall>v \<in> C. \<forall>c. (c, v) \<in> E \<longrightarrow> c \<in> C) \<and> acyclic {(a, b) \<in> E. a \<in> C \<and> b \<in> C}"

lemma drop_references_spec:
  assumes "drop_references ps inbound ready = (inbound', ready')" and "distinct ps"
    and "\<And>p. p \<in> set ps \<Longrightarrow> \<exists>n. dget inbound p = Some n"
  shows "(\<forall>v. dget inbound' v = (if v \<in> set ps then map_option (\<lambda>n. n - 1) (dget inbound v) else dget inbound v))
    \<and> (\<exists>fresh. ready' = fresh @ ready \<and> distinct fresh \<and> set fresh = {p \<in> set ps. dget inbound p = Some 1})"
  using assms
proof (induction ps arbitrary: inbound ready)
  case (Cons p ps)
  obtain n where n: "dget inbound p = Some n" using Cons.prems(3) by auto
  let ?i = "dset p (n - 1) inbound" and ?r = "if n = 1 then p # ready else ready"
  have run: "drop_references ps ?i ?r = (inbound', ready')" using Cons.prems(1) n by (simp add: Let_def split: if_splits)
  have known: "\<exists>n. dget ?i q = Some n" if "q \<in> set ps" for q using Cons.prems(3) [of q] that by auto
  note IH = Cons.IH [OF run _ known]
  then obtain fresh where f: "ready' = fresh @ ?r" "distinct fresh" "set fresh = {q \<in> set ps. dget ?i q = Some 1}"
    using Cons.prems(2) by auto
  have p: "p \<notin> set ps" using Cons.prems(2) by simp
  then have fresh: "set fresh = {q \<in> set ps. dget inbound q = Some 1}" using f(3) by auto
  have "\<exists>fresh'. ready' = fresh' @ ready \<and> distinct fresh' \<and> set fresh' = {q \<in> set (p # ps). dget inbound q = Some 1}"
  proof (cases "n = 1")
    case True
    then show ?thesis using f fresh p n by (intro exI [of _ "fresh @ [p]"]) auto
  next
    case False
    then show ?thesis using f fresh n by (intro exI [of _ fresh]) auto
  qed
  moreover have "\<forall>v. dget inbound' v = (if v \<in> set (p # ps) then map_option (\<lambda>n. n - 1) (dget inbound v) else dget inbound v)"
    using IH Cons.prems(2) p n by auto
  ultimately show ?case by blast
qed auto

lemma consume_step:
  assumes inv: "kahn_inv E V C inbound (node # ready)" and fin: "finite V"
    and edges: "\<And>c. c \<in> V \<Longrightarrow> distinct (succs children c) \<and> set (succs children c) = {p. (c, p) \<in> E}"
    and E: "E \<subseteq> V \<times> V"
    and run: "drop_references (succs children node) inbound ready = (inbound', ready')"
  shows "node \<in> V - C \<and> kahn_inv E V (insert node C) inbound' ready'"
proof -
  from inv have I: "C \<subseteq> V" "distinct (node # ready)" "set (node # ready) = {v \<in> V - C. dget inbound v = Some 0}"
      "\<And>v. v \<in> V \<Longrightarrow> dget inbound v = Some (int (card {c \<in> V - C. (c, v) \<in> E}))"
      "\<And>v c. v \<in> C \<Longrightarrow> (c, v) \<in> E \<Longrightarrow> c \<in> C" "acyclic {(a, b) \<in> E. a \<in> C \<and> b \<in> C}"
    unfolding kahn_inv_def by blast+
  have node: "node \<in> V - C" "dget inbound node = Some 0" using I(3) by auto
  let ?P = "{p. (node, p) \<in> E}"
  have ps: "distinct (succs children node)" "set (succs children node) = ?P" using edges node by auto
  have none: "c \<in> C" if "(c, node) \<in> E" for c
  proof -
    have "card {c \<in> V - C. (c, node) \<in> E} = 0" using I(4) [of node] node by simp
    then have "{c \<in> V - C. (c, node) \<in> E} = {}" using fin by simp
    then show ?thesis using that E by auto
  qed
  have known: "\<exists>n. dget inbound p = Some n" if "p \<in> set (succs children node)" for p
    using that ps E I(4) by auto
  from drop_references_spec [OF run ps(1) known] obtain fresh where
    d: "\<And>v. dget inbound' v = (if v \<in> ?P then map_option (\<lambda>n. n - 1) (dget inbound v) else dget inbound v)"
    and f: "ready' = fresh @ ready" "distinct fresh" "set fresh = {p \<in> ?P. dget inbound p = Some 1}"
    using ps(2) by auto
  have count: "dget inbound' v = Some (int (card {c \<in> V - insert node C. (c, v) \<in> E}))" if v: "v \<in> V" for v
  proof (cases "v \<in> ?P")
    case True
    have "{c \<in> V - C. (c, v) \<in> E} = insert node {c \<in> V - insert node C. (c, v) \<in> E}" using True node by auto
    then have "card {c \<in> V - C. (c, v) \<in> E} = Suc (card {c \<in> V - insert node C. (c, v) \<in> E})" using fin by simp
    then show ?thesis using d [of v] I(4) [OF v] True by simp
  next
    case False
    then have "{c \<in> V - C. (c, v) \<in> E} = {c \<in> V - insert node C. (c, v) \<in> E}" by auto
    then show ?thesis using d [of v] I(4) [OF v] False by simp
  qed
  have self: "node \<notin> ?P" using none node by auto
  have outP: "p \<notin> C" if "p \<in> ?P" for p using I(5) [of p node] that node by auto
  have "set ready' = {v \<in> V - insert node C. dget inbound' v = Some 0}"
  proof (intro set_eqI iffI)
    fix v assume "v \<in> set ready'"
    then consider "v \<in> ?P" "dget inbound v = Some 1" | "v \<in> set ready" using f by auto
    then show "v \<in> {v \<in> V - insert node C. dget inbound' v = Some 0}"
    proof cases
      case 1
      then show ?thesis using self outP E d [of v] by auto
    next
      case 2
      then have v: "v \<in> V - C" "dget inbound v = Some 0" "v \<noteq> node" using I(2,3) by auto
      then have "card {c \<in> V - C. (c, v) \<in> E} = 0" using I(4) [of v] by simp
      then have "{c \<in> V - C. (c, v) \<in> E} = {}" using fin by simp
      then have "v \<notin> ?P" using node by auto
      then show ?thesis using v d [of v] by simp
    qed
  next
    fix v assume v: "v \<in> {v \<in> V - insert node C. dget inbound' v = Some 0}"
    show "v \<in> set ready'"
    proof (cases "v \<in> ?P")
      case True
      then have "dget inbound v = Some 1" using v d [of v] by auto
      then show ?thesis using True f by simp
    next
      case False
      then have "v \<in> set (node # ready)" unfolding I(3) using v d [of v] by simp
      then show ?thesis using v f by auto
    qed
  qed
  moreover have "distinct ready'"
  proof -
    have "dget inbound p = Some 0" if "p \<in> set ready" for p
      using that by (metis (mono_tags, lifting) I(3) list.set_intros(2) mem_Collect_eq)
    then have "p \<notin> set ready" if "p \<in> set fresh" for p using that f(3) by fastforce
    then show ?thesis using f I(2) by auto
  qed
  moreover have "acyclic {(a, b) \<in> E. a \<in> insert node C \<and> b \<in> insert node C}"
  proof -
    have out: "(node, b) \<notin> E" if "b \<in> insert node C" for b
      using that self I(5) [of b node] node by auto
    have no_out: "(node, b) \<notin> {(a, b) \<in> E. a \<in> insert node C \<and> b \<in> insert node C}\<^sup>+" for b
      using out by (auto dest!: tranclD)
    show ?thesis
    proof (rule acyclicI, rule allI, rule notI)
      fix x assume cyc: "(x, x) \<in> {(a, b) \<in> E. a \<in> insert node C \<and> b \<in> insert node C}\<^sup>+"
      have "(x, y) \<in> {(a, b) \<in> E. a \<in> C \<and> b \<in> C}\<^sup>+ \<or> y = node"
        if "(x, y) \<in> {(a, b) \<in> E. a \<in> insert node C \<and> b \<in> insert node C}\<^sup>+" for y
        using that
      proof (induction rule: trancl_induct)
        case (base y)
        then have "x \<noteq> node" using out by auto
        with base show ?case by auto
      next
        case (step y z)
        then have "y \<noteq> node" using out by auto
        with step show ?case by (auto intro: trancl_into_trancl)
      qed
      from this [OF cyc] show False using I(6) no_out [of x] cyc by (auto simp: acyclic_def)
    qed
  qed
  ultimately show ?thesis
    using node I(1,5) count none unfolding kahn_inv_def by auto
qed

lemma consume_spec:
  assumes "kahn_inv E V C inbound ready" and "finite V"
    and "\<And>c. c \<in> V \<Longrightarrow> distinct (succs children c) \<and> set (succs children c) = {p. (c, p) \<in> E}"
    and "E \<subseteq> V \<times> V"
  shows "\<exists>C' inbound'. kahn_inv E V C' inbound' [] \<and> C \<subseteq> C' \<and> consume children inbound ready n = n + card (C' - C)"
  using assms
proof (induction children inbound ready n arbitrary: C rule: consume.induct)
  case (1 children inbound n)
  then show ?case by (intro exI [of _ C] exI [of _ inbound]) simp
next
  case (2 children inbound node ready n)
  obtain inbound' ready' where run: "drop_references (succs children node) inbound ready = (inbound', ready')"
    by fastforce
  have node: "node \<in> V - C" and inv: "kahn_inv E V (insert node C) inbound' ready'"
    using consume_step [OF "2.prems"(1-4) run] by blast+
  from "2.IH" [OF run [symmetric] refl inv "2.prems"(2-4)] obtain C' inbound'' where
    C': "kahn_inv E V C' inbound'' []" "insert node C \<subseteq> C'"
      "consume children inbound' ready' (n + 1) = n + 1 + card (C' - insert node C)" by blast
  have "C' \<subseteq> V" using C'(1) by (simp add: kahn_inv_def)
  then have finite: "finite (C' - insert node C)" using "2.prems"(2) finite_subset by blast
  have "C' - C = insert node (C' - insert node C)" using node C'(2) by auto
  moreover have "node \<notin> C' - insert node C" by simp
  ultimately have "card (C' - C) = Suc (card (C' - insert node C))"
    using card_insert_disjoint [OF finite] by metis
  then have "consume children inbound (node # ready) n = n + card (C' - C)" using C'(3) run by simp
  moreover have "C \<subseteq> C'" using C'(2) by blast
  ultimately show ?case using C'(1) by blast
qed

lemma leftover_cycle:
  assumes inv: "kahn_inv E V C inbound []" and fin: "finite V" and E: "E \<subseteq> V \<times> V"
  shows "V = C \<longleftrightarrow> acyclic E"
proof
  assume "V = C"
  then have "{(a, b) \<in> E. a \<in> C \<and> b \<in> C} = E" using E by auto
  then show "acyclic E" using inv by (simp add: kahn_inv_def)
next
  assume "acyclic E"
  moreover have "finite E" using E fin finite_subset by blast
  ultimately have wf: "wf E" by (rule finite_acyclic_wf [rotated])
  show "V = C"
  proof (rule ccontr)
    assume "V \<noteq> C"
    then obtain x where x: "x \<in> V - C" using inv by (auto simp: kahn_inv_def)
    obtain z where z: "z \<in> V - C" "\<And>y. (y, z) \<in> E \<Longrightarrow> y \<notin> V - C" using wfE_min [OF wf x] by blast
    have "{c \<in> V - C. (c, z) \<in> E} = {}" using z(2) by auto
    then have "card {c \<in> V - C. (c, z) \<in> E} = 0" by (simp only: card.empty)
    moreover have "dget inbound z = Some (int (card {c \<in> V - C. (c, z) \<in> E}))"
      using inv z(1) unfolding kahn_inv_def by blast
    ultimately have "dget inbound z = Some 0" by simp
    then show False using inv z(1) by (auto simp: kahn_inv_def)
  qed
qed

lemma dget_map_values: "dget (map (\<lambda>(k, v). (k, f v)) d) k = map_option f (dget d k)"
  by (induction d) auto

lemma succs_children: "dict_ok parents \<Longrightarrow>
    succs (children_of parents) c = filter (\<lambda>p. p \<in> fst ` set parents) (succs parents c)"
  by (auto simp: succs_def children_of_def dget_map_values split: option.split)

lemma inbound_count:
  assumes ok: "dict_ok parents" and v: "v \<in> fst ` set parents"
  shows "dget (inbound_of parents) v = Some (int (card {c \<in> fst ` set parents. (c, v) \<in> parent_edges parents}))"
proof -
  have "dget (map (\<lambda>(p, _). (p, g p)) d) k = (if k \<in> fst ` set d then Some (g k) else None)"
    for g :: "'a \<Rightarrow> int" and d :: "'a parents" and k
    by (induction d) auto
  then have get: "dget (inbound_of parents) v =
      Some (int (length (filter (\<lambda>(c, ps). v \<in> set ps) (children_of parents))))"
    using v by (simp add: inbound_of_def)
  let ?L = "filter (\<lambda>(c, ps). v \<in> set ps) (children_of parents)"
  have keys: "map fst (children_of parents) = map fst parents" by (auto simp: children_of_def)
  then have "distinct (map fst ?L)" using ok by (simp add: dict_ok_def distinct_map_filter)
  then have "length ?L = card (fst ` set ?L)" by (metis distinct_card length_map set_map)
  also have "fst ` set ?L = {c \<in> fst ` set parents. (c, v) \<in> parent_edges parents}"
  proof -
    have "c \<in> fst ` set ?L \<longleftrightarrow> (\<exists>ps. (c, ps) \<in> set parents \<and> v \<in> set ps)" for c
      using v by (force simp: children_of_def)
    moreover have "c \<in> fst ` set parents \<and> (c, v) \<in> parent_edges parents \<longleftrightarrow> (\<exists>ps. (c, ps) \<in> set parents \<and> v \<in> set ps)" for c
    proof -
      have "(c, ps) \<in> set parents \<longleftrightarrow> dget parents c = Some ps" for ps by (rule dict_mem_iff [OF ok])
      note entry = this
      show ?thesis
      proof (cases "dget parents c")
        case None
        then show ?thesis using entry by (simp add: parent_edges_def succs_def)
      next
        case (Some ps)
        then have "c \<in> fst ` set parents" using entry by (metis fst_conv image_eqI)
        then show ?thesis using Some v entry by (simp add: parent_edges_def succs_def)
      qed
    qed
    ultimately show ?thesis by blast
  qed
  finally show ?thesis using get by simp
qed

text \<open>
  For any parent references the test answers true if and only if the references between known
  nodes contain a cycle.
\<close>

lemma has_cycle_exact:
  assumes "dict_ok parents" and "\<forall>ps \<in> set (map snd parents). distinct ps"
  shows "parent_graph_has_cycle parents \<longleftrightarrow> \<not> acyclic (parent_edges parents)"
proof -
  let ?V = "fst ` set parents" and ?E = "parent_edges parents"
  let ?ready = "rev (map fst (filter (\<lambda>(_, n). n = 0) (inbound_of parents)))"
  have keys: "map fst (inbound_of parents) = map fst parents" by (auto simp: inbound_of_def)
  then have ok: "dict_ok (inbound_of parents)" using assms(1) by (simp add: dict_ok_def)
  have E: "?E \<subseteq> ?V \<times> ?V" by (auto simp: parent_edges_def)
  have inV: "v \<in> ?V" if "dget (inbound_of parents) v = Some n" for v n
    using map_of_SomeD [OF that] keys by (metis fst_conv image_eqI list.set_map)
  have "distinct ?ready" using ok by (simp add: dict_ok_def distinct_map_filter)
  moreover have "set ?ready = {v \<in> ?V - {}. dget (inbound_of parents) v = Some 0}"
    using dict_mem_iff [OF ok] inV by (auto simp: image_iff)
  ultimately have inv: "kahn_inv ?E ?V {} (inbound_of parents) ?ready"
    using inbound_count [OF assms(1)] by (simp add: kahn_inv_def acyclic_def)
  have succ: "distinct (succs (children_of parents) c) \<and> set (succs (children_of parents) c) = {p. (c, p) \<in> ?E}"
    if c: "c \<in> ?V" for c
  proof -
    obtain ps where "dget parents c = Some ps" using c dict_mem_iff [OF assms(1)] by auto
    moreover from this have "distinct ps" using assms(2) map_of_SomeD by fastforce
    ultimately show ?thesis
      unfolding succs_children [OF assms(1)] using c by (auto simp: parent_edges_def succs_def)
  qed
  obtain C inbound' where C: "kahn_inv ?E ?V C inbound' []"
      "consume (children_of parents) (inbound_of parents) ?ready 0 = card C"
    using consume_spec [OF inv _ succ E, of 0] by auto
  have "C \<subseteq> ?V" using C(1) by (simp add: kahn_inv_def)
  then have "card C = card ?V \<longleftrightarrow> C = ?V" by (metis card_subset_eq finite_set finite_imageI)
  moreover have "length (inbound_of parents) = card ?V"
    using assms(1) unfolding inbound_of_def dict_ok_def length_map by (metis distinct_card length_map list.set_map)
  ultimately show ?thesis
    using leftover_cycle [OF C(1) _ E] C(2) by (auto simp: parent_graph_has_cycle_def)
qed

end
