(* ===== verification/Multihub_Fold.thy ===== *)
theory Multihub_Fold
  imports Multihub_Merge Kahn
begin

text \<open>
  The observed view of a merged multi-hub log (\<open>core/multihub_fold.py\<close>, with the causal parent
  references of \<open>core/task_causality.py\<close>): the board of task heads, the progress stream and the
  claims other hubs report.  Python's \<open>str\<close> of a float or a container in a task id is outside
  the model and is the error \<open>UnmodelledText\<close>.
\<close>

section \<open>Causal parents\<close>

record causal_parent =
  cp_hub :: string
  cp_seq :: int
  cp_fingerprint :: string

definition TASK_CAUSAL_PARENT_FIELD :: string where "TASK_CAUSAL_PARENT_FIELD = ''_causal_parent''"
definition MAX_CAUSAL_HUB_ID_BYTES :: nat where "MAX_CAUSAL_HUB_ID_BYTES = 512"
definition MAX_CAUSAL_EVENT_SEQ :: int where "MAX_CAUSAL_EVENT_SEQ = 2 ^ 63 - 1"

text \<open>The checked constructor.\<close>

definition make_causal_parent :: "string \<Rightarrow> int \<Rightarrow> string \<Rightarrow> causal_parent option" where
  "make_causal_parent hub q fp =
     (let h = py_strip hub in
      if h = [] \<or> MAX_CAUSAL_HUB_ID_BYTES < length (utf8 h) then None
      else if q < 1 \<or> MAX_CAUSAL_EVENT_SEQ < q then None
      else if \<not> valid_fingerprint (JString fp) then None
      else Some \<lparr>cp_hub = h, cp_seq = q, cp_fingerprint = fp\<rparr>)"

definition causal_parent_from_value :: "json \<Rightarrow> causal_parent option" where
  "causal_parent_from_value v =
     (case v of
        JObject d \<Rightarrow>
          (if fst ` set d \<noteq> {''hub_id'', ''seq'', ''event_fingerprint''} then None
           else (case (get_field d ''hub_id'', get_field d ''seq'', get_field d ''event_fingerprint'') of
                   (JString hub, JInt q, JString fp) \<Rightarrow> make_causal_parent hub q fp
                 | _ \<Rightarrow> None))
      | _ \<Rightarrow> None)"

text \<open>\<open>Some None\<close> is an absent assertion, \<open>None\<close> the refusal of malformed metadata.\<close>

definition parse_task_causal_parent :: "json \<Rightarrow> causal_parent option option" where
  "parse_task_causal_parent v =
     (if v = JNull \<or> v = JString [] then Some None
      else map_option Some (causal_parent_from_value v))"

definition parent_identity :: "causal_parent \<Rightarrow> event_identity" where
  "parent_identity p = (cp_hub p, cp_seq p)"

definition causal_parent_to_dict :: "causal_parent \<Rightarrow> json_object" where
  "causal_parent_to_dict p =
     [(''hub_id'', JString (cp_hub p)), (''seq'', JInt (cp_seq p)),
      (''event_fingerprint'', JString (cp_fingerprint p))]"

definition task_event_payload :: "json_object \<Rightarrow> causal_parent option \<Rightarrow> json_object" where
  "task_event_payload task parent =
     (case parent of
        None \<Rightarrow> task
      | Some p \<Rightarrow> dset TASK_CAUSAL_PARENT_FIELD (JObject (causal_parent_to_dict p)) task)"

definition task_record_payload :: "json_object \<Rightarrow> json_object" where
  "task_record_payload payload = filter (\<lambda>(k, _). k \<noteq> TASK_CAUSAL_PARENT_FIELD) payload"

section \<open>The observed state\<close>

datatype parent_status =
  NoParent | Unverified | InvalidParent | MissingParent | WrongTask | FingerprintMismatch | SelfParent
  | VerifiedParent | CycleRejected

record contender =
  ct_hub :: string
  ct_seq :: int
  ct_ts :: pyfloat
  ct_record_fp :: string
  ct_event_fp :: string
  ct_parent :: "causal_parent option"
  ct_status :: parent_status

record board_provenance =
  bp_task :: string
  bp_hub :: string
  bp_seq :: int
  bp_ts :: pyfloat
  bp_event_fp :: string
  bp_causal :: bool
  bp_parent :: "causal_parent option"
  bp_status :: parent_status

record observed_claim =
  oc_task :: string
  oc_hub :: string
  oc_claim :: json_object

record observed_state =
  os_board :: "(string, json_object) pydict"
  os_provenance :: "(string, board_provenance) pydict"
  os_progress :: "json_object list"
  os_claims :: "(string, observed_claim) pydict"
  os_conflicts :: "(string, contender list) pydict"

text \<open>The selection of a winner is causal or by display order.\<close>

definition claim_kinds :: "string list" where
  "claim_kinds = [''claim'', ''task_update'']"

datatype fold_error = Integrity integrity_error | UnmodelledText

definition lift_integrity :: "integrity_error + 'a \<Rightarrow> fold_error + 'a" where
  "lift_integrity m = (case m of Inl e \<Rightarrow> Inl (Integrity e) | Inr v \<Rightarrow> Inr v)"

definition task_id_of :: "hub_event \<Rightarrow> fold_error + string" where
  "task_id_of ev =
     (case py_str (get_or (he_payload ev) ''task_id'' (JString [])) of
        Inl _ \<Rightarrow> Inl UnmodelledText
      | Inr s \<Rightarrow> Inr (py_strip s))"

definition record_event :: "json_object \<Rightarrow> hub_event" where
  "record_event payload =
     \<lparr>he_hub = ''synapse-board-record'', he_seq = 1, he_ts = Finite 0, he_kind = ''ledger_task'',
      he_payload = task_record_payload payload\<rparr>"

definition declared_parent :: "hub_event \<Rightarrow> causal_parent option \<times> parent_status" where
  "declared_parent ev =
     (case dget (he_payload ev) TASK_CAUSAL_PARENT_FIELD of
        None \<Rightarrow> (None, NoParent)
      | Some v \<Rightarrow>
          (case parse_task_causal_parent v of
             None \<Rightarrow> (None, InvalidParent)
           | Some p \<Rightarrow> (p, Unverified)))"

definition board_contender :: "(time \<Rightarrow> bytes) \<Rightarrow> hub_event \<Rightarrow> fold_error + contender" where
  "board_contender pk ev =
     sum_bind (lift_integrity (event_fingerprint pk (record_event (he_payload ev)))) (\<lambda>record_fp.
     sum_bind (lift_integrity (event_fingerprint pk ev)) (\<lambda>event_fp.
       Inr \<lparr>ct_hub = he_hub ev, ct_seq = he_seq ev, ct_ts = he_ts ev, ct_record_fp = record_fp,
            ct_event_fp = event_fp, ct_parent = fst (declared_parent ev), ct_status = snd (declared_parent ev)\<rparr>))"

section \<open>Heads\<close>

definition hubs_of :: "hub_event list \<Rightarrow> string list" where
  "hubs_of evs = remdups (map he_hub evs)"

text \<open>The consecutive pairs of one hub's events in sequence order: (previous, current).\<close>

definition hub_links :: "hub_event list \<Rightarrow> (event_identity \<times> event_identity) list" where
  "hub_links evs =
     concat (map (\<lambda>hub.
       let ordered = map identity (sort_key he_seq (filter (\<lambda>e. he_hub e = hub) evs))
       in zip ordered (tl ordered)) (hubs_of evs))"

text \<open>Sets of identities are lists without repetition.\<close>

definition add_parent :: "event_identity \<Rightarrow> event_identity \<Rightarrow> event_identity parents \<Rightarrow> event_identity parents" where
  "add_parent child parent parents = dset child (List.insert parent (succs parents child)) parents"

definition local_parents :: "hub_event list \<Rightarrow> event_identity parents" where
  "local_parents evs =
     fold (\<lambda>(prev, cur). add_parent cur prev) (hub_links evs) (map (\<lambda>e. (identity e, [])) evs)"

text \<open>What verifying one declared parent finds.\<close>

definition verify_parent ::
  "(time \<Rightarrow> bytes) \<Rightarrow> bound_events \<Rightarrow> hub_event \<Rightarrow> causal_parent \<Rightarrow> fold_error + parent_status" where
  "verify_parent pk all_events ev p =
     (case dget all_events (parent_identity p) of
        None \<Rightarrow> Inr MissingParent
      | Some target \<Rightarrow>
          sum_bind (task_id_of target) (\<lambda>theirs.
          sum_bind (task_id_of ev) (\<lambda>ours.
            if theirs \<noteq> ours then Inr WrongTask
            else sum_bind (lift_integrity (event_fingerprint pk target)) (\<lambda>fp.
              if fp \<noteq> cp_fingerprint p then Inr FingerprintMismatch
              else if identity target = identity ev then Inr SelfParent
              else Inr VerifiedParent))))"

text \<open>The state of the loop over the events: the contenders and the parent references so far.\<close>

type_synonym head_state = "(event_identity, contender) pydict \<times> event_identity parents"

definition verify_event ::
  "(time \<Rightarrow> bytes) \<Rightarrow> bound_events \<Rightarrow> hub_event \<Rightarrow> head_state \<Rightarrow> fold_error + head_state" where
  "verify_event pk all_events ev st =
     (let (contenders, parents) = st in
      case dget contenders (identity ev) of
        None \<Rightarrow> Inr st
      | Some c \<Rightarrow>
          (case ct_parent c of
             None \<Rightarrow> Inr st
           | Some p \<Rightarrow>
               sum_bind (verify_parent pk all_events ev p) (\<lambda>status.
                 Inr (dset (identity ev) (c\<lparr>ct_status := status\<rparr>) contenders,
                      if status = VerifiedParent then add_parent (identity ev) (parent_identity p) parents
                      else parents))))"

fun verify_events ::
  "(time \<Rightarrow> bytes) \<Rightarrow> bound_events \<Rightarrow> hub_event list \<Rightarrow> head_state \<Rightarrow> fold_error + head_state" where
  "verify_events pk all_events [] st = Inr st"
| "verify_events pk all_events (ev # evs) st =
     sum_bind (verify_event pk all_events ev st) (verify_events pk all_events evs)"

text \<open>A verified reference that would close a cycle is dropped with all the others.\<close>

definition reject_cycles :: "hub_event list \<Rightarrow> head_state \<Rightarrow> head_state" where
  "reject_cycles evs st =
     (let (contenders, parents) = st in
      if parent_graph_has_cycle parents
      then (map (\<lambda>(i, c). (i, if ct_status c = VerifiedParent then c\<lparr>ct_status := CycleRejected\<rparr> else c)) contenders,
            local_parents evs)
      else st)"

definition initial_contenders ::
  "(time \<Rightarrow> bytes) \<Rightarrow> hub_event list \<Rightarrow> fold_error + (event_identity, contender) pydict" where
  "initial_contenders pk evs =
     sum_bind (sum_all (map (board_contender pk) evs)) (\<lambda>cs. Inr (zip (map identity evs) cs))"

definition verified_task_heads ::
  "(time \<Rightarrow> bytes) \<Rightarrow> hub_event list \<Rightarrow> bound_events
   \<Rightarrow> fold_error + (hub_event list \<times> (event_identity, contender) pydict)" where
  "verified_task_heads pk evs all_events =
     sum_bind (initial_contenders pk evs) (\<lambda>contenders.
     sum_bind (verify_events pk all_events evs (contenders, local_parents evs)) (\<lambda>st.
       let (contenders', parents) = reject_cycles evs st;
           referenced = concat (map snd parents)
       in Inr (filter (\<lambda>e. identity e \<notin> set referenced) evs, contenders')))"

section \<open>The fold\<close>

record fold_state =
  fs_board_events :: "(string, hub_event list) pydict"
  fs_task_events :: bound_events
  fs_progress :: "json_object list"
  fs_claims :: "(string, observed_claim) pydict"

definition fold_event :: "(time \<Rightarrow> bytes) \<Rightarrow> hub_event \<Rightarrow> fold_state \<Rightarrow> fold_error + fold_state" where
  "fold_event pk ev fs =
     (if he_kind ev = ''ledger_task'' then
        sum_bind (task_id_of ev) (\<lambda>task.
          if task = [] then Inr fs
          else sum_bind (lift_integrity (remember_content_bound_event pk (fs_task_events fs) ev)) (\<lambda>seen.
            Inr (if length seen \<noteq> length (fs_task_events fs)
                 then fs\<lparr>fs_task_events := seen,
                         fs_board_events := dset task
                           ((case dget (fs_board_events fs) task of None \<Rightarrow> [] | Some evs \<Rightarrow> evs) @ [ev])
                           (fs_board_events fs)\<rparr>
                 else fs\<lparr>fs_task_events := seen\<rparr>)))
      else if he_kind ev = ''ledger_progress'' then Inr (fs\<lparr>fs_progress := fs_progress fs @ [he_payload ev]\<rparr>)
      else if he_kind ev \<in> set claim_kinds then
        sum_bind (task_id_of ev) (\<lambda>task.
          Inr (if task = [] then fs
               else fs\<lparr>fs_claims := dset task \<lparr>oc_task = task, oc_hub = he_hub ev, oc_claim = he_payload ev\<rparr>
                                       (fs_claims fs)\<rparr>))
      else if he_kind ev = ''release'' then
        sum_bind (task_id_of ev) (\<lambda>task. Inr (fs\<lparr>fs_claims := ddel task (fs_claims fs)\<rparr>))
      else Inr fs)"

fun fold_events :: "(time \<Rightarrow> bytes) \<Rightarrow> hub_event list \<Rightarrow> fold_state \<Rightarrow> fold_error + fold_state" where
  "fold_events pk [] fs = Inr fs"
| "fold_events pk (ev # evs) fs = sum_bind (fold_event pk ev fs) (fold_events pk evs)"

text \<open>\<open>max(heads, key=order_key)\<close>: the first of the greatest.\<close>

fun latest_of :: "hub_event \<Rightarrow> hub_event list \<Rightarrow> hub_event" where
  "latest_of best [] = best"
| "latest_of best (e # es) = latest_of (if order_key best < order_key e then e else best) es"

text \<open>The heads of a task, its winner and whether the winner was chosen causally.\<close>

record task_view =
  tv_heads :: "hub_event list"
  tv_winner :: hub_event
  tv_contenders :: "(event_identity, contender) pydict"

definition display_heads :: "hub_event list \<Rightarrow> hub_event list \<Rightarrow> hub_event list" where
  "display_heads evs heads = (if heads = [] then evs else heads)"

definition view_task :: "(time \<Rightarrow> bytes) \<Rightarrow> bound_events \<Rightarrow> hub_event list \<Rightarrow> fold_error + task_view" where
  "view_task pk all_events evs =
     sum_bind (verified_task_heads pk evs all_events) (\<lambda>(heads, contenders).
       let shown = display_heads evs heads
       in Inr \<lparr>tv_heads = shown, tv_winner = latest_of (hd shown) (tl shown), tv_contenders = contenders\<rparr>)"

definition causal_selection :: "hub_event list \<Rightarrow> task_view \<Rightarrow> bool" where
  "causal_selection evs v \<longleftrightarrow> length (tv_heads v) = 1
     \<and> (\<exists>e \<in> set evs. he_hub e \<noteq> he_hub (tv_winner v) \<and> identity e \<notin> identity ` set (tv_heads v))"

definition head_contenders :: "task_view \<Rightarrow> contender list" where
  "head_contenders v = map (\<lambda>e. the (dget (tv_contenders v) (identity e))) (tv_heads v)"

definition view_provenance :: "string \<Rightarrow> hub_event list \<Rightarrow> task_view \<Rightarrow> board_provenance" where
  "view_provenance task evs v =
     (let w = tv_winner v; c = the (dget (tv_contenders v) (identity w)) in
      \<lparr>bp_task = task, bp_hub = he_hub w, bp_seq = he_seq w, bp_ts = he_ts w, bp_event_fp = ct_event_fp c,
       bp_causal = causal_selection evs v, bp_parent = ct_parent c, bp_status = ct_status c\<rparr>)"

text \<open>Heads whose records differ are an unresolved conflict.\<close>

definition board_conflicts :: "(string, contender list) pydict \<Rightarrow> (string, contender list) pydict" where
  "board_conflicts heads =
     filter (\<lambda>(_, cs). 1 < length cs \<and> 1 < length (remdups (map ct_record_fp cs)))
       (map (\<lambda>(task, cs). (task, sort_key (\<lambda>c. (ct_hub c, ct_seq c)) cs)) heads)"

fun view_tasks ::
  "(time \<Rightarrow> bytes) \<Rightarrow> bound_events \<Rightarrow> (string, hub_event list) pydict
   \<Rightarrow> fold_error + (string \<times> hub_event list \<times> task_view) list" where
  "view_tasks pk all_events [] = Inr []"
| "view_tasks pk all_events ((task, evs) # rest) =
     sum_bind (view_task pk all_events evs) (\<lambda>v.
     sum_bind (view_tasks pk all_events rest) (\<lambda>vs. Inr ((task, evs, v) # vs)))"

definition fold_observed_state :: "(time \<Rightarrow> bytes) \<Rightarrow> hub_event list \<Rightarrow> fold_error + observed_state" where
  "fold_observed_state pk evs =
     sum_bind (fold_events pk evs \<lparr>fs_board_events = [], fs_task_events = [], fs_progress = [], fs_claims = []\<rparr>) (\<lambda>fs.
     sum_bind (view_tasks pk (fs_task_events fs) (fs_board_events fs)) (\<lambda>views.
       Inr \<lparr>os_board = map (\<lambda>(task, evs, v). (task, task_record_payload (he_payload (tv_winner v)))) views,
            os_provenance = map (\<lambda>(task, evs, v). (task, view_provenance task evs v)) views,
            os_progress = fs_progress fs,
            os_claims = fs_claims fs,
            os_conflicts = board_conflicts (map (\<lambda>(task, evs, v). (task, head_contenders v)) views)\<rparr>))"

end
