(* ===== verification/Multihub_Heads.thy ===== *)
theory Multihub_Heads
  imports Multihub_Fold
begin

text \<open>
  The observed board shows causal heads: the references that the fold keeps are acyclic, an event
  is a head exactly when no known event of the task descends from it, every task has a head
  (the fallback of the fold is never taken), and the winner is the head with the greatest order key.
\<close>

section \<open>Ancestry\<close>

text \<open>\<open>(a, b)\<close>: event \<open>a\<close> is a later event of the same hub than \<open>b\<close>, or names \<open>b\<close> as its verified parent.\<close>

definition causal_edges ::
  "hub_event list \<Rightarrow> (event_identity, contender) pydict \<Rightarrow> (event_identity \<times> event_identity) set" where
  "causal_edges evs cs =
     {(identity a, identity b) | a b. a \<in> set evs \<and> b \<in> set evs \<and>
       ((he_hub a = he_hub b \<and> he_seq b < he_seq a)
        \<or> (\<exists>c p. dget cs (identity a) = Some c \<and> ct_status c = VerifiedParent
              \<and> ct_parent c = Some p \<and> parent_identity p = identity b))}"

definition undominated :: "hub_event list \<Rightarrow> (event_identity, contender) pydict \<Rightarrow> hub_event \<Rightarrow> bool" where
  "undominated evs cs e \<longleftrightarrow> (\<forall>a \<in> set evs. (identity a, identity e) \<notin> causal_edges evs cs)"

section \<open>The links of a hub\<close>

lemma zip_tl_iff: "(a, b) \<in> set (zip xs (tl xs)) \<longleftrightarrow> (\<exists>i. Suc i < length xs \<and> a = xs ! i \<and> b = xs ! Suc i)"
proof
  assume "(a, b) \<in> set (zip xs (tl xs))"
  then obtain i where "i < length (tl xs)" "a = xs ! i" "b = tl xs ! i" by (auto simp: set_zip)
  then show "\<exists>i. Suc i < length xs \<and> a = xs ! i \<and> b = xs ! Suc i"
    by (intro exI [of _ i]) (auto simp: nth_tl)
next
  assume "\<exists>i. Suc i < length xs \<and> a = xs ! i \<and> b = xs ! Suc i"
  then obtain i where i: "Suc i < length xs" "a = xs ! i" "b = xs ! Suc i" by blast
  then have "i < length (zip xs (tl xs))" "zip xs (tl xs) ! i = (a, b)" by (auto simp: nth_tl)
  then show "(a, b) \<in> set (zip xs (tl xs))" by (metis nth_mem)
qed

lemma chain_star: "i < j \<Longrightarrow> j < length xs \<Longrightarrow> (xs ! j, xs ! i) \<in> {(b, a). (a, b) \<in> set (zip xs (tl xs))}\<^sup>+"
proof (induction j)
  case (Suc j)
  have step: "(xs ! Suc j, xs ! j) \<in> {(b, a). (a, b) \<in> set (zip xs (tl xs))}"
    using Suc.prems(2) zip_tl_iff by fastforce
  show ?case
  proof (cases "i = j")
    case True
    then show ?thesis using step by auto
  next
    case False
    then have "(xs ! j, xs ! i) \<in> {(b, a). (a, b) \<in> set (zip xs (tl xs))}\<^sup>+" using Suc by simp
    then show ?thesis using step by (rule trancl_into_trancl2 [rotated])
  qed
qed simp

definition link_edges :: "hub_event list \<Rightarrow> (event_identity \<times> event_identity) set" where
  "link_edges evs = {(c, p). (p, c) \<in> set (hub_links evs)}"

lemma link_edges_sound:
  assumes "(c, p) \<in> link_edges evs" and "distinct (map identity evs)"
  shows "\<exists>a \<in> set evs. \<exists>b \<in> set evs. c = identity a \<and> p = identity b \<and> he_hub a = he_hub b \<and> he_seq b < he_seq a"
proof -
  from assms(1) obtain hub where h: "(p, c) \<in> set (let ordered = map identity (sort_key he_seq (filter (\<lambda>e. he_hub e = hub) evs))
       in zip ordered (tl ordered))"
    by (auto simp: link_edges_def hub_links_def)
  define L where "L = sort_key he_seq (filter (\<lambda>e. he_hub e = hub) evs)"
  from h obtain i where i: "Suc i < length L" "p = identity (L ! i)" "c = identity (L ! Suc i)"
    unfolding Let_def L_def [symmetric] zip_tl_iff by auto
  have mem: "L ! i \<in> set L" "L ! Suc i \<in> set L" using i(1) by simp_all
  then have ev: "L ! i \<in> set evs" "L ! Suc i \<in> set evs" "he_hub (L ! i) = hub" "he_hub (L ! Suc i) = hub"
    by (auto simp: L_def)
  have "sorted (map he_seq L)" by (simp add: L_def)
  then have le: "he_seq (L ! i) \<le> he_seq (L ! Suc i)" using i(1) by (auto simp: sorted_iff_nth_mono)
  have "distinct evs" using assms(2) by (simp add: distinct_map)
  then have "distinct L" by (simp add: L_def)
  then have "L ! i \<noteq> L ! Suc i" using i(1) by (simp add: nth_eq_iff_index_eq)
  then have "identity (L ! i) \<noteq> identity (L ! Suc i)" using assms(2) ev by (metis distinct_map inj_on_def)
  then have "he_seq (L ! i) < he_seq (L ! Suc i)" using le ev by (simp add: identity_def)
  then show ?thesis using i ev by metis
qed

lemma link_edges_complete:
  assumes "a \<in> set evs" and "b \<in> set evs" and "he_hub a = he_hub b" and "he_seq b < he_seq a"
  shows "(identity a, identity b) \<in> (link_edges evs)\<^sup>+"
proof -
  define L where "L = sort_key he_seq (filter (\<lambda>e. he_hub e = he_hub a) evs)"
  have "a \<in> set L" "b \<in> set L" using assms by (simp_all add: L_def)
  then obtain i j where ij: "i < length L" "L ! i = b" "j < length L" "L ! j = a" by (metis in_set_conv_nth)
  have "sorted (map he_seq L)" by (simp add: L_def)
  then have "i < j" using ij assms(4) by (metis leI length_map not_less nth_map sorted_iff_nth_mono)
  let ?M = "map identity L"
  have "(?M ! j, ?M ! i) \<in> {(b, a). (a, b) \<in> set (zip ?M (tl ?M))}\<^sup>+"
    by (rule chain_star) (use \<open>i < j\<close> ij in auto)
  moreover have "{(b, a). (a, b) \<in> set (zip ?M (tl ?M))} \<subseteq> link_edges evs"
    using assms(1) by (force simp: link_edges_def hub_links_def hubs_of_def L_def Let_def)
  ultimately have "(?M ! j, ?M ! i) \<in> (link_edges evs)\<^sup>+" using trancl_mono by blast
  then show ?thesis using ij by simp
qed

section \<open>The parent references\<close>

definition parents_ok :: "event_identity set \<Rightarrow> event_identity parents \<Rightarrow> bool" where
  "parents_ok V parents \<longleftrightarrow> dict_ok parents \<and> fst ` set parents = V \<and> (\<forall>ps \<in> set (map snd parents). distinct ps)"

lemma succs_dset: "succs (dset k v d) x = (if x = k then v else succs d x)"
  by (simp add: succs_def)

lemma succs_add_parent: "set (succs (add_parent c p d) x) = set (succs d x) \<union> (if x = c then {p} else {})"
  unfolding add_parent_def succs_dset by simp

lemma values_dset: "set (map snd (dset k v d)) \<subseteq> insert v (set (map snd d))"
  by (induction d) auto

lemma add_parent_ok:
  assumes "parents_ok V d" and "c \<in> V"
  shows "parents_ok V (add_parent c p d)"
proof -
  have "distinct (succs d c)"
    using assms by (auto simp: parents_ok_def succs_def split: option.split dest!: map_of_SomeD)
  then have "distinct (List.insert p (succs d c))" by simp
  then have "\<forall>ps \<in> set (map snd (add_parent c p d)). distinct ps"
    using values_dset [of c "List.insert p (succs d c)" d] assms(1)
    unfolding add_parent_def parents_ok_def by blast
  moreover have "fst ` set (add_parent c p d) = V"
    using assms unfolding add_parent_def parents_ok_def dom_update by blast
  moreover have "dict_ok (add_parent c p d)"
    using assms(1) unfolding add_parent_def parents_ok_def by blast
  ultimately show ?thesis unfolding parents_ok_def by blast
qed

lemma local_parents_fold:
  assumes "parents_ok V d" and "\<And>p c. (p, c) \<in> set ls \<Longrightarrow> c \<in> V"
  shows "parents_ok V (fold (\<lambda>(prev, cur). add_parent cur prev) ls d)
    \<and> (\<forall>x. set (succs (fold (\<lambda>(prev, cur). add_parent cur prev) ls d) x) = set (succs d x) \<union> {p. (p, x) \<in> set ls})"
  using assms
proof (induction ls arbitrary: d)
  case (Cons l ls)
  obtain p c where l: "l = (p, c)" by (cases l)
  have "parents_ok V (add_parent c p d)" using Cons.prems(1) Cons.prems(2) [of p c] by (simp add: add_parent_ok l)
  note IH = Cons.IH [OF this]
  have rest: "c' \<in> V" if "(p', c') \<in> set ls" for p' c' using Cons.prems(2) [of p' c'] that by simp
  have join: "set (succs d x) \<union> (if x = c then {p} else {}) \<union> {q. (q, x) \<in> set ls}
      = set (succs d x) \<union> {q. (q, x) \<in> set (l # ls)}" for x
    by (cases "x = c") (auto simp: l)
  show ?case
    using IH rest unfolding succs_add_parent join by (simp add: l)
qed simp

lemma local_parents_spec:
  assumes "distinct (map identity evs)"
  shows "parents_ok (identity ` set evs) (local_parents evs)
    \<and> (\<forall>x. set (succs (local_parents evs) x) = {p. (x, p) \<in> link_edges evs})"
proof -
  let ?d = "map (\<lambda>e. (identity e, [])) evs :: event_identity parents"
  have "map fst ?d = map identity evs" by (simp add: comp_def)
  then have "parents_ok (identity ` set evs) ?d"
    using assms by (auto simp: parents_ok_def dict_ok_def image_iff comp_def)
  moreover have "c \<in> identity ` set evs" if "(p, c) \<in> set (hub_links evs)" for p c
    using link_edges_sound [OF _ assms, of c p] that by (auto simp: link_edges_def)
  moreover have "succs ?d x = []" for x
    by (auto simp: succs_def split: option.split dest!: map_of_SomeD)
  ultimately show ?thesis
    using local_parents_fold [of "identity ` set evs" ?d "hub_links evs"]
    by (simp add: local_parents_def link_edges_def)
qed

section \<open>The verification loop\<close>

definition verdict_parents :: "contender \<Rightarrow> event_identity set" where
  "verdict_parents c =
     (if ct_status c = VerifiedParent then (case ct_parent c of None \<Rightarrow> {} | Some p \<Rightarrow> {parent_identity p}) else {})"

definition heads_inv :: "hub_event list \<Rightarrow> hub_event list \<Rightarrow> head_state \<Rightarrow> bool" where
  "heads_inv evs todo st \<longleftrightarrow>
     (let (contenders, parents) = st in
      parents_ok (identity ` set evs) parents
      \<and> (\<forall>i. (\<exists>c. dget contenders i = Some c) \<longleftrightarrow> i \<in> identity ` set evs)
      \<and> (\<forall>i c. dget contenders i = Some c \<longrightarrow>
           set (succs parents i) = {p. (i, p) \<in> link_edges evs} \<union> verdict_parents c)
      \<and> (\<forall>e \<in> set todo. \<forall>c. dget contenders (identity e) = Some c \<longrightarrow> ct_status c \<noteq> VerifiedParent))"

lemma heads_invD:
  assumes "heads_inv evs todo (cs, ps)"
  shows "parents_ok (identity ` set evs) ps"
    and "(\<exists>c. dget cs i = Some c) \<longleftrightarrow> i \<in> identity ` set evs"
    and "dget cs i = Some c \<Longrightarrow> set (succs ps i) = {p. (i, p) \<in> link_edges evs} \<union> verdict_parents c"
    and "e \<in> set todo \<Longrightarrow> dget cs (identity e) = Some c \<Longrightarrow> ct_status c \<noteq> VerifiedParent"
  using assms unfolding heads_inv_def Let_def prod.case by blast+

lemma heads_invI:
  assumes "parents_ok (identity ` set evs) ps"
    and "\<And>i. (\<exists>c. dget cs i = Some c) \<longleftrightarrow> i \<in> identity ` set evs"
    and "\<And>i c. dget cs i = Some c \<Longrightarrow> set (succs ps i) = {p. (i, p) \<in> link_edges evs} \<union> verdict_parents c"
    and "\<And>e c. e \<in> set todo \<Longrightarrow> dget cs (identity e) = Some c \<Longrightarrow> ct_status c \<noteq> VerifiedParent"
  shows "heads_inv evs todo (cs, ps)"
  using assms unfolding heads_inv_def Let_def prod.case by blast

lemma heads_inv_step:
  assumes inv: "heads_inv evs (ev # todo) (cs, ps)" and dist: "distinct (map identity (ev # todo))" and ev: "ev \<in> set evs"
    and run: "verify_event pk all_events ev (cs, ps) = Inr (cs', ps')"
  shows "heads_inv evs todo (cs', ps')"
proof -
  note I = heads_invD [OF inv]
  obtain c where c: "dget cs (identity ev) = Some c" using I(2) ev by blast
  show ?thesis
  proof (cases "ct_parent c")
    case None
    then have "cs' = cs" "ps' = ps" using run c by (simp_all add: verify_event_def)
    moreover have "ct_status c' \<noteq> VerifiedParent" if "e \<in> set todo" "dget cs (identity e) = Some c'" for e c'
      using I(4) [of e c'] that by simp
    ultimately show ?thesis using heads_invI [OF I(1) I(2) I(3)] by blast
  next
    case (Some p)
    then obtain status where st: "cs' = dset (identity ev) (c\<lparr>ct_status := status\<rparr>) cs"
      "ps' = (if status = VerifiedParent then add_parent (identity ev) (parent_identity p) ps else ps)"
      using run c by (auto simp: verify_event_def sum_bind_Inr)
    have fresh: "ct_status c \<noteq> VerifiedParent" using I(4) [of ev c] c by simp
    show ?thesis
    proof (rule heads_invI)
      show "parents_ok (identity ` set evs) ps'"
        unfolding st(2) using I(1) add_parent_ok [OF I(1), of "identity ev"] ev by simp
      show "(\<exists>c. dget cs' i = Some c) \<longleftrightarrow> i \<in> identity ` set evs" for i
        unfolding st(1) dget_dset using I(2) [of i] ev by (cases "i = identity ev") auto
      show "set (succs ps' i) = {p. (i, p) \<in> link_edges evs} \<union> verdict_parents c'"
        if "dget cs' i = Some c'" for i c'
      proof (cases "i = identity ev")
        case True
        then have c': "c' = c\<lparr>ct_status := status\<rparr>" using that st(1) by simp
        have "set (succs ps i) = {p. (i, p) \<in> link_edges evs}"
          using I(3) [of i c] c True fresh by (simp add: verdict_parents_def)
        then show ?thesis
          unfolding st(2) by (auto simp: succs_add_parent c' verdict_parents_def Some True)
      next
        case False
        then have "dget cs i = Some c'" using that st(1) by simp
        then show ?thesis using I(3) [of i c'] False by (simp add: st(2) succs_add_parent)
      qed
      show "ct_status c' \<noteq> VerifiedParent" if "e \<in> set todo" "dget cs' (identity e) = Some c'" for e c'
      proof -
        have "identity e \<noteq> identity ev" using dist that(1) by (metis distinct.simps(2) image_eqI list.set_map list.simps(9))
        then show ?thesis using I(4) [of e c'] that st(1) by simp
      qed
    qed
  qed
qed

lemma heads_inv_loop:
  assumes "heads_inv evs todo st" and "distinct (map identity todo)" and "set todo \<subseteq> set evs"
    and "verify_events pk all_events todo st = Inr st'"
  shows "heads_inv evs [] st'"
  using assms
proof (induction todo arbitrary: st)
  case (Cons ev todo)
  obtain st1 where st1: "verify_event pk all_events ev st = Inr st1" "verify_events pk all_events todo st1 = Inr st'"
    using Cons.prems(4) by (auto simp: sum_bind_Inr)
  have "heads_inv evs todo st1"
    using heads_inv_step [of evs ev todo "fst st" "snd st" pk all_events "fst st1" "snd st1"] Cons.prems st1(1) by simp
  then show ?case using Cons.IH [OF _ _ _ st1(2)] Cons.prems by simp
qed simp

lemma heads_inv_initial:
  assumes "distinct (map identity evs)" and "initial_contenders pk evs = Inr cs"
  shows "heads_inv evs evs (cs, local_parents evs)"
proof -
  note L = local_parents_spec [OF assms(1)]
  from assms(2) obtain ds where ds: "map (board_contender pk) evs = map Inr ds" and cs: "cs = zip (map identity evs) ds"
    by (auto simp: initial_contenders_def sum_bind_Inr sum_all_Inr)
  have len: "length ds = length evs" using ds by (metis length_map)
  have get: "(\<exists>c. dget cs i = Some c) \<longleftrightarrow> i \<in> identity ` set evs" for i
    using len by (metis cs length_map list.set_map map_of_zip_is_Some)
  have fresh: "ct_status c \<noteq> VerifiedParent" if "dget cs i = Some c" for i c
  proof -
    have "c \<in> set ds" using map_of_SomeD [OF that] by (auto simp: cs dest: set_zip_rightD)
    then have "Inr c \<in> set (map (board_contender pk) evs)" unfolding ds by simp
    then obtain e where "board_contender pk e = Inr c" by auto
    then have "ct_status c = snd (declared_parent e)" by (auto simp: board_contender_def sum_bind_Inr)
    then show ?thesis by (auto simp: declared_parent_def split: option.splits)
  qed
  show ?thesis
  proof (rule heads_invI [OF conjunct1 [OF L] get])
    show "set (succs (local_parents evs) i) = {p. (i, p) \<in> link_edges evs} \<union> verdict_parents c"
      if "dget cs i = Some c" for i c
      using conjunct2 [OF L, THEN spec, of i] fresh [OF that] by (simp add: verdict_parents_def)
  qed (use fresh in blast)
qed

lemma local_parents_acyclic:
  assumes "distinct (map identity evs)"
  shows "acyclic (parent_edges (local_parents evs))"
proof -
  have down: "snd p < snd c" if "(c, p) \<in> parent_edges (local_parents evs)" for c p
  proof -
    have "(c, p) \<in> link_edges evs"
      using that conjunct2 [OF local_parents_spec [OF assms], THEN spec, of c] by (simp add: parent_edges_def)
    from link_edges_sound [OF this assms] show ?thesis by (auto simp: identity_def)
  qed
  have "snd p < snd c" if "(c, p) \<in> (parent_edges (local_parents evs))\<^sup>+" for c p
    using that
  proof (induction rule: trancl_induct)
    case (base y)
    then show ?case by (rule down)
  next
    case (step y z)
    then show ?case using down [OF step(2)] by simp
  qed
  then show ?thesis unfolding acyclic_def by blast
qed

lemma heads_final:
  assumes "verified_task_heads pk evs all_events = Inr (heads, cs)" and dist: "distinct (map identity evs)"
  shows "\<exists>ps. heads_inv evs [] (cs, ps) \<and> acyclic (parent_edges ps)
    \<and> heads = filter (\<lambda>e. identity e \<notin> set (concat (map snd ps))) evs"
proof -
  from assms(1) obtain cs0 where init: "initial_contenders pk evs = Inr cs0"
    and "sum_bind (verify_events pk all_events evs (cs0, local_parents evs)) (\<lambda>st.
       let (contenders', parents) = reject_cycles evs st; referenced = concat (map snd parents)
       in Inr (filter (\<lambda>e. identity e \<notin> set referenced) evs, contenders')) = Inr (heads, cs)"
    unfolding verified_task_heads_def sum_bind_Inr by blast
  then obtain st where loop: "verify_events pk all_events evs (cs0, local_parents evs) = Inr st"
    and fin: "(let (contenders', parents) = reject_cycles evs st; referenced = concat (map snd parents)
       in Inr (filter (\<lambda>e. identity e \<notin> set referenced) evs, contenders')) = (Inr (heads, cs) :: fold_error + _)"
    unfolding sum_bind_Inr by blast
  obtain cs' ps where rej: "reject_cycles evs st = (cs', ps)" by fastforce
  have heads: "heads = filter (\<lambda>e. identity e \<notin> set (concat (map snd ps))) evs" and "cs' = cs"
    using fin by (simp_all add: rej)
  note rej = rej [unfolded \<open>cs' = cs\<close>]
  have inv: "heads_inv evs [] st" by (rule heads_inv_loop [OF heads_inv_initial [OF dist init] dist _ loop]) simp
  obtain cs1 ps1 where st: "st = (cs1, ps1)" by fastforce
  note I = heads_invD [OF inv [unfolded st]]
  have "heads_inv evs [] (cs, ps) \<and> acyclic (parent_edges ps)"
  proof (cases "parent_graph_has_cycle ps1")
    case True
    let ?f = "\<lambda>c. if ct_status c = VerifiedParent then c\<lparr>ct_status := CycleRejected\<rparr> else c"
    have new: "cs = map (\<lambda>(i, c). (i, ?f c)) cs1" "ps = local_parents evs"
      using rej True by (simp_all add: st reject_cycles_def)
    note L = local_parents_spec [OF dist]
    have "heads_inv evs [] (cs, ps)"
    proof (rule heads_invI)
      show "parents_ok (identity ` set evs) ps" using L new by simp
      show "(\<exists>c. dget cs i = Some c) \<longleftrightarrow> i \<in> identity ` set evs" for i
        using I(2) [of i] by (simp add: new dget_map_values)
      show "set (succs ps i) = {p. (i, p) \<in> link_edges evs} \<union> verdict_parents c" if "dget cs i = Some c" for i c
      proof -
        have "\<exists>c1. c = ?f c1" using that unfolding new dget_map_values map_option_eq_Some by metis
        then obtain c1 where "c = ?f c1" ..
        then have "ct_status c \<noteq> VerifiedParent" by (cases "ct_status c1 = VerifiedParent") simp_all
        then show ?thesis using conjunct2 [OF L, THEN spec, of i] by (simp add: new verdict_parents_def)
      qed
    qed simp
    then show ?thesis using local_parents_acyclic [OF dist] new by simp
  next
    case False
    then have "cs = cs1" "ps = ps1" using rej by (simp_all add: st reject_cycles_def)
    moreover have "acyclic (parent_edges ps1)"
      using has_cycle_exact [of ps1] False I(1) by (simp add: parents_ok_def)
    ultimately show ?thesis using inv st by simp
  qed
  then show ?thesis using heads by blast
qed

section \<open>Heads and winners\<close>

lemma referenced_iff:
  assumes "heads_inv evs [] (cs, ps)" and dist: "distinct (map identity evs)" and e: "e \<in> set evs"
  shows "identity e \<notin> set (concat (map snd ps)) \<longleftrightarrow> undominated evs cs e"
proof -
  note I = heads_invD [OF assms(1)]
  have keys: "fst ` set ps = identity ` set evs" and ok: "dict_ok ps" using I(1) by (simp_all add: parents_ok_def)
  have ref: "identity e \<in> set (concat (map snd ps)) \<longleftrightarrow> (\<exists>a \<in> set evs. identity e \<in> set (succs ps (identity a)))"
  proof
    assume "identity e \<in> set (concat (map snd ps))"
    then obtain i qs where iq: "(i, qs) \<in> set ps" "identity e \<in> set qs" by auto
    then obtain a where "a \<in> set evs" "i = identity a" using keys by (metis fst_conv imageE image_eqI)
    moreover have "succs ps i = qs" using iq(1) ok by (simp add: succs_def dict_mem_iff)
    ultimately show "\<exists>a \<in> set evs. identity e \<in> set (succs ps (identity a))" using iq(2) by metis
  next
    assume "\<exists>a \<in> set evs. identity e \<in> set (succs ps (identity a))"
    then obtain a where "identity e \<in> set (succs ps (identity a))" by blast
    then obtain qs where "dget ps (identity a) = Some qs" "identity e \<in> set qs"
      by (cases "dget ps (identity a)") (simp_all add: succs_def)
    moreover from this have "(identity a, qs) \<in> set ps" by - (rule map_of_SomeD)
    ultimately show "identity e \<in> set (concat (map snd ps))"
      unfolding set_concat list.set_map UN_iff image_image by (metis snd_conv)
  qed
  have edge: "(identity a, identity e) \<in> causal_edges evs cs"
    if a: "a \<in> set evs" and s: "identity e \<in> set (succs ps (identity a))" for a
  proof -
    obtain c where c: "dget cs (identity a) = Some c" using I(2) a by blast
    from s I(3) [OF c] consider "(identity a, identity e) \<in> link_edges evs" | "identity e \<in> verdict_parents c" by blast
    then show ?thesis
    proof cases
      case 1
      from link_edges_sound [OF 1 dist] show ?thesis unfolding causal_edges_def by blast
    next
      case 2
      then obtain p where "ct_status c = VerifiedParent" "ct_parent c = Some p" "parent_identity p = identity e"
        by (auto simp: verdict_parents_def split: if_splits option.splits)
      then show ?thesis using a e c unfolding causal_edges_def by blast
    qed
  qed
  have conv: "\<exists>b \<in> set evs. identity e \<in> set (succs ps (identity b))"
    if "(identity a, identity e) \<in> causal_edges evs cs" for a
  proof -
    from that obtain a' e' where ae: "identity a = identity a'" "identity e = identity e'" "a' \<in> set evs" "e' \<in> set evs"
      and why: "(he_hub a' = he_hub e' \<and> he_seq e' < he_seq a') \<or> (\<exists>c p. dget cs (identity a') = Some c
        \<and> ct_status c = VerifiedParent \<and> ct_parent c = Some p \<and> parent_identity p = identity e')"
      unfolding causal_edges_def by blast
    from why show ?thesis
    proof
      assume "he_hub a' = he_hub e' \<and> he_seq e' < he_seq a'"
      then have "(identity a', identity e') \<in> (link_edges evs)\<^sup>+" using link_edges_complete ae by blast
      then obtain x where x: "(x, identity e') \<in> link_edges evs" by (meson tranclE)
      from link_edges_sound [OF x dist] obtain b where b: "b \<in> set evs" "x = identity b" by blast
      obtain c where "dget cs (identity b) = Some c" using I(2) b by blast
      from I(3) [OF this] have "identity e \<in> set (succs ps (identity b))" using x b ae(2) by simp
      then show ?thesis using b by blast
    next
      assume "\<exists>c p. dget cs (identity a') = Some c \<and> ct_status c = VerifiedParent
        \<and> ct_parent c = Some p \<and> parent_identity p = identity e'"
      then obtain c p where "dget cs (identity a') = Some c" "ct_status c = VerifiedParent"
        "ct_parent c = Some p" "parent_identity p = identity e'" by blast
      then have "identity e \<in> set (succs ps (identity a'))"
        using I(3) [of "identity a'" c] ae(2) by (simp add: verdict_parents_def)
      then show ?thesis using ae(3) by blast
    qed
  qed
  show ?thesis unfolding undominated_def using ref edge conv by blast
qed

lemma causal_acyclic:
  assumes "heads_inv evs [] (cs, ps)" and dist: "distinct (map identity evs)" and "acyclic (parent_edges ps)"
  shows "acyclic (causal_edges evs cs)"
proof -
  note I = heads_invD [OF assms(1)]
  have keys: "fst ` set ps = identity ` set evs" using I(1) by (simp add: parents_ok_def)
  have sub: "(i, p) \<in> parent_edges ps"
    if "dget cs i = Some c" "p \<in> {p. (i, p) \<in> link_edges evs} \<union> verdict_parents c" "p \<in> identity ` set evs" for i p c
    using that I(3) [OF that(1)] I(2) [of i] keys unfolding parent_edges_def by blast
  have links: "link_edges evs \<subseteq> parent_edges ps"
  proof (rule subrelI)
    fix c p assume cp: "(c, p) \<in> link_edges evs"
    from link_edges_sound [OF cp dist] have "c \<in> identity ` set evs" "p \<in> identity ` set evs" by blast+
    then show "(c, p) \<in> parent_edges ps" using sub cp I(2) by blast
  qed
  have "causal_edges evs cs \<subseteq> (parent_edges ps)\<^sup>+"
  proof (rule subrelI)
    fix x y assume "(x, y) \<in> causal_edges evs cs"
    then obtain a b where ab: "x = identity a" "y = identity b" "a \<in> set evs" "b \<in> set evs"
      and why: "(he_hub a = he_hub b \<and> he_seq b < he_seq a) \<or> (\<exists>c p. dget cs (identity a) = Some c
        \<and> ct_status c = VerifiedParent \<and> ct_parent c = Some p \<and> parent_identity p = identity b)"
      unfolding causal_edges_def by blast
    from why show "(x, y) \<in> (parent_edges ps)\<^sup>+"
    proof
      assume "he_hub a = he_hub b \<and> he_seq b < he_seq a"
      then have "(x, y) \<in> (link_edges evs)\<^sup>+" using link_edges_complete ab by blast
      then show ?thesis using links by (rule trancl_mono)
    next
      assume "\<exists>c p. dget cs (identity a) = Some c \<and> ct_status c = VerifiedParent
        \<and> ct_parent c = Some p \<and> parent_identity p = identity b"
      then obtain c p where c: "dget cs (identity a) = Some c" "ct_status c = VerifiedParent"
        "ct_parent c = Some p" "parent_identity p = identity b" by blast
      then have "identity b \<in> verdict_parents c" by (simp add: verdict_parents_def)
      then show ?thesis using sub [OF c(1)] ab by blast
    qed
  qed
  moreover have "acyclic ((parent_edges ps)\<^sup>+)" using assms(3) by (simp add: acyclic_def)
  ultimately show ?thesis by (rule acyclic_subset [rotated])
qed

lemma every_event_has_head:
  assumes "acyclic (causal_edges evs cs)" and "e \<in> set evs"
  shows "\<exists>h \<in> set evs. undominated evs cs h \<and> (identity h, identity e) \<in> (causal_edges evs cs)\<^sup>*"
proof -
  let ?E = "causal_edges evs cs"
  have inside: "x \<in> identity ` set evs" "y \<in> identity ` set evs" if "(x, y) \<in> ?E" for x y
    using that unfolding causal_edges_def by blast+
  then have "?E \<subseteq> identity ` set evs \<times> identity ` set evs" by auto
  then have "finite ?E" using finite_subset by blast
  then have wf: "wf ?E" using assms(1) by (rule finite_acyclic_wf)
  define Q where "Q = {x \<in> identity ` set evs. (x, identity e) \<in> ?E\<^sup>*}"
  have "identity e \<in> Q" using assms(2) by (simp add: Q_def)
  from wfE_min [OF wf this] obtain m where m: "m \<in> Q" and min: "\<And>y. (y, m) \<in> ?E \<Longrightarrow> y \<notin> Q" by blast
  from m obtain h where h: "h \<in> set evs" "m = identity h" and star: "(m, identity e) \<in> ?E\<^sup>*"
    unfolding Q_def by blast
  have "(identity a, identity h) \<notin> ?E" if "a \<in> set evs" for a
  proof
    assume edge: "(identity a, identity h) \<in> ?E"
    then have "(identity a, identity e) \<in> ?E\<^sup>*" using star h(2) by (simp add: converse_rtrancl_into_rtrancl)
    then have "identity a \<in> Q" using that by (simp add: Q_def)
    then show False using min edge h(2) by blast
  qed
  then show ?thesis using h star unfolding undominated_def by blast
qed

lemma same_hub_edge: "a \<in> set evs \<Longrightarrow> b \<in> set evs \<Longrightarrow> he_hub a = he_hub b \<Longrightarrow> he_seq b < he_seq a
    \<Longrightarrow> (identity a, identity b) \<in> causal_edges evs cs"
  unfolding causal_edges_def by blast

lemma latest_of_max: "(latest_of b es = b \<or> latest_of b es \<in> set es) \<and> order_key b \<le> order_key (latest_of b es)
    \<and> (\<forall>e \<in> set es. order_key e \<le> order_key (latest_of b es))"
proof (induction es arbitrary: b)
  case (Cons e es)
  show ?case using Cons.IH [of "if order_key b < order_key e then e else b"]
    by (auto split: if_splits dest: order_trans [OF less_imp_le] order_trans [OF leI])
qed simp

text \<open>
  C31: The board shows causal heads.  Whenever the fold shows a task with events of pairwise
  different identities, the ancestry it accepted (later events of the same hub, and verified
  content-bound parents) is acyclic; the heads are exactly the events that no other event of
  the task descends from; there is one, at most one per hub, every event is an ancestor of one
  or one itself; and the winner is the head with the greatest order key.  In particular the
  fallback for a task without heads is never taken, and no clock skew lets an ancestor win.
\<close>

theorem board_shows_heads:
  assumes "view_task pk all_events evs = Inr v" and "evs \<noteq> []" and "distinct (map identity evs)"
  shows "acyclic (causal_edges evs (tv_contenders v))
    \<and> tv_heads v = filter (undominated evs (tv_contenders v)) evs
    \<and> (\<forall>e \<in> set evs. \<exists>h \<in> set (tv_heads v). (identity h, identity e) \<in> (causal_edges evs (tv_contenders v))\<^sup>*)
    \<and> distinct (map he_hub (tv_heads v))
    \<and> tv_winner v \<in> set (tv_heads v)
    \<and> (\<forall>h \<in> set (tv_heads v). order_key h \<le> order_key (tv_winner v))"
proof -
  from assms(1) obtain heads cs where vth: "verified_task_heads pk evs all_events = Inr (heads, cs)"
    and v: "tv_heads v = display_heads evs heads" "tv_contenders v = cs"
      "tv_winner v = latest_of (hd (display_heads evs heads)) (tl (display_heads evs heads))"
    by (auto simp: view_task_def sum_bind_Inr Let_def)
  from heads_final [OF vth assms(3)] obtain ps where ps: "heads_inv evs [] (cs, ps)" "acyclic (parent_edges ps)"
    and h: "heads = filter (\<lambda>e. identity e \<notin> set (concat (map snd ps))) evs" by blast
  have heads: "heads = filter (undominated evs cs) evs"
    unfolding h by (rule filter_cong [OF refl]) (rule referenced_iff [OF ps(1) assms(3)])
  have acyc: "acyclic (causal_edges evs cs)" by (rule causal_acyclic [OF ps(1) assms(3) ps(2)])
  have reach: "\<exists>h \<in> set heads. (identity h, identity e) \<in> (causal_edges evs cs)\<^sup>*" if "e \<in> set evs" for e
    using every_event_has_head [OF acyc that] unfolding heads by auto
  have ne: "heads \<noteq> []" using reach [OF hd_in_set [OF assms(2)]] by auto
  then have shown: "tv_heads v = heads" by (simp add: v display_heads_def)
  have "distinct (map he_hub heads)"
  proof -
    have "a = b" if ab: "a \<in> set heads" "b \<in> set heads" "he_hub a = he_hub b" for a b
    proof (rule ccontr)
      assume "a \<noteq> b"
      have mem: "a \<in> set evs" "b \<in> set evs" "undominated evs cs a" "undominated evs cs b" using ab by (auto simp: heads)
      then have "identity a \<noteq> identity b" using \<open>a \<noteq> b\<close> assms(3) by (metis distinct_map inj_on_def)
      then have "he_seq a < he_seq b \<or> he_seq b < he_seq a" using ab(3) by (auto simp: identity_def)
      then show False using mem ab(3) same_hub_edge unfolding undominated_def by metis
    qed
    moreover have "distinct heads" using assms(3) by (simp add: heads distinct_map)
    ultimately show ?thesis by (simp add: distinct_map inj_on_def)
  qed
  moreover have "tv_winner v \<in> set heads \<and> (\<forall>h \<in> set heads. order_key h \<le> order_key (tv_winner v))"
    using latest_of_max [of "hd heads" "tl heads"] ne
    by (cases heads) (auto simp: v display_heads_def)
  ultimately show ?thesis using acyc heads reach by (simp add: shown v(2))
qed

text \<open>Two hubs that report the same task.\<close>

definition task_event :: "string \<Rightarrow> int \<Rightarrow> hub_event" where
  "task_event hub q = \<lparr>he_hub = hub, he_seq = q, he_ts = Finite 1, he_kind = ''ledger_task'',
     he_payload = [(''task_id'', JString ''T'')]\<rparr>"

definition eight_bytes :: "time \<Rightarrow> bytes" where
  "eight_bytes x = [0, 0, 0, 0, 0, 0, 0, 1]"

lemma task_event_fingerprints:
  "\<exists>d. event_fingerprint eight_bytes (task_event ''a'' 1) = Inr d"
  "\<exists>d. event_fingerprint eight_bytes (task_event ''a'' 2) = Inr d"
  "\<exists>d. event_fingerprint eight_bytes (task_event ''b'' 1) = Inr d"
  "\<exists>d. event_fingerprint eight_bytes (record_event (he_payload (task_event ''a'' 1))) = Inr d"
proof -
  have lift: "\<exists>d. event_fingerprint eight_bytes e = Inr d"
    if "case fingerprint_input eight_bytes e of Inr _ \<Rightarrow> True | Inl _ \<Rightarrow> False" for e
    using that by (auto simp: event_fingerprint_def split: sum.splits)
  show "\<exists>d. event_fingerprint eight_bytes (task_event ''a'' 1) = Inr d" by (rule lift) code_simp
  show "\<exists>d. event_fingerprint eight_bytes (task_event ''a'' 2) = Inr d" by (rule lift) code_simp
  show "\<exists>d. event_fingerprint eight_bytes (task_event ''b'' 1) = Inr d" by (rule lift) code_simp
  show "\<exists>d. event_fingerprint eight_bytes (record_event (he_payload (task_event ''a'' 1))) = Inr d"
    by (rule lift) code_simp
qed

lemma task_event_fields [simp]:
  "he_hub (task_event h q) = h" "he_seq (task_event h q) = q" "he_ts (task_event h q) = Finite 1"
  "he_payload (task_event h q) = [(''task_id'', JString ''T'')]" "identity (task_event h q) = (h, q)"
  by (simp_all add: task_event_def identity_def)

theorem board_shows_heads_witness:
  "\<exists>v. view_task eight_bytes [] [task_event ''a'' 1, task_event ''a'' 2, task_event ''b'' 1] = Inr v
    \<and> acyclic (causal_edges [task_event ''a'' 1, task_event ''a'' 2, task_event ''b'' 1] (tv_contenders v))
    \<and> tv_winner v \<in> set (tv_heads v) \<and> distinct (map he_hub (tv_heads v))"
proof -
  let ?evs = "[task_event ''a'' 1, task_event ''a'' 2, task_event ''b'' 1]"
  obtain d1 d2 d3 r where d: "event_fingerprint eight_bytes (task_event ''a'' 1) = Inr d1"
      "event_fingerprint eight_bytes (task_event ''a'' 2) = Inr d2"
      "event_fingerprint eight_bytes (task_event ''b'' 1) = Inr d3"
      "event_fingerprint eight_bytes (record_event [(''task_id'', JString ''T'')]) = Inr r"
    using task_event_fingerprints by auto
  have parent: "declared_parent (task_event h q) = (None, NoParent)" for h q
    by (simp add: declared_parent_def TASK_CAUSAL_PARENT_FIELD_def)
  obtain cs where init: "initial_contenders eight_bytes ?evs = Inr cs"
    by (simp add: initial_contenders_def board_contender_def lift_integrity_def d)
  have none: "ct_parent c = None" if "dget cs i = Some c" for i c
  proof -
    show ?thesis using init that
      by (auto simp: initial_contenders_def board_contender_def lift_integrity_def d parent split: if_splits)
  qed
  have keep: "verify_event eight_bytes [] e (cs, ps) = Inr (cs, ps)" for e ps
    using none by (auto simp: verify_event_def split: option.splits)
  obtain cs' ps where "reject_cycles ?evs (cs, local_parents ?evs) = (cs', ps)" by fastforce
  then obtain v where v: "view_task eight_bytes [] ?evs = Inr v"
    using init by (simp add: view_task_def verified_task_heads_def keep Let_def)
  have "distinct (map identity ?evs)" "?evs \<noteq> []" by simp_all
  from board_shows_heads [OF v this(2,1)] v show ?thesis by blast
qed

end
