(* ===== verification/Multihub_Follower.thy ===== *)
theory Multihub_Follower
  imports Multihub_Heads
begin

text \<open>
  The follower of peer hubs (\<open>core/multihub_follower.py\<close>) and the journal rows that keep its
  quarantines over a restart (\<open>core/journal.py\<close>).  A poll is two steps, because the coroutine
  gives up control while it fetches: \<open>poll_begin\<close> takes the peer's lock and reads the cursor,
  \<open>poll_finish\<close> runs without interruption on what was fetched.  The protocol and clock-skew
  metadata of a fetcher and the file format of the journal are not modelled.
\<close>

section \<open>Quarantine rows\<close>

record federation_row =
  fr_kind :: string
  fr_ts :: time
  fr_payload :: json_object

text \<open>\<open>encoded[:256].decode('utf-8', errors='ignore')\<close>: the characters that fit completely.\<close>

fun utf8_fit :: "nat \<Rightarrow> string \<Rightarrow> string" where
  "utf8_fit n [] = []"
| "utf8_fit n (c # cs) =
     (if length (utf8_char c) \<le> n then c # utf8_fit (n - length (utf8_char c)) cs else [])"

definition bounded_identity :: "string \<Rightarrow> string \<Rightarrow> json_object" where
  "bounded_identity field value =
     [(field, JString (utf8_fit 256 value)),
      (field @ ''_sha256'', JString (hex_of (sha256 (utf8 value)))),
      (field @ ''_truncated'', JBool (utf8_fit 256 value \<noteq> value))]"

definition quarantine_payload :: "quarantine \<Rightarrow> json_object option" where
  "quarantine_payload q =
     (if \<not> valid_fingerprint (JString (q_accepted q)) \<or> \<not> valid_fingerprint (JString (q_conflicting q)) then None
      else if py_strip (q_peer q) = [] then None
      else if q_seq q < 1 then None
      else Some (bounded_identity ''peer_id'' (q_peer q) @ bounded_identity ''observer_id'' (q_observer q)
        @ [(''seq'', JInt (q_seq q)), (''accepted_fingerprint'', JString (q_accepted q)),
           (''conflicting_fingerprint'', JString (q_conflicting q)),
           (''detected_at'', JFloat (Finite (q_detected_at q))), (''status'', JString ''quarantined'')]))"

definition record_multihub_equivocation :: "quarantine \<Rightarrow> federation_row list \<Rightarrow> federation_row list option" where
  "record_multihub_equivocation q rows =
     map_option (\<lambda>p. rows @ [\<lparr>fr_kind = ''multihub_equivocation'', fr_ts = q_detected_at q, fr_payload = p\<rparr>])
       (quarantine_payload q)"

text \<open>The first blank label, or the row.\<close>

definition record_multihub_equivocation_recovery ::
  "string \<Rightarrow> time \<Rightarrow> string \<Rightarrow> string \<Rightarrow> string \<Rightarrow> federation_row list \<Rightarrow> string + federation_row list" where
  "record_multihub_equivocation_recovery peer now recovered_by reason generation rows =
     (if py_strip peer = [] then Inl ''peer_id''
      else if py_strip recovered_by = [] then Inl ''recovered_by''
      else if py_strip reason = [] then Inl ''reason''
      else if py_strip generation = [] then Inl ''new_log_generation''
      else Inr (rows @
        [\<lparr>fr_kind = ''multihub_equivocation_recovery'', fr_ts = now,
          fr_payload = bounded_identity ''peer_id'' peer @ bounded_identity ''recovered_by'' recovered_by
            @ bounded_identity ''new_log_generation'' generation
            @ [(''reason_sha256'', JString (hex_of (sha256 (utf8 reason)))),
               (''recovered_at'', JFloat (Finite now)), (''explicit_recovery'', JBool True),
               (''status'', JString ''recovered'')]\<rparr>]))"

text \<open>\<open>str(v or '')\<close>\<close>

definition str_or_empty :: "json \<Rightarrow> fold_error + string" where
  "str_or_empty v =
     (if \<not> json_truthy v then Inr []
      else (case py_str v of Inl _ \<Rightarrow> Inl UnmodelledText | Inr s \<Rightarrow> Inr s))"

definition zero_fingerprint :: string where
  "zero_fingerprint = replicate 64 (CHR ''0'')"

definition fingerprint_or_zero :: "json \<Rightarrow> string" where
  "fingerprint_or_zero v =
     (case v of JString s \<Rightarrow> if valid_fingerprint v then s else zero_fingerprint | _ \<Rightarrow> zero_fingerprint)"

type_synonym quarantines = "(string, quarantine) pydict"

definition restore_row :: "federation_row \<Rightarrow> quarantines \<Rightarrow> fold_error + quarantines" where
  "restore_row row active =
     sum_bind (str_or_empty (get_field (fr_payload row) ''peer_id'')) (\<lambda>raw.
       let peer = py_strip raw in
       if peer = [] then Inr active
       else if fr_kind row = ''multihub_equivocation_recovery'' then
         (if get_field (fr_payload row) ''explicit_recovery'' \<noteq> JBool True then Inr active
          else sum_bind (str_or_empty (get_field (fr_payload row) ''new_log_generation'')) (\<lambda>gen.
            Inr (if py_strip gen \<noteq> [] then ddel peer active else active)))
       else
         sum_bind (str_or_empty (get_field (fr_payload row) ''observer_id'')) (\<lambda>obs.
           Inr (dset peer
             \<lparr>q_peer = peer,
              q_seq = (case get_field (fr_payload row) ''seq'' of JInt i \<Rightarrow> i | _ \<Rightarrow> 0),
              q_accepted = fingerprint_or_zero (get_field (fr_payload row) ''accepted_fingerprint''),
              q_conflicting = fingerprint_or_zero (get_field (fr_payload row) ''conflicting_fingerprint''),
              q_detected_at = fr_ts row, q_observer = obs\<rparr> active)))"

fun restore_rows :: "federation_row list \<Rightarrow> quarantines \<Rightarrow> fold_error + quarantines" where
  "restore_rows [] active = Inr active"
| "restore_rows (r # rs) active = sum_bind (restore_row r active) (restore_rows rs)"

text \<open>The store hands out the rows of the two kinds only.\<close>

definition quarantine_kinds :: "string list" where
  "quarantine_kinds = [''multihub_equivocation'', ''multihub_equivocation_recovery'']"

definition restore_active_multihub_quarantines :: "federation_row list \<Rightarrow> fold_error + quarantines" where
  "restore_active_multihub_quarantines rows =
     restore_rows (filter (\<lambda>r. fr_kind r \<in> set quarantine_kinds) rows) []"

section \<open>The follower\<close>

record follower =
  fo_events :: bound_events
  fo_cursors :: "(string, int) pydict"
  fo_quarantines :: quarantines
  fo_polling :: "(string, int) pydict"
  fo_journal :: "federation_row list option"
  fo_observer :: string

definition new_follower :: "federation_row list option \<Rightarrow> string \<Rightarrow> fold_error + follower" where
  "new_follower journal observer =
     sum_bind (case journal of None \<Rightarrow> Inr [] | Some rows \<Rightarrow> restore_active_multihub_quarantines rows) (\<lambda>qs.
       Inr \<lparr>fo_events = [], fo_cursors = [], fo_quarantines = qs, fo_polling = [], fo_journal = journal,
            fo_observer = observer\<rparr>)"

definition follower_cursor :: "string \<Rightarrow> follower \<Rightarrow> int" where
  "follower_cursor peer fo = (case dget (fo_cursors fo) peer of None \<Rightarrow> 0 | Some q \<Rightarrow> q)"

text \<open>Up to the fetch: the lock is taken, a quarantined peer is refused, the cursor is read.\<close>

definition poll_begin :: "string \<Rightarrow> follower \<Rightarrow> fold_error + follower" where
  "poll_begin peer fo =
     (case dget (fo_quarantines fo) peer of
        Some q \<Rightarrow> Inl (Integrity (PeerQuarantined q))
      | None \<Rightarrow> Inr (fo\<lparr>fo_polling := dset peer (follower_cursor peer fo) (fo_polling fo)\<rparr>))"

definition quarantine_peer :: "time \<Rightarrow> string \<Rightarrow> int \<Rightarrow> string \<Rightarrow> string \<Rightarrow> follower \<Rightarrow> follower" where
  "quarantine_peer now peer q accepted conflicting fo =
     (let row = \<lparr>q_peer = peer, q_seq = q, q_accepted = accepted, q_conflicting = conflicting,
                 q_detected_at = now, q_observer = fo_observer fo\<rparr> in
      fo\<lparr>fo_quarantines := dset peer row (fo_quarantines fo),
         fo_journal := (case fo_journal fo of
            None \<Rightarrow> None
          | Some rows \<Rightarrow> (case record_multihub_equivocation row rows of None \<Rightarrow> Some rows | Some rows' \<Rightarrow> Some rows'))\<rparr>)"

definition release_lock :: "string \<Rightarrow> follower \<Rightarrow> follower" where
  "release_lock peer fo = fo\<lparr>fo_polling := ddel peer (fo_polling fo)\<rparr>"

definition poll_finish ::
  "(time \<Rightarrow> bytes) \<Rightarrow> time \<Rightarrow> string \<Rightarrow> int \<Rightarrow> stored_event list \<Rightarrow> follower
   \<Rightarrow> follower \<times> (fold_error + observed_state)" where
  "poll_finish pk now peer cursor fetched fo =
     (let unlocked = release_lock peer fo in
      case validate_content_bound_batch pk peer cursor (cursor + 1) (tag_events peer fetched) (fo_events fo) of
        Inl (Equivocation p q accepted conflicting) \<Rightarrow>
          (quarantine_peer now p q accepted conflicting unlocked,
           Inl (Integrity (Equivocation p q accepted conflicting)))
      | Inl e \<Rightarrow> (unlocked, Inl (Integrity e))
      | Inr candidate \<Rightarrow>
          (case sum_bind (lift_integrity (merge_event_logs pk [map snd candidate])) (fold_observed_state pk) of
             Inl e \<Rightarrow> (unlocked, Inl e)
           | Inr observed \<Rightarrow>
               (unlocked\<lparr>fo_events := candidate, fo_cursors := hub_cursors (map snd candidate)\<rparr>, Inr observed)))"

definition observed :: "(time \<Rightarrow> bytes) \<Rightarrow> follower \<Rightarrow> fold_error + observed_state" where
  "observed pk fo =
     sum_bind (lift_integrity (merge_event_logs pk [map snd (fo_events fo)])) (fold_observed_state pk)"

definition recover_peer ::
  "time \<Rightarrow> string \<Rightarrow> string \<Rightarrow> string \<Rightarrow> string \<Rightarrow> follower \<Rightarrow> fold_error + follower" where
  "recover_peer now peer recovered_by reason generation fo =
     (if dget (fo_quarantines fo) peer = None then Inl (Integrity (NotQuarantined peer))
      else if py_strip recovered_by = [] then Inl (Integrity (RecoveryField ''recovered_by''))
      else if py_strip reason = [] then Inl (Integrity (RecoveryField ''reason''))
      else if py_strip generation = [] then Inl (Integrity (RecoveryField ''new_log_generation''))
      else
        (let cleared = (\<lambda>journal. fo\<lparr>fo_journal := journal,
             fo_events := filter (\<lambda>(i, ev). he_hub ev \<noteq> peer) (fo_events fo),
             fo_cursors := ddel peer (fo_cursors fo), fo_quarantines := ddel peer (fo_quarantines fo)\<rparr>) in
         case fo_journal fo of
           None \<Rightarrow> Inr (cleared None)
         | Some rows \<Rightarrow>
             (case record_multihub_equivocation_recovery peer now recovered_by reason generation rows of
                Inl field \<Rightarrow> Inl (Integrity (RecoveryField field))
              | Inr rows' \<Rightarrow> Inr (cleared (Some rows')))))"

section \<open>Steps\<close>

inductive follower_step :: "(time \<Rightarrow> bytes) \<Rightarrow> follower \<Rightarrow> follower \<Rightarrow> bool" for pk where
  begin_poll: "dget (fo_polling fo) peer = None \<Longrightarrow> poll_begin peer fo = Inr fo' \<Longrightarrow> follower_step pk fo fo'"
| finish_poll: "dget (fo_polling fo) peer = Some cursor \<Longrightarrow>
    poll_finish pk now peer cursor fetched fo = (fo', result) \<Longrightarrow> follower_step pk fo fo'"
| abort_poll: "dget (fo_polling fo) peer = Some cursor \<Longrightarrow> follower_step pk fo (release_lock peer fo)"
| recover: "recover_peer now peer by reason generation fo = Inr fo' \<Longrightarrow> follower_step pk fo fo'"

inductive follower_reachable :: "(time \<Rightarrow> bytes) \<Rightarrow> follower \<Rightarrow> bool" for pk where
  start: "new_follower journal observer = Inr fo \<Longrightarrow> follower_reachable pk fo"
| step: "follower_reachable pk fo \<Longrightarrow> follower_step pk fo fo' \<Longrightarrow> follower_reachable pk fo'"

section \<open>Histories without gaps\<close>

definition history :: "bound_events \<Rightarrow> string \<Rightarrow> int set" where
  "history events peer = {q. \<exists>e. dget events (peer, q) = Some e}"

definition follower_ok :: "(time \<Rightarrow> bytes) \<Rightarrow> follower \<Rightarrow> bool" where
  "follower_ok pk fo \<longleftrightarrow> content_bound pk (fo_events fo)
     \<and> (\<forall>peer. 0 \<le> follower_cursor peer fo \<and> history (fo_events fo) peer = {1..follower_cursor peer fo})
     \<and> (\<forall>peer cursor. dget (fo_polling fo) peer = Some cursor \<longrightarrow>
          cursor = follower_cursor peer fo \<and> dget (fo_quarantines fo) peer = None)"

lemma follower_okD:
  assumes "follower_ok pk fo"
  shows "content_bound pk (fo_events fo)" and "0 \<le> follower_cursor peer fo"
    and "history (fo_events fo) peer = {1..follower_cursor peer fo}"
    and "dget (fo_polling fo) peer = Some cursor \<Longrightarrow> cursor = follower_cursor peer fo"
    and "dget (fo_polling fo) peer = Some cursor \<Longrightarrow> dget (fo_quarantines fo) peer = None"
  using assms unfolding follower_ok_def by blast+

lemma interval_eq: "0 \<le> a \<Longrightarrow> 0 \<le> b \<Longrightarrow> {1..a} = {1..b} \<Longrightarrow> a = b" for a b :: int
proof -
  assume ab: "0 \<le> a" "0 \<le> b" "{1..a} = {1..b}"
  then have "nat a = nat b" by (metis card_atLeastAtMost_int diff_add_cancel add_diff_cancel)
  then show "a = b" using ab by simp
qed

lemma hub_cursors_spec:
  "\<forall>e \<in> set evs. 0 \<le> he_seq e \<Longrightarrow>
   case dget (hub_cursors evs) h of
     None \<Rightarrow> \<forall>e \<in> set evs. he_hub e \<noteq> h
   | Some q \<Rightarrow> (\<exists>e \<in> set evs. he_hub e = h \<and> he_seq e = q) \<and> (\<forall>e \<in> set evs. he_hub e = h \<longrightarrow> he_seq e \<le> q)"
proof (induction evs rule: rev_induct)
  case Nil
  then show ?case by (simp add: hub_cursors_def)
next
  case (snoc e evs)
  have IH: "case dget (hub_cursors evs) h of
     None \<Rightarrow> \<forall>e \<in> set evs. he_hub e \<noteq> h
   | Some q \<Rightarrow> (\<exists>e \<in> set evs. he_hub e = h \<and> he_seq e = q) \<and> (\<forall>e \<in> set evs. he_hub e = h \<longrightarrow> he_seq e \<le> q)"
    using snoc by simp
  have run: "hub_cursors (evs @ [e]) = raise_cursor e (hub_cursors evs)" by (simp add: hub_cursors_def)
  show ?case
  proof (cases "he_hub e = h")
    case True
    then show ?thesis using IH snoc.prems
      by (cases "dget (hub_cursors evs) h") (auto simp: run raise_cursor_def)
  next
    case False
    then have "dget (hub_cursors (evs @ [e])) h = dget (hub_cursors evs) h" by (auto simp: run raise_cursor_def)
    then show ?thesis using IH False by (auto split: option.splits)
  qed
qed

lemma hub_cursors_history:
  assumes cb: "content_bound pk events" and h: "history events peer = {1..n}" and n: "0 \<le> n"
    and pos: "\<forall>e \<in> values_of events. 0 \<le> he_seq e"
  shows "(case dget (hub_cursors (map snd events)) peer of None \<Rightarrow> 0 | Some q \<Rightarrow> q) = n"
proof -
  have mem: "q \<in> history events peer \<longleftrightarrow> (\<exists>e \<in> values_of events. he_hub e = peer \<and> he_seq e = q)" for q
  proof
    assume "q \<in> history events peer"
    then obtain e where e: "dget events (peer, q) = Some e" by (auto simp: history_def)
    then have "identity e = (peer, q)" using content_bound_get [OF cb] by simp
    moreover from this have "e \<in> values_of events" using content_bound_value [OF cb] e by simp
    ultimately show "\<exists>e \<in> values_of events. he_hub e = peer \<and> he_seq e = q" by (auto simp: identity_def)
  next
    assume "\<exists>e \<in> values_of events. he_hub e = peer \<and> he_seq e = q"
    then obtain e where "e \<in> values_of events" "identity e = (peer, q)" by (auto simp: identity_def)
    then show "q \<in> history events peer" using content_bound_value [OF cb] by (auto simp: history_def)
  qed
  have pos': "\<forall>e \<in> set (map snd events). 0 \<le> he_seq e" using pos by (simp add: values_of_def)
  note C = hub_cursors_spec [OF pos', of peer, folded values_of_def]
  show ?thesis
  proof (cases "dget (hub_cursors (map snd events)) peer")
    case None
    then have "{1..n} = {}" using C mem h by auto
    then show ?thesis using None n by simp
  next
    case (Some q)
    then have "q \<in> {1..n}" "\<forall>x \<in> {1..n}. x \<le> q" using C mem h by auto
    moreover from this(1) have "n \<in> {1..n}" by simp
    ultimately have "q = n" by fastforce
    then show ?thesis using Some by simp
  qed
qed

lemma fingerprinted_positive: "fingerprinted pk e \<Longrightarrow> 1 \<le> he_seq e"
  by (auto simp: fingerprinted_def event_fingerprint_def fingerprint_input_def sum_bind_Inr split: if_splits)

text \<open>Validating a batch keeps what is there and extends the peer's history without a gap.\<close>

lemma validate_batch_spec:
  assumes "validate_content_bound_batch pk peer after expected evs candidate = Inr result"
    and "content_bound pk candidate" and "history candidate peer = {1..expected - 1}" and "1 \<le> expected"
  shows "content_bound pk result \<and> (\<exists>n \<ge> expected - 1. history result peer = {1..n})
    \<and> (\<forall>other. other \<noteq> peer \<longrightarrow> history result other = history candidate other)
    \<and> (\<forall>i e. dget candidate i = Some e \<longrightarrow> dget result i = Some e)"
  using assms
proof (induction evs arbitrary: expected candidate)
  case Nil
  then show ?case by auto
next
  case (Cons ev evs)
  have hub: "he_hub ev = peer" using Cons.prems(1) by (auto split: if_splits)
  obtain c1 next1 where c1: "remember_content_bound_event pk candidate ev = Inr c1"
    and run: "validate_content_bound_batch pk peer after next1 evs c1 = Inr result"
    and next1: "next1 = (if he_seq ev < expected then expected else expected + 1)"
    and cases: "he_seq ev < expected \<and> dget candidate (identity ev) \<noteq> None \<or> he_seq ev = expected"
    using Cons.prems(1) by (auto simp: sum_bind_Inr split: if_splits)
  from remember_step [OF Cons.prems(2), of ev, unfolded c1 sum.case(2)]
  have cb: "content_bound pk c1"
    and c1_def: "c1 = (if dget candidate (identity ev) = None then dset (identity ev) ev candidate else candidate)"
    by blast+
  have absent: "dget candidate (identity ev) = None" if "he_seq ev = expected"
  proof -
    have "expected \<notin> history candidate peer" using Cons.prems(3) by simp
    then show ?thesis using that hub by (simp add: history_def identity_def)
  qed
  have hist: "history c1 peer = {1..next1 - 1}"
  proof (cases "he_seq ev < expected")
    case True
    then have "c1 = candidate" using cases by (auto simp: c1_def)
    then show ?thesis using True Cons.prems(3) by (simp add: next1)
  next
    case False
    then have eq: "he_seq ev = expected" using cases by simp
    then have "history c1 peer = insert expected (history candidate peer)"
      using absent hub by (auto simp: c1_def history_def identity_def)
    then show ?thesis using Cons.prems(3,4) eq by (auto simp: next1)
  qed
  have others: "history c1 other = history candidate other" if "other \<noteq> peer" for other
    using that hub by (auto simp: c1_def history_def identity_def)
  have keep: "dget c1 i = Some e" if "dget candidate i = Some e" for i e
    using that by (auto simp: c1_def)
  have "next1 - 1 \<ge> expected - 1" "1 \<le> next1" using Cons.prems(4) by (simp_all add: next1)
  with Cons.IH [OF run cb hist] show ?case using others keep by (metis order_trans)
qed

lemma poll_finish_cases:
  assumes "poll_finish pk now peer cursor fetched fo = (fo', result)"
  obtains (equivocation) p q accepted conflicting where
      "fo' = quarantine_peer now p q accepted conflicting (release_lock peer fo)"
      "result = Inl (Integrity (Equivocation p q accepted conflicting))"
      "validate_content_bound_batch pk peer cursor (cursor + 1) (tag_events peer fetched) (fo_events fo)
        = Inl (Equivocation p q accepted conflicting)"
  | (failed) "fo' = release_lock peer fo"
  | (accepted) candidate where
      "validate_content_bound_batch pk peer cursor (cursor + 1) (tag_events peer fetched) (fo_events fo) = Inr candidate"
      "fo' = (release_lock peer fo)\<lparr>fo_events := candidate, fo_cursors := hub_cursors (map snd candidate)\<rparr>"
  using assms by (auto simp: poll_finish_def Let_def split: sum.splits integrity_error.splits)

lemma remember_error:
  "remember_content_bound_event pk c ev = Inl (Equivocation p q a b) \<Longrightarrow> p = he_hub ev \<and> q = he_seq ev"
  by (auto simp: remember_content_bound_event_def sum_bind_Inl dest: fingerprint_error split: option.splits if_splits)

lemma equivocation_own_peer:
  "validate_content_bound_batch pk peer after expected evs candidate = Inl (Equivocation p q a c) \<Longrightarrow> p = peer"
proof (induction evs arbitrary: expected candidate)
  case (Cons ev evs)
  then show ?case by (auto simp: sum_bind_Inl dest: remember_error split: if_splits)
qed simp

lemma follower_ok_step:
  assumes "follower_step pk fo fo'" and "follower_ok pk fo"
  shows "follower_ok pk fo'"
  using assms(1)
proof cases
  case (begin_poll peer)
  note I = follower_okD [OF assms(2)]
  from begin_poll have q: "dget (fo_quarantines fo) peer = None"
    and fo': "fo' = fo\<lparr>fo_polling := dset peer (follower_cursor peer fo) (fo_polling fo)\<rparr>"
    by (auto simp: poll_begin_def split: option.splits)
  show ?thesis unfolding follower_ok_def
    using I q by (auto simp: fo' follower_cursor_def split: if_splits)
next
  case (abort_poll peer cursor)
  then show ?thesis using assms(2) by (auto simp: follower_ok_def release_lock_def follower_cursor_def)
next
  case (recover now peer who reason generation)
  note I = follower_okD [OF assms(2)]
  from recover obtain journal where q: "dget (fo_quarantines fo) peer \<noteq> None"
    and fo': "fo' = fo\<lparr>fo_journal := journal,
        fo_events := filter (\<lambda>(i, ev). he_hub ev \<noteq> peer) (fo_events fo),
        fo_cursors := ddel peer (fo_cursors fo), fo_quarantines := ddel peer (fo_quarantines fo)\<rparr>"
    by (auto simp: recover_peer_def Let_def split: if_splits option.splits sum.splits)
  have ok: "dict_ok (fo_events fo)" using I(1) by (simp add: content_bound_def)
  have get: "dget (fo_events fo') i = (if fst i = peer then None else dget (fo_events fo) i)" for i
    using content_bound_get [OF I(1), of i]
    by (auto simp: fo' dget_filter [OF ok] identity_def split: option.split)
  have "content_bound pk (fo_events fo')"
    using I(1) content_bound_get [OF I(1)] unfolding content_bound_def get
    by (auto simp: fo' split: if_splits)
  moreover have "history (fo_events fo') other = (if other = peer then {} else history (fo_events fo) other)" for other
    by (auto simp: history_def get)
  moreover have "follower_cursor other fo' = (if other = peer then 0 else follower_cursor other fo)" for other
    by (auto simp: fo' follower_cursor_def)
  moreover have "cursor = follower_cursor other fo' \<and> dget (fo_quarantines fo') other = None"
    if "dget (fo_polling fo') other = Some cursor" for other cursor
  proof -
    have p: "dget (fo_polling fo) other = Some cursor" using that by (simp add: fo')
    then have "other \<noteq> peer" using I(5) [OF p] q by auto
    then show ?thesis using I(4,5) [OF p] by (simp add: fo' follower_cursor_def)
  qed
  ultimately show ?thesis using I(2,3) unfolding follower_ok_def by simp
next
  case (finish_poll peer cursor now fetched result)
  note I = follower_okD [OF assms(2)]
  have cur: "cursor = follower_cursor peer fo" using I(4) finish_poll(1) by blast
  have base: "follower_ok pk (release_lock peer fo)"
    using assms(2) by (auto simp: follower_ok_def release_lock_def follower_cursor_def)
  from finish_poll(2) show ?thesis
  proof (cases rule: poll_finish_cases)
    case (equivocation p q accepted conflicting)
    then have "p = peer" using equivocation_own_peer by blast
    then show ?thesis using base
      by (auto simp: equivocation(1) quarantine_peer_def Let_def follower_ok_def follower_cursor_def release_lock_def)
  next
    case failed
    then show ?thesis using base by simp
  next
    case (accepted candidate)
    from validate_batch_spec [OF accepted(1) I(1)] I(2,3) [of peer] cur obtain n where
      cb: "content_bound pk candidate" and n: "cursor \<le> n" "history candidate peer = {1..n}"
      and others: "\<And>other. other \<noteq> peer \<Longrightarrow> history candidate other = history (fo_events fo) other"
      by auto
    have pos: "\<forall>e \<in> values_of candidate. 0 \<le> he_seq e"
      using content_bound_consistent [OF cb] fingerprinted_positive unfolding consistent_def by fastforce
    have cursor: "follower_cursor other fo' = (if other = peer then n else follower_cursor other fo)" for other
    proof (cases "other = peer")
      case True
      then show ?thesis using hub_cursors_history [OF cb n(2) _ pos] n(1) cur I(2) [of peer]
        by (simp add: accepted(2) follower_cursor_def)
    next
      case False
      then show ?thesis
        using hub_cursors_history [OF cb others [OF False, unfolded I(3)] I(2) pos]
        by (simp add: accepted(2) follower_cursor_def)
    qed
    show ?thesis unfolding follower_ok_def
    proof (intro conjI allI impI)
      show "content_bound pk (fo_events fo')" using cb by (simp add: accepted(2))
    next
      fix other
      show "0 \<le> follower_cursor other fo'" using cursor [of other] n(1) I(2) [of peer] I(2) [of other] cur by auto
      show "history (fo_events fo') other = {1..follower_cursor other fo'}"
        using cursor [of other] n(2) others [of other] I(3) [of other] by (simp add: accepted(2))
    next
      fix other c assume "dget (fo_polling fo') other = Some c"
      then have "other \<noteq> peer" "dget (fo_polling fo) other = Some c"
        by (auto simp: accepted(2) release_lock_def split: if_splits)
      then show "c = follower_cursor other fo'" "dget (fo_quarantines fo') other = None"
        using I(4,5) cursor [of other] by (auto simp: accepted(2) release_lock_def)
    qed
  qed
qed

text \<open>
  C32: A follower's history of a peer has no gap.  In every reachable state of the follower, with
  polls of different peers interleaved in any way, batches of any content, aborted fetches,
  equivocations and recoveries, the accepted events of each peer are exactly the sequence
  numbers from 1 to the cursor, every accepted event has a fingerprint and is filed under its
  own identity, and a peer that is being polled is not quarantined and is polled from its
  cursor.
\<close>

theorem follower_history_complete:
  assumes "follower_reachable pk fo"
  shows "follower_ok pk fo"
  using assms
proof (induction rule: follower_reachable.induct)
  case (start journal obs fo)
  then obtain qs where "fo = \<lparr>fo_events = [], fo_cursors = [], fo_quarantines = qs, fo_polling = [],
      fo_journal = journal, fo_observer = obs\<rparr>"
    by (auto simp: new_follower_def sum_bind_Inr)
  then show ?case by (simp add: follower_ok_def history_def follower_cursor_def)
next
  case (step fo fo')
  from step.hyps(2) step.IH show ?case by (rule follower_ok_step)
qed

text \<open>A peer with one event, polled once.\<close>

definition note_event :: stored_event where
  "note_event = \<lparr>ev_seq = 1, ev_kind = ''chat'', ev_payload = [], ev_ts = Finite 1\<rparr>"

theorem follower_history_complete_witness:
  "\<exists>fo. follower_reachable eight_bytes fo \<and> follower_cursor ''a'' fo = 1 \<and> follower_ok eight_bytes fo"
proof -
  let ?e = "from_stored ''a'' note_event"
  have "case fingerprint_input eight_bytes ?e of Inr _ \<Rightarrow> True | Inl _ \<Rightarrow> False" by code_simp
  then obtain d where d: "event_fingerprint eight_bytes ?e = Inr d"
    by (auto simp: event_fingerprint_def split: sum.splits)
  obtain fo where fo: "new_follower None ''me'' = Inr fo" "fo_events fo = []" "fo_cursors fo = []"
      "fo_polling fo = []" "fo_quarantines fo = []"
    by (simp add: new_follower_def)
  let ?b = "fo\<lparr>fo_polling := [(''a'', 0)]\<rparr>"
  have id: "identity ?e = (''a'', 1)" "he_hub ?e = ''a''" "he_seq ?e = 1" "he_kind ?e = ''chat''"
    by (simp_all add: identity_def from_stored_def note_event_def)
  have "poll_begin ''a'' fo = Inr ?b" using fo by (simp add: poll_begin_def follower_cursor_def)
  then have r1: "follower_reachable eight_bytes ?b"
    using fo by (intro follower_reachable.step [OF follower_reachable.start [OF fo(1)]] follower_step.begin_poll) auto
  have rem: "remember_content_bound_event eight_bytes [] ?e = Inr [((''a'', 1), ?e)]"
    using d by (simp add: remember_content_bound_event_def id)
  have batch: "validate_content_bound_batch eight_bytes ''a'' 0 (0 + 1) (tag_events ''a'' [note_event]) (fo_events ?b)
      = Inr [((''a'', 1), ?e)]"
    using rem fo by (simp add: tag_events_def id)
  have merge: "merge_event_logs eight_bytes [[?e]] = Inr [?e]" using rem by (simp add: merge_event_logs_def)
  obtain view where view: "fold_observed_state eight_bytes [?e] = Inr view"
    by (simp add: fold_observed_state_def fold_event_def id claim_kinds_def)
  let ?f = "?b\<lparr>fo_polling := [], fo_events := [((''a'', 1), ?e)], fo_cursors := [(''a'', 1)]\<rparr>"
  have cur: "hub_cursors [?e] = [(''a'', 1)]" by (simp add: hub_cursors_def raise_cursor_def id)
  have "poll_finish eight_bytes 5 ''a'' 0 [note_event] ?b = (?f, Inr view)"
    unfolding poll_finish_def batch Let_def sum.case
    by (simp add: merge lift_integrity_def view cur release_lock_def)
  then have r2: "follower_reachable eight_bytes ?f"
    by (intro follower_reachable.step [OF r1] follower_step.finish_poll) auto
  moreover have "follower_cursor ''a'' ?f = 1" by (simp add: follower_cursor_def)
  ultimately show ?thesis using follower_history_complete [OF r2] by blast
qed

section \<open>Quarantines survive a restart\<close>

definition clean_label :: "string \<Rightarrow> bool" where
  "clean_label s \<longleftrightarrow> s \<noteq> [] \<and> py_strip s = s \<and> length (utf8 s) \<le> 256"

text \<open>The journal would restore the quarantines the follower holds.\<close>

definition tracks :: "follower \<Rightarrow> bool" where
  "tracks fo \<longleftrightarrow> (\<exists>rows. fo_journal fo = Some rows \<and> restore_active_multihub_quarantines rows = Inr (fo_quarantines fo))"

lemma utf8_fit_id: "length (utf8 s) \<le> n \<Longrightarrow> utf8_fit n s = s"
  by (induction n s rule: utf8_fit.induct) (auto simp: utf8_def)

lemma restore_rows_append: "restore_rows (xs @ ys) d = sum_bind (restore_rows xs d) (restore_rows ys)"
  by (induction xs arbitrary: d) (auto simp: sum_bind_def split: sum.splits)

lemma hex_of_length: "length (hex_of bs) = 2 * length bs"
  by (induction bs) (auto simp: hex_of_def)

lemma hex_of_alphabet: "c \<in> set (hex_of bs) \<Longrightarrow> c \<in> set ''0123456789abcdef''"
proof -
  assume "c \<in> set (hex_of bs)"
  then obtain b where b: "c = hex_digit (unat b div 16) \<or> c = hex_digit (unat (b :: byte) mod 16)"
    by (auto simp: hex_of_def)
  have "unat b < 256" using unsigned_less [of b, where ?'a = nat] by simp
  then have "unat b div 16 < 16" "unat b mod 16 < 16" by presburger+
  then obtain n where n: "n < 16" "c = hex_digit n" using b by blast
  have "\<forall>n \<in> set [0..<16]. hex_digit n \<in> set ''0123456789abcdef''" by code_simp
  then show ?thesis using n by auto
qed

lemma event_fingerprint_valid: "event_fingerprint pk e = Inr d \<Longrightarrow> valid_fingerprint (JString d)"
  by (auto simp: event_fingerprint_def sum_bind_Inr valid_fingerprint_def hex_of_length list_all_iff
      simp del: set_simps dest: hex_of_alphabet)

text \<open>What one row restores.\<close>

lemma restore_snoc:
  "restore_active_multihub_quarantines (rows @ [r]) =
     sum_bind (restore_active_multihub_quarantines rows)
       (\<lambda>d. if fr_kind r \<in> set quarantine_kinds then restore_row r d else Inr d)"
  by (auto simp: restore_active_multihub_quarantines_def restore_rows_append sum_bind_def split: sum.splits)

lemma restore_equivocation:
  assumes "quarantine_payload q = Some p" and "clean_label (q_peer q)" and "length (utf8 (q_observer q)) \<le> 256"
    and "r = \<lparr>fr_kind = ''multihub_equivocation'', fr_ts = q_detected_at q, fr_payload = p\<rparr>"
  shows "restore_row r d = Inr (dset (q_peer q) q d)"
proof -
  have v: "valid_fingerprint (JString (q_accepted q))" "valid_fingerprint (JString (q_conflicting q))"
    and p: "p = bounded_identity ''peer_id'' (q_peer q) @ bounded_identity ''observer_id'' (q_observer q)
        @ [(''seq'', JInt (q_seq q)), (''accepted_fingerprint'', JString (q_accepted q)),
           (''conflicting_fingerprint'', JString (q_conflicting q)),
           (''detected_at'', JFloat (Finite (q_detected_at q))), (''status'', JString ''quarantined'')]"
    using assms(1) by (auto simp: quarantine_payload_def split: if_splits)
  have f: "get_field p ''peer_id'' = JString (q_peer q)" "get_field p ''observer_id'' = JString (q_observer q)"
    "get_field p ''seq'' = JInt (q_seq q)" "get_field p ''accepted_fingerprint'' = JString (q_accepted q)"
    "get_field p ''conflicting_fingerprint'' = JString (q_conflicting q)"
    using assms(2,3) by (simp_all add: p bounded_identity_def clean_label_def utf8_fit_id get_field_def get_or_def)
  have s: "str_or_empty (JString x) = Inr x" for x by (simp add: str_or_empty_def)
  have q: "\<lparr>q_peer = q_peer q, q_seq = q_seq q, q_accepted = q_accepted q, q_conflicting = q_conflicting q,
      q_detected_at = q_detected_at q, q_observer = q_observer q\<rparr> = q" by (cases q) simp
  show ?thesis using assms(2) v
    by (simp add: restore_row_def assms(4) f s q sum_bind_def clean_label_def fingerprint_or_zero_def Let_def)
qed

lemma restore_recovery:
  assumes "record_multihub_equivocation_recovery peer now who reason generation rows = Inr (rows @ [r])"
    and "clean_label peer" and "clean_label generation"
  shows "fr_kind r = ''multihub_equivocation_recovery''" and "restore_row r d = Inr (ddel peer d)"
proof -
  have r: "r = \<lparr>fr_kind = ''multihub_equivocation_recovery'', fr_ts = now,
          fr_payload = bounded_identity ''peer_id'' peer @ bounded_identity ''recovered_by'' who
            @ bounded_identity ''new_log_generation'' generation
            @ [(''reason_sha256'', JString (hex_of (sha256 (utf8 reason)))),
               (''recovered_at'', JFloat (Finite now)), (''explicit_recovery'', JBool True),
               (''status'', JString ''recovered'')]\<rparr>"
    using assms(1) by (auto simp: record_multihub_equivocation_recovery_def split: if_splits)
  have f: "get_field (fr_payload r) ''peer_id'' = JString peer"
    "get_field (fr_payload r) ''new_log_generation'' = JString generation"
    "get_field (fr_payload r) ''explicit_recovery'' = JBool True"
    using assms(2,3) by (simp_all add: r bounded_identity_def clean_label_def utf8_fit_id get_field_def get_or_def)
  have s: "str_or_empty (JString x) = Inr x" for x by (simp add: str_or_empty_def)
  show "fr_kind r = ''multihub_equivocation_recovery''" by (simp add: r)
  then show "restore_row r d = Inr (ddel peer d)" using assms(2,3)
    by (simp add: restore_row_def f s sum_bind_def clean_label_def Let_def)
qed

lemma recovery_row:
  "record_multihub_equivocation_recovery peer now who reason generation rows = Inr rows' \<Longrightarrow> \<exists>r. rows' = rows @ [r]"
  by (auto simp: record_multihub_equivocation_recovery_def split: if_splits)

text \<open>An equivocation reports two fingerprints and a positive sequence number.\<close>

lemma remember_equivocation:
  "content_bound pk c \<Longrightarrow> remember_content_bound_event pk c ev = Inl (Equivocation p q a b) \<Longrightarrow>
   valid_fingerprint (JString a) \<and> valid_fingerprint (JString b) \<and> 1 \<le> q"
  by (auto simp: remember_content_bound_event_def sum_bind_Inl
      dest: fingerprint_error event_fingerprint_valid fingerprinted_positive [unfolded fingerprinted_def, OF exI]
      split: option.splits if_splits)

lemma batch_equivocation:
  "content_bound pk c \<Longrightarrow> validate_content_bound_batch pk peer after expected evs c = Inl (Equivocation p q a b) \<Longrightarrow>
   valid_fingerprint (JString a) \<and> valid_fingerprint (JString b) \<and> 1 \<le> q"
proof (induction evs arbitrary: expected c)
  case (Cons ev evs)
  have step: "content_bound pk c'" if "remember_content_bound_event pk c ev = Inr c'" for c'
    using remember_step [OF Cons.prems(1), of ev, unfolded that sum.case(2)] by blast
  from Cons.prems(2) show ?case
    using remember_equivocation [OF Cons.prems(1)] Cons.IH step by (auto simp: sum_bind_Inl split: if_splits)
qed simp

text \<open>
  A restart loses no quarantine.  If the journal restores the follower's quarantines, it still
  does after any poll that ends (an equivocation is journalled before it is reported) and after
  any operator recovery, when the peer id and the new log generation are stripped labels of at
  most 256 bytes and the observer id has at most 256 bytes.
\<close>

theorem restart_keeps_quarantines:
  assumes tr: "tracks fo" and cb: "content_bound pk (fo_events fo)" and peer: "clean_label peer"
    and obs: "length (utf8 (fo_observer fo)) \<le> 256"
  shows "tracks (fst (poll_finish pk now peer cursor fetched fo))
    \<and> (clean_label generation \<longrightarrow> recover_peer now peer who reason generation fo = Inr fo' \<longrightarrow> tracks fo')"
proof (intro conjI impI)
  obtain rows where rows: "fo_journal fo = Some rows"
      "restore_active_multihub_quarantines rows = Inr (fo_quarantines fo)"
    using tr by (auto simp: tracks_def)
  show "tracks (fst (poll_finish pk now peer cursor fetched fo))"
  proof (cases "poll_finish pk now peer cursor fetched fo" rule: prod.exhaust)
    case (Pair fo1 result)
    then show ?thesis
    proof (cases rule: poll_finish_cases)
      case (equivocation p q accepted conflicting)
      let ?q = "\<lparr>q_peer = peer, q_seq = q, q_accepted = accepted, q_conflicting = conflicting,
                 q_detected_at = now, q_observer = fo_observer fo\<rparr>"
      have p: "p = peer" by (rule equivocation_own_peer [OF equivocation(3)])
      obtain pl where pl: "quarantine_payload ?q = Some pl"
        using batch_equivocation [OF cb equivocation(3)] peer
        by (auto simp: quarantine_payload_def clean_label_def)
      note R = restore_equivocation [OF pl, simplified, OF peer obs refl]
      show ?thesis
        by (simp add: Pair equivocation(1) p quarantine_peer_def Let_def release_lock_def rows tracks_def
            record_multihub_equivocation_def pl restore_snoc quarantine_kinds_def R sum_bind_def)
    qed (use rows in \<open>auto simp: Pair tracks_def release_lock_def\<close>)
  qed
next
  assume gen: "clean_label generation" and run: "recover_peer now peer who reason generation fo = Inr fo'"
  obtain rows where rows: "fo_journal fo = Some rows"
      "restore_active_multihub_quarantines rows = Inr (fo_quarantines fo)"
    using tr by (auto simp: tracks_def)
  from run rows(1) obtain rows' where
    rec: "record_multihub_equivocation_recovery peer now who reason generation rows = Inr rows'"
    and fo': "fo_journal fo' = Some rows'" "fo_quarantines fo' = ddel peer (fo_quarantines fo)"
    by (auto simp: recover_peer_def Let_def split: if_splits sum.splits)
  obtain r where r: "rows' = rows @ [r]" using recovery_row [OF rec] by blast
  note R = restore_recovery [OF rec [unfolded r] peer gen]
  show "tracks fo'" by (simp add: tracks_def fo' r restore_snoc rows R quarantine_kinds_def sum_bind_def)
qed

text \<open>A quarantined peer that an operator recovers.\<close>

definition sample_quarantine :: quarantine where
  "sample_quarantine = \<lparr>q_peer = ''a'', q_seq = 3, q_accepted = zero_fingerprint,
     q_conflicting = replicate 64 (CHR ''f''), q_detected_at = 5, q_observer = ''me''\<rparr>"

theorem restart_keeps_quarantines_witness:
  "\<exists>fo fo'. tracks fo \<and> dget (fo_quarantines fo) ''a'' \<noteq> None
     \<and> recover_peer 6 ''a'' ''op'' ''rebuilt'' ''g2'' fo = Inr fo' \<and> tracks fo'"
proof -
  have q: "q_peer sample_quarantine = ''a''" "q_observer sample_quarantine = ''me''"
    by (simp_all add: sample_quarantine_def)
  have clean: "clean_label ''a''" "clean_label ''g2''" "length (utf8 ''me'') \<le> 256" by code_simp+
  have "quarantine_payload sample_quarantine \<noteq> None"
  proof -
    have "valid_fingerprint (JString (q_accepted sample_quarantine))"
      "valid_fingerprint (JString (q_conflicting sample_quarantine))" by code_simp+
    moreover have "py_strip ''a'' \<noteq> []" "\<not> q_seq sample_quarantine < 1" by code_simp+
    ultimately show ?thesis by (simp add: quarantine_payload_def q)
  qed
  then obtain p where p: "quarantine_payload sample_quarantine = Some p" by blast
  let ?r = "\<lparr>fr_kind = ''multihub_equivocation'', fr_ts = q_detected_at sample_quarantine, fr_payload = p\<rparr>"
  have R: "restore_row ?r [] = Inr [(''a'', sample_quarantine)]"
    using restore_equivocation [OF p, unfolded q, OF clean(1,3) refl] by simp
  let ?fo = "\<lparr>fo_events = [], fo_cursors = [], fo_quarantines = [(''a'', sample_quarantine)], fo_polling = [],
      fo_journal = Some [?r], fo_observer = ''me''\<rparr>"
  have tr: "tracks ?fo"
    using restore_snoc [of "[]" ?r] R
    by (simp add: tracks_def quarantine_kinds_def restore_active_multihub_quarantines_def sum_bind_def)
  have strips: "py_strip ''a'' \<noteq> []" "py_strip ''op'' \<noteq> []" "py_strip ''rebuilt'' \<noteq> []" "py_strip ''g2'' \<noteq> []"
    by code_simp+
  obtain fo' where run: "recover_peer 6 ''a'' ''op'' ''rebuilt'' ''g2'' ?fo = Inr fo'"
    using strips by (simp add: recover_peer_def record_multihub_equivocation_recovery_def Let_def)
  have cb: "content_bound pk (fo_events ?fo)" for pk by (simp add: content_bound_def)
  have "tracks fo'"
    using restart_keeps_quarantines [where generation = "''g2''", OF tr cb clean(1)] clean run by simp
  moreover have "dget (fo_quarantines ?fo) ''a'' \<noteq> None" by simp
  ultimately show ?thesis using tr run by blast
qed

text \<open>
  A peer id of more than 256 bytes is journalled truncated: after a restart its quarantine is
  filed under another name, and the peer itself is polled again.
\<close>

lemma utf8_fit_bound: "length (utf8 (utf8_fit n s)) \<le> n"
  by (induction n s rule: utf8_fit.induct) (auto simp: utf8_def)

lemma drop_while_part: "length (utf8 (dropWhile P s)) \<le> length (utf8 s)"
  by (induction s) (auto simp: utf8_def)

lemma utf8_rev: "length (utf8 (rev s)) = length (utf8 s)"
  by (induction s) (auto simp: utf8_def)

lemma py_strip_part: "length (utf8 (py_strip s)) \<le> length (utf8 s)"
  unfolding py_strip_def using drop_while_part [of py_isspace "rev (dropWhile py_isspace s)"]
    drop_while_part [of py_isspace s]
  by (simp add: utf8_rev)

lemma long_peer_quarantine_lost:
  assumes "256 < length (utf8 (q_peer q))" and "quarantine_payload q = Some p"
    and "restore_active_multihub_quarantines
      [\<lparr>fr_kind = ''multihub_equivocation'', fr_ts = q_detected_at q, fr_payload = p\<rparr>] = Inr active"
  shows "dget active (q_peer q) = None"
proof -
  have f: "get_field p ''peer_id'' = JString (utf8_fit 256 (q_peer q))"
    using assms(2) by (auto simp: quarantine_payload_def bounded_identity_def get_field_def get_or_def
        simp del: utf8_fit.simps split: if_splits)
  let ?name = "py_strip (utf8_fit 256 (q_peer q))"
  have "length (utf8 ?name) \<le> 256" using py_strip_part utf8_fit_bound le_trans by blast
  then have name: "?name \<noteq> q_peer q" using assms(1) by auto
  have s: "str_or_empty (JString x) = Inr x" for x by (simp add: str_or_empty_def)
  show ?thesis using assms(3) name
    by (simp add: restore_active_multihub_quarantines_def quarantine_kinds_def restore_row_def f s sum_bind_Inr
        Let_def split: if_splits) auto
qed

end
