(* ===== verification/Atomic_Operations.thy ===== *)
theory Atomic_Operations
  imports Merkle
begin

text \<open>
  Keyed operations that take effect once: the request digest and the value objects of
  \<open>core/atomic_operations.py\<close>, the bounded response cache of \<open>core/idempotency.py\<close>, the
  operation table of \<open>core/persistence_operations.py\<close> and
  \<open>core/persistence_operation_commit.py\<close>, the guard of \<open>core/hub_ledger_guard.py\<close> and the actor
  of \<open>core/state_transaction.py\<close>.  The actor has one await point, the append in a worker
  thread: \<open>atomic_begin\<close> is what runs before it, \<open>atomic_finish\<close> what runs after it, and a crash
  may come between them, before, after or in the middle of the append.  The subject of the actor and the
  mutation of a request are type parameters and arguments.

  Not modelled: the commit time and the response hash of a stored operation, the retained
  operation budget and the predecessor check (no verb of this development passes them), and
  the stage hooks.
\<close>

section \<open>Keys and digests\<close>

definition DIGEST_EXCLUDED_FIELDS :: "string list" where
  "DIGEST_EXCLUDED_FIELDS = [''timestamp'', ''client_timestamp'', ''auth'', ''signature'']"

text \<open>\<open>allow_nan=False\<close> refuses a float that is not finite.\<close>

fun json_finite :: "json \<Rightarrow> bool" where
  "json_finite (JFloat f) = (case f of Finite x \<Rightarrow> True | _ \<Rightarrow> False)"
| "json_finite (JList js) = list_all json_finite js"
| "json_finite (JObject kvs) = list_all (\<lambda>(k, v). json_finite v) kvs"
| "json_finite v = True"

definition ascii_bytes :: "string \<Rightarrow> bytes" where
  "ascii_bytes s = map (\<lambda>c. word_of_nat (code_of c)) s"

text \<open>\<open>None\<close> is the \<open>ValueError\<close> of \<open>json.dumps\<close>.\<close>

definition canonical_request_digest :: "(time \<Rightarrow> string) \<Rightarrow> json_object \<Rightarrow> string option" where
  "canonical_request_digest fl data =
     (let semantic = JObject (filter (\<lambda>(k, _). k \<notin> set DIGEST_EXCLUDED_FIELDS) data) in
      if json_finite semantic then Some (hex_of (sha256 (ascii_bytes (json_dumps fl semantic)))) else None)"

text \<open>\<open>str(data.get(key) or '')\<close>\<close>

definition text_field :: "json_object \<Rightarrow> string \<Rightarrow> journal_error + string" where
  "text_field data key =
     (let v = get_field data key in if json_truthy v then py_str v else Inr [])"

text \<open>\<open>str.lower\<close> for code points below 256.\<close>

definition py_lower :: "string \<Rightarrow> string" where
  "py_lower s = map (\<lambda>c. let n = code_of c in
     if 65 \<le> n \<and> n \<le> 90 \<or> 192 \<le> n \<and> n \<le> 222 \<and> n \<noteq> 215 then char_of (n + 32) else c) s"

definition idempotency_key :: "json_object \<Rightarrow> journal_error + string" where
  "idempotency_key data =
     sum_bind (text_field data ''idem_key'') (\<lambda>raw.
       if raw = [] then Inr []
       else sum_bind (text_field data ''sender'') (\<lambda>sender.
         sum_bind (text_field data ''type'') (\<lambda>msg_type.
           Inr (py_strip sender @ CHR 0x00 # py_lower (py_strip msg_type) @ CHR 0x00 # raw))))"

definition idempotency_conflict_response :: "string \<Rightarrow> json_object \<Rightarrow> json_object" where
  "idempotency_conflict_response sender reference =
     [(''sender'', JString ''SynapseHub''), (''target'', JString sender), (''type'', JString ''error''),
      (''payload'', JString ''Idempotency key was already used for a different request.''),
      (''error_code'', JString ''idempotency_conflict'')]
     @ List.map_filter (\<lambda>field. map_option (Pair field) (dget reference field)) [''timestamp'', ''hub_id'']"

section \<open>The response cache\<close>

record op_record =
  or_key :: string
  or_digest :: "string option"
  or_response :: json_object

text \<open>The store is in order of use, the most recent last.\<close>

record idem_cache =
  ic_max_keys :: int
  ic_store :: "(string, op_record) pydict"

definition DEFAULT_MAX_KEYS :: int where "DEFAULT_MAX_KEYS = 1024"

definition new_cache :: "int \<Rightarrow> idem_cache" where
  "new_cache max_keys = \<lparr>ic_max_keys = max max_keys 1, ic_store = []\<rparr>"

definition move_to_end :: "'k \<Rightarrow> 'v \<Rightarrow> ('k, 'v) pydict \<Rightarrow> ('k, 'v) pydict" where
  "move_to_end k v d = ddel k d @ [(k, v)]"

definition get_record :: "string \<Rightarrow> idem_cache \<Rightarrow> idem_cache \<times> op_record option" where
  "get_record key c =
     (case dget (ic_store c) key of
        None \<Rightarrow> (c, None)
      | Some r \<Rightarrow> (c\<lparr>ic_store := move_to_end key r (ic_store c)\<rparr>, Some r))"

text \<open>\<open>while len(store) > max_keys: popitem(last=False)\<close>\<close>

definition evict_oldest :: "int \<Rightarrow> ('k \<times> 'v) list \<Rightarrow> ('k \<times> 'v) list" where
  "evict_oldest bound xs = drop (length xs - nat bound) xs"

definition cache_put :: "op_record \<Rightarrow> idem_cache \<Rightarrow> idem_cache" where
  "cache_put r c = c\<lparr>ic_store := evict_oldest (ic_max_keys c) (move_to_end (or_key r) r (ic_store c))\<rparr>"

section \<open>The operation table\<close>

record stored_operation =
  so_key :: string
  so_digest :: string
  so_response :: json_object
  so_first_seq :: int
  so_commit_seq :: int

text \<open>
  The event log with its next sequence number, the completed operations in commit order and the
  outbox of evidence intents with the receipt that settled each.
\<close>

record operation_store =
  st_rows :: "journal_event list"
  st_next :: int
  st_operations :: "(string, stored_operation) pydict"
  st_outbox :: "(string, json_object \<times> string option) pydict"

definition append_rows :: "(string \<times> json_object) list \<Rightarrow> operation_store \<Rightarrow> operation_store" where
  "append_rows rows st =
     st\<lparr>st_rows := st_rows st @ map (\<lambda>(i, kind, p). \<lparr>ev_seq = st_next st + int i, ev_kind = kind, ev_payload = p\<rparr>)
          (enumerate 0 rows),
        st_next := st_next st + int (length rows)\<rparr>"

record op_draft =
  od_response :: json_object
  od_events :: "(string \<times> json_object) list"
  od_intent :: json_object
  od_seq_field :: "string option"
  od_finalize :: "(json_object \<Rightarrow> int list \<Rightarrow> json_object) option"

datatype commit_error = InvalidOperation | StorageFailed

datatype outcome = Inserted | Replayed | Conflict | Uncommitted

text \<open>\<open>prepare_operation\<close>: the checks before the transaction is opened.\<close>

definition operation_admissible :: "string \<Rightarrow> string \<Rightarrow> op_draft \<Rightarrow> bool" where
  "operation_admissible key digest d \<longleftrightarrow>
     \<not> (od_finalize d \<noteq> None \<and> od_seq_field d \<noteq> None)
     \<and> key \<noteq> [] \<and> length digest = 64 \<and> list_all (\<lambda>c. c \<in> set ''0123456789abcdef'') digest
     \<and> list_all (\<lambda>(kind, p). json_finite (JObject p)) (od_events d) \<and> od_events d \<noteq> []
     \<and> json_finite (JObject (od_response d)) \<and> json_finite (JObject (od_intent d))"

definition final_response :: "op_draft \<Rightarrow> int list \<Rightarrow> json_object" where
  "final_response d seqs =
     (case od_seq_field d of
        Some field \<Rightarrow> dset field (JInt (hd seqs)) (od_response d)
      | None \<Rightarrow> (case od_finalize d of Some f \<Rightarrow> f (od_response d) seqs | None \<Rightarrow> od_response d))"

text \<open>The compatibility row of a completed operation, \<open>idempotency\<close>.\<close>

definition completion_row :: "stored_operation \<Rightarrow> string \<times> json_object" where
  "completion_row so =
     (''idempotency'',
      [(''key'', JString (so_key so)), (''request_digest'', JString (so_digest so)),
       (''response'', JObject (so_response so)), (''first_event_seq'', JInt (so_first_seq so)),
       (''commit_seq'', JInt (so_commit_seq so))])"

text \<open>
  One transaction.  \<open>disk\<close> tells whether the store lets it commit; a failed transaction is
  rolled back.
\<close>

definition commit_operation ::
  "bool \<Rightarrow> string \<Rightarrow> string \<Rightarrow> op_draft \<Rightarrow> operation_store
   \<Rightarrow> operation_store \<times> (commit_error + (outcome \<times> stored_operation))" where
  "commit_operation disk key digest d st =
     (if \<not> operation_admissible key digest d then (st, Inl InvalidOperation)
      else if \<not> disk then (st, Inl StorageFailed)
      else (case dget (st_operations st) key of
              Some so \<Rightarrow> (st, Inr (if so_digest so = digest then Replayed else Conflict, so))
            | None \<Rightarrow>
                (let n = length (od_events d);
                     seqs = map (\<lambda>i. st_next st + int i) [0..<n];
                     response = final_response d seqs;
                     so = \<lparr>so_key = key, so_digest = digest, so_response = response,
                           so_first_seq = hd seqs, so_commit_seq = last seqs + 1\<rparr>
                 in if \<not> json_finite (JObject response) then (st, Inl InvalidOperation)
                    else ((append_rows (od_events d @ [completion_row so]) st)
                            \<lparr>st_operations := dset key so (st_operations st),
                             st_outbox := dset key (od_intent d, None) (st_outbox st)\<rparr>,
                          Inr (Inserted, so)))))"

text \<open>
  \<open>mark_operation_intent_delivered\<close>: whether the intent was settled now, or \<open>None\<close> for its
  \<open>ValueError\<close> and \<open>KeyError\<close>.
\<close>

definition settle_intent :: "string \<Rightarrow> string \<Rightarrow> operation_store \<Rightarrow> operation_store \<times> bool option" where
  "settle_intent key receipt st =
     (if key = [] \<or> receipt = [] then (st, None)
      else (case dget (st_outbox st) key of
              None \<Rightarrow> (st, None)
            | Some (intent, None) \<Rightarrow> (st\<lparr>st_outbox := dset key (intent, Some receipt) (st_outbox st)\<rparr>, Some True)
            | Some (intent, Some r) \<Rightarrow> (st, if r = receipt then Some False else None)))"

section \<open>The actor\<close>

text \<open>
  A request of a verb: its key and digest (none when it has no key or there is no operation
  table to use), the mutation of a private copy, the draft of the response, and the rows the
  unkeyed path (or a keyed request without a draft) persists.
\<close>

record ('s, 'r) request =
  rq_sender :: string
  rq_key :: "(string \<times> string) option"
  rq_mutate :: "'s \<Rightarrow> 's \<times> 'r"
  rq_prepare :: "'r \<Rightarrow> op_draft option"
  rq_persist :: "'r \<Rightarrow> (string \<times> json_object) list"

record 'r execution =
  ex_outcome :: outcome
  ex_mutation :: "'r option"
  ex_response :: "json_object option"

record ('s, 'r) pending =
  pd_request :: "('s, 'r) request"
  pd_candidate :: 's
  pd_result :: 'r

record ('s, 'r) actor =
  ac_subject :: 's
  ac_cache :: idem_cache
  ac_store :: operation_store
  ac_pending :: "('s, 'r) pending option"

text \<open>\<open>lookup_operation\<close>: the cache first, then the table, whose record is cached again.\<close>

definition record_of :: "stored_operation \<Rightarrow> op_record" where
  "record_of so = \<lparr>or_key = so_key so, or_digest = Some (so_digest so), or_response = so_response so\<rparr>"

definition lookup_operation :: "string \<Rightarrow> ('s, 'r) actor \<Rightarrow> ('s, 'r) actor \<times> op_record option" where
  "lookup_operation key ac =
     (let (cache, found) = get_record key (ac_cache ac) in
      case found of
        Some r \<Rightarrow> (ac\<lparr>ac_cache := cache\<rparr>, Some r)
      | None \<Rightarrow>
          (case dget (st_operations (ac_store ac)) key of
             None \<Rightarrow> (ac\<lparr>ac_cache := cache\<rparr>, None)
           | Some so \<Rightarrow> (ac\<lparr>ac_cache := cache_put (record_of so) cache\<rparr>, Some (record_of so))))"

text \<open>A cached record without a digest is an old one and is replayed (\<open>allow_legacy_digestless_replay\<close>).\<close>

definition answer_existing :: "string \<Rightarrow> string \<Rightarrow> op_record \<Rightarrow> 'r execution" where
  "answer_existing sender digest r =
     (if or_digest r = Some digest \<or> or_digest r = None
      then \<lparr>ex_outcome = Replayed, ex_mutation = None, ex_response = Some (or_response r)\<rparr>
      else \<lparr>ex_outcome = Conflict, ex_mutation = None,
            ex_response = Some (idempotency_conflict_response sender (or_response r))\<rparr>)"

text \<open>The lock is held by the pending request; the caller waits for it.\<close>

definition atomic_begin :: "('s, 'r) request \<Rightarrow> ('s, 'r) actor \<Rightarrow> ('s, 'r) actor \<times> 'r execution option" where
  "atomic_begin rq ac =
     (let start = (\<lambda>ac'. let (candidate, result) = rq_mutate rq (ac_subject ac') in
                (ac'\<lparr>ac_pending := Some \<lparr>pd_request = rq, pd_candidate = candidate, pd_result = result\<rparr>\<rparr>, None))
      in case rq_key rq of
           None \<Rightarrow> start ac
         | Some (key, digest) \<Rightarrow>
             (case lookup_operation key ac of
                (ac', Some r) \<Rightarrow> (ac', Some (answer_existing (rq_sender rq) digest r))
              | (ac', None) \<Rightarrow> start ac'))"

text \<open>
  What the worker thread writes for the pending request.  \<open>disk\<close> is the number of transactions the
  store lets commit before it fails.  A keyed operation is one transaction.  The rows of the plain path
  are appended one by one, each its own transaction: a failure leaves the rows before it in the log.
\<close>

definition plain_append ::
  "nat \<Rightarrow> (string \<times> json_object) list \<Rightarrow> operation_store
   \<Rightarrow> operation_store \<times> (commit_error + (outcome \<times> stored_operation option))" where
  "plain_append disk rows st =
     (append_rows (take disk rows) st, if length rows \<le> disk then Inr (Uncommitted, None) else Inl StorageFailed)"

definition pending_append ::
  "nat \<Rightarrow> ('s, 'r) pending \<Rightarrow> operation_store
   \<Rightarrow> operation_store \<times> (commit_error + (outcome \<times> stored_operation option))" where
  "pending_append disk p st =
     (let rq = pd_request p; r = pd_result p; plain = plain_append disk (rq_persist rq r) st
      in case rq_key rq of
           None \<Rightarrow> plain
         | Some (key, digest) \<Rightarrow>
             (case rq_prepare rq r of
                None \<Rightarrow> plain
              | Some d \<Rightarrow>
                  (case commit_operation (0 < disk) key digest d st of
                     (st', Inl e) \<Rightarrow> (st', Inl e)
                   | (st', Inr (oc, so)) \<Rightarrow> (st', Inr (oc, Some so)))))"

text \<open>
  After the append: a failure discards the candidate, an inserted or uncommitted request
  publishes it.  A cancelled caller sees its cancellation only after this.
\<close>

definition atomic_finish :: "nat \<Rightarrow> ('s, 'r) actor \<Rightarrow> ('s, 'r) actor \<times> (commit_error + 'r execution)" where
  "atomic_finish disk ac =
     (case ac_pending ac of
        None \<Rightarrow> (ac, Inl InvalidOperation)
      | Some p \<Rightarrow>
          (let free = ac\<lparr>ac_pending := None\<rparr> in
           case pending_append disk p (ac_store ac) of
             (st, Inl e) \<Rightarrow> (free\<lparr>ac_store := st\<rparr>, Inl e)
           | (st, Inr (oc, None)) \<Rightarrow>
               (free\<lparr>ac_store := st, ac_subject := pd_candidate p\<rparr>,
                Inr \<lparr>ex_outcome = oc, ex_mutation = Some (pd_result p), ex_response = None\<rparr>)
           | (st, Inr (oc, Some so)) \<Rightarrow>
               (let remembered = free\<lparr>ac_store := st, ac_cache := cache_put (record_of so) (ac_cache ac)\<rparr> in
                (case oc of
                   Inserted \<Rightarrow> (remembered\<lparr>ac_subject := pd_candidate p\<rparr>,
                     Inr \<lparr>ex_outcome = Inserted, ex_mutation = Some (pd_result p), ex_response = Some (so_response so)\<rparr>)
                 | Replayed \<Rightarrow> (remembered,
                     Inr \<lparr>ex_outcome = Replayed, ex_mutation = None, ex_response = Some (so_response so)\<rparr>)
                 | _ \<Rightarrow> (remembered,
                     Inr \<lparr>ex_outcome = Conflict, ex_mutation = None,
                          ex_response = Some (idempotency_conflict_response (rq_sender (pd_request p))
                            (so_response so))\<rparr>)))))"

text \<open>The whole of a request when no other one comes between: answered, or mutated and appended.\<close>

definition run_request ::
  "nat \<Rightarrow> ('s, 'r) request \<Rightarrow> ('s, 'r) actor \<Rightarrow> ('s, 'r) actor \<times> (commit_error + 'r execution)" where
  "run_request disk rq ac =
     (case atomic_begin rq ac of
        (ac', Some ex) \<Rightarrow> (ac', Inr ex)
      | (ac', None) \<Rightarrow> atomic_finish disk ac')"

text \<open>
  A crash leaves the store, with as much of the pending append as had been committed; the restart rebuilds
  the subject and seeds the cache with the responses of the replay and then the operation table.
\<close>

definition crash_store :: "nat \<Rightarrow> ('s, 'r) actor \<Rightarrow> operation_store" where
  "crash_store appended ac =
     (case ac_pending ac of None \<Rightarrow> ac_store ac | Some p \<Rightarrow> fst (pending_append appended p (ac_store ac)))"

definition read_operations :: "operation_store \<Rightarrow> op_record list" where
  "read_operations st = map (record_of \<circ> snd) (st_operations st)"

definition seed_cache :: "(string, json_object) pydict \<Rightarrow> operation_store \<Rightarrow> idem_cache" where
  "seed_cache replayed st =
     fold cache_put
       (map (\<lambda>(k, r). \<lparr>or_key = k, or_digest = None, or_response = r\<rparr>) replayed @ read_operations st)
       (new_cache DEFAULT_MAX_KEYS)"

definition restart_actor :: "'s \<Rightarrow> (string, json_object) pydict \<Rightarrow> operation_store \<Rightarrow> ('s, 'r) actor" where
  "restart_actor subject replayed st =
     \<lparr>ac_subject = subject, ac_cache = seed_cache replayed st, ac_store = st, ac_pending = None\<rparr>"

end
