(* ===== verification/Release_Receipt.thy ===== *)
theory Release_Receipt
  imports Journal
begin

text \<open>
  The evidence receipt of a claim release (\<open>core/receipts.py\<close>): bounded cleaning of the
  caller's lists, the advisory assessment and the progress note made of it.  \<open>fl\<close> is the text
  \<open>float.__repr__\<close> gives a finite float; the \<open>str\<close> of a float or a container inside a list is
  outside the model.
\<close>

definition MAX_RELEASE_RECEIPT_ITEMS :: nat where "MAX_RELEASE_RECEIPT_ITEMS = 50"
definition MAX_RELEASE_RECEIPT_ITEM_CHARS :: nat where "MAX_RELEASE_RECEIPT_ITEM_CHARS = 500"
definition DEFAULT_RELEASE_EVIDENCE_FRESHNESS_SECONDS :: time where
  "DEFAULT_RELEASE_EVIDENCE_FRESHNESS_SECONDS = 3600"

text \<open>\<open>room\<close> is how many more items fit.\<close>

fun clean_items_loop :: "nat \<Rightarrow> json list \<Rightarrow> journal_error + string list" where
  "clean_items_loop room [] = Inr []"
| "clean_items_loop room (v # vs) =
     sum_bind (py_str v) (\<lambda>s.
       let text = py_strip s in
       if text = [] then clean_items_loop room vs
       else if room \<le> 1 then Inr [take MAX_RELEASE_RECEIPT_ITEM_CHARS text]
       else sum_bind (clean_items_loop (room - 1) vs) (\<lambda>rest.
         Inr (take MAX_RELEASE_RECEIPT_ITEM_CHARS text # rest)))"

definition clean_receipt_items :: "json \<Rightarrow> journal_error + string list" where
  "clean_receipt_items raw =
     clean_items_loop MAX_RELEASE_RECEIPT_ITEMS
       (case raw of JString s \<Rightarrow> [JString s] | JList vs \<Rightarrow> vs | _ \<Rightarrow> [])"

record release_receipt =
  rr_task_id :: string
  rr_owner :: string
  rr_evidence :: "string list"
  rr_artifacts :: "string list"
  rr_known_failures :: "string list"
  rr_changed_files :: "string list"
  rr_generated_artifacts :: "string list"
  rr_approvals :: "string list"
  rr_epistemic_status :: string
  rr_epistemic_reasons :: "string list"
  rr_confidence :: string
  rr_freshness :: "pyfloat option"

text \<open>
  \<open>float(str(value))\<close>; a float's text reads back as the float itself, and no text of a
  container or of a keyword value reads as a number.
\<close>

definition float_of_text :: "json \<Rightarrow> pyfloat option" where
  "float_of_text v =
     (case v of
        JFloat f \<Rightarrow> Some f
      | JInt i \<Rightarrow> py_float_of_string (show_int i)
      | JString s \<Rightarrow> py_float_of_string s
      | _ \<Rightarrow> None)"

definition older_than :: "pyfloat \<Rightarrow> time \<Rightarrow> bool" where
  "older_than f bound = (case f of Finite x \<Rightarrow> bound < x | PosInf \<Rightarrow> True | _ \<Rightarrow> False)"

definition assess_release_evidence :: "release_receipt \<Rightarrow> json \<Rightarrow> string \<times> string list" where
  "assess_release_evidence r freshness_seconds =
     (let positive = rr_evidence r \<noteq> [] \<or> rr_artifacts r \<noteq> [] \<or> rr_changed_files r \<noteq> []
            \<or> rr_generated_artifacts r \<noteq> [] \<or> rr_approvals r \<noteq> [];
          reasons = (if positive then [''positive evidence present'']
            else [''no positive evidence, artifact, changed file, generated artifact, or approval''])
      in if rr_known_failures r \<noteq> [] then (''degraded'', ''known failures declared'' # reasons)
         else if \<not> positive then (''unsupported'', reasons)
         else (case float_of_text freshness_seconds of
                 None \<Rightarrow> (''needs_freshness'', reasons @ [''freshness_seconds missing''])
               | Some age \<Rightarrow>
                   (if older_than age DEFAULT_RELEASE_EVIDENCE_FRESHNESS_SECONDS
                    then (''stale'', reasons @ [''evidence age exceeds 3600 seconds''])
                    else (''unverified'', reasons @ [''fresh evidence present but unverified'']))))"

text \<open>\<open>max(value, 0.0)\<close>\<close>

definition at_least_zero :: "pyfloat \<Rightarrow> pyfloat" where
  "at_least_zero f = (case f of Finite x \<Rightarrow> Finite (max x 0) | NegInf \<Rightarrow> Finite 0 | _ \<Rightarrow> f)"

text \<open>The fields of the request; an absent list is \<open>()\<close>, an absent confidence the empty text.\<close>

definition build_release_receipt :: "string \<Rightarrow> string \<Rightarrow> json_object \<Rightarrow> journal_error + release_receipt" where
  "build_release_receipt task agent data =
     (let items = (\<lambda>field. clean_receipt_items (get_or data field (JList [])));
          freshness = get_field data ''freshness_seconds'' in
      sum_bind (items ''evidence'') (\<lambda>ev.
      sum_bind (items ''artifacts'') (\<lambda>ar.
      sum_bind (items ''known_failures'') (\<lambda>kf.
      sum_bind (items ''changed_files'') (\<lambda>cf.
      sum_bind (items ''generated_artifacts'') (\<lambda>ga.
      sum_bind (items ''approvals'') (\<lambda>ap.
      sum_bind (py_str (get_or data ''confidence'' (JString []))) (\<lambda>conf.
        let r = \<lparr>rr_task_id = py_strip task, rr_owner = py_strip agent, rr_evidence = ev, rr_artifacts = ar,
                 rr_known_failures = kf, rr_changed_files = cf, rr_generated_artifacts = ga, rr_approvals = ap,
                 rr_epistemic_status = [], rr_epistemic_reasons = [],
                 rr_confidence = take MAX_RELEASE_RECEIPT_ITEM_CHARS (py_strip conf),
                 rr_freshness = (if freshness = JNull then None else map_option at_least_zero (float_of_text freshness))\<rparr>;
            (verdict, reasons) = assess_release_evidence r freshness
        in Inr (r\<lparr>rr_epistemic_status := verdict, rr_epistemic_reasons := reasons\<rparr>)))))))))"

definition release_receipt_has_evidence :: "release_receipt \<Rightarrow> bool" where
  "release_receipt_has_evidence r \<longleftrightarrow>
     rr_evidence r \<noteq> [] \<or> rr_artifacts r \<noteq> [] \<or> rr_known_failures r \<noteq> [] \<or> rr_changed_files r \<noteq> []
     \<or> rr_generated_artifacts r \<noteq> [] \<or> rr_approvals r \<noteq> [] \<or> rr_confidence r \<noteq> [] \<or> rr_freshness r \<noteq> None"

definition receipt_as_dict :: "release_receipt \<Rightarrow> json_object" where
  "receipt_as_dict r =
     (let strings = (\<lambda>xs. JList (map JString xs)) in
      [(''task_id'', JString (rr_task_id r)), (''owner'', JString (rr_owner r)), (''released'', JBool True),
       (''evidence'', strings (rr_evidence r)), (''artifacts'', strings (rr_artifacts r)),
       (''known_failures'', strings (rr_known_failures r)), (''changed_files'', strings (rr_changed_files r)),
       (''generated_artifacts'', strings (rr_generated_artifacts r)), (''approvals'', strings (rr_approvals r)),
       (''epistemic_status'', JString (rr_epistemic_status r)),
       (''epistemic_reasons'', strings (rr_epistemic_reasons r))]
      @ (if rr_confidence r = [] then [] else [(''confidence'', JString (rr_confidence r))])
      @ (case rr_freshness r of None \<Rightarrow> [] | Some f \<Rightarrow> [(''freshness_seconds'', JFloat f)]))"

fun join_with :: "string \<Rightarrow> string list \<Rightarrow> string" where
  "join_with sep [] = []"
| "join_with sep [x] = x"
| "join_with sep (x # xs) = x @ sep @ join_with sep xs"

fun float_text :: "(time \<Rightarrow> string) \<Rightarrow> pyfloat \<Rightarrow> string" where
  "float_text fl (Finite x) = fl x"
| "float_text fl PosInf = ''inf''"
| "float_text fl NegInf = ''-inf''"
| "float_text fl NaN = ''nan''"

definition format_release_receipt_note :: "(time \<Rightarrow> string) \<Rightarrow> release_receipt \<Rightarrow> string" where
  "format_release_receipt_note fl r =
     (let part = (\<lambda>label xs. if xs = [] then [] else [label @ join_with '', '' xs]) in
      ''release receipt: '' @ join_with ''; ''
        (part ''evidence='' (rr_evidence r) @ part ''artifacts='' (rr_artifacts r)
         @ part ''known_failures='' (rr_known_failures r) @ part ''changed_files='' (rr_changed_files r)
         @ part ''generated_artifacts='' (rr_generated_artifacts r) @ part ''approvals='' (rr_approvals r)
         @ (if rr_confidence r = [] then [] else [''confidence='' @ rr_confidence r])
         @ (case rr_freshness r of None \<Rightarrow> [] | Some f \<Rightarrow> [''freshness_seconds='' @ float_text fl f])
         @ [''epistemic_status='' @ rr_epistemic_status r]
         @ [''epistemic_reasons='' @ join_with '', '' (rr_epistemic_reasons r)]))"

section \<open>Every receipt is well formed\<close>














text \<open>An age that is not a number counts as fresh.\<close>

lemma nan_age_counts_as_fresh:
  "case build_release_receipt ''T'' ''alice'' [(''evidence'', JString ''pytest''), (''freshness_seconds'', JString ''nan'')] of
     Inr r \<Rightarrow> rr_epistemic_status r = ''unverified'' | Inl e \<Rightarrow> False"
  by code_simp

end
