(* ===== verification/Json_Text.thy ===== *)
theory Json_Text
  imports Fingerprint Merkle
begin

text \<open>
  JSON text: \<open>json.loads\<close> over characters below 256 and \<open>json.dumps\<close> with
  \<open>ensure_ascii=False\<close>, sorted keys and compact separators, and the proof that loading what was
  dumped gives the value back.  A text with an escape of a larger character is outside the model.
\<close>

section \<open>Writing\<close>

text \<open>\<open>ensure_ascii=False\<close> keeps every character above 126 as it is.\<close>

definition json_escape_raw :: "char \<Rightarrow> string" where
  "json_escape_raw c = (if 126 < code_of c then [c] else json_escape c)"

definition json_string_raw :: "string \<Rightarrow> string" where
  "json_string_raw s = CHR 0x22 # concat (map json_escape_raw s) @ [CHR 0x22]"

fun json_dumps_raw :: "(time \<Rightarrow> string) \<Rightarrow> json \<Rightarrow> string" where
  "json_dumps_raw fl JNull = ''null''"
| "json_dumps_raw fl (JBool b) = (if b then ''true'' else ''false'')"
| "json_dumps_raw fl (JInt i) = show_int i"
| "json_dumps_raw fl (JFloat f) = json_float fl f"
| "json_dumps_raw fl (JString s) = json_string_raw s"
| "json_dumps_raw fl (JList js) = CHR 0x5B # py_join CHR 0x2C (map (json_dumps_raw fl) js) @ [CHR 0x5D]"
| "json_dumps_raw fl (JObject kvs) =
     CHR 0x7B # py_join CHR 0x2C
       (map snd (sort_key fst (map (\<lambda>(k, v). (k, json_string_raw k @ CHR 0x3A # json_dumps_raw fl v)) kvs)))
       @ [CHR 0x7D]"

section \<open>Reading\<close>

datatype 'a parsed = Parsed 'a string | NotJson | OutsideText

fun parsed_bind :: "'a parsed \<Rightarrow> ('a \<Rightarrow> string \<Rightarrow> 'b parsed) \<Rightarrow> 'b parsed" where
  "parsed_bind (Parsed x rest) f = f x rest"
| "parsed_bind NotJson f = NotJson"
| "parsed_bind OutsideText f = OutsideText"

definition skip_ws :: "string \<Rightarrow> string" where
  "skip_ws s = dropWhile (\<lambda>c. code_of c \<in> {9, 10, 13, 32}) s"

text \<open>The character of a simple escape.\<close>

definition unescape :: "char \<Rightarrow> char option" where
  "unescape e =
     (if e = CHR 0x22 \<or> e = CHR 0x5C \<or> e = CHR 0x2F then Some e
      else map_option char_of (map_of [(CHR ''b'', 8 :: nat), (CHR ''f'', 12), (CHR ''n'', 10), (CHR ''r'', 13), (CHR ''t'', 9)] e))"

definition hex4 :: "char \<Rightarrow> char \<Rightarrow> char \<Rightarrow> char \<Rightarrow> nat option" where
  "hex4 a b c d =
     (case (hex_value a, hex_value b, hex_value c, hex_value d) of
        (Some w, Some x, Some y, Some z) \<Rightarrow> Some (((w * 16 + x) * 16 + y) * 16 + z)
      | _ \<Rightarrow> None)"

text \<open>The rest of a string after its opening quote; control characters are refused.\<close>

fun parse_chars :: "string \<Rightarrow> string parsed" where
  "parse_chars [] = NotJson"
| "parse_chars (c # cs) =
     (if c = CHR 0x22 then Parsed [] cs
      else if c = CHR 0x5C
      then (case cs of
              [] \<Rightarrow> NotJson
            | e # es \<Rightarrow>
                (if e = CHR ''u''
                 then (case es of
                         a # b # d # f # rest \<Rightarrow>
                           (case hex4 a b d f of
                              None \<Rightarrow> NotJson
                            | Some n \<Rightarrow> (if 256 \<le> n then OutsideText
                                else parsed_bind (parse_chars rest) (\<lambda>s. Parsed (char_of n # s))))
                       | _ \<Rightarrow> NotJson)
                 else (case unescape e of
                         None \<Rightarrow> NotJson
                       | Some x \<Rightarrow> parsed_bind (parse_chars es) (\<lambda>s. Parsed (x # s)))))
      else if code_of c < 32 then NotJson
      else parsed_bind (parse_chars cs) (\<lambda>s. Parsed (c # s)))"

definition is_digit :: "char \<Rightarrow> bool" where
  "is_digit c \<longleftrightarrow> digit_value c \<noteq> None"

text \<open>The integer part: one zero, or digits that do not start with zero.\<close>

definition int_token :: "string \<Rightarrow> (string \<times> string) option" where
  "int_token s =
     (let (sign, body) = (case s of c # cs \<Rightarrow> (if c = CHR ''-'' then ([c], cs) else ([], s)) | [] \<Rightarrow> ([], s))
      in case body of
           [] \<Rightarrow> None
         | d # ds \<Rightarrow>
             (if d = CHR ''0'' then Some (sign @ [d], ds)
              else if is_digit d then Some (sign @ d # takeWhile is_digit ds, dropWhile is_digit ds)
              else None))"

definition frac_token :: "string \<Rightarrow> string \<times> string" where
  "frac_token s =
     (case s of
        c # d # ds \<Rightarrow>
          (if c = CHR ''.'' \<and> is_digit d then (c # d # takeWhile is_digit ds, dropWhile is_digit ds) else ([], s))
      | _ \<Rightarrow> ([], s))"

definition exp_token :: "string \<Rightarrow> string \<times> string" where
  "exp_token s =
     (case s of
        c # cs \<Rightarrow>
          (if c \<in> {CHR ''e'', CHR ''E''}
           then (let (sg, ds) = (case cs of x # xs \<Rightarrow> (if x \<in> {CHR ''+'', CHR ''-''} then ([x], xs) else ([], cs)) | [] \<Rightarrow> ([], cs))
                 in (case ds of
                       d # _ \<Rightarrow> (if is_digit d then (c # sg @ takeWhile is_digit ds, dropWhile is_digit ds) else ([], s))
                     | [] \<Rightarrow> ([], s)))
           else ([], s))
      | [] \<Rightarrow> ([], s))"

definition parse_number :: "string \<Rightarrow> json parsed" where
  "parse_number s =
     (case int_token s of
        None \<Rightarrow> NotJson
      | Some (tok, rest1) \<Rightarrow>
          (let (fr, rest2) = frac_token rest1; (ex, rest3) = exp_token rest2
           in if fr = [] \<and> ex = []
              then (case py_int_of_string tok of Some i \<Rightarrow> Parsed (JInt i) rest3 | None \<Rightarrow> NotJson)
              else (case py_float_of_string (tok @ fr @ ex) of Some f \<Rightarrow> Parsed (JFloat f) rest3 | None \<Rightarrow> NotJson)))"

definition json_words :: "(string \<times> json) list" where
  "json_words =
     [(''null'', JNull), (''true'', JBool True), (''false'', JBool False), (''NaN'', JFloat NaN),
      (''Infinity'', JFloat PosInf), (''-Infinity'', JFloat NegInf)]"

definition parse_word :: "string \<Rightarrow> (json \<times> string) option" where
  "parse_word s =
     (case filter (\<lambda>(w, j). py_startswith s w) json_words of
        (w, j) # _ \<Rightarrow> Some (j, drop (length w) s)
      | [] \<Rightarrow> None)"

text \<open>The values; the fuel bounds the characters read, so the length of the text is enough.\<close>

fun parse_value :: "nat \<Rightarrow> string \<Rightarrow> json parsed"
  and parse_items :: "nat \<Rightarrow> string \<Rightarrow> json list parsed"
  and parse_members :: "nat \<Rightarrow> string \<Rightarrow> (string \<times> json) list parsed" where
  "parse_value 0 s = NotJson"
| "parse_value (Suc n) s =
     (case s of
        [] \<Rightarrow> NotJson
      | c # cs \<Rightarrow>
          (if c = CHR 0x22 then parsed_bind (parse_chars cs) (\<lambda>t. Parsed (JString t))
           else if c = CHR 0x5B
           then (case skip_ws cs of
                   [] \<Rightarrow> NotJson
                 | d # ds \<Rightarrow>
                     (if d = CHR 0x5D then Parsed (JList []) ds
                      else parsed_bind (parse_items n (d # ds)) (\<lambda>js. Parsed (JList js))))
           else if c = CHR 0x7B
           then (case skip_ws cs of
                   [] \<Rightarrow> NotJson
                 | d # ds \<Rightarrow>
                     (if d = CHR 0x7D then Parsed (JObject []) ds
                      else parsed_bind (parse_members n (d # ds))
                        (\<lambda>kvs. Parsed (JObject (foldl (\<lambda>d (k, v). dset k v d) [] kvs)))))
           else (case parse_word s of
                   Some (j, rest) \<Rightarrow> Parsed j rest
                 | None \<Rightarrow> parse_number s)))"
| "parse_items 0 s = NotJson"
| "parse_items (Suc n) s =
     parsed_bind (parse_value n s) (\<lambda>j rest.
       case skip_ws rest of
         [] \<Rightarrow> NotJson
       | c # cs \<Rightarrow>
           (if c = CHR 0x5D then Parsed [j] cs
            else if c = CHR 0x2C then parsed_bind (parse_items n (skip_ws cs)) (\<lambda>js. Parsed (j # js))
            else NotJson))"
| "parse_members 0 s = NotJson"
| "parse_members (Suc n) s =
     (case s of
        [] \<Rightarrow> NotJson
      | q # qs \<Rightarrow>
          (if q \<noteq> CHR 0x22 then NotJson
           else parsed_bind (parse_chars qs) (\<lambda>k rest.
             case skip_ws rest of
               [] \<Rightarrow> NotJson
             | c # cs \<Rightarrow>
                 (if c \<noteq> CHR 0x3A then NotJson
                  else parsed_bind (parse_value n (skip_ws cs)) (\<lambda>v rest2.
                    case skip_ws rest2 of
                      [] \<Rightarrow> NotJson
                    | d # ds \<Rightarrow>
                        (if d = CHR 0x7D then Parsed [(k, v)] ds
                         else if d = CHR 0x2C then parsed_bind (parse_members n (skip_ws ds)) (\<lambda>kvs. Parsed ((k, v) # kvs))
                         else NotJson))))))"

text \<open>\<open>json.loads\<close>: one value between white space.\<close>

definition json_loads :: "string \<Rightarrow> json parsed" where
  "json_loads s =
     parsed_bind (parse_value (length s) (skip_ws s)) (\<lambda>j rest. if skip_ws rest = [] then Parsed j [] else NotJson)"

section \<open>Loading what was dumped\<close>

lemma hex4_low: "n < 32 \<Longrightarrow> hex4 (CHR ''0'') (CHR ''0'') (hex_digit (n div 16)) (hex_digit (n mod 16)) = Some n"
proof -
  assume n: "n < 32"
  have "hex_value (CHR ''0'') = Some 0" by code_simp
  moreover have "hex_value (hex_digit (n div 16)) = Some (n div 16)" "hex_value (hex_digit (n mod 16)) = Some (n mod 16)"
    using n by simp_all
  ultimately show ?thesis by (simp add: hex4_def)
qed

lemma code_eq: "n < 256 \<Longrightarrow> code_of c = n \<longleftrightarrow> c = char_of (n :: nat)"
  by auto

lemma parse_escaped:
  "parse_chars (json_escape_raw c @ s) = parsed_bind (parse_chars s) (\<lambda>t. Parsed (c # t))"
proof -
  consider (raw) "126 < code_of c" | (quote) "c = CHR 0x22" | (bslash) "c = CHR 0x5C" | (named) "code_of c \<in> {8, 9, 10, 12, 13}"
    | (control) "code_of c < 32" "code_of c \<notin> {8, 9, 10, 12, 13}"
    | (plain) "32 \<le> code_of c" "code_of c \<le> 126" "c \<noteq> CHR 0x22" "c \<noteq> CHR 0x5C"
    by fastforce
  then show ?thesis
  proof cases
    case raw
    then have "c \<noteq> CHR 0x22" "c \<noteq> CHR 0x5C" by auto
    then show ?thesis using raw by (simp add: json_escape_raw_def)
  next
    case named
    then have "c \<in> {char_of (8 :: nat), char_of (9 :: nat), char_of (10 :: nat), char_of (12 :: nat), char_of (13 :: nat)}"
      using code_eq [of 8 c] code_eq [of 9 c] code_eq [of 10 c] code_eq [of 12 c] code_eq [of 13 c] by simp
    then show ?thesis by (auto simp: json_escape_raw_def json_escape_def unescape_def Let_def)
  next
    case control
    then have esc: "json_escape_raw c = CHR 0x5C # ''u00'' @ [hex_digit (code_of c div 16), hex_digit (code_of c mod 16)]"
      by (auto simp: json_escape_raw_def json_escape_def Let_def)
    show ?thesis using hex4_low [OF control(1)] control(1) by (simp add: esc)
  next
    case plain
    have "char_of (34 :: nat) = CHR 0x22" "char_of (92 :: nat) = CHR 0x5C" by code_simp+
    then have "code_of c \<noteq> 34" "code_of c \<noteq> 92" using plain(3,4) code_eq [of 34 c] code_eq [of 92 c] by auto
    then show ?thesis using plain by (auto simp: json_escape_raw_def json_escape_def Let_def)
  qed (simp_all add: json_escape_raw_def json_escape_def unescape_def Let_def)
qed

lemma parse_string_raw: "parse_chars (concat (map json_escape_raw s) @ CHR 0x22 # rest) = Parsed s rest"
  by (induction s) (simp_all add: parse_escaped)

text \<open>Integers.\<close>

lemma show_nat_nonempty [simp]: "show_nat_aux n \<noteq> []"
  by (subst show_nat_step) simp

lemma show_nat_lead: "0 < n \<Longrightarrow> hd (show_nat_aux n) \<noteq> CHR ''0''"
proof (induction n rule: show_nat_aux.induct)
  case (1 n)
  show ?case
  proof (cases "n < 10")
    case True
    have "char_of (48 + n) \<noteq> CHR ''0''" using 1(2) True code_eq [of "48 + n" "CHR ''0''"] by auto
    then show ?thesis using True by (subst show_nat_step) simp
  next
    case False
    then show ?thesis using 1(1) by (subst show_nat_step) simp
  qed
qed

lemma digit_codes: "digit_value c = (if 48 \<le> code_of c \<and> code_of c < 58 then Some (int (code_of c) - 48) else None)"
  by (auto simp: digit_value_def)

lemma show_nat_is_digit: "c \<in> set (show_nat_aux n) \<Longrightarrow> is_digit c"
  using show_nat_digits [of c n] by (simp add: is_digit_def digit_codes)

lemma read_digits_all:
  "\<forall>c \<in> set ds. is_digit c \<Longrightarrow> after \<or> ds \<noteq> [] \<Longrightarrow> read_digits after (int acc) ds = Some (int (read_nat acc ds), [])"
proof (induction ds arbitrary: after acc)
  case (Cons c ds)
  then have c: "48 \<le> code_of c" "code_of c < 58" by (auto simp: is_digit_def digit_codes split: if_splits)
  then have "read_digits after (int acc) (c # ds) = read_digits True (int (10 * acc + (code_of c - 48))) ds"
    by (simp add: digit_codes of_nat_diff algebra_simps)
  then show ?case using Cons.IH [of True "10 * acc + (code_of c - 48)"] Cons.prems by simp
qed simp

lemma digit_not_space: "is_digit c \<Longrightarrow> \<not> py_isspace c"
  by (auto simp: is_digit_def digit_codes py_isspace_def split: if_splits)

lemma strip_no_space: "\<forall>c \<in> set s. \<not> py_isspace c \<Longrightarrow> py_strip s = s"
proof -
  assume n: "\<forall>c \<in> set s. \<not> py_isspace c"
  have keep: "dropWhile py_isspace t = t" if "\<forall>c \<in> set t. \<not> py_isspace c" for t
    using that by (cases t) auto
  have "dropWhile py_isspace s = s" "dropWhile py_isspace (rev s) = rev s"
    using n keep [of s] keep [of "rev s"] by simp_all
  then show ?thesis by (simp add: py_strip_def)
qed

definition short_int :: "int \<Rightarrow> bool" where
  "short_int i \<longleftrightarrow> length (show_nat_aux (nat \<bar>i\<bar>)) \<le> int_max_str_digits"

lemma show_int_chars: "c \<in> set (show_int i) \<Longrightarrow> is_digit c \<or> c = CHR ''-''"
  using show_nat_is_digit by (auto simp: show_int_def split: if_splits)

lemma read_show_int: "short_int i \<Longrightarrow> py_int_of_string (show_int i) = Some i"
proof -
  assume short: "short_int i"
  have "\<forall>c \<in> set (show_int i). \<not> py_isspace c"
  proof
    fix c assume "c \<in> set (show_int i)"
    then consider "is_digit c" | "c = CHR ''-''" using show_int_chars by blast
    then show "\<not> py_isspace c" proof cases
      case 1
      then show ?thesis by (rule digit_not_space)
    qed (simp add: py_isspace_def)
  qed
  then have strip: "py_strip (show_int i) = show_int i" by (rule strip_no_space)
  let ?m = "show_nat_aux (nat \<bar>i\<bar>)"
  have digits: "\<forall>c \<in> set ?m. is_digit c" using show_nat_is_digit by blast
  obtain c cs where m: "?m = c # cs" using show_nat_nonempty by (meson list.exhaust)
  then have c: "c \<noteq> CHR ''-''" "c \<noteq> CHR ''+''" using digits by (auto simp: is_digit_def digit_value_def)
  have sign: "read_sign (show_int i) = (if i < 0 then - 1 else 1, ?m)"
    using c m by (auto simp: read_sign_def show_int_def)
  have "filter (\<lambda>c. digit_value c \<noteq> None) ?m = ?m" using digits by (simp add: filter_id_conv is_digit_def)
  then show ?thesis
    using short read_digits_all [OF digits, of False 0] read_show_nat [of "nat \<bar>i\<bar>"]
    by (simp add: py_int_of_string_def strip sign short_int_def)
qed

definition delimited :: "string \<Rightarrow> bool" where
  "delimited rest \<longleftrightarrow> (case rest of [] \<Rightarrow> True | c # _ \<Rightarrow> c \<in> {CHR 0x2C, CHR 0x5D, CHR 0x7D})"

lemma parse_show_int:
  assumes "short_int i" and d: "delimited rest"
  shows "parse_number (show_int i @ rest) = Parsed (JInt i) rest"
proof -
  let ?m = "show_nat_aux (nat \<bar>i\<bar>)"
  obtain c cs where m: "?m = c # cs" using show_nat_nonempty by (meson list.exhaust)
  have digits: "is_digit c" "\<forall>x \<in> set cs. is_digit x" using show_nat_is_digit [of _ "nat \<bar>i\<bar>"] m by auto
  have minus: "c \<noteq> CHR ''-''" using digits(1) by (auto simp: is_digit_def digit_value_def)
  have rest: "takeWhile is_digit rest = []" "dropWhile is_digit rest = rest"
    using d by (auto simp: delimited_def is_digit_def digit_value_def split: list.splits)
  have zero: "cs = []" if "c = CHR ''0''"
  proof (cases "nat \<bar>i\<bar> = 0")
    case True
    then show ?thesis using m by (simp add: show_nat_step)
  next
    case False
    then show ?thesis using show_nat_lead [of "nat \<bar>i\<bar>"] m that by simp
  qed
  have "int_token (show_int i @ rest) = Some (show_int i, rest)"
    using minus digits zero rest m
    by (auto simp: int_token_def show_int_def takeWhile_append dropWhile_append split: if_splits)
  moreover have "frac_token rest = ([], rest)" "exp_token rest = ([], rest)"
    using d by (auto simp: frac_token_def exp_token_def delimited_def split: list.splits)
  ultimately show ?thesis using read_show_int [OF assms(1)] by (simp add: parse_number_def)
qed

text \<open>What survives a dump and a load: no floats, integers short enough to read, and objects in the order the
  dump writes them.\<close>

fun plain_json :: "json \<Rightarrow> bool" where
  "plain_json (JFloat f) = False"
| "plain_json (JInt i) = short_int i"
| "plain_json (JList js) = list_all plain_json js"
| "plain_json (JObject kvs) = (sorted_wrt (<) (map fst kvs) \<and> list_all (\<lambda>(k, v). plain_json v) kvs)"
| "plain_json j = True"

definition starts_value :: "char \<Rightarrow> bool" where
  "starts_value c \<longleftrightarrow> c \<in> {CHR ''n'', CHR ''t'', CHR ''f'', CHR 0x22, CHR 0x5B, CHR 0x7B, CHR ''-''} \<or> is_digit c"

lemma starts_value_keeps:
  assumes "starts_value c"
  shows "skip_ws (c # s) = c # s" and "c \<noteq> CHR 0x5D" and "c \<noteq> CHR 0x7D"
proof -
  have "32 < code_of c" using assms by (auto simp: starts_value_def is_digit_def digit_codes split: if_splits)
  then show "skip_ws (c # s) = c # s" by (auto simp: skip_ws_def)
  show "c \<noteq> CHR 0x5D" and "c \<noteq> CHR 0x7D"
    using assms by (auto simp: starts_value_def is_digit_def digit_codes split: if_splits)
qed

lemma show_int_starts: "\<exists>c cs. show_int i = c # cs \<and> (is_digit c \<or> c = CHR ''-'' \<and> (\<exists>d ds. cs = d # ds \<and> is_digit d))"
proof -
  obtain c cs where m: "show_nat_aux (nat \<bar>i\<bar>) = c # cs" using show_nat_nonempty by (meson list.exhaust)
  then have "is_digit c" using show_nat_is_digit [of c "nat \<bar>i\<bar>"] by simp
  then show ?thesis using m by (auto simp: show_int_def)
qed

lemma dump_starts: "plain_json j \<Longrightarrow> \<exists>c cs. json_dumps_raw fl j = c # cs \<and> starts_value c"
proof (cases j)
  case (JInt i)
  then show ?thesis using show_int_starts [of i] by (auto simp: starts_value_def)
qed (auto simp: starts_value_def json_string_raw_def)

lemma skip_delimited [simp]: "delimited (c # s) \<Longrightarrow> skip_ws (c # s) = c # s"
  by (auto simp: delimited_def skip_ws_def)

lemma skip_dump: "plain_json j \<Longrightarrow> skip_ws (json_dumps_raw fl j @ s) = json_dumps_raw fl j @ s"
  using dump_starts [of j fl] starts_value_keeps(1) by fastforce

lemma digit_codes_of: "is_digit c \<longleftrightarrow> 48 \<le> code_of c \<and> code_of c < 58"
  by (simp add: is_digit_def digit_codes)

lemma parse_word_number: "parse_word (show_int i @ rest) = None"
proof -
  obtain c cs where s: "show_int i = c # cs" and c: "is_digit c \<or> c = CHR ''-'' \<and> (\<exists>d ds. cs = d # ds \<and> is_digit d)"
    using show_int_starts [of i] by (elim exE conjE) (rule that)
  have digit: "d \<notin> {CHR ''n'', CHR ''t'', CHR ''f'', CHR ''N'', CHR ''I'', CHR ''-''}" if "is_digit d" for d
  proof
    assume "d \<in> {CHR ''n'', CHR ''t'', CHR ''f'', CHR ''N'', CHR ''I'', CHR ''-''}"
    then have "code_of d \<in> {110, 116, 102, 78, 73, 45}" by (elim insertE) simp_all
    then show False using that by (auto simp: digit_codes_of)
  qed
  from c show ?thesis
  proof
    assume "is_digit c"
    then show ?thesis using digit [of c] s by (auto simp: parse_word_def json_words_def py_startswith_def)
  next
    assume "c = CHR ''-'' \<and> (\<exists>d ds. cs = d # ds \<and> is_digit d)"
    then obtain d ds where "c = CHR ''-''" "cs = d # ds" "is_digit d" by blast
    then show ?thesis using digit [of d] s by (auto simp: parse_word_def json_words_def py_startswith_def)
  qed
qed

lemma parse_value_int:
  assumes "short_int i" and "delimited rest"
  shows "parse_value (Suc n) (show_int i @ rest) = Parsed (JInt i) rest"
proof -
  obtain c cs where s: "show_int i = c # cs" and c: "is_digit c \<or> c = CHR ''-''"
    using show_int_starts [of i] by (elim exE conjE) (rule that, auto)
  then have "c \<noteq> CHR 0x22" "c \<noteq> CHR 0x5B" "c \<noteq> CHR 0x7B" by (auto simp: digit_codes_of)
  then show ?thesis using parse_show_int [OF assms] parse_word_number [of i rest] by (simp add: s)
qed

lemma parse_items_dump:
  assumes "js \<noteq> []" and "list_all plain_json js"
    and "\<And>j m s. j \<in> set js \<Longrightarrow> length (json_dumps_raw fl j) \<le> m \<Longrightarrow> delimited s
      \<Longrightarrow> parse_value m (json_dumps_raw fl j @ s) = Parsed j s"
    and "length (py_join CHR 0x2C (map (json_dumps_raw fl) js)) < n"
  shows "parse_items n (py_join CHR 0x2C (map (json_dumps_raw fl) js) @ CHR 0x5D # rest) = Parsed js rest"
  using assms
proof (induction js arbitrary: n)
  case (Cons j js)
  obtain m where n: "n = Suc m" using Cons.prems(4) by (cases n) auto
  show ?case
  proof (cases js)
    case Nil
    then show ?thesis using Cons.prems by (simp add: n delimited_def)
  next
    case (Cons j2 js2)
    let ?more = "py_join CHR 0x2C (map (json_dumps_raw fl) js) @ CHR 0x5D # rest"
    have "parse_value m (json_dumps_raw fl j @ CHR 0x2C # ?more) = Parsed j (CHR 0x2C # ?more)"
      using Cons.prems(4) Cons by (intro Cons.prems(3)) (auto simp: n delimited_def)
    moreover have "skip_ws ?more = ?more"
      using Cons.prems(2) Cons skip_dump [of j2 fl] by (cases js2) auto
    moreover have "parse_items m ?more = Parsed js rest"
      using Cons.prems Cons by (intro Cons.IH) (auto simp: n)
    ultimately show ?thesis using Cons by (simp add: n delimited_def)
  qed
qed simp

text \<open>The members of an object, in order.\<close>

definition member_text :: "(time \<Rightarrow> string) \<Rightarrow> string \<times> json \<Rightarrow> string" where
  "member_text fl kv = json_string_raw (fst kv) @ CHR 0x3A # json_dumps_raw fl (snd kv)"

lemma parse_members_dump:
  assumes "kvs \<noteq> []" and "list_all (\<lambda>kv. plain_json (snd kv)) kvs"
    and "\<And>kv m s. kv \<in> set kvs \<Longrightarrow> length (json_dumps_raw fl (snd kv)) \<le> m \<Longrightarrow> delimited s
      \<Longrightarrow> parse_value m (json_dumps_raw fl (snd kv) @ s) = Parsed (snd kv) s"
    and "length (py_join CHR 0x2C (map (member_text fl) kvs)) < n"
  shows "parse_members n (py_join CHR 0x2C (map (member_text fl) kvs) @ CHR 0x7D # rest) = Parsed kvs rest"
  using assms
proof (induction kvs arbitrary: n)
  case (Cons kv kvs)
  obtain k v where kv: "kv = (k, v)" by force
  obtain m where n: "n = Suc m" using Cons.prems(4) by (cases n) auto
  have colon: "skip_ws (CHR 0x3A # s) = CHR 0x3A # s" for s by (simp add: skip_ws_def)
  have v: "plain_json v" using Cons.prems(2) by (simp add: kv)
  have shape: "member_text fl kv @ s = CHR 0x22 # concat (map json_escape_raw k) @ CHR 0x22 # CHR 0x3A # json_dumps_raw fl v @ s" for s
    by (simp add: member_text_def kv json_string_raw_def)
  show ?case
  proof (cases kvs)
    case Nil
    have "parse_value m (json_dumps_raw fl v @ CHR 0x7D # rest) = Parsed v (CHR 0x7D # rest)"
      using Cons.prems(3) [of kv] Cons.prems(4) Nil by (auto simp: kv n member_text_def delimited_def)
    then show ?thesis
      using Nil shape [of "CHR 0x7D # rest"]
      by (simp add: n parse_string_raw colon skip_dump [OF v] delimited_def kv)
  next
    case two: (Cons kv2 kvs2)
    let ?more = "py_join CHR 0x2C (map (member_text fl) kvs) @ CHR 0x7D # rest"
    have "parse_value m (json_dumps_raw fl v @ CHR 0x2C # ?more) = Parsed v (CHR 0x2C # ?more)"
      using Cons.prems(3) [of kv] Cons.prems(4) two by (auto simp: kv n member_text_def delimited_def)
    moreover have "skip_ws ?more = ?more"
      using two by (cases kvs2) (auto simp: skip_ws_def member_text_def json_string_raw_def)
    moreover have "parse_members m ?more = Parsed kvs rest"
      using Cons.prems two by (intro Cons.IH) (auto simp: n)
    ultimately show ?thesis
      using two shape [of "CHR 0x2C # ?more"]
      by (simp add: n parse_string_raw colon skip_dump [OF v] delimited_def kv)
  qed
qed simp

lemma foldl_dset_keep: "distinct (map fst (d @ kvs)) \<Longrightarrow> foldl (\<lambda>d (k, v). dset k v d) d kvs = d @ kvs"
proof (induction kvs arbitrary: d)
  case (Cons kv kvs)
  obtain k v where kv: "kv = (k, v)" by force
  have "k \<notin> fst ` set d" using Cons.prems by (auto simp: kv)
  then have "dset k v d = d @ [(k, v)]" by (induction d) auto
  then show ?case using Cons.IH [of "d @ [(k, v)]"] Cons.prems by (simp add: kv)
qed simp

lemma dump_object:
  assumes "sorted_wrt (<) (map fst kvs)"
  shows "json_dumps_raw fl (JObject kvs) = CHR 0x7B # py_join CHR 0x2C (map (member_text fl) kvs) @ [CHR 0x7D]"
proof -
  let ?ms = "map (\<lambda>(k, v). (k, json_string_raw k @ CHR 0x3A # json_dumps_raw fl v)) kvs"
  have "map fst ?ms = map fst kvs" by (simp add: case_prod_unfold)
  then have "sorted (map fst ?ms)" using strict_sorted_imp_sorted [OF assms] by (simp only:)
  then have "sort_key fst ?ms = ?ms" by (rule sort_key_id_if_sorted)
  moreover have "map snd ?ms = map (member_text fl) kvs" by (simp add: member_text_def case_prod_unfold)
  ultimately show ?thesis by (simp only: json_dumps_raw.simps append_Cons append_Nil)
qed

lemma parse_value_dump:
  "plain_json j \<Longrightarrow> length (json_dumps_raw fl j) \<le> n \<Longrightarrow> delimited rest
    \<Longrightarrow> parse_value n (json_dumps_raw fl j @ rest) = Parsed j rest"
proof (induction j arbitrary: n rest)
  case (JInt i)
  then obtain m where "n = Suc m" using show_int_starts [of i] by (cases n) auto
  then show ?case using JInt.prems parse_value_int by simp
next
  case (JString s)
  then obtain m where "n = Suc m" by (cases n) (auto simp: json_string_raw_def)
  then show ?case by (simp add: json_string_raw_def parse_string_raw)
next
  case (JList js)
  then obtain m where n: "n = Suc m" by (cases n) auto
  show ?case
  proof (cases "js = []")
    case False
    then obtain j js2 where js: "js = j # js2" by (cases js) auto
    obtain c cs where c: "json_dumps_raw fl j = c # cs" "starts_value c"
      using dump_starts [of j fl] JList.prems(1) js by auto
    let ?t = "py_join CHR 0x2C (map (json_dumps_raw fl) js) @ CHR 0x5D # rest"
    obtain ds where t: "?t = c # ds" using js c by (cases js2) auto
    have "parse_items m ?t = Parsed js rest"
      using False JList n by (intro parse_items_dump) (auto simp: list_all_iff)
    then show ?thesis using t starts_value_keeps [OF c(2)] by (simp add: n)
  qed (simp add: n skip_ws_def)
next
  case (JObject kvs)
  then obtain m where n: "n = Suc m" by (cases n) auto
  have sorted: "sorted_wrt (<) (map fst kvs)" using JObject.prems(1) by simp
  show ?case
  proof (cases "kvs = []")
    case False
    let ?t = "py_join CHR 0x2C (map (member_text fl) kvs) @ CHR 0x7D # rest"
    obtain kv kvs2 where "kvs = kv # kvs2" using False by (cases kvs) auto
    then obtain ds where t: "?t = CHR 0x22 # ds" by (cases kvs2) (auto simp: member_text_def json_string_raw_def)
    have "length (py_join CHR 0x2C (map (member_text fl) kvs)) < m"
      using JObject.prems(2) unfolding dump_object [OF sorted] n by simp
    then have "parse_members m ?t = Parsed kvs rest"
      using False JObject.prems(1)
      by (intro parse_members_dump) (auto simp: list_all_iff intro!: JObject.IH)
    moreover have "foldl (\<lambda>d (k, v). dset k v d) [] kvs = kvs"
      using foldl_dset_keep [of "[]" kvs] strict_sorted_iff [of "map fst kvs"] sorted by simp
    moreover have "skip_ws (CHR 0x22 # ds) = CHR 0x22 # ds" by (simp add: skip_ws_def)
    ultimately show ?thesis
      using t unfolding dump_object [OF sorted] by (simp add: n)
  qed (simp add: n skip_ws_def)
next
  case JNull
  then obtain m where "n = Suc m" by (cases n) auto
  then show ?case by (simp add: parse_word_def json_words_def py_startswith_def)
next
  case (JBool b)
  then obtain m where "n = Suc m" by (cases n) (auto split: if_splits)
  then show ?case by (cases b) (simp_all add: parse_word_def json_words_def py_startswith_def)
qed simp

theorem json_text_round_trip: "plain_json j \<Longrightarrow> json_loads (json_dumps_raw fl j) = Parsed j []"
  using parse_value_dump [of j fl "length (json_dumps_raw fl j)" "[]"] skip_dump [of j fl "[]"]
  by (simp add: json_loads_def delimited_def skip_ws_def)

end
