(* ===== verification/Leasing.thy ===== *)
theory Leasing
  imports Atomic_Operations Deadlock Release_Receipt Json_Text
begin

text \<open>
  The lease verbs of the hub: \<open>core/handlers/leasing.py\<close> with its drafts
  (\<open>leasing_drafts.py\<close>) and mutations (\<open>leasing_mutations.py\<close>), and the release of abandoned
  claims (\<open>core/claim_holder_presence.py\<close>).  A verb decodes its frame into a request of the
  actor (\<open>Atomic_Operations\<close>), publishes the outcome to the wait graph and the blackboard, and
  answers with frames.  Frames are JSON; sending and broadcasting are values.  \<open>Inl OutsideModel\<close>
  is a frame with a float or a container where the code takes its \<open>str\<close>.
\<close>

section \<open>Frames\<close>

text \<open>What a handler takes from its surroundings: the clock, the hub id and the text of floats.\<close>

record hub_env =
  env_now :: time
  env_hub_id :: string
  env_float_text :: "time \<Rightarrow> string"

definition system_message :: "hub_env \<Rightarrow> string \<Rightarrow> string \<Rightarrow> string \<Rightarrow> json_object \<Rightarrow> json_object" where
  "system_message env text msg_type target extra =
     fold (\<lambda>(k, v). dset k v) extra
       [(''sender'', JString ''SynapseHub''), (''target'', JString target), (''type'', JString msg_type),
        (''payload'', JString text), (''timestamp'', JFloat (Finite (env_now env))),
        (''hub_id'', JString (env_hub_id env))]"

datatype sent = Broadcast json_object | Reply_To_Sender json_object

text \<open>\<open>str(data.get(a) or data.get(b) or '')\<close>\<close>

fun first_text :: "json_object \<Rightarrow> string list \<Rightarrow> journal_error + string" where
  "first_text data [] = Inr []"
| "first_text data (key # keys) =
     (if json_truthy (get_field data key) then py_str (get_field data key) else first_text data keys)"

definition frame_paths :: "json_object \<Rightarrow> journal_error + string list" where
  "frame_paths data = (case get_field data ''paths'' of JList vs \<Rightarrow> py_str_all vs | _ \<Rightarrow> Inr [])"

text \<open>\<open>str(v) if v is not None else None\<close> and \<open>str(v) if v else None\<close>\<close>

definition optional_text :: "json \<Rightarrow> journal_error + string option" where
  "optional_text v = (if v = JNull then Inr None else sum_bind (py_str v) (\<lambda>s. Inr (Some s)))"

definition truthy_text :: "json \<Rightarrow> journal_error + string option" where
  "truthy_text v = (if json_truthy v then sum_bind (py_str v) (\<lambda>s. Inr (Some s)) else Inr None)"

section \<open>Claiming\<close>

definition claim_denial_reason :: "string \<Rightarrow> string" where
  "claim_denial_reason message =
     (if message = ''Task ID is required.'' then ''TASK_ID_REQUIRED''
      else if py_contains message ''path identity'' then ''PATH_IDENTITY_INVALID''
      else if py_contains message ''is already claimed by'' then ''LEASE_LIVE''
      else if py_contains message ''file scope conflicts with'' then ''SCOPE_CONFLICT''
      else if py_contains message ''principal claim quota'' then ''QUOTA_EXCEEDED''
      else ''CLAIM_DENIED'')"

record claim_application =
  ca_ok :: bool
  ca_message :: string
  ca_task_id :: string
  ca_claim :: "task_claim option"
  ca_reason_code :: string
  ca_renewal_id :: string
  ca_request_id :: string

text \<open>A decoded claim frame: the four ways \<open>apply_claim\<close> goes.\<close>

datatype claim_body =
    BadRenewal string string
  | RenewalBody string int "string list" string
  | BadIdentity string string
  | AcquireBody string claim_request string

definition parse_renewal :: "string \<Rightarrow> json \<Rightarrow> json_object \<Rightarrow> journal_error + claim_body" where
  "parse_renewal task renew_epoch body =
     sum_bind (text_field body ''renewal_id'') (\<lambda>renewal_id.
       case renew_epoch of
         JInt ep \<Rightarrow>
           (if ep \<le> 0 \<or> renewal_id = [] then Inr (BadRenewal task renewal_id)
            else sum_bind (frame_paths body) (\<lambda>ps. Inr (RenewalBody task ep ps renewal_id)))
       | _ \<Rightarrow> Inr (BadRenewal task renewal_id))"

definition parse_acquisition :: "string option \<Rightarrow> string \<Rightarrow> json_object \<Rightarrow> journal_error + claim_body" where
  "parse_acquisition quota task body =
     sum_bind (text_field body ''idem_key'') (\<lambda>request_id.
     sum_bind (text_field body ''note'') (\<lambda>nt.
     sum_bind (text_field body ''worktree'') (\<lambda>wt.
     sum_bind (frame_paths body) (\<lambda>ps.
       Inr (case parse_optional_claim_scope_identity body of
              Inl _ \<Rightarrow> BadIdentity task request_id
            | Inr ident \<Rightarrow>
                AcquireBody task
                  \<lparr>req_note = nt, req_ttl = safe_float (get_field body ''ttl_seconds'') None True False,
                   req_principal = quota, req_worktree = wt, req_paths = ps, req_identity = ident,
                   req_git = (case get_field body ''git'' of JObject d \<Rightarrow> Some (git_from_dict d) | _ \<Rightarrow> None),
                   req_require_unclaimed = json_truthy (get_field body ''local_renewal'')\<rparr>
                  request_id)))))"

definition parse_claim :: "string option \<Rightarrow> json_object \<Rightarrow> journal_error + claim_body" where
  "parse_claim quota body =
     sum_bind (first_text body [''task_id'', ''payload'']) (\<lambda>raw.
       case dget body ''renew_epoch'' of
         Some ep \<Rightarrow> parse_renewal (py_strip raw) ep body
       | None \<Rightarrow> parse_acquisition quota (py_strip raw) body)"

definition refused_claim :: "string \<Rightarrow> string \<Rightarrow> string \<Rightarrow> string \<Rightarrow> string \<Rightarrow> claim_application" where
  "refused_claim text task reason renewal_id request_id =
     \<lparr>ca_ok = False, ca_message = text, ca_task_id = task, ca_claim = None, ca_reason_code = reason,
      ca_renewal_id = renewal_id, ca_request_id = request_id\<rparr>"

definition applied_claim :: "string \<Rightarrow> string \<Rightarrow> task_claim option \<Rightarrow> string \<Rightarrow> string \<Rightarrow> claim_application" where
  "applied_claim text task c renewal_id request_id =
     \<lparr>ca_ok = True, ca_message = text, ca_task_id = task, ca_claim = c, ca_reason_code = [],
      ca_renewal_id = renewal_id, ca_request_id = request_id\<rparr>"

text \<open>\<open>apply_claim\<close> on the private copy of the state (the candidate has no journal of its own).\<close>

fun apply_claim :: "time \<Rightarrow> string \<Rightarrow> claim_body \<Rightarrow> synapse_state \<Rightarrow> synapse_state \<times> claim_application" where
  "apply_claim ts claimant (BadRenewal task renewal_id) s =
     (s, refused_claim ''Renewal requires a positive epoch and renewal_id.'' task ''RENEWAL_REFUSED'' renewal_id [])"
| "apply_claim ts claimant (RenewalBody task ep ps renewal_id) s =
     (case renew_claim claimant task ep (normalize_paths ps (Some (max_paths_per_claim s))) ts s of
        (s', Inl m) \<Rightarrow> (s', refused_claim (render_msg m) task ''RENEWAL_REFUSED'' renewal_id [])
      | (s', Inr m) \<Rightarrow> (s', applied_claim (render_msg m) task (dget (claims s') task) renewal_id []))"
| "apply_claim ts claimant (BadIdentity task request_id) s =
     (s, refused_claim (''Task '' @ quoted task @ '' carries an invalid path identity.'') task
           ''PATH_IDENTITY_INVALID'' [] request_id)"
| "apply_claim ts claimant (AcquireBody task rq request_id) s =
     (case claim claimant task rq ts s of
        (s', Inl m) \<Rightarrow>
          (s', refused_claim (render_msg m) task (claim_denial_reason (render_msg m)) [] request_id)
      | (s', Inr m) \<Rightarrow> (s', applied_claim (render_msg m) task (dget (claims s') task) [] request_id))"

definition claim_grant_fields :: "task_claim \<Rightarrow> json_object" where
  "claim_grant_fields c =
     [(''task_id'', JString (task_id c)), (''owner'', JString (owner c)), (''note'', JString (claim_note c)),
      (''lease_expires_at'', JFloat (Finite (lease_expires_at c))),
      (''lease_duration_seconds'', JFloat (Finite (lease_expires_at c - claimed_at c))),
      (''status'', JString (status c)), (''worktree'', JString (worktree c)),
      (''paths'', JList (map JString (paths c))), (''epoch'', JInt (epoch c)),
      (''ownership_epoch'', JInt (or_int (ownership_epoch c) (epoch c))), (''version'', JInt (version c)),
      (''checkpoint'', JString (checkpoint c)),
      (''git'', (case git c of None \<Rightarrow> JNull | Some g \<Rightarrow> JObject (git_as_dict g)))]
     @ (case path_identity c of None \<Rightarrow> [] | Some i \<Rightarrow> [(''path_identity'', JObject (scope_identity_as_dict i))])"

definition claim_grant :: "hub_env \<Rightarrow> claim_application \<Rightarrow> task_claim \<Rightarrow> json_object" where
  "claim_grant env app c =
     system_message env (ca_message app) ''claim_granted'' ''all''
       (claim_grant_fields c
        @ [(''renewal_id'', JString (ca_renewal_id app)), (''claim_request_id'', JString (ca_request_id app))])"

text \<open>The evidence row of a refused claim; the dump keeps characters above 126 as they are.\<close>

definition scope_text :: "string list \<Rightarrow> string \<Rightarrow> string" where
  "scope_text ps wt =
     CHR 0x7B # json_string_raw ''paths'' @ CHR 0x3A # CHR 0x5B # py_join CHR 0x2C (map json_string_raw ps)
       @ CHR 0x5D # CHR 0x2C # json_string_raw ''worktree'' @ CHR 0x3A # json_string_raw wt @ [CHR 0x7D]"

definition claim_denial_row :: "string \<Rightarrow> string \<Rightarrow> string \<Rightarrow> string \<Rightarrow> string list \<Rightarrow> string \<times> json_object" where
  "claim_denial_row claimant task reason wt ps =
     (''claim_denial'',
      [(''claimant'', JString (take 256 claimant)),
       (''claimant_sha256'', JString (hex_of (sha256 (utf8 claimant)))),
       (''claimant_truncated'', JBool (256 < length claimant)), (''decision'', JString ''deny''),
       (''path_count'', JInt (int (length ps))), (''reason_code'', JString reason),
       (''scope_sha256'', JString (hex_of (sha256 (utf8 (scope_text ps wt))))),
       (''task_id_sha256'', JString (hex_of (sha256 (utf8 task))))])"

section \<open>Requests of the actor\<close>

text \<open>The results of the mutations, one constructor per shape.\<close>

datatype lease_result =
    ClaimResult claim_application
  | OwnerResult bool string "task_claim option"
  | ReleaseResult bool string
  | AbandonedResult "(string \<times> string \<times> time) list"

type_synonym lease_request = "(synapse_state, lease_result) request"

definition plain_draft :: "json_object \<Rightarrow> (string \<times> json_object) list \<Rightarrow> json_object \<Rightarrow> op_draft" where
  "plain_draft response events intent =
     \<lparr>od_response = response, od_events = events, od_intent = intent, od_seq_field = None, od_finalize = None\<rparr>"

definition family :: "string \<Rightarrow> string \<Rightarrow> json_object" where
  "family name response_type = [(''family'', JString name), (''response_type'', JString response_type)]"

definition prepare_claim :: "hub_env \<Rightarrow> lease_result \<Rightarrow> op_draft option" where
  "prepare_claim env r =
     (case r of
        ClaimResult app \<Rightarrow>
          map_option (\<lambda>c. plain_draft (claim_grant env app c) [record_claim_snapshot ''claim'' c]
            (family ''claim'' ''claim_granted'')) (ca_claim app)
      | _ \<Rightarrow> None)"

text \<open>
  \<open>run_atomic_operation\<close> is used when the frame has a key; the digest of a frame that is not
  strict JSON raises.
\<close>

definition operation_identity :: "hub_env \<Rightarrow> json_object \<Rightarrow> journal_error + (string \<times> string) option" where
  "operation_identity env data =
     sum_bind (idempotency_key data) (\<lambda>key.
       if key = [] then Inr None
       else (case canonical_request_digest (env_float_text env) data of
               None \<Rightarrow> Inl MalformedPayload
             | Some digest \<Rightarrow> Inr (Some (key, digest))))"

definition claim_rows :: "string \<Rightarrow> string \<Rightarrow> string list \<Rightarrow> lease_result \<Rightarrow> (string \<times> json_object) list" where
  "claim_rows sender wt ps r =
     (case r of
        ClaimResult app \<Rightarrow>
          (case ca_claim app of
             Some c \<Rightarrow> [record_claim_snapshot ''claim'' c]
           | None \<Rightarrow> [claim_denial_row sender (ca_task_id app) (ca_reason_code app) wt ps])
      | _ \<Rightarrow> [])"

text \<open>
  The claim as an unkeyed request, which a forwarded claim uses too.  The live limit on paths is the
  configuration, the same in every state of a hub.
\<close>

definition apply_claim_async ::
  "hub_env \<Rightarrow> int \<Rightarrow> string \<Rightarrow> string option \<Rightarrow> json_object \<Rightarrow> journal_error + lease_request" where
  "apply_claim_async env max_paths claimant quota data =
     sum_bind (parse_claim quota data) (\<lambda>body.
     sum_bind (text_field data ''worktree'') (\<lambda>wt.
     sum_bind (frame_paths data) (\<lambda>ps.
       Inr \<lparr>rq_sender = claimant, rq_key = None,
            rq_mutate = (\<lambda>s. let (s', app) = apply_claim (env_now env) claimant body s in (s', ClaimResult app)),
            rq_prepare = prepare_claim env,
            rq_persist = claim_rows claimant wt (normalize_paths ps (Some max_paths))\<rparr>)))"

text \<open>The request \<open>handle_claim\<close> makes once the abandoned claims are released (\<open>handle_lease\<close> below).\<close>

definition claim_verb ::
  "hub_env \<Rightarrow> int \<Rightarrow> string \<Rightarrow> string option \<Rightarrow> json_object \<Rightarrow> journal_error + lease_request" where
  "claim_verb env max_paths sender quota data =
     sum_bind (apply_claim_async env max_paths sender quota data) (\<lambda>rq.
     sum_bind (operation_identity env data) (\<lambda>key. Inr (rq\<lparr>rq_key := key\<rparr>)))"

lemma sum_bind_assoc: "sum_bind (sum_bind m f) g = sum_bind m (\<lambda>v. sum_bind (f v) g)"
  by (cases m) (simp_all add: sum_bind_def)

lemma claim_verb_eq:
  "claim_verb env max_paths sender quota data =
     sum_bind (parse_claim quota data) (\<lambda>body.
     sum_bind (text_field data ''worktree'') (\<lambda>wt.
     sum_bind (frame_paths data) (\<lambda>ps.
     sum_bind (operation_identity env data) (\<lambda>key.
       Inr \<lparr>rq_sender = sender, rq_key = key,
            rq_mutate = (\<lambda>s. let (s', app) = apply_claim (env_now env) sender body s in (s', ClaimResult app)),
            rq_prepare = prepare_claim env,
            rq_persist = claim_rows sender wt (normalize_paths ps (Some max_paths))\<rparr>))))"
proof -
  have inner: "sum_bind (Inr v) f = f v" for v and f :: "'v \<Rightarrow> 'e + 'b" by (simp add: sum_bind_def)
  show ?thesis unfolding claim_verb_def apply_claim_async_def sum_bind_assoc inner by simp
qed

section \<open>Work on an owned task\<close>

text \<open>The lease mutations of \<open>leasing_mutations.py\<close>.\<close>

definition owner_result :: "string \<Rightarrow> synapse_state \<times> reply \<Rightarrow> synapse_state \<times> lease_result" where
  "owner_result task r =
     (case r of
        (s', Inl m) \<Rightarrow> (s', OwnerResult False (render_msg m) None)
      | (s', Inr m) \<Rightarrow> (s', OwnerResult True (render_msg m) (dget (claims s') task)))"

definition claim_snapshot_rows :: "string \<Rightarrow> lease_result \<Rightarrow> (string \<times> json_object) list" where
  "claim_snapshot_rows kind r =
     (case r of OwnerResult ok text (Some c) \<Rightarrow> [record_claim_snapshot kind c] | _ \<Rightarrow> [])"

text \<open>\<open>prepare_task_update\<close>, \<open>prepare_checkpoint\<close> and \<open>prepare_handoff\<close> draft only a granted claim.\<close>

definition prepare_owner :: "(string \<Rightarrow> task_claim \<Rightarrow> op_draft) \<Rightarrow> lease_result \<Rightarrow> op_draft option" where
  "prepare_owner draft r =
     (case r of OwnerResult ok text (Some c) \<Rightarrow> (if ok then Some (draft text c) else None) | _ \<Rightarrow> None)"

definition task_updated_frame :: "hub_env \<Rightarrow> string \<Rightarrow> string \<Rightarrow> string \<Rightarrow> task_claim \<Rightarrow> json_object" where
  "task_updated_frame env sender task text c =
     system_message env text ''task_updated'' ''all''
       [(''task_id'', JString task), (''owner'', JString sender), (''status'', JString (status c)),
        (''data_ref'', JString (data_ref c)), (''version'', JInt (version c))]"

definition task_update_verb :: "hub_env \<Rightarrow> string \<Rightarrow> json_object \<Rightarrow> journal_error + lease_request" where
  "task_update_verb env sender data =
     sum_bind (first_text data [''task_id'', ''id'']) (\<lambda>raw.
     sum_bind (truthy_text (get_field data ''status'')) (\<lambda>st.
     sum_bind (optional_text (get_field data ''note'')) (\<lambda>nt.
     sum_bind (optional_text (get_field data ''data_ref'')) (\<lambda>dr.
     sum_bind (operation_identity env data) (\<lambda>key.
       let task = py_strip raw in
       Inr \<lparr>rq_sender = sender, rq_key = key,
            rq_mutate = (\<lambda>s. owner_result task
              (update_task sender task st nt dr (optional_int_field data ''epoch'')
                 (optional_int_field data ''expected_version'') (env_now env) s)),
            rq_prepare = prepare_owner (\<lambda>text c.
              plain_draft (task_updated_frame env sender task text c) [record_claim_snapshot ''task_update'' c]
                (family ''task_update'' ''task_updated'')),
            rq_persist = claim_snapshot_rows ''task_update''\<rparr>)))))"

definition checkpoint_saved_frame :: "hub_env \<Rightarrow> string \<Rightarrow> string \<Rightarrow> string \<Rightarrow> task_claim \<Rightarrow> json_object" where
  "checkpoint_saved_frame env sender task text c =
     system_message env text ''checkpoint_saved'' sender
       [(''task_id'', JString task), (''version'', JInt (version c))]"

definition checkpoint_verb :: "hub_env \<Rightarrow> string \<Rightarrow> json_object \<Rightarrow> journal_error + lease_request" where
  "checkpoint_verb env sender data =
     sum_bind (text_field data ''task_id'') (\<lambda>raw.
     sum_bind (first_text data [''checkpoint'', ''payload'']) (\<lambda>token.
     sum_bind (operation_identity env data) (\<lambda>key.
       let task = py_strip raw in
       Inr \<lparr>rq_sender = sender, rq_key = key,
            rq_mutate = (\<lambda>s. owner_result task
              (save_checkpoint sender task token (optional_int_field data ''epoch'') (env_now env) s)),
            rq_prepare = prepare_owner (\<lambda>text c.
              plain_draft (checkpoint_saved_frame env sender task text c) [record_claim_snapshot ''checkpoint'' c]
                (family ''checkpoint'' ''checkpoint_saved'')),
            rq_persist = claim_snapshot_rows ''checkpoint''\<rparr>)))"

definition handoff_note :: "hub_env \<Rightarrow> string \<Rightarrow> string \<Rightarrow> string \<Rightarrow> string \<Rightarrow> progress_note" where
  "handoff_note env sender task to_agent context =
     \<lparr>pn_task_id = task, pn_author = sender, pn_kind = ''note'',
      pn_text = (if context = [] then ''handed off to '' @ to_agent
                 else ''handed off to '' @ to_agent @ '': '' @ context),
      pn_posted_at = env_now env\<rparr>"

definition handoff_granted_frame :: "hub_env \<Rightarrow> string \<Rightarrow> string \<Rightarrow> string \<Rightarrow> task_claim \<Rightarrow> json_object" where
  "handoff_granted_frame env sender task text c =
     system_message env text ''handoff_granted'' ''all''
       ([(''task_id'', JString task), (''owner'', JString (owner c)), (''previous_owner'', JString sender),
         (''note'', JString (claim_note c)), (''status'', JString (status c)), (''worktree'', JString (worktree c)),
         (''paths'', JList (map JString (paths c)))]
        @ (case path_identity c of None \<Rightarrow> [] | Some i \<Rightarrow> [(''path_identity'', JObject (scope_identity_as_dict i))])
        @ [(''epoch'', JInt (epoch c)), (''version'', JInt (version c)),
           (''lease_expires_at'', JFloat (Finite (lease_expires_at c))), (''checkpoint'', JString (checkpoint c))])"

text \<open>The keyed path commits the progress note with the handoff; the unkeyed path posts it afterwards.\<close>

definition handoff_verb :: "hub_env \<Rightarrow> string \<Rightarrow> json_object \<Rightarrow> journal_error + lease_request" where
  "handoff_verb env sender data =
     sum_bind (text_field data ''task_id'') (\<lambda>raw.
     sum_bind (first_text data [''to_agent'', ''target'']) (\<lambda>raw_target.
     sum_bind (optional_text (get_field data ''note'')) (\<lambda>nt.
     sum_bind (operation_identity env data) (\<lambda>key.
       let task = py_strip raw; to_agent = py_strip raw_target in
       Inr \<lparr>rq_sender = sender, rq_key = key,
            rq_mutate = (\<lambda>s. owner_result task
              (handoff sender task to_agent nt (optional_int_field data ''epoch'') (env_now env) s)),
            rq_prepare = prepare_owner (\<lambda>text c.
              plain_draft (handoff_granted_frame env sender task text c)
                [record_claim_snapshot ''handoff'' c,
                 record_ledger_progress (handoff_note env sender task to_agent (claim_note c))]
                [(''family'', JString ''handoff''),
                 (''progress'', JObject [(''task_id'', JString task), (''from_agent'', JString sender),
                    (''to_agent'', JString to_agent), (''context'', JString (claim_note c))])]),
            rq_persist = claim_snapshot_rows ''handoff''\<rparr>))))"

section \<open>Releasing\<close>

definition release_reply_binding :: "hub_env \<Rightarrow> json_object \<Rightarrow> journal_error + json_object" where
  "release_reply_binding env data =
     (case get_field data ''idem_key'' of
        JString op_id \<Rightarrow>
          (if op_id = [] then Inr []
           else (case canonical_request_digest (env_float_text env) data of
                   None \<Rightarrow> Inl MalformedPayload
                 | Some digest \<Rightarrow> Inr [(''release_operation_id'', JString op_id), (''request_digest'', JString digest)]))
      | _ \<Rightarrow> Inr [])"

definition receipt_note :: "hub_env \<Rightarrow> string \<Rightarrow> string \<Rightarrow> release_receipt \<Rightarrow> progress_note" where
  "receipt_note env sender task receipt =
     \<lparr>pn_task_id = task, pn_author = sender, pn_kind = ''assessment'',
      pn_text = format_release_receipt_note (env_float_text env) receipt, pn_posted_at = env_now env\<rparr>"

definition release_granted_frame ::
  "hub_env \<Rightarrow> string \<Rightarrow> string \<Rightarrow> release_receipt \<Rightarrow> json_object \<Rightarrow> string \<Rightarrow> json_object" where
  "release_granted_frame env sender task receipt binding text =
     system_message env text ''release_granted'' ''all''
       ([(''task_id'', JString task), (''owner'', JString sender), (''receipt'', JObject (receipt_as_dict receipt))] @ binding)"

definition prepare_release ::
  "hub_env \<Rightarrow> string \<Rightarrow> string \<Rightarrow> release_receipt \<Rightarrow> json_object \<Rightarrow> lease_result \<Rightarrow> op_draft option" where
  "prepare_release env sender task receipt binding r =
     (case r of
        ReleaseResult ok text \<Rightarrow>
          (if \<not> ok then None
           else Some (plain_draft (release_granted_frame env sender task receipt binding text)
             (record_release task #
               (if release_receipt_has_evidence receipt
                then [record_ledger_progress (receipt_note env sender task receipt)] else []))
             [(''family'', JString ''release''), (''receipt'', JObject (receipt_as_dict receipt))]))
      | _ \<Rightarrow> None)"

definition release_rows :: "string \<Rightarrow> lease_result \<Rightarrow> (string \<times> json_object) list" where
  "release_rows task r = (case r of ReleaseResult ok text \<Rightarrow> (if ok then [record_release task] else []) | _ \<Rightarrow> [])"

text \<open>The receipt is built when the release succeeds; a frame it cannot be built of is outside the model.\<close>

definition release_verb :: "hub_env \<Rightarrow> string \<Rightarrow> json_object \<Rightarrow> journal_error + lease_request" where
  "release_verb env sender data =
     sum_bind (first_text data [''task_id'', ''payload'']) (\<lambda>raw.
     sum_bind (operation_identity env data) (\<lambda>key.
       let task = py_strip raw in
     sum_bind (build_release_receipt task sender data) (\<lambda>receipt.
     sum_bind (release_reply_binding env data) (\<lambda>binding.
       Inr \<lparr>rq_sender = sender, rq_key = key,
            rq_mutate = (\<lambda>s. case release sender task (optional_int_field data ''epoch'') (env_now env) s of
                (s', Inl m) \<Rightarrow> (s', ReleaseResult False (render_msg m))
              | (s', Inr m) \<Rightarrow> (s', ReleaseResult True (render_msg m))),
            rq_prepare = prepare_release env sender task receipt binding,
            rq_persist = release_rows task\<rparr>))))"


section \<open>Admission\<close>

definition FENCING_EPOCH_REQUIRED :: string where
  "FENCING_EPOCH_REQUIRED =
     ''Fencing epoch required: this hub runs with --require-fencing-epoch, so a lease mutation must carry the '' @
     [CHR 0x27] @ ''epoch'' @ [CHR 0x27] @ '' from your claim_granted frame.''"

datatype lease_verb = ClaimVerb | UpdateVerb | ReleaseVerb | HandoffVerb | CheckpointVerb

fun lease_task_id :: "lease_verb \<Rightarrow> json_object \<Rightarrow> journal_error + string" where
  "lease_task_id ClaimVerb data = first_text data [''task_id'', ''payload'']"
| "lease_task_id UpdateVerb data = first_text data [''task_id'', ''id'']"
| "lease_task_id ReleaseVerb data = first_text data [''task_id'', ''payload'']"
| "lease_task_id HandoffVerb data = text_field data ''task_id''"
| "lease_task_id CheckpointVerb data = text_field data ''task_id''"

fun refusal_type :: "lease_verb \<Rightarrow> string" where
  "refusal_type ClaimVerb = ''claim_denied''"
| "refusal_type UpdateVerb = ''error''"
| "refusal_type ReleaseVerb = ''release_denied''"
| "refusal_type HandoffVerb = ''handoff_denied''"
| "refusal_type CheckpointVerb = ''checkpoint_denied''"

text \<open>\<open>_refuse_unfenced\<close>: every verb but the claim carries an epoch when the hub requires it.\<close>

definition refuse_unfenced :: "bool \<Rightarrow> lease_verb \<Rightarrow> json_object \<Rightarrow> bool" where
  "refuse_unfenced require_fencing_epoch verb data \<longleftrightarrow>
     verb \<noteq> ClaimVerb \<and> require_fencing_epoch \<and> optional_int_field data ''epoch'' = None"

definition unfenced_frame :: "hub_env \<Rightarrow> lease_verb \<Rightarrow> string \<Rightarrow> string \<Rightarrow> json_object \<Rightarrow> json_object" where
  "unfenced_frame env verb sender task binding =
     system_message env FENCING_EPOCH_REQUIRED (refusal_type verb) sender
       ([(''task_id'', JString task)] @ (if verb = ReleaseVerb then binding else []))"

definition handoff_target :: "json_object \<Rightarrow> journal_error + string" where
  "handoff_target data = sum_bind (first_text data [''to_agent'', ''target'']) (\<lambda>raw. Inr (py_strip raw))"

definition offline_target_frame :: "hub_env \<Rightarrow> string \<Rightarrow> string \<Rightarrow> string \<Rightarrow> json_object" where
  "offline_target_frame env sender task to_agent =
     system_message env (''Handoff target '' @ quoted to_agent @ '' is not online.'') ''handoff_denied'' sender
       [(''task_id'', JString task)]"

text \<open>The request a frame's handler makes for the frame itself.\<close>

definition verb_request ::
  "hub_env \<Rightarrow> int \<Rightarrow> lease_verb \<Rightarrow> string \<Rightarrow> string option \<Rightarrow> json_object \<Rightarrow> journal_error + lease_request" where
  "verb_request env max_paths verb sender quota data =
     (case verb of
        ClaimVerb \<Rightarrow> claim_verb env max_paths sender quota data
      | UpdateVerb \<Rightarrow> task_update_verb env sender data
      | ReleaseVerb \<Rightarrow> release_verb env sender data
      | HandoffVerb \<Rightarrow> handoff_verb env sender data
      | CheckpointVerb \<Rightarrow> checkpoint_verb env sender data)"

text \<open>Up to the actor: the refusal frame, or the request.\<close>

definition admit_frame ::
  "hub_env \<Rightarrow> int \<Rightarrow> bool \<Rightarrow> string list \<Rightarrow> lease_verb \<Rightarrow> string \<Rightarrow> string option \<Rightarrow> json_object
   \<Rightarrow> journal_error + (json_object + lease_request)" where
  "admit_frame env max_paths require_fencing_epoch online verb sender quota data =
     sum_bind (lease_task_id verb data) (\<lambda>raw.
       if refuse_unfenced require_fencing_epoch verb data
       then sum_bind (if verb = ReleaseVerb then release_reply_binding env data else Inr []) (\<lambda>binding.
              Inr (Inl (unfenced_frame env verb sender (py_strip raw) binding)))
       else sum_bind (if verb = HandoffVerb then handoff_target data else Inr []) (\<lambda>to_agent.
              if to_agent \<noteq> [] \<and> to_agent \<notin> set online
              then Inr (Inl (offline_target_frame env sender (py_strip raw) to_agent))
              else sum_bind (verb_request env max_paths verb sender quota data) (\<lambda>rq. Inr (Inr rq))))"

section \<open>Publication and announcement\<close>

record hub_views =
  hv_waits :: wait_graph
  hv_board :: blackboard
  hv_claims_granted :: int
  hv_claims_denied :: int
  hv_releases_granted :: int

text \<open>The note a keyed request committed with its operation, if any.\<close>

definition prepared_note :: "(string \<times> json_object) list \<Rightarrow> progress_note option" where
  "prepared_note events =
     (case map snd (filter (\<lambda>(kind, p). kind = ''ledger_progress'') events) of
        [] \<Rightarrow> None
      | p # _ \<Rightarrow> (case progress_from_payload p of Inr n \<Rightarrow> Some n | Inl _ \<Rightarrow> None))"

definition restore_note :: "progress_note option \<Rightarrow> hub_views \<Rightarrow> hub_views" where
  "restore_note note' hv = (case note' of None \<Rightarrow> hv | Some n \<Rightarrow> hv\<lparr>hv_board := restore_progress n (hv_board hv)\<rparr>)"

text \<open>\<open>publish\<close>: runs with the publication of the state, with no await between them.\<close>

definition publish_lease ::
  "lease_verb \<Rightarrow> string \<Rightarrow> string \<Rightarrow> string \<Rightarrow> claim_dict \<Rightarrow> progress_note option \<Rightarrow> lease_result
   \<Rightarrow> hub_views \<Rightarrow> hub_views" where
  "publish_lease verb sender task to_agent cs note' r hv =
     (case (verb, r) of
        (ClaimVerb, ClaimResult app) \<Rightarrow>
          (if ca_claim app = None then hv
           else hv\<lparr>hv_waits := clear_satisfied_wait (hv_waits hv) sender (ca_task_id app)\<rparr>)
      | (ReleaseVerb, ReleaseResult ok text) \<Rightarrow>
          (if ok then restore_note note' (hv\<lparr>hv_waits := prune_waits (hv_waits hv) cs\<rparr>) else hv)
      | (HandoffVerb, OwnerResult ok text c) \<Rightarrow>
          (if c = None then hv
           else restore_note note' (hv\<lparr>hv_waits := clear_satisfied_wait (hv_waits hv) to_agent task\<rparr>))
      | _ \<Rightarrow> hv)"

definition progress_frame :: "hub_env \<Rightarrow> string \<Rightarrow> progress_note \<Rightarrow> json_object" where
  "progress_frame env text n =
     system_message env text ''ledger_progress_posted'' ''all'' [(''note'', JObject (progress_note_as_dict n))]"

definition denial_frame :: "hub_env \<Rightarrow> string \<Rightarrow> claim_application \<Rightarrow> json_object" where
  "denial_frame env sender app =
     system_message env (ca_message app) ''claim_denied'' sender
       [(''task_id'', JString (ca_task_id app)), (''reason_code'', JString (ca_reason_code app)),
        (''renewal_id'', JString (ca_renewal_id app)), (''claim_request_id'', JString (ca_request_id app))]"

text \<open>
  What \<open>_announce_claim\<close>, \<open>_announce_task_update\<close>, \<open>_announce_release\<close>, \<open>_announce_handoff\<close> and
  the end of \<open>handle_checkpoint\<close> send and post: \<open>keyed\<close> is the response and the note of the
  committed operation, \<open>None\<close> on the unkeyed path, where the note is posted and journaled now.
\<close>

definition announce_claim ::
  "hub_env \<Rightarrow> string \<Rightarrow> json_object option \<Rightarrow> claim_application \<Rightarrow> hub_views \<Rightarrow> hub_views \<times> sent list" where
  "announce_claim env sender keyed app hv =
     (case ca_claim app of
        Some c \<Rightarrow> (hv\<lparr>hv_claims_granted := hv_claims_granted hv + 1\<rparr>,
          [Broadcast (case keyed of Some response \<Rightarrow> response | None \<Rightarrow> claim_grant env app c)])
      | None \<Rightarrow> (hv\<lparr>hv_claims_denied := hv_claims_denied hv + 1\<rparr>,
          [Reply_To_Sender (denial_frame env sender app)]))"

definition announce_task_update ::
  "hub_env \<Rightarrow> string \<Rightarrow> string \<Rightarrow> json_object option \<Rightarrow> string \<Rightarrow> task_claim option \<Rightarrow> sent list" where
  "announce_task_update env sender task keyed text c =
     (case c of
        Some c' \<Rightarrow> [Broadcast (case keyed of Some response \<Rightarrow> response | None \<Rightarrow> task_updated_frame env sender task text c')]
      | None \<Rightarrow> [Reply_To_Sender (system_message env text ''error'' sender [])])"

definition announce_checkpoint ::
  "hub_env \<Rightarrow> string \<Rightarrow> string \<Rightarrow> json_object option \<Rightarrow> string \<Rightarrow> task_claim option \<Rightarrow> sent list" where
  "announce_checkpoint env sender task keyed text c =
     (case c of
        Some c' \<Rightarrow> [Reply_To_Sender
          (case keyed of Some response \<Rightarrow> response | None \<Rightarrow> checkpoint_saved_frame env sender task text c')]
      | None \<Rightarrow> [Reply_To_Sender (system_message env text ''checkpoint_denied'' sender [(''task_id'', JString task)])])"

definition announce_release ::
  "hub_env \<Rightarrow> string \<Rightarrow> string \<Rightarrow> release_receipt \<Rightarrow> json_object \<Rightarrow> json_object option \<Rightarrow> progress_note option
   \<Rightarrow> bool \<Rightarrow> string \<Rightarrow> hub_views \<Rightarrow> hub_views \<times> (string \<times> json_object) list \<times> sent list" where
  "announce_release env sender task receipt binding keyed note' ok text hv =
     (if \<not> ok
      then (hv, [], [Reply_To_Sender (system_message env text ''release_denied'' sender
              ((''task_id'', JString task) # binding))])
      else
        (let granted = (case keyed of Some response \<Rightarrow> response
               | None \<Rightarrow> release_granted_frame env sender task receipt binding text);
             hv1 = hv\<lparr>hv_releases_granted := hv_releases_granted hv + 1\<rparr>;
             label = ''Release receipt from '' @ sender
         in (case (keyed, note') of
               (Some response, Some n) \<Rightarrow> (hv1, [], [Broadcast granted, Broadcast (progress_frame env label n)])
             | _ \<Rightarrow>
                 (if release_receipt_has_evidence receipt
                  then (case post_progress (rr_task_id receipt) (rr_owner receipt)
                            (format_release_receipt_note (env_float_text env) receipt) ''assessment'' (env_now env)
                            (hv_board hv1) of
                          (b, None) \<Rightarrow> (hv1\<lparr>hv_board := b\<rparr>, [], [Broadcast granted])
                        | (b, Some n) \<Rightarrow> (hv1\<lparr>hv_board := b\<rparr>, [record_ledger_progress n],
                            [Broadcast granted, Broadcast (progress_frame env (''Release receipt from '' @ rr_owner receipt) n)]))
                  else (hv1, [], [Broadcast granted])))))"

definition announce_handoff ::
  "hub_env \<Rightarrow> string \<Rightarrow> string \<Rightarrow> string \<Rightarrow> json_object option \<Rightarrow> progress_note option \<Rightarrow> string
   \<Rightarrow> task_claim option \<Rightarrow> hub_views \<Rightarrow> hub_views \<times> (string \<times> json_object) list \<times> sent list" where
  "announce_handoff env sender task to_agent keyed note' text c hv =
     (case c of
        None \<Rightarrow> (hv, [], [Reply_To_Sender (system_message env text ''handoff_denied'' sender [(''task_id'', JString task)])])
      | Some c' \<Rightarrow>
          (let granted = Broadcast (case keyed of Some response \<Rightarrow> response
                 | None \<Rightarrow> handoff_granted_frame env sender task text c');
               label = ''Progress from '' @ sender
           in (case (keyed, note') of
                 (Some response, Some n) \<Rightarrow> (hv, [], [Broadcast (progress_frame env label n), granted])
               | _ \<Rightarrow>
                   (let (b, n) = plain_note task sender
                          (if claim_note c' = [] then ''handed off to '' @ to_agent
                           else ''handed off to '' @ to_agent @ '': '' @ claim_note c') (env_now env) (hv_board hv)
                    in (hv\<lparr>hv_board := b\<rparr>, [record_ledger_progress n],
                        [Broadcast (progress_frame env label n), granted])))))"

section \<open>Abandoned claims\<close>

definition HOLDER_OFFLINE_ACTOR :: string where "HOLDER_OFFLINE_ACTOR = ''hub:holder-offline''"

record holder_presence =
  hp_started_at :: time
  hp_window :: time
  hp_offline_since :: "(string, time) pydict"

definition holder_left :: "string \<Rightarrow> time \<Rightarrow> holder_presence \<Rightarrow> holder_presence" where
  "holder_left name now hp =
     (case dget (hp_offline_since hp) name of
        Some _ \<Rightarrow> hp
      | None \<Rightarrow> hp\<lparr>hp_offline_since := dset name now (hp_offline_since hp)\<rparr>)"

definition holder_returned :: "string \<Rightarrow> holder_presence \<Rightarrow> holder_presence" where
  "holder_returned name hp = hp\<lparr>hp_offline_since := ddel name (hp_offline_since hp)\<rparr>"

definition offline_seconds :: "holder_presence \<Rightarrow> string \<Rightarrow> bool \<Rightarrow> time \<Rightarrow> time option" where
  "offline_seconds hp name online now =
     (if online then None
      else Some (max 0 (now - (case dget (hp_offline_since hp) name of Some t \<Rightarrow> t | None \<Rightarrow> hp_started_at hp))))"

definition abandoned_claims ::
  "claim_dict \<Rightarrow> holder_presence \<Rightarrow> string list \<Rightarrow> time \<Rightarrow> (string \<times> string \<times> time) list" where
  "abandoned_claims cs hp online now =
     List.map_filter (\<lambda>(task, c).
       (case offline_seconds hp (owner c) (owner c \<in> set online) now of
          Some away \<Rightarrow> (if hp_window hp \<le> away then Some (task, owner c, away) else None)
        | None \<Rightarrow> None)) (sort_key fst cs)"

definition release_each :: "(string \<times> string \<times> time) list \<Rightarrow> synapse_state \<Rightarrow> synapse_state" where
  "release_each items s = fold (\<lambda>(task, who, away) s. fst (force_release task HOLDER_OFFLINE_ACTOR s)) items s"

definition abandoned_verb :: "holder_presence \<Rightarrow> string list \<Rightarrow> time \<Rightarrow> lease_request" where
  "abandoned_verb hp online now =
     \<lparr>rq_sender = HOLDER_OFFLINE_ACTOR, rq_key = None,
      rq_mutate = (\<lambda>s. let found = abandoned_claims (claims s) hp online now in (release_each found s, AbandonedResult found)),
      rq_prepare = (\<lambda>r. None),
      rq_persist = (\<lambda>r. case r of AbandonedResult items \<Rightarrow> map (\<lambda>(task, who, away). record_release task) items | _ \<Rightarrow> [])\<rparr>"

text \<open>The sweep asks the actor for nothing when no live claim is abandoned.\<close>

type_synonym lease_actor = "(synapse_state, lease_result) actor"

definition release_abandoned_claims ::
  "holder_presence \<Rightarrow> string list \<Rightarrow> time \<Rightarrow> nat \<Rightarrow> lease_actor \<Rightarrow> lease_actor \<times> commit_error option" where
  "release_abandoned_claims hp online now disk ac =
     (if abandoned_claims (claims (ac_subject ac)) hp online now = [] then (ac, None)
      else (case run_request disk (abandoned_verb hp online now) ac of
              (ac', Inl e) \<Rightarrow> (ac', Some e)
            | (ac', Inr ex) \<Rightarrow> (ac', None)))"

section \<open>The handlers\<close>

text \<open>
  A whole handler up to its answer, when no other request comes between its own.  \<open>handle_claim\<close>
  releases the abandoned claims first; an append that fails there escapes, and the claim is not
  decided.  \<open>disk1\<close> and \<open>disk2\<close> are what the store commits for the sweep and for the request.
\<close>

datatype handled =
    Frame_Error journal_error
  | Append_Error commit_error
  | Refused_Frame json_object
  | Executed "lease_result execution"

definition decide_lease ::
  "hub_env \<Rightarrow> int \<Rightarrow> bool \<Rightarrow> string list \<Rightarrow> nat \<Rightarrow> lease_verb \<Rightarrow> string \<Rightarrow> string option \<Rightarrow> json_object
   \<Rightarrow> lease_actor \<Rightarrow> lease_actor \<times> handled" where
  "decide_lease env max_paths require_fencing_epoch online disk verb sender quota data ac =
     (case admit_frame env max_paths require_fencing_epoch online verb sender quota data of
        Inl e \<Rightarrow> (ac, Frame_Error e)
      | Inr (Inl refusal) \<Rightarrow> (ac, Refused_Frame refusal)
      | Inr (Inr rq) \<Rightarrow>
          (case run_request disk rq ac of
             (ac', Inl e) \<Rightarrow> (ac', Append_Error e)
           | (ac', Inr ex) \<Rightarrow> (ac', Executed ex)))"

definition handle_lease ::
  "hub_env \<Rightarrow> int \<Rightarrow> bool \<Rightarrow> holder_presence \<Rightarrow> string list \<Rightarrow> time \<Rightarrow> nat \<Rightarrow> nat \<Rightarrow> lease_verb \<Rightarrow> string
   \<Rightarrow> string option \<Rightarrow> json_object \<Rightarrow> lease_actor \<Rightarrow> lease_actor \<times> handled" where
  "handle_lease env max_paths require_fencing_epoch hp online tick disk1 disk2 verb sender quota data ac =
     (if verb = ClaimVerb
      then (case release_abandoned_claims hp online tick disk1 ac of
              (ac1, Some e) \<Rightarrow> (ac1, Append_Error e)
            | (ac1, None) \<Rightarrow>
                decide_lease env max_paths require_fencing_epoch online disk2 verb sender quota data ac1)
      else decide_lease env max_paths require_fencing_epoch online disk2 verb sender quota data ac)"

end
