(* ===== verification/Atomic_Properties.thy ===== *)
theory Atomic_Properties
  imports Atomic_Operations
begin

text \<open>
  Runs of the actor: requests that wait for the lock, duplicates answered from the cache while it
  is held, appends that fail before or between their rows, direct sweeps of the live subject, rows of
  other writers, and crashes at any point.  A keyed request takes effect at most once over all of
  them, and a subject whose mutations match their rows is what its log says it is, up to the rows
  a failed append left behind.
\<close>

section \<open>Runs\<close>

text \<open>What replay makes of the completion rows.\<close>

definition replayed_response :: "journal_event \<Rightarrow> (string, json_object) pydict \<Rightarrow> (string, json_object) pydict" where
  "replayed_response ev d =
     (if ev_kind ev \<noteq> ''idempotency'' then d
      else (case (text_or (ev_payload ev) ''key'' [], get_or (ev_payload ev) ''response'' (JObject [])) of
              (Inr k, JObject r) \<Rightarrow> if k = [] then d else move_to_end k r d
            | _ \<Rightarrow> d))"

definition replayed_responses :: "journal_event list \<Rightarrow> (string, json_object) pydict" where
  "replayed_responses rows = fold replayed_response rows []"

text \<open>A failed append says which rows it left in the log.\<close>

datatype 'r label =
    Reply string string "'r execution"
  | PlainReply "'r execution"
  | AppendFailed "(string \<times> json_object) list"
  | Restarted
  | Silent

definition reply_label :: "('s, 'r) request \<Rightarrow> 'r execution \<Rightarrow> 'r label" where
  "reply_label rq ex = (case rq_key rq of None \<Rightarrow> PlainReply ex | Some (k, d) \<Rightarrow> Reply k d ex)"

definition rows_left :: "('s, 'r) actor \<Rightarrow> ('s, 'r) actor \<Rightarrow> (string \<times> json_object) list" where
  "rows_left ac ac' =
     map (\<lambda>ev. (ev_kind ev, ev_payload ev)) (drop (length (st_rows (ac_store ac))) (st_rows (ac_store ac')))"

definition fresh_actor :: "'s \<Rightarrow> ('s, 'r) actor" where
  "fresh_actor s =
     \<lparr>ac_subject = s, ac_cache = new_cache DEFAULT_MAX_KEYS,
      ac_store = \<lparr>st_rows = [], st_next = 1, st_operations = [], st_outbox = []\<rparr>, ac_pending = None\<rparr>"

text \<open>
  \<open>admit\<close>: the requests the verbs make; \<open>sweeps\<close>: the direct changes of the live subject;
  \<open>restores\<close>: the subjects a restart may rebuild from the rows.  The rows of other writers are
  never completions.
\<close>

inductive actor_step ::
  "(('s, 'r) request \<Rightarrow> bool) \<Rightarrow> ('s \<Rightarrow> 's \<Rightarrow> bool) \<Rightarrow> (string \<times> json_object \<Rightarrow> bool)
   \<Rightarrow> (journal_event list \<Rightarrow> 's \<Rightarrow> bool) \<Rightarrow> ('s, 'r) actor \<Rightarrow> 'r label \<Rightarrow> ('s, 'r) actor \<Rightarrow> bool"
  for admit sweeps foreign restores where
  answered: "ac_pending ac = None \<Longrightarrow> admit rq \<Longrightarrow> atomic_begin rq ac = (ac', Some ex)
    \<Longrightarrow> actor_step admit sweeps foreign restores ac (reply_label rq ex) ac'"
| started: "ac_pending ac = None \<Longrightarrow> admit rq \<Longrightarrow> atomic_begin rq ac = (ac', None)
    \<Longrightarrow> actor_step admit sweeps foreign restores ac Silent ac'"
| finished: "ac_pending ac = Some p \<Longrightarrow> atomic_finish disk ac = (ac', Inr ex)
    \<Longrightarrow> actor_step admit sweeps foreign restores ac (reply_label (pd_request p) ex) ac'"
| failed: "ac_pending ac = Some p \<Longrightarrow> atomic_finish disk ac = (ac', Inl e)
    \<Longrightarrow> actor_step admit sweeps foreign restores ac (AppendFailed (rows_left ac ac')) ac'"
| duplicate: "lookup_operation k ac = (ac', Some r)
    \<Longrightarrow> actor_step admit sweeps foreign restores ac (Reply k d (answer_existing sender d r)) ac'"
| sweep: "sweeps (ac_subject ac) s' \<Longrightarrow> actor_step admit sweeps foreign restores ac Silent (ac\<lparr>ac_subject := s'\<rparr>)"
| foreign: "list_all foreign rows
    \<Longrightarrow> actor_step admit sweeps foreign restores ac Silent (ac\<lparr>ac_store := append_rows rows (ac_store ac)\<rparr>)"
| settled: "actor_step admit sweeps foreign restores ac Silent
    (ac\<lparr>ac_store := fst (settle_intent k receipt (ac_store ac))\<rparr>)"
| crashed: "st = crash_store appended ac \<Longrightarrow> restores (st_rows st) s'
    \<Longrightarrow> actor_step admit sweeps foreign restores ac Restarted (restart_actor s' (replayed_responses (st_rows st)) st)"

inductive actor_run ::
  "(('s, 'r) request \<Rightarrow> bool) \<Rightarrow> ('s \<Rightarrow> 's \<Rightarrow> bool) \<Rightarrow> (string \<times> json_object \<Rightarrow> bool)
   \<Rightarrow> (journal_event list \<Rightarrow> 's \<Rightarrow> bool) \<Rightarrow> 's \<Rightarrow> 'r label list \<Rightarrow> ('s, 'r) actor \<Rightarrow> bool"
  for admit sweeps foreign restores s0 where
  fresh: "actor_run admit sweeps foreign restores s0 [] (fresh_actor s0)"
| extend: "actor_run admit sweeps foreign restores s0 ls ac \<Longrightarrow> actor_step admit sweeps foreign restores ac l ac'
    \<Longrightarrow> actor_run admit sweeps foreign restores s0 (ls @ [l]) ac'"

section \<open>The cache\<close>

lemma dget_move_to_end [simp]: "dget (move_to_end k v d) j = (if j = k then Some v else dget d j)"
  by (auto simp: move_to_end_def map_add_def split: option.splits)

lemma dict_ok_move_to_end [simp]: "dict_ok d \<Longrightarrow> dict_ok (move_to_end k v d)"
proof -
  assume ok: "dict_ok d"
  have "k \<notin> fst ` set (ddel k d)" by (metis dget_ddel map_of_eq_None_iff)
  then show ?thesis using dict_ok_ddel [OF ok, of k] by (simp add: move_to_end_def dict_ok_def)
qed

lemma dict_ok_evict [simp]: "dict_ok d \<Longrightarrow> dict_ok (evict_oldest n d)"
  by (simp add: evict_oldest_def dict_ok_def drop_map [symmetric])

lemma dget_evict: "dict_ok d \<Longrightarrow> dget (evict_oldest n d) k = Some v \<Longrightarrow> dget d k = Some v"
  by (metis dict_mem_iff dict_ok_evict evict_oldest_def in_set_dropD)

lemma length_evict: "0 \<le> n \<Longrightarrow> int (length (evict_oldest n d)) \<le> n"
  by (simp add: evict_oldest_def)

text \<open>A cache that says what the table says.\<close>

definition cache_ok :: "(string, stored_operation) pydict \<Rightarrow> idem_cache \<Rightarrow> bool" where
  "cache_ok ops c \<longleftrightarrow> dict_ok (ic_store c) \<and> int (length (ic_store c)) \<le> ic_max_keys c \<and> 1 \<le> ic_max_keys c
     \<and> (\<forall>k r. dget (ic_store c) k = Some r \<longrightarrow> (\<exists>so. dget ops k = Some so \<and> r = record_of so))"

definition table_ok :: "(string, stored_operation) pydict \<Rightarrow> bool" where
  "table_ok ops \<longleftrightarrow> dict_ok ops \<and> (\<forall>k so. dget ops k = Some so \<longrightarrow> so_key so = k \<and> k \<noteq> [])"

lemma cache_ok_put:
  assumes "cache_ok ops c" and "table_ok ops" and "dget ops k = Some so"
  shows "cache_ok ops (cache_put (record_of so) c)"
proof -
  have k: "so_key so = k" using assms(2,3) by (simp add: table_ok_def)
  have ok: "dict_ok (move_to_end k (record_of so) (ic_store c))" using assms(1) by (simp add: cache_ok_def)
  have "\<exists>so'. dget ops j = Some so' \<and> r = record_of so'"
    if "dget (evict_oldest (ic_max_keys c) (move_to_end k (record_of so) (ic_store c))) j = Some r" for j r
    using dget_evict [OF ok that] assms(1,3) by (auto simp: cache_ok_def split: if_splits)
  then show ?thesis using assms(1) ok length_evict [of "ic_max_keys c"]
    by (auto simp: cache_ok_def cache_put_def record_of_def k [unfolded record_of_def])
qed

lemma cache_ok_get:
  assumes "cache_ok ops c" and "get_record k c = (c', found)"
  shows "cache_ok ops c' \<and> (\<forall>r. found = Some r \<longrightarrow> (\<exists>so. dget ops k = Some so \<and> r = record_of so))"
proof (cases "dget (ic_store c) k")
  case None
  then show ?thesis using assms by (simp add: get_record_def)
next
  case (Some r)
  have "length (move_to_end k r (ic_store c)) = length (ic_store c)"
  proof -
    have ok: "dict_ok (ic_store c)" using assms(1) by (simp add: cache_ok_def)
    have "dom (map_of (move_to_end k r (ic_store c))) = dom (map_of (ic_store c))"
      using Some by (auto simp: dom_def)
    then have "fst ` set (move_to_end k r (ic_store c)) = fst ` set (ic_store c)"
      by (simp add: dom_map_of_conv_image_fst)
    then show ?thesis using dict_ok_move_to_end [OF ok] ok
      by (metis dict_ok_def distinct_card length_map set_map)
  qed
  then show ?thesis using assms Some by (auto simp: get_record_def cache_ok_def split: if_splits)
qed


text \<open>Seeding: a response the rows replay is overwritten by the record of its operation.\<close>

lemma cache_put_cases:
  "dict_ok (ic_store c) \<Longrightarrow> dget (ic_store (cache_put r c)) k = Some r' \<Longrightarrow>
   (k = or_key r \<and> r' = r) \<or> (k \<noteq> or_key r \<and> dget (ic_store c) k = Some r')"
  by (auto simp: cache_put_def dest!: dget_evict [rotated] split: if_splits)

lemma cache_shape_put:
  "dict_ok (ic_store c) \<Longrightarrow> 1 \<le> ic_max_keys c \<Longrightarrow>
   dict_ok (ic_store (cache_put r c)) \<and> int (length (ic_store (cache_put r c))) \<le> ic_max_keys c
   \<and> ic_max_keys (cache_put r c) = ic_max_keys c"
  using length_evict [of "ic_max_keys c"] by (auto simp: cache_put_def)

lemma cache_shape_puts:
  "dict_ok (ic_store c) \<Longrightarrow> 1 \<le> ic_max_keys c \<Longrightarrow> int (length (ic_store c)) \<le> ic_max_keys c \<Longrightarrow>
   dict_ok (ic_store (fold cache_put rs c)) \<and> int (length (ic_store (fold cache_put rs c))) \<le> ic_max_keys c
   \<and> ic_max_keys (fold cache_put rs c) = ic_max_keys c"
proof (induction rs arbitrary: c)
  case (Cons r rs)
  note S = cache_shape_put [OF Cons.prems(1,2), of r]
  then show ?case using Cons.IH [of "cache_put r c"] Cons.prems(2) by simp
qed simp

lemma puts_last:
  "dict_ok (ic_store c) \<Longrightarrow> dget (ic_store (fold cache_put rs c)) k = Some r' \<Longrightarrow>
   (r' \<in> set rs \<and> or_key r' = k) \<or> (k \<notin> or_key ` set rs \<and> dget (ic_store c) k = Some r')"
proof (induction rs arbitrary: c)
  case (Cons r rs)
  have ok: "dict_ok (ic_store (cache_put r c))" using Cons.prems(1) by (simp add: cache_put_def)
  show ?case using Cons.IH [OF ok] Cons.prems cache_put_cases [OF Cons.prems(1), of r k r'] by auto
qed simp

lemma cache_ok_seed:
  assumes t: "table_ok (st_operations st)"
    and rep: "\<And>k r. dget replayed k = Some r \<Longrightarrow> dget (st_operations st) k \<noteq> None"
    and ok: "dict_ok replayed"
  shows "cache_ok (st_operations st) (seed_cache replayed st)"
proof -
  let ?old = "map (\<lambda>(k, r). \<lparr>or_key = k, or_digest = None, or_response = r\<rparr>) replayed"
  let ?c0 = "new_cache DEFAULT_MAX_KEYS"
  have c0: "dict_ok (ic_store ?c0)" "1 \<le> ic_max_keys ?c0" "ic_store ?c0 = []"
    by (simp_all add: new_cache_def DEFAULT_MAX_KEYS_def)
  have shape: "dict_ok (ic_store (fold cache_put (?old @ read_operations st) ?c0))
      \<and> int (length (ic_store (fold cache_put (?old @ read_operations st) ?c0))) \<le> ic_max_keys ?c0
      \<and> ic_max_keys (fold cache_put (?old @ read_operations st) ?c0) = ic_max_keys ?c0"
    by (rule cache_shape_puts) (use c0 in auto)
  have ops: "or_key r = k \<and> r \<in> set (read_operations st) \<longleftrightarrow> (\<exists>so. dget (st_operations st) k = Some so \<and> r = record_of so)"
    for k r
  proof
    assume "or_key r = k \<and> r \<in> set (read_operations st)"
    then obtain j so where "(j, so) \<in> set (st_operations st)" "r = record_of so" "so_key so = k"
      by (auto simp: read_operations_def record_of_def)
    then show "\<exists>so. dget (st_operations st) k = Some so \<and> r = record_of so"
      using t by (auto simp: table_ok_def dict_mem_iff)
  next
    assume "\<exists>so. dget (st_operations st) k = Some so \<and> r = record_of so"
    then show "or_key r = k \<and> r \<in> set (read_operations st)"
      using t by (force simp: read_operations_def record_of_def table_ok_def dest: map_of_SomeD)
  qed
  have "\<exists>so. dget (st_operations st) k = Some so \<and> r = record_of so"
    if "dget (ic_store (fold cache_put (?old @ read_operations st) ?c0)) k = Some r" for k r
  proof -
    let ?c1 = "fold cache_put ?old ?c0"
    have ok1: "dict_ok (ic_store ?c1)" using cache_shape_puts [OF c0(1,2)] c0 by simp
    from puts_last [OF ok1, of "read_operations st" k r] that consider
        "r \<in> set (read_operations st)" "or_key r = k"
      | "k \<notin> or_key ` set (read_operations st)" "dget (ic_store ?c1) k = Some r" by auto
    then show ?thesis
    proof cases
      case 1
      then show ?thesis using ops by blast
    next
      case 2
      then have "r \<in> set ?old" "or_key r = k" using puts_last [OF c0(1), of ?old k r] c0(3) by auto
      then obtain x where "(k, x) \<in> set replayed" by auto
      then have "dget replayed k = Some x" using ok by (simp add: dict_mem_iff)
      from rep [OF this] obtain so where "dget (st_operations st) k = Some so" by auto
      then have "or_key (record_of so) = k \<and> record_of so \<in> set (read_operations st)" using ops by blast
      then show ?thesis using 2 by blast
    qed
  qed
  then show ?thesis using shape c0(2) by (simp add: cache_ok_def seed_cache_def)
qed


section \<open>One completion per key\<close>

definition is_completion :: "string \<Rightarrow> journal_event \<Rightarrow> bool" where
  "is_completion k ev \<longleftrightarrow> ev_kind ev = ''idempotency'' \<and> get_field (ev_payload ev) ''key'' = JString k"

definition completions :: "string \<Rightarrow> journal_event list \<Rightarrow> nat" where
  "completions k rows = length (filter (is_completion k) rows)"

definition log_ok :: "operation_store \<Rightarrow> bool" where
  "log_ok st \<longleftrightarrow> table_ok (st_operations st)
     \<and> (\<forall>k. completions k (st_rows st) = (if dget (st_operations st) k = None then 0 else 1))
     \<and> (\<forall>ev \<in> set (st_rows st). ev_kind ev = ''idempotency'' \<longrightarrow>
          (\<exists>so. dget (st_operations st) (so_key so) = Some so \<and> ev_payload ev = snd (completion_row so)))"

text \<open>Requests and foreign rows never write a completion themselves.\<close>

definition no_completion :: "string \<times> json_object \<Rightarrow> bool" where
  "no_completion row \<longleftrightarrow> fst row \<noteq> ''idempotency''"

definition plain_rows :: "('s, 'r) request \<Rightarrow> bool" where
  "plain_rows rq \<longleftrightarrow> (\<forall>r. list_all no_completion (rq_persist rq r))
     \<and> (\<forall>r d. rq_prepare rq r = Some d \<longrightarrow> list_all no_completion (od_events d))"

lemma st_rows_append:
  "st_rows (append_rows rows st) = st_rows st @
     map (\<lambda>(i, kind, p). \<lparr>ev_seq = st_next st + int i, ev_kind = kind, ev_payload = p\<rparr>) (enumerate 0 rows)"
  by (simp add: append_rows_def)

lemma append_no_rows: "append_rows [] st = st"
  by (simp add: append_rows_def)

lemma append_rows_ops [simp]:
  "st_operations (append_rows rows st) = st_operations st" "st_outbox (append_rows rows st) = st_outbox st"
  by (simp_all add: append_rows_def)

text \<open>The rows an append adds are the given ones, numbered on.\<close>

lemma append_rows_split:
  obtains evs where "st_rows (append_rows rows st) = st_rows st @ evs"
    and "map (\<lambda>ev. (ev_kind ev, ev_payload ev)) evs = rows"
proof
  show "st_rows (append_rows rows st) = st_rows st @
     map (\<lambda>(i, kind, p). \<lparr>ev_seq = st_next st + int i, ev_kind = kind, ev_payload = p\<rparr>) (enumerate 0 rows)"
    by (rule st_rows_append)
  have "map snd (enumerate 0 rows) = rows" by (rule map_snd_enumerate)
  then show "map (\<lambda>ev. (ev_kind ev, ev_payload ev))
      (map (\<lambda>(i, kind, p). \<lparr>ev_seq = st_next st + int i, ev_kind = kind, ev_payload = p\<rparr>) (enumerate 0 rows)) = rows"
    by (simp add: comp_def case_prod_unfold)
qed

lemma completion_fields:
  "is_completion k \<lparr>ev_seq = n, ev_kind = fst (completion_row so), ev_payload = snd (completion_row so)\<rparr> \<longleftrightarrow> so_key so = k"
  by (simp add: is_completion_def completion_row_def get_field_def get_or_def)

lemma log_ok_append:
  assumes ok: "log_ok st" and rows: "list_all no_completion rows"
  shows "log_ok (append_rows rows st)"
proof -
  obtain evs where evs: "st_rows (append_rows rows st) = st_rows st @ evs"
      "map (\<lambda>ev. (ev_kind ev, ev_payload ev)) evs = rows"
    by (rule append_rows_split)
  have none: "ev_kind ev \<noteq> ''idempotency''" if "ev \<in> set evs" for ev
    using rows that by (auto simp: evs(2) [symmetric] list_all_iff no_completion_def)
  then have "filter (is_completion k) evs = []" for k by (auto simp: filter_empty_conv is_completion_def)
  then show ?thesis using ok none by (auto simp: log_ok_def completions_def evs(1))
qed

lemma commit_operation_cases:
  assumes "commit_operation disk key digest d st = (st', res)"
  obtains (refused) e where "st' = st" "res = Inl e"
  | (existing) so where "st' = st" "dget (st_operations st) key = Some so"
      "res = Inr (if so_digest so = digest then Replayed else Conflict, so)"
  | (inserted) so where "dget (st_operations st) key = None" "key \<noteq> []" "so_key so = key" "so_digest so = digest"
      "res = Inr (Inserted, so)"
      "st' = (append_rows (od_events d @ [completion_row so]) st)
         \<lparr>st_operations := dset key so (st_operations st), st_outbox := dset key (od_intent d, None) (st_outbox st)\<rparr>"
proof (cases "\<not> operation_admissible key digest d \<or> \<not> disk")
  case True
  then have "st' = st \<and> (\<exists>e. res = Inl e)" using assms by (auto simp: commit_operation_def split: if_splits)
  then show thesis using refused by blast
next
  case ok: False
  show thesis
  proof (cases "dget (st_operations st) key")
    case (Some so)
    then show thesis using assms ok by (intro existing [of so]) (simp_all add: commit_operation_def)
  next
    case None
    let ?seqs = "map (\<lambda>i. st_next st + int i) [0..<length (od_events d)]"
    let ?so = "\<lparr>so_key = key, so_digest = digest, so_response = final_response d ?seqs,
                so_first_seq = hd ?seqs, so_commit_seq = last ?seqs + 1\<rparr>"
    have run: "(st', res) = (if \<not> json_finite (JObject (so_response ?so)) then (st, Inl InvalidOperation)
        else ((append_rows (od_events d @ [completion_row ?so]) st)
                \<lparr>st_operations := dset key ?so (st_operations st), st_outbox := dset key (od_intent d, None) (st_outbox st)\<rparr>,
              Inr (Inserted, ?so)))"
      using assms ok None by (simp add: commit_operation_def Let_def)
    show thesis
    proof (cases "json_finite (JObject (so_response ?so))")
      case True
      then show thesis using run ok None by (intro inserted [of ?so]) (simp_all add: operation_admissible_def del: json_finite.simps)
    next
      case False
      then show thesis using run by (intro refused [of InvalidOperation]) (simp_all del: json_finite.simps)
    qed
  qed
qed

lemma log_ok_commit:
  assumes ok: "log_ok st" and ev: "list_all no_completion (od_events d)"
    and run: "commit_operation disk key digest d st = (st', res)"
  shows "log_ok st'"
  using run
proof (cases rule: commit_operation_cases)
  case (inserted so)
  let ?st1 = "append_rows (od_events d) st"
  have ok1: "log_ok ?st1" by (rule log_ok_append [OF ok ev])
  obtain e where rows: "st_rows st' = st_rows ?st1 @ [e]"
    and e: "ev_kind e = fst (completion_row so)" "ev_payload e = snd (completion_row so)"
    by (auto simp: inserted(6) st_rows_append enumerate_append_eq case_prod_unfold)
  have ops: "st_operations st' = dset key so (st_operations ?st1)" by (simp add: inserted(6))
  have comp: "is_completion k e \<longleftrightarrow> key = k" for k
    using e inserted(3) by (auto simp: is_completion_def completion_row_def get_field_def get_or_def)
  have kind: "ev_kind e = ''idempotency''" using e by (simp add: completion_row_def)
  have t: "table_ok (st_operations st')" using ok1 inserted(2,3) by (auto simp: log_ok_def table_ok_def ops)
  have "completions k (st_rows st') = (if dget (st_operations st') k = None then 0 else 1)" for k
    using ok1 inserted(1) by (auto simp: log_ok_def completions_def rows ops comp)
  moreover have "\<exists>so'. dget (st_operations st') (so_key so') = Some so' \<and> ev_payload v = snd (completion_row so')"
    if v: "v \<in> set (st_rows st')" "ev_kind v = ''idempotency''" for v
  proof (cases "v = e")
    case True
    then show ?thesis using e inserted(3) by (intro exI [of _ so]) (simp add: ops)
  next
    case False
    then have "v \<in> set (st_rows ?st1)" using v(1) by (simp add: rows)
    then obtain so' where so': "dget (st_operations ?st1) (so_key so') = Some so'" "ev_payload v = snd (completion_row so')"
      using ok1 v(2) unfolding log_ok_def by blast
    then have "so_key so' \<noteq> key" using inserted(1) by auto
    then show ?thesis using so' by (intro exI [of _ so']) (simp add: ops)
  qed
  ultimately show ?thesis using t unfolding log_ok_def by blast
qed (use ok in simp_all)


section \<open>Steps\<close>

definition actor_ok :: "('s, 'r) actor \<Rightarrow> bool" where
  "actor_ok ac \<longleftrightarrow> log_ok (ac_store ac) \<and> cache_ok (st_operations (ac_store ac)) (ac_cache ac)
     \<and> (\<forall>p. ac_pending ac = Some p \<longrightarrow> plain_rows (pd_request p))"

text \<open>What a reply says, read off the table.\<close>

definition reply_ok :: "(string, stored_operation) pydict \<Rightarrow> string \<Rightarrow> string \<Rightarrow> 'r execution \<Rightarrow> bool" where
  "reply_ok ops k d ex \<longleftrightarrow>
     (case ex_outcome ex of
        Uncommitted \<Rightarrow> True
      | Conflict \<Rightarrow> (\<exists>so. dget ops k = Some so \<and> so_digest so \<noteq> d)
      | _ \<Rightarrow> (\<exists>so. dget ops k = Some so \<and> so_digest so = d \<and> ex_response ex = Some (so_response so)))"

fun label_ok :: "(string, stored_operation) pydict \<Rightarrow> 'r label \<Rightarrow> bool" where
  "label_ok ops (Reply k d ex) = reply_ok ops k d ex"
| "label_ok ops _ = True"

fun inserts :: "string \<Rightarrow> 'r label \<Rightarrow> bool" where
  "inserts k (Reply k' d ex) \<longleftrightarrow> k' = k \<and> ex_outcome ex = Inserted"
| "inserts k _ \<longleftrightarrow> False"

text \<open>What one step does to the table and what it says.\<close>

definition sound_step :: "('s, 'r) actor \<Rightarrow> 'r label \<Rightarrow> ('s, 'r) actor \<Rightarrow> bool" where
  "sound_step ac l ac' \<longleftrightarrow> actor_ok ac' \<and> label_ok (st_operations (ac_store ac')) l
     \<and> (\<forall>k so. dget (st_operations (ac_store ac)) k = Some so \<longrightarrow> dget (st_operations (ac_store ac')) k = Some so)
     \<and> (\<forall>k. inserts k l \<longrightarrow> dget (st_operations (ac_store ac)) k = None)"

lemma lookup_ok:
  assumes ok: "actor_ok ac" and run: "lookup_operation key ac = (ac', found)"
  shows "actor_ok ac' \<and> ac_store ac' = ac_store ac \<and> ac_pending ac' = ac_pending ac \<and> ac_subject ac' = ac_subject ac
    \<and> (\<forall>r. found = Some r \<longrightarrow> (\<exists>so. dget (st_operations (ac_store ac)) key = Some so \<and> r = record_of so))"
proof -
  obtain cache hit where get: "get_record key (ac_cache ac) = (cache, hit)" by fastforce
  have C: "cache_ok (st_operations (ac_store ac)) (ac_cache ac)" and t: "table_ok (st_operations (ac_store ac))"
    using ok by (simp_all add: actor_ok_def log_ok_def)
  note G = cache_ok_get [OF C get]
  show ?thesis
  proof (cases hit)
    case (Some r)
    then have "found = Some r \<and> ac' = ac\<lparr>ac_cache := cache\<rparr>" using run get by (auto simp: lookup_operation_def)
    then show ?thesis using G Some ok by (auto simp: actor_ok_def)
  next
    case None
    show ?thesis
    proof (cases "dget (st_operations (ac_store ac)) key")
      case None
      then have "found = None \<and> ac' = ac\<lparr>ac_cache := cache\<rparr>"
        using run get \<open>hit = None\<close> by (auto simp: lookup_operation_def)
      then show ?thesis using G ok by (auto simp: actor_ok_def)
    next
      case (Some so)
      then have "found = Some (record_of so) \<and> ac' = ac\<lparr>ac_cache := cache_put (record_of so) cache\<rparr>"
        using run get \<open>hit = None\<close> by (auto simp: lookup_operation_def)
      then show ?thesis using cache_ok_put [OF _ t Some, of cache] G Some ok by (auto simp: actor_ok_def)
    qed
  qed
qed

lemma answer_existing_ok:
  "dget ops k = Some so \<Longrightarrow> reply_ok ops k d (answer_existing sender d (record_of so))
     \<and> ex_outcome (answer_existing sender d (record_of so)) \<noteq> Inserted"
  by (auto simp: reply_ok_def answer_existing_def record_of_def)

lemma begin_cases:
  assumes "atomic_begin rq ac = (ac', reply)"
  obtains (unkeyed) "rq_key rq = None" "reply = None" "ac' = ac\<lparr>ac_pending := Some
      \<lparr>pd_request = rq, pd_candidate = fst (rq_mutate rq (ac_subject ac)), pd_result = snd (rq_mutate rq (ac_subject ac))\<rparr>\<rparr>"
  | (known) k d r where "rq_key rq = Some (k, d)" "lookup_operation k ac = (ac', Some r)"
      "reply = Some (answer_existing (rq_sender rq) d r)"
  | (new_key) k d ac1 where "rq_key rq = Some (k, d)" "lookup_operation k ac = (ac1, None)" "reply = None"
      "ac' = ac1\<lparr>ac_pending := Some
        \<lparr>pd_request = rq, pd_candidate = fst (rq_mutate rq (ac_subject ac1)), pd_result = snd (rq_mutate rq (ac_subject ac1))\<rparr>\<rparr>"
proof (cases "rq_key rq")
  case None
  then show thesis using assms by (intro unkeyed) (auto simp: atomic_begin_def Let_def split_beta)
next
  case (Some kd)
  obtain k d where kd: "kd = (k, d)" by fastforce
  obtain ac1 found where look: "lookup_operation k ac = (ac1, found)" by fastforce
  show thesis
  proof (cases found)
    case None
    then show thesis using assms Some kd look by (intro new_key [of k d ac1]) (auto simp: atomic_begin_def Let_def split_beta)
  next
    case (Some r)
    then show thesis using assms \<open>rq_key rq = Some kd\<close> kd look
      by (intro known [of k d r]) (auto simp: atomic_begin_def Let_def)
  qed
qed

text \<open>A request leaves the subject as it was or as its mutation makes it.\<close>

lemma lookup_subject: "lookup_operation k ac = (ac', found) \<Longrightarrow> ac_subject ac' = ac_subject ac"
  by (auto simp: lookup_operation_def Let_def split: prod.splits option.splits)

lemma finish_subject:
  assumes "ac_pending ac = Some p" and "atomic_finish disk ac = (ac', res)"
  shows "ac_subject ac' = ac_subject ac \<or> ac_subject ac' = pd_candidate p"
proof -
  obtain st r where "pending_append disk p (ac_store ac) = (st, r)" by fastforce
  then show ?thesis using assms
    by (auto simp: atomic_finish_def Let_def split: sum.splits option.splits outcome.splits prod.splits)
qed

lemma run_request_subject:
  assumes "run_request disk rq ac = (ac', res)"
  shows "ac_subject ac' = ac_subject ac \<or> ac_subject ac' = fst (rq_mutate rq (ac_subject ac))"
proof -
  obtain ac1 reply where begun: "atomic_begin rq ac = (ac1, reply)" by fastforce
  from begun show ?thesis
  proof (cases rule: begin_cases)
    case unkeyed
    then show ?thesis using finish_subject [of ac1 _ disk ac' res] assms begun by (auto simp: run_request_def)
  next
    case (known k d r)
    then show ?thesis using assms begun lookup_subject by (auto simp: run_request_def)
  next
    case (new_key k d ac2)
    then show ?thesis using finish_subject [of ac1 _ disk ac' res] assms begun lookup_subject [OF new_key(2)]
      by (auto simp: run_request_def)
  qed
qed

lemma pending_append_cases:
  assumes "pending_append disk p st = (st', res)" and "plain_rows (pd_request p)" and "log_ok st"
  obtains (refused) e rows where "st' = append_rows rows st" "log_ok st'" "res = Inl e"
  | (plain) "res = Inr (Uncommitted, None)" "log_ok st'" "st' = append_rows (rq_persist (pd_request p) (pd_result p)) st"
      "rq_key (pd_request p) = None \<or> rq_prepare (pd_request p) (pd_result p) = None"
  | (existing) k d so where "rq_key (pd_request p) = Some (k, d)" "st' = st" "dget (st_operations st) k = Some so"
      "res = Inr (if so_digest so = d then Replayed else Conflict, Some so)"
  | (inserted) k d dr so where "rq_key (pd_request p) = Some (k, d)" "rq_prepare (pd_request p) (pd_result p) = Some dr"
      "dget (st_operations st) k = None" "so_key so = k" "so_digest so = d" "k \<noteq> []"
      "res = Inr (Inserted, Some so)" "log_ok st'"
      "st' = (append_rows (od_events dr @ [completion_row so]) st)
         \<lparr>st_operations := dset k so (st_operations st), st_outbox := dset k (od_intent dr, None) (st_outbox st)\<rparr>"
proof -
  let ?rq = "pd_request p"
  let ?rows = "rq_persist ?rq (pd_result p)"
  have plain_case: thesis if run: "(st', res) = plain_append disk ?rows st" "rq_key ?rq = None \<or> rq_prepare ?rq (pd_result p) = None"
  proof -
    have "list_all no_completion ?rows" using assms(2) by (simp add: plain_rows_def)
    then have "list_all no_completion (take disk ?rows)" by (auto simp: list_all_iff dest: in_set_takeD)
    note ok = log_ok_append [OF assms(3) this]
    show thesis
    proof (cases "length ?rows \<le> disk")
      case True
      then show thesis using that ok by (intro plain) (auto simp: plain_append_def)
    next
      case False
      then show thesis using that ok by (intro refused) (auto simp: plain_append_def)
    qed
  qed
  show thesis
  proof (cases "rq_key ?rq")
    case None
    then show thesis using assms(1) by (intro plain_case) (auto simp: pending_append_def Let_def)
  next
    case (Some kd)
    then obtain k d where kd: "rq_key ?rq = Some (k, d)" by (cases kd) auto
    show thesis
    proof (cases "rq_prepare ?rq (pd_result p)")
      case None
      then show thesis using assms(1) kd by (intro plain_case) (auto simp: pending_append_def Let_def)
    next
      case (Some dr)
      obtain s1 r1 where run: "commit_operation (0 < disk) k d dr st = (s1, r1)" by fastforce
      have res: "st' = s1" "res = (case r1 of Inl e \<Rightarrow> Inl e | Inr (oc, so) \<Rightarrow> Inr (oc, Some so))"
        using assms(1) kd Some run by (auto simp: pending_append_def Let_def split: sum.splits prod.splits)
      have ev: "list_all no_completion (od_events dr)" using assms(2) Some by (auto simp: plain_rows_def)
      note ok = log_ok_commit [OF assms(3) ev run]
      from run show thesis
      proof (cases rule: commit_operation_cases)
        case (refused e)
        then show thesis using res that(1) [of "[]"] assms(3) by (auto simp: append_no_rows)
      next
        case (existing so)
        then show thesis using res by (intro that(3) [OF kd]) auto
      next
        case (inserted so)
        then show thesis using res ok by (intro that(4) [OF kd Some]) auto
      qed
    qed
  qed
qed


lemma sound_keep:
  "actor_ok ac' \<Longrightarrow> st_operations (ac_store ac') = st_operations (ac_store ac)
   \<Longrightarrow> label_ok (st_operations (ac_store ac)) l \<Longrightarrow> (\<And>k. \<not> inserts k l) \<Longrightarrow> sound_step ac l ac'"
  by (simp add: sound_step_def)

lemma finish_sound:
  assumes ok: "actor_ok ac" and p: "ac_pending ac = Some p" and run: "atomic_finish disk ac = (ac', res)"
  shows "sound_step ac (case res of Inl e \<Rightarrow> AppendFailed (rows_left ac ac') | Inr ex \<Rightarrow> reply_label (pd_request p) ex) ac'"
proof -
  let ?free = "ac\<lparr>ac_pending := None\<rparr>" and ?st = "ac_store ac" and ?ops = "st_operations (ac_store ac)"
  have log: "log_ok ?st" and rows: "plain_rows (pd_request p)" and C: "cache_ok ?ops (ac_cache ac)"
    and t: "table_ok ?ops"
    using ok p by (simp_all add: actor_ok_def log_ok_def)
  have free: "actor_ok ?free" using ok by (simp add: actor_ok_def)
  obtain st' r where pa: "pending_append disk p ?st = (st', r)" by fastforce
  note run' = run [unfolded atomic_finish_def p option.case Let_def pa prod.case]
  from pa rows log show ?thesis
  proof (cases rule: pending_append_cases)
    case (refused e rows)
    then have ac': "ac' = ?free\<lparr>ac_store := st'\<rparr>" and res: "res = Inl e" using run' by simp_all
    show ?thesis using C refused(1,2) by (intro sound_keep) (auto simp: ac' res actor_ok_def)
  next
    case plain
    then have ac': "ac' = ?free\<lparr>ac_store := st', ac_subject := pd_candidate p\<rparr>"
      and res: "res = Inr \<lparr>ex_outcome = Uncommitted, ex_mutation = Some (pd_result p), ex_response = None\<rparr>"
      using run' by simp_all
    have "st_operations st' = ?ops" by (simp add: plain(3))
    then show ?thesis using C plain(2)
      by (intro sound_keep) (auto simp: ac' res actor_ok_def reply_label_def reply_ok_def split: option.splits)
  next
    case (existing k d so)
    let ?rem = "?free\<lparr>ac_cache := cache_put (record_of so) (ac_cache ac)\<rparr>"
    have rem: "actor_ok ?rem" using cache_ok_put [OF C t existing(3)] log by (simp add: actor_ok_def)
    have "ac' = ?rem" using run' existing(2,4) by (cases "so_digest so = d") simp_all
    moreover have "\<exists>ex. res = Inr ex \<and> reply_ok ?ops k d ex \<and> ex_outcome ex \<noteq> Inserted"
      using run' existing(2-4) by (cases "so_digest so = d") (auto simp: reply_ok_def)
    ultimately show ?thesis using rem existing(1) by (intro sound_keep) (auto simp: reply_label_def)
  next
    case (inserted k d dr so)
    have ops: "st_operations st' = dset k so ?ops" by (simp add: inserted(9))
    have C': "cache_ok (dset k so ?ops) (ac_cache ac)"
    proof -
      have "\<exists>so'. dget (dset k so ?ops) j = Some so' \<and> r = record_of so'"
        if hit: "dget (ic_store (ac_cache ac)) j = Some r" for j r
      proof -
        obtain so' where "dget ?ops j = Some so'" "r = record_of so'" using C hit unfolding cache_ok_def by blast
        moreover from this have "j \<noteq> k" using inserted(3) by auto
        ultimately show ?thesis by simp
      qed
      then show ?thesis using C by (simp add: cache_ok_def)
    qed
    have t': "table_ok (dset k so ?ops)" using t inserted(4,6) by (auto simp: table_ok_def)
    have put: "cache_ok (dset k so ?ops) (cache_put (record_of so) (ac_cache ac))"
      by (rule cache_ok_put [OF C' t', of k]) simp
    have ac': "ac' = ?free\<lparr>ac_store := st', ac_cache := cache_put (record_of so) (ac_cache ac),
        ac_subject := pd_candidate p\<rparr>"
      and res: "res = Inr \<lparr>ex_outcome = Inserted, ex_mutation = Some (pd_result p), ex_response = Some (so_response so)\<rparr>"
      using run' inserted(7) by simp_all
    show ?thesis unfolding sound_step_def
      using put inserted(1,3,5,8) by (auto simp: ac' res ops actor_ok_def reply_label_def reply_ok_def)
  qed
qed

lemma begin_sound:
  assumes ok: "actor_ok ac" and rows: "plain_rows rq" and run: "atomic_begin rq ac = (ac', reply)"
  shows "sound_step ac (case reply of None \<Rightarrow> Silent | Some ex \<Rightarrow> reply_label rq ex) ac'"
  using run
proof (cases rule: begin_cases)
  case unkeyed
  then show ?thesis using ok rows by (intro sound_keep) (auto simp: actor_ok_def)
next
  case (known k d r)
  note L = lookup_ok [OF ok known(2)]
  then obtain so where so: "dget (st_operations (ac_store ac)) k = Some so" "r = record_of so" by blast
  show ?thesis using L known answer_existing_ok [OF so(1)] so(2)
    by (intro sound_keep) (auto simp: reply_label_def)
next
  case (new_key k d ac1)
  note L = lookup_ok [OF ok new_key(2)]
  then show ?thesis using new_key rows by (intro sound_keep) (auto simp: actor_ok_def)
qed

lemma replayed_responses_known:
  assumes "log_ok st"
  shows "dict_ok (replayed_responses (st_rows st))
    \<and> (\<forall>k r. dget (replayed_responses (st_rows st)) k = Some r \<longrightarrow> dget (st_operations st) k \<noteq> None)"
proof -
  have step: "dict_ok (fold replayed_response rows d)
      \<and> (\<forall>k r. dget (fold replayed_response rows d) k = Some r \<longrightarrow> dget (st_operations st) k \<noteq> None)"
    if "dict_ok d" "\<forall>k r. dget d k = Some r \<longrightarrow> dget (st_operations st) k \<noteq> None"
      "\<forall>ev \<in> set rows. ev_kind ev = ''idempotency'' \<longrightarrow>
         (\<exists>so. dget (st_operations st) (so_key so) = Some so \<and> ev_payload ev = snd (completion_row so))" for rows d
    using that
  proof (induction rows arbitrary: d)
    case (Cons ev rows)
    have "dict_ok (replayed_response ev d)
        \<and> (\<forall>k r. dget (replayed_response ev d) k = Some r \<longrightarrow> dget (st_operations st) k \<noteq> None)"
    proof (cases "ev_kind ev = ''idempotency''")
      case True
      then obtain so where so: "dget (st_operations st) (so_key so) = Some so" "ev_payload ev = snd (completion_row so)"
        using Cons.prems(3) by auto
      have f: "text_or (ev_payload ev) ''key'' [] = Inr (so_key so)"
        "get_or (ev_payload ev) ''response'' (JObject []) = JObject (so_response so)"
        by (simp_all add: so(2) completion_row_def text_or_def get_or_def)
      show ?thesis using Cons.prems(1,2) so(1) by (auto simp: replayed_response_def True f)
    next
      case False
      then show ?thesis using Cons.prems(1,2) by (simp add: replayed_response_def)
    qed
    then show ?case using Cons.IH [of "replayed_response ev d"] Cons.prems(3) by simp
  qed simp
  show ?thesis unfolding replayed_responses_def by (rule step) (use assms in \<open>auto simp: log_ok_def\<close>)
qed

lemma step_sound:
  assumes step: "actor_step admit sweeps foreign restores ac l ac'" and ok: "actor_ok ac"
    and admit: "\<And>rq. admit rq \<Longrightarrow> plain_rows rq" and foreign: "\<And>row. foreign row \<Longrightarrow> no_completion row"
  shows "sound_step ac l ac'"
  using step
proof cases
  case (answered rq ex)
  then show ?thesis using begin_sound [OF ok admit answered(4)] by simp
next
  case (started rq)
  then show ?thesis using begin_sound [OF ok admit started(4)] by simp
next
  case (finished p disk ex)
  then show ?thesis using finish_sound [OF ok finished(2,3)] by simp
next
  case (failed p disk e)
  then show ?thesis using finish_sound [OF ok failed(2,3)] by simp
next
  case (duplicate k r d sender)
  note L = lookup_ok [OF ok duplicate(2)]
  then obtain so where so: "dget (st_operations (ac_store ac)) k = Some so" "r = record_of so" by blast
  show ?thesis using L duplicate(1) answer_existing_ok [OF so(1)] so(2) by (intro sound_keep) auto
next
  case (sweep s')
  then show ?thesis using ok by (intro sound_keep) (auto simp: actor_ok_def)
next
  case (foreign rows)
  then have "list_all no_completion rows" using assms(4) by (auto simp: list_all_iff)
  then show ?thesis using ok log_ok_append by (intro sound_keep) (auto simp: foreign(1,2) actor_ok_def)
next
  case (settled k receipt)
  have "log_ok (fst (settle_intent k receipt (ac_store ac)))
      \<and> st_operations (fst (settle_intent k receipt (ac_store ac))) = st_operations (ac_store ac)"
    using ok by (auto simp: settle_intent_def actor_ok_def log_ok_def split: option.splits)
  then show ?thesis using ok by (intro sound_keep) (auto simp: settled(1,2) actor_ok_def)
next
  case (crashed st appended s')
  have "log_ok st \<and> (\<forall>k so. dget (st_operations (ac_store ac)) k = Some so \<longrightarrow> dget (st_operations st) k = Some so)"
  proof (cases "ac_pending ac")
    case None
    then show ?thesis using ok crashed(3) by (simp add: crash_store_def actor_ok_def)
  next
    case (Some p)
    obtain st1 r where pa: "pending_append appended p (ac_store ac) = (st1, r)" by fastforce
    have st: "st = st1" using crashed(3) pa Some by (simp add: crash_store_def)
    have "plain_rows (pd_request p)" "log_ok (ac_store ac)" using ok Some by (simp_all add: actor_ok_def)
    from pa this show ?thesis unfolding st using ok
      by (cases rule: pending_append_cases) (auto simp: actor_ok_def)
  qed
  then have log: "log_ok st"
    and keep: "\<forall>k so. dget (st_operations (ac_store ac)) k = Some so \<longrightarrow> dget (st_operations st) k = Some so" by blast+
  have t: "table_ok (st_operations st)" using log by (simp add: log_ok_def)
  note R = replayed_responses_known [OF log]
  have "cache_ok (st_operations st) (seed_cache (replayed_responses (st_rows st)) st)"
    by (rule cache_ok_seed [OF t]) (use R in blast)+
  then show ?thesis using log keep
    by (simp add: crashed(1,2) sound_step_def actor_ok_def restart_actor_def)
qed


lemma actor_ok_fresh: "actor_ok (fresh_actor s)"
  by (simp add: actor_ok_def fresh_actor_def log_ok_def table_ok_def cache_ok_def completions_def new_cache_def
      DEFAULT_MAX_KEYS_def)

text \<open>
  C23: A keyed request takes effect at most once.  In every run of the actor, with retries,
  duplicates answered while another request holds the lock, evictions from the bounded cache,
  appends that fail before or between their rows and crashes before, after or between them: the event log has exactly one
  completion for a key in the operation table and none for any other, at most one reply says
  that the request of a key was applied now, and every reply of success to a key, original or
  replayed, carries the response in the table and the digest it was stored with; a conflict is
  reported only for another digest.
\<close>

theorem keyed_requests_apply_once:
  assumes "actor_run admit sweeps foreign restores s0 ls ac"
    and "\<And>rq. admit rq \<Longrightarrow> plain_rows rq" and "\<And>row. foreign row \<Longrightarrow> no_completion row"
  shows "(\<forall>k. completions k (st_rows (ac_store ac)) = (if dget (st_operations (ac_store ac)) k = None then 0 else 1))
    \<and> (\<forall>k. length (filter (inserts k) ls) \<le> 1)
    \<and> (\<forall>k d ex. Reply k d ex \<in> set ls \<longrightarrow> reply_ok (st_operations (ac_store ac)) k d ex)"
proof -
  have "actor_ok ac \<and> (\<forall>l \<in> set ls. label_ok (st_operations (ac_store ac)) l)
    \<and> (\<forall>k. length (filter (inserts k) ls) \<le> (if dget (st_operations (ac_store ac)) k = None then 0 else 1))"
    using assms(1)
  proof (induction rule: actor_run.induct)
    case fresh
    then show ?case using actor_ok_fresh by simp
  next
    case (extend ls ac l ac')
    have S: "sound_step ac l ac'" using step_sound [OF extend(2)] extend(3) assms(2,3) by blast
    have mono: "label_ok (st_operations (ac_store ac')) x" if "label_ok (st_operations (ac_store ac)) x" for x
      using that S by (cases x) (auto simp: sound_step_def reply_ok_def split: outcome.splits)
    have "length (filter (inserts k) (ls @ [l])) \<le> (if dget (st_operations (ac_store ac')) k = None then 0 else 1)" for k
    proof -
      have I: "length (filter (inserts k) ls) \<le> (if dget (st_operations (ac_store ac)) k = None then 0 else 1)"
        using extend(3) by blast
      have known: "dget (st_operations (ac_store ac')) k \<noteq> None" if "dget (st_operations (ac_store ac)) k \<noteq> None"
        using S that by (auto simp: sound_step_def)
      have ins: "dget (st_operations (ac_store ac)) k = None \<and> dget (st_operations (ac_store ac')) k \<noteq> None" if "inserts k l"
        using S that by (cases l) (auto simp: sound_step_def reply_ok_def)
      show ?thesis using I known ins by (cases "inserts k l") (auto split: if_splits)
    qed
    then show ?case using S mono extend(3) by (auto simp: sound_step_def)
  qed
  moreover have "label_ok ops (Reply k d ex) = reply_ok ops k d ex" for ops k d and ex :: "'b execution" by simp
  ultimately show ?thesis by (fastforce simp: actor_ok_def log_ok_def split: if_splits)
qed


text \<open>A counter whose one keyed request is applied and then retried.\<close>

definition zero_digest :: string where
  "zero_digest = replicate 64 (CHR ''0'')"

definition counting_request :: "(nat, unit) request" where
  "counting_request =
     \<lparr>rq_sender = ''a'', rq_key = Some (''k'', zero_digest), rq_mutate = \<lambda>n. (n + 1, ()),
      rq_prepare = \<lambda>r. Some \<lparr>od_response = [(''type'', JString ''ok'')], od_events = [(''count'', [])], od_intent = [],
        od_seq_field = None, od_finalize = None\<rparr>,
      rq_persist = \<lambda>r. []\<rparr>"

lemma counting_admissible:
  "operation_admissible ''k'' zero_digest
     \<lparr>od_response = [(''type'', JString ''ok'')], od_events = [(''count'', [])], od_intent = [],
      od_seq_field = None, od_finalize = None\<rparr>"
  by code_simp

theorem keyed_requests_apply_once_witness:
  "\<exists>ls ac. actor_run (\<lambda>rq. rq = counting_request) (\<lambda>s s'. False) (\<lambda>row. False) (\<lambda>rows s. False) 0 ls ac
     \<and> ac_subject ac = 1 \<and> length ls = 3 \<and> completions ''k'' (st_rows (ac_store ac)) = 1
     \<and> (\<forall>k. length (filter (inserts k) ls) \<le> 1)"
proof -
  let ?run = "actor_run (\<lambda>rq. rq = counting_request) (\<lambda>s s'. False) (\<lambda>row. False) (\<lambda>rows s. False) (0 :: nat)"
  let ?a0 = "fresh_actor 0 :: (nat, unit) actor"
  obtain a1 where a1: "atomic_begin counting_request ?a0 = (a1, None)" "ac_pending a1 \<noteq> None"
      "ac_subject a1 = 0" "ac_store a1 = ac_store ?a0" "ac_cache a1 = ac_cache ?a0"
      "the (ac_pending a1) = \<lparr>pd_request = counting_request, pd_candidate = 1, pd_result = ()\<rparr>"
    by (simp add: atomic_begin_def counting_request_def lookup_operation_def get_record_def fresh_actor_def new_cache_def Let_def)
  then obtain p where p: "ac_pending a1 = Some p" "p = \<lparr>pd_request = counting_request, pd_candidate = 1, pd_result = ()\<rparr>"
    by auto
  obtain so st where com: "commit_operation True ''k'' zero_digest
      \<lparr>od_response = [(''type'', JString ''ok'')], od_events = [(''count'', [])], od_intent = [],
       od_seq_field = None, od_finalize = None\<rparr> (ac_store a1) = (st, Inr (Inserted, so))"
    and so: "dget (st_operations st) ''k'' = Some so" "so_key so = ''k''" "so_digest so = zero_digest"
    using counting_admissible
    by (simp add: commit_operation_def a1(4) fresh_actor_def final_response_def Let_def)
  let ?ac = "a1\<lparr>ac_pending := None, ac_store := st, ac_cache := cache_put (record_of so) (ac_cache a1), ac_subject := 1\<rparr>"
  let ?ex = "\<lparr>ex_outcome = Inserted, ex_mutation = Some (), ex_response = Some (so_response so)\<rparr>"
  have fin: "atomic_finish 1 a1 = (?ac, Inr ?ex)"
    using com by (simp add: atomic_finish_def p pending_append_def counting_request_def)
  have hit: "dget (ic_store (ac_cache ?ac)) ''k'' = Some (record_of so)"
    by (simp add: cache_put_def record_of_def so(2) a1(5) fresh_actor_def new_cache_def evict_oldest_def move_to_end_def
        DEFAULT_MAX_KEYS_def)
  obtain a3 where a3: "atomic_begin counting_request ?ac = (a3, Some (answer_existing ''a'' zero_digest (record_of so)))"
      "ac_subject a3 = 1" "ac_store a3 = st"
    using hit by (simp add: atomic_begin_def counting_request_def lookup_operation_def get_record_def Let_def)
  have "?run ([] @ [Silent]) a1"
    by (rule actor_run.extend [OF actor_run.fresh], rule actor_step.started [OF _ _ a1(1)]) (simp_all add: fresh_actor_def)
  then have "?run (([] @ [Silent]) @ [reply_label (pd_request p) ?ex]) ?ac"
    by (rule actor_run.extend) (rule actor_step.finished [OF p(1) fin])
  then have run: "?run ((([] @ [Silent]) @ [reply_label (pd_request p) ?ex])
      @ [reply_label counting_request (answer_existing ''a'' zero_digest (record_of so))]) a3"
    by (rule actor_run.extend) (rule actor_step.answered [OF _ _ a3(1)], simp_all)
  have plain: "plain_rows counting_request" by (simp add: plain_rows_def counting_request_def no_completion_def)
  have once: "completions ''k'' (st_rows (ac_store a3)) = (if dget (st_operations (ac_store a3)) ''k'' = None then 0 else 1)
    \<and> (\<forall>k. length (filter (inserts k) (((([] @ [Silent]) @ [reply_label (pd_request p) ?ex])
      @ [reply_label counting_request (answer_existing ''a'' zero_digest (record_of so))]))) \<le> 1)"
    using keyed_requests_apply_once [OF run] plain by blast
  then have "completions ''k'' (st_rows (ac_store a3)) = 1" using a3(3) so(1) by simp
  then show ?thesis using run a3(2) once by (intro exI conjI) (assumption | simp)+
qed

section \<open>The log explains the subject\<close>

definition rows_match :: "journal_event list \<Rightarrow> (string \<times> json_object) list \<Rightarrow> bool" where
  "rows_match evs rows \<longleftrightarrow> map (\<lambda>ev. (ev_kind ev, ev_payload ev)) evs = rows"

text \<open>
  A request whose rows describe its mutation, on the path that persists them.  \<open>lost\<close> are the rows that
  reached the log without their mutation; when only some of the plain rows of a request do, the log
  explains whatever it explained before, up to these rows.
\<close>

type_synonym 's explanation = "(string \<times> json_object) list \<Rightarrow> journal_event list \<Rightarrow> 's \<Rightarrow> bool"

definition cut_explained :: "'s explanation \<Rightarrow> (string \<times> json_object) list \<Rightarrow> bool" where
  "cut_explained explains all_rows \<longleftrightarrow>
     (\<forall>n lost rows s evs. n < length all_rows \<longrightarrow> explains lost rows s \<longrightarrow> rows_match evs (take n all_rows)
        \<longrightarrow> explains (lost @ take n all_rows) (rows @ evs) s)"

definition lawful_request :: "'s explanation \<Rightarrow> ('s, 'r) request \<Rightarrow> bool" where
  "lawful_request explains rq \<longleftrightarrow>
     (\<forall>lost rows s evs. explains lost rows s \<longrightarrow>
        (let (s', r) = rq_mutate rq s in
         (case (rq_key rq, rq_prepare rq r) of
            (Some kd, Some d) \<Rightarrow> rows_match evs (od_events d) \<longrightarrow> explains lost (rows @ evs) s'
          | _ \<Rightarrow> (rows_match evs (rq_persist rq r) \<longrightarrow> explains lost (rows @ evs) s')
                 \<and> cut_explained explains (rq_persist rq r))))"

text \<open>The rows that failed appends have left in the log since the last restart.\<close>

fun lost_step :: "(string \<times> json_object) list \<Rightarrow> 'r label \<Rightarrow> (string \<times> json_object) list" where
  "lost_step lost (AppendFailed rows) = lost @ rows"
| "lost_step lost Restarted = []"
| "lost_step lost l = lost"

definition lost_rows :: "'r label list \<Rightarrow> (string \<times> json_object) list" where
  "lost_rows ls = foldl lost_step [] ls"

lemma lost_step_reply [simp]: "lost_step lost (reply_label rq ex) = lost"
  by (simp add: reply_label_def split: option.split prod.split)

locale journaled_subject =
  fixes explains :: "(string \<times> json_object) list \<Rightarrow> journal_event list \<Rightarrow> 's \<Rightarrow> bool"
    and sweeps :: "'s \<Rightarrow> 's \<Rightarrow> bool"
    and restores :: "journal_event list \<Rightarrow> 's \<Rightarrow> bool"
    and inert :: "string \<times> json_object \<Rightarrow> bool"
  assumes sweep_explained: "explains lost rows s \<Longrightarrow> sweeps s s' \<Longrightarrow> explains lost rows s'"
    and restart_explained: "explains lost rows s \<Longrightarrow> restores rows s' \<Longrightarrow> explains [] rows s'"
    and inert_explained: "explains lost rows s \<Longrightarrow> inert (ev_kind ev, ev_payload ev) \<Longrightarrow> explains lost (rows @ [ev]) s"
    and completion_inert: "inert (completion_row so)"
begin

lemma inert_rows_explained:
  "explains lost rows s \<Longrightarrow> rows_match evs extra \<Longrightarrow> list_all inert extra \<Longrightarrow> explains lost (rows @ evs) s"
proof (induction evs arbitrary: rows extra)
  case (Cons ev evs)
  then have "explains lost (rows @ [ev]) s" by (intro inert_explained) (auto simp: rows_match_def)
  with Cons.IH [of "rows @ [ev]" "tl extra"] Cons.prems(2,3) show ?case by (auto simp: rows_match_def)
qed simp

definition journaled :: "(string \<times> json_object) list \<Rightarrow> ('s, 'r) actor \<Rightarrow> bool" where
  "journaled lost ac \<longleftrightarrow> explains lost (st_rows (ac_store ac)) (ac_subject ac)
     \<and> (\<forall>p. ac_pending ac = Some p \<longrightarrow> lawful_request explains (pd_request p)
          \<and> (\<exists>base. explains lost (st_rows (ac_store ac)) base
               \<and> rq_mutate (pd_request p) base = (pd_candidate p, pd_result p)))"

text \<open>What a failed append leaves, and what it means for whatever the log explained.\<close>

definition leaves :: "operation_store \<Rightarrow> (string \<times> json_object) list \<Rightarrow> operation_store \<Rightarrow> bool" where
  "leaves st left st' \<longleftrightarrow> left = map (\<lambda>ev. (ev_kind ev, ev_payload ev)) (drop (length (st_rows st)) (st_rows st'))
     \<and> (\<forall>lost s. explains lost (st_rows st) s \<longrightarrow> explains (lost @ left) (st_rows st') s)"

lemma leaves_nothing: "leaves st [] st"
  by (simp add: leaves_def)

lemma plain_append_explained:
  assumes mut: "\<And>evs. rows_match evs all_rows \<Longrightarrow> explains lost (st_rows st @ evs) s'"
    and cut: "cut_explained explains all_rows" and pa: "plain_append disk all_rows st = (st', res)"
  shows "(\<exists>e left. res = Inl e \<and> leaves st left st')
    \<or> res = Inr (Uncommitted, None) \<and> explains lost (st_rows st') s'"
proof -
  obtain evs where evs: "st_rows (append_rows (take disk all_rows) st) = st_rows st @ evs"
      "map (\<lambda>ev. (ev_kind ev, ev_payload ev)) evs = take disk all_rows"
    by (rule append_rows_split)
  have st': "st' = append_rows (take disk all_rows) st" using pa by (simp add: plain_append_def)
  show ?thesis
  proof (cases "length all_rows \<le> disk")
    case True
    then show ?thesis using mut [of evs] pa evs by (auto simp: plain_append_def rows_match_def)
  next
    case False
    then have few: "disk < length all_rows" by simp
    have "explains (l @ take disk all_rows) (st_rows st @ evs) s" if "explains l (st_rows st) s" for l s
      using cut [unfolded cut_explained_def, rule_format, OF few that, of evs] evs(2) by (simp add: rows_match_def)
    then have "leaves st (take disk all_rows) st'" by (simp add: leaves_def st' evs)
    then show ?thesis using pa False by (auto simp: plain_append_def)
  qed
qed

lemma append_explained:
  assumes law: "lawful_request explains (pd_request p)" and base: "explains lost (st_rows st) base"
    and run: "rq_mutate (pd_request p) base = (pd_candidate p, pd_result p)"
    and pa: "pending_append disk p st = (st', res)"
  shows "(\<exists>e left. res = Inl e \<and> leaves st left st')
    \<or> (\<exists>so. res = Inr (Replayed, Some so) \<or> res = Inr (Conflict, Some so)) \<and> st' = st
    \<or> (res = Inr (Uncommitted, None) \<or> (\<exists>so. res = Inr (Inserted, Some so))) \<and> explains lost (st_rows st') (pd_candidate p)"
proof -
  let ?rq = "pd_request p" and ?r = "pd_result p"
  note L = law [unfolded lawful_request_def, rule_format, OF base, unfolded run prod.case Let_def]
  show ?thesis
  proof (cases "rq_key ?rq = None \<or> rq_prepare ?rq ?r = None")
    case True
    have "plain_append disk (rq_persist ?rq ?r) st = (st', res)"
      using pa True by (cases "rq_key ?rq") (auto simp: pending_append_def Let_def)
    moreover have "explains lost (st_rows st @ evs) (pd_candidate p)" if "rows_match evs (rq_persist ?rq ?r)" for evs
      using L [of evs] True that by (auto split: option.splits)
    moreover have "cut_explained explains (rq_persist ?rq ?r)" using L [of "[]"] True by (auto split: option.splits)
    ultimately show ?thesis using plain_append_explained [of "rq_persist ?rq ?r" lost st "pd_candidate p" disk st' res] by blast
  next
    case False
    then obtain k dg d where kd: "rq_key ?rq = Some (k, dg)" "rq_prepare ?rq ?r = Some d" by auto
    obtain s1 r1 where com: "commit_operation (0 < disk) k dg d st = (s1, r1)" by fastforce
    have res: "st' = s1" "res = (case r1 of Inl e \<Rightarrow> Inl e | Inr (oc, so) \<Rightarrow> Inr (oc, Some so))"
      using pa kd com by (auto simp: pending_append_def Let_def split: sum.splits prod.splits)
    from com show ?thesis
    proof (cases rule: commit_operation_cases)
      case (refused e)
      then show ?thesis using res leaves_nothing by auto
    next
      case (existing so)
      then show ?thesis using res by auto
    next
      case (inserted so)
      obtain evs where evs: "st_rows (append_rows (od_events d @ [completion_row so]) st) = st_rows st @ evs"
          "map (\<lambda>ev. (ev_kind ev, ev_payload ev)) evs = od_events d @ [completion_row so]"
        by (rule append_rows_split)
      then obtain evs1 ev where split: "evs = evs1 @ [ev]" "rows_match evs1 (od_events d)"
          "(ev_kind ev, ev_payload ev) = completion_row so"
        by (auto simp: rows_match_def map_eq_append_conv)
      have "explains lost (st_rows st @ evs1) (pd_candidate p)" using L [of evs1] kd split(2) by simp
      then have "explains lost ((st_rows st @ evs1) @ [ev]) (pd_candidate p)"
        by (rule inert_explained) (simp add: split(3) completion_inert)
      then have "explains lost (st_rows st') (pd_candidate p)" using evs(1) split(1) by (simp add: res(1) inserted(6))
      then show ?thesis using res inserted(5) by simp
    qed
  qed
qed


lemma journaled_finish:
  assumes J: "journaled lost ac" and p: "ac_pending ac = Some p" and run: "atomic_finish disk ac = (ac', res)"
  shows "journaled (case res of Inl e \<Rightarrow> lost @ rows_left ac ac' | Inr ex \<Rightarrow> lost) ac' \<and> ac_pending ac' = None"
proof -
  obtain st' r where pa: "pending_append disk p (ac_store ac) = (st', r)" by fastforce
  from J p obtain base where law: "lawful_request explains (pd_request p)"
    and base: "explains lost (st_rows (ac_store ac)) base" "rq_mutate (pd_request p) base = (pd_candidate p, pd_result p)"
    unfolding journaled_def by blast
  have sub: "explains lost (st_rows (ac_store ac)) (ac_subject ac)" using J by (simp add: journaled_def)
  note run' = run [unfolded atomic_finish_def p option.case Let_def pa prod.case]
  from append_explained [OF law base pa] consider e left where "r = Inl e" "leaves (ac_store ac) left st'"
    | so where "r = Inr (Replayed, Some so)" "st' = ac_store ac"
    | so where "r = Inr (Conflict, Some so)" "st' = ac_store ac"
    | "r = Inr (Uncommitted, None)" "explains lost (st_rows st') (pd_candidate p)"
    | so where "r = Inr (Inserted, Some so)" "explains lost (st_rows st') (pd_candidate p)" by blast
  then show ?thesis
  proof cases
    case (1 e left)
    then have ac': "ac' = ac\<lparr>ac_pending := None, ac_store := st'\<rparr>" "res = Inl e" using run' by simp_all
    have left: "left = rows_left ac ac'" using 1(2) by (simp add: leaves_def rows_left_def ac'(1))
    have "explains (lost @ left) (st_rows st') (ac_subject ac)" using 1(2) sub unfolding leaves_def by blast
    then show ?thesis by (simp add: ac'(2) left [symmetric] journaled_def) (simp add: ac'(1))
  qed (use run' sub in \<open>auto simp: journaled_def\<close>)
qed

lemma journaled_step:
  assumes step: "actor_step admit sweeps foreign restores ac l ac'" and J: "journaled lost ac"
    and admit: "\<And>rq. admit rq \<Longrightarrow> lawful_request explains rq" and foreign: "\<And>row. foreign row \<Longrightarrow> inert row"
  shows "journaled (lost_step lost l) ac'"
proof -
  have look: "ac_store a' = ac_store a \<and> ac_pending a' = ac_pending a \<and> ac_subject a' = ac_subject a"
    if "lookup_operation k a = (a', found)" for k and a a' :: "('s, 'b) actor" and found
    using that by (auto simp: lookup_operation_def Let_def split: prod.splits option.splits)
  have started_ok: "journaled lost a'" if run: "atomic_begin rq ac = (a', reply)" and rq: "admit rq" for rq a' reply
    using run
  proof (cases rule: begin_cases)
    case unkeyed
    then show ?thesis using J admit [OF rq] by (auto simp: journaled_def)
  next
    case (known k d r)
    then show ?thesis using J look [OF known(2)] by (simp add: journaled_def)
  next
    case (new_key k d ac1)
    then show ?thesis using J look [OF new_key(2)] admit [OF rq] by (auto simp: journaled_def)
  qed
  show ?thesis
    using step
  proof cases
    case (answered rq ex)
    then show ?thesis using started_ok by simp
  next
    case (started rq)
    then show ?thesis using started_ok by simp
  next
    case (finished p disk ex)
    then show ?thesis using journaled_finish [OF J finished(2,3)] by simp
  next
    case (failed p disk e)
    then show ?thesis using journaled_finish [OF J failed(2,3)] by simp
  next
    case (duplicate k r d sender)
    then show ?thesis using J look [OF duplicate(2)] by (simp add: journaled_def)
  next
    case (sweep s')
    then show ?thesis using J sweep_explained by (auto simp: journaled_def)
  next
    case (foreign rows)
    obtain evs where evs: "st_rows (append_rows rows (ac_store ac)) = st_rows (ac_store ac) @ evs"
        "map (\<lambda>ev. (ev_kind ev, ev_payload ev)) evs = rows"
      by (rule append_rows_split)
    have "list_all inert rows" using foreign(3) assms(4) by (auto simp: list_all_iff)
    then have "explains lost (st_rows (ac_store ac) @ evs) s" if "explains lost (st_rows (ac_store ac)) s" for s
      using inert_rows_explained [OF that, of evs rows] evs(2) by (simp add: rows_match_def)
    then show ?thesis using J unfolding foreign(1,2) journaled_def by (simp add: evs(1)) blast
  next
    case (settled k receipt)
    have "st_rows (fst (settle_intent k receipt (ac_store ac))) = st_rows (ac_store ac)"
      by (auto simp: settle_intent_def split: option.splits)
    then show ?thesis using J by (simp add: settled(1,2) journaled_def)
  next
    case (crashed st appended s')
    have "\<exists>lost s. explains lost (st_rows st) s"
    proof (cases "ac_pending ac")
      case None
      then show ?thesis using J crashed(3) by (auto simp: crash_store_def journaled_def)
    next
      case (Some p)
      obtain st1 r where pa: "pending_append appended p (ac_store ac) = (st1, r)" by fastforce
      have st: "st = st1" using crashed(3) pa Some by (simp add: crash_store_def)
      from J Some obtain base where "lawful_request explains (pd_request p)"
        "explains lost (st_rows (ac_store ac)) base" "rq_mutate (pd_request p) base = (pd_candidate p, pd_result p)"
        unfolding journaled_def by blast
      from append_explained [OF this pa] J show ?thesis unfolding st journaled_def leaves_def by metis
    qed
    then have "explains [] (st_rows st) s'" using restart_explained crashed(4) by blast
    then show ?thesis by (simp add: crashed(1,2) journaled_def restart_actor_def)
  qed
qed

text \<open>
  In every run the log explains the subject, whatever failed, crashed or was retried, up to the
  rows that failed appends have left in it since the last restart.
\<close>

lemma run_explained:
  assumes "actor_run admit sweeps foreign restores s0 ls ac" and "explains [] [] s0"
    and "\<And>rq. admit rq \<Longrightarrow> lawful_request explains rq" and "\<And>row. foreign row \<Longrightarrow> inert row"
  shows "explains (lost_rows ls) (st_rows (ac_store ac)) (ac_subject ac)"
proof -
  have "journaled (lost_rows ls) ac" using assms(1)
  proof (induction rule: actor_run.induct)
    case fresh
    then show ?case using assms(2) by (simp add: journaled_def fresh_actor_def lost_rows_def)
  next
    case (extend ls ac l ac')
    have "journaled (lost_step (lost_rows ls) l) ac'"
      by (rule journaled_step [OF extend(2,3)]) (use assms(3,4) in auto)
    then show ?case by (simp add: lost_rows_def)
  qed
  then show ?thesis by (simp add: journaled_def)
qed

end

end
