(* ===== verification/Registry_Log.thy ===== *)
theory Registry_Log
  imports Leasing Atomic_Properties Journal_Replay Compaction
begin

text \<open>
  The log of the hub and the registry: the rows say at every moment what the claims are, through
  calls with their rows, rows of other features, sweeps and restarts.  The contract of
  \<open>Atomic_Properties\<close> between an actor and its log is interpreted on the registry and its replay.
\<close>

section \<open>Rows that leave the registry alone\<close>

definition inert_row :: "string \<times> json_object \<Rightarrow> bool" where
  "inert_row row \<longleftrightarrow> fst row \<notin> set snapshot_kinds
     \<and> (\<forall>ctx n. \<exists>ctx'. apply_event ctx \<lparr>ev_seq = n, ev_kind = fst row, ev_payload = snd row\<rparr> = Inr ctx'
          \<and> rc_state ctx' = rc_state ctx \<and> rc_epoch_seq ctx' = rc_epoch_seq ctx)"

lemma inert_rowD:
  "inert_row (ev_kind ev, ev_payload ev) \<Longrightarrow>
   \<exists>ctx'. apply_event ctx ev = Inr ctx' \<and> rc_state ctx' = rc_state ctx \<and> rc_epoch_seq ctx' = rc_epoch_seq ctx"
  by (cases ev) (auto simp: inert_row_def)

lemma inert_unapplied:
  "dget event_appliers kind = None \<Longrightarrow> \<not> (kind = ''protected_write'' \<or> py_startswith kind ''protected_write_'')
   \<Longrightarrow> inert_row (kind, p)"
proof -
  assume n: "dget event_appliers kind = None" and p: "\<not> (kind = ''protected_write'' \<or> py_startswith kind ''protected_write_'')"
  have "kind \<notin> set snapshot_kinds" using n by (auto simp: event_appliers_def snapshot_kinds_def)
  then show ?thesis using n p by (auto simp: inert_row_def apply_event_def)
qed

lemma inert_denial: "inert_row (claim_denial_row who task reason wt ps)"
  unfolding claim_denial_row_def
  by (rule inert_unapplied) (simp_all add: event_appliers_def py_startswith_def)

lemma inert_progress: "inert_row (record_ledger_progress n)"
proof -
  have "apply_event ctx \<lparr>ev_seq = q, ev_kind = ''ledger_progress'', ev_payload = progress_note_as_dict n\<rparr>
      = Inr (ctx\<lparr>rc_board := restore_progress n (rc_board ctx)\<rparr>)" for ctx q
    by (simp add: apply_event_def event_appliers_def py_startswith_def apply_progress_event_def progress_codec)
  then show ?thesis by (simp add: inert_row_def record_ledger_progress_def snapshot_kinds_def)
qed

lemma inert_completion: "inert_row (completion_row so)"
proof -
  have f: "text_or (snd (completion_row so)) ''key'' [] = Inr (so_key so)"
    "get_or (snd (completion_row so)) ''response'' (JObject []) = JObject (so_response so)"
    by (simp_all add: completion_row_def text_or_def get_or_def)
  have "\<exists>ctx'. apply_event ctx \<lparr>ev_seq = q, ev_kind = fst (completion_row so), ev_payload = snd (completion_row so)\<rparr> = Inr ctx'
      \<and> rc_state ctx' = rc_state ctx \<and> rc_epoch_seq ctx' = rc_epoch_seq ctx" for ctx q
    using f by (simp add: apply_event_def event_appliers_def py_startswith_def apply_idempotency_event_def completion_row_def)
  then show ?thesis by (simp add: inert_row_def snapshot_kinds_def) (simp add: completion_row_def)
qed

section \<open>Names and custody\<close>

text \<open>
  No custody is held, and the claims are stored under stripped names.  An abandoned claim is
  released and journaled by the same name only then.
\<close>

definition plain_name :: "string \<Rightarrow> bool" where
  "plain_name k \<longleftrightarrow> k \<noteq> [] \<and> py_strip k = k"

definition tidy :: "synapse_state \<Rightarrow> bool" where
  "tidy s \<longleftrightarrow> protected_claim_custody s = [] \<and> (\<forall>k. dget (claims s) k \<noteq> None \<longrightarrow> plain_name k)"

lemma tidy_grow:
  "tidy s \<Longrightarrow> protected_claim_custody s' = protected_claim_custody s
   \<Longrightarrow> (\<And>k. dget (claims s') k \<noteq> None \<Longrightarrow> dget (claims s) k \<noteq> None \<or> plain_name k) \<Longrightarrow> tidy s'"
  by (auto simp: tidy_def)

lemma tidy_heartbeat: "wf_state s \<Longrightarrow> tidy s \<Longrightarrow> tidy (heartbeat agent ts s)"
  by (rule tidy_grow [of s]) (auto simp: frame_simps dget_claims_heartbeat split: option.splits if_splits)

lemma tidy_drop: "tidy s \<Longrightarrow> tidy (drop_claim task s)"
  by (rule tidy_grow [of s]) (auto simp: drop_claim_def split: if_splits)

lemma tidy_store: "tidy s \<Longrightarrow> dget (claims s) (task_id c) \<noteq> None \<or> plain_name (task_id c) \<Longrightarrow> tidy (store_claim c s)"
  by (rule tidy_grow [of s]) (auto split: if_splits)

lemma tidy_run_op:
  assumes t: "tidy s" and wf: "wf_state s" and ok: "call_ok now op"
  shows "tidy (run_op op s)"
proof -
  have h: "tidy (heartbeat agent ts s)" and wfh: "wf_state (heartbeat agent ts s)" for agent ts
    using tidy_heartbeat [OF wf t] wf_heartbeat [OF wf] by simp_all
  show ?thesis
  proof (cases op)
    case (Claim agent task' rq ts)
    then show ?thesis
    proof (cases rule: claim_cases [of agent task' rq ts s, case_names inv ref granted])
      case (granted hs task ps prin)
      have "plain_name task" using granted(2,3) by (simp add: plain_name_def)
      then have "tidy (grant_claim agent task rq prin (claim_ttl (req_ttl rq) s) ps (dget (claims hs) task) ts hs)"
        by (intro tidy_grow [OF h [of agent ts]])
          (auto simp: granted(1) grant_claim_def Let_def split_beta frame_simps granted_claim_fields split: if_splits)
      then show ?thesis using granted(6) Claim by simp
    qed (use Claim t h in simp_all)
  next
    case (Renew agent task' ep ps ts)
    then show ?thesis
    proof (cases rule: renew_claim_cases [of agent task' ep ps ts s, case_names ref granted])
      case (granted hs task c)
      have "task_id c = task"
        using wf_stateD(6) [OF wfh] granted(3) unfolding granted(1) by (simp add: claim_ok_def)
      then show ?thesis using Renew granted h [of agent ts] by (auto intro!: tidy_store simp: post_init_def)
    qed (use Renew h in simp_all)
  next
    case (Update agent task st n d ep v ts)
    then show ?thesis
    proof (cases rule: update_task_cases [of agent task st n d ep v ts s, case_names ref granted])
      case (granted hs c)
      then show ?thesis using Update by (auto intro!: tidy_grow [OF h [of agent ts]] split: if_splits)
    qed (use Update h in simp_all)
  next
    case (Save agent task' cp ep ts)
    then show ?thesis
    proof (cases rule: save_checkpoint_cases [of agent task' cp ep ts s, case_names ref granted])
      case (granted hs task c)
      then show ?thesis using Save by (auto intro!: tidy_grow [OF h [of agent ts]] split: if_splits)
    qed (use Save h in simp_all)
  next
    case (Release agent task' ep ts)
    then show ?thesis
      by (cases rule: release_cases [of agent task' ep ts s]) (use t h in \<open>auto intro: tidy_drop\<close>)
  next
    case (ForceRelease task' by')
    then show ?thesis by (cases rule: force_release_cases [of task' by' s]) (use t in \<open>auto intro: tidy_drop\<close>)
  next
    case (Handoff agent task' to n ep ts)
    then show ?thesis
    proof (cases rule: handoff_cases [of agent task' to n ep ts s, case_names inv ref granted])
      case (granted hs task target c moved)
      then show ?thesis using Handoff by (auto intro!: tidy_grow [OF h [of agent ts]] split: if_splits)
    qed (use Handoff t h in simp_all)
  next
    case (Offer agent kind name cap meta ts)
    then show ?thesis using h [of agent ts]
      by (auto intro!: tidy_grow [OF h [of agent ts]] simp: offer_resource_def Let_def split_beta frame_simps)
  next
    case (Snapshot ts)
    have "tidy (expire_claims ts s)"
      by (rule tidy_grow [OF t]) (auto simp: frame_simps expire_claims_live [OF wf] dget_live_claims [OF wf_stateD(1) [OF wf]]
          split: option.splits if_splits)
    then show ?thesis using Snapshot by (auto intro!: tidy_grow [of "expire_claims ts s"] simp: snapshot_def Let_def frame_simps)
  qed (use ok h in simp_all)
qed

section \<open>What the rows say about the claims they rebuild\<close>

definition rows_persistable :: "journal_event list \<Rightarrow> bool" where
  "rows_persistable rows \<longleftrightarrow> (\<forall>ev \<in> set rows. ev_kind ev \<in> set snapshot_kinds \<longrightarrow>
     (\<exists>c. persistable c \<and> 0 < epoch c \<and> plain_name (task_id c) \<and> ev_payload ev = as_persisted_dict c))"

definition context_ok :: "replay_context \<Rightarrow> bool" where
  "context_ok ctx \<longleftrightarrow> dict_ok (claims (rc_state ctx)) \<and> expired_checkpoints (rc_state ctx) = [] \<and> 0 \<le> rc_epoch_seq ctx
     \<and> (\<forall>k c. dget (claims (rc_state ctx)) k = Some c \<longrightarrow>
          persistable c \<and> task_id c = k \<and> plain_name k \<and> 0 < epoch c \<and> epoch c \<le> rc_epoch_seq ctx)"

lemma epoch_bystanders:
  "apply_resource_event ctx ev = Inr ctx' \<Longrightarrow> rc_epoch_seq ctx' = rc_epoch_seq ctx"
  "apply_ledger_task_event ctx ev = Inr ctx' \<Longrightarrow> rc_epoch_seq ctx' = rc_epoch_seq ctx"
  "apply_progress_event ctx ev = Inr ctx' \<Longrightarrow> rc_epoch_seq ctx' = rc_epoch_seq ctx"
  "apply_chat_event ctx ev = Inr ctx' \<Longrightarrow> rc_epoch_seq ctx' = rc_epoch_seq ctx"
  "apply_idempotency_event ctx ev = Inr ctx' \<Longrightarrow> rc_epoch_seq ctx' = rc_epoch_seq ctx"
  "apply_finding_event ctx ev = Inr ctx' \<Longrightarrow> rc_epoch_seq ctx' = rc_epoch_seq ctx"
  "apply_relay_event ctx ev = Inr ctx' \<Longrightarrow> rc_epoch_seq ctx' = rc_epoch_seq ctx"
  "apply_corrupt_event ctx ev = Inr ctx' \<Longrightarrow> rc_epoch_seq ctx' = rc_epoch_seq ctx"
  by (auto simp: apply_resource_event_def apply_ledger_task_event_def apply_progress_event_def apply_chat_event_def
      apply_idempotency_event_def apply_finding_event_def apply_relay_event_def apply_corrupt_event_def
      Let_def sum_bind_Inr split: if_splits json.splits)

lemma context_ok_bystander:
  "bystander f \<Longrightarrow> f ctx ev = Inr ctx' \<Longrightarrow> rc_epoch_seq ctx' = rc_epoch_seq ctx \<Longrightarrow> context_ok ctx \<Longrightarrow> context_ok ctx'"
  unfolding bystander_def context_ok_def by metis

lemma context_ok_event:
  assumes "apply_event ctx ev = Inr ctx'" and ok: "context_ok ctx" and row: "rows_persistable [ev]"
  shows "context_ok ctx'"
proof -
  have ev: "(case dget event_appliers (ev_kind ev) of None \<Rightarrow> Inr ctx | Some f \<Rightarrow> f ctx ev) = Inr ctx'"
    using assms(1) by (simp add: apply_event_def split: if_splits)
  show ?thesis
  proof (cases "ev_kind ev \<in> set snapshot_kinds")
    case True
    then obtain c where c: "persistable c" "0 < epoch c" "ev_payload ev = as_persisted_dict c" "plain_name (task_id c)"
      using row by (auto simp: rows_persistable_def)
    have "dget event_appliers (ev_kind ev) = Some apply_claim_event"
      using True by (auto simp: event_appliers_def snapshot_kinds_def)
    then have "ctx' = ctx\<lparr>rc_state := (rc_state ctx)\<lparr>claims := dset (task_id c) c (claims (rc_state ctx)),
        last_seen := dset (owner c) (claimed_at c) (last_seen (rc_state ctx))\<rparr>,
        rc_epoch_seq := max (rc_epoch_seq ctx) (epoch c)\<rparr>"
      using ev by (auto simp: apply_claim_event_def c(3) claim_codec [OF c(1)] Let_def split: if_splits)
    then show ?thesis using ok c by (auto simp: context_ok_def le_max_iff_disj split: if_splits)
  next
    case snap: False
    show ?thesis
    proof (cases "ev_kind ev = ''release''")
      case True
      then obtain t where "ctx' = ctx\<lparr>rc_state := (rc_state ctx)\<lparr>claims := ddel t (claims (rc_state ctx))\<rparr>\<rparr>"
        using ev by (auto simp: event_appliers_def apply_release_event_def Let_def sum_bind_Inr split: if_splits)
      then show ?thesis using ok by (auto simp: context_ok_def split: if_splits)
    next
      case False
      then have "dget event_appliers (ev_kind ev) = None \<or> (\<exists>f \<in> {apply_resource_event, apply_ledger_task_event,
          apply_progress_event, apply_chat_event, apply_idempotency_event, apply_finding_event, apply_relay_event,
          apply_corrupt_event}. dget event_appliers (ev_kind ev) = Some f)"
        using snap by (auto simp: event_appliers_def snapshot_kinds_def split: if_splits)
      then show ?thesis
      proof
        assume "dget event_appliers (ev_kind ev) = None"
        then show ?thesis using ev ok by simp
      next
        assume "\<exists>f \<in> {apply_resource_event, apply_ledger_task_event, apply_progress_event, apply_chat_event,
          apply_idempotency_event, apply_finding_event, apply_relay_event, apply_corrupt_event}.
          dget event_appliers (ev_kind ev) = Some f"
        then obtain f where f: "f \<in> {apply_resource_event, apply_ledger_task_event, apply_progress_event,
            apply_chat_event, apply_idempotency_event, apply_finding_event, apply_relay_event, apply_corrupt_event}"
          and "dget event_appliers (ev_kind ev) = Some f" by blast
        then have run: "f ctx ev = Inr ctx'" using ev by simp
        have "bystander f" using f bystanders by blast
        moreover have "rc_epoch_seq ctx' = rc_epoch_seq ctx" using f run by (auto dest: epoch_bystanders)
        ultimately show ?thesis using context_ok_bystander run ok by blast
      qed
    qed
  qed
qed

lemma context_ok_events:
  "apply_events rows ctx = Inr ctx' \<Longrightarrow> context_ok ctx \<Longrightarrow> rows_persistable rows \<Longrightarrow> context_ok ctx'"
proof (induction rows arbitrary: ctx)
  case (Cons ev rows)
  then obtain ctx1 where "apply_event ctx ev = Inr ctx1" "apply_events rows ctx1 = Inr ctx'" by (auto simp: sum_bind_Inr)
  with Cons show ?case using context_ok_event [of ctx ev ctx1] by (auto simp: rows_persistable_def)
qed simp

section \<open>The log explains the registry\<close>

text \<open>
  \<open>lm\<close> is the fresh state of the hub's limits and \<open>bd\<close> its fresh blackboard; \<open>now\<close> is a time no
  call is later than.  \<open>lost\<close> are the rows of failed appends: the tasks they release may be live.
\<close>

definition released_tasks :: "(string \<times> json_object) list \<Rightarrow> string set" where
  "released_tasks lost = {k. record_release k \<in> set lost}"

definition explains_registry ::
  "time \<Rightarrow> synapse_state \<Rightarrow> blackboard \<Rightarrow> (string \<times> json_object) list \<Rightarrow> journal_event list \<Rightarrow> synapse_state \<Rightarrow> bool" where
  "explains_registry now lm bd lost rows s \<longleftrightarrow> wf_state s \<and> tidy s \<and> rows_persistable rows
     \<and> (\<exists>ctx. apply_events rows (initial_context lm bd) = Inr ctx \<and> replays (released_tasks lost) now s ctx)"

definition registry_restores ::
  "time \<Rightarrow> synapse_state \<Rightarrow> blackboard \<Rightarrow> journal_event list \<Rightarrow> synapse_state \<Rightarrow> bool" where
  "registry_restores now lm bd rows s \<longleftrightarrow>
     (\<exists>ts ctx. ts \<le> now \<and> replay lm bd ts None None rows = Inr ctx \<and> s = rc_state ctx)"

definition registry_sweeps :: "time \<Rightarrow> synapse_state \<Rightarrow> synapse_state \<Rightarrow> bool" where
  "registry_sweeps now s s' \<longleftrightarrow> (\<exists>ts \<le> now. s' = fst (snapshot ts s))"

definition fresh_limits :: "synapse_state \<Rightarrow> bool" where
  "fresh_limits lm \<longleftrightarrow> (\<exists>a b c d. lm = init_state a b c d)"

lemma context_ok_initial: "fresh_limits lm \<Longrightarrow> context_ok (initial_context lm bd)"
  by (auto simp: fresh_limits_def context_ok_def initial_context_def init_state_def)

lemma replay_run:
  assumes "replay lm bd ts None None rows = Inr ctx"
  obtains ctx0 where "apply_events rows (initial_context lm bd) = Inr ctx0"
    and "rc_state ctx = expire_resources ts (expire_claims ts (reindex_leases ((rc_state ctx0)\<lparr>epoch_seq := rc_epoch_seq ctx0\<rparr>)))"
  using assms by (auto simp: replay_def Let_def sum_bind_Inr iter_events_def intro: that)

lemma restart_keeps_log:
  assumes lm: "fresh_limits lm" and ex: "explains_registry now lm bd lost rows s" and re: "registry_restores now lm bd rows s'"
  shows "explains_registry now lm bd [] rows s'"
proof -
  from re obtain ts ctx where ts: "ts \<le> now" and run: "replay lm bd ts None None rows = Inr ctx" and s': "s' = rc_state ctx"
    by (auto simp: registry_restores_def)
  from ex obtain ctx0 where rows: "rows_persistable rows" and ev: "apply_events rows (initial_context lm bd) = Inr ctx0"
    and R: "replays (released_tasks lost) now s ctx0" by (auto simp: explains_registry_def)
  let ?s1 = "reindex_leases ((rc_state ctx0)\<lparr>epoch_seq := rc_epoch_seq ctx0\<rparr>)"
  have st: "s' = expire_resources ts (expire_claims ts ?s1)" using run ev s' by (auto elim: replay_run)
  have C: "context_ok ctx0" by (rule context_ok_events [OF ev context_ok_initial [OF lm] rows])
  have wf1: "wf_state ?s1"
    using C lease_heap.rebuild_indexed
    by (auto simp: wf_state_def reindex_leases_def context_ok_def claim_ok_def persistable_def)
  have wf: "wf_state s'" unfolding st
    by (subst wf_state_cong [of _ "expire_claims ts ?s1"]) (simp_all add: frame_simps wf_expire_claims [OF wf1])
  note D = replaysD [OF R]
  note E = rebuilt_expiry [of ?s1 ts, simplified reindex_leases_def, simplified, OF D(1,2)]
  have cs: "dget (claims s') k = (case dget (claims (rc_state ctx0)) k of None \<Rightarrow> None
      | Some c \<Rightarrow> if lease_expires_at c \<le> ts then None else Some c)" for k
    using dget_live_claims [OF D(1), of ts k] by (simp add: st frame_simps reindex_leases_def E(1))
  have cps: "dget (expired_checkpoints s') k = (case dget (claims (rc_state ctx0)) k of
      Some c \<Rightarrow> if lease_expires_at c \<le> ts \<and> checkpoint c \<noteq> [] then Some (checkpoint c) else None | None \<Rightarrow> None)" for k
    by (simp add: st frame_simps reindex_leases_def E(2))
  have ep: "epoch_seq s' = rc_epoch_seq ctx0" by (simp add: st frame_simps reindex_leases_def)
  have "replays {} now s' ctx0" unfolding replays_def
  proof (intro conjI allI impI)
    show "dict_ok (claims (rc_state ctx0))" "expired_checkpoints (rc_state ctx0) = []"
      "protected_claim_custody (rc_state ctx0) = []" "rc_epoch_seq ctx0 = epoch_seq s'"
      using D(1-3) ep by simp_all
  next
    fix k c assume "dget (claims s') k = Some c"
    then have k: "dget (claims (rc_state ctx0)) k = Some c" by (auto simp: cs split: option.splits if_splits)
    then show "persistable c" "dget (claims (rc_state ctx0)) k = Some c \<or> k \<in> {} \<and> dget (claims (rc_state ctx0)) k = None"
      using C by (auto simp: context_ok_def)
  next
    fix k c assume "dget (claims (rc_state ctx0)) k = Some c" and "dget (claims s') k = None"
    then show "lease_expires_at c \<le> now" "dget (expired_checkpoints s') k = (if checkpoint c = [] then None else Some (checkpoint c))"
      using ts by (auto simp: cs cps split: if_splits)
  next
    fix k assume "dget (claims (rc_state ctx0)) k = None"
    then show "dget (claims s') k = None" "dget (expired_checkpoints s') k = None" by (simp_all add: cs cps)
  qed
  moreover have "tidy s'" unfolding tidy_def
  proof (intro conjI allI impI)
    show "protected_claim_custody s' = []" using D(3) by (simp add: st frame_simps reindex_leases_def)
    show "plain_name k" if "dget (claims s') k \<noteq> None" for k
      using C that cs [of k] by (auto simp: context_ok_def split: option.splits)
  qed
  ultimately show ?thesis using wf rows ev by (auto simp: explains_registry_def released_tasks_def)
qed

lemma replays_same_context:
  "rc_state ctx' = rc_state ctx \<Longrightarrow> rc_epoch_seq ctx' = rc_epoch_seq ctx \<Longrightarrow> replays L now s ctx \<Longrightarrow> replays L now s ctx'"
  by (simp add: replays_def)

lemma inert_keeps_log:
  assumes "explains_registry now lm bd lost rows s" and "inert_row (ev_kind ev, ev_payload ev)"
  shows "explains_registry now lm bd lost (rows @ [ev]) s"
proof -
  from assms(1) obtain ctx where ctx: "apply_events rows (initial_context lm bd) = Inr ctx" "replays (released_tasks lost) now s ctx"
    by (auto simp: explains_registry_def)
  from inert_rowD [OF assms(2)] obtain ctx' where ctx': "apply_event ctx ev = Inr ctx'"
      "rc_state ctx' = rc_state ctx" "rc_epoch_seq ctx' = rc_epoch_seq ctx" by blast
  have "rows_persistable (rows @ [ev])"
    using assms by (auto simp: explains_registry_def rows_persistable_def inert_row_def)
  then show ?thesis using assms(1) ctx ctx' replays_same_context [OF ctx'(2,3) ctx(2)]
    by (auto simp: explains_registry_def apply_events_append)
qed

text \<open>Releases that reached the log, but not the registry.\<close>

lemma release_lost:
  assumes "explains_registry now lm bd lost rows s" and "(ev_kind ev, ev_payload ev) = record_release k"
  shows "explains_registry now lm bd (lost @ [record_release k]) (rows @ [ev]) s"
proof -
  from assms(1) obtain ctx where ctx: "apply_events rows (initial_context lm bd) = Inr ctx"
      "replays (released_tasks lost) now s ctx"
    by (auto simp: explains_registry_def)
  have ev: "ev_kind ev = ''release''" "ev_payload ev = [(''task_id'', JString k)]"
    using assms(2) by (simp_all add: record_release_def)
  have "released_tasks (lost @ [record_release k]) = insert k (released_tasks lost)"
    by (auto simp: released_tasks_def record_release_def)
  moreover have "rows_persistable (rows @ [ev])"
    using assms(1) ev by (auto simp: explains_registry_def rows_persistable_def snapshot_kinds_def)
  ultimately show ?thesis using assms(1) ctx(1) replays_lose [OF ctx(2) ev]
    by (auto simp: explains_registry_def apply_events_append)
qed

lemma releases_lost:
  assumes "explains_registry now lm bd lost rows s" and "rows_match evs (map record_release ks)"
  shows "explains_registry now lm bd (lost @ map record_release ks) (rows @ evs) s"
  using assms
proof (induction ks arbitrary: lost rows evs)
  case (Cons k ks)
  then obtain ev evs' where evs: "evs = ev # evs'" "(ev_kind ev, ev_payload ev) = record_release k"
      "rows_match evs' (map record_release ks)"
    by (auto simp: rows_match_def map_eq_Cons_conv)
  from Cons.IH [OF release_lost [OF Cons.prems(1) evs(2)] evs(3)] show ?case by (simp add: evs(1))
qed (simp add: rows_match_def)

text \<open>Calls of registry operations with their rows.\<close>

lemma rows_match_append:
  assumes "rows_match evs (xs @ ys)"
  obtains e1 e2 where "evs = e1 @ e2" "rows_match e1 xs" "rows_match e2 ys"
  using assms by (auto simp: rows_match_def map_eq_append_conv)

lemma in_snapshot_row:
  "row \<in> set (snapshot_row kind task r) \<Longrightarrow> \<exists>c. snd row = as_persisted_dict c \<and> dget (claims (fst r)) task = Some c"
  by (auto simp: snapshot_row_def record_claim_snapshot_def split: prod.splits sum.splits option.splits)

lemma snapshot_row_of_op:
  assumes "row \<in> set (rows_of op s)" and "fst row \<in> set snapshot_kinds"
  obtains c task where "snd row = as_persisted_dict c" "dget (claims (run_op op s)) task = Some c"
proof -
  have "\<exists>c task. snd row = as_persisted_dict c \<and> dget (claims (run_op op s)) task = Some c"
  proof (cases "\<exists>kind task r. rows_of op s = snapshot_row kind task r \<and> run_op op s = fst r")
    case True
    then show ?thesis using assms(1) by (metis in_snapshot_row)
  next
    case False
    then have "row \<notin> set (rows_of op s) \<or> fst row = ''release'' \<or> fst row = ''resource''"
      by (cases op) (auto simp: record_release_def record_resource_def simp del: split_paired_All split_paired_Ex
          split: prod.splits sum.splits option.splits)
    then show ?thesis using assms by (auto simp: snapshot_kinds_def)
  qed
  then show thesis using that by blast
qed

lemma call_keeps_log:
  assumes ex: "explains_registry now lm bd lost rows s" and ok: "call_ok now op" and evs: "rows_match evs (rows_of op s)"
  shows "explains_registry now lm bd lost (rows @ evs) (run_op op s)"
proof -
  from ex obtain ctx where wf: "wf_state s" and t: "tidy s" and rows: "rows_persistable rows"
    and ctx: "apply_events rows (initial_context lm bd) = Inr ctx" and R: "replays (released_tasks lost) now s ctx"
    by (auto simp: explains_registry_def)
  from replayed_op [OF R wf ok] evs obtain ctx' where ctx': "apply_events evs ctx = Inr ctx'" "replays (released_tasks lost) now (run_op op s) ctx'"
    by (auto simp: replayed_by_def rows_match_def)
  have wf': "wf_state (run_op op s)" by (rule wf_run_op [OF wf])
  have t': "tidy (run_op op s)" by (rule tidy_run_op [OF t wf ok])
  have snap: "\<exists>c. persistable c \<and> 0 < epoch c \<and> plain_name (task_id c) \<and> p = as_persisted_dict c"
    if "(kind, p) \<in> set (rows_of op s)" "kind \<in> set snapshot_kinds" for kind p
  proof -
    from that obtain c task where c: "p = as_persisted_dict c" "dget (claims (run_op op s)) task = Some c"
      by (auto elim!: snapshot_row_of_op)
    then show ?thesis using replaysD(5) [OF ctx'(2) c(2)] wf_stateD(6) [OF wf' c(2)] t'
      by (auto simp: claim_ok_def tidy_def)
  qed
  have "rows_persistable (rows @ evs)" unfolding rows_persistable_def
  proof (intro ballI impI)
    fix ev assume ev: "ev \<in> set (rows @ evs)" "ev_kind ev \<in> set snapshot_kinds"
    show "\<exists>c. persistable c \<and> 0 < epoch c \<and> plain_name (task_id c) \<and> ev_payload ev = as_persisted_dict c"
    proof (cases "ev \<in> set rows")
      case True
      then show ?thesis using rows ev(2) by (auto simp: rows_persistable_def)
    next
      case False
      then have "(ev_kind ev, ev_payload ev) \<in> (\<lambda>ev. (ev_kind ev, ev_payload ev)) ` set evs" using ev(1) by auto
      then have "(ev_kind ev, ev_payload ev) \<in> set (rows_of op s)"
        using evs [unfolded rows_match_def] by (metis list.set_map)
      then show ?thesis using snap ev(2) by blast
    qed
  qed
  then show ?thesis using wf' t' ctx ctx' by (auto simp: explains_registry_def apply_events_append)
qed

lemma calls_keep_log:
  "explains_registry now lm bd lost rows s \<Longrightarrow> list_all (call_ok now) ops \<Longrightarrow> rows_match evs (snd (run_journaled ops s))
   \<Longrightarrow> explains_registry now lm bd lost (rows @ evs) (fst (run_journaled ops s))"
proof (induction ops arbitrary: rows s evs)
  case (Cons op ops)
  have "rows_match evs (rows_of op s @ snd (run_journaled ops (run_op op s)))"
    using Cons.prems(3) by (simp add: split_beta)
  then obtain e1 e2 where e: "evs = e1 @ e2" "rows_match e1 (rows_of op s)"
      "rows_match e2 (snd (run_journaled ops (run_op op s)))"
    by (rule rows_match_append)
  have "explains_registry now lm bd lost (rows @ e1) (run_op op s)"
    using call_keeps_log [OF Cons.prems(1) _ e(2)] Cons.prems(2) by simp
  from Cons.IH [OF this _ e(3)] Cons.prems(2) show ?case by (simp add: e(1) split_beta)
qed (simp add: rows_match_def)

lemma sweep_keeps_log:
  "explains_registry now lm bd lost rows s \<Longrightarrow> registry_sweeps now s s' \<Longrightarrow> explains_registry now lm bd lost rows s'"
  using call_keeps_log [of now lm bd lost rows s "Snapshot ts" "[]" for ts]
  by (auto simp: registry_sweeps_def rows_match_def)

text \<open>The contract of \<open>Atomic_Properties\<close>, for the registry and its replay.\<close>

definition hub_limits :: "json \<Rightarrow> json \<Rightarrow> json \<Rightarrow> json \<Rightarrow> synapse_state" where
  "hub_limits a b c d = init_state a b c d"

interpretation registry_log: journaled_subject
  "explains_registry now (hub_limits a b c d) bd" "registry_sweeps now" "registry_restores now (hub_limits a b c d) bd" inert_row
proof
  have lm: "fresh_limits (hub_limits a b c d)" by (auto simp: fresh_limits_def hub_limits_def)
  show "explains_registry now (hub_limits a b c d) bd [] rows s'"
    if "explains_registry now (hub_limits a b c d) bd lost rows s" "registry_restores now (hub_limits a b c d) bd rows s'" for lost rows s s'
    by (rule restart_keeps_log [OF lm that])
qed (fact sweep_keeps_log inert_keeps_log inert_completion)+

end
