(* ===== verification/Leasing_Journal.thy ===== *)
theory Leasing_Journal
  imports Registry_Log
begin

text \<open>
  The lease verbs through the actor and the journal: whatever frames arrive, with retries, failed
  appends, crashes and restarts in any order, the rows of the log rebuild the registry, up to the
  releases that an append which failed between two of them left behind.
\<close>

section \<open>The requests of the verbs\<close>

text \<open>
  A request is some calls of registry operations with their rows (none when it is refused before
  any): it mutates as the calls do, and on the keyed path as on the plain one it appends the rows
  of the calls, then rows the replay of the registry passes over.
\<close>

definition request_rows :: "lease_request \<Rightarrow> lease_result \<Rightarrow> (string \<times> json_object) list" where
  "request_rows rq r =
     (case (rq_key rq, rq_prepare rq r) of (Some kd, Some dr) \<Rightarrow> od_events dr | _ \<Rightarrow> rq_persist rq r)"

definition makes_calls :: "lease_request \<Rightarrow> (synapse_state \<Rightarrow> state_op list) \<Rightarrow> synapse_state \<Rightarrow> bool" where
  "makes_calls rq ops s \<longleftrightarrow> fst (rq_mutate rq s) = fst (run_journaled (ops s) s)
     \<and> (\<exists>extra. list_all inert_row extra
          \<and> request_rows rq (snd (rq_mutate rq s)) = snd (run_journaled (ops s) s) @ extra)"

definition journaled_calls :: "time \<Rightarrow> lease_request \<Rightarrow> bool" where
  "journaled_calls now rq \<longleftrightarrow>
     (\<exists>ops. \<forall>s. wf_state s \<longrightarrow> tidy s \<longrightarrow> makes_calls rq ops s \<and> list_all (call_ok now) (ops s))"

text \<open>
  An append that fails between its rows: a request writes one row of its own, and the sweep of abandoned
  claims writes releases only.
\<close>

definition cut_safe :: "(string \<times> json_object) list \<Rightarrow> bool" where
  "cut_safe rows \<longleftrightarrow> length rows \<le> 1 \<or> (\<exists>ks. rows = map record_release ks)"

lemma cut_safe_explained:
  assumes "cut_safe rows"
  shows "cut_explained (explains_registry now (hub_limits a b c d) bd) rows"
  unfolding cut_explained_def
proof (intro allI impI)
  fix n lost log s evs
  assume n: "n < length rows" and ex: "explains_registry now (hub_limits a b c d) bd lost log s"
    and evs: "rows_match evs (take n rows)"
  obtain ks where ks: "take n rows = map record_release ks"
  proof (cases "length rows \<le> 1")
    case True
    then show thesis using n by (intro that [of "[]"]) auto
  next
    case False
    then obtain ks where "rows = map record_release ks" using assms by (auto simp: cut_safe_def)
    then show thesis by (intro that [of "take n ks"]) (simp add: take_map)
  qed
  from releases_lost [OF ex evs [unfolded ks]]
  show "explains_registry now (hub_limits a b c d) bd (lost @ take n rows) (log @ evs) s" by (simp only: ks)
qed

lemma request_cut_safe:
  "verb_request env mx verb sender quota data = Inr rq \<Longrightarrow> cut_safe (rq_persist rq r)"
  "apply_claim_async env mx sender quota data = Inr rq \<Longrightarrow> cut_safe (rq_persist rq r)"
  "cut_safe (rq_persist (abandoned_verb hp online tick) r)"
proof -
  have one: "cut_safe (claim_rows who wt ps r)" "cut_safe (claim_snapshot_rows kind r)" "cut_safe (release_rows task r)"
    for who wt ps kind task
    by (auto simp: cut_safe_def claim_rows_def claim_snapshot_rows_def release_rows_def
        split: lease_result.split option.split)
  then show "verb_request env mx verb sender quota data = Inr rq \<Longrightarrow> cut_safe (rq_persist rq r)"
    by (cases verb)
      (auto simp: verb_request_def claim_verb_eq task_update_verb_def release_verb_def handoff_verb_def
        checkpoint_verb_def sum_bind_Inr Let_def)
  show "apply_claim_async env mx sender quota data = Inr rq \<Longrightarrow> cut_safe (rq_persist rq r)"
    using one by (auto simp: apply_claim_async_def sum_bind_Inr)
  have "\<exists>ks. map (\<lambda>(task, who, away). record_release task) items = map record_release ks"
    for items :: "(string \<times> string \<times> time) list"
    by (rule exI [of _ "map fst items"]) (simp add: comp_def split_beta)
  then show "cut_safe (rq_persist (abandoned_verb hp online tick) r)"
    by (cases r) (simp_all add: cut_safe_def abandoned_verb_def)
qed

lemma journaled_lawful:
  assumes calls: "journaled_calls now rq" and safe: "\<And>r. cut_safe (rq_persist rq r)"
  shows "lawful_request (explains_registry now (hub_limits a b c d) bd) rq"
  unfolding lawful_request_def
proof (intro allI impI)
  fix lost rows s evs assume ex: "explains_registry now (hub_limits a b c d) bd lost rows s"
  obtain s' r where run: "rq_mutate rq s = (s', r)" by fastforce
  from calls obtain ops where "\<forall>s. wf_state s \<longrightarrow> tidy s \<longrightarrow> makes_calls rq ops s \<and> list_all (call_ok now) (ops s)"
    by (auto simp: journaled_calls_def)
  then have ok: "list_all (call_ok now) (ops s)" and "makes_calls rq ops s" using ex by (auto simp: explains_registry_def)
  then obtain extra where s': "s' = fst (run_journaled (ops s) s)" and inert: "list_all inert_row extra"
    and rows_eq: "request_rows rq r = snd (run_journaled (ops s) s) @ extra"
    unfolding makes_calls_def run by auto
  have step: "explains_registry now (hub_limits a b c d) bd lost (rows @ evs) s'"
    if "rows_match evs (snd (run_journaled (ops s) s) @ extra)"
  proof -
    from that obtain e1 e2 where e: "evs = e1 @ e2" "rows_match e1 (snd (run_journaled (ops s) s))" "rows_match e2 extra"
      by (rule rows_match_append)
    have "explains_registry now (hub_limits a b c d) bd lost (rows @ e1) s'"
      unfolding s' by (rule calls_keep_log [OF ex ok e(2)])
    from registry_log.inert_rows_explained [OF this e(3) inert] show ?thesis by (simp add: e(1))
  qed
  show "let (s', r) = rq_mutate rq s in
         (case (rq_key rq, rq_prepare rq r) of
            (Some kd, Some dr) \<Rightarrow> rows_match evs (od_events dr) \<longrightarrow> explains_registry now (hub_limits a b c d) bd lost (rows @ evs) s'
          | _ \<Rightarrow> (rows_match evs (rq_persist rq r) \<longrightarrow> explains_registry now (hub_limits a b c d) bd lost (rows @ evs) s')
               \<and> cut_explained (explains_registry now (hub_limits a b c d) bd) (rq_persist rq r))"
    using rows_eq step cut_safe_explained [OF safe] by (auto simp: run request_rows_def split: option.splits)
qed

text \<open>One call.\<close>

lemma one_callI:
  assumes "\<And>s. fst (rq_mutate rq s) = run_op (op s) s"
    and "\<And>s. \<exists>extra. list_all inert_row extra \<and> request_rows rq (snd (rq_mutate rq s)) = rows_of (op s) s @ extra"
    and "\<And>s. call_ok now (op s)"
  shows "journaled_calls now rq"
  unfolding journaled_calls_def makes_calls_def
  by (intro exI [of _ "\<lambda>s. [op s]"]) (use assms in simp)

text \<open>The claim: its body, then the request.\<close>

fun call_of_claim :: "time \<Rightarrow> string \<Rightarrow> claim_body \<Rightarrow> synapse_state \<Rightarrow> state_op list" where
  "call_of_claim ts claimant (BadRenewal task renewal_id) s = []"
| "call_of_claim ts claimant (RenewalBody task ep ps renewal_id) s =
     [Renew claimant task ep (normalize_paths ps (Some (max_paths_per_claim s))) ts]"
| "call_of_claim ts claimant (BadIdentity task request_id) s = []"
| "call_of_claim ts claimant (AcquireBody task rq request_id) s = [Claim claimant task rq ts]"

definition body_ok :: "claim_body \<Rightarrow> bool" where
  "body_ok body \<longleftrightarrow>
     (case body of
        BadRenewal task renewal_id \<Rightarrow> True
      | RenewalBody task ep ps renewal_id \<Rightarrow> py_strip task = task
      | BadIdentity task request_id \<Rightarrow> True
      | AcquireBody task rq request_id \<Rightarrow> py_strip task = task \<and> (\<forall>g. req_git rq = Some g \<longrightarrow> git_ok g)
          \<and> (\<forall>i. req_identity rq = Some i \<longrightarrow> identity_parsed i))"

lemma map_sum_Inr: "map_sum f g x = Inr y \<longleftrightarrow> (\<exists>v. x = Inr v \<and> y = g v)"
  by (cases x) auto

lemma identity_parsed_optional: "parse_optional_claim_scope_identity d = Inr (Some i) \<Longrightarrow> identity_parsed i"
  by (auto simp: parse_optional_claim_scope_identity_def identity_parsed_def map_sum_Inr
      split: option.splits json.splits)

lemma parse_renewal_ok: "py_strip task = task \<Longrightarrow> parse_renewal task ep data = Inr body \<Longrightarrow> body_ok body"
  by (cases ep) (auto simp: parse_renewal_def sum_bind_Inr body_ok_def split: if_splits)

lemma parse_acquisition_ok:
  assumes "py_strip task = task" and "parse_acquisition quota task data = Inr body"
  shows "body_ok body"
proof (cases "parse_optional_claim_scope_identity data")
  case (Inl e)
  then show ?thesis using assms by (auto simp: parse_acquisition_def sum_bind_Inr body_ok_def)
next
  case (Inr ident)
  have "git_ok g" if "(case get_field data ''git'' of JObject d \<Rightarrow> Some (git_from_dict d) | _ \<Rightarrow> None) = Some g" for g
    using that by (auto simp: git_from_dict_ok split: json.splits)
  then show ?thesis using assms identity_parsed_optional [of data] Inr
    by (auto simp: parse_acquisition_def sum_bind_Inr body_ok_def simp del: json.case)
qed

lemma parse_claim_ok: "parse_claim quota data = Inr body \<Longrightarrow> body_ok body"
  using parse_renewal_ok [OF py_strip_idem] parse_acquisition_ok [OF py_strip_idem]
  by (auto simp: parse_claim_def sum_bind_Inr split: option.splits)

lemma apply_claim_call:
  assumes "body_ok body" and "apply_claim ts claimant body s = (s', app)"
  shows "s' = fst (run_journaled (call_of_claim ts claimant body s) s)
    \<and> snd (run_journaled (call_of_claim ts claimant body s) s)
        = (case ca_claim app of Some c \<Rightarrow> [record_claim_snapshot ''claim'' c] | None \<Rightarrow> [])"
  using assms
  by (cases body)
    (auto simp: body_ok_def snapshot_row_def refused_claim_def applied_claim_def split: prod.splits sum.splits option.splits)

lemma claim_async_calls:
  assumes "apply_claim_async env mx claimant quota data = Inr rq"
    and "claimant \<noteq> []" and "env_now env \<le> now"
  shows "journaled_calls now (rq\<lparr>rq_key := key\<rparr>)"
proof -
  let ?rq = "rq\<lparr>rq_key := key\<rparr>"
  from assms(1) obtain body wt ps where body: "parse_claim quota data = Inr body"
    and rq: "rq = \<lparr>rq_sender = claimant, rq_key = None,
            rq_mutate = (\<lambda>s. let (s', app) = apply_claim (env_now env) claimant body s in (s', ClaimResult app)),
            rq_prepare = prepare_claim env,
            rq_persist = claim_rows claimant wt (normalize_paths ps (Some mx))\<rparr>"
    by (auto simp: apply_claim_async_def sum_bind_Inr)
  note ok = parse_claim_ok [OF body]
  have "makes_calls ?rq (call_of_claim (env_now env) claimant body) s" for s
  proof -
    obtain s' app where run: "apply_claim (env_now env) claimant body s = (s', app)" by fastforce
    note A = apply_claim_call [OF ok run]
    have mut: "rq_mutate rq s = (s', ClaimResult app)" by (simp add: rq run)
    show ?thesis
    proof (cases "ca_claim app")
      case None
      then have "request_rows ?rq (ClaimResult app) = [claim_denial_row claimant (ca_task_id app) (ca_reason_code app) wt
          (normalize_paths ps (Some mx))]"
        by (simp add: request_rows_def rq prepare_claim_def claim_rows_def split: option.splits)
      then show ?thesis using A None by (simp add: makes_calls_def mut inert_denial)
    next
      case (Some c)
      then have "request_rows ?rq (ClaimResult app) = [record_claim_snapshot ''claim'' c]"
        by (simp add: request_rows_def rq prepare_claim_def claim_rows_def plain_draft_def split: option.splits)
      then show ?thesis using A Some by (simp add: makes_calls_def mut)
    qed
  qed
  moreover have "list_all (call_ok now) (call_of_claim (env_now env) claimant body s)" for s
    using ok assms(2,3) by (cases body) (auto simp: body_ok_def)
  ultimately show ?thesis unfolding journaled_calls_def by blast
qed

lemma claim_verb_calls:
  assumes "claim_verb env mx sender quota data = Inr rq"
    and "sender \<noteq> []" and "env_now env \<le> now"
  shows "journaled_calls now rq"
  using assms claim_async_calls by (auto simp: claim_verb_def sum_bind_Inr)

text \<open>A claim another hub forwarded is an unkeyed claim.\<close>

lemma forwarded_claim_calls:
  assumes "apply_claim_async env mx claimant quota data = Inr rq"
    and "claimant \<noteq> []" and "env_now env \<le> now"
  shows "journaled_calls now rq"
proof -
  have "rq\<lparr>rq_key := None\<rparr> = rq" using assms(1) by (auto simp: apply_claim_async_def sum_bind_Inr)
  then show ?thesis using claim_async_calls [OF assms, of None] by simp
qed

text \<open>The verbs of an owner: update, checkpoint and handoff.\<close>

lemma owner_calls:
  assumes mut: "\<And>s. rq_mutate rq s = owner_result task (run s)" and op: "\<And>s. run_op (op s) s = fst (run s)"
    and rows: "\<And>s. rows_of (op s) s = snapshot_row kind task (run s)"
    and draft: "rq_prepare rq = prepare_owner draft"
    and evs: "\<And>text c. \<exists>extra. list_all inert_row extra \<and> od_events (draft text c) = record_claim_snapshot kind c # extra"
    and persist: "rq_persist rq = claim_snapshot_rows kind"
    and ok: "\<And>s. call_ok now (op s)"
  shows "journaled_calls now rq"
proof (rule one_callI [OF _ _ ok])
  show "fst (rq_mutate rq s) = run_op (op s) s" for s
    by (auto simp: mut op owner_result_def split: prod.splits sum.splits)
  fix s
  obtain s' r where run: "run s = (s', r)" by fastforce
  show "\<exists>extra. list_all inert_row extra \<and> request_rows rq (snd (rq_mutate rq s)) = rows_of (op s) s @ extra"
  proof (cases "\<exists>m c. r = Inr m \<and> dget (claims s') task = Some c")
    case True
    then obtain m c where r: "r = Inr m" "dget (claims s') task = Some c" by blast
    obtain extra where "list_all inert_row extra" "od_events (draft (render_msg m) c) = record_claim_snapshot kind c # extra"
      using evs by blast
    then have "\<exists>extra. list_all inert_row extra
        \<and> request_rows rq (OwnerResult True (render_msg m) (Some c)) = record_claim_snapshot kind c # extra"
      by (cases "rq_key rq")
        (auto simp: request_rows_def draft prepare_owner_def persist claim_snapshot_rows_def)
    then show ?thesis by (simp add: mut op rows run r owner_result_def snapshot_row_def)
  next
    case False
    then have "rows_of (op s) s = []" and "request_rows rq (snd (rq_mutate rq s)) = []"
      by (auto simp: rows mut run owner_result_def snapshot_row_def request_rows_def draft prepare_owner_def persist
          claim_snapshot_rows_def split: sum.splits option.splits)
    then show ?thesis by simp
  qed
qed

lemma update_verb_calls:
  assumes "task_update_verb env sender data = Inr rq"
    and "env_now env \<le> now"
  shows "journaled_calls now rq"
proof -
  from assms(1) obtain raw st nt dr key where rq: "rq = \<lparr>rq_sender = sender, rq_key = key,
            rq_mutate = (\<lambda>s. owner_result (py_strip raw)
              (update_task sender (py_strip raw) st nt dr (optional_int_field data ''epoch'')
                 (optional_int_field data ''expected_version'') (env_now env) s)),
            rq_prepare = prepare_owner (\<lambda>text c.
              plain_draft (task_updated_frame env sender (py_strip raw) text c) [record_claim_snapshot ''task_update'' c]
                (family ''task_update'' ''task_updated'')),
            rq_persist = claim_snapshot_rows ''task_update''\<rparr>"
    by (auto simp: task_update_verb_def Let_def sum_bind_Inr)
  show ?thesis
    by (rule owner_calls [where op = "\<lambda>s. Update sender (py_strip raw) st nt dr
          (optional_int_field data ''epoch'') (optional_int_field data ''expected_version'') (env_now env)"])
      (simp add: rq plain_draft_def inert_progress assms(2))+
qed

lemma checkpoint_verb_calls:
  assumes "checkpoint_verb env sender data = Inr rq"
    and "env_now env \<le> now"
  shows "journaled_calls now rq"
proof -
  from assms(1) obtain raw token key where rq: "rq = \<lparr>rq_sender = sender, rq_key = key,
            rq_mutate = (\<lambda>s. owner_result (py_strip raw)
              (save_checkpoint sender (py_strip raw) token (optional_int_field data ''epoch'') (env_now env) s)),
            rq_prepare = prepare_owner (\<lambda>text c.
              plain_draft (checkpoint_saved_frame env sender (py_strip raw) text c) [record_claim_snapshot ''checkpoint'' c]
                (family ''checkpoint'' ''checkpoint_saved'')),
            rq_persist = claim_snapshot_rows ''checkpoint''\<rparr>"
    by (auto simp: checkpoint_verb_def Let_def sum_bind_Inr)
  show ?thesis
    by (rule owner_calls [where op = "\<lambda>s. Save sender (py_strip raw) token
          (optional_int_field data ''epoch'') (env_now env)"])
      (simp add: rq plain_draft_def inert_progress assms(2))+
qed

lemma handoff_verb_calls:
  assumes "handoff_verb env sender data = Inr rq"
    and "env_now env \<le> now"
  shows "journaled_calls now rq"
proof -
  from assms(1) obtain raw raw_target nt key where rq: "rq = \<lparr>rq_sender = sender, rq_key = key,
            rq_mutate = (\<lambda>s. owner_result (py_strip raw)
              (handoff sender (py_strip raw) (py_strip raw_target) nt (optional_int_field data ''epoch'') (env_now env) s)),
            rq_prepare = prepare_owner (\<lambda>text c.
              plain_draft (handoff_granted_frame env sender (py_strip raw) text c)
                [record_claim_snapshot ''handoff'' c,
                 record_ledger_progress (handoff_note env sender (py_strip raw) (py_strip raw_target) (claim_note c))]
                [(''family'', JString ''handoff''),
                 (''progress'', JObject [(''task_id'', JString (py_strip raw)), (''from_agent'', JString sender),
                    (''to_agent'', JString (py_strip raw_target)), (''context'', JString (claim_note c))])]),
            rq_persist = claim_snapshot_rows ''handoff''\<rparr>"
    by (auto simp: handoff_verb_def Let_def sum_bind_Inr)
  show ?thesis
    by (rule owner_calls [where op = "\<lambda>s. Handoff sender (py_strip raw) (py_strip raw_target) nt
          (optional_int_field data ''epoch'') (env_now env)"])
      (simp add: rq plain_draft_def inert_progress assms(2))+
qed

lemma release_verb_calls:
  assumes "release_verb env sender data = Inr rq"
    and "env_now env \<le> now"
  shows "journaled_calls now rq"
proof -
  from assms(1) obtain raw key receipt binding where rq: "rq = \<lparr>rq_sender = sender, rq_key = key,
            rq_mutate = (\<lambda>s. case release sender (py_strip raw) (optional_int_field data ''epoch'') (env_now env) s of
                (s', Inl m) \<Rightarrow> (s', ReleaseResult False (render_msg m))
              | (s', Inr m) \<Rightarrow> (s', ReleaseResult True (render_msg m))),
            rq_prepare = prepare_release env sender (py_strip raw) receipt binding,
            rq_persist = release_rows (py_strip raw)\<rparr>"
    by (auto simp: release_verb_def Let_def sum_bind_Inr)
  let ?op = "Release sender (py_strip raw) (optional_int_field data ''epoch'') (env_now env)"
  show ?thesis
  proof (rule one_callI [where op = "\<lambda>s. ?op"])
    show "fst (rq_mutate rq s) = run_op ?op s" for s
      by (auto simp: rq split: prod.splits sum.splits)
    fix s
    obtain s' r where run: "release sender (py_strip raw) (optional_int_field data ''epoch'') (env_now env) s = (s', r)"
      by fastforce
    show "\<exists>extra. list_all inert_row extra \<and> request_rows rq (snd (rq_mutate rq s)) = rows_of ?op s @ extra"
      by (cases r; cases key) (auto simp: rq run request_rows_def prepare_release_def release_rows_def plain_draft_def
          inert_progress)
  qed (simp add: assms(2))
qed

text \<open>
  The claims of holders that stay away are released first: every one of them is found, so its row
  is true.
\<close>

lemma force_release_plain:
  "tidy s \<Longrightarrow> dget (claims s) task = Some c \<Longrightarrow>
   force_release task who s = (drop_claim task s, Inr (OperatorReleased task who (owner c)))"
  by (auto simp: force_release_def tidy_def plain_name_def protected_task_held_def)

lemma release_all_rows:
  "tidy s \<Longrightarrow> distinct (map fst items) \<Longrightarrow> \<forall>x \<in> set items. dget (claims s) (fst x) \<noteq> None \<Longrightarrow>
   snd (run_journaled (map (\<lambda>(task, who, away). ForceRelease task actor) items) s)
     = map (\<lambda>(task, who, away). record_release task) items"
proof (induction items arbitrary: s)
  case (Cons x items)
  obtain task who away where x: "x = (task, who, away)" by (cases x) auto
  from Cons.prems(3) obtain c where c: "dget (claims s) task = Some c" by (auto simp: x)
  have rel: "force_release task actor s = (drop_claim task s, Inr (OperatorReleased task actor (owner c)))"
    by (rule force_release_plain [OF Cons.prems(1) c])
  have strip: "py_strip task = task" using Cons.prems(1) c by (auto simp: tidy_def plain_name_def)
  have "\<forall>y \<in> set items. dget (claims (drop_claim task s)) (fst y) \<noteq> None"
    using Cons.prems(2,3) by (force simp: x drop_claim_def)
  with Cons.IH [OF tidy_drop [OF Cons.prems(1)]] Cons.prems(2) show ?case
    by (simp add: x rel strip split_beta)
qed simp

lemma abandoned_claims_found:
  assumes "dict_ok cs"
  shows "distinct (map fst (abandoned_claims cs hp online now))
    \<and> (\<forall>x \<in> set (abandoned_claims cs hp online now). dget cs (fst x) \<noteq> None)"
proof -
  let ?f = "\<lambda>(task, c). (case offline_seconds hp (owner c) (owner c \<in> set online) now of
      Some away \<Rightarrow> (if hp_window hp \<le> away then Some (task, owner c, away) else None) | None \<Rightarrow> None)"
  have keys: "map fst (List.map_filter ?f ds) = map fst (filter (\<lambda>x. ?f x \<noteq> None) ds)" for ds :: claim_dict
    by (induction ds) (auto simp: List.map_filter_simps split: option.splits if_splits)
  have sub: "distinct (map fst (List.map_filter ?f ds)) \<and> set (map fst (List.map_filter ?f ds)) \<subseteq> fst ` set ds"
    if "distinct (map fst ds)" for ds :: claim_dict
    unfolding keys using that by (auto intro: distinct_map_filter)
  have "distinct (map fst cs)" using assms by (simp add: dict_ok_def)
  then have d: "distinct (map fst (sort_key fst cs))"
    by (metis distinct_map distinct_sort set_sort sort_key_def)
  have "dget cs (fst x) \<noteq> None" if "x \<in> set (abandoned_claims cs hp online now)" for x
    using that sub [OF d] by (auto simp: abandoned_claims_def map_of_eq_None_iff)
  then show ?thesis using sub [OF d] by (simp add: abandoned_claims_def)
qed

lemma abandoned_calls: "journaled_calls now (abandoned_verb hp online tick)"
  unfolding journaled_calls_def
proof (intro exI allI impI conjI)
  let ?ops = "\<lambda>s. map (\<lambda>(task, who, away). ForceRelease task HOLDER_OFFLINE_ACTOR) (abandoned_claims (claims s) hp online tick)"
  fix s assume wf: "wf_state s" and t: "tidy s"
  let ?found = "abandoned_claims (claims s) hp online tick"
  note F = abandoned_claims_found [OF wf_stateD(1) [OF wf], of hp online tick]
  have "release_each items s = fold run_op (map (\<lambda>(task, who, away). ForceRelease task HOLDER_OFFLINE_ACTOR) items) s" for items
    by (induction items arbitrary: s) (auto simp: release_each_def)
  then have "release_each ?found s = fold run_op (?ops s) s" .
  moreover have "snd (run_journaled (?ops s) s) = map (\<lambda>(task, who, away). record_release task) ?found"
    by (rule release_all_rows) (use t F in auto)
  ultimately show "makes_calls (abandoned_verb hp online tick) ?ops s"
    by (simp add: makes_calls_def abandoned_verb_def request_rows_def run_journaled_fold Let_def)
  show "list_all (call_ok now) (?ops s)" by (auto simp: list_all_iff)
qed

text \<open>
  The requests the handlers make by \<open>now\<close>: of a named sender, from a frame that was admitted, or
  the release of abandoned claims.
\<close>

definition lease_requests :: "time \<Rightarrow> lease_request \<Rightarrow> bool" where
  "lease_requests now rq \<longleftrightarrow>
     (\<exists>hp online tick. rq = abandoned_verb hp online tick)
     \<or> (\<exists>env mx claimant quota data. claimant \<noteq> [] \<and> env_now env \<le> now
        \<and> apply_claim_async env mx claimant quota data = Inr rq)
     \<or> (\<exists>env mx require online verb sender quota data. sender \<noteq> [] \<and> env_now env \<le> now
        \<and> admit_frame env mx require online verb sender quota data = Inr (Inr rq))"

lemma lease_request_lawful:
  assumes "lease_requests now rq"
  shows "lawful_request (explains_registry now (hub_limits a b c d) bd) rq"
proof -
  have "journaled_calls now rq \<and> (\<forall>r. cut_safe (rq_persist rq r))"
  proof (cases "(\<exists>hp online tick. rq = abandoned_verb hp online tick)
      \<or> (\<exists>env mx claimant quota data. claimant \<noteq> [] \<and> env_now env \<le> now
          \<and> apply_claim_async env mx claimant quota data = Inr rq)")
    case True
    then show ?thesis using abandoned_calls forwarded_claim_calls request_cut_safe(2,3) by metis
  next
    case False
    with assms obtain env mx require online verb sender quota data where env: "sender \<noteq> []" "env_now env \<le> now"
      and "admit_frame env mx require online verb sender quota data = Inr (Inr rq)" unfolding lease_requests_def by metis
    then have rq: "verb_request env mx verb sender quota data = Inr rq"
      by (auto simp: admit_frame_def sum_bind_Inr split: if_splits)
    then have "journaled_calls now rq"
      using env claim_verb_calls update_verb_calls release_verb_calls handoff_verb_calls checkpoint_verb_calls
      by (cases verb) (simp_all add: verb_request_def)
    then show ?thesis using request_cut_safe(1) [OF rq] by blast
  qed
  then show ?thesis using journaled_lawful by blast
qed

text \<open>
  C3: The lease verbs survive failed appends, retries, crashes and restarts.  Start a hub with no
  claims and run its actor on any frames of the five lease verbs, keyed or not, on claims other
  hubs forwarded, and on releases of abandoned claims, with duplicates
  answered while another frame holds the lock, appends the disk refuses, rows of other features
  written in between, sweeps of expired leases, and restarts from the log at any point (a crash
  before, after or in the middle of the append included).  Then replaying the log that is on disk
  never fails, it rebuilds the epoch counter of the live registry, and task by task it rebuilds
  the claim and the retained checkpoint the live registry has once leases expired by then are swept.  The
  only tasks it may lack are those with a release left in the log by an append that failed since the
  last restart: each release of a sweep of abandoned claims is a transaction of its own, and a sweep
  whose second append fails has released the first claim in the log and none in the registry.
\<close>

theorem lease_verbs_survive_crashes:
  assumes "actor_run (lease_requests now) (registry_sweeps now) inert_row
      (registry_restores now (hub_limits a b c d) bd) (hub_limits a b c d) ls ac"
  shows "\<exists>ctx. replay (hub_limits a b c d) bd now None None (st_rows (ac_store ac)) = Inr ctx
    \<and> epoch_seq (rc_state ctx) = epoch_seq (ac_subject ac)
    \<and> (\<forall>k. dget (claims (rc_state ctx)) k = dget (claims (expire_claims now (ac_subject ac))) k
           \<and> dget (expired_checkpoints (rc_state ctx)) k = dget (expired_checkpoints (expire_claims now (ac_subject ac))) k
         \<or> record_release k \<in> set (lost_rows ls)
           \<and> dget (claims (rc_state ctx)) k = None \<and> dget (expired_checkpoints (rc_state ctx)) k = None)"
proof -
  have "tidy (hub_limits a b c d)" by (simp add: tidy_def hub_limits_def init_state_def)
  then have start: "explains_registry now (hub_limits a b c d) bd [] [] (hub_limits a b c d)"
    using replays_start [of _ now a b c d bd] wf_init by (simp add: explains_registry_def rows_persistable_def hub_limits_def)
  have "explains_registry now (hub_limits a b c d) bd (lost_rows ls) (st_rows (ac_store ac)) (ac_subject ac)"
    by (rule registry_log.run_explained [OF assms start lease_request_lawful])
  then obtain ctx where "wf_state (ac_subject ac)"
    and "apply_events (st_rows (ac_store ac)) (initial_context (hub_limits a b c d) bd) = Inr ctx"
    and "replays (released_tasks (lost_rows ls)) now (ac_subject ac) ctx"
    by (auto simp: explains_registry_def)
  from replay_of_replays_but [OF this(2,3,1)] show ?thesis by (simp add: released_tasks_def)
qed

text \<open>A claim of one path, appended and published.\<close>

definition demo_env :: hub_env where
  "demo_env = \<lparr>env_now = 0, env_hub_id = ''h'', env_float_text = \<lambda>t. []\<rparr>"

definition claim_frame_T :: json_object where
  "claim_frame_T = [(''task_id'', JString ''T''), (''paths'', JList [JString ''src''])]"

definition hub_of_T :: synapse_state where
  "hub_of_T = run_op (Claim ''a'' ''T'' (plain_request [''src'']) 0) (small_hub 2)"

lemma hub_of_T_owner: "map_option owner (dget (claims (expire_claims 2 hub_of_T)) ''T'') = Some ''a''"
  unfolding hub_of_T_def by code_simp

lemma parse_claim_T: "parse_claim None claim_frame_T = Inr (AcquireBody ''T'' (plain_request [''src'']) [])"
  by code_simp

lemma claim_frame_T_texts: "text_field claim_frame_T ''worktree'' = Inr []" "frame_paths claim_frame_T = Inr [''src'']"
  "idempotency_key claim_frame_T = Inr []" "lease_task_id ClaimVerb claim_frame_T = Inr ''T''"
  by code_simp+

lemma demo_lease_run:
  obtains ls ac where "actor_run (lease_requests 2) (registry_sweeps 2) inert_row restores (small_hub 2) ls ac"
    and "ac_subject ac = hub_of_T" and "lost_rows ls = []"
proof -
  obtain rq where rq: "claim_verb demo_env 8 ''a'' None claim_frame_T = Inr rq" "rq_key rq = None"
    "\<And>s. fst (rq_mutate rq s) = run_op (Claim ''a'' ''T'' (plain_request [''src'']) 0) s"
    by (auto simp: claim_verb_eq parse_claim_T claim_frame_T_texts operation_identity_def demo_env_def Let_def
        split: prod.splits sum.splits)
  have "admit_frame demo_env 8 False [] ClaimVerb ''a'' None claim_frame_T = Inr (Inr rq)"
    by (simp add: admit_frame_def claim_frame_T_texts refuse_unfenced_def verb_request_def rq del: lease_task_id.simps)
  then have admitted: "lease_requests 2 rq" unfolding lease_requests_def
    by (intro disjI2 exI [of _ demo_env] exI conjI) (auto simp: demo_env_def)
  let ?a0 = "fresh_actor (small_hub 2) :: (synapse_state, lease_result) actor"
  let ?p = "\<lparr>pd_request = rq, pd_candidate = fst (rq_mutate rq (small_hub 2)), pd_result = snd (rq_mutate rq (small_hub 2))\<rparr>"
  let ?a1 = "?a0\<lparr>ac_pending := Some ?p\<rparr>"
  let ?st = "append_rows (rq_persist rq (pd_result ?p)) (ac_store ?a0)"
  let ?a2 = "?a0\<lparr>ac_store := ?st, ac_subject := pd_candidate ?p\<rparr>"
  let ?ex = "\<lparr>ex_outcome = Uncommitted, ex_mutation = Some (pd_result ?p), ex_response = None\<rparr>"
  let ?run = "actor_run (lease_requests 2) (registry_sweeps 2) inert_row restores (small_hub 2)"
  have start: "atomic_begin rq ?a0 = (?a1, None)"
    by (simp add: atomic_begin_def rq(2) Let_def case_prod_unfold fresh_actor_def)
  have finish: "atomic_finish (length (rq_persist rq (pd_result ?p))) ?a1 = (?a2, Inr ?ex)"
    by (simp add: atomic_finish_def pending_append_def plain_append_def rq(2) Let_def fresh_actor_def)
  have "?run ([] @ [Silent]) ?a1"
    by (rule actor_run.extend [OF actor_run.fresh], rule actor_step.started [OF _ _ start]) (simp_all add: fresh_actor_def admitted)
  then have "?run (([] @ [Silent]) @ [reply_label (pd_request ?p) ?ex]) ?a2"
    by (rule actor_run.extend) (rule actor_step.finished [OF _ finish], simp)
  then show thesis by (rule that) (simp_all add: rq(3) hub_of_T_def lost_rows_def)
qed

theorem lease_verbs_survive_crashes_witness:
  "\<exists>ls ac ctx. actor_run (lease_requests 2) (registry_sweeps 2) inert_row
        (registry_restores 2 (small_hub 2) (init_board 9 9 9)) (small_hub 2) ls ac
     \<and> replay (small_hub 2) (init_board 9 9 9) 2 None None (st_rows (ac_store ac)) = Inr ctx
     \<and> map_option owner (dget (claims (rc_state ctx)) ''T'') = Some ''a''"
proof -
  obtain ls ac where run: "actor_run (lease_requests 2) (registry_sweeps 2) inert_row
      (registry_restores 2 (small_hub 2) (init_board 9 9 9)) (small_hub 2) ls ac" and at: "ac_subject ac = hub_of_T" "lost_rows ls = []"
    by (rule demo_lease_run)
  moreover obtain ctx where "replay (small_hub 2) (init_board 9 9 9) 2 None None (st_rows (ac_store ac)) = Inr ctx"
    "dget (claims (rc_state ctx)) ''T'' = dget (claims (expire_claims 2 (ac_subject ac))) ''T''"
    using lease_verbs_survive_crashes [OF run [unfolded small_hub_def hub_limits_def [symmetric]]]
    by (auto simp: small_hub_def hub_limits_def at(2))
  ultimately show ?thesis using run hub_of_T_owner at(1) by (intro exI conjI) (assumption | simp)+
qed

end
