(* ===== verification/Leasing_Properties.thy ===== *)
theory Leasing_Properties
  imports Leasing_Journal
begin

text \<open>
  What the lease verbs promise beside surviving crashes: the verdict of a claim is the state of the
  registry, an unfenced mutation is refused where fencing is required, and the release of
  abandoned claims takes the claims of absent holders and no others; and two ways the log of that
  release and the registry part.
\<close>

section \<open>The verdict of a claim\<close>

text \<open>A claim is as it was, or was swept because its lease ran out.\<close>

definition kept_or_swept :: "time \<Rightarrow> claim_dict \<Rightarrow> claim_dict \<Rightarrow> string \<Rightarrow> bool" where
  "kept_or_swept ts cs cs' k \<longleftrightarrow>
     dget cs' k = dget cs k \<or> (\<exists>c. dget cs k = Some c \<and> lease_expires_at c \<le> ts \<and> dget cs' k = None)"

lemma kept_same [simp]: "kept_or_swept ts cs cs k"
  by (simp add: kept_or_swept_def)

lemma kept_heartbeat: "wf_state s \<Longrightarrow> kept_or_swept ts (claims s) (claims (heartbeat agent ts s)) k"
  by (cases "dget (claims s) k") (auto simp: kept_or_swept_def claims_heartbeat dget_live_claims wf_stateD(1))

lemma kept_dset: "k \<noteq> t \<Longrightarrow> kept_or_swept ts cs cs' k \<Longrightarrow> kept_or_swept ts cs (dset t c cs') k"
  by (simp add: kept_or_swept_def)

definition verdict_true :: "time \<Rightarrow> string \<Rightarrow> synapse_state \<Rightarrow> synapse_state \<Rightarrow> claim_application \<Rightarrow> bool" where
  "verdict_true ts sender s s' app \<longleftrightarrow>
     (case ca_claim app of
        Some c \<Rightarrow> ca_ok app \<and> dget (claims s') (ca_task_id app) = Some c \<and> owner c = sender
          \<and> (\<forall>k. k \<noteq> ca_task_id app \<longrightarrow> kept_or_swept ts (claims s) (claims s') k)
      | None \<Rightarrow> \<not> ca_ok app \<and> ca_reason_code app \<noteq> [] \<and> (\<forall>k. kept_or_swept ts (claims s) (claims s') k))"

lemma denial_reason_given: "claim_denial_reason m \<noteq> []"
  by (simp add: claim_denial_reason_def)

lemma claim_verdict:
  assumes wf: "wf_state s" and task: "py_strip task = task"
    and run: "apply_claim ts sender (AcquireBody task rq rid) s = (s', app)"
  shows "verdict_true ts sender s s' app"
proof (cases rule: claim_cases [of sender task rq ts s, case_names inv ref granted])
  case (granted h t ps prin)
  have t: "t = task" using granted(2) task by simp
  let ?c = "granted_claim sender t rq prin (claim_ttl (req_ttl rq) s) ps ts h"
  have s': "s' = grant_claim sender t rq prin (claim_ttl (req_ttl rq) s) ps (dget (claims h) t) ts h"
    using run granted(6) by (simp split: prod.splits sum.splits)
  have app: "app = applied_claim (render_msg (Claimed t sender)) task (Some ?c) [] rid"
    using run granted(6) grant_claim_stores(1) by (simp add: t split: prod.splits sum.splits)
  have "kept_or_swept ts (claims s) (claims s') k" if "k \<noteq> task" for k
    using that kept_dset [OF _ kept_heartbeat [OF wf]] grant_claim_stores(1) granted(1)
    by (simp add: s' t grant_claim_def Let_def split_beta)
  then show ?thesis using grant_claim_stores(1)
    by (simp add: verdict_true_def app applied_claim_def s' t granted_claim_fields)
qed (use run kept_heartbeat [OF wf] in \<open>auto simp: verdict_true_def refused_claim_def denial_reason_given\<close>)

lemma renewal_verdict:
  assumes wf: "wf_state s" and task: "py_strip task = task"
    and run: "apply_claim ts sender (RenewalBody task ep ps rid) s = (s', app)"
  shows "verdict_true ts sender s s' app"
proof (cases rule: renew_claim_cases [of sender task ep "normalize_paths ps (Some (max_paths_per_claim s))" ts s,
    case_names ref granted])
  case (granted h t c)
  have t: "t = task" using granted(2) task by simp
  have "wf_state h" unfolding granted(1) by (rule wf_heartbeat [OF wf])
  then have id: "task_id c = task" using wf_stateD(6) [of h, OF _ granted(3)] by (simp add: claim_ok_def t)
  let ?c = "post_init (c\<lparr>claimed_at := ts, lease_expires_at := ts + (lease_expires_at c - claimed_at c)\<rparr>)"
  have c: "task_id ?c = task" "owner ?c = sender" using id granted(4) by (simp_all add: post_init_def)
  have s': "s' = store_claim ?c h" and app: "app = applied_claim (render_msg (Renewed t sender)) task (Some ?c) rid []"
    using run granted(8) c(1) by (simp_all split: prod.splits sum.splits)
  show ?thesis using c kept_dset [OF _ kept_heartbeat [OF wf]]
    by (simp add: verdict_true_def app applied_claim_def s' granted(1))
qed (use run kept_heartbeat [OF wf] in \<open>auto simp: verdict_true_def refused_claim_def\<close>)

text \<open>
  The verdict of a claim frame is what the registry says.  When the verb reports a grant, the
  claim it reports (and broadcasts, and journals) is the one the new registry stores under that
  task and its owner is the sender; every other claim is untouched, or was swept because its lease
  had run out.  When it reports a denial there is a reason code and no claim changed but by that
  sweep.  This holds for fresh claims, for epoch-guarded renewals and for frames that are refused
  before the registry is asked.
\<close>

theorem claim_verdict_exact:
  assumes "wf_state s" and "claim_verb env mx sender quota data = Inr rq"
    and "rq_mutate rq s = (s', ClaimResult app)"
  shows "verdict_true (env_now env) sender s s' app"
proof -
  from assms(2) obtain body where body: "parse_claim quota data = Inr body"
    and mut: "rq_mutate rq = (\<lambda>s. let (s', app) = apply_claim (env_now env) sender body s in (s', ClaimResult app))"
    by (auto simp: claim_verb_eq sum_bind_Inr)
  have ok: "body_ok body" by (rule parse_claim_ok [OF body])
  have run: "apply_claim (env_now env) sender body s = (s', app)"
    using assms(3) by (simp add: mut split: prod.splits)
  show ?thesis
  proof (cases body)
    case (BadRenewal task rid)
    then show ?thesis using run by (auto simp: verdict_true_def refused_claim_def)
  next
    case (BadIdentity task rid)
    then show ?thesis using run by (auto simp: verdict_true_def refused_claim_def)
  next
    case (RenewalBody task ep ps rid)
    then show ?thesis using renewal_verdict [OF assms(1) _ run [unfolded RenewalBody]] ok by (simp add: body_ok_def)
  next
    case (AcquireBody task crq rid)
    then show ?thesis using claim_verdict [OF assms(1) _ run [unfolded AcquireBody]] ok by (simp add: body_ok_def)
  qed
qed

theorem claim_verdict_exact_witness:
  "\<exists>rq s' app. claim_verb demo_env 8 ''a'' None claim_frame_T = Inr rq
     \<and> rq_mutate rq (small_hub 2) = (s', ClaimResult app) \<and> verdict_true 0 ''a'' (small_hub 2) s' app"
proof -
  obtain rq where rq: "claim_verb demo_env 8 ''a'' None claim_frame_T = Inr rq"
    and mut: "rq_mutate rq = (\<lambda>s. let (s', app) = apply_claim 0 ''a'' (AcquireBody ''T'' (plain_request [''src'']) []) s
                              in (s', ClaimResult app))"
    by (auto simp: claim_verb_eq parse_claim_T claim_frame_T_texts operation_identity_def demo_env_def)
  obtain s' app where run: "rq_mutate rq (small_hub 2) = (s', ClaimResult app)"
    by (cases "apply_claim 0 ''a'' (AcquireBody ''T'' (plain_request [''src'']) []) (small_hub 2)")
      (simp add: mut del: apply_claim.simps)
  have "wf_state (small_hub 2)" by (simp add: small_hub_def wf_init)
  from claim_verdict_exact [OF this rq run] rq run show ?thesis by (auto simp: demo_env_def)
qed

text \<open>The reason code is read off the text, and a task may be named like a reason.\<close>

lemma denial_reason_misread:
  "claim_denial_reason (render_msg (AlreadyClaimed ''path identity'' ''b'')) = ''PATH_IDENTITY_INVALID''"
  by code_simp

section \<open>Fencing\<close>

text \<open>
  A hub that requires fencing lets no unfenced mutation through.  With
  \<open>require_fencing_epoch\<close> set, a task update, release, handoff or checkpoint frame whose epoch is
  missing or not an integer never becomes a request of the actor, whatever else it holds: its
  sender gets the refusal frame of that verb (or, when the frame cannot even be read, the model
  stops).  A request of the actor therefore carries an epoch, which the registry then checks.
\<close>

theorem unfenced_mutations_refused:
  assumes "optional_int_field data ''epoch'' = None" and "verb \<noteq> ClaimVerb"
  shows "case admit_frame env mx True online verb sender quota data of
      Inr (Inr rq) \<Rightarrow> False
    | Inr (Inl reply) \<Rightarrow> dget reply ''type'' = Some (JString (refusal_type verb))
        \<and> dget reply ''target'' = Some (JString sender)
    | Inl e \<Rightarrow> True"
proof -
  have frame: "dget (unfenced_frame env verb sender task binding) ''type'' = Some (JString (refusal_type verb))
      \<and> dget (unfenced_frame env verb sender task binding) ''target'' = Some (JString sender)"
    if "verb = ReleaseVerb \<longrightarrow> release_reply_binding env data = Inr binding" for task binding
  proof (cases "verb = ReleaseVerb")
    case True
    then have "set (map fst binding) \<subseteq> {''release_operation_id'', ''request_digest''}"
      using that by (auto simp: release_reply_binding_def split: json.splits if_splits option.splits)
    then have "dget (fold (\<lambda>(k, v). dset k v) binding d) ''type'' = dget d ''type''
        \<and> dget (fold (\<lambda>(k, v). dset k v) binding d) ''target'' = dget d ''target''" for d
      by (induction binding arbitrary: d) auto
    then show ?thesis using True by (simp add: unfenced_frame_def system_message_def)
  qed (simp add: unfenced_frame_def system_message_def)
  show ?thesis
  proof (cases "lease_task_id verb data")
    case (Inr raw)
    let ?bind = "if verb = ReleaseVerb then release_reply_binding env data else Inr []"
    have "admit_frame env mx True online verb sender quota data
        = sum_bind ?bind (\<lambda>binding. Inr (Inl (unfenced_frame env verb sender (py_strip raw) binding)))"
      using assms Inr by (simp add: admit_frame_def refuse_unfenced_def)
    then show ?thesis using frame by (cases ?bind) (auto split: if_splits)
  qed (simp add: admit_frame_def)
qed

theorem unfenced_mutations_refused_witness:
  "case admit_frame demo_env 8 True [] CheckpointVerb ''a'' None claim_frame_T of
      Inr (Inr rq) \<Rightarrow> False
    | Inr (Inl reply) \<Rightarrow> dget reply ''type'' = Some (JString ''checkpoint_denied'') \<and> dget reply ''target'' = Some (JString ''a'')
    | Inl e \<Rightarrow> True"
proof -
  have e: "optional_int_field claim_frame_T ''epoch'' = None" by code_simp
  have v: "CheckpointVerb \<noteq> ClaimVerb" by simp
  from unfenced_mutations_refused [OF e v, where env = demo_env and mx = 8
      and online = "[]" and sender = "''a''" and quota = None] show ?thesis by (simp only: refusal_type.simps)
qed

section \<open>Abandoned claims\<close>

text \<open>The holder is away and has been for the whole window.\<close>

definition long_gone :: "holder_presence \<Rightarrow> string list \<Rightarrow> time \<Rightarrow> task_claim \<Rightarrow> bool" where
  "long_gone hp online now c \<longleftrightarrow> owner c \<notin> set online
     \<and> hp_window hp \<le> max 0 (now - (case dget (hp_offline_since hp) (owner c) of Some t \<Rightarrow> t | None \<Rightarrow> hp_started_at hp))"

definition away_for :: "holder_presence \<Rightarrow> time \<Rightarrow> task_claim \<Rightarrow> time" where
  "away_for hp now c = max 0 (now - (case dget (hp_offline_since hp) (owner c) of Some t \<Rightarrow> t | None \<Rightarrow> hp_started_at hp))"

lemma abandoned_filter:
  "abandoned_claims cs hp online now =
     map (\<lambda>(k, c). (k, owner c, away_for hp now c)) (filter (\<lambda>(k, c). long_gone hp online now c) (sort_key fst cs))"
proof -
  have one: "(case offline_seconds hp (owner c) (owner c \<in> set online) now of
       Some away \<Rightarrow> (if hp_window hp \<le> away then Some (k, owner c, away) else None) | None \<Rightarrow> None)
    = (if long_gone hp online now c then Some (k, owner c, away_for hp now c) else None)" for k c
    by (cases "owner c \<in> set online") (simp_all add: offline_seconds_def long_gone_def away_for_def)
  have "List.map_filter (\<lambda>(k, c). (if long_gone hp online now c then Some (k, owner c, away_for hp now c) else None)) ds
    = map (\<lambda>(k, c). (k, owner c, away_for hp now c)) (filter (\<lambda>(k, c). long_gone hp online now c) ds)" for ds
    by (induction ds) (auto simp: List.map_filter_simps)
  then show ?thesis by (simp add: abandoned_claims_def one)
qed

lemma release_each_claims:
  "tidy s \<Longrightarrow> \<forall>x \<in> set items. dget (claims s) (fst x) \<noteq> None \<Longrightarrow> distinct (map fst items) \<Longrightarrow>
   dget (claims (release_each items s)) k = (if k \<in> fst ` set items then None else dget (claims s) k)"
proof (induction items arbitrary: s)
  case (Cons x items)
  obtain task who away where x: "x = (task, who, away)" by (cases x) auto
  from Cons.prems(2) obtain c where c: "dget (claims s) task = Some c" by (auto simp: x)
  have step: "release_each ((task, who, away) # items) s = release_each items (drop_claim task s)"
    by (simp add: release_each_def force_release_plain [OF Cons.prems(1) c])
  have "\<forall>y \<in> set items. dget (claims (drop_claim task s)) (fst y) \<noteq> None"
    using Cons.prems(2,3) by (force simp: x drop_claim_def)
  from Cons.IH [OF tidy_drop [OF Cons.prems(1)] this] Cons.prems(3) show ?case
    by (auto simp: step x drop_claim_def)
qed (simp add: release_each_def)

lemma abandoned_frees:
  assumes "wf_state s" and "tidy s" and "rq_mutate (abandoned_verb hp online now) s = (s', r)"
  shows "dget (claims s') k = (case dget (claims s) k of
      Some c \<Rightarrow> if long_gone hp online now c then None else Some c | None \<Rightarrow> None)"
proof -
  let ?found = "abandoned_claims (claims s) hp online now"
  have ok: "dict_ok (claims s)" by (rule wf_stateD(1) [OF assms(1)])
  note F = abandoned_claims_found [OF ok, of hp online now]
  have s': "s' = release_each ?found s" using assms(3) by (simp add: abandoned_verb_def Let_def)
  have claims: "dget (claims s') k = (if k \<in> fst ` set ?found then None else dget (claims s) k)"
    unfolding s' by (rule release_each_claims [OF assms(2)]) (use F in auto)
  have mem: "(k, c) \<in> set (claims s) \<longleftrightarrow> dget (claims s) k = Some c" for k c using ok by (simp add: dict_mem_iff)
  have "k \<in> fst ` set ?found \<longleftrightarrow> (\<exists>c. dget (claims s) k = Some c \<and> long_gone hp online now c)"
    by (force simp: abandoned_filter mem [symmetric])
  then show ?thesis using claims by (auto split: option.splits)
qed

text \<open>
  The release of abandoned claims is exact.  In a registry without protected custody it frees
  every claim whose holder is disconnected and has been away for at least the lease window
  (counted from its departure, or from the start of the hub when none was recorded), and leaves
  every other claim as it is; the rows it journals are one release per freed claim, in the order
  of the task ids.
\<close>

theorem abandoned_release_exact:
  assumes "wf_state s" and "tidy s" and "rq_mutate (abandoned_verb hp online now) s = (s', r)"
  shows "(\<forall>k. dget (claims s') k = (case dget (claims s) k of
            Some c \<Rightarrow> if long_gone hp online now c then None else Some c | None \<Rightarrow> None))
    \<and> rq_persist (abandoned_verb hp online now) r
        = map record_release (filter (\<lambda>k. dget (claims s') k = None) (map fst (sort_key fst (claims s))))"
proof -
  let ?found = "abandoned_claims (claims s) hp online now"
  have ok: "dict_ok (claims s)" by (rule wf_stateD(1) [OF assms(1)])
  have r: "r = AbandonedResult ?found" using assms(3) by (simp add: abandoned_verb_def Let_def)
  have mem: "(k, c) \<in> set (claims s) \<longleftrightarrow> dget (claims s) k = Some c" for k c using ok by (simp add: dict_mem_iff)
  have "\<And>k. dget (claims s') k = (case dget (claims s) k of
      Some c \<Rightarrow> if long_gone hp online now c then None else Some c | None \<Rightarrow> None)"
    by (rule abandoned_frees [OF assms])
  moreover have "filter (\<lambda>k. dget (claims s') k = None) (map fst (sort_key fst (claims s)))
      = map fst (filter (\<lambda>(k, c). long_gone hp online now c) (sort_key fst (claims s)))"
  proof -
    have "filter ((\<lambda>k. dget (claims s') k = None) \<circ> fst) (sort_key fst (claims s))
        = filter (\<lambda>(k, c). long_gone hp online now c) (sort_key fst (claims s))"
      by (rule filter_cong) (auto simp: calculation mem split: if_splits)
    then show ?thesis by (simp add: filter_map)
  qed
  then have "rq_persist (abandoned_verb hp online now) r
      = map record_release (filter (\<lambda>k. dget (claims s') k = None) (map fst (sort_key fst (claims s))))"
    by (simp add: r abandoned_verb_def abandoned_filter comp_def case_prod_unfold)
  ultimately show ?thesis by blast
qed

text \<open>A hub with a claim of an agent that has been offline for an hour.\<close>

definition long_offline :: holder_presence where
  "long_offline = \<lparr>hp_started_at = 0, hp_window = 60, hp_offline_since = []\<rparr>"

lemma plain_names: "plain_name ''T''" "plain_name ''U''"
  by code_simp+

theorem abandoned_release_exact_witness:
  "dget (claims (fst (rq_mutate (abandoned_verb long_offline [''b''] 3600) demo))) ''T'' = None
   \<and> dget (claims (fst (rq_mutate (abandoned_verb long_offline [''b''] 3600) demo))) ''U'' = Some claim_U
   \<and> rq_persist (abandoned_verb long_offline [''b''] 3600) (snd (rq_mutate (abandoned_verb long_offline [''b''] 3600) demo))
       = [record_release ''T'']"
proof -
  obtain s' r where run: "rq_mutate (abandoned_verb long_offline [''b''] 3600) demo = (s', r)" by fastforce
  have t: "tidy demo"
    using plain_names by (auto simp: tidy_def demo_fields demo_claims split: if_splits)
  note E = abandoned_release_exact [OF wf_reachable [OF reachable_demo] t run]
  have gone: "long_gone long_offline [''b''] 3600 claim_T" "\<not> long_gone long_offline [''b''] 3600 claim_U"
    by (simp_all add: long_gone_def long_offline_def claim_T_def claim_U_def)
  have T: "dget (claims s') ''T'' = None" and U: "dget (claims s') ''U'' = Some claim_U"
    using E [THEN conjunct1, rule_format, of "''T''"] E [THEN conjunct1, rule_format, of "''U''"] demo_T demo_U gone
    by simp_all
  have "map fst (sort_key fst (claims demo)) = [''T'', ''U'']" unfolding demo_claims by code_simp
  then have "rq_persist (abandoned_verb long_offline [''b''] 3600) r = [record_release ''T'']"
    using E [THEN conjunct2] T U by simp
  with T U show ?thesis by (simp add: run)
qed

text \<open>
  Custody is not asked.  When a claim of a long absent holder is under protected custody,
  the registry refuses its release, and still the release row is journaled (and the release
  announced): the running hub keeps the claim, a replay of the row loses it.
\<close>

definition custody_hub :: synapse_state where
  "custody_hub = demo\<lparr>protected_claim_custody := [(''p'', [custody_capture claim_T])]\<rparr>"

theorem abandoned_release_ignores_custody:
  "let (s', r) = rq_mutate (abandoned_verb long_offline [''b''] 3600) custody_hub in
     dget (claims s') ''T'' = Some claim_T
     \<and> rq_persist (abandoned_verb long_offline [''b''] 3600) r = [record_release ''T'']"
  by code_simp

text \<open>
  The releases of a sweep are not one transaction.  When two claims are abandoned and the store commits
  the first release only, the request fails and its registry is not published: both claims stay
  live, and the log has the release of the first.
\<close>

theorem cut_sweep_diverges:
  "\<exists>ac'. run_request 1 (abandoned_verb long_offline [] 3600) (fresh_actor demo) = (ac', Inl StorageFailed)
     \<and> ac_subject ac' = demo \<and> dget (claims demo) ''T'' = Some claim_T \<and> dget (claims demo) ''U'' = Some claim_U
     \<and> map (\<lambda>ev. (ev_kind ev, ev_payload ev)) (st_rows (ac_store ac')) = [record_release ''T'']"
proof -
  let ?rq = "abandoned_verb long_offline [] 3600" and ?ac = "fresh_actor demo :: (synapse_state, lease_result) actor"
  let ?r = "AbandonedResult (abandoned_claims (claims demo) long_offline [] 3600)"
  have rows: "rq_persist ?rq ?r = [record_release ''T'', record_release ''U'']"
    unfolding demo_claims by code_simp
  have "snd (rq_mutate ?rq demo) = ?r" by (simp add: abandoned_verb_def Let_def)
  then obtain s' where mut: "rq_mutate ?rq demo = (s', ?r)" by (cases "rq_mutate ?rq demo") simp
  have key: "rq_key ?rq = None" by (simp add: abandoned_verb_def)
  let ?p = "\<lparr>pd_request = ?rq, pd_candidate = s', pd_result = ?r\<rparr>"
  have begun: "atomic_begin ?rq ?ac = (?ac\<lparr>ac_pending := Some ?p\<rparr>, None)"
    by (simp add: atomic_begin_def key Let_def fresh_actor_def mut)
  have "run_request 1 ?rq ?ac = (?ac\<lparr>ac_store := append_rows [record_release ''T''] (ac_store ?ac)\<rparr>, Inl StorageFailed)"
    by (simp add: run_request_def begun atomic_finish_def pending_append_def key rows plain_append_def Let_def)
      (simp add: fresh_actor_def)
  moreover have "ac_subject ?ac = demo" by (simp add: fresh_actor_def)
  moreover have "map (\<lambda>ev. (ev_kind ev, ev_payload ev)) (st_rows (append_rows [record_release ''T''] (ac_store ?ac))) = [record_release ''T'']"
    by (simp add: st_rows_append fresh_actor_def record_release_def)
  ultimately show ?thesis using demo_T demo_U by simp
qed

end
