(* ===== verification/Verdict_Records.thy ===== *)
theory Verdict_Records
  imports Json_Text Release_Receipt
begin

text \<open>
  The bodies of evidence, verdict and correction notes (\<open>core/verdict_records.py\<close>): canonical
  JSON of fixed fields, parsed strictly.  A body parses to a record exactly when it is the text that
  formatting the record gives.
\<close>

section \<open>Records\<close>

record evidence_record =
  ev_sha256 :: string
  ev_namespace :: string
  ev_members :: "string list"

record verdict_record =
  vr_namespace :: string
  vr_subject :: string
  vr_outcome :: string
  vr_inputs :: "string list"
  vr_acknowledged :: "string list"
  vr_author :: string
  vr_sequence :: int

record correction_record =
  cr_namespace :: string
  cr_corrects :: string
  cr_replacement :: string
  cr_reason :: string

definition VERDICT_RECORD_KINDS :: "string list" where
  "VERDICT_RECORD_KINDS = [''evidence'', ''verdict'', ''correction'']"
definition EVIDENCE_SCHEMA :: string where "EVIDENCE_SCHEMA = ''synapse.evidence.v1''"
definition VERDICT_SCHEMA :: string where "VERDICT_SCHEMA = ''synapse.verdict.v1''"
definition CORRECTION_SCHEMA :: string where "CORRECTION_SCHEMA = ''synapse.correction.v1''"
definition VERDICT_OUTCOMES :: "string list" where
  "VERDICT_OUTCOMES = [''accepted'', ''rejected'', ''changes-required'']"
definition MAX_MANIFEST_MEMBERS :: nat where "MAX_MANIFEST_MEMBERS = 100000"
definition MAX_VERDICT_INPUTS :: nat where "MAX_VERDICT_INPUTS = 1024"
definition MAX_ACKNOWLEDGED_CORRECTIONS :: nat where "MAX_ACKNOWLEDGED_CORRECTIONS = 1024"
definition MAX_REASON_BYTES :: nat where "MAX_REASON_BYTES = 2048"

text \<open>
  The messages of \<open>VerdictRecordError\<close>, and the \<open>TypeError\<close> that Python raises when a list or an
  object is looked up in the set of outcomes.
\<close>

datatype record_error =
    NotJsonBody
  | NotAnObject
  | WrongSchema string
  | WrongFields "string list"
  | NotCanonical
  | InvalidNamespace
  | InvalidDigest string
  | NotAList string
  | TooManyEntries string nat
  | NotSortedUnique string
  | SelfMember
  | UnknownOutcome
  | InvalidAuthor
  | InvalidSequence
  | SelfInput
  | SameReplacement
  | EmptyReason
  | ReasonTooLong
  | UnknownRecordKind string

datatype record_failure = VerdictRecordError record_error | UnhashableTypeError

abbreviation refused_body :: "record_error \<Rightarrow> record_failure + 'a" where
  "refused_body e \<equiv> Inl (VerdictRecordError e)"

section \<open>Fields\<close>

text \<open>The three regular expressions, each anchored at both ends.\<close>

definition is_sha256 :: "string \<Rightarrow> bool" where
  "is_sha256 s \<longleftrightarrow> length s = 64 \<and> list_all (\<lambda>c. is_digit c \<or> 97 \<le> code_of c \<and> code_of c \<le> 102) s"

definition ascii_alnum :: "char \<Rightarrow> bool" where
  "ascii_alnum c \<longleftrightarrow> is_digit c \<or> 65 \<le> code_of c \<and> code_of c \<le> 90 \<or> 97 \<le> code_of c \<and> code_of c \<le> 122"

fun is_name_word :: "string \<Rightarrow> bool" where
  "is_name_word [] = False"
| "is_name_word (c # cs) =
     (ascii_alnum c \<and> list_all (\<lambda>d. ascii_alnum d \<or> d \<in> {CHR ''.'', CHR ''_'', CHR ''-''}) cs)"

definition is_namespace :: "string \<Rightarrow> bool" where
  "is_namespace s \<longleftrightarrow> is_name_word s \<and> length s \<le> 128"

definition is_seat :: "string \<Rightarrow> bool" where
  "is_seat s \<longleftrightarrow> (let ws = py_split CHR 0x2F s in length ws \<le> 2 \<and> list_all is_name_word ws)"

text \<open>
  \<open>_load\<close>: a body with an escape of a character above 255 is reported as not canonical, since the
  canonical text never escapes such a character.
\<close>

definition load_record :: "(time \<Rightarrow> string) \<Rightarrow> string \<Rightarrow> string \<Rightarrow> string list \<Rightarrow> record_failure + json_object" where
  "load_record fl text schema names =
     (case json_loads text of
        NotJson \<Rightarrow> refused_body NotJsonBody
      | OutsideText \<Rightarrow> refused_body NotCanonical
      | Parsed payload _ \<Rightarrow>
          (case payload of
             JObject d \<Rightarrow>
               (if dget d ''schema'' \<noteq> Some (JString schema) then refused_body (WrongSchema schema)
                else if set (map fst d) \<noteq> set names then refused_body (WrongFields names)
                else if json_dumps_raw fl payload \<noteq> text then refused_body NotCanonical
                else Inr d)
           | _ \<Rightarrow> refused_body NotAnObject))"

definition record_namespace :: "json \<Rightarrow> record_failure + string" where
  "record_namespace v =
     (case v of
        JString s \<Rightarrow> (if is_namespace s then Inr s else refused_body InvalidNamespace)
      | _ \<Rightarrow> refused_body InvalidNamespace)"

definition record_digest :: "json \<Rightarrow> string \<Rightarrow> record_failure + string" where
  "record_digest v field =
     (case v of
        JString s \<Rightarrow> (if is_sha256 s then Inr s else refused_body (InvalidDigest field))
      | _ \<Rightarrow> refused_body (InvalidDigest field))"

definition digest_list :: "json \<Rightarrow> string \<Rightarrow> nat \<Rightarrow> record_failure + string list" where
  "digest_list v field maximum =
     (case v of
        JList vs \<Rightarrow>
          (if maximum < length vs then refused_body (TooManyEntries field maximum)
           else sum_bind (sum_all (map (\<lambda>i. record_digest i field) vs)) (\<lambda>items.
             if items \<noteq> sort (remdups items) then refused_body (NotSortedUnique field) else Inr items))
      | _ \<Rightarrow> refused_body (NotAList field))"

section \<open>Formatting and parsing\<close>

definition evidence_fields :: "evidence_record \<Rightarrow> json_object" where
  "evidence_fields r =
     [(''members'', JList (map JString (ev_members r))), (''namespace'', JString (ev_namespace r)),
      (''schema'', JString EVIDENCE_SCHEMA), (''sha256'', JString (ev_sha256 r))]"

definition format_evidence :: "(time \<Rightarrow> string) \<Rightarrow> evidence_record \<Rightarrow> string" where
  "format_evidence fl r = json_dumps_raw fl (JObject (evidence_fields r))"

definition parse_evidence :: "(time \<Rightarrow> string) \<Rightarrow> string \<Rightarrow> record_failure + evidence_record" where
  "parse_evidence fl text =
     sum_bind (load_record fl text EVIDENCE_SCHEMA [''members'', ''namespace'', ''schema'', ''sha256'']) (\<lambda>p.
     sum_bind (record_namespace (get_field p ''namespace'')) (\<lambda>namespace.
     sum_bind (record_digest (get_field p ''sha256'') ''sha256'') (\<lambda>digest.
     sum_bind (digest_list (get_field p ''members'') ''members'' MAX_MANIFEST_MEMBERS) (\<lambda>members.
       if digest \<in> set members then refused_body SelfMember
       else Inr \<lparr>ev_sha256 = digest, ev_namespace = namespace, ev_members = members\<rparr>))))"

definition verdict_fields :: "verdict_record \<Rightarrow> json_object" where
  "verdict_fields r =
     [(''acknowledged_corrections'', JList (map JString (vr_acknowledged r))), (''author'', JString (vr_author r)),
      (''inputs'', JList (map JString (vr_inputs r))), (''namespace'', JString (vr_namespace r)),
      (''outcome'', JString (vr_outcome r)), (''reviewer_sequence'', JInt (vr_sequence r)),
      (''schema'', JString VERDICT_SCHEMA), (''subject_sha256'', JString (vr_subject r))]"

definition format_verdict :: "(time \<Rightarrow> string) \<Rightarrow> verdict_record \<Rightarrow> string" where
  "format_verdict fl r = json_dumps_raw fl (JObject (verdict_fields r))"

text \<open>A value of an outcome: a list or an object has no hash, any other value than a string is not in the set.\<close>

definition record_outcome :: "json \<Rightarrow> record_failure + string" where
  "record_outcome v =
     (case v of
        JList _ \<Rightarrow> Inl UnhashableTypeError
      | JObject _ \<Rightarrow> Inl UnhashableTypeError
      | JString s \<Rightarrow> (if s \<in> set VERDICT_OUTCOMES then Inr s else refused_body UnknownOutcome)
      | _ \<Rightarrow> refused_body UnknownOutcome)"

definition record_author :: "json \<Rightarrow> record_failure + string" where
  "record_author v =
     (case v of JString s \<Rightarrow> (if is_seat s then Inr s else refused_body InvalidAuthor) | _ \<Rightarrow> refused_body InvalidAuthor)"

definition record_sequence :: "json \<Rightarrow> record_failure + int" where
  "record_sequence v =
     (case v of JInt i \<Rightarrow> (if i < 1 then refused_body InvalidSequence else Inr i) | _ \<Rightarrow> refused_body InvalidSequence)"

definition parse_verdict :: "(time \<Rightarrow> string) \<Rightarrow> string \<Rightarrow> record_failure + verdict_record" where
  "parse_verdict fl text =
     sum_bind (load_record fl text VERDICT_SCHEMA
       [''acknowledged_corrections'', ''author'', ''inputs'', ''namespace'', ''outcome'', ''reviewer_sequence'',
        ''schema'', ''subject_sha256'']) (\<lambda>p.
     sum_bind (record_outcome (get_field p ''outcome'')) (\<lambda>outcome.
     sum_bind (record_author (get_field p ''author'')) (\<lambda>author.
     sum_bind (record_sequence (get_field p ''reviewer_sequence'')) (\<lambda>sequence.
     sum_bind (record_digest (get_field p ''subject_sha256'') ''subject_sha256'') (\<lambda>subject.
     sum_bind (digest_list (get_field p ''inputs'') ''inputs'' MAX_VERDICT_INPUTS) (\<lambda>inputs.
       if subject \<in> set inputs then refused_body SelfInput
       else sum_bind (digest_list (get_field p ''acknowledged_corrections'') ''acknowledged_corrections''
                        MAX_ACKNOWLEDGED_CORRECTIONS) (\<lambda>acknowledged.
         sum_bind (record_namespace (get_field p ''namespace'')) (\<lambda>namespace.
           Inr \<lparr>vr_namespace = namespace, vr_subject = subject, vr_outcome = outcome, vr_inputs = inputs,
                vr_acknowledged = acknowledged, vr_author = author, vr_sequence = sequence\<rparr>))))))))"

definition correction_fields :: "correction_record \<Rightarrow> json_object" where
  "correction_fields r =
     [(''corrects'', JString (cr_corrects r)), (''namespace'', JString (cr_namespace r)),
      (''reason'', JString (cr_reason r)), (''replacement'', JString (cr_replacement r)),
      (''schema'', JString CORRECTION_SCHEMA)]"

definition format_correction :: "(time \<Rightarrow> string) \<Rightarrow> correction_record \<Rightarrow> string" where
  "format_correction fl r = json_dumps_raw fl (JObject (correction_fields r))"

definition record_reason :: "json \<Rightarrow> record_failure + string" where
  "record_reason v =
     (case v of
        JString s \<Rightarrow>
          (if py_strip s = [] then refused_body EmptyReason
           else if MAX_REASON_BYTES < length (utf8 s) then refused_body ReasonTooLong
           else Inr s)
      | _ \<Rightarrow> refused_body EmptyReason)"

definition parse_correction :: "(time \<Rightarrow> string) \<Rightarrow> string \<Rightarrow> record_failure + correction_record" where
  "parse_correction fl text =
     sum_bind (load_record fl text CORRECTION_SCHEMA [''corrects'', ''namespace'', ''reason'', ''replacement'', ''schema'']) (\<lambda>p.
     sum_bind (record_digest (get_field p ''corrects'') ''corrects'') (\<lambda>corrects.
     sum_bind (record_digest (get_field p ''replacement'') ''replacement'') (\<lambda>replacement.
       if corrects = replacement then refused_body SameReplacement
       else sum_bind (record_reason (get_field p ''reason'')) (\<lambda>reason.
         sum_bind (record_namespace (get_field p ''namespace'')) (\<lambda>namespace.
           Inr \<lparr>cr_namespace = namespace, cr_corrects = corrects, cr_replacement = replacement,
                cr_reason = reason\<rparr>)))))"

definition correction_id :: "(time \<Rightarrow> string) \<Rightarrow> correction_record \<Rightarrow> string" where
  "correction_id fl r =
     hex_of (sha256 (utf8 (json_dumps_raw fl (JObject
       [(''corrects'', JString (cr_corrects r)), (''namespace'', JString (cr_namespace r)),
        (''replacement'', JString (cr_replacement r))]))))"

definition validate_record_body :: "(time \<Rightarrow> string) \<Rightarrow> string \<Rightarrow> string \<Rightarrow> record_failure + unit" where
  "validate_record_body fl kind text =
     (if kind = ''evidence'' then sum_bind (parse_evidence fl text) (\<lambda>_. Inr ())
      else if kind = ''verdict'' then sum_bind (parse_verdict fl text) (\<lambda>_. Inr ())
      else if kind = ''correction'' then sum_bind (parse_correction fl text) (\<lambda>_. Inr ())
      else refused_body (UnknownRecordKind kind))"

section \<open>A body and its record determine each other\<close>

lemma get_field_Some: "get_field p k = v \<Longrightarrow> v \<noteq> JNull \<Longrightarrow> dget p k = Some v"
  by (auto simp: get_field_def get_or_def split: option.splits)

lemma filter_key_unique:
  "distinct (map f xs) \<Longrightarrow> x \<in> set xs \<Longrightarrow> filter (\<lambda>y. f x = f y) xs = [x]"
proof (induction xs)
  case (Cons a xs)
  then have "filter (\<lambda>y. f a = f y) xs = []" by (auto simp: filter_empty_conv)
  then show ?case using Cons by (cases "x = a") auto
qed simp

lemma sort_key_unique:
  assumes m: "mset xs = mset ys" and d: "distinct (map f xs)"
  shows "sort_key f xs = sort_key f ys"
proof (rule properties_for_sort_key)
  have "distinct (map f zs)" if "mset zs = mset xs" for zs
    using d mset_eq_imp_distinct_iff [of "map f zs" "map f xs"] that by simp
  then have "distinct (map f (sort_key f ys))" using m by simp
  then show "filter (\<lambda>y. f k = f y) (sort_key f ys) = filter (\<lambda>y. f k = f y) xs" if "k \<in> set (sort_key f ys)" for k
    using that d mset_eq_setD [OF m] filter_key_unique [of f xs k] filter_key_unique [of f "sort_key f ys" k] by simp
qed (simp_all add: m)

lemma dict_mset_eq:
  assumes "dict_ok d" and "dict_ok e" and "\<And>k. dget d k = dget e k"
  shows "mset d = mset e"
proof -
  have "distinct d" "distinct e" using assms(1,2) by (auto simp: dict_ok_def distinct_map)
  moreover have "set d = set e" using dict_mem_iff [OF assms(1)] dict_mem_iff [OF assms(2)] assms(3) by auto
  ultimately show ?thesis by (simp add: set_eq_iff_mset_eq_distinct)
qed

lemma dump_dict_cong:
  assumes "dict_ok d" and "dict_ok e" and "\<And>k. dget d k = dget e k"
  shows "json_dumps_raw fl (JObject d) = json_dumps_raw fl (JObject e)"
proof -
  let ?g = "\<lambda>(k, v). (k, json_string_raw k @ CHR 0x3A # json_dumps_raw fl v)"
  have "map fst (map ?g d) = map fst d" by (simp add: case_prod_unfold)
  then have "sort_key fst (map ?g d) = sort_key fst (map ?g e)"
    using dict_mset_eq [OF assms] assms(1) by (intro sort_key_unique) (simp_all add: dict_ok_def del: map_map)
  then show ?thesis by simp
qed

lemma parsed_bind_Parsed: "parsed_bind m f = Parsed y r \<longleftrightarrow> (\<exists>x s. m = Parsed x s \<and> f x s = Parsed y r)"
  by (cases m) auto

lemma dict_ok_built: "dict_ok d \<Longrightarrow> dict_ok (foldl (\<lambda>d (k, v). dset k v d) d kvs)"
  by (induction kvs arbitrary: d) auto

lemma parse_value_dict: "parse_value n s = Parsed (JObject d) rest \<Longrightarrow> dict_ok d"
proof (cases n)
  case (Suc m)
  assume p: "parse_value n s = Parsed (JObject d) rest"
  then obtain c cs where s: "s = c # cs" using Suc by (cases s) auto
  consider "c = CHR 0x22" | "c = CHR 0x5B" | "c = CHR 0x7B" | "c \<notin> {CHR 0x22, CHR 0x5B, CHR 0x7B}" by blast
  then show ?thesis
  proof cases
    case 4
    have "parse_word s \<noteq> Some (JObject d, rest)" by (auto simp: parse_word_def json_words_def split: if_splits)
    moreover have "parse_number s \<noteq> Parsed (JObject d) rest"
      by (auto simp: parse_number_def Let_def split: option.splits prod.splits)
    ultimately show ?thesis using 4 p Suc s by (auto split: option.splits)
  qed (use p Suc s in \<open>auto simp: parsed_bind_Parsed dict_ok_built split: list.splits if_splits\<close>)
qed simp

lemma json_loads_dict: "json_loads s = Parsed (JObject d) rest \<Longrightarrow> dict_ok d"
  by (auto simp: json_loads_def parsed_bind_Parsed dest: parse_value_dict split: if_splits)

lemma load_record_only:
  assumes "load_record fl t schema names = Inr d"
  shows "dict_ok d" and "dget d ''schema'' = Some (JString schema)" and "set (map fst d) = set names"
    and "t = json_dumps_raw fl (JObject d)"
  using assms by (auto simp: load_record_def dest: json_loads_dict split: parsed.splits json.splits if_splits)

lemma load_record_dump:
  assumes "plain_json (JObject d)" and "dget d ''schema'' = Some (JString schema)" and "set (map fst d) = set names"
  shows "load_record fl (json_dumps_raw fl (JObject d)) schema names = Inr d"
  using assms json_text_round_trip [OF assms(1), of fl] by (simp add: load_record_def del: json_dumps_raw.simps)

text \<open>A loaded body is the dump of any dictionary with the same fields and values.\<close>

lemma load_record_text:
  assumes "load_record fl t schema names = Inr d" and "set (map fst e) = set names" and "dict_ok e"
    and "\<forall>(k, v) \<in> set e. dget d k = Some v"
  shows "t = json_dumps_raw fl (JObject e)"
proof -
  have "dget d k = dget e k" for k
  proof (cases "k \<in> set names")
    case True
    then obtain v where "(k, v) \<in> set e" using assms(2) by force
    then show ?thesis using assms(3,4) dict_mem_iff by fastforce
  next
    case False
    then have "k \<notin> fst ` set d" "k \<notin> fst ` set e" using load_record_only(3) [OF assms(1)] assms(2) by auto
    then show ?thesis by (simp add: map_of_eq_None_iff [THEN iffD2])
  qed
  then show ?thesis
    using load_record_only(1,4) [OF assms(1)] dump_dict_cong [OF _ assms(3)] by metis
qed

definition valid_digests :: "nat \<Rightarrow> string list \<Rightarrow> bool" where
  "valid_digests m ds \<longleftrightarrow> length ds \<le> m \<and> list_all is_sha256 ds \<and> sorted_wrt (<) ds"

lemma sum_all_digests:
  "sum_all (map (\<lambda>i. record_digest i f) vs) = Inr ds \<longleftrightarrow> vs = map JString ds \<and> list_all is_sha256 ds"
proof (induction vs arbitrary: ds)
  case (Cons v vs)
  have "record_digest v f = Inr s \<longleftrightarrow> v = JString s \<and> is_sha256 s" for s
    by (auto simp: record_digest_def split: json.splits)
  then show ?case using Cons by (cases ds) (auto simp: sum_bind_Inr)
qed auto

lemma sort_remdups_iff: "items = sort (remdups items) \<longleftrightarrow> sorted_wrt (<) (items :: 'a :: linorder list)"
proof
  assume i: "items = sort (remdups items)"
  have "sorted_wrt (<) (sort (remdups items))" by (simp add: strict_sorted_iff)
  then show "sorted_wrt (<) items" using i by simp
next
  assume "sorted_wrt (<) items"
  then show "items = sort (remdups items)" by (simp add: strict_sorted_iff distinct_remdups_id sorted_sort_id)
qed

lemma digest_list_iff: "digest_list v f m = Inr ds \<longleftrightarrow> v = JList (map JString ds) \<and> valid_digests m ds"
proof (cases v)
  case (JList vs)
  have "(if ds \<noteq> sort (remdups ds) then refused_body (NotSortedUnique f) else Inr ds) = Inr ds \<longleftrightarrow> sorted_wrt (<) ds"
    using sort_remdups_iff [of ds] by simp
  then show ?thesis
    by (auto simp: digest_list_def valid_digests_def JList sum_bind_Inr sum_all_digests split: if_splits)
qed (auto simp: digest_list_def)

lemma record_field_iff:
  "record_namespace v = Inr s \<longleftrightarrow> v = JString s \<and> is_namespace s"
  "record_digest v f = Inr s \<longleftrightarrow> v = JString s \<and> is_sha256 s"
  "record_outcome v = Inr s \<longleftrightarrow> v = JString s \<and> s \<in> set VERDICT_OUTCOMES"
  "record_author v = Inr s \<longleftrightarrow> v = JString s \<and> is_seat s"
  "record_sequence v = Inr i \<longleftrightarrow> v = JInt i \<and> 1 \<le> i"
  "record_reason v = Inr s \<longleftrightarrow> v = JString s \<and> py_strip s \<noteq> [] \<and> length (utf8 s) \<le> MAX_REASON_BYTES"
  by (auto simp: record_namespace_def record_digest_def record_outcome_def record_author_def record_sequence_def
      record_reason_def split: json.splits)

text \<open>What the three parsers accept.\<close>

definition valid_evidence :: "evidence_record \<Rightarrow> bool" where
  "valid_evidence r \<longleftrightarrow>
     is_sha256 (ev_sha256 r) \<and> is_namespace (ev_namespace r)
     \<and> valid_digests MAX_MANIFEST_MEMBERS (ev_members r) \<and> ev_sha256 r \<notin> set (ev_members r)"

definition valid_verdict :: "verdict_record \<Rightarrow> bool" where
  "valid_verdict r \<longleftrightarrow>
     is_namespace (vr_namespace r) \<and> is_sha256 (vr_subject r) \<and> vr_outcome r \<in> set VERDICT_OUTCOMES
     \<and> valid_digests MAX_VERDICT_INPUTS (vr_inputs r) \<and> vr_subject r \<notin> set (vr_inputs r)
     \<and> valid_digests MAX_ACKNOWLEDGED_CORRECTIONS (vr_acknowledged r)
     \<and> is_seat (vr_author r) \<and> 1 \<le> vr_sequence r"

definition valid_correction :: "correction_record \<Rightarrow> bool" where
  "valid_correction r \<longleftrightarrow>
     is_namespace (cr_namespace r) \<and> is_sha256 (cr_corrects r) \<and> is_sha256 (cr_replacement r)
     \<and> cr_corrects r \<noteq> cr_replacement r \<and> py_strip (cr_reason r) \<noteq> []
     \<and> length (utf8 (cr_reason r)) \<le> MAX_REASON_BYTES"

lemma digest_list_valid: "valid_digests m ds \<Longrightarrow> digest_list (JList (map JString ds)) f m = Inr ds"
  by (simp add: digest_list_iff)

lemmas record_field_simps =
  record_namespace_def record_digest_def record_outcome_def record_author_def record_sequence_def record_reason_def
  digest_list_valid

lemma plain_strings [simp]: "list_all plain_json (map JString ss)"
  by (simp add: list_all_iff)

lemma evidence_fields_plain:
  "plain_json (JObject (evidence_fields r))" "dict_ok (evidence_fields r)"
  "dget (evidence_fields r) ''schema'' = Some (JString EVIDENCE_SCHEMA)"
  "map fst (evidence_fields r) = [''members'', ''namespace'', ''schema'', ''sha256'']"
  by (simp_all add: evidence_fields_def dict_ok_def)

lemma verdict_fields_plain:
  "short_int (vr_sequence r) \<Longrightarrow> plain_json (JObject (verdict_fields r))" "dict_ok (verdict_fields r)"
  "dget (verdict_fields r) ''schema'' = Some (JString VERDICT_SCHEMA)"
  "map fst (verdict_fields r) = [''acknowledged_corrections'', ''author'', ''inputs'', ''namespace'', ''outcome'',
     ''reviewer_sequence'', ''schema'', ''subject_sha256'']"
  by (simp_all add: verdict_fields_def dict_ok_def)

lemma correction_fields_plain:
  "plain_json (JObject (correction_fields r))" "dict_ok (correction_fields r)"
  "dget (correction_fields r) ''schema'' = Some (JString CORRECTION_SCHEMA)"
  "map fst (correction_fields r) = [''corrects'', ''namespace'', ''reason'', ''replacement'', ''schema'']"
  by (simp_all add: correction_fields_def dict_ok_def)

lemma parse_evidence_iff: "parse_evidence fl t = Inr r \<longleftrightarrow> valid_evidence r \<and> t = format_evidence fl r"
proof
  assume "parse_evidence fl t = Inr r"
  then obtain p where p: "load_record fl t EVIDENCE_SCHEMA [''members'', ''namespace'', ''schema'', ''sha256''] = Inr p"
    and r: "valid_evidence r" "get_field p ''namespace'' = JString (ev_namespace r)"
      "get_field p ''sha256'' = JString (ev_sha256 r)" "get_field p ''members'' = JList (map JString (ev_members r))"
    by (auto simp: parse_evidence_def valid_evidence_def sum_bind_Inr record_field_iff digest_list_iff split: if_splits)
  have "t = json_dumps_raw fl (JObject (evidence_fields r))"
    using r(2-4)[THEN get_field_Some] load_record_only(2) [OF p] evidence_fields_plain
    by (intro load_record_text [OF p]) (simp_all, simp add: evidence_fields_def)
  then show "valid_evidence r \<and> t = format_evidence fl r" using r(1) by (simp add: format_evidence_def)
next
  assume v: "valid_evidence r \<and> t = format_evidence fl r"
  then have "load_record fl t EVIDENCE_SCHEMA [''members'', ''namespace'', ''schema'', ''sha256''] = Inr (evidence_fields r)"
    unfolding format_evidence_def using load_record_dump [OF evidence_fields_plain(1,3)] evidence_fields_plain(4) by metis
  then show "parse_evidence fl t = Inr r"
    using v by (simp add: parse_evidence_def valid_evidence_def record_field_simps)
      (simp add: evidence_fields_def get_field_def get_or_def record_field_simps)
qed

lemma parse_verdict_only:
  assumes "parse_verdict fl t = Inr r"
  shows "valid_verdict r" and "t = format_verdict fl r"
proof -
  obtain p where p: "load_record fl t VERDICT_SCHEMA
       [''acknowledged_corrections'', ''author'', ''inputs'', ''namespace'', ''outcome'', ''reviewer_sequence'',
        ''schema'', ''subject_sha256''] = Inr p"
    and r: "valid_verdict r" "get_field p ''namespace'' = JString (vr_namespace r)"
      "get_field p ''subject_sha256'' = JString (vr_subject r)" "get_field p ''outcome'' = JString (vr_outcome r)"
      "get_field p ''inputs'' = JList (map JString (vr_inputs r))"
      "get_field p ''acknowledged_corrections'' = JList (map JString (vr_acknowledged r))"
      "get_field p ''author'' = JString (vr_author r)" "get_field p ''reviewer_sequence'' = JInt (vr_sequence r)"
    using assms
    by (auto simp: parse_verdict_def valid_verdict_def sum_bind_Inr record_field_iff digest_list_iff split: if_splits)
  have "t = json_dumps_raw fl (JObject (verdict_fields r))"
    using r(2-8)[THEN get_field_Some] load_record_only(2) [OF p] verdict_fields_plain(2,4)
    by (intro load_record_text [OF p]) (simp_all, simp add: verdict_fields_def)
  then show "valid_verdict r" and "t = format_verdict fl r" using r(1) by (simp_all add: format_verdict_def)
qed

lemma parse_format_verdict:
  assumes "valid_verdict r" and "short_int (vr_sequence r)"
  shows "parse_verdict fl (format_verdict fl r) = Inr r"
proof -
  have "load_record fl (format_verdict fl r) VERDICT_SCHEMA
       [''acknowledged_corrections'', ''author'', ''inputs'', ''namespace'', ''outcome'', ''reviewer_sequence'',
        ''schema'', ''subject_sha256''] = Inr (verdict_fields r)"
    unfolding format_verdict_def
    using load_record_dump [OF verdict_fields_plain(1) [OF assms(2)] verdict_fields_plain(3)] verdict_fields_plain(4) by metis
  then show ?thesis
    using assms(1) by (simp add: parse_verdict_def valid_verdict_def record_field_simps)
      (simp add: verdict_fields_def get_field_def get_or_def record_field_simps)
qed

lemma parse_verdict_iff:
  "short_int (vr_sequence r) \<Longrightarrow> parse_verdict fl t = Inr r \<longleftrightarrow> valid_verdict r \<and> t = format_verdict fl r"
  using parse_verdict_only parse_format_verdict by blast

lemma parse_correction_iff: "parse_correction fl t = Inr r \<longleftrightarrow> valid_correction r \<and> t = format_correction fl r"
proof
  assume "parse_correction fl t = Inr r"
  then obtain p where p: "load_record fl t CORRECTION_SCHEMA [''corrects'', ''namespace'', ''reason'', ''replacement'', ''schema''] = Inr p"
    and r: "valid_correction r" "get_field p ''namespace'' = JString (cr_namespace r)"
      "get_field p ''corrects'' = JString (cr_corrects r)" "get_field p ''replacement'' = JString (cr_replacement r)"
      "get_field p ''reason'' = JString (cr_reason r)"
    by (auto simp: parse_correction_def valid_correction_def sum_bind_Inr record_field_iff split: if_splits)
  have "t = json_dumps_raw fl (JObject (correction_fields r))"
    using r(2-5)[THEN get_field_Some] load_record_only(2) [OF p] correction_fields_plain(2,4)
    by (intro load_record_text [OF p]) (simp_all, simp add: correction_fields_def)
  then show "valid_correction r \<and> t = format_correction fl r" using r(1) by (simp add: format_correction_def)
next
  assume v: "valid_correction r \<and> t = format_correction fl r"
  then have "load_record fl t CORRECTION_SCHEMA [''corrects'', ''namespace'', ''reason'', ''replacement'', ''schema''] = Inr (correction_fields r)"
    unfolding format_correction_def
    using load_record_dump [OF correction_fields_plain(1,3)] correction_fields_plain(4) by metis
  then show "parse_correction fl t = Inr r"
    using v by (simp add: parse_correction_def valid_correction_def record_field_simps)
      (simp add: correction_fields_def get_field_def get_or_def record_field_simps)
qed

end
