(* ===== verification/Verdict_Staleness.thy ===== *)
theory Verdict_Staleness
  imports Verdict_Records
begin

text \<open>
  Which verdicts rest on a corrected input (\<open>core/verdict_staleness.py\<close>): the fold over the recorded
  notes, the dependency walk, the state of each verdict and the gate of a subject.  Python's sets are
  HOL sets; the dictionaries keep their insertion order.
\<close>

section \<open>Records of the fold\<close>

record recorded_note =
  rn_seq :: int
  rn_author :: string
  rn_kind :: string
  rn_text :: string

record correction_policy =
  may_write :: "string \<Rightarrow> string \<Rightarrow> bool"
  may_correct :: "string \<Rightarrow> string \<Rightarrow> bool"

datatype freshness = Fresh | Stale | InputsUnrecorded | Unbounded

type_synonym object_key = "string \<times> string"

record verdict_state =
  vs_seq :: int
  vs_reviewer :: string
  vs_record :: verdict_record
  vs_state :: freshness
  vs_open :: "string list"

record gate_result =
  gd_namespace :: string
  gd_subject :: string
  gd_passed :: bool
  gd_reasons :: "string list"

record verdict_fold =
  vf_declarers :: "(object_key, string set) pydict"
  vf_members :: "(object_key, string set) pydict"
  vf_corrections :: "(object_key, (string, correction_record) pydict) pydict"
  vf_refused :: "(int \<times> string) list"
  vf_verdicts :: "verdict_state list"

definition MAX_DEPENDENCY_DEPTH :: nat where "MAX_DEPENDENCY_DEPTH = 32"

definition empty_fold :: verdict_fold where
  "empty_fold = \<lparr>vf_declarers = [], vf_members = [], vf_corrections = [], vf_refused = [], vf_verdicts = []\<rparr>"

definition dget_or :: "'v \<Rightarrow> ('k, 'v) pydict \<Rightarrow> 'k \<Rightarrow> 'v" where
  "dget_or v d k = (case dget d k of None \<Rightarrow> v | Some x \<Rightarrow> x)"

definition corrections_of :: "verdict_fold \<Rightarrow> object_key \<Rightarrow> (string, correction_record) pydict" where
  "corrections_of f key = dget_or [] (vf_corrections f) key"

section \<open>Counting the records\<close>

definition sorted_kind :: "recorded_note list \<Rightarrow> string \<Rightarrow> recorded_note list" where
  "sorted_kind notes kind = sort_key rn_seq (filter (\<lambda>n. rn_kind n = kind) notes)"

text \<open>Notes that parse, and the refusals; \<open>None\<close> is the \<open>TypeError\<close> of an outcome without a hash.\<close>

fun parsed_notes ::
  "(time \<Rightarrow> string) \<Rightarrow> recorded_note list \<Rightarrow> (int \<times> string) list \<Rightarrow> (recorded_note list \<times> (int \<times> string) list) option" where
  "parsed_notes fl [] refs = Some ([], refs)"
| "parsed_notes fl (n # ns) refs =
     (if rn_kind n \<notin> set VERDICT_RECORD_KINDS then parsed_notes fl ns refs
      else (case validate_record_body fl (rn_kind n) (rn_text n) of
              Inr _ \<Rightarrow> map_option (\<lambda>(kept, r). (n # kept, r)) (parsed_notes fl ns refs)
            | Inl (VerdictRecordError _) \<Rightarrow> parsed_notes fl ns (refs @ [(rn_seq n, ''malformed-record'')])
            | Inl UnhashableTypeError \<Rightarrow> None))"

definition refuse_note :: "recorded_note \<Rightarrow> string \<Rightarrow> verdict_fold \<Rightarrow> verdict_fold" where
  "refuse_note n reason f = f\<lparr>vf_refused := vf_refused f @ [(rn_seq n, reason)]\<rparr>"

definition object_key :: "string \<Rightarrow> string \<Rightarrow> object_key" where
  "object_key namespace digest = (namespace, digest)"

text \<open>Only kept notes reach the three counts, so their bodies parse.\<close>

definition count_evidence_note ::
  "(time \<Rightarrow> string) \<Rightarrow> correction_policy \<Rightarrow> verdict_fold \<Rightarrow> recorded_note \<Rightarrow> verdict_fold" where
  "count_evidence_note fl policy f n =
     (case parse_evidence fl (rn_text n) of
        Inl _ \<Rightarrow> f
      | Inr r \<Rightarrow>
          (if \<not> may_write policy (ev_namespace r) (rn_author n) then refuse_note n ''evidence-not-authorised'' f
           else
             (let key = object_key (ev_namespace r) (ev_sha256 r);
                  f1 = f\<lparr>vf_declarers := dset key (dget_or {} (vf_declarers f) key \<union> {rn_author n}) (vf_declarers f)\<rparr>
              in if ev_members r = [] then f1
                 else f1\<lparr>vf_members := dset key (dget_or {} (vf_members f1) key \<union> set (ev_members r)) (vf_members f1)\<rparr>)))"

definition count_evidence ::
  "(time \<Rightarrow> string) \<Rightarrow> correction_policy \<Rightarrow> recorded_note list \<Rightarrow> verdict_fold \<Rightarrow> verdict_fold" where
  "count_evidence fl policy notes f = foldl (count_evidence_note fl policy) f (sorted_kind notes ''evidence'')"

definition count_correction_note ::
  "(time \<Rightarrow> string) \<Rightarrow> correction_policy \<Rightarrow> verdict_fold \<Rightarrow> recorded_note \<Rightarrow> verdict_fold" where
  "count_correction_note fl policy f n =
     (case parse_correction fl (rn_text n) of
        Inl _ \<Rightarrow> f
      | Inr r \<Rightarrow>
          (let key = object_key (cr_namespace r) (cr_corrects r);
               declared = rn_author n \<in> dget_or {} (vf_declarers f) key;
               allowed = dget (vf_declarers f) key \<noteq> None \<and> may_correct policy (cr_namespace r) (rn_author n)
           in if \<not> (declared \<or> allowed) then refuse_note n ''correction-not-authorised'' f
              else f\<lparr>vf_corrections := dset key (dset (correction_id fl r) r (corrections_of f key)) (vf_corrections f)\<rparr>))"

definition count_corrections ::
  "(time \<Rightarrow> string) \<Rightarrow> correction_policy \<Rightarrow> recorded_note list \<Rightarrow> verdict_fold \<Rightarrow> verdict_fold" where
  "count_corrections fl policy notes f = foldl (count_correction_note fl policy) f (sorted_kind notes ''correction'')"

definition count_verdict_note ::
  "(time \<Rightarrow> string) \<Rightarrow> correction_policy \<Rightarrow> verdict_fold \<times> (recorded_note \<times> verdict_record) list \<Rightarrow> recorded_note
    \<Rightarrow> verdict_fold \<times> (recorded_note \<times> verdict_record) list" where
  "count_verdict_note fl policy acc n =
     (case parse_verdict fl (rn_text n) of
        Inl _ \<Rightarrow> acc
      | Inr r \<Rightarrow>
          (if \<not> may_write policy (vr_namespace r) (rn_author n)
           then (refuse_note n ''verdict-not-authorised'' (fst acc), snd acc)
           else (fst acc, snd acc @ [(n, r)])))"

section \<open>Latest verdicts and dependencies\<close>

definition add_latest :: "(string, verdict_record list) pydict \<Rightarrow> string \<times> verdict_record \<Rightarrow> (string, verdict_record list) pydict" where
  "add_latest latest entry =
     (let (reviewer, r) = entry in
      case dget latest reviewer of
        None \<Rightarrow> dset reviewer [r] latest
      | Some current \<Rightarrow>
          (if vr_sequence (hd current) < vr_sequence r then dset reviewer [r] latest
           else if vr_sequence r = vr_sequence (hd current) then dset reviewer (current @ [r]) latest
           else latest))"

definition latest_by_reviewer :: "(string \<times> verdict_record) list \<Rightarrow> (string, verdict_record list) pydict" where
  "latest_by_reviewer entries = foldl add_latest [] entries"

definition add_subject ::
  "(object_key, (string \<times> verdict_record) list) pydict \<Rightarrow> recorded_note \<times> verdict_record
    \<Rightarrow> (object_key, (string \<times> verdict_record) list) pydict" where
  "add_subject d entry =
     (let (n, r) = entry; key = object_key (vr_namespace r) (vr_subject r)
      in dset key (dget_or [] d key @ [(rn_author n, r)]) d)"

definition upstream_verdicts :: "(recorded_note \<times> verdict_record) list \<Rightarrow> (object_key, verdict_record list) pydict" where
  "upstream_verdicts counted =
     map (\<lambda>(key, entries). (key, concat (map snd (latest_by_reviewer entries)))) (foldl add_subject [] counted)"

definition objects_below ::
  "verdict_fold \<Rightarrow> (object_key, verdict_record list) pydict \<Rightarrow> string \<Rightarrow> object_key \<Rightarrow> object_key set" where
  "objects_below f upstream namespace key =
     object_key namespace ` dget_or {} (vf_members f) key
     \<union> (\<Union>v \<in> set (dget_or [] upstream key). object_key namespace ` set (vr_inputs v))"

text \<open>The loop; \<open>room\<close> is how many more levels may be followed.\<close>

fun follow_dependencies :: "nat \<Rightarrow> ('a \<Rightarrow> 'a set) \<Rightarrow> 'a set \<Rightarrow> 'a set \<Rightarrow> 'a set \<times> bool" where
  "follow_dependencies 0 below seen frontier = (seen, frontier = {})"
| "follow_dependencies (Suc room) below seen frontier =
     (if frontier = {} then (seen, True)
      else (let seen1 = seen \<union> frontier
            in follow_dependencies room below seen1 ((\<Union>key \<in> frontier. below key) - seen1)))"

definition dependencies ::
  "verdict_fold \<Rightarrow> verdict_record \<Rightarrow> (object_key, verdict_record list) pydict \<Rightarrow> object_key set \<times> bool" where
  "dependencies f r upstream =
     follow_dependencies (Suc MAX_DEPENDENCY_DEPTH) (objects_below f upstream (vr_namespace r)) {}
       (object_key (vr_namespace r) ` set (vr_inputs r))"

definition derive_state ::
  "verdict_fold \<Rightarrow> (object_key, verdict_record list) pydict \<Rightarrow> recorded_note \<times> verdict_record \<Rightarrow> verdict_state" where
  "derive_state f upstream entry =
     (let (n, r) = entry;
          (deps, bounded) = dependencies f r upstream;
          still_open = sort (filter (\<lambda>i. i \<notin> set (vr_acknowledged r))
            (concat (map (\<lambda>key. map fst (corrections_of f key)) (sorted_list_of_set deps))));
          state = (if \<not> bounded then Unbounded
                   else if still_open \<noteq> [] then Stale
                   else if vr_outcome r = ''accepted'' \<and> vr_inputs r = [] then InputsUnrecorded
                   else Fresh)
      in \<lparr>vs_seq = rn_seq n, vs_reviewer = rn_author n, vs_record = r, vs_state = state, vs_open = still_open\<rparr>)"

definition fold_verdicts ::
  "(time \<Rightarrow> string) \<Rightarrow> correction_policy \<Rightarrow> recorded_note list \<Rightarrow> verdict_fold option" where
  "fold_verdicts fl policy notes =
     (case parsed_notes fl notes [] of
        None \<Rightarrow> None
      | Some (kept, refs) \<Rightarrow>
          (let f1 = count_corrections fl policy kept (count_evidence fl policy kept (empty_fold\<lparr>vf_refused := refs\<rparr>));
               (f2, counted) = foldl (count_verdict_note fl policy) (f1, []) (sorted_kind kept ''verdict'');
               upstream = upstream_verdicts counted
           in Some (f2\<lparr>vf_verdicts := map (derive_state f2 upstream) counted, vf_refused := sort (vf_refused f2)\<rparr>)))"

section \<open>The gate\<close>

definition add_latest_state ::
  "string \<Rightarrow> string \<Rightarrow> (string, verdict_state list) pydict \<Rightarrow> verdict_state \<Rightarrow> (string, verdict_state list) pydict" where
  "add_latest_state namespace subject latest s =
     (let r = vs_record s in
      if (vr_namespace r, vr_subject r) \<noteq> (namespace, subject) then latest
      else (case dget latest (vs_reviewer s) of
              None \<Rightarrow> dset (vs_reviewer s) [s] latest
            | Some current \<Rightarrow>
                (if vr_sequence (vs_record (hd current)) < vr_sequence r then dset (vs_reviewer s) [s] latest
                 else if vr_sequence r = vr_sequence (vs_record (hd current))
                 then dset (vs_reviewer s) (current @ [s]) latest
                 else latest)))"

definition comma_join :: "string list \<Rightarrow> string" where
  "comma_join ss = concat (case ss of [] \<Rightarrow> [] | s # rest \<Rightarrow> s # map (\<lambda>t. '', '' @ t) rest)"

definition verdict_reason :: "verdict_state \<Rightarrow> bool \<Rightarrow> string option" where
  "verdict_reason s allow_unrecorded =
     (if vr_outcome (vs_record s) \<noteq> ''accepted'' then Some (vr_outcome (vs_record s))
      else if vs_state s = Stale then Some (''stale input, unacknowledged corrections '' @ comma_join (vs_open s))
      else if vs_state s = Unbounded
      then Some (''dependency chain exceeds '' @ show_int (int MAX_DEPENDENCY_DEPTH) @ '' levels'')
      else if vs_state s = InputsUnrecorded \<and> \<not> allow_unrecorded then Some ''accepted without recorded inputs''
      else None)"

definition reviewer_reason :: "bool \<Rightarrow> string \<times> verdict_state list \<Rightarrow> string option" where
  "reviewer_reason allow_unrecorded entry =
     (let (reviewer, states) = entry in
      if 1 < length (remdups (map vs_record states)) then Some (reviewer @ '': conflicting verdicts at one sequence'')
      else map_option (\<lambda>reason. reviewer @ '': '' @ reason) (verdict_reason (hd states) allow_unrecorded))"

definition gate_decision :: "verdict_fold \<Rightarrow> string \<Rightarrow> string \<Rightarrow> bool \<Rightarrow> gate_result" where
  "gate_decision f namespace subject allow_unrecorded =
     (let latest = foldl (add_latest_state namespace subject) [] (vf_verdicts f) in
      if latest = []
      then \<lparr>gd_namespace = namespace, gd_subject = subject, gd_passed = False, gd_reasons = [''no verdict recorded'']\<rparr>
      else (let reasons = List.map_filter (reviewer_reason allow_unrecorded) (sort_key fst latest)
            in \<lparr>gd_namespace = namespace, gd_subject = subject, gd_passed = (reasons = []), gd_reasons = reasons\<rparr>))"

end
