(* ===== verification/Verdict_Properties.thy ===== *)
theory Verdict_Properties
  imports Verdict_Staleness
begin

text \<open>
  What the fold over verdict records means: a specification over the set of what was said (author,
  kind and text), and the proof that the fold and the gate compute it.
\<close>

section \<open>The dependency walk\<close>

definition below_rel :: "('a \<Rightarrow> 'a set) \<Rightarrow> ('a \<times> 'a) set" where
  "below_rel below = {(a, b). b \<in> below a}"

definition levels :: "('a \<times> 'a) set \<Rightarrow> nat \<Rightarrow> 'a set \<Rightarrow> 'a set" where
  "levels R k S = (\<Union>i < k. (R ^^ i) `` S)"

lemma levels_Suc: "levels R (Suc k) S = levels R k S \<union> (R ^^ k) `` S"
  unfolding levels_def lessThan_Suc by (simp add: Un_commute)

lemma levels_step: "R `` levels R k S \<subseteq> levels R (Suc k) S"
proof
  fix y assume "y \<in> R `` levels R k S"
  then obtain x s i where "i < k" "s \<in> S" "(s, x) \<in> R ^^ i" "(x, y) \<in> R" by (auto simp: levels_def)
  then have "Suc i < Suc k" "s \<in> S" "(s, y) \<in> R ^^ Suc i" by auto
  then show "y \<in> levels R (Suc k) S" unfolding levels_def by blast
qed

lemma level_next: "(R ^^ Suc k) `` S - levels R (Suc k) S = R `` ((R ^^ k) `` S - levels R k S) - levels R (Suc k) S"
  using levels_step [of R k S] by (auto simp: relcomp_Image)

lemma levels_stable:
  assumes "(R ^^ k) `` S - levels R k S = {}"
  shows "levels R (k + n) S = levels R k S" and "(R ^^ (k + n)) `` S \<subseteq> levels R k S"
proof -
  have "(R ^^ (k + n)) `` S - levels R (k + n) S = {} \<and> levels R (k + n) S = levels R k S"
  proof (induction n)
    case (Suc n)
    then have "levels R (k + Suc n) S = levels R k S" by (auto simp: levels_Suc)
    moreover have "(R ^^ (k + Suc n)) `` S - levels R (k + Suc n) S = {}"
    proof -
      have e: "(R ^^ (k + n)) `` S - levels R (k + n) S = {}" using Suc.IH by blast
      show ?thesis unfolding add_Suc_right level_next e by simp
    qed
    ultimately show ?case by blast
  qed (use assms in simp)
  then show "levels R (k + n) S = levels R k S" "(R ^^ (k + n)) `` S \<subseteq> levels R k S" by auto
qed

lemma follow_levels:
  fixes below :: "'a \<Rightarrow> 'a set" and S
  defines "R \<equiv> below_rel below"
  shows "follow_dependencies n below (levels R k S) ((R ^^ k) `` S - levels R k S)
     = (levels R (k + n) S, (R ^^ (k + n)) `` S - levels R (k + n) S = {})"
proof (induction n arbitrary: k)
  case (Suc n)
  let ?F = "(R ^^ k) `` S - levels R k S"
  show ?case
  proof (cases "?F = {}")
    case True
    then show ?thesis using levels_stable [OF True, of "Suc n"] by auto
  next
    case False
    have "levels R k S \<union> ?F = levels R (Suc k) S" by (auto simp: levels_Suc)
    moreover have "(\<Union>key \<in> ?F. below key) - levels R (Suc k) S = (R ^^ Suc k) `` S - levels R (Suc k) S"
      unfolding level_next by (auto simp: R_def below_rel_def)
    ultimately show ?thesis using False Suc.IH [of "Suc k"] by (simp add: Let_def)
  qed
qed simp

lemma levels_all: "levels R n S \<subseteq> R\<^sup>* `` S"
  by (auto simp: levels_def intro: relpow_imp_rtrancl)

lemma levels_closed:
  assumes "(R ^^ n) `` S - levels R n S = {}"
  shows "levels R n S = R\<^sup>* `` S"
proof
  show "R\<^sup>* `` S \<subseteq> levels R n S"
  proof
    fix y assume "y \<in> R\<^sup>* `` S"
    then obtain s i where s: "s \<in> S" "(s, y) \<in> R ^^ i" using rtrancl_imp_relpow by blast
    show "y \<in> levels R n S"
    proof (cases "i < n")
      case True
      then show ?thesis using s unfolding levels_def by blast
    next
      case False
      then obtain m where "i = n + m" by (metis le_Suc_ex not_less)
      then show ?thesis using levels_stable(2) [OF assms, of m] s by blast
    qed
  qed
qed (rule levels_all)

text \<open>The walk is bounded when everything reachable lies within the levels, and then it has found it all.\<close>

lemma follow_dependencies_exact:
  "follow_dependencies n below {} S =
     (levels (below_rel below) n S, (below_rel below)\<^sup>* `` S = levels (below_rel below) n S)"
proof -
  let ?R = "below_rel below"
  have "(?R ^^ n) `` S - levels ?R n S = {} \<longleftrightarrow> ?R\<^sup>* `` S = levels ?R n S"
  proof
    assume "?R\<^sup>* `` S = levels ?R n S"
    moreover have "(?R ^^ n) `` S \<subseteq> ?R\<^sup>* `` S" by (auto intro: relpow_imp_rtrancl)
    ultimately show "(?R ^^ n) `` S - levels ?R n S = {}" by blast
  qed (use levels_closed [of n ?R S] in auto)
  then show ?thesis using follow_levels [of n below 0 S] by (simp add: levels_def)
qed

section \<open>What was said\<close>

type_synonym utterance = "string \<times> string \<times> string"

definition utterance :: "recorded_note \<Rightarrow> utterance" where
  "utterance n = (rn_author n, rn_kind n, rn_text n)"

definition said :: "recorded_note list \<Rightarrow> utterance set" where
  "said notes = utterance ` set notes"

definition declares :: "(time \<Rightarrow> string) \<Rightarrow> correction_policy \<Rightarrow> utterance set \<Rightarrow> object_key \<Rightarrow> string \<Rightarrow> evidence_record \<Rightarrow> bool" where
  "declares fl policy U key a r \<longleftrightarrow>
     (\<exists>t. (a, ''evidence'', t) \<in> U \<and> parse_evidence fl t = Inr r)
     \<and> may_write policy (ev_namespace r) a \<and> key = (ev_namespace r, ev_sha256 r)"

definition corrected :: "(time \<Rightarrow> string) \<Rightarrow> correction_policy \<Rightarrow> utterance set \<Rightarrow> object_key \<Rightarrow> string \<Rightarrow> bool" where
  "corrected fl policy U key i \<longleftrightarrow>
     (\<exists>a t r. (a, ''correction'', t) \<in> U \<and> parse_correction fl t = Inr r \<and> i = correction_id fl r
        \<and> key = (cr_namespace r, cr_corrects r)
        \<and> ((\<exists>e. declares fl policy U key a e)
           \<or> (\<exists>b e. declares fl policy U key b e) \<and> may_correct policy (cr_namespace r) a))"

definition judged :: "(time \<Rightarrow> string) \<Rightarrow> correction_policy \<Rightarrow> utterance set \<Rightarrow> object_key \<Rightarrow> string \<Rightarrow> verdict_record \<Rightarrow> bool" where
  "judged fl policy U key a r \<longleftrightarrow>
     (\<exists>t. (a, ''verdict'', t) \<in> U \<and> parse_verdict fl t = Inr r)
     \<and> may_write policy (vr_namespace r) a \<and> key = (vr_namespace r, vr_subject r)"

definition latest_verdict :: "(time \<Rightarrow> string) \<Rightarrow> correction_policy \<Rightarrow> utterance set \<Rightarrow> object_key \<Rightarrow> string \<Rightarrow> verdict_record \<Rightarrow> bool" where
  "latest_verdict fl policy U key a r \<longleftrightarrow>
     judged fl policy U key a r \<and> (\<forall>s. judged fl policy U key a s \<longrightarrow> vr_sequence s \<le> vr_sequence r)"

definition rests_on :: "(time \<Rightarrow> string) \<Rightarrow> correction_policy \<Rightarrow> utterance set \<Rightarrow> string \<Rightarrow> (object_key \<times> object_key) set" where
  "rests_on fl policy U namespace =
     {(key, (m, d)) | key m d. m = namespace
        \<and> ((\<exists>a e. declares fl policy U key a e \<and> d \<in> set (ev_members e))
           \<or> (\<exists>a v. latest_verdict fl policy U key a v \<and> d \<in> set (vr_inputs v)))}"

definition cited :: "verdict_record \<Rightarrow> object_key set" where
  "cited r = Pair (vr_namespace r) ` set (vr_inputs r)"

definition supports :: "(time \<Rightarrow> string) \<Rightarrow> correction_policy \<Rightarrow> utterance set \<Rightarrow> verdict_record \<Rightarrow> object_key set" where
  "supports fl policy U r = (rests_on fl policy U (vr_namespace r))\<^sup>* `` cited r"

definition within_depth :: "(time \<Rightarrow> string) \<Rightarrow> correction_policy \<Rightarrow> utterance set \<Rightarrow> verdict_record \<Rightarrow> bool" where
  "within_depth fl policy U r \<longleftrightarrow>
     supports fl policy U r = levels (rests_on fl policy U (vr_namespace r)) (Suc MAX_DEPENDENCY_DEPTH) (cited r)"

definition spec_state :: "(time \<Rightarrow> string) \<Rightarrow> correction_policy \<Rightarrow> utterance set \<Rightarrow> verdict_record \<Rightarrow> freshness" where
  "spec_state fl policy U r =
     (if \<not> within_depth fl policy U r then Unbounded
      else if \<exists>key \<in> supports fl policy U r. \<exists>i. corrected fl policy U key i \<and> i \<notin> set (vr_acknowledged r) then Stale
      else if vr_outcome r = ''accepted'' \<and> vr_inputs r = [] then InputsUnrecorded
      else Fresh)"

section \<open>The counts\<close>

lemma parsed_notes_keeps:
  "parsed_notes fl ns refs = Some (kept, rs) \<Longrightarrow>
     kept = filter (\<lambda>n. rn_kind n \<in> set VERDICT_RECORD_KINDS \<and> validate_record_body fl (rn_kind n) (rn_text n) = Inr ()) ns"
proof (induction ns arbitrary: refs kept rs)
  case (Cons n ns)
  then show ?case by (auto split: if_splits sum.splits record_failure.splits)
qed simp

definition counted_evidence :: "(time \<Rightarrow> string) \<Rightarrow> correction_policy \<Rightarrow> recorded_note \<Rightarrow> object_key \<Rightarrow> evidence_record \<Rightarrow> bool" where
  "counted_evidence fl policy n key r \<longleftrightarrow>
     parse_evidence fl (rn_text n) = Inr r \<and> may_write policy (ev_namespace r) (rn_author n)
     \<and> key = (ev_namespace r, ev_sha256 r)"

lemma dget_or_dset: "dget_or v (dset k x d) k' = (if k' = k then x else dget_or v d k')"
  by (simp add: dget_or_def)

lemma count_evidence_note_step:
  "dget_or {} (vf_declarers (count_evidence_note fl policy f n)) key =
     dget_or {} (vf_declarers f) key \<union> {a. \<exists>r. counted_evidence fl policy n key r \<and> a = rn_author n}"
  "dget_or {} (vf_members (count_evidence_note fl policy f n)) key =
     dget_or {} (vf_members f) key \<union> {m. \<exists>r. counted_evidence fl policy n key r \<and> m \<in> set (ev_members r)}"
  "dget (vf_declarers f) key \<noteq> Some {} \<Longrightarrow> dget (vf_declarers (count_evidence_note fl policy f n)) key \<noteq> Some {}"
  "vf_corrections (count_evidence_note fl policy f n) = vf_corrections f"
  "vf_verdicts (count_evidence_note fl policy f n) = vf_verdicts f"
  by (cases "parse_evidence fl (rn_text n)";
      auto simp: count_evidence_note_def counted_evidence_def refuse_note_def object_key_def Let_def dget_or_dset)+

lemma count_evidence_note_fold:
  "dget_or {} (vf_declarers (foldl (count_evidence_note fl policy) f xs)) key =
     dget_or {} (vf_declarers f) key \<union> {a. \<exists>n \<in> set xs. \<exists>r. counted_evidence fl policy n key r \<and> a = rn_author n}"
  "dget_or {} (vf_members (foldl (count_evidence_note fl policy) f xs)) key =
     dget_or {} (vf_members f) key \<union> {m. \<exists>n \<in> set xs. \<exists>r. counted_evidence fl policy n key r \<and> m \<in> set (ev_members r)}"
  "dget (vf_declarers f) key \<noteq> Some {} \<Longrightarrow> dget (vf_declarers (foldl (count_evidence_note fl policy) f xs)) key \<noteq> Some {}"
  "vf_corrections (foldl (count_evidence_note fl policy) f xs) = vf_corrections f"
  "vf_verdicts (foldl (count_evidence_note fl policy) f xs) = vf_verdicts f"
proof (induction xs arbitrary: f)
  case (Cons n xs)
  { case 1 then show ?case using Cons(1) [of "count_evidence_note fl policy f n"] by (auto simp: count_evidence_note_step) }
  { case 2 then show ?case using Cons(2) [of "count_evidence_note fl policy f n"] by (auto simp: count_evidence_note_step) }
  { case 3 then show ?case using Cons(3) [of "count_evidence_note fl policy f n"] count_evidence_note_step(3) by auto }
  { case 4 then show ?case using Cons(4) [of "count_evidence_note fl policy f n"] by (simp add: count_evidence_note_step) }
  { case 5 then show ?case using Cons(5) [of "count_evidence_note fl policy f n"] by (simp add: count_evidence_note_step) }
qed simp_all

definition counted_correction ::
  "(time \<Rightarrow> string) \<Rightarrow> correction_policy \<Rightarrow> verdict_fold \<Rightarrow> recorded_note \<Rightarrow> object_key \<Rightarrow> string \<Rightarrow> bool" where
  "counted_correction fl policy f n key i \<longleftrightarrow>
     (\<exists>r. parse_correction fl (rn_text n) = Inr r \<and> key = (cr_namespace r, cr_corrects r) \<and> i = correction_id fl r
        \<and> (rn_author n \<in> dget_or {} (vf_declarers f) key
           \<or> dget (vf_declarers f) key \<noteq> None \<and> may_correct policy (cr_namespace r) (rn_author n)))"

lemma fst_dset: "fst ` set (dset k v d) = insert k (fst ` set d)"
  by (induction d) auto

lemma count_correction_note_step:
  "vf_declarers (count_correction_note fl policy f n) = vf_declarers f"
  "vf_members (count_correction_note fl policy f n) = vf_members f"
  "fst ` set (corrections_of (count_correction_note fl policy f n) key) =
     fst ` set (corrections_of f key) \<union> {i. counted_correction fl policy f n key i}"
  by (cases "parse_correction fl (rn_text n)";
      auto simp: count_correction_note_def counted_correction_def refuse_note_def object_key_def Let_def
        corrections_of_def dget_or_dset fst_dset)+

lemma counted_correction_cong:
  "vf_declarers g = vf_declarers f \<Longrightarrow> counted_correction fl policy g n key i = counted_correction fl policy f n key i"
  by (simp add: counted_correction_def)

lemma count_correction_note_fold:
  "vf_declarers (foldl (count_correction_note fl policy) f xs) = vf_declarers f"
  "vf_members (foldl (count_correction_note fl policy) f xs) = vf_members f"
  "fst ` set (corrections_of (foldl (count_correction_note fl policy) f xs) key) =
     fst ` set (corrections_of f key) \<union> {i. \<exists>n \<in> set xs. counted_correction fl policy f n key i}"
proof (induction xs arbitrary: f)
  case (Cons n xs)
  { case 1 then show ?case using Cons(1) by (simp add: count_correction_note_step) }
  { case 2 then show ?case using Cons(2) by (simp add: count_correction_note_step) }
  { case 3 then show ?case
      using Cons(3) [of "count_correction_note fl policy f n"] 
        count_correction_note_step(3) counted_correction_cong [OF count_correction_note_step(1)] by auto }
qed simp_all

definition counted_verdict :: "(time \<Rightarrow> string) \<Rightarrow> correction_policy \<Rightarrow> recorded_note \<Rightarrow> verdict_record \<Rightarrow> bool" where
  "counted_verdict fl policy n r \<longleftrightarrow> parse_verdict fl (rn_text n) = Inr r \<and> may_write policy (vr_namespace r) (rn_author n)"

lemma count_verdict_note_fold:
  assumes "foldl (count_verdict_note fl policy) (f, entries) xs = (g, out)"
  shows "set out = set entries \<union> {(n, r). n \<in> set xs \<and> counted_verdict fl policy n r}"
    and "vf_declarers g = vf_declarers f" and "vf_members g = vf_members f" and "vf_corrections g = vf_corrections f"
proof -
  have "set out = set entries \<union> {(n, r). n \<in> set xs \<and> counted_verdict fl policy n r}
      \<and> vf_declarers g = vf_declarers f \<and> vf_members g = vf_members f \<and> vf_corrections g = vf_corrections f"
    using assms
  proof (induction xs arbitrary: f entries)
    case (Cons n xs)
    obtain f2 entries2 where step: "count_verdict_note fl policy (f, entries) n = (f2, entries2)" by force
    have "set entries2 = set entries \<union> {(m, r). m = n \<and> counted_verdict fl policy n r}
      \<and> vf_declarers f2 = vf_declarers f \<and> vf_members f2 = vf_members f \<and> vf_corrections f2 = vf_corrections f"
      using step by (cases "parse_verdict fl (rn_text n)")
        (auto simp: count_verdict_note_def counted_verdict_def refuse_note_def split: if_splits)
    moreover have "set out = set entries2 \<union> {(m, r). m \<in> set xs \<and> counted_verdict fl policy m r}
      \<and> vf_declarers g = vf_declarers f2 \<and> vf_members g = vf_members f2 \<and> vf_corrections g = vf_corrections f2"
      using Cons.prems step by (intro Cons.IH) simp
    ultimately show ?case by auto
  qed simp
  then show "set out = set entries \<union> {(n, r). n \<in> set xs \<and> counted_verdict fl policy n r}"
    and "vf_declarers g = vf_declarers f" and "vf_members g = vf_members f" and "vf_corrections g = vf_corrections f"
    by auto
qed

text \<open>Keeping the entries with the highest number, per name.\<close>

definition keep_latest :: "('a \<Rightarrow> string) \<Rightarrow> ('a \<Rightarrow> 'b) \<Rightarrow> ('b \<Rightarrow> int) \<Rightarrow> (string, 'b list) pydict \<Rightarrow> 'a \<Rightarrow> (string, 'b list) pydict" where
  "keep_latest who what rank latest x =
     (case dget latest (who x) of
        None \<Rightarrow> dset (who x) [what x] latest
      | Some current \<Rightarrow>
          (if rank (hd current) < rank (what x) then dset (who x) [what x] latest
           else if rank (what x) = rank (hd current) then dset (who x) (current @ [what x]) latest
           else latest))"

definition highest :: "('a \<Rightarrow> string) \<Rightarrow> ('a \<Rightarrow> 'b) \<Rightarrow> ('b \<Rightarrow> int) \<Rightarrow> 'a set \<Rightarrow> string \<Rightarrow> 'b set" where
  "highest who what rank X a =
     {what x | x. x \<in> X \<and> who x = a \<and> (\<forall>y \<in> X. who y = a \<longrightarrow> rank (what y) \<le> rank (what x))}"

definition latest_ok :: "('a \<Rightarrow> string) \<Rightarrow> ('a \<Rightarrow> 'b) \<Rightarrow> ('b \<Rightarrow> int) \<Rightarrow> 'a set \<Rightarrow> (string, 'b list) pydict \<Rightarrow> bool" where
  "latest_ok who what rank X latest \<longleftrightarrow>
     dict_ok latest
     \<and> (\<forall>a. dget latest a = None \<longleftrightarrow> (\<forall>x \<in> X. who x \<noteq> a))
     \<and> (\<forall>a vs. dget latest a = Some vs \<longrightarrow> vs \<noteq> [] \<and> set vs = highest who what rank X a)"

lemma highest_rank: "u \<in> highest who what rank X a \<Longrightarrow> v \<in> highest who what rank X a \<Longrightarrow> rank u = rank v"
  by (force simp: highest_def)

lemma highest_insert:
  "highest who what rank (insert x X) a =
     (if who x \<noteq> a then highest who what rank X a
      else if \<forall>y \<in> X. who y = a \<longrightarrow> rank (what y) < rank (what x) then {what x}
      else if \<forall>y \<in> X. who y = a \<longrightarrow> rank (what y) \<le> rank (what x) then insert (what x) (highest who what rank X a)
      else highest who what rank X a)"
  by (auto simp: highest_def; force)

lemma latest_ok_step:
  assumes ok: "latest_ok who what rank X latest"
  shows "latest_ok who what rank (insert x X) (keep_latest who what rank latest x)"
proof (cases "dget latest (who x)")
  case None
  then have none: "\<forall>y \<in> X. who y \<noteq> who x" using ok by (simp add: latest_ok_def)
  have kept: "keep_latest who what rank latest x = dset (who x) [what x] latest"
    by (simp add: keep_latest_def None)
  have "highest who what rank (insert x X) a = (if a = who x then {what x} else highest who what rank X a)" for a
    using none by (auto simp: highest_insert)
  then show ?thesis using ok by (simp add: latest_ok_def kept)
next
  case (Some current)
  then have current: "current \<noteq> []" "set current = highest who what rank X (who x)"
    using ok by (auto simp: latest_ok_def)
  then have "hd current \<in> highest who what rank X (who x)" using list.set_sel(1) by blast
  then obtain y where y: "y \<in> X" "who y = who x" "what y = hd current"
      "\<forall>z \<in> X. who z = who x \<longrightarrow> rank (what z) \<le> rank (hd current)"
    by (auto simp: highest_def)
  have known: "\<exists>z \<in> X. who z = who x" using y by blast
  consider (higher) "rank (hd current) < rank (what x)" | (tie) "rank (what x) = rank (hd current)"
    | (lower) "rank (what x) < rank (hd current)" by linarith
  then have "highest who what rank (insert x X) (who x) =
      (if rank (hd current) < rank (what x) then {what x}
       else if rank (what x) = rank (hd current) then insert (what x) (set current) else set current)"
  proof cases
    case higher
    then show ?thesis using y(4) by (force simp: highest_insert)
  next
    case tie
    then have "\<not> (\<forall>z \<in> X. who z = who x \<longrightarrow> rank (what z) < rank (what x))" using y by force
    moreover have "\<forall>z \<in> X. who z = who x \<longrightarrow> rank (what z) \<le> rank (what x)" using y(4) tie by simp
    ultimately show ?thesis using tie current(2) unfolding highest_insert by auto
  next
    case lower
    then have "\<not> (\<forall>z \<in> X. who z = who x \<longrightarrow> rank (what z) \<le> rank (what x))" using y by force
    moreover have "\<not> (\<forall>z \<in> X. who z = who x \<longrightarrow> rank (what z) < rank (what x))" using y lower by force
    ultimately show ?thesis using lower current(2) unfolding highest_insert by auto
  qed
  moreover have "highest who what rank (insert x X) a = highest who what rank X a" if "a \<noteq> who x" for a
    using that by (simp add: highest_insert)
  moreover have "keep_latest who what rank latest x =
      (if rank (hd current) < rank (what x) then dset (who x) [what x] latest
       else if rank (what x) = rank (hd current) then dset (who x) (current @ [what x]) latest else latest)"
    by (simp add: keep_latest_def Some)
  ultimately show ?thesis
    using ok current known Some by (auto simp: latest_ok_def) metis+
qed

lemma latest_ok_fold:
  "latest_ok who what rank X latest \<Longrightarrow> latest_ok who what rank (X \<union> set xs) (foldl (keep_latest who what rank) latest xs)"
proof (induction xs arbitrary: X latest)
  case (Cons x xs)
  show ?case using Cons.IH [OF latest_ok_step [OF Cons.prems, of x]] by simp
qed simp

lemma latest_ok_all: "latest_ok who what rank (set xs) (foldl (keep_latest who what rank) [] xs)"
  using latest_ok_fold [of who what rank "{}" "[]" xs] by (simp add: latest_ok_def)

lemma latest_ok_values:
  assumes "latest_ok who what rank X latest"
  shows "set (concat (map snd latest)) = (\<Union>a. highest who what rank X a)"
proof (intro equalityI subsetI)
  fix v assume "v \<in> set (concat (map snd latest))"
  then obtain a vs where "(a, vs) \<in> set latest" "v \<in> set vs" by auto
  then show "v \<in> (\<Union>a. highest who what rank X a)"
    using assms dict_mem_iff [of latest a vs] by (auto simp: latest_ok_def)
next
  fix v assume "v \<in> (\<Union>a. highest who what rank X a)"
  then obtain a where v: "v \<in> highest who what rank X a" by blast
  then have "dget latest a \<noteq> None" using assms by (auto simp: latest_ok_def highest_def)
  then obtain vs where vs: "dget latest a = Some vs" by blast
  then have "(a, vs) \<in> set latest" using assms dict_mem_iff [of latest a vs] by (simp add: latest_ok_def)
  moreover have "v \<in> set vs" using vs v assms by (simp add: latest_ok_def)
  ultimately show "v \<in> set (concat (map snd latest))" by force
qed

lemma latest_by_reviewer_keep: "latest_by_reviewer entries = foldl (keep_latest fst snd vr_sequence) [] entries"
proof -
  have "add_latest = keep_latest fst snd vr_sequence"
    by (intro ext) (simp add: add_latest_def keep_latest_def case_prod_unfold Let_def)
  then show ?thesis by (simp add: latest_by_reviewer_def)
qed

definition subject_entries :: "(recorded_note \<times> verdict_record) list \<Rightarrow> object_key \<Rightarrow> (string \<times> verdict_record) list" where
  "subject_entries counted key =
     map (\<lambda>(n, r). (rn_author n, r)) (filter (\<lambda>(n, r). (vr_namespace r, vr_subject r) = key) counted)"

lemma add_subject_fold:
  "dget_or [] (foldl add_subject d counted) key = dget_or [] d key @ subject_entries counted key"
proof (induction counted arbitrary: d)
  case (Cons e counted)
  obtain n r where e: "e = (n, r)" by force
  show ?case
    using Cons.IH [of "add_subject d e"]
    by (simp add: e add_subject_def object_key_def subject_entries_def dget_or_dset Let_def)
qed (simp add: subject_entries_def)

lemma dget_map_pairs: "dget (map (\<lambda>(k, v). (k, g v)) d) k = map_option g (dget d k)"
  by (induction d) auto

lemma upstream_entries:
  "set (dget_or [] (upstream_verdicts counted) key) = (\<Union>a. highest fst snd vr_sequence (set (subject_entries counted key)) a)"
proof -
  let ?g = "\<lambda>entries. concat (map snd (latest_by_reviewer entries))"
  have vals: "set (?g entries) = (\<Union>a. highest fst snd vr_sequence (set entries) a)" for entries
    using latest_ok_values [OF latest_ok_all [of fst snd vr_sequence entries]] by (simp add: latest_by_reviewer_keep)
  have entries: "dget_or [] (foldl add_subject [] counted) key = subject_entries counted key"
    using add_subject_fold [of "[]" counted key] by (simp add: dget_or_def)
  have up: "dget_or [] (upstream_verdicts counted) key = ?g (subject_entries counted key)"
  proof (cases "dget (foldl add_subject [] counted) key")
    case None
    then have "subject_entries counted key = []" using entries by (simp add: dget_or_def)
    then show ?thesis using None by (simp add: upstream_verdicts_def dget_or_def dget_map_pairs latest_by_reviewer_def)
  next
    case (Some entries2)
    then show ?thesis using entries by (simp add: upstream_verdicts_def dget_or_def dget_map_pairs)
  qed
  then show ?thesis by (simp only: vals)
qed

section \<open>The fold computes the specification\<close>

text \<open>The parts of a fold: the notes kept, the state after each count and the counted verdicts.\<close>

definition fold_parts where
  "fold_parts fl policy ns f f0 f1 f2 counted \<longleftrightarrow>
     (\<exists>kept refs.
        kept = filter (\<lambda>n. rn_kind n \<in> set VERDICT_RECORD_KINDS \<and> validate_record_body fl (rn_kind n) (rn_text n) = Inr ()) ns
        \<and> f0 = foldl (count_evidence_note fl policy) (empty_fold\<lparr>vf_refused := refs\<rparr>) (sorted_kind kept ''evidence'')
        \<and> f1 = foldl (count_correction_note fl policy) f0 (sorted_kind kept ''correction'')
        \<and> foldl (count_verdict_note fl policy) (f1, []) (sorted_kind kept ''verdict'') = (f2, counted)
        \<and> f = f2\<lparr>vf_verdicts := map (derive_state f2 (upstream_verdicts counted)) counted, vf_refused := sort (vf_refused f2)\<rparr>)"

lemma fold_verdicts_parts:
  assumes "fold_verdicts fl policy ns = Some f"
  obtains f0 f1 f2 counted where "fold_parts fl policy ns f f0 f1 f2 counted"
proof -
  obtain kept refs where k: "parsed_notes fl ns [] = Some (kept, refs)"
    using assms by (auto simp: fold_verdicts_def split: option.splits)
  obtain f2 counted where c: "foldl (count_verdict_note fl policy)
      (count_corrections fl policy kept (count_evidence fl policy kept (empty_fold\<lparr>vf_refused := refs\<rparr>)), [])
      (sorted_kind kept ''verdict'') = (f2, counted)" by force
  have "f = f2\<lparr>vf_verdicts := map (derive_state f2 (upstream_verdicts counted)) counted, vf_refused := sort (vf_refused f2)\<rparr>"
    using assms k c by (simp add: fold_verdicts_def)
  then have "fold_parts fl policy ns f (count_evidence fl policy kept (empty_fold\<lparr>vf_refused := refs\<rparr>))
     (count_corrections fl policy kept (count_evidence fl policy kept (empty_fold\<lparr>vf_refused := refs\<rparr>))) f2 counted"
    unfolding fold_parts_def using c parsed_notes_keeps [OF k]
    by (intro exI [of _ kept] exI [of _ refs]) (simp add: count_corrections_def count_evidence_def)
  then show ?thesis by (rule that)
qed

lemma set_sorted_kind [simp]: "set (sorted_kind ns k) = {n \<in> set ns. rn_kind n = k}"
  by (auto simp: sorted_kind_def)

lemma validate_kinds:
  "validate_record_body fl ''evidence'' t = Inr () \<longleftrightarrow> (\<exists>r. parse_evidence fl t = Inr r)"
  "validate_record_body fl ''correction'' t = Inr () \<longleftrightarrow> (\<exists>r. parse_correction fl t = Inr r)"
  "validate_record_body fl ''verdict'' t = Inr () \<longleftrightarrow> (\<exists>r. parse_verdict fl t = Inr r)"
  by (simp_all add: validate_record_body_def sum_bind_Inr)

lemma in_said: "(a, k, t) \<in> said ns \<longleftrightarrow> (\<exists>n \<in> set ns. rn_author n = a \<and> rn_kind n = k \<and> rn_text n = t)"
  by (auto simp: said_def utterance_def)

lemma said_evidence:
  "declares fl policy (said ns) key a r \<longleftrightarrow>
     (\<exists>n \<in> set ns. rn_kind n = ''evidence'' \<and> rn_author n = a \<and> counted_evidence fl policy n key r)"
  by (auto simp: declares_def in_said counted_evidence_def)

lemma said_verdict:
  "judged fl policy (said ns) key a r \<longleftrightarrow>
     key = (vr_namespace r, vr_subject r)
     \<and> (\<exists>n \<in> set ns. rn_kind n = ''verdict'' \<and> rn_author n = a \<and> counted_verdict fl policy n r)"
  by (auto simp: judged_def in_said counted_verdict_def)

lemma parts_declarers:
  assumes "fold_parts fl policy ns f f0 f1 f2 counted"
  shows "dget_or {} (vf_declarers f0) key = {a. \<exists>r. declares fl policy (said ns) key a r}"
    and "(\<exists>as. dget (vf_declarers f0) key = Some as) \<longleftrightarrow> (\<exists>a r. declares fl policy (said ns) key a r)"
    and "dget_or {} (vf_members f0) key = {m. \<exists>a r. declares fl policy (said ns) key a r \<and> m \<in> set (ev_members r)}"
    and "corrections_of f0 key = []"
proof -
  obtain kept refs where k: "kept = filter (\<lambda>n. rn_kind n \<in> set VERDICT_RECORD_KINDS
        \<and> validate_record_body fl (rn_kind n) (rn_text n) = Inr ()) ns"
    and f: "f0 = foldl (count_evidence_note fl policy) (empty_fold\<lparr>vf_refused := refs\<rparr>) (sorted_kind kept ''evidence'')"
    using assms by (auto simp: fold_parts_def)
  have n: "n \<in> set (sorted_kind kept ''evidence'') \<and> counted_evidence fl policy n key r \<longleftrightarrow>
      n \<in> set ns \<and> rn_kind n = ''evidence'' \<and> counted_evidence fl policy n key r" for n r
    by (auto simp: k VERDICT_RECORD_KINDS_def counted_evidence_def validate_kinds)
  show d: "dget_or {} (vf_declarers f0) key = {a. \<exists>r. declares fl policy (said ns) key a r}"
    unfolding f count_evidence_note_fold said_evidence using n by (auto simp: empty_fold_def dget_or_def)
  have "dget (vf_declarers f0) key \<noteq> Some {}"
    unfolding f by (rule count_evidence_note_fold(3)) (simp add: empty_fold_def)
  then show "(\<exists>as. dget (vf_declarers f0) key = Some as) \<longleftrightarrow> (\<exists>a r. declares fl policy (said ns) key a r)"
    using d by (auto simp: dget_or_def split: option.splits)
  show "dget_or {} (vf_members f0) key = {m. \<exists>a r. declares fl policy (said ns) key a r \<and> m \<in> set (ev_members r)}"
    unfolding f count_evidence_note_fold said_evidence using n by (auto simp: empty_fold_def dget_or_def) metis
  show "corrections_of f0 key = []"
    unfolding f corrections_of_def count_evidence_note_fold by (simp add: empty_fold_def dget_or_def)
qed

lemma parts_corrections:
  assumes p: "fold_parts fl policy ns f f0 f1 f2 counted"
  shows "fst ` set (corrections_of f2 key) = {i. corrected fl policy (said ns) key i}"
    and "vf_members f2 = vf_members f0"
proof -
  obtain kept where k: "kept = filter (\<lambda>n. rn_kind n \<in> set VERDICT_RECORD_KINDS
        \<and> validate_record_body fl (rn_kind n) (rn_text n) = Inr ()) ns"
    and f: "f1 = foldl (count_correction_note fl policy) f0 (sorted_kind kept ''correction'')"
    and v: "foldl (count_verdict_note fl policy) (f1, []) (sorted_kind kept ''verdict'') = (f2, counted)"
    using p by (auto simp: fold_parts_def)
  have n: "n \<in> set (sorted_kind kept ''correction'') \<and> counted_correction fl policy f0 n key i \<longleftrightarrow>
      n \<in> set ns \<and> rn_kind n = ''correction'' \<and> counted_correction fl policy f0 n key i" for n i
    by (auto simp: k VERDICT_RECORD_KINDS_def counted_correction_def validate_kinds)
  have "fst ` set (corrections_of f2 key) = fst ` set (corrections_of f1 key)"
    using count_verdict_note_fold(4) [OF v] by (simp add: corrections_of_def)
  also have "\<dots> = {i. \<exists>n \<in> set ns. rn_kind n = ''correction'' \<and> counted_correction fl policy f0 n key i}"
    unfolding f count_correction_note_fold using n parts_declarers(4) [OF p] by auto
  also have "\<dots> = {i. corrected fl policy (said ns) key i}"
    by (auto simp: corrected_def counted_correction_def in_said parts_declarers(1,2) [OF p]) metis+
  finally show "fst ` set (corrections_of f2 key) = {i. corrected fl policy (said ns) key i}" .
  show "vf_members f2 = vf_members f0"
    using count_verdict_note_fold(3) [OF v] by (simp add: f count_correction_note_fold)
qed

lemma parts_counted:
  assumes "fold_parts fl policy ns f f0 f1 f2 counted"
  shows "set counted = {(n, r). n \<in> set ns \<and> rn_kind n = ''verdict'' \<and> counted_verdict fl policy n r}"
proof -
  obtain kept where k: "kept = filter (\<lambda>n. rn_kind n \<in> set VERDICT_RECORD_KINDS
        \<and> validate_record_body fl (rn_kind n) (rn_text n) = Inr ()) ns"
    and v: "foldl (count_verdict_note fl policy) (f1, []) (sorted_kind kept ''verdict'') = (f2, counted)"
    using assms by (auto simp: fold_parts_def)
  show ?thesis
    unfolding count_verdict_note_fold(1) [OF v]
    by (auto simp: k VERDICT_RECORD_KINDS_def counted_verdict_def validate_kinds)
qed

lemma parts_entries:
  assumes p: "fold_parts fl policy ns f f0 f1 f2 counted"
  shows "set (subject_entries counted key) = {(a, r). judged fl policy (said ns) key a r}"
  using parts_counted [OF p] by (force simp: subject_entries_def said_verdict)

lemma highest_judged:
  "highest fst snd vr_sequence {(a, r). judged fl policy U key a r} a = {r. latest_verdict fl policy U key a r}"
  by (auto simp: highest_def latest_verdict_def)

lemma parts_below:
  assumes p: "fold_parts fl policy ns f f0 f1 f2 counted"
  shows "below_rel (objects_below f2 (upstream_verdicts counted) m) = rests_on fl policy (said ns) m"
    and "finite (objects_below f2 (upstream_verdicts counted) m key)"
proof -
  have up: "set (dget_or [] (upstream_verdicts counted) key) = {r. \<exists>a. latest_verdict fl policy (said ns) key a r}" for key
    unfolding upstream_entries parts_entries [OF p] highest_judged by auto
  have below: "objects_below f2 (upstream_verdicts counted) m key =
      Pair m ` {d. (\<exists>a e. declares fl policy (said ns) key a e \<and> d \<in> set (ev_members e))
        \<or> (\<exists>a v. latest_verdict fl policy (said ns) key a v \<and> d \<in> set (vr_inputs v))}" for key
    unfolding objects_below_def up parts_corrections(2) [OF p] parts_declarers(3) [OF p] object_key_def by auto
  then show "below_rel (objects_below f2 (upstream_verdicts counted) m) = rests_on fl policy (said ns) m"
    by (auto simp: below_rel_def rests_on_def) metis+
  have "finite {a. \<exists>r. declares fl policy (said ns) key a r}"
    by (rule finite_subset [of _ "rn_author ` set ns"]) (auto simp: said_evidence)
  have "finite {e. \<exists>a. declares fl policy (said ns) key a e}"
    by (rule finite_subset [of _ "(\<lambda>n. projr (parse_evidence fl (rn_text n))) ` set ns"])
      (force simp: said_evidence counted_evidence_def)+
  then have "finite (\<Union>e \<in> {e. \<exists>a. declares fl policy (said ns) key a e}. set (ev_members e))" by blast
  moreover have "{d. \<exists>a e. declares fl policy (said ns) key a e \<and> d \<in> set (ev_members e)} \<subseteq>
      (\<Union>e \<in> {e. \<exists>a. declares fl policy (said ns) key a e}. set (ev_members e))" by auto
  ultimately have "finite {d. \<exists>a e. declares fl policy (said ns) key a e \<and> d \<in> set (ev_members e)}"
    by (rule rev_finite_subset)
  moreover have "finite (\<Union>v \<in> set (dget_or [] (upstream_verdicts counted) key). set (vr_inputs v))" by blast
  ultimately show "finite (objects_below f2 (upstream_verdicts counted) m key)"
    unfolding objects_below_def parts_corrections(2) [OF p] parts_declarers(3) [OF p] by auto
qed

lemma finite_levels: "finite S \<Longrightarrow> (\<And>a. finite (R `` {a})) \<Longrightarrow> finite (levels R k S)"
proof (induction k)
  case (Suc k)
  have "finite ((R ^^ j) `` S)" for j
  proof (induction j)
    case (Suc j)
    have "(R ^^ Suc j) `` S = (\<Union>a \<in> (R ^^ j) `` S. R `` {a})" by (auto simp: relcomp_Image)
    then show ?case using Suc Suc.prems by (metis Suc.IH \<open>\<And>a. finite (R `` {a})\<close> finite_UN_I)
  qed (simp add: \<open>finite S\<close>)
  then show ?case using Suc by (simp add: levels_Suc)
qed (simp add: levels_def)

lemma derived_state:
  assumes p: "fold_parts fl policy ns f f0 f1 f2 counted"
  defines "s n r \<equiv> derive_state f2 (upstream_verdicts counted) (n, r)"
  shows "vs_state (s n r) = spec_state fl policy (said ns) r"
    and "within_depth fl policy (said ns) r \<Longrightarrow> set (vs_open (s n r)) =
      {i. i \<notin> set (vr_acknowledged r) \<and> (\<exists>key \<in> supports fl policy (said ns) r. corrected fl policy (said ns) key i)}"
    and "vs_reviewer (s n r) = rn_author n" and "vs_record (s n r) = r" and "vs_seq (s n r) = rn_seq n"
proof -
  let ?R = "rests_on fl policy (said ns) (vr_namespace r)"
  let ?L = "levels ?R (Suc MAX_DEPENDENCY_DEPTH) (cited r)"
  have deps: "dependencies f2 r (upstream_verdicts counted) = (?L, within_depth fl policy (said ns) r)"
    unfolding dependencies_def follow_dependencies_exact parts_below(1) [OF p]
    by (simp add: within_depth_def supports_def cited_def object_key_def [abs_def])
  have "R `` {key} = objects_below f2 (upstream_verdicts counted) m key"
    if "R = rests_on fl policy (said ns) m" for R m key
    unfolding that parts_below(1) [OF p, symmetric] by (auto simp: below_rel_def)
  then have "finite (?R `` {key})" for key using parts_below(2) [OF p] by metis
  then have fin: "finite ?L" by (intro finite_levels) (simp_all add: cited_def)
  have opened: "set (vs_open (s n r)) = {i. i \<notin> set (vr_acknowledged r) \<and> (\<exists>key \<in> ?L. corrected fl policy (said ns) key i)}"
    using fin parts_corrections(1) [OF p]
    by (auto simp: s_def derive_state_def deps Let_def)
  show "within_depth fl policy (said ns) r \<Longrightarrow> set (vs_open (s n r)) =
      {i. i \<notin> set (vr_acknowledged r) \<and> (\<exists>key \<in> supports fl policy (said ns) r. corrected fl policy (said ns) key i)}"
    unfolding opened by (simp add: within_depth_def)
  have "vs_state (s n r) = (if \<not> within_depth fl policy (said ns) r then Unbounded
      else if vs_open (s n r) \<noteq> [] then Stale
      else if vr_outcome r = ''accepted'' \<and> vr_inputs r = [] then InputsUnrecorded else Fresh)"
    by (simp add: s_def derive_state_def deps Let_def)
  moreover have "vs_open (s n r) \<noteq> [] \<longleftrightarrow>
      (\<exists>key \<in> ?L. \<exists>i. corrected fl policy (said ns) key i \<and> i \<notin> set (vr_acknowledged r))"
    using opened by (auto simp flip: set_empty)
  ultimately show "vs_state (s n r) = spec_state fl policy (said ns) r"
    by (simp add: spec_state_def within_depth_def)
  show "vs_reviewer (s n r) = rn_author n" and "vs_record (s n r) = r" and "vs_seq (s n r) = rn_seq n"
    by (simp_all add: s_def derive_state_def deps Let_def)
qed

lemma fold_states:
  assumes f: "fold_verdicts fl policy ns = Some f"
  shows "(\<lambda>s. (vs_reviewer s, vs_record s)) ` set (vf_verdicts f) = {(a, r). \<exists>key. judged fl policy (said ns) key a r}"
    and "s \<in> set (vf_verdicts f) \<Longrightarrow> vs_state s = spec_state fl policy (said ns) (vs_record s)"
    and "s \<in> set (vf_verdicts f) \<Longrightarrow> within_depth fl policy (said ns) (vs_record s) \<Longrightarrow> set (vs_open s) =
      {i. i \<notin> set (vr_acknowledged (vs_record s))
          \<and> (\<exists>key \<in> supports fl policy (said ns) (vs_record s). corrected fl policy (said ns) key i)}"
proof -
  obtain f0 f1 f2 counted where p: "fold_parts fl policy ns f f0 f1 f2 counted"
    using fold_verdicts_parts [OF f] .
  have vf: "vf_verdicts f = map (derive_state f2 (upstream_verdicts counted)) counted"
    using p by (auto simp: fold_parts_def)
  note d = derived_state [OF p]
  have "(\<lambda>s. (vs_reviewer s, vs_record s)) ` set (vf_verdicts f) = (\<lambda>(n, r). (rn_author n, r)) ` set counted"
  proof -
    have "(vs_reviewer (derive_state f2 (upstream_verdicts counted) e), vs_record (derive_state f2 (upstream_verdicts counted) e))
        = (rn_author (fst e), snd e)" for e
      by (cases e) (simp add: d)
    then show ?thesis by (simp only: vf set_map image_image case_prod_unfold)
  qed
  also have "\<dots> = {(a, r). \<exists>key. judged fl policy (said ns) key a r}"
    unfolding parts_counted [OF p] by (force simp: said_verdict)
  finally show "(\<lambda>s. (vs_reviewer s, vs_record s)) ` set (vf_verdicts f) = {(a, r). \<exists>key. judged fl policy (said ns) key a r}" .
  assume "s \<in> set (vf_verdicts f)"
  then obtain n r where s: "s = derive_state f2 (upstream_verdicts counted) (n, r)" by (auto simp: vf)
  show "vs_state s = spec_state fl policy (said ns) (vs_record s)" by (simp add: s d)
  show "within_depth fl policy (said ns) (vs_record s) \<Longrightarrow> set (vs_open s) =
      {i. i \<notin> set (vr_acknowledged (vs_record s))
          \<and> (\<exists>key \<in> supports fl policy (said ns) (vs_record s). corrected fl policy (said ns) key i)}"
    using d(2) [of r n] by (simp add: s d(4))
qed

section \<open>The gate\<close>

definition may_approve :: "(time \<Rightarrow> string) \<Rightarrow> correction_policy \<Rightarrow> utterance set \<Rightarrow> string \<Rightarrow> string \<Rightarrow> bool \<Rightarrow> bool" where
  "may_approve fl policy U m subject allow \<longleftrightarrow>
     (\<exists>a r. judged fl policy U (m, subject) a r)
     \<and> (\<forall>a r. latest_verdict fl policy U (m, subject) a r \<longrightarrow>
          vr_outcome r = ''accepted''
          \<and> (spec_state fl policy U r = Fresh \<or> allow \<and> spec_state fl policy U r = InputsUnrecorded)
          \<and> (\<forall>s. latest_verdict fl policy U (m, subject) a s \<longrightarrow> s = r))"

definition on_subject :: "string \<Rightarrow> string \<Rightarrow> verdict_state list \<Rightarrow> verdict_state list" where
  "on_subject m subject ss = filter (\<lambda>s. (vr_namespace (vs_record s), vr_subject (vs_record s)) = (m, subject)) ss"

lemma add_latest_state_fold:
  "foldl (add_latest_state m subject) d ss = foldl (keep_latest vs_reviewer id (vr_sequence \<circ> vs_record)) d (on_subject m subject ss)"
proof (induction ss arbitrary: d)
  case (Cons s ss)
  show ?case
    using Cons.IH [of "add_latest_state m subject d s"]
    by (simp add: on_subject_def add_latest_state_def keep_latest_def Let_def split: option.splits)
qed (simp add: on_subject_def)

lemma one_record:
  assumes "xs \<noteq> []"
  shows "\<not> 1 < length (remdups xs) \<longleftrightarrow> (\<forall>x \<in> set xs. x = hd xs)"
proof
  assume "\<not> 1 < length (remdups xs)"
  moreover have "card (set xs) = length (remdups xs)" by (simp add: length_remdups_card_conv)
  ultimately have "card (set xs) \<le> 1" by simp
  then show "\<forall>x \<in> set xs. x = hd xs" using assms by (metis card_le_Suc0_iff_eq One_nat_def finite_set hd_in_set)
next
  assume "\<forall>x \<in> set xs. x = hd xs"
  then have "set xs \<subseteq> {hd xs}" by blast
  then have "card (set xs) \<le> 1" using card_mono [of "{hd xs}" "set xs"] by simp
  then show "\<not> 1 < length (remdups xs)" by (simp add: length_remdups_card_conv)
qed

lemma verdict_reason_None:
  "verdict_reason s allow = None \<longleftrightarrow>
     vr_outcome (vs_record s) = ''accepted'' \<and> (vs_state s = Fresh \<or> allow \<and> vs_state s = InputsUnrecorded)"
  by (cases "vs_state s") (auto simp: verdict_reason_def)

lemma reviewer_reason_None:
  "ss \<noteq> [] \<Longrightarrow> reviewer_reason allow (a, ss) = None \<longleftrightarrow>
     (\<forall>s \<in> set ss. vs_record s = vs_record (hd ss)) \<and> verdict_reason (hd ss) allow = None"
proof -
  assume ne: "ss \<noteq> []"
  then have "\<not> 1 < length (remdups (map vs_record ss)) \<longleftrightarrow> (\<forall>s \<in> set ss. vs_record s = vs_record (hd ss))"
    by (subst one_record) (auto simp: hd_map)
  then show ?thesis unfolding reviewer_reason_def Let_def prod.case by (cases "verdict_reason (hd ss) allow") auto
qed

lemma map_filter_Nil: "List.map_filter g xs = [] \<longleftrightarrow> (\<forall>x \<in> set xs. g x = None)"
  by (induction xs) (auto simp: map_filter_simps split: option.splits)

lemma highest_states:
  assumes f: "fold_verdicts fl policy ns = Some f"
  shows "vs_record ` highest vs_reviewer id (vr_sequence \<circ> vs_record) (set (on_subject m subject (vf_verdicts f))) a
     = {r. latest_verdict fl policy (said ns) (m, subject) a r}"
proof -
  let ?X = "set (on_subject m subject (vf_verdicts f))"
  have X: "(\<exists>s \<in> ?X. vs_reviewer s = a \<and> vs_record s = r) \<longleftrightarrow> judged fl policy (said ns) (m, subject) a r" for a r
  proof -
    have "(\<exists>s \<in> ?X. vs_reviewer s = a \<and> vs_record s = r) \<longleftrightarrow>
        (m, subject) = (vr_namespace r, vr_subject r)
        \<and> (a, r) \<in> (\<lambda>s. (vs_reviewer s, vs_record s)) ` set (vf_verdicts f)"
      by (auto simp: on_subject_def)
    also have "\<dots> \<longleftrightarrow> judged fl policy (said ns) (m, subject) a r"
      unfolding fold_states(1) [OF f] by (auto simp: judged_def)
    finally show ?thesis .
  qed
  show ?thesis
  proof (intro equalityI subsetI)
    fix r assume "r \<in> vs_record ` highest vs_reviewer id (vr_sequence \<circ> vs_record) ?X a"
    then obtain s where s: "s \<in> ?X" "vs_reviewer s = a" "vs_record s = r"
        "\<forall>t \<in> ?X. vs_reviewer t = a \<longrightarrow> vr_sequence (vs_record t) \<le> vr_sequence r"
      by (auto simp: highest_def)
    have "vr_sequence q \<le> vr_sequence r" if "judged fl policy (said ns) (m, subject) a q" for q
      using that s(4) X by metis
    then show "r \<in> {r. latest_verdict fl policy (said ns) (m, subject) a r}"
      using s(1-3) X by (auto simp: latest_verdict_def)
  next
    fix r assume "r \<in> {r. latest_verdict fl policy (said ns) (m, subject) a r}"
    then have r: "judged fl policy (said ns) (m, subject) a r"
        "\<And>q. judged fl policy (said ns) (m, subject) a q \<Longrightarrow> vr_sequence q \<le> vr_sequence r"
      by (auto simp: latest_verdict_def)
    then obtain s where s: "s \<in> ?X" "vs_reviewer s = a" "vs_record s = r" using X by metis
    have "vr_sequence (vs_record t) \<le> vr_sequence r" if "t \<in> ?X" "vs_reviewer t = a" for t
      using that r(2) X by metis
    then have "s \<in> highest vs_reviewer id (vr_sequence \<circ> vs_record) ?X a"
      using s by (auto simp: highest_def)
    then show "r \<in> vs_record ` highest vs_reviewer id (vr_sequence \<circ> vs_record) ?X a" using s(3) by blast
  qed
qed

lemma gate_passed:
  assumes f: "fold_verdicts fl policy ns = Some f"
  shows "gd_passed (gate_decision f m subject allow) \<longleftrightarrow> may_approve fl policy (said ns) m subject allow"
proof -
  define X where "X = set (on_subject m subject (vf_verdicts f))"
  define latest where "latest = foldl (add_latest_state m subject) [] (vf_verdicts f)"
  let ?H = "highest vs_reviewer id (vr_sequence \<circ> vs_record) X"
  let ?latest = "latest_verdict fl policy (said ns) (m, subject)"
  have ok: "latest_ok vs_reviewer id (vr_sequence \<circ> vs_record) X latest"
    unfolding latest_def add_latest_state_fold X_def by (rule latest_ok_all)
  have H: "vs_record ` ?H a = {r. ?latest a r}" for a
    unfolding X_def by (rule highest_states [OF f])
  have state: "vs_state s = spec_state fl policy (said ns) (vs_record s)" if "s \<in> ?H a" for s a
    using that fold_states(2) [OF f] by (auto simp: highest_def X_def on_subject_def)
  have some: "latest = [] \<longleftrightarrow> \<not> (\<exists>a r. judged fl policy (said ns) (m, subject) a r)"
  proof -
    have "latest = [] \<longleftrightarrow> (\<forall>a. dget latest a = None)" by (cases latest) auto
    also have "\<dots> \<longleftrightarrow> X = {}" using ok by (auto simp: latest_ok_def)
    also have "\<dots> \<longleftrightarrow> \<not> (\<exists>a r. judged fl policy (said ns) (m, subject) a r)"
    proof -
      have "X \<noteq> {} \<longleftrightarrow> (\<exists>a r. (a, r) \<in> (\<lambda>s. (vs_reviewer s, vs_record s)) ` set (vf_verdicts f)
          \<and> (vr_namespace r, vr_subject r) = (m, subject))"
        by (auto simp: X_def on_subject_def)
      then show ?thesis unfolding fold_states(1) [OF f] by (auto simp: judged_def)
    qed
    finally show ?thesis .
  qed
  have clear: "reviewer_reason allow (a, ss) = None \<longleftrightarrow>
      (\<forall>r. ?latest a r \<longrightarrow> vr_outcome r = ''accepted''
         \<and> (spec_state fl policy (said ns) r = Fresh \<or> allow \<and> spec_state fl policy (said ns) r = InputsUnrecorded)
         \<and> (\<forall>s. ?latest a s \<longrightarrow> s = r))" if "dget latest a = Some ss" for a ss
  proof -
    have ss: "ss \<noteq> []" "set ss = ?H a" using ok that by (auto simp: latest_ok_def)
    then have hd: "hd ss \<in> ?H a" using list.set_sel(1) by blast
    then have top: "?latest a (vs_record (hd ss))" using H by blast
    have all: "(\<forall>s \<in> set ss. vs_record s = vs_record (hd ss)) \<longleftrightarrow> (\<forall>r. ?latest a r \<longrightarrow> r = vs_record (hd ss))"
      unfolding ss(2) using H [of a] by (metis (mono_tags, lifting) image_iff mem_Collect_eq)
    show ?thesis
      unfolding reviewer_reason_None [OF ss(1)] verdict_reason_None all state [OF hd] using top by metis
  qed
  have "gd_passed (gate_decision f m subject allow) \<longleftrightarrow>
      latest \<noteq> [] \<and> (\<forall>a ss. dget latest a = Some ss \<longrightarrow> reviewer_reason allow (a, ss) = None)"
    using ok dict_mem_iff [of latest]
    by (auto simp: gate_decision_def Let_def map_filter_Nil latest_def [symmetric] latest_ok_def)
  also have "\<dots> \<longleftrightarrow> may_approve fl policy (said ns) m subject allow"
  proof -
    have known: "(\<exists>ss. dget latest a = Some ss)" if "?latest a r" for a r
    proof -
      have "r \<in> vs_record ` ?H a" using that H [of a] by simp
      then obtain x where "x \<in> X" "vs_reviewer x = a" by (auto simp: highest_def)
      then show ?thesis using ok unfolding latest_ok_def by (metis not_None_eq)
    qed
    have "(\<forall>a ss. dget latest a = Some ss \<longrightarrow> reviewer_reason allow (a, ss) = None) \<longleftrightarrow>
        (\<forall>a r. ?latest a r \<longrightarrow> vr_outcome r = ''accepted''
         \<and> (spec_state fl policy (said ns) r = Fresh \<or> allow \<and> spec_state fl policy (said ns) r = InputsUnrecorded)
         \<and> (\<forall>s. ?latest a s \<longrightarrow> s = r))" (is "?l \<longleftrightarrow> ?r")
    proof
      assume l: ?l
      show ?r
      proof (intro allI impI)
        fix a r assume r: "?latest a r"
        then obtain ss where ss: "dget latest a = Some ss" using known by blast
        then have "reviewer_reason allow (a, ss) = None" using l by blast
        from iffD1 [OF clear [OF ss] this, rule_format, OF r] show "vr_outcome r = ''accepted''
         \<and> (spec_state fl policy (said ns) r = Fresh \<or> allow \<and> spec_state fl policy (said ns) r = InputsUnrecorded)
         \<and> (\<forall>s. ?latest a s \<longrightarrow> s = r)" by blast
      qed
    next
      assume r: ?r
      show ?l
      proof (intro allI impI)
        fix a ss assume ss: "dget latest a = Some ss"
        show "reviewer_reason allow (a, ss) = None" by (rule iffD2 [OF clear [OF ss]]) (use r in blast)
      qed
    qed
    then show ?thesis unfolding some may_approve_def by simp
  qed
  finally show ?thesis .
qed

end
