(* ===== verification/Verdict_Hub.thy ===== *)
theory Verdict_Hub
  imports Verdict_Properties Atomic_Operations
begin

text \<open>
  Admission of verdict records and the approval gate (\<open>core/verdict_hub.py\<close>,
  \<open>core/handlers/verdict_admission.py\<close>, the note format of \<open>core/approvals.py\<close>).  The journal is its
  list of rows; a handler returns the rows it appends and the messages it sends.
\<close>

section \<open>Approval notes\<close>

definition APPROVAL_STATES :: "string list" where
  "APPROVAL_STATES = [''requested'', ''approved'', ''rejected'']"

text \<open>\<open>str.split()\<close> and \<open>str.partition\<close>.\<close>

function py_words :: "string \<Rightarrow> string list" where
  "py_words [] = []"
| "py_words (c # cs) =
     (if py_isspace c then py_words cs
      else (c # takeWhile (\<lambda>d. \<not> py_isspace d) cs) # py_words (dropWhile (\<lambda>d. \<not> py_isspace d) cs))"
  by pat_completeness auto
termination by (relation "measure length") (auto simp: length_dropWhile_le le_imp_less_Suc)

fun py_partition :: "string \<Rightarrow> string \<Rightarrow> string \<times> bool \<times> string" where
  "py_partition sep [] = ([], False, [])"
| "py_partition sep (c # cs) =
     (if prefix sep (c # cs) then ([], True, drop (length sep) (c # cs))
      else (let (head, found, tail) = py_partition sep cs in (c # head, found, tail)))"

record approval_note =
  an_subject :: string
  an_state :: string
  an_reason :: string

definition format_approval_note :: "string \<Rightarrow> string \<Rightarrow> string \<Rightarrow> string option" where
  "format_approval_note subject state reason =
     (let cleaned = py_strip subject in
      if cleaned = [] \<or> list_ex py_isspace cleaned \<or> state \<notin> set APPROVAL_STATES then None
      else (let head = ''approval subject='' @ cleaned @ '' state='' @ state;
                reason_line = py_join CHR '' '' (py_words reason)
            in Some (if reason_line = [] then head else head @ '' :: '' @ reason_line)))"

definition approval_pair :: "(string, string) pydict \<Rightarrow> string \<Rightarrow> (string, string) pydict" where
  "approval_pair pairs token =
     (let (key, found, v) = py_partition ''='' token in if found then dset key v pairs else pairs)"

definition parse_approval_note :: "string \<Rightarrow> approval_note option" where
  "parse_approval_note text =
     (let (head, _, reason) = py_partition '' :: '' text in
      case py_words head of
        [] \<Rightarrow> None
      | first # tokens \<Rightarrow>
          (if first \<noteq> ''approval'' then None
           else (let pairs = foldl approval_pair [] tokens;
                     subject = py_strip (dget_or [] pairs ''subject'');
                     state = py_strip (dget_or [] pairs ''state'')
                 in if subject = [] \<or> state \<notin> set APPROVAL_STATES then None
                    else Some \<lparr>an_subject = subject, an_state = state, an_reason = py_strip reason\<rparr>)))"

section \<open>Policy and recorded notes\<close>

record verdict_hub_policy =
  verdict_authority :: "(string, string set) pydict"
  gate_enabled :: bool
  allow_unrecorded_inputs :: bool

definition correction_policy_of :: "verdict_hub_policy \<Rightarrow> correction_policy" where
  "correction_policy_of policy =
     (let allowed = (\<lambda>namespace seat. seat \<in> dget_or {} (verdict_authority policy) namespace)
      in \<lparr>may_write = (\<lambda>namespace seat. hd (py_split CHR 0x2F seat) = namespace \<or> allowed namespace seat),
          may_correct = allowed\<rparr>)"

text \<open>\<open>None\<close> is the \<open>ValueError\<close>.\<close>

definition add_authority :: "(string, string set) pydict option \<Rightarrow> string \<Rightarrow> (string, string set) pydict option" where
  "add_authority acc spec =
     (case acc of
        None \<Rightarrow> None
      | Some allowed \<Rightarrow>
          (let (namespace, found, seat) = py_partition ''='' spec in
           if \<not> found \<or> py_strip namespace = [] \<or> py_strip seat = [] then None
           else Some (dset (py_strip namespace) (dget_or {} allowed (py_strip namespace) \<union> {py_strip seat}) allowed)))"

definition parse_verdict_authority :: "string list \<Rightarrow> (string, string set) pydict option" where
  "parse_verdict_authority specs = foldl add_authority (Some []) specs"

definition recorded_row :: "journal_event \<Rightarrow> journal_error + recorded_note" where
  "recorded_row ev =
     sum_bind (text_field (ev_payload ev) ''kind'') (\<lambda>kind.
     sum_bind (text_field (ev_payload ev) ''author'') (\<lambda>author.
     sum_bind (text_field (ev_payload ev) ''text'') (\<lambda>text.
       Inr \<lparr>rn_seq = ev_seq ev, rn_author = author, rn_kind = kind, rn_text = text\<rparr>)))"

definition verdict_row :: "journal_event \<Rightarrow> bool" where
  "verdict_row ev \<longleftrightarrow>
     ev_kind ev = ''ledger_progress''
     \<and> (case text_field (ev_payload ev) ''kind'' of Inl _ \<Rightarrow> True | Inr k \<Rightarrow> k \<in> set VERDICT_RECORD_KINDS)"

definition recorded_notes :: "journal_event list \<Rightarrow> journal_error + recorded_note list" where
  "recorded_notes rows = sum_all (map recorded_row (filter verdict_row rows))"

definition candidate_note :: "recorded_note list \<Rightarrow> string \<Rightarrow> string \<Rightarrow> string \<Rightarrow> recorded_note" where
  "candidate_note ns author kind text =
     \<lparr>rn_seq = (case map rn_seq ns of [] \<Rightarrow> 0 | s # ss \<Rightarrow> fold max ss s) + 1, rn_author = author, rn_kind = kind, rn_text = text\<rparr>"

section \<open>Admission\<close>

text \<open>The message of a \<open>VerdictRecordError\<close>.\<close>

fun record_error_text :: "record_error \<Rightarrow> string" where
  "record_error_text NotJsonBody = ''record body is not JSON''"
| "record_error_text NotAnObject = ''record body must be an object''"
| "record_error_text (WrongSchema s) = ''record schema must be '' @ s"
| "record_error_text (WrongFields names) = ''record fields must be exactly '' @ comma_join names"
| "record_error_text NotCanonical = ''record body is not canonical JSON''"
| "record_error_text InvalidNamespace = ''namespace is invalid''"
| "record_error_text (InvalidDigest f) = f @ '' must be 64 lowercase hexadecimal characters''"
| "record_error_text (NotAList f) = f @ '' must be a list''"
| "record_error_text (TooManyEntries f n) = f @ '' exceeds '' @ show_int (int n) @ '' entries''"
| "record_error_text (NotSortedUnique f) = f @ '' must be sorted and unique''"
| "record_error_text SelfMember = ''a manifest cannot list itself as a member''"
| "record_error_text UnknownOutcome = ''outcome must be accepted, rejected or changes-required''"
| "record_error_text InvalidAuthor = ''author must be a seat name''"
| "record_error_text InvalidSequence = ''reviewer_sequence must be a positive integer''"
| "record_error_text SelfInput = ''a verdict cannot cite its own subject as an input''"
| "record_error_text SameReplacement = ''a correction must name a different replacement''"
| "record_error_text EmptyReason = ''reason must be non-empty text''"
| "record_error_text ReasonTooLong = ''reason exceeds '' @ show_int (int MAX_REASON_BYTES) @ '' bytes''"
| "record_error_text (UnknownRecordKind k) = ''unknown record kind '' @ quoted k"

text \<open>
  What escapes the admission code: the \<open>TypeError\<close> of an outcome without a hash, or a journal payload
  whose text is outside the model.
\<close>

datatype admission_failure = OutcomeTypeError | PayloadOutside journal_error

definition folded :: "(time \<Rightarrow> string) \<Rightarrow> correction_policy \<Rightarrow> recorded_note list \<Rightarrow> admission_failure + verdict_fold" where
  "folded fl policy ns = (case fold_verdicts fl policy ns of None \<Rightarrow> Inl OutcomeTypeError | Some f \<Rightarrow> Inr f)"

definition admission_refusal ::
  "(time \<Rightarrow> string) \<Rightarrow> recorded_note list \<Rightarrow> verdict_hub_policy \<Rightarrow> string \<Rightarrow> string \<Rightarrow> string \<Rightarrow> admission_failure + string option" where
  "admission_refusal fl ns policy author kind text =
     (case validate_record_body fl kind text of
        Inl UnhashableTypeError \<Rightarrow> Inl OutcomeTypeError
      | Inl (VerdictRecordError e) \<Rightarrow> Inr (Some (''malformed '' @ kind @ '' record: '' @ record_error_text e))
      | Inr _ \<Rightarrow>
          (let c = candidate_note ns author kind text in
           sum_bind (folded fl (correction_policy_of policy) (ns @ [c])) (\<lambda>f.
             Inr (map_option snd (List.find (\<lambda>(s, reason). s = rn_seq c) (vf_refused f))))))"

definition newly_stale ::
  "(time \<Rightarrow> string) \<Rightarrow> recorded_note list \<Rightarrow> verdict_hub_policy \<Rightarrow> string \<Rightarrow> string \<Rightarrow> string
    \<Rightarrow> admission_failure + verdict_state list" where
  "newly_stale fl ns policy author kind text =
     (let rules = correction_policy_of policy in
      sum_bind (folded fl rules ns) (\<lambda>earlier.
      sum_bind (folded fl rules (ns @ [candidate_note ns author kind text])) (\<lambda>later.
        let seen = foldl (\<lambda>d s. dset (vs_seq s) (vs_state s) d) [] (vf_verdicts earlier)
        in Inr (filter (\<lambda>s. vs_state s = Stale \<and> dget seen (vs_seq s) \<noteq> Some Stale) (vf_verdicts later)))))"

text \<open>An approval subject: 64 hexadecimal digits, after an optional \<open>sha256:\<close>.\<close>

definition subject_digest :: "string \<Rightarrow> string option" where
  "subject_digest subject =
     (let s = py_strip subject; d = (if prefix ''sha256:'' s then drop 7 s else s)
      in if is_sha256 d then Some d else None)"

definition approver_namespace :: "string \<Rightarrow> string" where
  "approver_namespace approver = hd (py_split CHR 0x2F approver)"

definition approval_refusal ::
  "(time \<Rightarrow> string) \<Rightarrow> recorded_note list \<Rightarrow> verdict_hub_policy \<Rightarrow> string \<Rightarrow> string \<Rightarrow> admission_failure + gate_result option" where
  "approval_refusal fl ns policy subject approver =
     (case subject_digest subject of
        None \<Rightarrow> Inr None
      | Some d \<Rightarrow>
          (if \<not> gate_enabled policy then Inr None
           else sum_bind (folded fl (correction_policy_of policy) ns) (\<lambda>f.
             let g = gate_decision f (approver_namespace approver) d (allow_unrecorded_inputs policy)
             in Inr (if gd_passed g then None else Some g))))"

section \<open>The progress handler's checks\<close>

definition semicolon_join :: "string list \<Rightarrow> string" where
  "semicolon_join ss = concat (case ss of [] \<Rightarrow> [] | s # rest \<Rightarrow> s # map (\<lambda>t. ''; '' @ t) rest)"

text \<open>The refusal of an approval and the row of a switched-off gate.\<close>

definition approval_gate ::
  "(time \<Rightarrow> string) \<Rightarrow> recorded_note list \<Rightarrow> verdict_hub_policy \<Rightarrow> string \<Rightarrow> string
    \<Rightarrow> admission_failure + string option \<times> (string \<times> json_object) list" where
  "approval_gate fl ns policy sender subject =
     (if gate_enabled policy
      then sum_bind (approval_refusal fl ns policy subject sender) (\<lambda>refusal.
        Inr (map_option (\<lambda>g. ''approval gate: '' @ semicolon_join (gd_reasons g)) refusal, []))
      else if subject_digest subject \<noteq> None
      then sum_bind (approval_refusal fl ns (policy\<lparr>gate_enabled := True\<rparr>) subject sender) (\<lambda>would.
        Inr (None,
          [(''verdict_gate_bypass'',
            [(''author'', JString sender), (''subject'', JString subject), (''gate_would_refuse'', JBool (would \<noteq> None)),
             (''reasons'', JList (case would of None \<Rightarrow> [] | Some g \<Rightarrow> map JString (gd_reasons g)))])]))
      else Inr (None, []))"

definition refusal_row :: "string \<Rightarrow> string \<Rightarrow> string \<Rightarrow> string \<Rightarrow> string \<times> json_object" where
  "refusal_row sender kind task reason =
     (''verdict_record_refused'',
      [(''author'', JString sender), (''kind'', JString kind), (''task_id'', JString task), (''reason'', JString reason)])"

text \<open>The refusal, the notes read for it and the rows appended.\<close>

definition progress_refusal ::
  "(time \<Rightarrow> string) \<Rightarrow> journal_event list option \<Rightarrow> verdict_hub_policy \<Rightarrow> string \<Rightarrow> string \<Rightarrow> string \<Rightarrow> string
    \<Rightarrow> admission_failure + string option \<times> recorded_note list \<times> (string \<times> json_object) list" where
  "progress_refusal fl journal policy sender task kind text =
     (let read = (\<lambda>rows. case recorded_notes rows of Inl e \<Rightarrow> Inl (PayloadOutside e) | Inr ns \<Rightarrow> Inr ns);
          finish = (\<lambda>ns reason rows.
            Inr (reason, ns, rows @ (case reason of None \<Rightarrow> [] | Some r \<Rightarrow> [refusal_row sender kind task r])))
      in if kind \<in> set VERDICT_RECORD_KINDS
         then (case journal of
                 None \<Rightarrow> Inr (Some ''evidence, verdict and correction records need a durable journal'', [], [])
               | Some rows \<Rightarrow>
                   sum_bind (read rows) (\<lambda>ns.
                   sum_bind (admission_refusal fl ns policy sender kind text) (\<lambda>reason. finish ns reason [])))
         else if kind = ''approval''
         then (case journal of
                 None \<Rightarrow> Inr (None, [], [])
               | Some rows \<Rightarrow>
                   (case parse_approval_note text of
                      None \<Rightarrow> Inr (None, [], [])
                    | Some a \<Rightarrow>
                        (if an_state a \<noteq> ''approved'' then Inr (None, [], [])
                         else sum_bind (read rows) (\<lambda>ns.
                           sum_bind (approval_gate fl ns policy sender (an_subject a)) (\<lambda>(reason, bypass). finish ns reason bypass)))))
         else Inr (None, [], []))"

text \<open>The rows and the directed notices of verdicts that a correction turned stale.\<close>

definition stale_record :: "string \<Rightarrow> verdict_state \<Rightarrow> json_object" where
  "stale_record sender s =
     [(''verdict_seq'', JInt (vs_seq s)), (''namespace'', JString (vr_namespace (vs_record s))),
      (''subject_sha256'', JString (vr_subject (vs_record s))), (''author'', JString (vr_author (vs_record s))),
      (''reviewer'', JString (vs_reviewer s)), (''corrections'', JList (map JString (vs_open s))),
      (''corrected_by'', JString sender)]"

definition stale_notice :: "string \<Rightarrow> verdict_state \<Rightarrow> string" where
  "stale_notice sender s =
     ''Verdict at seq '' @ show_int (vs_seq s) @ '' on '' @ vr_namespace (vs_record s) @ '':'' @ vr_subject (vs_record s)
       @ '' is stale: an input it read was corrected by '' @ sender @ ''.''"

definition announce_stale_verdicts ::
  "(time \<Rightarrow> string) \<Rightarrow> journal_event list option \<Rightarrow> verdict_hub_policy \<Rightarrow> recorded_note list \<Rightarrow> string \<Rightarrow> string \<Rightarrow> string
    \<Rightarrow> admission_failure + (string \<times> json_object) list \<times> (string \<times> string) list" where
  "announce_stale_verdicts fl journal policy ns sender kind text =
     (if kind \<noteq> ''correction'' \<or> journal = None then Inr ([], [])
      else sum_bind (newly_stale fl ns policy sender kind text) (\<lambda>stale.
        Inr (map (\<lambda>s. (''verdict_stale'', stale_record sender s)) stale,
             concat (map (\<lambda>s. map (\<lambda>seat. (seat, stale_notice sender s))
               (sort (remdups [vr_author (vs_record s), vs_reviewer s]))) stale))))"

end
