(* ===== verification/Verdict_Gate.thy ===== *)
theory Verdict_Gate
  imports Verdict_Hub
begin

text \<open>
  What the hub guarantees about verdict records: which notes it admits, that an admitted note keeps
  counting, what a verdict's state and an approval depend on, and who cannot influence them.
\<close>

section \<open>Which notes count\<close>

definition note_counts :: "(time \<Rightarrow> string) \<Rightarrow> correction_policy \<Rightarrow> utterance set \<Rightarrow> string \<Rightarrow> string \<Rightarrow> string \<Rightarrow> bool" where
  "note_counts fl policy U a kind text \<longleftrightarrow>
     (kind = ''evidence'' \<and> (\<exists>r. parse_evidence fl text = Inr r \<and> may_write policy (ev_namespace r) a))
     \<or> (kind = ''verdict'' \<and> (\<exists>r. parse_verdict fl text = Inr r \<and> may_write policy (vr_namespace r) a))
     \<or> (kind = ''correction''
        \<and> (\<exists>r. parse_correction fl text = Inr r
              \<and> (let key = (cr_namespace r, cr_corrects r)
                 in (\<exists>e. declares fl policy U key a e)
                    \<or> (\<exists>b e. declares fl policy U key b e) \<and> may_correct policy (cr_namespace r) a)))"

lemma declares_mono: "U \<subseteq> V \<Longrightarrow> declares fl policy U key a r \<Longrightarrow> declares fl policy V key a r"
  by (auto simp: declares_def)

lemma note_counts_mono: "U \<subseteq> V \<Longrightarrow> note_counts fl policy U a kind text \<Longrightarrow> note_counts fl policy V a kind text"
  unfolding note_counts_def Let_def by (blast dest: declares_mono)

lemma fold_total:
  "fold_verdicts fl policy ns \<noteq> None \<longleftrightarrow>
     (\<forall>n \<in> set ns. rn_kind n \<in> set VERDICT_RECORD_KINDS
        \<longrightarrow> validate_record_body fl (rn_kind n) (rn_text n) \<noteq> Inl UnhashableTypeError)"
proof -
  have "parsed_notes fl ns refs \<noteq> None \<longleftrightarrow>
     (\<forall>n \<in> set ns. rn_kind n \<in> set VERDICT_RECORD_KINDS
        \<longrightarrow> validate_record_body fl (rn_kind n) (rn_text n) \<noteq> Inl UnhashableTypeError)" for refs
  proof (induction ns arbitrary: refs)
    case (Cons n ns)
    then show ?case
      by (cases "rn_kind n \<in> set VERDICT_RECORD_KINDS")
        (auto split: sum.splits record_failure.splits, metis+)
  qed simp
  moreover have "fold_verdicts fl policy ns \<noteq> None \<longleftrightarrow> parsed_notes fl ns [] \<noteq> None"
    by (auto simp: fold_verdicts_def Let_def case_prod_unfold split: option.splits)
  ultimately show ?thesis by blast
qed

text \<open>The sequence numbers refused by each stage.\<close>

lemma parsed_notes_refused:
  "parsed_notes fl ns refs = Some (kept, rs) \<Longrightarrow>
     fst ` set rs = fst ` set refs \<union> rn_seq ` {n \<in> set ns. rn_kind n \<in> set VERDICT_RECORD_KINDS
       \<and> validate_record_body fl (rn_kind n) (rn_text n) \<noteq> Inr ()}"
proof (induction ns arbitrary: refs kept rs)
  case (Cons n ns)
  show ?case
  proof (cases "rn_kind n \<in> set VERDICT_RECORD_KINDS")
    case kind: True
    show ?thesis
    proof (cases "validate_record_body fl (rn_kind n) (rn_text n)")
      case (Inl e)
      then obtain e2 where e: "e = VerdictRecordError e2" using Cons.prems kind by (cases e) auto
      then show ?thesis using Cons.IH [of "refs @ [(rn_seq n, ''malformed-record'')]" kept rs] Cons.prems kind Inl by auto
    next
      case (Inr u)
      then obtain kept2 where "parsed_notes fl ns refs = Some (kept2, rs)" using Cons.prems kind by auto
      then show ?thesis using Cons.IH [of refs kept2 rs] kind Inr by auto
    qed
  next
    case False
    then have "parsed_notes fl ns refs = Some (kept, rs)" using Cons.prems by simp
    then show ?thesis using Cons.IH [of refs kept rs] False by auto
  qed
qed simp

definition refuses_evidence :: "(time \<Rightarrow> string) \<Rightarrow> correction_policy \<Rightarrow> recorded_note \<Rightarrow> bool" where
  "refuses_evidence fl policy n \<longleftrightarrow>
     (\<exists>r. parse_evidence fl (rn_text n) = Inr r \<and> \<not> may_write policy (ev_namespace r) (rn_author n))"

definition refuses_verdict :: "(time \<Rightarrow> string) \<Rightarrow> correction_policy \<Rightarrow> recorded_note \<Rightarrow> bool" where
  "refuses_verdict fl policy n \<longleftrightarrow>
     (\<exists>r. parse_verdict fl (rn_text n) = Inr r \<and> \<not> may_write policy (vr_namespace r) (rn_author n))"

definition refuses_correction :: "(time \<Rightarrow> string) \<Rightarrow> correction_policy \<Rightarrow> verdict_fold \<Rightarrow> recorded_note \<Rightarrow> bool" where
  "refuses_correction fl policy f n \<longleftrightarrow>
     (\<exists>r. parse_correction fl (rn_text n) = Inr r \<and> (\<forall>key i. \<not> counted_correction fl policy f n key i))"

lemma refused_evidence:
  "fst ` set (vf_refused (foldl (count_evidence_note fl policy) f xs)) =
     fst ` set (vf_refused f) \<union> rn_seq ` {n \<in> set xs. refuses_evidence fl policy n}"
proof (induction xs arbitrary: f)
  case (Cons n xs)
  have "fst ` set (vf_refused (count_evidence_note fl policy f n)) =
      fst ` set (vf_refused f) \<union> (if refuses_evidence fl policy n then {rn_seq n} else {})"
    by (cases "parse_evidence fl (rn_text n)")
      (auto simp: count_evidence_note_def refuses_evidence_def refuse_note_def Let_def)
  then show ?case using Cons.IH [of "count_evidence_note fl policy f n"] by auto
qed simp

lemma refused_correction:
  "fst ` set (vf_refused (foldl (count_correction_note fl policy) f xs)) =
     fst ` set (vf_refused f) \<union> rn_seq ` {n \<in> set xs. refuses_correction fl policy f n}"
proof (induction xs arbitrary: f)
  case (Cons n xs)
  have "fst ` set (vf_refused (count_correction_note fl policy f n)) =
      fst ` set (vf_refused f) \<union> (if refuses_correction fl policy f n then {rn_seq n} else {})"
    by (cases "parse_correction fl (rn_text n)")
      (auto simp: count_correction_note_def refuses_correction_def counted_correction_def refuse_note_def object_key_def Let_def)
  moreover have "refuses_correction fl policy (count_correction_note fl policy f n) m = refuses_correction fl policy f m" for m
    unfolding refuses_correction_def counted_correction_cong [OF count_correction_note_step(1)] ..
  ultimately show ?case using Cons.IH [of "count_correction_note fl policy f n"] by auto
qed simp

lemma refused_verdict:
  "foldl (count_verdict_note fl policy) (f, entries) xs = (g, out) \<Longrightarrow>
     fst ` set (vf_refused g) = fst ` set (vf_refused f) \<union> rn_seq ` {n \<in> set xs. refuses_verdict fl policy n}"
proof (induction xs arbitrary: f entries)
  case (Cons n xs)
  obtain f2 entries2 where step: "count_verdict_note fl policy (f, entries) n = (f2, entries2)" by force
  have "fst ` set (vf_refused f2) = fst ` set (vf_refused f) \<union> (if refuses_verdict fl policy n then {rn_seq n} else {})"
    using step by (cases "parse_verdict fl (rn_text n)")
      (auto simp: count_verdict_note_def refuses_verdict_def refuse_note_def split: if_splits)
  moreover have "fst ` set (vf_refused g) = fst ` set (vf_refused f2) \<union> rn_seq ` {n \<in> set xs. refuses_verdict fl policy n}"
    using Cons.prems step by (intro Cons.IH) simp
  ultimately show ?case by auto
qed simp

lemma refuses_correction_iff:
  assumes p: "fold_parts fl policy ns f f0 f1 f2 counted"
  shows "refuses_correction fl policy f0 n \<longleftrightarrow>
    (\<exists>r. parse_correction fl (rn_text n) = Inr r)
    \<and> \<not> note_counts fl policy (said ns) (rn_author n) ''correction'' (rn_text n)"
  by (auto simp: refuses_correction_def counted_correction_def note_counts_def parts_declarers(1,2) [OF p] Let_def)

lemma refused_exact:
  assumes f: "fold_verdicts fl policy ns = Some f"
  shows "fst ` set (vf_refused f) =
    rn_seq ` {n \<in> set ns. rn_kind n \<in> set VERDICT_RECORD_KINDS
      \<and> \<not> note_counts fl policy (said ns) (rn_author n) (rn_kind n) (rn_text n)}"
proof -
  let ?ok = "\<lambda>n. validate_record_body fl (rn_kind n) (rn_text n) = Inr ()"
  let ?kept = "filter (\<lambda>n. rn_kind n \<in> set VERDICT_RECORD_KINDS \<and> ?ok n) ns"
  obtain refs where k: "parsed_notes fl ns [] = Some (?kept, refs)"
    using f by (auto simp: fold_verdicts_def dest!: parsed_notes_keeps split: option.splits)
  define f0 where "f0 = foldl (count_evidence_note fl policy) (empty_fold\<lparr>vf_refused := refs\<rparr>) (sorted_kind ?kept ''evidence'')"
  define f1 where "f1 = foldl (count_correction_note fl policy) f0 (sorted_kind ?kept ''correction'')"
  obtain f2 counted where v: "foldl (count_verdict_note fl policy) (f1, []) (sorted_kind ?kept ''verdict'') = (f2, counted)"
    by force
  have feq: "f = f2\<lparr>vf_verdicts := map (derive_state f2 (upstream_verdicts counted)) counted, vf_refused := sort (vf_refused f2)\<rparr>"
    using f k v by (simp add: fold_verdicts_def count_evidence_def count_corrections_def f0_def f1_def)
  have p: "fold_parts fl policy ns f f0 f1 f2 counted"
    unfolding fold_parts_def using v feq by (intro exI [of _ ?kept] exI [of _ refs]) (simp add: f0_def f1_def)
  have "fst ` set (vf_refused f) =
      rn_seq ` {n \<in> set ns. rn_kind n \<in> set VERDICT_RECORD_KINDS \<and> \<not> ?ok n}
      \<union> rn_seq ` {n \<in> set (sorted_kind ?kept ''evidence''). refuses_evidence fl policy n}
      \<union> rn_seq ` {n \<in> set (sorted_kind ?kept ''correction''). refuses_correction fl policy f0 n}
      \<union> rn_seq ` {n \<in> set (sorted_kind ?kept ''verdict''). refuses_verdict fl policy n}"
    unfolding feq using refused_verdict [OF v] parsed_notes_refused [OF k]
    by (simp add: f1_def f0_def refused_correction refused_evidence)
  also have "\<dots> = rn_seq ` ({n \<in> set ns. rn_kind n \<in> set VERDICT_RECORD_KINDS \<and> \<not> ?ok n}
      \<union> {n \<in> set (sorted_kind ?kept ''evidence''). refuses_evidence fl policy n}
      \<union> {n \<in> set (sorted_kind ?kept ''correction''). refuses_correction fl policy f0 n}
      \<union> {n \<in> set (sorted_kind ?kept ''verdict''). refuses_verdict fl policy n})"
    by (simp only: image_Un)
  also have "\<dots> = rn_seq ` {n \<in> set ns. rn_kind n \<in> set VERDICT_RECORD_KINDS
      \<and> \<not> note_counts fl policy (said ns) (rn_author n) (rn_kind n) (rn_text n)}"
  proof (rule arg_cong [where f = "image rn_seq"], intro set_eqI)
    fix n
    have "\<not> note_counts fl policy (said ns) (rn_author n) (rn_kind n) (rn_text n) \<longleftrightarrow>
        \<not> ?ok n \<or> rn_kind n = ''evidence'' \<and> refuses_evidence fl policy n
        \<or> rn_kind n = ''correction'' \<and> refuses_correction fl policy f0 n
        \<or> rn_kind n = ''verdict'' \<and> refuses_verdict fl policy n"
      if kind: "rn_kind n \<in> set VERDICT_RECORD_KINDS"
    proof -
      from kind consider "rn_kind n = ''evidence''" | "rn_kind n = ''correction''" | "rn_kind n = ''verdict''"
        by (auto simp: VERDICT_RECORD_KINDS_def)
      then show ?thesis
      proof cases
        case 1
        then show ?thesis by (auto simp: validate_kinds note_counts_def refuses_evidence_def)
      next
        case 2
        then show ?thesis by (auto simp: validate_kinds refuses_correction_iff [OF p]) (auto simp: note_counts_def)
      next
        case 3
        then show ?thesis by (auto simp: validate_kinds note_counts_def refuses_verdict_def)
      qed
    qed
    then show "(n \<in> {n \<in> set ns. rn_kind n \<in> set VERDICT_RECORD_KINDS \<and> \<not> ?ok n}
      \<union> {n \<in> set (sorted_kind ?kept ''evidence''). refuses_evidence fl policy n}
      \<union> {n \<in> set (sorted_kind ?kept ''correction''). refuses_correction fl policy f0 n}
      \<union> {n \<in> set (sorted_kind ?kept ''verdict''). refuses_verdict fl policy n}) =
      (n \<in> {n \<in> set ns. rn_kind n \<in> set VERDICT_RECORD_KINDS
        \<and> \<not> note_counts fl policy (said ns) (rn_author n) (rn_kind n) (rn_text n)})"
      by (auto simp: VERDICT_RECORD_KINDS_def)
  qed
  finally show ?thesis .
qed

section \<open>Admission\<close>

lemma candidate_newer: "n \<in> set ns \<Longrightarrow> rn_seq n < rn_seq (candidate_note ns a k t)"
proof (cases ns)
  case (Cons m ms)
  assume "n \<in> set ns"
  then have "rn_seq n \<in> rn_seq ` set ns" by (rule imageI)
  then have "rn_seq n \<le> Max (rn_seq ` set ns)" by (intro Max_ge) simp_all
  also have "Max (rn_seq ` set ns) = fold max (map rn_seq ms) (rn_seq m)"
    unfolding Cons Max.set_eq_fold [symmetric] by simp
  finally show ?thesis by (simp add: candidate_note_def Cons)
qed simp

lemma note_counts_candidate:
  "note_counts fl policy (said (ns @ [candidate_note ns a k t])) a k t \<longleftrightarrow> note_counts fl policy (said ns) a k t"
proof -
  have "declares fl policy (said (ns @ [candidate_note ns a k t])) key b e \<longleftrightarrow> declares fl policy (said ns) key b e"
    if "k = ''correction''" for key b e
    using that by (auto simp: declares_def in_said candidate_note_def)
  then show ?thesis by (cases "k = ''correction''") (simp_all add: note_counts_def Let_def)
qed

lemma counts_validates: "note_counts fl policy U a k t \<Longrightarrow> validate_record_body fl k t = Inr ()"
  by (auto simp: note_counts_def validate_kinds Let_def)

lemma counts_kind: "note_counts fl policy U a k t \<Longrightarrow> k \<in> set VERDICT_RECORD_KINDS"
  by (auto simp: note_counts_def VERDICT_RECORD_KINDS_def)

lemma validates_kind: "validate_record_body fl k t = Inr u \<Longrightarrow> k \<in> set VERDICT_RECORD_KINDS"
  by (auto simp: validate_record_body_def VERDICT_RECORD_KINDS_def split: if_splits)

lemma admission_counts:
  assumes total: "fold_verdicts fl (correction_policy_of policy) ns \<noteq> None"
  shows "admission_refusal fl ns policy author kind text = Inr None \<longleftrightarrow>
    note_counts fl (correction_policy_of policy) (said ns) author kind text"
proof (cases "validate_record_body fl kind text = Inr ()")
  case False
  then have "admission_refusal fl ns policy author kind text \<noteq> Inr None"
    by (auto simp: admission_refusal_def split: sum.splits record_failure.splits)
  then show ?thesis using False counts_validates by metis
next
  case True
  let ?c = "candidate_note ns author kind text"
  let ?rules = "correction_policy_of policy"
  have "fold_verdicts fl ?rules (ns @ [?c]) \<noteq> None"
    using total True unfolding fold_total by (auto simp: candidate_note_def)
  then obtain f where f: "fold_verdicts fl ?rules (ns @ [?c]) = Some f" by blast
  have "rn_seq ?c \<in> fst ` set (vf_refused f) \<longleftrightarrow> \<not> note_counts fl ?rules (said ns) author kind text"
  proof -
    have unique: "rn_seq n = rn_seq ?c \<longleftrightarrow> n = ?c" if "n \<in> set (ns @ [?c])" for n
      using that candidate_newer [of n ns author kind "text"] by fastforce
    then have "rn_seq ?c \<in> rn_seq ` {n \<in> set (ns @ [?c]). P n} \<longleftrightarrow> P ?c" for P
    proof -
      have "P ?c" if "rn_seq ?c \<in> rn_seq ` {n \<in> set (ns @ [?c]). P n}"
      proof -
        from that obtain n where n: "n \<in> set (ns @ [?c])" "P n" "rn_seq ?c = rn_seq n" by (rule imageE) blast
        then show ?thesis using unique [OF n(1)] by simp
      qed
      moreover have "rn_seq ?c \<in> rn_seq ` {n \<in> set (ns @ [?c]). P n}" if "P ?c" using that by (intro imageI) simp
      ultimately show ?thesis by blast
    qed
    then show ?thesis
      unfolding refused_exact [OF f]
      using note_counts_candidate [of fl "?rules" ns author kind "text"] validates_kind [OF True]
      by (simp add: candidate_note_def)
  qed
  moreover have "List.find (\<lambda>(s, reason). s = rn_seq ?c) (vf_refused f) = None \<longleftrightarrow> rn_seq ?c \<notin> fst ` set (vf_refused f)"
    by (force simp: find_None_iff)
  ultimately show ?thesis
    by (simp add: admission_refusal_def True folded_def f Let_def)
qed

section \<open>Who can influence a namespace\<close>

text \<open>An utterance about a namespace by an author who may write there.\<close>

definition bears_on :: "(time \<Rightarrow> string) \<Rightarrow> correction_policy \<Rightarrow> string \<Rightarrow> utterance \<Rightarrow> bool" where
  "bears_on fl policy m u \<longleftrightarrow>
     (let (a, k, t) = u in
      may_write policy m a
      \<and> ((k = ''evidence'' \<and> (\<exists>r. parse_evidence fl t = Inr r \<and> ev_namespace r = m))
         \<or> (k = ''verdict'' \<and> (\<exists>r. parse_verdict fl t = Inr r \<and> vr_namespace r = m))
         \<or> (k = ''correction'' \<and> (\<exists>r. parse_correction fl t = Inr r \<and> cr_namespace r = m))))"

lemma relpow_Image_cong:
  assumes "\<And>X. X \<subseteq> A \<Longrightarrow> R `` X = Q `` X" and "R `` A \<subseteq> A" and "S \<subseteq> A"
  shows "(R ^^ k) `` S = (Q ^^ k) `` S \<and> (R ^^ k) `` S \<subseteq> A"
proof (induction k)
  case (Suc k)
  then have "R `` ((R ^^ k) `` S) = Q `` ((Q ^^ k) `` S)" using assms(1) by metis
  moreover have "R `` ((R ^^ k) `` S) \<subseteq> A" using Suc assms(2) by blast
  ultimately show ?case by (simp add: relcomp_Image)
qed (use assms(3) in simp)

lemma rtrancl_Image_levels: "R\<^sup>* `` S = (\<Union>k. (R ^^ k) `` S)"
  unfolding rtrancl_is_UN_relpow by blast

text \<open>Two logs that agree on what bears on a namespace.\<close>

definition agree_on :: "(time \<Rightarrow> string) \<Rightarrow> correction_policy \<Rightarrow> string \<Rightarrow> utterance set \<Rightarrow> utterance set \<Rightarrow> bool" where
  "agree_on fl policy m U V \<longleftrightarrow>
     (\<forall>u. bears_on fl policy m u \<longrightarrow> (u \<in> U \<longleftrightarrow> u \<in> V))
     \<and> (\<forall>n a. may_correct policy n a \<longrightarrow> may_write policy n a)"

lemma agree_onD:
  assumes "agree_on fl policy m U V" and "may_write policy m a"
  shows "parse_evidence fl t = Inr e \<Longrightarrow> ev_namespace e = m \<Longrightarrow> (a, ''evidence'', t) \<in> U \<longleftrightarrow> (a, ''evidence'', t) \<in> V"
    and "parse_verdict fl t = Inr v \<Longrightarrow> vr_namespace v = m \<Longrightarrow> (a, ''verdict'', t) \<in> U \<longleftrightarrow> (a, ''verdict'', t) \<in> V"
    and "parse_correction fl t = Inr c \<Longrightarrow> cr_namespace c = m \<Longrightarrow> (a, ''correction'', t) \<in> U \<longleftrightarrow> (a, ''correction'', t) \<in> V"
  using assms by (simp_all add: agree_on_def bears_on_def)

lemma agree_declares: "agree_on fl policy m U V \<Longrightarrow> declares fl policy U (m, d) a r \<longleftrightarrow> declares fl policy V (m, d) a r"
  using agree_onD(1) by (fastforce simp: declares_def)

lemma agree_judged: "agree_on fl policy m U V \<Longrightarrow> judged fl policy U (m, d) a r \<longleftrightarrow> judged fl policy V (m, d) a r"
  using agree_onD(2) by (fastforce simp: judged_def)

lemma agree_latest:
  "agree_on fl policy m U V \<Longrightarrow> latest_verdict fl policy U (m, d) a r \<longleftrightarrow> latest_verdict fl policy V (m, d) a r"
  by (simp add: latest_verdict_def agree_judged)

lemma agree_corrected:
  assumes "agree_on fl policy m U V"
  shows "corrected fl policy U (m, d) i \<longleftrightarrow> corrected fl policy V (m, d) i"
proof -
  have writes: "may_write policy m a"
    if "(\<exists>e. declares fl policy V (m, d) a e) \<or> (\<exists>b e. declares fl policy V (m, d) b e) \<and> may_correct policy m a" for a
    using that assms by (auto simp: declares_def agree_on_def)
  have "(\<exists>e. declares fl policy V (m, d) a e) \<or> (\<exists>b e. declares fl policy V (m, d) b e) \<and> may_correct policy m a \<Longrightarrow>
      parse_correction fl t = Inr r \<Longrightarrow> cr_namespace r = m \<Longrightarrow> (a, ''correction'', t) \<in> U \<longleftrightarrow> (a, ''correction'', t) \<in> V" for a t r
    by (rule agree_onD(3) [OF assms writes])
  then show ?thesis unfolding corrected_def agree_declares [OF assms] by (metis prod.inject)
qed

lemma agree_rests_on:
  assumes "agree_on fl policy m U V" and "X \<subseteq> {m} \<times> UNIV"
  shows "rests_on fl policy U m `` X = rests_on fl policy V m `` X"
proof -
  have "(key, k) \<in> rests_on fl policy U m \<longleftrightarrow> (key, k) \<in> rests_on fl policy V m" if x: "key \<in> X" for key k
  proof -
    obtain d where "key = (m, d)" using x assms(2) by auto
    then show ?thesis by (simp add: rests_on_def agree_declares [OF assms(1)] agree_latest [OF assms(1)])
  qed
  then show ?thesis by blast
qed

lemma rests_on_stays: "rests_on fl policy W m `` X \<subseteq> {m} \<times> UNIV"
  by (auto simp: rests_on_def)

lemma agree_levels:
  assumes "agree_on fl policy m U V" and "S \<subseteq> {m} \<times> UNIV"
  shows "(rests_on fl policy U m ^^ k) `` S = (rests_on fl policy V m ^^ k) `` S"
    and "(rests_on fl policy U m ^^ k) `` S \<subseteq> {m} \<times> UNIV"
proof -
  have "(rests_on fl policy U m ^^ k) `` S = (rests_on fl policy V m ^^ k) `` S
      \<and> (rests_on fl policy U m ^^ k) `` S \<subseteq> {m} \<times> UNIV"
    by (rule relpow_Image_cong [OF agree_rests_on [OF assms(1)] rests_on_stays assms(2)])
  then show "(rests_on fl policy U m ^^ k) `` S = (rests_on fl policy V m ^^ k) `` S"
    and "(rests_on fl policy U m ^^ k) `` S \<subseteq> {m} \<times> UNIV" by blast+
qed

lemma agree_state:
  assumes ag: "agree_on fl policy m U V" and m: "vr_namespace r = m"
  shows "spec_state fl policy U r = spec_state fl policy V r"
proof -
  have cited: "cited r \<subseteq> {m} \<times> UNIV" using m by (auto simp: cited_def)
  have supports: "supports fl policy U r = supports fl policy V r"
    unfolding supports_def m rtrancl_Image_levels agree_levels(1) [OF ag cited] ..
  have inside: "supports fl policy V r \<subseteq> {m} \<times> UNIV"
    unfolding supports [symmetric] unfolding supports_def m rtrancl_Image_levels
    by (intro UN_least agree_levels(2) [OF ag cited])
  have "within_depth fl policy U r \<longleftrightarrow> within_depth fl policy V r"
    unfolding within_depth_def levels_def m supports agree_levels(1) [OF ag cited] ..
  moreover have "corrected fl policy U key i \<longleftrightarrow> corrected fl policy V key i" if key: "key \<in> supports fl policy V r" for key i
  proof -
    obtain d where "key = (m, d)" using key inside by auto
    then show ?thesis by (simp add: agree_corrected [OF ag])
  qed
  ultimately show ?thesis unfolding spec_state_def supports by simp
qed

lemma agree_approval:
  assumes ag: "agree_on fl policy m U V"
  shows "may_approve fl policy U m subject allow \<longleftrightarrow> may_approve fl policy V m subject allow"
proof -
  have "spec_state fl policy U r = spec_state fl policy V r" if "latest_verdict fl policy V (m, subject) a r" for a r
    using that agree_state [OF ag] by (simp add: latest_verdict_def judged_def)
  then show ?thesis unfolding may_approve_def agree_judged [OF ag] agree_latest [OF ag] by metis
qed

lemma hub_correctors_write: "may_correct (correction_policy_of p) n a \<Longrightarrow> may_write (correction_policy_of p) n a"
  by (simp add: correction_policy_of_def Let_def)

section \<open>Examples\<close>

definition demo_digest :: "char \<Rightarrow> string" where
  "demo_digest c = replicate 64 c"

definition demo_evidence :: evidence_record where
  "demo_evidence = \<lparr>ev_sha256 = demo_digest CHR ''a'', ev_namespace = ''p'', ev_members = []\<rparr>"

definition demo_verdict :: verdict_record where
  "demo_verdict = \<lparr>vr_namespace = ''p'', vr_subject = demo_digest CHR ''b'', vr_outcome = ''accepted'',
     vr_inputs = [demo_digest CHR ''a''], vr_acknowledged = [], vr_author = ''p/w'', vr_sequence = 1\<rparr>"

definition demo_correction :: correction_record where
  "demo_correction = \<lparr>cr_namespace = ''p'', cr_corrects = demo_digest CHR ''a'',
     cr_replacement = demo_digest CHR ''c'', cr_reason = ''wrong run''\<rparr>"

abbreviation no_floats :: "time \<Rightarrow> string" where
  "no_floats \<equiv> \<lambda>_. []"

definition demo_notes :: "recorded_note list" where
  "demo_notes =
     [\<lparr>rn_seq = 1, rn_author = ''p/a'', rn_kind = ''evidence'', rn_text = format_evidence no_floats demo_evidence\<rparr>,
      \<lparr>rn_seq = 2, rn_author = ''p/r'', rn_kind = ''verdict'', rn_text = format_verdict no_floats demo_verdict\<rparr>]"

definition demo_policy :: verdict_hub_policy where
  "demo_policy = \<lparr>verdict_authority = [], gate_enabled = True, allow_unrecorded_inputs = False\<rparr>"

lemma demo_digest_ok: "is_digit c \<or> c = CHR ''a'' \<or> c = CHR ''b'' \<or> c = CHR ''c'' \<Longrightarrow> is_sha256 (demo_digest c)"
  by (auto simp: is_sha256_def demo_digest_def list_all_iff)

lemma demo_digest_inj: "demo_digest c = demo_digest d \<longleftrightarrow> c = d"
  by (simp add: demo_digest_def)

lemma demo_names: "is_namespace ''p''" "is_seat ''p/w''"
  by code_simp+

lemma demo_valid: "valid_evidence demo_evidence" "valid_verdict demo_verdict" "valid_correction demo_correction"
  using demo_digest_ok demo_names
  by (simp_all add: valid_evidence_def valid_verdict_def valid_correction_def demo_evidence_def demo_verdict_def
      demo_correction_def valid_digests_def demo_digest_inj VERDICT_OUTCOMES_def MAX_MANIFEST_MEMBERS_def
      MAX_VERDICT_INPUTS_def MAX_ACKNOWLEDGED_CORRECTIONS_def MAX_REASON_BYTES_def utf8_def utf8_char_def
      py_strip_def py_isspace_def)

lemma demo_parsed:
  "parse_evidence no_floats (format_evidence no_floats demo_evidence) = Inr demo_evidence"
  "parse_verdict no_floats (format_verdict no_floats demo_verdict) = Inr demo_verdict"
  "parse_correction no_floats (format_correction no_floats demo_correction) = Inr demo_correction"
proof -
  have "short_int (vr_sequence demo_verdict)"
    by (simp add: demo_verdict_def short_int_def int_max_str_digits_def show_nat_step)
  then show "parse_evidence no_floats (format_evidence no_floats demo_evidence) = Inr demo_evidence"
    "parse_verdict no_floats (format_verdict no_floats demo_verdict) = Inr demo_verdict"
    "parse_correction no_floats (format_correction no_floats demo_correction) = Inr demo_correction"
    using demo_valid by (simp_all add: parse_evidence_iff parse_verdict_iff parse_correction_iff)
qed

lemma demo_writes: "may_write (correction_policy_of demo_policy) m a \<longleftrightarrow> hd (py_split CHR 0x2F a) = m"
  "\<not> may_correct (correction_policy_of demo_policy) m a"
  by (simp_all add: correction_policy_of_def demo_policy_def dget_or_def Let_def)

lemma demo_fold: "fold_verdicts no_floats (correction_policy_of demo_policy) demo_notes \<noteq> None"
  unfolding fold_total by (simp add: demo_notes_def validate_record_body_def demo_parsed)

lemma demo_said:
  "(a, ''evidence'', t) \<in> said demo_notes \<longleftrightarrow> a = ''p/a'' \<and> t = format_evidence no_floats demo_evidence"
  "(a, ''verdict'', t) \<in> said demo_notes \<longleftrightarrow> a = ''p/r'' \<and> t = format_verdict no_floats demo_verdict"
  "(a, ''correction'', t) \<notin> said demo_notes"
  by (auto simp: in_said demo_notes_def)

lemma verdict_demo_fields:
  "ev_namespace demo_evidence = ''p''" "ev_sha256 demo_evidence = demo_digest CHR ''a''" "ev_members demo_evidence = []"
  "vr_namespace demo_verdict = ''p''" "vr_subject demo_verdict = demo_digest CHR ''b''"
  "vr_inputs demo_verdict = [demo_digest CHR ''a'']" "vr_acknowledged demo_verdict = []"
  "vr_outcome demo_verdict = ''accepted''"
  "cr_namespace demo_correction = ''p''" "cr_corrects demo_correction = demo_digest CHR ''a''"
  by (simp_all add: demo_evidence_def demo_verdict_def demo_correction_def)

lemma demo_declares:
  "declares no_floats (correction_policy_of demo_policy) (said demo_notes) key a r \<longleftrightarrow>
     key = (''p'', demo_digest CHR ''a'') \<and> a = ''p/a'' \<and> r = demo_evidence"
  by (auto simp: declares_def demo_said demo_parsed demo_writes verdict_demo_fields)

lemma demo_judged:
  "judged no_floats (correction_policy_of demo_policy) (said demo_notes) key a r \<longleftrightarrow>
     key = (''p'', demo_digest CHR ''b'') \<and> a = ''p/r'' \<and> r = demo_verdict"
  by (auto simp: judged_def demo_said demo_parsed demo_writes verdict_demo_fields)

lemma leaf_state:
  assumes "\<And>k k2. k \<in> cited r \<Longrightarrow> (k, k2) \<notin> rests_on fl policy U (vr_namespace r)"
  shows "supports fl policy U r = cited r" and "within_depth fl policy U r"
proof -
  have "rests_on fl policy U (vr_namespace r) `` cited r = {}" using assms by blast
  then show s: "supports fl policy U r = cited r"
    unfolding supports_def by (metis Image_closed_trancl empty_subsetI)
  have "cited r \<subseteq> levels (rests_on fl policy U (vr_namespace r)) (Suc MAX_DEPENDENCY_DEPTH) (cited r)"
    by (force simp: levels_def)
  then show "within_depth fl policy U r"
    using levels_all [of "rests_on fl policy U (vr_namespace r)"] s unfolding within_depth_def supports_def by blast
qed

lemma demo_fresh: "spec_state no_floats (correction_policy_of demo_policy) (said demo_notes) demo_verdict = Fresh"
proof -
  have "k \<in> cited demo_verdict \<Longrightarrow>
      (k, k2) \<notin> rests_on no_floats (correction_policy_of demo_policy) (said demo_notes) (vr_namespace demo_verdict)" for k k2
    by (auto simp: cited_def rests_on_def verdict_demo_fields demo_declares demo_judged latest_verdict_def demo_digest_inj)
  from leaf_state [OF this] show ?thesis
    by (simp add: spec_state_def verdict_demo_fields corrected_def demo_said)
qed

text \<open>
  C36: Parsing a record body and formatting the record are inverse to each other: a text is accepted as an evidence or
  correction body, and as a verdict body with a readable sequence number, exactly when it is the text that
  formatting a record within the bounds gives.
\<close>

theorem record_bodies_canonical:
  assumes "short_int (vr_sequence v)"
  shows "(parse_evidence fl t = Inr e \<longleftrightarrow> valid_evidence e \<and> t = format_evidence fl e)
    \<and> (parse_verdict fl t = Inr v \<longleftrightarrow> valid_verdict v \<and> t = format_verdict fl v)
    \<and> (parse_correction fl t = Inr c \<longleftrightarrow> valid_correction c \<and> t = format_correction fl c)"
  using parse_evidence_iff parse_verdict_iff [OF assms] parse_correction_iff by blast

theorem record_bodies_canonical_witness:
  "parse_verdict no_floats (format_verdict no_floats demo_verdict) = Inr demo_verdict"
proof -
  have "short_int (vr_sequence demo_verdict)"
    by (simp add: demo_verdict_def short_int_def int_max_str_digits_def show_nat_step)
  from record_bodies_canonical [OF this, of no_floats "format_verdict no_floats demo_verdict"]
  show ?thesis using demo_valid by simp
qed

text \<open>
  C35: The fold over verdict records is a function of the set of what was said: the states it gives are exactly
  one per counted verdict, unbounded when the objects it rests on reach below the depth limit, stale when one of them
  has a counted correction the verdict does not acknowledge, whatever the order of the notes.
\<close>

theorem verdict_states_exact:
  assumes "fold_verdicts fl policy ns = Some f"
  shows "(\<lambda>s. (vs_reviewer s, vs_record s, vs_state s)) ` set (vf_verdicts f) =
    {(a, r, spec_state fl policy (said ns) r) | a r. \<exists>key. judged fl policy (said ns) key a r}"
proof -
  have "(\<lambda>s. (vs_reviewer s, vs_record s, vs_state s)) ` set (vf_verdicts f) =
      (\<lambda>(a, r). (a, r, spec_state fl policy (said ns) r)) ` ((\<lambda>s. (vs_reviewer s, vs_record s)) ` set (vf_verdicts f))"
    using fold_states(2) [OF assms] by (simp add: image_image)
  also have "\<dots> = {(a, r, spec_state fl policy (said ns) r) | a r. \<exists>key. judged fl policy (said ns) key a r}"
    unfolding fold_states(1) [OF assms] by (auto simp: image_iff) blast
  finally show ?thesis .
qed

theorem verdict_states_exact_witness:
  "\<exists>f. fold_verdicts no_floats (correction_policy_of demo_policy) demo_notes = Some f
     \<and> (\<lambda>s. (vs_reviewer s, vs_record s, vs_state s)) ` set (vf_verdicts f) = {(''p/r'', demo_verdict, Fresh)}"
proof -
  obtain f where f: "fold_verdicts no_floats (correction_policy_of demo_policy) demo_notes = Some f"
    using demo_fold by blast
  show ?thesis using verdict_states_exact [OF f] f demo_fresh by (auto simp: demo_judged)
qed

text \<open>
  C34: An approval of a recorded object passes exactly when some counted verdict judges it in the
  approver's own namespace and every reviewer's latest verdict on it is one record, accepted and fresh
  (or without recorded inputs, where the policy allows that); a refused approval leaves one audit row.
\<close>

theorem approval_gate_exact:
  assumes "recorded_notes rows = Inr ns" and "fold_verdicts fl (correction_policy_of policy) ns \<noteq> None"
    and "parse_approval_note text = Some a" and "an_state a = ''approved''"
    and "subject_digest (an_subject a) = Some d" and "gate_enabled policy"
  shows "\<exists>reason. progress_refusal fl (Some rows) policy sender task ''approval'' text =
       Inr (reason, ns, (case reason of None \<Rightarrow> [] | Some r \<Rightarrow> [refusal_row sender ''approval'' task r]))
     \<and> (reason = None \<longleftrightarrow> may_approve fl (correction_policy_of policy) (said ns) (approver_namespace sender) d
       (allow_unrecorded_inputs policy))"
proof -
  obtain f where f: "fold_verdicts fl (correction_policy_of policy) ns = Some f" using assms(2) by blast
  let ?g = "gate_decision f (approver_namespace sender) d (allow_unrecorded_inputs policy)"
  let ?reason = "if gd_passed ?g then None else Some (''approval gate: '' @ semicolon_join (gd_reasons ?g))"
  have "progress_refusal fl (Some rows) policy sender task ''approval'' text =
      Inr (?reason, ns, (case ?reason of None \<Rightarrow> [] | Some r \<Rightarrow> [refusal_row sender ''approval'' task r]))"
    using assms f by (simp add: progress_refusal_def approval_gate_def approval_refusal_def folded_def
        VERDICT_RECORD_KINDS_def Let_def)
  moreover have "?reason = None \<longleftrightarrow> may_approve fl (correction_policy_of policy) (said ns) (approver_namespace sender) d
       (allow_unrecorded_inputs policy)"
    unfolding gate_passed [OF f, symmetric] by simp
  ultimately show ?thesis by (intro exI [of _ ?reason] conjI)
qed

definition note_row :: "recorded_note \<Rightarrow> journal_event" where
  "note_row n = \<lparr>ev_seq = rn_seq n, ev_kind = ''ledger_progress'',
     ev_payload = [(''kind'', JString (rn_kind n)), (''author'', JString (rn_author n)), (''text'', JString (rn_text n))]\<rparr>"

lemma text_field_string: "get_field d k = JString s \<Longrightarrow> text_field d k = Inr s"
  by (simp add: text_field_def)

lemma note_row_fields:
  "text_field (ev_payload (note_row n)) ''kind'' = Inr (rn_kind n)"
  "text_field (ev_payload (note_row n)) ''author'' = Inr (rn_author n)"
  "text_field (ev_payload (note_row n)) ''text'' = Inr (rn_text n)"
  by (simp_all add: text_field_string note_row_def get_field_def get_or_def)

lemma recorded_note_rows:
  "list_all (\<lambda>n. rn_kind n \<in> set VERDICT_RECORD_KINDS) ns \<Longrightarrow> recorded_notes (map note_row ns) = Inr ns"
proof (induction ns)
  case (Cons n ns)
  have "verdict_row (note_row n)" using Cons.prems by (simp add: verdict_row_def note_row_fields) (simp add: note_row_def)
  moreover have "recorded_row (note_row n) = Inr n" by (simp add: recorded_row_def note_row_fields) (simp add: note_row_def)
  ultimately show ?case using Cons by (simp add: recorded_notes_def)
qed (simp add: recorded_notes_def)

definition demo_rows :: "journal_event list" where
  "demo_rows = map note_row demo_notes"

lemma demo_recorded: "recorded_notes demo_rows = Inr demo_notes"
  unfolding demo_rows_def by (rule recorded_note_rows) (simp add: demo_notes_def VERDICT_RECORD_KINDS_def)

lemma demo_approval_text:
  "parse_approval_note (''approval subject=sha256:'' @ demo_digest CHR ''b'' @ '' state=approved'') =
     Some \<lparr>an_subject = ''sha256:'' @ demo_digest CHR ''b'', an_state = ''approved'', an_reason = []\<rparr>"
  by code_simp

lemma demo_subject: "subject_digest (''sha256:'' @ demo_digest CHR ''b'') = Some (demo_digest CHR ''b'')"
  by code_simp

theorem approval_gate_exact_witness:
  "\<exists>rows. progress_refusal no_floats (Some demo_rows) demo_policy ''p/r'' ''T'' ''approval''
       (''approval subject=sha256:'' @ demo_digest CHR ''b'' @ '' state=approved'') = Inr (None, demo_notes, rows)"
proof -
  have "may_approve no_floats (correction_policy_of demo_policy) (said demo_notes) ''p'' (demo_digest CHR ''b'') False"
    by (auto simp: may_approve_def demo_judged latest_verdict_def demo_fresh verdict_demo_fields)
  moreover have "approver_namespace ''p/r'' = ''p''" by code_simp
  moreover have "gate_enabled demo_policy" "allow_unrecorded_inputs demo_policy = False"
    by (simp_all add: demo_policy_def)
  ultimately show ?thesis
    using approval_gate_exact [OF demo_recorded demo_fold demo_approval_text, of "demo_digest CHR ''b''" "''p/r''" "''T''"]
      demo_subject by auto
qed

text \<open>
  A note of the three kinds is admitted exactly when it counts (its body parses and its author may write the
  namespace, or may correct the declared object), and an admitted note counts in every log that holds what was
  said before it: no later note, order or restart makes the fold refuse it.
\<close>

theorem admitted_record_counts:
  assumes "fold_verdicts fl (correction_policy_of policy) ns \<noteq> None"
  shows "(admission_refusal fl ns policy author kind text = Inr None \<longleftrightarrow>
      note_counts fl (correction_policy_of policy) (said ns) author kind text)
    \<and> (admission_refusal fl ns policy author kind text = Inr None \<and> said ns \<subseteq> said ms
         \<and> fold_verdicts fl (correction_policy_of policy) ms = Some f
         \<and> n \<in> set ms \<and> utterance n = (author, kind, text) \<and> distinct (map rn_seq ms)
       \<longrightarrow> (\<forall>reason. (rn_seq n, reason) \<notin> set (vf_refused f)))"
proof (intro conjI impI allI notI)
  let ?rules = "correction_policy_of policy"
  show admitted: "admission_refusal fl ns policy author kind text = Inr None \<longleftrightarrow>
      note_counts fl ?rules (said ns) author kind text"
    by (rule admission_counts [OF assms])
  fix reason
  assume h: "admission_refusal fl ns policy author kind text = Inr None \<and> said ns \<subseteq> said ms
         \<and> fold_verdicts fl ?rules ms = Some f
         \<and> n \<in> set ms \<and> utterance n = (author, kind, text) \<and> distinct (map rn_seq ms)"
    and r: "(rn_seq n, reason) \<in> set (vf_refused f)"
  then have f: "fold_verdicts fl ?rules ms = Some f" by blast
  have "rn_seq n \<in> fst ` set (vf_refused f)" using r by force
  then obtain q where q: "q \<in> set ms" "rn_seq n = rn_seq q"
      "\<not> note_counts fl ?rules (said ms) (rn_author q) (rn_kind q) (rn_text q)"
    unfolding refused_exact [OF f] by auto
  have "q = n" using h q(1,2) by (metis distinct_map inj_onD)
  then have "\<not> note_counts fl ?rules (said ms) author kind text" using q(3) h by (simp add: utterance_def)
  then show False using h admitted note_counts_mono [of "said ns" "said ms"] by blast
qed

theorem admitted_record_counts_witness:
  "admission_refusal no_floats demo_notes demo_policy ''p/a'' ''correction''
     (format_correction no_floats demo_correction) = Inr None"
  using admitted_record_counts [OF demo_fold, of "''p/a''" "''correction''" "format_correction no_floats demo_correction"]
  by (simp add: note_counts_def demo_parsed verdict_demo_fields demo_declares)

text \<open>The same correction said by a seat of another project.\<close>

definition outsider_note :: recorded_note where
  "outsider_note = \<lparr>rn_seq = 3, rn_author = ''q/a'', rn_kind = ''correction'',
     rn_text = format_correction no_floats demo_correction\<rparr>"

text \<open>
  What is said by seats that may not write a namespace, or about other namespaces, never changes whether a
  subject of the namespace may be approved.
\<close>

theorem gate_isolated:
  assumes "fold_verdicts fl (correction_policy_of policy) ns = Some f"
    and "fold_verdicts fl (correction_policy_of policy) ms = Some g"
    and "{u \<in> said ns. bears_on fl (correction_policy_of policy) m u}
       = {u \<in> said ms. bears_on fl (correction_policy_of policy) m u}"
  shows "gd_passed (gate_decision f m subject allow) = gd_passed (gate_decision g m subject allow)"
proof -
  have "agree_on fl (correction_policy_of policy) m (said ns) (said ms)"
    using assms(3) hub_correctors_write unfolding agree_on_def by blast
  then show ?thesis
    unfolding gate_passed [OF assms(1)] gate_passed [OF assms(2)] by (rule agree_approval)
qed

theorem gate_isolated_witness:
  "\<exists>f g. fold_verdicts no_floats (correction_policy_of demo_policy) demo_notes = Some f
     \<and> fold_verdicts no_floats (correction_policy_of demo_policy) (demo_notes @ [outsider_note]) = Some g
     \<and> gd_passed (gate_decision f ''p'' (demo_digest CHR ''b'') False)
         = gd_passed (gate_decision g ''p'' (demo_digest CHR ''b'') False)"
proof -
  obtain f where f: "fold_verdicts no_floats (correction_policy_of demo_policy) demo_notes = Some f"
    using demo_fold by blast
  have "fold_verdicts no_floats (correction_policy_of demo_policy) (demo_notes @ [outsider_note]) \<noteq> None"
    using demo_fold unfolding fold_total by (simp add: outsider_note_def validate_record_body_def demo_parsed)
  then obtain g where g: "fold_verdicts no_floats (correction_policy_of demo_policy) (demo_notes @ [outsider_note]) = Some g"
    by blast
  have "\<not> bears_on no_floats (correction_policy_of demo_policy) ''p'' (utterance outsider_note)"
    by (simp add: bears_on_def utterance_def outsider_note_def demo_writes)
  then have "{u \<in> said demo_notes. bears_on no_floats (correction_policy_of demo_policy) ''p'' u}
      = {u \<in> said (demo_notes @ [outsider_note]). bears_on no_floats (correction_policy_of demo_policy) ''p'' u}"
    by (auto simp: said_def)
  from gate_isolated [OF f g this] show ?thesis using f g by blast
qed

text \<open>A verdict body that is canonical except that its outcome is an empty list.\<close>

definition listed_outcome :: json where
  "listed_outcome = JObject
     [(''acknowledged_corrections'', JNull), (''author'', JNull), (''inputs'', JNull), (''namespace'', JNull),
      (''outcome'', JList []), (''reviewer_sequence'', JNull), (''schema'', JString VERDICT_SCHEMA), (''subject_sha256'', JNull)]"

text \<open>
  A verdict body whose outcome is a list is not refused: the membership test raises a \<open>TypeError\<close> that leaves the
  admission code, and once such a note is in the journal every later fold raises it too.
\<close>

theorem listed_outcome_escapes:
  "admission_refusal fl ns policy author ''verdict'' (json_dumps_raw fl listed_outcome) = Inl OutcomeTypeError
   \<and> fold_verdicts fl rules (\<lparr>rn_seq = i, rn_author = a, rn_kind = ''verdict'',
         rn_text = json_dumps_raw fl listed_outcome\<rparr> # ms) = None"
proof -
  let ?names = "[''acknowledged_corrections'', ''author'', ''inputs'', ''namespace'', ''outcome'', ''reviewer_sequence'',
        ''schema'', ''subject_sha256'']"
  obtain d where d: "listed_outcome = JObject d" "dget d ''schema'' = Some (JString VERDICT_SCHEMA)"
      "set (map fst d) = set ?names" "get_field d ''outcome'' = JList []"
    by (simp add: listed_outcome_def get_field_def get_or_def)
  have "plain_json listed_outcome" by (simp add: listed_outcome_def)
  then have "load_record fl (json_dumps_raw fl listed_outcome) VERDICT_SCHEMA ?names = Inr d"
    using load_record_dump [of d VERDICT_SCHEMA ?names fl] d by simp
  then have "parse_verdict fl (json_dumps_raw fl listed_outcome) = Inl UnhashableTypeError"
    by (simp add: parse_verdict_def record_outcome_def d(4))
  then have v: "validate_record_body fl ''verdict'' (json_dumps_raw fl listed_outcome) = Inl UnhashableTypeError"
    by (simp add: validate_record_body_def)
  have "fold_verdicts fl rules (\<lparr>rn_seq = i, rn_author = a, rn_kind = ''verdict'',
         rn_text = json_dumps_raw fl listed_outcome\<rparr> # ms) = None"
    using fold_total [of fl rules "\<lparr>rn_seq = i, rn_author = a, rn_kind = ''verdict'',
         rn_text = json_dumps_raw fl listed_outcome\<rparr> # ms"] v by (auto simp: VERDICT_RECORD_KINDS_def)
  then show ?thesis by (simp add: admission_refusal_def v)
qed

end
