(* ===== verification/Acl.thy ===== *)
theory Acl
  imports Leasing
begin

text \<open>
  The deny-by-default access control of the hub: the rules and their evaluation
  (\<open>core/acl.py\<close>), the accesses a frame needs (\<open>core/verb_access.py\<close>), the namespace of an
  identity (\<open>core/identity_namespace.py\<close>), the declarations of the verbs
  (\<open>core/verb_registry.py\<close>) and the gate (\<open>core/acl_enforcement.py\<close>, \<open>authorise_acl\<close> of
  \<open>core/hub_frame_gates.py\<close>).  The patterns are the shell patterns of \<open>fnmatch.fnmatchcase\<close>.
\<close>

section \<open>Shell patterns\<close>

datatype class_item = Single char | Char_Range char char

datatype glob_token = Any_String | Any_Char | One_Char char | Char_Class bool "class_item list"

fun in_item :: "char \<Rightarrow> class_item \<Rightarrow> bool" where
  "in_item c (Single d) = (c = d)"
| "in_item c (Char_Range lo hi) = (code_of lo \<le> (code_of c :: nat) \<and> code_of c \<le> (code_of hi :: nat))"

fun glob_match :: "glob_token list \<Rightarrow> string \<Rightarrow> bool" where
  "glob_match [] s = (s = [])"
| "glob_match (Any_String # ts) [] = glob_match ts []"
| "glob_match (Any_String # ts) (c # s) = (glob_match ts (c # s) \<or> glob_match (Any_String # ts) s)"
| "glob_match (Any_Char # ts) (c # s) = glob_match ts s"
| "glob_match (One_Char d # ts) (c # s) = (c = d \<and> glob_match ts s)"
| "glob_match (Char_Class neg items # ts) (c # s) = (list_ex (in_item c) items \<noteq> neg \<and> glob_match ts s)"
| "glob_match (t # ts) [] = False"

text \<open>The text between the brackets: a hyphen between two characters makes a range.\<close>

fun class_items :: "string \<Rightarrow> class_item list" where
  "class_items (lo # h # hi # rest) =
     (if h = CHR ''-'' then Char_Range lo hi # class_items rest else Single lo # class_items (h # hi # rest))"
| "class_items (c # rest) = Single c # class_items rest"
| "class_items [] = []"

fun range_empty :: "class_item \<Rightarrow> bool" where
  "range_empty (Single c) = False"
| "range_empty (Char_Range lo hi) = (code_of hi < (code_of lo :: nat))"

text \<open>
  Empty ranges are dropped.  What is left is read again, so that a \<open>!\<close> that comes to the
  front negates.
\<close>

definition class_token :: "bool \<Rightarrow> string \<Rightarrow> glob_token" where
  "class_token neg stuff =
     (let items = filter (\<lambda>i. \<not> range_empty i) (class_items stuff) in
      if neg then Char_Class True items
      else (case items of
              Single c # rest \<Rightarrow>
                if c = CHR ''!'' then Char_Class True rest else Char_Class False items
            | Char_Range lo hi # rest \<Rightarrow>
                if lo = CHR ''!'' then Char_Class True (Single (CHR ''-'') # Single hi # rest)
                else Char_Class False items
            | [] \<Rightarrow> Char_Class False []))"

fun split_close :: "string \<Rightarrow> (string \<times> string) option" where
  "split_close [] = None"
| "split_close (c # cs) =
     (if c = CHR 0x5D then Some ([], cs) else map_option (\<lambda>(a, b). (c # a, b)) (split_close cs))"

definition split_class :: "string \<Rightarrow> (bool \<times> string \<times> string) option" where
  "split_class cs =
     (let neg = (cs \<noteq> [] \<and> hd cs = CHR ''!''); body = (if neg then tl cs else cs);
          close_first = (body \<noteq> [] \<and> hd body = CHR 0x5D) in
      if close_first then map_option (\<lambda>(a, b). (neg, CHR 0x5D # a, b)) (split_close (tl body))
      else map_option (\<lambda>(a, b). (neg, a, b)) (split_close body))"

lemma split_close_length: "split_close cs = Some (a, b) \<Longrightarrow> length b < length cs"
  by (induction cs arbitrary: a) (auto split: if_splits)

lemma split_class_length: "split_class cs = Some (neg, a, b) \<Longrightarrow> length b < length cs"
  by (auto simp: split_class_def Let_def length_tl split: if_splits dest!: split_close_length)

function glob_tokens :: "string \<Rightarrow> glob_token list" where
  "glob_tokens [] = []"
| "glob_tokens (c # cs) =
     (if c = CHR ''*'' then Any_String # glob_tokens cs
      else if c = CHR ''?'' then Any_Char # glob_tokens cs
      else if c = CHR ''['' then
        (case split_class cs of
           None \<Rightarrow> One_Char c # glob_tokens cs
         | Some (neg, stuff, rest) \<Rightarrow> class_token neg stuff # glob_tokens rest)
      else One_Char c # glob_tokens cs)"
  by pat_completeness auto
termination by (relation "measure length") (auto dest: split_class_length)

definition fnmatchcase :: "string \<Rightarrow> string \<Rightarrow> bool" where
  "fnmatchcase name pat = glob_match (glob_tokens pat) name"

section \<open>Rules and their evaluation\<close>

definition PERMISSIONS :: "string list" where
  "PERMISSIONS =
     [''message'', ''claim'', ''release'', ''board'', ''metrics'', ''dashboard'', ''a2a'', ''namespace'',
      ''sandbox'', ''observe'', ''mailbox'', ''role-claim'', ''identity-pin-reclaim'', ''identity-enroll'',
      ''entitlement-advertise'', ''evidence'', ''recall'', ''delivery-control'', ''attachment-read'',
      ''attachment-write'', ''attachment-admin'']"

record acl_target =
  target_kind :: string
  target_value :: string

record acl_rule =
  rule_permission :: string
  rule_kind :: string
  rule_pattern :: string
  rule_namespace :: string
  rule_reason :: string

type_synonym acl_policy = "acl_rule list"

record acl_decision =
  ad_decision :: string
  ad_subject :: string
  ad_permission :: string
  ad_target :: acl_target
  ad_reason :: string
  ad_matched_rule :: "int option"

definition rule_matches :: "acl_rule \<Rightarrow> string \<Rightarrow> string \<Rightarrow> acl_target \<Rightarrow> bool" where
  "rule_matches r project permission target \<longleftrightarrow>
     rule_permission r = permission \<and> rule_kind r = target_kind target
     \<and> (rule_namespace r = [] \<or> rule_namespace r = project)
     \<and> fnmatchcase (target_value target) (rule_pattern r)"

fun first_rule :: "nat \<Rightarrow> acl_policy \<Rightarrow> (acl_rule \<Rightarrow> bool) \<Rightarrow> (nat \<times> acl_rule) option" where
  "first_rule i [] P = None"
| "first_rule i (r # rs) P = (if P r then Some (i, r) else first_rule (Suc i) rs P)"

definition would_deny :: "string \<Rightarrow> string \<Rightarrow> acl_target \<Rightarrow> string \<Rightarrow> acl_decision" where
  "would_deny subject permission target reason =
     \<lparr>ad_decision = ''would_deny'', ad_subject = subject, ad_permission = permission, ad_target = target,
      ad_reason = reason, ad_matched_rule = None\<rparr>"

definition evaluate_access :: "string \<Rightarrow> string \<Rightarrow> string \<Rightarrow> acl_target \<Rightarrow> acl_policy \<Rightarrow> acl_decision" where
  "evaluate_access subject project permission target policy =
     (if permission \<notin> set PERMISSIONS
      then would_deny subject permission target (''unknown permission '' @ quoted permission)
      else (case first_rule 0 policy (\<lambda>r. rule_matches r project permission target) of
              Some (i, r) \<Rightarrow>
                \<lparr>ad_decision = ''would_allow'', ad_subject = subject, ad_permission = permission,
                 ad_target = target,
                 ad_reason = (if rule_reason r = [] then ''granted by rule '' @ show_int (int i) else rule_reason r),
                 ad_matched_rule = Some (int i)\<rparr>
            | None \<Rightarrow> would_deny subject permission target
                ''no rule grants this access (deny by default)''))"

definition acl_decision_as_dict :: "acl_decision \<Rightarrow> json_object" where
  "acl_decision_as_dict d =
     [(''decision'', JString (ad_decision d)), (''subject'', JString (ad_subject d)),
      (''permission'', JString (ad_permission d)),
      (''target'', JObject [(''kind'', JString (target_kind (ad_target d))), (''value'', JString (target_value (ad_target d)))]),
      (''reason'', JString (ad_reason d)),
      (''matched_rule'', (case ad_matched_rule d of None \<Rightarrow> JNull | Some i \<Rightarrow> JInt i))]"

section \<open>The policy file\<close>

text \<open>\<open>AclError\<close> of each cause; a value whose text is outside the model is \<open>Acl_Outside\<close>.\<close>

datatype acl_error =
    Acl_No_File
  | Acl_Bad_Json
  | Acl_Not_Rules
  | Acl_Not_Object nat
  | Acl_Unknown_Permission nat string
  | Acl_Blank_Target nat
  | Acl_Outside

definition rule_text :: "json_object \<Rightarrow> string \<Rightarrow> acl_error + string" where
  "rule_text entry key =
     (case dget entry key of
        None \<Rightarrow> Inr []
      | Some v \<Rightarrow> (case py_str v of Inl _ \<Rightarrow> Inl Acl_Outside | Inr s \<Rightarrow> Inr (py_strip s)))"

definition parse_rule :: "json \<Rightarrow> nat \<Rightarrow> acl_error + acl_rule" where
  "parse_rule entry index =
     (case entry of
        JObject d \<Rightarrow>
          sum_bind (rule_text d ''permission'') (\<lambda>permission.
            if permission \<notin> set PERMISSIONS then Inl (Acl_Unknown_Permission index permission)
            else sum_bind (rule_text d ''target_kind'') (\<lambda>kind.
                 sum_bind (rule_text d ''target_pattern'') (\<lambda>pattern.
                   if kind = [] \<or> pattern = [] then Inl (Acl_Blank_Target index)
                   else sum_bind (rule_text d ''namespace'') (\<lambda>namespace.
                        sum_bind (rule_text d ''reason'') (\<lambda>reason.
                          Inr \<lparr>rule_permission = permission, rule_kind = kind, rule_pattern = pattern,
                               rule_namespace = namespace, rule_reason = reason\<rparr>)))))
      | _ \<Rightarrow> Inl (Acl_Not_Object index))"

fun parse_rules :: "nat \<Rightarrow> json list \<Rightarrow> acl_error + acl_policy" where
  "parse_rules i [] = Inr []"
| "parse_rules i (e # es) =
     sum_bind (parse_rule e i) (\<lambda>r. sum_bind (parse_rules (Suc i) es) (\<lambda>rs. Inr (r # rs)))"

text \<open>\<open>None\<close> is a file that is not there.\<close>

definition load_acl_policy :: "string option \<Rightarrow> acl_error + acl_policy" where
  "load_acl_policy content =
     (case content of
        None \<Rightarrow> Inl Acl_No_File
      | Some raw \<Rightarrow>
          (case json_loads raw of
             NotJson \<Rightarrow> Inl Acl_Bad_Json
           | OutsideText \<Rightarrow> Inl Acl_Outside
           | Parsed (JObject d) _ \<Rightarrow>
               (case dget d ''rules'' of Some (JList es) \<Rightarrow> parse_rules 0 es | _ \<Rightarrow> Inl Acl_Not_Rules)
           | Parsed _ _ \<Rightarrow> Inl Acl_Not_Rules))"

section \<open>The accesses of a frame\<close>

type_synonym access = "string \<times> acl_target"
type_synonym access_mapper = "json_object \<Rightarrow> journal_error + access list"

definition on :: "string \<Rightarrow> string \<Rightarrow> string \<Rightarrow> access" where
  "on permission kind v = (permission, \<lparr>target_kind = kind, target_value = v\<rparr>)"

text \<open>\<open>str(data.get(field) or fallback)\<close>, stripped when the verb's handler strips it.\<close>

definition field_access :: "string \<Rightarrow> string \<Rightarrow> string \<Rightarrow> string \<Rightarrow> bool \<Rightarrow> access_mapper" where
  "field_access permission kind field fallback strip data =
     sum_bind (if json_truthy (get_field data field) then py_str (get_field data field) else Inr fallback) (\<lambda>v.
       Inr [on permission kind (if strip then py_strip v else v)])"

definition fixed_access :: "string \<Rightarrow> string \<Rightarrow> string \<Rightarrow> access_mapper" where
  "fixed_access permission kind v data = Inr [on permission kind v]"

definition nested_access :: "string \<Rightarrow> string \<Rightarrow> string \<Rightarrow> string \<Rightarrow> access_mapper" where
  "nested_access permission kind field member data =
     sum_bind (case get_field data field of JObject d \<Rightarrow> text_field d member | _ \<Rightarrow> Inr [])
       (\<lambda>v. Inr [on permission kind v])"

definition message_access :: access_mapper where
  "message_access data =
     sum_bind (text_field data ''channel'') (\<lambda>raw.
       if py_strip raw \<noteq> [] then Inr [on ''message'' ''channel'' (py_strip raw)]
       else sum_bind (text_field data ''target'') (\<lambda>t.
              Inr [on ''message'' ''agent'' (if t = [] then ''all'' else t)]))"

definition claim_targets :: "json_object \<Rightarrow> string \<Rightarrow> journal_error + access list" where
  "claim_targets data task =
     sum_bind (frame_paths data) (\<lambda>ps.
       Inr (on ''claim'' ''claim'' task # map (on ''claim'' ''path'') (normalize_paths ps (Some MAX_DECLARED_PATHS))))"

definition claim_access :: access_mapper where
  "claim_access data =
     sum_bind (first_text data [''task_id'', ''payload'']) (\<lambda>raw. claim_targets data (py_strip raw))"

definition task_update_access :: access_mapper where
  "task_update_access data =
     sum_bind (first_text data [''task_id'', ''id'']) (\<lambda>raw. claim_targets data (py_strip raw))"

definition handoff_access :: access_mapper where
  "handoff_access data = sum_bind (text_field data ''task_id'') (\<lambda>raw. claim_targets data (py_strip raw))"

definition release_access :: access_mapper where
  "release_access data =
     sum_bind (first_text data [''task_id'', ''payload'']) (\<lambda>raw. Inr [on ''release'' ''claim'' (py_strip raw)])"

definition history_access :: access_mapper where
  "history_access data =
     (case dget data ''inbox_query'' of
        Some q \<Rightarrow>
          Inr [on ''mailbox'' ''agent''
            (case q of JObject d \<Rightarrow> (case get_field d ''identity'' of JString s \<Rightarrow> s | _ \<Rightarrow> []) | _ \<Rightarrow> [])]
      | None \<Rightarrow> Inr [on ''recall'' ''history'' ''global''])"

section \<open>Declarations of verbs\<close>

text \<open>A handler is named by its function.\<close>

record verb_spec =
  vs_request_types :: "string list"
  vs_handler :: string
  vs_reply_types :: "string list"
  vs_mutates :: bool
  vs_replay_protected :: bool
  vs_mutation_guarded :: bool
  vs_accesses :: "access_mapper option"
  vs_event_kinds :: "string list"
  vs_minimum_wire_version :: int
  vs_commands :: "string list"

definition WIRE_PROTOCOL_VERSION :: int where
  "WIRE_PROTOCOL_VERSION = 7"

datatype registry_error = No_Request_Types | Guarded_Without_Mapping | Bad_Wire_Floor | Duplicate_Verb string

type_synonym verb_registry = "(string, verb_spec) pydict"

fun register_names :: "verb_spec \<Rightarrow> string list \<Rightarrow> verb_registry \<Rightarrow> registry_error + verb_registry" where
  "register_names spec [] registry = Inr registry"
| "register_names spec (name # names) registry =
     (if dget registry name \<noteq> None then Inl (Duplicate_Verb name)
      else register_names spec names (dset name spec registry))"

definition register_spec :: "verb_spec \<Rightarrow> verb_registry \<Rightarrow> registry_error + verb_registry" where
  "register_spec spec registry =
     (if vs_request_types spec = [] \<or> [] \<in> set (vs_request_types spec) then Inl No_Request_Types
      else if vs_mutation_guarded spec \<and> vs_accesses spec = None then Inl Guarded_Without_Mapping
      else if \<not> (1 \<le> vs_minimum_wire_version spec \<and> vs_minimum_wire_version spec \<le> WIRE_PROTOCOL_VERSION)
      then Inl Bad_Wire_Floor
      else register_names spec (vs_request_types spec) registry)"

fun register_specs :: "verb_spec list \<Rightarrow> verb_registry \<Rightarrow> registry_error + verb_registry" where
  "register_specs [] registry = Inr registry"
| "register_specs (spec # specs) registry = sum_bind (register_spec spec registry) (register_specs specs)"

definition build_registry :: "verb_spec list list \<Rightarrow> registry_error + verb_registry" where
  "build_registry families = register_specs (concat families) []"

end
