(* ===== verification/Verb_Table.thy ===== *)
theory Verb_Table
  imports Acl
begin

text \<open>
  The verbs of the hub: the \<open>VERB_SPECS\<close> of every handler family under \<open>core/handlers/\<close> in the
  order \<open>core/handlers/__init__.py\<close> collects them, and the registry they make.
\<close>

section \<open>The families\<close>

definition ATTACHMENT_PEER_VERBS :: "verb_spec list" where
  "ATTACHMENT_PEER_VERBS =
     [\<lparr>vs_request_types = [''attachment_peer_request''], vs_handler = ''handle_attachment_peer'',
       vs_reply_types = [''attachment_peer_result''],
       vs_mutates = True, vs_replay_protected = False, vs_mutation_guarded = False,
       vs_accesses = None,
       vs_event_kinds = [], vs_minimum_wire_version = 6, vs_commands = []\<rparr>]"

definition attachment_permissions :: "(string \<times> string) list" where
  "attachment_permissions =
     [(''attachment_begin'', ''attachment-write''),
      (''attachment_chunk'', ''attachment-write''),
      (''attachment_commit'', ''attachment-write''),
      (''attachment_abort'', ''attachment-write''),
      (''attachment_ref'', ''attachment-write''),
      (''attachment_info'', ''attachment-read''),
      (''attachment_read'', ''attachment-read''),
      (''attachment_gc'', ''attachment-admin'')]"

definition ATTACHMENTS_VERBS :: "verb_spec list" where
  "ATTACHMENTS_VERBS = map (\<lambda>(request, permission).
      \<lparr>vs_request_types = [request], vs_handler = ''handle_attachment'',
       vs_reply_types = [''attachment_result''],
       vs_mutates = permission \<noteq> ''attachment-read'', vs_replay_protected = False, vs_mutation_guarded = True,
       vs_accesses = Some (field_access permission ''attachment'' ''scope'' [] False),
       vs_event_kinds = [], vs_minimum_wire_version = 4, vs_commands = []\<rparr>) attachment_permissions"

definition CHANNELS_VERBS :: "verb_spec list" where
  "CHANNELS_VERBS =
     [\<lparr>vs_request_types = [''channel_create''], vs_handler = ''handle_channel_create'',
       vs_reply_types = [''channel_result''],
       vs_mutates = True, vs_replay_protected = False, vs_mutation_guarded = True,
       vs_accesses = Some (field_access ''message'' ''channel'' ''channel'' [] False),
       vs_event_kinds = [], vs_minimum_wire_version = 1, vs_commands = []\<rparr>,
      \<lparr>vs_request_types = [''channel_invite''], vs_handler = ''handle_channel_invite'',
       vs_reply_types = [''channel_result''],
       vs_mutates = True, vs_replay_protected = False, vs_mutation_guarded = True,
       vs_accesses = Some (field_access ''message'' ''channel'' ''channel'' [] False),
       vs_event_kinds = [], vs_minimum_wire_version = 1, vs_commands = []\<rparr>,
      \<lparr>vs_request_types = [''channel_join''], vs_handler = ''handle_channel_join'',
       vs_reply_types = [''channel_result''],
       vs_mutates = True, vs_replay_protected = False, vs_mutation_guarded = True,
       vs_accesses = Some (field_access ''message'' ''channel'' ''channel'' [] False),
       vs_event_kinds = [], vs_minimum_wire_version = 1, vs_commands = []\<rparr>,
      \<lparr>vs_request_types = [''channel_leave''], vs_handler = ''handle_channel_leave'',
       vs_reply_types = [''channel_result''],
       vs_mutates = True, vs_replay_protected = False, vs_mutation_guarded = True,
       vs_accesses = Some (field_access ''message'' ''channel'' ''channel'' [] False),
       vs_event_kinds = [], vs_minimum_wire_version = 1, vs_commands = []\<rparr>,
      \<lparr>vs_request_types = [''channel_list_request''], vs_handler = ''handle_channel_list_request'',
       vs_reply_types = [''channel_list''],
       vs_mutates = False, vs_replay_protected = False, vs_mutation_guarded = False,
       vs_accesses = None,
       vs_event_kinds = [], vs_minimum_wire_version = 1, vs_commands = []\<rparr>,
      \<lparr>vs_request_types = [''channel_history_request''], vs_handler = ''handle_channel_history_request'',
       vs_reply_types = [''channel_history'', ''channel_result''],
       vs_mutates = False, vs_replay_protected = False, vs_mutation_guarded = False,
       vs_accesses = None,
       vs_event_kinds = [], vs_minimum_wire_version = 1, vs_commands = []\<rparr>]"

definition DEAD_LETTER_FORWARDING_VERBS :: "verb_spec list" where
  "DEAD_LETTER_FORWARDING_VERBS =
     [\<lparr>vs_request_types = [''dead_letter_forwarding''], vs_handler = ''handle_dead_letter_forwarding'',
       vs_reply_types = [''dead_letter_forwarding''],
       vs_mutates = True, vs_replay_protected = False, vs_mutation_guarded = False,
       vs_accesses = None,
       vs_event_kinds = [''dead_letter_forwarding''], vs_minimum_wire_version = 1, vs_commands = []\<rparr>]"

definition DELIVERY_MODES_VERBS :: "verb_spec list" where
  "DELIVERY_MODES_VERBS =
     [\<lparr>vs_request_types = [''delivery_request''], vs_handler = ''handle_delivery_request'',
       vs_reply_types = [''delivery_status'', ''delivery_offer'', ''delivery_refused''],
       vs_mutates = True, vs_replay_protected = False, vs_mutation_guarded = True,
       vs_accesses = Some message_access,
       vs_event_kinds = [''delivery_intent_accepted'', ''delivery_intent_queued'', ''delivery_intent_transition''], vs_minimum_wire_version = 3, vs_commands = []\<rparr>,
      \<lparr>vs_request_types = [''delivery_boundary'', ''delivery_ack'', ''delivery_outcome''], vs_handler = ''handle_delivery_stage'',
       vs_reply_types = [''delivery_status'', ''delivery_refused''],
       vs_mutates = True, vs_replay_protected = False, vs_mutation_guarded = False,
       vs_accesses = None,
       vs_event_kinds = [''delivery_intent_transition''], vs_minimum_wire_version = 3, vs_commands = []\<rparr>,
      \<lparr>vs_request_types = [''delivery_cancel''], vs_handler = ''handle_delivery_cancel'',
       vs_reply_types = [''delivery_status'', ''delivery_refused''],
       vs_mutates = True, vs_replay_protected = False, vs_mutation_guarded = False,
       vs_accesses = None,
       vs_event_kinds = [''delivery_cancel_requested''], vs_minimum_wire_version = 3, vs_commands = []\<rparr>,
      \<lparr>vs_request_types = [''delivery_status_request''], vs_handler = ''handle_delivery_status_request'',
       vs_reply_types = [''delivery_status'', ''delivery_refused''],
       vs_mutates = True, vs_replay_protected = False, vs_mutation_guarded = False,
       vs_accesses = None,
       vs_event_kinds = [''delivery_intent_transition''], vs_minimum_wire_version = 3, vs_commands = []\<rparr>]"

definition ENTITLEMENT_ADVERTS_VERBS :: "verb_spec list" where
  "ENTITLEMENT_ADVERTS_VERBS =
     [\<lparr>vs_request_types = [''entitlement_advert''], vs_handler = ''handle_entitlement_advert'',
       vs_reply_types = [''entitlement_advert_result''],
       vs_mutates = True, vs_replay_protected = False, vs_mutation_guarded = True,
       vs_accesses = Some (nested_access ''entitlement-advertise'' ''pool-alias'' ''advert'' ''pool_alias''),
       vs_event_kinds = [''entitlement_advert''], vs_minimum_wire_version = 1, vs_commands = []\<rparr>]"

definition FEDERATION_OFFER_VERBS :: "verb_spec list" where
  "FEDERATION_OFFER_VERBS =
     [\<lparr>vs_request_types = [''federation_offer_request''], vs_handler = ''handle_federation_offer_request'',
       vs_reply_types = [''federation_offer''],
       vs_mutates = False, vs_replay_protected = False, vs_mutation_guarded = False,
       vs_accesses = None,
       vs_event_kinds = [], vs_minimum_wire_version = 1, vs_commands = []\<rparr>]"

definition GUARD_EVIDENCE_VERBS :: "verb_spec list" where
  "GUARD_EVIDENCE_VERBS =
     [\<lparr>vs_request_types = [''guard_denial''], vs_handler = ''handle_guard_denial'',
       vs_reply_types = [''guard_denial_recorded''],
       vs_mutates = True, vs_replay_protected = True, vs_mutation_guarded = True,
       vs_accesses = Some (fixed_access ''evidence'' ''evidence'' ''guard-denial''),
       vs_event_kinds = [''guard_denial''], vs_minimum_wire_version = 1, vs_commands = []\<rparr>]"

definition IDENTITY_ENROLLMENTS_VERBS :: "verb_spec list" where
  "IDENTITY_ENROLLMENTS_VERBS =
     [\<lparr>vs_request_types = [''identity_enroll''], vs_handler = ''handle_identity_enroll'',
       vs_reply_types = [''identity_enroll_result'', ''system''],
       vs_mutates = True, vs_replay_protected = False, vs_mutation_guarded = True,
       vs_accesses = Some (field_access ''identity-enroll'' ''agent'' ''name'' [] False),
       vs_event_kinds = [''identity_enrollment''], vs_minimum_wire_version = 1, vs_commands = []\<rparr>,
      \<lparr>vs_request_types = [''identity_revoke''], vs_handler = ''handle_identity_revoke'',
       vs_reply_types = [''identity_revoke_result'', ''system''],
       vs_mutates = True, vs_replay_protected = False, vs_mutation_guarded = True,
       vs_accesses = Some (field_access ''identity-enroll'' ''agent'' ''name'' [] False),
       vs_event_kinds = [''identity_enrollment''], vs_minimum_wire_version = 1, vs_commands = []\<rparr>]"

definition IDENTITY_PINS_VERBS :: "verb_spec list" where
  "IDENTITY_PINS_VERBS =
     [\<lparr>vs_request_types = [''identity_pin_reclaim''], vs_handler = ''handle_identity_pin_reclaim'',
       vs_reply_types = [''identity_pin_reclaim_result'', ''system''],
       vs_mutates = True, vs_replay_protected = False, vs_mutation_guarded = True,
       vs_accesses = Some (field_access ''identity-pin-reclaim'' ''agent'' ''pin_name'' [] False),
       vs_event_kinds = [''identity_pin_reclaim''], vs_minimum_wire_version = 1, vs_commands = []\<rparr>]"

definition LEASING_VERBS :: "verb_spec list" where
  "LEASING_VERBS =
     [\<lparr>vs_request_types = [''claim''], vs_handler = ''handle_claim'',
       vs_reply_types = [''claim_granted'', ''claim_denied'', ''release_granted''],
       vs_mutates = True, vs_replay_protected = True, vs_mutation_guarded = True,
       vs_accesses = Some claim_access,
       vs_event_kinds = [''claim'', ''claim_denial'', ''release''], vs_minimum_wire_version = 1, vs_commands = [''git-claim'', ''lock'']\<rparr>,
      \<lparr>vs_request_types = [''release''], vs_handler = ''handle_release'',
       vs_reply_types = [''release_granted'', ''release_denied'', ''ledger_progress_posted''],
       vs_mutates = True, vs_replay_protected = True, vs_mutation_guarded = True,
       vs_accesses = Some release_access,
       vs_event_kinds = [''release'', ''ledger_progress''], vs_minimum_wire_version = 1, vs_commands = [''release'', ''git-release'']\<rparr>,
      \<lparr>vs_request_types = [''wait_request''], vs_handler = ''handle_wait_request'',
       vs_reply_types = [''wait_granted'', ''wait_denied''],
       vs_mutates = True, vs_replay_protected = False, vs_mutation_guarded = False,
       vs_accesses = None,
       vs_event_kinds = [], vs_minimum_wire_version = 1, vs_commands = []\<rparr>,
      \<lparr>vs_request_types = [''task_update''], vs_handler = ''handle_task_update'',
       vs_reply_types = [''task_updated''],
       vs_mutates = True, vs_replay_protected = True, vs_mutation_guarded = True,
       vs_accesses = Some task_update_access,
       vs_event_kinds = [''task_update''], vs_minimum_wire_version = 1, vs_commands = []\<rparr>,
      \<lparr>vs_request_types = [''handoff''], vs_handler = ''handle_handoff'',
       vs_reply_types = [''handoff_granted'', ''handoff_denied'', ''ledger_progress_posted''],
       vs_mutates = True, vs_replay_protected = True, vs_mutation_guarded = True,
       vs_accesses = Some handoff_access,
       vs_event_kinds = [''handoff'', ''ledger_progress''], vs_minimum_wire_version = 1, vs_commands = []\<rparr>,
      \<lparr>vs_request_types = [''checkpoint''], vs_handler = ''handle_checkpoint'',
       vs_reply_types = [''checkpoint_saved'', ''checkpoint_denied''],
       vs_mutates = True, vs_replay_protected = True, vs_mutation_guarded = True,
       vs_accesses = Some (field_access ''claim'' ''claim'' ''task_id'' [] True),
       vs_event_kinds = [''checkpoint''], vs_minimum_wire_version = 1, vs_commands = []\<rparr>]"

definition MEMORY_VERBS :: "verb_spec list" where
  "MEMORY_VERBS =
     [\<lparr>vs_request_types = [''recall_log''], vs_handler = ''handle_recall_log'',
       vs_reply_types = [''recall_logged''],
       vs_mutates = True, vs_replay_protected = True, vs_mutation_guarded = False,
       vs_accesses = None,
       vs_event_kinds = [''recall''], vs_minimum_wire_version = 1, vs_commands = []\<rparr>,
      \<lparr>vs_request_types = [''finding''], vs_handler = ''handle_finding'',
       vs_reply_types = [''finding_recorded'', ''finding_rejected''],
       vs_mutates = True, vs_replay_protected = True, vs_mutation_guarded = True,
       vs_accesses = Some (field_access ''board'' ''board'' ''task_id'' ''*'' False),
       vs_event_kinds = [''finding''], vs_minimum_wire_version = 1, vs_commands = []\<rparr>]"

definition MESSAGE_FORWARD_VERBS :: "verb_spec list" where
  "MESSAGE_FORWARD_VERBS =
     [\<lparr>vs_request_types = [''multihub_message_forward''], vs_handler = ''handle_multihub_message_forward'',
       vs_reply_types = [''multihub_message_result'', ''chat'', ''delivery_receipt'', ''delivery_offer'', ''delivery_status''],
       vs_mutates = True, vs_replay_protected = False, vs_mutation_guarded = False,
       vs_accesses = None,
       vs_event_kinds = [''chat'', ''delivery_intent_accepted'', ''delivery_intent_queued'', ''delivery_intent_transition'', ''delivery_cancel_requested'', ''delivery_receipt_requested'', ''delivery_receipt_immediate'', ''delivery_receipt_deferred''], vs_minimum_wire_version = 5, vs_commands = []\<rparr>]"

definition MESSAGING_VERBS :: "verb_spec list" where
  "MESSAGING_VERBS =
     [\<lparr>vs_request_types = [''chat''], vs_handler = ''handle_chat'',
       vs_reply_types = [''chat'', ''delivery_receipt'', ''dead_letter_escalation'', ''dead_letter_forwarding''],
       vs_mutates = True, vs_replay_protected = False, vs_mutation_guarded = True,
       vs_accesses = Some message_access,
       vs_event_kinds = [''chat'', ''dead_letter_escalation'', ''dead_letter_forwarding'', ''delivery_receipt_requested'', ''delivery_receipt_immediate'', ''delivery_receipt_deferred'', ''delivery_receipt_expired''], vs_minimum_wire_version = 1, vs_commands = [''send'']\<rparr>,
      \<lparr>vs_request_types = [''ack''], vs_handler = ''handle_ack'',
       vs_reply_types = [''delivery_receipt''],
       vs_mutates = True, vs_replay_protected = False, vs_mutation_guarded = False,
       vs_accesses = None,
       vs_event_kinds = [''mailbox_watermark'', ''delivery_receipt_deferred''], vs_minimum_wire_version = 2, vs_commands = []\<rparr>,
      \<lparr>vs_request_types = [''heartbeat''], vs_handler = ''handle_heartbeat'',
       vs_reply_types = [''chat''],
       vs_mutates = True, vs_replay_protected = False, vs_mutation_guarded = False,
       vs_accesses = None,
       vs_event_kinds = [''mailbox_watermark''], vs_minimum_wire_version = 1, vs_commands = []\<rparr>]"

definition MULTIHUB_VERBS :: "verb_spec list" where
  "MULTIHUB_VERBS =
     [\<lparr>vs_request_types = [''multihub_log_request''], vs_handler = ''handle_multihub_log_request'',
       vs_reply_types = [''multihub_log_snapshot''],
       vs_mutates = False, vs_replay_protected = False, vs_mutation_guarded = False,
       vs_accesses = None,
       vs_event_kinds = [], vs_minimum_wire_version = 1, vs_commands = []\<rparr>]"

definition MULTIHUB_CLAIM_VERBS :: "verb_spec list" where
  "MULTIHUB_CLAIM_VERBS =
     [\<lparr>vs_request_types = [''multihub_claim_request''], vs_handler = ''handle_multihub_claim_request'',
       vs_reply_types = [''multihub_claim_result'', ''claim_granted'', ''release_granted''],
       vs_mutates = True, vs_replay_protected = False, vs_mutation_guarded = False,
       vs_accesses = None,
       vs_event_kinds = [''claim'', ''claim_denial'', ''release''], vs_minimum_wire_version = 1, vs_commands = []\<rparr>]"

definition NATIVE_MESSAGE_VERBS :: "verb_spec list" where
  "NATIVE_MESSAGE_VERBS =
     [\<lparr>vs_request_types = [''native_message_record''], vs_handler = ''handle_native_message_record'',
       vs_reply_types = [''native_message_recorded'', ''native_message_rejected''],
       vs_mutates = True, vs_replay_protected = True, vs_mutation_guarded = True,
       vs_accesses = Some (fixed_access ''evidence'' ''evidence'' ''native-message''),
       vs_event_kinds = [''native_message''], vs_minimum_wire_version = 7, vs_commands = [''native-record'']\<rparr>]"

definition OFFERINGS_VERBS :: "verb_spec list" where
  "OFFERINGS_VERBS =
     [\<lparr>vs_request_types = [''advertise''], vs_handler = ''handle_advertise'',
       vs_reply_types = [''capability_advertised''],
       vs_mutates = True, vs_replay_protected = False, vs_mutation_guarded = True,
       vs_accesses = Some (field_access ''board'' ''capability'' ''agent'' ''*'' False),
       vs_event_kinds = [], vs_minimum_wire_version = 1, vs_commands = []\<rparr>,
      \<lparr>vs_request_types = [''offer_resource'', ''resource'', ''resource_offer''], vs_handler = ''handle_resource'',
       vs_reply_types = [''resource_offered''],
       vs_mutates = True, vs_replay_protected = True, vs_mutation_guarded = True,
       vs_accesses = Some (field_access ''board'' ''resource'' ''name'' ''*'' False),
       vs_event_kinds = [''resource''], vs_minimum_wire_version = 1, vs_commands = []\<rparr>]"

definition OPERATOR_RELAY_VERBS :: "verb_spec list" where
  "OPERATOR_RELAY_VERBS =
     [\<lparr>vs_request_types = [''operator_relay_request''], vs_handler = ''handle_operator_relay_request'',
       vs_reply_types = [''operator_relay_result'', ''release_granted''],
       vs_mutates = True, vs_replay_protected = False, vs_mutation_guarded = False,
       vs_accesses = None,
       vs_event_kinds = [''operator_relay'', ''release''], vs_minimum_wire_version = 1, vs_commands = []\<rparr>]"

definition PLANNING_VERBS :: "verb_spec list" where
  "PLANNING_VERBS =
     [\<lparr>vs_request_types = [''ledger_task''], vs_handler = ''handle_ledger_task'',
       vs_reply_types = [''ledger_task_posted''],
       vs_mutates = True, vs_replay_protected = True, vs_mutation_guarded = True,
       vs_accesses = Some (field_access ''board'' ''board'' ''task_id'' ''*'' False),
       vs_event_kinds = [''ledger_task''], vs_minimum_wire_version = 1, vs_commands = [''task declare'']\<rparr>,
      \<lparr>vs_request_types = [''ledger_task_update''], vs_handler = ''handle_ledger_task_update'',
       vs_reply_types = [''ledger_task_updated''],
       vs_mutates = True, vs_replay_protected = True, vs_mutation_guarded = True,
       vs_accesses = Some (field_access ''board'' ''board'' ''task_id'' ''*'' False),
       vs_event_kinds = [''ledger_task''], vs_minimum_wire_version = 1, vs_commands = [''task update'']\<rparr>,
      \<lparr>vs_request_types = [''ledger_progress''], vs_handler = ''handle_ledger_progress'',
       vs_reply_types = [''ledger_progress_posted''],
       vs_mutates = True, vs_replay_protected = True, vs_mutation_guarded = True,
       vs_accesses = Some (field_access ''board'' ''board'' ''task_id'' ''*'' False),
       vs_event_kinds = [''ledger_progress''], vs_minimum_wire_version = 1, vs_commands = [''task progress'']\<rparr>]"

definition SNAPSHOTS_VERBS :: "verb_spec list" where
  "SNAPSHOTS_VERBS =
     [\<lparr>vs_request_types = [''state_request''], vs_handler = ''handle_state_request'',
       vs_reply_types = [''state_snapshot''],
       vs_mutates = False, vs_replay_protected = False, vs_mutation_guarded = False,
       vs_accesses = None,
       vs_event_kinds = [], vs_minimum_wire_version = 1, vs_commands = [''state'']\<rparr>,
      \<lparr>vs_request_types = [''who_request''], vs_handler = ''handle_who_request'',
       vs_reply_types = [''who_snapshot''],
       vs_mutates = False, vs_replay_protected = False, vs_mutation_guarded = False,
       vs_accesses = None,
       vs_event_kinds = [], vs_minimum_wire_version = 1, vs_commands = [''who'']\<rparr>,
      \<lparr>vs_request_types = [''history_request''], vs_handler = ''handle_history_request'',
       vs_reply_types = [''history_snapshot''],
       vs_mutates = False, vs_replay_protected = False, vs_mutation_guarded = False,
       vs_accesses = Some history_access,
       vs_event_kinds = [], vs_minimum_wire_version = 1, vs_commands = []\<rparr>,
      \<lparr>vs_request_types = [''resume_request''], vs_handler = ''handle_resume_request'',
       vs_reply_types = [''resume_snapshot''],
       vs_mutates = False, vs_replay_protected = False, vs_mutation_guarded = False,
       vs_accesses = Some (fixed_access ''recall'' ''history'' ''global''),
       vs_event_kinds = [], vs_minimum_wire_version = 1, vs_commands = []\<rparr>,
      \<lparr>vs_request_types = [''board_request''], vs_handler = ''handle_board_request'',
       vs_reply_types = [''board_snapshot''],
       vs_mutates = False, vs_replay_protected = False, vs_mutation_guarded = False,
       vs_accesses = None,
       vs_event_kinds = [], vs_minimum_wire_version = 1, vs_commands = [''board'']\<rparr>,
      \<lparr>vs_request_types = [''manifest_request''], vs_handler = ''handle_manifest_request'',
       vs_reply_types = [''manifest_snapshot''],
       vs_mutates = False, vs_replay_protected = False, vs_mutation_guarded = False,
       vs_accesses = None,
       vs_event_kinds = [], vs_minimum_wire_version = 1, vs_commands = [''manifest'']\<rparr>]"

definition SPEND_VERBS :: "verb_spec list" where
  "SPEND_VERBS =
     [\<lparr>vs_request_types = [''spend_request''], vs_handler = ''handle_spend_request'',
       vs_reply_types = [''spend_result''],
       vs_mutates = True, vs_replay_protected = False, vs_mutation_guarded = False,
       vs_accesses = None,
       vs_event_kinds = [], vs_minimum_wire_version = 1, vs_commands = []\<rparr>]"

definition VERB_FAMILIES :: "verb_spec list list" where
  "VERB_FAMILIES =
     [ATTACHMENT_PEER_VERBS, ATTACHMENTS_VERBS, CHANNELS_VERBS, DEAD_LETTER_FORWARDING_VERBS,
      DELIVERY_MODES_VERBS, ENTITLEMENT_ADVERTS_VERBS, FEDERATION_OFFER_VERBS,
      GUARD_EVIDENCE_VERBS, IDENTITY_ENROLLMENTS_VERBS, IDENTITY_PINS_VERBS, LEASING_VERBS,
      MEMORY_VERBS, MESSAGE_FORWARD_VERBS, MESSAGING_VERBS, MULTIHUB_VERBS, MULTIHUB_CLAIM_VERBS,
      NATIVE_MESSAGE_VERBS, OFFERINGS_VERBS, OPERATOR_RELAY_VERBS, PLANNING_VERBS,
      SNAPSHOTS_VERBS, SPEND_VERBS]"

section \<open>The registry\<close>

text \<open>A collection that is refused stops the import of the package.\<close>

definition VERBS :: verb_registry where
  "VERBS = (case build_registry VERB_FAMILIES of Inr registry \<Rightarrow> registry | Inl _ \<Rightarrow> [])"

definition GATED_MUTATIONS :: "string list" where
  "GATED_MUTATIONS = map fst (filter (\<lambda>(name, spec). vs_mutation_guarded spec) VERBS)"

lemmas verb_family_defs =
  ATTACHMENT_PEER_VERBS_def attachment_permissions_def ATTACHMENTS_VERBS_def
  CHANNELS_VERBS_def DEAD_LETTER_FORWARDING_VERBS_def DELIVERY_MODES_VERBS_def
  ENTITLEMENT_ADVERTS_VERBS_def FEDERATION_OFFER_VERBS_def GUARD_EVIDENCE_VERBS_def
  IDENTITY_ENROLLMENTS_VERBS_def IDENTITY_PINS_VERBS_def LEASING_VERBS_def
  MEMORY_VERBS_def MESSAGE_FORWARD_VERBS_def MESSAGING_VERBS_def
  MULTIHUB_VERBS_def MULTIHUB_CLAIM_VERBS_def NATIVE_MESSAGE_VERBS_def
  OFFERINGS_VERBS_def OPERATOR_RELAY_VERBS_def PLANNING_VERBS_def
  SNAPSHOTS_VERBS_def SPEND_VERBS_def VERB_FAMILIES_def

lemma verbs_collected:
  "(case build_registry VERB_FAMILIES of Inr registry \<Rightarrow> True | Inl _ \<Rightarrow> False)"
  by code_simp

lemma VERBS_built: "build_registry VERB_FAMILIES = Inr VERBS"
  using verbs_collected by (auto simp: VERBS_def split: sum.splits)

section \<open>What a built registry holds\<close>

lemma register_names_ok:
  "register_names spec names r = Inr r' \<Longrightarrow>
     (\<forall>n. dget r' n = (if n \<in> set names then Some spec else dget r n)) \<and> (\<forall>n \<in> set names. dget r n = None)
     \<and> (dict_ok r \<longrightarrow> dict_ok r')"
proof (induction spec names r rule: register_names.induct)
  case (2 spec name names r)
  then have "register_names spec names (dset name spec r) = Inr r'" "dget r name = None"
    by (auto split: if_splits)
  with 2 show ?case by (auto simp: dget_dset split: if_splits)
qed simp

definition spec_ok :: "verb_spec \<Rightarrow> bool" where
  "spec_ok spec \<longleftrightarrow>
     vs_request_types spec \<noteq> [] \<and> [] \<notin> set (vs_request_types spec)
     \<and> (vs_mutation_guarded spec \<longrightarrow> vs_accesses spec \<noteq> None)
     \<and> 1 \<le> vs_minimum_wire_version spec \<and> vs_minimum_wire_version spec \<le> WIRE_PROTOCOL_VERSION"

lemma register_spec_ok:
  assumes "register_spec spec r = Inr r'"
  shows "spec_ok spec" "register_names spec (vs_request_types spec) r = Inr r'"
  using assms by (auto simp: register_spec_def spec_ok_def split: if_splits)

lemma register_specs_ok:
  "register_specs specs r = Inr r' \<Longrightarrow>
     (\<forall>spec \<in> set specs. spec_ok spec \<and> (\<forall>n \<in> set (vs_request_types spec). dget r' n = Some spec))
     \<and> (\<forall>n spec. dget r' n = Some spec \<longrightarrow>
          dget r n = Some spec \<or> spec \<in> set specs \<and> n \<in> set (vs_request_types spec))
     \<and> (\<forall>n spec. dget r n = Some spec \<longrightarrow> dget r' n = Some spec)
     \<and> (dict_ok r \<longrightarrow> dict_ok r')"
proof (induction specs arbitrary: r)
  case (Cons spec specs)
  from Cons.prems obtain r1 where r1: "register_spec spec r = Inr r1" and rest: "register_specs specs r1 = Inr r'"
    by (auto simp: sum_bind_def split: sum.splits)
  note names = register_names_ok [OF register_spec_ok(2) [OF r1]]
  note IH = Cons.IH [OF rest]
  have here: "dget r' n = Some spec" if "n \<in> set (vs_request_types spec)" for n
    using IH names that by auto
  have old: "dget r1 n = Some sp" if "dget r n = Some sp" for n sp
    using names that by auto
  have new: "dget r n = Some sp \<or> sp = spec \<and> n \<in> set (vs_request_types spec)" if "dget r1 n = Some sp" for n sp
    using names that by (auto split: if_splits)
  show ?case
  proof (intro conjI)
    show "\<forall>sp \<in> set (spec # specs). spec_ok sp \<and> (\<forall>n \<in> set (vs_request_types sp). dget r' n = Some sp)"
      using IH here register_spec_ok(1) [OF r1] by auto
    show "\<forall>n sp. dget r' n = Some sp \<longrightarrow>
            dget r n = Some sp \<or> sp \<in> set (spec # specs) \<and> n \<in> set (vs_request_types sp)"
    proof (intro allI impI)
      fix n sp
      assume "dget r' n = Some sp"
      then have "dget r1 n = Some sp \<or> sp \<in> set specs \<and> n \<in> set (vs_request_types sp)" using IH by blast
      then show "dget r n = Some sp \<or> sp \<in> set (spec # specs) \<and> n \<in> set (vs_request_types sp)"
        using new by auto
    qed
    show "\<forall>n sp. dget r n = Some sp \<longrightarrow> dget r' n = Some sp" using IH old by blast
    show "dict_ok r \<longrightarrow> dict_ok r'" using IH names by blast
  qed
qed simp

text \<open>
  A registry that is built resolves every declared alias to the spec that declares it, holds
  nothing else, and has a mapper for every guarded verb.
\<close>

lemma build_registry_exact:
  assumes "build_registry families = Inr r"
  shows "dict_ok r"
    "dget r n = Some spec \<longleftrightarrow> spec \<in> set (concat families) \<and> n \<in> set (vs_request_types spec)"
    "dget r n = Some spec \<Longrightarrow> spec_ok spec"
proof -
  note ok = register_specs_ok [OF assms [unfolded build_registry_def]]
  show "dict_ok r" using ok by simp
  show iff: "dget r n = Some spec \<longleftrightarrow> spec \<in> set (concat families) \<and> n \<in> set (vs_request_types spec)" for n spec
    using ok by auto
  show "spec_ok spec" if "dget r n = Some spec"
    using ok that iff by blast
qed

lemma verb_declared:
  "dget VERBS n = Some spec \<longleftrightarrow> spec \<in> set (concat VERB_FAMILIES) \<and> n \<in> set (vs_request_types spec)"
  by (rule build_registry_exact(2) [OF VERBS_built])

lemma GATED_MUTATIONS_iff:
  "n \<in> set GATED_MUTATIONS \<longleftrightarrow> (\<exists>spec. dget VERBS n = Some spec \<and> vs_mutation_guarded spec)"
  using dict_mem_iff [OF build_registry_exact(1) [OF VERBS_built]] by (force simp: GATED_MUTATIONS_def)

lemma leasing_declared: "spec \<in> set LEASING_VERBS \<Longrightarrow> n \<in> set (vs_request_types spec) \<Longrightarrow> dget VERBS n = Some spec"
  by (auto simp: verb_declared VERB_FAMILIES_def)

lemma leasing_at:
  "i < length LEASING_VERBS \<Longrightarrow> n \<in> set (vs_request_types (LEASING_VERBS ! i)) \<Longrightarrow> dget VERBS n = Some (LEASING_VERBS ! i)"
  by (rule leasing_declared) auto

end
