(* ===== verification/Acl_Gate.thy ===== *)
theory Acl_Gate
  imports Verb_Table
begin

text \<open>
  The gate before a frame is routed (\<open>core/acl_enforcement.py\<close>, \<open>project_of\<close> of
  \<open>core/identity_namespace.py\<close>, \<open>authorise_acl\<close> of \<open>core/hub_frame_gates.py\<close>) and what passing it
  means: the rules that grant each access.
\<close>

section \<open>The gate\<close>

definition project_of :: "string \<Rightarrow> string" where
  "project_of subject =
     (if CHR ''/'' \<in> set subject then takeWhile (\<lambda>c. c \<noteq> CHR ''/'') subject else [])"

definition required_accesses :: "string \<Rightarrow> json_object \<Rightarrow> journal_error + access list" where
  "required_accesses msg_type data =
     (case dget VERBS msg_type of
        Some spec \<Rightarrow> (case vs_accesses spec of Some accesses \<Rightarrow> accesses data | None \<Rightarrow> Inr [])
      | None \<Rightarrow> Inr [])"

fun first_denial :: "string \<Rightarrow> acl_policy \<Rightarrow> access list \<Rightarrow> acl_decision option" where
  "first_denial sender policy [] = None"
| "first_denial sender policy ((permission, target) # rest) =
     (let d = evaluate_access sender (project_of sender) permission target policy in
      if ad_decision d \<noteq> ''would_allow'' then Some d else first_denial sender policy rest)"

definition authorise_frame ::
  "string \<Rightarrow> string \<Rightarrow> json_object \<Rightarrow> acl_policy \<Rightarrow> journal_error + acl_decision option" where
  "authorise_frame sender msg_type data policy =
     sum_bind (required_accesses msg_type data) (\<lambda>accesses.
       Inr (if accesses = [] then
              (if msg_type \<in> set GATED_MUTATIONS
               then Some (would_deny sender msg_type \<lparr>target_kind = ''frame'', target_value = msg_type\<rparr>
                      ''mutating frame has no ACL mapping (deny by default)'')
               else None)
            else first_denial sender policy accesses))"

definition release_error_correlation :: "json_object \<Rightarrow> journal_error + json_object" where
  "release_error_correlation data =
     (case get_field data ''idem_key'' of
        JString key \<Rightarrow>
          (if get_field data ''type'' \<noteq> JString ''release'' \<or> key = [] then Inr []
           else sum_bind (first_text data [''task_id'', ''payload'']) (\<lambda>raw.
             Inr [(''release_operation_id'', JString key), (''task_id'', JString (py_strip raw))]))
      | _ \<Rightarrow> Inr [])"

text \<open>\<open>Inr None\<close> passes the frame; \<open>Inr (Some f)\<close> answers it with \<open>f\<close>.\<close>

definition authorise_acl ::
  "hub_env \<Rightarrow> bool \<Rightarrow> acl_policy option \<Rightarrow> string \<Rightarrow> string \<Rightarrow> json_object
   \<Rightarrow> journal_error + json_object option" where
  "authorise_acl env require_acl acl_policy sender msg_type data =
     (case acl_policy of
        None \<Rightarrow> Inr None
      | Some policy \<Rightarrow>
          (if \<not> require_acl then Inr None
           else sum_bind (authorise_frame sender msg_type data policy) (\<lambda>denial.
             case denial of
               None \<Rightarrow> Inr None
             | Some d \<Rightarrow>
                 sum_bind (release_error_correlation data) (\<lambda>correlation.
                   Inr (Some (system_message env
                     (''access denied: '' @ ad_permission d @ '' on '' @ target_kind (ad_target d) @ '':'' @ target_value (ad_target d))
                     ''error'' sender
                     ([(''acl_decision'', JString (ad_decision d)), (''acl_reason'', JString (ad_reason d))] @ correlation)))))))"

section \<open>What passing it means\<close>

definition granted :: "acl_policy \<Rightarrow> string \<Rightarrow> access \<Rightarrow> bool" where
  "granted policy sender a \<longleftrightarrow>
     fst a \<in> set PERMISSIONS \<and> (\<exists>r \<in> set policy. rule_matches r (project_of sender) (fst a) (snd a))"

lemma first_rule_None: "first_rule i rs P = None \<longleftrightarrow> (\<forall>r \<in> set rs. \<not> P r)"
  by (induction i rs P rule: first_rule.induct) auto

lemma evaluate_access_allows:
  "ad_decision (evaluate_access subject project permission target policy) = ''would_allow'' \<longleftrightarrow>
     permission \<in> set PERMISSIONS \<and> (\<exists>r \<in> set policy. rule_matches r project permission target)"
  using first_rule_None [of 0 policy "\<lambda>r. rule_matches r project permission target"]
  by (auto simp: evaluate_access_def would_deny_def split: option.splits)

lemma first_denial_None: "first_denial sender policy accesses = None \<longleftrightarrow> (\<forall>a \<in> set accesses. granted policy sender a)"
  by (induction sender policy accesses rule: first_denial.induct)
    (auto simp: Let_def evaluate_access_allows granted_def)

lemma authorise_frame_passes:
  "authorise_frame sender msg_type data policy = Inr None \<longleftrightarrow>
     (\<exists>accesses. required_accesses msg_type data = Inr accesses
        \<and> (accesses = [] \<longrightarrow> msg_type \<notin> set GATED_MUTATIONS) \<and> (\<forall>a \<in> set accesses. granted policy sender a))"
  by (auto simp: authorise_frame_def first_denial_None sum_bind_def split: sum.splits)

section \<open>The accesses of the lease verbs\<close>

fun lease_message :: "lease_verb \<Rightarrow> string" where
  "lease_message ClaimVerb = ''claim''"
| "lease_message UpdateVerb = ''task_update''"
| "lease_message ReleaseVerb = ''release''"
| "lease_message HandoffVerb = ''handoff''"
| "lease_message CheckpointVerb = ''checkpoint''"

fun lease_spec :: "lease_verb \<Rightarrow> verb_spec" where
  "lease_spec ClaimVerb = LEASING_VERBS ! 0"
| "lease_spec ReleaseVerb = LEASING_VERBS ! 1"
| "lease_spec UpdateVerb = LEASING_VERBS ! 3"
| "lease_spec HandoffVerb = LEASING_VERBS ! 4"
| "lease_spec CheckpointVerb = LEASING_VERBS ! 5"

lemma lease_verb_declared: "dget VERBS (lease_message verb) = Some (lease_spec verb)"
proof (rule leasing_declared)
  show "lease_spec verb \<in> set LEASING_VERBS" by (cases verb) (simp_all add: LEASING_VERBS_def)
  show "lease_message verb \<in> set (vs_request_types (lease_spec verb))"
    by (cases verb) (simp_all add: LEASING_VERBS_def)
qed

lemma lease_accesses:
  "required_accesses (lease_message verb) data =
     sum_bind (lease_task_id verb data) (\<lambda>raw.
       case verb of
         ReleaseVerb \<Rightarrow> Inr [on ''release'' ''claim'' (py_strip raw)]
       | CheckpointVerb \<Rightarrow> Inr [on ''claim'' ''claim'' (py_strip raw)]
       | _ \<Rightarrow> claim_targets data (py_strip raw))"
  unfolding required_accesses_def lease_verb_declared
  by (cases verb) (simp_all add: LEASING_VERBS_def claim_access_def task_update_access_def handoff_access_def
    release_access_def field_access_def [abs_def] text_field_def Let_def)

end
