(* ===== verification/Acl_Properties.thy ===== *)
theory Acl_Properties
  imports Acl_Gate Leasing_Properties
begin

text \<open>
  What the access control guarantees of the lease verbs: a frame that passes the gate changes only
  claims a rule grants, beside the claims of long absent holders that a claim frame frees first, and
  a claim it makes locks only paths a rule grants, when the hub keeps the default limit of paths; with a
  lower limit it does not.
\<close>

section \<open>What one operation may change\<close>

definition confined :: "time \<Rightarrow> string \<Rightarrow> string list \<Rightarrow> claim_dict \<Rightarrow> claim_dict \<Rightarrow> bool" where
  "confined ts t ps cs cs' \<longleftrightarrow>
     (\<forall>k. k \<noteq> t \<longrightarrow> kept_or_swept ts cs cs' k)
     \<and> (\<forall>c'. dget cs' t = Some c' \<longrightarrow> paths c' = ps \<or> (\<exists>c. dget cs t = Some c \<and> paths c = paths c'))"

lemma confined_same [simp]: "confined ts t ps cs cs"
  by (simp add: confined_def)

lemma confined_heartbeat: "wf_state s \<Longrightarrow> confined ts t ps (claims s) (claims (heartbeat agent ts s))"
  using kept_heartbeat [of s ts] dget_claims_heartbeat by (auto simp: confined_def)

lemma confined_dset:
  assumes "wf_state s" and "paths c' = ps \<or> dget (claims (heartbeat agent ts s)) t = Some c \<and> paths c' = paths c"
  shows "confined ts t ps (claims s) (dset t c' (claims (heartbeat agent ts s)))"
  using assms kept_heartbeat [OF assms(1)] dget_claims_heartbeat [OF assms(1)]
  by (auto simp: confined_def kept_dset)

lemma confined_touch:
  assumes "wf_state s" and "dget (claims (heartbeat agent ts s)) t = Some c" and "paths c' = paths c"
  shows "confined ts t ps (claims s) (dset t c' (claims (heartbeat agent ts s)))"
  using confined_dset assms by blast

lemma confined_ddel: "wf_state s \<Longrightarrow> confined ts t ps (claims s) (ddel t (claims (heartbeat agent ts s)))"
  using kept_heartbeat [of s ts] by (auto simp: confined_def kept_or_swept_def)

lemma claim_confined:
  assumes wf: "wf_state s" and task: "py_strip task = task"
  shows "confined ts task (normalize_paths (req_paths rq) (Some (max_paths_per_claim s))) (claims s)
           (claims (fst (claim agent task rq ts s)))"
proof (cases rule: claim_cases [of agent task rq ts s, case_names inv ref granted])
  case (granted h t ps prin)
  then show ?thesis using task
    by (simp add: grant_claim_stores(1) granted_claim_fields confined_dset [OF wf])
qed (simp_all add: confined_heartbeat [OF wf])

lemma renew_claim_confined:
  assumes wf: "wf_state s" and task: "py_strip task = task"
  shows "confined ts task ps' (claims s) (claims (fst (renew_claim agent task ep ps ts s)))"
proof (cases rule: renew_claim_cases [of agent task ep ps ts s, case_names ref granted])
  case (granted h t c)
  have t: "t = task" using granted(2) task by simp
  have "wf_state h" unfolding granted(1) by (rule wf_heartbeat [OF wf])
  then have "task_id c = task" using wf_stateD(6) [of h, OF _ granted(3)] by (simp add: claim_ok_def t)
  then show ?thesis using granted(3) confined_dset [OF wf, of _ ps' agent ts task c]
    by (simp add: granted(8) post_init_def granted(1) t)
qed (simp add: confined_heartbeat [OF wf])

lemma update_task_confined:
  assumes wf: "wf_state s"
  shows "confined ts task ps (claims s) (claims (fst (update_task agent task st n d ep v ts s)))"
proof (cases rule: update_task_cases [of agent task st n d ep v ts s, case_names ref granted])
  case (granted h c)
  then show ?thesis using confined_touch [OF wf granted(2) [unfolded granted(1)]] by simp
qed (simp add: confined_heartbeat [OF wf])

lemma save_checkpoint_confined:
  assumes wf: "wf_state s" and task: "py_strip task = task"
  shows "confined ts task ps (claims s) (claims (fst (save_checkpoint agent task cp ep ts s)))"
proof (cases rule: save_checkpoint_cases [of agent task cp ep ts s, case_names ref granted])
  case (granted h t c)
  then show ?thesis using task confined_touch [OF wf granted(3) [unfolded granted(1)]] by simp
qed (simp add: confined_heartbeat [OF wf])

lemma release_confined:
  assumes wf: "wf_state s" and task: "py_strip task = task"
  shows "confined ts task ps (claims s) (claims (fst (release agent task ep ts s)))"
proof (cases rule: release_cases [of agent task ep ts s, case_names inv ref granted])
  case (granted h t c)
  then show ?thesis using task by (simp add: drop_claim_def confined_ddel [OF wf])
qed (simp_all add: confined_heartbeat [OF wf])

lemma handoff_confined:
  assumes wf: "wf_state s" and task: "py_strip task = task"
  shows "confined ts task ps (claims s) (claims (fst (handoff agent task to n ep ts s)))"
proof (cases rule: handoff_cases [of agent task to n ep ts s, case_names inv ref granted])
  case (granted h t target c moved)
  then show ?thesis using task confined_touch [OF wf granted(6) [unfolded granted(1)]] by simp
qed (simp_all add: confined_heartbeat [OF wf])

section \<open>The verbs\<close>

definition frame_scope :: "json_object \<Rightarrow> string list" where
  "frame_scope data = (case frame_paths data of Inr ps \<Rightarrow> ps | Inl _ \<Rightarrow> [])"

fun body_scope :: "claim_body \<Rightarrow> string list" where
  "body_scope (AcquireBody task rq rid) = req_paths rq"
| "body_scope _ = []"

fun body_task :: "claim_body \<Rightarrow> string" where
  "body_task (AcquireBody task rq rid) = task"
| "body_task (RenewalBody task ep ps rid) = task"
| "body_task (BadRenewal task rid) = task"
| "body_task (BadIdentity task rid) = task"

lemma parse_claim_scope:
  assumes "parse_claim quota data = Inr body"
  shows "\<exists>raw. first_text data [''task_id'', ''payload''] = Inr raw \<and> body_task body = py_strip raw"
    "body_scope body = frame_scope data \<or> (\<exists>t ep ps rid. body = RenewalBody t ep ps rid)
       \<or> (\<exists>t rid. body = BadRenewal t rid) \<or> (\<exists>t rid. body = BadIdentity t rid)"
proof -
  from assms obtain raw where raw: "first_text data [''task_id'', ''payload''] = Inr raw"
    and body: "(case dget data ''renew_epoch'' of
         Some ep \<Rightarrow> parse_renewal (py_strip raw) ep data
       | None \<Rightarrow> parse_acquisition quota (py_strip raw) data) = Inr body"
    by (auto simp: parse_claim_def sum_bind_Inr)
  have ren: "body_task body = py_strip raw \<and> ((\<exists>t ep ps rid. body = RenewalBody t ep ps rid) \<or> (\<exists>t rid. body = BadRenewal t rid))"
    if "parse_renewal (py_strip raw) ep data = Inr body" for ep
    using that by (cases ep) (auto simp: parse_renewal_def sum_bind_Inr split: if_splits)
  have acq: "body_task body = py_strip raw \<and> (body_scope body = frame_scope data \<or> (\<exists>t rid. body = BadIdentity t rid))"
    if "parse_acquisition quota (py_strip raw) data = Inr body"
    using that by (cases "parse_optional_claim_scope_identity data") (auto simp: parse_acquisition_def sum_bind_Inr frame_scope_def)
  show "\<exists>raw. first_text data [''task_id'', ''payload''] = Inr raw \<and> body_task body = py_strip raw"
    using raw body ren acq by (auto split: option.splits)
  show "body_scope body = frame_scope data \<or> (\<exists>t ep ps rid. body = RenewalBody t ep ps rid)
       \<or> (\<exists>t rid. body = BadRenewal t rid) \<or> (\<exists>t rid. body = BadIdentity t rid)"
    using body ren acq by (auto split: option.splits)
qed

lemma apply_claim_confined:
  assumes wf: "wf_state s" and task: "py_strip (body_task body) = body_task body"
    and scope: "body_scope body = ps \<or> (\<exists>t ep ps rid. body = RenewalBody t ep ps rid)
       \<or> (\<exists>t rid. body = BadRenewal t rid) \<or> (\<exists>t rid. body = BadIdentity t rid)"
  shows "confined ts (body_task body) (normalize_paths ps (Some (max_paths_per_claim s))) (claims s)
           (claims (fst (apply_claim ts agent body s)))"
proof (cases body)
  case (AcquireBody t rq rid)
  then show ?thesis
    using claim_confined [OF wf, of t ts rq agent] task scope by (auto split: prod.splits sum.splits)
next
  case (RenewalBody t ep rps rid)
  then show ?thesis
    using renew_claim_confined [OF wf, of t ts _ agent ep "normalize_paths rps (Some (max_paths_per_claim s))"] task
    by (auto split: prod.splits sum.splits)
qed simp_all

lemma owner_result_state [simp]: "fst (owner_result task r) = fst r"
  by (simp add: owner_result_def split: prod.splits sum.splits)

lemma verb_confined:
  assumes wf: "wf_state s" and rq: "verb_request env mx verb sender quota data = Inr rq"
  shows "\<exists>raw. lease_task_id verb data = Inr raw
    \<and> (\<forall>ps. verb = ClaimVerb \<longrightarrow> ps = normalize_paths (frame_scope data) (Some (max_paths_per_claim s)) \<longrightarrow>
          confined (env_now env) (py_strip raw) ps (claims s) (claims (fst (rq_mutate rq s))))
    \<and> (\<forall>ps. verb \<noteq> ClaimVerb \<longrightarrow>
          confined (env_now env) (py_strip raw) ps (claims s) (claims (fst (rq_mutate rq s))))"
proof (cases verb)
  case ClaimVerb
  with rq obtain body where body: "parse_claim quota data = Inr body"
    and mut: "rq_mutate rq = (\<lambda>s. let (s', app) = apply_claim (env_now env) sender body s in (s', ClaimResult app))"
    by (auto simp: verb_request_def claim_verb_eq sum_bind_Inr)
  note scope = parse_claim_scope [OF body]
  from scope(1) obtain raw where raw: "first_text data [''task_id'', ''payload''] = Inr raw" "body_task body = py_strip raw"
    by blast
  with apply_claim_confined [OF wf _ scope(2)] show ?thesis
    by (auto simp: ClaimVerb mut split_beta)
next
  case UpdateVerb
  with rq show ?thesis
    by (auto simp: verb_request_def task_update_verb_def sum_bind_Inr Let_def update_task_confined [OF wf])
next
  case ReleaseVerb
  have "confined (env_now env) (py_strip raw) ps (claims s)
      (claims (fst (case release sender (py_strip raw) ep (env_now env) s of
         (s', Inl m) \<Rightarrow> (s', ReleaseResult False (render_msg m)) | (s', Inr m) \<Rightarrow> (s', ReleaseResult True (render_msg m)))))"
    for raw ep ps
    using release_confined [OF wf, of "py_strip raw" "env_now env" ps sender ep] by (auto split: prod.splits sum.splits)
  with rq show ?thesis
    by (auto simp: ReleaseVerb verb_request_def release_verb_def sum_bind_Inr Let_def)
next
  case HandoffVerb
  with rq show ?thesis
    by (auto simp: verb_request_def handoff_verb_def sum_bind_Inr Let_def handoff_confined [OF wf])
next
  case CheckpointVerb
  with rq show ?thesis
    by (auto simp: verb_request_def checkpoint_verb_def sum_bind_Inr Let_def save_checkpoint_confined [OF wf])
qed

lemma claim_targets_granted:
  assumes "claim_targets data task = Inr accesses" and "\<forall>a \<in> set accesses. granted policy sender a"
  shows "granted policy sender (on ''claim'' ''claim'' task)"
    and "p \<in> set (normalize_paths (frame_scope data) (Some MAX_DECLARED_PATHS)) \<Longrightarrow>
           granted policy sender (on ''claim'' ''path'' p)"
  using assms by (auto simp: claim_targets_def sum_bind_Inr frame_scope_def)

section \<open>Properties\<close>

text \<open>
  C15: The gate is deny by default and exact.  A frame passes if and only if every access its verb
  declares is granted by a rule of the policy for the sender's namespace (with a known permission)
  and a verb marked as a mutation declares at least one access; so an empty policy refuses every
  mutation of the registry of verbs.
\<close>

theorem acl_gate_exact:
  "(authorise_frame sender msg_type data policy = Inr None \<longleftrightarrow>
      (\<exists>accesses. required_accesses msg_type data = Inr accesses
         \<and> (accesses = [] \<longrightarrow> msg_type \<notin> set GATED_MUTATIONS)
         \<and> (\<forall>a \<in> set accesses. fst a \<in> set PERMISSIONS
              \<and> (\<exists>r \<in> set policy. rule_matches r (project_of sender) (fst a) (snd a)))))
   \<and> (msg_type \<in> set GATED_MUTATIONS \<longrightarrow> authorise_frame sender msg_type data [] \<noteq> Inr None)"
proof
  have "accesses = []" if "\<forall>a \<in> set accesses. granted [] sender a" for accesses
    using that by (cases accesses) (auto simp: granted_def)
  then show "msg_type \<in> set GATED_MUTATIONS \<longrightarrow> authorise_frame sender msg_type data [] \<noteq> Inr None"
    unfolding authorise_frame_passes by blast
qed (auto simp: authorise_frame_passes granted_def)


section \<open>The handler\<close>

text \<open>The request of a frame that passed the gate, on the registry it finds.\<close>

lemma request_confined:
  assumes "wf_state s" and "max_paths_per_claim s = MAX_DECLARED_PATHS"
    and "authorise_frame sender (lease_message verb) data policy = Inr None"
    and "verb_request env mx verb sender quota data = Inr rq"
    and "\<not> kept_or_swept (env_now env) (claims s) (claims (fst (rq_mutate rq s))) task"
  shows "granted policy sender (on (if verb = ReleaseVerb then ''release'' else ''claim'') ''claim'' task)
    \<and> (\<forall>c'. dget (claims (fst (rq_mutate rq s))) task = Some c' \<longrightarrow>
         (\<exists>c. dget (claims s) task = Some c \<and> paths c = paths c')
         \<or> (verb = ClaimVerb \<and> (\<forall>p \<in> set (paths c'). granted policy sender (on ''claim'' ''path'' p))))"
proof -
  let ?cs = "claims s" and ?cs' = "claims (fst (rq_mutate rq s))" and ?ts = "env_now env"
  let ?ps = "normalize_paths (frame_scope data) (Some MAX_DECLARED_PATHS)"
  from verb_confined [OF assms(1,4)] assms(2) obtain raw where raw: "lease_task_id verb data = Inr raw"
    and claim: "verb = ClaimVerb \<Longrightarrow> confined ?ts (py_strip raw) ?ps ?cs ?cs'"
    and other: "\<And>ps. verb \<noteq> ClaimVerb \<Longrightarrow> confined ?ts (py_strip raw) ps ?cs ?cs'" by auto
  have "\<exists>ps. confined ?ts (py_strip raw) ps ?cs ?cs'" using claim other by (cases "verb = ClaimVerb") blast+
  then have task: "task = py_strip raw" using assms(5) by (auto simp: confined_def)
  from assms(3) obtain accesses where acc: "required_accesses (lease_message verb) data = Inr accesses"
    and all: "\<forall>a \<in> set accesses. granted policy sender a" by (auto simp: authorise_frame_passes)
  note acc' = acc [unfolded lease_accesses raw sum_bind_simps]
  have targets: "granted policy sender (on (if verb = ReleaseVerb then ''release'' else ''claim'') ''claim'' task)"
    using acc' all by (cases verb) (auto simp: task dest: claim_targets_granted)
  have paths_granted: "granted policy sender (on ''claim'' ''path'' p)" if "verb = ClaimVerb" "p \<in> set ?ps" for p
    using that acc' all claim_targets_granted(2) [of data "py_strip raw" accesses policy sender p] by simp
  have "(\<exists>c. dget ?cs task = Some c \<and> paths c = paths c')
      \<or> (verb = ClaimVerb \<and> (\<forall>p \<in> set (paths c'). granted policy sender (on ''claim'' ''path'' p)))"
    if at: "dget ?cs' task = Some c'" for c'
  proof (cases "verb = ClaimVerb")
    case True
    then show ?thesis using claim [OF True] at paths_granted [OF True] by (auto simp: confined_def task)
  next
    case False
    then show ?thesis using other [OF False, of "[] # paths c'"] at by (simp add: confined_def task)
  qed
  then show ?thesis using targets by blast
qed

text \<open>The sweep of abandoned claims frees claims of holders that are long gone, and no others.\<close>

definition freed_abandoned ::
  "holder_presence \<Rightarrow> string list \<Rightarrow> time \<Rightarrow> claim_dict \<Rightarrow> claim_dict \<Rightarrow> string \<Rightarrow> bool" where
  "freed_abandoned hp online tick cs cs' task \<longleftrightarrow> dget cs' task = None
     \<and> (\<exists>k c. dget cs k = Some c \<and> py_strip k = task \<and> long_gone hp online tick c)"

lemma release_each_frame:
  "wf_state s \<Longrightarrow> wf_state (release_each items s) \<and> max_paths_per_claim (release_each items s) = max_paths_per_claim s
     \<and> (dget (claims (release_each items s)) k = dget (claims s) k
        \<or> dget (claims (release_each items s)) k = None \<and> k \<in> py_strip ` fst ` set items)"
proof (induction items arbitrary: s)
  case (Cons x items)
  obtain task who away where x: "x = (task, who, away)" by (cases x) auto
  let ?s1 = "fst (force_release task HOLDER_OFFLINE_ACTOR s)"
  have step: "release_each (x # items) s = release_each items ?s1" by (simp add: release_each_def x)
  have wf: "wf_state ?s1" using wf_run_op [OF Cons.prems, of "ForceRelease task HOLDER_OFFLINE_ACTOR"] by simp
  have "max_paths_per_claim ?s1 = max_paths_per_claim s
      \<and> (dget (claims ?s1) k = dget (claims s) k \<or> dget (claims ?s1) k = None \<and> k = py_strip task)"
    by (cases rule: force_release_cases [of task HOLDER_OFFLINE_ACTOR s]) (auto simp: drop_claim_def)
  with Cons.IH [OF wf] show ?case unfolding step by (auto simp: x)
qed (simp add: release_each_def)

lemma sweep_confined:
  assumes wf: "wf_state (ac_subject ac)" and run: "release_abandoned_claims hp online tick disk ac = (ac', failed)"
  shows "wf_state (ac_subject ac') \<and> max_paths_per_claim (ac_subject ac') = max_paths_per_claim (ac_subject ac)
    \<and> (dget (claims (ac_subject ac')) k = dget (claims (ac_subject ac)) k
       \<or> freed_abandoned hp online tick (claims (ac_subject ac)) (claims (ac_subject ac')) k)"
proof -
  let ?s = "ac_subject ac" and ?found = "abandoned_claims (claims (ac_subject ac)) hp online tick"
  have mem: "(k, c) \<in> set (claims ?s) \<longleftrightarrow> dget (claims ?s) k = Some c" for k c
    using wf_stateD(1) [OF wf] by (simp add: dict_mem_iff)
  have gone: "\<exists>k0 c. dget (claims ?s) k0 = Some c \<and> py_strip k0 = k \<and> long_gone hp online tick c"
    if "k \<in> py_strip ` fst ` set ?found"
    using that by (force simp: abandoned_filter mem [symmetric])
  have mut: "fst (rq_mutate (abandoned_verb hp online tick) ?s) = release_each ?found ?s"
    by (simp add: abandoned_verb_def Let_def)
  have "ac_subject ac' = ?s \<or> ac_subject ac' = release_each ?found ?s"
    using run run_request_subject [of disk "abandoned_verb hp online tick" ac] unfolding mut
    by (auto simp: release_abandoned_claims_def split: if_splits prod.splits sum.splits)
  then show ?thesis
  proof
    assume "ac_subject ac' = release_each ?found ?s"
    then show ?thesis using release_each_frame [OF wf, of ?found k] gone by (auto simp: freed_abandoned_def)
  qed (use wf in simp)
qed

lemma decide_confined:
  assumes "decide_lease env mx require online disk verb sender quota data ac = (ac', res)"
  shows "ac_subject ac' = ac_subject ac
    \<or> (\<exists>rq. verb_request env mx verb sender quota data = Inr rq \<and> ac_subject ac' = fst (rq_mutate rq (ac_subject ac)))"
proof (cases "\<exists>rq. admit_frame env mx require online verb sender quota data = Inr (Inr rq)")
  case True
  then obtain rq where rq: "admit_frame env mx require online verb sender quota data = Inr (Inr rq)" by blast
  then have "verb_request env mx verb sender quota data = Inr rq"
    by (auto simp: admit_frame_def sum_bind_Inr split: if_splits)
  moreover obtain r where "run_request disk rq ac = (ac', r)"
    using assms rq by (auto simp: decide_lease_def split: prod.splits sum.splits)
  ultimately show ?thesis using run_request_subject by blast
next
  case False
  then show ?thesis using assms by (auto simp: decide_lease_def split: sum.splits)
qed

section \<open>Confinement\<close>

text \<open>
  C14: The gate confines the lease verbs.  Run the handler of a frame that passed it, whatever the disk
  does and whether the frame is new or a retry, under the default limit of 512 paths: a task whose claim it
  creates, changes or removes (run-out leases aside) is one a rule grants the sender, release for
  a release and claim otherwise, and a claim found there afterwards keeps the paths it had or locks
  only paths a rule grants.  The one exception asks for no rule: a claim frame first frees claims whose
  holders have been away for the whole lease window.
\<close>

theorem acl_confines_lease_verbs:
  assumes "wf_state (ac_subject ac)" and "max_paths_per_claim (ac_subject ac) = MAX_DECLARED_PATHS"
    and "authorise_frame sender (lease_message verb) data policy = Inr None"
    and "handle_lease env mx require hp online tick disk1 disk2 verb sender quota data ac = (ac', res)"
    and "\<not> kept_or_swept (env_now env) (claims (ac_subject ac)) (claims (ac_subject ac')) task"
  shows "granted policy sender (on (if verb = ReleaseVerb then ''release'' else ''claim'') ''claim'' task)
      \<and> (\<forall>c'. dget (claims (ac_subject ac')) task = Some c' \<longrightarrow>
           (\<exists>c. dget (claims (ac_subject ac)) task = Some c \<and> paths c = paths c')
           \<or> (verb = ClaimVerb \<and> (\<forall>p \<in> set (paths c'). granted policy sender (on ''claim'' ''path'' p))))
    \<or> verb = ClaimVerb \<and> freed_abandoned hp online tick (claims (ac_subject ac)) (claims (ac_subject ac')) task"
proof -
  let ?kept = "\<lambda>a b. kept_or_swept (env_now env) (claims (ac_subject a)) (claims (ac_subject b)) task"
  have request: "?kept a ac' \<or> (granted policy sender (on (if verb = ReleaseVerb then ''release'' else ''claim'') ''claim'' task)
      \<and> (\<forall>c'. dget (claims (ac_subject ac')) task = Some c' \<longrightarrow>
           (\<exists>c. dget (claims (ac_subject a)) task = Some c \<and> paths c = paths c')
           \<or> (verb = ClaimVerb \<and> (\<forall>p \<in> set (paths c'). granted policy sender (on ''claim'' ''path'' p)))))"
    if wf: "wf_state (ac_subject a)" "max_paths_per_claim (ac_subject a) = MAX_DECLARED_PATHS"
      and run: "decide_lease env mx require online disk2 verb sender quota data a = (ac', r)" for a r
    using decide_confined [OF run] request_confined [OF wf assms(3), of env mx quota _ task] by fastforce
  show ?thesis
  proof (cases "verb = ClaimVerb")
    case False
    then show ?thesis using request [OF assms(1,2)] assms(4,5) by (simp add: handle_lease_def)
  next
    case True
    obtain a failed where sweep: "release_abandoned_claims hp online tick disk1 ac = (a, failed)" by fastforce
    note S = sweep_confined [OF assms(1) sweep, of task]
    show ?thesis
    proof (cases failed)
      case (Some e)
      then have "ac' = a" using assms(4) True sweep by (simp add: handle_lease_def)
      then show ?thesis using S assms(5) True by (auto simp: kept_or_swept_def)
    next
      case None
      then have run: "decide_lease env mx require online disk2 verb sender quota data a = (ac', res)"
        using assms(4) True sweep by (simp add: handle_lease_def)
      have "max_paths_per_claim (ac_subject a) = MAX_DECLARED_PATHS" using S assms(2) by simp
      from request [OF _ this run] S assms(5) True show ?thesis
        by (auto simp: kept_or_swept_def freed_abandoned_def)
    qed
  qed
qed


definition src_policy :: acl_policy where
  "src_policy =
     [\<lparr>rule_permission = ''claim'', rule_kind = ''claim'', rule_pattern = ''*'', rule_namespace = [], rule_reason = []\<rparr>,
      \<lparr>rule_permission = ''claim'', rule_kind = ''path'', rule_pattern = ''src*'', rule_namespace = [], rule_reason = []\<rparr>]"

definition path_hub :: "int \<Rightarrow> synapse_state" where
  "path_hub limit = init_state (JFloat (Finite 60)) (JInt 2) (JInt 4) (JInt limit)"

definition two_paths_frame :: json_object where
  "two_paths_frame = [(''task_id'', JString ''T''), (''paths'', JList [JString ''src/a'', JString ''src/b''])]"

lemma src_policy_checks:
  "claim_targets claim_frame_T ''T'' = Inr [on ''claim'' ''claim'' ''T'', on ''claim'' ''path'' ''src'']"
  "first_denial ''a'' src_policy [on ''claim'' ''claim'' ''T'', on ''claim'' ''path'' ''src''] = None"
  "claim_targets two_paths_frame ''T'' = Inr [on ''claim'' ''claim'' ''T'', on ''claim'' ''path'' ''src/a'', on ''claim'' ''path'' ''src/b'']"
  "first_denial ''a'' src_policy [on ''claim'' ''claim'' ''T'', on ''claim'' ''path'' ''src/a'', on ''claim'' ''path'' ''src/b''] = None"
  "map_option ad_decision (first_denial ''a'' src_policy [on ''claim'' ''path'' []]) = Some ''would_deny''"
  by code_simp+

lemma path_hub_checks:
  "map_option paths (dget (claims (fst (apply_claim 0 ''a'' (AcquireBody ''T'' (plain_request [''src'']) []) (path_hub 512)))) ''T'')
     = Some [''src'']"
  "map_option paths (dget (claims (fst (apply_claim 0 ''a'' (AcquireBody ''T'' (plain_request [''src/a'', ''src/b'']) []) (path_hub 1)))) ''T'')
     = Some [[]]"
  "claims (path_hub 512) = []" "max_paths_per_claim (path_hub 512) = 512"
  by code_simp+


lemma passes_claim:
  assumes "lease_task_id ClaimVerb data = Inr ''T''" and "claim_targets data ''T'' = Inr accesses"
    and "accesses \<noteq> []" and "first_denial ''a'' policy accesses = None"
  shows "authorise_frame ''a'' (lease_message ClaimVerb) data policy = Inr None"
proof -
  have "py_strip ''T'' = ''T''" by code_simp
  then show ?thesis using assms
    by (simp add: authorise_frame_def lease_accesses del: lease_message.simps lease_task_id.simps)
qed

theorem acl_gate_exact_witness:
  "authorise_frame ''a'' (lease_message ClaimVerb) claim_frame_T [] \<noteq> Inr None"
proof -
  have "vs_mutation_guarded (lease_spec ClaimVerb)" by (simp add: LEASING_VERBS_def)
  then have "lease_message ClaimVerb \<in> set GATED_MUTATIONS"
    using lease_verb_declared [of ClaimVerb] GATED_MUTATIONS_iff by blast
  then show ?thesis using acl_gate_exact by blast
qed

lemma plain_claim_request:
  assumes "parse_claim None data = Inr (AcquireBody ''T'' (plain_request ps) [])" "text_field data ''worktree'' = Inr []"
    "frame_paths data = Inr ps" "idempotency_key data = Inr []"
  obtains rq where "verb_request demo_env mx ClaimVerb ''a'' None data = Inr rq" "rq_key rq = None"
    "\<And>s. fst (rq_mutate rq s) = fst (apply_claim 0 ''a'' (AcquireBody ''T'' (plain_request ps) []) s)"
  using assms by (auto simp: verb_request_def claim_verb_eq operation_identity_def demo_env_def split_beta)

theorem acl_confines_lease_verbs_witness:
  "\<exists>disk ac' ex c'. handle_lease demo_env 512 False long_offline [] 3600 1 disk ClaimVerb ''a'' None claim_frame_T
        (fresh_actor (path_hub 512)) = (ac', Executed ex)
    \<and> granted src_policy ''a'' (on ''claim'' ''claim'' ''T'')
    \<and> dget (claims (ac_subject ac')) ''T'' = Some c' \<and> paths c' = [''src'']
    \<and> (\<forall>p \<in> set (paths c'). granted src_policy ''a'' (on ''claim'' ''path'' p))"
proof -
  obtain rq where rq: "verb_request demo_env 512 ClaimVerb ''a'' None claim_frame_T = Inr rq" "rq_key rq = None"
    and mut: "\<And>s. fst (rq_mutate rq s) = fst (apply_claim 0 ''a'' (AcquireBody ''T'' (plain_request [''src'']) []) s)"
    using plain_claim_request [OF parse_claim_T claim_frame_T_texts(1,2,3), of 512] by blast
  let ?ac = "fresh_actor (path_hub 512) :: lease_actor"
  let ?r = "snd (rq_mutate rq (path_hub 512))"
  let ?ac' = "?ac\<lparr>ac_store := append_rows (rq_persist rq ?r) (ac_store ?ac), ac_subject := fst (rq_mutate rq (path_hub 512))\<rparr>"
  let ?ex = "\<lparr>ex_outcome = Uncommitted, ex_mutation = Some ?r, ex_response = None\<rparr>"
  have "admit_frame demo_env 512 False [] ClaimVerb ''a'' None claim_frame_T = Inr (Inr rq)"
    by (simp add: admit_frame_def claim_frame_T_texts refuse_unfenced_def rq del: lease_task_id.simps)
  moreover have "run_request (length (rq_persist rq ?r)) rq ?ac = (?ac', Inr ?ex)"
    by (simp add: run_request_def atomic_begin_def rq(2) Let_def case_prod_unfold fresh_actor_def atomic_finish_def
        pending_append_def plain_append_def)
  moreover have idle: "abandoned_claims (claims (ac_subject ?ac)) long_offline [] 3600 = []"
    by (simp add: fresh_actor_def path_hub_checks(3) abandoned_claims_def List.map_filter_simps)
  ultimately have run: "handle_lease demo_env 512 False long_offline [] 3600 1 (length (rq_persist rq ?r)) ClaimVerb ''a'' None
      claim_frame_T ?ac = (?ac', Executed ?ex)"
    by (simp add: handle_lease_def release_abandoned_claims_def decide_lease_def)
  have sub: "ac_subject ?ac = path_hub 512" by (simp add: fresh_actor_def)
  have wf: "wf_state (ac_subject ?ac)" unfolding sub by (simp add: path_hub_def wf_init)
  have limit: "max_paths_per_claim (ac_subject ?ac) = MAX_DECLARED_PATHS"
    unfolding sub using path_hub_checks(4) by (simp add: MAX_DECLARED_PATHS_def)
  have passes: "authorise_frame ''a'' (lease_message ClaimVerb) claim_frame_T src_policy = Inr None"
    by (rule passes_claim [OF claim_frame_T_texts(4) src_policy_checks(1) _ src_policy_checks(2)]) simp
  obtain c where c: "dget (claims (ac_subject ?ac')) ''T'' = Some c" "paths c = [''src'']"
    using path_hub_checks(1) by (auto simp: mut)
  then have "\<not> kept_or_swept (env_now demo_env) (claims (ac_subject ?ac)) (claims (ac_subject ?ac')) ''T''"
    by (simp add: kept_or_swept_def sub path_hub_checks(3))
  from acl_confines_lease_verbs [OF wf limit passes run this] c
  have "granted src_policy ''a'' (on ''claim'' ''claim'' ''T'')"
    "\<forall>p \<in> set (paths c). granted src_policy ''a'' (on ''claim'' ''path'' p)"
    unfolding sub by (auto simp: path_hub_checks(3) freed_abandoned_def)
  with c run show ?thesis by blast
qed

text \<open>
  The limit of the paths matters.  A hub started with a lower limit than the gate's (here one
  path) grants a claim on two permitted paths as a claim on the whole worktree, which no rule
  grants: the gate saw the two paths, the registry folded them to the root.
\<close>

theorem low_path_limit_escapes_acl:
  "authorise_frame ''a'' (lease_message ClaimVerb) two_paths_frame src_policy = Inr None
   \<and> (\<exists>rq. verb_request demo_env 1 ClaimVerb ''a'' None two_paths_frame = Inr rq
        \<and> map_option paths (dget (claims (fst (rq_mutate rq (path_hub 1)))) ''T'') = Some [[]])
   \<and> \<not> granted src_policy ''a'' (on ''claim'' ''path'' [])"
proof -
  have texts: "parse_claim None two_paths_frame = Inr (AcquireBody ''T'' (plain_request [''src/a'', ''src/b'']) [])"
    "text_field two_paths_frame ''worktree'' = Inr []" "frame_paths two_paths_frame = Inr [''src/a'', ''src/b'']"
    "idempotency_key two_paths_frame = Inr []" "lease_task_id ClaimVerb two_paths_frame = Inr ''T''"
    by code_simp+
  obtain rq where rq: "verb_request demo_env 1 ClaimVerb ''a'' None two_paths_frame = Inr rq"
    and mut: "\<And>s. fst (rq_mutate rq s) = fst (apply_claim 0 ''a'' (AcquireBody ''T'' (plain_request [''src/a'', ''src/b'']) []) s)"
    using plain_claim_request [OF texts(1-4), of 1] by blast
  have "authorise_frame ''a'' (lease_message ClaimVerb) two_paths_frame src_policy = Inr None"
    by (rule passes_claim [OF texts(5) src_policy_checks(3) _ src_policy_checks(4)]) simp
  moreover have "\<not> granted src_policy ''a'' (on ''claim'' ''path'' [])"
    using src_policy_checks(5) first_denial_None [of "''a''" src_policy "[on ''claim'' ''path'' []]"] by auto
  ultimately show ?thesis using rq path_hub_checks(2) by (auto simp: mut)
qed

section \<open>The declared rows\<close>

lemma claim_snapshot_kind [simp]: "fst (record_claim_snapshot kind c) = kind"
  by (simp add: record_claim_snapshot_def)

lemma progress_kind [simp]: "fst (record_ledger_progress n) = ''ledger_progress''"
  by (simp add: record_ledger_progress_def)

lemma release_kind [simp]: "fst (record_release task) = ''release''"
  by (simp add: record_release_def)

text \<open>The kinds of the rows, and of the rows of a draft.\<close>

definition kinds_in :: "string list \<Rightarrow> (string \<times> json_object) list \<Rightarrow> bool" where
  "kinds_in ks rows \<longleftrightarrow> set (map fst rows) \<subseteq> set ks"

definition draft_in :: "string list \<Rightarrow> op_draft option \<Rightarrow> bool" where
  "draft_in ks d \<longleftrightarrow> (case d of Some d \<Rightarrow> kinds_in ks (od_events d) | None \<Rightarrow> True)"

lemma kinds_in_simps [simp]:
  "kinds_in ks []" "kinds_in ks (row # rows) \<longleftrightarrow> fst row \<in> set ks \<and> kinds_in ks rows"
  by (simp_all add: kinds_in_def)

lemma draft_in_simps [simp]:
  "draft_in ks None" "draft_in ks (Some (plain_draft response events intent)) \<longleftrightarrow> kinds_in ks events"
  by (simp_all add: draft_in_def plain_draft_def)

lemma denial_kind [simp]: "fst (claim_denial_row sender task reason wt ps) = ''claim_denial''"
  by (simp only: claim_denial_row_def fst_conv)

lemma claim_kinds:
  "kinds_in [''claim'', ''claim_denial'', ''release''] (claim_rows sender wt ps r)"
  "draft_in [''claim'', ''claim_denial'', ''release''] (prepare_claim env r)"
proof -
  show "kinds_in [''claim'', ''claim_denial'', ''release''] (claim_rows sender wt ps r)"
  proof (cases r)
    case (ClaimResult app)
    then show ?thesis by (cases "ca_claim app") (simp_all add: claim_rows_def)
  qed (simp_all add: claim_rows_def)
  show "draft_in [''claim'', ''claim_denial'', ''release''] (prepare_claim env r)"
  proof (cases r)
    case (ClaimResult app)
    then show ?thesis by (cases "ca_claim app") (simp_all add: prepare_claim_def)
  qed (simp_all add: prepare_claim_def)
qed

lemma snapshot_kinds: "kind \<in> set ks \<Longrightarrow> kinds_in ks (claim_snapshot_rows kind r)"
  by (cases r) (auto simp: claim_snapshot_rows_def split: option.split)

lemma owner_kinds: "(\<And>text c. draft_in ks (Some (draft text c))) \<Longrightarrow> draft_in ks (prepare_owner draft r)"
  by (cases r) (auto simp: prepare_owner_def split: option.split)

lemma release_kinds:
  "kinds_in [''release'', ''ledger_progress''] (release_rows task r)"
  "draft_in [''release'', ''ledger_progress''] (prepare_release env sender task receipt binding r)"
  by (cases r; simp add: release_rows_def prepare_release_def)+

text \<open>
  The log holds only what the verbs declare.  Whatever the outcome of a lease mutation, the rows
  its request writes, those of the keyed operation and those of the unkeyed path, are of the kinds
  the declaration of the verb lists.
\<close>

theorem lease_rows_declared:
  assumes "verb_request env mx verb sender quota data = Inr rq"
  shows "kinds_in (vs_event_kinds (lease_spec verb)) (rq_persist rq r)
    \<and> draft_in (vs_event_kinds (lease_spec verb)) (rq_prepare rq r)"
proof (cases verb)
  case ClaimVerb
  with assms show ?thesis
    by (auto simp: verb_request_def claim_verb_eq sum_bind_Inr LEASING_VERBS_def claim_kinds)
next
  case UpdateVerb
  with assms show ?thesis
    by (auto simp: verb_request_def task_update_verb_def sum_bind_Inr Let_def LEASING_VERBS_def
      intro!: snapshot_kinds owner_kinds)
next
  case ReleaseVerb
  with assms show ?thesis
    by (auto simp: verb_request_def release_verb_def sum_bind_Inr Let_def LEASING_VERBS_def release_kinds)
next
  case HandoffVerb
  with assms show ?thesis
    by (auto simp: verb_request_def handoff_verb_def sum_bind_Inr Let_def LEASING_VERBS_def
      intro!: snapshot_kinds owner_kinds)
next
  case CheckpointVerb
  with assms show ?thesis
    by (auto simp: verb_request_def checkpoint_verb_def sum_bind_Inr Let_def LEASING_VERBS_def
      intro!: snapshot_kinds owner_kinds)
qed

theorem lease_rows_declared_witness:
  "\<exists>(rq :: lease_request). kinds_in [''claim'', ''claim_denial'', ''release''] (rq_persist rq (ReleaseResult True []))
    \<and> verb_request demo_env 512 ClaimVerb ''a'' None claim_frame_T = Inr rq"
proof -
  obtain rq where rq: "verb_request demo_env 512 ClaimVerb ''a'' None claim_frame_T = Inr rq"
    using plain_claim_request [OF parse_claim_T claim_frame_T_texts(1,2,3), of 512] by blast
  from lease_rows_declared [OF rq, of "ReleaseResult True []"] rq show ?thesis
    by (auto simp: LEASING_VERBS_def)
qed

end
