(* ===== verification/Channels.thy ===== *)
theory Channels
  imports Leasing
begin

text \<open>
  Private channels: the registry of \<open>core/channels.py\<close>, its verbs in \<open>core/handlers/channels.py\<close>
  and the routing of a channel chat (\<open>_route_channel_chat\<close> of \<open>core/handlers/messaging.py\<close>, up to
  the writes to the recipients).  The member and invite sets are lists without repetition; the
  code only tests membership in them and sorts them.
\<close>

section \<open>The registry\<close>

definition MAX_CHANNEL_ID_LENGTH :: nat where
  "MAX_CHANNEL_ID_LENGTH = 200"

definition MAX_CHANNELS :: int where
  "MAX_CHANNELS = 4096"

record channel =
  channel_id :: string
  channel_owner :: string
  channel_label :: string
  channel_members :: "string list"
  channel_invites :: "string list"
  channel_history :: "json_object list"

record channel_registry =
  max_channels :: int
  channels :: "(string, channel) pydict"

definition init_channels :: "json \<Rightarrow> channel_registry" where
  "init_channels limit =
     \<lparr>max_channels = int_or (safe_int limit (Some MAX_CHANNELS) (Some 1) None False) MAX_CHANNELS, channels = []\<rparr>"

definition normalise_channel_id :: "string \<Rightarrow> string" where
  "normalise_channel_id cid =
     (let c = py_strip cid in if c = [] \<or> MAX_CHANNEL_ID_LENGTH < length c then [] else c)"

definition find_channel :: "channel_registry \<Rightarrow> string \<Rightarrow> channel option" where
  "find_channel reg cid = dget (channels reg) (normalise_channel_id cid)"

definition channel_exists :: "channel_registry \<Rightarrow> string \<Rightarrow> bool" where
  "channel_exists reg cid \<longleftrightarrow> find_channel reg cid \<noteq> None"

definition set_channel :: "channel \<Rightarrow> channel_registry \<Rightarrow> channel_registry" where
  "set_channel ch reg = reg\<lparr>channels := dset (channel_id ch) ch (channels reg)\<rparr>"

type_synonym channel_reply = "bool \<times> string"

definition create_channel :: "string \<Rightarrow> string \<Rightarrow> string \<Rightarrow> channel_registry \<Rightarrow> channel_registry \<times> channel_reply" where
  "create_channel raw_id creator label reg =
     (let cid = normalise_channel_id raw_id; owner_name = py_strip creator in
      if cid = [] then (reg, False, ''invalid channel id'')
      else if owner_name = [] then (reg, False, ''invalid owner'')
      else if dget (channels reg) cid \<noteq> None then (reg, False, ''channel '' @ quoted cid @ '' already exists'')
      else if max_channels reg \<le> int (length (channels reg)) then (reg, False, ''channel registry is full'')
      else (reg\<lparr>channels := dset cid
              \<lparr>channel_id = cid, channel_owner = owner_name,
               channel_label = (if py_strip label = [] then cid else py_strip label),
               channel_members = [owner_name], channel_invites = [], channel_history = []\<rparr> (channels reg)\<rparr>,
            True, ''created channel '' @ quoted cid))"

definition invite_channel :: "string \<Rightarrow> string \<Rightarrow> string \<Rightarrow> channel_registry \<Rightarrow> channel_registry \<times> channel_reply" where
  "invite_channel raw_id inviter invitee reg =
     (let cid = normalise_channel_id raw_id;
          refusal = (reg, False, ''cannot invite to '' @ quoted cid @ '': no such channel or you are not its owner'') in
      case dget (channels reg) cid of
        None \<Rightarrow> refusal
      | Some ch \<Rightarrow>
          (if py_strip inviter \<noteq> channel_owner ch then refusal
           else (let name = py_strip invitee in
                 if name = [] then (reg, False, ''invalid invitee'')
                 else if name \<in> set (channel_members ch)
                 then (reg, False, quoted name @ '' is already a member of '' @ quoted cid)
                 else if name \<in> set (channel_invites ch)
                 then (reg, False, quoted name @ '' is already invited to '' @ quoted cid)
                 else (reg\<lparr>channels := dset cid (ch\<lparr>channel_invites := List.insert name (channel_invites ch)\<rparr>) (channels reg)\<rparr>,
                       True, ''invited '' @ quoted name @ '' to '' @ quoted cid))))"

definition join_channel :: "string \<Rightarrow> string \<Rightarrow> channel_registry \<Rightarrow> channel_registry \<times> channel_reply" where
  "join_channel raw_id member reg =
     (let cid = normalise_channel_id raw_id; name = py_strip member;
          refusal = (reg, False, ''cannot join '' @ quoted cid @ '': no such channel or you were not invited'') in
      if name = [] then (reg, False, ''invalid member'')
      else (case dget (channels reg) cid of
              None \<Rightarrow> refusal
            | Some ch \<Rightarrow>
                (if name \<in> set (channel_members ch) then (reg, False, ''already a member of '' @ quoted cid)
                 else if name \<noteq> channel_owner ch \<and> name \<notin> set (channel_invites ch) then refusal
                 else (reg\<lparr>channels := dset cid
                         (ch\<lparr>channel_members := List.insert name (channel_members ch),
                             channel_invites := removeAll name (channel_invites ch)\<rparr>) (channels reg)\<rparr>,
                       True, ''joined '' @ quoted cid))))"

definition leave_channel :: "string \<Rightarrow> string \<Rightarrow> channel_registry \<Rightarrow> channel_registry \<times> channel_reply" where
  "leave_channel raw_id member reg =
     (let cid = normalise_channel_id raw_id in
      case dget (channels reg) cid of
        None \<Rightarrow> (reg, False, ''channel '' @ quoted cid @ '' does not exist'')
      | Some ch \<Rightarrow>
          (let name = py_strip member in
           if name \<notin> set (channel_members ch) then (reg, False, ''not a member of '' @ quoted cid)
           else (let left = removeAll name (channel_members ch) in
                 (reg\<lparr>channels := (if left = [] then ddel cid (channels reg)
                                   else dset cid (ch\<lparr>channel_members := left\<rparr>) (channels reg))\<rparr>,
                  True, ''left '' @ quoted cid))))"

definition is_member :: "channel_registry \<Rightarrow> string \<Rightarrow> string \<Rightarrow> bool" where
  "is_member reg cid name =
     (case find_channel reg cid of None \<Rightarrow> False | Some ch \<Rightarrow> py_strip name \<in> set (channel_members ch))"

definition members_of :: "channel_registry \<Rightarrow> string \<Rightarrow> string list" where
  "members_of reg cid = (case find_channel reg cid of None \<Rightarrow> [] | Some ch \<Rightarrow> channel_members ch)"

definition owner_of_channel :: "channel_registry \<Rightarrow> string \<Rightarrow> string option" where
  "owner_of_channel reg cid = map_option channel_owner (find_channel reg cid)"

definition channels_for :: "channel_registry \<Rightarrow> string \<Rightarrow> string list" where
  "channels_for reg name =
     sort (map fst (filter (\<lambda>(cid, ch). py_strip name \<in> set (channel_members ch)) (channels reg)))"

definition retain_message :: "string \<Rightarrow> json_object \<Rightarrow> int \<Rightarrow> channel_registry \<Rightarrow> channel_registry" where
  "retain_message cid message max_messages reg =
     (case find_channel reg cid of
        None \<Rightarrow> reg
      | Some ch \<Rightarrow>
          (let history = channel_history ch @ [message];
               keep = nat (int_or (safe_int (JInt max_messages) (Some 1) (Some 1) None False) 1) in
           reg\<lparr>channels := dset (normalise_channel_id cid)
                 (ch\<lparr>channel_history := drop (length history - keep) history\<rparr>) (channels reg)\<rparr>))"

definition history_for :: "channel_registry \<Rightarrow> string \<Rightarrow> string \<Rightarrow> int option \<Rightarrow> json_object list" where
  "history_for reg cid member limit =
     (case find_channel reg cid of
        None \<Rightarrow> []
      | Some ch \<Rightarrow>
          (if py_strip member \<notin> set (channel_members ch) then []
           else (let h = channel_history ch;
                     keep = (case limit of
                       None \<Rightarrow> length h
                     | Some l \<Rightarrow> nat (int_or (safe_int (JInt l) (Some 0) (Some 0) None False) 0)) in
                 drop (length h - keep) h)))"

definition channels_snapshot :: "channel_registry \<Rightarrow> json_object list" where
  "channels_snapshot reg =
     map (\<lambda>ch. [(''channel_id'', JString (channel_id ch)), (''label'', JString (channel_label ch)),
                (''owner'', JString (channel_owner ch)),
                (''members'', JList (map JString (sort (channel_members ch)))),
                (''history_size'', JInt (int (length (channel_history ch))))])
       (sort_key channel_id (map snd (channels reg)))"

section \<open>The verbs\<close>

text \<open>\<open>_reply\<close>: the roster is shown to a member whose operation succeeded.\<close>

definition channel_result ::
  "hub_env \<Rightarrow> channel_registry \<Rightarrow> string \<Rightarrow> string \<Rightarrow> bool \<Rightarrow> string \<Rightarrow> json_object" where
  "channel_result env reg sender cid ok message =
     system_message env message ''channel_result'' sender
       [(''channel'', JString cid), (''ok'', JBool ok),
        (''members'', JList (map JString
           (if ok \<and> is_member reg cid sender then sort (members_of reg cid) else [])))]"

definition stripped_field :: "json_object \<Rightarrow> string \<Rightarrow> journal_error + string" where
  "stripped_field data key = sum_bind (text_field data key) (\<lambda>raw. Inr (py_strip raw))"

type_synonym channel_answer = "channel_registry \<times> json_object"

definition answer_with ::
  "hub_env \<Rightarrow> string \<Rightarrow> string \<Rightarrow> channel_registry \<times> channel_reply \<Rightarrow> channel_answer" where
  "answer_with env sender cid r = (case r of (reg, ok, message) \<Rightarrow> (reg, channel_result env reg sender cid ok message))"

definition handle_channel_create ::
  "hub_env \<Rightarrow> string \<Rightarrow> json_object \<Rightarrow> channel_registry \<Rightarrow> journal_error + channel_answer" where
  "handle_channel_create env sender data reg =
     sum_bind (stripped_field data ''channel'') (\<lambda>cid.
     sum_bind (text_field data ''label'') (\<lambda>label.
       Inr (answer_with env sender cid (create_channel cid sender label reg))))"

definition handle_channel_invite ::
  "hub_env \<Rightarrow> string \<Rightarrow> json_object \<Rightarrow> channel_registry \<Rightarrow> journal_error + channel_answer" where
  "handle_channel_invite env sender data reg =
     sum_bind (stripped_field data ''channel'') (\<lambda>cid.
     sum_bind (stripped_field data ''invitee'') (\<lambda>invitee.
       Inr (answer_with env sender cid (invite_channel cid sender invitee reg))))"

definition handle_channel_join ::
  "hub_env \<Rightarrow> string \<Rightarrow> json_object \<Rightarrow> channel_registry \<Rightarrow> journal_error + channel_answer" where
  "handle_channel_join env sender data reg =
     sum_bind (stripped_field data ''channel'') (\<lambda>cid.
       Inr (answer_with env sender cid (join_channel cid sender reg)))"

definition handle_channel_leave ::
  "hub_env \<Rightarrow> string \<Rightarrow> json_object \<Rightarrow> channel_registry \<Rightarrow> journal_error + channel_answer" where
  "handle_channel_leave env sender data reg =
     sum_bind (stripped_field data ''channel'') (\<lambda>cid.
       Inr (answer_with env sender cid (leave_channel cid sender reg)))"

definition handle_channel_list_request :: "hub_env \<Rightarrow> string \<Rightarrow> channel_registry \<Rightarrow> json_object" where
  "handle_channel_list_request env sender reg =
     system_message env ''channel list'' ''channel_list'' sender
       [(''channels'', JList (map JString (channels_for reg sender)))]"

definition handle_channel_history_request ::
  "hub_env \<Rightarrow> int \<Rightarrow> string \<Rightarrow> json_object \<Rightarrow> channel_registry \<Rightarrow> journal_error + json_object" where
  "handle_channel_history_request env max_history sender data reg =
     sum_bind (stripped_field data ''channel'') (\<lambda>cid.
       let limit = int_or (safe_int (get_or data ''limit'' (JInt 20)) (Some 20) (Some 0) None False) 20 in
       Inr (if \<not> is_member reg cid sender
            then channel_result env reg sender cid False (''not a member of channel '' @ quoted cid)
            else system_message env ''channel history'' ''channel_history'' sender
                   [(''channel'', JString cid),
                    (''messages'', JList (map JObject (history_for reg cid sender (Some limit)))),
                    (''retention'', JObject [(''max_messages'', JInt max_history)])]))"

text \<open>
  A channel chat: the refusal, or the retained registry, the row and the recipients.  The frame was
  stamped with its type, hub and message number before.
\<close>

datatype channel_route = Channel_Refused json_object | Channel_Delivered channel_registry "string \<times> json_object" "string list"

definition route_channel_chat ::
  "hub_env \<Rightarrow> int \<Rightarrow> string list \<Rightarrow> string \<Rightarrow> json_object \<Rightarrow> string \<Rightarrow> channel_registry \<Rightarrow> channel_route" where
  "route_channel_chat env max_history online sender data cid reg =
     (if \<not> is_member reg cid sender
      then Channel_Refused (system_message env (''not a member of channel '' @ quoted cid) ''error'' sender
             [(''channel'', JString cid)])
      else Channel_Delivered (retain_message cid data max_history reg) (''chat'', data)
             (sort (filter (\<lambda>m. m \<noteq> sender \<and> m \<in> set online) (members_of reg cid))))"

end
