(* ===== verification/Channel_Properties.thy ===== *)
theory Channel_Properties
  imports Channels Leasing_Journal
begin

text \<open>
  What private channels promise: an invite is spent by one join, the registry and the histories
  stay within their bounds, and a caller outside a channel cannot tell from the answers to its
  joins, invites, history requests, lists and chats whether the channel exists.
\<close>

section \<open>Runs\<close>

datatype channel_op =
    Create_Op string string string
  | Invite_Op string string string
  | Join_Op string string
  | Leave_Op string string
  | Retain_Op string json_object int

datatype channel_event = Created string string | Invited string string | Joined string string | Left string string

fun run_channel_op :: "channel_op \<Rightarrow> channel_registry \<Rightarrow> channel_registry \<times> bool" where
  "run_channel_op (Create_Op cid creator label) reg = (let (r, ok, m) = create_channel cid creator label reg in (r, ok))"
| "run_channel_op (Invite_Op cid inviter invitee) reg = (let (r, ok, m) = invite_channel cid inviter invitee reg in (r, ok))"
| "run_channel_op (Join_Op cid member) reg = (let (r, ok, m) = join_channel cid member reg in (r, ok))"
| "run_channel_op (Leave_Op cid member) reg = (let (r, ok, m) = leave_channel cid member reg in (r, ok))"
| "run_channel_op (Retain_Op cid msg limit) reg = (retain_message cid msg limit reg, False)"

text \<open>What a successful operation did, by the normal form of its names.\<close>

fun channel_event_of :: "channel_op \<Rightarrow> channel_event list" where
  "channel_event_of (Create_Op cid creator label) = [Created (normalise_channel_id cid) (py_strip creator)]"
| "channel_event_of (Invite_Op cid inviter invitee) = [Invited (normalise_channel_id cid) (py_strip invitee)]"
| "channel_event_of (Join_Op cid member) = [Joined (normalise_channel_id cid) (py_strip member)]"
| "channel_event_of (Leave_Op cid member) = [Left (normalise_channel_id cid) (py_strip member)]"
| "channel_event_of (Retain_Op cid msg limit) = []"

fun run_channels :: "channel_op list \<Rightarrow> channel_registry \<Rightarrow> channel_registry \<times> channel_event list" where
  "run_channels [] reg = (reg, [])"
| "run_channels (op # ops) reg =
     (let (r1, ok) = run_channel_op op reg; (r2, evs) = run_channels ops r1
      in (r2, (if ok then channel_event_of op else []) @ evs))"

section \<open>The invariant\<close>

definition channel_ok :: "string \<Rightarrow> channel \<Rightarrow> bool" where
  "channel_ok cid ch \<longleftrightarrow>
     channel_id ch = cid \<and> cid \<noteq> [] \<and> normalise_channel_id cid = cid
     \<and> channel_members ch \<noteq> [] \<and> distinct (channel_members ch) \<and> distinct (channel_invites ch)
     \<and> set (channel_members ch) \<inter> set (channel_invites ch) = {}
     \<and> [] \<notin> set (channel_members ch) \<union> set (channel_invites ch)"

definition channels_ok :: "channel_registry \<Rightarrow> bool" where
  "channels_ok reg \<longleftrightarrow>
     dict_ok (channels reg) \<and> int (length (channels reg)) \<le> max_channels reg
     \<and> (\<forall>cid ch. dget (channels reg) cid = Some ch \<longrightarrow> channel_ok cid ch)"

lemma channels_okD:
  assumes "channels_ok reg"
  shows "dict_ok (channels reg)" "int (length (channels reg)) \<le> max_channels reg"
    "dget (channels reg) cid = Some ch \<Longrightarrow> channel_ok cid ch"
  using assms by (auto simp: channels_ok_def)

lemma normalise_idem: "normalise_channel_id (normalise_channel_id cid) = normalise_channel_id cid"
proof -
  have "py_strip [] = []" by code_simp
  then show ?thesis by (simp add: normalise_channel_id_def Let_def)
qed

lemma length_dset_old: "dget d k \<noteq> None \<Longrightarrow> length (dset k v d) = length d"
  by (induction d) auto

lemma length_dset_new: "dget d k = None \<Longrightarrow> length (dset k v d) = Suc (length d)"
  by (induction d) auto

lemma length_ddel_le: "length (ddel k d) \<le> length d"
  by (simp add: AList.delete_eq)

lemma channels_ok_update:
  assumes ok: "channels_ok reg" and at: "dget (channels reg) cid = Some ch" and ch: "channel_ok cid ch'"
  shows "channels_ok (reg\<lparr>channels := dset cid ch' (channels reg)\<rparr>)"
  using channels_okD [OF ok] at ch by (auto simp: channels_ok_def length_dset_old)

lemma channels_ok_drop: "channels_ok reg \<Longrightarrow> channels_ok (reg\<lparr>channels := ddel cid (channels reg)\<rparr>)"
  using length_ddel_le [of cid "channels reg"] by (auto simp: channels_ok_def)

lemma create_ok: "channels_ok reg \<Longrightarrow> channels_ok (fst (create_channel cid creator label reg))"
  by (auto simp: create_channel_def Let_def channels_ok_def channel_ok_def length_dset_new normalise_idem)

lemma insert_not_Nil [simp]: "List.insert x xs \<noteq> []"
  by (auto simp: List.insert_def)

lemma channels_ok_change:
  assumes "channels_ok reg" and "dget (channels reg) cid = Some ch" and "channel_ok cid ch \<Longrightarrow> channel_ok cid ch'"
  shows "channels_ok (reg\<lparr>channels := dset cid ch' (channels reg)\<rparr>)"
  using assms channels_ok_update channels_okD(3) by blast

lemma invite_ok: "channels_ok reg \<Longrightarrow> channels_ok (fst (invite_channel cid inviter invitee reg))"
  by (auto simp: invite_channel_def Let_def channel_ok_def split: option.split intro!: channels_ok_change)

lemma join_ok: "channels_ok reg \<Longrightarrow> channels_ok (fst (join_channel cid member reg))"
  by (auto simp: join_channel_def Let_def channel_ok_def distinct_removeAll split: option.split
      intro!: channels_ok_change)

lemma leave_ok: "channels_ok reg \<Longrightarrow> channels_ok (fst (leave_channel cid member reg))"
  by (auto simp: leave_channel_def Let_def channel_ok_def distinct_removeAll split: option.split
      intro!: channels_ok_change channels_ok_drop)

lemma retain_ok: "channels_ok reg \<Longrightarrow> channels_ok (retain_message cid msg limit reg)"
  by (auto simp: retain_message_def Let_def find_channel_def channel_ok_def split: option.split
      intro!: channels_ok_change)

lemma run_channel_op_ok: "channels_ok reg \<Longrightarrow> channels_ok (fst (run_channel_op op reg))"
proof (cases op)
  case (Create_Op a b c)
  then show "channels_ok reg \<Longrightarrow> ?thesis" using create_ok [of reg a b c] by (simp add: split_beta)
next
  case (Invite_Op a b c)
  then show "channels_ok reg \<Longrightarrow> ?thesis" using invite_ok [of reg a b c] by (simp add: split_beta)
next
  case (Join_Op a b)
  then show "channels_ok reg \<Longrightarrow> ?thesis" using join_ok [of reg a b] by (simp add: split_beta)
next
  case (Leave_Op a b)
  then show "channels_ok reg \<Longrightarrow> ?thesis" using leave_ok [of reg a b] by (simp add: split_beta)
qed (simp add: retain_ok)

lemma init_channels_ok: "channels_ok (init_channels limit)"
proof -
  have "1 \<le> max_channels (init_channels limit)"
    using safe_int_min [of limit MAX_CHANNELS 1 False] safe_int_total [of limit MAX_CHANNELS "Some 1" None False]
    by (auto simp: init_channels_def int_or_def MAX_CHANNELS_def)
  then show ?thesis by (simp add: channels_ok_def init_channels_def)
qed

lemma run_channels_ok: "channels_ok reg \<Longrightarrow> channels_ok (fst (run_channels ops reg))"
proof (induction ops arbitrary: reg)
  case (Cons op ops)
  then show ?case using run_channel_op_ok [of reg op] by (simp add: split_beta)
qed simp

section \<open>An invite is spent by one join\<close>

text \<open>The invites a name holds for a channel, as a number.\<close>

definition open_invites :: "channel_registry \<Rightarrow> string \<Rightarrow> string \<Rightarrow> nat" where
  "open_invites reg cid name =
     (case dget (channels reg) cid of
        None \<Rightarrow> 0 | Some ch \<Rightarrow> if name \<in> set (channel_invites ch) then 1 else 0)"

definition owned_by :: "channel_registry \<Rightarrow> string \<Rightarrow> string \<Rightarrow> bool" where
  "owned_by reg cid name \<longleftrightarrow> (\<exists>ch. dget (channels reg) cid = Some ch \<and> channel_owner ch = name)"

text \<open>One operation: joins by others than the owner are paid by the invites.\<close>

definition invites_paid :: "string \<Rightarrow> string \<Rightarrow> channel_registry \<Rightarrow> channel_registry \<Rightarrow> channel_event list \<Rightarrow> bool" where
  "invites_paid cid name reg reg' evs \<longleftrightarrow>
     count_list evs (Joined cid name) + open_invites reg' cid name
       \<le> count_list evs (Invited cid name) + open_invites reg cid name"

lemma op_pays:
  assumes "\<not> owned_by reg cid name" and "channels_ok reg" and run: "run_channel_op op reg = (reg', ok)"
  shows "invites_paid cid name reg reg' (if ok then channel_event_of op else [])"
proof (cases op)
  case (Create_Op a b c)
  with run show ?thesis
    by (auto simp: invites_paid_def open_invites_def create_channel_def Let_def split: if_splits)
next
  case (Invite_Op a b c)
  with run show ?thesis
    by (auto simp: invites_paid_def open_invites_def invite_channel_def Let_def split: if_splits option.splits)
next
  case (Join_Op a b)
  with run assms(1) show ?thesis
    by (auto simp: invites_paid_def open_invites_def owned_by_def join_channel_def Let_def split: if_splits option.splits)
next
  case (Leave_Op a b)
  with run show ?thesis
    by (auto simp: invites_paid_def open_invites_def leave_channel_def Let_def split: if_splits option.splits)
next
  case (Retain_Op a b c)
  with run show ?thesis
    by (auto simp: invites_paid_def open_invites_def retain_message_def Let_def find_channel_def split: if_splits option.splits)
qed

lemma op_owner:
  assumes "owned_by reg' cid name" and "run_channel_op op reg = (reg', ok)"
  shows "owned_by reg cid name \<or> ok \<and> Created cid name \<in> set (channel_event_of op)"
  using assms
  by (cases op)
    (auto simp: owned_by_def create_channel_def invite_channel_def join_channel_def leave_channel_def
      retain_message_def find_channel_def Let_def split: if_splits option.splits)

lemma run_pays:
  assumes "channels_ok reg" and "\<not> owned_by reg cid name" and "run_channels ops reg = (reg', evs)"
    and "Created cid name \<notin> set evs"
  shows "invites_paid cid name reg reg' evs"
  using assms
proof (induction ops arbitrary: reg evs)
  case Nil
  then show ?case by (simp add: invites_paid_def)
next
  case (Cons op ops)
  obtain r1 ok where one: "run_channel_op op reg = (r1, ok)" by fastforce
  obtain evs2 where rest: "run_channels ops r1 = (reg', evs2)"
    and evs: "evs = (if ok then channel_event_of op else []) @ evs2"
    using Cons.prems(3) by (auto simp: one split: prod.splits)
  have "channels_ok r1" using run_channel_op_ok [OF Cons.prems(1), of op] by (simp add: one)
  moreover have "\<not> owned_by r1 cid name"
    using op_owner [OF _ one, of cid name] Cons.prems(2,4) by (auto simp: evs)
  moreover have "Created cid name \<notin> set evs2" using Cons.prems(4) by (simp add: evs)
  ultimately have "invites_paid cid name r1 reg' evs2" using Cons.IH rest by blast
  then show ?case using op_pays [OF Cons.prems(2,1) one] by (auto simp: invites_paid_def evs split: if_splits)
qed

text \<open>
  Membership of a private channel is by invitation, and an invite grants one join.  Over any run
  of the registry, a name that never created a channel joins it at most as often as invites to it
  were recorded for that name; and every reachable registry holds its bound, its names are stripped
  and not blank, and no member of a channel holds an invite to it.
\<close>

theorem invite_grants_one_join:
  assumes "run_channels ops (init_channels limit) = (reg, evs)"
  shows "channels_ok reg
    \<and> (Created cid name \<notin> set evs \<longrightarrow> count_list evs (Joined cid name) \<le> count_list evs (Invited cid name))"
proof -
  have "channels_ok reg" using run_channels_ok [OF init_channels_ok, of ops limit] by (simp add: assms)
  moreover have "\<not> owned_by (init_channels limit) cid name" by (simp add: owned_by_def init_channels_def)
  moreover have "open_invites (init_channels limit) cid name = 0" by (simp add: open_invites_def init_channels_def)
  ultimately show ?thesis
    using run_pays [OF init_channels_ok _ assms, of cid name] by (auto simp: invites_paid_def)
qed


theorem invite_grants_one_join_witness:
  "\<exists>reg. run_channels [Create_Op ''ops'' ''a'' [], Invite_Op ''ops'' ''a'' ''b'', Join_Op ''ops'' ''b'', Leave_Op ''ops'' ''b'',
      Join_Op ''ops'' ''b''] (init_channels (JInt 8)) =
      (reg, [Created ''ops'' ''a'', Invited ''ops'' ''b'', Joined ''ops'' ''b'', Left ''ops'' ''b''])
     \<and> channels_ok reg"
proof -
  let ?ops = "[Create_Op ''ops'' ''a'' [], Invite_Op ''ops'' ''a'' ''b'', Join_Op ''ops'' ''b'', Leave_Op ''ops'' ''b'',
      Join_Op ''ops'' ''b'']"
  have evs: "snd (run_channels ?ops (init_channels (JInt 8))) =
      [Created ''ops'' ''a'', Invited ''ops'' ''b'', Joined ''ops'' ''b'', Left ''ops'' ''b'']"
    by code_simp
  obtain reg where run: "run_channels ?ops (init_channels (JInt 8)) =
      (reg, [Created ''ops'' ''a'', Invited ''ops'' ''b'', Joined ''ops'' ''b'', Left ''ops'' ''b''])"
    using evs by (metis prod.collapse)
  from invite_grants_one_join [OF run, of "''ops''" "''b''"] run show ?thesis by blast
qed

section \<open>What an outsider can see\<close>

definition outside :: "channel_registry \<Rightarrow> string \<Rightarrow> string \<Rightarrow> bool" where
  "outside reg cid name \<longleftrightarrow>
     (case dget (channels reg) cid of
        None \<Rightarrow> True
      | Some ch \<Rightarrow> name \<noteq> channel_owner ch \<and> name \<notin> set (channel_members ch) \<and> name \<notin> set (channel_invites ch))"

definition without :: "string \<Rightarrow> channel_registry \<Rightarrow> channel_registry" where
  "without cid reg = reg\<lparr>channels := ddel cid (channels reg)\<rparr>"

lemma find_without: "find_channel (without cid reg) c = (if normalise_channel_id c = cid then None else find_channel reg c)"
  by (simp add: find_channel_def without_def)

lemma member_inside: "outside reg cid (py_strip sender) \<Longrightarrow> is_member reg c sender \<Longrightarrow> normalise_channel_id c \<noteq> cid"
  by (auto simp: is_member_def find_channel_def outside_def split: option.splits)

lemma member_without:
  assumes "outside reg cid (py_strip sender)"
  shows "is_member (without cid reg) c sender = is_member reg c sender"
proof (cases "normalise_channel_id c = cid")
  case True
  then show ?thesis using member_inside [OF assms, of c] by (auto simp: is_member_def find_without)
next
  case False
  then show ?thesis by (simp add: is_member_def find_without)
qed

lemma members_without: "normalise_channel_id c \<noteq> cid \<Longrightarrow> members_of (without cid reg) c = members_of reg c"
  by (simp add: members_of_def find_without)

lemma result_without:
  assumes "outside reg cid (py_strip sender)"
  shows "channel_result env (without cid reg) sender c ok m = channel_result env reg sender c ok m"
  using member_inside [OF assms] by (auto simp: channel_result_def member_without [OF assms] members_without)

text \<open>Two registries that give the same view of one channel give the same reply about it.\<close>

lemma result_cong:
  "find_channel r1 c = find_channel r2 c \<Longrightarrow> channel_result env r1 sender c ok m = channel_result env r2 sender c ok m"
  by (simp add: channel_result_def is_member_def members_of_def)

lemma join_without:
  assumes out: "outside reg cid (py_strip sender)"
  shows "snd (answer_with env sender c (join_channel c sender (without cid reg))) =
    snd (answer_with env sender c (join_channel c sender reg))"
proof (cases "normalise_channel_id c = cid")
  case True
  then show ?thesis using out result_without [OF out]
    by (auto simp: answer_with_def join_channel_def Let_def without_def outside_def split: option.split)
next
  case False
  then show ?thesis using result_without [OF out]
    by (auto simp: answer_with_def join_channel_def Let_def without_def find_channel_def split: option.split
        intro!: result_cong)
qed

lemma invite_without:
  assumes out: "outside reg cid (py_strip sender)"
  shows "snd (answer_with env sender c (invite_channel c sender invitee (without cid reg))) =
    snd (answer_with env sender c (invite_channel c sender invitee reg))"
proof (cases "normalise_channel_id c = cid")
  case True
  then show ?thesis using out result_without [OF out]
    by (auto simp: answer_with_def invite_channel_def Let_def without_def outside_def split: option.split)
next
  case False
  then show ?thesis using result_without [OF out]
    by (auto simp: answer_with_def invite_channel_def Let_def without_def find_channel_def split: option.split
        intro!: result_cong)
qed

lemma list_without:
  assumes out: "outside reg cid (py_strip sender)" and ok: "dict_ok (channels reg)"
  shows "channels_for (without cid reg) sender = channels_for reg sender"
proof -
  let ?in = "\<lambda>(c, ch). py_strip sender \<in> set (channel_members ch)"
  have "filter ?in (ddel cid (channels reg)) = filter ?in (channels reg)"
    unfolding AList.delete_eq filter_filter
    using out dict_mem_iff [OF ok] by (intro filter_cong refl) (auto simp: outside_def)
  then show ?thesis by (simp add: channels_for_def without_def)
qed

text \<open>What the sender of a channel chat and the recipients get of it.\<close>

definition chat_outcome :: "channel_route \<Rightarrow> json_object + (string \<times> json_object) \<times> string list" where
  "chat_outcome r = (case r of Channel_Refused f \<Rightarrow> Inl f | Channel_Delivered reg row recipients \<Rightarrow> Inr (row, recipients))"

lemma chat_without:
  assumes out: "outside reg cid (py_strip sender)"
  shows "chat_outcome (route_channel_chat env mx online sender data c (without cid reg)) =
    chat_outcome (route_channel_chat env mx online sender data c reg)"
  using member_inside [OF out]
  by (auto simp: chat_outcome_def route_channel_chat_def member_without [OF out] members_without)

lemma history_without:
  assumes out: "outside reg cid (py_strip sender)"
  shows "handle_channel_history_request env mx sender data (without cid reg) =
    handle_channel_history_request env mx sender data reg"
proof -
  have "is_member reg c sender \<Longrightarrow> history_for (without cid reg) c sender l = history_for reg c sender l" for c l
    using member_inside [OF out, of c] by (simp add: history_for_def find_without)
  then show ?thesis
    by (auto simp: handle_channel_history_request_def sum_bind_def Let_def member_without [OF out]
        result_without [OF out] split: sum.split)
qed

definition answer_of :: "journal_error + channel_answer \<Rightarrow> journal_error + json_object" where
  "answer_of r = map_sum id snd r"

text \<open>
  C22: A private channel is invisible to outsiders through five of its verbs.  For a sender that
  neither owns a channel nor is a member of it nor holds an invite to it, the answer to any join,
  invite, list or history request and to any channel chat is the one a hub without that channel
  gives, whatever the frame says and whichever other channels there are; so no sequence of field
  values tells whether the channel exists, who is in it or what was said.
\<close>

theorem outsider_cannot_probe:
  assumes "channels_ok reg" and "outside reg cid (py_strip sender)"
  shows "answer_of (handle_channel_join env sender data reg) = answer_of (handle_channel_join env sender data (without cid reg))
    \<and> answer_of (handle_channel_invite env sender data reg) = answer_of (handle_channel_invite env sender data (without cid reg))
    \<and> handle_channel_history_request env mx sender data reg = handle_channel_history_request env mx sender data (without cid reg)
    \<and> handle_channel_list_request env sender reg = handle_channel_list_request env sender (without cid reg)
    \<and> chat_outcome (route_channel_chat env mx online sender data c reg)
        = chat_outcome (route_channel_chat env mx online sender data c (without cid reg))"
proof (intro conjI)
  show "answer_of (handle_channel_join env sender data reg) = answer_of (handle_channel_join env sender data (without cid reg))"
    by (auto simp: answer_of_def handle_channel_join_def sum_bind_def join_without [OF assms(2)] split: sum.split)
  show "answer_of (handle_channel_invite env sender data reg) = answer_of (handle_channel_invite env sender data (without cid reg))"
    by (auto simp: answer_of_def handle_channel_invite_def sum_bind_def invite_without [OF assms(2)] split: sum.split)
qed (simp_all add: history_without [OF assms(2)] chat_without [OF assms(2)] handle_channel_list_request_def
  list_without [OF assms(2) channels_okD(1) [OF assms(1)]])

text \<open>A hub with one channel of \<open>a\<close>, seen by \<open>x\<close>.\<close>

definition ops_hub :: channel_registry where
  "ops_hub = fst (run_channels [Create_Op ''ops'' ''a'' []] (init_channels (JInt 8)))"

definition leave_frame :: json_object where
  "leave_frame = [(''channel'', JString ''ops'')]"

theorem outsider_cannot_probe_witness:
  "answer_of (handle_channel_join demo_env ''x'' leave_frame ops_hub)
     = answer_of (handle_channel_join demo_env ''x'' leave_frame (without ''ops'' ops_hub))"
proof -
  have "outside ops_hub ''ops'' (py_strip ''x'')" by code_simp
  with outsider_cannot_probe run_channels_ok [OF init_channels_ok] show ?thesis
    unfolding ops_hub_def by blast
qed

text \<open>
  Leaving is an oracle.  The answer to \<open>channel_leave\<close> says \<open>not a member\<close> of a channel that is
  there and \<open>does not exist\<close> of one that is not, to a sender outside it.
\<close>

theorem leave_reveals_channel:
  "outside ops_hub ''ops'' ''x''
   \<and> map_sum id (\<lambda>f. get_field f ''payload'') (answer_of (handle_channel_leave demo_env ''x'' leave_frame ops_hub))
       = Inr (JString (''not a member of '' @ quoted ''ops''))
   \<and> map_sum id (\<lambda>f. get_field f ''payload'') (answer_of (handle_channel_leave demo_env ''x'' leave_frame (without ''ops'' ops_hub)))
       = Inr (JString (''channel '' @ quoted ''ops'' @ '' does not exist''))"
  by code_simp

end
