(* ===== verification/Namespace_Ownership.thy ===== *)
theory Namespace_Ownership
  imports Multihub_Follower Acl_Gate
begin

text \<open>
  Which hub may grant claims in a namespace: the resolution of \<open>core/namespace_ownership.py\<close>, the
  hubs observed to grant there (\<open>asserting_owners\<close> of \<open>core/multihub_fold.py\<close>), and the standing
  watch of \<open>core/multihub_watch.py\<close> that polls the peers, journals when a namespace becomes contested
  and when it heals, and restores what was contested after a restart (\<open>core/journal.py\<close>).  A
  frozen set of hub ids is a list without repetition.
\<close>

section \<open>Resolution\<close>

datatype ownership_outcome = LOCAL | REMOTE | UNGOVERNED | PARTITIONED

fun outcome_text :: "ownership_outcome \<Rightarrow> string" where
  "outcome_text LOCAL = ''local''"
| "outcome_text REMOTE = ''remote''"
| "outcome_text UNGOVERNED = ''ungoverned''"
| "outcome_text PARTITIONED = ''partitioned''"

record ownership_decision =
  od_outcome :: ownership_outcome
  od_namespace :: string
  od_owner_hub :: "string option"
  od_contesting :: "string list"

definition grants_locally :: "ownership_decision \<Rightarrow> bool" where
  "grants_locally d \<longleftrightarrow> od_outcome d = LOCAL"

definition ownership_refuses :: "ownership_decision \<Rightarrow> bool" where
  "ownership_refuses d \<longleftrightarrow> od_outcome d \<in> {UNGOVERNED, PARTITIONED}"

record namespace_ownership =
  no_owners :: "(string, string) pydict"
  no_local :: string

definition owner_of_namespace :: "namespace_ownership \<Rightarrow> string \<Rightarrow> string option" where
  "owner_of_namespace own ns = dget (no_owners own) ns"

definition resolve_namespace :: "namespace_ownership \<Rightarrow> string \<Rightarrow> string list \<Rightarrow> ownership_decision" where
  "resolve_namespace own ns asserting_hubs =
     (case dget (no_owners own) ns of
        None \<Rightarrow> \<lparr>od_outcome = UNGOVERNED, od_namespace = ns, od_owner_hub = None, od_contesting = []\<rparr>
      | Some hub \<Rightarrow>
          (let contesting = sort (filter (\<lambda>h. h \<noteq> hub \<and> h \<noteq> no_local own) asserting_hubs) in
           if contesting \<noteq> []
           then \<lparr>od_outcome = PARTITIONED, od_namespace = ns, od_owner_hub = None, od_contesting = contesting\<rparr>
           else \<lparr>od_outcome = (if hub = no_local own then LOCAL else REMOTE), od_namespace = ns,
                 od_owner_hub = Some hub, od_contesting = []\<rparr>))"

section \<open>Observed assertions\<close>

type_synonym assertions = "(string, string list) pydict"

definition hubs_for :: "assertions \<Rightarrow> string \<Rightarrow> string list" where
  "hubs_for a ns = (case dget a ns of None \<Rightarrow> [] | Some hubs \<Rightarrow> hubs)"

definition add_assertion :: "string \<Rightarrow> string \<Rightarrow> assertions \<Rightarrow> assertions" where
  "add_assertion ns hub a = dset ns (List.insert hub (hubs_for a ns)) a"

text \<open>\<open>str(claim.get('owner', '')).strip()\<close> and its namespace.\<close>

definition claim_namespace :: "json_object \<Rightarrow> fold_error + string" where
  "claim_namespace body =
     (case py_str (get_or body ''owner'' (JString [])) of
        Inl _ \<Rightarrow> Inl UnmodelledText
      | Inr s \<Rightarrow> Inr (if py_strip s = [] then [] else project_of (py_strip s)))"

fun assert_claims :: "(string \<times> json_object) list \<Rightarrow> assertions \<Rightarrow> fold_error + assertions" where
  "assert_claims [] a = Inr a"
| "assert_claims ((hub, body) # rest) a =
     sum_bind (claim_namespace body) (\<lambda>ns.
       assert_claims rest (if ns = [] then a else add_assertion ns hub a))"

definition asserting_owners :: "observed_state \<Rightarrow> fold_error + assertions" where
  "asserting_owners state = assert_claims (map (\<lambda>(task, oc). (oc_hub oc, oc_claim oc)) (os_claims state)) []"

type_synonym live_claims_of_hubs = "(string \<times> string, json_object) pydict"

fun track_claims :: "hub_event list \<Rightarrow> live_claims_of_hubs \<Rightarrow> fold_error + live_claims_of_hubs" where
  "track_claims [] live = Inr live"
| "track_claims (ev # evs) live =
     sum_bind (task_id_of ev) (\<lambda>task.
       track_claims evs
         (if task = [] then live
          else if he_kind ev \<in> set claim_kinds then dset (he_hub ev, task) (he_payload ev) live
          else if he_kind ev = ''release'' then ddel (he_hub ev, task) live
          else live))"

definition asserting_owners_from_events :: "hub_event list \<Rightarrow> fold_error + assertions" where
  "asserting_owners_from_events evs =
     sum_bind (track_claims (sort_key (\<lambda>ev. (he_hub ev, he_seq ev)) evs) []) (\<lambda>live.
       assert_claims (map (\<lambda>((hub, task), body). (hub, body)) live) [])"

section \<open>Durable partitions\<close>

definition UNVERIFIED_PARTITION_CONTESTER :: string where
  "UNVERIFIED_PARTITION_CONTESTER = ''<unverified-persisted-contester>''"

text \<open>\<open>str(hub).strip()\<close> of the listed hubs, the blank ones left out.\<close>

fun stripped_hubs :: "json list \<Rightarrow> fold_error + string list" where
  "stripped_hubs [] = Inr []"
| "stripped_hubs (v # vs) =
     (case py_str v of
        Inl _ \<Rightarrow> Inl UnmodelledText
      | Inr s \<Rightarrow> sum_bind (stripped_hubs vs) (\<lambda>hs. Inr (if py_strip s = [] then hs else py_strip s # hs)))"

definition restore_partition_row :: "federation_row \<Rightarrow> assertions \<Rightarrow> fold_error + assertions" where
  "restore_partition_row row active =
     sum_bind (str_or_empty (get_field (fr_payload row) ''namespace'')) (\<lambda>raw.
       let ns = py_strip raw in
       if ns = [] then Inr active
       else if fr_kind row = ''multihub_heal'' then
         Inr (if get_field (fr_payload row) ''observation_refreshed'' = JBool True then ddel ns active else active)
       else (case get_field (fr_payload row) ''contesting_hubs'' of
               JList vs \<Rightarrow>
                 sum_bind (stripped_hubs vs) (\<lambda>hs.
                   Inr (dset ns (if hs = [] then [UNVERIFIED_PARTITION_CONTESTER] else sort (remdups hs)) active))
             | _ \<Rightarrow> Inr (dset ns [UNVERIFIED_PARTITION_CONTESTER] active)))"

fun restore_partition_rows :: "federation_row list \<Rightarrow> assertions \<Rightarrow> fold_error + assertions" where
  "restore_partition_rows [] active = Inr active"
| "restore_partition_rows (r # rs) active = sum_bind (restore_partition_row r active) (restore_partition_rows rs)"

definition partition_kinds :: "string list" where
  "partition_kinds = [''multihub_partition'', ''multihub_heal'']"

definition restore_active_multihub_partitions :: "federation_row list \<Rightarrow> fold_error + assertions" where
  "restore_active_multihub_partitions rows =
     restore_partition_rows (filter (\<lambda>r. fr_kind r \<in> set partition_kinds) rows) []"

section \<open>Transitions\<close>

definition partition_row :: "namespace_ownership \<Rightarrow> string \<Rightarrow> string list \<Rightarrow> bool \<Rightarrow> string \<times> json_object" where
  "partition_row own ns contesting entered =
     (''multihub_partition'',
      [(''namespace'', JString ns), (''local_hub_id'', JString (no_local own)),
       (''owner_hub_id'', JString (case owner_of_namespace own ns of None \<Rightarrow> [] | Some h \<Rightarrow> h)),
       (''contesting_hubs'', JList (map JString contesting)), (''outcome'', JString (outcome_text PARTITIONED)),
       (''transition'', JString (if entered then ''entered'' else ''updated''))])"

definition heal_row :: "namespace_ownership \<Rightarrow> ownership_decision \<Rightarrow> string list \<Rightarrow> string \<times> json_object" where
  "heal_row own d previous =
     (''multihub_heal'',
      [(''namespace'', JString (od_namespace d)), (''local_hub_id'', JString (no_local own)),
       (''owner_hub_id'', JString (case od_owner_hub d of None \<Rightarrow> [] | Some h \<Rightarrow> h)),
       (''previous_contesting_hubs'', JList (map JString previous)),
       (''outcome'', JString (outcome_text (od_outcome d))), (''observation_refreshed'', JBool True)])"

text \<open>One namespace of a round: the row it writes, if any, and the next partition state.\<close>

definition ownership_transition ::
  "namespace_ownership \<Rightarrow> assertions \<Rightarrow> assertions \<Rightarrow> string
   \<Rightarrow> (string \<times> json_object) list \<times> assertions \<Rightarrow> (string \<times> json_object) list \<times> assertions" where
  "ownership_transition own refreshed partitioned ns acc =
     (case acc of (rows, next_state) \<Rightarrow>
        (let d = resolve_namespace own ns (hubs_for refreshed ns) in
         if od_outcome d = PARTITIONED then
           (if dget partitioned ns = Some (od_contesting d) then (rows, next_state)
            else (rows @ [partition_row own ns (od_contesting d) (dget partitioned ns = None)],
                  dset ns (od_contesting d) next_state))
         else (case dget partitioned ns of
                 None \<Rightarrow> (rows, next_state)
               | Some previous \<Rightarrow> (rows @ [heal_row own d previous], ddel ns next_state))))"

definition round_namespaces :: "assertions \<Rightarrow> assertions \<Rightarrow> string list" where
  "round_namespaces refreshed partitioned = sort (remdups (map fst refreshed @ map fst partitioned))"

definition ownership_transitions ::
  "namespace_ownership \<Rightarrow> assertions \<Rightarrow> assertions \<Rightarrow> (string \<times> json_object) list \<times> assertions" where
  "ownership_transitions own refreshed partitioned =
     fold (ownership_transition own refreshed partitioned) (round_namespaces refreshed partitioned) ([], partitioned)"

text \<open>One transaction: the rows of a round are all appended, or none.\<close>

definition record_multihub_ownership_transitions ::
  "time \<Rightarrow> (string \<times> json_object) list \<Rightarrow> federation_row list \<Rightarrow> federation_row list" where
  "record_multihub_ownership_transitions now new rows =
     rows @ map (\<lambda>(kind, payload). \<lparr>fr_kind = kind, fr_ts = now, fr_payload = payload\<rparr>) new"

section \<open>The watch\<close>

text \<open>The follower and the watch share the journal of the hub; \<open>wt_peers\<close> are the configured fetchers.\<close>

record hub_watch =
  wt_follower :: follower
  wt_ownership :: "namespace_ownership option"
  wt_peers :: "string list"
  wt_partitioned :: assertions
  wt_assertions :: assertions

definition new_watch ::
  "follower \<Rightarrow> namespace_ownership option \<Rightarrow> string list \<Rightarrow> fold_error + hub_watch" where
  "new_watch fo own peers =
     sum_bind (case (fo_journal fo, own) of
         (Some rows, Some _) \<Rightarrow> restore_active_multihub_partitions rows | _ \<Rightarrow> Inr []) (\<lambda>partitioned.
       Inr \<lparr>wt_follower = fo, wt_ownership = own, wt_peers = peers, wt_partitioned = partitioned,
            wt_assertions = partitioned\<rparr>)"

definition observed_asserting_hubs :: "hub_watch \<Rightarrow> string \<Rightarrow> string list" where
  "observed_asserting_hubs wt ns = sort (hubs_for (wt_assertions wt) ns)"

text \<open>
  The failures a round absorbs: an equivocation, a sequence violation and a quarantined peer are the
  subclasses of \<open>MultiHubIntegrityError\<close>.  An event that is no event (\<open>ValueError\<close>), an event of
  another hub (\<open>ValueError\<close>) and an encoding that overflows (\<open>OverflowError\<close>) are not.
\<close>

fun caught_failure :: "fold_error \<Rightarrow> bool" where
  "caught_failure (Integrity (Equivocation p q accepted conflicting)) = True"
| "caught_failure (Integrity (SequenceViolation p expected got after_seq)) = True"
| "caught_failure (Integrity (PeerQuarantined q)) = True"
| "caught_failure (Integrity InvalidEvent) = False"
| "caught_failure (Integrity FrameOverflow) = False"
| "caught_failure (Integrity PeerMismatch) = False"
| "caught_failure (Integrity (NotQuarantined p)) = False"
| "caught_failure (Integrity (RecoveryField f)) = False"
| "caught_failure UnmodelledText = False"

text \<open>
  One poll of a peer: \<open>fetch\<close> is what the transport returns for a cursor, \<open>None\<close> its
  \<open>MultiHubFetchError\<close>.  The flag says whether the peer answered; an error that is not absorbed
  escapes, ends the round and stops the watch.
\<close>

type_synonym fetcher = "string \<Rightarrow> int \<Rightarrow> stored_event list option"

definition absorb_failure :: "fold_error \<Rightarrow> fold_error + bool" where
  "absorb_failure e = (if caught_failure e then Inr False else Inl e)"

definition poll_peer ::
  "(time \<Rightarrow> bytes) \<Rightarrow> time \<Rightarrow> fetcher \<Rightarrow> string \<Rightarrow> follower \<Rightarrow> follower \<times> (fold_error + bool)" where
  "poll_peer pk now fetch peer fo =
     (case poll_begin peer fo of
        Inl e \<Rightarrow> (fo, absorb_failure e)
      | Inr fo1 \<Rightarrow>
          (let cursor = follower_cursor peer fo in
           case fetch peer cursor of
             None \<Rightarrow> (release_lock peer fo1, Inr False)
           | Some evs \<Rightarrow>
               (case poll_finish pk now peer cursor evs fo1 of
                  (fo2, Inr _) \<Rightarrow> (fo2, Inr True)
                | (fo2, Inl e) \<Rightarrow> (fo2, absorb_failure e))))"

text \<open>The polls of a round: the follower after them and the peers that failed, or an escaping error.\<close>

fun poll_peers ::
  "(time \<Rightarrow> bytes) \<Rightarrow> time \<Rightarrow> fetcher \<Rightarrow> string list \<Rightarrow> follower \<Rightarrow> follower \<times> (fold_error + string list)" where
  "poll_peers pk now fetch [] fo = (fo, Inr [])"
| "poll_peers pk now fetch (p # ps) fo =
     (case poll_peer pk now fetch p fo of
        (fo1, Inl e) \<Rightarrow> (fo1, Inl e)
      | (fo1, Inr ok) \<Rightarrow>
          (case poll_peers pk now fetch ps fo1 of
             (fo2, Inl e) \<Rightarrow> (fo2, Inl e)
           | (fo2, Inr failed) \<Rightarrow> (fo2, Inr (if ok then failed else p # failed))))"

text \<open>The suspicion a round keeps: contestants that failed or have shown no history.\<close>

definition retained_peers :: "string list \<Rightarrow> follower \<Rightarrow> string list \<Rightarrow> string list \<Rightarrow> string list" where
  "retained_peers peers fo failed contesting =
     filter (\<lambda>p. p \<in> set peers \<and> (p \<in> set failed \<or> follower_cursor p fo = 0)) contesting"

definition keep_suspicion :: "string list \<Rightarrow> follower \<Rightarrow> string list \<Rightarrow> assertions \<Rightarrow> assertions \<Rightarrow> assertions" where
  "keep_suspicion peers fo failed partitioned seen =
     fold (\<lambda>(ns, contesting) a.
         let retained = retained_peers peers fo failed contesting in
         if retained = [] then a else dset ns (fold List.insert retained (hubs_for a ns)) a)
       partitioned seen"

text \<open>\<open>append_ok\<close>: whether the transaction of the rows commits; a failed one ends the round.\<close>

datatype round_result = Round_Done "string list" | Round_Escaped fold_error | Round_Append_Failed

definition publish_round ::
  "time \<Rightarrow> bool \<Rightarrow> follower \<Rightarrow> string list \<Rightarrow> assertions \<Rightarrow> hub_watch \<Rightarrow> hub_watch \<times> round_result" where
  "publish_round now append_ok fo failed refreshed wt =
     (case (wt_ownership wt, fo_journal fo) of
        (Some own, Some rows) \<Rightarrow>
          (case ownership_transitions own refreshed (wt_partitioned wt) of (new, next_state) \<Rightarrow>
             if \<not> append_ok then (wt\<lparr>wt_follower := fo\<rparr>, Round_Append_Failed)
             else (wt\<lparr>wt_follower := fo\<lparr>fo_journal := Some (record_multihub_ownership_transitions now new rows)\<rparr>,
                      wt_partitioned := next_state, wt_assertions := refreshed\<rparr>, Round_Done failed))
      | _ \<Rightarrow> (wt\<lparr>wt_follower := fo, wt_assertions := refreshed\<rparr>, Round_Done failed))"

definition poll_once ::
  "(time \<Rightarrow> bytes) \<Rightarrow> time \<Rightarrow> bool \<Rightarrow> fetcher \<Rightarrow> hub_watch \<Rightarrow> hub_watch \<times> round_result" where
  "poll_once pk now append_ok fetch wt =
     (case poll_peers pk now fetch (wt_peers wt) (wt_follower wt) of
        (fo, Inl e) \<Rightarrow> (wt\<lparr>wt_follower := fo\<rparr>, Round_Escaped e)
      | (fo, Inr failed) \<Rightarrow>
          (if set (wt_peers wt) \<subseteq> set failed then (wt\<lparr>wt_follower := fo\<rparr>, Round_Done failed)
           else (case asserting_owners_from_events (map snd (fo_events fo)) of
                   Inl e \<Rightarrow> (wt\<lparr>wt_follower := fo\<rparr>, Round_Escaped e)
                 | Inr seen \<Rightarrow>
                     publish_round now append_ok fo failed
                       (keep_suspicion (wt_peers wt) fo failed (wt_partitioned wt) seen) wt)))"

end
