(* ===== verification/Ownership_Properties.thy ===== *)
theory Ownership_Properties
  imports Namespace_Ownership
begin

text \<open>
  What the standing watch guarantees: the journal restores exactly the partitions it holds, a
  namespace is held partitioned exactly while the feed resolves it as contested, and no round heals
  a contestant it did not hear from; that unreadable evidence is healed by any answer, and that one
  malformed event stops the watch.
\<close>

section \<open>A round of transitions\<close>

definition contest_of :: "namespace_ownership \<Rightarrow> string list \<Rightarrow> string \<Rightarrow> string list option" where
  "contest_of own hubs ns =
     (let d = resolve_namespace own ns hubs in if od_outcome d = PARTITIONED then Some (od_contesting d) else None)"

lemma sort_empty: "sort xs = [] \<longleftrightarrow> xs = []"
  by (metis length_0_conv length_sort)

lemma contest_of_eq:
  "contest_of own hubs ns =
     (case dget (no_owners own) ns of
        None \<Rightarrow> None
      | Some hub \<Rightarrow>
          (let c = sort (filter (\<lambda>h. h \<noteq> hub \<and> h \<noteq> no_local own) hubs) in if c = [] then None else Some c))"
  by (auto simp: contest_of_def resolve_namespace_def Let_def split: option.split)

lemma contest_governed: "contest_of own hubs ns \<noteq> None \<Longrightarrow> dget (no_owners own) ns \<noteq> None"
  by (auto simp: contest_of_eq split: option.splits)

lemma transition_state:
  assumes "dget st ns = dget partitioned ns"
  shows "dget (snd (ownership_transition own refreshed partitioned ns (rows, st))) k =
    (if k = ns then contest_of own (hubs_for refreshed ns) ns else dget st k)"
  using assms by (auto simp: ownership_transition_def contest_of_def Let_def split: option.split)

lemma transitions_fold:
  "distinct nss \<Longrightarrow> \<forall>ns \<in> set nss. dget st ns = dget partitioned ns \<Longrightarrow>
   dget (snd (fold (ownership_transition own refreshed partitioned) nss (rows, st))) k =
     (if k \<in> set nss then contest_of own (hubs_for refreshed k) k else dget st k)"
proof (induction nss arbitrary: rows st)
  case (Cons ns nss)
  obtain rows1 st1 where one: "ownership_transition own refreshed partitioned ns (rows, st) = (rows1, st1)" by fastforce
  have st1: "dget st1 j = (if j = ns then contest_of own (hubs_for refreshed ns) ns else dget st j)" for j
    using transition_state [of st ns partitioned own refreshed rows j] Cons.prems(2) by (simp add: one)
  have "\<forall>n \<in> set nss. dget st1 n = dget partitioned n"
    using Cons.prems by (auto simp: st1)
  then show ?case using Cons.IH [of st1 rows1] Cons.prems(1) by (auto simp: one st1)
qed simp

lemma dget_keys: "dget d k = None \<longleftrightarrow> k \<notin> set (map fst d)"
  by (simp add: map_of_eq_None_iff)

lemma transitions_exact:
  "dget (snd (ownership_transitions own refreshed partitioned)) ns = contest_of own (hubs_for refreshed ns) ns"
proof -
  have run: "dget (snd (ownership_transitions own refreshed partitioned)) ns =
      (if ns \<in> set (round_namespaces refreshed partitioned) then contest_of own (hubs_for refreshed ns) ns
       else dget partitioned ns)"
    unfolding ownership_transitions_def by (rule transitions_fold) (simp_all add: round_namespaces_def)
  show ?thesis
  proof (cases "ns \<in> set (round_namespaces refreshed partitioned)")
    case False
    then have "dget partitioned ns = None" "dget refreshed ns = None"
      by (auto simp: round_namespaces_def dget_keys)
    then show ?thesis using False
      by (simp add: run hubs_for_def contest_of_eq split: option.split)
  qed (simp add: run)
qed

section \<open>Rows and their restoration\<close>

definition clean_name :: "string \<Rightarrow> bool" where
  "clean_name s \<longleftrightarrow> s \<noteq> [] \<and> py_strip s = s"

definition clean_list :: "string list \<Rightarrow> bool" where
  "clean_list hs \<longleftrightarrow> hs \<noteq> [] \<and> distinct hs \<and> sorted hs \<and> list_all clean_name hs"

definition clean_ownership :: "namespace_ownership \<Rightarrow> bool" where
  "clean_ownership own \<longleftrightarrow> (\<forall>ns hub. dget (no_owners own) ns = Some hub \<longrightarrow> clean_name ns)"

lemma stripped_hubs_clean: "list_all clean_name hs \<Longrightarrow> stripped_hubs (map JString hs) = Inr hs"
  by (induction hs) (auto simp: clean_name_def)

lemma restore_partition:
  assumes "clean_name ns" and "clean_list hs"
  shows "restore_partition_row \<lparr>fr_kind = fst (partition_row own ns hs b), fr_ts = now, fr_payload = snd (partition_row own ns hs b)\<rparr> active
    = Inr (dset ns hs active)"
proof -
  have "sort (remdups hs) = hs" "hs \<noteq> []" using assms(2) by (auto simp: clean_list_def sorted_sort_id)
  then show ?thesis using assms stripped_hubs_clean [of hs]
    by (simp add: restore_partition_row_def partition_row_def get_field_def get_or_def str_or_empty_def
        clean_name_def clean_list_def)
qed

lemma restore_heal:
  assumes "clean_name (od_namespace d)"
  shows "restore_partition_row \<lparr>fr_kind = fst (heal_row own d previous), fr_ts = now, fr_payload = snd (heal_row own d previous)\<rparr> active
    = Inr (ddel (od_namespace d) active)"
  using assms by (simp add: restore_partition_row_def heal_row_def get_field_def get_or_def str_or_empty_def clean_name_def)

definition as_rows :: "time \<Rightarrow> (string \<times> json_object) list \<Rightarrow> federation_row list" where
  "as_rows now new = map (\<lambda>(kind, payload). \<lparr>fr_kind = kind, fr_ts = now, fr_payload = payload\<rparr>) new"

lemma restore_append: "restore_partition_rows (xs @ ys) a = sum_bind (restore_partition_rows xs a) (restore_partition_rows ys)"
  by (induction xs arbitrary: a) (auto simp: sum_bind_def split: sum.split)

text \<open>The rows of a round restore what the round holds.\<close>

definition restores_to :: "federation_row list \<Rightarrow> assertions \<Rightarrow> assertions \<Rightarrow> bool" where
  "restores_to rows active st \<longleftrightarrow>
     (\<exists>p. restore_partition_rows rows active = Inr p \<and> (\<forall>ns. dget p ns = dget st ns))"

lemma resolve_namespace_name [simp]: "od_namespace (resolve_namespace own ns hubs) = ns"
  by (simp add: resolve_namespace_def Let_def split: option.split)

lemma transition_restores:
  assumes r: "restores_to (as_rows now rows) active st"
    and clean: "dget (no_owners own) ns \<noteq> None \<Longrightarrow> clean_name ns"
    and gov: "dget partitioned ns \<noteq> None \<Longrightarrow> dget (no_owners own) ns \<noteq> None"
    and contest: "\<And>hs. contest_of own (hubs_for refreshed ns) ns = Some hs \<Longrightarrow> clean_list hs"
  shows "case ownership_transition own refreshed partitioned ns (rows, st) of (rows', st') \<Rightarrow>
    restores_to (as_rows now rows') active st'"
proof -
  let ?d = "resolve_namespace own ns (hubs_for refreshed ns)"
  obtain p where p: "restore_partition_rows (as_rows now rows) active = Inr p" "\<forall>k. dget p k = dget st k"
    using r by (auto simp: restores_to_def)
  have add: "restores_to (as_rows now (rows @ [row])) active st'"
    if "restore_partition_row \<lparr>fr_kind = fst row, fr_ts = now, fr_payload = snd row\<rparr> p = Inr q" "\<forall>k. dget q k = dget st' k"
    for row q st'
    using that p by (cases row) (auto simp: restores_to_def as_rows_def restore_append)
  show ?thesis
  proof (cases "od_outcome ?d = PARTITIONED")
    case True
    then have "clean_list (od_contesting ?d)" using contest by (simp add: contest_of_def)
    moreover have "clean_name ns" using clean contest_governed [of own "hubs_for refreshed ns" ns] True
      by (simp add: contest_of_def)
    ultimately have row: "restore_partition_row \<lparr>fr_kind = fst (partition_row own ns (od_contesting ?d) b), fr_ts = now,
        fr_payload = snd (partition_row own ns (od_contesting ?d) b)\<rparr> p = Inr (dset ns (od_contesting ?d) p)" for b
      using restore_partition by blast
    show ?thesis
    proof (cases "dget partitioned ns = Some (od_contesting ?d)")
      case same: True
      then show ?thesis using r True by (simp add: ownership_transition_def Let_def)
    next
      case False
      then show ?thesis using True p(2)
        by (auto simp: ownership_transition_def Let_def intro!: add [OF row])
    qed
  next
    case False
    have row: "restore_partition_row \<lparr>fr_kind = fst (heal_row own ?d prev), fr_ts = now,
        fr_payload = snd (heal_row own ?d prev)\<rparr> p = Inr (ddel ns p)" if "dget partitioned ns \<noteq> None" for prev
      using restore_heal [of ?d own prev now p] clean gov that by simp
    show ?thesis using r False p(2)
      by (auto simp: ownership_transition_def Let_def split: option.split intro!: add [OF row])
  qed
qed


lemma transitions_restore_fold:
  assumes "clean_ownership own"
    and "\<And>ns. dget partitioned ns \<noteq> None \<Longrightarrow> dget (no_owners own) ns \<noteq> None"
    and "\<And>ns hs. contest_of own (hubs_for refreshed ns) ns = Some hs \<Longrightarrow> clean_list hs"
    and "restores_to (as_rows now rows) active st"
  shows "case fold (ownership_transition own refreshed partitioned) nss (rows, st) of (rows', st') \<Rightarrow>
    restores_to (as_rows now rows') active st'"
  using assms(4)
proof (induction nss arbitrary: rows st)
  case (Cons ns nss)
  obtain rows1 st1 where one: "ownership_transition own refreshed partitioned ns (rows, st) = (rows1, st1)" by fastforce
  have clean: "dget (no_owners own) ns \<noteq> None \<Longrightarrow> clean_name ns"
    using assms(1) unfolding clean_ownership_def by blast
  have "case ownership_transition own refreshed partitioned ns (rows, st) of (rows', st') \<Rightarrow>
      restores_to (as_rows now rows') active st'"
    by (rule transition_restores [OF Cons.prems clean]) (use assms(2) [of ns] assms(3) [of ns] in blast)+
  then have "restores_to (as_rows now rows1) active st1" unfolding one by simp
  then show ?case using Cons.IH unfolding fold_simps one by simp
qed simp

section \<open>Clean names\<close>

text \<open>What the options parser leaves: peers, the local id and the governed namespaces are stripped.\<close>

definition clean_feed :: "assertions \<Rightarrow> bool" where
  "clean_feed a \<longleftrightarrow> (\<forall>ns hs. dget a ns = Some hs \<longrightarrow> distinct hs \<and> list_all clean_name hs)"

lemma contest_clean:
  assumes "clean_feed refreshed" and "contest_of own (hubs_for refreshed ns) ns = Some hs"
  shows "clean_list hs"
proof -
  have feed: "distinct (hubs_for refreshed ns) \<and> list_all clean_name (hubs_for refreshed ns)"
  proof (cases "dget refreshed ns")
    case (Some hs)
    then show ?thesis using assms(1) unfolding hubs_for_def clean_feed_def by (metis option.simps(5))
  qed (simp add: hubs_for_def)
  have "\<exists>hub. hs = sort (filter (\<lambda>h. h \<noteq> hub \<and> h \<noteq> no_local own) (hubs_for refreshed ns)) \<and> hs \<noteq> []"
  proof (cases "dget (no_owners own) ns")
    case None
    then show ?thesis using assms(2) by (simp add: contest_of_eq)
  next
    case (Some hub)
    then show ?thesis using assms(2) by (intro exI [of _ hub]) (simp add: contest_of_eq Let_def split: if_splits)
  qed
  then obtain hub where hs: "hs = sort (filter (\<lambda>h. h \<noteq> hub \<and> h \<noteq> no_local own) (hubs_for refreshed ns))" "hs \<noteq> []"
    by blast
  show ?thesis unfolding clean_list_def
  proof (intro conjI)
    show "hs \<noteq> []" by (rule hs(2))
    show "distinct hs" "sorted hs" "list_all clean_name hs"
      unfolding hs(1) using feed by (simp_all add: list_all_iff)
  qed
qed

section \<open>The hubs of the feed\<close>

definition hubs_in :: "string set \<Rightarrow> assertions \<Rightarrow> bool" where
  "hubs_in H a \<longleftrightarrow> (\<forall>ns hs. dget a ns = Some hs \<longrightarrow> distinct hs \<and> set hs \<subseteq> H)"

lemma hubs_in_add: "hubs_in H a \<Longrightarrow> hub \<in> H \<Longrightarrow> hubs_in H (add_assertion ns hub a)"
proof -
  assume a: "hubs_in H a" and hub: "hub \<in> H"
  have old: "distinct (hubs_for a ns) \<and> set (hubs_for a ns) \<subseteq> H"
  proof (cases "dget a ns")
    case (Some hs)
    then show ?thesis using a unfolding hubs_for_def hubs_in_def by (metis option.simps(5))
  qed (simp add: hubs_for_def)
  show ?thesis unfolding hubs_in_def
  proof (intro allI impI)
    fix n hs
    assume "dget (add_assertion ns hub a) n = Some hs"
    then have "n = ns \<and> hs = List.insert hub (hubs_for a ns) \<or> dget a n = Some hs"
      by (simp add: add_assertion_def split: if_splits)
    then show "distinct hs \<and> set hs \<subseteq> H"
    proof
      assume "n = ns \<and> hs = List.insert hub (hubs_for a ns)"
      then show ?thesis using old hub by simp
    next
      assume "dget a n = Some hs"
      then show ?thesis using a unfolding hubs_in_def by blast
    qed
  qed
qed

lemma assert_claims_hubs:
  "assert_claims cs a = Inr a' \<Longrightarrow> hubs_in H a \<Longrightarrow> fst ` set cs \<subseteq> H \<Longrightarrow> hubs_in H a'"
proof (induction cs a rule: assert_claims.induct)
  case (2 hub body rest a)
  from 2(2) obtain ns where run: "assert_claims rest (if ns = [] then a else add_assertion ns hub a) = Inr a'"
    by (auto simp: sum_bind_Inr)
  have "hubs_in H (if ns = [] then a else add_assertion ns hub a)" using 2(3,4) hubs_in_add by simp
  then show ?case using 2(1) [OF run] 2(4) by simp
qed simp

lemma set_dset: "set (dset k v d) \<subseteq> insert (k, v) (set d)"
  by (induction d) auto

definition live_in :: "string set \<Rightarrow> live_claims_of_hubs \<Rightarrow> bool" where
  "live_in H live \<longleftrightarrow> (\<forall>e \<in> set live. fst (fst e) \<in> H)"

lemma live_in_simps: "live_in H live \<Longrightarrow> fst k \<in> H \<Longrightarrow> live_in H (dset k b live)" "live_in H live \<Longrightarrow> live_in H (ddel k live)"
  using set_dset [of k b live] by (auto simp: live_in_def AList.delete_eq)

lemma track_claims_hubs:
  "track_claims evs live = Inr live' \<Longrightarrow> live_in H live \<Longrightarrow> he_hub ` set evs \<subseteq> H \<Longrightarrow> live_in H live'"
proof (induction evs live rule: track_claims.induct)
  case (2 ev evs live)
  from 2(2) obtain task where task: "task_id_of ev = Inr task" by (auto simp: sum_bind_Inr)
  let ?next = "if task = [] then live
          else if he_kind ev \<in> set claim_kinds then dset (he_hub ev, task) (he_payload ev) live
          else if he_kind ev = ''release'' then ddel (he_hub ev, task) live
          else live"
  have "live_in H ?next" using 2(3,4) live_in_simps by simp
  moreover have "track_claims evs ?next = Inr live'" using 2(2) by (simp add: task)
  ultimately show ?case using 2(1) [of task] 2(4) by simp
qed simp

lemma asserting_hubs:
  assumes "asserting_owners_from_events evs = Inr a"
  shows "hubs_in (he_hub ` set evs) a"
proof -
  let ?H = "he_hub ` set evs"
  obtain live where live: "track_claims (sort_key (\<lambda>ev. (he_hub ev, he_seq ev)) evs) [] = Inr live"
    and a: "assert_claims (map (\<lambda>((hub, task), body). (hub, body)) live) [] = Inr a"
    using assms by (auto simp: asserting_owners_from_events_def sum_bind_Inr)
  have "live_in ?H live" by (rule track_claims_hubs [OF live]) (simp_all add: live_in_def)
  then have "fst ` set (map (\<lambda>((hub, task), body). (hub, body)) live) \<subseteq> ?H"
    by (auto simp: live_in_def split_beta)
  then show ?thesis by (rule assert_claims_hubs [OF a, rotated]) (simp add: hubs_in_def)
qed

text \<open>Polls of a follower: where the events come from, and which rows are written.\<close>

definition event_hubs :: "follower \<Rightarrow> string set" where
  "event_hubs fo = he_hub ` snd ` set (fo_events fo)"

definition poll_frame :: "string \<Rightarrow> follower \<Rightarrow> follower \<Rightarrow> bool" where
  "poll_frame peer fo fo' \<longleftrightarrow>
     event_hubs fo' \<subseteq> insert peer (event_hubs fo)
     \<and> (case (fo_journal fo, fo_journal fo') of
          (None, None) \<Rightarrow> True
        | (Some rows, Some rows') \<Rightarrow>
            filter (\<lambda>r. fr_kind r \<in> set partition_kinds) rows' = filter (\<lambda>r. fr_kind r \<in> set partition_kinds) rows
        | _ \<Rightarrow> False)"

lemma poll_frame_refl: "poll_frame peer fo fo"
  by (auto simp: poll_frame_def split: option.split)

lemma snd_set_update: "snd ` set (dset k v d) \<subseteq> insert v (snd ` set d)"
  using set_dset [of k v d] by force

lemma validate_batch_hubs:
  "validate_content_bound_batch pk peer after expected evs candidate = Inr result \<Longrightarrow>
   he_hub ` snd ` set result \<subseteq> insert peer (he_hub ` snd ` set candidate)"
proof (induction evs arbitrary: expected candidate)
  case (Cons ev evs)
  have hub: "he_hub ev = peer" using Cons.prems by (auto split: if_splits)
  obtain c1 e1 where c1: "remember_content_bound_event pk candidate ev = Inr c1"
    and rest: "validate_content_bound_batch pk peer after e1 evs c1 = Inr result"
    using Cons.prems by (auto simp: sum_bind_Inr split: if_splits)
  have "c1 = candidate \<or> c1 = dset (identity ev) ev candidate"
    using c1 by (auto simp: remember_content_bound_event_def sum_bind_Inr split: option.splits if_splits)
  then have "he_hub ` snd ` set c1 \<subseteq> insert peer (he_hub ` snd ` set candidate)"
    using snd_set_update [of "identity ev" ev candidate] hub by auto
  then have "insert peer (he_hub ` snd ` set c1) \<subseteq> insert peer (he_hub ` snd ` set candidate)" by (rule insert_mono [THEN order_trans]) simp
  then show ?case using Cons.IH [OF rest] by (rule order_trans [rotated])
qed (auto simp: subset_insertI)

lemma poll_finish_frame:
  assumes "poll_finish pk now peer cursor fetched fo = (fo', r)"
  shows "poll_frame peer fo fo'"
proof -
  have quarantine: "poll_frame peer fo (quarantine_peer now p q a c (release_lock peer fo))" for p q a c
    by (auto simp: poll_frame_def event_hubs_def quarantine_peer_def release_lock_def Let_def record_multihub_equivocation_def
        partition_kinds_def split: option.split)
  have unlocked: "poll_frame peer fo (release_lock peer fo)"
    by (auto simp: poll_frame_def event_hubs_def release_lock_def split: option.split)
  have accept: "poll_frame peer fo (release_lock peer fo\<lparr>fo_events := candidate, fo_cursors := cs\<rparr>)"
    if "validate_content_bound_batch pk peer cursor (cursor + 1) (tag_events peer fetched) (fo_events fo) = Inr candidate"
    for candidate cs
    using validate_batch_hubs [OF that] by (auto simp: poll_frame_def event_hubs_def release_lock_def split: option.split)
  show ?thesis
    using assms quarantine unlocked accept
    by (auto simp: poll_finish_def Let_def split: sum.splits integrity_error.splits)
qed


section \<open>Rounds\<close>

lemma poll_peer_frame:
  assumes "poll_peer pk now fetch peer fo = (fo', r)"
  shows "poll_frame peer fo fo'"
proof (cases "poll_begin peer fo")
  case (Inl e)
  then show ?thesis using assms poll_frame_refl by (simp add: poll_peer_def)
next
  case (Inr fo1)
  then have fo1: "fo_events fo1 = fo_events fo" "fo_journal fo1 = fo_journal fo"
    by (auto simp: poll_begin_def split: option.splits)
  have lift: "poll_frame peer fo1 f \<Longrightarrow> poll_frame peer fo f" for f by (simp add: poll_frame_def event_hubs_def fo1)
  show ?thesis
  proof (cases "fetch peer (follower_cursor peer fo)")
    case None
    then have "fo' = release_lock peer fo1" using assms Inr by (simp add: poll_peer_def)
    then show ?thesis by (auto simp: poll_frame_def event_hubs_def release_lock_def fo1 split: option.split)
  next
    case (Some evs)
    obtain fo2 res where fin: "poll_finish pk now peer (follower_cursor peer fo) evs fo1 = (fo2, res)" by fastforce
    have "fo' = fo2"
      using assms Inr Some fin by (auto simp: poll_peer_def Let_def split: sum.splits)
    then show ?thesis using lift [OF poll_finish_frame [OF fin]] by simp
  qed
qed

text \<open>All polls of a round.\<close>

definition polls_frame :: "string set \<Rightarrow> follower \<Rightarrow> follower \<Rightarrow> bool" where
  "polls_frame P fo fo' \<longleftrightarrow>
     event_hubs fo' \<subseteq> P \<union> event_hubs fo
     \<and> (case (fo_journal fo, fo_journal fo') of
          (None, None) \<Rightarrow> True
        | (Some rows, Some rows') \<Rightarrow>
            filter (\<lambda>r. fr_kind r \<in> set partition_kinds) rows' = filter (\<lambda>r. fr_kind r \<in> set partition_kinds) rows
        | _ \<Rightarrow> False)"

lemma polls_frame_refl: "polls_frame P fo fo"
  by (auto simp: polls_frame_def split: option.split)

lemma polls_frame_step: "poll_frame p fo fo1 \<Longrightarrow> polls_frame P fo1 fo2 \<Longrightarrow> p \<in> P \<Longrightarrow> polls_frame P fo fo2"
  unfolding poll_frame_def polls_frame_def
  by (cases "fo_journal fo"; cases "fo_journal fo1"; cases "fo_journal fo2") auto

lemma poll_peers_frame: "poll_peers pk now fetch ps fo = (fo', r) \<Longrightarrow> set ps \<subseteq> P \<Longrightarrow> polls_frame P fo fo'"
proof (induction ps arbitrary: fo r)
  case (Cons p ps)
  obtain fo1 r1 where one: "poll_peer pk now fetch p fo = (fo1, r1)" by fastforce
  note frame = poll_peer_frame [OF one]
  show ?case
  proof (cases r1)
    case (Inl e)
    then have "fo' = fo1" using Cons.prems(1) by (simp add: one)
    then show ?thesis using polls_frame_step [OF frame polls_frame_refl] Cons.prems(2) by simp
  next
    case (Inr ok)
    obtain r2 where "poll_peers pk now fetch ps fo1 = (fo', r2)"
      using Cons.prems(1) by (auto simp: one Inr split: prod.splits sum.splits)
    then show ?thesis using polls_frame_step [OF frame Cons.IH] Cons.prems(2) by simp
  qed
qed (simp add: polls_frame_refl)

lemma fold_insert_props:
  "distinct (fold List.insert xs ys) \<longleftrightarrow> distinct ys" "set (fold List.insert xs ys) = set xs \<union> set ys"
  by (induction xs arbitrary: ys) auto

lemma keep_suspicion_get:
  assumes "dict_ok partitioned"
  shows "hubs_for (keep_suspicion peers fo failed partitioned seen) ns =
    fold List.insert (retained_peers peers fo failed (hubs_for partitioned ns)) (hubs_for seen ns)"
  using assms
proof (induction partitioned arbitrary: seen)
  case Nil
  then show ?case by (simp add: keep_suspicion_def hubs_for_def retained_peers_def)
next
  case (Cons entry rest)
  obtain n c where entry: "entry = (n, c)" by fastforce
  let ?r = "retained_peers peers fo failed c"
  let ?seen = "if ?r = [] then seen else dset n (fold List.insert ?r (hubs_for seen n)) seen"
  have run: "keep_suspicion peers fo failed (entry # rest) seen = keep_suspicion peers fo failed rest ?seen"
    by (simp add: keep_suspicion_def entry Let_def)
  have ok: "dict_ok rest" "dget rest n = None" using Cons.prems by (auto simp: entry dict_ok_def dget_keys)
  have seen: "hubs_for ?seen k = (if k = n then fold List.insert ?r (hubs_for seen n) else hubs_for seen k)" for k
    by (simp add: hubs_for_def)
  have head: "hubs_for (entry # rest) k = (if k = n then c else hubs_for rest k)" for k
    by (simp add: hubs_for_def entry)
  have "hubs_for rest n = []" using ok(2) by (simp add: hubs_for_def)
  moreover have "retained_peers peers fo failed [] = []" by (simp add: retained_peers_def)
  ultimately show ?case
    using Cons.IH [OF ok(1), of ?seen] by (cases "ns = n") (simp_all only: run seen head if_True if_False fold_simps, simp_all)
qed

text \<open>What a watch keeps over its life.\<close>

definition watch_ok :: "namespace_ownership \<Rightarrow> hub_watch \<Rightarrow> bool" where
  "watch_ok own wt \<longleftrightarrow>
     wt_ownership wt = Some own \<and> list_all clean_name (wt_peers wt)
     \<and> event_hubs (wt_follower wt) \<subseteq> set (wt_peers wt)
     \<and> dict_ok (wt_partitioned wt)
     \<and> (\<forall>ns. dget (wt_partitioned wt) ns = contest_of own (hubs_for (wt_assertions wt) ns) ns)
     \<and> hubs_in (set (wt_peers wt)) (wt_assertions wt)
     \<and> (\<exists>rows. fo_journal (wt_follower wt) = Some rows
          \<and> restores_to (filter (\<lambda>r. fr_kind r \<in> set partition_kinds) rows) [] (wt_partitioned wt))"

lemma hubs_in_for: "hubs_in H a \<Longrightarrow> distinct (hubs_for a ns) \<and> set (hubs_for a ns) \<subseteq> H"
proof (cases "dget a ns")
  case (Some hs)
  then show "hubs_in H a \<Longrightarrow> ?thesis" unfolding hubs_for_def hubs_in_def by (metis option.simps(5))
qed (simp add: hubs_for_def)

lemma hubs_in_clean: "hubs_in H a \<Longrightarrow> (\<And>h. h \<in> H \<Longrightarrow> clean_name h) \<Longrightarrow> clean_feed a"
  unfolding hubs_in_def clean_feed_def list_all_iff by blast

lemma ownership_transition_dict:
  "dict_ok st \<Longrightarrow> dict_ok (snd (ownership_transition own refreshed partitioned ns (rows, st)))"
  by (simp add: ownership_transition_def Let_def split: option.split)

lemma transitions_dict: "dict_ok partitioned \<Longrightarrow> dict_ok (snd (ownership_transitions own refreshed partitioned))"
proof -
  have "dict_ok st \<Longrightarrow> dict_ok (snd (fold (ownership_transition own refreshed partitioned) nss (rows, st)))" for nss rows st
  proof (induction nss arbitrary: rows st)
    case (Cons ns nss)
    obtain rows1 st1 where one: "ownership_transition own refreshed partitioned ns (rows, st) = (rows1, st1)" by fastforce
    have "dict_ok st1" using ownership_transition_dict [OF Cons.prems, of own refreshed partitioned ns rows] by (simp add: one)
    then show ?case using Cons.IH by (simp add: one)
  qed simp
  then show "dict_ok partitioned \<Longrightarrow> ?thesis" by (simp add: ownership_transitions_def)
qed

lemma transitions_restore:
  assumes own: "clean_ownership own" and feed: "clean_feed refreshed"
    and part: "\<And>ns. dget partitioned ns \<noteq> None \<Longrightarrow> dget (no_owners own) ns \<noteq> None"
  shows "case ownership_transitions own refreshed partitioned of (rows, st) \<Rightarrow> restores_to (as_rows now rows) partitioned st"
  unfolding ownership_transitions_def
  by (rule transitions_restore_fold [OF own part contest_clean [OF feed]]) (simp_all add: restores_to_def as_rows_def)


lemma restore_row_uniform:
  assumes "restore_partition_row r a = Inr a1"
  shows "\<exists>f. restore_partition_row r b = Inr (f b) \<and> a1 = f a
    \<and> (f = id \<or> (\<exists>ns. f = ddel ns) \<or> (\<exists>ns hs. f = dset ns hs))"
proof -
  obtain raw where raw: "str_or_empty (get_field (fr_payload r) ''namespace'') = Inr raw"
    using assms by (auto simp: restore_partition_row_def sum_bind_Inr)
  have use: ?thesis if "\<And>x. restore_partition_row r x = Inr (f x)" "f = id \<or> (\<exists>ns. f = ddel ns) \<or> (\<exists>ns hs. f = dset ns hs)" for f
    using assms that by (intro exI [of _ f]) simp
  consider (blank) "py_strip raw = []" | (heal) "py_strip raw \<noteq> []" "fr_kind r = ''multihub_heal''"
    | (part) "py_strip raw \<noteq> []" "fr_kind r \<noteq> ''multihub_heal''" by blast
  then show ?thesis
  proof cases
    case blank
    show ?thesis by (rule use [of id]) (simp_all add: restore_partition_row_def raw Let_def blank)
  next
    case heal
    show ?thesis
      by (rule use [of "if get_field (fr_payload r) ''observation_refreshed'' = JBool True then ddel (py_strip raw) else id"])
        (auto simp: restore_partition_row_def raw Let_def heal)
  next
    case part
    show ?thesis
    proof (cases "get_field (fr_payload r) ''contesting_hubs''")
      case (JList vs)
      then obtain hs where "stripped_hubs vs = Inr hs"
        using assms part by (auto simp: restore_partition_row_def raw sum_bind_Inr Let_def)
      then show ?thesis
        by (intro use [of "dset (py_strip raw) (if hs = [] then [UNVERIFIED_PARTITION_CONTESTER] else sort (remdups hs))"])
          (use part JList in \<open>auto simp: restore_partition_row_def raw Let_def\<close>)
    qed (rule use [of "dset (py_strip raw) [UNVERIFIED_PARTITION_CONTESTER]"],
        simp add: restore_partition_row_def raw Let_def part, blast)+
  qed
qed

lemma restores_to_append:
  assumes "restores_to xs [] st" and "restores_to ys st st'"
  shows "restores_to (xs @ ys) [] st'"
proof -
  obtain p where p: "restore_partition_rows xs [] = Inr p" "\<forall>ns. dget p ns = dget st ns"
    using assms(1) by (auto simp: restores_to_def)
  have cong: "restore_partition_rows rows a = Inr a' \<Longrightarrow> (\<And>k. dget b k = dget a k) \<Longrightarrow>
      \<exists>b'. restore_partition_rows rows b = Inr b' \<and> (\<forall>k. dget b' k = dget a' k)" for rows a a' b
  proof (induction rows arbitrary: a b)
    case (Cons r rows)
    obtain a1 where a1: "restore_partition_row r a = Inr a1" "restore_partition_rows rows a1 = Inr a'"
      using Cons.prems(1) by (auto simp: sum_bind_Inr)
    have "\<exists>b1. restore_partition_row r b = Inr b1 \<and> (\<forall>k. dget b1 k = dget a1 k)"
      using restore_row_uniform [OF a1(1), of b] Cons.prems(2) by auto
    then obtain b1 where "restore_partition_row r b = Inr b1" "\<And>k. dget b1 k = dget a1 k" by blast
    then show ?case using Cons.IH [OF a1(2)] by simp
  qed simp
  show ?thesis using assms(2) cong [of ys st _ p] p by (auto simp: restores_to_def restore_append)
qed

lemma as_rows_kinds:
  assumes "ownership_transitions own refreshed partitioned = (new, st)"
  shows "filter (\<lambda>r. fr_kind r \<in> set partition_kinds) (as_rows now new) = as_rows now new"
proof -
  have "list_all (\<lambda>(kind, p). kind \<in> set partition_kinds) rows \<Longrightarrow>
      list_all (\<lambda>(kind, p). kind \<in> set partition_kinds)
        (fst (fold (ownership_transition own refreshed partitioned) nss (rows, st)))" for nss rows st
  proof (induction nss arbitrary: rows st)
    case (Cons ns nss)
    obtain rows1 st1 where one: "ownership_transition own refreshed partitioned ns (rows, st) = (rows1, st1)" by fastforce
    have "list_all (\<lambda>(kind, p). kind \<in> set partition_kinds) rows1"
      using Cons.prems one
      by (auto simp: ownership_transition_def partition_row_def heal_row_def partition_kinds_def Let_def
          split: if_splits option.splits)
    then show ?case using Cons.IH by (simp add: one)
  qed simp
  from this [of "[]" "round_namespaces refreshed partitioned" partitioned] assms
  have "list_all (\<lambda>(kind, p). kind \<in> set partition_kinds) new" by (simp add: ownership_transitions_def)
  then show ?thesis by (induction new) (auto simp: as_rows_def)
qed

lemma publish_round_ok:
  assumes ok: "watch_ok own wt" and own: "clean_ownership own"
    and fo: "polls_frame (set (wt_peers wt)) (wt_follower wt) fo"
    and feed: "hubs_in (set (wt_peers wt)) refreshed"
    and run: "publish_round now append_ok fo failed refreshed wt = (wt', r)"
  shows "watch_ok own wt'"
proof -
  obtain rows where rows: "fo_journal (wt_follower wt) = Some rows"
    "restores_to (filter (\<lambda>r. fr_kind r \<in> set partition_kinds) rows) [] (wt_partitioned wt)"
    using ok unfolding watch_ok_def by blast
  obtain rows' where rows': "fo_journal fo = Some rows'"
    "filter (\<lambda>r. fr_kind r \<in> set partition_kinds) rows' = filter (\<lambda>r. fr_kind r \<in> set partition_kinds) rows"
    using fo rows(1) by (cases "fo_journal fo") (auto simp: polls_frame_def)
  have hubs: "event_hubs fo \<subseteq> set (wt_peers wt)" using fo ok unfolding polls_frame_def watch_ok_def by blast
  obtain new st where tr: "ownership_transitions own refreshed (wt_partitioned wt) = (new, st)" by fastforce
  have clean: "clean_feed refreshed"
    using hubs_in_clean [OF feed] ok unfolding watch_ok_def list_all_iff by blast
  have gov: "dget (wt_partitioned wt) ns \<noteq> None \<Longrightarrow> dget (no_owners own) ns \<noteq> None" for ns
    using ok contest_governed unfolding watch_ok_def by metis
  have "restores_to (as_rows now new) (wt_partitioned wt) st"
    using transitions_restore [where now = now and refreshed = refreshed and partitioned = "wt_partitioned wt", OF own clean gov]
    unfolding tr by simp
  from restores_to_append [OF rows(2) this]
  have restored: "restores_to (filter (\<lambda>r. fr_kind r \<in> set partition_kinds) (rows' @ as_rows now new)) [] st"
    using as_rows_kinds [OF tr, of now] by (simp add: rows'(2))
  have state: "dget st ns = contest_of own (hubs_for refreshed ns) ns" for ns
    using transitions_exact [of own refreshed "wt_partitioned wt" ns] by (simp add: tr)
  have dict: "dict_ok st" using transitions_dict [of "wt_partitioned wt" own refreshed] ok by (simp add: tr watch_ok_def)
  have wt': "wt' = (if append_ok
       then wt\<lparr>wt_follower := fo\<lparr>fo_journal := Some (rows' @ as_rows now new)\<rparr>, wt_partitioned := st, wt_assertions := refreshed\<rparr>
       else wt\<lparr>wt_follower := fo\<rparr>)"
    using run ok rows'(1) tr
    by (auto simp: publish_round_def watch_ok_def record_multihub_ownership_transitions_def as_rows_def split: if_splits)
  show ?thesis
  proof (cases append_ok)
    case True
    have "event_hubs (fo\<lparr>fo_journal := j\<rparr>) = event_hubs fo" for j by (simp add: event_hubs_def)
    then show ?thesis using True ok hubs restored state dict feed unfolding watch_ok_def wt' by simp
  next
    case False
    then show ?thesis using ok hubs rows rows' unfolding watch_ok_def wt' by simp
  qed
qed


section \<open>The life of a watch\<close>

lemma keep_suspicion_hubs:
  assumes "dict_ok partitioned" and "hubs_in H seen" and "set peers \<subseteq> H"
  shows "hubs_in H (keep_suspicion peers fo failed partitioned seen)"
  unfolding hubs_in_def
proof (intro allI impI)
  fix ns hs
  assume "dget (keep_suspicion peers fo failed partitioned seen) ns = Some hs"
  then have "hs = hubs_for (keep_suspicion peers fo failed partitioned seen) ns" by (simp add: hubs_for_def)
  then have hs: "hs = fold List.insert (retained_peers peers fo failed (hubs_for partitioned ns)) (hubs_for seen ns)"
    using keep_suspicion_get [OF assms(1)] by simp
  show "distinct hs \<and> set hs \<subseteq> H"
    unfolding hs fold_insert_props using hubs_in_for [OF assms(2), of ns] assms(3) by (auto simp: retained_peers_def)
qed

lemma watch_okD:
  assumes "watch_ok own wt"
  shows "wt_ownership wt = Some own" "event_hubs (wt_follower wt) \<subseteq> set (wt_peers wt)" "dict_ok (wt_partitioned wt)"
    "dget (wt_partitioned wt) ns = contest_of own (hubs_for (wt_assertions wt) ns) ns"
    "hubs_in (set (wt_peers wt)) (wt_assertions wt)"
  using assms unfolding watch_ok_def by blast+

lemma watch_ok_follower:
  assumes ok: "watch_ok own wt" and fo: "polls_frame (set (wt_peers wt)) (wt_follower wt) fo"
  shows "watch_ok own (wt\<lparr>wt_follower := fo\<rparr>)"
proof -
  obtain rows where rows: "fo_journal (wt_follower wt) = Some rows"
    "restores_to (filter (\<lambda>r. fr_kind r \<in> set partition_kinds) rows) [] (wt_partitioned wt)"
    using ok unfolding watch_ok_def by blast
  obtain rows' where rows': "fo_journal fo = Some rows'"
    "filter (\<lambda>r. fr_kind r \<in> set partition_kinds) rows' = filter (\<lambda>r. fr_kind r \<in> set partition_kinds) rows"
    using fo rows(1) by (cases "fo_journal fo") (auto simp: polls_frame_def)
  have "event_hubs fo \<subseteq> set (wt_peers wt)" using fo watch_okD(2) [OF ok] unfolding polls_frame_def by blast
  then show ?thesis using ok rows rows' unfolding watch_ok_def by simp
qed

lemma poll_once_cases:
  assumes "poll_once pk now append_ok fetch wt = (wt', r)"
  obtains (quiet) fo polls where "poll_peers pk now fetch (wt_peers wt) (wt_follower wt) = (fo, polls)"
      "wt' = wt\<lparr>wt_follower := fo\<rparr>"
  | (publish) fo failed seen where "poll_peers pk now fetch (wt_peers wt) (wt_follower wt) = (fo, Inr failed)"
      "asserting_owners_from_events (map snd (fo_events fo)) = Inr seen"
      "publish_round now append_ok fo failed (keep_suspicion (wt_peers wt) fo failed (wt_partitioned wt) seen) wt = (wt', r)"
  using assms by (auto simp: poll_once_def split: prod.splits sum.splits if_splits)

lemma poll_once_ok:
  assumes ok: "watch_ok own wt" and own: "clean_ownership own"
    and run: "poll_once pk now append_ok fetch wt = (wt', r)"
  shows "watch_ok own wt'"
  using run
proof (cases rule: poll_once_cases)
  case (quiet fo polls)
  then show ?thesis using watch_ok_follower [OF ok poll_peers_frame [OF quiet(1) order_refl]] by simp
next
  case (publish fo failed seen)
  note frame = poll_peers_frame [OF publish(1) order_refl]
  have hubs: "event_hubs fo \<subseteq> set (wt_peers wt)"
    using frame watch_okD(2) [OF ok] unfolding polls_frame_def by blast
  have "hubs_in (event_hubs fo) seen"
    using asserting_hubs [OF publish(2)] by (simp add: event_hubs_def image_image)
  then have "hubs_in (set (wt_peers wt)) seen" using hubs unfolding hubs_in_def by blast
  then show ?thesis
    by (rule publish_round_ok [OF ok own frame keep_suspicion_hubs [OF watch_okD(3) [OF ok] _ order_refl] publish(3)])
qed

lemma restore_rows_dict: "restore_partition_rows rows a = Inr p \<Longrightarrow> dict_ok a \<Longrightarrow> dict_ok p"
proof (induction rows arbitrary: a)
  case (Cons r rows)
  then obtain a1 where a1: "restore_partition_row r a = Inr a1" "restore_partition_rows rows a1 = Inr p"
    by (auto simp: sum_bind_Inr)
  have "dict_ok a1" using restore_row_uniform [OF a1(1), of a] Cons.prems(2) by auto
  then show ?case by (rule Cons.IH [OF a1(2)])
qed simp

lemma contest_idem:
  assumes "contest_of own hubs ns = Some hs"
  shows "contest_of own hs ns = Some hs" and "set hs \<subseteq> set hubs"
proof -
  obtain hub where hub: "dget (no_owners own) ns = Some hub"
    "hs = sort (filter (\<lambda>h. h \<noteq> hub \<and> h \<noteq> no_local own) hubs)" "hs \<noteq> []"
    using assms by (auto simp: contest_of_eq Let_def split: option.splits if_splits)
  have "filter (\<lambda>h. h \<noteq> hub \<and> h \<noteq> no_local own) hs = hs" unfolding filter_id_conv hub(2) by auto
  moreover have "sort hs = hs" unfolding hub(2) by (rule sorted_sort_id) simp
  ultimately show "contest_of own hs ns = Some hs" using hub(1,3) by (simp add: contest_of_eq)
  show "set hs \<subseteq> set hubs" unfolding hub(2) by auto
qed

lemma new_watch_ok:
  assumes fo: "new_follower (Some rows) observer = Inr fo" and wt: "new_watch fo (Some own) peers = Inr wt"
    and peers: "list_all clean_name peers"
    and rows: "restores_to (filter (\<lambda>r. fr_kind r \<in> set partition_kinds) rows) [] st"
    and st: "\<And>ns. dget st ns = contest_of own (hubs_for a ns) ns" and a: "hubs_in (set peers) a"
  shows "watch_ok own wt" and "wt_peers wt = peers" and "\<And>ns. dget (wt_partitioned wt) ns = dget st ns"
proof -
  have fo': "fo_events fo = []" "fo_journal fo = Some rows" using fo by (auto simp: new_follower_def sum_bind_Inr)
  obtain p where p: "restore_partition_rows (filter (\<lambda>r. fr_kind r \<in> set partition_kinds) rows) [] = Inr p"
    and wt': "wt = \<lparr>wt_follower = fo, wt_ownership = Some own, wt_peers = peers, wt_partitioned = p, wt_assertions = p\<rparr>"
    using wt by (auto simp: new_watch_def fo' sum_bind_Inr restore_active_multihub_partitions_def)
  have ps: "dget p ns = dget st ns" for ns using rows p unfolding restores_to_def by auto
  show "wt_peers wt = peers" "\<And>ns. dget (wt_partitioned wt) ns = dget st ns" by (simp_all add: wt' ps)
  have held: "dget p ns = Some hs \<Longrightarrow> contest_of own (hubs_for a ns) ns = Some hs" for ns hs by (simp add: ps st)
  have contest: "dget p ns = contest_of own (hubs_for p ns) ns" for ns
  proof (cases "dget p ns")
    case None
    then show ?thesis by (simp add: hubs_for_def contest_of_eq split: option.split)
  next
    case (Some hs)
    then show ?thesis using contest_idem(1) [OF held [OF Some]] by (simp add: hubs_for_def)
  qed
  have "hubs_in (set peers) p" unfolding hubs_in_def
  proof (intro allI impI)
    fix ns hs
    assume h: "dget p ns = Some hs"
    have "clean_list hs"
      by (rule contest_clean [OF hubs_in_clean [OF a] held [OF h]]) (use peers in \<open>simp add: list_all_iff\<close>)
    then show "distinct hs \<and> set hs \<subseteq> set peers"
      using contest_idem(2) [OF held [OF h]] hubs_in_for [OF a, of ns] by (auto simp: clean_list_def)
  qed
  moreover have "dict_ok p" by (rule restore_rows_dict [OF p]) (simp add: dict_ok_def)
  ultimately show "watch_ok own wt"
    unfolding watch_ok_def wt' using peers contest p fo' by (simp add: event_hubs_def restores_to_def)
qed

inductive watch_reachable :: "(time \<Rightarrow> bytes) \<Rightarrow> namespace_ownership \<Rightarrow> string list \<Rightarrow> hub_watch \<Rightarrow> bool"
  for pk own peers where
  first_start: "new_follower (Some []) observer = Inr fo \<Longrightarrow> new_watch fo (Some own) peers = Inr wt \<Longrightarrow>
    watch_reachable pk own peers wt"
| round: "watch_reachable pk own peers wt \<Longrightarrow> poll_once pk now append_ok fetch wt = (wt', r) \<Longrightarrow>
    watch_reachable pk own peers wt'"
| restart: "watch_reachable pk own peers wt \<Longrightarrow> new_follower (fo_journal (wt_follower wt)) observer = Inr fo \<Longrightarrow>
    new_watch fo (Some own) peers = Inr wt' \<Longrightarrow> watch_reachable pk own peers wt'"
| recovery: "watch_reachable pk own peers wt \<Longrightarrow> recover_peer now peer by reason generation (wt_follower wt) = Inr fo \<Longrightarrow>
    watch_reachable pk own peers (wt\<lparr>wt_follower := fo\<rparr>)"

lemma publish_round_peers: "publish_round now append_ok fo failed a wt = (wt', r) \<Longrightarrow> wt_peers wt' = wt_peers wt"
  by (auto simp: publish_round_def split: option.splits prod.splits if_splits)

lemma poll_once_peers: "poll_once pk now append_ok fetch wt = (wt', r) \<Longrightarrow> wt_peers wt' = wt_peers wt"
  by (elim poll_once_cases) (auto dest: publish_round_peers)

lemma recover_frame:
  assumes "recover_peer now peer by reason generation fo = Inr fo'"
  shows "polls_frame H fo fo'"
proof -
  have "fo_events fo' = filter (\<lambda>(i, ev). he_hub ev \<noteq> peer) (fo_events fo)"
    using assms by (auto simp: recover_peer_def Let_def split: if_splits option.splits sum.splits)
  moreover have "he_hub ` snd ` set (filter P d) \<subseteq> he_hub ` snd ` set d" for P and d :: bound_events
    by (intro image_mono) auto
  ultimately have "event_hubs fo' \<subseteq> event_hubs fo" by (simp add: event_hubs_def)
  then show ?thesis using assms
    by (auto simp: recover_peer_def polls_frame_def record_multihub_equivocation_recovery_def
      partition_kinds_def Let_def split: if_splits option.splits)
qed

lemma watch_reachable_ok:
  "watch_reachable pk own peers wt \<Longrightarrow> clean_ownership own \<Longrightarrow> list_all clean_name peers \<Longrightarrow>
   watch_ok own wt \<and> wt_peers wt = peers"
proof (induction rule: watch_reachable.induct)
  case (first_start observer fo wt)
  have "restores_to (filter (\<lambda>r. fr_kind r \<in> set partition_kinds) []) [] []" by (simp add: restores_to_def)
  moreover have "dget [] ns = contest_of own (hubs_for [] ns) ns" for ns
    by (simp add: hubs_for_def contest_of_eq split: option.split)
  moreover have "hubs_in (set peers) []" by (simp add: hubs_in_def)
  ultimately show ?case using new_watch_ok [OF first_start(1,2,4)] by blast
next
  case (round wt now append_ok fetch wt' r)
  then show ?case using poll_once_ok poll_once_peers by metis
next
  case (restart wt observer fo wt')
  then have ok: "watch_ok own wt" "wt_peers wt = peers" by blast+
  then obtain rows where rows: "fo_journal (wt_follower wt) = Some rows"
    "restores_to (filter (\<lambda>r. fr_kind r \<in> set partition_kinds) rows) [] (wt_partitioned wt)"
    unfolding watch_ok_def by blast
  show ?case
    using new_watch_ok [OF restart(2) [unfolded rows(1)] restart(3) restart(6) rows(2) watch_okD(4) [OF ok(1)]]
      watch_okD(5) [OF ok(1)] ok(2) by simp
next
  case (recovery wt now peer "by" reason generation fo)
  then show ?case using watch_ok_follower [OF _ recover_frame [OF recovery(2)]] by simp
qed


section \<open>A run\<close>

definition contest_event :: stored_event where
  "contest_event = \<lparr>ev_seq = 1, ev_kind = ''claim'',
     ev_payload = [(''task_id'', JString ''t''), (''owner'', JString ''p/x'')], ev_ts = Finite 1\<rparr>"

definition settle_event :: stored_event where
  "settle_event = \<lparr>ev_seq = 2, ev_kind = ''release'', ev_payload = [(''task_id'', JString ''t'')], ev_ts = Finite 2\<rparr>"

definition sample_fetch :: fetcher where
  "sample_fetch peer cursor = (if cursor = 0 then Some [contest_event] else Some [settle_event])"

definition sample_ownership :: namespace_ownership where
  "sample_ownership = \<lparr>no_owners = [(''p'', ''a'')], no_local = ''a''\<rparr>"

lemma sample_clean: "clean_ownership sample_ownership" "list_all clean_name [''b'']"
proof -
  have "clean_name ''p''" "clean_name ''b''" by (code_simp)+
  then show "clean_ownership sample_ownership" "list_all clean_name [''b'']"
    by (auto simp: clean_ownership_def sample_ownership_def split: if_splits)
qed

abbreviation "tagged_contest \<equiv> from_stored ''b'' contest_event"
abbreviation "tagged_settle \<equiv> from_stored ''b'' settle_event"

lemma sample_tags:
  "identity tagged_contest = (''b'', 1)" "he_hub tagged_contest = ''b''" "he_seq tagged_contest = 1"
  "he_kind tagged_contest = ''claim''" "he_payload tagged_contest = [(''task_id'', JString ''t''), (''owner'', JString ''p/x'')]"
  "identity tagged_settle = (''b'', 2)" "he_hub tagged_settle = ''b''" "he_seq tagged_settle = 2"
  "he_kind tagged_settle = ''release''" "he_payload tagged_settle = [(''task_id'', JString ''t'')]"
  by (simp_all add: identity_def from_stored_def contest_event_def settle_event_def)

lemma sample_fingerprints:
  "\<exists>d. event_fingerprint eight_bytes tagged_contest = Inr d" "\<exists>d. event_fingerprint eight_bytes tagged_settle = Inr d"
proof -
  have "case fingerprint_input eight_bytes tagged_contest of Inr _ \<Rightarrow> True | Inl _ \<Rightarrow> False" by code_simp
  then show "\<exists>d. event_fingerprint eight_bytes tagged_contest = Inr d" by (auto simp: event_fingerprint_def split: sum.splits)
  have "case fingerprint_input eight_bytes tagged_settle of Inr _ \<Rightarrow> True | Inl _ \<Rightarrow> False" by code_simp
  then show "\<exists>d. event_fingerprint eight_bytes tagged_settle = Inr d" by (auto simp: event_fingerprint_def split: sum.splits)
qed

lemma sample_remember:
  "remember_content_bound_event eight_bytes [] tagged_contest = Inr [((''b'', 1), tagged_contest)]"
  "remember_content_bound_event eight_bytes [((''b'', 1), tagged_contest)] tagged_settle
     = Inr [((''b'', 1), tagged_contest), ((''b'', 2), tagged_settle)]"
  using sample_fingerprints by (auto simp: remember_content_bound_event_def sample_tags)

lemma sample_order: "order_key tagged_contest \<le> order_key tagged_settle"
  by (simp add: order_key_def from_stored_def contest_event_def settle_event_def time_of_def)

lemma sample_merge:
  "merge_event_logs eight_bytes [[tagged_contest]] = Inr [tagged_contest]"
  "merge_event_logs eight_bytes [[tagged_contest, tagged_settle]] = Inr [tagged_contest, tagged_settle]"
  using sample_remember by (simp_all add: merge_event_logs_def sample_tags sample_order)

lemma sample_fold: "\<exists>v. fold_observed_state eight_bytes [tagged_contest] = Inr v"
  "\<exists>v. fold_observed_state eight_bytes [tagged_contest, tagged_settle] = Inr v"
  by (simp_all add: fold_observed_state_def fold_event_def sample_tags claim_kinds_def task_id_of_def get_or_def)


lemma poll_peer_accepts:
  assumes "dget (fo_quarantines fo) p = None" and "fo_polling fo = []" and "fetch p (follower_cursor p fo) = Some evs"
    and "validate_content_bound_batch pk p (follower_cursor p fo) (follower_cursor p fo + 1) (tag_events p evs) (fo_events fo) = Inr cand"
    and "merge_event_logs pk [map snd cand] = Inr merged" and "fold_observed_state pk merged = Inr view"
  shows "poll_peers pk now fetch [p] fo = (fo\<lparr>fo_events := cand, fo_cursors := hub_cursors (map snd cand)\<rparr>, Inr [])"
proof -
  have begun: "poll_begin p fo = Inr (fo\<lparr>fo_polling := [(p, follower_cursor p fo)]\<rparr>)"
    using assms(1,2) by (simp add: poll_begin_def)
  show ?thesis
    using assms by (simp add: poll_peer_def begun poll_finish_def Let_def lift_integrity_def sum_bind_def release_lock_def)
qed

lemma sample_start: "\<exists>fo wt. new_follower (Some []) ''a'' = Inr fo \<and> new_watch fo (Some sample_ownership) [''b''] = Inr wt
    \<and> wt = \<lparr>wt_follower = fo, wt_ownership = Some sample_ownership, wt_peers = [''b''], wt_partitioned = [], wt_assertions = []\<rparr>
    \<and> fo = \<lparr>fo_events = [], fo_cursors = [], fo_quarantines = [], fo_polling = [], fo_journal = Some [], fo_observer = ''a''\<rparr>"
  by (simp add: new_follower_def new_watch_def restore_active_multihub_partitions_def restore_active_multihub_quarantines_def)

abbreviation "sample_follower1 \<equiv> \<lparr>fo_events = [((''b'', 1), tagged_contest)], fo_cursors = [(''b'', 1)], fo_quarantines = [],
    fo_polling = [], fo_journal = Some [\<lparr>fr_kind = ''multihub_partition'', fr_ts = 5,
      fr_payload = snd (partition_row sample_ownership ''p'' [''b''] True)\<rparr>], fo_observer = ''a''\<rparr>"

abbreviation "sample_watch1 \<equiv> \<lparr>wt_follower = sample_follower1, wt_ownership = Some sample_ownership, wt_peers = [''b''],
    wt_partitioned = [(''p'', [''b''])], wt_assertions = [(''p'', [''b''])]\<rparr>"

lemma sample_asserting:
  "asserting_owners_from_events [tagged_contest] = Inr [(''p'', [''b''])]"
  "asserting_owners_from_events [tagged_contest, tagged_settle] = Inr []"
proof -
  have body: "claim_namespace [(''task_id'', JString ''t''), (''owner'', JString ''p/x'')] = Inr ''p''" by code_simp
  have task: "task_id_of tagged_contest = Inr ''t''" "task_id_of tagged_settle = Inr ''t''"
    by (simp_all add: task_id_of_def sample_tags get_or_def) (code_simp)+
  show "asserting_owners_from_events [tagged_contest] = Inr [(''p'', [''b''])]"
    by (simp add: asserting_owners_from_events_def task sample_tags claim_kinds_def body add_assertion_def hubs_for_def)
  show "asserting_owners_from_events [tagged_contest, tagged_settle] = Inr []"
    by (simp add: asserting_owners_from_events_def task sample_tags claim_kinds_def body add_assertion_def hubs_for_def)
qed

lemma sample_round1: "watch_reachable eight_bytes sample_ownership [''b''] sample_watch1"
proof -
  obtain fo wt where start: "new_follower (Some []) ''a'' = Inr fo" "new_watch fo (Some sample_ownership) [''b''] = Inr wt"
    and wt: "wt = \<lparr>wt_follower = fo, wt_ownership = Some sample_ownership, wt_peers = [''b''], wt_partitioned = [], wt_assertions = []\<rparr>"
    and fo: "fo = \<lparr>fo_events = [], fo_cursors = [], fo_quarantines = [], fo_polling = [], fo_journal = Some [], fo_observer = ''a''\<rparr>"
    using sample_start by blast
  obtain v where v: "fold_observed_state eight_bytes [tagged_contest] = Inr v" using sample_fold by blast
  have "poll_peers eight_bytes 5 sample_fetch [''b''] fo
      = (fo\<lparr>fo_events := [((''b'', 1), tagged_contest)],
           fo_cursors := hub_cursors (map snd ([((''b'', 1), tagged_contest)] :: bound_events))\<rparr>, Inr [])"
    by (rule poll_peer_accepts [where evs = "[contest_event]" and merged = "[tagged_contest]" and view = v])
      (simp_all add: fo follower_cursor_def sample_fetch_def tag_events_def sample_tags sample_remember sample_merge v sum_bind_def)
  then have polls: "poll_peers eight_bytes 5 sample_fetch (wt_peers wt) (wt_follower wt)
      = (sample_follower1\<lparr>fo_journal := Some []\<rparr>, Inr [])"
    by (simp add: fo wt hub_cursors_def raise_cursor_def sample_tags)
  have "poll_once eight_bytes 5 True sample_fetch wt = (sample_watch1, Round_Done [])"
    unfolding poll_once_def polls
    by (simp add: wt fo owner_of_namespace_def sample_asserting keep_suspicion_def publish_round_def ownership_transitions_def round_namespaces_def
        ownership_transition_def resolve_namespace_def sample_ownership_def hubs_for_def partition_row_def
        record_multihub_ownership_transitions_def)
  then show ?thesis by (rule watch_reachable.round [OF watch_reachable.first_start [OF start]])
qed

lemma sample_round2: "\<exists>wt. poll_once eight_bytes 6 True sample_fetch sample_watch1 = (wt, Round_Done []) \<and> wt_partitioned wt = []"
proof -
  obtain v where v: "fold_observed_state eight_bytes [tagged_contest, tagged_settle] = Inr v" using sample_fold by blast
  let ?cand = "[((''b'', 1), tagged_contest), ((''b'', 2), tagged_settle)] :: bound_events"
  have polls: "poll_peers eight_bytes 6 sample_fetch (wt_peers sample_watch1) (wt_follower sample_watch1)
      = (sample_follower1\<lparr>fo_events := ?cand, fo_cursors := hub_cursors (map snd ?cand)\<rparr>, Inr [])"
    unfolding hub_watch.select_convs
    by (rule poll_peer_accepts [where evs = "[settle_event]" and merged = "[tagged_contest, tagged_settle]" and view = v])
      (simp_all add: follower_cursor_def sample_fetch_def tag_events_def sample_tags sample_remember sample_merge v sum_bind_def)
  show ?thesis
    unfolding poll_once_def polls
    by (simp add: sample_asserting keep_suspicion_def publish_round_def ownership_transitions_def round_namespaces_def
        ownership_transition_def resolve_namespace_def sample_ownership_def hubs_for_def retained_peers_def
        record_multihub_ownership_transitions_def follower_cursor_def hub_cursors_def raise_cursor_def sample_tags)
qed

section \<open>The guarantees\<close>

text \<open>
  C33: Over every life of a watch with clean names, in which the ownership map and the watched peers
  stay the same from life to life (rounds with any fetches, answers, absorbed failures, append
  failures and rounds that an escaping error cuts short, restarts, recoveries), the journal restores
  exactly the partitions it holds, and a namespace is held partitioned exactly while the resolver
  given the published feed answers PARTITIONED, with the same contestants: a restart refuses every
  namespace the hub refused before it.
\<close>

theorem watch_partitions_durable:
  assumes "watch_reachable pk own peers wt" and "clean_ownership own" and "list_all clean_name peers"
  shows "\<exists>rows p. fo_journal (wt_follower wt) = Some rows \<and> restore_active_multihub_partitions rows = Inr p
    \<and> (\<forall>ns. dget p ns = dget (wt_partitioned wt) ns
        \<and> dget p ns =
          (let d = resolve_namespace own ns (observed_asserting_hubs wt ns)
           in if od_outcome d = PARTITIONED then Some (od_contesting d) else None))"
proof -
  have ok: "watch_ok own wt" using watch_reachable_ok [OF assms] by blast
  obtain rows p where p: "fo_journal (wt_follower wt) = Some rows"
    "restore_partition_rows (filter (\<lambda>r. fr_kind r \<in> set partition_kinds) rows) [] = Inr p"
    "\<forall>ns. dget p ns = dget (wt_partitioned wt) ns"
    using ok unfolding watch_ok_def restores_to_def by blast
  have "contest_of own (sort hs) ns = contest_of own hs ns" for hs ns
    by (simp add: contest_of_eq filter_sort Let_def sorted_sort_id split: option.split)
  then show ?thesis using p watch_okD(4) [OF ok]
    by (intro exI [of _ rows] exI [of _ p])
      (simp add: restore_active_multihub_partitions_def observed_asserting_hubs_def flip: contest_of_def)
qed

theorem watch_partitions_durable_witness:
  "\<exists>wt rows p. watch_reachable eight_bytes sample_ownership [''b''] wt \<and> fo_journal (wt_follower wt) = Some rows
     \<and> restore_active_multihub_partitions rows = Inr p \<and> dget p ''p'' = Some [''b'']
     \<and> od_outcome (resolve_namespace sample_ownership ''p'' (observed_asserting_hubs wt ''p'')) = PARTITIONED"
proof -
  obtain rows p where "fo_journal (wt_follower sample_watch1) = Some rows" "restore_active_multihub_partitions rows = Inr p"
    and p: "dget p ''p'' = dget (wt_partitioned sample_watch1) ''p''"
      "dget p ''p'' = (let d = resolve_namespace sample_ownership ''p'' (observed_asserting_hubs sample_watch1 ''p'')
           in if od_outcome d = PARTITIONED then Some (od_contesting d) else None)"
    using watch_partitions_durable [OF sample_round1 sample_clean] by blast
  moreover from p have "dget p ''p'' = Some [''b'']"
    "od_outcome (resolve_namespace sample_ownership ''p'' (observed_asserting_hubs sample_watch1 ''p'')) = PARTITIONED"
    by (auto simp: Let_def split: if_splits)
  ultimately show ?thesis using sample_round1 by blast
qed

text \<open>
  No silence heals: a contestant that a round drops from a held partition is a watched peer that
  answered in that round, whose accepted history is not empty, and whose claims, as the published
  feed folds them, no longer assert the namespace.
\<close>

theorem heal_needs_answer:
  assumes reach: "watch_reachable pk own peers wt" and own: "clean_ownership own" "list_all clean_name peers"
    and run: "poll_once pk now append_ok fetch wt = (wt', Round_Done failed)"
    and before: "dget (wt_partitioned wt) ns = Some hs" and h: "h \<in> set hs" "\<forall>hs'. dget (wt_partitioned wt') ns = Some hs' \<longrightarrow> h \<notin> set hs'"
  shows "h \<in> set peers \<and> h \<notin> set failed \<and> follower_cursor h (wt_follower wt') \<noteq> 0
    \<and> (\<forall>seen. asserting_owners_from_events (map snd (fo_events (wt_follower wt'))) = Inr seen \<longrightarrow> h \<notin> set (hubs_for seen ns))"
proof -
  have ok: "watch_ok own wt" "wt_peers wt = peers" using watch_reachable_ok [OF reach own] by blast+
  have held: "contest_of own (hubs_for (wt_assertions wt) ns) ns = Some hs" using watch_okD(4) [OF ok(1), of ns] before by simp
  obtain hub where hub: "dget (no_owners own) ns = Some hub"
    "hs = sort (filter (\<lambda>h. h \<noteq> hub \<and> h \<noteq> no_local own) (hubs_for (wt_assertions wt) ns))"
    using held by (auto simp: contest_of_eq Let_def split: option.splits if_splits)
  have member: "h \<in> set peers" "h \<noteq> hub" "h \<noteq> no_local own"
    using h(1) hubs_in_for [OF watch_okD(5) [OF ok(1)], of ns] ok(2) by (auto simp: hub(2))
  show ?thesis using run
  proof (cases rule: poll_once_cases)
    case (quiet fo polls)
    then show ?thesis using before h by simp
  next
    case (publish fo failed' seen)
    let ?a = "keep_suspicion (wt_peers wt) fo failed' (wt_partitioned wt) seen"
    obtain rows where rows: "fo_journal fo = Some rows"
      using poll_peers_frame [OF publish(1) order_refl] ok(1)
      unfolding watch_ok_def polls_frame_def by (auto split: option.splits)
    obtain new st where tr: "ownership_transitions own ?a (wt_partitioned wt) = (new, st)" by fastforce
    have after: "wt_partitioned wt' = st" "failed = failed'" "fo_events (wt_follower wt') = fo_events fo"
      "fo_cursors (wt_follower wt') = fo_cursors fo"
      using publish(3) watch_okD(1) [OF ok(1)] rows tr by (auto simp: publish_round_def split: if_splits)
    have st: "dget st ns = contest_of own (hubs_for ?a ns) ns"
      using transitions_exact [of own ?a "wt_partitioned wt" ns] by (simp add: tr)
    have "h \<notin> set (hubs_for ?a ns)"
    proof
      assume "h \<in> set (hubs_for ?a ns)"
      then have "filter (\<lambda>h. h \<noteq> hub \<and> h \<noteq> no_local own) (hubs_for ?a ns) \<noteq> []"
        "h \<in> set (filter (\<lambda>h. h \<noteq> hub \<and> h \<noteq> no_local own) (hubs_for ?a ns))"
        using member by (force simp: filter_empty_conv, simp)
      then show False using h(2) st after(1) hub(1)
        by (auto simp: contest_of_eq Let_def sort_empty split: if_splits)
    qed
    moreover have "hubs_for (wt_partitioned wt) ns = hs" by (simp add: hubs_for_def before)
    ultimately have "h \<notin> set (retained_peers (wt_peers wt) fo failed' hs)" "h \<notin> set (hubs_for seen ns)"
      using keep_suspicion_get [OF watch_okD(3) [OF ok(1)], of "wt_peers wt" fo failed' seen ns]
      by (simp_all add: fold_insert_props)
    then show ?thesis using member(1) h(1) ok(2) after publish(2)
      by (auto simp: retained_peers_def follower_cursor_def)
  qed
qed


theorem heal_needs_answer_witness:
  "\<exists>wt. poll_once eight_bytes 6 True sample_fetch sample_watch1 = (wt, Round_Done [])
     \<and> dget (wt_partitioned sample_watch1) ''p'' = Some [''b''] \<and> dget (wt_partitioned wt) ''p'' = None
     \<and> follower_cursor ''b'' (wt_follower wt) \<noteq> 0"
proof -
  obtain wt where wt: "poll_once eight_bytes 6 True sample_fetch sample_watch1 = (wt, Round_Done [])" "wt_partitioned wt = []"
    using sample_round2 by blast
  have "dget (wt_partitioned sample_watch1) ''p'' = Some [''b'']" by simp
  moreover from heal_needs_answer [OF sample_round1 sample_clean wt(1) this, of "''b''"] wt(2)
  have "follower_cursor ''b'' (wt_follower wt) \<noteq> 0" by simp
  ultimately show ?thesis using wt by auto
qed

text \<open>The persisted stand-in for unreadable contestants is no watched peer: any answer heals it.\<close>

definition unreadable_row :: federation_row where
  "unreadable_row = \<lparr>fr_kind = ''multihub_partition'', fr_ts = 1, fr_payload = [(''namespace'', JString ''p'')]\<rparr>"

text \<open>
  A journal whose partition row has no readable contestants restores the namespace as contested
  by the stand-in contester, and the first round in which any watched peer answers, even with an empty
  log, journals a heal and opens the namespace again.
\<close>

theorem unreadable_evidence_heals:
  "\<exists>fo wt wt'. new_follower (Some [unreadable_row]) ''a'' = Inr fo
     \<and> new_watch fo (Some sample_ownership) [''b''] = Inr wt
     \<and> od_outcome (resolve_namespace sample_ownership ''p'' (observed_asserting_hubs wt ''p'')) = PARTITIONED
     \<and> poll_once pk now True (\<lambda>peer cursor. Some []) wt = (wt', Round_Done [])
     \<and> od_outcome (resolve_namespace sample_ownership ''p'' (observed_asserting_hubs wt' ''p'')) = LOCAL"
proof -
  let ?c = UNVERIFIED_PARTITION_CONTESTER
  let ?fo = "\<lparr>fo_events = [], fo_cursors = [], fo_quarantines = [], fo_polling = [], fo_journal = Some [unreadable_row],
      fo_observer = ''a''\<rparr>"
  let ?wt = "\<lparr>wt_follower = ?fo, wt_ownership = Some sample_ownership, wt_peers = [''b''], wt_partitioned = [(''p'', [?c])],
      wt_assertions = [(''p'', [?c])]\<rparr>"
  have fo: "new_follower (Some [unreadable_row]) ''a'' = Inr ?fo"
    by (simp add: new_follower_def restore_active_multihub_quarantines_def unreadable_row_def quarantine_kinds_def)
  have strip: "py_strip ''p'' = ''p''" by code_simp
  have row: "restore_partition_row unreadable_row [] = Inr [(''p'', [?c])]"
    by (simp add: restore_partition_row_def unreadable_row_def get_field_def get_or_def str_or_empty_def strip)
  then have "restore_active_multihub_partitions [unreadable_row] = Inr [(''p'', [?c])]"
    by (simp add: restore_active_multihub_partitions_def unreadable_row_def partition_kinds_def sum_bind_def)
  then have wt: "new_watch ?fo (Some sample_ownership) [''b''] = Inr ?wt" by (simp add: new_watch_def)
  have fold: "\<exists>v. fold_observed_state pk [] = Inr v" by (simp add: fold_observed_state_def)
  have polls: "poll_peers pk now (\<lambda>peer cursor. Some []) (wt_peers ?wt) (wt_follower ?wt) = (?fo, Inr [])"
    using poll_peer_accepts [of ?fo "''b''" "\<lambda>peer cursor. Some []" "[]" pk "[]" "[]" _ now] fold
    by (auto simp: tag_events_def merge_event_logs_def hub_cursors_def)
  have seen: "asserting_owners_from_events [] = Inr []" by (simp add: asserting_owners_from_events_def)
  have other: "?c \<noteq> ''a''" "?c \<noteq> ''b''" by (simp_all add: UNVERIFIED_PARTITION_CONTESTER_def)
  then have held: "od_outcome (resolve_namespace sample_ownership ''p'' (observed_asserting_hubs ?wt ''p'')) = PARTITIONED"
    by (simp add: resolve_namespace_def sample_ownership_def observed_asserting_hubs_def hubs_for_def)
  have opened: "\<exists>wt'. poll_once pk now True (\<lambda>peer cursor. Some []) ?wt = (wt', Round_Done [])
      \<and> od_outcome (resolve_namespace sample_ownership ''p'' (observed_asserting_hubs wt' ''p'')) = LOCAL"
    unfolding poll_once_def polls using other
    by (simp add: seen keep_suspicion_def retained_peers_def publish_round_def ownership_transitions_def round_namespaces_def
        ownership_transition_def resolve_namespace_def sample_ownership_def observed_asserting_hubs_def hubs_for_def)
  show ?thesis using fo wt held opened by blast
qed

text \<open>
  One malformed event stops the watch.  A peer that answers with an event of no kind makes the
  fingerprint raise a plain \<open>ValueError\<close>, which the round does not absorb: it escapes, the peers
  after that one are not polled, whatever they hold, and the round publishes nothing.
\<close>

theorem malformed_event_stops_watch:
  "\<exists>fo wt. new_follower (Some []) ''a'' = Inr fo \<and> new_watch fo (Some sample_ownership) [''b'', ''c''] = Inr wt
     \<and> poll_once pk now append_ok
          (\<lambda>peer cursor. if peer = ''b'' then Some [contest_event\<lparr>ev_kind := []\<rparr>] else fetch peer cursor) wt
        = (wt, Round_Escaped (Integrity InvalidEvent))"
proof -
  let ?fo = "\<lparr>fo_events = [], fo_cursors = [], fo_quarantines = [], fo_polling = [], fo_journal = Some [], fo_observer = ''a''\<rparr>"
  let ?wt = "\<lparr>wt_follower = ?fo, wt_ownership = Some sample_ownership, wt_peers = [''b'', ''c''], wt_partitioned = [],
      wt_assertions = []\<rparr>"
  let ?ev = "from_stored ''b'' (contest_event\<lparr>ev_kind := []\<rparr>)"
  have "he_hub ?ev = ''b''" "he_seq ?ev = 1" "he_kind ?ev = []" "he_ts ?ev = Finite 1" "identity ?ev = (''b'', 1)"
    by (simp_all add: from_stored_def contest_event_def identity_def)
  then have "event_fingerprint pk ?ev = Inl InvalidEvent"
    by (simp add: event_fingerprint_def fingerprint_input_def sum_bind_def)
  then have bad: "validate_content_bound_batch pk ''b'' 0 1 (tag_events ''b'' [contest_event\<lparr>ev_kind := []\<rparr>]) [] = Inl InvalidEvent"
    using \<open>he_hub ?ev = ''b''\<close> \<open>he_seq ?ev = 1\<close> \<open>identity ?ev = (''b'', 1)\<close>
    by (simp add: tag_events_def remember_content_bound_event_def sum_bind_def)
  let ?fetch = "\<lambda>peer cursor. if peer = ''b'' then Some [contest_event\<lparr>ev_kind := []\<rparr>] else fetch peer cursor"
  have "poll_peer pk now ?fetch ''b'' ?fo = (?fo, Inl (Integrity InvalidEvent))"
    using bad by (simp add: poll_peer_def poll_begin_def follower_cursor_def poll_finish_def absorb_failure_def release_lock_def)
  then have "poll_peers pk now ?fetch (wt_peers ?wt) (wt_follower ?wt) = (?fo, Inl (Integrity InvalidEvent))" by simp
  then have "poll_once pk now append_ok ?fetch ?wt = (?wt, Round_Escaped (Integrity InvalidEvent))"
    unfolding poll_once_def by simp
  then show ?thesis
    by (simp add: new_follower_def new_watch_def restore_active_multihub_partitions_def restore_active_multihub_quarantines_def)
qed

end
