(* ===== verification/Claim_Forwarding.thy ===== *)
theory Claim_Forwarding
  imports Namespace_Ownership Leasing
begin

text \<open>
  Routing a claim to the hub that owns its namespace: the wire bodies of
  \<open>core/multihub_claim_wire.py\<close>, the gate of the hub the claimant is connected to
  (\<open>authorise_claim_ownership\<close> and \<open>forward_remote_claim\<close> of \<open>core/hub_frame_gates.py\<close>, \<open>forward_claim\<close>
  of \<open>core/multihub_claim_transport.py\<close>), and the owner's handler (\<open>core/handlers/multihub_claim.py\<close>).
  What the connection to the owner returns for an envelope is a parameter, as is the serving policy's
  decision on the peer; the signature of the envelope is not modelled.
\<close>

section \<open>The wire\<close>

datatype wire_error = Not_An_Object string | Not_A_String string | Blank_Field string | Not_A_Boolean string

record claim_forward_request =
  cfr_namespace :: string
  cfr_claimant :: string
  cfr_task_id :: string
  cfr_claim :: json_object

record claim_forward_result =
  cfs_granted :: bool
  cfs_task_id :: string
  cfs_namespace :: string
  cfs_owner_hub_id :: string
  cfs_detail :: string
  cfs_grant :: "json_object option"

fun require_mapping :: "json \<Rightarrow> string \<Rightarrow> wire_error + json_object" where
  "require_mapping (JObject d) name = Inr d"
| "require_mapping v name = Inl (Not_An_Object name)"

fun require_str :: "json \<Rightarrow> string \<Rightarrow> wire_error + string" where
  "require_str (JString s) name = Inr s"
| "require_str v name = Inl (Not_A_String name)"

definition require_nonempty :: "json \<Rightarrow> string \<Rightarrow> wire_error + string" where
  "require_nonempty v name =
     sum_bind (require_str v name) (\<lambda>s. if py_strip s = [] then Inl (Blank_Field name) else Inr s)"

fun require_bool :: "json \<Rightarrow> string \<Rightarrow> wire_error + bool" where
  "require_bool (JBool b) name = Inr b"
| "require_bool v name = Inl (Not_A_Boolean name)"

definition encode_claim_forward_request :: "claim_forward_request \<Rightarrow> wire_error + json_object" where
  "encode_claim_forward_request rq =
     sum_bind (require_nonempty (JString (cfr_namespace rq)) ''namespace'') (\<lambda>ns.
     sum_bind (require_nonempty (JString (cfr_claimant rq)) ''claimant'') (\<lambda>who.
     sum_bind (require_nonempty (JString (cfr_task_id rq)) ''task_id'') (\<lambda>task.
       Inr [(''namespace'', JString ns), (''claimant'', JString who), (''task_id'', JString task),
            (''claim'', JObject (cfr_claim rq))])))"

definition decode_claim_forward_request :: "json \<Rightarrow> wire_error + claim_forward_request" where
  "decode_claim_forward_request raw =
     sum_bind (require_mapping raw ''request'') (\<lambda>body.
     sum_bind (require_nonempty (get_field body ''namespace'') ''namespace'') (\<lambda>ns.
     sum_bind (require_nonempty (get_field body ''claimant'') ''claimant'') (\<lambda>who.
     sum_bind (require_nonempty (get_field body ''task_id'') ''task_id'') (\<lambda>task.
     sum_bind (require_mapping (get_field body ''claim'') ''claim'') (\<lambda>body'.
       Inr \<lparr>cfr_namespace = ns, cfr_claimant = who, cfr_task_id = task, cfr_claim = body'\<rparr>)))))"

definition encode_claim_forward_result :: "claim_forward_result \<Rightarrow> wire_error + json_object" where
  "encode_claim_forward_result r =
     sum_bind (require_nonempty (JString (cfs_task_id r)) ''task_id'') (\<lambda>task.
     sum_bind (require_nonempty (JString (cfs_namespace r)) ''namespace'') (\<lambda>ns.
     sum_bind (require_nonempty (JString (cfs_owner_hub_id r)) ''owner_hub_id'') (\<lambda>hub.
       Inr [(''granted'', JBool (cfs_granted r)), (''task_id'', JString task), (''namespace'', JString ns),
            (''owner_hub_id'', JString hub), (''detail'', JString (cfs_detail r)),
            (''grant'', (case cfs_grant r of None \<Rightarrow> JNull | Some g \<Rightarrow> JObject g))])))"

definition decode_claim_forward_result :: "json \<Rightarrow> wire_error + claim_forward_result" where
  "decode_claim_forward_result raw =
     sum_bind (require_mapping raw ''result'') (\<lambda>body.
     sum_bind (if get_field body ''grant'' = JNull then Inr None
               else sum_bind (require_mapping (get_field body ''grant'') ''grant'') (\<lambda>g. Inr (Some g))) (\<lambda>grant.
     sum_bind (if get_field body ''detail'' = JNull then Inr []
               else require_str (get_field body ''detail'') ''detail'') (\<lambda>detail.
     sum_bind (require_bool (get_field body ''granted'') ''granted'') (\<lambda>granted.
     sum_bind (require_nonempty (get_field body ''task_id'') ''task_id'') (\<lambda>task.
     sum_bind (require_nonempty (get_field body ''namespace'') ''namespace'') (\<lambda>ns.
     sum_bind (require_nonempty (get_field body ''owner_hub_id'') ''owner_hub_id'') (\<lambda>hub.
       Inr \<lparr>cfs_granted = granted, cfs_task_id = task, cfs_namespace = ns, cfs_owner_hub_id = hub,
            cfs_detail = detail, cfs_grant = grant\<rparr>)))))))"

section \<open>The owning hub\<close>

text \<open>\<open>repr\<close> of a string of code points below 256.\<close>

definition repr_char :: "char \<Rightarrow> char \<Rightarrow> string" where
  "repr_char q c =
     (if c = q \<or> c = CHR 0x5C then [CHR 0x5C, c]
      else if c = CHR 0x0A then [CHR 0x5C, CHR ''n'']
      else if c = CHR 0x0D then [CHR 0x5C, CHR ''r'']
      else if c = CHR 0x09 then [CHR 0x5C, CHR ''t'']
      else if py_char_printable c then [c]
      else [CHR 0x5C, CHR ''x''] @ hex_of [of_nat (of_char c)])"

definition py_repr :: "string \<Rightarrow> string" where
  "py_repr s =
     (let q = (if CHR 0x27 \<in> set s \<and> CHR 0x22 \<notin> set s then CHR 0x22 else CHR 0x27)
      in q # concat (map (repr_char q) s) @ [q])"

text \<open>The context of the handler; \<open>oh_allowed\<close> is what the serving policy says of a peer.\<close>

record owner_hub =
  oh_env :: hub_env
  oh_max_paths :: int
  oh_ownership :: "namespace_ownership option"
  oh_corrupt_rows :: bool
  oh_allowed :: "string \<Rightarrow> bool"
  oh_presence :: holder_presence
  oh_online :: "string list"
  oh_clock :: time

definition owns_namespace :: "owner_hub \<Rightarrow> string \<Rightarrow> bool" where
  "owns_namespace hub ns =
     (case oh_ownership hub of None \<Rightarrow> False | Some own \<Rightarrow> grants_locally (resolve_namespace own ns []))"

definition forward_answer :: "owner_hub \<Rightarrow> claim_forward_request \<Rightarrow> string \<Rightarrow> json_object option \<Rightarrow> claim_forward_result" where
  "forward_answer hub rq detail grant =
     \<lparr>cfs_granted = (grant \<noteq> None), cfs_task_id = cfr_task_id rq, cfs_namespace = cfr_namespace rq,
      cfs_owner_hub_id = env_hub_id (oh_env hub), cfs_detail = detail, cfs_grant = grant\<rparr>"

definition refuse_forwarded :: "owner_hub \<Rightarrow> string \<Rightarrow> claim_forward_request \<Rightarrow> claim_forward_result option" where
  "refuse_forwarded hub peer rq =
     (if \<not> oh_allowed hub peer then Some (forward_answer hub rq ''peer not authorised to forward claims'' None)
      else if oh_corrupt_rows hub then Some (forward_answer hub rq ''durable journal recovery is required'' None)
      else if \<not> owns_namespace hub (cfr_namespace rq)
      then Some (forward_answer hub rq (''this hub does not own namespace '' @ py_repr (cfr_namespace rq)) None)
      else None)"

definition duplicate_forwarded_claim :: "time \<Rightarrow> claim_forward_request \<Rightarrow> synapse_state \<Rightarrow> task_claim option" where
  "duplicate_forwarded_claim now rq s =
     (case dget (claims s) (cfr_task_id rq) of
        None \<Rightarrow> None
      | Some c \<Rightarrow> (if owner c \<noteq> cfr_claimant rq \<or> lease_expires_at c \<le> now then None else Some c))"

datatype forward_admission = Malformed_Request | Answered claim_forward_result | Admitted claim_forward_request

definition admit_forwarded :: "owner_hub \<Rightarrow> string \<Rightarrow> json_object \<Rightarrow> synapse_state \<Rightarrow> forward_admission" where
  "admit_forwarded hub peer data s =
     (case decode_claim_forward_request (JObject data) of
        Inl e \<Rightarrow> Malformed_Request
      | Inr rq \<Rightarrow>
          (case refuse_forwarded hub peer rq of
             Some r \<Rightarrow> Answered r
           | None \<Rightarrow>
               (case duplicate_forwarded_claim (env_now (oh_env hub)) rq s of
                  Some c \<Rightarrow> Answered (forward_answer hub rq
                    (''Task '' @ quoted (cfr_task_id rq) @ '' already claimed by '' @ cfr_claimant rq @ ''.'')
                    (Some (claim_grant_fields c)))
                | None \<Rightarrow> Admitted rq)))"

definition forwarded_claim :: "owner_hub \<Rightarrow> string \<Rightarrow> claim_forward_request \<Rightarrow> journal_error + lease_request" where
  "forwarded_claim hub peer rq =
     apply_claim_async (oh_env hub) (oh_max_paths hub) (cfr_claimant rq) (Some (''federation-peer:'' @ peer)) (cfr_claim rq)"

definition forwarded_answer :: "owner_hub \<Rightarrow> claim_forward_request \<Rightarrow> claim_application \<Rightarrow> sent list \<times> claim_forward_result" where
  "forwarded_answer hub rq app =
     (case ca_claim app of
        Some c \<Rightarrow>
          ([Broadcast (system_message (oh_env hub) (ca_message app) ''claim_granted'' ''all'' (claim_grant_fields c))],
           forward_answer hub rq (ca_message app) (Some (claim_grant_fields c)))
      | None \<Rightarrow> ([], forward_answer hub rq (ca_message app) None))"

definition forward_result_frame :: "owner_hub \<Rightarrow> string \<Rightarrow> claim_forward_result \<Rightarrow> wire_error + json_object" where
  "forward_result_frame hub peer r =
     sum_bind (encode_claim_forward_result r) (\<lambda>body.
       Inr (system_message (oh_env hub) ''Multi-hub claim result'' ''multihub_claim_result'' peer body))"

text \<open>
  The handler when no other mutation comes between its awaits and the store commits its appends: the registry, the views of the hub,
  the rows it journals and what it sends; the announcements of the sweep of abandoned claims are left
  out.  Its requests go through the actor one by one.
\<close>

definition sweep_abandoned :: "owner_hub \<Rightarrow> synapse_state \<Rightarrow> synapse_state \<times> (string \<times> json_object) list" where
  "sweep_abandoned hub s =
     (if abandoned_claims (claims s) (oh_presence hub) (oh_online hub) (oh_clock hub) = [] then (s, [])
      else (let rq = abandoned_verb (oh_presence hub) (oh_online hub) (oh_clock hub);
                (s', r) = rq_mutate rq s
            in (s', rq_persist rq r)))"

record served =
  sv_state :: synapse_state
  sv_views :: hub_views
  sv_rows :: "(string \<times> json_object) list"
  sv_sent :: "sent list"

definition send_result :: "owner_hub \<Rightarrow> string \<Rightarrow> claim_forward_result \<Rightarrow> served \<Rightarrow> journal_error + served" where
  "send_result hub peer r sv =
     (case forward_result_frame hub peer r of
        Inl e \<Rightarrow> Inl MalformedPayload
      | Inr frame' \<Rightarrow> Inr (sv\<lparr>sv_sent := sv_sent sv @ [Reply_To_Sender frame']\<rparr>))"

definition decide_forwarded ::
  "owner_hub \<Rightarrow> string \<Rightarrow> claim_forward_request \<Rightarrow> synapse_state \<Rightarrow> hub_views \<Rightarrow> journal_error + served" where
  "decide_forwarded hub peer rq s hv =
     sum_bind (forwarded_claim hub peer rq) (\<lambda>req.
       let (s1, rows) = sweep_abandoned hub s; (s2, r) = rq_mutate req s1
       in (case r of
             ClaimResult app \<Rightarrow>
               (let hv1 = publish_lease ClaimVerb (cfr_claimant rq) [] [] (claims s2) None r hv;
                    (announced, answer) = forwarded_answer hub rq app
                in send_result hub peer answer
                     \<lparr>sv_state = s2,
                      sv_views = (if ca_claim app = None then hv1 else hv1\<lparr>hv_claims_granted := hv_claims_granted hv1 + 1\<rparr>),
                      sv_rows = rows @ rq_persist req r, sv_sent = announced\<rparr>)
           | _ \<Rightarrow> Inl OutsideModel))"

definition handle_multihub_claim_request ::
  "owner_hub \<Rightarrow> string \<Rightarrow> json_object \<Rightarrow> synapse_state \<Rightarrow> hub_views \<Rightarrow> journal_error + served" where
  "handle_multihub_claim_request hub peer data s hv =
     (case admit_forwarded hub peer data s of
        Malformed_Request \<Rightarrow>
          Inr \<lparr>sv_state = s, sv_views = hv, sv_rows = [],
               sv_sent = [Reply_To_Sender (system_message (oh_env hub) ''Malformed multi-hub claim request'' ''error'' peer [])]\<rparr>
      | Answered r \<Rightarrow> send_result hub peer r \<lparr>sv_state = s, sv_views = hv, sv_rows = [], sv_sent = []\<rparr>
      | Admitted rq \<Rightarrow> decide_forwarded hub peer rq s hv)"

section \<open>The forwarding hub\<close>

record claim_peer =
  cp_uri :: string
  cp_token :: "string option"

text \<open>What arrives on the connection for an envelope, and whether the wait then runs out of time.\<close>

type_synonym exchange = "claim_peer \<Rightarrow> json_object \<Rightarrow> json list \<times> bool"

datatype forward_outcome =
  Forwarded claim_forward_result | Forward_Timeout | Forward_Failed | Wire_Escaped wire_error

fun await_result :: "json list \<Rightarrow> bool \<Rightarrow> forward_outcome" where
  "await_result [] late = (if late then Forward_Timeout else Forward_Failed)"
| "await_result (JObject d # fs) late =
     (if get_field d ''type'' = JString ''multihub_claim_result''
      then (case decode_claim_forward_result (JObject d) of Inl e \<Rightarrow> Forward_Failed | Inr r \<Rightarrow> Forwarded r)
      else if get_field d ''type'' = JString ''error'' then Forward_Failed
      else await_result fs late)"
| "await_result (f # fs) late = Forward_Failed"

definition forward_envelope :: "string \<Rightarrow> time \<Rightarrow> string option \<Rightarrow> json_object \<Rightarrow> json_object" where
  "forward_envelope local_id now token body =
     fold (\<lambda>(k, v). dset k v) (body @ (case token of None \<Rightarrow> [] | Some t \<Rightarrow> [(''token'', JString t)]))
       [(''sender'', JString local_id), (''target'', JString ''all''), (''type'', JString ''multihub_claim_request''),
        (''payload'', JString []), (''timestamp'', JFloat (Finite now))]"

definition forward_claim :: "exchange \<Rightarrow> string \<Rightarrow> time \<Rightarrow> claim_peer \<Rightarrow> claim_forward_request \<Rightarrow> forward_outcome" where
  "forward_claim exchange local_id now peer rq =
     (case encode_claim_forward_request rq of
        Inl e \<Rightarrow> Wire_Escaped e
      | Inr body \<Rightarrow> (case exchange peer (forward_envelope local_id now (cp_token peer) body) of
                       (frames, late) \<Rightarrow> await_result frames late))"

record claim_gate =
  cg_env :: hub_env
  cg_ownership :: "namespace_ownership option"
  cg_feed :: "(string \<Rightarrow> string list) option"
  cg_peers :: "(string, claim_peer) pydict"

record forward_counters =
  fc_forwarded :: int
  fc_timeouts :: int
  fc_granted :: int
  fc_denied :: int

definition gate_asserting_hubs :: "claim_gate \<Rightarrow> string \<Rightarrow> string list" where
  "gate_asserting_hubs gate ns = (case cg_feed gate of None \<Rightarrow> [] | Some feed \<Rightarrow> feed ns)"

text \<open>
  The fields of a grant are keyword arguments of the message: some names raise a \<open>TypeError\<close>, and
  \<open>now\<close> would set its time.
\<close>

definition grant_clash :: "string list" where
  "grant_clash = [''self'', ''payload'', ''hub_id'', ''msg_type'', ''target'']"

definition relay_verdict ::
  "claim_gate \<Rightarrow> string \<Rightarrow> string \<Rightarrow> string \<Rightarrow> string \<Rightarrow> claim_forward_result \<Rightarrow> forward_counters
   \<Rightarrow> journal_error + forward_counters \<times> json_object" where
  "relay_verdict gate sender ns task owner_hub r fc =
     (case (cfs_granted r, cfs_grant r) of
        (True, Some g) \<Rightarrow>
          (if list_ex (\<lambda>(k, v). k \<in> set grant_clash) g then Inl MalformedPayload
           else if list_ex (\<lambda>(k, v). k = ''now'') g then Inl OutsideModel
           else Inr (fc\<lparr>fc_granted := fc_granted fc + 1\<rparr>,
             system_message (cg_env gate) (if cfs_detail r = [] then ''claim granted by '' @ owner_hub else cfs_detail r)
               ''claim_granted'' sender g))
      | _ \<Rightarrow>
          Inr (fc\<lparr>fc_denied := fc_denied fc + 1\<rparr>,
            system_message (cg_env gate) (if cfs_detail r = [] then ''claim refused by the owning hub'' else cfs_detail r)
              ''claim_denied'' sender
              [(''task_id'', JString task), (''namespace'', JString ns), (''owner_hub_id'', JString owner_hub)]))"

text \<open>The frame sent when the claim was forwarded, \<open>None\<close> when the caller has to refuse it.\<close>

definition forward_remote_claim ::
  "exchange \<Rightarrow> claim_gate \<Rightarrow> string \<Rightarrow> string \<Rightarrow> string \<Rightarrow> json_object \<Rightarrow> string \<Rightarrow> forward_counters
   \<Rightarrow> journal_error + forward_counters \<times> json_object option" where
  "forward_remote_claim exchange gate sender ns task data owner_hub fc =
     (case dget (cg_peers gate) owner_hub of
        None \<Rightarrow> Inr (fc, None)
      | Some peer \<Rightarrow>
          (if task = [] then Inr (fc, None)
           else
             (let fc1 = fc\<lparr>fc_forwarded := fc_forwarded fc + 1\<rparr>;
                  rq = \<lparr>cfr_namespace = ns, cfr_claimant = sender, cfr_task_id = task, cfr_claim = data\<rparr>
              in (case forward_claim exchange (env_hub_id (cg_env gate)) (env_now (cg_env gate)) peer rq of
                    Wire_Escaped e \<Rightarrow> Inl MalformedPayload
                  | Forward_Timeout \<Rightarrow>
                      Inr (fc1\<lparr>fc_timeouts := fc_timeouts fc1 + 1\<rparr>,
                        Some (system_message (cg_env gate)
                          (''claim refused: owning hub '' @ py_repr owner_hub @ '' did not answer forwarded claim ''
                            @ py_repr task @ '' before timeout'') ''claim_denied'' sender
                          [(''task_id'', JString task), (''namespace'', JString ns), (''owner_hub_id'', JString owner_hub),
                           (''ownership'', JString ''remote''), (''forward_error'', JString ''timeout'')]))
                  | Forward_Failed \<Rightarrow> Inr (fc1, None)
                  | Forwarded r \<Rightarrow>
                      sum_bind (relay_verdict gate sender ns task owner_hub r fc1) (\<lambda>(fc2, frame'). Inr (fc2, Some frame'))))))"

definition owner_or_null :: "string option \<Rightarrow> json" where
  "owner_or_null h = (case h of None \<Rightarrow> JNull | Some x \<Rightarrow> JString x)"

text \<open>The gate: \<open>None\<close> lets the claim go on to the local handler, a frame stops it.\<close>

definition refuse_unowned :: "claim_gate \<Rightarrow> string \<Rightarrow> string \<Rightarrow> ownership_decision \<Rightarrow> json_object" where
  "refuse_unowned gate sender task d =
     system_message (cg_env gate)
       (''claim refused: this hub does not own namespace '' @ py_repr (od_namespace d) @ '' (''
         @ outcome_text (od_outcome d) @ '')'') ''claim_denied'' sender
       [(''task_id'', JString task), (''namespace'', JString (od_namespace d)),
        (''ownership'', JString (outcome_text (od_outcome d))), (''owner_hub_id'', owner_or_null (od_owner_hub d))]"

definition refuse_supervised :: "claim_gate \<Rightarrow> string \<Rightarrow> string \<Rightarrow> ownership_decision \<Rightarrow> json_object \<Rightarrow> journal_error + json_object" where
  "refuse_supervised gate sender task d data =
     sum_bind (text_field data ''renewal_id'') (\<lambda>renewal.
     sum_bind (text_field data ''idem_key'') (\<lambda>key.
       Inr (system_message (cg_env gate) ''Supervised leases require a direct connection to the owning hub.'' ''claim_denied'' sender
         [(''task_id'', JString task), (''owner_hub_id'', owner_or_null (od_owner_hub d)),
          (''reason_code'', JString ''RENEWAL_REQUIRES_OWNER_HUB''), (''renewal_id'', JString renewal),
          (''claim_request_id'', JString key)])))"

definition authorise_claim_ownership ::
  "exchange \<Rightarrow> claim_gate \<Rightarrow> string \<Rightarrow> string \<Rightarrow> json_object \<Rightarrow> forward_counters
   \<Rightarrow> journal_error + forward_counters \<times> json_object option" where
  "authorise_claim_ownership exchange gate sender msg_type data fc =
     (case cg_ownership gate of
        None \<Rightarrow> Inr (fc, None)
      | Some own \<Rightarrow>
          (let ns = project_of sender; d = resolve_namespace own ns (gate_asserting_hubs gate ns) in
           if msg_type \<noteq> ''claim'' \<or> grants_locally d then Inr (fc, None)
           else
             sum_bind (first_text data [''task_id'', ''payload'']) (\<lambda>raw.
               let task = py_strip raw in
               if json_truthy (get_field data ''local_renewal'') \<or> dget data ''renew_epoch'' \<noteq> None
               then sum_bind (refuse_supervised gate sender task d data) (\<lambda>f. Inr (fc, Some f))
               else
                 sum_bind (if od_outcome d = REMOTE
                           then forward_remote_claim exchange gate sender ns task data
                             (case od_owner_hub d of None \<Rightarrow> [] | Some h \<Rightarrow> h) fc
                           else Inr (fc, None)) (\<lambda>(fc1, sent').
                   case sent' of
                     Some f \<Rightarrow> Inr (fc1, Some f)
                   | None \<Rightarrow> Inr (fc1, Some (refuse_unowned gate sender task d))))))"

end
