(* ===== verification/Forwarding_Properties.thy ===== *)
theory Forwarding_Properties
  imports Claim_Forwarding Leasing_Properties
begin

text \<open>
  What a forwarded claim is: the bodies survive the wire, a claim that goes through the owner's
  handler is the claim the owner would make itself under the peer's quota, at most one hub grants
  the claims of a namespace; and two ways the route is weaker than a direct connection.
\<close>

section \<open>Frames\<close>

lemma dget_fold_dset:
  "distinct (map fst ex) \<Longrightarrow>
   dget (fold (\<lambda>(k, v). dset k v) ex d) k = (case dget ex k of Some v \<Rightarrow> Some v | None \<Rightarrow> dget d k)"
proof (induction ex arbitrary: d)
  case (Cons e ex)
  obtain j v where e: "e = (j, v)" by fastforce
  have "dget ex j = None" using Cons.prems by (auto simp: e map_of_eq_None_iff)
  then show ?case using Cons.IH [of "dset j v d"] Cons.prems by (auto simp: e split: option.splits)
qed simp

lemma system_message_extra:
  "distinct (map fst ex) \<Longrightarrow> dget ex k = Some v \<Longrightarrow> dget (system_message env text mt target ex) k = Some v"
  by (simp add: system_message_def dget_fold_dset)

lemma system_message_type:
  "distinct (map fst ex) \<Longrightarrow> dget ex ''type'' = None \<Longrightarrow>
   dget (system_message env text mt target ex) ''type'' = Some (JString mt)"
  by (simp add: system_message_def dget_fold_dset)

lemma grant_field_names:
  "map fst (claim_grant_fields c) =
     [''task_id'', ''owner'', ''note'', ''lease_expires_at'', ''lease_duration_seconds'', ''status'', ''worktree'',
      ''paths'', ''epoch'', ''ownership_epoch'', ''version'', ''checkpoint'', ''git'']
     @ (if path_identity c = None then [] else [''path_identity''])"
  by (simp add: claim_grant_fields_def split: option.split)

lemma grant_fields_distinct: "distinct (map fst (claim_grant_fields c))"
  by (simp add: grant_field_names)

lemma grant_fields_safe: "\<not> list_ex (\<lambda>(k, v). k \<in> set grant_clash) (claim_grant_fields c)"
  "\<not> list_ex (\<lambda>(k, v). k = ''now'') (claim_grant_fields c)" "dget (claim_grant_fields c) ''type'' = None"
  by (simp_all add: claim_grant_fields_def grant_clash_def split: option.split)

section \<open>The wire\<close>

lemma require_nonempty_Inr: "require_nonempty v name = Inr s \<longleftrightarrow> v = JString s \<and> py_strip s \<noteq> []"
  by (cases v) (auto simp: require_nonempty_def sum_bind_def)

lemma encode_request_Inr:
  "encode_claim_forward_request rq = Inr body \<longleftrightarrow>
     py_strip (cfr_namespace rq) \<noteq> [] \<and> py_strip (cfr_claimant rq) \<noteq> [] \<and> py_strip (cfr_task_id rq) \<noteq> []
     \<and> body = [(''namespace'', JString (cfr_namespace rq)), (''claimant'', JString (cfr_claimant rq)),
               (''task_id'', JString (cfr_task_id rq)), (''claim'', JObject (cfr_claim rq))]"
  by (auto simp: encode_claim_forward_request_def sum_bind_Inr require_nonempty_Inr)

lemma encode_result_Inr:
  "encode_claim_forward_result r = Inr body \<longleftrightarrow>
     py_strip (cfs_task_id r) \<noteq> [] \<and> py_strip (cfs_namespace r) \<noteq> [] \<and> py_strip (cfs_owner_hub_id r) \<noteq> []
     \<and> body = [(''granted'', JBool (cfs_granted r)), (''task_id'', JString (cfs_task_id r)),
               (''namespace'', JString (cfs_namespace r)), (''owner_hub_id'', JString (cfs_owner_hub_id r)),
               (''detail'', JString (cfs_detail r)), (''grant'', (case cfs_grant r of None \<Rightarrow> JNull | Some g \<Rightarrow> JObject g))]"
  by (auto simp: encode_claim_forward_result_def sum_bind_Inr require_nonempty_Inr)

lemma decode_request_Inr:
  "decode_claim_forward_request (JObject d) = Inr rq \<longleftrightarrow>
     get_field d ''namespace'' = JString (cfr_namespace rq) \<and> py_strip (cfr_namespace rq) \<noteq> []
     \<and> get_field d ''claimant'' = JString (cfr_claimant rq) \<and> py_strip (cfr_claimant rq) \<noteq> []
     \<and> get_field d ''task_id'' = JString (cfr_task_id rq) \<and> py_strip (cfr_task_id rq) \<noteq> []
     \<and> get_field d ''claim'' = JObject (cfr_claim rq)"
proof -
  have obj: "require_mapping v name = Inr b \<longleftrightarrow> v = JObject b" for v name b by (cases v) auto
  show ?thesis
    by (cases rq) (auto simp: decode_claim_forward_request_def sum_bind_Inr require_nonempty_Inr obj)
qed

lemma decode_result_encoded:
  assumes "encode_claim_forward_result r = Inr body" and "\<And>k v. dget body k = Some v \<Longrightarrow> dget d k = Some v"
  shows "decode_claim_forward_result (JObject d) = Inr r"
proof -
  have f: "get_field d k = v" if "dget body k = Some v" for k v
    using assms(2) that by (simp add: get_field_def get_or_def)
  have b: "py_strip (cfs_task_id r) \<noteq> []" "py_strip (cfs_namespace r) \<noteq> []" "py_strip (cfs_owner_hub_id r) \<noteq> []"
    and body: "body = [(''granted'', JBool (cfs_granted r)), (''task_id'', JString (cfs_task_id r)),
               (''namespace'', JString (cfs_namespace r)), (''owner_hub_id'', JString (cfs_owner_hub_id r)),
               (''detail'', JString (cfs_detail r)), (''grant'', (case cfs_grant r of None \<Rightarrow> JNull | Some g \<Rightarrow> JObject g))]"
    using assms(1) by (simp_all add: encode_result_Inr)
  have "get_field d ''granted'' = JBool (cfs_granted r)" "get_field d ''task_id'' = JString (cfs_task_id r)"
    "get_field d ''namespace'' = JString (cfs_namespace r)" "get_field d ''owner_hub_id'' = JString (cfs_owner_hub_id r)"
    "get_field d ''detail'' = JString (cfs_detail r)"
    "get_field d ''grant'' = (case cfs_grant r of None \<Rightarrow> JNull | Some g \<Rightarrow> JObject g)"
    by (rule f, simp add: body)+
  then show ?thesis using b
    by (cases "cfs_grant r") (simp_all add: decode_claim_forward_result_def sum_bind_def require_nonempty_def)
qed

lemma envelope_fields:
  assumes "encode_claim_forward_request rq = Inr body" and "dget body k = Some v"
  shows "dget (forward_envelope local_id now token body) k = Some v"
proof -
  have "distinct (map fst (body @ (case token of None \<Rightarrow> [] | Some t \<Rightarrow> [(''token'', JString t)])))"
    using assms(1) by (auto simp: encode_request_Inr split: option.split)
  then show ?thesis using assms(2) by (simp add: forward_envelope_def dget_fold_dset del: fold_append)
qed

lemma envelope_decodes:
  assumes "encode_claim_forward_request rq = Inr body"
  shows "decode_claim_forward_request (JObject (forward_envelope local_id now token body)) = Inr rq"
proof -
  have f: "get_field (forward_envelope local_id now token body) k = v" if "dget body k = Some v" for k v
    using envelope_fields [OF assms that] by (simp add: get_field_def get_or_def)
  have b: "body = [(''namespace'', JString (cfr_namespace rq)), (''claimant'', JString (cfr_claimant rq)),
               (''task_id'', JString (cfr_task_id rq)), (''claim'', JObject (cfr_claim rq))]"
    using assms by (simp add: encode_request_Inr)
  show ?thesis unfolding decode_request_Inr
    using assms f [of "''namespace''"] f [of "''claimant''"] f [of "''task_id''"] f [of "''claim''"]
    by (simp add: encode_request_Inr b)
qed

lemma result_frame_decodes:
  assumes "forward_result_frame hub peer r = Inr reply"
  shows "decode_claim_forward_result (JObject reply) = Inr r" and "get_field reply ''type'' = JString ''multihub_claim_result''"
proof -
  obtain body where body: "encode_claim_forward_result r = Inr body"
    and reply: "reply = system_message (oh_env hub) ''Multi-hub claim result'' ''multihub_claim_result'' peer body"
    using assms by (auto simp: forward_result_frame_def sum_bind_Inr)
  have d: "distinct (map fst body)" "dget body ''type'' = None" using body by (auto simp: encode_result_Inr)
  show "decode_claim_forward_result (JObject reply) = Inr r"
    by (rule decode_result_encoded [OF body]) (simp add: reply system_message_extra [OF d(1)])
  show "get_field reply ''type'' = JString ''multihub_claim_result''"
    using system_message_type [OF d] by (simp add: reply get_field_def get_or_def)
qed

text \<open>
  The bodies of a forwarded claim survive the wire: the envelope a hub sends decodes to the
  request it was built of, the result frame the owner sends decodes to the result, whatever the other
  fields of the frames are, and every body a decoder accepts is one its encoder writes.
\<close>

theorem claim_bodies_round_trip:
  "(\<forall>rq body. encode_claim_forward_request rq = Inr body \<longrightarrow>
      decode_claim_forward_request (JObject (forward_envelope local_id now token body)) = Inr rq)
   \<and> (\<forall>r reply. forward_result_frame hub peer r = Inr reply \<longrightarrow> decode_claim_forward_result (JObject reply) = Inr r)
   \<and> (\<forall>d rq. decode_claim_forward_request (JObject d) = Inr rq \<longrightarrow>
        (\<exists>body. encode_claim_forward_request rq = Inr body \<and> (\<forall>k v. dget body k = Some v \<longrightarrow> get_field d k = v)))
   \<and> (\<forall>d r. decode_claim_forward_result (JObject d) = Inr r \<longrightarrow> (\<exists>body. encode_claim_forward_result r = Inr body))"
proof (intro conjI allI impI)
  show "decode_claim_forward_request (JObject (forward_envelope local_id now token body)) = Inr rq"
    if "encode_claim_forward_request rq = Inr body" for rq body by (rule envelope_decodes [OF that])
  show "decode_claim_forward_result (JObject reply) = Inr r" if "forward_result_frame hub peer r = Inr reply" for r reply
    by (rule result_frame_decodes [OF that])
  show "\<exists>body. encode_claim_forward_request rq = Inr body \<and> (\<forall>k v. dget body k = Some v \<longrightarrow> get_field d k = v)"
    if "decode_claim_forward_request (JObject d) = Inr rq" for d rq
    using that unfolding decode_request_Inr by (auto simp: encode_request_Inr split: if_splits)
  show "\<exists>body. encode_claim_forward_result r = Inr body" if "decode_claim_forward_result (JObject d) = Inr r" for d r
    using that by (auto simp: decode_claim_forward_result_def sum_bind_Inr require_nonempty_Inr encode_result_Inr)
qed


theorem claim_bodies_round_trip_witness:
  "\<exists>body. encode_claim_forward_request \<lparr>cfr_namespace = ''p'', cfr_claimant = ''p/x'', cfr_task_id = ''T'', cfr_claim = claim_frame_T\<rparr>
       = Inr body
     \<and> decode_claim_forward_request (JObject (forward_envelope ''b'' 1 (Some ''t'') body))
       = Inr \<lparr>cfr_namespace = ''p'', cfr_claimant = ''p/x'', cfr_task_id = ''T'', cfr_claim = claim_frame_T\<rparr>"
proof -
  have strips: "py_strip ''p'' \<noteq> []" "py_strip ''p/x'' \<noteq> []" "py_strip ''T'' \<noteq> []" by code_simp+
  then obtain body where "encode_claim_forward_request
      \<lparr>cfr_namespace = ''p'', cfr_claimant = ''p/x'', cfr_task_id = ''T'', cfr_claim = claim_frame_T\<rparr> = Inr body"
    by (simp add: encode_request_Inr)
  then show ?thesis using claim_bodies_round_trip [of "''b''" 1 "Some ''t''"] by blast
qed

section \<open>Through the owner\<close>

text \<open>
  A connection that ends in the owner's handler: the envelope is handled, its replies come back over
  the wire.  The state the handler leaves stays with the owner, and the theorems name it.
\<close>

definition sender_of :: "json_object \<Rightarrow> string" where
  "sender_of env = (case get_field env ''sender'' of JString x \<Rightarrow> x | _ \<Rightarrow> [])"

definition replies :: "sent list \<Rightarrow> json list" where
  "replies xs = List.map_filter (\<lambda>x. case x of Reply_To_Sender f \<Rightarrow> Some (JObject f) | Broadcast f \<Rightarrow> None) xs"

definition owner_exchange :: "owner_hub \<Rightarrow> synapse_state \<Rightarrow> hub_views \<Rightarrow> exchange" where
  "owner_exchange hub s hv peer env =
     (case handle_multihub_claim_request hub (sender_of env) env s hv of
        Inl e \<Rightarrow> ([], False)
      | Inr sv \<Rightarrow> (replies (sv_sent sv), True))"

definition tells_grant :: "json_object \<Rightarrow> task_claim \<Rightarrow> bool" where
  "tells_grant reply c \<longleftrightarrow> get_field reply ''type'' = JString ''claim_granted''
     \<and> list_all (\<lambda>(k, v). get_field reply k = v) (claim_grant_fields c)"

lemma grant_tells: "tells_grant (system_message env text ''claim_granted'' target (claim_grant_fields c)) c"
proof -
  have "get_field (system_message env text ''claim_granted'' target (claim_grant_fields c)) k = v"
    if "(k, v) \<in> set (claim_grant_fields c)" for k v
  proof -
    have "dget (claim_grant_fields c) k = Some v" using that grant_fields_distinct by (simp add: map_of_eq_Some_iff)
    then show ?thesis using system_message_extra [OF grant_fields_distinct] by (simp add: get_field_def get_or_def)
  qed
  then show ?thesis
    using system_message_type [OF grant_fields_distinct grant_fields_safe(3)]
    by (auto simp: tells_grant_def list_all_iff get_field_def get_or_def)
qed

lemma relay_answer:
  "\<exists>reply fc'. relay_verdict gate sender ns task h (forward_answer hub rq detail (map_option claim_grant_fields c)) fc
      = Inr (fc', reply)
    \<and> (case c of Some c \<Rightarrow> tells_grant reply c | None \<Rightarrow> get_field reply ''type'' = JString ''claim_denied'')"
proof (cases c)
  case None
  have "dget (system_message env tx ''claim_denied'' sender
      [(''task_id'', JString task), (''namespace'', JString ns), (''owner_hub_id'', JString h)]) ''type''
    = Some (JString ''claim_denied'')" for env tx by (rule system_message_type) simp_all
  then show ?thesis by (simp add: None relay_verdict_def forward_answer_def get_field_def get_or_def)
next
  case (Some c')
  then show ?thesis using grant_tells grant_fields_safe(1,2)
    by (simp add: relay_verdict_def forward_answer_def)
qed

lemma frame_of_answer:
  assumes "encode_claim_forward_request rq = Inr body" and "py_strip (env_hub_id (oh_env hub)) \<noteq> []"
  obtains reply where "forward_result_frame hub peer (forward_answer hub rq detail grant) = Inr reply"
    "await_result [JObject reply] True = Forwarded (forward_answer hub rq detail grant)"
proof -
  obtain reply where reply: "forward_result_frame hub peer (forward_answer hub rq detail grant) = Inr reply"
    using assms by (simp add: forward_result_frame_def encode_claim_forward_result_def forward_answer_def sum_bind_def
        require_nonempty_def encode_request_Inr)
  show thesis by (rule that [OF reply]) (use result_frame_decodes [OF reply] in simp)
qed

text \<open>The owner's handler on an admissible envelope.\<close>

lemma handled_claim:
  assumes body: "encode_claim_forward_request rq = Inr body" and hub: "py_strip (env_hub_id (oh_env hub)) \<noteq> []"
    and ok: "oh_allowed hub peer" "\<not> oh_corrupt_rows hub" "owns_namespace hub (cfr_namespace rq)"
    and req: "forwarded_claim hub peer rq = Inr req"
  shows "\<exists>sv detail c. handle_multihub_claim_request hub peer (forward_envelope local_id now token body) s hv = Inr sv
    \<and> await_result (replies (sv_sent sv)) True = Forwarded (forward_answer hub rq detail (map_option claim_grant_fields c))
    \<and> (case duplicate_forwarded_claim (env_now (oh_env hub)) rq s of
         Some c' \<Rightarrow> c = Some c' \<and> sv_state sv = s \<and> sv_rows sv = []
       | None \<Rightarrow> (\<exists>app. rq_mutate req (fst (sweep_abandoned hub s)) = (sv_state sv, ClaimResult app) \<and> c = ca_claim app
           \<and> sv_rows sv = snd (sweep_abandoned hub s) @ rq_persist req (ClaimResult app)))"
proof -
  have refuse: "refuse_forwarded hub peer rq = None" using ok by (simp add: refuse_forwarded_def)
  note dec = envelope_decodes [OF body, of local_id now token]
  show ?thesis
  proof (cases "duplicate_forwarded_claim (env_now (oh_env hub)) rq s")
    case (Some c)
    let ?detail = "''Task '' @ quoted (cfr_task_id rq) @ '' already claimed by '' @ cfr_claimant rq @ ''.''"
    obtain reply where reply: "forward_result_frame hub peer (forward_answer hub rq ?detail (Some (claim_grant_fields c))) = Inr reply"
      "await_result [JObject reply] True = Forwarded (forward_answer hub rq ?detail (Some (claim_grant_fields c)))"
      by (rule frame_of_answer [OF body hub])
    have run: "handle_multihub_claim_request hub peer (forward_envelope local_id now token body) s hv
        = Inr \<lparr>sv_state = s, sv_views = hv, sv_rows = [], sv_sent = [Reply_To_Sender reply]\<rparr>"
      using Some refuse dec reply(1) by (simp add: handle_multihub_claim_request_def admit_forwarded_def send_result_def)
    have "replies [Reply_To_Sender reply] = [JObject reply]" by (simp add: replies_def List.map_filter_simps)
    then have "await_result (replies (sv_sent \<lparr>sv_state = s, sv_views = hv, sv_rows = [], sv_sent = [Reply_To_Sender reply]\<rparr>)) True
        = Forwarded (forward_answer hub rq ?detail (map_option claim_grant_fields (Some c)))"
      unfolding served.select_convs option.map(2) using reply(2) by (simp only:)
    then show ?thesis unfolding run Some
      by (intro exI [of _ "\<lparr>sv_state = s, sv_views = hv, sv_rows = [], sv_sent = [Reply_To_Sender reply]\<rparr>"]
          exI [of _ ?detail] exI [of _ "Some c"] conjI) simp_all
  next
    case None
    obtain s1 rows where sweep: "sweep_abandoned hub s = (s1, rows)" by fastforce
    obtain s2 app where mut: "rq_mutate req s1 = (s2, ClaimResult app)"
      using req by (auto simp: forwarded_claim_def apply_claim_async_def sum_bind_Inr Let_def split_beta)
    have answer: "snd (forwarded_answer hub rq app) = forward_answer hub rq (ca_message app) (map_option claim_grant_fields (ca_claim app))"
      and sent: "replies (fst (forwarded_answer hub rq app)) = []"
      by (simp_all add: forwarded_answer_def replies_def List.map_filter_simps split: option.split)
    obtain reply where reply: "forward_result_frame hub peer (snd (forwarded_answer hub rq app)) = Inr reply"
      "await_result [JObject reply] True = Forwarded (snd (forwarded_answer hub rq app))"
      unfolding answer by (rule frame_of_answer [OF body hub])
    have sent2: "replies (fst (forwarded_answer hub rq app) @ [Reply_To_Sender reply]) = [JObject reply]"
      using sent by (simp add: replies_def List.map_filter_def)
    let ?sv = "\<lparr>sv_state = s2,
        sv_views = (let hv1 = publish_lease ClaimVerb (cfr_claimant rq) [] [] (claims s2) None (ClaimResult app) hv
          in if ca_claim app = None then hv1 else hv1\<lparr>hv_claims_granted := hv_claims_granted hv1 + 1\<rparr>),
        sv_rows = rows @ rq_persist req (ClaimResult app),
        sv_sent = fst (forwarded_answer hub rq app) @ [Reply_To_Sender reply]\<rparr>"
    have run: "handle_multihub_claim_request hub peer (forward_envelope local_id now token body) s hv = Inr ?sv"
      using None refuse dec reply(1) sweep mut req
      by (simp add: handle_multihub_claim_request_def admit_forwarded_def send_result_def decide_forwarded_def Let_def
          split_beta sum_bind_def)
    have "await_result (replies (sv_sent ?sv)) True
        = Forwarded (forward_answer hub rq (ca_message app) (map_option claim_grant_fields (ca_claim app)))"
      unfolding served.select_convs sent2 reply(2) answer ..
    then show ?thesis unfolding run None option.case(1)
      by (intro exI [of _ ?sv] exI [of _ "ca_message app"] exI [of _ "ca_claim app"] exI [of _ app] conjI)
        (simp_all only: sweep fst_conv snd_conv mut served.select_convs)
  qed
qed


lemma claim_async_answer:
  assumes "apply_claim_async env mx sender quota data = Inr req" and "rq_mutate req s = (s', ClaimResult app)"
    and "ca_claim app = Some c" and "dget data ''renew_epoch'' = None" and "first_text data [''task_id'', ''payload''] = Inr raw"
  shows "dget (claims s') (py_strip raw) = Some c"
proof -
  obtain body where body: "parse_claim quota data = Inr body" and run: "apply_claim (env_now env) sender body s = (s', app)"
    using assms(1,2) by (auto simp: apply_claim_async_def sum_bind_Inr Let_def split: prod.splits)
  have "(\<exists>rid. body = BadIdentity (py_strip raw) rid) \<or> (\<exists>rq rid. body = AcquireBody (py_strip raw) rq rid)"
    using body assms(4,5)
    by (cases "parse_optional_claim_scope_identity data") (auto simp: parse_claim_def parse_acquisition_def sum_bind_Inr)
  then show ?thesis
    using run assms(3) by (auto simp: refused_claim_def applied_claim_def split: prod.splits sum.splits)
qed

text \<open>
  C4: A forwarded claim is the owner's claim.  When a claim of a claimant of a namespace another hub
  owns reaches that hub, and the hub serves the peer and is not recovering, and the store commits its appends, the envelope the
  gate sends is handled, and the claimant's answer and the state \<open>sv\<close> the handler leaves agree.  If the claimant
  already holds a live lease of the task, the answer repeats it, the registry stays as it was and
  nothing is journaled.  Otherwise the registry has gone through the sweep of abandoned claims and
  through exactly the claim the owner makes for a direct frame, charged to the peer, and the rows of
  both are journaled; the claimant is told granted exactly when that claim is granted, with the fields
  of the claim the registry then holds, and denied otherwise.
\<close>

theorem forwarded_claim_relayed:
  assumes gate: "cg_ownership gate = Some own" "dget (cg_peers gate) h = Some peer"
    and remote: "resolve_namespace own (project_of sender) (gate_asserting_hubs gate (project_of sender)) = d"
      "od_outcome d = REMOTE" "od_owner_hub d = Some h"
    and data: "first_text data [''task_id'', ''payload''] = Inr raw" "py_strip raw \<noteq> []"
      "\<not> json_truthy (get_field data ''local_renewal'')" "dget data ''renew_epoch'' = None"
    and names: "py_strip (project_of sender) \<noteq> []" "py_strip sender \<noteq> []" "py_strip (env_hub_id (oh_env hub)) \<noteq> []"
    and serves: "oh_allowed hub (env_hub_id (cg_env gate))" "\<not> oh_corrupt_rows hub" "owns_namespace hub (project_of sender)"
    and req: "apply_claim_async (oh_env hub) (oh_max_paths hub) sender
        (Some (''federation-peer:'' @ env_hub_id (cg_env gate))) data = Inr req"
  shows "\<exists>body sv fc' reply.
      encode_claim_forward_request
        \<lparr>cfr_namespace = project_of sender, cfr_claimant = sender, cfr_task_id = py_strip raw, cfr_claim = data\<rparr> = Inr body
    \<and> handle_multihub_claim_request hub (env_hub_id (cg_env gate))
        (forward_envelope (env_hub_id (cg_env gate)) (env_now (cg_env gate)) (cp_token peer) body) s hv = Inr sv
    \<and> authorise_claim_ownership (owner_exchange hub s hv) gate sender ''claim'' data fc = Inr (fc', Some reply)
    \<and> (\<forall>c. dget (claims s) (py_strip raw) = Some c \<and> owner c = sender \<and> env_now (oh_env hub) < lease_expires_at c \<longrightarrow>
        tells_grant reply c \<and> sv_state sv = s \<and> sv_rows sv = [])
    \<and> ((\<forall>c. dget (claims s) (py_strip raw) = Some c \<longrightarrow> owner c \<noteq> sender \<or> lease_expires_at c \<le> env_now (oh_env hub)) \<longrightarrow>
        (\<exists>app. rq_mutate req (fst (sweep_abandoned hub s)) = (sv_state sv, ClaimResult app)
          \<and> sv_rows sv = snd (sweep_abandoned hub s) @ rq_persist req (ClaimResult app)
          \<and> (case ca_claim app of
               Some c \<Rightarrow> tells_grant reply c \<and> dget (claims (sv_state sv)) (py_strip raw) = Some c
             | None \<Rightarrow> get_field reply ''type'' = JString ''claim_denied'')))"
proof -
  let ?rq = "\<lparr>cfr_namespace = project_of sender, cfr_claimant = sender, cfr_task_id = py_strip raw, cfr_claim = data\<rparr>"
  let ?me = "env_hub_id (cg_env gate)"
  obtain body where body: "encode_claim_forward_request ?rq = Inr body"
    using names data(2) by (simp add: encode_request_Inr)
  let ?env = "forward_envelope ?me (env_now (cg_env gate)) (cp_token peer) body"
  have req': "forwarded_claim hub ?me ?rq = Inr req" using req by (simp add: forwarded_claim_def)
  obtain sv detail c where run: "handle_multihub_claim_request hub ?me ?env s hv = Inr sv"
    and arrives: "await_result (replies (sv_sent sv)) True = Forwarded (forward_answer hub ?rq detail (map_option claim_grant_fields c))"
    and c: "case duplicate_forwarded_claim (env_now (oh_env hub)) ?rq s of
         Some c' \<Rightarrow> c = Some c' \<and> sv_state sv = s \<and> sv_rows sv = []
       | None \<Rightarrow> (\<exists>app. rq_mutate req (fst (sweep_abandoned hub s)) = (sv_state sv, ClaimResult app) \<and> c = ca_claim app
           \<and> sv_rows sv = snd (sweep_abandoned hub s) @ rq_persist req (ClaimResult app))"
    using handled_claim [OF body names(3) serves(1,2) _ req'] serves(3) by fastforce
  have "sender_of ?env = ?me"
    using body by (simp add: encode_request_Inr sender_of_def forward_envelope_def get_field_def get_or_def split: option.split)
  then have sent: "forward_claim (owner_exchange hub s hv) ?me (env_now (cg_env gate)) peer ?rq
      = Forwarded (forward_answer hub ?rq detail (map_option claim_grant_fields c))"
    using arrives by (simp add: forward_claim_def body owner_exchange_def run)
  obtain reply fc' where relay: "relay_verdict gate sender (project_of sender) (py_strip raw) h
        (forward_answer hub ?rq detail (map_option claim_grant_fields c)) (fc\<lparr>fc_forwarded := fc_forwarded fc + 1\<rparr>) = Inr (fc', reply)"
    and told: "case c of Some c \<Rightarrow> tells_grant reply c | None \<Rightarrow> get_field reply ''type'' = JString ''claim_denied''"
    using relay_answer by meson
  have answer: "authorise_claim_ownership (owner_exchange hub s hv) gate sender ''claim'' data fc = Inr (fc', Some reply)"
    using gate remote data sent relay
    by (simp add: authorise_claim_ownership_def grants_locally_def sum_bind_def forward_remote_claim_def Let_def)
  have again: "tells_grant reply c' \<and> sv_state sv = s \<and> sv_rows sv = []"
    if "dget (claims s) (py_strip raw) = Some c'" "owner c' = sender" "env_now (oh_env hub) < lease_expires_at c'" for c'
    using c told that by (simp add: duplicate_forwarded_claim_def)
  have anew: "\<exists>app. rq_mutate req (fst (sweep_abandoned hub s)) = (sv_state sv, ClaimResult app)
      \<and> sv_rows sv = snd (sweep_abandoned hub s) @ rq_persist req (ClaimResult app)
      \<and> (case ca_claim app of
           Some c \<Rightarrow> tells_grant reply c \<and> dget (claims (sv_state sv)) (py_strip raw) = Some c
         | None \<Rightarrow> get_field reply ''type'' = JString ''claim_denied'')"
    if "\<forall>c. dget (claims s) (py_strip raw) = Some c \<longrightarrow> owner c \<noteq> sender \<or> lease_expires_at c \<le> env_now (oh_env hub)"
  proof -
    have "duplicate_forwarded_claim (env_now (oh_env hub)) ?rq s = None"
      using that by (auto simp: duplicate_forwarded_claim_def split: option.split)
    then obtain app where app: "rq_mutate req (fst (sweep_abandoned hub s)) = (sv_state sv, ClaimResult app)" "c = ca_claim app"
      "sv_rows sv = snd (sweep_abandoned hub s) @ rq_persist req (ClaimResult app)" using c by auto
    then show ?thesis
      using told claim_async_answer [OF req app(1) _ data(4,1)] by (intro exI [of _ app]) (auto split: option.splits)
  qed
  show ?thesis
    by (rule exI [of _ body], rule exI [of _ sv], rule exI [of _ fc'], rule exI [of _ reply])
      (use body run answer again anew in blast)
qed


section \<open>One granting hub\<close>

lemma refused_forward:
  assumes "\<not> owns_namespace hub ns" and "get_field env ''namespace'' = JString ns"
    and "handle_multihub_claim_request hub peer env s hv = Inr sv"
  shows "sv_state sv = s \<and> sv_rows sv = [] \<and> (\<forall>f. Reply_To_Sender f \<in> set (sv_sent sv) \<longrightarrow> get_field f ''granted'' \<noteq> JBool True)"
proof (cases "decode_claim_forward_request (JObject env)")
  case (Inl e)
  then show ?thesis using assms(3)
    by (auto simp: handle_multihub_claim_request_def admit_forwarded_def system_message_def get_field_def get_or_def)
next
  case (Inr rq)
  then have ns: "cfr_namespace rq = ns" using assms(2) by (simp add: decode_request_Inr)
  then have "\<exists>detail. refuse_forwarded hub peer rq = Some (forward_answer hub rq detail None)"
    using assms(1) by (cases "oh_allowed hub peer"; cases "oh_corrupt_rows hub") (simp_all add: refuse_forwarded_def, blast+)
  then obtain detail where refuse: "refuse_forwarded hub peer rq = Some (forward_answer hub rq detail None)" by blast
  then obtain reply where reply: "forward_result_frame hub peer (forward_answer hub rq detail None) = Inr reply"
    and sv: "sv = \<lparr>sv_state = s, sv_views = hv, sv_rows = [], sv_sent = [Reply_To_Sender reply]\<rparr>"
    using assms(3) Inr by (auto simp: handle_multihub_claim_request_def admit_forwarded_def send_result_def split: sum.splits)
  have "get_field reply ''granted'' = JBool False"
    using result_frame_decodes(1) [OF reply]
    by (auto simp: decode_claim_forward_result_def sum_bind_Inr forward_answer_def elim: require_bool.elims)
  then show ?thesis by (simp add: sv)
qed

text \<open>
  C5: At most one hub grants the claims of a namespace.  Of two hubs with the same ownership map and
  different ids, when the gate of one lets a claim of a claimant go on to its own registry, then the
  gate of the other never does, and a forward of that claimant's claims under the claimant's own
  namespace leaves the other's registry and journal alone and is not answered with a grant.
\<close>

theorem one_hub_grants:
  assumes own: "cg_ownership gate = Some own" "cg_ownership gate2 = Some own2" "oh_ownership hub = Some own2"
    and fleet: "no_owners own = no_owners own2" "no_local own \<noteq> no_local own2"
    and passes: "authorise_claim_ownership exchange gate sender ''claim'' data fc = Inr (fc', None)"
    and forward: "get_field env ''namespace'' = JString (project_of sender)"
      "handle_multihub_claim_request hub peer env s hv = Inr sv"
  shows "authorise_claim_ownership exchange2 gate2 sender ''claim'' data2 fc2 \<noteq> Inr (fc2', None)
    \<and> sv_state sv = s \<and> sv_rows sv = []
    \<and> (\<forall>f. Reply_To_Sender f \<in> set (sv_sent sv) \<longrightarrow> get_field f ''granted'' \<noteq> JBool True)"
proof -
  have here: "grants_locally (resolve_namespace o1 (project_of sender) (gate_asserting_hubs g (project_of sender)))"
    if "cg_ownership g = Some o1" "authorise_claim_ownership ex g sender ''claim'' da f = Inr (f', None)" for g o1 ex da f f'
  proof (rule ccontr)
    assume "\<not> ?thesis"
    then show False using that
      by (auto simp: authorise_claim_ownership_def Let_def sum_bind_Inr split: if_splits option.splits prod.splits)
  qed
  have local: "dget (no_owners o1) ns = Some (no_local o1)" if "grants_locally (resolve_namespace o1 ns hubs)" for o1 ns hubs
    using that by (auto simp: grants_locally_def resolve_namespace_def Let_def split: option.splits if_splits)
  have owner: "dget (no_owners own2) (project_of sender) = Some (no_local own)"
    using local [OF here [OF own(1) passes]] fleet(1) by simp
  then have "\<not> owns_namespace hub (project_of sender)"
    using local [of own2] fleet(2) by (auto simp: owns_namespace_def own(3))
  moreover have "authorise_claim_ownership exchange2 gate2 sender ''claim'' data2 fc2 \<noteq> Inr (fc2', None)"
    using here [OF own(2)] local [of own2] owner fleet(2) by fastforce
  ultimately show ?thesis using refused_forward [OF _ forward] by blast
qed

section \<open>Two weaknesses of the route\<close>

lemma swept_when_never_seen:
  assumes "wf_state s" and "tidy s" and "dget (claims s) task = Some c" and "owner c \<notin> set (oh_online hub)"
    and "dget (hp_offline_since (oh_presence hub)) (owner c) = None"
    and "hp_window (oh_presence hub) \<le> max 0 (oh_clock hub - hp_started_at (oh_presence hub))"
  shows "dget (claims (fst (sweep_abandoned hub s))) task = None"
proof -
  let ?hp = "oh_presence hub"
  have gone: "long_gone ?hp (oh_online hub) (oh_clock hub) c" using assms(4-6) by (simp add: long_gone_def)
  have "abandoned_claims (claims s) ?hp (oh_online hub) (oh_clock hub) \<noteq> []"
    using map_of_SomeD [OF assms(3)] gone by (auto simp: abandoned_filter filter_empty_conv)
  moreover obtain s' r where run: "rq_mutate (abandoned_verb ?hp (oh_online hub) (oh_clock hub)) s = (s', r)" by fastforce
  ultimately have "fst (sweep_abandoned hub s) = s'" by (simp add: sweep_abandoned_def)
  then show ?thesis using abandoned_frees [OF assms(1,2) run, of task] assms(3) gone by simp
qed

text \<open>An owner that has been up for longer than the window, and the frames of two remote claimants.\<close>

definition demo_owner :: owner_hub where
  "demo_owner = \<lparr>oh_env = demo_env, oh_max_paths = 8, oh_ownership = Some \<lparr>no_owners = [(''p'', ''h'')], no_local = ''h''\<rparr>,
     oh_corrupt_rows = False, oh_allowed = (\<lambda>peer. True), oh_presence = long_offline, oh_online = [], oh_clock = 3600\<rparr>"

definition demo_forward :: "string \<Rightarrow> json_object" where
  "demo_forward who = [(''sender'', JString ''b''), (''namespace'', JString ''p''), (''claimant'', JString who),
     (''task_id'', JString ''T''), (''claim'', JObject claim_frame_T)]"

definition demo_scope :: claim_request where
  "demo_scope = (plain_request [''src''])\<lparr>req_principal := Some ''federation-peer:b''\<rparr>"

lemma parse_forwarded_T: "parse_claim (Some ''federation-peer:b'') claim_frame_T = Inr (AcquireBody ''T'' demo_scope [])"
  by code_simp

definition first_state :: synapse_state where
  "first_state = fst (claim ''p/x'' ''T'' demo_scope 0 (small_hub 2))"

definition second_state :: synapse_state where
  "second_state = fst (claim ''p/y'' ''T'' demo_scope 0 (fst (sweep_abandoned demo_owner first_state)))"

lemma demo_states:
  "case claim ''p/x'' ''T'' demo_scope 0 (small_hub 2) of (s, Inr m) \<Rightarrow> True | _ \<Rightarrow> False"
  "map_option owner (dget (claims first_state) ''T'') = Some ''p/x''"
  "map_option (\<lambda>c. 0 < lease_expires_at c) (dget (claims first_state) ''T'') = Some True"
  "case claim ''p/y'' ''T'' demo_scope 0 (fst (sweep_abandoned demo_owner first_state)) of (s, Inr m) \<Rightarrow> True | _ \<Rightarrow> False"
  "map_option owner (dget (claims second_state) ''T'') = Some ''p/y''"
  by code_simp+


lemma demo_admitted:
  assumes who: "py_strip who \<noteq> []"
    and free: "\<forall>c. dget (claims s) ''T'' = Some c \<longrightarrow> owner c \<noteq> who"
    and run: "claim who ''T'' demo_scope 0 (fst (sweep_abandoned demo_owner s)) = (s', Inr m)"
    and held: "dget (claims s') ''T'' = Some c"
  shows "\<exists>sv reply. handle_multihub_claim_request demo_owner ''b'' (demo_forward who) s hv = Inr sv
    \<and> sv_state sv = s' \<and> Reply_To_Sender reply \<in> set (sv_sent sv) \<and> get_field reply ''granted'' = JBool True"
proof -
  let ?rq = "\<lparr>cfr_namespace = ''p'', cfr_claimant = who, cfr_task_id = ''T'', cfr_claim = claim_frame_T\<rparr>"
  have strips: "py_strip ''p'' \<noteq> []" "py_strip ''T'' \<noteq> []" "py_strip ''h'' \<noteq> []" by code_simp+
  then have dec: "decode_claim_forward_request (JObject (demo_forward who)) = Inr ?rq"
    using who unfolding decode_request_Inr by (simp add: demo_forward_def get_field_def get_or_def)
  have admit: "admit_forwarded demo_owner ''b'' (demo_forward who) s = Admitted ?rq"
    using free
    by (auto simp: admit_forwarded_def dec refuse_forwarded_def demo_owner_def owns_namespace_def resolve_namespace_def
        grants_locally_def duplicate_forwarded_claim_def split: option.split)
  obtain req where req: "forwarded_claim demo_owner ''b'' ?rq = Inr req"
    and mut: "\<And>s. rq_mutate req s = (let (s', app) = apply_claim 0 who (AcquireBody ''T'' demo_scope []) s in (s', ClaimResult app))"
    by (simp add: forwarded_claim_def apply_claim_async_def parse_forwarded_T claim_frame_T_texts sum_bind_def demo_owner_def demo_env_def)
  let ?app = "applied_claim (render_msg m) ''T'' (Some c) [] []"
  have m: "rq_mutate req (fst (sweep_abandoned demo_owner s)) = (s', ClaimResult ?app)" by (simp add: mut run held)
  have env: "env_hub_id (oh_env demo_owner) = ''h''" by (simp add: demo_owner_def demo_env_def)
  then obtain reply where reply: "forward_result_frame demo_owner ''b''
        (forward_answer demo_owner ?rq (render_msg m) (Some (claim_grant_fields c))) = Inr reply"
    using strips by (simp add: forward_result_frame_def encode_claim_forward_result_def forward_answer_def sum_bind_def require_nonempty_def)
  have granted: "get_field reply ''granted'' = JBool True"
    using result_frame_decodes(1) [OF reply]
    by (auto simp: decode_claim_forward_result_def sum_bind_Inr forward_answer_def elim: require_bool.elims)
  have "\<exists>sv. handle_multihub_claim_request demo_owner ''b'' (demo_forward who) s hv = Inr sv
      \<and> sv_state sv = s' \<and> Reply_To_Sender reply \<in> set (sv_sent sv)"
    using m reply
    by (simp add: handle_multihub_claim_request_def admit decide_forwarded_def req sum_bind_def Let_def split_beta
        forwarded_answer_def applied_claim_def send_result_def)
  then show ?thesis using granted by blast
qed

lemma demo_idle: "sweep_abandoned demo_owner (small_hub 2) = (small_hub 2, [])" "dget (claims (small_hub 2)) k = None"
  by (simp_all add: sweep_abandoned_def abandoned_claims_def List.map_filter_simps small_hub_def init_state_def)

lemma first_forward:
  "\<exists>sv reply. handle_multihub_claim_request demo_owner ''b'' (demo_forward ''p/x'') (small_hub 2) hv = Inr sv
    \<and> sv_state sv = first_state \<and> Reply_To_Sender reply \<in> set (sv_sent sv) \<and> get_field reply ''granted'' = JBool True"
proof -
  have strip: "py_strip ''p/x'' \<noteq> []" by code_simp
  obtain c where c: "dget (claims first_state) ''T'' = Some c" using demo_states(2) by auto
  obtain m where "claim ''p/x'' ''T'' demo_scope 0 (small_hub 2) = (first_state, Inr m)"
    using demo_states(1) by (auto simp: first_state_def split: prod.splits sum.splits)
  then have "claim ''p/x'' ''T'' demo_scope 0 (fst (sweep_abandoned demo_owner (small_hub 2))) = (first_state, Inr m)"
    by (simp add: demo_idle)
  from demo_admitted [OF strip _ this c] show ?thesis by (simp add: demo_idle)
qed

text \<open>
  A forwarded lease does not last.  The owner counts a claimant that never connected to it as
  away since its own start, so on a hub that has been up for the window of abandonment the next claim
  request, of anyone, releases a lease just granted to a forwarded claimant: two agents behind
  another hub are granted the same scope one after the other, while the first lease is still live.
\<close>

theorem forwarded_lease_lost:
  "\<exists>sv sv2 c r1 r2. handle_multihub_claim_request demo_owner ''b'' (demo_forward ''p/x'') (small_hub 2) hv = Inr sv
     \<and> Reply_To_Sender r1 \<in> set (sv_sent sv) \<and> get_field r1 ''granted'' = JBool True
     \<and> dget (claims (sv_state sv)) ''T'' = Some c \<and> owner c = ''p/x'' \<and> env_now (oh_env demo_owner) < lease_expires_at c
     \<and> handle_multihub_claim_request demo_owner ''b'' (demo_forward ''p/y'') (sv_state sv) (sv_views sv) = Inr sv2
     \<and> Reply_To_Sender r2 \<in> set (sv_sent sv2) \<and> get_field r2 ''granted'' = JBool True
     \<and> map_option owner (dget (claims (sv_state sv2)) ''T'') = Some ''p/y''"
proof -
  have strip: "py_strip ''p/y'' \<noteq> []" by code_simp
  obtain c where c: "dget (claims first_state) ''T'' = Some c" "owner c = ''p/x''" "0 < lease_expires_at c"
    using demo_states(2,3) by auto
  obtain c2 where c2: "dget (claims second_state) ''T'' = Some c2" "owner c2 = ''p/y''" using demo_states(5) by auto
  obtain m2 where m2: "claim ''p/y'' ''T'' demo_scope 0 (fst (sweep_abandoned demo_owner first_state)) = (second_state, Inr m2)"
    using demo_states(4) by (auto simp: second_state_def split: prod.splits sum.splits)
  obtain sv r1 where first: "handle_multihub_claim_request demo_owner ''b'' (demo_forward ''p/x'') (small_hub 2) hv = Inr sv"
    "sv_state sv = first_state" "Reply_To_Sender r1 \<in> set (sv_sent sv)" "get_field r1 ''granted'' = JBool True"
    using first_forward by blast
  from demo_admitted [OF strip _ m2 c2(1), of "sv_views sv"] c
  obtain sv2 r2 where second: "handle_multihub_claim_request demo_owner ''b'' (demo_forward ''p/y'') (sv_state sv) (sv_views sv) = Inr sv2"
    "sv_state sv2 = second_state" "Reply_To_Sender r2 \<in> set (sv_sent sv2)" "get_field r2 ''granted'' = JBool True"
    unfolding first(2) by auto
  have "env_now (oh_env demo_owner) = 0" by (simp add: demo_owner_def demo_env_def)
  then show ?thesis
    by - (rule exI [of _ sv], rule exI [of _ sv2], rule exI [of _ c], rule exI [of _ r1], rule exI [of _ r2],
        simp add: first second second(1) [unfolded first(2)] c c2)
qed

text \<open>
  C7: The partition check does not cover forwards.  While the owner observes another hub asserting its
  namespace, its gate refuses the claims of its own agents, and its handler grants the claims
  that the contesting hub forwards.
\<close>

definition contested_gate :: claim_gate where
  "contested_gate = \<lparr>cg_env = demo_env, cg_ownership = oh_ownership demo_owner, cg_feed = Some (\<lambda>ns. [''b'']), cg_peers = []\<rparr>"

theorem contested_namespace_forwarded:
  "\<exists>refusal sv reply. authorise_claim_ownership exchange contested_gate ''p/z'' ''claim'' claim_frame_T fc = Inr (fc, Some refusal)
     \<and> dget refusal ''type'' = Some (JString ''claim_denied'')
     \<and> dget refusal ''ownership'' = Some (JString ''partitioned'')
     \<and> handle_multihub_claim_request demo_owner ''b'' (demo_forward ''p/x'') (small_hub 2) hv = Inr sv
     \<and> Reply_To_Sender reply \<in> set (sv_sent sv) \<and> get_field reply ''granted'' = JBool True
     \<and> map_option owner (dget (claims (sv_state sv)) ''T'') = Some ''p/x''"
proof -
  obtain sv reply where fwd: "handle_multihub_claim_request demo_owner ''b'' (demo_forward ''p/x'') (small_hub 2) hv = Inr sv"
    "sv_state sv = first_state" "Reply_To_Sender reply \<in> set (sv_sent sv)" "get_field reply ''granted'' = JBool True"
    using first_forward by blast
  have ns: "project_of ''p/z'' = ''p''" by code_simp
  have raw: "first_text claim_frame_T [''task_id'', ''payload''] = Inr ''T''" by code_simp
  have plain: "\<not> json_truthy (get_field claim_frame_T ''local_renewal'')" "dget claim_frame_T ''renew_epoch'' = None" by code_simp+
  let ?d = "\<lparr>od_outcome = PARTITIONED, od_namespace = ''p'', od_owner_hub = None, od_contesting = [''b'']\<rparr>"
  have gate: "cg_ownership contested_gate = Some \<lparr>no_owners = [(''p'', ''h'')], no_local = ''h''\<rparr>"
    by (simp add: contested_gate_def demo_owner_def)
  have d: "resolve_namespace \<lparr>no_owners = [(''p'', ''h'')], no_local = ''h''\<rparr> ''p'' (gate_asserting_hubs contested_gate ''p'') = ?d"
    by (simp add: resolve_namespace_def gate_asserting_hubs_def contested_gate_def)
  have refused: "authorise_claim_ownership exchange contested_gate ''p/z'' ''claim'' claim_frame_T fc
      = Inr (fc, Some (refuse_unowned contested_gate ''p/z'' (py_strip ''T'') ?d))"
    by (simp add: authorise_claim_ownership_def gate ns d grants_locally_def raw plain sum_bind_def del: first_text.simps)
  have frame': "dget (refuse_unowned contested_gate ''p/z'' (py_strip ''T'') ?d) ''type'' = Some (JString ''claim_denied'')"
    "dget (refuse_unowned contested_gate ''p/z'' (py_strip ''T'') ?d) ''ownership'' = Some (JString ''partitioned'')"
    unfolding refuse_unowned_def by (rule system_message_type system_message_extra; simp)+
  show ?thesis using refused frame' fwd demo_states(2)
    by - (rule exI, rule exI [of _ sv], rule exI [of _ reply], simp)
qed

section \<open>The route at a concrete claim\<close>

definition demo_gate :: claim_gate where
  "demo_gate = \<lparr>cg_env = demo_env\<lparr>env_hub_id := ''b''\<rparr>, cg_ownership = Some \<lparr>no_owners = [(''p'', ''h'')], no_local = ''b''\<rparr>,
     cg_feed = None, cg_peers = [(''h'', \<lparr>cp_uri = ''wss'', cp_token = None\<rparr>)]\<rparr>"

theorem forwarded_claim_relayed_witness:
  "\<forall>hv fc. \<exists>fc' reply c. authorise_claim_ownership (owner_exchange demo_owner (small_hub 2) hv) demo_gate ''p/x'' ''claim'' claim_frame_T fc
       = Inr (fc', Some reply)
     \<and> tells_grant reply c \<and> owner c = ''p/x''"
proof (intro allI)
  fix hv fc
  have ns: "project_of ''p/x'' = ''p''" by code_simp
  have raw: "first_text claim_frame_T [''task_id'', ''payload''] = Inr ''T''" by code_simp
  have strips: "py_strip ''T'' = ''T''" "py_strip ''p'' = ''p''" "py_strip ''p/x'' \<noteq> []" "py_strip ''h'' \<noteq> []" by code_simp+
  have plain: "\<not> json_truthy (get_field claim_frame_T ''local_renewal'')" "dget claim_frame_T ''renew_epoch'' = None" by code_simp+
  let ?own = "\<lparr>no_owners = [(''p'', ''h'')], no_local = ''b''\<rparr>"
  let ?d = "\<lparr>od_outcome = REMOTE, od_namespace = ''p'', od_owner_hub = Some ''h'', od_contesting = []\<rparr>"
  have gate: "cg_ownership demo_gate = Some ?own" "dget (cg_peers demo_gate) ''h'' = Some \<lparr>cp_uri = ''wss'', cp_token = None\<rparr>"
    "env_hub_id (cg_env demo_gate) = ''b''" by (simp_all add: demo_gate_def)
  have d: "resolve_namespace ?own (project_of ''p/x'') (gate_asserting_hubs demo_gate (project_of ''p/x'')) = ?d"
    by (simp add: resolve_namespace_def gate_asserting_hubs_def demo_gate_def ns)
  have hub: "oh_allowed demo_owner ''b''" "\<not> oh_corrupt_rows demo_owner" "owns_namespace demo_owner ''p''"
    "env_hub_id (oh_env demo_owner) = ''h''" "env_now (oh_env demo_owner) = 0"
    by (simp_all add: demo_owner_def demo_env_def owns_namespace_def resolve_namespace_def grants_locally_def)
  obtain req where req: "apply_claim_async (oh_env demo_owner) (oh_max_paths demo_owner) ''p/x'' (Some ''federation-peer:b'') claim_frame_T
      = Inr req"
    and mut: "\<And>s. rq_mutate req s = (let (s', app) = apply_claim 0 ''p/x'' (AcquireBody ''T'' demo_scope []) s in (s', ClaimResult app))"
    by (simp add: apply_claim_async_def parse_forwarded_T claim_frame_T_texts sum_bind_def demo_owner_def demo_env_def)
  obtain c where c: "dget (claims first_state) ''T'' = Some c" "owner c = ''p/x''" using demo_states(2) by auto
  obtain m where m: "claim ''p/x'' ''T'' demo_scope 0 (small_hub 2) = (first_state, Inr m)"
    using demo_states(1) by (auto simp: first_state_def split: prod.splits sum.splits)
  have names: "py_strip (project_of ''p/x'') \<noteq> []" "py_strip (env_hub_id (oh_env demo_owner)) \<noteq> []" "py_strip ''T'' \<noteq> []"
    using strips by (simp_all add: ns hub)
  have serves: "oh_allowed demo_owner (env_hub_id (cg_env demo_gate))" "owns_namespace demo_owner (project_of ''p/x'')"
    by (simp_all add: gate ns hub)
  have req': "apply_claim_async (oh_env demo_owner) (oh_max_paths demo_owner) ''p/x''
      (Some (''federation-peer:'' @ env_hub_id (cg_env demo_gate))) claim_frame_T = Inr req"
    using req by (simp add: gate)
  have run: "rq_mutate req (fst (sweep_abandoned demo_owner (small_hub 2))) = (s', ClaimResult app) \<Longrightarrow> ca_claim app = Some c" for s' app
    using m c(1) by (auto simp: demo_idle mut applied_claim_def)
  show "\<exists>fc' reply c. authorise_claim_ownership (owner_exchange demo_owner (small_hub 2) hv) demo_gate ''p/x'' ''claim'' claim_frame_T fc
       = Inr (fc', Some reply)
     \<and> tells_grant reply c \<and> owner c = ''p/x''"
    using forwarded_claim_relayed [where s = "small_hub 2" and hv = hv and fc = fc, OF gate(1,2) d _ _ raw names(3) plain
        names(1) strips(3) names(2) serves(1) hub(2) serves(2) req'] c(2) run
    by (auto simp: strips demo_idle)
qed

theorem one_hub_grants_witness:
  "\<forall>hv. \<exists>sv. handle_multihub_claim_request (demo_owner\<lparr>oh_ownership := Some \<lparr>no_owners = [(''p'', ''h'')], no_local = ''g''\<rparr>\<rparr>)
       ''b'' (demo_forward ''p/x'') (small_hub 2) hv = Inr sv \<and> sv_state sv = small_hub 2"
proof
  fix hv
  let ?hub = "demo_owner\<lparr>oh_ownership := Some \<lparr>no_owners = [(''p'', ''h'')], no_local = ''g''\<rparr>\<rparr>"
  let ?here = "\<lparr>cg_env = demo_env, cg_ownership = oh_ownership demo_owner, cg_feed = None, cg_peers = []\<rparr>"
  let ?there = "\<lparr>cg_env = demo_env, cg_ownership = oh_ownership ?hub, cg_feed = None, cg_peers = []\<rparr>"
  have ns: "project_of ''p/x'' = ''p''" by code_simp
  have strips: "py_strip ''p'' \<noteq> []" "py_strip ''p/x'' \<noteq> []" "py_strip ''T'' \<noteq> []" "py_strip ''h'' \<noteq> []" by code_simp+
  let ?rq = "\<lparr>cfr_namespace = ''p'', cfr_claimant = ''p/x'', cfr_task_id = ''T'', cfr_claim = claim_frame_T\<rparr>"
  have dec: "decode_claim_forward_request (JObject (demo_forward ''p/x'')) = Inr ?rq"
    using strips unfolding decode_request_Inr by (simp add: demo_forward_def get_field_def get_or_def)
  have refuse: "\<exists>r. refuse_forwarded ?hub ''b'' ?rq = Some (forward_answer ?hub ?rq r None)"
  proof -
    have "oh_allowed ?hub ''b''" "\<not> oh_corrupt_rows ?hub" "\<not> owns_namespace ?hub (cfr_namespace ?rq)"
      by (simp_all add: demo_owner_def owns_namespace_def resolve_namespace_def grants_locally_def)
    then have "refuse_forwarded ?hub ''b'' ?rq
        = Some (forward_answer ?hub ?rq (''this hub does not own namespace '' @ py_repr (cfr_namespace ?rq)) None)"
      by (simp only: refuse_forwarded_def not_True_eq_False if_False simp_thms if_True)
    then show ?thesis by blast
  qed
  have "env_hub_id (oh_env ?hub) = ''h''" by (simp add: demo_owner_def demo_env_def)
  then have sent: "\<exists>f. forward_result_frame ?hub ''b'' (forward_answer ?hub ?rq r None) = Inr f" for r
    using strips by (simp add: forward_result_frame_def encode_claim_forward_result_def forward_answer_def sum_bind_def require_nonempty_def)
  obtain r where r: "refuse_forwarded ?hub ''b'' ?rq = Some (forward_answer ?hub ?rq r None)" using refuse by blast
  obtain f where f: "forward_result_frame ?hub ''b'' (forward_answer ?hub ?rq r None) = Inr f" using sent by blast
  have "\<exists>sv. handle_multihub_claim_request ?hub ''b'' (demo_forward ''p/x'') (small_hub 2) hv = Inr sv"
    by (simp add: handle_multihub_claim_request_def admit_forwarded_def dec r send_result_def f)
  then obtain sv where sv: "handle_multihub_claim_request ?hub ''b'' (demo_forward ''p/x'') (small_hub 2) hv = Inr sv" by blast
  have passes: "authorise_claim_ownership ex ?here ''p/x'' ''claim'' claim_frame_T fc = Inr (fc, None)" for ex fc
    by (simp add: authorise_claim_ownership_def demo_owner_def ns resolve_namespace_def gate_asserting_hubs_def grants_locally_def)
  have named: "get_field (demo_forward ''p/x'') ''namespace'' = JString (project_of ''p/x'')"
    by (simp add: demo_forward_def get_field_def get_or_def ns)
  have "sv_state sv = small_hub 2"
    by (rule one_hub_grants [OF _ _ _ _ _ passes named sv, where own = "\<lparr>no_owners = [(''p'', ''h'')], no_local = ''h''\<rparr>"
        and ?own2.0 = "\<lparr>no_owners = [(''p'', ''h'')], no_local = ''g''\<rparr>" and ?gate2.0 = ?there, THEN conjunct2, THEN conjunct1]) (simp_all add: demo_owner_def)
  then show "\<exists>sv. handle_multihub_claim_request (demo_owner\<lparr>oh_ownership := Some \<lparr>no_owners = [(''p'', ''h'')], no_local = ''g''\<rparr>\<rparr>)
       ''b'' (demo_forward ''p/x'') (small_hub 2) hv = Inr sv \<and> sv_state sv = small_hub 2"
    using sv by blast
qed

end
