(* ===== verification/Message_Auth.thy ===== *)
theory Message_Auth
  imports Acl_Gate Json_Text Fingerprint
begin

text \<open>
  Per-message authentication (\<open>core/message_auth.py\<close>): HMAC signatures over the canonical text of a
  frame, Ed25519 signatures of events, the replay cache with its sequence floors, its durable
  ledger (\<open>core/message_auth_durable.py\<close>, whose two tables are dictionaries and whose transactions
  happen or do not), and the gate of the hub (\<open>verify_per_message_auth\<close> of \<open>core/hub_frame_gates.py\<close>).
  The check of an Ed25519 signature is a parameter; a float is compared as Python does, so
  a comparison with nan is false.
\<close>

section \<open>HMAC\<close>

unbundle bit_operations_syntax

definition hmac_sha256 :: "bytes \<Rightarrow> bytes \<Rightarrow> bytes" where
  "hmac_sha256 key msg =
     (let k = (if 64 < length key then sha256 key else key);
          block = k @ replicate (64 - length k) 0
      in sha256 (map (\<lambda>b. b XOR 0x5C) block @ sha256 (map (\<lambda>b. b XOR 0x36) block @ msg)))"

section \<open>Keys and results\<close>

definition AUTH_ALGORITHM :: string where "AUTH_ALGORITHM = ''hmac-sha256''"
definition EVENT_SIGNATURE_ALGORITHM :: string where "EVENT_SIGNATURE_ALGORITHM = ''ed25519''"
definition LEGACY_EVENT_SIGNATURE_VERSION :: int where "LEGACY_EVENT_SIGNATURE_VERSION = 1"
definition EVENT_SIGNATURE_VERSION :: int where "EVENT_SIGNATURE_VERSION = 2"
definition AEF_LEGACY_EVENT_DOMAIN :: string where "AEF_LEGACY_EVENT_DOMAIN = ''aef:legacy-event:v0.1''"

definition DEFAULT_SIGNED_MESSAGE_TYPES :: "string list" where
  "DEFAULT_SIGNED_MESSAGE_TYPES =
     [''claim'', ''release'', ''task_update'', ''handoff'', ''checkpoint'', ''delivery_request'', ''delivery_boundary'',
      ''delivery_ack'', ''delivery_outcome'', ''delivery_cancel'', ''attachment_begin'', ''attachment_chunk'',
      ''attachment_commit'', ''attachment_abort'', ''attachment_info'', ''attachment_read'', ''attachment_ref'',
      ''attachment_gc'', ''resource'', ''resource_offer'', ''offer_resource'']"

datatype verification_result =
  OK | MISSING | EXPIRED | UNKNOWN_KEY | REVOKED_KEY | BAD_AUTHENTICATION | SENDER_MISMATCH | SEQUENCE_MISMATCH | REPLAYED

fun verification_text :: "verification_result \<Rightarrow> string" where
  "verification_text OK = ''ok''"
| "verification_text MISSING = ''missing''"
| "verification_text EXPIRED = ''expired''"
| "verification_text UNKNOWN_KEY = ''unknown_key''"
| "verification_text REVOKED_KEY = ''revoked_key''"
| "verification_text BAD_AUTHENTICATION = ''bad_authentication''"
| "verification_text SENDER_MISMATCH = ''sender_mismatch''"
| "verification_text SEQUENCE_MISMATCH = ''sequence_mismatch''"
| "verification_text REPLAYED = ''replayed''"

datatype event_result =
  VALID | MISSING_SIGNATURE | EVENT_EXPIRED | EVENT_UNKNOWN_KEY | EVENT_REVOKED_KEY | BAD_SIGNATURE | INVALID_DOMAIN
  | EVENT_SENDER_MISMATCH | PROJECT_SCOPE_MISMATCH | EVENT_SEQUENCE_MISMATCH | EVENT_REPLAYED

fun event_result_text :: "event_result \<Rightarrow> string" where
  "event_result_text VALID = ''valid''"
| "event_result_text MISSING_SIGNATURE = ''missing_signature''"
| "event_result_text EVENT_EXPIRED = ''expired''"
| "event_result_text EVENT_UNKNOWN_KEY = ''unknown_key''"
| "event_result_text EVENT_REVOKED_KEY = ''revoked_key''"
| "event_result_text BAD_SIGNATURE = ''bad_signature''"
| "event_result_text INVALID_DOMAIN = ''invalid_domain''"
| "event_result_text EVENT_SENDER_MISMATCH = ''sender_mismatch''"
| "event_result_text PROJECT_SCOPE_MISMATCH = ''project_scope_mismatch''"
| "event_result_text EVENT_SEQUENCE_MISMATCH = ''sequence_mismatch''"
| "event_result_text EVENT_REPLAYED = ''replayed''"

record message_auth_key =
  mk_key_id :: string
  mk_secret :: bytes
  mk_senders :: "string list"
  mk_revoked :: bool

record event_signature_key =
  ek_key_id :: string
  ek_public_key :: bytes
  ek_senders :: "string list"
  ek_projects :: "string list"
  ek_expires_at :: "time option"
  ek_revoked :: bool

definition with_revoked :: "bool \<Rightarrow> event_signature_key \<Rightarrow> event_signature_key" where
  "with_revoked revoked k = k\<lparr>ek_revoked := revoked\<rparr>"

section \<open>The durable ledger\<close>

fun float_less :: "pyfloat \<Rightarrow> pyfloat \<Rightarrow> bool" where
  "float_less NaN y = False"
| "float_less x NaN = False"
| "float_less x NegInf = False"
| "float_less PosInf y = False"
| "float_less NegInf y = True"
| "float_less x PosInf = True"
| "float_less (Finite a) (Finite b) = (a < b)"

datatype floor_mode = OFF | COMPAT | STRICT

type_synonym nonce_identity = "string \<times> string \<times> string"

record nonce_request =
  nr_key_id :: string
  nr_sender :: string
  nr_nonce :: string
  nr_sequence :: int
  nr_timestamp :: pyfloat
  nr_now :: time
  nr_disk :: bool

definition nonce_id :: "nonce_request \<Rightarrow> nonce_identity" where
  "nonce_id r = (nr_key_id r, nr_sender r, nr_nonce r)"

definition nonce_account :: "nonce_request \<Rightarrow> string \<times> string" where
  "nonce_account r = (nr_key_id r, nr_sender r)"

text \<open>\<open>nr_disk\<close> says whether the statements of the transaction run; a failed one raises.\<close>

record durable_ledger =
  dl_max_entries :: int
  dl_window :: time
  dl_nonces :: "(nonce_identity, pyfloat) pydict"
  dl_floors :: "(string \<times> string, int) pydict"

datatype durable_result =
  DURABLE_ACCEPTED | DURABLE_REPLAYED | DURABLE_SEQUENCE_MISMATCH | DURABLE_CAPACITY | Durable_Raised

definition live_nonces :: "time \<Rightarrow> time \<Rightarrow> (nonce_identity, pyfloat) pydict \<Rightarrow> (nonce_identity, pyfloat) pydict" where
  "live_nonces window now d = filter (\<lambda>(i, stamp). \<not> float_less stamp (Finite (now - window))) d"

definition raise_floor :: "string \<times> string \<Rightarrow> int \<Rightarrow> (string \<times> string, int) pydict \<Rightarrow> (string \<times> string, int) pydict" where
  "raise_floor account q floors =
     (case dget floors account of
        None \<Rightarrow> dset account q floors
      | Some f \<Rightarrow> if f < q then dset account q floors else floors)"

text \<open>
  A refusal rolls the deletion of expired rows back.  A nan is stored as null, which the column does
  not take, and SQLite takes no integer of 64 bits or more.
\<close>

definition durable_admit :: "floor_mode \<Rightarrow> nonce_request \<Rightarrow> durable_ledger \<Rightarrow> durable_ledger \<times> durable_result" where
  "durable_admit mode r st =
     (if nr_key_id r = [] \<or> nr_sender r = [] \<or> nr_nonce r = [] \<or> nr_sequence r < 1 \<or> \<not> nr_disk r then (st, Durable_Raised)
      else
        (let live = live_nonces (dl_window st) (nr_now r) (dl_nonces st) in
         if dget live (nonce_id r) \<noteq> None then (st, DURABLE_REPLAYED)
         else if mode = STRICT \<and> (case dget (dl_floors st) (nonce_account r) of None \<Rightarrow> False | Some f \<Rightarrow> nr_sequence r \<le> f)
         then (st, DURABLE_SEQUENCE_MISMATCH)
         else if dl_max_entries st \<le> int (length live) then (st, DURABLE_CAPACITY)
         else if nr_timestamp r = NaN \<or> 2 ^ 63 \<le> nr_sequence r then (st, Durable_Raised)
         else (st\<lparr>dl_nonces := live @ [(nonce_id r, nr_timestamp r)],
                  dl_floors := (if mode = OFF then dl_floors st
                                else raise_floor (nonce_account r) (nr_sequence r) (dl_floors st))\<rparr>,
               DURABLE_ACCEPTED)))"

section \<open>Opening encrypted payloads\<close>

text \<open>
  \<open>PayloadReplayGuard\<close> of \<open>core/payload_replay.py\<close>: the same ledger, under the ids of encrypted envelopes.
  An admitted envelope answers \<open>None\<close>.
\<close>

record payload_guard =
  pg_window :: time
  pg_skew :: time
  pg_ledger :: durable_ledger

datatype payload_refusal = Payload_Future | Payload_Stale | Payload_Replayed | Payload_Capacity | Payload_Raised

definition open_payload_guard ::
  "time \<Rightarrow> int \<Rightarrow> time \<Rightarrow> (nonce_identity, pyfloat) pydict \<Rightarrow> (string \<times> string, int) pydict \<Rightarrow> payload_guard option" where
  "open_payload_guard window max_entries skew nonces floors =
     (if \<not> 0 < window \<or> \<not> 0 \<le> skew then None
      else Some \<lparr>pg_window = window, pg_skew = skew,
        pg_ledger = \<lparr>dl_max_entries = max max_entries 1, dl_window = max window (1 / 1000), dl_nonces = nonces, dl_floors = floors\<rparr>\<rparr>)"

definition payload_request :: "string \<Rightarrow> string \<Rightarrow> string \<Rightarrow> int \<Rightarrow> time \<Rightarrow> bool \<Rightarrow> nonce_request" where
  "payload_request fingerprint sender message_id created_at_ms now disk =
     \<lparr>nr_key_id = fingerprint, nr_sender = (if sender = [] then ''-'' else sender), nr_nonce = message_id, nr_sequence = 1,
      nr_timestamp = Finite (of_int created_at_ms / 1000), nr_now = now, nr_disk = disk\<rparr>"

definition payload_admit ::
  "string \<Rightarrow> string \<Rightarrow> string \<Rightarrow> int \<Rightarrow> time \<Rightarrow> bool \<Rightarrow> payload_guard \<Rightarrow> payload_guard \<times> payload_refusal option" where
  "payload_admit fingerprint sender message_id created_at_ms now disk g =
     (let created = of_int created_at_ms / 1000 in
      if now + pg_skew g < created then (g, Some Payload_Future)
      else if created < now - pg_window g then (g, Some Payload_Stale)
      else
        (let (st, result) = durable_admit OFF (payload_request fingerprint sender message_id created_at_ms now disk) (pg_ledger g) in
         (g\<lparr>pg_ledger := st\<rparr>,
          (case result of
             DURABLE_REPLAYED \<Rightarrow> Some Payload_Replayed
           | DURABLE_CAPACITY \<Rightarrow> Some Payload_Capacity
           | Durable_Raised \<Rightarrow> Some Payload_Raised
           | _ \<Rightarrow> None))))"

section \<open>The replay cache\<close>

record replay_cache =
  nc_window :: time
  nc_future_skew :: time
  nc_max_entries :: int
  nc_durable :: "durable_ledger option"
  nc_mode :: floor_mode
  nc_entries :: "(nonce_identity, pyfloat) pydict"
  nc_floors :: "(string \<times> string, int) pydict"

definition new_replay_cache :: "time \<Rightarrow> int \<Rightarrow> time \<Rightarrow> durable_ledger option \<Rightarrow> floor_mode \<Rightarrow> replay_cache" where
  "new_replay_cache window max_entries future_skew durable mode =
     \<lparr>nc_window = max window (1 / 1000), nc_future_skew = max future_skew 0, nc_max_entries = max max_entries 1,
      nc_durable = durable, nc_mode = mode, nc_entries = [], nc_floors = []\<rparr>"

definition evict :: "time \<Rightarrow> replay_cache \<Rightarrow> replay_cache" where
  "evict now c = c\<lparr>nc_entries := live_nonces (nc_window c) now (nc_entries c)\<rparr>"

definition record_memory :: "bool \<Rightarrow> nonce_request \<Rightarrow> replay_cache \<Rightarrow> replay_cache" where
  "record_memory require_capacity r c0 =
     (let c = evict (nr_now r) c0; i = nonce_id r; full = nc_max_entries c \<le> int (length (nc_entries c)) in
      if dget (nc_entries c) i = None \<and> require_capacity \<and> full then c
      else
        (let es = (case dget (nc_entries c) i of
               None \<Rightarrow> (if full then drop 1 (nc_entries c) else nc_entries c) @ [(i, nr_timestamp r)]
             | Some t \<Rightarrow> move_to_end i t (nc_entries c))
         in c\<lparr>nc_entries := es,
              nc_floors := (if nc_mode c = OFF then nc_floors c
                            else raise_floor (nonce_account r) (nr_sequence r) (nc_floors c))\<rparr>))"

text \<open>\<open>None\<close> admits.\<close>

definition admit :: "nonce_request \<Rightarrow> replay_cache \<Rightarrow> replay_cache \<times> verification_result option" where
  "admit r c =
     (case nc_durable c of
        Some st \<Rightarrow>
          (case durable_admit (nc_mode c) r st of
             (st', DURABLE_ACCEPTED) \<Rightarrow> (record_memory False r (c\<lparr>nc_durable := Some st'\<rparr>), None)
           | (st', DURABLE_SEQUENCE_MISMATCH) \<Rightarrow> (c, Some SEQUENCE_MISMATCH)
           | (st', _) \<Rightarrow> (c, Some REPLAYED))
      | None \<Rightarrow>
          (let c1 = evict (nr_now r) c in
           if nc_mode c1 = STRICT \<and> (case dget (nc_floors c1) (nonce_account r) of None \<Rightarrow> False | Some f \<Rightarrow> nr_sequence r \<le> f)
           then (c1, Some SEQUENCE_MISMATCH)
           else if dget (nc_entries c1) (nonce_id r) \<noteq> None then (c1, Some REPLAYED)
           else if nc_max_entries c1 \<le> int (length (nc_entries c1)) then (c1, Some REPLAYED)
           else (record_memory True r c1, None)))"

section \<open>Signing\<close>

definition without_value :: "string \<Rightarrow> json_object \<Rightarrow> json_object" where
  "without_value field frame' =
     (case dget frame' field of Some (JObject d) \<Rightarrow> dset field (JObject (ddel ''value'' d)) frame' | _ \<Rightarrow> frame')"

definition canonical_frame :: "(time \<Rightarrow> string) \<Rightarrow> json_object \<Rightarrow> bytes" where
  "canonical_frame fl frame' = utf8 (json_dumps_raw fl (JObject (without_value ''auth'' frame')))"

definition canonical_event_frame :: "(time \<Rightarrow> string) \<Rightarrow> json_object \<Rightarrow> bytes" where
  "canonical_event_frame fl frame' = utf8 (json_dumps_raw fl (JObject (without_value ''signature'' frame')))"

definition aef_signature_preimage :: "string \<Rightarrow> bytes \<Rightarrow> bytes" where
  "aef_signature_preimage domain payload = utf8 domain @ [0] @ payload"

definition next_message_auth_sequence :: "int \<Rightarrow> int \<Rightarrow> int" where
  "next_message_auth_sequence previous now_ns = max (previous + 1) (now_ns div 1000)"

definition auth_metadata :: "string \<Rightarrow> string \<Rightarrow> int \<Rightarrow> time \<Rightarrow> json_object" where
  "auth_metadata kid nonce q stamp =
     [(''alg'', JString AUTH_ALGORITHM), (''kid'', JString kid), (''nonce'', JString nonce), (''sequence'', JInt q),
      (''timestamp'', JFloat (Finite stamp))]"

definition sign_frame :: "(time \<Rightarrow> string) \<Rightarrow> json_object \<Rightarrow> message_auth_key \<Rightarrow> string \<Rightarrow> int \<Rightarrow> time \<Rightarrow> json_object" where
  "sign_frame fl frame' key nonce q stamp =
     (let meta = auth_metadata (mk_key_id key) nonce q stamp; signed = dset ''auth'' (JObject meta) frame' in
      dset ''auth'' (JObject (meta @ [(''value'', JString (hex_of (hmac_sha256 (mk_secret key) (canonical_frame fl signed))))])) frame')"

text \<open>\<open>sign\<close>: the Ed25519 signature of the private key, in base64.\<close>

definition sign_event_frame_profile ::
  "(bytes \<Rightarrow> string) \<Rightarrow> (time \<Rightarrow> string) \<Rightarrow> json_object \<Rightarrow> string \<Rightarrow> string \<Rightarrow> int \<Rightarrow> time \<Rightarrow> int \<Rightarrow> string option \<Rightarrow> json_object" where
  "sign_event_frame_profile sign fl frame' kid nonce q signed_at v domain =
     (let envelope = [(''version'', JInt v), (''key_id'', JString kid), (''algorithm'', JString EVENT_SIGNATURE_ALGORITHM),
            (''nonce'', JString nonce), (''sequence'', JInt q), (''signed_at'', JFloat (Finite signed_at))]
            @ (case domain of None \<Rightarrow> [] | Some d \<Rightarrow> [(''domain'', JString d)]);
          text = canonical_event_frame fl (dset ''signature'' (JObject envelope) frame');
          payload = (case domain of None \<Rightarrow> text | Some d \<Rightarrow> aef_signature_preimage d text)
      in dset ''signature'' (JObject (envelope @ [(''value'', JString (sign payload))])) frame')"

definition sign_event_frame ::
  "(bytes \<Rightarrow> string) \<Rightarrow> (time \<Rightarrow> string) \<Rightarrow> json_object \<Rightarrow> string \<Rightarrow> string \<Rightarrow> int \<Rightarrow> time \<Rightarrow> json_object" where
  "sign_event_frame sign fl frame' kid nonce q signed_at =
     sign_event_frame_profile sign fl frame' kid nonce q signed_at EVENT_SIGNATURE_VERSION (Some AEF_LEGACY_EVENT_DOMAIN)"

definition sign_legacy_event_frame ::
  "(bytes \<Rightarrow> string) \<Rightarrow> (time \<Rightarrow> string) \<Rightarrow> json_object \<Rightarrow> string \<Rightarrow> string \<Rightarrow> int \<Rightarrow> time \<Rightarrow> json_object" where
  "sign_legacy_event_frame sign fl frame' kid nonce q signed_at =
     sign_event_frame_profile sign fl frame' kid nonce q signed_at LEGACY_EVENT_SIGNATURE_VERSION None"

section \<open>Verification\<close>

text \<open>What can leave a verification as an exception.\<close>

datatype auth_error = Overflow_Raised | Type_Raised | Unmodelled_Body

definition body_text :: "json_object \<Rightarrow> string \<Rightarrow> auth_error + string" where
  "body_text d key = (case text_field d key of Inl e \<Rightarrow> Inl Unmodelled_Body | Inr s \<Rightarrow> Inr s)"

text \<open>\<open>float(auth[key])\<close>: \<open>None\<close> for the errors that are caught, and the one that is not.\<close>

definition stamp_of :: "json_object \<Rightarrow> string \<Rightarrow> auth_error + pyfloat option" where
  "stamp_of d key =
     (case dget d key of
        None \<Rightarrow> Inr None
      | Some (JInt i) \<Rightarrow> (case py_float (JInt i) of None \<Rightarrow> Inl Overflow_Raised | Some f \<Rightarrow> Inr (Some f))
      | Some v \<Rightarrow> Inr (py_float v))"

definition in_window :: "replay_cache \<Rightarrow> time \<Rightarrow> pyfloat \<Rightarrow> bool" where
  "in_window c now stamp \<longleftrightarrow>
     \<not> (float_less stamp (Finite (now - nc_window c)) \<or> float_less (Finite (now + nc_future_skew c)) stamp)"

definition digest_matches :: "string \<Rightarrow> string \<Rightarrow> auth_error + bool" where
  "digest_matches expected supplied =
     (case compare_digest expected supplied of Inl e \<Rightarrow> Inl Type_Raised | Inr b \<Rightarrow> Inr b)"

definition nonce_request_of :: "string \<Rightarrow> string \<Rightarrow> string \<Rightarrow> int \<Rightarrow> pyfloat \<Rightarrow> time \<Rightarrow> bool \<Rightarrow> nonce_request" where
  "nonce_request_of kid sender nonce q stamp now disk =
     \<lparr>nr_key_id = kid, nr_sender = sender, nr_nonce = nonce, nr_sequence = q, nr_timestamp = stamp, nr_now = now, nr_disk = disk\<rparr>"

text \<open>
  The checks before the nonce is admitted: the refusal, or the request to admit.  The order is the
  code's, and so is what is refused before the signature is looked at.
\<close>

definition check_frame ::
  "(time \<Rightarrow> string) \<Rightarrow> (string, message_auth_key) pydict \<Rightarrow> replay_cache \<Rightarrow> time \<Rightarrow> bool \<Rightarrow> string \<Rightarrow> json_object
   \<Rightarrow> auth_error + verification_result + nonce_request" where
  "check_frame fl keys c now disk required_sender frame' =
     (case get_field frame' ''auth'' of
        JObject auth \<Rightarrow>
          sum_bind (body_text auth ''kid'') (\<lambda>kid.
            case dget keys kid of
              None \<Rightarrow> Inr (Inl UNKNOWN_KEY)
            | Some key \<Rightarrow>
                if mk_revoked key then Inr (Inl REVOKED_KEY)
                else
                  sum_bind (body_text frame' ''sender'') (\<lambda>sender.
                    if sender \<noteq> required_sender \<or> required_sender \<notin> set (mk_senders key) then Inr (Inl SENDER_MISMATCH)
                    else
                      sum_bind (body_text auth ''alg'') (\<lambda>alg.
                        if alg \<noteq> AUTH_ALGORITHM then Inr (Inl BAD_AUTHENTICATION)
                        else
                          sum_bind (stamp_of auth ''timestamp'') (\<lambda>st.
                            case (st, dget auth ''sequence'') of
                              (None, _) \<Rightarrow> Inr (Inl BAD_AUTHENTICATION)
                            | (_, None) \<Rightarrow> Inr (Inl BAD_AUTHENTICATION)
                            | (Some stamp, Some (JInt q)) \<Rightarrow>
                                if q < 1 then Inr (Inl SEQUENCE_MISMATCH)
                                else if \<not> in_window c now stamp then Inr (Inl EXPIRED)
                                else
                                  sum_bind (body_text auth ''nonce'') (\<lambda>nonce.
                                  sum_bind (body_text auth ''value'') (\<lambda>supplied.
                                    if nonce = [] \<or> supplied = [] then Inr (Inl BAD_AUTHENTICATION)
                                    else
                                      sum_bind (digest_matches (hex_of (hmac_sha256 (mk_secret key) (canonical_frame fl frame'))) supplied)
                                        (\<lambda>matches.
                                          Inr (if matches then Inr (nonce_request_of kid required_sender nonce q stamp now disk)
                                               else Inl BAD_AUTHENTICATION))))
                            | (Some stamp, Some v) \<Rightarrow> Inr (Inl SEQUENCE_MISMATCH)))))
      | _ \<Rightarrow> Inr (Inl MISSING))"

definition verify_frame ::
  "(time \<Rightarrow> string) \<Rightarrow> (string, message_auth_key) pydict \<Rightarrow> time \<Rightarrow> bool \<Rightarrow> string \<Rightarrow> json_object \<Rightarrow> replay_cache
   \<Rightarrow> replay_cache \<times> (auth_error + verification_result)" where
  "verify_frame fl keys now disk required_sender frame' c =
     (case check_frame fl keys c now disk required_sender frame' of
        Inl e \<Rightarrow> (c, Inl e)
      | Inr (Inl refusal) \<Rightarrow> (c, Inr refusal)
      | Inr (Inr r) \<Rightarrow> (case admit r c of (c', None) \<Rightarrow> (c', Inr OK) | (c', Some refusal) \<Rightarrow> (c', Inr refusal)))"

text \<open>\<open>check\<close>: the base64 decoding and the Ed25519 verification.\<close>

type_synonym signature_check = "bytes \<Rightarrow> string \<Rightarrow> bytes \<Rightarrow> bool"

definition signed_payload :: "(time \<Rightarrow> string) \<Rightarrow> json_object \<Rightarrow> json_object \<Rightarrow> event_result + bytes" where
  "signed_payload fl sig frame' =
     (case get_field sig ''version'' of
        JInt v \<Rightarrow>
          (if v = LEGACY_EVENT_SIGNATURE_VERSION
           then (if dget sig ''domain'' \<noteq> None then Inl INVALID_DOMAIN else Inr (canonical_event_frame fl frame'))
           else if v = EVENT_SIGNATURE_VERSION
           then (if get_field sig ''domain'' \<noteq> JString AEF_LEGACY_EVENT_DOMAIN then Inl INVALID_DOMAIN
                 else Inr (aef_signature_preimage AEF_LEGACY_EVENT_DOMAIN (canonical_event_frame fl frame')))
           else Inl BAD_SIGNATURE)
      | _ \<Rightarrow> Inl BAD_SIGNATURE)"

definition check_event ::
  "signature_check \<Rightarrow> (time \<Rightarrow> string) \<Rightarrow> (string, event_signature_key) pydict \<Rightarrow> replay_cache \<Rightarrow> time \<Rightarrow> bool
   \<Rightarrow> string \<Rightarrow> string \<Rightarrow> json_object \<Rightarrow> auth_error + event_result + nonce_request" where
  "check_event check fl keys c now disk required_sender required_project frame' =
     (case get_field frame' ''signature'' of
        JObject sig \<Rightarrow>
          sum_bind (body_text sig ''key_id'') (\<lambda>kid.
            case dget keys kid of
              None \<Rightarrow> Inr (Inl EVENT_UNKNOWN_KEY)
            | Some key \<Rightarrow>
                if ek_revoked key then Inr (Inl EVENT_REVOKED_KEY)
                else if (case ek_expires_at key of None \<Rightarrow> False | Some t \<Rightarrow> t < now) then Inr (Inl EVENT_EXPIRED)
                else
                  sum_bind (body_text frame' ''sender'') (\<lambda>sender.
                    if sender \<noteq> required_sender \<or> required_sender \<notin> set (ek_senders key) then Inr (Inl EVENT_SENDER_MISMATCH)
                    else
                      sum_bind (body_text frame' ''project'') (\<lambda>project.
                        if required_project \<noteq> [] \<and> (project \<noteq> required_project \<or> required_project \<notin> set (ek_projects key))
                        then Inr (Inl PROJECT_SCOPE_MISMATCH)
                        else
                          sum_bind (body_text sig ''algorithm'') (\<lambda>alg.
                            if alg \<noteq> EVENT_SIGNATURE_ALGORITHM then Inr (Inl BAD_SIGNATURE)
                            else
                              (case signed_payload fl sig frame' of
                                 Inl refusal \<Rightarrow> Inr (Inl refusal)
                               | Inr payload \<Rightarrow>
                                   sum_bind (stamp_of sig ''signed_at'') (\<lambda>st.
                                     case (st, dget sig ''sequence'') of
                                       (None, _) \<Rightarrow> Inr (Inl BAD_SIGNATURE)
                                     | (_, None) \<Rightarrow> Inr (Inl BAD_SIGNATURE)
                                     | (Some stamp, Some (JInt q)) \<Rightarrow>
                                         if q < 1 then Inr (Inl EVENT_SEQUENCE_MISMATCH)
                                         else if \<not> in_window c now stamp then Inr (Inl EVENT_EXPIRED)
                                         else
                                           sum_bind (body_text sig ''nonce'') (\<lambda>nonce.
                                           sum_bind (body_text sig ''value'') (\<lambda>supplied.
                                             Inr (if nonce = [] \<or> supplied = [] then Inl BAD_SIGNATURE
                                                  else if \<not> check (ek_public_key key) supplied payload then Inl BAD_SIGNATURE
                                                  else Inr (nonce_request_of kid required_sender nonce q stamp now disk))))
                                     | (Some stamp, Some v) \<Rightarrow> Inr (Inl EVENT_SEQUENCE_MISMATCH)))))))
      | _ \<Rightarrow> Inr (Inl MISSING_SIGNATURE))"

definition verify_event_signature ::
  "signature_check \<Rightarrow> (time \<Rightarrow> string) \<Rightarrow> (string, event_signature_key) pydict \<Rightarrow> time \<Rightarrow> bool
   \<Rightarrow> string \<Rightarrow> string \<Rightarrow> json_object \<Rightarrow> replay_cache \<Rightarrow> replay_cache \<times> (auth_error + event_result)" where
  "verify_event_signature check fl keys now disk required_sender required_project frame' c =
     (case check_event check fl keys c now disk required_sender required_project frame' of
        Inl e \<Rightarrow> (c, Inl e)
      | Inr (Inl refusal) \<Rightarrow> (c, Inr refusal)
      | Inr (Inr r) \<Rightarrow>
          (case admit r c of
             (c', None) \<Rightarrow> (c', Inr VALID)
           | (c', Some SEQUENCE_MISMATCH) \<Rightarrow> (c', Inr EVENT_SEQUENCE_MISMATCH)
           | (c', Some refusal) \<Rightarrow> (c', Inr EVENT_REPLAYED)))"

section \<open>The gate\<close>

record auth_gate =
  ag_env :: hub_env
  ag_required :: bool
  ag_keys :: "(string, message_auth_key) pydict"
  ag_bundle :: "(string, event_signature_key) pydict option"

text \<open>The replay caches of the two profiles.\<close>

record auth_caches =
  ac_message :: replay_cache
  ac_event :: replay_cache

definition auth_refusal :: "auth_gate \<Rightarrow> string \<Rightarrow> json_object \<Rightarrow> string \<Rightarrow> auth_error + json_object" where
  "auth_refusal gate sender data result =
     (case release_error_correlation data of
        Inl e \<Rightarrow> Inl Unmodelled_Body
      | Inr binding \<Rightarrow>
          Inr (system_message (ag_env gate) (''per-message authentication failed: '' @ result) ''error'' sender
            ((''verification_result'', JString result) # binding)))"

text \<open>\<open>None\<close> lets the frame pass, a frame refuses it.\<close>

definition verify_per_message_auth ::
  "signature_check \<Rightarrow> auth_gate \<Rightarrow> time \<Rightarrow> bool \<Rightarrow> string \<Rightarrow> string \<Rightarrow> json_object \<Rightarrow> auth_caches
   \<Rightarrow> auth_caches \<times> (auth_error + json_object option)" where
  "verify_per_message_auth check gate now disk sender msg_type data cs =
     (let refuse = (\<lambda>result. (case auth_refusal gate sender data result of Inl e \<Rightarrow> Inl e | Inr f \<Rightarrow> Inr (Some f))) in
      if \<not> ag_required gate \<or> msg_type \<notin> set DEFAULT_SIGNED_MESSAGE_TYPES then (cs, Inr None)
      else if dget data ''auth'' \<noteq> None then
        (case verify_frame (env_float_text (ag_env gate)) (ag_keys gate) now disk sender data (ac_message cs) of
           (c', Inl e) \<Rightarrow> (cs\<lparr>ac_message := c'\<rparr>, Inl e)
         | (c', Inr result) \<Rightarrow>
             (cs\<lparr>ac_message := c'\<rparr>, if result = OK then Inr None else refuse (verification_text result)))
      else
        (case (dget data ''signature'', ag_bundle gate) of
           (Some sig, Some keys) \<Rightarrow>
             (case body_text data ''project'' of
                Inl e \<Rightarrow> (cs, Inl e)
              | Inr project \<Rightarrow>
                  (case verify_event_signature check (env_float_text (ag_env gate)) keys now disk sender project data (ac_event cs) of
                     (c', Inl e) \<Rightarrow> (cs\<lparr>ac_event := c'\<rparr>, Inl e)
                   | (c', Inr result) \<Rightarrow>
                       (cs\<lparr>ac_event := c'\<rparr>, if result = VALID then Inr None else refuse (event_result_text result))))
         | _ \<Rightarrow> (cs, refuse (verification_text MISSING))))"

end
