(* ===== verification/Auth_Properties.thy ===== *)
theory Auth_Properties
  imports Message_Auth Atomic_Properties Merkle_Properties Multihub_Follower
begin

text \<open>
  What message authentication promises: what a replay ledger owes its clients, stated as two
  locales that are interpreted on the durable ledger and on the replay cache over it; runs of
  verifications, with restarts; what \<open>verify_frame\<close> accepts; bounds; and the frames that break it.
\<close>

section \<open>The interface of a replay ledger\<close>

text \<open>A stamp is out at a time when the retention cuts it off; nan never is.\<close>

definition out_at :: "time \<Rightarrow> time \<Rightarrow> pyfloat \<Rightarrow> bool" where
  "out_at retention now t \<longleftrightarrow> float_less t (Finite (now - retention))"

lemma out_at_later: "out_at w now t \<Longrightarrow> now \<le> now' \<Longrightarrow> out_at w now' t"
  by (cases t) (auto simp: out_at_def)

lemma out_at_longer: "out_at w' now t \<Longrightarrow> w \<le> w' \<Longrightarrow> out_at w now t"
  by (cases t) (auto simp: out_at_def)

text \<open>The requests of a run that a ledger takes.\<close>

fun takings :: "(nonce_request \<Rightarrow> 's \<Rightarrow> 's \<times> bool) \<Rightarrow> nonce_request list \<Rightarrow> 's \<Rightarrow> nonce_request list" where
  "takings tk [] s = []"
| "takings tk (r # rs) s = (let (s', ok) = tk r s in if ok then r # takings tk rs s' else takings tk rs s')"

locale nonce_ledger =
  fixes take :: "nonce_request \<Rightarrow> 's \<Rightarrow> 's \<times> bool"
    and stamp :: "'s \<Rightarrow> nonce_identity \<Rightarrow> pyfloat option"
    and retention :: "'s \<Rightarrow> time"
  assumes retention_kept: "retention (fst (take r s)) = retention s"
    and live_refused: "stamp s (nonce_id r) = Some t \<Longrightarrow> \<not> out_at (retention s) (nr_now r) t \<Longrightarrow> \<not> snd (take r s)"
    and taken_stored: "snd (take r s) \<Longrightarrow> stamp (fst (take r s)) (nonce_id r) = Some (nr_timestamp r)"
    and live_kept:
      "stamp s i = Some t \<Longrightarrow> \<not> out_at (retention s) (nr_now r) t \<Longrightarrow> stamp (fst (take r s)) i = Some t"
begin

text \<open>An identity is spent at a time: the ledger holds its stamp, or the stamp is out.\<close>

definition spent :: "'s \<Rightarrow> time \<Rightarrow> nonce_identity \<Rightarrow> pyfloat \<Rightarrow> bool" where
  "spent s now i t \<longleftrightarrow> stamp s i = Some t \<or> out_at (retention s) now t"

lemma taken_spent: "snd (take r s) \<Longrightarrow> spent (fst (take r s)) now (nonce_id r) (nr_timestamp r)"
  by (simp add: spent_def taken_stored)

lemma spent_kept: "spent s now i t \<Longrightarrow> now \<le> nr_now r \<Longrightarrow> spent (fst (take r s)) (nr_now r) i t"
  using live_kept [of s i t r] out_at_later [of "retention s" now t "nr_now r"]
  by (auto simp: spent_def retention_kept)

lemma spent_refused:
  assumes "spent s now (nonce_id r) (nr_timestamp r)" "now \<le> nr_now r" "\<not> out_at (retention s) (nr_now r) (nr_timestamp r)"
  shows "\<not> snd (take r s)"
  using assms live_refused out_at_later unfolding spent_def by blast

lemma takings_avoid_spent:
  "spent s now i t \<Longrightarrow> sorted (now # map nr_now rs) \<Longrightarrow> \<forall>r\<in>set rs. \<not> out_at (retention s) (nr_now r) (nr_timestamp r) \<Longrightarrow>
   (i, t) \<notin> (\<lambda>r. (nonce_id r, nr_timestamp r)) ` set (takings take rs s)"
proof (induction rs arbitrary: s now)
  case (Cons r rs)
  obtain s' ok where t: "take r s = (s', ok)" by fastforce
  have s': "s' = fst (take r s)" "ok = snd (take r s)" using t by simp_all
  have "(i, t) \<notin> (\<lambda>r. (nonce_id r, nr_timestamp r)) ` set (takings take rs s')"
    using Cons.IH [of s' "nr_now r"] spent_kept [OF Cons.prems(1), of r] Cons.prems by (simp add: s' retention_kept)
  moreover have "ok \<Longrightarrow> (nonce_id r, nr_timestamp r) \<noteq> (i, t)"
    using spent_refused [of s now r] Cons.prems s' by auto
  ultimately show ?case by (auto simp: t)
qed simp

lemma takings_distinct:
  "sorted (map nr_now rs) \<Longrightarrow> \<forall>r\<in>set rs. \<not> out_at (retention s) (nr_now r) (nr_timestamp r) \<Longrightarrow>
   distinct (map (\<lambda>r. (nonce_id r, nr_timestamp r)) (takings take rs s))"
proof (induction rs arbitrary: s)
  case (Cons r rs)
  obtain s' ok where t: "take r s = (s', ok)" by fastforce
  have s': "s' = fst (take r s)" "ok = snd (take r s)" using t by simp_all
  have rest: "distinct (map (\<lambda>r. (nonce_id r, nr_timestamp r)) (takings take rs s'))"
    using Cons.IH [of s'] Cons.prems by (simp add: s' retention_kept)
  have "ok \<Longrightarrow> (nonce_id r, nr_timestamp r) \<notin> (\<lambda>r. (nonce_id r, nr_timestamp r)) ` set (takings take rs s')"
    using takings_avoid_spent [OF taken_spent [of r s "nr_now r"], of rs] Cons.prems by (simp add: s' retention_kept)
  then show ?case using rest by (auto simp: t)
qed simp

end

text \<open>In strict mode the ledger also keeps, per key and sender, the highest sequence it took.\<close>

locale floored_ledger = nonce_ledger take stamp retention
  for take :: "nonce_request \<Rightarrow> 's \<Rightarrow> 's \<times> bool" and stamp :: "'s \<Rightarrow> nonce_identity \<Rightarrow> pyfloat option"
    and retention :: "'s \<Rightarrow> time" +
  fixes floor_of :: "'s \<Rightarrow> string \<times> string \<Rightarrow> int option"
    and strict :: "'s \<Rightarrow> bool"
  assumes strict_kept: "strict (fst (take r s)) = strict s"
    and floor_refuses: "strict s \<Longrightarrow> floor_of s (nonce_account r) = Some f \<Longrightarrow> nr_sequence r \<le> f \<Longrightarrow> \<not> snd (take r s)"
    and floor_raised: "strict s \<Longrightarrow> snd (take r s) \<Longrightarrow> floor_of (fst (take r s)) (nonce_account r) = Some (nr_sequence r)"
    and floor_others: "account \<noteq> nonce_account r \<or> \<not> snd (take r s) \<Longrightarrow> floor_of (fst (take r s)) account = floor_of s account"
begin

text \<open>A floor of at least \<open>q\<close> stands, and refuses every sequence up to it.\<close>

definition floored :: "'s \<Rightarrow> string \<times> string \<Rightarrow> int \<Rightarrow> bool" where
  "floored s account q \<longleftrightarrow> (\<exists>f\<ge>q. floor_of s account = Some f)"

lemma taken_floored: "strict s \<Longrightarrow> snd (take r s) \<Longrightarrow> floored (fst (take r s)) (nonce_account r) (nr_sequence r)"
  by (simp add: floored_def floor_raised)

lemma floored_refuses: "strict s \<Longrightarrow> floored s (nonce_account r) q \<Longrightarrow> snd (take r s) \<Longrightarrow> q < nr_sequence r"
  unfolding floored_def using floor_refuses not_less by (metis order_trans)

lemma floored_kept: "strict s \<Longrightarrow> floored s account q \<Longrightarrow> floored (fst (take r s)) account q"
proof (cases "account = nonce_account r \<and> snd (take r s)")
  case True
  assume a: "strict s" "floored s account q"
  with True show ?thesis using floored_refuses [of s r q] by (auto simp: floored_def floor_raised)
next
  case False
  assume "strict s" "floored s account q"
  then show ?thesis using False floor_others unfolding floored_def by metis
qed

end

section \<open>The durable ledger provides it\<close>

definition durable_take :: "floor_mode \<Rightarrow> nonce_request \<Rightarrow> durable_ledger \<Rightarrow> durable_ledger \<times> bool" where
  "durable_take mode r st = (fst (durable_admit mode r st), snd (durable_admit mode r st) = DURABLE_ACCEPTED)"

lemma dget_live: "dget d i = Some t \<Longrightarrow> \<not> out_at w now t \<Longrightarrow> dget (live_nonces w now d) i = Some t"
  by (induction d) (auto simp: live_nonces_def out_at_def split: if_splits)

lemma dget_append:
  "dget d i = None \<Longrightarrow> (m ++ dget d) i = m i"  "dget d i = Some v \<Longrightarrow> (m ++ dget d) i = Some v"
  by (simp_all add: map_add_def)

lemma dget_raise_floor:
  "dget (raise_floor a q floors) b =
     (if b = a then Some (case dget floors a of None \<Rightarrow> q | Some f \<Rightarrow> max f q) else dget floors b)"
  by (auto simp: raise_floor_def max_def split: option.splits)

lemma durable_admit_cases:
  "(fst (durable_admit mode r st) = st \<and> snd (durable_admit mode r st) \<noteq> DURABLE_ACCEPTED)
   \<or> (snd (durable_admit mode r st) = DURABLE_ACCEPTED
      \<and> dget (live_nonces (dl_window st) (nr_now r) (dl_nonces st)) (nonce_id r) = None
      \<and> int (length (live_nonces (dl_window st) (nr_now r) (dl_nonces st))) < dl_max_entries st
      \<and> (mode = STRICT \<longrightarrow> (\<forall>f. dget (dl_floors st) (nonce_account r) = Some f \<longrightarrow> f < nr_sequence r))
      \<and> fst (durable_admit mode r st) =
          st\<lparr>dl_nonces := live_nonces (dl_window st) (nr_now r) (dl_nonces st) @ [(nonce_id r, nr_timestamp r)],
             dl_floors := (if mode = OFF then dl_floors st
                           else raise_floor (nonce_account r) (nr_sequence r) (dl_floors st))\<rparr>)"
  unfolding durable_admit_def Let_def by (auto split: if_splits option.splits)

interpretation durable: nonce_ledger "durable_take mode" "\<lambda>st. dget (dl_nonces st)" dl_window for mode
proof unfold_locales
  fix r st i and t :: pyfloat
  note cases = durable_admit_cases [of mode r st]
  show "dl_window (fst (durable_take mode r st)) = dl_window st"
    using cases by (auto simp: durable_take_def)
  show "\<not> snd (durable_take mode r st)" if "dget (dl_nonces st) (nonce_id r) = Some t" "\<not> out_at (dl_window st) (nr_now r) t"
    using cases dget_live [OF that] by (auto simp: durable_take_def)
  show "dget (dl_nonces (fst (durable_take mode r st))) (nonce_id r) = Some (nr_timestamp r)" if "snd (durable_take mode r st)"
    using cases that by (auto simp: durable_take_def dget_append)
  show "dget (dl_nonces (fst (durable_take mode r st))) i = Some t"
    if "dget (dl_nonces st) i = Some t" "\<not> out_at (dl_window st) (nr_now r) t"
    using cases dget_live [OF that] that(1) by (auto simp: durable_take_def dget_append)
qed

interpretation durable: floored_ledger "durable_take mode" "\<lambda>st. dget (dl_nonces st)" dl_window "\<lambda>st. dget (dl_floors st)"
  "\<lambda>_. mode = STRICT" for mode
proof unfold_locales
  fix r st account and f :: int
  note cases = durable_admit_cases [of mode r st]
  show "\<not> snd (durable_take mode r st)"
    if "mode = STRICT" "dget (dl_floors st) (nonce_account r) = Some f" "nr_sequence r \<le> f"
    using cases that by (auto simp: durable_take_def)
  show "dget (dl_floors (fst (durable_take mode r st))) (nonce_account r) = Some (nr_sequence r)"
    if "mode = STRICT" "snd (durable_take mode r st)"
    using cases that by (auto simp: durable_take_def dget_raise_floor split: option.splits)
  show "dget (dl_floors (fst (durable_take mode r st))) account = dget (dl_floors st) account"
    if "account \<noteq> nonce_account r \<or> \<not> snd (durable_take mode r st)"
    using cases that by (auto simp: durable_take_def dget_raise_floor)
qed simp

section \<open>So does the replay cache\<close>

definition cache_take :: "nonce_request \<Rightarrow> replay_cache \<Rightarrow> replay_cache \<times> bool" where
  "cache_take r c = (fst (admit r c), snd (admit r c) = None)"

definition ledger_stamp :: "replay_cache \<Rightarrow> nonce_identity \<Rightarrow> pyfloat option" where
  "ledger_stamp c = (case nc_durable c of Some st \<Rightarrow> dget (dl_nonces st) | None \<Rightarrow> dget (nc_entries c))"

definition ledger_window :: "replay_cache \<Rightarrow> time" where
  "ledger_window c = (case nc_durable c of Some st \<Rightarrow> dl_window st | None \<Rightarrow> nc_window c)"

definition ledger_floor :: "replay_cache \<Rightarrow> string \<times> string \<Rightarrow> int option" where
  "ledger_floor c = (case nc_durable c of Some st \<Rightarrow> dget (dl_floors st) | None \<Rightarrow> dget (nc_floors c))"

lemma live_live [simp]: "live_nonces w now (live_nonces w now d) = live_nonces w now d"
  by (simp add: live_nonces_def)

lemma record_memory_frame [simp]:
  "nc_durable (record_memory b r c) = nc_durable c" "nc_mode (record_memory b r c) = nc_mode c"
  "nc_window (record_memory b r c) = nc_window c" "nc_future_skew (record_memory b r c) = nc_future_skew c"
  "nc_max_entries (record_memory b r c) = nc_max_entries c"
  by (simp_all add: record_memory_def evict_def Let_def)

lemma admit_durable:
  assumes "nc_durable c = Some st"
  shows "(\<exists>refusal. admit r c = (c, Some refusal)) \<and> \<not> snd (durable_take (nc_mode c) r st)
    \<or> admit r c = (record_memory False r (c\<lparr>nc_durable := Some (fst (durable_take (nc_mode c) r st))\<rparr>), None)
      \<and> snd (durable_take (nc_mode c) r st)"
  using assms by (auto simp: admit_def durable_take_def split: prod.splits durable_result.splits)

lemma admit_memory:
  fixes r :: nonce_request
  assumes "nc_durable c = None"
  defines "live \<equiv> live_nonces (nc_window c) (nr_now r) (nc_entries c)"
  shows "(\<exists>refusal. admit r c = (c\<lparr>nc_entries := live\<rparr>, Some refusal))
    \<or> dget live (nonce_id r) = None \<and> int (length live) < nc_max_entries c
      \<and> (nc_mode c = STRICT \<longrightarrow> (\<forall>f. dget (nc_floors c) (nonce_account r) = Some f \<longrightarrow> f < nr_sequence r))
      \<and> admit r c = (c\<lparr>nc_entries := live @ [(nonce_id r, nr_timestamp r)],
                       nc_floors := (if nc_mode c = OFF then nc_floors c
                                     else raise_floor (nonce_account r) (nr_sequence r) (nc_floors c))\<rparr>, None)"
  using assms(1) unfolding live_def admit_def Let_def record_memory_def evict_def
  by (auto split: option.splits)

interpretation cache: nonce_ledger cache_take ledger_stamp ledger_window
proof unfold_locales
  fix r c i and t :: pyfloat
  show "ledger_window (fst (cache_take r c)) = ledger_window c"
  proof (cases "nc_durable c")
    case None
    from admit_memory [OF this, of r] show ?thesis using None by (auto simp: cache_take_def ledger_window_def)
  next
    case (Some st)
    from admit_durable [OF this, of r] show ?thesis
      using Some by (auto simp: cache_take_def ledger_window_def durable.retention_kept)
  qed
  show "\<not> snd (cache_take r c)" if "ledger_stamp c (nonce_id r) = Some t" "\<not> out_at (ledger_window c) (nr_now r) t"
  proof (cases "nc_durable c")
    case None
    then have "dget (live_nonces (nc_window c) (nr_now r) (nc_entries c)) (nonce_id r) = Some t"
      using that by (simp add: ledger_stamp_def ledger_window_def dget_live)
    then show ?thesis using admit_memory [OF None, of r] by (auto simp: cache_take_def)
  next
    case (Some st)
    then show ?thesis using admit_durable [OF Some, of r] that durable.live_refused [of st r t "nc_mode c"]
      by (auto simp: cache_take_def ledger_stamp_def ledger_window_def)
  qed
  show "ledger_stamp (fst (cache_take r c)) (nonce_id r) = Some (nr_timestamp r)" if "snd (cache_take r c)"
  proof (cases "nc_durable c")
    case None
    then show ?thesis using admit_memory [OF None, of r] that by (auto simp: cache_take_def ledger_stamp_def dget_append)
  next
    case (Some st)
    then show ?thesis using admit_durable [OF Some, of r] that durable.taken_stored [of "nc_mode c" r st]
      by (auto simp: cache_take_def ledger_stamp_def)
  qed
  show "ledger_stamp (fst (cache_take r c)) i = Some t"
    if "ledger_stamp c i = Some t" "\<not> out_at (ledger_window c) (nr_now r) t"
  proof (cases "nc_durable c")
    case None
    then have "dget (live_nonces (nc_window c) (nr_now r) (nc_entries c)) i = Some t"
      using that by (simp add: ledger_stamp_def ledger_window_def dget_live)
    then show ?thesis using admit_memory [OF None, of r] None by (auto simp: cache_take_def ledger_stamp_def dget_append)
  next
    case (Some st)
    then show ?thesis using admit_durable [OF Some, of r] that durable.live_kept [of st i t r "nc_mode c"]
      by (auto simp: cache_take_def ledger_stamp_def ledger_window_def)
  qed
qed

interpretation cache: floored_ledger cache_take ledger_stamp ledger_window ledger_floor "\<lambda>c. nc_mode c = STRICT"
proof unfold_locales
  fix r c account and f :: int
  show "(nc_mode (fst (cache_take r c)) = STRICT) = (nc_mode c = STRICT)"
    using admit_memory [of c r] admit_durable [of c _ r] by (cases "nc_durable c") (auto simp: cache_take_def)
  show "\<not> snd (cache_take r c)"
    if "nc_mode c = STRICT" "ledger_floor c (nonce_account r) = Some f" "nr_sequence r \<le> f"
    using that admit_memory [of c r] admit_durable [of c _ r] durable.floor_refuses [of STRICT _ r f]
    by (cases "nc_durable c") (auto simp: cache_take_def ledger_floor_def)
  show "ledger_floor (fst (cache_take r c)) (nonce_account r) = Some (nr_sequence r)"
    if "nc_mode c = STRICT" "snd (cache_take r c)"
    using that admit_memory [of c r] admit_durable [of c _ r] durable.floor_raised [of STRICT r]
    by (cases "nc_durable c") (auto simp: cache_take_def ledger_floor_def dget_raise_floor split: option.splits)
  show "ledger_floor (fst (cache_take r c)) account = ledger_floor c account"
    if "account \<noteq> nonce_account r \<or> \<not> snd (cache_take r c)"
    using that admit_memory [of c r] admit_durable [of c _ r] durable.floor_others [of account r "nc_mode c"]
    by (cases "nc_durable c") (auto simp: cache_take_def ledger_floor_def dget_raise_floor)
qed

section \<open>What a verification accepts\<close>

text \<open>
  The frame names a live key that is bound to the connection's sender, is inside the clock window and
  carries the HMAC of its canonical text; \<open>r\<close> is the identity it asks to spend.
\<close>

definition authentic ::
  "(time \<Rightarrow> string) \<Rightarrow> (string, message_auth_key) pydict \<Rightarrow> replay_cache \<Rightarrow> string \<Rightarrow> json_object \<Rightarrow> nonce_request \<Rightarrow> bool" where
  "authentic fl keys c sender f r \<longleftrightarrow>
     (\<exists>auth key supplied.
        get_field f ''auth'' = JObject auth \<and> body_text auth ''kid'' = Inr (nr_key_id r)
        \<and> dget keys (nr_key_id r) = Some key \<and> \<not> mk_revoked key
        \<and> body_text f ''sender'' = Inr sender \<and> nr_sender r = sender \<and> sender \<in> set (mk_senders key)
        \<and> body_text auth ''alg'' = Inr AUTH_ALGORITHM
        \<and> stamp_of auth ''timestamp'' = Inr (Some (nr_timestamp r)) \<and> in_window c (nr_now r) (nr_timestamp r)
        \<and> dget auth ''sequence'' = Some (JInt (nr_sequence r)) \<and> 1 \<le> nr_sequence r
        \<and> body_text auth ''nonce'' = Inr (nr_nonce r) \<and> nr_nonce r \<noteq> []
        \<and> body_text auth ''value'' = Inr supplied
        \<and> supplied = hex_of (hmac_sha256 (mk_secret key) (canonical_frame fl f)))"

lemma hmac_hex_nonempty [simp]: "hex_of (hmac_sha256 k m) \<noteq> []"
proof
  assume "hex_of (hmac_sha256 k m) = []"
  then have "length (hmac_sha256 k m) = 0" using hex_of_length [of "hmac_sha256 k m"] by simp
  then show False by (simp add: hmac_sha256_def Let_def)
qed

lemma digest_matches_hex [simp]: "digest_matches (hex_of a) (hex_of a) = Inr True"
  by (simp add: digest_matches_def compare_digest_hex)

lemma digest_matches_Inr: "digest_matches a b = Inr True \<Longrightarrow> a = b"
  by (auto simp: digest_matches_def compare_digest_def split: if_splits sum.splits)

lemma check_frame_sound:
  assumes "check_frame fl keys c now disk sender f = Inr (Inr r)"
  shows "authentic fl keys c sender f r \<and> nr_now r = now \<and> nr_disk r = disk"
  using assms
  by (auto simp: check_frame_def sum_bind_def authentic_def nonce_request_of_def dest!: digest_matches_Inr
      split: sum.split_asm json.split_asm option.split_asm if_split_asm)

lemma check_frame_complete:
  assumes "authentic fl keys c sender f r"
  shows "check_frame fl keys c (nr_now r) (nr_disk r) sender f = Inr (Inr r)"
  using assms by (auto simp: check_frame_def authentic_def nonce_request_of_def)

lemma check_frame_never_OK: "check_frame fl keys c now disk sender f \<noteq> Inr (Inl OK)"
  by (simp add: check_frame_def sum_bind_def split: sum.split json.split option.split)

text \<open>A verification either leaves the ledger alone or asks it once, for an authentic frame.\<close>

lemma verify_frame_cases:
  obtains (untouched) verdict where "verify_frame fl keys now disk sender f c = (c, verdict)" "verdict \<noteq> Inr OK"
  | (asked) r where "authentic fl keys c sender f r" "nr_now r = now" "nr_disk r = disk"
      "fst (verify_frame fl keys now disk sender f c) = fst (cache_take r c)"
      "snd (verify_frame fl keys now disk sender f c) = Inr OK \<longleftrightarrow> snd (cache_take r c)"
proof (cases "check_frame fl keys c now disk sender f")
  case (Inl e)
  then show ?thesis using untouched by (simp add: verify_frame_def)
next
  case (Inr b)
  show ?thesis
  proof (cases b)
    case (Inl refusal)
    have "refusal \<noteq> OK" using Inr Inl check_frame_never_OK by blast
    then show ?thesis using untouched Inr Inl by (simp add: verify_frame_def)
  next
    case r: (Inr r)
    have never: "snd (admit r c) \<noteq> Some OK"
      by (auto simp: admit_def Let_def split: option.splits prod.splits durable_result.splits)
    obtain c' v where a: "admit r c = (c', v)" by fastforce
    show ?thesis
      using asked [of r] check_frame_sound [of fl keys c now disk sender f r] Inr r never
      by (cases v) (auto simp: verify_frame_def cache_take_def a)
  qed
qed

section \<open>Runs of verifications\<close>

text \<open>A hub verifies frames under whatever keys it holds then, and may be started again.\<close>

datatype auth_step = Verify "(string, message_auth_key) pydict" time bool string json_object | Restart

definition restarted :: "replay_cache \<Rightarrow> replay_cache" where
  "restarted c = new_replay_cache (nc_window c) (nc_max_entries c) (nc_future_skew c) (nc_durable c) (nc_mode c)"

text \<open>The frames that were accepted, in order.\<close>

fun auth_run :: "(time \<Rightarrow> string) \<Rightarrow> auth_step list \<Rightarrow> replay_cache \<Rightarrow> replay_cache \<times> json_object list" where
  "auth_run fl [] c = (c, [])"
| "auth_run fl (Restart # rest) c = auth_run fl rest (restarted c)"
| "auth_run fl (Verify keys now disk sender f # rest) c =
     (let (c', verdict) = verify_frame fl keys now disk sender f c; (c'', taken) = auth_run fl rest c'
      in (c'', if verdict = Inr OK then f # taken else taken))"

fun clock_readings :: "auth_step list \<Rightarrow> time list" where
  "clock_readings [] = []"
| "clock_readings (Restart # rest) = clock_readings rest"
| "clock_readings (Verify keys now disk sender f # rest) = now # clock_readings rest"

definition auth_part :: "json_object \<Rightarrow> json_object" where
  "auth_part f = (case get_field f ''auth'' of JObject auth \<Rightarrow> auth | _ \<Rightarrow> [])"

definition signed_account :: "json_object \<Rightarrow> (auth_error + string) \<times> (auth_error + string)" where
  "signed_account f = (body_text (auth_part f) ''kid'', body_text f ''sender'')"

definition signed_nonce :: "json_object \<Rightarrow> ((auth_error + string) \<times> (auth_error + string)) \<times> (auth_error + string) \<times> (auth_error + pyfloat option)" where
  "signed_nonce f = (signed_account f, body_text (auth_part f) ''nonce'', stamp_of (auth_part f) ''timestamp'')"

definition signed_sequence :: "json_object \<Rightarrow> int" where
  "signed_sequence f = (case get_field (auth_part f) ''sequence'' of JInt q \<Rightarrow> q | _ \<Rightarrow> 0)"

lemma authentic_reads:
  assumes "authentic fl keys c sender f r"
  shows "signed_account f = (Inr (nr_key_id r), Inr (nr_sender r))" "signed_sequence f = nr_sequence r"
    "signed_nonce f = ((Inr (nr_key_id r), Inr (nr_sender r)), Inr (nr_nonce r), Inr (Some (nr_timestamp r)))"
  using assms
  by (auto simp: authentic_def signed_account_def signed_nonce_def signed_sequence_def auth_part_def get_field_def get_or_def)

text \<open>What keeps the ledger useful to the cache: it retains a nonce for as long as the window accepts it.\<close>

definition covered :: "replay_cache \<Rightarrow> bool" where
  "covered c \<longleftrightarrow> nc_window c \<le> ledger_window c \<and> 1 / 1000 \<le> nc_window c"

lemma covered_take [simp]: "covered (fst (cache_take r c)) = covered c"
proof -
  have "nc_window (fst (cache_take r c)) = nc_window c"
    using admit_memory [of c r] admit_durable [of c _ r] by (cases "nc_durable c") (auto simp: cache_take_def)
  then show ?thesis by (simp add: covered_def cache.retention_kept)
qed

lemma durable_take_kept: "(nc_durable (fst (cache_take r c)) = None) = (nc_durable c = None)"
  using admit_memory [of c r] admit_durable [of c _ r] by (cases "nc_durable c") (auto simp: cache_take_def)

lemma restarted_ledger:
  "nc_durable c \<noteq> None \<Longrightarrow> ledger_stamp (restarted c) = ledger_stamp c"
  "nc_durable c \<noteq> None \<Longrightarrow> ledger_floor (restarted c) = ledger_floor c"
  "nc_durable c \<noteq> None \<Longrightarrow> ledger_window (restarted c) = ledger_window c"
  "nc_durable (restarted c) = nc_durable c" "nc_mode (restarted c) = nc_mode c"
  by (auto simp: restarted_def new_replay_cache_def ledger_stamp_def ledger_window_def ledger_floor_def)

lemma covered_restarted: "covered c \<Longrightarrow> nc_durable c \<noteq> None \<Longrightarrow> covered (restarted c)"
  by (auto simp: covered_def restarted_ledger) (auto simp: restarted_def new_replay_cache_def)

lemma authentic_fresh: "authentic fl keys c sender f r \<Longrightarrow> covered c \<Longrightarrow> \<not> out_at (ledger_window c) (nr_now r) (nr_timestamp r)"
  using out_at_longer [of "ledger_window c" "nr_now r" "nr_timestamp r" "nc_window c"]
  by (auto simp: authentic_def in_window_def covered_def out_at_def)

text \<open>The restarts that the ledger survives.\<close>

definition restarts_durably :: "auth_step list \<Rightarrow> replay_cache \<Rightarrow> bool" where
  "restarts_durably steps c \<longleftrightarrow> Restart \<notin> set steps \<or> nc_durable c \<noteq> None"

lemma restarts_durably_Cons [simp]:
  "restarts_durably (Restart # steps) c \<longleftrightarrow> nc_durable c \<noteq> None"
  "restarts_durably (Verify keys now disk sender f # steps) c = restarts_durably steps c"
  "restarts_durably steps (fst (cache_take r c)) = restarts_durably steps c"
  using durable_take_kept [of r c] by (auto simp: restarts_durably_def)

lemma run_refuses_spent:
  assumes "cache.spent c now (kid, sender, nonce) t" "sorted (now # clock_readings steps)" "restarts_durably steps c" "covered c"
    and "f \<in> set (snd (auth_run fl steps c))"
  shows "signed_nonce f \<noteq> ((Inr kid, Inr sender), Inr nonce, Inr (Some t))"
  using assms
proof (induction fl steps c arbitrary: now rule: auth_run.induct)
  case (2 fl rest c)
  have d: "nc_durable c \<noteq> None" using "2.prems" by simp
  have "restarts_durably rest (restarted c)" using d by (simp add: restarts_durably_def restarted_ledger)
  moreover have "cache.spent (restarted c) now (kid, sender, nonce) t"
    using "2.prems"(1) d by (simp add: cache.spent_def restarted_ledger)
  ultimately show ?case using "2.IH" "2.prems" covered_restarted [OF _ d] by simp
next
  case (3 fl keys now' disk sender' f' rest c)
  obtain c' verdict where v: "verify_frame fl keys now' disk sender' f' c = (c', verdict)" by fastforce
  note IH = "3.IH" [OF v [symmetric] refl]
  have le: "now \<le> now'" "sorted (now' # clock_readings rest)" using "3.prems" by auto
  have in_rest: "f \<in> set (snd (auth_run fl rest c')) \<or> (verdict = Inr OK \<and> f = f')"
    using "3.prems"(5) v by (auto simp: Let_def split: prod.splits if_splits)
  show ?case
  proof (cases rule: verify_frame_cases [of fl keys now' disk sender' f' c])
    case (untouched verdict')
    have "sorted (now # clock_readings rest)" using "3.prems"(2) by auto
    then show ?thesis using IH [of now] untouched v in_rest "3.prems" by auto
  next
    case (asked r)
    have c': "c' = fst (cache_take r c)" using asked v by simp
    have "cache.spent c' now' (kid, sender, nonce) t"
      using cache.spent_kept [OF "3.prems"(1), of r] le asked by (simp add: c')
    then have later: "f \<in> set (snd (auth_run fl rest c')) \<Longrightarrow> ?thesis"
      using IH [of now'] le "3.prems" by (simp add: c')
    have "\<not> snd (cache_take r c)" if "signed_nonce f' = ((Inr kid, Inr sender), Inr nonce, Inr (Some t))"
    proof -
      have "nonce_id r = (kid, sender, nonce)" "nr_timestamp r = t"
        using that authentic_reads(3) [OF asked(1)] by (simp_all add: nonce_id_def)
      then show ?thesis
        using cache.spent_refused [of c now r] "3.prems"(1,4) le authentic_fresh [OF asked(1)] asked(2) by simp
    qed
    then show ?thesis using later in_rest asked(5) v by auto
  qed
qed simp

text \<open>C9: Over any run of a hub - any keys, frames from any senders, a clock that does not run
  backwards, restarts as long as the ledger is durable, disk failures - no two accepted frames carry the
  same key, sender, nonce and timestamp; so no signed frame is ever accepted twice.  The ledger must
  retain nonces for at least the window, as the hub configures it.\<close>

theorem no_frame_accepted_twice:
  assumes "covered c" "restarts_durably steps c" "sorted (clock_readings steps)"
  shows "distinct (map signed_nonce (snd (auth_run fl steps c)))"
  using assms
proof (induction fl steps c rule: auth_run.induct)
  case (2 fl rest c)
  then show ?case by (simp add: covered_restarted restarts_durably_def restarted_ledger)
next
  case (3 fl keys now disk sender f rest c)
  obtain c' verdict where v: "verify_frame fl keys now disk sender f c = (c', verdict)" by fastforce
  note IH = "3.IH" [OF v [symmetric] refl]
  have sorted: "sorted (now # clock_readings rest)" "sorted (clock_readings rest)" using "3.prems" by auto
  show ?case
  proof (cases rule: verify_frame_cases [of fl keys now disk sender f c])
    case (untouched verdict')
    then show ?thesis using IH sorted v "3.prems" by (auto simp: Let_def split: prod.split)
  next
    case (asked r)
    have c': "c' = fst (cache_take r c)" using asked v by simp
    have rest: "distinct (map signed_nonce (snd (auth_run fl rest c')))" using IH sorted "3.prems" by (simp add: c')
    have "signed_nonce f \<notin> signed_nonce ` set (snd (auth_run fl rest c'))" if "verdict = Inr OK"
    proof -
      have "snd (cache_take r c)" using that asked(5) v by simp
      then have "cache.spent c' now (nr_key_id r, nr_sender r, nr_nonce r) (nr_timestamp r)"
        using cache.taken_spent [of r c now] by (simp add: c' nonce_id_def)
      then have "signed_nonce g \<noteq> signed_nonce f" if "g \<in> set (snd (auth_run fl rest c'))" for g
        using run_refuses_spent [OF _ sorted(1) _ _ that] "3.prems" authentic_reads(3) [OF asked(1)] by (simp add: c')
      then show ?thesis by (metis imageE)
    qed
    then show ?thesis using rest v by (auto simp: Let_def split: prod.split)
  qed
qed simp

lemma run_outruns_floor:
  assumes "cache.floored c (kid, sender) q" "nc_mode c = STRICT" "restarts_durably steps c"
    and "f \<in> set (snd (auth_run fl steps c))" "signed_account f = (Inr kid, Inr sender)"
  shows "q < signed_sequence f"
  using assms
proof (induction fl steps c rule: auth_run.induct)
  case (2 fl rest c)
  then show ?case by (simp add: restarts_durably_def restarted_ledger cache.floored_def)
next
  case (3 fl keys now disk sender' f' rest c)
  obtain c' verdict where v: "verify_frame fl keys now disk sender' f' c = (c', verdict)" by fastforce
  note IH = "3.IH" [OF v [symmetric] refl]
  have in_rest: "f \<in> set (snd (auth_run fl rest c')) \<or> (verdict = Inr OK \<and> f = f')"
    using "3.prems"(4) v by (auto simp: Let_def split: prod.splits if_splits)
  show ?case
  proof (cases rule: verify_frame_cases [of fl keys now disk sender' f' c])
    case (untouched verdict')
    then show ?thesis using IH v in_rest "3.prems" by auto
  next
    case (asked r)
    have c': "c' = fst (cache_take r c)" using asked v by simp
    have strict: "nc_mode c' = STRICT" using cache.strict_kept [of r c] "3.prems"(2) by (simp add: c')
    have later: "q < signed_sequence f" if "f \<in> set (snd (auth_run fl rest c'))"
      using IH cache.floored_kept [OF "3.prems"(2,1), of r] strict "3.prems" that by (simp add: c')
    have "q < signed_sequence f" if "verdict = Inr OK" "f = f'"
    proof -
      have "snd (cache_take r c)" using that asked(5) v by simp
      moreover have "nonce_account r = (kid, sender)"
        using authentic_reads(1) [OF asked(1)] "3.prems"(5) that by (simp add: nonce_account_def)
      ultimately show ?thesis
        using cache.floored_refuses [OF "3.prems"(2), of r q] "3.prems"(1) authentic_reads(2) [OF asked(1)] that by simp
    qed
    then show ?thesis using later in_rest by blast
  qed
qed simp

text \<open>C10: Under a strict sequence floor the frames a hub accepts from one key and sender carry strictly
  increasing sequences, whatever its clock does and, with a durable ledger, across restarts.\<close>

theorem strict_sequences_increase:
  assumes "nc_mode c = STRICT" "restarts_durably steps c"
  shows "sorted_wrt (\<lambda>f g. signed_account f = signed_account g \<longrightarrow> signed_sequence f < signed_sequence g)
    (snd (auth_run fl steps c))"
  using assms
proof (induction fl steps c rule: auth_run.induct)
  case (2 fl rest c)
  then show ?case by (simp add: restarts_durably_def restarted_ledger)
next
  case (3 fl keys now disk sender f rest c)
  obtain c' verdict where v: "verify_frame fl keys now disk sender f c = (c', verdict)" by fastforce
  note IH = "3.IH" [OF v [symmetric] refl]
  show ?case
  proof (cases rule: verify_frame_cases [of fl keys now disk sender f c])
    case (untouched verdict')
    then show ?thesis using IH v "3.prems" by (auto simp: Let_def split: prod.split)
  next
    case (asked r)
    have c': "c' = fst (cache_take r c)" using asked v by simp
    have strict: "nc_mode c' = STRICT" using cache.strict_kept [of r c] "3.prems"(1) by (simp add: c')
    have "signed_sequence f < signed_sequence g"
      if "verdict = Inr OK" "g \<in> set (snd (auth_run fl rest c'))" "signed_account f = signed_account g" for g
    proof -
      have "snd (cache_take r c)" using that asked(5) v by simp
      then have "cache.floored c' (nr_key_id r, nr_sender r) (nr_sequence r)"
        using cache.taken_floored [OF "3.prems"(1), of r] by (simp add: c' nonce_account_def)
      then show ?thesis
        using run_outruns_floor [OF _ strict _ that(2)] "3.prems"(2) authentic_reads [OF asked(1)] that(3) by (simp add: c')
    qed
    then show ?thesis using IH strict v "3.prems"(2) by (auto simp: Let_def c' split: prod.split)
  qed
qed simp

section \<open>Signing\<close>

lemma ddel_fresh_last: "dget d k = None \<Longrightarrow> ddel k (d @ [(k, v)]) = d"
  by (induction d) auto

lemma canonical_of_signed:
  assumes "dget meta ''value'' = None"
  shows "canonical_frame fl (dset ''auth'' (JObject (meta @ [(''value'', v)])) f) = canonical_frame fl (dset ''auth'' (JObject meta) f)"
  using assms by (simp add: canonical_frame_def without_value_def ddel_fresh_last ddel_absent)

lemma dset_dset [simp]: "dset k v (dset k w d) = dset k v d"
  by (induction d) auto

lemma body_text_string: "dget d k = Some (JString s) \<Longrightarrow> body_text d k = Inr s"
  by (cases s) (simp_all add: body_text_def text_field_def get_field_def get_or_def)

text \<open>The envelope of \<open>sign_frame\<close>, with any timestamp that a frame can carry.\<close>

definition signed_envelope :: "(time \<Rightarrow> string) \<Rightarrow> json_object \<Rightarrow> message_auth_key \<Rightarrow> string \<Rightarrow> int \<Rightarrow> json \<Rightarrow> json_object" where
  "signed_envelope fl f key nonce q stamp =
     (let meta = [(''alg'', JString AUTH_ALGORITHM), (''kid'', JString (mk_key_id key)), (''nonce'', JString nonce),
                  (''sequence'', JInt q), (''timestamp'', stamp)]
      in dset ''auth'' (JObject (meta @ [(''value'',
           JString (hex_of (hmac_sha256 (mk_secret key) (canonical_frame fl (dset ''auth'' (JObject meta) f)))))])) f)"

lemma sign_frame_envelope: "sign_frame fl f key nonce q stamp = signed_envelope fl f key nonce q (JFloat (Finite stamp))"
  by (simp add: sign_frame_def signed_envelope_def auth_metadata_def Let_def)

lemma envelope_authentic:
  assumes "dget keys (mk_key_id key) = Some key" "\<not> mk_revoked key" "sender \<in> set (mk_senders key)"
    and "body_text f ''sender'' = Inr sender" "stamp_of [(''timestamp'', stamp)] ''timestamp'' = Inr (Some t)" "in_window c now t"
    and "1 \<le> q" "nonce \<noteq> []"
  shows "authentic fl keys c sender (signed_envelope fl f key nonce q stamp)
    (nonce_request_of (mk_key_id key) sender nonce q t now disk)"
proof -
  let ?f = "signed_envelope fl f key nonce q stamp"
  let ?meta = "[(''alg'', JString AUTH_ALGORITHM), (''kid'', JString (mk_key_id key)), (''nonce'', JString nonce),
      (''sequence'', JInt q), (''timestamp'', stamp)]"
  let ?mac = "hex_of (hmac_sha256 (mk_secret key) (canonical_frame fl ?f))"
  have canon: "canonical_frame fl (dset ''auth'' (JObject (?meta @ [(''value'', v)])) f) = canonical_frame fl (dset ''auth'' (JObject ?meta) f)" for v
    by (rule canonical_of_signed) simp
  have f: "?f = dset ''auth'' (JObject (?meta @ [(''value'', JString ?mac)])) f"
    unfolding signed_envelope_def Let_def canon by (rule refl)
  have auth: "get_field ?f ''auth'' = JObject (?meta @ [(''value'', JString ?mac)])"
    by (subst f) (simp add: get_field_def get_or_def)
  have sender: "body_text ?f ''sender'' = Inr sender"
    using assms(4) by (subst f) (simp add: body_text_def text_field_def get_field_def get_or_def)
  have stamp: "stamp_of (?meta @ [(''value'', JString ?mac)]) ''timestamp'' = Inr (Some t)"
    using assms(5) by (simp add: stamp_of_def)
  show ?thesis
    unfolding authentic_def
    by (rule exI [of _ "?meta @ [(''value'', JString ?mac)]"], rule exI [of _ key], rule exI [of _ ?mac])
      (use assms auth sender stamp in \<open>simp add: body_text_string nonce_request_of_def\<close>)
qed

lemma verify_authentic:
  assumes "authentic fl keys c sender f r"
  shows "verify_frame fl keys (nr_now r) (nr_disk r) sender f c
    = (fst (admit r c), Inr (case snd (admit r c) of None \<Rightarrow> OK | Some refusal \<Rightarrow> refusal))"
  using check_frame_complete [OF assms]
  by (cases "admit r c"; cases "snd (admit r c)") (simp_all add: verify_frame_def)

text \<open>C12: A frame signed by a client under a live key that is bound to its name passes every check of the
  hub that is within the clock window: its fate is the verdict of the replay ledger on its nonce.\<close>

theorem signed_frame_verifies:
  assumes "dget keys (mk_key_id key) = Some key" "\<not> mk_revoked key" "sender \<in> set (mk_senders key)"
    and "body_text f ''sender'' = Inr sender" "in_window c now (Finite stamp)" "1 \<le> q" "nonce \<noteq> []"
  shows "verify_frame fl keys now disk sender (sign_frame fl f key nonce q stamp) c
    = (let r = nonce_request_of (mk_key_id key) sender nonce q (Finite stamp) now disk
       in (fst (admit r c), Inr (case snd (admit r c) of None \<Rightarrow> OK | Some refusal \<Rightarrow> refusal)))"
proof -
  have "authentic fl keys c sender (sign_frame fl f key nonce q stamp)
      (nonce_request_of (mk_key_id key) sender nonce q (Finite stamp) now disk)"
    unfolding sign_frame_envelope by (rule envelope_authentic) (use assms in \<open>simp_all add: stamp_of_def\<close>)
  from verify_authentic [OF this] show ?thesis by (simp add: nonce_request_of_def Let_def)
qed

section \<open>Bounds\<close>

definition bounded :: "replay_cache \<Rightarrow> bool" where
  "bounded c \<longleftrightarrow> 1 \<le> nc_max_entries c \<and> int (length (nc_entries c)) \<le> nc_max_entries c
     \<and> (case nc_durable c of None \<Rightarrow> True | Some st \<Rightarrow> int (length (dl_nonces st)) \<le> dl_max_entries st)"

lemma length_live: "length (live_nonces w now d) \<le> length d"
  by (simp add: live_nonces_def)

lemma length_move_to_end: "dget d k \<noteq> None \<Longrightarrow> length (move_to_end k v d) \<le> length d"
proof (induction d)
  case (Cons kv d)
  then show ?case by (cases kv) (auto simp: move_to_end_def Suc_le_eq le_imp_less_Suc length_delete_le split: if_splits)
qed simp

lemma length_record_memory:
  assumes "1 \<le> nc_max_entries c" "int (length (nc_entries c)) \<le> nc_max_entries c"
  shows "int (length (nc_entries (record_memory b r c))) \<le> nc_max_entries c"
proof -
  let ?live = "live_nonces (nc_window c) (nr_now r) (nc_entries c)"
  have live: "int (length ?live) \<le> nc_max_entries c"
    using assms length_live [of "nc_window c" "nr_now r" "nc_entries c"] by linarith
  show ?thesis
  proof (cases "dget ?live (nonce_id r)")
    case None
    then show ?thesis using live assms(1) by (auto simp: record_memory_def evict_def Let_def)
  next
    case (Some t)
    then show ?thesis
      using live length_move_to_end [of ?live "nonce_id r" t] by (simp add: record_memory_def evict_def Let_def)
  qed
qed

lemma bounded_take: "bounded c \<Longrightarrow> bounded (fst (cache_take r c))"
proof (cases "nc_durable c")
  case None
  assume "bounded c"
  then show ?thesis
    using admit_memory [OF None, of r] None length_live [of "nc_window c" "nr_now r" "nc_entries c"]
    by (auto simp: bounded_def cache_take_def)
next
  case (Some st)
  assume b: "bounded c"
  have ledger: "int (length (dl_nonces (fst (durable_take mode r st)))) \<le> dl_max_entries (fst (durable_take mode r st))" for mode
    using durable_admit_cases [of mode r st] b Some by (auto simp: bounded_def durable_take_def)
  show ?thesis
    using admit_durable [OF Some, of r] b ledger
      length_record_memory [of "c\<lparr>nc_durable := Some (fst (durable_take (nc_mode c) r st))\<rparr>" False r]
    by (auto simp: bounded_def cache_take_def)
qed

text \<open>Neither the replay cache nor its durable ledger ever holds more nonces than its configured
  maximum, whatever frames arrive and however often the hub is restarted.\<close>

theorem replay_ledger_bounded:
  "bounded c \<Longrightarrow> bounded (fst (auth_run fl steps c))"
proof (induction fl steps c rule: auth_run.induct)
  case (2 fl rest c)
  then show ?case by (simp add: bounded_def restarted_def new_replay_cache_def)
next
  case (3 fl keys now disk sender f rest c)
  obtain c' verdict where v: "verify_frame fl keys now disk sender f c = (c', verdict)" by fastforce
  have "bounded c'"
    by (rule verify_frame_cases [of fl keys now disk sender f c]) (use v "3.prems" bounded_take in auto)
  then show ?case using "3.IH" [OF v [symmetric] refl] v by (auto simp: Let_def split: prod.split)
qed simp

section \<open>Frames that break it\<close>

lemma live_nan: "list_all (\<lambda>(i, t). t = NaN) d \<Longrightarrow> live_nonces w now d = d"
  by (induction d) (auto simp: live_nonces_def)

text \<open>A frame whose timestamp is the text nan passes the clock window at any time, and its nonce never
  expires; so once a cache without a durable ledger is full of such nonces, no frame from any sender is
  accepted again until the hub is restarted.\<close>

theorem nan_frames_jam_cache:
  assumes "nc_durable c = None" "list_all (\<lambda>(i, t). t = NaN) (nc_entries c)" "nc_max_entries c \<le> int (length (nc_entries c))"
    and "Restart \<notin> set steps"
  shows "snd (auth_run fl steps c) = []"
  using assms
proof (induction fl steps c rule: auth_run.induct)
  case (3 fl keys now disk sender f rest c)
  obtain c' verdict where v: "verify_frame fl keys now disk sender f c = (c', verdict)" by fastforce
  have step: "cache_take r c = (c, False)" for r
    using admit_memory [OF "3.prems"(1), of r] "3.prems"(3) by (auto simp: cache_take_def live_nan [OF "3.prems"(2)])
  have "c' = c \<and> verdict \<noteq> Inr OK"
    by (rule verify_frame_cases [of fl keys now disk sender f c]) (use v step in auto)
  then show ?case using "3.IH" [OF v [symmetric] refl] v "3.prems" by (auto simp: Let_def split: prod.split)
qed simp_all

text \<open>C13: Two frames of a bound sender leave the verification of the hub as exceptions instead of results: one
  whose timestamp is an integer beyond the floats, and one whose signature is not ASCII text.\<close>

theorem verification_escapes:
  assumes "get_field f ''auth'' = JObject auth" "body_text auth ''kid'' = Inr kid" "dget keys kid = Some key"
    and "\<not> mk_revoked key" "body_text f ''sender'' = Inr sender" "sender \<in> set (mk_senders key)"
    and "body_text auth ''alg'' = Inr AUTH_ALGORITHM"
  shows "(\<forall>i. dget auth ''timestamp'' = Some (JInt i) \<and> float_overflow \<le> \<bar>of_int i\<bar> \<longrightarrow>
      verify_frame fl keys now disk sender f c = (c, Inl Overflow_Raised))
    \<and> (\<forall>t q nonce supplied. stamp_of auth ''timestamp'' = Inr (Some t) \<and> in_window c now t
        \<and> dget auth ''sequence'' = Some (JInt q) \<and> 1 \<le> q \<and> body_text auth ''nonce'' = Inr nonce \<and> nonce \<noteq> []
        \<and> body_text auth ''value'' = Inr supplied \<and> \<not> list_all (\<lambda>ch. code_of ch < (128::nat)) supplied \<longrightarrow>
      verify_frame fl keys now disk sender f c = (c, Inl Type_Raised))"
  using assms
  by (auto simp: verify_frame_def check_frame_def stamp_of_def digest_matches_def compare_digest_def split: option.splits)

section \<open>The gate\<close>

text \<open>What the verification of a signed event accepts.\<close>

definition event_authentic ::
  "signature_check \<Rightarrow> (time \<Rightarrow> string) \<Rightarrow> (string, event_signature_key) pydict \<Rightarrow> replay_cache \<Rightarrow> string \<Rightarrow> string
   \<Rightarrow> json_object \<Rightarrow> nonce_request \<Rightarrow> bool" where
  "event_authentic check fl keys c sender project f r \<longleftrightarrow>
     (\<exists>sig key supplied payload.
        get_field f ''signature'' = JObject sig \<and> body_text sig ''key_id'' = Inr (nr_key_id r)
        \<and> dget keys (nr_key_id r) = Some key \<and> \<not> ek_revoked key
        \<and> (case ek_expires_at key of None \<Rightarrow> True | Some t \<Rightarrow> nr_now r \<le> t)
        \<and> body_text f ''sender'' = Inr sender \<and> nr_sender r = sender \<and> sender \<in> set (ek_senders key)
        \<and> (project \<noteq> [] \<longrightarrow> body_text f ''project'' = Inr project \<and> project \<in> set (ek_projects key))
        \<and> body_text sig ''algorithm'' = Inr EVENT_SIGNATURE_ALGORITHM
        \<and> signed_payload fl sig f = Inr payload
        \<and> stamp_of sig ''signed_at'' = Inr (Some (nr_timestamp r)) \<and> in_window c (nr_now r) (nr_timestamp r)
        \<and> dget sig ''sequence'' = Some (JInt (nr_sequence r)) \<and> 1 \<le> nr_sequence r
        \<and> body_text sig ''nonce'' = Inr (nr_nonce r) \<and> nr_nonce r \<noteq> []
        \<and> body_text sig ''value'' = Inr supplied \<and> check (ek_public_key key) supplied payload)"

lemma check_event_sound:
  assumes "check_event check fl keys c now disk sender project f = Inr (Inr r)"
  shows "event_authentic check fl keys c sender project f r \<and> nr_now r = now"
  using assms
  by (auto simp: check_event_def sum_bind_def event_authentic_def nonce_request_of_def not_less
      split: sum.split_asm json.split_asm option.split_asm if_split_asm)

lemma check_event_never_VALID: "check_event check fl keys c now disk sender project f \<noteq> Inr (Inl VALID)"
  by (simp add: check_event_def signed_payload_def sum_bind_def split: sum.split json.split option.split)

lemma event_valid:
  assumes "verify_event_signature check fl keys now disk sender project f c = (c', Inr VALID)"
  shows "\<exists>r. event_authentic check fl keys c sender project f r \<and> nr_now r = now \<and> cache_take r c = (c', True)"
proof (cases "check_event check fl keys c now disk sender project f")
  case (Inl e)
  then show ?thesis using assms by (simp add: verify_event_signature_def)
next
  case (Inr b)
  then obtain r where b: "b = Inr r"
    using assms check_event_never_VALID by (cases b) (auto simp: verify_event_signature_def)
  obtain c2 v where a: "admit r c = (c2, v)" by fastforce
  have "c2 = c' \<and> v = None"
    using assms Inr b a by (auto simp: verify_event_signature_def split: option.splits verification_result.splits)
  then have "cache_take r c = (c', True)" using a by (simp add: cache_take_def)
  then show ?thesis using check_event_sound [of check fl keys c now disk sender project f r] Inr b by auto
qed

text \<open>
  A signature over the frame that verifies now: an HMAC under a live key of the sender, or an event
  signature; it spends its nonce, so that the caches \<open>cs\<close> become \<open>cs'\<close>.
\<close>

definition frame_signed ::
  "signature_check \<Rightarrow> auth_gate \<Rightarrow> time \<Rightarrow> string \<Rightarrow> json_object \<Rightarrow> auth_caches \<Rightarrow> auth_caches \<Rightarrow> bool" where
  "frame_signed check gate now sender data cs cs' \<longleftrightarrow>
     (\<exists>r. nr_now r = now \<and>
       (if dget data ''auth'' \<noteq> None
        then authentic (env_float_text (ag_env gate)) (ag_keys gate) (ac_message cs) sender data r
          \<and> cache_take r (ac_message cs) = (ac_message cs', True) \<and> ac_event cs' = ac_event cs
        else \<exists>keys project. ag_bundle gate = Some keys \<and> body_text data ''project'' = Inr project
          \<and> event_authentic check (env_float_text (ag_env gate)) keys (ac_event cs) sender project data r
          \<and> cache_take r (ac_event cs) = (ac_event cs', True) \<and> ac_message cs' = ac_message cs))"

lemma verified_frame_signed:
  assumes "ag_required gate" "msg_type \<in> set DEFAULT_SIGNED_MESSAGE_TYPES"
    and "verify_per_message_auth check gate now disk sender msg_type data cs = (cs', Inr None)"
  shows "frame_signed check gate now sender data cs cs'"
proof (cases "dget data ''auth''")
  case (Some a)
  obtain c' v where v: "verify_frame (env_float_text (ag_env gate)) (ag_keys gate) now disk sender data (ac_message cs) = (c', v)"
    by fastforce
  have passed: "v = Inr OK" "cs' = cs\<lparr>ac_message := c'\<rparr>"
    using assms Some v
    by (auto simp: verify_per_message_auth_def Let_def split: sum.splits if_splits)
  then show ?thesis unfolding frame_signed_def
    by (cases rule: verify_frame_cases [of "env_float_text (ag_env gate)" "ag_keys gate" now disk sender data "ac_message cs"])
      (use v Some in \<open>auto intro!: prod_eqI\<close>)
next
  case None
  obtain sig keys project where g: "dget data ''signature'' = Some sig" "ag_bundle gate = Some keys" "body_text data ''project'' = Inr project"
    using assms None by (auto simp: verify_per_message_auth_def Let_def split: option.splits sum.splits)
  obtain c' v where v: "verify_event_signature check (env_float_text (ag_env gate)) keys now disk sender project data (ac_event cs) = (c', v)"
    by fastforce
  have "v = Inr VALID" "cs' = cs\<lparr>ac_event := c'\<rparr>"
    using assms None g v
    by (auto simp: verify_per_message_auth_def Let_def split: sum.splits if_splits)
  then show ?thesis unfolding frame_signed_def using event_valid [of check _ keys now disk sender project data "ac_event cs" c'] v g None by fastforce
qed

text \<open>C11: While message authentication is required, a frame of a signed type passes the gate only with an
  HMAC or an event signature that is genuine, fresh and made under a live key of its sender (one of the
  project the frame names, if it names one), and passing spends the nonce in the ledger of its profile.\<close>

theorem gate_passes_authentic:
  assumes "ag_required gate" "msg_type \<in> set DEFAULT_SIGNED_MESSAGE_TYPES"
    and "verify_per_message_auth check gate now disk sender msg_type data cs = (cs', Inr None)"
  shows "\<exists>r. nr_now r = now \<and>
     (if dget data ''auth'' \<noteq> None
      then authentic (env_float_text (ag_env gate)) (ag_keys gate) (ac_message cs) sender data r
        \<and> cache_take r (ac_message cs) = (ac_message cs', True) \<and> ac_event cs' = ac_event cs
      else \<exists>keys project. ag_bundle gate = Some keys \<and> body_text data ''project'' = Inr project
        \<and> event_authentic check (env_float_text (ag_env gate)) keys (ac_event cs) sender project data r
        \<and> cache_take r (ac_event cs) = (ac_event cs', True) \<and> ac_message cs' = ac_message cs)"
  using verified_frame_signed [OF assms] unfolding frame_signed_def .

text \<open>Both profiles of signed events are accepted, given a signature that checks.\<close>

lemma canonical_event_of_signed:
  assumes "dget meta ''value'' = None"
  shows "canonical_event_frame fl (dset ''signature'' (JObject (meta @ [(''value'', v)])) f)
    = canonical_event_frame fl (dset ''signature'' (JObject meta) f)"
  using assms by (simp add: canonical_event_frame_def without_value_def ddel_fresh_last ddel_absent)

lemma signed_event_authentic:
  assumes key: "dget keys kid = Some key" "\<not> ek_revoked key" "case ek_expires_at key of None \<Rightarrow> True | Some t \<Rightarrow> now \<le> t"
    and sender: "sender \<in> set (ek_senders key)" "body_text f ''sender'' = Inr sender"
    and project: "project \<noteq> [] \<longrightarrow> body_text f ''project'' = Inr project \<and> project \<in> set (ek_projects key)"
    and fresh: "in_window c now (Finite stamp)" "1 \<le> q" "nonce \<noteq> []"
    and signs: "\<forall>p. check (ek_public_key key) (sign p) p"
    and profile: "(v, domain) \<in> {(EVENT_SIGNATURE_VERSION, Some AEF_LEGACY_EVENT_DOMAIN), (LEGACY_EVENT_SIGNATURE_VERSION, None)}"
  shows "event_authentic check fl keys c sender project (sign_event_frame_profile sign fl f kid nonce q stamp v domain)
    (nonce_request_of kid sender nonce q (Finite stamp) now disk)"
proof -
  let ?f = "sign_event_frame_profile sign fl f kid nonce q stamp v domain"
  define meta where "meta = [(''version'', JInt v), (''key_id'', JString kid), (''algorithm'', JString EVENT_SIGNATURE_ALGORITHM),
      (''nonce'', JString nonce), (''sequence'', JInt q), (''signed_at'', JFloat (Finite stamp))]
      @ (case domain of None \<Rightarrow> [] | Some d \<Rightarrow> [(''domain'', JString d)])"
  define payload where "payload = (case domain of None \<Rightarrow> canonical_event_frame fl (dset ''signature'' (JObject meta) f)
      | Some d \<Rightarrow> aef_signature_preimage d (canonical_event_frame fl (dset ''signature'' (JObject meta) f)))"
  let ?sig = "meta @ [(''value'', JString (sign payload))]"
  have f: "?f = dset ''signature'' (JObject ?sig) f"
    by (simp only: sign_event_frame_profile_def Let_def meta_def payload_def)
  have no_value: "dget meta ''value'' = None" by (auto simp: meta_def split: option.split)
  have sig: "get_field ?f ''signature'' = JObject ?sig" by (simp add: f get_field_def get_or_def)
  have "canonical_event_frame fl ?f = canonical_event_frame fl (dset ''signature'' (JObject meta) f)"
    unfolding f by (rule canonical_event_of_signed [OF no_value])
  then have payload: "signed_payload fl ?sig ?f = Inr payload"
    using profile
    by (auto simp: signed_payload_def payload_def meta_def get_field_def get_or_def EVENT_SIGNATURE_VERSION_def LEGACY_EVENT_SIGNATURE_VERSION_def)
  have kept: "body_text ?f k = body_text f k" if "k \<noteq> ''signature''" for k
    using that by (simp add: f body_text_def text_field_def get_field_def get_or_def)
  have texts: "body_text ?sig ''key_id'' = Inr kid" "body_text ?sig ''algorithm'' = Inr EVENT_SIGNATURE_ALGORITHM"
      "body_text ?sig ''nonce'' = Inr nonce" "stamp_of ?sig ''signed_at'' = Inr (Some (Finite stamp))"
      "dget ?sig ''sequence'' = Some (JInt q)"
    by (simp_all add: meta_def body_text_string stamp_of_def)
  have supplied: "body_text ?sig ''value'' = Inr (sign payload)"
    using no_value by (intro body_text_string) (simp add: map_add_def)
  show ?thesis
    unfolding event_authentic_def
    by (rule exI [of _ ?sig], rule exI [of _ key], rule exI [of _ "sign payload"], rule exI [of _ payload])
      (use key sender project fresh signs sig payload kept texts supplied in \<open>simp add: nonce_request_of_def split: option.splits\<close>)
qed

section \<open>Encrypted payloads\<close>

text \<open>The envelopes a receiver opens, in order: their key, sender, id and date in milliseconds.\<close>

fun payload_run ::
  "(string \<times> string \<times> string \<times> int \<times> time \<times> bool) list \<Rightarrow> payload_guard \<Rightarrow> (string \<times> string \<times> string \<times> int) list" where
  "payload_run [] g = []"
| "payload_run ((fp, sender, i, ms, now, disk) # rest) g =
     (let (g', refusal) = payload_admit fp sender i ms now disk g
      in (if refusal = None then [(fp, sender, i, ms)] else []) @ payload_run rest g')"

definition payload_fresh :: "payload_guard \<Rightarrow> string \<times> string \<times> string \<times> int \<times> time \<times> bool \<Rightarrow> bool" where
  "payload_fresh g = (\<lambda>(fp, sender, i, ms, now, disk).
     of_int ms / 1000 \<le> now + pg_skew g \<and> now - pg_window g \<le> of_int ms / 1000)"

definition payload_ask :: "string \<times> string \<times> string \<times> int \<times> time \<times> bool \<Rightarrow> nonce_request" where
  "payload_ask = (\<lambda>(fp, sender, i, ms, now, disk). payload_request fp sender i ms now disk)"

lemma payload_run_takings:
  "map (\<lambda>(fp, sender, i, ms). ((fp, if sender = [] then ''-'' else sender, i), Finite (of_int ms / 1000))) (payload_run xs g)
   = map (\<lambda>r. (nonce_id r, nr_timestamp r)) (takings (durable_take OFF) (map payload_ask (filter (payload_fresh g) xs)) (pg_ledger g))"
proof (induction xs g rule: payload_run.induct)
  case (2 fp sender i ms now disk rest g)
  let ?r = "payload_request fp sender i ms now disk"
  obtain st result where a: "durable_admit OFF ?r (pg_ledger g) = (st, result)" by fastforce
  have result: "result \<noteq> DURABLE_SEQUENCE_MISMATCH"
    using a by (auto simp: durable_admit_def Let_def split: if_splits)
  show ?case
  proof (cases "payload_fresh g (fp, sender, i, ms, now, disk)")
    case True
    have fresh: "payload_fresh (g\<lparr>pg_ledger := st\<rparr>) = payload_fresh g" by (auto simp: payload_fresh_def)
    show ?thesis
      using "2.IH" True a result
      by (cases result) (auto simp: payload_fresh_def [of g] payload_admit_def durable_take_def payload_ask_def fresh Let_def
          payload_request_def nonce_id_def not_less)
  next
    case False
    then show ?thesis using "2.IH" by (auto simp: payload_fresh_def payload_admit_def Let_def not_le)
  qed
qed simp

text \<open>Over any run of a receiver with a clock that does not run backwards, no envelope is opened twice,
  in whatever order envelopes, replays and disk failures arrive.\<close>

theorem no_payload_opened_twice:
  assumes "pg_window g \<le> dl_window (pg_ledger g)" "sorted (map (\<lambda>(fp, sender, i, ms, now, disk). now) xs)"
  shows "distinct (payload_run xs g)"
proof -
  let ?rs = "map payload_ask (filter (payload_fresh g) xs)"
  have "map nr_now ?rs = map (\<lambda>(fp, sender, i, ms, now, disk). now) (filter (payload_fresh g) xs)"
    by (auto simp: payload_ask_def payload_request_def)
  then have "sorted (map nr_now ?rs)" using assms(2) by (simp only: sorted_filter)
  moreover have "\<forall>r\<in>set ?rs. \<not> out_at (dl_window (pg_ledger g)) (nr_now r) (nr_timestamp r)"
    using assms(1) by (auto simp: payload_ask_def payload_request_def payload_fresh_def out_at_def)
  ultimately have "distinct (map (\<lambda>r. (nonce_id r, nr_timestamp r)) (takings (durable_take OFF) ?rs (pg_ledger g)))"
    by (rule durable.takings_distinct)
  then have "distinct (map (\<lambda>(fp, sender, i, ms). ((fp, if sender = [] then ''-'' else sender, i), Finite (of_int ms / 1000))) (payload_run xs g))"
    by (simp only: payload_run_takings)
  then show ?thesis by (simp add: distinct_map)
qed

section \<open>Witnesses\<close>

definition demo_key :: message_auth_key where
  "demo_key = \<lparr>mk_key_id = ''k'', mk_secret = [], mk_senders = [''a''], mk_revoked = False\<rparr>"

definition demo_keys :: "(string, message_auth_key) pydict" where
  "demo_keys = [(''k'', demo_key)]"

definition demo_cache :: replay_cache where
  "demo_cache = new_replay_cache 60 1 0 None STRICT"

definition demo_signed :: "(time \<Rightarrow> string) \<Rightarrow> string \<Rightarrow> int \<Rightarrow> json \<Rightarrow> json_object" where
  "demo_signed fl = signed_envelope fl [(''sender'', JString ''a'')] demo_key"

lemma demo_authentic:
  assumes "stamp_of [(''timestamp'', stamp)] ''timestamp'' = Inr (Some t)" "in_window c now t" "1 \<le> q" "nonce \<noteq> []"
  shows "authentic fl demo_keys c ''a'' (demo_signed fl nonce q stamp) (nonce_request_of ''k'' ''a'' nonce q t now disk)"
  unfolding demo_signed_def
  by (rule envelope_authentic [where key = demo_key, unfolded demo_key_def message_auth_key.simps, folded demo_key_def])
    (use assms in \<open>simp_all add: demo_keys_def demo_key_def body_text_string\<close>)

lemma demo_verify:
  assumes "stamp_of [(''timestamp'', stamp)] ''timestamp'' = Inr (Some t)" "in_window c now t" "1 \<le> q" "nonce \<noteq> []"
  shows "verify_frame fl demo_keys now disk ''a'' (demo_signed fl nonce q stamp) c
    = (let (c', v) = admit (nonce_request_of ''k'' ''a'' nonce q t now disk) c
       in (c', Inr (case v of None \<Rightarrow> OK | Some refusal \<Rightarrow> refusal)))"
  using verify_authentic [OF demo_authentic [OF assms, of fl disk]]
  by (simp add: nonce_request_of_def split: prod.split)

lemma demo_first:
  assumes "t = NaN \<or> t = Finite 0"
  shows "admit (nonce_request_of ''k'' ''a'' ''n'' 1 t 0 True) demo_cache
    = (demo_cache\<lparr>nc_entries := [((''k'', ''a'', ''n''), t)], nc_floors := [((''k'', ''a''), 1)]\<rparr>, None)"
    "in_window demo_cache 0 t"
  using assms
  by (auto simp: demo_cache_def new_replay_cache_def admit_def evict_def live_nonces_def record_memory_def nonce_request_of_def
      nonce_id_def nonce_account_def raise_floor_def in_window_def Let_def)

lemma demo_accepted:
  assumes "stamp_of [(''timestamp'', stamp)] ''timestamp'' = Inr (Some t)" "t = NaN \<or> t = Finite 0"
  shows "verify_frame fl demo_keys 0 True ''a'' (demo_signed fl ''n'' 1 stamp) demo_cache
    = (demo_cache\<lparr>nc_entries := [((''k'', ''a'', ''n''), t)], nc_floors := [((''k'', ''a''), 1)]\<rparr>, Inr OK)"
  using demo_verify [OF assms(1) demo_first(2) [OF assms(2)], of 1 "''n''" fl True] demo_first(1) [OF assms(2)] by simp

lemma stamp_zero: "stamp_of [(''timestamp'', JFloat (Finite 0))] ''timestamp'' = Inr (Some (Finite 0))"
  by (simp add: stamp_of_def)

lemma stamp_nan: "stamp_of [(''timestamp'', JString ''nan'')] ''timestamp'' = Inr (Some NaN)"
  by code_simp

lemma two_steps:
  "auth_run fl [Verify keys now disk sender f, Verify keys' now' disk' sender' g] c
   = (let (c1, v1) = verify_frame fl keys now disk sender f c; (c2, v2) = verify_frame fl keys' now' disk' sender' g c1
      in (c2, (if v1 = Inr OK then [f] else []) @ (if v2 = Inr OK then [g] else [])))"
  by (simp split: prod.split)

theorem no_frame_accepted_twice_witness:
  "\<forall>fl. let f = demo_signed fl ''n'' 1 (JFloat (Finite 0))
    in snd (auth_run fl [Verify demo_keys 0 True ''a'' f, Verify demo_keys 1 True ''a'' f] demo_cache) = [f]"
proof
  fix fl
  let ?f = "demo_signed fl ''n'' 1 (JFloat (Finite 0))"
  have "distinct (map signed_nonce (snd (auth_run fl [Verify demo_keys 0 True ''a'' ?f, Verify demo_keys 1 True ''a'' ?f] demo_cache)))"
    by (rule no_frame_accepted_twice)
      (simp_all add: demo_cache_def new_replay_cache_def covered_def ledger_window_def restarts_durably_def)
  then show "let f = ?f in snd (auth_run fl [Verify demo_keys 0 True ''a'' f, Verify demo_keys 1 True ''a'' f] demo_cache) = [f]"
    using demo_accepted [OF stamp_zero, of fl] unfolding two_steps by (auto split: prod.splits if_splits)
qed

theorem strict_sequences_increase_witness:
  "\<forall>fl. let f = demo_signed fl ''n'' 1 (JFloat (Finite 0)); g = demo_signed fl ''m'' 1 (JFloat (Finite 1000))
    in snd (auth_run fl [Verify demo_keys 0 True ''a'' f, Verify demo_keys 1000 True ''a'' g] demo_cache) = [f]"
proof
  fix fl
  let ?f = "demo_signed fl ''n'' 1 (JFloat (Finite 0))"
  let ?g = "demo_signed fl ''m'' 1 (JFloat (Finite 1000))"
  have "stamp_of [(''timestamp'', JFloat (Finite 1000))] ''timestamp'' = Inr (Some (Finite 1000))" by (simp add: stamp_of_def)
  moreover have "in_window demo_cache 1000 (Finite 1000)" by (simp add: in_window_def demo_cache_def new_replay_cache_def)
  ultimately have g: "authentic fl demo_keys demo_cache ''a'' ?g (nonce_request_of ''k'' ''a'' ''m'' 1 (Finite 1000) 1000 True)"
    by (intro demo_authentic) simp_all
  have f: "authentic fl demo_keys demo_cache ''a'' ?f (nonce_request_of ''k'' ''a'' ''n'' 1 (Finite 0) 0 True)"
    using demo_authentic [OF stamp_zero demo_first(2)] by simp
  have same: "signed_account ?f = signed_account ?g" "\<not> signed_sequence ?f < signed_sequence ?g"
    using authentic_reads [OF f] authentic_reads [OF g] by (simp_all add: nonce_request_of_def)
  have "sorted_wrt (\<lambda>f g. signed_account f = signed_account g \<longrightarrow> signed_sequence f < signed_sequence g)
      (snd (auth_run fl [Verify demo_keys 0 True ''a'' ?f, Verify demo_keys 1000 True ''a'' ?g] demo_cache))"
    by (rule strict_sequences_increase) (simp_all add: demo_cache_def new_replay_cache_def restarts_durably_def)
  then show "let f = ?f; g = ?g
    in snd (auth_run fl [Verify demo_keys 0 True ''a'' f, Verify demo_keys 1000 True ''a'' g] demo_cache) = [f]"
    using demo_accepted [OF stamp_zero, of fl] same unfolding two_steps by (auto split: prod.splits if_splits)
qed

theorem signed_frame_verifies_witness:
  "\<forall>fl. snd (verify_frame fl demo_keys 0 True ''a'' (sign_frame fl [(''sender'', JString ''a'')] demo_key ''n'' 1 0) demo_cache) = Inr OK"
proof
  fix fl
  have "verify_frame fl demo_keys 0 True ''a'' (sign_frame fl [(''sender'', JString ''a'')] demo_key ''n'' 1 0) demo_cache
    = (let r = nonce_request_of (mk_key_id demo_key) ''a'' ''n'' 1 (Finite 0) 0 True
       in (fst (admit r demo_cache), Inr (case snd (admit r demo_cache) of None \<Rightarrow> OK | Some refusal \<Rightarrow> refusal)))"
    by (rule signed_frame_verifies) (simp_all add: demo_first(2) demo_keys_def demo_key_def body_text_string)
  then show "snd (verify_frame fl demo_keys 0 True ''a'' (sign_frame fl [(''sender'', JString ''a'')] demo_key ''n'' 1 0) demo_cache) = Inr OK"
    by (simp add: demo_key_def demo_first(1))
qed

theorem replay_ledger_bounded_witness:
  "\<forall>fl. length (nc_entries (fst (auth_run fl [Verify demo_keys 0 True ''a'' (demo_signed fl ''n'' 1 (JFloat (Finite 0)))] demo_cache))) = 1"
proof
  fix fl
  let ?steps = "[Verify demo_keys 0 True ''a'' (demo_signed fl ''n'' 1 (JFloat (Finite 0)))]"
  have "bounded (fst (auth_run fl ?steps demo_cache))"
    by (rule replay_ledger_bounded) (simp add: bounded_def demo_cache_def new_replay_cache_def)
  then show "length (nc_entries (fst (auth_run fl ?steps demo_cache))) = 1"
    using demo_accepted [OF stamp_zero, of fl] by (simp add: bounded_def demo_cache_def new_replay_cache_def)
qed

theorem nan_frames_jam_cache_witness:
  "\<forall>fl. let f = demo_signed fl ''n'' 1 (JString ''nan''); g = demo_signed fl ''m'' 2 (JFloat (Finite 1000000))
    in snd (auth_run fl [Verify demo_keys 0 True ''a'' f, Verify demo_keys 1000000 True ''a'' g] demo_cache) = [f]"
proof
  fix fl
  let ?f = "demo_signed fl ''n'' 1 (JString ''nan'')"
  let ?g = "demo_signed fl ''m'' 2 (JFloat (Finite 1000000))"
  let ?c = "demo_cache\<lparr>nc_entries := [((''k'', ''a'', ''n''), NaN)], nc_floors := [((''k'', ''a''), 1)]\<rparr>"
  have "snd (auth_run fl [Verify demo_keys 1000000 True ''a'' ?g] ?c) = []"
    by (rule nan_frames_jam_cache) (simp_all add: demo_cache_def new_replay_cache_def)
  then show "let f = ?f; g = ?g
    in snd (auth_run fl [Verify demo_keys 0 True ''a'' f, Verify demo_keys 1000000 True ''a'' g] demo_cache) = [f]"
    using demo_accepted [OF stamp_nan, of fl] by (auto simp: Let_def split: prod.splits if_splits)
qed

theorem verification_escapes_witness:
  "\<forall>fl. verify_frame fl demo_keys 0 True ''a''
      [(''sender'', JString ''a''), (''auth'', JObject [(''kid'', JString ''k''), (''alg'', JString AUTH_ALGORITHM), (''timestamp'', JInt (2 ^ 1024))])]
      demo_cache = (demo_cache, Inl Overflow_Raised)"
proof
  fix fl
  let ?auth = "[(''kid'', JString ''k''), (''alg'', JString AUTH_ALGORITHM), (''timestamp'', JInt (2 ^ 1024))]"
  let ?f = "[(''sender'', JString ''a''), (''auth'', JObject ?auth)]"
  have big: "float_overflow \<le> \<bar>of_int (2 ^ 1024)\<bar>" unfolding float_overflow_def by simp
  have timestamp: "dget ?auth ''timestamp'' = Some (JInt (2 ^ 1024))" by simp
  have "(\<forall>i. dget ?auth ''timestamp'' = Some (JInt i) \<and> float_overflow \<le> \<bar>of_int i\<bar> \<longrightarrow>
      verify_frame fl demo_keys 0 True ''a'' ?f demo_cache = (demo_cache, Inl Overflow_Raised))"
    by (rule verification_escapes [where key = demo_key and kid = "''k''", THEN conjunct1])
      (simp_all add: demo_keys_def demo_key_def body_text_string get_field_def get_or_def)
  then show "verify_frame fl demo_keys 0 True ''a'' ?f demo_cache = (demo_cache, Inl Overflow_Raised)"
    using big timestamp by blast
qed

theorem gate_passes_authentic_witness:
  "\<forall>env check. \<exists>cs' r.
     verify_per_message_auth check \<lparr>ag_env = env, ag_required = True, ag_keys = demo_keys, ag_bundle = None\<rparr> 0 True ''a'' ''claim''
       (demo_signed (env_float_text env) ''n'' 1 (JFloat (Finite 0))) \<lparr>ac_message = demo_cache, ac_event = demo_cache\<rparr> = (cs', Inr None)
     \<and> cache_take r demo_cache = (ac_message cs', True)"
proof (intro allI)
  fix env :: hub_env and check
  let ?gate = "\<lparr>ag_env = env, ag_required = True, ag_keys = demo_keys, ag_bundle = None\<rparr>"
  let ?f = "demo_signed (env_float_text env) ''n'' 1 (JFloat (Finite 0))"
  let ?cs = "\<lparr>ac_message = demo_cache, ac_event = demo_cache\<rparr>"
  have auth: "dget ?f ''auth'' \<noteq> None" by (simp add: demo_signed_def signed_envelope_def Let_def)
  then obtain cs' where run: "verify_per_message_auth check ?gate 0 True ''a'' ''claim'' ?f ?cs = (cs', Inr None)"
    using demo_accepted [OF stamp_zero, of "env_float_text env"]
    by (simp add: verify_per_message_auth_def Let_def DEFAULT_SIGNED_MESSAGE_TYPES_def)
  have "\<exists>r. nr_now r = 0 \<and> (if dget ?f ''auth'' \<noteq> None
      then authentic (env_float_text (ag_env ?gate)) (ag_keys ?gate) (ac_message ?cs) ''a'' ?f r
        \<and> cache_take r (ac_message ?cs) = (ac_message cs', True) \<and> ac_event cs' = ac_event ?cs
      else \<exists>keys project. ag_bundle ?gate = Some keys \<and> body_text ?f ''project'' = Inr project
        \<and> event_authentic check (env_float_text (ag_env ?gate)) keys (ac_event ?cs) ''a'' project ?f r
        \<and> cache_take r (ac_event ?cs) = (ac_event cs', True) \<and> ac_message cs' = ac_message ?cs)"
    by (rule gate_passes_authentic [OF _ _ run]) (simp_all add: DEFAULT_SIGNED_MESSAGE_TYPES_def)
  then show "\<exists>cs' r. verify_per_message_auth check ?gate 0 True ''a'' ''claim'' ?f ?cs = (cs', Inr None)
     \<and> cache_take r demo_cache = (ac_message cs', True)"
    using run auth by auto
qed

theorem no_payload_opened_twice_witness:
  "payload_run [(''f'', ''a'', ''i'', 0, 0, True), (''f'', ''a'', ''i'', 0, 1, True)]
     \<lparr>pg_window = 60, pg_skew = 0, pg_ledger = \<lparr>dl_max_entries = 2, dl_window = 60, dl_nonces = [], dl_floors = []\<rparr>\<rparr>
   = [(''f'', ''a'', ''i'', 0)]"
proof -
  let ?g = "\<lparr>pg_window = 60, pg_skew = 0, pg_ledger = \<lparr>dl_max_entries = 2, dl_window = 60, dl_nonces = [], dl_floors = []\<rparr>\<rparr>"
  let ?xs = "[(''f'', ''a'', ''i'', 0, 0, True), (''f'', ''a'', ''i'', 0, 1, True)]"
  have "distinct (payload_run ?xs ?g)" by (rule no_payload_opened_twice) simp_all
  moreover have "\<exists>g'. payload_admit ''f'' ''a'' ''i'' 0 0 True ?g = (g', None)"
    by (simp add: payload_admit_def payload_request_def durable_admit_def live_nonces_def)
  ultimately show ?thesis by (auto split: prod.splits if_splits)
qed

end
