(* ===== verification/Client_Registry.thy ===== *)
theory Client_Registry
  imports Leasing
begin

text \<open>
  The names and sockets of the hub: \<open>HubClientRegistry\<close> of \<open>core/hub_clients.py\<close> with the ownership
  leases of \<open>core/name_ownership.py\<close>, and the registration of a sender
  (\<open>register_sender\<close> of \<open>core/hub_frame_registration.py\<close>, \<open>_register_frame\<close> of \<open>core/hub.py\<close>).
  A socket is a number; a method that changes the registry before its first await is one step, and
  what it sends and closes after that is in its result.  The minted lease token is an argument.
\<close>

section \<open>Ownership leases\<close>

type_synonym socket = nat

record name_ownership =
  ow_offline_ttl :: time
  ow_token_digests :: "(string, string) pydict"
  ow_offline_since :: "(string, time) pydict"

definition new_ownership :: "time \<Rightarrow> name_ownership" where
  "new_ownership offline_ttl = \<lparr>ow_offline_ttl = max offline_ttl 0, ow_token_digests = [], ow_offline_since = []\<rparr>"

definition token_digest :: "string \<Rightarrow> string" where
  "token_digest token = hex_of (sha256 (utf8 token))"

definition release_name :: "string \<Rightarrow> name_ownership \<Rightarrow> name_ownership" where
  "release_name n o' = o'\<lparr>ow_token_digests := ddel n (ow_token_digests o'), ow_offline_since := ddel n (ow_offline_since o')\<rparr>"

definition is_leased :: "time \<Rightarrow> string \<Rightarrow> name_ownership \<Rightarrow> name_ownership \<times> bool" where
  "is_leased now n o' =
     (if dget (ow_token_digests o') n = None then (o', False)
      else (case dget (ow_offline_since o') n of
              None \<Rightarrow> (o', True)
            | Some since \<Rightarrow> if ow_offline_ttl o' \<le> now - since then (release_name n o', False) else (o', True)))"

definition grant_lease :: "string \<Rightarrow> string \<Rightarrow> name_ownership \<Rightarrow> name_ownership" where
  "grant_lease n token o' =
     o'\<lparr>ow_token_digests := dset n (token_digest token) (ow_token_digests o'), ow_offline_since := ddel n (ow_offline_since o')\<rparr>"

definition matches_lease :: "time \<Rightarrow> string \<Rightarrow> string \<Rightarrow> name_ownership \<Rightarrow> name_ownership \<times> bool" where
  "matches_lease now n token o' =
     (if token = [] then (o', False)
      else (let (o2, leased) = is_leased now n o' in
            (o2, leased \<and> dget (ow_token_digests o2) n = Some (token_digest token))))"

definition mark_online :: "string \<Rightarrow> name_ownership \<Rightarrow> name_ownership" where
  "mark_online n o' = o'\<lparr>ow_offline_since := ddel n (ow_offline_since o')\<rparr>"

definition mark_offline :: "time \<Rightarrow> string \<Rightarrow> name_ownership \<Rightarrow> name_ownership" where
  "mark_offline now n o' =
     (if dget (ow_token_digests o') n \<noteq> None \<and> dget (ow_offline_since o') n = None
      then o'\<lparr>ow_offline_since := dset n now (ow_offline_since o')\<rparr> else o')"

section \<open>The registry\<close>

record delivery_session =
  ds_incarnation :: string
  ds_capabilities :: "(string, string) pydict"

record client_registry =
  cr_max_clients :: int
  cr_max_unauth :: int
  cr_max_per_host :: "int option"
  cr_takeover_cooldown :: time
  cr_oscillation_window :: time
  cr_oscillation_threshold :: int
  cr_takeover_quarantine :: time
  cr_ownership :: name_ownership
  cr_last_takeover :: "(string, time) pydict"
  cr_takeover_times :: "(string, time list) pydict"
  cr_quarantine_until :: "(string, time) pydict"
  cr_connected :: "socket set"
  cr_unauth :: "socket set"
  cr_agent_sockets :: "(string, socket) pydict"
  cr_socket_agent :: "(socket, string) pydict"
  cr_roles :: "(string, string list) pydict"
  cr_wake :: "(string, string) pydict"
  cr_sessions :: "(string, delivery_session) pydict"
  cr_versions :: "(string, int) pydict"
  cr_principals :: "(socket, string) pydict"
  cr_proofs :: "(socket, string \<times> string) pydict"
  cr_hosts :: "(socket, string) pydict"
  cr_host_counts :: "(string, int) pydict"
  cr_takeovers :: int
  cr_takeover_quarantines :: int

definition new_registry ::
  "int \<Rightarrow> int option \<Rightarrow> int option \<Rightarrow> time \<Rightarrow> time \<Rightarrow> int \<Rightarrow> time \<Rightarrow> time \<Rightarrow> client_registry" where
  "new_registry max_clients max_unauth max_per_host cooldown osc_window osc_threshold quarantine offline_ttl =
     \<lparr>cr_max_clients = max max_clients 1,
      cr_max_unauth = (case max_unauth of None \<Rightarrow> max max_clients 1 | Some m \<Rightarrow> max m 1),
      cr_max_per_host = map_option (\<lambda>m. max m 1) max_per_host,
      cr_takeover_cooldown = max cooldown 0, cr_oscillation_window = max osc_window 0,
      cr_oscillation_threshold = max osc_threshold 2, cr_takeover_quarantine = max quarantine 0,
      cr_ownership = new_ownership offline_ttl, cr_last_takeover = [], cr_takeover_times = [], cr_quarantine_until = [],
      cr_connected = {}, cr_unauth = {}, cr_agent_sockets = [], cr_socket_agent = [], cr_roles = [], cr_wake = [],
      cr_sessions = [], cr_versions = [], cr_principals = [], cr_proofs = [], cr_hosts = [], cr_host_counts = [],
      cr_takeovers = 0, cr_takeover_quarantines = 0\<rparr>"

section \<open>Sockets\<close>

definition at_capacity :: "client_registry \<Rightarrow> bool" where
  "at_capacity c \<longleftrightarrow> cr_max_clients c \<le> int (card (cr_connected c))"

definition unauthenticated_at_capacity :: "client_registry \<Rightarrow> bool" where
  "unauthenticated_at_capacity c \<longleftrightarrow> cr_max_unauth c \<le> int (card (cr_unauth c))"

definition host_count :: "string \<Rightarrow> client_registry \<Rightarrow> int" where
  "host_count h c = (case dget (cr_host_counts c) h of None \<Rightarrow> 0 | Some k \<Rightarrow> k)"

definition host_at_capacity :: "string \<Rightarrow> client_registry \<Rightarrow> bool" where
  "host_at_capacity h c = (case cr_max_per_host c of None \<Rightarrow> False | Some m \<Rightarrow> m \<le> host_count h c)"

definition add_client :: "socket \<Rightarrow> string \<Rightarrow> client_registry \<Rightarrow> client_registry" where
  "add_client ws host c =
     c\<lparr>cr_connected := insert ws (cr_connected c), cr_hosts := dset ws host (cr_hosts c),
       cr_host_counts := dset host (host_count host c + 1) (cr_host_counts c)\<rparr>"

definition forget_name :: "string \<Rightarrow> client_registry \<Rightarrow> client_registry" where
  "forget_name n c =
     c\<lparr>cr_agent_sockets := ddel n (cr_agent_sockets c), cr_roles := ddel n (cr_roles c), cr_wake := ddel n (cr_wake c),
       cr_sessions := ddel n (cr_sessions c), cr_versions := ddel n (cr_versions c)\<rparr>"

definition drop_host :: "socket \<Rightarrow> client_registry \<Rightarrow> client_registry" where
  "drop_host ws c =
     (case dget (cr_hosts c) ws of
        None \<Rightarrow> c
      | Some host \<Rightarrow>
          (let left = host_count host c - 1; c' = c\<lparr>cr_hosts := ddel ws (cr_hosts c)\<rparr> in
           if 0 < left then c'\<lparr>cr_host_counts := dset host left (cr_host_counts c)\<rparr>
           else c'\<lparr>cr_host_counts := ddel host (cr_host_counts c)\<rparr>))"

definition drop_client :: "time \<Rightarrow> socket \<Rightarrow> client_registry \<Rightarrow> client_registry \<times> string option" where
  "drop_client now ws c0 =
     (let c1 = c0\<lparr>cr_connected := cr_connected c0 - {ws}, cr_principals := ddel ws (cr_principals c0), cr_proofs := ddel ws (cr_proofs c0)\<rparr>;
          c2 = drop_host ws c1; bound = dget (cr_socket_agent c2) ws; c3 = c2\<lparr>cr_socket_agent := ddel ws (cr_socket_agent c2)\<rparr>
      in (case bound of
            Some n \<Rightarrow>
              (if dget (cr_agent_sockets c3) n = Some ws
               then ((forget_name n c3)\<lparr>cr_ownership := mark_offline now n (cr_ownership c3)\<rparr>, Some n)
               else (c3, None))
          | None \<Rightarrow> (c3, None)))"

definition revoke_name :: "string \<Rightarrow> client_registry \<Rightarrow> client_registry \<times> socket option" where
  "revoke_name n c =
     (let held = dget (cr_agent_sockets c) n;
          c1 = (case held of None \<Rightarrow> c | Some ws \<Rightarrow> c\<lparr>cr_socket_agent := ddel ws (cr_socket_agent c)\<rparr>)
      in ((forget_name n c1)\<lparr>cr_ownership := release_name n (cr_ownership c1)\<rparr>, held))"

definition add_unauthenticated :: "socket \<Rightarrow> client_registry \<Rightarrow> client_registry" where
  "add_unauthenticated ws c = c\<lparr>cr_unauth := insert ws (cr_unauth c)\<rparr>"

definition discard_unauthenticated :: "socket \<Rightarrow> client_registry \<Rightarrow> client_registry" where
  "discard_unauthenticated ws c = c\<lparr>cr_unauth := cr_unauth c - {ws}\<rparr>"

definition is_bound :: "socket \<Rightarrow> client_registry \<Rightarrow> bool" where
  "is_bound ws c \<longleftrightarrow> dget (cr_socket_agent c) ws \<noteq> None"

definition set_quota_principal :: "socket \<Rightarrow> string \<Rightarrow> client_registry \<Rightarrow> client_registry" where
  "set_quota_principal ws p c =
     (if py_strip p \<noteq> [] \<and> dget (cr_principals c) ws = None
      then c\<lparr>cr_principals := dset ws (py_strip p) (cr_principals c)\<rparr> else c)"

definition quota_principal :: "socket \<Rightarrow> string \<Rightarrow> client_registry \<Rightarrow> string" where
  "quota_principal ws fallback c = (case dget (cr_principals c) ws of Some p \<Rightarrow> p | None \<Rightarrow> ''legacy-agent:'' @ fallback)"

definition is_hub_qualified_name :: "string \<Rightarrow> bool" where
  "is_hub_qualified_name n \<longleftrightarrow> CHR ''@'' \<in> set n"

definition is_reserved_sender :: "string \<Rightarrow> bool" where
  "is_reserved_sender n \<longleftrightarrow> casefold n \<in> {casefold ''SynapseHub'', ''synapse'', ''system''} \<or> is_hub_qualified_name n"

definition record_identity_proof :: "socket \<Rightarrow> string \<Rightarrow> string \<Rightarrow> client_registry \<Rightarrow> client_registry" where
  "record_identity_proof ws n kid c = c\<lparr>cr_proofs := dset ws (n, kid) (cr_proofs c)\<rparr>"

definition identity_proof :: "socket \<Rightarrow> client_registry \<Rightarrow> (string \<times> string) option" where
  "identity_proof ws c =
     (case dget (cr_proofs c) ws of
        Some p \<Rightarrow> if dget (cr_socket_agent c) ws = Some (fst p) then Some p else None
      | None \<Rightarrow> None)"

definition set_agent_socket :: "string \<Rightarrow> socket \<Rightarrow> client_registry \<Rightarrow> client_registry \<times> bool" where
  "set_agent_socket n ws c = (c\<lparr>cr_agent_sockets := dset n ws (cr_agent_sockets c)\<rparr>, dget (cr_agent_sockets c) n = None)"

text \<open>\<open>DeliveryRefusal\<close>, by its code and text.\<close>

definition owns_socket :: "string \<Rightarrow> socket \<Rightarrow> client_registry \<Rightarrow> bool" where
  "owns_socket n ws c \<longleftrightarrow> dget (cr_agent_sockets c) n = Some ws \<and> dget (cr_socket_agent c) ws = Some n"

definition bind_protocol_version ::
  "string \<Rightarrow> socket \<Rightarrow> int option \<Rightarrow> client_registry \<Rightarrow> (string \<times> string) + client_registry \<times> int" where
  "bind_protocol_version n ws v c =
     (if \<not> owns_socket n ws c then Inl (''unauthorised_requester'', ''socket is not bound to the identity'')
      else (let effective = (case v of Some k \<Rightarrow> if 1 \<le> k then k else 1 | None \<Rightarrow> 1)
            in Inr (c\<lparr>cr_versions := dset n effective (cr_versions c)\<rparr>, effective)))"

definition protocol_version_of :: "string \<Rightarrow> client_registry \<Rightarrow> int" where
  "protocol_version_of n c = (case dget (cr_versions c) n of Some v \<Rightarrow> v | None \<Rightarrow> 1)"

definition MODES :: "string list" where "MODES = [''interrupt'', ''steer'', ''follow_up'', ''next_turn'']"
definition QUALITIES :: "string list" where "QUALITIES = [''native'', ''emulated'']"

definition capability_text :: "string \<times> json \<Rightarrow> (string \<times> string) option" where
  "capability_text = (\<lambda>(mode, v). case v of
     JString quality \<Rightarrow> if mode \<in> set MODES \<and> quality \<in> set QUALITIES then Some (mode, quality) else None | _ \<Rightarrow> None)"

definition bind_delivery_session ::
  "string \<Rightarrow> socket \<Rightarrow> json \<Rightarrow> json \<Rightarrow> string \<Rightarrow> client_registry \<Rightarrow> (string \<times> string) + client_registry \<times> delivery_session" where
  "bind_delivery_session n ws token capabilities hub_id c =
     (if \<not> owns_socket n ws c then Inl (''unauthorised_requester'', ''socket is not bound to the identity'')
      else (case token of
        JString t \<Rightarrow>
          (if length t \<noteq> 64 \<or> \<not> set t \<subseteq> set ''0123456789abcdef''
           then Inl (''invalid_shape'', ''delivery session token is malformed'')
           else (case capabilities of
             JObject caps \<Rightarrow>
               (if length MODES < length caps then Inl (''invalid_shape'', ''delivery capabilities are malformed'')
                else if None \<in> set (map capability_text caps) then Inl (''invalid_shape'', ''delivery capability is unsupported'')
                else (let session = \<lparr>ds_incarnation = hex_of (sha256 (utf8 (hub_id @ [CHR 0x00] @ n @ [CHR 0x00] @ t))),
                                     ds_capabilities = map the (map capability_text caps)\<rparr>
                      in Inr (c\<lparr>cr_sessions := dset n session (cr_sessions c)\<rparr>, session)))
           | _ \<Rightarrow> Inl (''invalid_shape'', ''delivery capabilities are malformed'')))
      | _ \<Rightarrow> Inl (''invalid_shape'', ''delivery session token is malformed'')))"

definition set_roles :: "string \<Rightarrow> string list \<Rightarrow> client_registry \<Rightarrow> client_registry" where
  "set_roles n roles c = c\<lparr>cr_roles := (if roles \<noteq> [] then dset n roles (cr_roles c) else ddel n (cr_roles c))\<rparr>"

definition roles_of :: "string \<Rightarrow> client_registry \<Rightarrow> string list" where
  "roles_of n c = (case dget (cr_roles c) n of Some rs \<Rightarrow> rs | None \<Rightarrow> [])"

definition WAKE_UNKNOWN :: string where "WAKE_UNKNOWN = ''unknown''"
definition known_capabilities :: "string list" where
  "known_capabilities = [''direct'', ''passive'', ''pane_bridge'', WAKE_UNKNOWN]"

definition normalize_wake_capability :: "json \<Rightarrow> string \<Rightarrow> string" where
  "normalize_wake_capability v dflt =
     (let fallback = (if dflt \<in> set known_capabilities then dflt else WAKE_UNKNOWN) in
      case v of
        JString s \<Rightarrow> (let token = py_replace_char CHR ''-'' CHR ''_'' (py_lower (py_strip s))
                     in if token \<in> set known_capabilities then token else fallback)
      | _ \<Rightarrow> fallback)"

definition set_wake_capability :: "string \<Rightarrow> string \<Rightarrow> client_registry \<Rightarrow> client_registry" where
  "set_wake_capability n capability c =
     (let v = normalize_wake_capability (JString capability) WAKE_UNKNOWN
      in c\<lparr>cr_wake := (if v = WAKE_UNKNOWN then ddel n (cr_wake c) else dset n v (cr_wake c))\<rparr>)"

definition wake_capability_of :: "string \<Rightarrow> client_registry \<Rightarrow> string" where
  "wake_capability_of n c = (case dget (cr_wake c) n of Some v \<Rightarrow> v | None \<Rightarrow> WAKE_UNKNOWN)"

section \<open>Takeovers\<close>

datatype takeover_verdict = Accept_Takeover | Cooldown | Quarantine_Enter | Quarantine_Active

definition recent_takeovers :: "string \<Rightarrow> time \<Rightarrow> client_registry \<Rightarrow> time list" where
  "recent_takeovers n now c =
     filter (\<lambda>stamp. now - cr_oscillation_window c \<le> stamp) (case dget (cr_takeover_times c) n of None \<Rightarrow> [] | Some ts \<Rightarrow> ts) @ [now]"

definition classify_takeover :: "string \<Rightarrow> time \<Rightarrow> client_registry \<Rightarrow> client_registry \<times> takeover_verdict" where
  "classify_takeover n now c0 =
     (let active = (case dget (cr_quarantine_until c0) n of None \<Rightarrow> False | Some until \<Rightarrow> now < until);
          c = (if dget (cr_quarantine_until c0) n \<noteq> None
               then c0\<lparr>cr_quarantine_until := ddel n (cr_quarantine_until c0), cr_takeover_times := ddel n (cr_takeover_times c0)\<rparr>
               else c0)
      in if active then (c0, Quarantine_Active)
         else if (case dget (cr_last_takeover c) n of None \<Rightarrow> False | Some last' \<Rightarrow> now - last' < cr_takeover_cooldown c)
         then (c, Cooldown)
         else if cr_oscillation_threshold c \<le> int (length (recent_takeovers n now c))
         then (c\<lparr>cr_quarantine_until := dset n (now + cr_takeover_quarantine c) (cr_quarantine_until c),
                 cr_takeover_times := ddel n (cr_takeover_times c),
                 cr_takeover_quarantines := cr_takeover_quarantines c + 1\<rparr>, Quarantine_Enter)
         else (c\<lparr>cr_takeover_times := dset n (recent_takeovers n now c) (cr_takeover_times c),
                 cr_takeovers := cr_takeovers c + 1\<rparr>, Accept_Takeover))"

section \<open>Binding a name\<close>

text \<open>What a resolution answers: the name, the frames sent and the sockets closed.\<close>

record admission =
  ad_name :: "string option"
  ad_sent :: "(socket \<times> json_object) list"
  ad_closed :: "(socket \<times> int \<times> string) list"

definition refuse_bind :: "socket \<Rightarrow> json_object list \<Rightarrow> int \<Rightarrow> string \<Rightarrow> admission" where
  "refuse_bind ws frames code reason = \<lparr>ad_name = None, ad_sent = map (Pair ws) frames, ad_closed = [(ws, code, reason)]\<rparr>"

text \<open>\<open>:.0f\<close>: to the nearest integer, ties to even.\<close>

definition seconds_text :: "time \<Rightarrow> string" where
  "seconds_text q =
     (let k = \<lfloor>q + 1 / 2\<rfloor> in show_int (if of_int k = q + 1 / 2 \<and> odd k then k - 1 else k))"

definition admit_owner ::
  "hub_env \<Rightarrow> time \<Rightarrow> string \<Rightarrow> string \<Rightarrow> socket \<Rightarrow> bool \<Rightarrow> client_registry \<Rightarrow> client_registry \<times> (socket \<times> json_object) list" where
  "admit_owner env now token n ws lease_requested c =
     (let o1 = mark_online n (cr_ownership c) in
      if \<not> lease_requested then (c\<lparr>cr_ownership := o1\<rparr>, [])
      else (let (o2, leased) = is_leased now n o1 in
            if leased then (c\<lparr>cr_ownership := o2\<rparr>, [])
            else (c\<lparr>cr_ownership := grant_lease n token o2\<rparr>,
                  [(ws, system_message env (''Ownership lease granted for '' @ quoted n @
                       ''. Persist the token and present it as owner_lease on every reconnect.'') ''lease_granted'' n
                       [(''owner_lease'', JString token), (''lease_name'', JString n)])])))"

definition name_owned_text :: "string \<Rightarrow> time \<Rightarrow> string" where
  "name_owned_text n ttl =
     ''Name '' @ quoted n @ '' is protected by an ownership lease. Reconnect presenting its owner_lease token, wait '' @
     seconds_text ttl @ ''s after its holder disconnects for the lease to lapse, or choose a unique --name.''"

definition reserved_text :: "string \<Rightarrow> string" where
  "reserved_text n =
     (if is_hub_qualified_name n
      then ''Name '' @ quoted n @ '' uses the '' @ quoted ''@'' @ '' form reserved for seats on peer hubs. Choose a local agent name without '' @ quoted ''@'' @ ''.''
      else ''Name '' @ quoted n @ '' is reserved for hub protocol provenance. Choose a non-reserved agent name.'')"

text \<open>The wall clock stamps the frames; the clock of leases and takeovers is \<open>now\<close>.\<close>

definition bind_fresh ::
  "hub_env \<Rightarrow> time \<Rightarrow> string \<Rightarrow> string \<Rightarrow> socket \<Rightarrow> bool \<Rightarrow> client_registry \<Rightarrow> client_registry \<times> admission" where
  "bind_fresh env now token n ws lease_requested c =
     (let (c', frames) = admit_owner env now token n ws lease_requested (c\<lparr>cr_socket_agent := dset ws n (cr_socket_agent c)\<rparr>)
      in (c', \<lparr>ad_name = Some n, ad_sent = frames, ad_closed = []\<rparr>))"

definition take_over ::
  "hub_env \<Rightarrow> time \<Rightarrow> string \<Rightarrow> string \<Rightarrow> socket \<Rightarrow> bool \<Rightarrow> socket \<Rightarrow> client_registry \<Rightarrow> client_registry \<times> admission" where
  "take_over env now token n ws lease_requested owner_ws c0 =
     (case classify_takeover n now c0 of
        (c, Accept_Takeover) \<Rightarrow>
          (let c1 = c\<lparr>cr_last_takeover := dset n now (cr_last_takeover c),
                      cr_socket_agent := dset ws n (ddel owner_ws (cr_socket_agent c)),
                      cr_agent_sockets := dset n ws (cr_agent_sockets c)\<rparr>;
               (c2, frames) = admit_owner env now token n ws lease_requested c1
           in (c2, \<lparr>ad_name = Some n, ad_sent = frames, ad_closed = [(owner_ws, 4010, ''superseded'')]\<rparr>))
      | (c, Cooldown) \<Rightarrow> (c, refuse_bind ws [] 4014 ''takeover cooldown'')
      | (c, _) \<Rightarrow> (c, refuse_bind ws [] 4014 ''takeover quarantine''))"

definition resolve_sender ::
  "hub_env \<Rightarrow> time \<Rightarrow> string \<Rightarrow> string \<Rightarrow> socket \<Rightarrow> bool \<Rightarrow> bool \<Rightarrow> string \<Rightarrow> client_registry \<Rightarrow> client_registry \<times> admission" where
  "resolve_sender env now token n ws takeover lease_requested owner_lease c =
     (if is_reserved_sender n
      then (c, refuse_bind ws [system_message env (reserved_text n) ''name_conflict'' n []] 4009 ''reserved identity'')
      else (case dget (cr_socket_agent c) ws of
        Some known \<Rightarrow>
          (if known \<noteq> n
           then (c, refuse_bind ws
                   [system_message env (''Sender name switch denied: '' @ quoted known @ '' -> '' @ quoted n @ ''. Reconnect with a new --name.'')
                      ''name_conflict'' known []] 4009 ''name switch'')
           else (c, \<lparr>ad_name = Some known, ad_sent = [], ad_closed = []\<rparr>))
      | None \<Rightarrow>
          (let (o1, leased) = is_leased now n (cr_ownership c);
               (o2, matched) = (if leased then matches_lease now n owner_lease o1 else (o1, False));
               c1 = c\<lparr>cr_ownership := o2\<rparr>
           in if leased \<and> \<not> matched
              then (c1, refuse_bind ws [system_message env (name_owned_text n (ow_offline_ttl o2)) ''name_conflict'' n []] 4016 ''name owned'')
              else (case dget (cr_agent_sockets c1) n of
                      Some owner_ws \<Rightarrow>
                        (if owner_ws = ws then bind_fresh env now token n ws lease_requested c1
                         else if takeover then take_over env now token n ws lease_requested owner_ws c1
                         else (c1, refuse_bind ws
                                 [system_message env (''Name '' @ quoted n @ '' is already online from another session. Use a unique --name.'')
                                    ''name_conflict'' n []] 4009 ''name conflict''))
                    | None \<Rightarrow> bind_fresh env now token n ws lease_requested c1))))"

text \<open>
  \<open>_heartbeat_registered_sender\<close> and what follows it in \<open>_register_frame\<close>: after the awaits of the
  resolution the socket enters the table of names, if it is still bound.  Nothing tells that the name is
  new online when it is dropped here.
\<close>

definition settle_sender :: "string \<Rightarrow> socket \<Rightarrow> client_registry \<Rightarrow> client_registry \<times> bool option" where
  "settle_sender n ws c =
     (if dget (cr_socket_agent c) ws \<noteq> Some n then (c, None)
      else (let (c', new) = set_agent_socket n ws c in (c', Some new)))"

text \<open>
  The admission of a connection by \<open>HubConnection.handler\<close>, which does not await before the socket is
  counted, and the step its end takes.
\<close>

definition accept_connection :: "bool \<Rightarrow> socket \<Rightarrow> string \<Rightarrow> client_registry \<Rightarrow> client_registry \<times> (int \<times> string) option" where
  "accept_connection secured ws host c =
     (if at_capacity c then (c, Some (4013, ''hub at capacity''))
      else if host_at_capacity host c then (c, Some (4015, ''too many connections from host''))
      else if secured \<and> unauthenticated_at_capacity c then (c, Some (4014, ''too many unauthenticated connections''))
      else (let c' = add_client ws host c in (if secured then add_unauthenticated ws c' else c', None)))"

end
