(* ===== verification/Client_Properties.thy ===== *)
theory Client_Properties
  imports Client_Registry
begin

text \<open>
  What the registry of sockets and names promises, over every interleaving of registrations: a name
  resolves to a socket that speaks for it, capacities hold, leases guard names, takeovers are damped;
  and the two ways in which the awaits of a registration break it.
\<close>

section \<open>Runs\<close>

text \<open>
  A registration is two steps, the resolution and the entry into the table of names, with awaits between
  them; a socket has at most one frame in progress, and its handler ends with \<open>Leave\<close>, whether the
  socket was closed or a send in the registration failed.
\<close>

datatype client_op =
    Arrive bool socket string
  | Resolve hub_env time string string socket bool bool string
  | Settle socket
  | Welcomed socket
  | Leave time socket
  | Revoke string

record hub_clients =
  hc_registry :: client_registry
  hc_pending :: "(socket, string) pydict"

fun run_client_op :: "client_op \<Rightarrow> hub_clients \<Rightarrow> hub_clients" where
  "run_client_op (Arrive secured ws host) h =
     (if ws \<in> cr_connected (hc_registry h) then h
      else h\<lparr>hc_registry := fst (accept_connection secured ws host (hc_registry h))\<rparr>)"
| "run_client_op (Resolve env now token n ws takeover lease_requested owner_lease) h =
     (if ws \<notin> cr_connected (hc_registry h) \<or> dget (hc_pending h) ws \<noteq> None then h
      else (let (c, ad) = resolve_sender env now token n ws takeover lease_requested owner_lease (hc_registry h)
            in \<lparr>hc_registry = c, hc_pending = (case ad_name ad of None \<Rightarrow> hc_pending h | Some m \<Rightarrow> dset ws m (hc_pending h))\<rparr>))"
| "run_client_op (Settle ws) h =
     (case dget (hc_pending h) ws of
        None \<Rightarrow> h
      | Some n \<Rightarrow> \<lparr>hc_registry = fst (settle_sender n ws (hc_registry h)), hc_pending = ddel ws (hc_pending h)\<rparr>)"
| "run_client_op (Welcomed ws) h = h\<lparr>hc_registry := discard_unauthenticated ws (hc_registry h)\<rparr>"
| "run_client_op (Leave now ws) h =
     \<lparr>hc_registry = fst (drop_client now ws (discard_unauthenticated ws (hc_registry h))), hc_pending = ddel ws (hc_pending h)\<rparr>"
| "run_client_op (Revoke n) h = h\<lparr>hc_registry := fst (revoke_name n (hc_registry h))\<rparr>"

definition run_clients :: "client_op list \<Rightarrow> hub_clients \<Rightarrow> hub_clients" where
  "run_clients ops h = fold run_client_op ops h"

lemma run_clients_simps [simp]:
  "run_clients [] h = h" "run_clients (op # ops) h = run_clients ops (run_client_op op h)"
  by (simp_all add: run_clients_def)

lemma run_clients_append: "run_clients (ops @ ops') h = run_clients ops' (run_clients ops h)"
  by (simp add: run_clients_def)

section \<open>What the operations leave alone\<close>

text \<open>The maps of names and sockets, which most operations change in one place.\<close>

lemma is_leased_frame: "fst (is_leased now n o') = o' \<or> fst (is_leased now n o') = release_name n o'"
  by (auto simp: is_leased_def split: option.split)

lemma admit_owner_frame: "\<exists>o'. fst (admit_owner env now token n ws b c) = c\<lparr>cr_ownership := o'\<rparr>"
  by (auto simp: admit_owner_def Let_def split: prod.split)

lemma classify_frame [simp]:
  "cr_agent_sockets (fst (classify_takeover n now c)) = cr_agent_sockets c"
  "cr_socket_agent (fst (classify_takeover n now c)) = cr_socket_agent c"
  "cr_connected (fst (classify_takeover n now c)) = cr_connected c"
  "cr_unauth (fst (classify_takeover n now c)) = cr_unauth c"
  "cr_hosts (fst (classify_takeover n now c)) = cr_hosts c"
  "cr_host_counts (fst (classify_takeover n now c)) = cr_host_counts c"
  "cr_max_clients (fst (classify_takeover n now c)) = cr_max_clients c"
  "cr_max_unauth (fst (classify_takeover n now c)) = cr_max_unauth c"
  "cr_max_per_host (fst (classify_takeover n now c)) = cr_max_per_host c"
  "cr_ownership (fst (classify_takeover n now c)) = cr_ownership c"
  "cr_last_takeover (fst (classify_takeover n now c)) = cr_last_takeover c"
  "cr_takeover_cooldown (fst (classify_takeover n now c)) = cr_takeover_cooldown c"
  "cr_oscillation_window (fst (classify_takeover n now c)) = cr_oscillation_window c"
  "cr_oscillation_threshold (fst (classify_takeover n now c)) = cr_oscillation_threshold c"
  "cr_takeover_quarantine (fst (classify_takeover n now c)) = cr_takeover_quarantine c"
  by (simp_all add: classify_takeover_def Let_def)

text \<open>The three ways a resolution ends: nothing is bound, a free name is bound, a held one is taken over.\<close>

lemma resolve_sender_cases:
  assumes res: "r = resolve_sender env now token n ws takeover lease_requested owner_lease c"
  obtains (unchanged) "cr_agent_sockets (fst r) = cr_agent_sockets c" "cr_socket_agent (fst r) = cr_socket_agent c"
      "ad_name (snd r) = None \<or> ad_name (snd r) = Some n \<and> dget (cr_socket_agent c) ws = Some n"
  | (fresh) "dget (cr_socket_agent c) ws = None" "dget (cr_agent_sockets c) n = None \<or> dget (cr_agent_sockets c) n = Some ws"
      "cr_agent_sockets (fst r) = cr_agent_sockets c" "cr_socket_agent (fst r) = dset ws n (cr_socket_agent c)"
      "ad_name (snd r) = Some n"
  | (taken) owner_ws where "dget (cr_socket_agent c) ws = None" "dget (cr_agent_sockets c) n = Some owner_ws" "owner_ws \<noteq> ws"
      "cr_agent_sockets (fst r) = dset n ws (cr_agent_sockets c)"
      "cr_socket_agent (fst r) = dset ws n (ddel owner_ws (cr_socket_agent c))" "ad_name (snd r) = Some n"
proof (cases "is_reserved_sender n \<or> dget (cr_socket_agent c) ws \<noteq> None")
  case True
  show ?thesis
    by (rule unchanged) (use res True in \<open>auto simp: resolve_sender_def refuse_bind_def split: if_splits\<close>)
next
  case False
  obtain o1 leased where l: "is_leased now n (cr_ownership c) = (o1, leased)" by fastforce
  obtain o2 matched where m: "(if leased then matches_lease now n owner_lease o1 else (o1, False)) = (o2, matched)" by fastforce
  let ?c1 = "c\<lparr>cr_ownership := o2\<rparr>"
  have fr: "cr_agent_sockets (fst (bind_fresh env now token n ws b ?c1)) = cr_agent_sockets c
      \<and> cr_socket_agent (fst (bind_fresh env now token n ws b ?c1)) = dset ws n (cr_socket_agent c)
      \<and> ad_name (snd (bind_fresh env now token n ws b ?c1)) = Some n" for b
    using admit_owner_frame [of env now token n ws b "?c1\<lparr>cr_socket_agent := dset ws n (cr_socket_agent c)\<rparr>"]
    by (auto simp: bind_fresh_def split: prod.split)
  show ?thesis
  proof (cases "leased \<and> \<not> matched")
    case True
    then show ?thesis using False res l m unchanged by (auto simp: resolve_sender_def refuse_bind_def)
  next
    case ok: False
    show ?thesis
    proof (cases "dget (cr_agent_sockets c) n")
      case None
      then have "r = bind_fresh env now token n ws lease_requested ?c1"
        using False res l m ok by (auto simp: resolve_sender_def)
      then show ?thesis using fresh fr False None by auto
    next
      case (Some owner_ws)
      show ?thesis
      proof (cases "owner_ws = ws \<or> \<not> takeover")
        case True
        then show ?thesis using False res l m ok Some fresh fr unchanged
          by (cases "owner_ws = ws") (auto simp: resolve_sender_def refuse_bind_def)
      next
        case over: False
        then have r: "r = take_over env now token n ws lease_requested owner_ws ?c1"
          using False res l m ok Some by (auto simp: resolve_sender_def)
        obtain c2 v where v: "classify_takeover n now ?c1 = (c2, v)" by fastforce
        note maps = classify_frame(1,2) [of n now ?c1, unfolded v]
        show ?thesis
        proof (cases "v = Accept_Takeover")
          case True
          let ?c3 = "c2\<lparr>cr_last_takeover := dset n now (cr_last_takeover c2), cr_socket_agent := dset ws n (ddel owner_ws (cr_socket_agent c2)),
              cr_agent_sockets := dset n ws (cr_agent_sockets c2)\<rparr>"
          obtain o3 where o3: "fst (admit_owner env now token n ws lease_requested ?c3) = ?c3\<lparr>cr_ownership := o3\<rparr>"
            using admit_owner_frame by blast
          have r3: "fst r = ?c3\<lparr>cr_ownership := o3\<rparr>" "ad_name (snd r) = Some n"
            using r v True o3 by (auto simp: take_over_def split: prod.splits)
          have "cr_agent_sockets (fst r) = dset n ws (cr_agent_sockets c)"
              "cr_socket_agent (fst r) = dset ws n (ddel owner_ws (cr_socket_agent c))"
            using maps by (simp_all add: r3)
          then show ?thesis using taken [of owner_ws] False Some over r3(2) by blast
        next
          case False
          then show ?thesis using unchanged r v maps by (cases v) (auto simp: take_over_def refuse_bind_def)
        qed
      qed
    qed
  qed
qed

section \<open>Names and sockets\<close>

text \<open>Every name in the table resolves to a socket that is bound to it.\<close>

definition names_bound :: "client_registry \<Rightarrow> bool" where
  "names_bound c \<longleftrightarrow> (\<forall>n ws. dget (cr_agent_sockets c) n = Some ws \<longrightarrow> dget (cr_socket_agent c) ws = Some n)"

text \<open>And every bound socket is the one its name resolves to.\<close>

definition sockets_named :: "client_registry \<Rightarrow> bool" where
  "sockets_named c \<longleftrightarrow> (\<forall>n ws. dget (cr_socket_agent c) ws = Some n \<longrightarrow> dget (cr_agent_sockets c) n = Some ws)"

lemma names_boundD: "names_bound c \<Longrightarrow> dget (cr_agent_sockets c) n = Some ws \<Longrightarrow> dget (cr_socket_agent c) ws = Some n"
  by (simp add: names_bound_def)

lemma sockets_namedD: "sockets_named c \<Longrightarrow> dget (cr_socket_agent c) ws = Some n \<Longrightarrow> dget (cr_agent_sockets c) n = Some ws"
  by (simp add: sockets_named_def)

lemma drop_host_frame [simp]:
  "cr_agent_sockets (drop_host ws c) = cr_agent_sockets c" "cr_socket_agent (drop_host ws c) = cr_socket_agent c"
  "cr_connected (drop_host ws c) = cr_connected c" "cr_unauth (drop_host ws c) = cr_unauth c"
  "cr_ownership (drop_host ws c) = cr_ownership c" "cr_max_clients (drop_host ws c) = cr_max_clients c"
  "cr_max_unauth (drop_host ws c) = cr_max_unauth c" "cr_max_per_host (drop_host ws c) = cr_max_per_host c"
  by (simp_all add: drop_host_def Let_def split: option.split)

lemma drop_client_maps:
  "cr_agent_sockets (fst (drop_client now ws c)) =
     (case dget (cr_socket_agent c) ws of
        Some n \<Rightarrow> if dget (cr_agent_sockets c) n = Some ws then ddel n (cr_agent_sockets c) else cr_agent_sockets c
      | None \<Rightarrow> cr_agent_sockets c)"
  "cr_socket_agent (fst (drop_client now ws c)) = ddel ws (cr_socket_agent c)"
  by (simp_all add: drop_client_def Let_def forget_name_def ddel_absent split: option.split)

lemma revoke_maps:
  "cr_agent_sockets (fst (revoke_name n c)) = ddel n (cr_agent_sockets c)"
  "cr_socket_agent (fst (revoke_name n c)) =
     (case dget (cr_agent_sockets c) n of Some ws \<Rightarrow> ddel ws (cr_socket_agent c) | None \<Rightarrow> cr_socket_agent c)"
  by (simp_all add: revoke_name_def Let_def forget_name_def split: option.split)

lemma names_bound_resolve:
  assumes "names_bound c"
    and "r = resolve_sender env now token n ws takeover b ol c"
  shows "names_bound (fst r)"
  using assms(2)
proof (cases rule: resolve_sender_cases)
  case unchanged
  then show ?thesis using assms(1) by (simp add: names_bound_def)
next
  case fresh
  then show ?thesis using assms(1) unfolding names_bound_def by (metis dget_dset option.distinct(1))
next
  case (taken owner_ws)
  have "dget (dset ws n (ddel owner_ws (cr_socket_agent c))) ws' = Some m"
    if "dget (dset n ws (cr_agent_sockets c)) m = Some ws'" for m ws'
  proof (cases "m = n")
    case False
    then have "dget (cr_socket_agent c) ws' = Some m" using that names_boundD [OF assms(1)] by simp
    moreover have "dget (cr_socket_agent c) owner_ws = Some n" using names_boundD [OF assms(1) taken(2)] .
    ultimately show ?thesis using taken(1) False by auto
  qed (use that in simp)
  then show ?thesis using taken by (simp add: names_bound_def)
qed

lemma names_bound_op: "names_bound (hc_registry h) \<Longrightarrow> names_bound (hc_registry (run_client_op op h))"
proof (cases op)
  case (Resolve env now token n ws takeover b ol)
  assume "names_bound (hc_registry h)"
  then show ?thesis using names_bound_resolve [of "hc_registry h", OF _ refl, of env now token n ws takeover b ol] Resolve by (auto split: prod.split)
next
  case (Settle ws)
  assume "names_bound (hc_registry h)"
  then show ?thesis
    by (auto simp: Settle settle_sender_def set_agent_socket_def names_bound_def split: option.split)
next
  case (Leave now ws)
  assume nb: "names_bound (hc_registry h)"
  show ?thesis
    using names_boundD [OF nb] unfolding names_bound_def Leave
    by (auto simp: drop_client_maps discard_unauthenticated_def split: option.splits if_splits)
      (metis nb names_boundD option.inject)
next
  case (Revoke n)
  assume nb: "names_bound (hc_registry h)"
  show ?thesis
    using names_boundD [OF nb] unfolding names_bound_def Revoke
    by (auto simp: revoke_maps split: option.splits) (metis nb names_boundD option.inject)
qed (auto simp: names_bound_def accept_connection_def add_client_def add_unauthenticated_def discard_unauthenticated_def Let_def)

lemma names_bound_run: "names_bound (hc_registry h) \<Longrightarrow> names_bound (hc_registry (run_clients ops h))"
  by (induction ops arbitrary: h) (simp_all add: names_bound_op)

text \<open>The runs in which no await of a registration lets another operation in.\<close>

fun uninterrupted :: "client_op list \<Rightarrow> bool" where
  "uninterrupted (Resolve env now token n ws takeover b ol # Settle ws' # ops) = (ws = ws' \<and> uninterrupted ops)"
| "uninterrupted [Resolve env now token n ws takeover b ol] = False"
| "uninterrupted (Resolve env now token n ws takeover b ol # op # ops) = False"
| "uninterrupted (Settle ws # ops) = False"
| "uninterrupted (op # ops) = uninterrupted ops"
| "uninterrupted [] = True"

definition idle :: "hub_clients \<Rightarrow> bool" where
  "idle h \<longleftrightarrow> names_bound (hc_registry h) \<and> sockets_named (hc_registry h) \<and> hc_pending h = []"

lemma idle_register:
  assumes "idle h"
  shows "idle (run_client_op (Settle ws) (run_client_op (Resolve env now token n ws takeover b ol) h))"
proof -
  obtain c ad where r: "resolve_sender env now token n ws takeover b ol (hc_registry h) = (c, ad)" by fastforce
  have idle: "names_bound (hc_registry h)" "sockets_named (hc_registry h)" "hc_pending h = []" using assms by (auto simp: idle_def)
  let ?h = "run_client_op (Settle ws) (run_client_op (Resolve env now token n ws takeover b ol) h)"
  have bound: "names_bound (hc_registry ?h)" by (intro names_bound_op idle)
  have pending: "hc_pending ?h = []"
    using idle(3) by (auto simp: r split: option.split)
  have "sockets_named (hc_registry ?h)"
  proof (cases "ws \<in> cr_connected (hc_registry h)")
    case False
    then show ?thesis using idle by simp
  next
    case True
    from r [symmetric] show ?thesis
    proof (cases rule: resolve_sender_cases)
      case unchanged
      then show ?thesis
        using True idle r by (auto simp: sockets_named_def settle_sender_def set_agent_socket_def split: option.split)
          (metis option.inject)
    next
      case fresh
      have free: "dget (cr_socket_agent (hc_registry h)) ws' \<noteq> Some n" for ws'
        using fresh(1,2) idle(1,2) unfolding names_bound_def sockets_named_def by (metis option.distinct(1))
      then show ?thesis
        using True idle r fresh by (auto simp: sockets_named_def settle_sender_def set_agent_socket_def)
    next
      case (taken owner_ws)
      have only: "dget (cr_socket_agent (hc_registry h)) ws' = Some n \<Longrightarrow> ws' = owner_ws" for ws'
        using taken(2) idle(2) unfolding sockets_named_def by (metis option.inject)
      then show ?thesis
        using True idle r taken by (auto simp: sockets_named_def settle_sender_def set_agent_socket_def)
    qed
  qed
  then show ?thesis using bound pending by (simp add: idle_def)
qed

lemma idle_other:
  assumes "idle h" "\<not> (\<exists>env now token n ws takeover b ol. op = Resolve env now token n ws takeover b ol)"
  shows "idle (run_client_op op h)"
proof -
  have idle: "names_bound (hc_registry h)" "sockets_named (hc_registry h)" "hc_pending h = []" using assms by (auto simp: idle_def)
  have "names_bound (hc_registry (run_client_op op h))" by (rule names_bound_op [OF idle(1)])
  moreover have "hc_pending (run_client_op op h) = []" using assms(2) idle(3) by (cases op) auto
  moreover have "sockets_named (hc_registry (run_client_op op h))"
  proof (cases op)
    case (Leave now ws)
    have "dget (cr_agent_sockets (hc_registry (run_client_op op h))) m = Some w"
      if "dget (cr_socket_agent (hc_registry (run_client_op op h))) w = Some m" for m w
    proof -
      have w: "w \<noteq> ws" "dget (cr_agent_sockets (hc_registry h)) m = Some w"
        using that sockets_namedD [OF idle(2)] by (simp_all add: Leave drop_client_maps discard_unauthenticated_def split: if_splits)
      then show ?thesis by (auto simp: Leave drop_client_maps discard_unauthenticated_def split: option.split)
    qed
    then show ?thesis by (simp add: sockets_named_def)
  next
    case (Revoke n)
    have "dget (cr_agent_sockets (hc_registry (run_client_op op h))) m = Some w"
      if "dget (cr_socket_agent (hc_registry (run_client_op op h))) w = Some m" for m w
    proof -
      have "dget (cr_agent_sockets (hc_registry h)) m = Some w" "dget (cr_agent_sockets (hc_registry h)) n \<noteq> Some w"
        using that sockets_namedD [OF idle(2), of w m] by (auto simp: Revoke revoke_maps split: option.splits if_splits)
      then show ?thesis by (auto simp: Revoke revoke_maps)
    qed
    then show ?thesis by (simp add: sockets_named_def)
  qed (use assms(2) idle in \<open>auto simp: sockets_named_def accept_connection_def add_client_def add_unauthenticated_def
        discard_unauthenticated_def Let_def\<close>)
  ultimately show ?thesis by (simp add: idle_def)
qed

lemma idle_run: "idle h \<Longrightarrow> uninterrupted ops \<Longrightarrow> idle (run_clients ops h)"
proof (induction ops arbitrary: h rule: uninterrupted.induct)
  case (1 env now token n ws takeover b ol ws' ops)
  then show ?case using idle_register [of h] by simp
qed (simp_all del: run_client_op.simps add: idle_other)

definition started :: "client_registry \<Rightarrow> hub_clients" where
  "started c = \<lparr>hc_registry = c\<lparr>cr_connected := {}, cr_unauth := {}, cr_agent_sockets := [], cr_socket_agent := [],
     cr_hosts := [], cr_host_counts := []\<rparr>, hc_pending = []\<rparr>"

text \<open>C16: From the start of a hub, over every interleaving of connections, registrations, takeovers,
  departures and revocations, a name in the table resolves to a socket that is bound to it; and while no
  registration is interleaved with another operation names and bound sockets are one to one.\<close>

theorem names_resolve_to_bound_sockets:
  "(\<forall>n ws. dget (cr_agent_sockets (hc_registry (run_clients ops (started c)))) n = Some ws \<longrightarrow>
      dget (cr_socket_agent (hc_registry (run_clients ops (started c)))) ws = Some n)
   \<and> (uninterrupted ops \<longrightarrow>
      (\<forall>n ws. dget (cr_agent_sockets (hc_registry (run_clients ops (started c)))) n = Some ws \<longleftrightarrow>
        dget (cr_socket_agent (hc_registry (run_clients ops (started c)))) ws = Some n))"
proof -
  have start: "idle (started c)" by (simp add: idle_def started_def names_bound_def sockets_named_def)
  then have "names_bound (hc_registry (run_clients ops (started c)))" by (intro names_bound_run) (simp add: idle_def)
  moreover have "uninterrupted ops \<Longrightarrow> sockets_named (hc_registry (run_clients ops (started c)))"
    using idle_run [OF start] by (simp add: idle_def)
  ultimately show ?thesis unfolding names_bound_def sockets_named_def by blast
qed

text \<open>C17: Two sockets that register one free name at the same time are both bound to it without a takeover:
  the first is not in the table of names yet when the second is resolved, and from then on the frames of
  both are accepted under the name.\<close>

theorem two_sockets_one_name:
  assumes "a \<noteq> b" "{a, b} \<subseteq> cr_connected (hc_registry h)" "dget (hc_pending h) a = None" "dget (hc_pending h) b = None"
    and "dget (cr_socket_agent (hc_registry h)) a = None" "dget (cr_socket_agent (hc_registry h)) b = None"
    and "\<not> is_reserved_sender n" "dget (cr_agent_sockets (hc_registry h)) n = None"
    and "dget (ow_token_digests (cr_ownership (hc_registry h))) n = None"
  shows "let h' = run_clients [Resolve env now token n a False False ol, Resolve env' now' token' n b False False ol', Settle a, Settle b] h
    in dget (cr_socket_agent (hc_registry h')) a = Some n \<and> dget (cr_socket_agent (hc_registry h')) b = Some n
     \<and> (\<forall>env now token tk lease ol. \<forall>ws\<in>{a, b}.
          ad_name (snd (resolve_sender env now token n ws tk lease ol (hc_registry h'))) = Some n)"
  using assms
  by (simp add: resolve_sender_def is_leased_def bind_fresh_def admit_owner_def mark_online_def settle_sender_def
      set_agent_socket_def Let_def)

section \<open>Capacities\<close>

definition capped :: "client_registry \<Rightarrow> bool" where
  "capped c \<longleftrightarrow>
     finite (cr_connected c) \<and> int (card (cr_connected c)) \<le> cr_max_clients c
     \<and> cr_unauth c \<subseteq> cr_connected c \<and> int (card (cr_unauth c)) \<le> cr_max_unauth c
     \<and> {ws. dget (cr_hosts c) ws \<noteq> None} = cr_connected c
     \<and> (\<forall>h. host_count h c = int (card {ws. dget (cr_hosts c) ws = Some h}))
     \<and> (\<forall>m h. cr_max_per_host c = Some m \<longrightarrow> host_count h c \<le> m)"

text \<open>The fields that only connections and departures change.\<close>

definition sockets_part :: "client_registry \<Rightarrow>
    socket set \<times> socket set \<times> (socket, string) pydict \<times> (string, int) pydict \<times> int \<times> int \<times> int option" where
  "sockets_part c = (cr_connected c, cr_unauth c, cr_hosts c, cr_host_counts c, cr_max_clients c, cr_max_unauth c, cr_max_per_host c)"

lemma capped_part: "sockets_part c = sockets_part c' \<Longrightarrow> capped c = capped c'"
  by (simp add: sockets_part_def capped_def host_count_def)

lemma sockets_part_update [simp]:
  "sockets_part (c\<lparr>cr_ownership := o'\<rparr>) = sockets_part c" "sockets_part (c\<lparr>cr_socket_agent := sa\<rparr>) = sockets_part c"
  "sockets_part (c\<lparr>cr_agent_sockets := as'\<rparr>) = sockets_part c" "sockets_part (c\<lparr>cr_last_takeover := lt\<rparr>) = sockets_part c"
  "sockets_part (forget_name n c) = sockets_part c" "sockets_part (fst (classify_takeover n now c)) = sockets_part c"
  by (simp_all add: sockets_part_def forget_name_def)

lemma sockets_part_admit [simp]: "sockets_part (fst (admit_owner env now token n ws b c)) = sockets_part c"
  using admit_owner_frame [of env now token n ws b c] by auto

lemma sockets_part_resolve [simp]: "sockets_part (fst (resolve_sender env now token n ws tk b ol c)) = sockets_part c"
proof -
  have fresh: "sockets_part (fst (bind_fresh env now token n ws b c')) = sockets_part c'" for c'
    by (simp add: bind_fresh_def case_prod_beta)
  have taken: "sockets_part (fst (take_over env now token n ws b owner_ws c')) = sockets_part c'" for owner_ws c'
  proof -
    obtain c2 v where v: "classify_takeover n now c' = (c2, v)" by fastforce
    then have "sockets_part c2 = sockets_part c'" using sockets_part_update(6) [of n now c'] by simp
    then show ?thesis by (cases v) (simp_all add: take_over_def v case_prod_beta Let_def)
  qed
  show ?thesis
    by (simp add: resolve_sender_def fresh taken case_prod_beta Let_def split: option.split)
qed

lemma capped_unauth:
  assumes "capped c" "u \<subseteq> cr_connected c" "int (card u) \<le> cr_max_unauth c"
  shows "capped (c\<lparr>cr_unauth := u\<rparr>)"
proof -
  have fields: "cr_connected (c\<lparr>cr_unauth := u\<rparr>) = cr_connected c" "cr_hosts (c\<lparr>cr_unauth := u\<rparr>) = cr_hosts c"
      "host_count h (c\<lparr>cr_unauth := u\<rparr>) = host_count h c" "cr_max_clients (c\<lparr>cr_unauth := u\<rparr>) = cr_max_clients c"
      "cr_max_unauth (c\<lparr>cr_unauth := u\<rparr>) = cr_max_unauth c" "cr_max_per_host (c\<lparr>cr_unauth := u\<rparr>) = cr_max_per_host c"
      "cr_unauth (c\<lparr>cr_unauth := u\<rparr>) = u" for h
    by (simp_all add: host_count_def)
  then show ?thesis using assms unfolding capped_def fields by blast
qed

lemma capped_add:
  assumes "capped c" "ws \<notin> cr_connected c" "\<not> at_capacity c" "\<not> host_at_capacity host c"
  shows "capped (add_client ws host c)"
proof -
  let ?c = "add_client ws host c"
  have new: "dget (cr_hosts c) ws = None" using assms(1,2) by (auto simp: capped_def)
  have here: "{w. dget (cr_hosts ?c) w = Some h} = (if h = host then insert ws {w. dget (cr_hosts c) w = Some h} else {w. dget (cr_hosts c) w = Some h})" for h
    using new by (auto simp: add_client_def)
  have fin: "finite {w. dget (cr_hosts c) w = Some h}" for h
    by (rule finite_subset [of _ "cr_connected c"]) (use assms(1) in \<open>auto simp: capped_def\<close>)
  have count: "host_count h ?c = (if h = host then host_count h c + 1 else host_count h c)" for h
    by (simp add: add_client_def host_count_def)
  have "host_count h ?c = int (card {w. dget (cr_hosts ?c) w = Some h})" for h
    unfolding here count using assms(1) new fin by (simp add: capped_def)
  moreover have "cr_max_per_host ?c = Some m \<Longrightarrow> host_count h ?c \<le> m" for m h
    unfolding count using assms(1,4) by (auto simp: add_client_def capped_def host_at_capacity_def)
  moreover have "{w. dget (cr_hosts ?c) w \<noteq> None} = cr_connected ?c"
    using assms(1) by (auto simp: add_client_def capped_def)
  moreover have "int (card (cr_connected ?c)) \<le> cr_max_clients ?c" "finite (cr_connected ?c)"
    using assms(1-3) by (auto simp: add_client_def capped_def at_capacity_def)
  ultimately show ?thesis using assms(1) by (auto simp: capped_def add_client_def)
qed

lemma capped_drop:
  assumes "capped c" "ws \<notin> cr_unauth c"
  shows "capped (fst (drop_client now ws c))"
proof -
  let ?c1 = "c\<lparr>cr_connected := cr_connected c - {ws}, cr_principals := ddel ws (cr_principals c), cr_proofs := ddel ws (cr_proofs c)\<rparr>"
  have part: "sockets_part (fst (drop_client now ws c)) = sockets_part (drop_host ws ?c1)"
    by (simp add: drop_client_def Let_def split: option.split)
  have "capped (drop_host ws ?c1)"
  proof (cases "dget (cr_hosts c) ws")
    case None
    then have "ws \<notin> cr_connected c" using assms(1) unfolding capped_def by blast
    then have "drop_host ws ?c1 = ?c1" "cr_connected ?c1 = cr_connected c" using None by (simp_all add: drop_host_def)
    then have "sockets_part (drop_host ws ?c1) = sockets_part c" by (simp add: sockets_part_def)
    then show ?thesis using assms(1) capped_part by blast
  next
    case (Some host)
    let ?d = "drop_host ws ?c1"
    have conn: "cr_connected ?d = cr_connected c - {ws}" by simp
    have hosts: "cr_hosts ?d = ddel ws (cr_hosts c)" using Some by (simp add: drop_host_def Let_def)
    have here: "{w. dget (cr_hosts ?d) w = Some h} = {w. dget (cr_hosts c) w = Some h} - (if h = host then {ws} else {})" for h
      using Some by (auto simp: hosts)
    have fin: "finite {w. dget (cr_hosts c) w = Some h}" for h
      by (rule finite_subset [of _ "cr_connected c"]) (use assms(1) in \<open>auto simp: capped_def\<close>)
    have was: "host_count h c = int (card {w. dget (cr_hosts c) w = Some h})" for h using assms(1) by (simp add: capped_def)
    have pos: "0 < host_count host c"
      unfolding was using Some fin [of host] by (auto simp: card_gt_0_iff)
    have count: "host_count h ?d = (if h = host then host_count h c - 1 else host_count h c)" for h
      using Some pos by (auto simp: drop_host_def Let_def host_count_def)
    have "host_count h ?d = int (card {w. dget (cr_hosts ?d) w = Some h})" for h
    proof (cases "h = host")
      case True
      then show ?thesis unfolding here count was using Some fin pos [unfolded was] by (simp add: of_nat_diff Suc_leI)
    next
      case False
      then show ?thesis unfolding here count was by simp
    qed
    moreover have "cr_max_per_host ?d = Some m \<Longrightarrow> host_count h ?d \<le> m" for m h
    proof -
      assume "cr_max_per_host ?d = Some m"
      then have "cr_max_per_host c = Some m" by simp
      with assms(1) have "host_count h c \<le> m" unfolding capped_def by blast
      then show "host_count h ?d \<le> m" unfolding count by (cases "h = host") simp_all
    qed
    moreover have "{w. dget (cr_hosts ?d) w \<noteq> None} = cr_connected ?d"
      using assms(1) by (auto simp: hosts capped_def)
    moreover have "int (card (cr_connected ?d)) \<le> cr_max_clients ?d" "finite (cr_connected ?d)"
      using assms(1) card_Diff1_le [of "cr_connected c" ws] unfolding conn by (auto simp: capped_def)
    moreover have "cr_unauth ?d \<subseteq> cr_connected ?d" "int (card (cr_unauth ?d)) \<le> cr_max_unauth ?d"
      using assms by (auto simp: capped_def)
    ultimately show ?thesis unfolding capped_def by blast
  qed
  then show ?thesis using capped_part [OF part] by simp
qed

lemma capped_discard: "capped c \<Longrightarrow> capped (discard_unauthenticated ws c)"
  using card_Diff1_le [of "cr_unauth c" ws]
  unfolding discard_unauthenticated_def by (intro capped_unauth) (auto simp: capped_def)

lemma capped_op: "capped (hc_registry h) \<Longrightarrow> capped (hc_registry (run_client_op op h))"
proof (cases op)
  case (Arrive secured ws host)
  assume c: "capped (hc_registry h)"
  show ?thesis
  proof (cases "ws \<in> cr_connected (hc_registry h) \<or> at_capacity (hc_registry h) \<or> host_at_capacity host (hc_registry h)
      \<or> secured \<and> unauthenticated_at_capacity (hc_registry h)")
    case True
    then show ?thesis using c Arrive by (auto simp: accept_connection_def)
  next
    case False
    let ?c = "add_client ws host (hc_registry h)"
    have added: "capped ?c" using False c by (intro capped_add) auto
    moreover have "capped (add_unauthenticated ws ?c)" if secured
      unfolding add_unauthenticated_def
    proof (rule capped_unauth [OF added])
      show "insert ws (cr_unauth ?c) \<subseteq> cr_connected ?c" using added by (auto simp: add_client_def capped_def)
      have "finite (cr_unauth ?c)" using added finite_subset unfolding capped_def by blast
      then show "int (card (insert ws (cr_unauth ?c))) \<le> cr_max_unauth ?c"
        using False that by (auto simp: unauthenticated_at_capacity_def add_client_def card_insert_if)
    qed
    ultimately show ?thesis using False Arrive by (simp add: accept_connection_def Let_def)
  qed
next
  case (Resolve env now token n ws takeover b ol)
  assume "capped (hc_registry h)"
  then show ?thesis
    using capped_part [OF sockets_part_resolve [of env now token n ws takeover b ol "hc_registry h"]] Resolve
    by (simp add: case_prod_beta)
next
  case (Settle ws)
  assume c: "capped (hc_registry h)"
  have "sockets_part (fst (settle_sender n ws (hc_registry h))) = sockets_part (hc_registry h)" for n
    by (simp add: settle_sender_def set_agent_socket_def)
  then have "capped (fst (settle_sender n ws (hc_registry h)))" for n using c capped_part by blast
  then show ?thesis using c Settle by (cases "dget (hc_pending h) ws") simp_all
next
  case (Welcomed ws)
  assume "capped (hc_registry h)"
  then show ?thesis using capped_discard Welcomed by simp
next
  case (Leave now ws)
  assume c: "capped (hc_registry h)"
  have "ws \<notin> cr_unauth (discard_unauthenticated ws (hc_registry h))" by (simp add: discard_unauthenticated_def)
  then show ?thesis using capped_drop [OF capped_discard [OF c]] Leave by simp
next
  case (Revoke n)
  assume c: "capped (hc_registry h)"
  have "sockets_part (fst (revoke_name n (hc_registry h))) = sockets_part (hc_registry h)"
    by (simp add: revoke_name_def Let_def split: option.split)
  from capped_part [OF this] show ?thesis using c Revoke by simp
qed

text \<open>C21: However connections, registrations and departures interleave, the hub never serves more sockets
  than its maximum, never more from one host than the limit of a host and never more unauthenticated ones
  than theirs, and its counts per host are exact.\<close>

theorem connections_capped:
  assumes "1 \<le> cr_max_clients c" "0 \<le> cr_max_unauth c" "\<forall>m. cr_max_per_host c = Some m \<longrightarrow> 0 \<le> m"
  shows "let c' = hc_registry (run_clients ops (started c)) in
    int (card (cr_connected c')) \<le> cr_max_clients c' \<and> int (card (cr_unauth c')) \<le> cr_max_unauth c'
    \<and> (\<forall>h. host_count h c' = int (card {ws. dget (cr_hosts c') ws = Some h}))
    \<and> (\<forall>m h. cr_max_per_host c' = Some m \<longrightarrow> int (card {ws. dget (cr_hosts c') ws = Some h}) \<le> m)"
proof -
  have "capped (hc_registry (started c))" using assms by (simp add: capped_def started_def host_count_def)
  then have "capped (hc_registry (run_clients ops (started c)))"
    by (induction ops arbitrary: c rule: rev_induct) (auto simp: run_clients_append capped_op)
  then have f: "int (card (cr_connected c')) \<le> cr_max_clients c'" "int (card (cr_unauth c')) \<le> cr_max_unauth c'"
      "host_count h c' = int (card {ws. dget (cr_hosts c') ws = Some h})" "cr_max_per_host c' = Some m \<Longrightarrow> host_count h c' \<le> m"
    if "c' = hc_registry (run_clients ops (started c))" for c' h m
    unfolding that capped_def by blast+
  show ?thesis
    unfolding Let_def using f [OF refl] by (simp add: f(3) [OF refl, symmetric])
qed

section \<open>Leases\<close>

text \<open>A name holds a live lease of digest \<open>d\<close>.\<close>

definition live_lease :: "time \<Rightarrow> string \<Rightarrow> string \<Rightarrow> name_ownership \<Rightarrow> bool" where
  "live_lease now n d o' \<longleftrightarrow> dget (ow_token_digests o') n = Some d
     \<and> (case dget (ow_offline_since o') n of None \<Rightarrow> True | Some s \<Rightarrow> now - s < ow_offline_ttl o')"

text \<open>The lease is untouched, but for its holder being online again.\<close>

definition lease_kept :: "string \<Rightarrow> name_ownership \<Rightarrow> name_ownership \<Rightarrow> bool" where
  "lease_kept n o1 o2 \<longleftrightarrow> dget (ow_token_digests o2) n = dget (ow_token_digests o1) n
     \<and> (dget (ow_offline_since o2) n = None \<or> dget (ow_offline_since o2) n = dget (ow_offline_since o1) n)
     \<and> ow_offline_ttl o2 = ow_offline_ttl o1"

lemma lease_kept_refl [simp]: "lease_kept n o' o'"
  by (simp add: lease_kept_def)

lemma lease_kept_trans: "lease_kept n o1 o2 \<Longrightarrow> lease_kept n o2 o3 \<Longrightarrow> lease_kept n o1 o3"
  by (auto simp: lease_kept_def)

lemma live_kept_live: "live_lease now n d o1 \<Longrightarrow> lease_kept n o1 o2 \<Longrightarrow> live_lease now n d o2"
  by (auto simp: live_lease_def lease_kept_def split: option.splits)

lemma is_leased_live: "live_lease now n d o' \<Longrightarrow> is_leased now n o' = (o', True)"
  by (auto simp: is_leased_def live_lease_def split: option.splits)

lemma matches_live: "live_lease now n d o' \<Longrightarrow> matches_lease now n token o' = (o', token \<noteq> [] \<and> d = token_digest token)"
  by (auto simp: matches_lease_def is_leased_live) (auto simp: live_lease_def)

lemma is_leased_other: "m \<noteq> n \<Longrightarrow> lease_kept n o' (fst (is_leased now m o'))"
  by (auto simp: is_leased_def release_name_def lease_kept_def split: option.split)

lemma is_leased_kept: "live_lease now n d o' \<Longrightarrow> lease_kept n o' (fst (is_leased now m o'))"
  using is_leased_other [of m n o' now] is_leased_live [of now n d o'] by (cases "m = n") auto

lemma matches_kept: "live_lease now n d o' \<Longrightarrow> lease_kept n o' (fst (matches_lease now m token o'))"
  using is_leased_kept [of now n d o' m] by (simp add: matches_lease_def case_prod_beta Let_def)

lemma admit_owner_kept:
  assumes "live_lease now n d (cr_ownership c)"
  shows "lease_kept n (cr_ownership c) (cr_ownership (fst (admit_owner env now token m ws b c)))"
proof -
  have on: "lease_kept n (cr_ownership c) (mark_online m (cr_ownership c))" by (simp add: lease_kept_def mark_online_def)
  note live = live_kept_live [OF assms on]
  note leased = lease_kept_trans [OF on is_leased_kept [OF live, of m]]
  have granted: "lease_kept n (cr_ownership c) (grant_lease m token (fst (is_leased now m (mark_online m (cr_ownership c)))))" if "m \<noteq> n"
    using leased that by (auto simp: lease_kept_def grant_lease_def)
  show ?thesis
  proof (cases "m = n")
    case True
    then show ?thesis using on live leased is_leased_live [OF live] by (simp add: admit_owner_def Let_def)
  next
    case False
    then show ?thesis using on leased granted by (auto simp: admit_owner_def Let_def case_prod_beta)
  qed
qed

lemma resolve_lease_kept:
  assumes live: "live_lease now n d (cr_ownership c)"
  shows "lease_kept n (cr_ownership c) (cr_ownership (fst (resolve_sender env now token m ws tk b ol c)))"
proof -
  let ?o1 = "fst (is_leased now m (cr_ownership c))"
  have o1: "lease_kept n (cr_ownership c) ?o1" by (rule is_leased_kept [OF live])
  have o2: "lease_kept n (cr_ownership c) (fst (matches_lease now m ol ?o1))"
    by (rule lease_kept_trans [OF o1 matches_kept [OF live_kept_live [OF live o1]]])
  have admit: "lease_kept n (cr_ownership c) (cr_ownership (fst (admit_owner env now token m ws b c')))"
    if "lease_kept n (cr_ownership c) (cr_ownership c')" for c'
    by (rule lease_kept_trans [OF that admit_owner_kept [OF live_kept_live [OF live that]]])
  have taken: "lease_kept n (cr_ownership c) (cr_ownership (fst (take_over env now token m ws b owner_ws c')))"
    if k: "lease_kept n (cr_ownership c) (cr_ownership c')" for owner_ws c'
  proof -
    obtain c2 v where v: "classify_takeover m now c' = (c2, v)" by fastforce
    have "lease_kept n (cr_ownership c) (cr_ownership c2)" using k classify_frame(10) [of m now c'] v by simp
    then show ?thesis using admit by (cases v) (simp_all add: take_over_def v case_prod_beta Let_def)
  qed
  show ?thesis
    unfolding resolve_sender_def
    using o1 o2 by (auto simp: bind_fresh_def case_prod_beta Let_def intro!: admit taken split: option.split)
qed

lemma resolve_needs_token:
  assumes "live_lease now n d (cr_ownership c)" "dget (cr_socket_agent c) ws = None"
    and "ad_name (snd (resolve_sender env now token n ws tk b ol c)) = Some n"
  shows "ol \<noteq> [] \<and> token_digest ol = d"
  using assms(2,3) is_leased_live [OF assms(1)] matches_live [OF assms(1), of ol]
  by (auto simp: resolve_sender_def refuse_bind_def split: if_splits)

lemma drop_client_ownership:
  "cr_ownership (fst (drop_client now ws c)) = cr_ownership c
   \<or> (\<exists>n. dget (cr_socket_agent c) ws = Some n \<and> cr_ownership (fst (drop_client now ws c)) = mark_offline now n (cr_ownership c))"
  by (auto simp: drop_client_def Let_def split: option.split)

lemma revoke_ownership: "cr_ownership (fst (revoke_name n c)) = release_name n (cr_ownership c)"
  by (simp add: revoke_name_def Let_def split: option.split)

lemma other_ownership [simp]:
  "cr_ownership (fst (accept_connection secured ws host c)) = cr_ownership c"
  "cr_ownership (fst (settle_sender n ws c)) = cr_ownership c"
  "cr_ownership (discard_unauthenticated ws c) = cr_ownership c"
  by (simp_all add: accept_connection_def add_client_def add_unauthenticated_def settle_sender_def set_agent_socket_def
      discard_unauthenticated_def Let_def)

fun op_times :: "client_op \<Rightarrow> time set" where
  "op_times (Resolve env now token n ws takeover b ol) = {now}"
| "op_times (Leave now ws) = {now}"
| "op_times op = {}"

text \<open>A lease that was online at \<open>t0\<close> or later, and cannot lapse within the period of grace after it.\<close>

definition held_since :: "time \<Rightarrow> string \<Rightarrow> string \<Rightarrow> name_ownership \<Rightarrow> bool" where
  "held_since t0 n d o' \<longleftrightarrow> dget (ow_token_digests o') n = Some d
     \<and> (\<forall>s. dget (ow_offline_since o') n = Some s \<longrightarrow> t0 \<le> s)"

lemma held_live: "held_since t0 n d o' \<Longrightarrow> now < t0 + ow_offline_ttl o' \<Longrightarrow> live_lease now n d o'"
  by (force simp: held_since_def live_lease_def split: option.splits)

lemma held_kept: "held_since t0 n d o1 \<Longrightarrow> lease_kept n o1 o2 \<Longrightarrow> held_since t0 n d o2 \<and> ow_offline_ttl o2 = ow_offline_ttl o1"
  by (auto simp: held_since_def lease_kept_def)

lemma held_op:
  assumes "held_since t0 n d (cr_ownership (hc_registry h))" "op \<noteq> Revoke n"
    and "\<forall>t\<in>op_times op. t0 \<le> t \<and> t < t0 + ow_offline_ttl (cr_ownership (hc_registry h))"
  shows "held_since t0 n d (cr_ownership (hc_registry (run_client_op op h)))
    \<and> ow_offline_ttl (cr_ownership (hc_registry (run_client_op op h))) = ow_offline_ttl (cr_ownership (hc_registry h))"
proof (cases op)
  case (Resolve env now token m ws tk b ol)
  have "live_lease now n d (cr_ownership (hc_registry h))" using assms Resolve by (intro held_live) auto
  from held_kept [OF assms(1) resolve_lease_kept [OF this, of env token m ws tk b ol]] assms(1) show ?thesis
    by (simp add: Resolve case_prod_beta)
next
  case (Leave now ws)
  let ?c = "discard_unauthenticated ws (hc_registry h)"
  have "held_since t0 n d (mark_offline now m (cr_ownership ?c)) \<and> ow_offline_ttl (mark_offline now m (cr_ownership ?c)) = ow_offline_ttl (cr_ownership ?c)"
    for m using assms Leave by (auto simp: mark_offline_def held_since_def)
  then show ?thesis using drop_client_ownership [of now ws ?c] assms(1) Leave by auto
next
  case (Revoke m)
  then show ?thesis using assms(1,2) by (auto simp: revoke_ownership release_name_def held_since_def)
qed (use assms in \<open>auto split: option.split\<close>)

text \<open>C18: Once a name is leased and its holder online, then for the period of grace of leases, through any
  interleaving of connections, departures, takeovers and registrations that does not revoke the name, no
  socket is newly bound to it without presenting a token whose digest is the one of the lease.\<close>

theorem lease_guards_name:
  assumes "dget (ow_token_digests (cr_ownership (hc_registry h))) n = Some d"
    and "dget (ow_offline_since (cr_ownership (hc_registry h))) n = None" "Revoke n \<notin> set ops"
    and "\<forall>op\<in>set ops. \<forall>t\<in>op_times op. t0 \<le> t \<and> t < t0 + ow_offline_ttl (cr_ownership (hc_registry h))"
    and "now < t0 + ow_offline_ttl (cr_ownership (hc_registry h))"
    and "dget (cr_socket_agent (hc_registry (run_clients ops h))) ws = None"
    and "ad_name (snd (resolve_sender env now token n ws takeover b ol (hc_registry (run_clients ops h)))) = Some n"
  shows "token_digest ol = d"
proof -
  have "held_since t0 n d (cr_ownership (hc_registry (run_clients ops h)))
      \<and> ow_offline_ttl (cr_ownership (hc_registry (run_clients ops h))) = ow_offline_ttl (cr_ownership (hc_registry h))"
    if "held_since t0 n d (cr_ownership (hc_registry h))" "Revoke n \<notin> set ops"
      "\<forall>op\<in>set ops. \<forall>t\<in>op_times op. t0 \<le> t \<and> t < t0 + ow_offline_ttl (cr_ownership (hc_registry h))" for ops h
    using that
  proof (induction ops arbitrary: h)
    case (Cons op ops)
    have "held_since t0 n d (cr_ownership (hc_registry (run_client_op op h)))
        \<and> ow_offline_ttl (cr_ownership (hc_registry (run_client_op op h))) = ow_offline_ttl (cr_ownership (hc_registry h))"
      using Cons.prems by (intro held_op) auto
    then show ?case using Cons.IH [of "run_client_op op h"] Cons.prems by simp
  qed simp
  moreover have "held_since t0 n d (cr_ownership (hc_registry h))" using assms(1,2) by (simp add: held_since_def)
  ultimately have "live_lease now n d (cr_ownership (hc_registry (run_clients ops h)))"
    using assms(3-5) by (intro held_live) auto
  from resolve_needs_token [OF this assms(6,7)] show ?thesis by simp
qed

section \<open>A grant that is lost\<close>

text \<open>The name is leased to nobody and no socket is bound to it; its lease has no departure to lapse from.\<close>

definition orphaned :: "string \<Rightarrow> string \<Rightarrow> client_registry \<Rightarrow> bool" where
  "orphaned n d c \<longleftrightarrow> dget (ow_token_digests (cr_ownership c)) n = Some d \<and> dget (ow_offline_since (cr_ownership c)) n = None
     \<and> (\<forall>ws. dget (cr_socket_agent c) ws \<noteq> Some n)"

fun presents :: "string \<Rightarrow> string \<Rightarrow> client_op \<Rightarrow> bool" where
  "presents n d (Resolve env now token m ws tk b ol) = (m = n \<and> token_digest ol = d)"
| "presents n d op = False"

lemma orphaned_op:
  assumes "orphaned n d (hc_registry h)" "op \<noteq> Revoke n" "\<not> presents n d op"
  shows "orphaned n d (hc_registry (run_client_op op h))"
proof (cases op)
  case (Resolve env now token m ws tk b ol)
  have live: "live_lease now n d (cr_ownership (hc_registry h))" using assms(1) by (simp add: orphaned_def live_lease_def)
  obtain c' ad where r: "resolve_sender env now token m ws tk b ol (hc_registry h) = (c', ad)" by fastforce
  have "lease_kept n (cr_ownership (hc_registry h)) (cr_ownership c')"
    using resolve_lease_kept [OF live, of env token m ws tk b ol] r by simp
  then have lease: "dget (ow_token_digests (cr_ownership c')) n = Some d" "dget (ow_offline_since (cr_ownership c')) n = None"
    using assms(1) by (auto simp: lease_kept_def orphaned_def)
  have "dget (cr_socket_agent c') w \<noteq> Some n" for w
    using r [symmetric]
  proof (cases rule: resolve_sender_cases)
    case unchanged
    then show ?thesis using assms(1) by (simp add: orphaned_def)
  next
    case fresh
    then have "m \<noteq> n" using resolve_needs_token [OF live, of ws env token tk b ol] r assms(3) Resolve by auto
    then show ?thesis using fresh assms(1) by (simp add: orphaned_def)
  next
    case (taken owner_ws)
    then have "m \<noteq> n" using resolve_needs_token [OF live, of ws env token tk b ol] r assms(3) Resolve by auto
    then show ?thesis using taken assms(1) by (simp add: orphaned_def)
  qed
  then show ?thesis using assms(1) lease r Resolve by (simp add: orphaned_def)
next
  case (Settle ws)
  then show ?thesis using assms(1) by (auto simp: orphaned_def settle_sender_def set_agent_socket_def split: option.split)
next
  case (Leave now ws)
  let ?c = "discard_unauthenticated ws (hc_registry h)"
  have sa: "cr_socket_agent ?c = cr_socket_agent (hc_registry h)" by (simp add: discard_unauthenticated_def)
  have "dget (ow_token_digests (mark_offline now m (cr_ownership ?c))) n = Some d \<and> dget (ow_offline_since (mark_offline now m (cr_ownership ?c))) n = None"
    if "dget (cr_socket_agent ?c) ws = Some m" for m
    using assms(1) that sa by (auto simp: orphaned_def mark_offline_def)
  then have "dget (ow_token_digests (cr_ownership (fst (drop_client now ws ?c)))) n = Some d
      \<and> dget (ow_offline_since (cr_ownership (fst (drop_client now ws ?c)))) n = None"
    using drop_client_ownership [of now ws ?c] assms(1) by (auto simp: orphaned_def)
  then show ?thesis using assms(1) Leave by (simp add: orphaned_def drop_client_maps sa)
next
  case (Revoke m)
  then show ?thesis using assms(1,2)
    by (auto simp: orphaned_def revoke_ownership release_name_def revoke_maps split: option.split)
next
  case (Arrive secured ws host)
  then show ?thesis using assms(1)
    by (auto simp: orphaned_def accept_connection_def add_client_def add_unauthenticated_def Let_def)
next
  case (Welcomed ws)
  then show ?thesis using assms(1) by (simp add: orphaned_def discard_unauthenticated_def)
qed

text \<open>A socket that registers a free name with a lease and is gone before the registration completes
  leaves the lease behind with nobody's departure recorded: from then on, whatever the clock, no socket is
  ever bound to the name unless it presents the token, which was sent to nobody, or an operator revokes the name.\<close>

theorem lost_grant_locks_name:
  assumes "ws \<in> cr_connected (hc_registry h)" "dget (hc_pending h) ws = None" "\<not> is_reserved_sender n"
    and "\<forall>w. dget (cr_socket_agent (hc_registry h)) w \<noteq> Some n" "dget (cr_socket_agent (hc_registry h)) ws = None"
    and "dget (cr_agent_sockets (hc_registry h)) n = None" "dget (ow_token_digests (cr_ownership (hc_registry h))) n = None"
    and "Revoke n \<notin> set ops" "\<forall>op\<in>set ops. \<not> presents n (token_digest token) op"
  shows "\<forall>w. dget (cr_socket_agent (hc_registry
      (run_clients (Resolve env now token n ws takeover True ol # Leave now' ws # ops) h))) w \<noteq> Some n"
proof -
  let ?h = "run_client_op (Leave now' ws) (run_client_op (Resolve env now token n ws takeover True ol) h)"
  have start: "orphaned n (token_digest token) (hc_registry ?h)"
    using assms(1-7)
    by (simp add: resolve_sender_def is_leased_def bind_fresh_def admit_owner_def mark_online_def grant_lease_def orphaned_def
        drop_client_def discard_unauthenticated_def Let_def)
  have "orphaned n d (hc_registry (run_clients ops h))"
    if "orphaned n d (hc_registry h)" "Revoke n \<notin> set ops" "\<forall>op\<in>set ops. \<not> presents n d op" for d ops h
    using that
  proof (induction ops arbitrary: h)
    case (Cons op ops)
    then show ?case using orphaned_op [of n d h op] by auto
  qed simp
  from this [OF start assms(8,9)] show ?thesis by (simp add: orphaned_def)
qed

section \<open>Witnesses\<close>

definition small_registry :: client_registry where
  "small_registry = new_registry 2 None (Some 1) 0 30 5 60 3600"

definition two_sockets :: hub_clients where
  "two_sockets = run_clients [Arrive False 0 ''g'', Arrive False 1 ''h''] (started small_registry)"

lemmas client_eval = two_sockets_def small_registry_def new_registry_def new_ownership_def started_def accept_connection_def
  at_capacity_def host_at_capacity_def add_client_def host_count_def

lemma plain_name_a: "\<not> is_reserved_sender ''a''"
  by code_simp

theorem names_resolve_to_bound_sockets_witness:
  "\<forall>env. dget (cr_socket_agent (hc_registry (run_clients [Arrive False 0 ''h'', Resolve env 0 ''t'' ''a'' 0 False False [], Settle 0]
      (started small_registry)))) 0 = Some ''a''"
proof
  fix env
  let ?ops = "[Arrive False 0 ''h'', Resolve env 0 ''t'' ''a'' 0 False False [], Settle 0]"
  let ?c = "hc_registry (run_clients ?ops (started small_registry))"
  have "dget (cr_agent_sockets ?c) ''a'' = Some 0"
    by (simp add: client_eval resolve_sender_def plain_name_a is_leased_def bind_fresh_def admit_owner_def mark_online_def
        settle_sender_def set_agent_socket_def Let_def)
  then show "dget (cr_socket_agent ?c) 0 = Some ''a''"
    using names_resolve_to_bound_sockets [of ?ops small_registry, THEN conjunct1] by blast
qed

theorem two_sockets_one_name_witness:
  "\<forall>env. dget (cr_socket_agent (hc_registry (run_clients [Resolve env 0 ''t'' ''a'' 0 False False [], Resolve env 0 ''t'' ''a'' 1 False False [],
      Settle 0, Settle 1] two_sockets))) 0 = Some ''a''"
proof
  fix env
  show "dget (cr_socket_agent (hc_registry (run_clients [Resolve env 0 ''t'' ''a'' 0 False False [], Resolve env 0 ''t'' ''a'' 1 False False [],
      Settle 0, Settle 1] two_sockets))) 0 = Some ''a''"
    by (rule two_sockets_one_name [unfolded Let_def, THEN conjunct1]) (simp_all add: client_eval plain_name_a)
qed

theorem connections_capped_witness:
  "card (cr_connected (hc_registry (run_clients [Arrive False 0 ''g'', Arrive False 1 ''g'', Arrive False 2 ''h''] (started small_registry)))) \<le> 2"
proof -
  let ?ops = "[Arrive False 0 ''g'', Arrive False 1 ''g'', Arrive False 2 ''h'']"
  have "int (card (cr_connected (hc_registry (run_clients ?ops (started small_registry)))))
      \<le> cr_max_clients (hc_registry (run_clients ?ops (started small_registry)))"
    by (rule connections_capped [unfolded Let_def, THEN conjunct1]) (simp_all add: small_registry_def new_registry_def)
  moreover have "cr_max_clients (hc_registry (run_clients ?ops (started small_registry))) = 2"
    by (simp add: client_eval Let_def)
  ultimately show ?thesis by linarith
qed

theorem lease_guards_name_witness:
  "\<forall>env. let h = run_client_op (Resolve env 0 ''t'' ''a'' 0 False True []) two_sockets
    in {ol. ad_name (snd (resolve_sender env 6 ''u'' ''a'' 1 False False ol (hc_registry (run_clients [Leave 5 0] h)))) = Some ''a''}
      \<subseteq> {ol. token_digest ol = token_digest ''t''}"
proof
  fix env
  let ?h = "run_client_op (Resolve env 0 ''t'' ''a'' 0 False True []) two_sockets"
  have lease: "dget (ow_token_digests (cr_ownership (hc_registry ?h))) ''a'' = Some (token_digest ''t'')"
      "dget (ow_offline_since (cr_ownership (hc_registry ?h))) ''a'' = None"
      "ow_offline_ttl (cr_ownership (hc_registry ?h)) = 3600"
      "dget (cr_socket_agent (hc_registry (run_clients [Leave 5 0] ?h))) 1 = None"
    by (simp_all add: client_eval resolve_sender_def plain_name_a is_leased_def bind_fresh_def admit_owner_def mark_online_def
        grant_lease_def drop_client_maps discard_unauthenticated_def Let_def)
  have "token_digest ol = token_digest ''t''"
    if "ad_name (snd (resolve_sender env 6 ''u'' ''a'' 1 False False ol (hc_registry (run_clients [Leave 5 0] ?h)))) = Some ''a''" for ol
    by (rule lease_guards_name [where ops = "[Leave 5 0]" and ?t0.0 = 0 and now = 6 and h = ?h, OF lease(1,2) _ _ _ lease(4) that])
      (simp_all only: lease(3), simp_all)
  then show "let h = ?h
    in {ol. ad_name (snd (resolve_sender env 6 ''u'' ''a'' 1 False False ol (hc_registry (run_clients [Leave 5 0] h)))) = Some ''a''}
      \<subseteq> {ol. token_digest ol = token_digest ''t''}"
    unfolding Let_def by blast
qed

theorem lost_grant_locks_name_witness:
  "\<forall>env. dget (cr_socket_agent (hc_registry (run_clients
      [Resolve env 0 ''t'' ''a'' 0 False True [], Leave 0 0, Arrive False 2 ''g'', Settle 1] two_sockets))) 2 \<noteq> Some ''a''"
proof
  fix env
  have "\<forall>w. dget (cr_socket_agent (hc_registry (run_clients
      (Resolve env 0 ''t'' ''a'' 0 False True [] # Leave 0 0 # [Arrive False 2 ''g'', Settle 1]) two_sockets))) w \<noteq> Some ''a''"
    by (rule lost_grant_locks_name) (simp_all add: client_eval plain_name_a)
  then show "dget (cr_socket_agent (hc_registry (run_clients
      [Resolve env 0 ''t'' ''a'' 0 False True [], Leave 0 0, Arrive False 2 ''g'', Settle 1] two_sockets))) 2 \<noteq> Some ''a''" by blast
qed

end
