(* ===== verification/Client_Takeovers.thy ===== *)
theory Client_Takeovers
  imports Client_Properties
begin

text \<open>
  The damping of takeovers (\<open>_classify_takeover\<close> of \<open>core/hub_clients.py\<close>) as a decision over the history
  of evictions of a name, and the bound it gives over every run.
\<close>

section \<open>Takeovers\<close>

text \<open>What decides the takeovers of one name, and their configuration.\<close>

definition damping :: "string \<Rightarrow> client_registry \<Rightarrow> time option \<times> time list option \<times> time option" where
  "damping n c = (dget (cr_last_takeover c) n, dget (cr_takeover_times c) n, dget (cr_quarantine_until c) n)"

definition takeover_limits :: "client_registry \<Rightarrow> time \<times> time \<times> int \<times> time" where
  "takeover_limits c = (cr_takeover_cooldown c, cr_oscillation_window c, cr_oscillation_threshold c, cr_takeover_quarantine c)"

definition superseding :: "admission \<Rightarrow> bool" where
  "superseding ad \<longleftrightarrow> ad_name ad \<noteq> None \<and> ad_closed ad \<noteq> []"

text \<open>The times at which a run evicted the holder of a name.\<close>

fun evictions :: "string \<Rightarrow> client_op list \<Rightarrow> hub_clients \<Rightarrow> time list" where
  "evictions n [] h = []"
| "evictions n (op # ops) h =
     (case op of
        Resolve env now token m ws tk b ol \<Rightarrow>
          (if m = n \<and> ws \<in> cr_connected (hc_registry h) \<and> dget (hc_pending h) ws = None
              \<and> superseding (snd (resolve_sender env now token m ws tk b ol (hc_registry h))) then [now] else [])
      | _ \<Rightarrow> []) @ evictions n ops (run_client_op op h)"

lemma damping_update [simp]:
  "damping n (c\<lparr>cr_ownership := o'\<rparr>) = damping n c" "damping n (c\<lparr>cr_socket_agent := sa\<rparr>) = damping n c"
  "damping n (c\<lparr>cr_agent_sockets := as'\<rparr>) = damping n c"
  "damping n (forget_name m c) = damping n c" "damping n (drop_host ws c) = damping n c"
  "damping n (fst (settle_sender m ws c)) = damping n c" "damping n (discard_unauthenticated ws c) = damping n c"
  "damping n (fst (accept_connection secured ws host c)) = damping n c"
  by (simp_all add: damping_def forget_name_def drop_host_def settle_sender_def set_agent_socket_def discard_unauthenticated_def
      accept_connection_def add_client_def add_unauthenticated_def Let_def split: option.split)

lemma limits_update [simp]:
  "takeover_limits (c\<lparr>cr_ownership := o'\<rparr>) = takeover_limits c" "takeover_limits (c\<lparr>cr_socket_agent := sa\<rparr>) = takeover_limits c"
  "takeover_limits (c\<lparr>cr_agent_sockets := as'\<rparr>) = takeover_limits c" "takeover_limits (c\<lparr>cr_last_takeover := lt\<rparr>) = takeover_limits c"
  "takeover_limits (forget_name m c) = takeover_limits c" "takeover_limits (drop_host ws c) = takeover_limits c"
  "takeover_limits (fst (settle_sender m ws c)) = takeover_limits c" "takeover_limits (discard_unauthenticated ws c) = takeover_limits c"
  "takeover_limits (fst (accept_connection secured ws host c)) = takeover_limits c"
  "takeover_limits (fst (classify_takeover m now c)) = takeover_limits c"
  by (simp_all add: takeover_limits_def forget_name_def drop_host_def settle_sender_def set_agent_socket_def discard_unauthenticated_def
      accept_connection_def add_client_def add_unauthenticated_def Let_def split: option.split)

lemma damping_drop [simp]:
  "damping n (fst (drop_client now ws c)) = damping n c" "takeover_limits (fst (drop_client now ws c)) = takeover_limits c"
  by (simp_all add: drop_client_def Let_def split: option.split)
    (simp_all add: damping_def takeover_limits_def forget_name_def drop_host_def Let_def split: option.split)

lemma damping_revoke [simp]:
  "damping n (fst (revoke_name m c)) = damping n c" "takeover_limits (fst (revoke_name m c)) = takeover_limits c"
  by (simp_all add: revoke_name_def Let_def split: option.split)

lemma damping_admit [simp]:
  "damping n (fst (admit_owner env now token m ws b c)) = damping n c"
  "takeover_limits (fst (admit_owner env now token m ws b c)) = takeover_limits c"
  by (metis admit_owner_frame damping_update(1), metis admit_owner_frame limits_update(1))

lemma classify_other: "m \<noteq> n \<Longrightarrow> damping n (fst (classify_takeover m now c)) = damping n c"
  by (simp add: classify_takeover_def damping_def Let_def)

lemma classify_ownership:
  "snd (classify_takeover m now (c\<lparr>cr_ownership := o'\<rparr>)) = snd (classify_takeover m now c)"
  "damping n (fst (classify_takeover m now (c\<lparr>cr_ownership := o'\<rparr>))) = damping n (fst (classify_takeover m now c))"
  by (simp_all add: classify_takeover_def recent_takeovers_def damping_def Let_def cong: option.case_cong)

text \<open>A resolution leaves the damping of a name alone, or is a decided takeover of it.\<close>

lemma resolve_damping:
  assumes "resolve_sender env now token m ws tk b ol c = (c', ad)"
  obtains (calm) "damping n c' = damping n c" "m = n \<Longrightarrow> \<not> superseding ad" "takeover_limits c' = takeover_limits c"
  | (refused) v where "m = n" "classify_takeover n now c = (fst (classify_takeover n now c), v)" "v \<noteq> Accept_Takeover" "\<not> superseding ad"
      "damping n c' = damping n (fst (classify_takeover n now c))" "takeover_limits c' = takeover_limits c"
  | (accepted) "m = n" "snd (classify_takeover n now c) = Accept_Takeover" "superseding ad"
      "damping n c' = (Some now, snd (damping n (fst (classify_takeover n now c))))" "takeover_limits c' = takeover_limits c"
proof -
  obtain o1 leased where l: "is_leased now m (cr_ownership c) = (o1, leased)" by fastforce
  obtain o2 matched where mt: "(if leased then matches_lease now m ol o1 else (o1, False)) = (o2, matched)" by fastforce
  let ?c1 = "c\<lparr>cr_ownership := o2\<rparr>"
  have fresh: "damping n (fst (bind_fresh env now token m ws b ?c1)) = damping n c
      \<and> takeover_limits (fst (bind_fresh env now token m ws b ?c1)) = takeover_limits c
      \<and> \<not> superseding (snd (bind_fresh env now token m ws b ?c1))"
    by (simp add: bind_fresh_def case_prod_beta superseding_def)
  have cases: "(c', ad) = take_over env now token m ws b owner_ws ?c1
      \<Longrightarrow> thesis" for owner_ws
  proof -
    assume r: "(c', ad) = take_over env now token m ws b owner_ws ?c1"
    obtain c2 v where v1: "classify_takeover m now ?c1 = (c2, v)" by fastforce
    have v: "snd (classify_takeover m now c) = v" "damping n (fst (classify_takeover m now c)) = damping n c2" for n
      using classify_ownership [where m = m and now = now and c = c and o' = o2] v1 by simp_all
    have lim: "takeover_limits c2 = takeover_limits c" using limits_update(10) [of m now ?c1] v1 by simp
    show thesis
    proof (cases "v = Accept_Takeover")
      case True
      let ?c3 = "c2\<lparr>cr_last_takeover := dset m now (cr_last_takeover c2),
          cr_socket_agent := dset ws m (ddel owner_ws (cr_socket_agent c2)), cr_agent_sockets := dset m ws (cr_agent_sockets c2)\<rparr>"
      have ad: "superseding ad" "c' = fst (admit_owner env now token m ws b ?c3)"
        using r v1 True by (auto simp: take_over_def Let_def superseding_def split: prod.splits)
      have d: "damping n c' = (if m = n then Some now else fst (damping n c2), snd (damping n c2))" "takeover_limits c' = takeover_limits c"
        by (simp_all add: ad(2) lim) (simp add: damping_def)
      show thesis
      proof (cases "m = n")
        case True
        then show thesis using accepted ad(1) d v \<open>v = Accept_Takeover\<close> by simp
      next
        case False
        then have "damping n c' = damping n c" using d(1) classify_other [OF False, of now c] v by (simp add: prod_eq_iff)
        then show thesis using calm False d(2) by blast
      qed
    next
      case False
      then have r2: "c' = c2" "\<not> superseding ad"
        using r v1 by (cases v; auto simp: take_over_def refuse_bind_def superseding_def)+
      show thesis
      proof (cases "m = n")
        case True
        then show thesis using refused [of v] False r2 v lim by (simp add: prod_eq_iff)
      next
        case other: False
        then show thesis using calm r2 lim classify_other [OF other, of now c] v by simp
      qed
    qed
  qed
  have calm': "thesis" if "damping n c' = damping n c" "\<not> superseding ad" "takeover_limits c' = takeover_limits c"
    using that calm by blast
  show thesis
  proof (cases "is_reserved_sender m \<or> dget (cr_socket_agent c) ws \<noteq> None \<or> leased \<and> \<not> matched")
    case True
    then show thesis
      using assms l mt by (intro calm') (auto simp: resolve_sender_def refuse_bind_def superseding_def split: if_splits option.splits)
  next
    case go: False
    show thesis
    proof (cases "dget (cr_agent_sockets c) m")
      case None
      then have "(c', ad) = bind_fresh env now token m ws b ?c1" using go assms l mt by (auto simp: resolve_sender_def)
      then show thesis using fresh calm' by (metis fst_conv snd_conv)
    next
      case (Some owner_ws)
      consider (same) "owner_ws = ws" | (over) "owner_ws \<noteq> ws" tk | (conflict) "owner_ws \<noteq> ws" "\<not> tk" by blast
      then show thesis
      proof cases
        case same
        then have "(c', ad) = bind_fresh env now token m ws b ?c1" using go assms l mt Some by (auto simp: resolve_sender_def)
        then show thesis using fresh calm' by (metis fst_conv snd_conv)
      next
        case over
        then show thesis using cases [of owner_ws] go assms l mt Some by (auto simp: resolve_sender_def)
      next
        case conflict
        then show thesis using go assms l mt Some
          by (intro calm') (auto simp: resolve_sender_def refuse_bind_def superseding_def)
      qed
    qed
  qed
qed

text \<open>The decision as a function of the damping alone.\<close>

fun decide :: "time \<times> time \<times> int \<times> time \<Rightarrow> time \<Rightarrow> time option \<times> time list option \<times> time option
    \<Rightarrow> (time option \<times> time list option \<times> time option) \<times> takeover_verdict" where
  "decide (cool, W, thr, Q) now (l, ts, q) =
     (if (case q of None \<Rightarrow> False | Some until \<Rightarrow> now < until) then ((l, ts, q), Quarantine_Active)
      else
        (let ts1 = (if q \<noteq> None then None else ts);
             recent = filter (\<lambda>x. now - W \<le> x) (case ts1 of None \<Rightarrow> [] | Some xs \<Rightarrow> xs) @ [now] in
         if (case l of None \<Rightarrow> False | Some x \<Rightarrow> now - x < cool) then ((l, ts1, None), Cooldown)
         else if thr \<le> int (length recent) then ((l, None, Some (now + Q)), Quarantine_Enter)
         else ((l, Some recent, None), Accept_Takeover)))"

lemma classify_decides:
  "(damping n (fst (classify_takeover n now c)), snd (classify_takeover n now c)) = decide (takeover_limits c) now (damping n c)"
  by (simp add: classify_takeover_def recent_takeovers_def damping_def takeover_limits_def Let_def cong: option.case_cong)

text \<open>
  The history of evictions of a name, as its damping knows it: every eviction at least the cooldown after
  the last, none of the windows full, and either the recent ones on record or all of them before the
  quarantine began.
\<close>

fun damped :: "time \<times> time \<times> int \<times> time \<Rightarrow> time list \<Rightarrow> time \<Rightarrow> time option \<times> time list option \<times> time option \<Rightarrow> bool" where
  "damped (cool, W, thr, Q) hist T (l, ts, q) \<longleftrightarrow>
     (\<forall>x\<in>set hist. x \<le> T) \<and> l = (if hist = [] then None else Some (last hist))
     \<and> sorted_wrt (\<lambda>x y. x \<le> y \<and> cool \<le> y - x) hist
     \<and> (\<forall>t. int (length (filter (\<lambda>x. t - W \<le> x \<and> x \<le> t) hist)) < thr)
     \<and> (case q of Some u \<Rightarrow> \<forall>x\<in>set hist. x \<le> u - Q
        | None \<Rightarrow> filter (\<lambda>x. T - W \<le> x) hist = filter (\<lambda>x. T - W \<le> x) (case ts of None \<Rightarrow> [] | Some xs \<Rightarrow> xs))"

lemma filter_later:
  assumes "filter (\<lambda>x. T - W \<le> x) xs = filter (\<lambda>x. T - W \<le> x) ys" "T \<le> (now :: time)"
  shows "filter (\<lambda>x. now - W \<le> x) xs = filter (\<lambda>x. now - W \<le> x) ys"
proof -
  have "filter (\<lambda>x. now - W \<le> x) zs = filter (\<lambda>x. now - W \<le> x) (filter (\<lambda>x. T - W \<le> x) zs)" for zs
    using assms(2) by (auto intro!: filter_cong)
  then show ?thesis using assms(1) by metis
qed

text \<open>What is on record when a takeover is asked for at \<open>now\<close>.\<close>

lemma recorded_recent:
  assumes "damped (cool, W, thr, Q) hist T (l, ts, q)" "T \<le> now" "W < Q" "\<forall>u. q = Some u \<longrightarrow> u \<le> now"
  shows "filter (\<lambda>x. now - W \<le> x) hist
    = filter (\<lambda>x. now - W \<le> x) (case (if q \<noteq> None then None else ts) of None \<Rightarrow> [] | Some xs \<Rightarrow> xs)"
proof (cases q)
  case None
  then have "filter (\<lambda>x. T - W \<le> x) hist = filter (\<lambda>x. T - W \<le> x) (case ts of None \<Rightarrow> [] | Some xs \<Rightarrow> xs)"
    using assms(1) by simp
  from filter_later [OF this assms(2)] show ?thesis using None by simp
next
  case (Some u)
  then have "\<forall>x\<in>set hist. \<not> now - W \<le> x" using assms by force
  then show ?thesis using Some by (simp add: filter_empty_conv)
qed

lemma windows_snoc:
  assumes "\<forall>t. int (length (filter (\<lambda>x. t - W \<le> x \<and> x \<le> t) hist)) < thr" "\<forall>x\<in>set hist. x \<le> (now :: time)"
    and "int (length (filter (\<lambda>x. now - W \<le> x) hist)) + 1 < thr"
  shows "int (length (filter (\<lambda>x. t - W \<le> x \<and> x \<le> t) (hist @ [now]))) < thr"
proof (cases "now \<le> t")
  case True
  have "filter (\<lambda>x. t - W \<le> x \<and> x \<le> t) hist = filter (\<lambda>x. t - W \<le> x) (filter (\<lambda>x. now - W \<le> x) hist)"
    using True assms(2) by (auto intro!: filter_cong)
  then have "length (filter (\<lambda>x. t - W \<le> x \<and> x \<le> t) hist) \<le> length (filter (\<lambda>x. now - W \<le> x) hist)"
    by (simp only: length_filter_le)
  then show ?thesis using assms(3) by simp
next
  case False
  then show ?thesis using assms(1) by simp
qed

lemma decide_damped:
  assumes d: "damped lims hist T dm" and le: "T \<le> now" and lims: "lims = (cool, W, thr, Q)" "W < Q"
    and r: "decide lims now dm = (dm', v)"
  shows "if v = Accept_Takeover then damped lims (hist @ [now]) now (Some now, snd dm') else damped lims hist now dm'"
proof -
  obtain l ts q where dm: "dm = (l, ts, q)" by (metis prod_cases3)
  note d' = d [unfolded lims(1) dm]
  have hist: "\<forall>x\<in>set hist. x \<le> now" using d' le by force
  show ?thesis
  proof (cases "case q of None \<Rightarrow> False | Some until \<Rightarrow> now < until")
    case True
    then show ?thesis using r d' hist by (auto simp: lims(1) dm split: option.splits)
  next
    case False
    define recent where "recent = filter (\<lambda>x. now - W \<le> x) (case (if q \<noteq> None then None else ts) of None \<Rightarrow> [] | Some xs \<Rightarrow> xs)"
    have rec: "filter (\<lambda>x. now - W \<le> x) hist = recent"
      unfolding recent_def by (rule recorded_recent [OF d' le lims(2)]) (use False in auto)
    have result: "(dm', v) =
        (if (case l of None \<Rightarrow> False | Some x \<Rightarrow> now - x < cool) then ((l, if q \<noteq> None then None else ts, None), Cooldown)
         else if thr \<le> int (length (recent @ [now])) then ((l, None, Some (now + Q)), Quarantine_Enter)
         else ((l, Some (recent @ [now]), None), Accept_Takeover))"
      using r [symmetric] False by (simp only: lims(1) dm decide.simps recent_def Let_def if_False)
    show ?thesis
    proof (cases v)
      case Accept_Takeover
      then have v: "dm' = (l, Some (recent @ [now]), None)" "int (length recent) + 1 < thr"
          "case l of None \<Rightarrow> True | Some x \<Rightarrow> cool \<le> now - x"
        using result by (auto split: if_splits option.splits)
      have spaced: "x \<in> set hist \<Longrightarrow> x \<le> now \<and> cool \<le> now - x" for x
      proof -
        assume x: "x \<in> set hist"
        then have "hist \<noteq> []" by auto
        then have "x \<le> last hist" using d' x by (cases hist rule: rev_cases) (auto simp: sorted_wrt_append)
        moreover have "cool \<le> now - last hist" using v(3) d' \<open>hist \<noteq> []\<close> by simp
        ultimately show ?thesis using hist x by force
      qed
      have "int (length (filter (\<lambda>x. t - W \<le> x \<and> x \<le> t) (hist @ [now]))) < thr" for t
        by (rule windows_snoc) (use d' hist v(2) rec in auto)
      moreover have "filter (\<lambda>x. now - W \<le> x) (recent @ [now]) = filter (\<lambda>x. now - W \<le> x) (hist @ [now])"
        using rec [symmetric] by simp
      ultimately show ?thesis
        using Accept_Takeover v(1) d' hist spaced by (simp add: lims(1) sorted_wrt_append del: filter_append)
    next
      case Cooldown
      then have "dm' = (l, if q \<noteq> None then None else ts, None)" using result by (auto split: if_splits)
      then show ?thesis using Cooldown d' hist rec by (simp add: lims(1) recent_def)
    next
      case Quarantine_Enter
      then have "dm' = (l, None, Some (now + Q))" using result by (auto split: if_splits)
      then show ?thesis using Quarantine_Enter d' hist by (simp add: lims(1))
    next
      case Quarantine_Active
      then show ?thesis using result by (auto split: if_splits)
    qed
  qed
qed

lemma damped_later:
  assumes "damped lims hist T dm" "T \<le> now"
  shows "damped lims hist now dm"
proof -
  obtain cool W thr Q l ts q where eqs: "lims = (cool, W, thr, Q)" "dm = (l, ts, q)" by (metis prod_cases3 prod_cases4)
  have "\<forall>x\<in>set hist. x \<le> now" using assms unfolding eqs by force
  moreover have "q = None \<Longrightarrow> filter (\<lambda>x. now - W \<le> x) hist = filter (\<lambda>x. now - W \<le> x) (case ts of None \<Rightarrow> [] | Some xs \<Rightarrow> xs)"
    by (rule filter_later [OF _ assms(2)]) (use assms(1) in \<open>simp add: eqs\<close>)
  ultimately show ?thesis using assms(1) unfolding eqs by (cases q) simp_all
qed

lemma op_damped:
  assumes d: "damped lims hist T (damping n (hc_registry h))" and lims: "takeover_limits (hc_registry h) = lims"
    and W: "lims = (cool, W, thr, Q)" "W < Q" and later: "\<forall>t\<in>op_times op. T \<le> t \<and> t \<le> T'" "T \<le> T'"
  shows "damped lims (hist @ evictions n [op] h) T' (damping n (hc_registry (run_client_op op h)))
    \<and> takeover_limits (hc_registry (run_client_op op h)) = lims"
proof (cases op)
  case (Resolve env now token m ws tk b ol)
  show ?thesis
  proof (cases "ws \<in> cr_connected (hc_registry h) \<and> dget (hc_pending h) ws = None")
    case False
    then show ?thesis using damped_later [OF d later(2)] lims Resolve by auto
  next
    case True
    obtain c' ad where r: "resolve_sender env now token m ws tk b ol (hc_registry h) = (c', ad)" by fastforce
    have h': "hc_registry (run_client_op op h) = c'" using True r Resolve by simp
    have now: "T \<le> now" "now \<le> T'" using later Resolve by auto
    have dec: "decide lims now (damping n (hc_registry h))
        = (damping n (fst (classify_takeover n now (hc_registry h))), snd (classify_takeover n now (hc_registry h)))"
      using classify_decides [of n now "hc_registry h"] lims by simp
    note decided = decide_damped [OF d now(1) W dec]
    from r show ?thesis
    proof (cases rule: resolve_damping [where n = n])
      case calm
      then have "evictions n [op] h = []" using r Resolve by auto
      then show ?thesis using calm lims d damped_later [OF d later(2)] h' by simp
    next
      case (refused v)
      then have "evictions n [op] h = []" using r Resolve by simp
      moreover have "snd (classify_takeover n now (hc_registry h)) \<noteq> Accept_Takeover" using refused(2,3) by (metis snd_conv)
      ultimately show ?thesis using refused lims decided damped_later [OF _ now(2)] h' by simp
    next
      case accepted
      then have "evictions n [op] h = [now]" using True r Resolve by simp
      then show ?thesis using accepted lims decided damped_later [OF _ now(2)] h' by simp
    qed
  qed
next
  case (Settle ws)
  then show ?thesis using damped_later [OF d later(2)] lims by (simp split: option.split)
qed (use damped_later [OF d later(2)] lims in simp_all)

fun op_clock :: "client_op \<Rightarrow> time list" where
  "op_clock (Resolve env now token n ws takeover b ol) = [now]"
| "op_clock (Leave now ws) = [now]"
| "op_clock op = []"

lemma op_clock_times: "set (op_clock op) = op_times op"
  by (cases op) simp_all

lemma run_damped:
  assumes "damped lims hist T (damping n (hc_registry h))" "takeover_limits (hc_registry h) = lims" "lims = (cool, W, thr, Q)" "W < Q"
    and "sorted (T # concat (map op_clock ops))"
  shows "\<exists>T' dm. damped lims (hist @ evictions n ops h) T' dm"
  using assms
proof (induction ops arbitrary: h hist T)
  case Nil
  then have "damped lims (hist @ evictions n [] h) T (damping n (hc_registry h))" by simp
  then show ?case by blast
next
  case (Cons op ops)
  let ?T' = "if op_clock op = [] then T else hd (op_clock op)"
  have single: "op_clock op = [] \<or> op_clock op = [hd (op_clock op)]" by (cases op) simp_all
  have "sorted (T # op_clock op @ concat (map op_clock ops))" using Cons.prems(5) by simp
  then have times: "\<forall>t\<in>op_times op. T \<le> t \<and> t \<le> ?T'" "T \<le> ?T'" "sorted (?T' # concat (map op_clock ops))"
    using single by (auto simp: op_clock_times [symmetric]) (cases op; simp)+
  from op_damped [OF Cons.prems(1-4) times(1,2)]
  obtain T'' dm where "damped lims ((hist @ evictions n [op] h) @ evictions n ops (run_client_op op h)) T'' dm"
    using Cons.IH [OF _ _ Cons.prems(3,4) times(3)] by metis
  moreover have "(hist @ evictions n [op] h) @ evictions n ops (run_client_op op h) = hist @ evictions n (op # ops) h" by simp
  ultimately show ?case by metis
qed

text \<open>C19: Over any interleaving with a clock that does not run backwards, the holder of a name is evicted
  at most once per cooldown, and less often than the threshold in every window of oscillation, when the
  quarantine is longer than that window.\<close>

theorem takeovers_damped:
  assumes "cr_oscillation_window c < cr_takeover_quarantine c" "0 < cr_oscillation_threshold c"
    and "cr_last_takeover c = []" "cr_takeover_times c = []" "cr_quarantine_until c = []"
    and "sorted (concat (map op_clock ops))"
  shows "sorted_wrt (\<lambda>x y. cr_takeover_cooldown c \<le> y - x) (evictions n ops (started c))
    \<and> (\<forall>t. int (length (filter (\<lambda>x. t - cr_oscillation_window c \<le> x \<and> x \<le> t) (evictions n ops (started c))))
          < cr_oscillation_threshold c)"
proof -
  let ?L = "(cr_takeover_cooldown c, cr_oscillation_window c, cr_oscillation_threshold c, cr_takeover_quarantine c)"
  obtain T where T: "sorted (T # concat (map op_clock ops))"
  proof (cases "concat (map op_clock ops)")
    case Nil
    then show thesis using that [of 0] by (simp only: sorted_simps list.set ball_empty simp_thms)
  next
    case (Cons t ts)
    then show thesis using that [of t] assms(6) by simp
  qed
  have "damped ?L [] T (damping n (hc_registry (started c)))" "takeover_limits (hc_registry (started c)) = ?L"
    using assms(2-5) by (simp_all add: damping_def started_def takeover_limits_def)
  from run_damped [OF this refl assms(1) T] obtain T' dm where d: "damped ?L (evictions n ops (started c)) T' dm" by auto
  obtain l ts q where "dm = (l, ts, q)" by (metis prod_cases3)
  with d show ?thesis by (auto elim: sorted_wrt_mono_rel [rotated])
qed

section \<open>Witness\<close>

definition takeover_hub :: client_registry where
  "takeover_hub = new_registry 9 None None 0 30 2 60 3600"

text \<open>A name changes hands once; the second takeover in the window starts its quarantine.\<close>

definition takeover_ops :: "hub_env \<Rightarrow> client_op list" where
  "takeover_ops env =
     [Arrive False 0 ''h'', Arrive False 1 ''h'', Arrive False 2 ''h'',
      Resolve env 0 ''t'' ''n'' 0 False False [], Settle 0, Resolve env 1 ''t'' ''n'' 1 True False [], Settle 1,
      Resolve env 2 ''t'' ''n'' 2 True False []]"

lemma plain_name_n: "\<not> is_reserved_sender ''n''"
  by code_simp

theorem takeovers_damped_witness:
  "\<forall>env. evictions ''n'' (takeover_ops env) (started takeover_hub) = [1]"
proof
  fix env
  have "\<forall>t. int (length (filter (\<lambda>x. t - cr_oscillation_window takeover_hub \<le> x \<and> x \<le> t)
      (evictions ''n'' (takeover_ops env) (started takeover_hub)))) < cr_oscillation_threshold takeover_hub"
    by (rule takeovers_damped [THEN conjunct2])
      (simp_all add: takeover_hub_def new_registry_def takeover_ops_def)
  from spec [OF this, of 2] show "evictions ''n'' (takeover_ops env) (started takeover_hub) = [1]"
    by (simp add: takeover_hub_def new_registry_def takeover_ops_def started_def accept_connection_def at_capacity_def
        host_at_capacity_def add_client_def host_count_def resolve_sender_def plain_name_n is_leased_def new_ownership_def bind_fresh_def
        admit_owner_def mark_online_def settle_sender_def set_agent_socket_def take_over_def classify_takeover_def
        recent_takeovers_def superseding_def refuse_bind_def Let_def)
qed

end
