(* ===== verification/Walk_Bounds.thy ===== *)
theory Walk_Bounds
  imports Deadlock Ledger
begin

text \<open>
  How long the two walks that refuse a cycle run: the loops of \<open>would_create_cycle\<close>
  (\<open>core/deadlock.py\<close>) and \<open>_would_cycle\<close> (\<open>core/ledger.py\<close>) with a count of their iterations.
\<close>

text \<open>The loop as it is written; \<open>None\<close> when the iterations are used up.\<close>

fun walk_loop :: "nat \<Rightarrow> ('a, 'a list) pydict \<Rightarrow> 'a \<Rightarrow> 'a list \<Rightarrow> 'a list \<Rightarrow> bool option" where
  "walk_loop k g target [] seen = Some False"
| "walk_loop 0 g target (node # stack) seen = None"
| "walk_loop (Suc k) g target (node # stack) seen =
     (if node = target then Some True
      else if node \<in> set seen then walk_loop k g target stack seen
      else walk_loop k g target (rev (succs g node) @ stack) (node # seen))"

definition open_edges :: "('a, 'a list) pydict \<Rightarrow> 'a list \<Rightarrow> nat" where
  "open_edges g seen = (\<Sum>k \<in> fst ` set g - set seen. length (succs g k))"

lemma open_edges_expand: "node \<notin> set seen \<Longrightarrow> length (succs g node) + open_edges g (node # seen) = open_edges g seen"
proof (cases "node \<in> fst ` set g")
  case True
  assume new: "node \<notin> set seen"
  have split: "fst ` set g - set seen = insert node (fst ` set g - set (node # seen))" using True new by auto
  show ?thesis unfolding open_edges_def split by (subst sum.insert) auto
next
  case False
  then have "succs g node = []" by (simp add: succs_def map_of_eq_None_iff [THEN iffD2])
  moreover have "fst ` set g - set (node # seen) = fst ` set g - set seen" using False by auto
  ultimately show ?thesis by (simp add: open_edges_def)
qed

lemma walk_loop_enough:
  "length stack + open_edges g seen \<le> k \<Longrightarrow> walk_loop k g target stack seen = Some (dfs_reaches g target stack seen)"
proof (induction k g target stack seen rule: walk_loop.induct)
  case (3 k g target node stack seen)
  then show ?case using open_edges_expand [of node seen g] by auto
qed simp_all

lemma open_edges_start: "open_edges g [] = (\<Sum>k \<in> fst ` set g. length (succs g k))"
  by (simp add: open_edges_def)

text \<open>C28: The walks that refuse a wait or a dependency return, and within one iteration for every node
  they start from and every edge of the graph: with that many iterations the loop gives the answer.\<close>

theorem cycle_walks_return:
  "walk_loop (Suc (\<Sum>k \<in> fst ` set (resolve_wait_edges waits cs). length (succs (resolve_wait_edges waits cs) k)))
      (resolve_wait_edges waits cs) waiter [holder] []
    = Some (would_create_cycle waits cs waiter holder)
   \<and> walk_loop (length depends_on + (\<Sum>k \<in> fst ` set (dependency_graph (board_tasks b)). length (succs (dependency_graph (board_tasks b)) k)))
      (dependency_graph (board_tasks b)) task (rev depends_on) []
    = Some (would_cycle task depends_on b)"
proof
  let ?g = "resolve_wait_edges waits cs"
  let ?n = "\<Sum>k \<in> fst ` set ?g. length (succs ?g k)"
  have "walk_loop (Suc ?n) ?g waiter [holder] [] = Some (dfs_reaches ?g waiter [holder] [])"
    by (rule walk_loop_enough) (simp add: open_edges_start)
  then show "walk_loop (Suc ?n) ?g waiter [holder] [] = Some (would_create_cycle waits cs waiter holder)"
    by (simp add: would_create_cycle_def)
  show "walk_loop (length depends_on + (\<Sum>k \<in> fst ` set (dependency_graph (board_tasks b)). length (succs (dependency_graph (board_tasks b)) k)))
      (dependency_graph (board_tasks b)) task (rev depends_on) [] = Some (would_cycle task depends_on b)"
    unfolding would_cycle_def by (rule walk_loop_enough) (simp add: open_edges_start)
qed

end
