(* ===== verification/Federation.thy ===== *)
theory Federation
  imports Message_Auth
begin

text \<open>
  Peered domains (\<open>core/federation.py\<close>) and the gate that classifies a frame as local or cross-domain
  (\<open>core/hub_federation_gate.py\<close>).  The certificate of the socket is an argument: the pin it gives,
  none, or a failure to read it.
\<close>

section \<open>Policy\<close>

record scope_grant =
  sg_verb :: string
  sg_namespace :: string

record federation_peer =
  fp_domain_id :: string
  fp_namespaces :: "string list"
  fp_certificate_pins :: "string list"
  fp_signing_key_ids :: "string list"
  fp_scope_grants :: "scope_grant list"
  fp_expires_at :: "time option"
  fp_revoked :: bool

definition is_active :: "federation_peer \<Rightarrow> time \<Rightarrow> bool" where
  "is_active peer now \<longleftrightarrow> \<not> fp_revoked peer \<and> (case fp_expires_at peer of None \<Rightarrow> True | Some t \<Rightarrow> now < t)"

definition grants_for :: "federation_peer \<Rightarrow> string \<Rightarrow> scope_grant list" where
  "grants_for peer ns = filter (\<lambda>g. sg_namespace g = ns) (fp_scope_grants peer)"

record federation_decision =
  fd_allowed :: bool
  fd_domain_id :: string
  fd_reason :: string
  fd_scope :: "scope_grant list"

text \<open>A later peer of the same domain replaces the earlier one.\<close>

type_synonym federation_bundle = "(string, federation_peer) pydict"

definition new_bundle :: "federation_peer list \<Rightarrow> federation_bundle" where
  "new_bundle peers = fold (\<lambda>p d. dset (fp_domain_id p) p d) peers []"

definition deny_domain :: "string \<Rightarrow> string \<Rightarrow> federation_decision" where
  "deny_domain domain reason = \<lparr>fd_allowed = False, fd_domain_id = domain, fd_reason = reason, fd_scope = []\<rparr>"

definition decide_domain ::
  "federation_bundle \<Rightarrow> string \<Rightarrow> string \<Rightarrow> string \<Rightarrow> string option \<Rightarrow> time \<Rightarrow> federation_decision" where
  "decide_domain bundle domain ns key_id pin now =
     (case dget bundle domain of
        None \<Rightarrow> deny_domain domain ''unknown_domain''
      | Some peer \<Rightarrow>
          (if fp_revoked peer then deny_domain domain ''revoked_peering''
           else if \<not> is_active peer now then deny_domain domain ''expired_peering''
           else if ns \<notin> set (fp_namespaces peer) then deny_domain domain ''namespace_not_granted''
           else if key_id \<notin> set (fp_signing_key_ids peer) then deny_domain domain ''signing_key_not_accepted''
           else if (case pin of None \<Rightarrow> False | Some p \<Rightarrow> p \<notin> set (fp_certificate_pins peer))
           then deny_domain domain ''certificate_pin_not_accepted''
           else \<lparr>fd_allowed = True, fd_domain_id = domain, fd_reason = ''authorised'', fd_scope = grants_for peer ns\<rparr>))"

definition authorise_domain ::
  "federation_bundle \<Rightarrow> string \<Rightarrow> string \<Rightarrow> string \<Rightarrow> string \<Rightarrow> time \<Rightarrow> federation_decision" where
  "authorise_domain bundle domain ns key_id pin now = decide_domain bundle domain ns key_id (Some pin) now"

definition authorise_identity_bound ::
  "federation_bundle \<Rightarrow> string \<Rightarrow> string \<Rightarrow> string \<Rightarrow> time \<Rightarrow> federation_decision" where
  "authorise_identity_bound bundle domain ns key_id now = decide_domain bundle domain ns key_id None now"

definition domains_matching :: "federation_bundle \<Rightarrow> string \<Rightarrow> string \<Rightarrow> string list" where
  "domains_matching bundle key_id pin =
     map (\<lambda>(d, peer). fp_domain_id peer)
       (filter (\<lambda>(d, peer). key_id \<in> set (fp_signing_key_ids peer) \<and> pin \<in> set (fp_certificate_pins peer)) bundle)"

definition resolve_domain :: "federation_bundle \<Rightarrow> string \<Rightarrow> string \<Rightarrow> string option" where
  "resolve_domain bundle key_id pin = (case domains_matching bundle key_id pin of [d] \<Rightarrow> Some d | _ \<Rightarrow> None)"

definition signing_key_is_peered :: "federation_bundle \<Rightarrow> string \<Rightarrow> bool" where
  "signing_key_is_peered bundle key_id \<longleftrightarrow> list_ex (\<lambda>(d, peer). key_id \<in> set (fp_signing_key_ids peer)) bundle"

datatype domain_diagnosis = RESOLVED | UNRELATED | AMBIGUOUS | KEY_WITHOUT_PIN | PIN_WITHOUT_KEY | SPLIT_ACROSS_PEERINGS

definition diagnose_unresolved_domain :: "federation_bundle \<Rightarrow> string \<Rightarrow> string \<Rightarrow> domain_diagnosis" where
  "diagnose_unresolved_domain bundle key_id pin =
     (let both = domains_matching bundle key_id pin;
          key_known = list_ex (\<lambda>(d, peer). key_id \<in> set (fp_signing_key_ids peer)) bundle;
          pin_known = list_ex (\<lambda>(d, peer). pin \<in> set (fp_certificate_pins peer)) bundle
      in if 2 \<le> length both then AMBIGUOUS
         else if length both = 1 then RESOLVED
         else if key_known \<and> pin_known then SPLIT_ACROSS_PEERINGS
         else if key_known then KEY_WITHOUT_PIN
         else if pin_known then PIN_WITHOUT_KEY
         else UNRELATED)"

definition scope_authorises :: "access list \<Rightarrow> scope_grant list \<Rightarrow> string \<Rightarrow> bool" where
  "scope_authorises accesses scope ns \<longleftrightarrow>
     accesses \<noteq> []
     \<and> list_all (\<lambda>(permission, target). (permission, ns) \<in> set (map (\<lambda>g. (sg_verb g, sg_namespace g)) scope)) accesses"

definition compose_cross_domain :: "federation_decision \<Rightarrow> bool \<Rightarrow> bool \<Rightarrow> bool \<Rightarrow> bool" where
  "compose_cross_domain decision mtls_ok signature_ok acl_ok \<longleftrightarrow> fd_allowed decision \<and> mtls_ok \<and> signature_ok \<and> acl_ok"

definition peering_can_authorise :: "federation_peer \<Rightarrow> time \<Rightarrow> bool" where
  "peering_can_authorise peer now \<longleftrightarrow>
     is_active peer now \<and> fp_signing_key_ids peer \<noteq> [] \<and> fp_certificate_pins peer \<noteq> []
     \<and> list_ex (\<lambda>g. sg_namespace g \<in> set (fp_namespaces peer)) (fp_scope_grants peer)"

definition bundle_can_authorise :: "federation_bundle \<Rightarrow> time \<Rightarrow> bool" where
  "bundle_can_authorise bundle now \<longleftrightarrow> list_ex (\<lambda>(d, peer). peering_can_authorise peer now) bundle"

section \<open>The gate\<close>

datatype frame_disposition = LOCAL | ALLOW_CROSS_DOMAIN | DENY

datatype pin_read = Pin_Failed | No_Certificate | Pin string

record federation_gate =
  fg_env :: hub_env
  fg_bundle :: "federation_bundle option"
  fg_require_auth :: bool
  fg_signed_event_trust :: bool

definition federation_denial :: "federation_gate \<Rightarrow> string \<Rightarrow> string option \<Rightarrow> string \<Rightarrow> json_object" where
  "federation_denial gate sender domain reason =
     system_message (fg_env gate) (''federation denied: '' @ reason) ''error'' sender
       ((case domain of None \<Rightarrow> [] | Some d \<Rightarrow> [(''federation_domain'', JString d)]) @ [(''federation_reason'', JString reason)])"

definition refuse_unpinned :: "federation_gate \<Rightarrow> federation_bundle \<Rightarrow> string \<Rightarrow> string \<Rightarrow> frame_disposition \<times> json_object option" where
  "refuse_unpinned gate bundle sender key_id =
     (if \<not> signing_key_is_peered bundle key_id then (LOCAL, None)
      else (DENY, Some (federation_denial gate sender None ''peer_certificate_unavailable'')))"

definition refuse_unresolved :: "federation_gate \<Rightarrow> federation_bundle \<Rightarrow> string \<Rightarrow> string \<Rightarrow> frame_disposition \<times> json_object option" where
  "refuse_unresolved gate bundle sender key_id =
     (if \<not> signing_key_is_peered bundle key_id then (LOCAL, None)
      else (DENY, Some (federation_denial gate sender None ''peer_domain_unresolved'')))"

definition signature_key :: "json_object \<Rightarrow> journal_error + string" where
  "signature_key data =
     (case get_field data ''signature'' of
        JObject sig \<Rightarrow> sum_bind (text_field sig ''key_id'') (\<lambda>k. Inr (py_strip k))
      | _ \<Rightarrow> Inr [])"

definition authorise_cross_domain ::
  "federation_gate \<Rightarrow> federation_bundle \<Rightarrow> time \<Rightarrow> string \<Rightarrow> string \<Rightarrow> json_object \<Rightarrow> string \<Rightarrow> string \<Rightarrow> string
   \<Rightarrow> journal_error + frame_disposition \<times> json_object option" where
  "authorise_cross_domain gate bundle now sender msg_type data key_id pin domain =
     sum_bind (required_accesses msg_type data) (\<lambda>accesses.
       let ns = project_of sender;
           decision = authorise_domain bundle domain ns key_id pin now;
           signature_ok = fg_require_auth gate \<and> msg_type \<in> set DEFAULT_SIGNED_MESSAGE_TYPES \<and> dget data ''auth'' = None
             \<and> fg_signed_event_trust gate;
           acl_ok = scope_authorises accesses (fd_scope decision) ns
       in Inr (if compose_cross_domain decision True signature_ok acl_ok then (ALLOW_CROSS_DOMAIN, None)
               else (DENY, Some (federation_denial gate sender (Some domain)
                      (if \<not> fd_allowed decision then fd_reason decision
                       else if \<not> signature_ok then ''signature_not_verified'' else ''out_of_scope'')))))"

definition authorise_federation ::
  "federation_gate \<Rightarrow> time \<Rightarrow> pin_read \<Rightarrow> string \<Rightarrow> string \<Rightarrow> json_object
   \<Rightarrow> journal_error + frame_disposition \<times> json_object option" where
  "authorise_federation gate now cert sender msg_type data =
     (case fg_bundle gate of
        None \<Rightarrow> Inr (LOCAL, None)
      | Some bundle \<Rightarrow>
          sum_bind (signature_key data) (\<lambda>key_id.
            if key_id = [] then Inr (LOCAL, None)
            else (case cert of
                    Pin pin \<Rightarrow>
                      (case resolve_domain bundle key_id pin of
                         None \<Rightarrow> Inr (refuse_unresolved gate bundle sender key_id)
                       | Some domain \<Rightarrow> authorise_cross_domain gate bundle now sender msg_type data key_id pin domain)
                  | _ \<Rightarrow> Inr (refuse_unpinned gate bundle sender key_id))))"

end
