(* ===== verification/Frame_Pipeline.thy ===== *)
theory Frame_Pipeline
  imports Federation Claim_Forwarding
begin

text \<open>
  The way of a frame through the hub: rate limits (\<open>core/ratelimit.py\<close>), the envelope
  (\<open>core/hub_frame_pipeline.py\<close>, \<open>mistyped_text_field\<close> of \<open>core/hub_ingress.py\<close>) and the ordered gates
  of \<open>_gate_frame\<close> (\<open>core/hub.py\<close>).  The decoded frame, the clock, the signature check, the exchange
  with a peer and the relay of operator frames are arguments.
\<close>

section \<open>Rate limits\<close>

record bucket =
  bk_tokens :: time
  bk_updated_at :: time

record rate_limiter =
  rl_rate :: time
  rl_burst :: time
  rl_buckets :: "(string, bucket) pydict"

definition MINIMUM_RATE :: time where "MINIMUM_RATE = 1 / 100"
definition MINIMUM_BURST :: time where "MINIMUM_BURST = 1"

definition new_rate_limiter :: "time \<Rightarrow> time \<Rightarrow> rate_limiter" where
  "new_rate_limiter rate burst = \<lparr>rl_rate = max rate MINIMUM_RATE, rl_burst = max burst MINIMUM_BURST, rl_buckets = []\<rparr>"

definition refilled :: "rate_limiter \<Rightarrow> string \<Rightarrow> time \<Rightarrow> bucket" where
  "refilled l agent now =
     (case dget (rl_buckets l) agent of
        None \<Rightarrow> \<lparr>bk_tokens = rl_burst l, bk_updated_at = now\<rparr>
      | Some b \<Rightarrow>
          \<lparr>bk_tokens = min (rl_burst l) (bk_tokens b + max 0 (now - bk_updated_at b) * rl_rate l), bk_updated_at = now\<rparr>)"

definition allow :: "string \<Rightarrow> time \<Rightarrow> time \<Rightarrow> rate_limiter \<Rightarrow> rate_limiter \<times> bool" where
  "allow agent now cost l =
     (let b = refilled l agent now in
      if cost \<le> bk_tokens b
      then (l\<lparr>rl_buckets := dset agent (b\<lparr>bk_tokens := bk_tokens b - cost\<rparr>) (rl_buckets l)\<rparr>, True)
      else (l\<lparr>rl_buckets := dset agent b (rl_buckets l)\<rparr>, False))"

definition forget_agent :: "string \<Rightarrow> rate_limiter \<Rightarrow> rate_limiter" where
  "forget_agent agent l = l\<lparr>rl_buckets := ddel agent (rl_buckets l)\<rparr>"

section \<open>The envelope\<close>

definition TEXT_ENVELOPE_FIELDS :: "string list" where
  "TEXT_ENVELOPE_FIELDS = [''sender'', ''target'', ''type'', ''channel'']"

definition mistyped_text_field :: "json_object \<Rightarrow> string option" where
  "mistyped_text_field data =
     find (\<lambda>field. case get_field data field of JNull \<Rightarrow> False | JString s \<Rightarrow> False | _ \<Rightarrow> True) TEXT_ENVELOPE_FIELDS"

text \<open>\<open>None\<close>: the text did not decode.\<close>

definition decode_frame :: "json option \<Rightarrow> string + json_object" where
  "decode_frame decoded =
     (case decoded of
        None \<Rightarrow> Inl ''Malformed JSON.''
      | Some (JObject data) \<Rightarrow> Inr data
      | Some v \<Rightarrow> Inl ''Malformed frame: expected a JSON object.'')"

definition charge_host :: "rate_limiter option \<Rightarrow> string \<Rightarrow> time \<Rightarrow> rate_limiter option \<times> bool" where
  "charge_host limiter host now =
     (case limiter of None \<Rightarrow> (None, True) | Some l \<Rightarrow> (let (l', ok) = allow host now 1 l in (Some l', ok)))"

definition read_frame ::
  "hub_env \<Rightarrow> time \<Rightarrow> string \<Rightarrow> json option \<Rightarrow> rate_limiter option \<Rightarrow> rate_limiter option \<times> (json_object + json_object)" where
  "read_frame env now host decoded limiter =
     (let refuse = (\<lambda>problem. Inl (system_message env problem ''error'' ''all'' [])) in
      case decode_frame decoded of
        Inl problem \<Rightarrow> (limiter, refuse problem)
      | Inr data \<Rightarrow>
          (case charge_host limiter host now of
             (limiter', False) \<Rightarrow> (limiter', refuse ''Host rate limit exceeded.'')
           | (limiter', True) \<Rightarrow>
               (limiter', case mistyped_text_field data of
                            Some field \<Rightarrow> refuse (''Malformed frame: '' @ py_repr field @ '' must be a string.'')
                          | None \<Rightarrow> Inr data)))"

text \<open>The sender and the type under which a frame is handled; its text fields are strings or absent.\<close>

definition envelope_text :: "json_object \<Rightarrow> string \<Rightarrow> string" where
  "envelope_text data field = (case get_field data field of JString s \<Rightarrow> s | _ \<Rightarrow> [])"

definition frame_sender :: "string \<Rightarrow> json_object \<Rightarrow> string" where
  "frame_sender socket_id data =
     (let s = py_strip (envelope_text data ''sender'') in if s = [] then ''anon-'' @ socket_id else s)"

definition frame_type :: "json_object \<Rightarrow> string" where
  "frame_type data =
     (let t = envelope_text data ''type'' in py_lower (py_strip (if t = [] then ''chat'' else t)))"

section \<open>Gates\<close>

datatype frame_error = Auth_Raised auth_error | Frame_Raised journal_error

datatype frame_outcome = Refused_With json_object | Routed | Routed_Cross_Domain | Relayed | Raised frame_error

record pipeline =
  pl_rate :: "rate_limiter option"
  pl_auth :: auth_caches
  pl_forward :: forward_counters
  pl_rate_limited :: int
  pl_auth_failures :: int
  pl_federation_denied :: int

record pipeline_config =
  pc_env :: hub_env
  pc_auth :: auth_gate
  pc_corrupt_rows :: "int list"
  pc_federation :: federation_gate
  pc_require_acl :: bool
  pc_acl_policy :: "acl_policy option"
  pc_claims :: claim_gate

text \<open>\<open>None\<close> lets the frame go on.\<close>

type_synonym frame_gate = "pipeline \<Rightarrow> pipeline \<times> frame_outcome option"

fun run_frame_gates :: "frame_gate list \<Rightarrow> frame_gate" where
  "run_frame_gates [] st = (st, None)"
| "run_frame_gates (gate # gates) st =
     (case gate st of (st', None) \<Rightarrow> run_frame_gates gates st' | (st', Some end') \<Rightarrow> (st', Some end'))"

definition allow_frame_rate :: "pipeline_config \<Rightarrow> time \<Rightarrow> string \<Rightarrow> string \<Rightarrow> frame_gate" where
  "allow_frame_rate cfg now sender msg_type st =
     (case pl_rate st of
        Some l \<Rightarrow>
          (if msg_type = ''heartbeat'' then (st, None)
           else (case allow sender now 1 l of
                   (l', True) \<Rightarrow> (st\<lparr>pl_rate := Some l'\<rparr>, None)
                 | (l', False) \<Rightarrow>
                     (st\<lparr>pl_rate := Some l', pl_rate_limited := pl_rate_limited st + 1\<rparr>,
                      Some (Refused_With (system_message (pc_env cfg) ''Rate limit exceeded.'' ''error'' sender [])))))
      | None \<Rightarrow> (st, None))"

definition allow_frame_signature ::
  "signature_check \<Rightarrow> pipeline_config \<Rightarrow> time \<Rightarrow> bool \<Rightarrow> string \<Rightarrow> string \<Rightarrow> json_object \<Rightarrow> frame_gate" where
  "allow_frame_signature check cfg now disk sender msg_type data st =
     (case verify_per_message_auth check (pc_auth cfg) now disk sender msg_type data (pl_auth st) of
        (cs, Inl e) \<Rightarrow> (st\<lparr>pl_auth := cs\<rparr>, Some (Raised (Auth_Raised e)))
      | (cs, Inr None) \<Rightarrow> (st\<lparr>pl_auth := cs\<rparr>, None)
      | (cs, Inr (Some f)) \<Rightarrow> (st\<lparr>pl_auth := cs, pl_auth_failures := pl_auth_failures st + 1\<rparr>, Some (Refused_With f)))"

definition refuse_mutation :: "pipeline_config \<Rightarrow> string \<Rightarrow> string \<Rightarrow> json_object option" where
  "refuse_mutation cfg sender msg_type =
     (case pc_corrupt_rows cfg of
        [] \<Rightarrow> None
      | first # rest \<Rightarrow>
          (if msg_type \<notin> set GATED_MUTATIONS then None
           else Some (system_message (pc_env cfg)
             (''Mutation refused: durable journal recovery is required. Inspect degraded health and archive/remove settled corrupt rows '' @
              ''with the explicit `synapse compact --drop-corrupt` workflow.'') ''error'' sender
             [(''journal_recovery_required'', JBool True), (''corrupt_rows'', JInt (1 + int (length rest))),
              (''first_corrupt_seq'', JInt first)])))"

definition allow_frame_recovery :: "pipeline_config \<Rightarrow> string \<Rightarrow> string \<Rightarrow> frame_gate" where
  "allow_frame_recovery cfg sender msg_type st = (st, map_option Refused_With (refuse_mutation cfg sender msg_type))"

definition allow_frame_federation :: "pipeline_config \<Rightarrow> time \<Rightarrow> pin_read \<Rightarrow> string \<Rightarrow> string \<Rightarrow> json_object \<Rightarrow> frame_gate" where
  "allow_frame_federation cfg now cert sender msg_type data st =
     (case authorise_federation (pc_federation cfg) now cert sender msg_type data of
        Inl e \<Rightarrow> (st, Some (Raised (Frame_Raised e)))
      | Inr (DENY, Some f) \<Rightarrow> (st\<lparr>pl_federation_denied := pl_federation_denied st + 1\<rparr>, Some (Refused_With f))
      | Inr (DENY, None) \<Rightarrow> (st\<lparr>pl_federation_denied := pl_federation_denied st + 1\<rparr>, Some (Refused_With []))
      | Inr (ALLOW_CROSS_DOMAIN, _) \<Rightarrow> (st, Some Routed_Cross_Domain)
      | Inr (frame_disposition.LOCAL, _) \<Rightarrow> (st, None))"

definition allow_frame_acl :: "pipeline_config \<Rightarrow> string \<Rightarrow> string \<Rightarrow> json_object \<Rightarrow> frame_gate" where
  "allow_frame_acl cfg sender msg_type data st =
     (case authorise_acl (pc_env cfg) (pc_require_acl cfg) (pc_acl_policy cfg) sender msg_type data of
        Inl e \<Rightarrow> (st, Some (Raised (Frame_Raised e)))
      | Inr denial \<Rightarrow> (st, map_option Refused_With denial))"

definition allow_frame_ownership :: "exchange \<Rightarrow> pipeline_config \<Rightarrow> string \<Rightarrow> string \<Rightarrow> json_object \<Rightarrow> frame_gate" where
  "allow_frame_ownership exchange cfg sender msg_type data st =
     (case authorise_claim_ownership exchange (pc_claims cfg) sender msg_type data (pl_forward st) of
        Inl e \<Rightarrow> (st, Some (Raised (Frame_Raised e)))
      | Inr (fc, reply) \<Rightarrow> (st\<lparr>pl_forward := fc\<rparr>, map_option Refused_With reply))"

definition gate_frame ::
  "signature_check \<Rightarrow> exchange \<Rightarrow> (string \<Rightarrow> string \<Rightarrow> json_object \<Rightarrow> bool) \<Rightarrow> pipeline_config \<Rightarrow> time \<Rightarrow> bool \<Rightarrow> pin_read
   \<Rightarrow> string \<Rightarrow> string \<Rightarrow> json_object \<Rightarrow> pipeline \<Rightarrow> pipeline \<times> frame_outcome" where
  "gate_frame check exchange relay cfg now disk cert sender msg_type data st =
     (case run_frame_gates
        [allow_frame_rate cfg now sender msg_type,
         allow_frame_signature check cfg now disk sender msg_type data,
         allow_frame_recovery cfg sender msg_type,
         allow_frame_federation cfg now cert sender msg_type data,
         allow_frame_acl cfg sender msg_type data,
         allow_frame_ownership exchange cfg sender msg_type data,
         (\<lambda>st. (st, if relay sender msg_type data then Some Relayed else None))] st of
        (st', None) \<Rightarrow> (st', Routed)
      | (st', Some end') \<Rightarrow> (st', end'))"

end
