(* ===== verification/Peering.thy ===== *)
theory Peering
  imports Federation
begin

text \<open>What a bundle of peerings decides: the domain of a key and a pin, and the frames it allows.\<close>

section \<open>Bundles\<close>

text \<open>A bundle is a dictionary by domain; both hold for every bundle built from peers.\<close>

definition bundle_ok :: "federation_bundle \<Rightarrow> bool" where
  "bundle_ok peered \<longleftrightarrow> dict_ok peered \<and> (\<forall>d peer. dget peered d = Some peer \<longrightarrow> fp_domain_id peer = d)"

lemma bundle_ok_dset: "bundle_ok peered \<Longrightarrow> bundle_ok (dset (fp_domain_id peer) peer peered)"
  by (auto simp: bundle_ok_def)

lemma new_bundle_ok: "bundle_ok (new_bundle peers)"
proof -
  have "bundle_ok peered \<Longrightarrow> bundle_ok (fold (\<lambda>p d. dset (fp_domain_id p) p d) peers peered)" for peered
    by (induction peers arbitrary: peered) (simp_all add: bundle_ok_dset)
  moreover have "bundle_ok []" by (simp add: bundle_ok_def)
  ultimately show ?thesis unfolding new_bundle_def by blast
qed

lemma bundle_domain: "bundle_ok peered \<Longrightarrow> (d, peer) \<in> set peered \<Longrightarrow> fp_domain_id peer = d"
  by (simp add: bundle_ok_def dict_mem_iff)

definition peers_matching :: "federation_bundle \<Rightarrow> string \<Rightarrow> string \<Rightarrow> federation_peer set" where
  "peers_matching peered key pin =
     {peer \<in> snd ` set peered. key \<in> set (fp_signing_key_ids peer) \<and> pin \<in> set (fp_certificate_pins peer)}"

lemma distinct_singleton: "distinct xs \<Longrightarrow> set xs \<subseteq> {a} \<Longrightarrow> xs \<noteq> [] \<Longrightarrow> xs = [a]"
  by (cases xs; cases "tl xs") auto

lemma resolve_domain_Some:
  assumes ok: "bundle_ok peered"
  shows "resolve_domain peered key pin = Some domain \<longleftrightarrow>
    (\<exists>peer. peers_matching peered key pin = {peer} \<and> dget peered domain = Some peer)"
proof -
  let ?match = "\<lambda>(d :: string, peer). key \<in> set (fp_signing_key_ids peer) \<and> pin \<in> set (fp_certificate_pins peer)"
  let ?hits = "filter ?match peered"
  have dist: "distinct ?hits" using ok distinct_map [of fst peered] by (simp add: bundle_ok_def dict_ok_def)
  have inj: "inj_on snd (set peered)"
  proof (rule inj_onI)
    fix x y assume "x \<in> set peered" "y \<in> set peered" "snd x = snd y"
    then show "x = y" using bundle_domain [OF ok] by (metis prod.collapse)
  qed
  have set: "peers_matching peered key pin = snd ` set ?hits" by (force simp: peers_matching_def)
  show ?thesis
  proof
    assume "resolve_domain peered key pin = Some domain"
    then obtain d peer where hit: "?hits = [(d, peer)]" "fp_domain_id peer = domain"
      by (auto simp: resolve_domain_def domains_matching_def split: list.splits)
    then have "(d, peer) \<in> set ?hits" by simp
    then have mem: "(d, peer) \<in> set peered" by simp
    with bundle_domain [OF ok mem] hit(2) ok have "dget peered domain = Some peer" by (simp add: bundle_ok_def dict_mem_iff)
    then show "\<exists>peer. peers_matching peered key pin = {peer} \<and> dget peered domain = Some peer"
      unfolding set hit(1) by simp
  next
    assume "\<exists>peer. peers_matching peered key pin = {peer} \<and> dget peered domain = Some peer"
    then obtain peer where only: "snd ` set ?hits = {peer}" and peer: "dget peered domain = Some peer" unfolding set by blast
    have mem: "(domain, peer) \<in> set peered" using peer by (simp add: map_of_SomeD)
    have "set ?hits \<subseteq> {(domain, peer)}"
    proof
      fix x assume x: "x \<in> set ?hits"
      then have "snd x = peer" using only by blast
      then show "x \<in> {(domain, peer)}" using x mem inj by (auto simp: inj_on_def)
    qed
    moreover have "?hits \<noteq> []" using only by (metis empty_set image_empty insert_not_empty)
    ultimately have "?hits = [(domain, peer)]" using dist by (intro distinct_singleton)
    then show "resolve_domain peered key pin = Some domain"
      using bundle_domain [OF ok mem] by (simp add: resolve_domain_def domains_matching_def)
  qed
qed

lemma authorise_domain_allows:
  assumes "dget peered domain = Some peer"
  shows "fd_allowed (authorise_domain peered domain ns key pin now) \<longleftrightarrow>
      is_active peer now \<and> ns \<in> set (fp_namespaces peer) \<and> key \<in> set (fp_signing_key_ids peer) \<and> pin \<in> set (fp_certificate_pins peer)"
    and "fd_allowed (authorise_domain peered domain ns key pin now) \<Longrightarrow>
      fd_scope (authorise_domain peered domain ns key pin now) = grants_for peer ns"
  using assms by (auto simp: authorise_domain_def decide_domain_def deny_domain_def is_active_def split: if_split_asm)

lemma scope_authorises_iff:
  "scope_authorises accesses (grants_for peer ns) ns \<longleftrightarrow>
     accesses \<noteq> [] \<and> (\<forall>a \<in> set accesses. \<lparr>sg_verb = fst a, sg_namespace = ns\<rparr> \<in> set (fp_scope_grants peer))"
proof -
  have "(v, ns) \<in> (\<lambda>g. (sg_verb g, sg_namespace g)) ` set (grants_for peer ns)
      \<longleftrightarrow> \<lparr>sg_verb = v, sg_namespace = ns\<rparr> \<in> set (fp_scope_grants peer)" for v
  proof
    assume "(v, ns) \<in> (\<lambda>g. (sg_verb g, sg_namespace g)) ` set (grants_for peer ns)"
    then obtain g where "g \<in> set (fp_scope_grants peer)" "sg_verb g = v" "sg_namespace g = ns" by (auto simp: grants_for_def)
    moreover from this have "g = \<lparr>sg_verb = v, sg_namespace = ns\<rparr>" by (simp add: scope_grant.equality)
    ultimately show "\<lparr>sg_verb = v, sg_namespace = ns\<rparr> \<in> set (fp_scope_grants peer)" by simp
  next
    assume "\<lparr>sg_verb = v, sg_namespace = ns\<rparr> \<in> set (fp_scope_grants peer)"
    then show "(v, ns) \<in> (\<lambda>g. (sg_verb g, sg_namespace g)) ` set (grants_for peer ns)" by (force simp: grants_for_def)
  qed
  then show ?thesis by (simp add: scope_authorises_def list_all_iff split_beta)
qed

text \<open>The frame speaks for exactly one peering, which is in force and grants all it asks in its namespace.\<close>

definition peering_serves ::
  "federation_bundle \<Rightarrow> time \<Rightarrow> string \<Rightarrow> string \<Rightarrow> string \<Rightarrow> access list \<Rightarrow> bool" where
  "peering_serves peered now key pin ns accesses \<longleftrightarrow>
     (\<exists>peer. peers_matching peered key pin = {peer} \<and> is_active peer now \<and> ns \<in> set (fp_namespaces peer) \<and> accesses \<noteq> []
        \<and> (\<forall>a \<in> set accesses. \<lparr>sg_verb = fst a, sg_namespace = ns\<rparr> \<in> set (fp_scope_grants peer)))"

lemma federation_allows:
  assumes ok: "bundle_ok peered" and fed: "fg_bundle gate = Some peered"
  shows "(\<exists>f. authorise_federation gate now cert sender t data = Inr (ALLOW_CROSS_DOMAIN, f)) \<longleftrightarrow>
    (\<exists>key pin accesses. signature_key data = Inr key \<and> key \<noteq> [] \<and> cert = Pin pin \<and> required_accesses t data = Inr accesses
       \<and> peering_serves peered now key pin (project_of sender) accesses
       \<and> fg_require_auth gate \<and> t \<in> set DEFAULT_SIGNED_MESSAGE_TYPES \<and> dget data ''auth'' = None \<and> fg_signed_event_trust gate)"
    (is "?allowed \<longleftrightarrow> ?serves")
proof
  assume ?allowed
  then obtain key pin domain accesses where r: "signature_key data = Inr key" "key \<noteq> []" "cert = Pin pin"
    "resolve_domain peered key pin = Some domain" "required_accesses t data = Inr accesses"
    and d: "fd_allowed (authorise_domain peered domain (project_of sender) key pin now)"
    and sig: "fg_require_auth gate" "t \<in> set DEFAULT_SIGNED_MESSAGE_TYPES" "dget data ''auth'' = None" "fg_signed_event_trust gate"
    and scope: "scope_authorises accesses (fd_scope (authorise_domain peered domain (project_of sender) key pin now)) (project_of sender)"
    using fed
    by (auto simp: authorise_federation_def refuse_unpinned_def refuse_unresolved_def authorise_cross_domain_def sum_bind_def Let_def
        compose_cross_domain_def split: pin_read.splits option.splits if_splits sum.splits)
  obtain peer where peer: "peers_matching peered key pin = {peer}" "dget peered domain = Some peer"
    using r(4) unfolding resolve_domain_Some [OF ok] by blast
  show ?serves
    using r d sig scope peer(1) authorise_domain_allows [OF peer(2)] unfolding peering_serves_def
    by (simp add: scope_authorises_iff)
next
  assume ?serves
  then obtain key pin accesses peer where s: "signature_key data = Inr key" "key \<noteq> []" "cert = Pin pin"
    "required_accesses t data = Inr accesses" "peers_matching peered key pin = {peer}"
    "is_active peer now" "project_of sender \<in> set (fp_namespaces peer)" "accesses \<noteq> []"
    "\<forall>a \<in> set accesses. \<lparr>sg_verb = fst a, sg_namespace = project_of sender\<rparr> \<in> set (fp_scope_grants peer)"
    "fg_require_auth gate" "t \<in> set DEFAULT_SIGNED_MESSAGE_TYPES" "dget data ''auth'' = None" "fg_signed_event_trust gate"
    unfolding peering_serves_def by blast
  have mem: "peer \<in> peers_matching peered key pin" using s(5) by simp
  then obtain domain where "(domain, peer) \<in> set peered" by (auto simp: peers_matching_def)
  then have peer: "dget peered domain = Some peer" using ok by (simp add: bundle_ok_def dict_mem_iff)
  have keyed: "key \<in> set (fp_signing_key_ids peer)" "pin \<in> set (fp_certificate_pins peer)" using mem by (auto simp: peers_matching_def)
  have res: "resolve_domain peered key pin = Some domain" unfolding resolve_domain_Some [OF ok] using s(5) peer by blast
  have allowed: "fd_allowed (authorise_domain peered domain (project_of sender) key pin now)"
    "fd_scope (authorise_domain peered domain (project_of sender) key pin now) = grants_for peer (project_of sender)"
    using authorise_domain_allows [OF peer] s keyed by simp_all
  then show ?allowed
    using s fed res scope_authorises_iff [of accesses peer "project_of sender"]
    by (simp add: authorise_federation_def authorise_cross_domain_def sum_bind_def Let_def compose_cross_domain_def)
qed

lemma peering_serves_posture: "peering_serves peered now key pin ns accesses \<Longrightarrow> bundle_can_authorise peered now"
proof -
  assume "peering_serves peered now key pin ns accesses"
  then obtain peer where p: "peers_matching peered key pin = {peer}" "is_active peer now" "ns \<in> set (fp_namespaces peer)" "accesses \<noteq> []"
    "\<forall>a \<in> set accesses. \<lparr>sg_verb = fst a, sg_namespace = ns\<rparr> \<in> set (fp_scope_grants peer)"
    unfolding peering_serves_def by blast
  have "peer \<in> peers_matching peered key pin" using p(1) by simp
  then have mem: "peer \<in> snd ` set peered" "fp_signing_key_ids peer \<noteq> []" "fp_certificate_pins peer \<noteq> []"
    by (auto simp: peers_matching_def)
  have "\<lparr>sg_verb = fst (hd accesses), sg_namespace = ns\<rparr> \<in> set (fp_scope_grants peer)" using p(4,5) by simp
  then have "list_ex (\<lambda>g. sg_namespace g \<in> set (fp_namespaces peer)) (fp_scope_grants peer)"
    using p(3) by (force simp: list_ex_iff)
  then have "peering_can_authorise peer now" using p(2) mem by (simp add: peering_can_authorise_def)
  then show ?thesis using mem(1) by (auto simp: bundle_can_authorise_def list_ex_iff)
qed

end
