(* ===== verification/Pipeline_Properties.thy ===== *)
theory Pipeline_Properties
  imports Frame_Pipeline Peering Acl_Properties Auth_Properties Forwarding_Properties
begin

text \<open>
  What the way of a frame through the hub promises: how much a rate limiter admits, what a routed
  frame has passed, which frames a peered domain may have served, and what those skip.
\<close>

section \<open>Rates\<close>

datatype limiter_call = Charge string time time | Forget string

text \<open>The calls of a run with their verdicts; a forgotten agent starts with a full bucket.\<close>

fun admitted_cost :: "string \<Rightarrow> limiter_call list \<Rightarrow> rate_limiter \<Rightarrow> time" where
  "admitted_cost agent [] l = 0"
| "admitted_cost agent (Forget other # calls) l = admitted_cost agent calls (forget_agent other l)"
| "admitted_cost agent (Charge other now cost # calls) l =
     (let (l', ok) = allow other now cost l
      in (if ok \<and> other = agent then cost else 0) + admitted_cost agent calls l')"

fun call_times :: "limiter_call list \<Rightarrow> time list" where
  "call_times [] = []"
| "call_times (Forget other # calls) = call_times calls"
| "call_times (Charge other now cost # calls) = now # call_times calls"

fun call_cost :: "limiter_call \<Rightarrow> time" where
  "call_cost (Forget other) = 0"
| "call_cost (Charge other now cost) = cost"

definition balance :: "rate_limiter \<Rightarrow> string \<Rightarrow> time \<Rightarrow> time" where
  "balance l agent now = bk_tokens (refilled l agent now)"

lemma balance_burst: "balance l agent now \<le> rl_burst l"
  by (simp add: balance_def refilled_def split: option.split)

lemma balance_grows:
  assumes "0 \<le> rl_rate l" "t \<le> t'"
  shows "balance l agent t' \<le> balance l agent t + rl_rate l * (t' - t)"
proof (cases "dget (rl_buckets l) agent")
  case None
  then show ?thesis using assms by (simp add: balance_def refilled_def)
next
  case (Some b)
  have "max 0 (t' - bk_updated_at b) \<le> max 0 (t - bk_updated_at b) + (t' - t)" using assms(2) by simp
  then have "max 0 (t' - bk_updated_at b) * rl_rate l \<le> max 0 (t - bk_updated_at b) * rl_rate l + rl_rate l * (t' - t)"
    using mult_right_mono [OF _ assms(1)] by (fastforce simp: algebra_simps)
  moreover have "0 \<le> rl_rate l * (t' - t)" using assms by simp
  ultimately show ?thesis using Some by (simp add: balance_def refilled_def min_def)
qed

lemma allow_limits: "rl_rate (fst (allow other now cost l)) = rl_rate l" "rl_burst (fst (allow other now cost l)) = rl_burst l"
  by (simp_all add: allow_def Let_def)

lemma forget_limits: "rl_rate (forget_agent other l) = rl_rate l" "rl_burst (forget_agent other l) = rl_burst l"
  by (simp_all add: forget_agent_def)

lemma refilled_other:
  "rl_rate l' = rl_rate l \<Longrightarrow> rl_burst l' = rl_burst l \<Longrightarrow> dget (rl_buckets l') agent = dget (rl_buckets l) agent \<Longrightarrow>
   refilled l' agent now = refilled l agent now"
  by (simp add: refilled_def cong: option.case_cong)

lemma balance_allow:
  assumes "0 \<le> cost"
  shows "balance (fst (allow other now cost l)) agent now
    = balance l agent now - (if snd (allow other now cost l) \<and> other = agent then cost else 0)"
proof (cases "other = agent")
  case False
  then have "refilled (fst (allow other now cost l)) agent now = refilled l agent now"
    by (intro refilled_other) (simp_all add: allow_def Let_def)
  then show ?thesis using False by (simp add: balance_def)
next
  case True
  have b: "bk_tokens (refilled l agent now) \<le> rl_burst l" using balance_burst by (simp add: balance_def)
  have again: "balance (l\<lparr>rl_buckets := dset agent (bkt\<lparr>bk_tokens := k\<rparr>) (rl_buckets l)\<rparr>) agent now = min (rl_burst l) k"
    if "bk_updated_at bkt = now" for bkt k
    using that by (simp add: balance_def refilled_def)
  have at_now: "bk_updated_at (refilled l agent now) = now" by (simp add: refilled_def split: option.split)
  have plain: "balance (l\<lparr>rl_buckets := dset agent (refilled l agent now) (rl_buckets l)\<rparr>) agent now = bk_tokens (refilled l agent now)"
    using again [OF at_now, of "bk_tokens (refilled l agent now)"] b by simp
  show ?thesis
    using True assms b plain again [OF at_now] by (simp add: allow_def Let_def balance_def [of l] min_def)
qed

lemma balance_forget: "balance (forget_agent other l) agent now = (if other = agent then rl_burst l else balance l agent now)"
proof (cases "other = agent")
  case False
  then have "refilled (forget_agent other l) agent now = refilled l agent now"
    by (intro refilled_other) (simp_all add: forget_agent_def)
  then show ?thesis using False by (simp add: balance_def)
qed (simp add: balance_def forget_agent_def refilled_def)

lemma balance_after:
  assumes "0 \<le> cost" "0 \<le> rl_rate l" "now \<le> t"
  shows "(if snd (allow other t cost l) \<and> other = agent then cost else 0) + balance (fst (allow other t cost l)) agent t
    \<le> balance l agent now + rl_rate l * (t - now)"
  using balance_grows [OF assms(2,3), of agent] by (simp add: balance_allow [OF assms(1)])

text \<open>No bucket is in debt.\<close>

definition solvent :: "rate_limiter \<Rightarrow> bool" where
  "solvent l \<longleftrightarrow> 0 \<le> rl_rate l \<and> 0 \<le> rl_burst l \<and> (\<forall>agent b. dget (rl_buckets l) agent = Some b \<longrightarrow> 0 \<le> bk_tokens b)"

lemma solvent_balance: "solvent l \<Longrightarrow> 0 \<le> balance l agent now"
  by (auto simp: solvent_def balance_def refilled_def split: option.split)

lemma solvent_allow:
  assumes "solvent l"
  shows "solvent (fst (allow other now cost l))"
proof -
  have "0 \<le> bk_tokens (refilled l other now)" using solvent_balance [OF assms] by (simp add: balance_def)
  then show ?thesis using assms by (auto simp: solvent_def allow_def Let_def)
qed

lemma solvent_forget: "solvent l \<Longrightarrow> solvent (forget_agent other l)"
  by (auto simp: solvent_def forget_agent_def dget_ddel split: if_splits)

fun limiter_after :: "limiter_call list \<Rightarrow> rate_limiter \<Rightarrow> rate_limiter" where
  "limiter_after [] l = l"
| "limiter_after (Forget other # calls) l = limiter_after calls (forget_agent other l)"
| "limiter_after (Charge other now cost # calls) l = limiter_after calls (fst (allow other now cost l))"

lemma limiter_after_frame:
  "rl_rate (limiter_after calls l) = rl_rate l \<and> rl_burst (limiter_after calls l) = rl_burst l
   \<and> (solvent l \<longrightarrow> solvent (limiter_after calls l))"
  by (induction calls l rule: limiter_after.induct) (simp_all add: allow_limits forget_limits solvent_allow solvent_forget)

lemma admitted_within:
  "solvent l \<Longrightarrow> sorted (now # call_times calls @ [last']) \<Longrightarrow> list_all (\<lambda>c. 0 \<le> call_cost c) calls \<Longrightarrow>
   admitted_cost agent calls l
     \<le> balance l agent now + of_nat (count_list calls (Forget agent)) * rl_burst l + rl_rate l * (last' - now)"
proof (induction agent calls l arbitrary: now rule: admitted_cost.induct)
  case (1 agent l)
  then show ?case using solvent_balance [of l agent now] by (simp add: solvent_def)
next
  case (2 agent other calls l)
  have "admitted_cost agent calls (forget_agent other l) \<le> balance (forget_agent other l) agent now
      + of_nat (count_list calls (Forget agent)) * rl_burst l + rl_rate l * (last' - now)"
    using "2.IH" [of now] "2.prems" solvent_forget by (simp add: forget_limits)
  then show ?case using solvent_balance [OF "2.prems"(1), of agent now]
    by (auto simp: balance_forget algebra_simps split: if_splits)
next
  case (3 agent other t cost calls l)
  let ?l = "fst (allow other t cost l)"
  have prems: "0 \<le> cost" "now \<le> t" "0 \<le> rl_rate l" using "3.prems" by (simp_all add: solvent_def)
  have "admitted_cost agent calls ?l \<le> balance ?l agent t
      + of_nat (count_list calls (Forget agent)) * rl_burst l + rl_rate l * (last' - t)"
    using "3.IH" [OF refl prod.collapse, of t] "3.prems" by (simp add: solvent_allow allow_limits prod_eq_iff)
  then show ?case using balance_after [OF prems(1,3,2), of other agent]
    by (auto simp: algebra_simps split: prod.split)
qed

text \<open>
  C20: The limiter keeps its rate.  In any stretch of a run, while the clock does not go back, what it
  admits from an agent costs at most one burst, the rate times the length of the stretch, and one
  more burst for each time the agent was forgotten, as it is when its socket closes; no other agent
  and no earlier call raises that, whatever rate and burst are configured.
\<close>

theorem admitted_rate_bounded:
  assumes "sorted (first # call_times calls @ [last'])" and "list_all (\<lambda>c. 0 \<le> call_cost c) calls"
  shows "admitted_cost agent calls (limiter_after before (new_rate_limiter rate burst))
    \<le> (1 + of_nat (count_list calls (Forget agent))) * max burst MINIMUM_BURST + max rate MINIMUM_RATE * (last' - first)"
proof -
  let ?l = "limiter_after before (new_rate_limiter rate burst)"
  have fresh: "solvent (new_rate_limiter rate burst)"
    by (simp add: solvent_def new_rate_limiter_def MINIMUM_RATE_def MINIMUM_BURST_def max_def)
  then have limits: "rl_rate ?l = max rate MINIMUM_RATE" "rl_burst ?l = max burst MINIMUM_BURST" "solvent ?l"
    by (simp_all add: limiter_after_frame) (simp_all add: new_rate_limiter_def)
  show ?thesis using admitted_within [OF limits(3) assms, of agent] balance_burst [of ?l agent first]
    by (simp add: limits algebra_simps)
qed

theorem admitted_rate_bounded_witness:
  "let calls = [Charge ''a'' 0 1, Charge ''a'' 0 1, Forget ''a'', Charge ''a'' 0 1, Charge ''a'' 1 1]
   in admitted_cost ''a'' calls (new_rate_limiter 1 1) = 3 \<and> admitted_cost ''a'' calls (new_rate_limiter 1 1) \<le> 3"
proof -
  let ?calls = "[Charge ''a'' 0 1, Charge ''a'' 0 1, Forget ''a'', Charge ''a'' 0 1, Charge ''a'' 1 1]"
  have "admitted_cost ''a'' ?calls (limiter_after [] (new_rate_limiter 1 1))
    \<le> (1 + of_nat (count_list ?calls (Forget ''a''))) * max 1 MINIMUM_BURST + max 1 MINIMUM_RATE * (1 - 0)"
    by (rule admitted_rate_bounded) simp_all
  moreover have "admitted_cost ''a'' ?calls (new_rate_limiter 1 1) = 3" by code_simp
  ultimately show ?thesis by (simp add: MINIMUM_BURST_def MINIMUM_RATE_def Let_def)
qed

section \<open>What a served frame has passed\<close>

text \<open>The outcomes of the single gates.\<close>

lemmas gate_defs =
  allow_frame_rate_def allow_frame_signature_def allow_frame_recovery_def allow_frame_federation_def allow_frame_acl_def
  allow_frame_ownership_def

lemma run_gates_step:
  "run_frame_gates (g # gs) st = (st', end') \<longleftrightarrow>
     (\<exists>st1. g st = (st1, None) \<and> run_frame_gates gs st1 = (st', end')) \<or> (g st = (st', end') \<and> end' \<noteq> None)"
  by (auto split: prod.splits option.splits)

lemma gates_never_route:
  "allow_frame_rate cfg now sender t st \<noteq> (st', Some Routed)"
  "allow_frame_signature check cfg now disk sender t data st \<noteq> (st', Some Routed)"
  "allow_frame_recovery cfg sender t st \<noteq> (st', Some Routed)"
  "allow_frame_federation cfg now cert sender t data st \<noteq> (st', Some Routed)"
  "allow_frame_acl cfg sender t data st \<noteq> (st', Some Routed)"
  "allow_frame_ownership ex cfg sender t data st \<noteq> (st', Some Routed)"
  by (auto simp: gate_defs split: option.splits prod.splits sum.splits if_splits bool.splits frame_disposition.splits)

lemma only_federation_crosses:
  "allow_frame_rate cfg now sender t st \<noteq> (st', Some Routed_Cross_Domain)"
  "allow_frame_signature check cfg now disk sender t data st \<noteq> (st', Some Routed_Cross_Domain)"
  "allow_frame_recovery cfg sender t st \<noteq> (st', Some Routed_Cross_Domain)"
  "allow_frame_acl cfg sender t data st \<noteq> (st', Some Routed_Cross_Domain)"
  "allow_frame_ownership ex cfg sender t data st \<noteq> (st', Some Routed_Cross_Domain)"
  by (auto simp: gate_defs split: option.splits prod.splits sum.splits if_splits bool.splits frame_disposition.splits)

text \<open>What each gate lets through.\<close>

lemma passed_rate: "allow_frame_rate cfg now sender t st = (st', None) \<Longrightarrow> \<exists>l. st' = st\<lparr>pl_rate := l\<rparr>"
  by (auto simp: gate_defs intro: exI [of _ "pl_rate st"] split: option.splits if_splits prod.splits bool.splits)

lemma passed_signature:
  "allow_frame_signature check cfg now disk sender t data st = (st', None) \<Longrightarrow>
   \<exists>cs. verify_per_message_auth check (pc_auth cfg) now disk sender t data (pl_auth st) = (cs, Inr None) \<and> st' = st\<lparr>pl_auth := cs\<rparr>"
  by (auto simp: gate_defs split: prod.splits sum.splits option.splits)

lemma passed_recovery:
  "allow_frame_recovery cfg sender t st = (st', None) \<Longrightarrow> st' = st \<and> (pc_corrupt_rows cfg \<noteq> [] \<longrightarrow> t \<notin> set GATED_MUTATIONS)"
  by (auto simp: gate_defs refuse_mutation_def split: list.splits if_splits)

lemma passed_federation:
  "allow_frame_federation cfg now cert sender t data st = (st', None) \<Longrightarrow>
   st' = st \<and> (\<exists>f. authorise_federation (pc_federation cfg) now cert sender t data = Inr (frame_disposition.LOCAL, f))"
  by (auto simp: gate_defs split: sum.splits prod.splits frame_disposition.splits option.splits)

lemma crossed_federation:
  "allow_frame_federation cfg now cert sender t data st = (st', Some Routed_Cross_Domain) \<longleftrightarrow>
   st' = st \<and> (\<exists>f. authorise_federation (pc_federation cfg) now cert sender t data = Inr (ALLOW_CROSS_DOMAIN, f))"
  by (auto simp: gate_defs split: sum.splits prod.splits frame_disposition.splits option.splits)

lemma passed_acl:
  "allow_frame_acl cfg sender t data st = (st', None) \<Longrightarrow>
   st' = st \<and> authorise_acl (pc_env cfg) (pc_require_acl cfg) (pc_acl_policy cfg) sender t data = Inr None"
  by (auto simp: gate_defs split: sum.splits)

lemma passed_ownership:
  "allow_frame_ownership ex cfg sender t data st = (st', None) \<Longrightarrow>
   \<exists>fc. authorise_claim_ownership ex (pc_claims cfg) sender t data (pl_forward st) = Inr (fc, None) \<and> st' = st\<lparr>pl_forward := fc\<rparr>"
  by (auto simp: gate_defs split: sum.splits)

lemma acl_passes:
  "authorise_acl env require_acl acl_policy sender t data = Inr None \<Longrightarrow> require_acl \<Longrightarrow> acl_policy = Some policy \<Longrightarrow>
   \<exists>accesses. required_accesses t data = Inr accesses \<and> (accesses = [] \<longrightarrow> t \<notin> set GATED_MUTATIONS)
     \<and> (\<forall>a \<in> set accesses. granted policy sender a)"
  unfolding authorise_frame_passes [symmetric]
  by (auto simp: authorise_acl_def sum_bind_def split: sum.splits option.splits)

lemma ownership_passes:
  "authorise_claim_ownership ex gate sender ''claim'' data fc = Inr (fc', None) \<Longrightarrow> cg_ownership gate = Some own \<Longrightarrow>
   grants_locally (resolve_namespace own (project_of sender) (gate_asserting_hubs gate (project_of sender)))"
  by (auto simp: authorise_claim_ownership_def Let_def sum_bind_def split: sum.splits prod.splits option.splits if_splits)

lemma gate_frame_Routed:
  assumes "gate_frame check exchange relay cfg now disk cert sender t data st = (st', Routed)"
  obtains l cs fc f where
    "st' = st\<lparr>pl_rate := l, pl_auth := cs, pl_forward := fc\<rparr>"
    "verify_per_message_auth check (pc_auth cfg) now disk sender t data (pl_auth st) = (cs, Inr None)"
    "pc_corrupt_rows cfg \<noteq> [] \<longrightarrow> t \<notin> set GATED_MUTATIONS"
    "authorise_federation (pc_federation cfg) now cert sender t data = Inr (frame_disposition.LOCAL, f)"
    "authorise_acl (pc_env cfg) (pc_require_acl cfg) (pc_acl_policy cfg) sender t data = Inr None"
    "authorise_claim_ownership exchange (pc_claims cfg) sender t data (pl_forward st) = Inr (fc, None)"
proof -
  obtain end' where run: "run_frame_gates
        [allow_frame_rate cfg now sender t, allow_frame_signature check cfg now disk sender t data,
         allow_frame_recovery cfg sender t, allow_frame_federation cfg now cert sender t data, allow_frame_acl cfg sender t data,
         allow_frame_ownership exchange cfg sender t data, (\<lambda>st. (st, if relay sender t data then Some Relayed else None))] st = (st', end')"
    "end' = None \<or> end' = Some Routed"
    using assms unfolding gate_frame_def by (fastforce split: prod.splits option.splits)
  have none: "end' = None"
    using run unfolding run_gates_step by (auto simp: gates_never_route split: if_splits)
  show ?thesis
    using run(1) unfolding none run_gates_step
    by (auto dest!: passed_rate passed_signature passed_recovery passed_federation passed_acl passed_ownership
        split: if_splits intro: that)
qed

lemma local_unpeered:
  "authorise_federation gate now cert sender t data = Inr (frame_disposition.LOCAL, f) \<Longrightarrow> fg_bundle gate = Some peered \<Longrightarrow>
   signature_key data = Inr key \<Longrightarrow> key \<noteq> [] \<Longrightarrow> \<not> signing_key_is_peered peered key"
  by (auto simp: authorise_federation_def refuse_unpinned_def refuse_unresolved_def authorise_cross_domain_def sum_bind_def Let_def
      split: pin_read.splits option.splits if_splits sum.splits)

text \<open>
  C6: A frame that is routed to its handler has passed every gate of the hub.  With message
  authentication required, a frame of a signed type carries a signature of its sender that verifies
  and whose nonce it spends; under a policy, every access its verb declares is granted; a hub whose
  journal has corrupt rows routes no mutation; a claim is routed only in a namespace that resolves to
  this hub; and a frame signed with a peered key is not routed as a local one.
\<close>

theorem routed_frames_passed_gates:
  assumes "gate_frame check exchange relay cfg now disk cert sender t data st = (st', Routed)"
  shows "(ag_required (pc_auth cfg) \<and> t \<in> set DEFAULT_SIGNED_MESSAGE_TYPES \<longrightarrow>
      frame_signed check (pc_auth cfg) now sender data (pl_auth st) (pl_auth st'))
    \<and> (\<forall>policy. pc_require_acl cfg \<and> pc_acl_policy cfg = Some policy \<longrightarrow>
        (\<exists>accesses. required_accesses t data = Inr accesses \<and> (accesses = [] \<longrightarrow> t \<notin> set GATED_MUTATIONS)
          \<and> (\<forall>a \<in> set accesses. granted policy sender a)))
    \<and> (pc_corrupt_rows cfg \<noteq> [] \<longrightarrow> t \<notin> set GATED_MUTATIONS)
    \<and> (\<forall>own. t = ''claim'' \<and> cg_ownership (pc_claims cfg) = Some own \<longrightarrow>
        grants_locally (resolve_namespace own (project_of sender) (gate_asserting_hubs (pc_claims cfg) (project_of sender))))
    \<and> (\<forall>peered key. fg_bundle (pc_federation cfg) = Some peered \<and> signature_key data = Inr key \<and> key \<noteq> [] \<longrightarrow>
        \<not> signing_key_is_peered peered key)"
proof (rule gate_frame_Routed [OF assms], intro conjI impI allI)
qed (auto intro: verified_frame_signed dest: acl_passes ownership_passes local_unpeered)

section \<open>Frames served across domains\<close>

lemma gate_frame_Crossed:
  assumes "gate_frame check exchange relay cfg now disk cert sender t data st = (st', Routed_Cross_Domain)"
  obtains l st1 st2 cs f where
    "allow_frame_rate cfg now sender t st = (st1, None)"
    "allow_frame_signature check cfg now disk sender t data st1 = (st2, None)"
    "verify_per_message_auth check (pc_auth cfg) now disk sender t data (pl_auth st) = (cs, Inr None)"
    "allow_frame_recovery cfg sender t st2 = (st2, None)"
    "authorise_federation (pc_federation cfg) now cert sender t data = Inr (ALLOW_CROSS_DOMAIN, f)"
    "st' = st2" "st2 = st\<lparr>pl_rate := l, pl_auth := cs\<rparr>"
proof -
  obtain end' where run: "run_frame_gates
        [allow_frame_rate cfg now sender t, allow_frame_signature check cfg now disk sender t data,
         allow_frame_recovery cfg sender t, allow_frame_federation cfg now cert sender t data, allow_frame_acl cfg sender t data,
         allow_frame_ownership exchange cfg sender t data, (\<lambda>st. (st, if relay sender t data then Some Relayed else None))] st = (st', end')"
    "end' = Some Routed_Cross_Domain"
    using assms unfolding gate_frame_def by (fastforce split: prod.splits option.splits)
  obtain st1 st2 st3 where gates: "allow_frame_rate cfg now sender t st = (st1, None)"
    "allow_frame_signature check cfg now disk sender t data st1 = (st2, None)"
    "allow_frame_recovery cfg sender t st2 = (st3, None)"
    "allow_frame_federation cfg now cert sender t data st3 = (st', Some Routed_Cross_Domain)"
    using run(1) unfolding run(2) run_gates_step
    by (auto simp: only_federation_crosses split: if_splits)
  show ?thesis
    using passed_rate [OF gates(1)] passed_signature [OF gates(2)] passed_recovery [OF gates(3)]
      gates(4) [unfolded crossed_federation] gates(1-3) that by fastforce
qed

text \<open>
  C7: A frame is served for another domain only with that domain's authority.  Where both gates
  have the settings of one hub, it carries an event signature of its sender that verifies, under a key
  that one peering and no other holds together with the certificate of the socket; that peering is in
  force and grants, in the namespace of the sender, every access the verb declares.  So a hub whose
  posture check finds no peering that can authorise serves no such frame.
\<close>

theorem cross_domain_frames_peered:
  assumes "gate_frame check exchange relay cfg now disk cert sender t data st = (st', Routed_Cross_Domain)"
    and "fg_bundle (pc_federation cfg) = Some (new_bundle peers)"
    and "fg_require_auth (pc_federation cfg) = ag_required (pc_auth cfg)"
  shows "(\<exists>key pin accesses. signature_key data = Inr key \<and> key \<noteq> [] \<and> cert = Pin pin \<and> required_accesses t data = Inr accesses
        \<and> peering_serves (new_bundle peers) now key pin (project_of sender) accesses)
    \<and> dget data ''auth'' = None \<and> frame_signed check (pc_auth cfg) now sender data (pl_auth st) (pl_auth st')
    \<and> bundle_can_authorise (new_bundle peers) now"
proof (rule gate_frame_Crossed [OF assms(1)])
  fix l st1 st2 cs f
  assume verified: "verify_per_message_auth check (pc_auth cfg) now disk sender t data (pl_auth st) = (cs, Inr None)"
    and allowed: "authorise_federation (pc_federation cfg) now cert sender t data = Inr (ALLOW_CROSS_DOMAIN, f)"
    and st: "st' = st2" "st2 = st\<lparr>pl_rate := l, pl_auth := cs\<rparr>"
  obtain key pin accesses where r: "signature_key data = Inr key" "key \<noteq> []" "cert = Pin pin" "required_accesses t data = Inr accesses"
    "peering_serves (new_bundle peers) now key pin (project_of sender) accesses"
    "fg_require_auth (pc_federation cfg)" "t \<in> set DEFAULT_SIGNED_MESSAGE_TYPES" "dget data ''auth'' = None"
    using allowed federation_allows [OF new_bundle_ok assms(2), THEN iffD1] by blast
  then show ?thesis
    using verified_frame_signed [OF _ r(7) verified] peering_serves_posture [OF r(5)] assms(3) st by auto
qed

lemma kept_settings:
  "pc_env (cfg\<lparr>pc_require_acl := acl, pc_acl_policy := policy, pc_claims := claims'\<rparr>) = pc_env cfg"
  "pc_auth (cfg\<lparr>pc_require_acl := acl, pc_acl_policy := policy, pc_claims := claims'\<rparr>) = pc_auth cfg"
  "pc_corrupt_rows (cfg\<lparr>pc_require_acl := acl, pc_acl_policy := policy, pc_claims := claims'\<rparr>) = pc_corrupt_rows cfg"
  by simp_all

lemma local_settings:
  "allow_frame_rate (cfg\<lparr>pc_require_acl := acl, pc_acl_policy := policy, pc_claims := claims'\<rparr>) = allow_frame_rate cfg"
  "allow_frame_signature check (cfg\<lparr>pc_require_acl := acl, pc_acl_policy := policy, pc_claims := claims'\<rparr>)
    = allow_frame_signature check cfg"
  "allow_frame_recovery (cfg\<lparr>pc_require_acl := acl, pc_acl_policy := policy, pc_claims := claims'\<rparr>) = allow_frame_recovery cfg"
  unfolding allow_frame_rate_def [abs_def] allow_frame_signature_def [abs_def] allow_frame_recovery_def [abs_def]
    refuse_mutation_def kept_settings by (rule refl)+

text \<open>
  C8: A frame served across domains is not asked for what local frames are: whatever the policy of
  the hub and whatever the ownership of its namespaces, the frame is served all the same, a claim in a
  namespace that another hub owns or contests included.
\<close>

theorem cross_domain_skips_local_gates:
  assumes "gate_frame check exchange relay cfg now disk cert sender t data st = (st', Routed_Cross_Domain)"
  shows "gate_frame check exchange' relay' (cfg\<lparr>pc_require_acl := acl, pc_acl_policy := policy, pc_claims := claims'\<rparr>)
      now disk cert sender t data st = (st', Routed_Cross_Domain)"
proof (rule gate_frame_Crossed [OF assms])
  let ?cfg = "cfg\<lparr>pc_require_acl := acl, pc_acl_policy := policy, pc_claims := claims'\<rparr>"
  fix l st1 st2 cs f
  assume "allow_frame_rate cfg now sender t st = (st1, None)"
    and "allow_frame_signature check cfg now disk sender t data st1 = (st2, None)"
    and "allow_frame_recovery cfg sender t st2 = (st2, None)"
    and "authorise_federation (pc_federation cfg) now cert sender t data = Inr (ALLOW_CROSS_DOMAIN, f)" "st' = st2"
  then have "allow_frame_rate ?cfg now sender t st = (st1, None)"
    "allow_frame_signature check ?cfg now disk sender t data st1 = (st2, None)"
    "allow_frame_recovery ?cfg sender t st2 = (st2, None)"
    "allow_frame_federation ?cfg now cert sender t data st2 = (st', Some Routed_Cross_Domain)"
    by (simp_all add: local_settings crossed_federation)
  then show ?thesis by (simp add: gate_frame_def)
qed

section \<open>The way at concrete claims\<close>

definition idle_pipeline :: pipeline where
  "idle_pipeline = \<lparr>pl_rate = None, pl_auth = \<lparr>ac_message = demo_cache, ac_event = demo_cache\<rparr>,
     pl_forward = \<lparr>fc_forwarded = 0, fc_timeouts = 0, fc_granted = 0, fc_denied = 0\<rparr>,
     pl_rate_limited = 0, pl_auth_failures = 0, pl_federation_denied = 0\<rparr>"

definition open_gate :: claim_gate where
  "open_gate = \<lparr>cg_env = demo_env, cg_ownership = None, cg_feed = None, cg_peers = []\<rparr>"

text \<open>A signed local claim, under a policy.\<close>

definition local_config :: pipeline_config where
  "local_config = \<lparr>pc_env = demo_env, pc_auth = \<lparr>ag_env = demo_env, ag_required = True, ag_keys = demo_keys, ag_bundle = None\<rparr>,
     pc_corrupt_rows = [], pc_federation = \<lparr>fg_env = demo_env, fg_bundle = None, fg_require_auth = True, fg_signed_event_trust = False\<rparr>,
     pc_require_acl = True, pc_acl_policy = Some src_policy, pc_claims = open_gate\<rparr>"

definition local_claim :: json_object where
  "local_claim = signed_envelope (env_float_text demo_env) ((''sender'', JString ''a'') # claim_frame_T) demo_key ''n'' 1 (JFloat (Finite 0))"

lemma local_claim_shape: "\<exists>x. local_claim = (''sender'', JString ''a'') # claim_frame_T @ [(''auth'', x)]"
  by (simp add: local_claim_def signed_envelope_def claim_frame_T_def Let_def)

lemma claim_with_field:
  "lease_task_id ClaimVerb ((''sender'', JString who) # claim_frame_T @ [(''auth'', x)]) = Inr ''T''"
  "claim_targets ((''sender'', JString who) # claim_frame_T @ [(''auth'', x)]) ''T'' = claim_targets claim_frame_T ''T''"
  by code_simp+

lemma local_verified:
  "\<exists>cs. verify_per_message_auth check (pc_auth local_config) 0 True ''a'' ''claim'' local_claim (pl_auth idle_pipeline) = (cs, Inr None)"
proof -
  obtain x where x: "local_claim = (''sender'', JString ''a'') # claim_frame_T @ [(''auth'', x)]" using local_claim_shape by blast
  have auth: "dget local_claim ''auth'' \<noteq> None" by (simp add: x claim_frame_T_def)
  have "authentic (env_float_text demo_env) demo_keys demo_cache ''a'' local_claim (nonce_request_of ''k'' ''a'' ''n'' 1 (Finite 0) 0 True)"
    unfolding local_claim_def
    by (rule envelope_authentic [where key = demo_key, unfolded demo_key_def message_auth_key.simps, folded demo_key_def])
      (simp_all add: demo_keys_def demo_key_def body_text_string stamp_zero demo_first(2))
  from verify_authentic [OF this]
  have "\<exists>c'. verify_frame (env_float_text demo_env) demo_keys 0 True ''a'' local_claim demo_cache = (c', Inr OK)"
    using demo_first(1) [of "Finite 0"] by (simp add: nonce_request_of_def)
  then show ?thesis using auth
    by (auto simp: verify_per_message_auth_def local_config_def idle_pipeline_def DEFAULT_SIGNED_MESSAGE_TYPES_def Let_def)
qed

lemma local_passes: "authorise_frame ''a'' ''claim'' local_claim src_policy = Inr None"
proof -
  obtain x where x: "local_claim = (''sender'', JString ''a'') # claim_frame_T @ [(''auth'', x)]" using local_claim_shape by blast
  show ?thesis
    using passes_claim [OF claim_with_field(1) claim_with_field(2) [THEN trans, OF src_policy_checks(1)] _ src_policy_checks(2), of "''a''" x]
    by (simp add: x)
qed

lemma local_routed:
  "\<exists>st'. gate_frame check exchange (\<lambda>_ _ _. False) local_config 0 True No_Certificate ''a'' ''claim'' local_claim idle_pipeline
     = (st', Routed)"
proof -
  obtain cs where v: "verify_per_message_auth check (pc_auth local_config) 0 True ''a'' ''claim'' local_claim (pl_auth idle_pipeline) = (cs, Inr None)"
    using local_verified by blast
  have rate: "pl_rate idle_pipeline = None" by (simp add: idle_pipeline_def)
  show ?thesis using v rate local_passes
    by (simp add: gate_frame_def gate_defs refuse_mutation_def authorise_federation_def authorise_acl_def
        authorise_claim_ownership_def sum_bind_def) (simp add: local_config_def open_gate_def)
qed

theorem routed_frames_passed_gates_witness:
  "\<forall>check exchange. \<exists>st'. gate_frame check exchange (\<lambda>_ _ _. False) local_config 0 True No_Certificate ''a'' ''claim'' local_claim idle_pipeline
       = (st', Routed)
     \<and> frame_signed check (pc_auth local_config) 0 ''a'' local_claim (pl_auth idle_pipeline) (pl_auth st')"
proof (intro allI)
  fix check and exchange :: exchange
  obtain st' where run: "gate_frame check exchange (\<lambda>_ _ _. False) local_config 0 True No_Certificate ''a'' ''claim'' local_claim idle_pipeline
      = (st', Routed)" using local_routed by blast
  have "ag_required (pc_auth local_config) \<and> ''claim'' \<in> set DEFAULT_SIGNED_MESSAGE_TYPES"
    by (simp add: local_config_def DEFAULT_SIGNED_MESSAGE_TYPES_def)
  then show "\<exists>st'. gate_frame check exchange (\<lambda>_ _ _. False) local_config 0 True No_Certificate ''a'' ''claim'' local_claim idle_pipeline
       = (st', Routed)
     \<and> frame_signed check (pc_auth local_config) 0 ''a'' local_claim (pl_auth idle_pipeline) (pl_auth st')"
    using run routed_frames_passed_gates [OF run] by blast
qed

text \<open>A claim signed in another domain.\<close>

definition event_key :: event_signature_key where
  "event_key = \<lparr>ek_key_id = ''k'', ek_public_key = [], ek_senders = [''p/x''], ek_projects = [], ek_expires_at = None, ek_revoked = False\<rparr>"

definition serving_peer :: federation_peer where
  "serving_peer = \<lparr>fp_domain_id = ''d'', fp_namespaces = [''p''], fp_certificate_pins = [''c''], fp_signing_key_ids = [''k''],
     fp_scope_grants = [\<lparr>sg_verb = ''claim'', sg_namespace = ''p''\<rparr>], fp_expires_at = None, fp_revoked = False\<rparr>"

definition serving_config :: pipeline_config where
  "serving_config = \<lparr>pc_env = demo_env,
     pc_auth = \<lparr>ag_env = demo_env, ag_required = True, ag_keys = [], ag_bundle = Some [(''k'', event_key)]\<rparr>, pc_corrupt_rows = [],
     pc_federation = \<lparr>fg_env = demo_env, fg_bundle = Some (new_bundle [serving_peer]), fg_require_auth = True, fg_signed_event_trust = True\<rparr>,
     pc_require_acl = False, pc_acl_policy = None, pc_claims = open_gate\<rparr>"

definition foreign_claim :: json_object where
  "foreign_claim = (''sender'', JString ''p/x'') # claim_frame_T @
     [(''signature'', JObject [(''version'', JInt 1), (''key_id'', JString ''k''), (''algorithm'', JString ''ed25519''), (''nonce'', JString ''n''),
        (''sequence'', JInt 1), (''signed_at'', JFloat (Finite 0)), (''value'', JString ''s'')])]"

text \<open>The namespace of the claim has another owner.\<close>

definition foreign_gate :: claim_gate where
  "foreign_gate = \<lparr>cg_env = demo_env, cg_ownership = Some \<lparr>no_owners = [(''p'', ''b'')], no_local = ''h''\<rparr>, cg_feed = None, cg_peers = []\<rparr>"

lemma foreign_verified:
  "snd (verify_per_message_auth (\<lambda>_ _ _. True) (pc_auth serving_config) 0 True ''p/x'' ''claim'' foreign_claim (pl_auth idle_pipeline)) = Inr None"
  by code_simp

lemma foreign_reads:
  "signature_key foreign_claim = Inr ''k''" "project_of ''p/x'' = ''p''" "dget foreign_claim ''auth'' = None"
  "lease_task_id ClaimVerb foreign_claim = Inr ''T''"
  "claim_targets foreign_claim ''T'' = Inr [on ''claim'' ''claim'' ''T'', on ''claim'' ''path'' ''src'']"
  "py_strip ''T'' = ''T''"
  by code_simp+

lemma foreign_accesses: "required_accesses ''claim'' foreign_claim = Inr [on ''claim'' ''claim'' ''T'', on ''claim'' ''path'' ''src'']"
  using lease_accesses [of ClaimVerb foreign_claim] foreign_reads(4-6) by (simp add: sum_bind_def del: lease_task_id.simps)

lemma foreign_allowed:
  "\<exists>f. authorise_federation (pc_federation serving_config) 0 (Pin ''c'') ''p/x'' ''claim'' foreign_claim = Inr (ALLOW_CROSS_DOMAIN, f)"
proof -
  have fed: "fg_bundle (pc_federation serving_config) = Some (new_bundle [serving_peer])" by (simp add: serving_config_def)
  have peer: "peers_matching (new_bundle [serving_peer]) ''k'' ''c'' = {serving_peer}"
    by (auto simp: peers_matching_def new_bundle_def serving_peer_def)
  have "peering_serves (new_bundle [serving_peer]) 0 ''k'' ''c'' (project_of ''p/x'') [on ''claim'' ''claim'' ''T'', on ''claim'' ''path'' ''src'']"
    unfolding peering_serves_def foreign_reads(2)
    by (rule exI [of _ serving_peer]) (simp add: peer, simp add: serving_peer_def is_active_def on_def)
  then show ?thesis
    unfolding federation_allows [OF new_bundle_ok fed]
    using foreign_reads(1,3) foreign_accesses by (auto simp: serving_config_def DEFAULT_SIGNED_MESSAGE_TYPES_def)
qed

lemma foreign_served:
  "\<exists>st'. gate_frame (\<lambda>_ _ _. True) exchange relay serving_config 0 True (Pin ''c'') ''p/x'' ''claim'' foreign_claim idle_pipeline
     = (st', Routed_Cross_Domain)"
proof -
  obtain cs where v: "verify_per_message_auth (\<lambda>_ _ _. True) (pc_auth serving_config) 0 True ''p/x'' ''claim'' foreign_claim (pl_auth idle_pipeline)
      = (cs, Inr None)" using foreign_verified by (metis prod.collapse)
  have rate: "pl_rate idle_pipeline = None" "pc_corrupt_rows serving_config = []" by (simp_all add: idle_pipeline_def serving_config_def)
  show ?thesis using v rate foreign_allowed
    by (auto simp: gate_frame_def allow_frame_rate_def allow_frame_signature_def allow_frame_recovery_def allow_frame_federation_def refuse_mutation_def)
qed

theorem cross_domain_frames_peered_witness:
  "\<forall>exchange relay. \<exists>st'. gate_frame (\<lambda>_ _ _. True) exchange relay serving_config 0 True (Pin ''c'') ''p/x'' ''claim'' foreign_claim idle_pipeline
      = (st', Routed_Cross_Domain)
    \<and> frame_signed (\<lambda>_ _ _. True) (pc_auth serving_config) 0 ''p/x'' foreign_claim (pl_auth idle_pipeline) (pl_auth st')"
proof (intro allI)
  fix exchange :: exchange and relay
  obtain st' where run: "gate_frame (\<lambda>_ _ _. True) exchange relay serving_config 0 True (Pin ''c'') ''p/x'' ''claim'' foreign_claim idle_pipeline
      = (st', Routed_Cross_Domain)" using foreign_served by blast
  have "fg_bundle (pc_federation serving_config) = Some (new_bundle [serving_peer])"
    "fg_require_auth (pc_federation serving_config) = ag_required (pc_auth serving_config)" by (simp_all add: serving_config_def)
  from cross_domain_frames_peered [OF run this] run
  show "\<exists>st'. gate_frame (\<lambda>_ _ _. True) exchange relay serving_config 0 True (Pin ''c'') ''p/x'' ''claim'' foreign_claim idle_pipeline
      = (st', Routed_Cross_Domain)
    \<and> frame_signed (\<lambda>_ _ _. True) (pc_auth serving_config) 0 ''p/x'' foreign_claim (pl_auth idle_pipeline) (pl_auth st')" by blast
qed

text \<open>Served where a local claim in the same namespace is refused.\<close>

theorem cross_domain_skips_local_gates_witness:
  "\<forall>exchange relay fc. \<exists>st' refusal.
     gate_frame (\<lambda>_ _ _. True) exchange relay (serving_config\<lparr>pc_require_acl := True, pc_acl_policy := Some [], pc_claims := foreign_gate\<rparr>)
       0 True (Pin ''c'') ''p/x'' ''claim'' foreign_claim idle_pipeline = (st', Routed_Cross_Domain)
     \<and> authorise_claim_ownership exchange foreign_gate ''p/x'' ''claim'' foreign_claim fc = Inr (fc, Some refusal)"
proof (intro allI)
  fix exchange :: exchange and relay fc
  obtain st' where run: "gate_frame (\<lambda>_ _ _. True) exchange relay serving_config 0 True (Pin ''c'') ''p/x'' ''claim'' foreign_claim idle_pipeline
      = (st', Routed_Cross_Domain)" using foreign_served by blast
  have reads: "first_text foreign_claim [''task_id'', ''payload''] = Inr ''T''"
    "\<not> json_truthy (get_field foreign_claim ''local_renewal'')" "dget foreign_claim ''renew_epoch'' = None" by code_simp+
  have "\<exists>refusal. authorise_claim_ownership exchange foreign_gate ''p/x'' ''claim'' foreign_claim fc = Inr (fc, Some refusal)"
    by (simp add: authorise_claim_ownership_def foreign_gate_def foreign_reads(2) resolve_namespace_def grants_locally_def reads sum_bind_def
        forward_remote_claim_def gate_asserting_hubs_def Let_def del: first_text.simps)
  then show "\<exists>st' refusal.
     gate_frame (\<lambda>_ _ _. True) exchange relay (serving_config\<lparr>pc_require_acl := True, pc_acl_policy := Some [], pc_claims := foreign_gate\<rparr>)
       0 True (Pin ''c'') ''p/x'' ''claim'' foreign_claim idle_pipeline = (st', Routed_Cross_Domain)
     \<and> authorise_claim_ownership exchange foreign_gate ''p/x'' ''claim'' foreign_claim fc = Inr (fc, Some refusal)"
    using cross_domain_skips_local_gates [OF run] by blast
qed

end
