(* ===== verification/Spec2Isabelle.thy ===== *)
theory Spec2Isabelle
  imports Deadlock Ledger_Properties Compaction Merkle_Properties Sha256_Vector
    Multihub_Follower Leasing_Properties Verdict_Gate Acl_Properties
    Channel_Properties Ownership_Properties Forwarding_Properties
    Auth_Properties Client_Takeovers Walk_Bounds Pipeline_Properties
begin

text \<open>
  Verification development for synapse-channel, the coordination hub of
  \<open>src/src/synapse_channel/\<close>.  Agents talk to one hub over frames; the hub keeps a registry of
  scoped task claims, a plan of tasks with a progress stream and an append-only journal from which
  a restart rebuilds both.  File names below are relative to that directory.

  The parts and how they interact.  A lease frame is decoded by a handler of
  \<open>core/handlers/leasing.py\<close>, applied to a candidate copy of the registry (\<open>core/state.py\<close>) by the
  atomic actor (\<open>core/state_transaction.py\<close>), journaled (\<open>core/journal.py\<close>), and only then published
  and answered.  The registry decides scope conflicts over normalised paths (\<open>core/scoping.py\<close>) and
  object identities (\<open>core/path_identity.py\<close>), sweeps lapsed claims through a heap
  (\<open>core/state_leases.py\<close>) and hands out fencing epochs.  The plan (\<open>core/ledger.py\<close>) and the waits
  (\<open>core/deadlock.py\<close>) are graphs kept acyclic by refusals.  A restart replays the journal through
  \<open>core/journal_appliers.py\<close>, possibly after \<open>core/compaction.py\<close>.  The journal is committed to by a
  Merkle tree (\<open>core/merkle.py\<close>), read by other hubs (\<open>core/multihub_merge.py\<close>, \<open>multihub_fold.py\<close>,
  \<open>multihub_follower.py\<close>, \<open>multihub_equivocation.py\<close>, \<open>task_causality.py\<close>), and its progress notes
  carry reviewers' verdicts (\<open>core/verdict_records.py\<close>, \<open>verdict_staleness.py\<close>).

  Theories.
  \<^item> Prelude: strings, dictionaries (association lists in insertion order), floats with the
    infinities and nan.  Json: values of frames and payloads.  Json\_Text: \<open>json.loads\<close> and
    \<open>json.dumps\<close> with their round trip.  Numeric\_Coercion: \<open>core/numeric_coercion.py\<close> and the
    parsing of numbers it relies on.
  \<^item> Scoping, Path\_Identity, Lifecycle, State\_Models, Lease\_Index, Synapse\_State: the data and the
    operations of the claim registry, one definition per function of the file of the same name.
    State\_Invariants, Registry\_Spec, State\_Safety, State\_Properties: the invariant of the registry,
    an abstract machine of holdings, the refinement of every operation to it, and what follows for
    scopes, epochs, quotas and handoffs over every reachable state.
  \<^item> Graph\_Walk, Deadlock: the depth-first walk and the wait graph.  Walk\_Bounds: how long the two
    walks that refuse a cycle run.  Kahn: the order of a causal graph.
  \<^item> Ledger, Ledger\_Properties: the plan, the progress stream and the snapshot.
  \<^item> Journal, Journal\_Codec, Journal\_Replay, Compaction: rows, their decoding, replay, and the
    deletion of superseded rows.
  \<^item> Atomic\_Operations, Atomic\_Properties: the actor, its idempotency cache and operation table, crash
    and restart, and the locale of journaled subjects.  A keyed operation is one transaction; the rows
    of the plain path are one transaction each, so an append can fail between two of them, and the runs
    keep the rows such a failure left in the log.
  \<^item> Release\_Receipt, Leasing, Registry\_Log, Leasing\_Journal, Leasing\_Properties: the receipt of a
    release, the five lease verbs and the sweep of abandoned claims as requests of the actor, their
    handlers (\<open>handle\_lease\<close>: a claim frame runs the sweep first), the
    interpretation of the locale on the registry, and what the verbs answer.
  \<^item> Sha256, Sha256\_Vector, Merkle, Merkle\_Properties: the hash over words, the recursive and the
    streaming tree, proofs of inclusion.
  \<^item> Fingerprint, Multihub\_Merge, Multihub\_Fold, Multihub\_Heads, Multihub\_Follower: the encoding of an
    event, the merge of logs, the heads of a board and the state machine of a follower.
  \<^item> Verdict\_Records, Verdict\_Staleness, Verdict\_Properties: the record bodies, the fold over them and the
    approval gate, against a specification over the set of what was said.  Verdict\_Hub, Verdict\_Gate:
    admission and the gate of the hub (\<open>core/verdict_hub.py\<close>, \<open>core/handlers/verdict_admission.py\<close>).
  \<^item> Acl, Verb\_Table, Acl\_Gate, Acl\_Properties: the rules, shell patterns and accesses of
    \<open>core/acl.py\<close> and \<open>core/verb_access.py\<close>, the declarations of all verbs
    (\<open>core/verb_registry.py\<close>, the \<open>VERB_SPECS\<close> of \<open>core/handlers\<close>), the gate
    (\<open>core/acl_enforcement.py\<close>), and what a frame that passed it can do to the registry.
  \<^item> Channels, Channel\_Properties: private channels (\<open>core/channels.py\<close>, \<open>core/handlers/channels.py\<close>,
    \<open>_route_channel_chat\<close>), the price of a join, and what an outsider can see.
  \<^item> Namespace\_Ownership, Ownership\_Properties: which hub may grant in a namespace
    (\<open>core/namespace_ownership.py\<close>), the watch over the peers (\<open>core/multihub_watch.py\<close>) and its partition
    rows; that the partitions survive restarts under a fixed ownership map and fixed peers, that no
    silence heals one, and which errors of a peer a round does not absorb.
  \<^item> Claim\_Forwarding, Forwarding\_Properties: a claim routed to the hub that owns its namespace
    (\<open>authorise_claim_ownership\<close> of \<open>core/hub_frame_gates.py\<close>, \<open>core/multihub_claim_wire.py\<close>,
    \<open>core/multihub_claim_transport.py\<close>, \<open>core/handlers/multihub_claim.py\<close>); that it is the claim the
    owner would make itself, that one hub grants, and where the route is weaker than a direct frame.
  \<^item> Message\_Auth, Auth\_Properties: signed frames and events, the replay cache over its durable ledger
    (\<open>core/message_auth.py\<close>, \<open>message_auth_durable.py\<close>), its use for encrypted payloads
    (\<open>payload_replay.py\<close>) and the gate (\<open>verify_per_message_auth\<close>); the interface of a replay ledger as
    locales, that nothing is accepted twice over any run, and the frames that break the verification.
  \<^item> Client\_Registry, Client\_Properties, Client\_Takeovers: the sockets and names of the hub
    (\<open>core/hub_clients.py\<close>, \<open>core/name_ownership.py\<close>) as the steps between the awaits of a registration;
    their invariants over every interleaving, what leases and the damping of takeovers guarantee, and the
    two races in a registration.
  \<^item> Federation, Peering: peered domains (\<open>core/federation.py\<close>) and the gate that classifies a frame
    (\<open>core/hub_federation_gate.py\<close>).  Frame\_Pipeline, Pipeline\_Properties: rate limits
    (\<open>core/ratelimit.py\<close>), the envelope (\<open>core/hub_frame_pipeline.py\<close>) and the ordered gates
    (\<open>_gate_frame\<close> of \<open>core/hub.py\<close>) composed of those of the theories above; how much a limiter
    admits, what a routed frame has passed, and what a cross-domain one has and has not.

  Correspondence.  A dataclass is a record with the source's fields (prefixed where two would
  clash); a dictionary is an association list that keeps insertion order; a set is a HOL set or a
  list where its order is visible; an exception is the left value of a sum; a method that mutates
  its object takes and returns the state.  Python integers are \<open>int\<close>; times are rationals.
  The hash works on words of 32 bits.

  Bounds and fuel.  The readers of JSON text take fuel equal to the length of the text, and each
  step consumes a character.  The walks over graphs take their measure from the nodes not yet
  visited.  The dependency walk of a verdict has the depth bound of the code itself.  All other
  recursion is structural or has a termination proof.

  Parameters.  The text and the packed bytes of a float, Unicode case folding and normal form C,
  the clock and the identifiers drawn at random are arguments; what a proof needs of them is a
  hypothesis with a witness.

  Not modelled.  Characters above code point 255; the SQLite statements under
  \<open>core/persistence.py\<close> (a transaction appends its rows or fails as a whole); sockets, broadcast and
  asyncio scheduling (interleavings are sequences of steps); Ed25519 (a parameter), TLS and encryption; the
  command line, the dashboard, the MCP and A2A servers, host integration, protected writes beyond
  the custody record, message delivery, the certificates and transports of federation, and the reports over the journal.
  They are outside because they are effects of external libraries and devices, or because they
  have not been reached; the component list of the project says which.
\<close>

end
